(* ===== verification/Prelude.thy ===== *)
theory Prelude
  imports Complex_Main "HOL-Library.AList"
begin

text \<open>
  What the component theories share: Python's exceptions as values, dictionaries that keep
  their insertion order, the dynamically typed values a workflow state holds, decimal
  printing and reading, stable sorting, the collections of simplification rules the proofs use, and the
  two interfaces that several components provide (a registry keyed by a field of what it
  stores, a machine whose operations keep an invariant).
\<close>

named_theorems dict_simps \<open>lookup, key and membership laws of insertion-ordered dictionaries\<close>
named_theorems py_defs \<open>unfolding rules for the small wrappers of the Python runtime\<close>

section \<open>Exceptions and results\<close>

text \<open>
  A raised exception is the name of its class and its \<^verbatim>\<open>str()\<close>. A computation that may
  raise returns \<open>py_exc + 'a\<close>; \<open>bind_result\<close> is the propagation of an exception
  through the statements that follow.
\<close>

datatype py_exc = PyExc (exc_type: string) (exc_msg: string)

type_synonym 'a result = "py_exc + 'a"

type_synonym time = real

definition bind_result :: "'a result \<Rightarrow> ('a \<Rightarrow> 'b result) \<Rightarrow> 'b result" where
  "bind_result r f = (case r of Inl e \<Rightarrow> Inl e | Inr x \<Rightarrow> f x)"

lemma bind_result_simps [simp]:
  "bind_result (Inl e) f = Inl e"
  "bind_result (Inr x) f = f x"
  by (simp_all add: bind_result_def)

lemma bind_result_eq_Inr:
  "bind_result r f = Inr y \<longleftrightarrow> (\<exists>x. r = Inr x \<and> f x = Inr y)"
  by (cases r) auto

text \<open>
  An exception is its text and the names of its classes, the most derived one first (its
  method resolution order without \<^verbatim>\<open>object\<close>); \<^verbatim>\<open>except\<close> and \<^verbatim>\<open>isinstance\<close> look there.
\<close>

record raised =
  classes :: "string list"
  raised_text :: string

definition instance_of :: "raised \<Rightarrow> string list \<Rightarrow> bool" where
  "instance_of e cs = list_ex (\<lambda>c. c \<in> set cs) (classes e)"

text \<open>What a call of a function ends with, where the classes of an exception matter.\<close>

datatype 'v outcome = Returned 'v | Raised raised

text \<open>A loop body that may raise, run over a list: it stops at the first exception.\<close>

primrec fold_result :: "('x \<Rightarrow> 's \<Rightarrow> 's result) \<Rightarrow> 'x list \<Rightarrow> 's \<Rightarrow> 's result" where
  "fold_result f [] s = Inr s"
| "fold_result f (x # xs) s = bind_result (f x s) (fold_result f xs)"

lemma fold_result_invariant:
  assumes "fold_result f xs s = Inr s'" and "P s"
    and "\<And>x s s'. x \<in> set xs \<Longrightarrow> P s \<Longrightarrow> f x s = Inr s' \<Longrightarrow> P s'"
  shows "P s'"
  using assms by (induction xs arbitrary: s) (auto simp: bind_result_eq_Inr)

text \<open>A loop whose body may raise and changes the state on the way: it stops at the first exception
  and what was done before stays done.\<close>

primrec run_each :: "('x \<Rightarrow> 's \<Rightarrow> unit result \<times> 's) \<Rightarrow> 'x list \<Rightarrow> 's \<Rightarrow> unit result \<times> 's" where
  "run_each f [] s = (Inr (), s)"
| "run_each f (x # xs) s = (case f x s of (Inl e, s) \<Rightarrow> (Inl e, s) | (Inr _, s) \<Rightarrow> run_each f xs s)"

lemma run_each_append:
  "run_each f (xs @ ys) s = (case run_each f xs s of (Inl e, s) \<Rightarrow> (Inl e, s) | (Inr _, s) \<Rightarrow> run_each f ys s)"
  by (induction xs arbitrary: s) (auto split: prod.splits sum.splits)

text \<open>The answers to a sequence of calls.\<close>

primrec answers :: "('x \<Rightarrow> 's \<Rightarrow> 'a \<times> 's) \<Rightarrow> 'x list \<Rightarrow> 's \<Rightarrow> 'a list \<times> 's" where
  "answers step [] s = ([], s)"
| "answers step (x # xs) s = (case step x s of (a, s) \<Rightarrow> case answers step xs s of (as, s) \<Rightarrow> (a # as, s))"

section \<open>Dictionaries\<close>

text \<open>
  A Python dictionary is an association list in insertion order: storing under an existing
  key keeps its place, storing under a new key appends. \<open>dict_ok\<close> is the runtime's
  invariant that a key occurs once.
\<close>

type_synonym ('k, 'v) dict = "('k \<times> 'v) list"

abbreviation dict_get :: "('k, 'v) dict \<Rightarrow> 'k \<Rightarrow> 'v option" where
  "dict_get d k \<equiv> map_of d k"

abbreviation dict_set :: "'k \<Rightarrow> 'v \<Rightarrow> ('k, 'v) dict \<Rightarrow> ('k, 'v) dict" where
  "dict_set k v d \<equiv> AList.update k v d"

abbreviation dict_pop :: "'k \<Rightarrow> ('k, 'v) dict \<Rightarrow> ('k, 'v) dict" where
  "dict_pop k d \<equiv> AList.delete k d"

definition dict_keys :: "('k, 'v) dict \<Rightarrow> 'k list" where
  "dict_keys d = map fst d"

definition dict_values :: "('k, 'v) dict \<Rightarrow> 'v list" where
  "dict_values d = map snd d"

definition dict_has :: "('k, 'v) dict \<Rightarrow> 'k \<Rightarrow> bool" where
  "dict_has d k \<longleftrightarrow> dict_get d k \<noteq> None"

definition dict_ok :: "('k, 'v) dict \<Rightarrow> bool" where
  "dict_ok d \<longleftrightarrow> distinct (map fst d)"

text \<open>\<^verbatim>\<open>d.update(e)\<close>: the entries of \<open>e\<close> are stored one after the other.\<close>

primrec dict_update :: "('k, 'v) dict \<Rightarrow> ('k, 'v) dict \<Rightarrow> ('k, 'v) dict" where
  "dict_update d [] = d"
| "dict_update d (p # e) = dict_update (dict_set (fst p) (snd p) d) e"

text \<open>\<^verbatim>\<open>d.get(k, default)\<close>.\<close>

definition dict_get_or :: "('k, 'v) dict \<Rightarrow> 'k \<Rightarrow> 'v \<Rightarrow> 'v" where
  "dict_get_or d k x = (case dict_get d k of None \<Rightarrow> x | Some v \<Rightarrow> v)"

lemma dict_get_set [dict_simps]:
  "dict_get (dict_set k v d) k' = (if k' = k then Some v else dict_get d k')"
  by (simp add: update_conv')

lemma dict_get_pop [dict_simps]:
  "dict_get (dict_pop k d) k' = (if k' = k then None else dict_get d k')"
  by (simp add: delete_conv')

lemma dict_has_set [dict_simps]:
  "dict_has (dict_set k v d) k' \<longleftrightarrow> k' = k \<or> dict_has d k'"
  by (simp add: dict_has_def dict_get_set)

lemma dict_has_pop [dict_simps]:
  "dict_has (dict_pop k d) k' \<longleftrightarrow> k' \<noteq> k \<and> dict_has d k'"
  by (simp add: dict_has_def dict_get_pop)

lemma dict_has_keys: "dict_has d k \<longleftrightarrow> k \<in> set (dict_keys d)"
  by (simp add: dict_has_def dict_keys_def map_of_eq_None_iff)

lemma dict_hasD: "dict_get d k = Some v \<Longrightarrow> dict_has d k"
  by (simp add: dict_has_def)

lemma dict_ok_set [simp]: "dict_ok d \<Longrightarrow> dict_ok (dict_set k v d)"
  by (simp add: dict_ok_def distinct_update)

lemma dict_ok_pop [simp]: "dict_ok d \<Longrightarrow> dict_ok (dict_pop k d)"
  by (simp add: dict_ok_def distinct_delete)

lemma dict_ok_empty [simp]: "dict_ok []"
  by (simp add: dict_ok_def)

lemma dict_ok_update [simp]: "dict_ok d \<Longrightarrow> dict_ok (dict_update d e)"
  by (induction e arbitrary: d) auto

lemma dict_keys_set [dict_simps]:
  "dict_keys (dict_set k v d) = (if dict_has d k then dict_keys d else dict_keys d @ [k])"
  by (simp add: dict_keys_def dict_has_keys update_keys)

lemma set_dict_keys_set [dict_simps]:
  "set (dict_keys (dict_set k v d)) = insert k (set (dict_keys d))"
  by (auto simp: dict_keys_set dict_has_keys)

text \<open>After an update the argument's last entry for a key wins.\<close>

lemma dict_get_update:
  "dict_get (dict_update d e) k =
     (case dict_get (rev e) k of None \<Rightarrow> dict_get d k | Some v \<Rightarrow> Some v)"
proof (induction e arbitrary: d)
  case (Cons p e)
  show ?case
    by (cases "dict_get (rev e) k")
      (auto simp: Cons map_add_def update_conv' split: option.splits)
qed simp

lemma dict_get_rev: "dict_ok e \<Longrightarrow> dict_get (rev e) k = dict_get e k"
  by (rule arg_cong [of _ _ "\<lambda>m. m k"], subst map_of_inject_set)
    (auto simp: dict_ok_def simp flip: rev_map)

lemma dict_get_update_ok:
  "dict_ok e \<Longrightarrow> dict_get (dict_update d e) k =
     (case dict_get e k of None \<Rightarrow> dict_get d k | Some v \<Rightarrow> Some v)"
  by (simp add: dict_get_update dict_get_rev)

lemma dict_get_items: "dict_ok d \<Longrightarrow> dict_get d k = Some v \<longleftrightarrow> (k, v) \<in> set d"
  by (simp add: dict_ok_def)

section \<open>Decimal numerals\<close>

text \<open>\<^verbatim>\<open>str(n)\<close> and \<^verbatim>\<open>int(s)\<close> for a non-negative integer.\<close>

definition digit_char :: "nat \<Rightarrow> char" where
  "digit_char d = char_of (48 + d)"

definition char_digit :: "char \<Rightarrow> nat" where
  "char_digit c = of_char c - (48::nat)"

definition is_digit :: "char \<Rightarrow> bool" where
  "is_digit c \<longleftrightarrow> 48 \<le> (of_char c :: nat) \<and> (of_char c :: nat) \<le> 57"

fun show_nat :: "nat \<Rightarrow> string" where
  "show_nat n = (if n < 10 then [digit_char n] else show_nat (n div 10) @ [digit_char (n mod 10)])"

declare show_nat.simps [simp del]

definition read_nat :: "string \<Rightarrow> nat" where
  "read_nat s = foldl (\<lambda>a c. 10 * a + char_digit c) 0 s"

definition show_int :: "int \<Rightarrow> string" where
  "show_int i = (if i < 0 then CHR ''-'' # show_nat (nat (- i)) else show_nat (nat i))"

lemma of_char_digit_char [simp]: "d < 10 \<Longrightarrow> (of_char (digit_char d) :: nat) = 48 + d"
  by (simp add: digit_char_def)

lemma char_digit_digit_char [simp]: "d < 10 \<Longrightarrow> char_digit (digit_char d) = d"
  by (simp add: char_digit_def)

lemma is_digit_digit_char [simp]: "d < 10 \<Longrightarrow> is_digit (digit_char d)"
  by (simp add: is_digit_def)

lemma read_nat_snoc: "read_nat (s @ [c]) = 10 * read_nat s + char_digit c"
  by (simp add: read_nat_def)

lemma read_show_nat [simp]: "read_nat (show_nat n) = n"
proof (induction n rule: show_nat.induct)
  case (1 n)
  show ?case
  proof (cases "n < 10")
    case True
    then show ?thesis by (simp add: show_nat.simps [of n] read_nat_def)
  next
    case False
    with 1 show ?thesis by (simp add: show_nat.simps [of n] read_nat_snoc)
  qed
qed

lemma show_nat_digits [simp]: "list_all is_digit (show_nat n)"
proof (induction n rule: show_nat.induct)
  case (1 n)
  show ?case
    by (cases "n < 10") (use 1 in \<open>auto simp: show_nat.simps [of n]\<close>)
qed

lemma show_nat_nonempty [simp]: "show_nat n \<noteq> []"
  by (simp add: show_nat.simps)

lemma show_nat_inject [simp]: "show_nat m = show_nat n \<longleftrightarrow> m = n"
  by (metis read_show_nat)

section \<open>Strings\<close>

text \<open>\<^verbatim>\<open>sep.join(xs)\<close>.\<close>

fun py_join :: "string \<Rightarrow> string list \<Rightarrow> string" where
  "py_join sep [] = []"
| "py_join sep [x] = x"
| "py_join sep (x # y # xs) = x @ sep @ py_join sep (y # xs)"

text \<open>\<^verbatim>\<open>s.strip()\<close> and \<^verbatim>\<open>s.lower()\<close>, for characters up to 255.\<close>

definition py_space :: "char \<Rightarrow> bool" where
  "py_space c = (let n = (of_char c :: nat) in 9 \<le> n \<and> n \<le> 13 \<or> 28 \<le> n \<and> n \<le> 32 \<or> n = 133 \<or> n = 160)"

definition py_strip :: "string \<Rightarrow> string" where
  "py_strip s = rev (dropWhile py_space (rev (dropWhile py_space s)))"

definition lower_char :: "char \<Rightarrow> char" where
  "lower_char c =
     (let n = (of_char c :: nat)
      in if 65 \<le> n \<and> n \<le> 90 \<or> 192 \<le> n \<and> n \<le> 222 \<and> n \<noteq> 215 then char_of (n + 32) else c)"

definition py_lower :: "string \<Rightarrow> string" where
  "py_lower s = map lower_char s"

text \<open>
  \<^verbatim>\<open>s.upper()\<close> for characters up to 255; of these the micro sign and y with diaeresis have
  their capital beyond 255 and are left as they are.
\<close>

definition upper_char :: "char \<Rightarrow> string" where
  "upper_char c =
     (let n = (of_char c :: nat)
      in if 97 \<le> n \<and> n \<le> 122 \<or> 224 \<le> n \<and> n \<le> 254 \<and> n \<noteq> 247 then [char_of (n - 32)]
         else if n = 223 then ''SS'' else [c])"

definition py_upper :: "string \<Rightarrow> string" where
  "py_upper s = concat (map upper_char s)"

text \<open>\<^verbatim>\<open>needle in s\<close> for strings.\<close>

fun py_contains :: "string \<Rightarrow> string \<Rightarrow> bool" where
  "py_contains needle [] = (needle = [])"
| "py_contains needle (c # s) = (take (length needle) (c # s) = needle \<or> py_contains needle s)"

text \<open>A text without blanks around it is left alone.\<close>

lemma strip_plain:
  assumes "s \<noteq> []" "\<not> py_space (hd s)" "\<not> py_space (last s)"
  shows "py_strip s = s"
proof -
  have "dropWhile py_space s = s" using assms(1,2) by (cases s) auto
  moreover have "dropWhile py_space (rev s) = rev s" using assms(1,3) by (cases s rule: rev_cases) auto
  ultimately show ?thesis by (simp add: py_strip_def)
qed

lemma digits_ends: "is_digit (hd (show_nat n))" "is_digit (last (show_nat n))"
  using show_nat_digits [of n] hd_in_set [of "show_nat n"] last_in_set [of "show_nat n"] by (auto simp: list_all_iff)

lemma digit_not_space: "is_digit c \<Longrightarrow> \<not> py_space c"
  by (auto simp: is_digit_def py_space_def Let_def)

lemma take_eq_prefix: "take (length w) s = w \<longleftrightarrow> (\<exists>v. s = w @ v)"
  by (metis append_eq_conv_conj append_take_drop_id)

lemma py_contains_iff: "py_contains w s \<longleftrightarrow> (\<exists>u v. s = u @ w @ v)"
proof (induction s)
  case (Cons c s)
  have "(\<exists>u v. c # s = u @ w @ v) \<longleftrightarrow> (\<exists>v. c # s = w @ v) \<or> (\<exists>u v. s = u @ w @ v)"
    by (metis append_Cons append_Nil neq_Nil_conv list.inject)
  with Cons show ?case by (simp add: take_eq_prefix)
qed simp

text \<open>Capitals and small letters, away from the sharp s, whose capital is two letters.\<close>

lemma lower_upper_char: "c \<noteq> CHR 0xDF \<Longrightarrow> map lower_char (upper_char c) = [lower_char c]"
proof -
  assume "c \<noteq> CHR 0xDF"
  define n where "n = (of_char c :: nat)"
  have n: "n < 256" "c = char_of n" by (simp_all add: n_def)
  have "char_of (223 :: nat) = CHR 0xDF" by code_simp
  then have "n \<noteq> 223" using \<open>c \<noteq> CHR 0xDF\<close> n(2) by metis
  show ?thesis
  proof (cases "97 \<le> n \<and> n \<le> 122 \<or> 224 \<le> n \<and> n \<le> 254 \<and> n \<noteq> 247")
    case True
    then have "upper_char c = [char_of (n - 32)]" by (simp add: upper_char_def flip: n_def)
    moreover have "lower_char (char_of (n - 32)) = char_of n" using True n(1) by (auto simp: lower_char_def Let_def)
    moreover have "lower_char c = c" using True by (auto simp: lower_char_def simp flip: n_def)
    ultimately show ?thesis using n(2) by simp
  next
    case False
    with \<open>n \<noteq> 223\<close> show ?thesis by (auto simp: upper_char_def simp flip: n_def)
  qed
qed

lemma lower_upper: "CHR 0xDF \<notin> set s \<Longrightarrow> py_lower (py_upper s) = py_lower s"
  by (induction s) (auto simp: py_lower_def py_upper_def lower_upper_char)

lemma upper_sharp_s: "CHR 0xDF \<in> set s \<Longrightarrow> py_contains ''SS'' (py_upper s)"
proof -
  assume "CHR 0xDF \<in> set s"
  then obtain u v where "s = u @ CHR 0xDF # v" by (meson split_list)
  then have "py_upper s = py_upper u @ ''SS'' @ py_upper v" by (simp add: py_upper_def upper_char_def)
  then show ?thesis by (auto simp: py_contains_iff)
qed

text \<open>
  \<^verbatim>\<open>repr(s)\<close>: single quotes, or double quotes for a string that has a single quote and no
  double quote; the quote in use and the backslash are escaped, so are line feed, carriage
  return, tab and the characters that do not print.
\<close>

definition hex_digit :: "nat \<Rightarrow> char" where
  "hex_digit d = (if d < 10 then digit_char d else char_of (87 + d))"

definition repr_char :: "char \<Rightarrow> char \<Rightarrow> string" where
  "repr_char q c =
     (let n = (of_char c :: nat) in
      if c = q \<or> n = 92 then [char_of (92::nat), c]
      else if n = 10 then [char_of (92::nat), CHR ''n'']
      else if n = 13 then [char_of (92::nat), CHR ''r'']
      else if n = 9 then [char_of (92::nat), CHR ''t'']
      else if n < 32 \<or> 127 \<le> n \<and> n \<le> 160 \<or> n = 173
      then [char_of (92::nat), CHR ''x'', hex_digit (n div 16), hex_digit (n mod 16)]
      else [c])"

definition repr_str :: "string \<Rightarrow> string" where
  "repr_str s =
     (let q = (if CHR 0x27 \<in> set s \<and> CHR 0x22 \<notin> set s then CHR 0x22 else CHR 0x27)
      in [q] @ concat (map (repr_char q) s) @ [q])"

definition repr_strs :: "string list \<Rightarrow> string" where
  "repr_strs xs = ''['' @ py_join '', '' (map repr_str xs) @ '']''"

text \<open>The text between quotes in a message, \<^verbatim>\<open>f"'{s}'"\<close>.\<close>

abbreviation quoted :: "string \<Rightarrow> string" where
  "quoted s \<equiv> [CHR 0x27] @ s @ [CHR 0x27]"

abbreviation KeyError :: "string \<Rightarrow> py_exc" where
  "KeyError k \<equiv> PyExc ''KeyError'' (repr_str k)"

section \<open>Dynamically typed values\<close>

text \<open>
  The values of a workflow state (\<^verbatim>\<open>Dict[str, Any]\<close>): \<^verbatim>\<open>None\<close>, booleans, integers,
  finite floats (as reals), strings, lists, dictionaries with string keys, and every other object, which the
  program under study only passes around; such an object is named by a number that says
  which objects compare equal.
\<close>

datatype pyval =
    VNone
  | VBool bool
  | VInt int
  | VFloat real
  | VStr string
  | VList "pyval list"
  | VDict "(string \<times> pyval) list"
  | VObj nat

type_synonym state = "(string, pyval) dict"

text \<open>
  Python's \<open>==\<close> on these values: booleans are the integers 0 and 1, two dictionaries are
  equal when they have the same keys with equal values, whatever their order.
\<close>

fun pyval_eq :: "pyval \<Rightarrow> pyval \<Rightarrow> bool"
  and pylist_eq :: "pyval list \<Rightarrow> pyval list \<Rightarrow> bool"
  and pydict_sub :: "(string \<times> pyval) list \<Rightarrow> (string \<times> pyval) list \<Rightarrow> bool" where
  "pyval_eq VNone w = (w = VNone)"
| "pyval_eq (VBool a) w =
     (case w of VBool b \<Rightarrow> a = b | VInt j \<Rightarrow> of_bool a = j | VFloat q \<Rightarrow> of_bool a = q | _ \<Rightarrow> False)"
| "pyval_eq (VInt i) w =
     (case w of VBool b \<Rightarrow> i = of_bool b | VInt j \<Rightarrow> i = j | VFloat q \<Rightarrow> of_int i = q | _ \<Rightarrow> False)"
| "pyval_eq (VFloat r) w =
     (case w of VBool b \<Rightarrow> r = of_bool b | VInt j \<Rightarrow> r = of_int j | VFloat q \<Rightarrow> r = q | _ \<Rightarrow> False)"
| "pyval_eq (VStr s) w = (w = VStr s)"
| "pyval_eq (VList xs) w = (case w of VList ys \<Rightarrow> pylist_eq xs ys | _ \<Rightarrow> False)"
| "pyval_eq (VDict a) w =
     (case w of VDict b \<Rightarrow> length a = length b \<and> pydict_sub a b | _ \<Rightarrow> False)"
| "pyval_eq (VObj n) w = (w = VObj n)"
| "pylist_eq [] ys = (ys = [])"
| "pylist_eq (x # xs) ys =
     (case ys of [] \<Rightarrow> False | y # ys' \<Rightarrow> pyval_eq x y \<and> pylist_eq xs ys')"
| "pydict_sub [] b = True"
| "pydict_sub ((k, v) # a) b =
     ((case map_of b k of None \<Rightarrow> False | Some w \<Rightarrow> pyval_eq v w) \<and> pydict_sub a b)"

text \<open>\<^verbatim>\<open>bool(v)\<close>; an object of another class is true, Python's default.\<close>

fun py_truthy :: "pyval \<Rightarrow> bool" where
  "py_truthy VNone = False"
| "py_truthy (VBool b) = b"
| "py_truthy (VInt i) = (i \<noteq> 0)"
| "py_truthy (VFloat r) = (r \<noteq> 0)"
| "py_truthy (VStr s) = (s \<noteq> [])"
| "py_truthy (VList xs) = (xs \<noteq> [])"
| "py_truthy (VDict d) = (d \<noteq> [])"
| "py_truthy (VObj n) = True"

text \<open>Attribute access and iteration on a value of the wrong class.\<close>

fun type_name :: "pyval \<Rightarrow> string" where
  "type_name VNone = ''NoneType''"
| "type_name (VBool _) = ''bool''"
| "type_name (VInt _) = ''int''"
| "type_name (VFloat _) = ''float''"
| "type_name (VStr _) = ''str''"
| "type_name (VList _) = ''list''"
| "type_name (VDict _) = ''dict''"
| "type_name (VObj _) = ''object''"

definition no_attribute :: "pyval \<Rightarrow> string \<Rightarrow> py_exc" where
  "no_attribute v a =
     PyExc ''AttributeError'' (quoted (type_name v) @ '' object has no attribute '' @ quoted a)"

definition iterate :: "pyval \<Rightarrow> pyval list result" where
  "iterate v =
     (case v of
        VList xs \<Rightarrow> Inr xs
      | VDict d \<Rightarrow> Inr (map VStr (dict_keys d))
      | VStr s \<Rightarrow> Inr (map (\<lambda>c. VStr [c]) s)
      | _ \<Rightarrow> Inl (PyExc ''TypeError'' (quoted (type_name v) @ '' object is not iterable'')))"

text \<open>A key of a dictionary or an element of a set must be hashable.\<close>

fun dict_key :: "pyval \<Rightarrow> pyval result" where
  "dict_key (VList xs) = Inl (PyExc ''TypeError'' (''unhashable type: '' @ quoted ''list''))"
| "dict_key (VDict d) = Inl (PyExc ''TypeError'' (''unhashable type: '' @ quoted ''dict''))"
| "dict_key v = Inr v"

section \<open>Sorting\<close>

text \<open>\<^verbatim>\<open>sorted(..., key=..., reverse=True)\<close>: descending, equal keys in their order.\<close>

definition sorted_desc :: "('a \<Rightarrow> 'k::linorder) \<Rightarrow> 'a list \<Rightarrow> 'a list" where
  "sorted_desc f xs = rev (sort_key f (rev xs))"

lemma set_sorted_desc [simp]: "set (sorted_desc f xs) = set xs"
  by (simp add: sorted_desc_def)

lemma sorted_sorted_desc: "sorted_wrt (\<lambda>x y. f y \<le> f x) (sorted_desc f xs)"
  unfolding sorted_desc_def sorted_wrt_rev
  using sorted_sort_key [of f "rev xs"] by (simp add: sorted_map)

text \<open>Stability: the elements with one key keep their order.\<close>

lemma filter_sorted_desc: "filter (\<lambda>y. f y = k) (sorted_desc f xs) = filter (\<lambda>y. f y = k) xs"
proof -
  have "filter (\<lambda>y. f y = k) (sort_key f ys) = filter (\<lambda>y. f y = k) ys" for ys
    using sort_key_stable [of f k ys] by simp
  then show ?thesis unfolding sorted_desc_def by (simp flip: rev_filter)
qed

lemma hd_sorted_desc:
  assumes "xs \<noteq> []"
  shows "hd (sorted_desc f xs) \<in> set xs" "\<forall>x \<in> set xs. f x \<le> f (hd (sorted_desc f xs))"
    "find (\<lambda>x. f x = f (hd (sorted_desc f xs))) xs = Some (hd (sorted_desc f xs))"
proof -
  let ?ys = "sorted_desc f xs"
  have ne: "?ys \<noteq> []" using assms set_sorted_desc [of f xs] by (metis set_empty)
  then obtain y ys where y: "?ys = y # ys" by (cases ?ys) auto
  then show "hd ?ys \<in> set xs" using set_sorted_desc [of f xs] by (metis list.sel(1) list.set_intros(1))
  have "\<forall>x \<in> set ?ys. f x \<le> f y" using sorted_sorted_desc [of f xs] by (simp add: y)
  then show "\<forall>x \<in> set xs. f x \<le> f (hd ?ys)" by (simp add: y flip: set_sorted_desc [of f xs])
  have "filter (\<lambda>x. f x = f y) xs = y # filter (\<lambda>x. f x = f y) ys"
    using filter_sorted_desc [of f "f y" xs] by (simp add: y)
  then show "find (\<lambda>x. f x = f (hd ?ys)) xs = Some (hd ?ys)"
    by (simp add: y find_dropWhile) (auto simp: filter_eq_Cons_iff dropWhile_append)
qed

section \<open>Two interfaces\<close>

text \<open>
  A registry stores each record under a key computed from the record. The one law is what
  a lookup returns after a store; from it, after any sequence of stores a lookup returns
  the last record stored under the key.
\<close>

locale registry =
  fixes put :: "'r \<Rightarrow> 's \<Rightarrow> 's"
    and get :: "'s \<Rightarrow> 'k \<Rightarrow> 'r option"
    and key :: "'r \<Rightarrow> 'k"
  assumes get_put: "get (put r s) k = (if k = key r then Some r else get s k)"
begin

lemma get_put_same: "get (put r s) (key r) = Some r"
  by (simp add: get_put)

lemma get_put_other: "k \<noteq> key r \<Longrightarrow> get (put r s) k = get s k"
  by (simp add: get_put)

lemma get_put_all:
  "get (fold put rs s) k =
     (case find (\<lambda>r. key r = k) (rev rs) of None \<Rightarrow> get s k | Some r \<Rightarrow> Some r)"
proof (induction rs rule: rev_induct)
  case (snoc r rs)
  then show ?case by (simp add: get_put)
qed simp

lemma put_all_frame: "k \<notin> key ` set rs \<Longrightarrow> get (fold put rs s) k = get s k"
  by (induction rs arbitrary: s) (auto simp: get_put)

end

text \<open>
  A machine with operations named by events, each of which keeps an invariant: every run
  keeps it, and so does every state a run passes through.
\<close>

locale invariant_machine =
  fixes step :: "'e \<Rightarrow> 's \<Rightarrow> 's"
    and inv :: "'s \<Rightarrow> bool"
  assumes step_inv: "inv s \<Longrightarrow> inv (step e s)"
begin

lemma run_inv: "inv s \<Longrightarrow> inv (fold step es s)"
  by (induction es arbitrary: s) (auto intro: step_inv)

lemma run_prefix_inv: "inv s \<Longrightarrow> inv (fold step (take n es) s)"
  by (rule run_inv)

end

text \<open>The same where only some operations keep the invariant.\<close>

locale guarded_machine =
  fixes step :: "'e \<Rightarrow> 's \<Rightarrow> 's"
    and inv :: "'s \<Rightarrow> bool"
    and allowed :: "'e \<Rightarrow> bool"
  assumes step_keeps: "inv s \<Longrightarrow> allowed e \<Longrightarrow> inv (step e s)"
begin

lemma run_keeps: "inv s \<Longrightarrow> list_all allowed es \<Longrightarrow> inv (fold step es s)"
  by (induction es arbitrary: s) (auto intro: step_keeps)

end

sublocale invariant_machine \<subseteq> unguarded: guarded_machine step inv "\<lambda>_. True"
  by unfold_locales (rule step_inv)

end
