(* ===== verification/Py_Heap.thy ===== *)
theory Py_Heap
  imports Prelude
begin

text \<open>
  Objects that are shared. Python's dictionaries and lists are mutable and passed by reference;
  where the code copies them, or fails to, a model with values alone cannot tell the
  difference. Here a heap is a list of cells and an address is a position in it, so that
  allocation never reuses an address; \<^verbatim>\<open>copy.deepcopy\<close> copies everything that is reachable, once,
  with its sharing and its cycles. What a reference denotes as a value is a relation, and a
  family of disjoint closed regions is the invariant behind every isolation property: whoever
  holds references into one region only can change nothing in another.
\<close>

section \<open>Cells and copies\<close>

datatype hval = Atom pyval | Ref nat

datatype cell = DictCell "(string, hval) dict" | ListCell "hval list"

type_synonym heap = "cell list"

primrec val_refs :: "hval \<Rightarrow> nat list" where
  "val_refs (Atom v) = []"
| "val_refs (Ref a) = [a]"

primrec cell_refs :: "cell \<Rightarrow> nat list" where
  "cell_refs (DictCell d) = concat (map (\<lambda>p. val_refs (snd p)) d)"
| "cell_refs (ListCell vs) = concat (map val_refs vs)"

primrec rename_val :: "(nat \<Rightarrow> nat) \<Rightarrow> hval \<Rightarrow> hval" where
  "rename_val f (Atom v) = Atom v"
| "rename_val f (Ref a) = Ref (f a)"

primrec rename_cell :: "(nat \<Rightarrow> nat) \<Rightarrow> cell \<Rightarrow> cell" where
  "rename_cell f (DictCell d) = DictCell (map (\<lambda>p. (fst p, rename_val f (snd p))) d)"
| "rename_cell f (ListCell vs) = ListCell (map (rename_val f) vs)"

primrec position :: "'a \<Rightarrow> 'a list \<Rightarrow> nat" where
  "position x [] = 0"
| "position x (y # ys) = (if x = y then 0 else Suc (position x ys))"

text \<open>The addresses that are reachable from a worklist, in the order in which they are found.\<close>

function collect :: "heap \<Rightarrow> nat list \<Rightarrow> nat list \<Rightarrow> nat list" where
  "collect h seen [] = seen"
| "collect h seen (a # todo) =
     (if a \<in> set seen \<or> length h \<le> a then collect h seen todo
      else collect h (seen @ [a]) (cell_refs (h ! a) @ todo))"
  by pat_completeness auto
termination
proof (relation "measures [\<lambda>(h, seen, todo). card ({..<length h} - set seen), \<lambda>(h, seen, todo). length todo]")
  fix h :: heap and seen todo :: "nat list" and a
  assume new: "\<not> (a \<in> set seen \<or> length h \<le> a)"
  have "{..<length h} - set (seen @ [a]) = ({..<length h} - set seen) - {a}" by auto
  moreover have "a \<in> {..<length h} - set seen" using new by simp
  ultimately have "card ({..<length h} - set (seen @ [a])) < card ({..<length h} - set seen)"
    by (metis card_Diff1_less finite_Diff finite_lessThan)
  then show "((h, seen @ [a], cell_refs (h ! a) @ todo), (h, seen, a # todo))
      \<in> measures [\<lambda>(h, seen, todo). card ({..<length h} - set seen), \<lambda>(h, seen, todo). length todo]" by simp
qed simp_all

definition deepcopy :: "heap \<Rightarrow> hval \<Rightarrow> hval \<times> heap" where
  "deepcopy h v =
     (let found = collect h [] (val_refs v); new = (\<lambda>a. length h + position a found)
      in (rename_val new v, h @ map (\<lambda>a. rename_cell new (h ! a)) found))"

section \<open>Regions\<close>

text \<open>A set of addresses that no reference leaves.\<close>

definition region :: "heap \<Rightarrow> nat set \<Rightarrow> bool" where
  "region h S \<longleftrightarrow> (\<forall>a \<in> S. a < length h \<and> set (cell_refs (h ! a)) \<subseteq> S)"

lemma regionD: "region h S \<Longrightarrow> a \<in> S \<Longrightarrow> a < length h \<and> set (cell_refs (h ! a)) \<subseteq> S"
  by (simp add: region_def)

lemma region_frame:
  "region h S \<Longrightarrow> length h \<le> length h' \<Longrightarrow> \<forall>a \<in> S. h' ! a = h ! a \<Longrightarrow> region h' S"
  unfolding region_def using order_less_le_trans by metis

lemma region_Un: "region h S \<Longrightarrow> region h T \<Longrightarrow> region h (S \<union> T)"
  by (auto simp: region_def)

lemma collect_keeps: "set seen \<subseteq> set (collect h seen todo)"
  by (induction h seen todo rule: collect.induct) auto

lemma collect_todo: "a \<in> set todo \<Longrightarrow> a < length h \<Longrightarrow> a \<in> set (collect h seen todo)"
proof (induction h seen todo rule: collect.induct)
  case (2 h seen b todo)
  then show ?case using collect_keeps [of "seen @ [b]" h] collect_keeps [of seen h] by (auto simp: subset_iff)
qed simp

lemma collect_distinct: "distinct seen \<Longrightarrow> distinct (collect h seen todo)"
  by (induction h seen todo rule: collect.induct) auto

lemma collect_inside:
  "region h S \<Longrightarrow> set seen \<subseteq> S \<Longrightarrow> set todo \<subseteq> S \<Longrightarrow> set (collect h seen todo) \<subseteq> S"
proof (induction h seen todo rule: collect.induct)
  case (2 h seen b todo)
  then show ?case using regionD [OF 2(3), of b] by (auto simp del: collect.simps simp: collect.simps(2) split: if_splits)
qed simp

lemma collect_closed:
  assumes "region h S" "set seen \<subseteq> S" "set todo \<subseteq> S"
    and "\<forall>a \<in> set seen. set (cell_refs (h ! a)) \<subseteq> set seen \<union> set todo"
  shows "region h (set (collect h seen todo))"
  using assms
proof (induction h seen todo rule: collect.induct)
  case (1 h seen)
  then show ?case by (auto simp: region_def)
next
  case (2 h seen b todo)
  show ?case
  proof (cases "b \<in> set seen \<or> length h \<le> b")
    case True
    moreover have "b < length h" using regionD [OF 2(3), of b] 2(5) by auto
    ultimately have seen: "b \<in> set seen" by simp
    with 2(1) [OF True 2(3,4)] 2(5,6) True show ?thesis by (simp add: insert_absorb)
  next
    case False
    have "set (cell_refs (h ! b)) \<subseteq> S" using regionD [OF 2(3), of b] 2(5) by auto
    then show ?thesis using 2(2) [OF False 2(3)] 2(4,5,6) False by auto
  qed
qed

lemma collect_from:
  assumes "region h S" "set todo \<subseteq> S"
  shows "region h (set (collect h [] todo))" "set todo \<subseteq> set (collect h [] todo)"
    "set (collect h [] todo) \<subseteq> S"
  using collect_closed [OF assms(1) _ assms(2), of "[]"] collect_inside [OF assms(1) _ assms(2), of "[]"]
    collect_todo [of _ todo h "[]"] regionD [OF assms(1)] assms(2) by auto

lemma position_less: "x \<in> set xs \<Longrightarrow> position x xs < length xs \<and> xs ! position x xs = x"
  by (induction xs) auto

lemma rename_refs:
  "set (val_refs (rename_val f v)) = f ` set (val_refs v)"
  "set (cell_refs (rename_cell f c)) = f ` set (cell_refs c)"
proof -
  show *: "set (val_refs (rename_val f v)) = f ` set (val_refs v)" for v by (cases v) auto
  show "set (cell_refs (rename_cell f c)) = f ` set (cell_refs c)" by (cases c) (auto simp: *)
qed

text \<open>A copy extends the heap by a closed region of its own and leaves the rest as it is.\<close>

lemma deepcopy_fresh:
  assumes "region h S" "set (val_refs v) \<subseteq> S" "deepcopy h v = (v', h')"
  shows "\<exists>cs. h' = h @ cs" "region h' {length h..<length h'}" "set (val_refs v') \<subseteq> {length h..<length h'}"
proof -
  let ?found = "collect h [] (val_refs v)" and ?new = "\<lambda>a. length h + position a (collect h [] (val_refs v))"
  have h': "h' = h @ map (\<lambda>a. rename_cell ?new (h ! a)) ?found" and v': "v' = rename_val ?new v"
    using assms(3) by (auto simp: deepcopy_def Let_def)
  then show "\<exists>cs. h' = h @ cs" by simp
  have fresh: "?new a \<in> {length h..<length h'}" if "a \<in> set ?found" for a
    using position_less [OF that] h' by simp
  note found = collect_from [OF assms(1,2)]
  show "set (val_refs v') \<subseteq> {length h..<length h'}" using found(2) fresh by (auto simp: v' rename_refs)
  show "region h' {length h..<length h'}"
  proof (unfold region_def, intro ballI conjI)
    fix a assume a: "a \<in> {length h..<length h'}"
    then show "a < length h'" by simp
    have i: "a - length h < length ?found" using a by (auto simp: h')
    then have "h' ! a = rename_cell ?new (h ! (?found ! (a - length h)))" using a by (simp add: h' nth_append)
    moreover have "set (cell_refs (h ! (?found ! (a - length h)))) \<subseteq> set ?found"
      using regionD [OF found(1)] i nth_mem by blast
    ultimately show "set (cell_refs (h' ! a)) \<subseteq> {length h..<length h'}" using fresh by (auto simp: rename_refs)
  qed
qed

section \<open>The value a reference denotes\<close>

inductive denotes :: "heap \<Rightarrow> hval \<Rightarrow> pyval \<Rightarrow> bool" for h where
  den_atom: "denotes h (Atom v) v"
| den_list: "a < length h \<Longrightarrow> h ! a = ListCell vs \<Longrightarrow> list_all2 (denotes h) vs xs \<Longrightarrow> denotes h (Ref a) (VList xs)"
| den_dict: "a < length h \<Longrightarrow> h ! a = DictCell d \<Longrightarrow> list_all2 (\<lambda>p q. fst p = fst q \<and> denotes h (snd p) (snd q)) d e \<Longrightarrow>
    denotes h (Ref a) (VDict e)"

inductive_cases denotes_atomE: "denotes h (Atom v) x"
inductive_cases denotes_refE: "denotes h (Ref a) x"

lemma denotes_frame:
  assumes "denotes h v x" "region h S" "set (val_refs v) \<subseteq> S" "\<forall>a \<in> S. a < length h' \<and> h' ! a = h ! a"
  shows "denotes h' v x"
  using assms(1,3)
proof (induction rule: denotes.induct)
  case (den_list a vs xs)
  have "set (val_refs v) \<subseteq> S" if "v \<in> set vs" for v
    using regionD [OF assms(2), of a] den_list that by auto
  then have "list_all2 (denotes h') vs xs"
    using den_list.IH by (auto simp: list_all2_conv_all_nth)
  then show ?case using den_list assms(4) by (auto intro: denotes.intros)
next
  case (den_dict a d e)
  have "set (val_refs (snd p)) \<subseteq> S" if "p \<in> set d" for p
    using regionD [OF assms(2), of a] den_dict that by auto
  then have "list_all2 (\<lambda>p q. fst p = fst q \<and> denotes h' (snd p) (snd q)) d e"
    using den_dict.IH by (auto simp: list_all2_conv_all_nth)
  then show ?case using den_dict assms(4) by (auto intro: denotes.intros)
qed (rule den_atom)

lemma denotes_unique: "denotes h v x \<Longrightarrow> denotes h v y \<Longrightarrow> x = y"
proof (induction arbitrary: y rule: denotes.induct)
  case (den_atom v)
  then show ?case by (auto elim: denotes_atomE)
next
  case (den_list a vs xs)
  from den_list.prems show ?case
    by (rule denotes_refE) (use den_list in \<open>auto simp: list_all2_conv_all_nth intro!: nth_equalityI\<close>)
next
  case (den_dict a d e)
  from den_dict.prems show ?case
    by (rule denotes_refE) (use den_dict in \<open>auto simp: list_all2_conv_all_nth prod_eq_iff intro!: nth_equalityI\<close>)
qed

text \<open>A copy denotes the value of what was copied.\<close>

lemma deepcopy_denotes:
  assumes "region h S" "set (val_refs v) \<subseteq> S" "deepcopy h v = (v', h')" "denotes h v x"
  shows "denotes h' v' x"
proof -
  let ?found = "collect h [] (val_refs v)" and ?new = "\<lambda>a. length h + position a (collect h [] (val_refs v))"
  have h': "h' = h @ map (\<lambda>a. rename_cell ?new (h ! a)) ?found" and v': "v' = rename_val ?new v"
    using assms(3) by (auto simp: deepcopy_def Let_def)
  note found = collect_from [OF assms(1,2)]
  have cell: "?new a < length h' \<and> h' ! ?new a = rename_cell ?new (h ! a)" if "a \<in> set ?found" for a
    using position_less [OF that] h' by simp
  have "denotes h' (rename_val ?new u) y" if "denotes h u y" "set (val_refs u) \<subseteq> set ?found" for u y
    using that
  proof (induction rule: denotes.induct)
    case (den_atom u)
    then show ?case by (simp add: denotes.den_atom)
  next
    case (den_list a vs xs)
    have "set (val_refs w) \<subseteq> set ?found" if "w \<in> set vs" for w
      using regionD [OF found(1), of a] den_list that by auto
    then have "list_all2 (denotes h') (map (rename_val ?new) vs) xs"
      using den_list.IH by (auto simp: list_all2_conv_all_nth)
    then show ?case using den_list cell [of a] by (auto intro: denotes.den_list)
  next
    case (den_dict a d e)
    have "set (val_refs (snd p)) \<subseteq> set ?found" if "p \<in> set d" for p
      using regionD [OF found(1), of a] den_dict that by auto
    then have "list_all2 (\<lambda>p q. fst p = fst q \<and> denotes h' (snd p) (snd q))
        (map (\<lambda>p. (fst p, rename_val ?new (snd p))) d) e"
      using den_dict.IH by (auto simp: list_all2_conv_all_nth)
    then show ?case using den_dict cell [of a] by (auto intro: denotes.den_dict)
  qed
  then show ?thesis using assms(4) found(2) v' by blast
qed

section \<open>Code that holds references\<close>

text \<open>
  What code can do to the heap with the references it holds: look into an object, which yields
  the references in it, make an object from references it has, and overwrite the contents of an
  object it has a reference to. A request it lacks the references for does nothing.
\<close>

datatype client_op = Look nat | Make cell | Store nat cell

fun client_step :: "client_op \<Rightarrow> heap \<times> nat list \<Rightarrow> heap \<times> nat list" where
  "client_step (Look a) (h, known) =
     (if a \<in> set known \<and> a < length h then (h, cell_refs (h ! a) @ known) else (h, known))"
| "client_step (Make c) (h, known) =
     (if set (cell_refs c) \<subseteq> set known then (h @ [c], length h # known) else (h, known))"
| "client_step (Store a c) (h, known) =
     (if a \<in> set known \<and> set (cell_refs c) \<subseteq> set known then (h[a := c], known) else (h, known))"

text \<open>Pairwise disjoint regions, one for every holder of references.\<close>

definition apart :: "heap \<Rightarrow> ('i \<Rightarrow> nat set) \<Rightarrow> bool" where
  "apart h R \<longleftrightarrow> (\<forall>i. region h (R i)) \<and> (\<forall>i j. i \<noteq> j \<longrightarrow> R i \<inter> R j = {})"

text \<open>The regions after a step of one of them, which owns what was allocated.\<close>

definition grow :: "heap \<Rightarrow> heap \<Rightarrow> 'i \<Rightarrow> ('i \<Rightarrow> nat set) \<Rightarrow> 'i \<Rightarrow> nat set" where
  "grow h h' i R = R(i := R i \<union> {length h..<length h'})"

lemma grow_simps [simp]: "grow h h' i R i = R i \<union> {length h..<length h'}" "j \<noteq> i \<Longrightarrow> grow h h' i R j = R j"
  by (simp_all add: grow_def)

lemma grow_mono: "R j \<subseteq> grow h h' i R j"
  by (auto simp: grow_def)

lemma apart_region: "apart h R \<Longrightarrow> region h (R i)"
  by (simp add: apart_def)

lemma apart_other: "apart h R \<Longrightarrow> i \<noteq> j \<Longrightarrow> a \<in> R j \<Longrightarrow> a \<notin> R i"
  unfolding apart_def by blast

lemma apart_grow:
  assumes "apart h R" "length h \<le> length h'" "region h' (R i \<union> {length h..<length h'})"
    and "\<forall>a < length h. a \<notin> R i \<longrightarrow> h' ! a = h ! a"
  shows "apart h' (grow h h' i R)"
proof -
  have other: "region h' (R j)" if "j \<noteq> i" for j
  proof (rule region_frame [OF apart_region [OF assms(1)] assms(2)], rule ballI)
    fix a assume a: "a \<in> R j"
    have "a < length h" using regionD [OF apart_region [OF assms(1), of j] a] by simp
    with a assms(4) apart_other [OF assms(1) that [symmetric] a] show "h' ! a = h ! a" by simp
  qed
  have "R j \<inter> {length h..<length h'} = {}" for j
    using regionD [OF apart_region [OF assms(1), of j]] by (metis atLeastLessThan_iff disjoint_iff not_le)
  moreover have "R j \<inter> R k = {}" if "j \<noteq> k" for j k using assms(1) that by (simp add: apart_def)
  ultimately have "grow h h' i R j \<inter> grow h h' i R k = {}" if "j \<noteq> k" for j k
    using that by (cases "j = i"; cases "k = i") (simp_all add: Int_Un_distrib Int_Un_distrib2 Int_commute)
  with assms(3) other show ?thesis by (simp add: apart_def grow_def)
qed

lemma client_frame:
  assumes "region h S" "set known \<subseteq> S" "client_step op (h, known) = (h', known')"
  shows "length h \<le> length h'" "region h' (S \<union> {length h..<length h'})"
    "set known' \<subseteq> S \<union> {length h..<length h'}" "\<forall>a < length h. a \<notin> S \<longrightarrow> h' ! a = h ! a"
proof -
  have "length h \<le> length h' \<and> region h' (S \<union> {length h..<length h'}) \<and>
      set known' \<subseteq> S \<union> {length h..<length h'} \<and> (\<forall>a < length h. a \<notin> S \<longrightarrow> h' ! a = h ! a)"
  proof (cases "h' = h")
    case True
    have "set (cell_refs (h ! a)) \<subseteq> S" if "a \<in> set known" for a using regionD [OF assms(1)] assms(2) that by blast
    moreover have "known' = known \<or> (\<exists>a. a \<in> set known \<and> known' = cell_refs (h ! a) @ known)"
      using True assms(3) by (cases op) (auto split: if_splits)
    ultimately have "set known' \<subseteq> S" using assms(2) by (metis Un_least set_append)
    with True assms(1) show ?thesis by simp
  next
    case False
    then consider (make) c where "op = Make c" "set (cell_refs c) \<subseteq> set known" "h' = h @ [c]" "known' = length h # known"
      | (store) a c where "op = Store a c" "a \<in> set known" "set (cell_refs c) \<subseteq> set known" "h' = h[a := c]" "known' = known"
      using assms(3) by (cases op) (auto split: if_splits)
    then show ?thesis
    proof cases
      case make
      then have "{length h..<length h'} = {length h}" "set (cell_refs c) \<subseteq> S" using assms(2) by auto
      with make assms(2) region_frame [OF assms(1), of h'] regionD [OF assms(1)] show ?thesis
        by (simp add: region_def nth_append) (metis insert_iff less_SucI subset_insertI2)
    next
      case store
      then have "set (cell_refs c) \<subseteq> S" using assms(2) by auto
      then have "region h' S" using regionD [OF assms(1)] store(4) unfolding region_def
        by (metis length_list_update nth_list_update_eq nth_list_update_neq)
      moreover have "a \<in> S" using store(2) assms(2) by blast
      ultimately show ?thesis using store assms(2) by (metis Un_absorb2 atLeastLessThan_empty_iff2
            empty_subsetI length_list_update less_irrefl nth_list_update_neq order_refl)
    qed
  qed
  then show "length h \<le> length h'" "region h' (S \<union> {length h..<length h'})"
    "set known' \<subseteq> S \<union> {length h..<length h'}" "\<forall>a < length h. a \<notin> S \<longrightarrow> h' ! a = h ! a" by blast+
qed

lemma client_apart:
  assumes "apart h R" "set known \<subseteq> R i" "client_step op (h, known) = (h', known')"
  shows "apart h' (grow h h' i R)" "set known' \<subseteq> grow h h' i R i"
    "length h \<le> length h'" "\<forall>a < length h. a \<notin> R i \<longrightarrow> h' ! a = h ! a"
  using client_frame [OF apart_region [OF assms(1)] assms(2,3)] apart_grow [OF assms(1)] by simp_all

lemma copy_apart:
  assumes "apart h R" "set (val_refs v) \<subseteq> R i" "deepcopy h v = (v', h')"
  shows "apart h' (grow h h' j R)" "set (val_refs v') \<subseteq> grow h h' j R j"
    "length h \<le> length h'" "\<forall>a < length h. h' ! a = h ! a"
proof -
  note fresh = deepcopy_fresh [OF apart_region [OF assms(1)] assms(2,3)]
  show le: "length h \<le> length h'" and same: "\<forall>a < length h. h' ! a = h ! a"
    using fresh(1) by (auto simp: nth_append)
  have "region h' (R j)"
    using region_frame [OF apart_region [OF assms(1), of j] le] same regionD [OF apart_region [OF assms(1)]] by blast
  then show "apart h' (grow h h' j R)" using apart_grow [OF assms(1) le region_Un] fresh(2) same by blast
  show "set (val_refs v') \<subseteq> grow h h' j R j" using fresh(3) by auto
qed

text \<open>What is reached from one region keeps its value when another region's holder acts.\<close>

lemma apart_denotes:
  assumes "apart h R" "i \<noteq> j" "set (val_refs v) \<subseteq> R j" "length h \<le> length h'"
    and "\<forall>a < length h. a \<notin> R i \<longrightarrow> h' ! a = h ! a" "denotes h v x"
  shows "denotes h' v x"
proof (rule denotes_frame [OF assms(6) apart_region [OF assms(1)] assms(3)], rule ballI)
  fix a assume a: "a \<in> R j"
  have "a < length h" using regionD [OF apart_region [OF assms(1), of j] a] by simp
  with a assms(4,5) apart_other [OF assms(1,2) a] show "a < length h' \<and> h' ! a = h ! a" by simp
qed

end
