(* ===== verification/Graph_State.thy ===== *)
theory Graph_State
  imports Prelude
begin

text \<open>
  The copy-on-write wrapper of \<^verbatim>\<open>victor/framework/graph_state.py\<close>: its fields, one
  definition per method, the thread and task guard of \<^verbatim>\<open>_ensure_copy\<close>, and the proof that
  a wrapper behaves as the plain dictionary it wraps while its source stays as it was.
  Values are immutable here, so \<^verbatim>\<open>copy.deepcopy\<close> is the value itself: this is the view of a node
  that changes the state only through the wrapper's methods. The same methods over shared
  objects, where the copy matters, are in the theory of shared states.
\<close>

section \<open>The wrapper\<close>

text \<open>Who runs an operation: the thread, the asyncio task when a loop runs, and \<^verbatim>\<open>__debug__\<close>.\<close>

record caller =
  thread_ident :: int
  current_task :: "int option"
  debug_mode :: bool

record CopyOnWriteState =
  cow_source :: state
  cow_copy :: "state option"
  cow_modified :: bool
  cow_owner_thread :: int
  cow_owner_task :: "int option"

definition cow_init :: "caller \<Rightarrow> state \<Rightarrow> CopyOnWriteState" where
  "cow_init c source =
     \<lparr>cow_source = source, cow_copy = None, cow_modified = False,
      cow_owner_thread = thread_ident c, cow_owner_task = current_task c\<rparr>"

definition thread_violation :: "caller \<Rightarrow> int \<Rightarrow> py_exc" where
  "thread_violation c owner_thread = PyExc ''RuntimeError''
     (''CopyOnWriteState thread violation: created on thread '' @ show_int owner_thread @
      '', mutated from thread '' @ show_int (thread_ident c) @
      ''. Each thread must use its own CopyOnWriteState wrapper.'')"

definition task_violation :: py_exc where
  "task_violation = PyExc ''RuntimeError''
     (''CopyOnWriteState task violation: created in a different asyncio task. '' @
      ''Each task must use its own CopyOnWriteState wrapper.'')"

text \<open>The first half of \<^verbatim>\<open>_ensure_copy\<close>: only the thread and task that made the wrapper may write.\<close>

definition owner_check :: "caller \<Rightarrow> int \<Rightarrow> int option \<Rightarrow> unit result" where
  "owner_check c owner_thread owner_task =
     (if thread_ident c \<noteq> owner_thread then Inl (thread_violation c owner_thread)
      else if owner_task \<noteq> None \<and> debug_mode c \<and> current_task c \<noteq> None \<and> current_task c \<noteq> owner_task
      then Inl task_violation else Inr ())"

text \<open>
  The private copy. \<open>cow_ok\<close> says that it is there whenever the wrapper is modified, so the
  second branch is never taken.
\<close>

definition copied :: "CopyOnWriteState \<Rightarrow> state" where
  "copied w = (case cow_copy w of Some d \<Rightarrow> d | None \<Rightarrow> [])"

text \<open>The dictionary that \<^verbatim>\<open>_ensure_copy\<close> returns, with the wrapper after the call.\<close>

definition ensure_copy :: "caller \<Rightarrow> CopyOnWriteState \<Rightarrow> (state \<times> CopyOnWriteState) result" where
  "ensure_copy c w =
     (case owner_check c (cow_owner_thread w) (cow_owner_task w) of
        Inl e \<Rightarrow> Inl e
      | Inr _ \<Rightarrow>
          (let w' = (if \<not> cow_modified w
                     then w\<lparr>cow_copy := Some (cow_source w), cow_modified := True\<rparr> else w)
           in Inr (copied w', w')))"

text \<open>What a mutating method does with the copy.\<close>

definition on_copy ::
  "caller \<Rightarrow> CopyOnWriteState \<Rightarrow> (state \<Rightarrow> ('a \<times> state) result) \<Rightarrow> 'a result \<times> CopyOnWriteState" where
  "on_copy c w f =
     (case ensure_copy c w of
        Inl e \<Rightarrow> (Inl e, w)
      | Inr (d, w') \<Rightarrow>
          (case f d of Inl e \<Rightarrow> (Inl e, w') | Inr (x, d') \<Rightarrow> (Inr x, w'\<lparr>cow_copy := Some d'\<rparr>)))"

section \<open>The methods\<close>

definition cow_getitem :: "CopyOnWriteState \<Rightarrow> string \<Rightarrow> pyval result" where
  "cow_getitem w key =
     (case dict_get (if cow_modified w then copied w else cow_source w) key of
        Some v \<Rightarrow> Inr v | None \<Rightarrow> Inl (KeyError key))"

definition cow_setitem ::
  "caller \<Rightarrow> string \<Rightarrow> pyval \<Rightarrow> CopyOnWriteState \<Rightarrow> unit result \<times> CopyOnWriteState" where
  "cow_setitem c key v w = on_copy c w (\<lambda>d. Inr ((), dict_set key v d))"

definition cow_delitem :: "caller \<Rightarrow> string \<Rightarrow> CopyOnWriteState \<Rightarrow> unit result \<times> CopyOnWriteState" where
  "cow_delitem c key w =
     on_copy c w (\<lambda>d. if dict_has d key then Inr ((), dict_pop key d) else Inl (KeyError key))"

definition cow_contains :: "CopyOnWriteState \<Rightarrow> string \<Rightarrow> bool" where
  "cow_contains w key =
     (if cow_modified w then dict_has (copied w) key else dict_has (cow_source w) key)"

definition cow_len :: "CopyOnWriteState \<Rightarrow> nat" where
  "cow_len w = (if cow_modified w then length (copied w) else length (cow_source w))"

definition cow_iter :: "CopyOnWriteState \<Rightarrow> string list" where
  "cow_iter w = (if cow_modified w then dict_keys (copied w) else dict_keys (cow_source w))"

definition cow_get :: "CopyOnWriteState \<Rightarrow> string \<Rightarrow> pyval \<Rightarrow> pyval" where
  "cow_get w key dflt =
     (if cow_modified w then dict_get_or (copied w) key dflt
      else dict_get_or (cow_source w) key dflt)"

definition cow_keys :: "CopyOnWriteState \<Rightarrow> string list" where
  "cow_keys w = (if cow_modified w then dict_keys (copied w) else dict_keys (cow_source w))"

definition cow_values :: "CopyOnWriteState \<Rightarrow> pyval list" where
  "cow_values w = (if cow_modified w then dict_values (copied w) else dict_values (cow_source w))"

definition cow_items :: "CopyOnWriteState \<Rightarrow> (string \<times> pyval) list" where
  "cow_items w = (if cow_modified w then copied w else cow_source w)"

definition cow_update ::
  "caller \<Rightarrow> state \<Rightarrow> CopyOnWriteState \<Rightarrow> unit result \<times> CopyOnWriteState" where
  "cow_update c other w = on_copy c w (\<lambda>d. Inr ((), dict_update d other))"

definition cow_setdefault ::
  "caller \<Rightarrow> string \<Rightarrow> pyval \<Rightarrow> CopyOnWriteState \<Rightarrow> pyval result \<times> CopyOnWriteState" where
  "cow_setdefault c key dflt w =
     (if \<not> cow_contains w key then on_copy c w (\<lambda>d. Inr (dflt, dict_set key dflt d))
      else (cow_getitem w key, w))"

definition cow_pop ::
  "caller \<Rightarrow> string \<Rightarrow> pyval option \<Rightarrow> CopyOnWriteState \<Rightarrow> pyval result \<times> CopyOnWriteState" where
  "cow_pop c key dflt w =
     on_copy c w (\<lambda>d. case dict_get d key of
        Some v \<Rightarrow> Inr (v, dict_pop key d)
      | None \<Rightarrow> (case dflt of Some v \<Rightarrow> Inr (v, d) | None \<Rightarrow> Inl (KeyError key)))"

definition cow_dict_copy :: "CopyOnWriteState \<Rightarrow> state" where
  "cow_dict_copy w = (if cow_modified w then copied w else cow_source w)"

definition get_state :: "CopyOnWriteState \<Rightarrow> state" where
  "get_state w = (if cow_modified w then copied w else cow_source w)"

definition was_modified :: "CopyOnWriteState \<Rightarrow> bool" where
  "was_modified w = cow_modified w"

definition cow_to_dict :: "CopyOnWriteState \<Rightarrow> state" where
  "cow_to_dict w = dict_update [] (get_state w)"

definition cow_repr :: "CopyOnWriteState \<Rightarrow> string" where
  "cow_repr w = ''CopyOnWriteState('' @ (if cow_modified w then ''modified'' else ''unmodified'') @
     '', keys='' @ repr_strs (cow_keys w) @ '')''"

section \<open>A wrapper is a dictionary\<close>

text \<open>
  The interface of a mutable mapping, as calls and their results, for a plain dictionary and
  for the wrapper.
\<close>

datatype 'v dict_call =
    GetItem string | SetItem string 'v | DelItem string | Contains string | Len | Iter
  | Get string 'v | Keys | Values | Items | Update "(string \<times> 'v) list" | SetDefault string 'v
  | Pop string "'v option" | Copy

datatype 'v dict_reply =
    RNone | RVal 'v | RBool bool | RLen nat | RKeys "string list" | RValues "'v list"
  | RItems "(string \<times> 'v) list"

abbreviation reply :: "('a \<Rightarrow> 'v dict_reply) \<Rightarrow> 'a result \<times> 's \<Rightarrow> 'v dict_reply result \<times> 's" where
  "reply f \<equiv> map_prod (map_sum id f) id"

definition cow_call ::
  "caller \<Rightarrow> pyval dict_call \<Rightarrow> CopyOnWriteState \<Rightarrow> pyval dict_reply result \<times> CopyOnWriteState" where
  "cow_call c call w =
     (case call of
        GetItem k \<Rightarrow> reply RVal (cow_getitem w k, w)
      | SetItem k v \<Rightarrow> reply (\<lambda>_. RNone) (cow_setitem c k v w)
      | DelItem k \<Rightarrow> reply (\<lambda>_. RNone) (cow_delitem c k w)
      | Contains k \<Rightarrow> (Inr (RBool (cow_contains w k)), w)
      | Len \<Rightarrow> (Inr (RLen (cow_len w)), w)
      | Iter \<Rightarrow> (Inr (RKeys (cow_iter w)), w)
      | Get k v \<Rightarrow> (Inr (RVal (cow_get w k v)), w)
      | Keys \<Rightarrow> (Inr (RKeys (cow_keys w)), w)
      | Values \<Rightarrow> (Inr (RValues (cow_values w)), w)
      | Items \<Rightarrow> (Inr (RItems (cow_items w)), w)
      | Update e \<Rightarrow> reply (\<lambda>_. RNone) (cow_update c e w)
      | SetDefault k v \<Rightarrow> reply RVal (cow_setdefault c k v w)
      | Pop k v \<Rightarrow> reply RVal (cow_pop c k v w)
      | Copy \<Rightarrow> (Inr (RItems (cow_dict_copy w)), w))"

definition dict_call_on ::
  "'v dict_call \<Rightarrow> (string, 'v) dict \<Rightarrow> 'v dict_reply result \<times> (string, 'v) dict" where
  "dict_call_on call d =
     (case call of
        GetItem k \<Rightarrow> ((case dict_get d k of Some v \<Rightarrow> Inr (RVal v) | None \<Rightarrow> Inl (KeyError k)), d)
      | SetItem k v \<Rightarrow> (Inr RNone, dict_set k v d)
      | DelItem k \<Rightarrow> (if dict_has d k then (Inr RNone, dict_pop k d) else (Inl (KeyError k), d))
      | Contains k \<Rightarrow> (Inr (RBool (dict_has d k)), d)
      | Len \<Rightarrow> (Inr (RLen (length d)), d)
      | Iter \<Rightarrow> (Inr (RKeys (dict_keys d)), d)
      | Get k v \<Rightarrow> (Inr (RVal (dict_get_or d k v)), d)
      | Keys \<Rightarrow> (Inr (RKeys (dict_keys d)), d)
      | Values \<Rightarrow> (Inr (RValues (dict_values d)), d)
      | Items \<Rightarrow> (Inr (RItems d), d)
      | Update e \<Rightarrow> (Inr RNone, dict_update d e)
      | SetDefault k v \<Rightarrow>
          (case dict_get d k of Some u \<Rightarrow> (Inr (RVal u), d) | None \<Rightarrow> (Inr (RVal v), dict_set k v d))
      | Pop k v \<Rightarrow>
          (case dict_get d k of
             Some u \<Rightarrow> (Inr (RVal u), dict_pop k d)
           | None \<Rightarrow> (case v of Some u \<Rightarrow> (Inr (RVal u), d) | None \<Rightarrow> (Inl (KeyError k), d)))
      | Copy \<Rightarrow> (Inr (RItems d), d))"

definition mutating :: "'v dict_call \<Rightarrow> (string, 'v) dict \<Rightarrow> bool" where
  "mutating call d \<longleftrightarrow>
     (case call of SetItem _ _ \<Rightarrow> True | DelItem _ \<Rightarrow> True | Update _ \<Rightarrow> True | Pop _ _ \<Rightarrow> True
      | SetDefault k _ \<Rightarrow> \<not> dict_has d k | _ \<Rightarrow> False)"

definition cow_ok :: "CopyOnWriteState \<Rightarrow> bool" where
  "cow_ok w \<longleftrightarrow> (cow_modified w \<longleftrightarrow> cow_copy w \<noteq> None)"

definition owner :: "caller \<Rightarrow> CopyOnWriteState \<Rightarrow> bool" where
  "owner c w \<longleftrightarrow> thread_ident c = cow_owner_thread w \<and>
     (cow_owner_task w = None \<or> \<not> debug_mode c \<or> current_task c = None \<or>
      current_task c = cow_owner_task w)"

lemmas cow_methods = cow_getitem_def cow_setitem_def cow_delitem_def cow_contains_def cow_len_def
  cow_iter_def cow_get_def cow_keys_def cow_values_def cow_items_def cow_update_def
  cow_setdefault_def cow_pop_def cow_dict_copy_def

text \<open>Reading through \<^verbatim>\<open>get_state\<close>: every method sees the current contents.\<close>

lemma cow_reads:
  "cow_getitem w k = (case dict_get (get_state w) k of Some v \<Rightarrow> Inr v | None \<Rightarrow> Inl (KeyError k))"
  "cow_contains w k = dict_has (get_state w) k"
  "cow_len w = length (get_state w)"
  "cow_iter w = dict_keys (get_state w)"
  "cow_get w k v = dict_get_or (get_state w) k v"
  "cow_keys w = dict_keys (get_state w)"
  "cow_values w = dict_values (get_state w)"
  "cow_items w = get_state w"
  "cow_dict_copy w = get_state w"
  by (simp_all add: cow_methods get_state_def)

lemmas cow_methods_state = cow_reads cow_setitem_def cow_delitem_def cow_update_def
  cow_setdefault_def cow_pop_def

lemma ensure_copy_owner:
  "owner c w \<Longrightarrow> ensure_copy c w =
     Inr (get_state w, w\<lparr>cow_copy := (if cow_modified w then cow_copy w else Some (get_state w)),
                         cow_modified := True\<rparr>)"
  by (auto simp: ensure_copy_def owner_check_def owner_def get_state_def copied_def Let_def)

lemma on_copy_owner:
  assumes "owner c w" and "cow_ok w"
  shows "fst (on_copy c w f) = map_sum id fst (f (get_state w))"
    and "get_state (snd (on_copy c w f)) =
           (case f (get_state w) of Inl _ \<Rightarrow> get_state w | Inr (_, d) \<Rightarrow> d)"
    and "cow_modified (snd (on_copy c w f))"
    and "cow_ok (snd (on_copy c w f))"
  using assms
  by (auto simp: on_copy_def ensure_copy_owner get_state_def copied_def cow_ok_def
      split: sum.splits prod.splits option.splits)

lemma on_copy_frame:
  "cow_source (snd (on_copy c w f)) = cow_source w"
  "cow_owner_thread (snd (on_copy c w f)) = cow_owner_thread w"
  "cow_owner_task (snd (on_copy c w f)) = cow_owner_task w"
  by (auto simp: on_copy_def ensure_copy_def owner_check_def Let_def split: sum.splits)

text \<open>The exception a caller gets that does not own the wrapper.\<close>

definition violation :: "caller \<Rightarrow> CopyOnWriteState \<Rightarrow> py_exc" where
  "violation c w =
     (if thread_ident c \<noteq> cow_owner_thread w then thread_violation c (cow_owner_thread w) else task_violation)"

lemma on_copy_stranger: "\<not> owner c w \<Longrightarrow> on_copy c w f = (Inl (violation c w), w)"
  by (auto simp: on_copy_def ensure_copy_def owner_check_def owner_def violation_def)

lemma violation_RuntimeError: "\<exists>m. violation c w = PyExc ''RuntimeError'' m"
  by (simp add: violation_def thread_violation_def task_violation_def)

lemma cow_call_frame:
  "cow_source (snd (cow_call c call w)) = cow_source w \<and>
   cow_owner_thread (snd (cow_call c call w)) = cow_owner_thread w \<and>
   cow_owner_task (snd (cow_call c call w)) = cow_owner_task w"
  by (cases call) (simp_all add: cow_call_def cow_methods on_copy_frame)

lemma cow_call_refines:
  assumes "owner c w" and "cow_ok w"
  shows "fst (cow_call c call w) = fst (dict_call_on call (get_state w))"
    and "get_state (snd (cow_call c call w)) = snd (dict_call_on call (get_state w))"
    and "cow_ok (snd (cow_call c call w))"
  by (cases call; simp add: cow_call_def dict_call_on_def cow_methods_state on_copy_owner [OF assms]
        assms dict_has_def split: option.splits)+

lemma cow_call_modified:
  assumes "owner c w" and "cow_ok w"
  shows "cow_modified (snd (cow_call c call w)) \<longleftrightarrow> cow_modified w \<or> mutating call (get_state w)"
  by (cases call) (simp_all add: cow_call_def mutating_def cow_methods_state on_copy_owner [OF assms])

lemma owner_call: "owner c w \<Longrightarrow> owner c (snd (cow_call c' call w))"
  using cow_call_frame [of c' call w] by (simp add: owner_def)

text \<open>A sequence of calls with the replies they give.\<close>

primrec cow_calls ::
  "caller \<Rightarrow> pyval dict_call list \<Rightarrow> CopyOnWriteState \<Rightarrow> pyval dict_reply result list \<times> CopyOnWriteState" where
  "cow_calls c [] w = ([], w)"
| "cow_calls c (x # xs) w =
     (let (r, w') = cow_call c x w; (rs, w'') = cow_calls c xs w' in (r # rs, w''))"

primrec dict_calls ::
  "'v dict_call list \<Rightarrow> (string, 'v) dict \<Rightarrow> 'v dict_reply result list \<times> (string, 'v) dict" where
  "dict_calls [] d = ([], d)"
| "dict_calls (x # xs) d =
     (let (r, d') = dict_call_on x d; (rs, d'') = dict_calls xs d' in (r # rs, d''))"

lemma cow_calls_refine:
  assumes "owner c w" and "cow_ok w"
  shows "fst (cow_calls c xs w) = fst (dict_calls xs (get_state w)) \<and>
    get_state (snd (cow_calls c xs w)) = snd (dict_calls xs (get_state w)) \<and>
    cow_source (snd (cow_calls c xs w)) = cow_source w"
  using assms
proof (induction xs arbitrary: w)
  case (Cons x xs)
  obtain r w' where call: "cow_call c x w = (r, w')" by (cases "cow_call c x w")
  note ref = cow_call_refines [OF Cons.prems, of x] and fr = cow_call_frame [of c x w]
  have "owner c w'" using owner_call [OF Cons.prems(1), of c x] call by simp
  with Cons.IH [of w'] ref fr call show ?case
    by (cases "dict_call_on x (get_state w)") (auto simp: split_beta)
qed simp

section \<open>Results\<close>

text \<open>Wrapped in its creating thread and task, a state answers every sequence of mapping
  calls as the plain dictionary would, errors included, and ends with the same contents.\<close>

theorem cow_refines_dict:
  assumes "cow_calls c xs (cow_init c source) = (replies, w)"
  shows "dict_calls xs source = (replies, get_state w) \<and> cow_source w = source"
proof -
  have "owner c (cow_init c source)" "cow_ok (cow_init c source)"
    "get_state (cow_init c source) = source" "cow_source (cow_init c source) = source"
    by (simp_all add: owner_def cow_init_def cow_ok_def get_state_def)
  with cow_calls_refine [of c "cow_init c source" xs] assms show ?thesis by (auto intro: prod_eqI)
qed

theorem cow_refines_dict_witness:
  "dict_calls [SetItem ''a'' (VInt 2), Pop ''b'' None, DelItem ''z''] [(''a'', VInt 1), (''b'', VNone)]
     = ([Inr RNone, Inr (RVal VNone), Inl (KeyError ''z'')], [(''a'', VInt 2)])"
proof -
  let ?c = "\<lparr>thread_ident = 7, current_task = Some 3, debug_mode = True\<rparr>"
  let ?xs = "[SetItem ''a'' (VInt 2), Pop ''b'' None, DelItem ''z'']"
  let ?r = "cow_calls ?c ?xs (cow_init ?c [(''a'', VInt 1), (''b'', VNone)])"
  have "fst ?r = [Inr RNone, Inr (RVal VNone), Inl (KeyError ''z'')]" by code_simp
  moreover have "get_state (snd ?r) = [(''a'', VInt 2)]" by code_simp
  ultimately show ?thesis
    using cow_refines_dict [of ?c ?xs "[(''a'', VInt 1), (''b'', VNone)]", OF surjective_pairing]
    by metis
qed

text \<open>A call from another thread or task that would mutate the wrapper raises
  \<^verbatim>\<open>RuntimeError\<close> and changes nothing; for an owner the wrapper is modified after a call
  exactly when it was before or the call mutates.\<close>

theorem cow_guard:
  assumes "cow_ok w"
  shows "if owner c w
    then was_modified (snd (cow_call c call w)) = (was_modified w \<or> mutating call (get_state w))
    else mutating call (get_state w) \<longrightarrow>
      (\<exists>m. cow_call c call w = (Inl (PyExc ''RuntimeError'' m), w))"
proof (cases "owner c w")
  case True
  then show ?thesis using cow_call_modified [OF True assms] by (simp add: was_modified_def)
next
  case False
  have "\<exists>m. cow_call c call w = (Inl (PyExc ''RuntimeError'' m), w)" if "mutating call (get_state w)"
    using that by (cases call)
      (simp_all add: mutating_def cow_call_def cow_methods_state on_copy_stranger [OF False] violation_RuntimeError)
  with False show ?thesis by simp
qed

theorem cow_guard_witness:
  "\<exists>m. cow_call \<lparr>thread_ident = 8, current_task = None, debug_mode = True\<rparr> (SetItem ''a'' VNone)
     (cow_init \<lparr>thread_ident = 7, current_task = None, debug_mode = True\<rparr> [])
     = (Inl (PyExc ''RuntimeError'' m),
        cow_init \<lparr>thread_ident = 7, current_task = None, debug_mode = True\<rparr> [])"
  using cow_guard [of "cow_init \<lparr>thread_ident = 7, current_task = None, debug_mode = True\<rparr> []"
      "\<lparr>thread_ident = 8, current_task = None, debug_mode = True\<rparr>" "SetItem ''a'' VNone"]
  by (simp add: cow_ok_def cow_init_def owner_def mutating_def)

end
