(* ===== verification/Shared_State.thy ===== *)
theory Shared_State
  imports Py_Heap Graph_State
begin

text \<open>
  States as shared objects. The copy-on-write wrapper of \<^verbatim>\<open>victor/framework/graph_state.py\<close>, the
  copies a parallel fan-out takes for its branches (\<^verbatim>\<open>victor/framework/graph.py\<close>) and the copies
  the in-memory checkpointer takes (\<^verbatim>\<open>victor/framework/graph_checkpoint.py\<close>), over a heap in
  which dictionaries and lists are reached through references and may be changed by whoever holds
  one. The results are what allows the other theories to treat states as values: the code's
  deep copies keep the holders apart. Where the code does not copy, lemmas show the sharing.
\<close>

section \<open>The wrapper over shared objects\<close>

record HeapCow =
  hw_source :: nat
  hw_copy :: "nat option"
  hw_modified :: bool
  hw_owner_thread :: int
  hw_owner_task :: "int option"

definition hw_init :: "caller \<Rightarrow> nat \<Rightarrow> HeapCow" where
  "hw_init c source =
     \<lparr>hw_source = source, hw_copy = None, hw_modified = False,
      hw_owner_thread = thread_ident c, hw_owner_task = current_task c\<rparr>"

text \<open>The entries of the dictionary at an address; a state is a dictionary.\<close>

definition entries :: "heap \<Rightarrow> nat \<Rightarrow> (string, hval) dict" where
  "entries h a = (if a < length h then case h ! a of DictCell d \<Rightarrow> d | ListCell _ \<Rightarrow> [] else [])"

definition hw_copied :: "HeapCow \<Rightarrow> nat" where
  "hw_copied w = (case hw_copy w of Some a \<Rightarrow> a | None \<Rightarrow> hw_source w)"

text \<open>\<^verbatim>\<open>get_state\<close> returns the dictionary itself.\<close>

definition hw_get_state :: "HeapCow \<Rightarrow> nat" where
  "hw_get_state w = (if hw_modified w then hw_copied w else hw_source w)"

definition hw_ensure_copy :: "caller \<Rightarrow> heap \<times> HeapCow \<Rightarrow> (nat \<times> heap \<times> HeapCow) result" where
  "hw_ensure_copy c = (\<lambda>(h, w).
     case owner_check c (hw_owner_thread w) (hw_owner_task w) of
       Inl e \<Rightarrow> Inl e
     | Inr _ \<Rightarrow>
         (if \<not> hw_modified w
          then (case deepcopy h (Ref (hw_source w)) of
                  (Ref a, h') \<Rightarrow> Inr (a, h', w\<lparr>hw_copy := Some a, hw_modified := True\<rparr>)
                | (Atom _, h') \<Rightarrow> Inl (PyExc ''TypeError'' []))
          else Inr (hw_copied w, h, w)))"

text \<open>A method that changes the copy in place.\<close>

definition hw_on_copy ::
  "caller \<Rightarrow> ((string, hval) dict \<Rightarrow> (hval dict_reply \<times> (string, hval) dict) result) \<Rightarrow> heap \<times> HeapCow \<Rightarrow>
   hval dict_reply result \<times> heap \<times> HeapCow" where
  "hw_on_copy c f = (\<lambda>(h, w).
     case hw_ensure_copy c (h, w) of
       Inl e \<Rightarrow> (Inl e, h, w)
     | Inr (a, h', w') \<Rightarrow>
         (case f (entries h' a) of
            Inl e \<Rightarrow> (Inl e, h', w')
          | Inr (x, d) \<Rightarrow> (Inr x, h'[a := DictCell d], w')))"

definition hw_read :: "heap \<times> HeapCow \<Rightarrow> (string, hval) dict" where
  "hw_read = (\<lambda>(h, w). entries h (hw_get_state w))"

definition hw_call ::
  "caller \<Rightarrow> hval dict_call \<Rightarrow> heap \<times> HeapCow \<Rightarrow> hval dict_reply result \<times> heap \<times> HeapCow" where
  "hw_call c call s =
     (case call of
        SetItem k v \<Rightarrow> hw_on_copy c (\<lambda>d. Inr (RNone, dict_set k v d)) s
      | DelItem k \<Rightarrow>
          hw_on_copy c (\<lambda>d. if dict_has d k then Inr (RNone, dict_pop k d) else Inl (KeyError k)) s
      | Update e \<Rightarrow> hw_on_copy c (\<lambda>d. Inr (RNone, dict_update d e)) s
      | SetDefault k v \<Rightarrow>
          (if \<not> dict_has (hw_read s) k then hw_on_copy c (\<lambda>d. Inr (RVal v, dict_set k v d)) s
           else (fst (dict_call_on (GetItem k) (hw_read s)), s))
      | Pop k dflt \<Rightarrow>
          hw_on_copy c (\<lambda>d. case dict_get d k of
               Some v \<Rightarrow> Inr (RVal v, dict_pop k d)
             | None \<Rightarrow> (case dflt of Some v \<Rightarrow> Inr (RVal v, d) | None \<Rightarrow> Inl (KeyError k))) s
      | _ \<Rightarrow> (fst (dict_call_on call (hw_read s)), s))"

text \<open>
  Code that holds a wrapper and references: it calls the wrapper with references it has and
  learns those of the reply, asks for the state itself, or works on objects it knows.
\<close>

datatype cow_action = CowCall "hval dict_call" | CowState | CowClient client_op

primrec call_refs :: "hval dict_call \<Rightarrow> nat list" where
  "call_refs (GetItem k) = []"
| "call_refs (SetItem k v) = val_refs v"
| "call_refs (DelItem k) = []"
| "call_refs (Contains k) = []"
| "call_refs Len = []"
| "call_refs Iter = []"
| "call_refs (Get k v) = val_refs v"
| "call_refs Keys = []"
| "call_refs Values = []"
| "call_refs Items = []"
| "call_refs (Update e) = cell_refs (DictCell e)"
| "call_refs (SetDefault k v) = val_refs v"
| "call_refs (Pop k dflt) = (case dflt of Some v \<Rightarrow> val_refs v | None \<Rightarrow> [])"
| "call_refs Copy = []"

primrec reply_refs :: "hval dict_reply \<Rightarrow> nat list" where
  "reply_refs RNone = []"
| "reply_refs (RVal v) = val_refs v"
| "reply_refs (RBool b) = []"
| "reply_refs (RLen n) = []"
| "reply_refs (RKeys ks) = []"
| "reply_refs (RValues vs) = cell_refs (ListCell vs)"
| "reply_refs (RItems d) = cell_refs (DictCell d)"

definition result_refs :: "hval dict_reply result \<Rightarrow> nat list" where
  "result_refs r = (case r of Inl _ \<Rightarrow> [] | Inr x \<Rightarrow> reply_refs x)"

fun cow_act :: "caller \<times> cow_action \<Rightarrow> heap \<times> HeapCow \<times> nat list \<Rightarrow> heap \<times> HeapCow \<times> nat list" where
  "cow_act (c, CowCall call) (h, w, known) =
     (if set (call_refs call) \<subseteq> set known
      then (case hw_call c call (h, w) of (r, h', w') \<Rightarrow> (h', w', result_refs r @ known))
      else (h, w, known))"
| "cow_act (c, CowState) (h, w, known) = (h, w, hw_get_state w # known)"
| "cow_act (c, CowClient op) (h, w, known) =
     (case client_step op (h, known) of (h', known') \<Rightarrow> (h', w, known'))"

section \<open>References in dictionaries\<close>

abbreviation dict_refs :: "(string, hval) dict \<Rightarrow> nat set" where
  "dict_refs d \<equiv> set (cell_refs (DictCell d))"

lemma dict_refs_get: "dict_get d k = Some v \<Longrightarrow> set (val_refs v) \<subseteq> dict_refs d"
  by (auto dest: map_of_SomeD)

lemma dict_refs_set: "dict_refs (dict_set k v d) \<subseteq> dict_refs d \<union> set (val_refs v)"
  by (induction d) (auto split: if_splits)

lemma dict_refs_pop: "dict_refs (dict_pop k d) \<subseteq> dict_refs d"
  by (auto simp: AList.delete_eq)

lemma dict_refs_update: "dict_refs (dict_update d e) \<subseteq> dict_refs d \<union> dict_refs e"
proof (induction e arbitrary: d)
  case (Cons p e)
  have "dict_refs (dict_update d (p # e)) \<subseteq> dict_refs (dict_set (fst p) (snd p) d) \<union> dict_refs e"
    using Cons by simp
  also have "\<dots> \<subseteq> dict_refs d \<union> dict_refs (p # e)" using dict_refs_set [of "fst p" "snd p" d] by auto
  finally show ?case .
qed simp

lemma entries_refs: "region h S \<Longrightarrow> a \<in> S \<Longrightarrow> dict_refs (entries h a) \<subseteq> S"
  using regionD [of h S a] by (cases "h ! a") (auto simp: entries_def)

lemma dict_call_refs:
  "set (result_refs (fst (dict_call_on call d))) \<subseteq> dict_refs d \<union> set (call_refs call)"
  using dict_refs_get [of d]
  by (cases call)
    (auto simp: dict_call_on_def result_refs_def dict_get_or_def dict_values_def split: option.splits dest!: subsetD)

section \<open>Writing separates the wrapper from its source\<close>

text \<open>A change of the copy that stores and returns only references it was given.\<close>

definition bounded :: "nat set \<Rightarrow> ((string, hval) dict \<Rightarrow> (hval dict_reply \<times> (string, hval) dict) result) \<Rightarrow> bool" where
  "bounded A f \<longleftrightarrow> (\<forall>d x d'. f d = Inr (x, d') \<longrightarrow>
     dict_refs d' \<subseteq> dict_refs d \<union> A \<and> set (reply_refs x) \<subseteq> dict_refs d \<union> A)"

lemma hw_call_forms:
  "(\<not> mutating call (hw_read s) \<and>
      (\<exists>q. set (call_refs q) \<subseteq> set (call_refs call) \<and> hw_call c call s = (fst (dict_call_on q (hw_read s)), s))) \<or>
   (\<exists>f. bounded (set (call_refs call)) f \<and> hw_call c call s = hw_on_copy c f s)"
proof (cases call)
  case (SetItem k v)
  have "bounded (set (val_refs v)) (\<lambda>d. Inr (RNone, dict_set k v d))"
    using dict_refs_set by (auto simp: bounded_def)
  then show ?thesis using SetItem by (auto simp: hw_call_def)
next
  case (DelItem k)
  have "bounded {} (\<lambda>d. if dict_has d k then Inr (RNone, dict_pop k d) else Inl (KeyError k))"
    using dict_refs_pop by (auto simp: bounded_def split: if_splits)
  then show ?thesis using DelItem by (auto simp: hw_call_def)
next
  case (Update e)
  have "bounded (dict_refs e) (\<lambda>d. Inr (RNone, dict_update d e))"
    using dict_refs_update by (auto simp: bounded_def)
  then show ?thesis using Update by (auto simp: hw_call_def)
next
  case (SetDefault k v)
  have bd: "bounded (set (val_refs v)) (\<lambda>d. Inr (RVal v, dict_set k v d))"
    using dict_refs_set by (auto simp: bounded_def)
  show ?thesis
  proof (cases "dict_has (hw_read s) k")
    case True
    with SetDefault have "hw_call c call s = (fst (dict_call_on (GetItem k) (hw_read s)), s)" "\<not> mutating call (hw_read s)"
      by (simp_all add: hw_call_def mutating_def)
    then show ?thesis by (intro disjI1 conjI exI [of _ "GetItem k"]) simp_all
  next
    case False
    with bd SetDefault show ?thesis by (intro disjI2 exI conjI) (simp, simp add: hw_call_def)
  qed
next
  case (Pop k dflt)
  have "bounded (set (call_refs call)) (\<lambda>d. case dict_get d k of
               Some v \<Rightarrow> Inr (RVal v, dict_pop k d)
             | None \<Rightarrow> (case dflt of Some v \<Rightarrow> Inr (RVal v, d) | None \<Rightarrow> Inl (KeyError k)))"
    using dict_refs_pop dict_refs_get Pop by (fastforce simp: bounded_def split: option.splits)
  then show ?thesis using Pop by (auto simp: hw_call_def)
qed (rule disjI1, intro conjI exI [of _ call]; simp add: hw_call_def mutating_def)+

lemma on_copy_inside:
  assumes "region h S" "hw_modified w" "hw_copied w \<in> S" "bounded A f" "A \<subseteq> S"
    and "hw_on_copy c f (h, w) = (r, h', w')"
  shows "w' = w" "length h' = length h" "region h' S" "\<forall>a. a \<notin> S \<longrightarrow> h' ! a = h ! a" "set (result_refs r) \<subseteq> S"
proof -
  have d: "dict_refs (entries h (hw_copied w)) \<subseteq> S" by (rule entries_refs [OF assms(1,3)])
  have "w' = w \<and> length h' = length h \<and> region h' S \<and> (\<forall>a. a \<notin> S \<longrightarrow> h' ! a = h ! a) \<and> set (result_refs r) \<subseteq> S"
  proof (cases "owner_check c (hw_owner_thread w) (hw_owner_task w)")
    case (Inl e)
    with assms show ?thesis by (auto simp: hw_on_copy_def hw_ensure_copy_def result_refs_def)
  next
    case (Inr u)
    then have en: "hw_ensure_copy c (h, w) = Inr (hw_copied w, h, w)" using assms(2) by (simp add: hw_ensure_copy_def)
    show ?thesis
    proof (cases "f (entries h (hw_copied w))")
      case (Inl e)
      with en assms show ?thesis by (auto simp: hw_on_copy_def result_refs_def)
    next
      case (Inr p)
      then obtain x d' where p: "f (entries h (hw_copied w)) = Inr (x, d')" by (cases p) simp
      have refs: "dict_refs d' \<subseteq> S" "set (reply_refs x) \<subseteq> S" using assms(4,5) p d unfolding bounded_def by blast+
      have h': "h' = h[hw_copied w := DictCell d']" "r = Inr x" "w' = w"
        using assms(6) en p by (auto simp: hw_on_copy_def)
      have "region h' S" using refs(1) regionD [OF assms(1)] unfolding region_def h'(1)
        by (metis length_list_update nth_list_update_eq nth_list_update_neq)
      moreover have "h' ! a = h ! a" if "a \<notin> S" for a using that assms(3) h'(1) by (metis nth_list_update_neq)
      ultimately show ?thesis using refs(2) h' by (simp add: result_refs_def)
    qed
  qed
  then show "w' = w" "length h' = length h" "region h' S" "\<forall>a. a \<notin> S \<longrightarrow> h' ! a = h ! a" "set (result_refs r) \<subseteq> S"
    by blast+
qed

lemma hw_call_inside:
  assumes "region h S" "hw_modified w" "hw_copied w \<in> S" "set (call_refs call) \<subseteq> S"
    and "hw_call c call (h, w) = (r, h', w')"
  shows "w' = w" "length h' = length h" "region h' S" "\<forall>a. a \<notin> S \<longrightarrow> h' ! a = h ! a" "set (result_refs r) \<subseteq> S"
proof -
  consider (reads) q where "set (call_refs q) \<subseteq> set (call_refs call)"
      "hw_call c call (h, w) = (fst (dict_call_on q (hw_read (h, w))), h, w)"
    | (writes) f where "bounded (set (call_refs call)) f" "hw_call c call (h, w) = hw_on_copy c f (h, w)"
    using hw_call_forms [of call "(h, w)" c] by blast
  then have "w' = w \<and> length h' = length h \<and> region h' S \<and> (\<forall>a. a \<notin> S \<longrightarrow> h' ! a = h ! a) \<and> set (result_refs r) \<subseteq> S"
  proof cases
    case reads
    have "dict_refs (hw_read (h, w)) \<subseteq> S"
      using entries_refs [OF assms(1,3)] assms(2) by (simp add: hw_read_def hw_get_state_def)
    then have "set (result_refs (fst (dict_call_on q (hw_read (h, w))))) \<subseteq> S"
      using dict_call_refs [of q "hw_read (h, w)"] reads(1) assms(4) by blast
    with reads(2) assms(1,5) show ?thesis by simp
  next
    case writes
    with on_copy_inside [OF assms(1-3) writes(1) assms(4)] assms(5) show ?thesis by metis
  qed
  then show "w' = w" "length h' = length h" "region h' S" "\<forall>a. a \<notin> S \<longrightarrow> h' ! a = h ! a" "set (result_refs r) \<subseteq> S"
    by blast+
qed

text \<open>
  The regions of the source and of the code that uses the wrapper, once the copy is taken.
\<close>

definition separated :: "(bool \<Rightarrow> nat set) \<Rightarrow> heap \<times> HeapCow \<times> nat list \<Rightarrow> bool" where
  "separated R = (\<lambda>(h, w, known).
     apart h R \<and> set known \<subseteq> R False \<and> hw_modified w \<and> hw_copied w \<in> R False)"

lemma separated_step:
  assumes "separated R (h, w, known)" "cow_act act (h, w, known) = (h', w', known')"
  shows "separated (grow h h' False R) (h', w', known')" "length h \<le> length h'"
    "\<forall>a < length h. a \<notin> R False \<longrightarrow> h' ! a = h ! a"
proof -
  have ap: "apart h R" and kn: "set known \<subseteq> R False" and mo: "hw_modified w" "hw_copied w \<in> R False"
    using assms(1) by (simp_all add: separated_def)
  have "separated (grow h h' False R) (h', w', known') \<and> length h \<le> length h' \<and>
      (\<forall>a < length h. a \<notin> R False \<longrightarrow> h' ! a = h ! a)"
  proof (cases act)
    case (Pair c a)
    show ?thesis
    proof (cases a)
      case (CowCall call)
      show ?thesis
      proof (cases "set (call_refs call) \<subseteq> set known")
        case True
        obtain r where c: "hw_call c call (h, w) = (r, h', w')" and k: "known' = result_refs r @ known"
          using assms(2) Pair CowCall True by (auto split: prod.splits)
        note step = hw_call_inside [OF apart_region [OF ap] mo _ c]
        have "set (call_refs call) \<subseteq> R False" using True kn by blast
        note step = step [OF this]
        have "apart h' (grow h h' False R)" using apart_grow [OF ap _ region_Un [OF step(3)]] step by (simp add: region_def)
        with step k kn mo show ?thesis by (simp add: separated_def)
      next
        case False
        with assms(2) ap kn mo Pair CowCall show ?thesis by (auto simp: separated_def grow_def)
      qed
    next
      case CowState
      with assms(2) ap kn mo Pair show ?thesis by (auto simp: separated_def grow_def hw_get_state_def)
    next
      case (CowClient op)
      then have c: "client_step op (h, known) = (h', known')" "w' = w"
        using assms(2) Pair by (auto split: prod.splits)
      with client_apart [OF ap kn c(1)] mo show ?thesis by (auto simp: separated_def)
    qed
  qed
  then show "separated (grow h h' False R) (h', w', known')" "length h \<le> length h'"
    "\<forall>a < length h. a \<notin> R False \<longrightarrow> h' ! a = h ! a" by blast+
qed

lemma separated_run:
  assumes "separated R (h, w, known)" "fold cow_act acts (h, w, known) = (h', w', known')" "a \<in> R True"
  shows "h' ! a = h ! a"
  using assms
proof (induction acts arbitrary: h w known R)
  case (Cons act acts)
  obtain h1 w1 k1 where s: "cow_act act (h, w, known) = (h1, w1, k1)" by (cases "cow_act act (h, w, known)") auto
  note step = separated_step [OF Cons.prems(1) s]
  have ap: "apart h R" using Cons.prems(1) by (simp add: separated_def)
  have "a < length h" "a \<notin> R False"
    using regionD [OF apart_region [OF ap] Cons.prems(3)] apart_other [OF ap _ Cons.prems(3), of False] by simp_all
  with step(3) have "h1 ! a = h ! a" by simp
  with Cons.IH [OF step(1)] Cons.prems(2,3) s show ?case by simp
qed simp

lemma separated_first:
  assumes "apart h R" "s \<in> R True" "set known \<subseteq> R False" "set (call_refs call) \<subseteq> set known"
    and "mutating call (entries h s)" "hw_call c call (h, hw_init c s) = (r, h', w')"
  shows "\<exists>R'. separated R' (h', w', result_refs r @ known) \<and> R' True = R True \<and> (\<forall>a \<in> R True. h' ! a = h ! a)"
proof -
  let ?w = "hw_init c s"
  have "hw_read (h, ?w) = entries h s" by (simp add: hw_read_def hw_get_state_def hw_init_def)
  then obtain f where f: "bounded (set (call_refs call)) f" "hw_call c call (h, ?w) = hw_on_copy c f (h, ?w)"
    using hw_call_forms [of call "(h, ?w)" c] assms(5) by auto
  have chk: "owner_check c (hw_owner_thread ?w) (hw_owner_task ?w) = Inr ()"
    by (simp add: owner_check_def hw_init_def)
  obtain b h1 where dc: "deepcopy h (Ref s) = (Ref b, h1)" by (simp add: deepcopy_def Let_def)
  let ?w1 = "?w\<lparr>hw_copy := Some b, hw_modified := True\<rparr>"
  let ?R = "grow h h1 False R"
  have en: "hw_ensure_copy c (h, ?w) = Inr (b, h1, ?w1)"
    using chk dc by (simp add: hw_ensure_copy_def) (simp add: hw_init_def)
  moreover have "hw_ensure_copy c (h1, ?w1) = Inr (b, h1, ?w1)" using chk by (simp add: hw_ensure_copy_def hw_copied_def)
  ultimately have on: "hw_on_copy c f (h1, ?w1) = (r, h', w')"
    using f(2) assms(6) by (simp add: hw_on_copy_def)
  have s: "set (val_refs (Ref s)) \<subseteq> R True" using assms(2) by simp
  note cp = copy_apart(1,2) [OF assms(1) s dc, of False] copy_apart(3,4) [OF assms(1) s dc]
  have b: "hw_copied ?w1 \<in> ?R False" using cp(2) by (simp add: hw_copied_def)
  have A: "set (call_refs call) \<subseteq> ?R False" using assms(3,4) by auto
  note ins = on_copy_inside [OF apart_region [OF cp(1)] _ b f(1) A on]
  have ap: "apart h' (grow h1 h' False ?R)"
    using apart_grow [OF cp(1) _ region_Un [OF ins(3)]] ins by (simp add: region_def)
  have same: "h' ! a = h ! a" if a: "a \<in> R True" for a
  proof -
    have "a < length h" "a \<in> ?R True" using regionD [OF apart_region [OF assms(1)] a] a by simp_all
    with ins(4) cp(4) apart_other [OF cp(1), of False True a] show ?thesis by simp
  qed
  have "separated (grow h1 h' False ?R) (h', w', result_refs r @ known)"
    using ap ins b assms(3) by (auto simp: separated_def)
  with same show ?thesis by (intro exI [of _ "grow h1 h' False ?R"]) simp
qed

section \<open>Branches of a fan-out\<close>

text \<open>
  The tasks of \<^verbatim>\<open>_execute_parallel\<close> interleave: each begins, at a time the event loop chooses, with
  a copy of the state its directive carries, and its node then works with what it can reach from
  that copy. A branch is \<open>None\<close> before it begins and the references it holds afterwards.
\<close>

datatype branch_event = Begin nat | Act nat client_op

fun branch_step :: "nat list \<Rightarrow> branch_event \<Rightarrow> heap \<times> nat list option list \<Rightarrow> heap \<times> nat list option list" where
  "branch_step sends (Begin i) (h, bs) =
     (if i < length bs \<and> bs ! i = None
      then (case deepcopy h (Ref (sends ! i)) of (v, h') \<Rightarrow> (h', bs[i := Some (val_refs v)]))
      else (h, bs))"
| "branch_step sends (Act i op) (h, bs) =
     (if i < length bs
      then (case bs ! i of
              Some known \<Rightarrow> (case client_step op (h, known) of (h', known') \<Rightarrow> (h', bs[i := Some known']))
            | None \<Rightarrow> (h, bs))
      else (h, bs))"

definition branches_apart :: "(nat option \<Rightarrow> nat set) \<Rightarrow> heap \<times> nat list option list \<Rightarrow> bool" where
  "branches_apart R = (\<lambda>(h, bs). apart h R \<and>
     (\<forall>i known. i < length bs \<longrightarrow> bs ! i = Some known \<longrightarrow> set known \<subseteq> R (Some i)))"

lemma branch_begins:
  assumes "branches_apart R (h, bs)" "set sends \<subseteq> R None" "length bs = length sends" "i < length bs" "bs ! i = None"
  obtains b h' where "deepcopy h (Ref (sends ! i)) = (Ref b, h')"
    "branch_step sends (Begin i) (h, bs) = (h', bs[i := Some [b]])"
    "branches_apart (grow h h' (Some i) R) (h', bs[i := Some [b]])"
    "length h \<le> length h'" "\<forall>a < length h. h' ! a = h ! a"
proof -
  obtain b h' where dc: "deepcopy h (Ref (sends ! i)) = (Ref b, h')" by (simp add: deepcopy_def Let_def)
  have ap: "apart h R" using assms(1) by (simp add: branches_apart_def)
  have s: "set (val_refs (Ref (sends ! i))) \<subseteq> R None" using assms(2-4) by auto
  note cp = copy_apart(1,2) [OF ap s dc, of "Some i"] copy_apart(3,4) [OF ap s dc]
  have "branches_apart (grow h h' (Some i) R) (h', bs[i := Some [b]])"
    unfolding branches_apart_def prod.case
  proof (intro conjI allI impI)
    show "apart h' (grow h h' (Some i) R)" by (rule cp(1))
    fix j known assume j: "j < length (bs[i := Some [b]])" "bs[i := Some [b]] ! j = Some known"
    show "set known \<subseteq> grow h h' (Some i) R (Some j)"
    proof (cases "j = i")
      case True
      with j cp(2) assms(4) show ?thesis by auto
    next
      case False
      with j assms(1) show ?thesis by (simp add: branches_apart_def)
    qed
  qed
  with that dc cp(3,4) assms(4,5) show ?thesis by simp
qed

lemma branch_acts:
  assumes "branches_apart R (h, bs)" "branch_step sends (Act i op) (h, bs) = (h', bs')"
  shows "branches_apart (grow h h' (Some i) R) (h', bs') \<and> length bs' = length bs \<and> length h \<le> length h' \<and>
    (\<forall>a < length h. a \<notin> R (Some i) \<longrightarrow> h' ! a = h ! a)"
proof (cases "i < length bs \<and> bs ! i \<noteq> None")
  case True
  then obtain known where k: "i < length bs" "bs ! i = Some known" by auto
  obtain known' where c: "client_step op (h, known) = (h', known')" and bs': "bs' = bs[i := Some known']"
    using assms(2) k by (auto split: prod.splits)
  have ap: "apart h R" and kn: "set known \<subseteq> R (Some i)"
    using assms(1) k by (auto simp: branches_apart_def split: option.splits)
  note st = client_apart [OF ap kn c]
  have "set k \<subseteq> grow h h' (Some i) R (Some j)" if "j < length bs'" "bs' ! j = Some k" for j k
  proof (cases "j = i")
    case True
    with that st(2) show ?thesis by (auto simp: bs')
  next
    case False
    with that assms(1) show ?thesis by (simp add: branches_apart_def bs')
  qed
  with st bs' show ?thesis by (simp add: branches_apart_def)
next
  case False
  have g: "grow h h (Some i) R = R" by (simp add: grow_def)
  from False assms(2) have "h' = h" "bs' = bs" by (auto split: if_splits option.splits)
  with assms(1) g show ?thesis by simp
qed

lemma branch_step_apart:
  assumes "branches_apart R (h, bs)" "set sends \<subseteq> R None" "length bs = length sends"
    and "branch_step sends ev (h, bs) = (h', bs')"
  obtains R' where "branches_apart R' (h', bs')" "R' None = R None" "length bs' = length sends"
    "\<forall>a \<in> R None. a < length h \<and> h' ! a = h ! a"
proof -
  have ap: "apart h R" using assms(1) by (simp add: branches_apart_def)
  have inh: "a < length h" if "a \<in> R None" for a using regionD [OF apart_region [OF ap] that] by simp
  show thesis
  proof (cases ev)
    case (Begin i)
    show thesis
    proof (cases "i < length bs \<and> bs ! i = None")
      case True
      then obtain b where "branches_apart (grow h h' (Some i) R) (h', bs')" "bs' = bs[i := Some [b]]"
        "\<forall>a < length h. h' ! a = h ! a"
        by (rule conjE) (rule branch_begins [OF assms(1-3), of i], use assms(4) Begin in auto)
      with that [of "grow h h' (Some i) R"] inh assms(3) show thesis by simp
    next
      case False
      with assms(4) Begin have "h' = h" "bs' = bs" by (auto split: if_splits)
      with that [of R] assms(1,3) inh show thesis by simp
    qed
  next
    case (Act i op)
    note st = branch_acts [OF assms(1), of sends i op h' bs'] 
    have "a \<notin> R (Some i)" if "a \<in> R None" for a using apart_other [OF ap _ that, of "Some i"] by simp
    with st assms(3,4) Act inh that [of "grow h h' (Some i) R"] show thesis by simp
  qed
qed

lemma branches_run:
  assumes "branches_apart R (h, bs)" "set sends \<subseteq> R None" "length bs = length sends"
    and "fold (branch_step sends) evs (h, bs) = (h', bs')"
  shows "\<exists>R'. branches_apart R' (h', bs') \<and> R' None = R None \<and> length bs' = length sends \<and>
    (\<forall>a \<in> R None. a < length h \<and> h' ! a = h ! a)"
  using assms
proof (induction evs arbitrary: h bs R)
  case Nil
  then have "apart h R" by (simp add: branches_apart_def)
  with Nil regionD [OF apart_region, of h R _ None] show ?case by auto
next
  case (Cons ev evs)
  obtain h1 bs1 where s: "branch_step sends ev (h, bs) = (h1, bs1)" by (cases "branch_step sends ev (h, bs)")
  obtain R1 where R1: "branches_apart R1 (h1, bs1)" "R1 None = R None" "length bs1 = length sends"
    "\<forall>a \<in> R None. a < length h \<and> h1 ! a = h ! a"
    using branch_step_apart [OF Cons.prems(1-3) s] by metis
  have "set sends \<subseteq> R1 None" using R1(2) Cons.prems(2) by simp
  from Cons.IH [OF R1(1) this R1(3)] Cons.prems(4) s R1(2,4) show ?case by (metis fold_simps(2))
qed

section \<open>The in-memory checkpointer\<close>

text \<open>
  A checkpoint is an object with its fields as entries; the checkpointer's own lists are never
  handed out. \<^verbatim>\<open>save\<close> reads the thread of the checkpoint it is given; an object without one is not a
  checkpoint.
\<close>

definition str_field :: "heap \<Rightarrow> nat \<Rightarrow> string \<Rightarrow> string option" where
  "str_field h a k = (case dict_get (entries h a) k of Some (Atom (VStr s)) \<Rightarrow> Some s | _ \<Rightarrow> None)"

type_synonym heap_checkpoints = "(string, nat list) dict"

definition hm_save :: "nat \<Rightarrow> heap \<times> heap_checkpoints \<Rightarrow> heap \<times> heap_checkpoints" where
  "hm_save cp = (\<lambda>(h, m).
     case str_field h cp ''thread_id'' of
       None \<Rightarrow> (h, m)
     | Some t \<Rightarrow>
         (case deepcopy h (Ref cp) of
            (v, h') \<Rightarrow> (h', dict_set t (dict_get_or m t [] @ val_refs v) m)))"

definition hm_load :: "string \<Rightarrow> heap \<times> heap_checkpoints \<Rightarrow> hval option \<times> heap" where
  "hm_load t = (\<lambda>(h, m).
     case dict_get_or m t [] of
       [] \<Rightarrow> (None, h)
     | c # cs \<Rightarrow> map_prod Some id (deepcopy h (Ref (last (c # cs)))))"

primrec copy_all :: "nat list \<Rightarrow> heap \<Rightarrow> hval list \<times> heap" where
  "copy_all [] h = ([], h)"
| "copy_all (c # cs) h =
     (case deepcopy h (Ref c) of (v, h') \<Rightarrow> map_prod (Cons v) id (copy_all cs h'))"

definition hm_list :: "string \<Rightarrow> heap \<times> heap_checkpoints \<Rightarrow> hval list \<times> heap" where
  "hm_list t = (\<lambda>(h, m). copy_all (dict_get_or m t []) h)"

datatype cp_action = CpSave nat | CpLoad string | CpList string | CpClient client_op

fun cp_act :: "cp_action \<Rightarrow> heap \<times> heap_checkpoints \<times> nat list \<Rightarrow> heap \<times> heap_checkpoints \<times> nat list" where
  "cp_act (CpSave a) (h, m, known) =
     (if a \<in> set known then (case hm_save a (h, m) of (h', m') \<Rightarrow> (h', m', known)) else (h, m, known))"
| "cp_act (CpLoad t) (h, m, known) =
     (case hm_load t (h, m) of
        (None, h') \<Rightarrow> (h', m, known)
      | (Some v, h') \<Rightarrow> (h', m, val_refs v @ known))"
| "cp_act (CpList t) (h, m, known) =
     (case hm_list t (h, m) of (vs, h') \<Rightarrow> (h', m, concat (map val_refs vs) @ known))"
| "cp_act (CpClient op) (h, m, known) =
     (case client_step op (h, known) of (h', known') \<Rightarrow> (h', m, known'))"

text \<open>The store's region is \<open>R True\<close>, the region of the code around it \<open>R False\<close>.\<close>

definition checkpoints_apart :: "(bool \<Rightarrow> nat set) \<Rightarrow> heap \<times> heap_checkpoints \<times> nat list \<Rightarrow> bool" where
  "checkpoints_apart R = (\<lambda>(h, m, known).
     apart h R \<and> set known \<subseteq> R False \<and> (\<forall>t. set (dict_get_or m t []) \<subseteq> R True))"

lemma copy_all_apart:
  assumes "apart h R" "set cs \<subseteq> R i" "copy_all cs h = (vs, h')"
  shows "apart h' (grow h h' j R) \<and> set (concat (map val_refs vs)) \<subseteq> grow h h' j R j \<and>
    length h \<le> length h' \<and> (\<forall>a < length h. h' ! a = h ! a) \<and> length vs = length cs"
  using assms
proof (induction cs arbitrary: h vs R)
  case Nil
  have "grow h h j R = R" by (simp add: grow_def)
  with Nil show ?case by simp
next
  case (Cons c cs)
  obtain v h1 where dc: "deepcopy h (Ref c) = (v, h1)" by (cases "deepcopy h (Ref c)")
  obtain vs1 where al: "copy_all cs h1 = (vs1, h')" "vs = v # vs1"
    using Cons.prems(3) dc by (cases "copy_all cs h1") auto
  have c: "set (val_refs (Ref c)) \<subseteq> R i" using Cons.prems(2) by simp
  note cp = copy_apart(1,2) [OF Cons.prems(1) c dc, of j] copy_apart(3,4) [OF Cons.prems(1) c dc]
  have "set cs \<subseteq> grow h h1 j R i" using Cons.prems(2) grow_mono [of R i] by fastforce
  note ih = Cons.IH [OF cp(1) this al(1)]
  have g: "grow h1 h' j (grow h h1 j R) = grow h h' j R"
    using cp(3) ih by (auto simp: grow_def fun_eq_iff)
  have "grow h h1 j R j \<subseteq> grow h h' j R j" using ih by auto
  then show ?case using ih cp al(2) unfolding g by auto
qed

text \<open>A step keeps the regions apart, changes no stored object and only appends to a history.\<close>

lemma cp_act_apart:
  assumes "checkpoints_apart R (h, m, known)" "cp_act act (h, m, known) = (h', m', known')"
  shows "\<exists>i. checkpoints_apart (grow h h' i R) (h', m', known') \<and> length h \<le> length h' \<and>
    (\<forall>a \<in> R True. h' ! a = h ! a) \<and> (\<forall>t. \<exists>xs. dict_get_or m' t [] = dict_get_or m t [] @ xs)"
proof -
  have ap: "apart h R" and kn: "set known \<subseteq> R False" and st: "\<And>t. set (dict_get_or m t []) \<subseteq> R True"
    using assms(1) by (simp_all add: checkpoints_apart_def)
  have inh: "a < length h" if "a \<in> R i" for a i using regionD [OF apart_region [OF ap] that] by simp
  have idle: "checkpoints_apart (grow h h False R) (h, m, known)" using assms(1) by (simp add: grow_def)
  have given: ?thesis
    if "apart h' (grow h h' False R)" "length h \<le> length h'" "\<forall>a \<in> R True. h' ! a = h ! a" "m' = m"
      "set known' \<subseteq> grow h h' False R False"
    using that st by (intro exI [of _ False]) (simp add: checkpoints_apart_def)
  show ?thesis
  proof (cases act)
    case (CpSave a)
    show ?thesis
    proof (cases "a \<in> set known \<and> str_field h a ''thread_id'' \<noteq> None")
      case True
      then obtain t where t: "a \<in> set known" "str_field h a ''thread_id'' = Some t" by auto
      obtain b where dc: "deepcopy h (Ref a) = (Ref b, h')" and m': "m' = dict_set t (dict_get_or m t [] @ [b]) m"
        and k': "known' = known"
        using assms(2) CpSave t by (auto simp: hm_save_def deepcopy_def Let_def)
      have a: "set (val_refs (Ref a)) \<subseteq> R False" using t kn by auto
      note cp = copy_apart(1,2) [OF ap a dc, of True] copy_apart(3,4) [OF ap a dc]
      have get: "dict_get_or m' u [] = (if u = t then dict_get_or m t [] @ [b] else dict_get_or m u [])" for u
        by (simp add: m' dict_get_or_def dict_simps)
      then have "set (dict_get_or m' u []) \<subseteq> grow h h' True R True" for u
        using st [of u] cp(2) by (auto simp: dict_get_or_def)
      with cp kn k' get inh show ?thesis by (intro exI [of _ True]) (auto simp: checkpoints_apart_def)
    next
      case False
      with assms(2) CpSave have "h' = h" "m' = m" "known' = known" by (auto simp: hm_save_def split: if_splits)
      with idle show ?thesis by auto
    qed
  next
    case (CpLoad t)
    show ?thesis
    proof (cases "dict_get_or m t []")
      case Nil
      with assms(2) CpLoad have "h' = h" "m' = m" "known' = known" by (simp_all add: hm_load_def)
      with idle show ?thesis by auto
    next
      case (Cons c cs)
      have "last (c # cs) \<in> R True" using st [of t] Cons last_in_set [of "c # cs"] by (metis list.distinct(1) subsetD)
      then have l: "set (val_refs (Ref (last (c # cs)))) \<subseteq> R True" by simp
      obtain v where dc: "deepcopy h (Ref (last (c # cs))) = (v, h')" "m' = m" "known' = val_refs v @ known"
        using assms(2) CpLoad Cons by (cases "deepcopy h (Ref (last (c # cs)))") (simp add: hm_load_def)
      show ?thesis
        using copy_apart(1,2) [OF ap l dc(1), of False] copy_apart(3,4) [OF ap l dc(1)] dc(2,3) kn inh
        by (intro given) auto
    qed
  next
    case (CpList t)
    obtain vs where al: "copy_all (dict_get_or m t []) h = (vs, h')" "m' = m" "known' = concat (map val_refs vs) @ known"
      using assms(2) CpList by (cases "copy_all (dict_get_or m t []) h") (simp add: hm_list_def)
    show ?thesis using copy_all_apart [OF ap st al(1), of False] al(2,3) kn inh by (intro given) auto
  next
    case (CpClient op)
    then have c: "client_step op (h, known) = (h', known')" "m' = m"
      using assms(2) by (auto split: prod.splits)
    note cl = client_apart [OF ap kn c(1)]
    have "a \<notin> R False" if "a \<in> R True" for a using apart_other [OF ap _ that, of False] by simp
    then show ?thesis using cl c(2) inh by (intro given) auto
  qed
qed

lemma cp_run_apart:
  assumes "checkpoints_apart R (h, m, known)" "fold cp_act acts (h, m, known) = (h', m', known')"
  shows "\<exists>R'. checkpoints_apart R' (h', m', known') \<and> length h \<le> length h' \<and>
    (\<forall>a \<in> R True. h' ! a = h ! a) \<and> (\<forall>t. \<exists>xs. dict_get_or m' t [] = dict_get_or m t [] @ xs)"
  using assms
proof (induction acts arbitrary: h m known R)
  case Nil
  then show ?case by auto
next
  case (Cons act acts)
  obtain h1 m1 k1 where s: "cp_act act (h, m, known) = (h1, m1, k1)" by (cases "cp_act act (h, m, known)") auto
  obtain i where i: "checkpoints_apart (grow h h1 i R) (h1, m1, k1)" "length h \<le> length h1"
    "\<forall>a \<in> R True. h1 ! a = h ! a" "\<forall>t. \<exists>xs. dict_get_or m1 t [] = dict_get_or m t [] @ xs"
    using cp_act_apart [OF Cons.prems(1) s] by blast
  obtain R' where R': "checkpoints_apart R' (h', m', known')" "length h1 \<le> length h'"
    "\<forall>a \<in> grow h h1 i R True. h' ! a = h1 ! a" "\<forall>t. \<exists>xs. dict_get_or m' t [] = dict_get_or m1 t [] @ xs"
    using Cons.IH [OF i(1)] Cons.prems(2) s by auto
  have "h' ! a = h ! a" if "a \<in> R True" for a using R'(3) i(3) that grow_mono [of R True h h1 i] by auto
  moreover have "\<exists>xs. dict_get_or m' t [] = dict_get_or m t [] @ xs" for t using R'(4) i(4) by (metis append.assoc)
  ultimately show ?case using R'(1,2) i(2) by (meson le_trans)
qed

lemma copy_all_denotes:
  assumes "region h S" "set cs \<subseteq> S" "copy_all cs h = (vs, h')" "i < length cs" "denotes h (Ref (cs ! i)) x"
  shows "denotes h' (vs ! i) x"
  using assms
proof (induction cs arbitrary: h vs S i)
  case (Cons c cs)
  let ?R = "\<lambda>b. if b then S else {}"
  obtain v h1 where dc: "deepcopy h (Ref c) = (v, h1)" by (cases "deepcopy h (Ref c)")
  obtain vs1 where al: "copy_all cs h1 = (vs1, h')" "vs = v # vs1"
    using Cons.prems(3) dc by (cases "copy_all cs h1") auto
  have ap: "apart h ?R" using Cons.prems(1) by (simp add: apart_def region_def)
  have c: "set (val_refs (Ref c)) \<subseteq> ?R True" using Cons.prems(2) by simp
  note cp = copy_apart(1,2) [OF ap c dc, of False] copy_apart(3,4) [OF ap c dc]
  have cs: "set cs \<subseteq> grow h h1 False ?R True" using Cons.prems(2) by auto
  note later = copy_all_apart [OF cp(1) cs al(1), of False]
  show ?case
  proof (cases i)
    case 0
    have "denotes h1 v x" using deepcopy_denotes [OF Cons.prems(1) _ dc] Cons.prems(2,5) 0 by simp
    then have "denotes h' v x"
      by (rule denotes_frame [OF _ apart_region [OF cp(1)] cp(2)])
        (use later regionD [OF apart_region [OF cp(1)]] in \<open>meson order_less_le_trans\<close>)
    with al(2) 0 show ?thesis by simp
  next
    case (Suc j)
    have "region h1 S" using apart_region [OF cp(1), of True] by simp
    moreover have "denotes h1 (Ref (cs ! j)) x"
    proof (rule denotes_frame [OF _ Cons.prems(1)])
      show "denotes h (Ref (cs ! j)) x" using Cons.prems(5) Suc by simp
      show "set (val_refs (Ref (cs ! j))) \<subseteq> S" using Cons.prems(2,4) Suc by auto
      show "\<forall>a \<in> S. a < length h1 \<and> h1 ! a = h ! a"
        using cp(3,4) regionD [OF Cons.prems(1)] by (meson order_less_le_trans)
    qed
    ultimately have "denotes h' (vs1 ! j) x" using Cons.IH [OF _ _ al(1), of S j] Cons.prems(2,4) Suc by simp
    with al(2) Suc show ?thesis by simp
  qed
qed simp

section \<open>Results\<close>

text \<open>C9. Once code that holds a copy-on-write wrapper writes through it, whatever the code does
  afterwards leaves every object of the wrapped state as it was: further calls of the wrapper,
  changes inside nested objects it reads from it, changes of the dictionary \<^verbatim>\<open>get_state\<close> returns. The
  write is by the thread and task that made the wrapper, and until then the code holds no reference
  into the wrapped state. The copy taken at that write denotes the same value as the source.\<close>

theorem cow_isolates:
  assumes "region h S" "s \<in> S" "region h K" "S \<inter> K = {}" "set known \<subseteq> K"
    and "set (call_refs call) \<subseteq> set known" "mutating call (entries h s)"
    and "fold cow_act ((c, CowCall call) # acts) (h, hw_init c s, known) = (h', w, known')"
  shows "(\<forall>a \<in> S. h' ! a = h ! a) \<and>
    (\<exists>b h1 w1. hw_ensure_copy c (h, hw_init c s) = Inr (b, h1, w1) \<and>
       (\<forall>x. denotes h (Ref s) x \<longrightarrow> denotes h1 (Ref b) x))"
proof
  let ?R = "\<lambda>b. if b then S else K"
  have ap: "apart h ?R" using assms(1,3,4) by (auto simp: apart_def)
  obtain r h1 w1 where first: "hw_call c call (h, hw_init c s) = (r, h1, w1)"
    by (cases "hw_call c call (h, hw_init c s)") auto
  obtain R' where R': "separated R' (h1, w1, result_refs r @ known)" "R' True = S" "\<forall>a \<in> S. h1 ! a = h ! a"
    using separated_first [OF ap _ _ assms(6,7) first] assms(2,5) by auto
  have "fold cow_act acts (h1, w1, result_refs r @ known) = (h', w, known')"
    using assms(6,8) first by simp
  from separated_run [OF R'(1) this] R'(2,3) show "\<forall>a \<in> S. h' ! a = h ! a" by auto
  obtain b h2 where dc: "deepcopy h (Ref s) = (Ref b, h2)" by (simp add: deepcopy_def Let_def)
  have "hw_ensure_copy c (h, hw_init c s) = Inr (b, h2, (hw_init c s)\<lparr>hw_copy := Some b, hw_modified := True\<rparr>)"
    using dc by (simp add: hw_ensure_copy_def owner_check_def hw_init_def)
  with deepcopy_denotes [OF assms(1) _ dc] assms(2)
  show "\<exists>b h1 w1. hw_ensure_copy c (h, hw_init c s) = Inr (b, h1, w1) \<and>
       (\<forall>x. denotes h (Ref s) x \<longrightarrow> denotes h1 (Ref b) x)" by simp
qed

text \<open>A state with a list in it, as the witnesses use it.\<close>

definition nested_state :: heap where
  "nested_state = [DictCell [(''items'', Ref 1)], ListCell [Atom (VInt 1)]]"

definition sample_caller :: caller where
  "sample_caller = \<lparr>thread_ident = 7, current_task = Some 3, debug_mode = True\<rparr>"

definition cow_sample :: "heap \<times> HeapCow \<times> nat list" where
  "cow_sample = fold cow_act [(sample_caller, CowCall (SetItem ''n'' (Atom VNone))),
     (sample_caller, CowCall (GetItem ''items'')), (sample_caller, CowClient (Store 3 (ListCell [])))]
     (nested_state, hw_init sample_caller 0, [])"

theorem cow_isolates_witness:
  "fst cow_sample ! 1 = ListCell [Atom (VInt 1)] \<and> fst cow_sample ! 3 = ListCell []"
proof
  have reg: "region nested_state {0, 1}" by (simp add: region_def nested_state_def)
  obtain h w known where run: "cow_sample = (h, w, known)" by (cases cow_sample) auto
  have "\<forall>a \<in> {0, 1}. h ! a = nested_state ! a"
    using cow_isolates [of nested_state "{0, 1}" 0 "{}" "[]" "SetItem ''n'' (Atom VNone)" sample_caller
        "[(sample_caller, CowCall (GetItem ''items'')), (sample_caller, CowClient (Store 3 (ListCell [])))]" h w known]
      reg run by (simp add: cow_sample_def mutating_def region_def)
  then have "h ! 1 = ListCell [Atom (VInt 1)]" by (simp add: nested_state_def)
  then show "fst cow_sample ! 1 = ListCell [Atom (VInt 1)]" using run by (metis fst_conv)
  show "fst cow_sample ! 3 = ListCell []" by code_simp
qed

text \<open>
  The order matters: a nested object that is read before the first write is the source's own, and
  a change of it goes through to the source, although a later write takes a copy.
\<close>

lemma read_before_write_shares:
  "fst (fold cow_act [(sample_caller, CowCall (GetItem ''items'')), (sample_caller, CowClient (Store 1 (ListCell []))),
       (sample_caller, CowCall (SetItem ''n'' (Atom VNone)))]
     (nested_state, hw_init sample_caller 0, [])) ! 1 = ListCell []"
  by code_simp

text \<open>C6. The branches of a parallel fan-out are isolated, however their tasks interleave and
  whatever their nodes do with the objects they can reach: the state of the run, the states the
  directives carry and everything reachable from them stay as they were, also when a branch
  raises; a branch that begins after others have worked for a while still gets a copy that denotes the
  value its directive carried at the fan-out; and no step of one branch changes what
  another can reach.\<close>

theorem branches_isolated:
  assumes "region h S" "set sends \<subseteq> S"
    and "fold (branch_step sends) evs (h, replicate (length sends) None) = (h1, bs)"
  shows "(\<forall>a \<in> S. h1 ! a = h ! a) \<and>
    (\<forall>i x. i < length sends \<and> bs ! i = None \<and> denotes h (Ref (sends ! i)) x \<longrightarrow>
       (\<exists>b h2. branch_step sends (Begin i) (h1, bs) = (h2, bs[i := Some [b]]) \<and> denotes h2 (Ref b) x)) \<and>
    (\<forall>i j op known a x. i < length sends \<and> i \<noteq> j \<and> bs ! i = Some known \<and> a \<in> set known \<and> denotes h1 (Ref a) x \<longrightarrow>
       denotes (fst (branch_step sends (Act j op) (h1, bs))) (Ref a) x)"
proof -
  let ?R = "\<lambda>i. case i of None \<Rightarrow> S | Some _ \<Rightarrow> {}"
  have start: "branches_apart ?R (h, replicate (length sends) None)"
    using assms(1) by (simp add: branches_apart_def apart_def region_def split: option.split)
  obtain R where R: "branches_apart R (h1, bs)" "R None = S" "length bs = length sends"
    and same: "\<forall>a \<in> S. a < length h \<and> h1 ! a = h ! a"
    using branches_run [OF start _ _ assms(3)] assms(2) by auto
  have ap: "apart h1 R" using R(1) by (simp add: branches_apart_def)
  have len: "a < length h1" if "a \<in> S" for a using regionD [OF apart_region [OF ap, of None]] R(2) that by simp
  have begins: "\<exists>b h2. branch_step sends (Begin i) (h1, bs) = (h2, bs[i := Some [b]]) \<and> denotes h2 (Ref b) x"
    if i: "i < length sends" "bs ! i = None" "denotes h (Ref (sends ! i)) x" for i x
  proof -
    have s: "set (val_refs (Ref (sends ! i))) \<subseteq> S" using assms(2) i(1) by auto
    have now: "denotes h1 (Ref (sends ! i)) x"
      by (rule denotes_frame [OF i(3) assms(1) s]) (use same len in blast)
    have reg: "region h1 S" using apart_region [OF ap, of None] R(2) by simp
    show ?thesis
    proof (rule branch_begins [OF R(1) _ R(3), of i])
      fix b h2 assume "deepcopy h1 (Ref (sends ! i)) = (Ref b, h2)"
        "branch_step sends (Begin i) (h1, bs) = (h2, bs[i := Some [b]])"
      with deepcopy_denotes [OF reg s _ now] show ?thesis by blast
    qed (use i R assms(2) in auto)
  qed
  have acts: "denotes (fst (branch_step sends (Act j op) (h1, bs))) (Ref a) x"
    if i: "i < length sends" "i \<noteq> j" "bs ! i = Some known" "a \<in> set known" "denotes h1 (Ref a) x" for i j op known a x
  proof -
    obtain h2 bs2 where st: "branch_step sends (Act j op) (h1, bs) = (h2, bs2)"
      by (cases "branch_step sends (Act j op) (h1, bs)")
    note step = branch_acts [OF R(1) st]
    have "a \<in> R (Some i)" using R(1,3) i unfolding branches_apart_def by auto
    with apart_denotes [OF ap, of "Some j" "Some i" "Ref a" h2 x] i step st show ?thesis by simp
  qed
  show ?thesis using same begins acts by (intro conjI allI impI) blast+
qed

definition fanout_sample :: "heap \<times> nat list option list" where
  "fanout_sample = fold (branch_step [0, 0]) [Begin 0, Act 0 (Look 2), Act 0 (Store 3 (ListCell []))]
     (nested_state, [None, None])"

theorem branches_isolated_witness:
  "fst fanout_sample ! 3 = ListCell [] \<and> snd fanout_sample ! 1 = None \<and>
   (\<exists>b h2. branch_step [0, 0] (Begin 1) fanout_sample = (h2, (snd fanout_sample)[1 := Some [b]]) \<and>
      denotes h2 (Ref b) (VDict [(''items'', VList [VInt 1])]))"
proof -
  obtain h1 bs where run: "fanout_sample = (h1, bs)" by (cases fanout_sample)
  have items: "denotes nested_state (Ref 1) (VList [VInt 1])"
    by (rule den_list [where vs = "[Atom (VInt 1)]"]) (simp_all add: nested_state_def den_atom)
  have val: "denotes nested_state (Ref 0) (VDict [(''items'', VList [VInt 1])])"
    by (rule den_dict [where d = "[(''items'', Ref 1)]"]) (simp add: nested_state_def, simp add: nested_state_def, use items in simp)
  have reg: "region nested_state {0, 1}" by (simp add: region_def nested_state_def)
  have "fold (branch_step [0, 0]) [Begin 0, Act 0 (Look 2), Act 0 (Store 3 (ListCell []))]
      (nested_state, replicate (length [0, 0 :: nat]) None) = (h1, bs)"
    using run by (simp add: fanout_sample_def numeral_2_eq_2)
  note all = branches_isolated [OF reg _ this]
  have ev: "fst fanout_sample ! 3 = ListCell []" "snd fanout_sample ! 1 = None" by code_simp+
  have "\<exists>b h2. branch_step [0, 0] (Begin 1) (h1, bs) = (h2, bs[1 := Some [b]]) \<and>
      denotes h2 (Ref b) (VDict [(''items'', VList [VInt 1])])"
  proof (rule all [THEN conjunct2, THEN conjunct1, rule_format])
    show "set [0, 0] \<subseteq> {0, 1}" by simp
    have "bs ! 1 = None" using ev(2) run by (metis snd_conv)
    with val show "1 < length [0, 0 :: nat] \<and> bs ! 1 = None \<and>
        denotes nested_state (Ref ([0, 0] ! 1)) (VDict [(''items'', VList [VInt 1])])" by simp
  qed
  then show ?thesis using ev unfolding run fst_conv snd_conv by blast
qed

text \<open>C10. Checkpoints in memory are snapshots: from the moment it is saved, a checkpoint keeps the
  value it had, whatever the code that saved it does with the live state and with the checkpoints it
  loads and lists, and whatever is saved later. The history of its thread lists it at its place
  with that value, and while it is the newest of its thread a load returns it with that value.\<close>

theorem checkpoints_are_snapshots:
  assumes "region h S" "set known \<subseteq> S" "fold cp_act before (h, [], known) = (h1, m1, known1)"
    and "cp \<in> set known1" "str_field h1 cp ''thread_id'' = Some t" "denotes h1 (Ref cp) x"
    and "fold cp_act (CpSave cp # later) (h1, m1, known1) = (h2, m2, known2)" "i = length (dict_get_or m1 t [])"
  shows "i < length (dict_get_or m2 t []) \<and>
    (\<exists>vs h3. hm_list t (h2, m2) = (vs, h3) \<and> denotes h3 (vs ! i) x) \<and>
    (length (dict_get_or m2 t []) = Suc i \<longrightarrow> (\<exists>v h3. hm_load t (h2, m2) = (Some v, h3) \<and> denotes h3 v x))"
proof -
  have start: "checkpoints_apart (\<lambda>b. if b then {} else S) (h, [], known)"
    using assms(1,2) by (simp add: checkpoints_apart_def apart_def region_def dict_get_or_def)
  obtain R where R: "checkpoints_apart R (h1, m1, known1)" using cp_run_apart [OF start assms(3)] by blast
  have ap: "apart h1 R" and own: "set (val_refs (Ref cp)) \<subseteq> R False"
    using R assms(4) by (auto simp: checkpoints_apart_def)
  obtain b h' where dc: "deepcopy h1 (Ref cp) = (Ref b, h')" by (simp add: deepcopy_def Let_def)
  let ?m = "dict_set t (dict_get_or m1 t [] @ [b]) m1"
  have save: "cp_act (CpSave cp) (h1, m1, known1) = (h', ?m, known1)"
    using assms(4,5) dc by (simp add: hm_save_def)
  have b: "denotes h' (Ref b) x" by (rule deepcopy_denotes [OF apart_region [OF ap] own dc assms(6)])
  obtain k where R1: "checkpoints_apart (grow h1 h' k R) (h', ?m, known1)" using cp_act_apart [OF R save] by blast
  let ?R = "grow h1 h' k R"
  have hist: "dict_get_or ?m t [] = dict_get_or m1 t [] @ [b]" by (simp add: dict_get_or_def dict_simps)
  moreover have "set (dict_get_or ?m t []) \<subseteq> ?R True" using R1 by (simp add: checkpoints_apart_def)
  ultimately have bR: "b \<in> ?R True" by simp
  have "fold cp_act later (h', ?m, known1) = (h2, m2, known2)" using assms(7) save by simp
  from cp_run_apart [OF R1 this] obtain R2 xs where R2: "checkpoints_apart R2 (h2, m2, known2)"
    and grows: "length h' \<le> length h2" "\<forall>a \<in> ?R True. h2 ! a = h' ! a"
    and m2: "dict_get_or m2 t [] = dict_get_or m1 t [] @ [b] @ xs" using hist by (metis append.assoc)
  have reg1: "region h' (?R True)" using R1 by (auto simp: checkpoints_apart_def intro: apart_region)
  have now: "denotes h2 (Ref b) x"
    by (rule denotes_frame [OF b reg1]) (use bR grows regionD [OF reg1] in \<open>auto intro: order_less_le_trans\<close>)
  have reg2: "region h2 (R2 True)" and inR: "set (dict_get_or m2 t []) \<subseteq> R2 True"
    using R2 by (auto simp: checkpoints_apart_def intro: apart_region)
  have at: "dict_get_or m2 t [] ! i = b" "i < length (dict_get_or m2 t [])" using m2 assms(8) by simp_all
  obtain vs h3 where al: "copy_all (dict_get_or m2 t []) h2 = (vs, h3)" by (cases "copy_all (dict_get_or m2 t []) h2")
  have "denotes h3 (vs ! i) x" using copy_all_denotes [OF reg2 inR al at(2)] at(1) now by simp
  moreover have "\<exists>v h3. hm_load t (h2, m2) = (Some v, h3) \<and> denotes h3 v x" if "length (dict_get_or m2 t []) = Suc i"
  proof -
    have "last (dict_get_or m2 t []) = b" using m2 that assms(8) by simp
    moreover obtain v h3 where dl: "deepcopy h2 (Ref b) = (v, h3)" by (cases "deepcopy h2 (Ref b)")
    moreover have "denotes h3 v x" by (rule deepcopy_denotes [OF reg2 _ dl now]) (use at inR in auto)
    ultimately show ?thesis using that by (cases "dict_get_or m2 t []") (simp_all add: hm_load_def)
  qed
  ultimately show ?thesis using al at(2) by (simp add: hm_list_def)
qed

text \<open>A checkpoint whose state holds a list, saved and then changed by its owner.\<close>

definition checkpoint_heap :: heap where
  "checkpoint_heap = [DictCell [(''thread_id'', Atom (VStr ''t'')), (''state'', Ref 1)], DictCell [(''n'', Ref 2)],
     ListCell [Atom (VInt 1)]]"

definition checkpoint_sample :: "heap \<times> heap_checkpoints \<times> nat list" where
  "checkpoint_sample = fold cp_act [CpSave 0, CpClient (Store 2 (ListCell []))] (checkpoint_heap, [], [0, 1, 2])"

theorem checkpoints_are_snapshots_witness:
  "\<exists>v h3. hm_load ''t'' (fst checkpoint_sample, fst (snd checkpoint_sample)) = (Some v, h3) \<and>
     denotes h3 v (VDict [(''thread_id'', VStr ''t''), (''state'', VDict [(''n'', VList [VInt 1])])])"
proof -
  obtain h m known where run: "checkpoint_sample = (h, m, known)" by (cases checkpoint_sample) auto
  have "denotes checkpoint_heap (Ref 2) (VList [VInt 1])"
    by (rule den_list [where vs = "[Atom (VInt 1)]"]) (simp_all add: checkpoint_heap_def den_atom)
  then have "denotes checkpoint_heap (Ref 1) (VDict [(''n'', VList [VInt 1])])"
    by (intro den_dict [where d = "[(''n'', Ref 2)]"]) (simp_all, simp_all add: checkpoint_heap_def)
  then have val: "denotes checkpoint_heap (Ref 0) (VDict [(''thread_id'', VStr ''t''), (''state'', VDict [(''n'', VList [VInt 1])])])"
    by (intro den_dict [where d = "[(''thread_id'', Atom (VStr ''t'')), (''state'', Ref 1)]"])
      (simp_all add: den_atom, simp_all add: checkpoint_heap_def)
  have reg: "region checkpoint_heap {0, 1, 2}" by (simp add: region_def checkpoint_heap_def)
  have t: "str_field checkpoint_heap 0 ''thread_id'' = Some ''t''" by code_simp
  have "length (dict_get_or (fst (snd checkpoint_sample)) ''t'' []) = 1" by code_simp
  then have one: "length (dict_get_or m ''t'' []) = Suc 0" using run by (metis One_nat_def fst_conv snd_conv)
  have "fold cp_act (CpSave 0 # [CpClient (Store 2 (ListCell []))]) (checkpoint_heap, [], [0, 1, 2]) = (h, m, known)"
    using run unfolding checkpoint_sample_def .
  note run' = this
  have "\<exists>v h3. hm_load ''t'' (h, m) = (Some v, h3) \<and>
     denotes h3 v (VDict [(''thread_id'', VStr ''t''), (''state'', VDict [(''n'', VList [VInt 1])])])"
    using checkpoints_are_snapshots [OF reg _ _ _ t val run', of "[0, 1, 2]" "[]" 0] one
    by (simp add: dict_get_or_def)
  with run show ?thesis by (metis fst_conv snd_conv)
qed

section \<open>The adapter to the checkpoint store\<close>

text \<open>
  \<^verbatim>\<open>RLCheckpointerAdapter\<close> does not copy: the dictionary it hands to the store refers to the live state
  and metadata, and a load builds a new checkpoint object around the same references. The store
  is a list of those dictionaries for every learner, the newest last.
\<close>

type_synonym heap_policies = "(string, (hval \<times> nat \<times> hval) list) dict"

definition ha_save :: "string \<Rightarrow> nat \<Rightarrow> heap \<times> heap_policies \<Rightarrow> heap \<times> heap_policies" where
  "ha_save learner cp = (\<lambda>(h, m).
     case str_field h cp ''thread_id'' of
       None \<Rightarrow> (h, m)
     | Some t \<Rightarrow>
         (let d = entries h cp; name = learner @ ''_'' @ t;
              st = DictCell (map (\<lambda>k. (k, dict_get_or d k (Atom VNone))) [''node_id'', ''state'', ''timestamp''])
          in (h @ [st], dict_set name (dict_get_or m name [] @
                [(dict_get_or d ''checkpoint_id'' (Atom VNone), length h, dict_get_or d ''metadata'' (Atom VNone))]) m)))"

definition ha_load :: "string \<Rightarrow> string \<Rightarrow> heap \<times> heap_policies \<Rightarrow> nat option \<times> heap" where
  "ha_load learner t = (\<lambda>(h, m).
     case rev (dict_get_or m (learner @ ''_'' @ t) []) of
       [] \<Rightarrow> (None, h)
     | (version, st, meta) # _ \<Rightarrow>
         (Some (length h), h @ [DictCell [(''checkpoint_id'', version), (''thread_id'', Atom (VStr t)),
            (''node_id'', dict_get_or (entries h st) ''node_id'' (Atom (VStr []))),
            (''state'', dict_get_or (entries h st) ''state'' (Ref (length h + 1))),
            (''timestamp'', dict_get_or (entries h st) ''timestamp'' (Atom (VFloat 0))), (''metadata'', meta)],
            DictCell []]))"

text \<open>
  So what the adapter loads is the live state, and a change of a nested object after the save
  rewrites the checkpoint, which the comment in \<^verbatim>\<open>MemoryCheckpointer.save\<close> warns of.
\<close>

lemma adapter_shares:
  "let (h1, m1) = ha_save ''rl'' 0 (checkpoint_heap, []);
       (h2, known) = client_step (Store 2 (ListCell [])) (h1, [0, 1, 2]);
       (cp, h3) = ha_load ''rl'' ''t'' (h2, m1)
   in cp = Some 4 \<and> dict_get (entries h3 4) ''state'' = Some (Ref 1) \<and> h3 ! 2 = ListCell []"
  by code_simp

end
