(* ===== verification/Graph_Algorithms.thy ===== *)
theory Graph_Algorithms
  imports Prelude
begin

text \<open>
  The traversal algorithms of \<^verbatim>\<open>victor/core/graph_algorithms.py\<close>: breadth-first
  reachability, depth-first cycle detection with three colours and parent pointers, and
  Kahn's topological sort. A Python set that is only iterated and tested is a list whose
  order is arbitrary, so every result below holds for every iteration order.
\<close>

type_synonym adjacency = "(string, string list) dict"

definition neighbours :: "adjacency \<Rightarrow> string \<Rightarrow> string list" where
  "neighbours adj n = dict_get_or adj n []"

text \<open>The edges of the graph on a set of nodes: neighbours that are not nodes are ignored.\<close>

definition edges_in :: "string list \<Rightarrow> adjacency \<Rightarrow> (string \<times> string) set" where
  "edges_in nodes adj = {(a, b). a \<in> set nodes \<and> b \<in> set nodes \<and> b \<in> set (neighbours adj a)}"

definition universe :: "adjacency \<Rightarrow> string set" where
  "universe adj = fst ` set adj"

lemma finite_universe [simp]: "finite (universe adj)"
  by (simp add: universe_def)

lemma neighbours_outside: "n \<notin> universe adj \<Longrightarrow> neighbours adj n = []"
  by (simp add: neighbours_def dict_get_or_def universe_def map_of_eq_None_iff [THEN iffD2])

section \<open>Reachability\<close>

function bfs_loop ::
  "adjacency \<Rightarrow> string option \<Rightarrow> string list \<Rightarrow> string list \<Rightarrow> string list" where
  "bfs_loop adj sentinel [] reachable = reachable"
| "bfs_loop adj sentinel (node_id # queue) reachable =
     (if node_id \<in> set reachable \<or> Some node_id = sentinel
      then bfs_loop adj sentinel queue reachable
      else (let reachable' = reachable @ [node_id]
            in bfs_loop adj sentinel
                 (queue @ filter (\<lambda>target. target \<notin> set reachable') (neighbours adj node_id))
                 reachable'))"
  by pat_completeness auto
termination
proof (relation "inv_image (finite_psubset <*lex*> less_than)
    (\<lambda>(adj, sentinel, queue, reachable). (universe adj - set reachable, length queue))")
  fix adj :: adjacency and sentinel :: "string option" and node_id :: string
    and queue reachable reachable' :: "string list"
  assume *: "\<not> (node_id \<in> set reachable \<or> Some node_id = sentinel)"
    "reachable' = reachable @ [node_id]"
  show "((adj, sentinel,
         queue @ filter (\<lambda>target. target \<notin> set reachable') (neighbours adj node_id), reachable'),
        adj, sentinel, node_id # queue, reachable)
       \<in> inv_image (finite_psubset <*lex*> less_than)
           (\<lambda>(adj, sentinel, queue, reachable). (universe adj - set reachable, length queue))"
    using * by (cases "node_id \<in> universe adj")
      (auto simp: finite_psubset_def neighbours_outside)
qed auto

definition find_reachable :: "string \<Rightarrow> adjacency \<Rightarrow> string option \<Rightarrow> string list" where
  "find_reachable start adj sentinel = bfs_loop adj sentinel [start] []"

text \<open>One step of a path that never enters the sentinel.\<close>

definition step_rel :: "adjacency \<Rightarrow> string option \<Rightarrow> (string \<times> string) set" where
  "step_rel adj sentinel = {(a, b). b \<in> set (neighbours adj a) \<and> Some b \<noteq> sentinel}"

lemma bfs_loop_mono: "set reachable \<subseteq> set (bfs_loop adj sentinel queue reachable)"
  by (induction adj sentinel queue reachable rule: bfs_loop.induct)
    (auto simp: Let_def)

lemma bfs_loop_queue:
  "set queue - {n. Some n = sentinel} \<subseteq> set (bfs_loop adj sentinel queue reachable)"
proof (induction adj sentinel queue reachable rule: bfs_loop.induct)
  case (2 adj sentinel node_id queue reachable)
  then show ?case
    using bfs_loop_mono [of reachable adj sentinel queue]
      bfs_loop_mono [of "reachable @ [node_id]" adj sentinel]
    by (auto simp: Let_def)
qed simp

lemma bfs_loop_closed:
  "step_rel adj sentinel `` set reachable \<subseteq> set reachable \<union> set queue \<Longrightarrow>
   step_rel adj sentinel `` set (bfs_loop adj sentinel queue reachable)
     \<subseteq> set (bfs_loop adj sentinel queue reachable)"
proof (induction adj sentinel queue reachable rule: bfs_loop.induct)
  case (2 adj sentinel node_id queue reachable)
  show ?case
  proof (cases "node_id \<in> set reachable \<or> Some node_id = sentinel")
    case True
    have "step_rel adj sentinel `` set reachable \<subseteq> set reachable \<union> set queue"
      using "2.prems" True by (auto simp: step_rel_def)
    with True show ?thesis by (simp add: "2.IH"(1))
  next
    case False
    have "step_rel adj sentinel `` set (reachable @ [node_id]) \<subseteq> set (reachable @ [node_id]) \<union>
        set (queue @ filter (\<lambda>t. t \<notin> set (reachable @ [node_id])) (neighbours adj node_id))"
      using "2.prems" by (auto simp: step_rel_def)
    from "2.IH"(2) [OF False refl this] False show ?thesis by (simp add: Let_def)
  qed
qed simp

lemma bfs_loop_sound:
  assumes "n \<in> set (bfs_loop adj sentinel queue reachable)" and "n \<notin> set reachable"
  shows "\<exists>q \<in> set queue. Some q \<noteq> sentinel \<and> (q, n) \<in> (step_rel adj sentinel)\<^sup>*"
  using assms
proof (induction adj sentinel queue reachable rule: bfs_loop.induct)
  case (2 adj sentinel node_id queue reachable)
  show ?case
  proof (cases "node_id \<in> set reachable \<or> Some node_id = sentinel")
    case True
    with 2 show ?thesis by auto
  next
    case False
    show ?thesis
    proof (cases "n = node_id")
      case True
      with False show ?thesis by auto
    next
      case neq: False
      from "2.IH"(2) [OF False refl] "2.prems" False neq obtain q where q:
        "q \<in> set (queue @ filter (\<lambda>t. t \<notin> set (reachable @ [node_id])) (neighbours adj node_id))"
        "Some q \<noteq> sentinel" "(q, n) \<in> (step_rel adj sentinel)\<^sup>*"
        by (auto simp: Let_def)
      show ?thesis
      proof (cases "q \<in> set queue")
        case False
        with q have "(node_id, q) \<in> step_rel adj sentinel" by (auto simp: step_rel_def)
        with q(3) have "(node_id, n) \<in> (step_rel adj sentinel)\<^sup>*"
          by (rule converse_rtrancl_into_rtrancl [rotated])
        with \<open>\<not> (node_id \<in> set reachable \<or> Some node_id = sentinel)\<close> show ?thesis by auto
      qed (use q in auto)
    qed
  qed
qed simp

lemma bfs_loop_distinct: "distinct reachable \<Longrightarrow> distinct (bfs_loop adj sentinel queue reachable)"
  by (induction adj sentinel queue reachable rule: bfs_loop.induct) (auto simp: Let_def)

lemma Image_rtrancl_closed:
  assumes "r `` X \<subseteq> X" and "x \<in> X" and "(x, y) \<in> r\<^sup>*"
  shows "y \<in> X"
  using assms(3,2) by (induction rule: rtrancl_induct) (use assms(1) in blast)+

lemma find_reachable_set:
  "set (find_reachable start adj sentinel) =
     (if Some start = sentinel then {} else (step_rel adj sentinel)\<^sup>* `` {start})"
proof (cases "Some start = sentinel")
  case True
  then show ?thesis by (simp add: find_reachable_def)
next
  case False
  let ?R = "set (bfs_loop adj sentinel [start] [])"
  have closed: "step_rel adj sentinel `` ?R \<subseteq> ?R" by (rule bfs_loop_closed) simp
  have start: "start \<in> ?R" using bfs_loop_queue [of "[start]" sentinel adj "[]"] False by auto
  have "(step_rel adj sentinel)\<^sup>* `` {start} \<subseteq> ?R"
    using Image_rtrancl_closed [OF closed start] by blast
  moreover have "?R \<subseteq> (step_rel adj sentinel)\<^sup>* `` {start}"
    using bfs_loop_sound [of _ adj sentinel "[start]" "[]"] by auto
  ultimately show ?thesis using False by (auto simp: find_reachable_def)
qed

lemma find_reachable_distinct: "distinct (find_reachable start adj sentinel)"
  unfolding find_reachable_def by (rule bfs_loop_distinct) simp

section \<open>Cycle detection\<close>

datatype color = WHITE | GRAY | BLACK

text \<open>
  What the search answers: no cycle, a list of node identifiers, or that the walk along the
  parent pointers met a node without an entry or went round for ever. That the last never
  happens is \<open>dfs_visit_not_stuck\<close>.
\<close>

datatype dfs_outcome = NoCycle | Cycle "string list" | Stuck

type_synonym colors = "(string, color) dict"
type_synonym parents = "(string, string option) dict"

text \<open>
  The \<^verbatim>\<open>while\<close> loop that collects the nodes between the current node and the neighbour.
  The fuel is the number of parent entries, one more than a chain of distinct nodes needs.
\<close>

fun walk_parents :: "nat \<Rightarrow> parents \<Rightarrow> string \<Rightarrow> string \<Rightarrow> string list option" where
  "walk_parents 0 parent neighbour current = None"
| "walk_parents (Suc fuel) parent neighbour current =
     (case dict_get parent current of
        None \<Rightarrow> None
      | Some None \<Rightarrow> Some []
      | Some (Some q) \<Rightarrow>
          (if q = neighbour then Some []
           else map_option (\<lambda>ws. q # ws) (walk_parents fuel parent neighbour q)))"

definition reconstruct_cycle :: "parents \<Rightarrow> string \<Rightarrow> string \<Rightarrow> dfs_outcome" where
  "reconstruct_cycle parent neighbour node =
     (case walk_parents (Suc (length parent)) parent neighbour node of
        None \<Rightarrow> Stuck
      | Some ws \<Rightarrow> Cycle (rev ([neighbour, node] @ ws @ [neighbour])))"

definition whites :: "colors \<Rightarrow> string set" where
  "whites c = {n. dict_get c n = Some WHITE}"

definition grays :: "colors \<Rightarrow> string set" where
  "grays c = {n. dict_get c n = Some GRAY}"

definition blacks :: "colors \<Rightarrow> string set" where
  "blacks c = {n. dict_get c n = Some BLACK}"

lemma finite_whites [simp]: "finite (whites c)"
proof (rule finite_subset)
  show "whites c \<subseteq> fst ` set c"
    by (auto simp: whites_def dest!: map_of_SomeD intro: rev_image_eqI)
qed simp

text \<open>The body of \<^verbatim>\<open>_dfs(node)\<close> after \<open>node\<close> was coloured: the loop over its neighbours.\<close>

function (sequential) dfs_loop ::
  "adjacency \<Rightarrow> string \<Rightarrow> string list \<Rightarrow> colors \<Rightarrow> parents \<Rightarrow> dfs_outcome \<times> colors \<times> parents" where
  "dfs_loop adj node [] color parent = (NoCycle, dict_set node BLACK color, parent)"
| "dfs_loop adj node (neighbour # rest) color parent =
     (case dict_get color neighbour of
        None \<Rightarrow> dfs_loop adj node rest color parent
      | Some GRAY \<Rightarrow> (reconstruct_cycle parent neighbour node, color, parent)
      | Some BLACK \<Rightarrow> dfs_loop adj node rest color parent
      | Some WHITE \<Rightarrow>
          (case dfs_loop adj neighbour (neighbours adj neighbour)
                  (dict_set neighbour GRAY color) (dict_set neighbour (Some node) parent) of
             (NoCycle, color', parent') \<Rightarrow> dfs_loop adj node rest color' parent'
           | found \<Rightarrow> found))"
  by pat_completeness auto

lemma whites_set: "whites (dict_set n c d) = (if c = WHITE then insert n (whites d) else whites d - {n})"
  by (auto simp: whites_def dict_simps)

lemma grays_set: "grays (dict_set n c d) = (if c = GRAY then insert n (grays d) else grays d - {n})"
  by (auto simp: grays_def dict_simps)

lemma blacks_set: "blacks (dict_set n c d) = (if c = BLACK then insert n (blacks d) else blacks d - {n})"
  by (auto simp: blacks_def dict_simps)

lemma whites_gray_psubset:
  "dict_get c n = Some WHITE \<Longrightarrow> whites (dict_set n GRAY c) \<subset> whites c"
  by (auto simp: whites_def dict_simps)

lemmas color_sets = whites_set grays_set blacks_set

lemma dfs_loop_whites:
  "dfs_loop_dom (adj, node, xs, color, parent) \<Longrightarrow>
     whites (fst (snd (dfs_loop adj node xs color parent))) \<subseteq> whites color"
proof (induction adj node xs color parent rule: dfs_loop.pinduct)
  case (2 adj node neighbour rest color parent)
  show ?case
  proof (cases "dict_get color neighbour = Some WHITE")
    case True
    let ?r = "dfs_loop adj neighbour (neighbours adj neighbour)
                (dict_set neighbour GRAY color) (dict_set neighbour (Some node) parent)"
    obtain out c' p' where r: "?r = (out, c', p')" by (cases ?r)
    have sub: "whites c' \<subseteq> whites color"
      using "2.IH"(2) [OF True refl] r by (auto simp: whites_set split: if_splits)
    show ?thesis
    proof (cases out)
      case NoCycle
      from "2.IH"(3) [OF True refl r [symmetric] NoCycle refl] NoCycle r True sub "2.hyps"
      show ?thesis by (auto simp: dfs_loop.psimps)
    qed (use "2.hyps" r True sub in \<open>auto simp: dfs_loop.psimps\<close>)
  qed (use 2 in \<open>auto simp: dfs_loop.psimps split: option.splits color.splits\<close>)
qed (auto simp: dfs_loop.psimps whites_set split: if_splits)

termination dfs_loop
proof (relation "inv_image (finite_psubset <*lex*> less_than)
    (\<lambda>(adj, node, xs, color, parent). (whites color, length xs))")
  fix adj :: adjacency and node neighbour :: string and rest :: "string list"
    and color :: colors and parent :: parents and x2
  fix x y color' parent'
  assume w: "dict_get color neighbour = Some x2" "x2 = WHITE"
    and r: "(x, y) = dfs_loop adj neighbour (neighbours adj neighbour)
              (dict_set neighbour GRAY color) (dict_set neighbour (Some node) parent)"
      "x = NoCycle" "(color', parent') = y"
    and dom: "dfs_loop_dom (adj, neighbour, neighbours adj neighbour,
                dict_set neighbour GRAY color, dict_set neighbour (Some node) parent)"
  have "whites color' \<subseteq> whites (dict_set neighbour GRAY color)"
    using dfs_loop_whites [OF dom] r by (metis fst_conv snd_conv)
  also have "\<dots> \<subset> whites color"
    using w by (simp add: whites_gray_psubset)
  finally show "((adj, node, rest, color', parent'), adj, node, neighbour # rest, color, parent)
      \<in> inv_image (finite_psubset <*lex*> less_than)
          (\<lambda>(adj, node, xs, color, parent). (whites color, length xs))"
    by (simp add: finite_psubset_def)
qed (auto simp: whites_gray_psubset)

definition dfs_visit ::
  "adjacency \<Rightarrow> string \<Rightarrow> colors \<Rightarrow> parents \<Rightarrow> dfs_outcome \<times> colors \<times> parents" where
  "dfs_visit adj node color parent =
     dfs_loop adj node (neighbours adj node) (dict_set node GRAY color) parent"

fun dfs_nodes :: "adjacency \<Rightarrow> string list \<Rightarrow> colors \<Rightarrow> parents \<Rightarrow> dfs_outcome" where
  "dfs_nodes adj [] color parent = NoCycle"
| "dfs_nodes adj (node # nodes) color parent =
     (if dict_get_or color node WHITE = WHITE
      then (case dfs_visit adj node color parent of
              (NoCycle, color', parent') \<Rightarrow> dfs_nodes adj nodes color' parent'
            | (found, _, _) \<Rightarrow> found)
      else dfs_nodes adj nodes color parent)"

definition detect_cycle :: "string list \<Rightarrow> adjacency \<Rightarrow> dfs_outcome" where
  "detect_cycle nodes adj =
     dfs_nodes adj nodes (map (\<lambda>n. (n, WHITE)) nodes) (map (\<lambda>n. (n, None)) nodes)"

subsection \<open>The search decides acyclicity\<close>

lemma acyclic_insert_source:
  assumes acyc: "acyclic (E \<inter> B \<times> UNIV)" and into: "E `` insert n B \<subseteq> B" and new: "n \<notin> B"
  shows "acyclic (E \<inter> insert n B \<times> UNIV)"
proof (rule acyclicI, intro allI notI)
  fix x
  assume "(x, x) \<in> (E \<inter> insert n B \<times> UNIV)\<^sup>+"
  moreover have "(x, y) \<in> (E \<inter> insert n B \<times> UNIV)\<^sup>+ \<Longrightarrow> y \<in> B" for y
    by (induction rule: trancl_induct) (use into in auto)
  ultimately have xB: "x \<in> B" by blast
  have "(x, y) \<in> (E \<inter> insert n B \<times> UNIV)\<^sup>+ \<Longrightarrow> y \<in> B \<and> (x, y) \<in> (E \<inter> B \<times> UNIV)\<^sup>+" for y
  proof (induction rule: trancl_induct)
    case (base y)
    with xB into show ?case by auto
  next
    case (step y z)
    then have "z \<in> B" and "(y, z) \<in> E \<inter> B \<times> UNIV" using into by auto
    with step.IH show ?case by (auto intro: trancl_into_trancl)
  qed
  with \<open>(x, x) \<in> (E \<inter> insert n B \<times> UNIV)\<^sup>+\<close> acyc show False by (auto simp: acyclic_def)
qed

text \<open>
  The state between two steps of the search at \<open>node\<close> with \<open>xs\<close> still to do: the grey
  nodes lead to \<open>node\<close>, the black nodes are closed under successors and span no cycle,
  the neighbours already done are black.
\<close>

definition black_closed :: "string list \<Rightarrow> adjacency \<Rightarrow> colors \<Rightarrow> bool" where
  "black_closed nodes adj c \<longleftrightarrow>
     (\<forall>n. dict_has c n \<longleftrightarrow> n \<in> set nodes) \<and>
     edges_in nodes adj `` blacks c \<subseteq> blacks c \<and>
     acyclic (edges_in nodes adj \<inter> blacks c \<times> UNIV)"

definition dfs_pre :: "string list \<Rightarrow> adjacency \<Rightarrow> string \<Rightarrow> string list \<Rightarrow> colors \<Rightarrow> bool" where
  "dfs_pre nodes adj node xs c \<longleftrightarrow>
     black_closed nodes adj c \<and> node \<in> grays c \<and>
     (\<forall>g \<in> grays c. (g, node) \<in> (edges_in nodes adj)\<^sup>*) \<and>
     set xs \<subseteq> set (neighbours adj node) \<and>
     (set (neighbours adj node) - set xs) \<inter> set nodes \<subseteq> blacks c"

definition dfs_post :: "string list \<Rightarrow> adjacency \<Rightarrow> string \<Rightarrow> colors \<Rightarrow> colors \<Rightarrow> bool" where
  "dfs_post nodes adj node c c' \<longleftrightarrow>
     black_closed nodes adj c' \<and> grays c' = grays c - {node} \<and>
     insert node (blacks c) \<subseteq> blacks c'"

lemma colors_disjoint: "grays c \<inter> blacks c = {}" "whites c \<inter> blacks c = {}" "whites c \<inter> grays c = {}"
  by (auto simp: grays_def blacks_def whites_def)

lemma dfs_pre_keys: "dfs_pre nodes adj node xs c \<Longrightarrow> n \<in> set nodes \<longleftrightarrow> dict_get c n \<noteq> None"
  by (simp add: dfs_pre_def black_closed_def dict_has_def)

lemma dfs_pre_finish:
  assumes "dfs_pre nodes adj node [] c"
  shows "dfs_post nodes adj node c (dict_set node BLACK c)"
proof -
  let ?E = "edges_in nodes adj"
  from assms have acyc: "acyclic (?E \<inter> blacks c \<times> UNIV)" and into: "?E `` insert node (blacks c) \<subseteq> blacks c"
    and new: "node \<notin> blacks c" and keys: "\<And>n. dict_has c n \<longleftrightarrow> n \<in> set nodes"
    and g: "node \<in> grays c"
    using colors_disjoint(1) [of c]
    by (auto simp: dfs_pre_def black_closed_def edges_in_def)
  have "dict_has c node" using g by (auto simp: grays_def dict_has_def)
  then have "\<forall>n. dict_has (dict_set node BLACK c) n \<longleftrightarrow> n \<in> set nodes"
    using keys by (auto simp: dict_simps)
  with acyclic_insert_source [OF acyc into new] into show ?thesis
    by (auto simp: dfs_post_def black_closed_def color_sets)
qed

lemma dfs_pre_skip:
  "dfs_pre nodes adj node (x # xs) c \<Longrightarrow> x \<notin> set nodes \<or> x \<in> blacks c \<Longrightarrow> dfs_pre nodes adj node xs c"
  by (auto simp: dfs_pre_def)

lemma dfs_pre_enter:
  assumes pre: "dfs_pre nodes adj node (x # xs) c" and white: "dict_get c x = Some WHITE"
  shows "dfs_pre nodes adj x (neighbours adj x) (dict_set x GRAY c)"
proof -
  let ?E = "edges_in nodes adj"
  have xn: "x \<in> set nodes" and nn: "node \<in> set nodes" and xin: "x \<in> set (neighbours adj node)"
    using pre white by (auto simp: dfs_pre_def black_closed_def dict_has_def grays_def)
  have edge: "(node, x) \<in> ?E" using xn nn xin by (simp add: edges_in_def)
  have "x \<notin> blacks c" using white by (simp add: blacks_def)
  then have bc: "black_closed nodes adj (dict_set x GRAY c)"
    using pre xn by (auto simp: dfs_pre_def black_closed_def color_sets dict_simps)
  have "\<forall>g \<in> grays (dict_set x GRAY c). (g, x) \<in> ?E\<^sup>*"
    using pre edge by (auto simp: dfs_pre_def grays_set intro: rtrancl_into_rtrancl)
  with bc show ?thesis by (simp add: dfs_pre_def grays_set)
qed

lemma dfs_pre_return:
  assumes pre: "dfs_pre nodes adj node (x # xs) c" and white: "dict_get c x = Some WHITE"
    and post: "dfs_post nodes adj x (dict_set x GRAY c) c'"
  shows "dfs_pre nodes adj node xs c'" "grays c' = grays c" "blacks c \<subseteq> blacks c'"
proof -
  have nx: "x \<notin> grays c" "x \<notin> blacks c" using white by (auto simp: grays_def blacks_def)
  then show g: "grays c' = grays c" and b: "blacks c \<subseteq> blacks c'"
    using post by (auto simp: dfs_post_def color_sets)
  have "x \<in> blacks c'" using post by (simp add: dfs_post_def)
  with pre post g b show "dfs_pre nodes adj node xs c'"
    by (auto simp: dfs_pre_def dfs_post_def)
qed

lemma dfs_loop_decides:
  assumes "dfs_pre nodes adj node xs c"
  shows "case dfs_loop adj node xs c p of
           (NoCycle, c', p') \<Rightarrow> dfs_post nodes adj node c c'
         | _ \<Rightarrow> \<not> acyclic (edges_in nodes adj)"
  using assms
proof (induction adj node xs c p rule: dfs_loop.induct)
  case (1 adj node color parent)
  then show ?case by (simp add: dfs_pre_finish)
next
  case (2 adj node neighbour rest color parent)
  show ?case
  proof (cases "dict_get color neighbour")
    case None
    then have "neighbour \<notin> set nodes"
      using "2.prems" by (simp add: dfs_pre_keys)
    then show ?thesis using "2.IH"(1) [OF None] "2.prems" None dfs_pre_skip by simp
  next
    case (Some col)
    show ?thesis
    proof (cases col)
      case BLACK
      then have "neighbour \<in> blacks color" using Some by (simp add: blacks_def)
      then show ?thesis using "2.IH"(4) [OF Some BLACK] "2.prems" Some BLACK dfs_pre_skip by simp
    next
      case GRAY
      have nb: "neighbour \<in> grays color" using Some GRAY by (simp add: grays_def)
      with "2.prems" have "(neighbour, node) \<in> (edges_in nodes adj)\<^sup>*" by (auto simp: dfs_pre_def)
      moreover have "(node, neighbour) \<in> edges_in nodes adj"
        using "2.prems" nb Some GRAY
        by (auto simp: dfs_pre_def black_closed_def edges_in_def dict_has_def grays_def)
      ultimately have "(node, node) \<in> (edges_in nodes adj)\<^sup>+" by (rule rtrancl_into_trancl2 [rotated])
      then have "\<not> acyclic (edges_in nodes adj)" by (auto simp: acyclic_def)
      then show ?thesis using Some GRAY
        by (auto simp: reconstruct_cycle_def split: option.splits)
    next
      case WHITE
      let ?r = "dfs_loop adj neighbour (neighbours adj neighbour)
                  (dict_set neighbour GRAY color) (dict_set neighbour (Some node) parent)"
      obtain out c' p' where r: "?r = (out, c', p')" by (cases ?r)
      have white: "dict_get color neighbour = Some WHITE" using Some WHITE by simp
      note inner = "2.IH"(2) [OF Some WHITE dfs_pre_enter [OF "2.prems" white], unfolded r]
      show ?thesis
      proof (cases out)
        case NoCycle
        with inner have post: "dfs_post nodes adj neighbour (dict_set neighbour GRAY color) c'" by simp
        note ret = dfs_pre_return [OF "2.prems" white post]
        from "2.IH"(3) [OF Some WHITE r [symmetric] NoCycle refl ret(1)] ret(2,3) white r NoCycle
        show ?thesis
          by (auto simp: dfs_post_def split: prod.splits dfs_outcome.splits)
      qed (use inner r white in auto)
    qed
  qed
qed

lemma dfs_nodes_decides:
  assumes "black_closed nodes adj c" "grays c = {}" "set ns \<subseteq> set nodes" "set nodes - set ns \<subseteq> blacks c"
  shows "dfs_nodes adj ns c p = NoCycle \<longleftrightarrow> acyclic (edges_in nodes adj)"
  using assms
proof (induction adj ns c p rule: dfs_nodes.induct)
  case (1 adj color parent)
  have "edges_in nodes adj \<inter> blacks color \<times> UNIV = edges_in nodes adj"
    using 1 by (auto simp: edges_in_def)
  with 1 show ?case by (simp add: black_closed_def)
next
  case (2 adj node ns color parent)
  obtain col where col: "dict_get color node = Some col"
    using "2.prems"(1,3) unfolding black_closed_def dict_has_def by fastforce
  show ?case
  proof (cases "col = WHITE")
    case True
    then have white: "dict_get_or color node WHITE = WHITE" and nb: "node \<notin> blacks color"
      using col by (auto simp: dict_get_or_def blacks_def)
    obtain out c' p' where r: "dfs_visit adj node color parent = (out, c', p')"
      by (cases "dfs_visit adj node color parent")
    have "dfs_pre nodes adj node (neighbours adj node) (dict_set node GRAY color)"
      using "2.prems" nb by (auto simp: dfs_pre_def black_closed_def color_sets dict_simps)
    from dfs_loop_decides [OF this, of parent] r
    have dec: "case (out, c', p') of (NoCycle, c', p') \<Rightarrow> dfs_post nodes adj node (dict_set node GRAY color) c'
                | _ \<Rightarrow> \<not> acyclic (edges_in nodes adj)"
      by (simp add: dfs_visit_def)
    show ?thesis
    proof (cases out)
      case NoCycle
      with dec have post: "dfs_post nodes adj node (dict_set node GRAY color) c'" by simp
      then have bc: "black_closed nodes adj c'" and g: "grays c' = {}"
        and sub: "set nodes - set ns \<subseteq> blacks c'"
        using "2.prems" nb by (auto simp: dfs_post_def color_sets)
      have "set ns \<subseteq> set nodes" using "2.prems" by simp
      from "2.IH"(1) [OF white r [symmetric] NoCycle refl bc g this sub] white r NoCycle
      show ?thesis by simp
    qed (use dec white r in auto)
  next
    case False
    with col "2.prems" have black: "node \<in> blacks color"
      by (cases col) (auto simp: blacks_def grays_def)
    moreover from False col have "dict_get_or color node WHITE \<noteq> WHITE" by (simp add: dict_get_or_def)
    ultimately show ?thesis using "2.IH"(2) "2.prems" by auto
  qed
qed

lemma detect_cycle_init:
  "black_closed nodes adj (map (\<lambda>n. (n, WHITE)) nodes)" "grays (map (\<lambda>n. (n, WHITE)) nodes) = {}"
proof -
  have get: "dict_get (map (\<lambda>n. (n, WHITE)) nodes) n = (if n \<in> set nodes then Some WHITE else None)" for n
    by (induction nodes) auto
  then show "grays (map (\<lambda>n. (n, WHITE)) nodes) = {}" by (auto simp: grays_def)
  show "black_closed nodes adj (map (\<lambda>n. (n, WHITE)) nodes)"
    by (auto simp: black_closed_def dict_has_def get blacks_def acyclic_def elim: tranclE)
qed

lemma detect_cycle_NoCycle_iff:
  "detect_cycle nodes adj = NoCycle \<longleftrightarrow> acyclic (edges_in nodes adj)"
  unfolding detect_cycle_def by (rule dfs_nodes_decides) (auto simp: detect_cycle_init)

subsection \<open>The reported list\<close>

text \<open>
  The grey nodes as a stack: the parent pointer of each entry is the entry below, the
  bottom has none, and each entry is a neighbour of the one below.
\<close>

fun parent_chain :: "parents \<Rightarrow> string list \<Rightarrow> bool" where
  "parent_chain p [] = True"
| "parent_chain p [r] = (dict_get p r = Some None)"
| "parent_chain p (a # b # s) = (dict_get p a = Some (Some b) \<and> parent_chain p (b # s))"

definition dfs_stack :: "string list \<Rightarrow> adjacency \<Rightarrow> colors \<Rightarrow> parents \<Rightarrow> string list \<Rightarrow> bool" where
  "dfs_stack nodes adj c p s \<longleftrightarrow>
     parent_chain p s \<and> distinct s \<and> set s = grays c \<and>
     successively (\<lambda>a b. (b, a) \<in> edges_in nodes adj) s \<and>
     (\<forall>w \<in> whites c. dict_get p w = Some None)"

definition closed_walk :: "('a \<times> 'a) set \<Rightarrow> 'a list \<Rightarrow> bool" where
  "closed_walk E ws \<longleftrightarrow>
     2 \<le> length ws \<and> hd ws = last ws \<and> successively (\<lambda>a b. (a, b) \<in> E) ws"

lemma parent_chain_keys: "parent_chain p s \<Longrightarrow> set s \<subseteq> fst ` set p"
  by (induction p s rule: parent_chain.induct)
    (auto dest!: map_of_SomeD intro: rev_image_eqI)

lemma parent_chain_length:
  assumes "parent_chain p s" "distinct s"
  shows "length s \<le> length p"
proof -
  have "length s = card (set s)" using assms(2) by (simp add: distinct_card)
  also have "\<dots> \<le> card (fst ` set p)" using parent_chain_keys [OF assms(1)] by (intro card_mono) auto
  also have "\<dots> \<le> card (set p)" by (rule card_image_le) simp
  also have "\<dots> \<le> length p" by (rule card_length)
  finally show ?thesis .
qed

lemma parent_chain_cong:
  "parent_chain p s \<Longrightarrow> (\<And>n. n \<in> set s \<Longrightarrow> dict_get p' n = dict_get p n) \<Longrightarrow> parent_chain p' s"
  by (induction p s rule: parent_chain.induct) auto

lemma walk_parents_chain:
  "parent_chain p (node # s) \<Longrightarrow> length s < fuel \<Longrightarrow>
   walk_parents fuel p x node = Some (takeWhile (\<lambda>q. q \<noteq> x) s)"
proof (induction s arbitrary: node fuel)
  case Nil
  then show ?case by (cases fuel) auto
next
  case (Cons b s)
  then show ?case by (cases fuel) auto
qed

lemma reconstruct_cycle_chain:
  assumes "parent_chain p (node # s)" "distinct (node # s)"
  shows "reconstruct_cycle p x node = Cycle (x # rev (takeWhile (\<lambda>q. q \<noteq> x) s) @ [node, x])"
proof -
  have "length s < Suc (length p)" using parent_chain_length [OF assms] by simp
  from walk_parents_chain [OF assms(1) this, of x] show ?thesis
    by (simp add: reconstruct_cycle_def del: walk_parents.simps)
qed

lemma closed_walk_through:
  assumes edges: "successively (\<lambda>a b. (b, a) \<in> E) (node # s)" and x: "x \<in> set s"
    and bk: "(node, x) \<in> E"
  shows "closed_walk E (x # rev (takeWhile (\<lambda>q. q \<noteq> x) s) @ [node, x])"
proof -
  let ?ws = "takeWhile (\<lambda>q. q \<noteq> x) s"
  from x obtain rest where "s = ?ws @ x # rest"
    by (metis (mono_tags, lifting) dropWhile_eq_Cons_conv hd_dropWhile hd_Cons_tl
        dropWhile_eq_Nil_conv takeWhile_dropWhile_id)
  then have "successively (\<lambda>a b. (b, a) \<in> E) ((node # ?ws) @ x # rest)"
    using edges by (metis append_Cons)
  then have "successively (\<lambda>a b. (b, a) \<in> E) (node # ?ws) \<and> (x, last (node # ?ws)) \<in> E"
    unfolding successively_append_iff by simp
  then have "successively (\<lambda>a b. (b, a) \<in> E) ((node # ?ws) @ [x])"
    unfolding successively_append_iff by simp
  then have "successively (\<lambda>a b. (a, b) \<in> E) (rev ((node # ?ws) @ [x]))"
    unfolding successively_rev .
  then have "successively (\<lambda>a b. (a, b) \<in> E) (x # rev ?ws @ [node])" by simp
  with bk have "successively (\<lambda>a b. (a, b) \<in> E) ((x # rev ?ws @ [node]) @ [x])"
    unfolding successively_append_iff by simp
  then show ?thesis by (simp add: closed_walk_def)
qed

lemma dfs_loop_frame:
  "case dfs_loop adj node xs c p of (out, c', p') \<Rightarrow>
     whites c' \<subseteq> whites c \<and> (\<forall>n. n \<notin> whites c \<or> n \<in> whites c' \<longrightarrow> dict_get p' n = dict_get p n)"
proof (induction adj node xs c p rule: dfs_loop.induct)
  case (2 adj node neighbour rest color parent)
  show ?case
  proof (cases "dict_get color neighbour = Some WHITE")
    case True
    let ?r = "dfs_loop adj neighbour (neighbours adj neighbour)
                (dict_set neighbour GRAY color) (dict_set neighbour (Some node) parent)"
    obtain out c' p' where r: "?r = (out, c', p')" by (cases ?r)
    have nw: "neighbour \<in> whites color" using True by (simp add: whites_def)
    have inner: "whites c' \<subseteq> whites color - {neighbour}"
      "\<forall>n. n \<notin> whites color \<or> n \<in> whites c' \<longrightarrow> dict_get p' n = dict_get parent n"
      using "2.IH"(2) [OF True refl] nw unfolding r by (auto simp: whites_set dict_simps)
    show ?thesis
    proof (cases out)
      case NoCycle
      from "2.IH"(3) [OF True refl r [symmetric] NoCycle refl] inner show ?thesis
        using True r NoCycle by (auto split: prod.splits)
    qed (use inner r True in auto)
  qed (use 2 in \<open>auto split: option.splits color.splits\<close>)
qed (auto simp: whites_set)

definition good_report :: "string list \<Rightarrow> adjacency \<Rightarrow> dfs_outcome \<Rightarrow> bool" where
  "good_report nodes adj out \<longleftrightarrow>
     (case out of
        NoCycle \<Rightarrow> True
      | Stuck \<Rightarrow> False
      | Cycle ws \<Rightarrow> (\<forall>n. (n, n) \<notin> edges_in nodes adj) \<longrightarrow> closed_walk (edges_in nodes adj) ws)"

lemma dfs_stack_enter:
  assumes "dfs_stack nodes adj c p (node # s)" "dict_get c x = Some WHITE"
    and "(node, x) \<in> edges_in nodes adj"
  shows "dfs_stack nodes adj (dict_set x GRAY c) (dict_set x (Some node) p) (x # node # s)"
proof -
  have nx: "x \<notin> set (node # s)" using assms(1,2) by (auto simp: dfs_stack_def grays_def)
  have "parent_chain p (node # s)" using assms(1) by (simp add: dfs_stack_def)
  then have "parent_chain (dict_set x (Some node) p) (node # s)"
    by (rule parent_chain_cong) (use nx in \<open>auto simp: dict_simps\<close>)
  with assms nx show ?thesis
    by (auto simp: dfs_stack_def color_sets dict_simps)
qed

lemma dfs_stack_return:
  assumes "dfs_stack nodes adj c p s" "grays c' = grays c" "whites c' \<subseteq> whites c"
    and "\<forall>n. n \<notin> whites c \<or> n \<in> whites c' \<longrightarrow> dict_get p' n = dict_get p n"
  shows "dfs_stack nodes adj c' p' s"
proof -
  have ch: "parent_chain p s" and "set s \<inter> whites c = {}"
    using assms(1) colors_disjoint(3) [of c] by (auto simp: dfs_stack_def)
  then have "parent_chain p' s"
    by (intro parent_chain_cong [OF ch]) (use assms(4) in blast)
  with assms show ?thesis by (auto simp: dfs_stack_def)
qed

lemma dfs_loop_report:
  assumes "dfs_pre nodes adj node xs c" and "dfs_stack nodes adj c p (node # s)"
  shows "good_report nodes adj (fst (dfs_loop adj node xs c p))"
  using assms
proof (induction adj node xs c p arbitrary: s rule: dfs_loop.induct)
  case (1 adj node color parent)
  then show ?case by (simp add: good_report_def)
next
  case (2 adj node x rest color parent)
  have edge: "(node, x) \<in> edges_in nodes adj" if "dict_get color x = Some col" for col
    using "2.prems"(1) that dfs_pre_keys [OF "2.prems"(1)]
    by (auto simp: edges_in_def dfs_pre_def grays_def)
  consider "dict_get color x = None" | "dict_get color x = Some BLACK"
    | "dict_get color x = Some GRAY" | "dict_get color x = Some WHITE"
    by (metis color.exhaust option.exhaust)
  then show ?case
  proof cases
    case 1
    then have "dfs_pre nodes adj node rest color"
      using "2.prems"(1) dfs_pre_skip dfs_pre_keys [OF "2.prems"(1), of x] by simp
    with "2.IH"(1) [OF 1] "2.prems"(2) 1 show ?thesis by simp
  next
    case black: 2
    then have "dfs_pre nodes adj node rest color"
      using "2.prems"(1) dfs_pre_skip by (simp add: blacks_def)
    with "2.IH"(4) [OF black refl] "2.prems"(2) black show ?thesis by simp
  next
    case gray: 3
    have chain: "parent_chain parent (node # s)" "distinct (node # s)"
      and succ: "successively (\<lambda>a b. (b, a) \<in> edges_in nodes adj) (node # s)"
      and x: "x \<in> set (node # s)"
      using "2.prems"(2) gray by (auto simp: dfs_stack_def grays_def)
    have "x \<in> set s" if "\<forall>n. (n, n) \<notin> edges_in nodes adj"
      using x edge [OF gray] that by auto
    with closed_walk_through [OF succ _ edge [OF gray]] gray show ?thesis
      by (simp add: good_report_def reconstruct_cycle_chain [OF chain])
  next
    case white: 4
    let ?r = "dfs_loop adj x (neighbours adj x) (dict_set x GRAY color) (dict_set x (Some node) parent)"
    obtain out c' p' where r: "?r = (out, c', p')" by (cases ?r)
    note enter = dfs_pre_enter [OF "2.prems"(1) white]
    have xw: "x \<in> whites color" using white by (simp add: whites_def)
    have inner: "good_report nodes adj out"
      using "2.IH"(2) [OF white refl enter dfs_stack_enter [OF "2.prems"(2) white edge [OF white]]] r
      by simp
    show ?thesis
    proof (cases out)
      case NoCycle
      have post: "dfs_post nodes adj x (dict_set x GRAY color) c'"
        using dfs_loop_decides [OF enter, of "dict_set x (Some node) parent"] r NoCycle by simp
      note ret = dfs_pre_return [OF "2.prems"(1) white post]
      have fr: "whites c' \<subseteq> whites color"
        "\<forall>n. n \<notin> whites color \<or> n \<in> whites c' \<longrightarrow> dict_get p' n = dict_get parent n"
        using dfs_loop_frame [where adj = adj and node = x and xs = "neighbours adj x"
            and c = "dict_set x GRAY color" and p = "dict_set x (Some node) parent"] xw unfolding r
        by (auto simp: whites_set dict_simps)
      from "2.IH"(3) [OF white refl r [symmetric] NoCycle refl ret(1)
          dfs_stack_return [OF "2.prems"(2) ret(2) fr]]
      show ?thesis using white r NoCycle by simp
    qed (use inner r white in auto)
  qed
qed

lemma dfs_nodes_report:
  assumes "black_closed nodes adj c" "grays c = {}" "set ns \<subseteq> set nodes"
    and "\<forall>w \<in> whites c. dict_get p w = Some None"
  shows "good_report nodes adj (dfs_nodes adj ns c p)"
  using assms
proof (induction adj ns c p rule: dfs_nodes.induct)
  case (1 adj color parent)
  then show ?case by (simp add: good_report_def)
next
  case (2 adj node ns color parent)
  obtain col where col: "dict_get color node = Some col"
    using "2.prems"(1,3) unfolding black_closed_def dict_has_def by fastforce
  show ?case
  proof (cases "col = WHITE")
    case True
    then have white: "dict_get_or color node WHITE = WHITE" and nw: "node \<in> whites color"
      and nb: "node \<notin> blacks color"
      using col by (auto simp: dict_get_or_def whites_def blacks_def)
    obtain out c' p' where r: "dfs_visit adj node color parent = (out, c', p')"
      by (cases "dfs_visit adj node color parent")
    note r' = r [unfolded dfs_visit_def]
    have pre: "dfs_pre nodes adj node (neighbours adj node) (dict_set node GRAY color)"
      using "2.prems" nb by (auto simp: dfs_pre_def black_closed_def color_sets dict_simps)
    have stack: "dfs_stack nodes adj (dict_set node GRAY color) parent [node]"
      using "2.prems" nw by (auto simp: dfs_stack_def color_sets)
    have rep: "good_report nodes adj out"
      using dfs_loop_report [OF pre stack] r' by simp
    show ?thesis
    proof (cases out)
      case NoCycle
      have post: "dfs_post nodes adj node (dict_set node GRAY color) c'"
        using dfs_loop_decides [OF pre, of parent] r' NoCycle by simp
      then have bc: "black_closed nodes adj c'" and g: "grays c' = {}"
        using "2.prems" by (auto simp: dfs_post_def color_sets)
      have ws: "\<forall>w \<in> whites c'. dict_get p' w = Some None"
        using dfs_loop_frame [where adj = adj and node = node and xs = "neighbours adj node"
            and c = "dict_set node GRAY color" and p = parent] "2.prems"(4)
        unfolding r' by (auto simp: whites_set)
      have "set ns \<subseteq> set nodes" using "2.prems" by simp
      from "2.IH"(1) [OF white r [symmetric] NoCycle refl bc g this ws] white r NoCycle
      show ?thesis by simp
    qed (use rep white r in auto)
  next
    case False
    then have "dict_get_or color node WHITE \<noteq> WHITE" using col by (simp add: dict_get_or_def)
    then show ?thesis using "2.IH"(2) "2.prems" by auto
  qed
qed

lemma detect_cycle_report: "good_report nodes adj (detect_cycle nodes adj)"
proof -
  have "\<forall>w \<in> whites (map (\<lambda>n. (n, WHITE)) nodes). dict_get (map (\<lambda>n. (n, None)) nodes) w = Some None"
    by (induction nodes) (auto simp: whites_def)
  then show ?thesis unfolding detect_cycle_def
    by (intro dfs_nodes_report detect_cycle_init) auto
qed

lemma detect_cycle_not_stuck: "detect_cycle nodes adj \<noteq> Stuck"
  using detect_cycle_report [of nodes adj] by (auto simp: good_report_def)

section \<open>Topological sort\<close>

type_synonym degrees = "(string, int) dict"

text \<open>\<^verbatim>\<open>in_degree[dep] += 1\<close> for the neighbours of one node that are nodes themselves.\<close>

definition count_edges :: "adjacency \<Rightarrow> string \<Rightarrow> degrees \<Rightarrow> degrees" where
  "count_edges adj node in_degree =
     fold (\<lambda>dep d. case dict_get d dep of None \<Rightarrow> d | Some k \<Rightarrow> dict_set dep (k + 1) d)
       (neighbours adj node) in_degree"

definition initial_degrees :: "string list \<Rightarrow> adjacency \<Rightarrow> degrees" where
  "initial_degrees nodes adj = fold (count_edges adj) nodes (map (\<lambda>n. (n, 0)) nodes)"

text \<open>The inner loop of Kahn's algorithm: one edge less for each neighbour, and a node whose
  last incoming edge went is queued.\<close>

fun relax_edges :: "string list \<Rightarrow> string list \<Rightarrow> degrees \<Rightarrow> string list \<times> degrees" where
  "relax_edges [] queue in_degree = (queue, in_degree)"
| "relax_edges (dep # deps) queue in_degree =
     (case dict_get in_degree dep of
        None \<Rightarrow> relax_edges deps queue in_degree
      | Some k \<Rightarrow>
          relax_edges deps (if k - 1 = 0 then queue @ [dep] else queue)
            (dict_set dep (k - 1) in_degree))"

definition pending_count :: "degrees \<Rightarrow> nat" where
  "pending_count d = length (filter (\<lambda>e. 0 < snd e) d)"

lemma pending_count_set:
  "dict_get d dep = Some k \<Longrightarrow>
   pending_count (dict_set dep (k - 1) d) + (if k = 1 then 1 else 0) = pending_count d"
  by (induction d) (auto simp: pending_count_def)

lemma relax_edges_count:
  "relax_edges deps queue d = (queue', d') \<Longrightarrow>
   pending_count d' + length queue' = pending_count d + length queue"
proof (induction deps queue d rule: relax_edges.induct)
  case (2 dep deps queue d)
  show ?case
  proof (cases "dict_get d dep")
    case None
    with 2 show ?thesis by simp
  next
    case (Some k)
    with 2 pending_count_set [OF Some] show ?thesis by (auto split: if_splits)
  qed
qed simp

function kahn_loop ::
  "adjacency \<Rightarrow> string list \<Rightarrow> degrees \<Rightarrow> string list \<Rightarrow> string list" where
  "kahn_loop adj [] in_degree order = order"
| "kahn_loop adj (node # queue) in_degree order =
     (case relax_edges (neighbours adj node) queue in_degree of
        (queue', in_degree') \<Rightarrow> kahn_loop adj queue' in_degree' (order @ [node]))"
  by pat_completeness auto
termination
  by (relation "measure (\<lambda>(adj, queue, d, order). pending_count d + length queue)")
    (auto dest: relax_edges_count [OF sym])

definition topological_sort :: "string list \<Rightarrow> adjacency \<Rightarrow> string list \<times> dfs_outcome option" where
  "topological_sort nodes adj =
     (let in_degree = initial_degrees nodes adj;
          queue = filter (\<lambda>n. dict_get in_degree n = Some 0) nodes;
          order = kahn_loop adj queue in_degree []
      in if length order \<noteq> length nodes
         then (order, Some (case detect_cycle nodes adj of NoCycle \<Rightarrow> Cycle [] | found \<Rightarrow> found))
         else (order, None))"

subsection \<open>Kahn's algorithm is a topological sort\<close>

definition preds_outside :: "string list \<Rightarrow> adjacency \<Rightarrow> string set \<Rightarrow> string \<Rightarrow> string set" where
  "preds_outside nodes adj placed n = {m. (m, n) \<in> edges_in nodes adj \<and> m \<notin> placed}"

definition degrees_ok :: "string list \<Rightarrow> adjacency \<Rightarrow> string set \<Rightarrow> degrees \<Rightarrow> bool" where
  "degrees_ok nodes adj placed d \<longleftrightarrow>
     (\<forall>n. dict_get d n =
        (if n \<in> set nodes then Some (int (card (preds_outside nodes adj placed n))) else None))"

definition topological :: "('a \<times> 'a) set \<Rightarrow> 'a list \<Rightarrow> bool" where
  "topological E order \<longleftrightarrow> (\<forall>i < length order. {m. (m, order ! i) \<in> E} \<subseteq> set (take i order))"

lemma finite_edges_in [simp]: "finite (edges_in nodes adj)"
  by (rule finite_subset [of _ "set nodes \<times> set nodes"]) (auto simp: edges_in_def)

lemma finite_preds_outside [simp]: "finite (preds_outside nodes adj placed n)"
  by (rule finite_subset [of _ "set nodes"]) (auto simp: preds_outside_def edges_in_def)

lemma count_edges_get:
  assumes "distinct (neighbours adj m)"
  shows "dict_get (count_edges adj m d) n =
    (if n \<in> set (neighbours adj m) then map_option (\<lambda>k. k + 1) (dict_get d n) else dict_get d n)"
proof -
  have "distinct deps \<Longrightarrow>
    dict_get (fold (\<lambda>dep d. case dict_get d dep of None \<Rightarrow> d | Some k \<Rightarrow> dict_set dep (k + 1) d) deps d) n =
    (if n \<in> set deps then map_option (\<lambda>k. k + 1) (dict_get d n) else dict_get d n)" for deps
    by (induction deps arbitrary: d) (auto simp: dict_simps split: option.splits)
  from this [OF assms] show ?thesis by (simp add: count_edges_def)
qed

lemma initial_degrees_fold:
  assumes "\<And>m. distinct (neighbours adj m)" and "distinct ns"
  shows "dict_get (fold (count_edges adj) ns d) n =
    map_option (\<lambda>k. k + int (card {m \<in> set ns. n \<in> set (neighbours adj m)})) (dict_get d n)"
  using assms(2)
proof (induction ns arbitrary: d)
  case (Cons m ns)
  have "{x \<in> set (m # ns). n \<in> set (neighbours adj x)} =
      (if n \<in> set (neighbours adj m) then insert m {x \<in> set ns. n \<in> set (neighbours adj x)}
       else {x \<in> set ns. n \<in> set (neighbours adj x)})" by auto
  moreover have "m \<notin> {x \<in> set ns. n \<in> set (neighbours adj x)}" using Cons.prems by simp
  ultimately show ?case
    using Cons by (cases "dict_get d n") (auto simp: count_edges_get [OF assms(1)])
qed (simp add: option.map_ident)

lemma initial_degrees_ok:
  assumes "\<And>m. distinct (neighbours adj m)" and "distinct nodes"
  shows "degrees_ok nodes adj {} (initial_degrees nodes adj)"
proof -
  have zero: "dict_get (map (\<lambda>n. (n, 0::int)) nodes) n = (if n \<in> set nodes then Some 0 else None)" for n
    by (induction nodes) auto
  have "preds_outside nodes adj {} n = {m \<in> set nodes. n \<in> set (neighbours adj m)}"
    if "n \<in> set nodes" for n
    using that by (auto simp: preds_outside_def edges_in_def)
  then show ?thesis
    by (simp add: degrees_ok_def initial_degrees_def initial_degrees_fold [OF assms] zero)
qed

lemma relax_edges_result:
  "distinct deps \<Longrightarrow> relax_edges deps queue d = (queue', d') \<Longrightarrow>
   queue' = queue @ filter (\<lambda>n. dict_get d n = Some 1) deps \<and>
   (\<forall>n. dict_get d' n =
      (if n \<in> set deps then map_option (\<lambda>k. k - 1) (dict_get d n) else dict_get d n))"
proof (induction deps queue d rule: relax_edges.induct)
  case (2 dep deps queue d)
  show ?case
  proof (cases "dict_get d dep")
    case None
    with 2 show ?thesis by auto
  next
    case (Some k)
    have same: "filter (\<lambda>n. dict_get (dict_set dep (k - 1) d) n = Some 1) deps =
        filter (\<lambda>n. dict_get d n = Some 1) deps"
      using "2.prems"(1) by (intro filter_cong) (auto simp: dict_simps)
    from "2.IH"(2) [OF Some] "2.prems" Some show ?thesis
      unfolding same by (auto simp: dict_simps)
  qed
qed simp

definition kahn_inv ::
  "string list \<Rightarrow> adjacency \<Rightarrow> string list \<Rightarrow> degrees \<Rightarrow> string list \<Rightarrow> bool" where
  "kahn_inv nodes adj queue d order \<longleftrightarrow>
     degrees_ok nodes adj (set order) d \<and> distinct (order @ queue) \<and>
     set (order @ queue) = {n \<in> set nodes. preds_outside nodes adj (set order) n = {}} \<and>
     topological (edges_in nodes adj) order"

lemma topological_snoc:
  "topological E (order @ [x]) \<longleftrightarrow> topological E order \<and> {m. (m, x) \<in> E} \<subseteq> set order"
  unfolding topological_def by (auto simp: nth_append less_Suc_eq)

lemma preds_outside_insert:
  "preds_outside nodes adj (insert x P) n = preds_outside nodes adj P n - {x}"
  by (auto simp: preds_outside_def)

lemma kahn_inv_step:
  assumes inv: "kahn_inv nodes adj (x # queue) d order"
    and dist: "\<And>m. distinct (neighbours adj m)"
    and relax: "relax_edges (neighbours adj x) queue d = (queue', d')"
  shows "kahn_inv nodes adj queue' d' (order @ [x])"
proof -
  let ?P = "preds_outside nodes adj (set order)" and ?Q = "preds_outside nodes adj (insert x (set order))"
  from inv have deg: "degrees_ok nodes adj (set order) d" and xn: "x \<in> set nodes" and xP: "?P x = {}"
    and xo: "x \<notin> set order" and xq: "x \<notin> set queue" and dis: "distinct (order @ queue)"
    and topo: "topological (edges_in nodes adj) order"
    and mem: "insert x (set (order @ queue)) = {n \<in> set nodes. ?P n = {}}"
    by (auto simp: kahn_inv_def)
  note Q = preds_outside_insert [of nodes adj x "set order"]
  have xin: "x \<in> ?P n \<longleftrightarrow> n \<in> set nodes \<and> n \<in> set (neighbours adj x)" for n
    using xn xo by (auto simp: preds_outside_def edges_in_def)
  note rel = relax_edges_result [OF dist relax]
  have one: "dict_get d n = Some 1 \<longleftrightarrow> n \<in> set nodes \<and> card (?P n) = 1" for n
    using deg by (auto simp: degrees_ok_def)
  have "dict_get d' n = (if n \<in> set nodes then Some (int (card (?Q n))) else None)" for n
  proof (cases "n \<in> set nodes \<and> n \<in> set (neighbours adj x)")
    case True
    then have "x \<in> ?P n" by (simp add: xin)
    then have "int (card (?P n - {x})) = int (card (?P n)) - 1"
      by (metis card_Suc_Diff1 finite_preds_outside of_nat_Suc add_diff_cancel_left')
    with True rel deg show ?thesis by (simp add: Q degrees_ok_def)
  next
    case False
    then have "n \<in> set nodes \<Longrightarrow> ?Q n = ?P n" using xin Q by auto
    with False rel deg show ?thesis by (auto simp: degrees_ok_def)
  qed
  then have deg': "degrees_ok nodes adj (set (order @ [x])) d'" by (simp add: degrees_ok_def)
  have new: "n \<in> set nodes \<and> ?Q n = {} \<longleftrightarrow>
      n \<in> insert x (set (order @ queue)) \<or> n \<in> set (neighbours adj x) \<and> dict_get d n = Some 1" for n
  proof -
    have a: "?Q n = {} \<longleftrightarrow> ?P n = {} \<or> ?P n = {x}"
      by (simp add: Q Diff_eq_empty_iff subset_singleton_iff)
    have b: "?P n = {x} \<longleftrightarrow> x \<in> ?P n \<and> card (?P n) = 1"
      by (rule iffI) (simp, elim conjE card_1_singletonE, simp)
    have c: "n \<in> insert x (set (order @ queue)) \<longleftrightarrow> n \<in> set nodes \<and> ?P n = {}"
      by (simp only: mem mem_Collect_eq)
    from a b c one [of n] xin [of n] show ?thesis by blast
  qed
  have disj: "set (neighbours adj x) \<inter> {n. dict_get d n = Some 1} \<inter> insert x (set (order @ queue)) = {}"
    using mem one by auto
  have "distinct ((order @ [x]) @ queue')"
    using dis xo xq dist [of x] disj rel by auto
  moreover have "set ((order @ [x]) @ queue') = {n \<in> set nodes. ?Q n = {}}"
    using new rel by auto
  moreover have "topological (edges_in nodes adj) (order @ [x])"
    using topo xP by (auto simp: topological_snoc preds_outside_def)
  ultimately show ?thesis using deg' by (simp add: kahn_inv_def)
qed

lemma kahn_loop_inv:
  assumes "kahn_inv nodes adj queue d order" and "\<And>m. distinct (neighbours adj m)"
  shows "\<exists>d'. kahn_inv nodes adj [] d' (kahn_loop adj queue d order)"
  using assms
proof (induction adj queue d order rule: kahn_loop.induct)
  case (2 adj node queue d order)
  obtain q' d' where r: "relax_edges (neighbours adj node) queue d = (q', d')"
    by (cases "relax_edges (neighbours adj node) queue d")
  from "2.IH" [OF r [symmetric] kahn_inv_step [OF "2.prems"(1) "2.prems"(2) r] "2.prems"(2)] r
  show ?case by simp
qed auto

lemma kahn_complete:
  assumes inv: "kahn_inv nodes adj [] d order" and acyc: "acyclic (edges_in nodes adj)"
  shows "set order = set nodes"
proof (rule ccontr)
  assume neq: "set order \<noteq> set nodes"
  let ?S = "set nodes - set order"
  from inv have mem: "set order = {n \<in> set nodes. preds_outside nodes adj (set order) n = {}}"
    by (simp add: kahn_inv_def)
  with neq have ne: "?S \<noteq> {}" by auto
  have "wf (edges_in nodes adj)" using acyc by (simp add: finite_acyclic_wf)
  then obtain z where z: "z \<in> ?S" and min: "\<And>y. (y, z) \<in> edges_in nodes adj \<Longrightarrow> y \<notin> ?S"
    using wfE_min [of "edges_in nodes adj" _ ?S] ne by (metis ex_in_conv)
  from z mem obtain m where "m \<in> preds_outside nodes adj (set order) z" by auto
  with min show False by (auto simp: preds_outside_def edges_in_def)
qed

lemma topological_acyclic:
  assumes topo: "topological E order" and dis: "distinct order" and sub: "E \<subseteq> set order \<times> set order"
  shows "acyclic E"
proof -
  define pos where "pos n = (THE i. i < length order \<and> order ! i = n)" for n
  have pos: "pos (order ! i) = i" if "i < length order" for i
    unfolding pos_def using that dis by (intro the_equality) (auto simp: nth_eq_iff_index_eq)
  have "E \<subseteq> measure pos"
  proof
    fix e assume e: "e \<in> E"
    obtain a b where ab: "e = (a, b)" by (cases e)
    have "b \<in> set order" using e sub ab by auto
    then obtain j where j: "j < length order" "order ! j = b" by (meson in_set_conv_nth)
    with topo e ab have "a \<in> set (take j order)" by (auto simp: topological_def)
    then obtain i where "i < j" "order ! i = a" using j by (auto simp: in_set_conv_nth)
    with pos j ab show "e \<in> measure pos" by (metis in_measure order.strict_trans)
  qed
  then show ?thesis using acyclic_subset wf_acyclic wf_measure by blast
qed

lemma topological_sort_inv:
  assumes dist: "\<And>m. distinct (neighbours adj m)" and dn: "distinct nodes"
  shows "\<exists>d. kahn_inv nodes adj [] d (fst (topological_sort nodes adj))"
proof -
  let ?d = "initial_degrees nodes adj"
  let ?q = "filter (\<lambda>n. dict_get ?d n = Some 0) nodes"
  have "kahn_inv nodes adj ?q ?d []"
    using initial_degrees_ok [OF assms] dn
    by (auto simp: kahn_inv_def degrees_ok_def topological_def)
  from kahn_loop_inv [OF this dist] show ?thesis
    by (auto simp: topological_sort_def Let_def)
qed


lemma topological_sort_order:
  assumes dist: "\<And>m. distinct (neighbours adj m)" and dn: "distinct nodes"
  shows "distinct (fst (topological_sort nodes adj))"
    and "set (fst (topological_sort nodes adj)) \<subseteq> set nodes"
    and "topological (edges_in nodes adj) (fst (topological_sort nodes adj))"
  using topological_sort_inv [OF assms] by (auto simp: kahn_inv_def)

lemma topological_sort_None_iff:
  assumes dist: "\<And>m. distinct (neighbours adj m)" and dn: "distinct nodes"
  shows "snd (topological_sort nodes adj) = None \<longleftrightarrow> acyclic (edges_in nodes adj)"
proof -
  let ?o = "fst (topological_sort nodes adj)"
  obtain d where inv: "kahn_inv nodes adj [] d ?o" using topological_sort_inv [OF assms] by blast
  note ord = topological_sort_order [OF assms]
  have len: "snd (topological_sort nodes adj) = None \<longleftrightarrow> length ?o = length nodes"
    by (auto simp: topological_sort_def Let_def)
  have "length ?o = length nodes \<longleftrightarrow> set ?o = set nodes"
    using ord dn by (metis card_subset_eq distinct_card finite_set)
  moreover have "set ?o = set nodes \<Longrightarrow> acyclic (edges_in nodes adj)"
    using ord by (intro topological_acyclic) (auto simp: edges_in_def)
  moreover note kahn_complete [OF inv]
  ultimately show ?thesis using len by blast
qed

section \<open>Adjacency from edge data\<close>

text \<open>
  What the extractor returns for an edge: a list of targets, one target, or a value of
  another type, which is skipped. Without an extractor an edge counts when it is a string.
\<close>

datatype extracted = TargetList "string list" | TargetStr string | OtherTarget

definition edge_targets ::
  "('e \<Rightarrow> extracted) option \<Rightarrow> ('e \<Rightarrow> string option) \<Rightarrow> 'e \<Rightarrow> string list" where
  "edge_targets target_extractor as_str edge =
     (case target_extractor of
        Some f \<Rightarrow> (case f edge of TargetList ts \<Rightarrow> ts | TargetStr t \<Rightarrow> [t] | OtherTarget \<Rightarrow> [])
      | None \<Rightarrow> (case as_str edge of Some t \<Rightarrow> [t] | None \<Rightarrow> []))"

definition build_adjacency_from_edges ::
  "(string, 'e list) dict \<Rightarrow> ('e \<Rightarrow> extracted) option \<Rightarrow> ('e \<Rightarrow> string option) \<Rightarrow> adjacency" where
  "build_adjacency_from_edges edges target_extractor as_str =
     fold (\<lambda>(source, edge_list) adjacency.
             dict_set source (concat (map (edge_targets target_extractor as_str) edge_list)) adjacency)
       edges []"

lemma fold_set_lookup:
  "dict_get (fold (\<lambda>(s, es) adj. dict_set s (f es) adj) edges adj0) n =
     (case dict_get (rev edges) n of None \<Rightarrow> dict_get adj0 n | Some es \<Rightarrow> Some (f es))"
proof (induction edges arbitrary: adj0)
  case (Cons e edges)
  then show ?case
    by (cases e) (auto simp: map_add_def dict_simps split: option.splits)
qed simp

lemma neighbours_build_adjacency:
  assumes "dict_ok edges"
  shows "neighbours (build_adjacency_from_edges edges ext as_str) n =
     concat (map (edge_targets ext as_str) (dict_get_or edges n []))"
  using assms
  by (simp add: neighbours_def dict_get_or_def build_adjacency_from_edges_def fold_set_lookup
      dict_get_rev split: option.splits)

section \<open>Results\<close>

text \<open>Breadth-first search returns, without repetition, exactly the nodes that a path of
  edges from the start reaches without entering the sentinel, and nothing when the start is
  the sentinel; the loop ends on every graph, cyclic ones included.\<close>

theorem find_reachable_exact:
  "set (find_reachable start adj sentinel) =
     (if Some start = sentinel then {} else {n. (start, n) \<in> (step_rel adj sentinel)\<^sup>*})
   \<and> distinct (find_reachable start adj sentinel)"
  by (auto simp: find_reachable_set find_reachable_distinct)

text \<open>C35. The depth-first search answers \<^verbatim>\<open>None\<close> exactly for the acyclic graphs; a list it
  returns instead is a closed walk along edges of the graph when no node has an edge to
  itself. The walk along the parent pointers always ends.\<close>

theorem detect_cycle_correct:
  "(detect_cycle nodes adj = NoCycle \<longleftrightarrow> acyclic (edges_in nodes adj)) \<and>
   detect_cycle nodes adj \<noteq> Stuck \<and>
   (\<forall>ws. detect_cycle nodes adj = Cycle ws \<and> (\<forall>n. (n, n) \<notin> edges_in nodes adj) \<longrightarrow>
      closed_walk (edges_in nodes adj) ws)"
  using detect_cycle_report [of nodes adj]
  by (auto simp: detect_cycle_NoCycle_iff good_report_def)

theorem detect_cycle_correct_witness:
  "closed_walk (edges_in [''a'', ''b'', ''c''] [(''a'', [''b'']), (''b'', [''c'']), (''c'', [''b''])])
     [''b'', ''c'', ''b'']"
proof -
  let ?nodes = "[''a'', ''b'', ''c'']" and ?adj = "[(''a'', [''b'']), (''b'', [''c'']), (''c'', [''b''])]"
  have "detect_cycle ?nodes ?adj = Cycle [''b'', ''c'', ''b'']" by code_simp
  moreover have "\<forall>n. (n, n) \<notin> edges_in ?nodes ?adj"
    by (auto simp: edges_in_def neighbours_def dict_get_or_def)
  ultimately show ?thesis using detect_cycle_correct [of ?nodes ?adj] by blast
qed

text \<open>With an edge from a node to itself below the root of the search, the reported list
  need not be a cycle: for the edges a to b and b to b it is b, a, b, b, although b has no
  edge to a.\<close>

theorem detect_cycle_self_loop_report:
  "detect_cycle [''a'', ''b''] [(''a'', [''b'']), (''b'', [''b''])] = Cycle [''b'', ''a'', ''b'', ''b''] \<and>
   \<not> closed_walk (edges_in [''a'', ''b''] [(''a'', [''b'']), (''b'', [''b''])]) [''b'', ''a'', ''b'', ''b'']"
proof
  show "detect_cycle [''a'', ''b''] [(''a'', [''b'']), (''b'', [''b''])]
      = Cycle [''b'', ''a'', ''b'', ''b'']"
    by code_simp
qed (simp add: closed_walk_def edges_in_def neighbours_def dict_get_or_def)

text \<open>C34. Kahn's algorithm on a set of nodes with sets of neighbours: the order holds no node
  twice and every node after all its predecessors; the second component is \<^verbatim>\<open>None\<close> exactly
  for the acyclic graphs, and then the order holds every node.\<close>

theorem topological_sort_correct:
  assumes "distinct nodes" and "\<And>m. distinct (neighbours adj m)"
  shows "distinct (fst (topological_sort nodes adj)) \<and>
    topological (edges_in nodes adj) (fst (topological_sort nodes adj)) \<and>
    (snd (topological_sort nodes adj) = None \<longleftrightarrow> acyclic (edges_in nodes adj)) \<and>
    (snd (topological_sort nodes adj) = None \<longrightarrow> set (fst (topological_sort nodes adj)) = set nodes)"
proof -
  note ord = topological_sort_order [OF assms(2,1)] and none = topological_sort_None_iff [OF assms(2,1)]
  have "set (fst (topological_sort nodes adj)) = set nodes" if "snd (topological_sort nodes adj) = None"
    using topological_sort_inv [OF assms(2,1)] none that kahn_complete by blast
  with ord none show ?thesis by blast
qed

theorem topological_sort_correct_witness:
  "topological_sort [''a'', ''b'', ''c''] [(''a'', [''b'', ''c'']), (''c'', [''b''])]
     = ([''a'', ''c'', ''b''], None) \<and>
   acyclic (edges_in [''a'', ''b'', ''c''] [(''a'', [''b'', ''c'']), (''c'', [''b''])])"
proof -
  have eq: "topological_sort [''a'', ''b'', ''c''] [(''a'', [''b'', ''c'']), (''c'', [''b''])]
     = ([''a'', ''c'', ''b''], None)"
    by code_simp
  have "distinct (neighbours [(''a'', [''b'', ''c'']), (''c'', [''b''])] m)" for m
    by (simp add: neighbours_def dict_get_or_def)
  with eq topological_sort_correct [of "[''a'', ''b'', ''c'']" "[(''a'', [''b'', ''c'']), (''c'', [''b''])]"]
  show ?thesis by simp
qed

end
