(* ===== verification/Graph_Merge.thy ===== *)
theory Graph_Merge
  imports Prelude "HOL-Library.List_Lexorder" "HOL-Library.Char_ord"
begin

text \<open>
  Merging the states of parallel branches (\<^verbatim>\<open>victor/framework/graph_merge.py\<close>): the
  last-write-wins merger, the strict merger and the choice between them. The values are of
  any type with a comparison \<^verbatim>\<open>!=\<close> that may itself raise (\<^verbatim>\<open>None\<close>); a raised comparison counts
  as a conflict in the code.
\<close>

type_synonym 'v comparison = "'v \<Rightarrow> 'v \<Rightarrow> bool option"
type_synonym 'v merger = "(string, 'v) dict \<Rightarrow> (string, 'v) dict list \<Rightarrow> (string, 'v) dict result"

section \<open>The mergers\<close>

text \<open>The loop over the items of one branch: the keys whose value differs from the merged one.\<close>

definition branch_conflicts ::
  "'v comparison \<Rightarrow> (string, 'v) dict \<Rightarrow> (string, 'v) dict \<Rightarrow> string list" where
  "branch_conflicts ne merged branch_state =
     map fst (filter (\<lambda>(key, v).
        case dict_get merged key of
          None \<Rightarrow> False
        | Some u \<Rightarrow> (case ne u v of Some differs \<Rightarrow> differs | None \<Rightarrow> True)) branch_state)"

text \<open>A set of keys is a list without repetition; \<open>note_keys\<close> adds to it.\<close>

definition note_keys :: "string list \<Rightarrow> string list \<Rightarrow> string list" where
  "note_keys conflicting_keys ks = fold List.insert ks conflicting_keys"

definition default_step ::
  "'v comparison \<Rightarrow> (string, 'v) dict \<Rightarrow> (string, 'v) dict \<times> string list \<Rightarrow> (string, 'v) dict \<times> string list" where
  "default_step ne branch_state acc =
     (dict_update (fst acc) branch_state,
      note_keys (snd acc) (branch_conflicts ne (fst acc) branch_state))"

definition default_merge_scan ::
  "'v comparison \<Rightarrow> (string, 'v) dict \<Rightarrow> (string, 'v) dict list \<Rightarrow> (string, 'v) dict \<times> string list" where
  "default_merge_scan ne base_state branch_states =
     fold (default_step ne) branch_states (base_state, [])"

definition default_state_merger :: "'v comparison \<Rightarrow> 'v merger" where
  "default_state_merger ne base_state branch_states =
     Inr (fst (default_merge_scan ne base_state branch_states))"

text \<open>The keys the merger warns about, sorted, if there are any.\<close>

definition default_merge_warning ::
  "'v comparison \<Rightarrow> (string, 'v) dict \<Rightarrow> (string, 'v) dict list \<Rightarrow> string list option" where
  "default_merge_warning ne base_state branch_states =
     (let keys = snd (default_merge_scan ne base_state branch_states)
      in if keys = [] then None else Some (sort keys))"

definition strict_conflict :: "string list \<Rightarrow> py_exc" where
  "strict_conflict conflicting_keys = PyExc ''ValueError''
     (''Parallel state merge conflict on keys '' @ repr_strs (sort conflicting_keys) @
      ''; strict_state_merger requires an explicit resolver'')"

fun strict_loop ::
  "'v comparison \<Rightarrow> (string, 'v) dict \<Rightarrow> (string, 'v) dict list \<Rightarrow> (string, 'v) dict result" where
  "strict_loop ne merged [] = Inr merged"
| "strict_loop ne merged (branch_state # rest) =
     (case note_keys [] (branch_conflicts ne merged branch_state) of
        [] \<Rightarrow> strict_loop ne (dict_update merged branch_state) rest
      | conflicting_keys \<Rightarrow> Inl (strict_conflict conflicting_keys))"

definition strict_state_merger :: "'v comparison \<Rightarrow> 'v merger" where
  "strict_state_merger ne base_state branch_states = strict_loop ne base_state branch_states"

definition resolve_state_merger ::
  "'v comparison \<Rightarrow> string \<Rightarrow> 'v merger option \<Rightarrow> 'v merger result" where
  "resolve_state_merger ne strategy custom_merger =
     (if strategy = ''strict'' then Inr (strict_state_merger ne)
      else if strategy = ''last_write_wins'' then Inr (default_state_merger ne)
      else if strategy = ''custom''
      then (case custom_merger of
              None \<Rightarrow> Inl (PyExc ''ValueError''
                (''PerformanceConfig.parallel_state_merge_strategy='' @ quoted ''custom'' @
                 '' requires PerformanceConfig.custom_state_merger''))
            | Some m \<Rightarrow> Inr m)
      else Inl (PyExc ''ValueError'' (''Unsupported parallel state merge strategy: '' @ strategy)))"

section \<open>Last write wins\<close>

lemma note_keys_set [simp]: "set (note_keys acc ks) = set acc \<union> set ks"
  by (induction ks arbitrary: acc) (auto simp: note_keys_def)

lemma note_keys_Nil: "note_keys [] ks = [] \<longleftrightarrow> ks = []"
  by (metis note_keys_set set_empty2 empty_set sup_bot.left_neutral)

lemma default_merge_fst: "fst (fold (default_step ne) bs acc) = fold (\<lambda>b m. dict_update m b) bs (fst acc)"
  by (induction bs arbitrary: acc) (simp_all add: default_step_def)

lemma fold_update_lookup:
  assumes "list_all dict_ok bs"
  shows "dict_get (fold (\<lambda>b m. dict_update m b) bs base) k =
     (case find (\<lambda>b. dict_has b k) (rev bs) of None \<Rightarrow> dict_get base k | Some b \<Rightarrow> dict_get b k)"
  using assms
proof (induction bs rule: rev_induct)
  case (snoc b bs)
  then show ?case by (auto simp: dict_get_update_ok dict_has_def split: option.splits)
qed simp

section \<open>The strict merger\<close>

text \<open>Two values that \<^verbatim>\<open>!=\<close> tells not apart.\<close>

abbreviation agree :: "'v comparison \<Rightarrow> 'v \<Rightarrow> 'v \<Rightarrow> bool" where
  "agree ne x y \<equiv> ne x y = Some False"

definition dicts_agree :: "'v comparison \<Rightarrow> (string, 'v) dict \<Rightarrow> (string, 'v) dict \<Rightarrow> bool" where
  "dicts_agree ne d e \<longleftrightarrow>
     (\<forall>k u v. dict_get d k = Some u \<longrightarrow> dict_get e k = Some v \<longrightarrow> agree ne u v)"

lemma raised_or_differs: "(case c of None \<Rightarrow> True | Some d \<Rightarrow> d) \<longleftrightarrow> c \<noteq> Some False"
  by (cases c) auto

lemma branch_conflicts_Nil:
  assumes "dict_ok b"
  shows "branch_conflicts ne m b = [] \<longleftrightarrow> dicts_agree ne m b"
proof -
  have "branch_conflicts ne m b = [] \<longleftrightarrow>
      (\<forall>(k, v) \<in> set b. \<forall>u. dict_get m k = Some u \<longrightarrow> ne u v = Some False)"
    by (simp add: branch_conflicts_def filter_empty_conv split_beta raised_or_differs split: option.splits)
  also have "\<dots> \<longleftrightarrow> dicts_agree ne m b"
    by (simp add: dicts_agree_def split_beta' Ball_def split_paired_all dict_get_items [OF assms, symmetric]) blast
  finally show ?thesis .
qed

lemma strict_loop_Cons:
  "dict_ok b \<Longrightarrow> strict_loop ne m (b # bs) =
     (if dicts_agree ne m b then strict_loop ne (dict_update m b) bs
      else Inl (strict_conflict (note_keys [] (branch_conflicts ne m b))))"
  using note_keys_Nil [of "branch_conflicts ne m b"]
  by (auto simp: branch_conflicts_Nil split: list.splits)

lemma strict_loop_merged: "strict_loop ne m bs = Inr r \<Longrightarrow> r = fold (\<lambda>b m. dict_update m b) bs m"
  by (induction ne m bs rule: strict_loop.induct) (auto split: list.splits)

lemma dicts_agree_update:
  assumes eqv: "\<And>x y. ne x y = Some (\<not> E x y)" "equivp E" and ok: "dict_ok b"
    and mb: "dicts_agree ne m b"
  shows "dicts_agree ne (dict_update m b) c \<longleftrightarrow> dicts_agree ne m c \<and> dicts_agree ne b c"
proof -
  have "(\<forall>u v. (case dict_get b k of None \<Rightarrow> dict_get m k | Some v \<Rightarrow> Some v) = Some u \<longrightarrow>
          dict_get c k = Some v \<longrightarrow> E u v) \<longleftrightarrow>
        (\<forall>u v. dict_get m k = Some u \<longrightarrow> dict_get c k = Some v \<longrightarrow> E u v) \<and>
        (\<forall>u v. dict_get b k = Some u \<longrightarrow> dict_get c k = Some v \<longrightarrow> E u v)" for k
  proof (cases "dict_get b k"; cases "dict_get m k")
    fix x y assume get: "dict_get b k = Some y" "dict_get m k = Some x"
    then have "E x y" using mb eqv(1) by (auto simp: dicts_agree_def)
    then have "E x v \<longleftrightarrow> E y v" for v by (metis equivp_symp equivp_transp eqv(2))
    with get show ?thesis by simp
  qed simp_all
  then show ?thesis
    unfolding dicts_agree_def dict_get_update_ok [OF ok] eqv(1) by auto
qed

text \<open>With an equivalence for comparison the strict merger succeeds exactly when the base and
  the branches agree pairwise.\<close>

lemma strict_loop_pairwise:
  assumes eqv: "\<And>x y. ne x y = Some (\<not> E x y)" "equivp E" and ok: "list_all dict_ok bs"
  shows "(\<exists>r. strict_loop ne m bs = Inr r) \<longleftrightarrow>
     (\<forall>b \<in> set bs. dicts_agree ne m b) \<and> sorted_wrt (dicts_agree ne) bs"
  using ok
proof (induction bs arbitrary: m)
  case (Cons b bs)
  show ?case
  proof (cases "dicts_agree ne m b")
    case True
    with Cons dicts_agree_update [OF eqv, of b m] show ?thesis
      by (auto simp: strict_loop_Cons simp del: strict_loop.simps)
  next
    case False
    with Cons.prems show ?thesis by (auto simp: strict_loop_Cons simp del: strict_loop.simps)
  qed
qed simp

lemma sorted_wrt_symmetric:
  assumes "\<And>x. R x x" and "\<And>x y. R x y \<Longrightarrow> R y x"
  shows "sorted_wrt R xs \<longleftrightarrow> (\<forall>x \<in> set xs. \<forall>y \<in> set xs. R x y)"
  using assms by (induction xs) auto

lemma dicts_agree_equiv:
  assumes eqv: "\<And>x y. ne x y = Some (\<not> E x y)" "equivp E"
  shows "dicts_agree ne d d" and "dicts_agree ne d e \<Longrightarrow> dicts_agree ne e d"
  using equivp_reflp [OF eqv(2)] equivp_symp [OF eqv(2)] by (auto simp: dicts_agree_def eqv(1))

lemma strict_succeeds_iff:
  assumes eqv: "\<And>x y. ne x y = Some (\<not> E x y)" "equivp E" and ok: "list_all dict_ok bs"
  shows "(\<exists>r. strict_state_merger ne m bs = Inr r) \<longleftrightarrow>
     (\<forall>d \<in> insert m (set bs). \<forall>e \<in> set bs. dicts_agree ne d e)"
  using sorted_wrt_symmetric [of "dicts_agree ne" bs] dicts_agree_equiv [OF eqv]
  unfolding strict_state_merger_def strict_loop_pairwise [OF assms] by blast

lemma merged_member:
  assumes "list_all dict_ok bs" and "dict_get (fold (\<lambda>b m. dict_update m b) bs m) k = Some v"
  shows "\<exists>d \<in> insert m (set bs). dict_get d k = Some v"
  using assms(2) unfolding fold_update_lookup [OF assms(1)]
  by (auto split: option.splits simp: find_Some_iff) (metis nth_mem set_rev length_rev)

lemma merged_has:
  assumes "list_all dict_ok bs"
  shows "dict_get (fold (\<lambda>b m. dict_update m b) bs m) k = None \<longleftrightarrow>
    (\<forall>d \<in> insert m (set bs). dict_get d k = None)"
  using assms by (induction bs arbitrary: m) (auto simp: dict_get_update_ok split: option.splits)

lemma strict_loop_default:
  "(case strict_loop ne m bs of Inr r \<Rightarrow> fold (default_step ne) bs (m, []) = (r, [])
    | Inl e \<Rightarrow> exc_type e = ''ValueError'' \<and> snd (fold (default_step ne) bs (m, [])) \<noteq> [])"
proof (induction bs arbitrary: m)
  case (Cons b bs)
  have grow: "set acc \<subseteq> set (snd (fold (default_step ne) cs (d, acc)))" for cs d acc
    by (induction cs arbitrary: d acc) (auto simp: default_step_def subset_iff)
  show ?case
  proof (cases "note_keys [] (branch_conflicts ne m b)")
    case Nil
    with Cons [of "dict_update m b"] show ?thesis by (simp add: default_step_def split: sum.splits)
  next
    case (Cons k ks)
    with grow [of "k # ks" bs "dict_update m b"] show ?thesis
      by (auto simp: default_step_def strict_conflict_def)
  qed
qed simp

section \<open>Results\<close>

text \<open>Last-write-wins: the merged value of a key is that of the last branch that has the
  key, and the base value when no branch has it.\<close>

theorem default_merger_lookup:
  assumes "list_all dict_ok branch_states"
  shows "\<exists>merged. default_state_merger ne base_state branch_states = Inr merged \<and>
    (\<forall>k. dict_get merged k =
       (case find (\<lambda>b. dict_has b k) (rev branch_states) of
          None \<Rightarrow> dict_get base_state k | Some b \<Rightarrow> dict_get b k))"
  by (simp add: default_state_merger_def default_merge_scan_def default_merge_fst
      fold_update_lookup [OF assms])

theorem default_merger_lookup_witness:
  "\<exists>merged. default_state_merger (\<lambda>x y. Some (x \<noteq> y)) [(''a'', 1), (''b'', 2)]
       [[(''a'', 3)], [(''a'', 4), (''c'', 5::int)], [(''b'', 2)]] = Inr merged \<and>
     dict_get merged ''a'' = Some 4 \<and> dict_get merged ''b'' = Some 2 \<and> dict_get merged ''c'' = Some 5"
  using default_merger_lookup [of "[[(''a'', 3)], [(''a'', 4), (''c'', 5)], [(''b'', 2)]]"
      "\<lambda>x y. Some (x \<noteq> y)" "[(''a'', 1), (''b'', 2::int)]"]
  by (auto simp: dict_ok_def dict_has_def)

text \<open>The strict merger succeeds exactly when the default merger has nothing to warn about,
  then with the same state; otherwise it raises \<^verbatim>\<open>ValueError\<close>.\<close>

theorem strict_vs_default:
  "case strict_state_merger ne base_state branch_states of
     Inr merged \<Rightarrow> default_state_merger ne base_state branch_states = Inr merged \<and>
       default_merge_warning ne base_state branch_states = None
   | Inl e \<Rightarrow> exc_type e = ''ValueError'' \<and> default_merge_warning ne base_state branch_states \<noteq> None"
  using strict_loop_default [where ne = ne and m = base_state and bs = branch_states]
  by (auto simp: strict_state_merger_def default_state_merger_def default_merge_warning_def
      default_merge_scan_def Let_def split: sum.splits)

text \<open>Where \<^verbatim>\<open>!=\<close> is the complement of an equivalence, the outcome of a strict merge depends
  only on the set of branches, not on the order in which they finished: it succeeds for one
  order exactly when it does for the other, and the two results have equivalent values.\<close>

theorem strict_merge_order_independent:
  assumes eqv: "\<And>x y. ne x y = Some (\<not> E x y)" "equivp E"
    and ok: "list_all dict_ok bs" "list_all dict_ok bs'" and same: "set bs = set bs'"
    and r: "strict_state_merger ne base_state bs = Inr r"
  shows "\<exists>r'. strict_state_merger ne base_state bs' = Inr r' \<and>
    (\<forall>k. rel_option E (dict_get r k) (dict_get r' k))"
proof -
  have agree: "\<forall>d \<in> insert base_state (set bs). \<forall>e \<in> set bs. dicts_agree ne d e"
    using strict_succeeds_iff [OF eqv ok(1)] r by blast
  then obtain r' where r': "strict_state_merger ne base_state bs' = Inr r'"
    using strict_succeeds_iff [OF eqv ok(2)] same by blast
  note merged = strict_loop_merged [OF r [unfolded strict_state_merger_def]]
    strict_loop_merged [OF r' [unfolded strict_state_merger_def]]
  have E: "E u v" if "d \<in> insert base_state (set bs)" "e \<in> insert base_state (set bs)"
    "dict_get d k = Some u" "dict_get e k = Some v" for d e k u v
    using that agree equivp_symp [OF eqv(2)] equivp_reflp [OF eqv(2)]
    by (auto simp: dicts_agree_def eqv(1))
  have "rel_option E (dict_get r k) (dict_get r' k)" for k
  proof (cases "dict_get r k")
    case None
    then have "dict_get r' k = None"
      using merged_has [OF ok(1)] merged_has [OF ok(2)] merged same by metis
    with None show ?thesis by simp
  next
    case (Some u)
    then obtain v where v: "dict_get r' k = Some v"
      using merged_has [OF ok(1)] merged_has [OF ok(2)] merged same by (metis option.exhaust)
    then show ?thesis using E merged_member [OF ok(1)] merged_member [OF ok(2)] merged same Some
      by (metis option.rel_inject(2))
  qed
  with r' show ?thesis by blast
qed

theorem strict_merge_order_independent_witness:
  "\<exists>r'. strict_state_merger (\<lambda>x y. Some (x \<noteq> y)) [(''base'', 0)] [[(''b'', 2)], [(''a'', 1::int)]] = Inr r' \<and>
    (\<forall>k. rel_option (=) (dict_get [(''base'', 0), (''a'', 1), (''b'', 2)] k) (dict_get r' k))"
  by (rule strict_merge_order_independent [where bs = "[[(''a'', 1)], [(''b'', 2)]]"])
    (auto simp: identity_equivp dict_ok_def strict_state_merger_def branch_conflicts_def note_keys_def)

text \<open>The strict merger rejects every branch that changes a key of the state the branches
  started from, also when no other branch wrote that key.\<close>

theorem strict_rejects_base_update:
  assumes "\<And>x y. ne x y = Some (\<not> E x y)" "equivp E" "list_all dict_ok bs"
    and "b \<in> set bs" "dict_get base_state k = Some u" "dict_get b k = Some v" "\<not> E u v"
  shows "\<exists>e. strict_state_merger ne base_state bs = Inl e \<and> exc_type e = ''ValueError''"
proof -
  have "\<not> dicts_agree ne base_state b" using assms by (auto simp: dicts_agree_def)
  then have "\<nexists>r. strict_state_merger ne base_state bs = Inr r"
    using strict_succeeds_iff [OF assms(1-3)] assms(4) by blast
  then show ?thesis
    using strict_loop_default [where ne = ne and m = base_state and bs = bs]
    by (cases "strict_loop ne base_state bs") (auto simp: strict_state_merger_def)
qed

theorem strict_rejects_base_update_witness:
  "\<exists>e. strict_state_merger (\<lambda>x y. Some (x \<noteq> y)) [(''count'', 0)] [[(''count'', 1::int)]] = Inl e \<and>
     exc_type e = ''ValueError''"
  by (rule strict_rejects_base_update [where E = "(=)"]) (auto simp: identity_equivp dict_ok_def)

end
