(* ===== verification/Graph_Checkpoint.thy ===== *)
theory Graph_Checkpoint
  imports Prelude
begin

text \<open>
  Checkpoints of a graph run (\<^verbatim>\<open>victor/framework/graph_checkpoint.py\<close>): the checkpoint record
  with its dictionary form, the protocol a checkpointer follows as a locale, and the
  in-memory checkpointer as its implementation. The copies the checkpointer takes on save,
  load and list are what makes stored checkpoints values.
\<close>

section \<open>Checkpoints\<close>

record WorkflowCheckpoint =
  checkpoint_id :: string
  thread_id :: string
  node_id :: string
  cp_state :: state
  timestamp :: time
  metadata :: state

definition next_node :: "WorkflowCheckpoint \<Rightarrow> string option" where
  "next_node cp = (case dict_get (metadata cp) ''next_node'' of Some (VStr s) \<Rightarrow> Some s | _ \<Rightarrow> None)"

definition cp_to_dict :: "WorkflowCheckpoint \<Rightarrow> state" where
  "cp_to_dict cp =
     [(''checkpoint_id'', VStr (checkpoint_id cp)),
      (''thread_id'', VStr (thread_id cp)),
      (''node_id'', VStr (node_id cp)),
      (''state'', VDict (cp_state cp)),
      (''timestamp'', VFloat (timestamp cp)),
      (''metadata'', VDict (metadata cp))]"

text \<open>
  \<^verbatim>\<open>data[key]\<close> where the value must have the type the field is declared with. The outer
  \<open>None\<close> stands for data with a value of another type, which the dataclass would store as it
  is and which is outside this record.
\<close>

definition typed_item :: "(pyval \<Rightarrow> 'a option) \<Rightarrow> state \<Rightarrow> string \<Rightarrow> 'a result option" where
  "typed_item f data key =
     (case dict_get data key of
        None \<Rightarrow> Some (Inl (KeyError key))
      | Some v \<Rightarrow> map_option Inr (f v))"

definition as_str :: "pyval \<Rightarrow> string option" where
  "as_str v = (case v of VStr s \<Rightarrow> Some s | _ \<Rightarrow> None)"

definition as_dict :: "pyval \<Rightarrow> state option" where
  "as_dict v = (case v of VDict d \<Rightarrow> Some d | _ \<Rightarrow> None)"

definition as_float :: "pyval \<Rightarrow> real option" where
  "as_float v = (case v of VFloat r \<Rightarrow> Some r | VInt i \<Rightarrow> Some (of_int i) | _ \<Rightarrow> None)"

abbreviation bind_typed :: "'a result option \<Rightarrow> ('a \<Rightarrow> 'b result option) \<Rightarrow> 'b result option" where
  "bind_typed r f \<equiv> (case r of None \<Rightarrow> None | Some (Inl e) \<Rightarrow> Some (Inl e) | Some (Inr x) \<Rightarrow> f x)"

definition cp_from_dict :: "state \<Rightarrow> WorkflowCheckpoint result option" where
  "cp_from_dict data =
     bind_typed (typed_item as_str data ''checkpoint_id'') (\<lambda>i.
     bind_typed (typed_item as_str data ''thread_id'') (\<lambda>t.
     bind_typed (typed_item as_str data ''node_id'') (\<lambda>n.
     bind_typed (typed_item as_dict data ''state'') (\<lambda>s.
     bind_typed (typed_item as_float data ''timestamp'') (\<lambda>ts.
     map_option (\<lambda>m. Inr \<lparr>checkpoint_id = i, thread_id = t, node_id = n, cp_state = s,
                           timestamp = ts, metadata = m\<rparr>)
       (case dict_get data ''metadata'' of None \<Rightarrow> Some [] | Some v \<Rightarrow> as_dict v))))))"

section \<open>The checkpointer protocol\<close>

text \<open>
  What the engine relies on: a saved checkpoint is appended to the history of its thread and
  of no other, and a load returns the last entry of the history.
\<close>

locale checkpointer =
  fixes save :: "WorkflowCheckpoint \<Rightarrow> 's \<Rightarrow> 's"
    and load :: "'s \<Rightarrow> string \<Rightarrow> WorkflowCheckpoint option"
    and history :: "'s \<Rightarrow> string \<Rightarrow> WorkflowCheckpoint list"
  assumes history_save:
      "history (save cp s) t = history s t @ (if t = thread_id cp then [cp] else [])"
    and load_history: "load s t = (if history s t = [] then None else Some (last (history s t)))"
begin

lemma load_save: "load (save cp s) t = (if t = thread_id cp then Some cp else load s t)"
  by (simp add: load_history history_save)

lemma history_save_all:
  "history (fold save cps s) t = history s t @ filter (\<lambda>cp. thread_id cp = t) cps"
  by (induction cps arbitrary: s) (auto simp: history_save)

lemma load_save_all:
  "load (fold save cps s) t =
     (case rev (filter (\<lambda>cp. thread_id cp = t) cps) of [] \<Rightarrow> load s t | cp # _ \<Rightarrow> Some cp)"
  by (cases "filter (\<lambda>cp. thread_id cp = t) cps" rule: rev_cases)
    (auto simp: load_history history_save_all)

end

sublocale checkpointer \<subseteq> last_checkpoint: registry save load thread_id
  by unfold_locales (rule load_save)

text \<open>
  What a resume needs is less: the last checkpoint saved for a thread is the one that is loaded,
  as long as the store is in order. \<open>found\<close> is the form in which a load returns a checkpoint.
\<close>

locale latest_checkpoint =
  fixes save :: "WorkflowCheckpoint \<Rightarrow> 's \<Rightarrow> 's"
    and load :: "'s \<Rightarrow> string \<Rightarrow> 'r"
    and found :: "WorkflowCheckpoint \<Rightarrow> 'r"
    and inv :: "'s \<Rightarrow> bool"
  assumes save_inv: "inv s \<Longrightarrow> inv (save cp s)"
    and load_saved: "inv s \<Longrightarrow> load (save cp s) t = (if t = thread_id cp then found cp else load s t)"
begin

lemma save_all_inv: "inv s \<Longrightarrow> inv (fold save cps s)"
  by (induction cps arbitrary: s) (auto intro: save_inv)

lemma load_saved_all:
  "inv s \<Longrightarrow> load (fold save cps s) t =
     (case rev (filter (\<lambda>cp. thread_id cp = t) cps) of [] \<Rightarrow> load s t | cp # _ \<Rightarrow> found cp)"
proof (induction cps rule: rev_induct)
  case (snoc cp cps)
  then show ?case by (simp add: load_saved save_all_inv)
qed simp

end

sublocale checkpointer \<subseteq> latest: latest_checkpoint save load Some "\<lambda>_. True"
  by unfold_locales (simp_all add: load_save)

section \<open>The in-memory checkpointer\<close>

type_synonym MemoryCheckpointer = "(string, WorkflowCheckpoint list) dict"

definition mc_init :: MemoryCheckpointer where
  "mc_init = []"

definition mc_save :: "WorkflowCheckpoint \<Rightarrow> MemoryCheckpointer \<Rightarrow> MemoryCheckpointer" where
  "mc_save cp checkpoints =
     (let checkpoints = (if dict_has checkpoints (thread_id cp) then checkpoints
                         else dict_set (thread_id cp) [] checkpoints)
      in dict_set (thread_id cp) (dict_get_or checkpoints (thread_id cp) [] @ [cp]) checkpoints)"

definition mc_load :: "MemoryCheckpointer \<Rightarrow> string \<Rightarrow> WorkflowCheckpoint option" where
  "mc_load checkpoints t =
     (let cps = dict_get_or checkpoints t [] in if cps = [] then None else Some (last cps))"

definition mc_list :: "MemoryCheckpointer \<Rightarrow> string \<Rightarrow> WorkflowCheckpoint list" where
  "mc_list checkpoints t = dict_get_or checkpoints t []"

interpretation mc: checkpointer mc_save mc_load mc_list
  by unfold_locales
    (auto simp: mc_save_def mc_load_def mc_list_def dict_get_or_def dict_has_def dict_simps Let_def
      split: option.splits)

section \<open>Results\<close>

lemma cp_from_to_dict: "cp_from_dict (cp_to_dict cp) = Some (Inr cp)"
  by (simp add: cp_from_dict_def cp_to_dict_def typed_item_def as_str_def as_dict_def as_float_def)

text \<open>The dictionary form of a checkpoint reads back as the checkpoint, with the node a
  resume continues at; without an entry for one of the required fields reading raises
  \<^verbatim>\<open>KeyError\<close> for the first missing one, and without metadata it gives none.\<close>

theorem checkpoint_roundtrip:
  "cp_from_dict (cp_to_dict cp) = Some (Inr cp) \<and>
   cp_from_dict (dict_pop ''metadata'' (cp_to_dict cp)) = Some (Inr (cp\<lparr>metadata := []\<rparr>)) \<and>
   (\<forall>k \<in> {''checkpoint_id'', ''thread_id'', ''node_id'', ''state'', ''timestamp''}.
      cp_from_dict (dict_pop k (cp_to_dict cp)) = Some (Inl (KeyError k)))"
  by (simp add: cp_from_to_dict)
    (simp add: cp_from_dict_def cp_to_dict_def typed_item_def as_str_def as_dict_def as_float_def)

theorem checkpoint_roundtrip_witness:
  "\<exists>cp. cp_from_dict (dict_pop ''node_id'' (cp_to_dict cp)) = Some (Inl (KeyError ''node_id''))"
  using checkpoint_roundtrip by blast

text \<open>After any saves, the in-memory history of a thread is what it was followed by the
  checkpoints saved for that thread in order, a load returns the last of them, and the
  histories of other threads are as they were.\<close>

theorem memory_checkpointer_history:
  "mc_list (fold mc_save cps s) t = mc_list s t @ filter (\<lambda>cp. thread_id cp = t) cps \<and>
   mc_load (fold mc_save cps s) t =
     (case rev (filter (\<lambda>cp. thread_id cp = t) cps) of [] \<Rightarrow> mc_load s t | cp # _ \<Rightarrow> Some cp)"
  by (simp add: mc.history_save_all mc.load_save_all)

end
