(* ===== verification/Graph_Validation.thy ===== *)
theory Graph_Validation
  imports Prelude
begin

text \<open>
  State validation (\<^verbatim>\<open>victor/framework/graph_validation.py\<close>): the structural type check, the
  validation of a state against a \<^verbatim>\<open>TypedDict\<close> schema, and the dispatch on the kind of schema.
  The pydantic call is a parameter, and so are the \<^verbatim>\<open>str()\<close> of a type and the class name of an
  object the model does not know.
\<close>

section \<open>Types and the check\<close>

text \<open>
  A type hint: a class for \<^verbatim>\<open>isinstance\<close>, \<^verbatim>\<open>List\<close> and \<^verbatim>\<open>Dict\<close> with or without arguments, or a
  \<^verbatim>\<open>Union\<close>. The last class stands for every other class or type form; \<open>None\<close> as its answer
  says that \<^verbatim>\<open>isinstance\<close> raises \<^verbatim>\<open>TypeError\<close>.
\<close>

datatype pyclass =
    NoneTypeC | BoolC | IntC | FloatC | StrC | ListC | DictC | AnyC | OtherC "pyval \<Rightarrow> bool option"

datatype hint =
    Class pyclass
  | ListOf "hint option"
  | DictOf "(hint \<times> hint) option"
  | UnionOf "hint list"

definition isinstance_of :: "pyval \<Rightarrow> pyclass \<Rightarrow> bool option" where
  "isinstance_of v c =
     (case c of
        NoneTypeC \<Rightarrow> Some (v = VNone)
      | BoolC \<Rightarrow> Some (case v of VBool _ \<Rightarrow> True | _ \<Rightarrow> False)
      | IntC \<Rightarrow> Some (case v of VInt _ \<Rightarrow> True | VBool _ \<Rightarrow> True | _ \<Rightarrow> False)
      | FloatC \<Rightarrow> Some (case v of VFloat _ \<Rightarrow> True | _ \<Rightarrow> False)
      | StrC \<Rightarrow> Some (case v of VStr _ \<Rightarrow> True | _ \<Rightarrow> False)
      | ListC \<Rightarrow> Some (case v of VList _ \<Rightarrow> True | _ \<Rightarrow> False)
      | DictC \<Rightarrow> Some (case v of VDict _ \<Rightarrow> True | _ \<Rightarrow> False)
      | AnyC \<Rightarrow> None
      | OtherC f \<Rightarrow> f v)"

text \<open>A \<^verbatim>\<open>NoneType\<close> argument of a union, compared by identity.\<close>

definition is_none_type :: "hint \<Rightarrow> bool" where
  "is_none_type h = (case h of Class NoneTypeC \<Rightarrow> True | _ \<Rightarrow> False)"

fun check_type :: "pyval \<Rightarrow> hint \<Rightarrow> bool" where
  "check_type v (ListOf arg) =
     (case v of
        VList items \<Rightarrow>
          (case arg of None \<Rightarrow> True | Some item_type \<Rightarrow> list_all (\<lambda>item. check_type item item_type) items)
      | _ \<Rightarrow> False)"
| "check_type v (DictOf arg) =
     (case v of
        VDict entries \<Rightarrow>
          (case arg of
             None \<Rightarrow> True
           | Some (key_type, value_type) \<Rightarrow>
               list_all (\<lambda>(key, item). check_type (VStr key) key_type \<and> check_type item value_type) entries)
      | _ \<Rightarrow> False)"
| "check_type v (UnionOf args) =
     (case args of
        [a, b] \<Rightarrow>
          if is_none_type b then v = VNone \<or> check_type v a
          else if is_none_type a then v = VNone \<or> check_type v b
          else check_type v a \<or> check_type v b
      | _ \<Rightarrow> list_ex (check_type v) args)"
| "check_type v (Class c) = (case isinstance_of v c of Some b \<Rightarrow> b | None \<Rightarrow> True)"

section \<open>Validation\<close>

text \<open>
  A schema: none, a pydantic model with its \<^verbatim>\<open>model_validate\<close>, a \<^verbatim>\<open>TypedDict\<close> with its type hints
  (reading them may raise) and its required keys when it declares them, or another class.
\<close>

datatype pydantic_outcome =
    Accepted | ValidationErrors "(string list \<times> string) list" | OtherError string

datatype schema =
    NoSchema
  | PydanticSchema "state \<Rightarrow> pydantic_outcome"
  | TypedDictSchema "(string, hint) dict result" "string list option"
  | OtherSchema

datatype validation_error =
    MissingRequired string
  | UnexpectedField string
  | TypeMismatch string hint pyval
  | OptionalTypeMismatch string hint pyval
  | PydanticError "string list" string
  | ValidationFailed string
  | TypedDictFailed string

text \<open>The message appended to the list of errors.\<close>

definition render_error :: "(hint \<Rightarrow> string) \<Rightarrow> (pyval \<Rightarrow> string) \<Rightarrow> validation_error \<Rightarrow> string" where
  "render_error show_type class_name e =
     (case e of
        MissingRequired k \<Rightarrow> ''Missing required field: '' @ quoted k
      | UnexpectedField k \<Rightarrow> ''Unexpected field: '' @ quoted k
      | TypeMismatch k h v \<Rightarrow>
          ''Type mismatch for '' @ quoted k @ '': expected '' @ show_type h @ '', got '' @ class_name v
      | OptionalTypeMismatch k h v \<Rightarrow>
          ''Type mismatch for optional field '' @ quoted k @ '': expected '' @ show_type h @
          '', got '' @ class_name v
      | PydanticError loc msg \<Rightarrow> py_join '' -> '' loc @ '': '' @ msg
      | ValidationFailed msg \<Rightarrow> ''Validation error: '' @ msg
      | TypedDictFailed msg \<Rightarrow> ''TypedDict validation error: '' @ msg)"

text \<open>The loop over the items of the state.\<close>

definition item_errors :: "(string, hint) dict \<Rightarrow> string \<times> pyval \<Rightarrow> validation_error list" where
  "item_errors hints item =
     (case dict_get hints (fst item) of
        None \<Rightarrow> [UnexpectedField (fst item)]
      | Some expected_type \<Rightarrow>
          (if \<not> check_type (snd item) expected_type
           then [TypeMismatch (fst item) expected_type (snd item)] else []))"

text \<open>The loop over the optional keys.\<close>

definition optional_errors :: "(string, hint) dict \<Rightarrow> state \<Rightarrow> string \<Rightarrow> validation_error list" where
  "optional_errors hints state key =
     (case (dict_get state key, dict_get hints key) of
        (Some v, Some expected_type) \<Rightarrow>
          (if \<not> check_type v expected_type then [OptionalTypeMismatch key expected_type v] else [])
      | _ \<Rightarrow> [])"

definition validate_typeddict ::
  "(string, hint) dict result \<Rightarrow> string list option \<Rightarrow> state \<Rightarrow> validation_error list" where
  "validate_typeddict type_hints required_keys state =
     (case type_hints of
        Inl e \<Rightarrow> [TypedDictFailed (exc_msg e)]
      | Inr hints \<Rightarrow>
          (let required = (case required_keys of Some ks \<Rightarrow> ks | None \<Rightarrow> dict_keys hints);
               optional = (case required_keys of
                   Some ks \<Rightarrow> filter (\<lambda>k. k \<notin> set ks) (dict_keys hints) | None \<Rightarrow> [])
           in map MissingRequired (filter (\<lambda>k. \<not> dict_has state k) required) @
              concat (map (item_errors hints) state) @
              concat (map (optional_errors hints state) optional)))"

definition validate_pydantic :: "(state \<Rightarrow> pydantic_outcome) \<Rightarrow> state \<Rightarrow> validation_error list" where
  "validate_pydantic model_validate state =
     (case model_validate state of
        Accepted \<Rightarrow> []
      | ValidationErrors items \<Rightarrow> map (\<lambda>(loc, msg). PydanticError loc msg) items
      | OtherError msg \<Rightarrow> [ValidationFailed msg])"

definition validate_state :: "schema \<Rightarrow> state \<Rightarrow> validation_error list" where
  "validate_state schema state =
     (case schema of
        NoSchema \<Rightarrow> []
      | PydanticSchema model_validate \<Rightarrow> validate_pydantic model_validate state
      | TypedDictSchema hints required \<Rightarrow> validate_typeddict hints required state
      | OtherSchema \<Rightarrow> [])"

text \<open>\<^verbatim>\<open>StateValidationError\<close>: the message lists the errors.\<close>

definition StateValidationError :: "string list \<Rightarrow> py_exc" where
  "StateValidationError errors = PyExc ''StateValidationError''
     (''State validation failed with '' @ show_nat (length errors) @ '' error(s):'' @ [CHR 0x0A] @
      py_join [CHR 0x0A] (map (\<lambda>e. ''  - '' @ e) errors))"

section \<open>Lemmas\<close>

text \<open>
  What it is for a value to have a type, by the rules of Python's typing: a class has its
  instances (a Boolean is an int, anything is \<^verbatim>\<open>Any\<close>), a container type asks its argument of
  every element, and a union has the values of each of its members. A class that \<^verbatim>\<open>isinstance\<close>
  cannot be asked about has every value.
\<close>

inductive has_type :: "pyval \<Rightarrow> hint \<Rightarrow> bool" where
  T_None: "has_type VNone (Class NoneTypeC)"
| T_Bool: "has_type (VBool b) (Class BoolC)"
| T_Int: "has_type (VInt i) (Class IntC)"
| T_Bool_Int: "has_type (VBool b) (Class IntC)"
| T_Float: "has_type (VFloat r) (Class FloatC)"
| T_Str: "has_type (VStr s) (Class StrC)"
| T_bare_list: "has_type (VList xs) (Class ListC)"
| T_bare_dict: "has_type (VDict es) (Class DictC)"
| T_Any: "has_type v (Class AnyC)"
| T_Other: "f v \<noteq> Some False \<Longrightarrow> has_type v (Class (OtherC f))"
| T_List: "has_type (VList xs) (ListOf None)"
| T_ListOf: "(\<And>x. x \<in> set xs \<Longrightarrow> has_type x h) \<Longrightarrow> has_type (VList xs) (ListOf (Some h))"
| T_Dict: "has_type (VDict es) (DictOf None)"
| T_DictOf:
    "(\<And>k x. (k, x) \<in> set es \<Longrightarrow> has_type (VStr k) hk) \<Longrightarrow> (\<And>k x. (k, x) \<in> set es \<Longrightarrow> has_type x hv) \<Longrightarrow>
     has_type (VDict es) (DictOf (Some (hk, hv)))"
| T_Union: "h \<in> set hs \<Longrightarrow> has_type v h \<Longrightarrow> has_type v (UnionOf hs)"

inductive_cases has_type_ClassE: "has_type v (Class c)"

lemma is_none_typeD: "is_none_type h \<Longrightarrow> h = Class NoneTypeC"
  by (auto simp: is_none_type_def split: hint.splits pyclass.splits)

text \<open>The check of a class, and of a union whose shortcut for an optional type is undone.\<close>

lemma check_class: "check_type v (Class c) \<longleftrightarrow> has_type v (Class c)"
proof (cases c)
  case (OtherC f)
  then show ?thesis
    by (cases "f v") (auto simp: isinstance_of_def intro: has_type.intros elim: has_type_ClassE)
qed (cases v, auto simp: isinstance_of_def intro: has_type.intros elim: has_type_ClassE)+

lemma check_union: "check_type v (UnionOf hs) \<longleftrightarrow> (\<exists>h \<in> set hs. check_type v h)"
proof -
  have none: "check_type v h \<longleftrightarrow> v = VNone" if "is_none_type h" for h
    using is_none_typeD [OF that] by (simp add: isinstance_of_def)
  show ?thesis
  proof (cases "\<exists>a b. hs = [a, b]")
    case True
    then show ?thesis by (auto simp: none split: if_splits)
  next
    case False
    then show ?thesis by (auto simp: list_ex_iff split: list.splits)
  qed
qed

text \<open>The structural check decides the typing relation.\<close>

lemma check_sound: "check_type v h \<Longrightarrow> has_type v h"
proof (induction h arbitrary: v)
  case (UnionOf hs)
  then show ?case unfolding check_union by (auto intro: has_type.intros)
qed (auto simp: check_class list_all_iff split: pyval.splits option.splits intro!: has_type.intros simp del: check_type.simps(4))

lemma check_complete: "has_type v h \<Longrightarrow> check_type v h"
proof (induction rule: has_type.induct)
  case (T_Union h hs v)
  then show ?case unfolding check_union by blast
qed (auto simp: isinstance_of_def list_all_iff split: option.splits)

lemma check_type_iff: "check_type v h \<longleftrightarrow> has_type v h"
  using check_sound check_complete by blast

text \<open>What a \<^verbatim>\<open>TypedDict\<close> schema asks of a state.\<close>

definition conforms :: "(string, hint) dict \<Rightarrow> string set \<Rightarrow> state \<Rightarrow> bool" where
  "conforms hints required state \<longleftrightarrow>
     required \<subseteq> set (dict_keys state) \<and>
     (\<forall>(k, v) \<in> set state. \<exists>h. dict_get hints k = Some h \<and> has_type v h)"

lemma item_errors_Nil:
  "item_errors hints (k, v) = [] \<longleftrightarrow> (\<exists>h. dict_get hints k = Some h \<and> check_type v h)"
  by (auto simp: item_errors_def split: option.splits)

lemma optional_errors_Nil:
  assumes "\<And>v. dict_get state k = Some v \<Longrightarrow> item_errors hints (k, v) = []"
  shows "optional_errors hints state k = []"
  using assms by (cases "dict_get state k") (fastforce simp: optional_errors_def item_errors_Nil)+

section \<open>Results\<close>

text \<open>C40. Validation against a \<^verbatim>\<open>TypedDict\<close> reports nothing exactly when every required key is
  present and every entry of the state is declared and has its declared type, by the typing
  rules of \<open>has_type\<close>; the required keys are all declared keys when the schema does not
  name them. The keys of the dictionaries are strings.\<close>

theorem validate_typeddict_exact:
  "validate_state (TypedDictSchema (Inr hints) required_keys) state = [] \<longleftrightarrow>
     conforms hints (case required_keys of Some ks \<Rightarrow> set ks | None \<Rightarrow> set (dict_keys hints)) state"
proof -
  let ?opt = "case required_keys of Some ks \<Rightarrow> filter (\<lambda>k. k \<notin> set ks) (dict_keys hints) | None \<Rightarrow> []"
  have opt: "\<forall>k \<in> set ?opt. optional_errors hints state k = []"
    if "\<forall>i \<in> set state. item_errors hints i = []"
    using that by (auto intro!: optional_errors_Nil dest!: map_of_SomeD)
  have req: "(\<forall>k \<in> set (case required_keys of Some ks \<Rightarrow> ks | None \<Rightarrow> dict_keys hints). dict_has state k)
     \<longleftrightarrow> (case required_keys of Some ks \<Rightarrow> set ks | None \<Rightarrow> set (dict_keys hints)) \<subseteq> set (dict_keys state)"
    by (auto simp: dict_has_keys split: option.splits)
  have items: "(\<forall>i \<in> set state. item_errors hints i = []) \<longleftrightarrow>
      (\<forall>(k, v) \<in> set state. \<exists>h. dict_get hints k = Some h \<and> has_type v h)"
    by (auto simp: item_errors_Nil check_type_iff)
  have "validate_state (TypedDictSchema (Inr hints) required_keys) state = [] \<longleftrightarrow>
     (\<forall>k \<in> set (case required_keys of Some ks \<Rightarrow> ks | None \<Rightarrow> dict_keys hints). dict_has state k) \<and>
     (\<forall>i \<in> set state. item_errors hints i = []) \<and> (\<forall>k \<in> set ?opt. optional_errors hints state k = [])"
    by (simp add: validate_state_def validate_typeddict_def Let_def filter_empty_conv)
  then show ?thesis using opt req items unfolding conforms_def by blast
qed

text \<open>A declared key that the schema does not require and whose value has the wrong type is
  reported twice: once as a field and once as an optional field.\<close>

theorem optional_mismatch_reported_twice:
  assumes "dict_ok state" "dict_get state k = Some v" "dict_get hints k = Some h"
    and "\<not> check_type v h" "k \<notin> set required"
  shows "{TypeMismatch k h v, OptionalTypeMismatch k h v}
    \<subseteq> set (validate_state (TypedDictSchema (Inr hints) (Some required)) state)"
proof -
  have "TypeMismatch k h v \<in> set (item_errors hints (k, v))"
    using assms by (simp add: item_errors_def)
  moreover have "(k, v) \<in> set state" using assms by (simp add: dict_get_items)
  moreover have "OptionalTypeMismatch k h v \<in> set (optional_errors hints state k)"
    using assms by (simp add: optional_errors_def)
  moreover have "k \<in> set (filter (\<lambda>k. k \<notin> set required) (dict_keys hints))"
    using assms by (auto simp flip: dict_has_keys simp: dict_has_def)
  ultimately show ?thesis
    by (auto simp: validate_state_def validate_typeddict_def)
qed

theorem optional_mismatch_reported_twice_witness:
  "{TypeMismatch ''n'' (Class IntC) (VStr ''x''), OptionalTypeMismatch ''n'' (Class IntC) (VStr ''x'')}
    \<subseteq> set (validate_state (TypedDictSchema (Inr [(''n'', Class IntC)]) (Some [])) [(''n'', VStr ''x'')])"
  by (rule optional_mismatch_reported_twice) (simp_all add: dict_ok_def isinstance_of_def)

end
