(* ===== verification/Graph_Builder.thy ===== *)
theory Graph_Builder
  imports Graph_Algorithms Graph_State Graph_Merge Graph_Checkpoint Graph_Validation
begin

text \<open>
  How a graph is put together (\<^verbatim>\<open>victor/framework/graph.py\<close>, \<^verbatim>\<open>graph_primitives.py\<close> and the graph
  part of \<^verbatim>\<open>config.py\<close>): the configuration records, edges and nodes, the \<^verbatim>\<open>StateGraph\<close> builder
  with its validation, compilation, and the choice of the next node in a compiled graph.
  Node functions, conditions and the checkpointer are arguments; a condition reads the state
  and does not change it.
\<close>

section \<open>Configuration\<close>

record ExecutionConfig =
  max_iterations :: int
  exec_timeout :: "time option"
  recursion_limit :: int

definition execution_config ::
  "(real \<Rightarrow> string) \<Rightarrow> int \<Rightarrow> time option \<Rightarrow> int \<Rightarrow> ExecutionConfig result" where
  "execution_config show_float max_it tmo rec_limit =
     (if max_it < 1
      then Inl (PyExc ''ValueError'' (''max_iterations must be >= 1, got '' @ show_int max_it))
      else if (case tmo of None \<Rightarrow> False | Some t \<Rightarrow> t < 1 / 10)
      then Inl (PyExc ''ValueError'' (''timeout must be >= 0.1, got '' @ show_float (the tmo)))
      else if rec_limit < 1
      then Inl (PyExc ''ValueError'' (''recursion_limit must be >= 1, got '' @ show_int rec_limit))
      else Inr \<lparr>max_iterations = max_it, exec_timeout = tmo, recursion_limit = rec_limit\<rparr>)"

record 'c CheckpointConfig =
  cfg_checkpointer :: "'c option"
  checkpoint_at_start :: bool
  checkpoint_at_end :: bool
  record_state_history :: bool

record InterruptConfig =
  interrupt_before :: "string list"
  interrupt_after :: "string list"

record PerformanceConfig =
  use_copy_on_write :: "bool option"
  enable_state_caching :: bool
  parallel_state_merge_strategy :: string
  custom_state_merger :: "pyval merger option"

record ObservabilityConfig =
  emit_events :: bool
  log_node_execution :: bool
  cfg_graph_id :: "string option"

record ValidationConfig =
  validation_enabled :: bool
  validation_strict :: bool
  validate_on_entry :: bool
  validate_after_nodes :: bool
  log_errors :: bool

record 'c GraphConfig =
  execution :: ExecutionConfig
  checkpoint :: "'c CheckpointConfig"
  interrupt :: InterruptConfig
  performance :: PerformanceConfig
  observability :: ObservabilityConfig
  validation :: ValidationConfig

definition default_validation :: ValidationConfig where
  "default_validation = \<lparr>validation_enabled = False, validation_strict = False,
     validate_on_entry = True, validate_after_nodes = True, log_errors = True\<rparr>"

text \<open>The legacy keyword arguments; \<open>None\<close> is an absent key, for the last five also a given \<^verbatim>\<open>None\<close>.\<close>

record 'c legacy_kwargs =
  lk_max_iterations :: "int option"
  lk_record_state_history :: "bool option"
  lk_recursion_limit :: "int option"
  lk_interrupt_before :: "string list option"
  lk_interrupt_after :: "string list option"
  lk_merge_strategy :: "string option"
  lk_emit_events :: "bool option"
  lk_timeout :: "time option"
  lk_checkpointer :: "'c option"
  lk_use_copy_on_write :: "bool option"
  lk_custom_merger :: "pyval merger option"
  lk_graph_id :: "string option"

abbreviation opt_or :: "'a option \<Rightarrow> 'a \<Rightarrow> 'a" where
  "opt_or x d \<equiv> (case x of None \<Rightarrow> d | Some v \<Rightarrow> v)"

definition from_legacy :: "(real \<Rightarrow> string) \<Rightarrow> 'c legacy_kwargs \<Rightarrow> 'c GraphConfig result" where
  "from_legacy show_float kw =
     bind_result (execution_config show_float (opt_or (lk_max_iterations kw) 125) (lk_timeout kw)
                    (opt_or (lk_recursion_limit kw) 500)) (\<lambda>ex. Inr
       \<lparr>execution = ex,
        checkpoint = \<lparr>cfg_checkpointer = lk_checkpointer kw, checkpoint_at_start = False,
          checkpoint_at_end = True, record_state_history = opt_or (lk_record_state_history kw) False\<rparr>,
        interrupt = \<lparr>interrupt_before = opt_or (lk_interrupt_before kw) [],
          interrupt_after = opt_or (lk_interrupt_after kw) []\<rparr>,
        performance = \<lparr>use_copy_on_write = lk_use_copy_on_write kw, enable_state_caching = True,
          parallel_state_merge_strategy = opt_or (lk_merge_strategy kw) ''strict'',
          custom_state_merger = lk_custom_merger kw\<rparr>,
        observability = \<lparr>emit_events = opt_or (lk_emit_events kw) True, log_node_execution = False,
          cfg_graph_id = lk_graph_id kw\<rparr>,
        validation = default_validation\<rparr>)"

definition to_legacy_dict :: "'c GraphConfig \<Rightarrow> 'c legacy_kwargs" where
  "to_legacy_dict c =
     \<lparr>lk_max_iterations = Some (max_iterations (execution c)),
      lk_record_state_history = None,
      lk_recursion_limit = Some (recursion_limit (execution c)),
      lk_interrupt_before = Some (interrupt_before (interrupt c)),
      lk_interrupt_after = Some (interrupt_after (interrupt c)),
      lk_merge_strategy = Some (parallel_state_merge_strategy (performance c)),
      lk_emit_events = Some (emit_events (observability c)),
      lk_timeout = exec_timeout (execution c),
      lk_checkpointer = cfg_checkpointer (checkpoint c),
      lk_use_copy_on_write = use_copy_on_write (performance c),
      lk_custom_merger = custom_state_merger (performance c),
      lk_graph_id = cfg_graph_id (observability c)\<rparr>"

section \<open>Edges and nodes\<close>

definition END :: string where
  "END = ''__end__''"

datatype EdgeType = NORMAL | CONDITIONAL

record Send =
  send_node :: string
  send_state :: state
  join_at :: "string option"

text \<open>
  What a condition returns: a string, a list (of directives, when it is not empty), or
  another hashable value.
\<close>

datatype cond_value = CStr string | CList "Send list" | COther

datatype edge_target = ToNode string | Branches "(string, string) dict"

record Edge =
  edge_source :: string
  edge_target :: edge_target
  edge_type :: EdgeType
  edge_condition :: "(state \<Rightarrow> cond_value result) option"

datatype next_target = To string | Fan "string list" | Sends "Send list"

text \<open>What \<^verbatim>\<open>get_target\<close> makes of the condition's result: directives are returned as they are,
  anything else is looked up among the branches, where an unhashable list raises.\<close>

fun branch_target :: "edge_target \<Rightarrow> cond_value \<Rightarrow> next_target option result" where
  "branch_target tgt (CList (s # sends)) = Inr (Some (Sends (s # sends)))"
| "branch_target (Branches bs) (CList []) =
     Inl (PyExc ''TypeError'' (''unhashable type: '' @ quoted ''list''))"
| "branch_target (Branches bs) (CStr branch) = Inr (map_option To (dict_get bs branch))"
| "branch_target (Branches bs) COther = Inr None"
| "branch_target (ToNode t) result = Inr None"

definition get_target :: "Edge \<Rightarrow> state \<Rightarrow> next_target option result" where
  "get_target e state =
     (case edge_type e of
        NORMAL \<Rightarrow> Inr (case edge_target e of ToNode t \<Rightarrow> Some (To t) | Branches _ \<Rightarrow> None)
      | CONDITIONAL \<Rightarrow>
          (case edge_condition e of
             None \<Rightarrow> Inr None
           | Some condition \<Rightarrow> bind_result (condition state) (branch_target (edge_target e))))"

text \<open>
  A node is its function, called with a copy-on-write wrapper or with the state itself, at a
  time and with the remaining time budget. A call says how long it took, what became of the
  argument, and what it returned or raised; a raised exception may carry a \<^verbatim>\<open>result_state\<close>.
  Without a wrapper a node returns a dictionary, as its signature says.
\<close>

datatype node_exc = NodeExc py_exc "pyval option"

datatype cow_value = RetCow CopyOnWriteState | RetDict state | RetOther

record cow_return =
  cr_elapsed :: time
  cr_wrapper :: CopyOnWriteState
  cr_outcome :: "node_exc + cow_value"

record plain_return =
  pr_elapsed :: time
  pr_argument :: state
  pr_outcome :: "node_exc + state"

record Node =
  n_id :: string
  func_cow :: "time \<Rightarrow> time option \<Rightarrow> CopyOnWriteState \<Rightarrow> cow_return"
  func_plain :: "time \<Rightarrow> time option \<Rightarrow> state \<Rightarrow> plain_return"
  n_metadata :: state

section \<open>The builder\<close>

record StateGraph =
  sg_schema :: schema
  sg_nodes :: "(string, Node) dict"
  sg_edges :: "(string, Edge list) dict"
  sg_entry :: "string option"
  sg_metadata :: state
  sg_merger :: "pyval merger option"

definition sg_init :: "schema \<Rightarrow> state option \<Rightarrow> StateGraph" where
  "sg_init sch meta = \<lparr>sg_schema = sch, sg_nodes = [], sg_edges = [], sg_entry = None,
     sg_metadata = opt_or meta [], sg_merger = None\<rparr>"

text \<open>\<^verbatim>\<open>add_node\<close>, and \<^verbatim>\<open>add_subgraph\<close> with the subgraph's \<^verbatim>\<open>execute\<close> as the node function.\<close>

definition add_node :: "Node \<Rightarrow> StateGraph \<Rightarrow> StateGraph result" where
  "add_node node g =
     (if dict_has (sg_nodes g) (n_id node)
      then Inl (PyExc ''ValueError'' (''Node '' @ quoted (n_id node) @ '' already exists''))
      else Inr (g\<lparr>sg_nodes := dict_set (n_id node) node (sg_nodes g)\<rparr>))"

definition node_ids :: "StateGraph \<Rightarrow> string list" where
  "node_ids g = dict_keys (sg_nodes g)"

text \<open>\<^verbatim>\<open>self._edges.setdefault(source, []).append(edge)\<close>, as both edge methods do it.\<close>

definition append_edge :: "Edge \<Rightarrow> StateGraph \<Rightarrow> StateGraph" where
  "append_edge e g =
     (let edges = (if dict_has (sg_edges g) (edge_source e) then sg_edges g
                   else dict_set (edge_source e) [] (sg_edges g))
      in g\<lparr>sg_edges := dict_set (edge_source e)
             (dict_get_or edges (edge_source e) [] @ [e]) edges\<rparr>)"

definition add_edge :: "string \<Rightarrow> string \<Rightarrow> StateGraph \<Rightarrow> StateGraph" where
  "add_edge source target =
     append_edge \<lparr>edge_source = source, edge_target = ToNode target, edge_type = NORMAL,
                  edge_condition = None\<rparr>"

definition add_conditional_edge ::
  "string \<Rightarrow> (state \<Rightarrow> cond_value result) \<Rightarrow> (string, string) dict \<Rightarrow> StateGraph \<Rightarrow> StateGraph" where
  "add_conditional_edge source condition branches =
     append_edge \<lparr>edge_source = source, edge_target = Branches branches, edge_type = CONDITIONAL,
                  edge_condition = Some condition\<rparr>"

definition add_state_merger :: "pyval merger \<Rightarrow> StateGraph \<Rightarrow> StateGraph" where
  "add_state_merger func g = g\<lparr>sg_merger := Some func\<rparr>"

definition set_entry_point :: "string \<Rightarrow> StateGraph \<Rightarrow> StateGraph result" where
  "set_entry_point node g =
     (if \<not> dict_has (sg_nodes g) node
      then Inl (PyExc ''ValueError'' (''Node '' @ quoted node @ '' not found''))
      else Inr (g\<lparr>sg_entry := Some node\<rparr>))"

definition set_finish_point :: "string \<Rightarrow> StateGraph \<Rightarrow> StateGraph" where
  "set_finish_point node = add_edge node END"

subsection \<open>Validation\<close>

definition targets_of :: "Edge \<Rightarrow> string list" where
  "targets_of e = (case edge_target e of ToNode t \<Rightarrow> [t] | Branches bs \<Rightarrow> dict_values bs)"

definition graph_adjacency :: "(string, Edge list) dict \<Rightarrow> adjacency" where
  "graph_adjacency edges =
     build_adjacency_from_edges edges (Some (\<lambda>e. TargetList (targets_of e))) (\<lambda>_. None)"

text \<open>\<^verbatim>\<open>if not self._entry_point\<close>: none set, or the empty string.\<close>

definition entry_of :: "StateGraph \<Rightarrow> string option" where
  "entry_of g = (case sg_entry g of Some [] \<Rightarrow> None | e \<Rightarrow> e)"

definition sg_reachable :: "StateGraph \<Rightarrow> string list" where
  "sg_reachable g =
     (case entry_of g of
        None \<Rightarrow> []
      | Some entry \<Rightarrow> find_reachable entry (graph_adjacency (sg_edges g)) (Some END))"

datatype graph_error =
    NoNodes | NoEntryPoint | EntryNotFound string | SourceNotFound string | TargetNotFound string
  | BranchTargetNotFound string string | Unreachable string

definition graph_error_text :: "graph_error \<Rightarrow> string" where
  "graph_error_text e =
     (case e of
        NoNodes \<Rightarrow> ''Graph has no nodes''
      | NoEntryPoint \<Rightarrow> ''No entry point set''
      | EntryNotFound n \<Rightarrow> ''Entry point '' @ quoted n @ '' not found''
      | SourceNotFound n \<Rightarrow> ''Edge source '' @ quoted n @ '' not found''
      | TargetNotFound n \<Rightarrow> ''Edge target '' @ quoted n @ '' not found''
      | BranchTargetNotFound n b \<Rightarrow>
          ''Conditional target '' @ quoted n @ '' not found (branch: '' @ b @ '')''
      | Unreachable n \<Rightarrow> ''Node '' @ quoted n @ '' is unreachable'')"

definition edge_errors :: "(string, Node) dict \<Rightarrow> Edge \<Rightarrow> graph_error list" where
  "edge_errors nodes e =
     (case edge_target e of
        ToNode t \<Rightarrow> if t \<noteq> END \<and> \<not> dict_has nodes t then [TargetNotFound t] else []
      | Branches bs \<Rightarrow>
          concat (map (\<lambda>(branch, t).
            if t \<noteq> END \<and> \<not> dict_has nodes t then [BranchTargetNotFound t branch] else []) bs))"

definition sg_validate :: "StateGraph \<Rightarrow> graph_error list" where
  "sg_validate g =
     (if sg_nodes g = [] then [NoNodes] else []) @
     (case entry_of g of
        None \<Rightarrow> [NoEntryPoint]
      | Some entry \<Rightarrow> if \<not> dict_has (sg_nodes g) entry then [EntryNotFound entry] else []) @
     concat (map (\<lambda>(source, edges).
       (if \<not> dict_has (sg_nodes g) source then [SourceNotFound source] else []) @
       concat (map (edge_errors (sg_nodes g)) edges)) (sg_edges g)) @
     map Unreachable (filter (\<lambda>n. n \<notin> set (sg_reachable g) \<and> Some n \<noteq> sg_entry g)
       (dict_keys (sg_nodes g)))"

definition validation_warnings :: "StateGraph \<Rightarrow> string list" where
  "validation_warnings g =
     map (\<lambda>n. ''Node '' @ quoted n @ '' has no outgoing edges and will terminate implicitly'')
       (filter (\<lambda>n. n \<noteq> END \<and> dict_get_or (sg_edges g) n [] = []) (sg_reachable g))"

section \<open>Compiled graphs\<close>

record 'c CompiledGraph =
  cg_nodes :: "(string, Node) dict"
  cg_edges :: "(string, Edge list) dict"
  cg_entry :: string
  cg_schema :: schema
  cg_config :: "'c GraphConfig"
  cg_strict_edges :: bool
  cg_sequential_fanout :: bool
  cg_merger :: "pyval merger"

definition ordinary_fanout :: "Edge list \<Rightarrow> bool" where
  "ordinary_fanout edges \<longleftrightarrow> length edges > 1 \<and> list_all (\<lambda>e. edge_type e = NORMAL) edges"

text \<open>The adjacency with sets of targets that the constructor searches for cycles.\<close>

definition cycle_adjacency :: "(string, Edge list) dict \<Rightarrow> adjacency" where
  "cycle_adjacency edges = map (\<lambda>(source, es). (source, remdups (concat (map targets_of es)))) edges"

definition cg_init ::
  "pyval comparison \<Rightarrow> (string, Node) dict \<Rightarrow> (string, Edge list) dict \<Rightarrow> string \<Rightarrow> schema \<Rightarrow>
   'c GraphConfig \<Rightarrow> bool \<Rightarrow> 'c CompiledGraph result" where
  "cg_init ne nodes edges entry sch config strict =
     (let seq = list_ex (\<lambda>(source, es). ordinary_fanout es) edges
      in if seq \<and> (case detect_cycle (dict_keys nodes) (cycle_adjacency edges) of
                      Cycle ws \<Rightarrow> ws \<noteq> [] | _ \<Rightarrow> False)
         then Inl (PyExc ''ValueError''
           (''Graphs combining cycles with multiple ordinary outgoing edges are '' @
            ''unsupported; sequential fan-out requires an acyclic graph''))
         else bind_result
           (resolve_state_merger ne (parallel_state_merge_strategy (performance config))
              (custom_state_merger (performance config))) (\<lambda>merger. Inr
             \<lparr>cg_nodes = nodes, cg_edges = edges, cg_entry = entry, cg_schema = sch,
              cg_config = config, cg_strict_edges = strict, cg_sequential_fanout = seq,
              cg_merger = merger\<rparr>))"

definition compile ::
  "(real \<Rightarrow> string) \<Rightarrow> pyval comparison \<Rightarrow> 'c option \<Rightarrow> bool \<Rightarrow> 'c legacy_kwargs \<Rightarrow> StateGraph \<Rightarrow>
   'c CompiledGraph result" where
  "compile show_float ne cp strict kw g =
     (if sg_validate g \<noteq> []
      then Inl (PyExc ''ValueError''
        (''Invalid graph: '' @ py_join ''; '' (map graph_error_text (sg_validate g))))
      else bind_result (from_legacy show_float (kw\<lparr>lk_checkpointer := cp\<rparr>)) (\<lambda>config.
           bind_result (cg_init ne (sg_nodes g) (sg_edges g) (opt_or (sg_entry g) []) (sg_schema g)
                          config strict) (\<lambda>compiled.
           Inr (case sg_merger g of None \<Rightarrow> compiled | Some m \<Rightarrow> compiled\<lparr>cg_merger := m\<rparr>))))"

subsection \<open>The next node\<close>

text \<open>The first edge whose target is neither \<^verbatim>\<open>None\<close> nor empty.\<close>

fun first_target :: "Edge list \<Rightarrow> state \<Rightarrow> next_target option result" where
  "first_target [] state = Inr None"
| "first_target (e # es) state =
     bind_result (get_target e state) (\<lambda>target.
       case target of
         None \<Rightarrow> first_target es state
       | Some t \<Rightarrow> if t = To [] then first_target es state else Inr (Some t))"

text \<open>
  \<open>error_text\<close> is the \<^verbatim>\<open>str()\<close> of the framework's exceptions, which puts a correlation
  identifier before the message.
\<close>

definition get_next_node ::
  "(string \<Rightarrow> string) \<Rightarrow> 'c CompiledGraph \<Rightarrow> string \<Rightarrow> state \<Rightarrow> next_target result" where
  "get_next_node error_text g current state =
     (let edges = dict_get_or (cg_edges g) current []
      in if edges = [] then Inr (To END)
         else if ordinary_fanout edges
         then Inr (Fan (concat (map (\<lambda>e. case edge_target e of ToNode t \<Rightarrow> [t] | Branches _ \<Rightarrow> []) edges)))
         else bind_result (first_target edges state) (\<lambda>target.
           case target of
             Some t \<Rightarrow> Inr t
           | None \<Rightarrow>
               (if cg_strict_edges g
                then Inl (PyExc ''EdgeResolutionError'' (error_text
                  (''No conditional edge from '' @ quoted current @ '' matched the current state. '' @
                   ''Use strict_edges=False to allow fallthrough.'')))
                else if edge_type (hd edges) = NORMAL
                then Inr (To (case edge_target (hd edges) of ToNode t \<Rightarrow> t | Branches _ \<Rightarrow> END))
                else Inr (To END))))"

text \<open>\<^verbatim>\<open>get_graph_schema\<close>.\<close>

record graph_schema =
  gs_nodes :: "string list"
  gs_edges :: "(string, (edge_target \<times> EdgeType) list) dict"
  gs_entry :: string

definition get_graph_schema :: "'c CompiledGraph \<Rightarrow> graph_schema" where
  "get_graph_schema g =
     \<lparr>gs_nodes = dict_keys (cg_nodes g),
      gs_edges = map (\<lambda>(src, es). (src, map (\<lambda>e. (edge_target e, edge_type e)) es)) (cg_edges g),
      gs_entry = cg_entry g\<rparr>"

section \<open>The builder keeps its registries in order\<close>

definition sg_ok :: "StateGraph \<Rightarrow> bool" where
  "sg_ok g \<longleftrightarrow>
     dict_ok (sg_nodes g) \<and> dict_ok (sg_edges g) \<and>
     (\<forall>k n. dict_get (sg_nodes g) k = Some n \<longrightarrow> n_id n = k) \<and>
     (\<forall>src es e. dict_get (sg_edges g) src = Some es \<longrightarrow> e \<in> set es \<longrightarrow> edge_source e = src) \<and>
     (\<forall>entry. sg_entry g = Some entry \<longrightarrow> dict_has (sg_nodes g) entry)"

datatype builder_call =
    AddNode Node | AddEdge string string
  | AddConditionalEdge string "state \<Rightarrow> cond_value result" "(string, string) dict"
  | AddStateMerger "pyval merger" | SetEntryPoint string | SetFinishPoint string

text \<open>A call on the builder; a call that raises leaves it as it was.\<close>

definition builder_step :: "builder_call \<Rightarrow> StateGraph \<Rightarrow> StateGraph" where
  "builder_step call g =
     (case call of
        AddNode n \<Rightarrow> (case add_node n g of Inr g' \<Rightarrow> g' | Inl _ \<Rightarrow> g)
      | AddEdge s t \<Rightarrow> add_edge s t g
      | AddConditionalEdge s c bs \<Rightarrow> add_conditional_edge s c bs g
      | AddStateMerger m \<Rightarrow> add_state_merger m g
      | SetEntryPoint n \<Rightarrow> (case set_entry_point n g of Inr g' \<Rightarrow> g' | Inl _ \<Rightarrow> g)
      | SetFinishPoint n \<Rightarrow> set_finish_point n g)"

lemma append_edge_get:
  "dict_get (sg_edges (append_edge e g)) src =
     (if src = edge_source e then Some (dict_get_or (sg_edges g) src [] @ [e])
      else dict_get (sg_edges g) src)"
  by (simp add: append_edge_def Let_def dict_simps dict_get_or_def dict_has_def)

lemma append_edge_frame:
  "sg_nodes (append_edge e g) = sg_nodes g" "sg_entry (append_edge e g) = sg_entry g"
  "dict_ok (sg_edges g) \<Longrightarrow> dict_ok (sg_edges (append_edge e g))"
  by (simp_all add: append_edge_def Let_def)

lemma append_edge_ok: "sg_ok g \<Longrightarrow> sg_ok (append_edge e g)"
  by (cases "dict_get (sg_edges g) (edge_source e)")
    (auto simp: sg_ok_def append_edge_frame append_edge_get dict_get_or_def split: if_splits)

lemma add_node_ok: "sg_ok g \<Longrightarrow> add_node n g = Inr g' \<Longrightarrow> sg_ok g'"
  by (auto simp: add_node_def sg_ok_def dict_simps split: if_splits)

lemma set_entry_ok: "sg_ok g \<Longrightarrow> set_entry_point n g = Inr g' \<Longrightarrow> sg_ok g'"
  by (auto simp: set_entry_point_def sg_ok_def split: if_splits)

lemma builder_step_ok: "sg_ok g \<Longrightarrow> sg_ok (builder_step call g)"
  by (cases call)
    (auto simp: builder_step_def add_edge_def add_conditional_edge_def set_finish_point_def
      append_edge_ok add_state_merger_def sg_ok_def [of "_\<lparr>sg_merger := _\<rparr>"] sg_ok_def [of g, THEN iffD1]
      intro: add_node_ok set_entry_ok split: sum.splits)

interpretation builder: invariant_machine builder_step sg_ok
  by unfold_locales (rule builder_step_ok)

section \<open>Validation and the next node\<close>

definition wf_edges :: "(string, Node) dict \<Rightarrow> (string, Edge list) dict \<Rightarrow> bool" where
  "wf_edges nodes edges \<longleftrightarrow>
     (\<forall>(src, es) \<in> set edges. dict_has nodes src \<and>
        (\<forall>e \<in> set es. \<forall>t \<in> set (targets_of e). t = END \<or> dict_has nodes t))"

lemma edge_errors_Nil: "edge_errors nodes e = [] \<longleftrightarrow> (\<forall>t \<in> set (targets_of e). t = END \<or> dict_has nodes t)"
  by (cases "edge_target e")
    (simp_all add: edge_errors_def targets_of_def dict_values_def split_beta Ball_def, blast)

lemma wf_edgesD:
  "wf_edges nodes edges \<Longrightarrow> (src, es) \<in> set edges \<Longrightarrow>
     \<forall>e \<in> set es. \<forall>t \<in> set (targets_of e). t = END \<or> dict_has nodes t"
  unfolding wf_edges_def by (drule (1) bspec) simp

text \<open>The edges of the graph as a relation, without those into the end token.\<close>

definition sg_steps :: "StateGraph \<Rightarrow> (string \<times> string) set" where
  "sg_steps g = {(a, b). b \<noteq> END \<and>
     (\<exists>e \<in> set (dict_get_or (sg_edges g) a []). b \<in> set (targets_of e))}"

lemma step_rel_graph:
  "dict_ok (sg_edges g) \<Longrightarrow> step_rel (graph_adjacency (sg_edges g)) (Some END) = sg_steps g"
  by (auto simp: step_rel_def sg_steps_def graph_adjacency_def neighbours_build_adjacency edge_targets_def)

lemma sg_validate_Nil:
  assumes "sg_ok g"
  shows "sg_validate g = [] \<longleftrightarrow>
    (\<exists>entry. sg_entry g = Some entry \<and> entry \<noteq> [] \<and> wf_edges (sg_nodes g) (sg_edges g) \<and>
       (\<forall>n. dict_has (sg_nodes g) n \<longrightarrow> n = entry \<or> entry \<noteq> END \<and> (entry, n) \<in> (sg_steps g)\<^sup>*))"
proof (cases "entry_of g")
  case None
  then show ?thesis by (auto simp: sg_validate_def entry_of_def split: option.splits list.splits)
next
  case (Some entry)
  then have entry: "sg_entry g = Some entry" "entry \<noteq> []"
    by (auto simp: entry_of_def split: option.splits list.splits)
  then have has: "dict_has (sg_nodes g) entry" using assms by (simp add: sg_ok_def)
  then have ne: "sg_nodes g \<noteq> []" by (auto simp: dict_has_def)
  have reach: "set (sg_reachable g) = (if entry = END then {} else (sg_steps g)\<^sup>* `` {entry})"
    using Some assms step_rel_graph [of g] by (simp add: sg_reachable_def find_reachable_set sg_ok_def)
  have "sg_validate g = [] \<longleftrightarrow> wf_edges (sg_nodes g) (sg_edges g) \<and>
      (\<forall>n. dict_has (sg_nodes g) n \<longrightarrow> n \<in> set (sg_reachable g) \<or> n = entry)"
    using ne has entry Some
    by (simp add: sg_validate_def wf_edges_def edge_errors_Nil filter_empty_conv dict_has_keys split_beta) blast
  also have "\<dots> \<longleftrightarrow> wf_edges (sg_nodes g) (sg_edges g) \<and>
       (\<forall>n. dict_has (sg_nodes g) n \<longrightarrow> n = entry \<or> entry \<noteq> END \<and> (entry, n) \<in> (sg_steps g)\<^sup>*)"
    by (auto simp: reach)
  finally show ?thesis using entry by simp
qed

lemma branch_target_To:
  "branch_target tgt r = Inr (Some x) \<Longrightarrow>
     (\<exists>bs t. tgt = Branches bs \<and> x = To t \<and> t \<in> set (dict_values bs)) \<or> (\<exists>ss. x = Sends ss)"
  by (induction tgt r rule: branch_target.induct) (force simp: dict_values_def dest!: map_of_SomeD)+

lemma get_target_cases:
  "get_target e state = Inr (Some x) \<Longrightarrow> (\<exists>t. x = To t \<and> t \<in> set (targets_of e)) \<or> (\<exists>ss. x = Sends ss)"
  by (auto simp: get_target_def targets_of_def bind_result_eq_Inr
      split: EdgeType.splits edge_target.splits option.splits dest!: branch_target_To)

lemma first_target_To:
  "first_target es state = Inr (Some t) \<Longrightarrow>
     \<exists>e \<in> set es. get_target e state = Inr (Some t) \<and> t \<noteq> To []"
  by (induction es) (auto simp: bind_result_eq_Inr split: option.splits if_splits)

definition targets_ok :: "(string, Node) dict \<Rightarrow> next_target \<Rightarrow> bool" where
  "targets_ok nodes t =
     (case t of
        To n \<Rightarrow> n = END \<or> dict_has nodes n
      | Fan ns \<Rightarrow> list_all (\<lambda>n. n = END \<or> dict_has nodes n) ns
      | Sends _ \<Rightarrow> True)"

lemma get_next_node_wf:
  assumes wf: "wf_edges (cg_nodes g) (cg_edges g)" and nxt: "get_next_node et g n state = Inr t"
  shows "targets_ok (cg_nodes g) t"
proof -
  let ?es = "dict_get_or (cg_edges g) n []"
  have ok: "\<forall>e \<in> set ?es. \<forall>t \<in> set (targets_of e). t = END \<or> dict_has (cg_nodes g) t"
    by (cases "dict_get (cg_edges g) n")
      (auto simp: dict_get_or_def dest!: map_of_SomeD wf_edgesD [OF wf])
  consider "?es = []" | "ordinary_fanout ?es" | "?es \<noteq> []" "\<not> ordinary_fanout ?es" by blast
  then show ?thesis
  proof cases
    case 1
    with nxt show ?thesis by (auto simp: get_next_node_def targets_ok_def)
  next
    case 2
    then have "?es \<noteq> []" by (auto simp: ordinary_fanout_def)
    with 2 nxt have "t = Fan (concat (map (\<lambda>e. case edge_target e of ToNode t \<Rightarrow> [t] | Branches _ \<Rightarrow> []) ?es))"
      by (simp add: get_next_node_def Let_def)
    with ok show ?thesis by (auto simp: targets_ok_def list_all_iff targets_of_def split: edge_target.splits)
  next
    case 3
    then obtain r where r: "first_target ?es state = Inr r" using nxt
      by (cases "first_target ?es state") (auto simp: get_next_node_def Let_def)
    show ?thesis
    proof (cases r)
      case None
      have "\<forall>t \<in> set (targets_of (hd ?es)). t = END \<or> dict_has (cg_nodes g) t"
        using ok list.set_sel(1) [OF 3(1)] by (rule bspec)
      with 3 nxt r None show ?thesis
        by (cases "edge_target (hd ?es)")
          (auto simp: get_next_node_def Let_def targets_ok_def targets_of_def split: if_splits)
    next
      case (Some x)
      with r have "\<exists>e \<in> set ?es. (\<exists>n. x = To n \<and> n \<in> set (targets_of e)) \<or> (\<exists>ss. x = Sends ss)"
        using first_target_To get_target_cases by blast
      moreover have "t = x" using 3 nxt r Some by (simp add: get_next_node_def Let_def)
      ultimately show ?thesis using ok by (auto simp: targets_ok_def)
    qed
  qed
qed

lemma cycle_adjacency_neighbours:
  "neighbours (cycle_adjacency edges) n = remdups (concat (map targets_of (dict_get_or edges n [])))"
  by (simp add: cycle_adjacency_def neighbours_def dict_get_or_def map_of_map [of "\<lambda>es. remdups (concat (map targets_of es))", simplified split_beta]
      split: option.splits)

lemma compile_parts:
  assumes "compile sf ne cp strict kw g = Inr cg"
  shows "sg_validate g = []" and "cg_nodes cg = sg_nodes g" and "cg_edges cg = sg_edges g"
    and "Some (cg_entry cg) = sg_entry g \<or> sg_entry g = None"
    and "cg_sequential_fanout cg \<longleftrightarrow> list_ex (\<lambda>(s, es). ordinary_fanout es) (sg_edges g)"
    and "cg_sequential_fanout cg \<longrightarrow>
      \<not> (\<exists>ws. ws \<noteq> [] \<and> detect_cycle (dict_keys (sg_nodes g)) (cycle_adjacency (sg_edges g)) = Cycle ws)"
  using assms
  by (auto simp: compile_def cg_init_def Let_def bind_result_eq_Inr
      split: if_splits option.splits dfs_outcome.splits)

text \<open>Only a graph with an ordinary fan-out answers with a tuple, and it knows that it does.\<close>

lemma no_stray_fan:
  assumes "compile sf ne cp strict kw g = Inr cg" and nxt: "get_next_node et cg n state = Inr (Fan ns)"
  shows "cg_sequential_fanout cg"
proof -
  let ?es = "dict_get_or (cg_edges cg) n []"
  have "first_target ?es state \<noteq> Inr (Some (Fan ns))"
    using first_target_To [of ?es state "Fan ns"] get_target_cases by blast
  with nxt have fan: "?es \<noteq> []" "ordinary_fanout ?es"
    by (auto simp: get_next_node_def Let_def bind_result_eq_Inr split: if_splits option.splits)
  then obtain es where "dict_get (cg_edges cg) n = Some es" "ordinary_fanout es"
    by (auto simp: dict_get_or_def split: option.splits)
  then show ?thesis
    using compile_parts(3,5) [OF assms(1)] by (force simp: list_ex_iff dest: map_of_SomeD)
qed

lemma detect_cycle_nonempty: "detect_cycle nodes adj \<noteq> Cycle []"
proof -
  have "fst (dfs_loop adj node xs c p) \<noteq> Cycle []" for node xs c p
    by (induction adj node xs c p rule: dfs_loop.induct)
      (auto simp: reconstruct_cycle_def split: option.splits color.splits dfs_outcome.splits prod.splits)
  then have "dfs_nodes adj ns c p \<noteq> Cycle []" for ns c p
    by (induction adj ns c p rule: dfs_nodes.induct)
      (auto simp: dfs_visit_def split: dfs_outcome.splits prod.splits, metis fst_conv)
  then show ?thesis by (simp add: detect_cycle_def)
qed

section \<open>Results\<close>

text \<open>Whatever calls are made on a fresh builder, raising ones included, its registries stay
  in order: node and edge keys occur once, every node is stored under its own id and every
  edge under its source, and the entry point is a node.\<close>

theorem builder_invariant:
  "sg_ok (fold builder_step calls (sg_init sch meta))"
  by (rule builder.run_inv) (simp add: sg_ok_def sg_init_def)

text \<open>C8. For such a builder, validation reports nothing exactly when an entry point with a
  non-empty id is set, every edge starts at a node and leads to nodes or the end token, and
  every node is the entry point or reachable from it along edges that avoid the end token.\<close>

theorem validate_exact:
  assumes "sg_ok g"
  shows "sg_validate g = [] \<longleftrightarrow>
    (\<exists>entry. sg_entry g = Some entry \<and> entry \<noteq> [] \<and> wf_edges (sg_nodes g) (sg_edges g) \<and>
       (\<forall>n. dict_has (sg_nodes g) n \<longrightarrow> n = entry \<or> entry \<noteq> END \<and> (entry, n) \<in> (sg_steps g)\<^sup>*))"
  by (rule sg_validate_Nil [OF assms])

definition sample_node :: "string \<Rightarrow> Node" where
  "sample_node n =
     \<lparr>n_id = n,
      func_cow = (\<lambda>t rem w. \<lparr>cr_elapsed = 1, cr_wrapper = w, cr_outcome = Inr (RetDict (get_state w @ [(n, VNone)]))\<rparr>),
      func_plain = (\<lambda>t rem s. \<lparr>pr_elapsed = 1, pr_argument = s, pr_outcome = Inr (s @ [(n, VNone)])\<rparr>),
      n_metadata = []\<rparr>"

definition sample_graph :: StateGraph where
  "sample_graph = fold builder_step
     [AddNode (sample_node ''a''), AddNode (sample_node ''b''), AddEdge ''a'' ''b'', SetFinishPoint ''b'',
      SetEntryPoint ''a''] (sg_init NoSchema None)"

theorem validate_exact_witness:
  "sg_validate sample_graph = [] \<and>
   (\<exists>entry. sg_entry sample_graph = Some entry \<and> wf_edges (sg_nodes sample_graph) (sg_edges sample_graph))"
proof -
  have "sg_ok sample_graph" unfolding sample_graph_def
    by (rule builder.run_inv) (simp add: sg_ok_def sg_init_def)
  moreover have "sg_validate sample_graph = []" by code_simp
  ultimately show ?thesis using validate_exact [of sample_graph] by blast
qed

text \<open>C7. In a compiled graph the next node is never a dangling name: a single successor is the
  end token or a node of the graph, and so is every member of an ordinary fan-out.\<close>

theorem compiled_next_node_exists:
  assumes "sg_ok g" and "compile sf ne cp strict kw g = Inr cg"
    and "get_next_node et cg current state = Inr target"
  shows "targets_ok (cg_nodes cg) target"
proof (rule get_next_node_wf [OF _ assms(3)])
  show "wf_edges (cg_nodes cg) (cg_edges cg)"
    using compile_parts(1-3) [OF assms(2)] sg_validate_Nil [OF assms(1)] by auto
qed

definition sample_kwargs :: "'c legacy_kwargs" where
  "sample_kwargs = \<lparr>lk_max_iterations = None, lk_record_state_history = None, lk_recursion_limit = None,
     lk_interrupt_before = None, lk_interrupt_after = None, lk_merge_strategy = None,
     lk_emit_events = None, lk_timeout = None, lk_checkpointer = None, lk_use_copy_on_write = None,
     lk_custom_merger = None, lk_graph_id = None\<rparr>"

definition sample_compiled :: "unit CompiledGraph" where
  "sample_compiled =
     (case compile (\<lambda>_. []) (\<lambda>x y. Some (x \<noteq> y)) None False sample_kwargs sample_graph of
        Inr cg \<Rightarrow> cg | Inl _ \<Rightarrow> undefined)"

lemma sample_compiled:
  "compile (\<lambda>_. []) (\<lambda>x y. Some (x \<noteq> y)) None False sample_kwargs sample_graph = Inr sample_compiled"
proof -
  have v: "sg_validate sample_graph = []" by code_simp
  have f: "list_ex (\<lambda>(s, es). ordinary_fanout es) (sg_edges sample_graph) = False" by code_simp
  show ?thesis
    by (simp add: sample_compiled_def compile_def v from_legacy_def execution_config_def sample_kwargs_def
        cg_init_def f resolve_state_merger_def Let_def split: option.splits)
qed

theorem compiled_next_node_exists_witness:
  "\<exists>target. get_next_node id sample_compiled ''a'' [] = Inr target \<and> targets_ok (cg_nodes sample_compiled) target"
proof -
  have ok: "sg_ok sample_graph" unfolding sample_graph_def
    by (rule builder.run_inv) (simp add: sg_ok_def sg_init_def)
  have "cg_edges sample_compiled = sg_edges sample_graph" by (rule compile_parts(3) [OF sample_compiled])
  moreover have "dict_get_or (sg_edges sample_graph) ''a'' [] =
      [\<lparr>edge_source = ''a'', edge_target = ToNode ''b'', edge_type = NORMAL, edge_condition = None\<rparr>]"
    by (simp add: sample_graph_def builder_step_def add_node_def add_edge_def set_finish_point_def END_def
        set_entry_point_def sg_init_def sample_node_def append_edge_def dict_has_def dict_get_or_def)
  ultimately have "get_next_node id sample_compiled ''a'' [] = Inr (To ''b'')"
    by (simp add: get_next_node_def ordinary_fanout_def get_target_def)
  with compiled_next_node_exists [OF ok sample_compiled] show ?thesis by blast
qed

text \<open>Compilation refuses a graph that combines a cycle with ordinary fan-out: where a
  compiled graph uses sequential fan-out, its edges between nodes are acyclic.\<close>

theorem compiled_fanout_acyclic:
  assumes "compile sf ne cp strict kw g = Inr cg" and "cg_sequential_fanout cg"
  shows "acyclic (edges_in (dict_keys (cg_nodes cg)) (cycle_adjacency (cg_edges cg)))"
proof -
  let ?r = "detect_cycle (dict_keys (sg_nodes g)) (cycle_adjacency (sg_edges g))"
  have "?r \<noteq> Stuck" by (rule detect_cycle_not_stuck)
  moreover have "?r \<noteq> Cycle ws" for ws
    using compile_parts(6) [OF assms(1)] assms(2) detect_cycle_nonempty [of "dict_keys (sg_nodes g)"]
    by (cases "ws = []") auto
  ultimately have "?r = NoCycle" by (cases ?r) auto
  then show ?thesis using detect_cycle_NoCycle_iff compile_parts(2,3) [OF assms(1)] by metis
qed

definition fanout_graph :: StateGraph where
  "fanout_graph = fold builder_step
     [AddNode (sample_node ''a''), AddNode (sample_node ''b''), AddNode (sample_node ''c''),
      AddEdge ''a'' ''b'', AddEdge ''a'' ''c'', AddEdge ''b'' ''c'', SetEntryPoint ''a'']
     (sg_init NoSchema None)"

theorem compiled_fanout_acyclic_witness:
  "\<exists>cg :: unit CompiledGraph.
     compile (\<lambda>_. []) (\<lambda>x y. Some (x \<noteq> y)) None False sample_kwargs fanout_graph = Inr cg \<and>
     cg_sequential_fanout cg \<and>
     acyclic (edges_in (dict_keys (cg_nodes cg)) (cycle_adjacency (cg_edges cg)))"
proof -
  have v: "sg_validate fanout_graph = []" by code_simp
  have f: "list_ex (\<lambda>(s, es). ordinary_fanout es) (sg_edges fanout_graph) = True" by code_simp
  have c: "detect_cycle (dict_keys (sg_nodes fanout_graph)) (cycle_adjacency (sg_edges fanout_graph)) = NoCycle"
    by code_simp
  have "\<exists>cg :: unit CompiledGraph.
     compile (\<lambda>_. []) (\<lambda>x y. Some (x \<noteq> y)) None False sample_kwargs fanout_graph = Inr cg \<and>
     cg_sequential_fanout cg"
    by (simp add: compile_def v from_legacy_def execution_config_def sample_kwargs_def
        cg_init_def f c resolve_state_merger_def Let_def split: option.splits)
  then show ?thesis using compiled_fanout_acyclic by blast
qed

text \<open>Converting a configuration to its legacy form and back succeeds for limits the
  constructor accepts, and keeps it except for what the legacy form does not carry: the state
  history flag, the two unused checkpoint flags, state caching, node logging and validation
  return to their defaults.\<close>

theorem legacy_config_roundtrip:
  assumes "execution_config sf (max_iterations (execution c)) (exec_timeout (execution c))
      (recursion_limit (execution c)) = Inr (execution c)"
  shows "from_legacy sf (to_legacy_dict c) = Inr
    (c\<lparr>checkpoint := \<lparr>cfg_checkpointer = cfg_checkpointer (checkpoint c), checkpoint_at_start = False,
          checkpoint_at_end = True, record_state_history = False\<rparr>,
       performance := (performance c)\<lparr>enable_state_caching := True\<rparr>,
       observability := (observability c)\<lparr>log_node_execution := False\<rparr>,
       validation := default_validation\<rparr>)"
  using assms by (simp add: from_legacy_def to_legacy_dict_def)

theorem legacy_config_roundtrip_witness:
  "\<exists>c c'. from_legacy (\<lambda>_. []) (sample_kwargs :: unit legacy_kwargs) = Inr c \<and>
     from_legacy (\<lambda>_. []) (to_legacy_dict c) = Inr c' \<and> max_iterations (execution c') = 125"
proof -
  obtain c :: "unit GraphConfig" where c: "from_legacy (\<lambda>_. []) sample_kwargs = Inr c"
    "execution c = \<lparr>max_iterations = 125, exec_timeout = None, recursion_limit = 500\<rparr>"
    by (simp add: from_legacy_def sample_kwargs_def execution_config_def)
  with legacy_config_roundtrip [of "\<lambda>_. []" c] show ?thesis by (simp add: execution_config_def)
qed

end
