(* ===== verification/Execution_Checkpoint.thy ===== *)
theory Execution_Checkpoint
  imports Prelude
begin

text \<open>
  The identifier envelope of a resumable execution point
  (\<^verbatim>\<open>victor/agent/execution_checkpoint.py\<close>): its dictionary form, its compact trace form, and
  the normalization of a context that the graph engine applies before it saves a checkpoint.
  A datetime is its ISO form.
\<close>

section \<open>Parameters\<close>

text \<open>
  What the code asks of objects the model does not know: \<^verbatim>\<open>str\<close>, \<^verbatim>\<open>int\<close> and \<^verbatim>\<open>dict\<close> of other values,
  parsing an ISO datetime (its canonical form, or an exception), the current time, the
  envelope an object is, and what \<^verbatim>\<open>to_trace_metadata\<close> of another object returns, if it has it.
\<close>

datatype ApprovalState = NOT_REQUIRED | PENDING | APPROVED | REJECTED

record ExecutionCheckpoint =
  ec_id :: string
  ec_session_id :: string
  graph_checkpoint_id :: "string option"
  conversation_checkpoint_id :: "string option"
  filesystem_checkpoint_id :: "string option"
  triggering_tool_call :: "state option"
  approval_state :: ApprovalState
  created_at :: string
  ec_metadata :: state
  schema_version :: int

record py_objects =
  str_other :: "pyval \<Rightarrow> string"
  int_other :: "pyval \<Rightarrow> int result"
  dict_other :: "pyval \<Rightarrow> state result"
  iso_parse :: "string \<Rightarrow> string result"
  now_iso :: string
  obj_envelope :: "nat \<Rightarrow> ExecutionCheckpoint option"
  obj_trace :: "nat \<Rightarrow> pyval option"

definition py_str :: "py_objects \<Rightarrow> pyval \<Rightarrow> string" where
  "py_str P v =
     (case v of
        VStr s \<Rightarrow> s | VNone \<Rightarrow> ''None'' | VInt i \<Rightarrow> show_int i
      | VBool b \<Rightarrow> (if b then ''True'' else ''False'') | _ \<Rightarrow> str_other P v)"

definition py_int :: "py_objects \<Rightarrow> pyval \<Rightarrow> int result" where
  "py_int P v = (case v of VInt i \<Rightarrow> Inr i | VBool b \<Rightarrow> Inr (of_bool b) | _ \<Rightarrow> int_other P v)"

section \<open>The envelope\<close>

definition approval_value :: "ApprovalState \<Rightarrow> string" where
  "approval_value a =
     (case a of NOT_REQUIRED \<Rightarrow> ''not_required'' | PENDING \<Rightarrow> ''pending''
      | APPROVED \<Rightarrow> ''approved'' | REJECTED \<Rightarrow> ''rejected'')"

text \<open>\<^verbatim>\<open>ApprovalState(value)\<close>.\<close>

definition approval_of :: "py_objects \<Rightarrow> pyval \<Rightarrow> ApprovalState result" where
  "approval_of P v =
     (case find (\<lambda>a. v = VStr (approval_value a)) [NOT_REQUIRED, PENDING, APPROVED, REJECTED] of
        Some a \<Rightarrow> Inr a
      | None \<Rightarrow> Inl (PyExc ''ValueError''
          ((case v of VStr s \<Rightarrow> repr_str s | _ \<Rightarrow> py_str P v) @ '' is not a valid ApprovalState'')))"

abbreviation opt_str :: "string option \<Rightarrow> pyval" where
  "opt_str s \<equiv> (case s of None \<Rightarrow> VNone | Some x \<Rightarrow> VStr x)"

abbreviation opt_dict :: "state option \<Rightarrow> pyval" where
  "opt_dict d \<equiv> (case d of None \<Rightarrow> VNone | Some x \<Rightarrow> VDict x)"

text \<open>\<^verbatim>\<open>create\<close>, with the generated identifier as an argument.\<close>

definition ec_create ::
  "py_objects \<Rightarrow> string \<Rightarrow> string \<Rightarrow> string option \<Rightarrow> string option \<Rightarrow> string option \<Rightarrow> state option \<Rightarrow>
   pyval \<Rightarrow> state option \<Rightarrow> string option \<Rightarrow> ExecutionCheckpoint result" where
  "ec_create P fresh session_id graph_id conversation_id filesystem_id tool_call approval meta given_id =
     bind_result (approval_of P approval) (\<lambda>a. Inr
       \<lparr>ec_id = (case given_id of Some i \<Rightarrow> if i = [] then ''exec_ckpt_'' @ take 16 fresh else i
                 | None \<Rightarrow> ''exec_ckpt_'' @ take 16 fresh),
        ec_session_id = session_id, graph_checkpoint_id = graph_id,
        conversation_checkpoint_id = conversation_id, filesystem_checkpoint_id = filesystem_id,
        triggering_tool_call = (case tool_call of Some d \<Rightarrow> if d = [] then None else Some d | None \<Rightarrow> None),
        approval_state = a, created_at = now_iso P,
        ec_metadata = (case meta of Some d \<Rightarrow> d | None \<Rightarrow> []), schema_version = 1\<rparr>)"

definition ec_to_dict :: "ExecutionCheckpoint \<Rightarrow> state" where
  "ec_to_dict c =
     [(''id'', VStr (ec_id c)),
      (''session_id'', VStr (ec_session_id c)),
      (''graph_checkpoint_id'', opt_str (graph_checkpoint_id c)),
      (''conversation_checkpoint_id'', opt_str (conversation_checkpoint_id c)),
      (''filesystem_checkpoint_id'', opt_str (filesystem_checkpoint_id c)),
      (''triggering_tool_call'', opt_dict (triggering_tool_call c)),
      (''approval_state'', VStr (approval_value (approval_state c))),
      (''created_at'', VStr (created_at c)),
      (''metadata'', VDict (ec_metadata c)),
      (''schema_version'', VInt (schema_version c))]"

definition optional_str :: "py_objects \<Rightarrow> pyval \<Rightarrow> string option" where
  "optional_str P v = (if v = VNone then None else Some (py_str P v))"

definition required_item :: "state \<Rightarrow> string \<Rightarrow> pyval result" where
  "required_item data key = (case dict_get data key of Some v \<Rightarrow> Inr v | None \<Rightarrow> Inl (KeyError key))"

text \<open>\<^verbatim>\<open>dict(data.get("metadata") or {})\<close>: a true value that is no mapping is left to \<^verbatim>\<open>dict\<close>.\<close>

definition metadata_of :: "py_objects \<Rightarrow> pyval \<Rightarrow> state result" where
  "metadata_of P v =
     (case v of VDict d \<Rightarrow> Inr d
      | _ \<Rightarrow> if py_truthy v then dict_other P v else Inr [])"

definition ec_from_dict :: "py_objects \<Rightarrow> state \<Rightarrow> ExecutionCheckpoint result" where
  "ec_from_dict P data =
     bind_result (case dict_get_or data ''created_at'' VNone of
                    VStr s \<Rightarrow> iso_parse P s | _ \<Rightarrow> Inr (now_iso P)) (\<lambda>created.
     bind_result (required_item data ''id'') (\<lambda>i.
     bind_result (required_item data ''session_id'') (\<lambda>sid.
     bind_result (approval_of P (dict_get_or data ''approval_state'' (VStr ''not_required''))) (\<lambda>a.
     bind_result (metadata_of P (dict_get_or data ''metadata'' VNone)) (\<lambda>m.
     bind_result (py_int P (dict_get_or data ''schema_version'' (VInt 1))) (\<lambda>ver. Inr
       \<lparr>ec_id = py_str P i, ec_session_id = py_str P sid,
        graph_checkpoint_id = optional_str P (dict_get_or data ''graph_checkpoint_id'' VNone),
        conversation_checkpoint_id = optional_str P (dict_get_or data ''conversation_checkpoint_id'' VNone),
        filesystem_checkpoint_id = optional_str P (dict_get_or data ''filesystem_checkpoint_id'' VNone),
        triggering_tool_call = (case dict_get_or data ''triggering_tool_call'' VNone of
            VDict d \<Rightarrow> Some d | _ \<Rightarrow> None),
        approval_state = a, created_at = created, ec_metadata = m, schema_version = ver\<rparr>))))))"

definition ec_to_trace_metadata :: "ExecutionCheckpoint \<Rightarrow> state" where
  "ec_to_trace_metadata c =
     (let tool_call = (case triggering_tool_call c of Some d \<Rightarrow> d | None \<Rightarrow> [])
      in [(''execution_checkpoint_id'', VStr (ec_id c)),
          (''session_id'', VStr (ec_session_id c)),
          (''graph_checkpoint_id'', opt_str (graph_checkpoint_id c)),
          (''conversation_checkpoint_id'', opt_str (conversation_checkpoint_id c)),
          (''filesystem_checkpoint_id'', opt_str (filesystem_checkpoint_id c)),
          (''approval_state'', VStr (approval_value (approval_state c))),
          (''triggering_tool_call_id'', dict_get_or tool_call ''id'' VNone),
          (''triggering_tool_name'', dict_get_or tool_call ''name'' VNone),
          (''has_triggering_tool_arguments'',
             VBool (py_truthy (dict_get_or tool_call ''arguments'' VNone))),
          (''metadata'', VDict (ec_metadata c))])"

section \<open>Contexts\<close>

definition execution_checkpoint_trace_metadata :: "py_objects \<Rightarrow> pyval \<Rightarrow> state result option" where
  "execution_checkpoint_trace_metadata P v =
     (case v of
        VObj n \<Rightarrow>
          (case obj_envelope P n of
             Some c \<Rightarrow> Some (Inr (ec_to_trace_metadata c))
           | None \<Rightarrow> (case obj_trace P n of Some (VDict d) \<Rightarrow> Some (Inr d) | _ \<Rightarrow> None))
      | VDict d \<Rightarrow>
          (if dict_has d ''execution_checkpoint_id'' then Some (Inr d)
           else if dict_has d ''id'' \<and> dict_has d ''session_id''
           then (case ec_from_dict P d of
                   Inr c \<Rightarrow> Some (Inr (ec_to_trace_metadata c))
                 | Inl e \<Rightarrow> if exc_type e \<in> {''TypeError'', ''ValueError'', ''KeyError''}
                            then Some (Inr d) else Some (Inl e))
           else Some (Inr d))
      | _ \<Rightarrow> None)"

text \<open>\<^verbatim>\<open>normalize_execution_checkpoint_context\<close> with its two optional overrides.\<close>

definition apply_overrides :: "ApprovalState option \<Rightarrow> string option \<Rightarrow> state \<Rightarrow> state" where
  "apply_overrides approval graph_id d =
     (let d = (case approval of Some a \<Rightarrow> dict_set ''approval_state'' (VStr (approval_value a)) d | None \<Rightarrow> d)
      in (case graph_id of Some i \<Rightarrow> dict_set ''graph_checkpoint_id'' (VStr i) d | None \<Rightarrow> d))"

text \<open>The rewriting of the \<^verbatim>\<open>execution_checkpoint\<close> entry at the end: an envelope object becomes its
  dictionary form, a mapping gets the overrides, anything else stays.\<close>

definition rewrite_entry ::
  "py_objects \<Rightarrow> ApprovalState option \<Rightarrow> string option \<Rightarrow> pyval \<Rightarrow> state \<Rightarrow> state" where
  "rewrite_entry P approval graph_id checkpoint normalized =
     (case (case checkpoint of VObj n \<Rightarrow> obj_envelope P n | _ \<Rightarrow> None) of
        Some c \<Rightarrow> dict_set ''execution_checkpoint''
          (VDict (apply_overrides approval graph_id (ec_to_dict c))) normalized
      | None \<Rightarrow>
          (case dict_get normalized ''execution_checkpoint'' of
             Some (VDict d) \<Rightarrow>
               (if approval \<noteq> None \<or> graph_id \<noteq> None
                then dict_set ''execution_checkpoint'' (VDict (apply_overrides approval graph_id d)) normalized
                else normalized)
           | _ \<Rightarrow> normalized))"

text \<open>The entry that is taken for the checkpoint.\<close>

definition context_checkpoint :: "state \<Rightarrow> pyval" where
  "context_checkpoint normalized =
     (let checkpoint = dict_get_or normalized ''execution_checkpoint'' VNone
      in if checkpoint = VNone then dict_get_or normalized ''execution_checkpoint_metadata'' VNone
         else checkpoint)"

definition normalize_context ::
  "py_objects \<Rightarrow> state option \<Rightarrow> pyval option \<Rightarrow> string option \<Rightarrow> state result" where
  "normalize_context P context approval graph_id =
     (let normalized = (case context of Some d \<Rightarrow> d | None \<Rightarrow> []);
          checkpoint = context_checkpoint normalized
      in (case execution_checkpoint_trace_metadata P checkpoint of
            None \<Rightarrow> Inr normalized
          | Some (Inl e) \<Rightarrow> Inl e
          | Some (Inr meta) \<Rightarrow>
              (if meta = [] then Inr normalized
               else bind_result (case approval of
                        None \<Rightarrow> Inr None | Some v \<Rightarrow> map_sum id Some (approval_of P v)) (\<lambda>a.
                    Inr (rewrite_entry P a graph_id checkpoint
                      (dict_set ''execution_checkpoint_metadata''
                         (VDict (apply_overrides a graph_id meta)) normalized))))))"

section \<open>Results\<close>

lemma rewrite_entry_get:
  "k \<noteq> ''execution_checkpoint'' \<Longrightarrow> dict_get (rewrite_entry P a i c n) k = dict_get n k"
  by (simp add: rewrite_entry_def dict_simps split: option.splits pyval.splits)

lemma approval_roundtrip: "approval_of P (VStr (approval_value a)) = Inr a"
  by (cases a) (simp_all add: approval_of_def approval_value_def)

text \<open>An envelope reads back from its dictionary form unchanged, where parsing gives back
  the ISO form it printed.\<close>

theorem envelope_roundtrip:
  assumes "iso_parse P (created_at c) = Inr (created_at c)"
  shows "ec_from_dict P (ec_to_dict c) = Inr c"
  using assms
  by (simp add: ec_from_dict_def ec_to_dict_def dict_get_or_def required_item_def approval_roundtrip
      metadata_of_def py_int_def py_str_def optional_str_def split: option.splits)

definition sample_objects :: py_objects where
  "sample_objects = \<lparr>str_other = (\<lambda>_. ''?''), int_other = (\<lambda>_. Inl (PyExc ''TypeError'' ''int'')),
     dict_other = (\<lambda>_. Inl (PyExc ''TypeError'' ''dict'')),
     iso_parse = Inr, now_iso = ''2025-01-01T00:00:00+00:00'', obj_envelope = (\<lambda>_. None),
     obj_trace = (\<lambda>_. None)\<rparr>"

definition sample_envelope :: ExecutionCheckpoint where
  "sample_envelope = \<lparr>ec_id = ''e1'', ec_session_id = ''s1'', graph_checkpoint_id = None,
     conversation_checkpoint_id = Some ''c1'', filesystem_checkpoint_id = None,
     triggering_tool_call = Some [(''id'', VStr ''t'')], approval_state = PENDING,
     created_at = ''2025-01-01T00:00:00+00:00'', ec_metadata = [], schema_version = 1\<rparr>"

theorem envelope_roundtrip_witness:
  "ec_from_dict sample_objects (ec_to_dict sample_envelope) = Inr sample_envelope"
  by (rule envelope_roundtrip) (simp add: sample_objects_def)

text \<open>A context whose checkpoint entry gives trace metadata carries, after normalization
  with a graph checkpoint id, that id in its metadata entry and keeps every other entry
  except the two checkpoint entries.\<close>

theorem normalize_binds_graph_id:
  assumes "execution_checkpoint_trace_metadata P (context_checkpoint context) = Some (Inr meta)"
    and "meta \<noteq> []"
  shows "\<exists>n m. normalize_context P (Some context) None (Some graph_id) = Inr n \<and>
    dict_get n ''execution_checkpoint_metadata'' = Some (VDict m) \<and>
    dict_get m ''graph_checkpoint_id'' = Some (VStr graph_id) \<and>
    (\<forall>k. k \<notin> {''execution_checkpoint'', ''execution_checkpoint_metadata''} \<longrightarrow>
       dict_get n k = dict_get context k)"
proof -
  let ?m = "apply_overrides None (Some graph_id) meta"
  have "dict_get ?m ''graph_checkpoint_id'' = Some (VStr graph_id)"
    by (simp add: apply_overrides_def dict_simps)
  with assms show ?thesis
    by (simp add: normalize_context_def rewrite_entry_get dict_simps)
qed

theorem normalize_binds_graph_id_witness:
  "\<exists>n m. normalize_context sample_objects
       (Some [(''execution_checkpoint'', VDict [(''execution_checkpoint_id'', VStr ''e'')])]) None (Some ''g'') = Inr n \<and>
    dict_get n ''execution_checkpoint_metadata'' = Some (VDict m) \<and>
    dict_get m ''graph_checkpoint_id'' = Some (VStr ''g'')"
  using normalize_binds_graph_id [of sample_objects
      "[(''execution_checkpoint'', VDict [(''execution_checkpoint_id'', VStr ''e'')])]"
      "[(''execution_checkpoint_id'', VStr ''e'')]" "''g''"]
  by (auto simp: context_checkpoint_def dict_get_or_def execution_checkpoint_trace_metadata_def dict_has_def)

end
