(* ===== verification/Graph_Execution.thy ===== *)
theory Graph_Execution
  imports Graph_Builder Execution_Checkpoint
begin

text \<open>
  The collaborators of a run (\<^verbatim>\<open>victor/framework/graph_execution.py\<close>): iteration control, timeout,
  interrupts, node execution, the checkpoint manager and the event emitter. The clock is an
  argument: it advances by the time a node call takes and stands still in between. The
  checkpointer is an argument too, a record of its three operations, each of which may raise.
\<close>

section \<open>Iterations, time and interrupts\<close>

record IterationController =
  ic_max_iterations :: int
  ic_recursion_limit :: int
  iterations :: int
  visited_count :: "(string, int) dict"

definition ic_init :: "int \<Rightarrow> int \<Rightarrow> IterationController" where
  "ic_init max_it limit =
     \<lparr>ic_max_iterations = max_it, ic_recursion_limit = limit, iterations = 0, visited_count = []\<rparr>"

definition should_continue :: "string \<Rightarrow> IterationController \<Rightarrow> (bool \<times> string option) \<times> IterationController" where
  "should_continue current ic =
     (let ic = ic\<lparr>iterations := iterations ic + 1\<rparr>
      in if iterations ic > ic_max_iterations ic
         then ((False, Some (''Max iterations ('' @ show_int (ic_max_iterations ic) @ '') exceeded'')), ic)
         else let count = dict_get_or (visited_count ic) current 0 + 1;
                  ic = ic\<lparr>visited_count := dict_set current count (visited_count ic)\<rparr>
              in if count > ic_recursion_limit ic
                 then ((False, Some (''Recursion limit exceeded at node: '' @ current)), ic)
                 else ((True, None), ic))"

definition ic_reset :: "IterationController \<Rightarrow> IterationController" where
  "ic_reset ic = ic\<lparr>iterations := 0, visited_count := []\<rparr>"

record TimeoutManager =
  tm_timeout :: "time option"
  tm_start_time :: "time option"

definition tm_init :: "time option \<Rightarrow> TimeoutManager" where
  "tm_init tmo = \<lparr>tm_timeout = tmo, tm_start_time = None\<rparr>"

definition tm_start :: "time \<Rightarrow> TimeoutManager \<Rightarrow> TimeoutManager" where
  "tm_start now tm = tm\<lparr>tm_start_time := Some now\<rparr>"

definition get_remaining :: "time \<Rightarrow> TimeoutManager \<Rightarrow> time option" where
  "get_remaining now tm =
     (case (tm_timeout tm, tm_start_time tm) of
        (Some tmo, Some start) \<Rightarrow> Some (tmo - (now - start))
      | _ \<Rightarrow> None)"

definition is_expired :: "time \<Rightarrow> TimeoutManager \<Rightarrow> bool" where
  "is_expired now tm = (case get_remaining now tm of None \<Rightarrow> False | Some r \<Rightarrow> r \<le> 0)"

definition get_elapsed :: "time \<Rightarrow> TimeoutManager \<Rightarrow> time" where
  "get_elapsed now tm = (case tm_start_time tm of None \<Rightarrow> 0 | Some start \<Rightarrow> now - start)"

record InterruptHandler =
  ih_before :: "string list"
  ih_after :: "string list"

definition should_interrupt_before :: "InterruptHandler \<Rightarrow> string \<Rightarrow> bool" where
  "should_interrupt_before h n \<longleftrightarrow> n \<in> set (ih_before h)"

definition should_interrupt_after :: "InterruptHandler \<Rightarrow> string \<Rightarrow> bool" where
  "should_interrupt_after h n \<longleftrightarrow> n \<in> set (ih_after h)"

section \<open>Node execution\<close>

record NodeExecutionResult =
  ner_success :: bool
  ner_state :: state
  ner_error :: "py_exc option"
  ner_error_type :: string
  ner_error_message :: string

definition ner_ok :: "state \<Rightarrow> NodeExecutionResult" where
  "ner_ok state = \<lparr>ner_success = True, ner_state = state, ner_error = None, ner_error_type = [],
     ner_error_message = []\<rparr>"

definition ner_fail :: "py_exc \<Rightarrow> state \<Rightarrow> NodeExecutionResult" where
  "ner_fail e state = \<lparr>ner_success = False, ner_state = state, ner_error = Some e,
     ner_error_type = exc_type e,
     ner_error_message = (if exc_msg e = [] then exc_type e else exc_msg e)\<rparr>"

text \<open>
  The \<^verbatim>\<open>except\<close> clauses around a node call, for the exception, its \<^verbatim>\<open>result_state\<close> and the value of
  \<^verbatim>\<open>state\<close> at that point.
\<close>

definition node_failure :: "node_exc \<Rightarrow> state \<Rightarrow> NodeExecutionResult result" where
  "node_failure ex state =
     (case ex of NodeExc e result_state \<Rightarrow>
        if exc_type e = ''TimeoutError'' then Inr (ner_fail e state)
        else if exc_type e = ''ProviderPolicyError'' then Inl e
        else Inr (ner_fail e (case result_state of Some (VDict d) \<Rightarrow> d | _ \<Rightarrow> state)))"

definition execute_typed ::
  "caller \<Rightarrow> (string, Node) dict \<Rightarrow> bool \<Rightarrow> string \<Rightarrow> state \<Rightarrow> TimeoutManager \<Rightarrow> time \<Rightarrow>
   NodeExecutionResult result \<times> time" where
  "execute_typed c nodes use_cow node state tm now =
     (case dict_get nodes node of
        None \<Rightarrow> (Inr (ner_fail (PyExc ''LookupError'' (''Node not found: '' @ node)) state), now)
      | Some nd \<Rightarrow>
          (if is_expired now tm
           then (Inr (ner_fail (PyExc ''TimeoutError'' ''Execution timeout'') state), now)
           else if use_cow
           then (let r = func_cow nd now (get_remaining now tm) (cow_init c state)
                 in ((case cr_outcome r of
                        Inl ex \<Rightarrow> node_failure ex state
                      | Inr (RetCow w) \<Rightarrow> Inr (ner_ok (get_state w))
                      | Inr (RetDict d) \<Rightarrow> Inr (ner_ok d)
                      | Inr RetOther \<Rightarrow> Inr (ner_ok (get_state (cr_wrapper r)))),
                     now + cr_elapsed r))
           else (let r = func_plain nd now (get_remaining now tm) state
                 in ((case pr_outcome r of
                        Inl ex \<Rightarrow> node_failure ex (pr_argument r)
                      | Inr d \<Rightarrow> Inr (ner_ok d)),
                     now + pr_elapsed r))))"

text \<open>The three values \<^verbatim>\<open>execute\<close> returns: success, error, state.\<close>

definition execute_node ::
  "caller \<Rightarrow> (string, Node) dict \<Rightarrow> bool \<Rightarrow> string \<Rightarrow> state \<Rightarrow> TimeoutManager \<Rightarrow> time \<Rightarrow>
   (bool \<times> string option \<times> state) result \<times> time" where
  "execute_node c nodes use_cow node state tm now =
     (if \<not> dict_has nodes node then (Inr (False, Some (''Node not found: '' @ node), state), now)
      else map_prod (map_sum id (\<lambda>r. (ner_success r,
             (if ner_error_message r = [] then None else Some (ner_error_message r)), ner_state r))) id
           (execute_typed c nodes use_cow node state tm now))"

section \<open>The checkpoint manager\<close>

record 'c checkpoint_ops =
  op_save :: "WorkflowCheckpoint \<Rightarrow> 'c \<Rightarrow> unit result \<times> 'c"
  op_load :: "'c \<Rightarrow> string \<Rightarrow> WorkflowCheckpoint option result"
  op_list :: "'c \<Rightarrow> string \<Rightarrow> WorkflowCheckpoint list result"

definition memory_ops :: "MemoryCheckpointer checkpoint_ops" where
  "memory_ops = \<lparr>op_save = (\<lambda>cp s. (Inr (), mc_save cp s)), op_load = (\<lambda>s t. Inr (mc_load s t)),
     op_list = (\<lambda>s t. Inr (mc_list s t))\<rparr>"

record routing_state =
  pending_nodes :: "string list"
  visited_nodes :: "string list"

definition routing_value :: "routing_state \<Rightarrow> pyval" where
  "routing_value r = VDict [(''pending_nodes'', VList (map VStr (pending_nodes r))),
     (''visited_nodes'', VList (map VStr (visited_nodes r)))]"

definition str_items :: "pyval \<Rightarrow> string list option" where
  "str_items v = (case v of VList xs \<Rightarrow> those (map as_str xs) | _ \<Rightarrow> None)"

text \<open>
  The frontier a checkpoint carries in its metadata. One that is not of the form the engine
  writes makes the subscripts raise.
\<close>

definition routing_of :: "pyval \<Rightarrow> routing_state option result" where
  "routing_of v =
     (case v of
        VNone \<Rightarrow> Inr None
      | VDict d \<Rightarrow>
          (case (str_items (dict_get_or d ''pending_nodes'' VNone), str_items (dict_get_or d ''visited_nodes'' VNone)) of
             (Some ps, Some vs) \<Rightarrow> Inr (Some \<lparr>pending_nodes = ps, visited_nodes = vs\<rparr>)
           | _ \<Rightarrow> Inl (PyExc ''KeyError'' ''malformed sequential frontier''))
      | _ \<Rightarrow> Inl (PyExc ''TypeError'' ''malformed sequential frontier''))"

record GraphCheckpointManager =
  gm_routing_state :: "routing_state option"
  gm_resume_past_interrupt :: "string option"

definition gm_init :: GraphCheckpointManager where
  "gm_init = \<lparr>gm_routing_state = None, gm_resume_past_interrupt = None\<rparr>"

definition resume_node ::
  "WorkflowCheckpoint \<Rightarrow> state \<Rightarrow> (string \<Rightarrow> state \<Rightarrow> next_target result) option \<Rightarrow> string result" where
  "resume_node cp state resolve_successor =
     (case next_node cp of
        Some n \<Rightarrow> Inr n
      | None \<Rightarrow>
          (case resolve_successor of
             None \<Rightarrow> Inr (node_id cp)
           | Some resolve \<Rightarrow>
               (if dict_get (metadata cp) ''checkpoint_boundary'' \<noteq> Some (VStr ''after'')
                then Inr (node_id cp)
                else (case resolve (node_id cp) state of
                        Inl e \<Rightarrow> if exc_type e = ''ProviderPolicyError'' then Inl e else Inr (node_id cp)
                      | Inr (To n) \<Rightarrow> Inr n
                      | Inr _ \<Rightarrow> Inr (node_id cp)))))"

text \<open>The state, the node to start at, and the manager after loading.\<close>

definition load_initial_state ::
  "'c checkpoint_ops option \<Rightarrow> 'c \<Rightarrow> string \<Rightarrow> state \<Rightarrow> string \<Rightarrow>
   (string \<Rightarrow> state \<Rightarrow> next_target result) option \<Rightarrow> GraphCheckpointManager \<Rightarrow>
   (state \<times> string \<times> GraphCheckpointManager) result" where
  "load_initial_state ops store tid input entry resolve gm =
     (case ops of
        None \<Rightarrow> Inr (input, entry, gm)
      | Some cops \<Rightarrow>
          bind_result (op_load cops store tid) (\<lambda>loaded.
            case loaded of
              None \<Rightarrow> Inr (input, entry, gm)
            | Some cp \<Rightarrow>
                (let gm = (if dict_get (metadata cp) ''checkpoint_boundary'' = Some (VStr ''before'')
                           then gm\<lparr>gm_resume_past_interrupt := next_node cp\<rparr> else gm)
                 in bind_result (routing_of (dict_get_or (metadata cp) ''sequential_frontier'' VNone)) (\<lambda>routing.
                      let gm = gm\<lparr>gm_routing_state := routing\<rparr>
                      in case routing of
                           Some r \<Rightarrow>
                             Inr (cp_state cp,
                                  (case pending_nodes r of [] \<Rightarrow> ''__end__'' | n # _ \<Rightarrow> n), gm)
                         | None \<Rightarrow>
                             bind_result (resume_node cp (cp_state cp) resolve) (\<lambda>n.
                               Inr (cp_state cp, n, gm))))))"

text \<open>\<^verbatim>\<open>_bind_graph_checkpoint_id\<close>, which rewrites the context inside the running state.\<close>

definition bind_graph_checkpoint_id :: "py_objects \<Rightarrow> string \<Rightarrow> state \<Rightarrow> state result" where
  "bind_graph_checkpoint_id P cid state =
     (case dict_get state ''context'' of
        Some (VDict context) \<Rightarrow>
          bind_result (normalize_context P (Some context) None (Some cid)) (\<lambda>c.
            Inr (dict_set ''context'' (VDict c) state))
      | _ \<Rightarrow> Inr state)"

definition checkpoint_metadata :: "state \<Rightarrow> state" where
  "checkpoint_metadata state =
     (case dict_get state ''plan_execution_state'' of
        Some (VDict (p # d)) \<Rightarrow> [(''plan_execution_state'', VDict (p # d))]
      | _ \<Rightarrow> [])"

text \<open>
  The checkpoint that is saved for a node at a time, for a state whose context already carries
  the checkpoint id.
\<close>

definition new_checkpoint ::
  "string \<Rightarrow> string \<Rightarrow> string \<Rightarrow> state \<Rightarrow> time \<Rightarrow> string option \<Rightarrow> bool \<Rightarrow> bool \<Rightarrow>
   routing_state option \<Rightarrow> WorkflowCheckpoint" where
  "new_checkpoint cid tid node state now nxt completed paused_before routing =
     (let m = checkpoint_metadata state;
          m = (if completed then dict_set ''checkpoint_boundary'' (VStr ''after'') m
               else if paused_before then dict_set ''checkpoint_boundary'' (VStr ''before'') m else m);
          m = (case nxt of Some n \<Rightarrow> dict_set ''next_node'' (VStr n) m | None \<Rightarrow> m);
          m = (case routing of Some r \<Rightarrow> dict_set ''sequential_frontier'' (routing_value r) m | None \<Rightarrow> m)
      in \<lparr>checkpoint_id = cid, thread_id = tid, node_id = node, cp_state = state, timestamp = now,
          metadata = m\<rparr>)"

text \<open>
  Saving returns the state with its context rewritten, and the checkpointer's store. The
  rewriting stays in the state also when the checkpointer raises. States are dictionaries: the
  branches of the code for states that are pydantic models are not modelled. The clock is read
  twice, for the identifier and for the timestamp, with no time in between.
\<close>

definition save_checkpoint ::
  "(time \<Rightarrow> string) \<Rightarrow> py_objects \<Rightarrow> 'c checkpoint_ops option \<Rightarrow> GraphCheckpointManager \<Rightarrow> string \<Rightarrow>
   string \<Rightarrow> time \<Rightarrow> string option \<Rightarrow> bool \<Rightarrow> bool \<Rightarrow> state \<Rightarrow> 'c \<Rightarrow> unit result \<times> state \<times> 'c" where
  "save_checkpoint show_time P ops gm tid node now nxt completed paused_before state store =
     (case ops of
        None \<Rightarrow> (Inr (), state, store)
      | Some cops \<Rightarrow>
          (let cid = tid @ ''_'' @ node @ ''_'' @ show_time now
           in case bind_graph_checkpoint_id P cid state of
                Inl e \<Rightarrow> (Inl e, state, store)
              | Inr state' \<Rightarrow>
                  (case op_save cops (new_checkpoint cid tid node state' now nxt completed paused_before
                                        (gm_routing_state gm)) store of
                     (r, store') \<Rightarrow> (r, state', store'))))"

section \<open>Events\<close>

datatype graph_event =
    GraphStarted string nat string
  | NodeStart string int
  | NodeEnd string int time
  | GraphCompleted bool int time nat
  | GraphError string int time
  | RLCompletion bool real int time

text \<open>\<^verbatim>\<open>_emit\<close>: nothing is sent when events are off, and a failing bus is only logged.\<close>

definition emit :: "bool \<Rightarrow> graph_event \<Rightarrow> graph_event list \<Rightarrow> graph_event list" where
  "emit emits e evs = (if emits then evs @ [e] else evs)"

definition rl_quality :: "bool \<Rightarrow> int \<Rightarrow> time \<Rightarrow> real" where
  "rl_quality success its duration =
     (let q = (if success then 8 / 10 else 2 / 10);
          q = (if success \<and> its < 10 then q + 1 / 10 else q);
          q = (if success \<and> duration < 30 then q + 1 / 10 else q)
      in min 1 q)"

definition emit_graph_completed ::
  "bool \<Rightarrow> bool \<Rightarrow> bool \<Rightarrow> int \<Rightarrow> time \<Rightarrow> nat \<Rightarrow> graph_event list \<Rightarrow> graph_event list" where
  "emit_graph_completed rl_hooks emits success its duration count evs =
     emit emits (GraphCompleted success its duration count)
       (if rl_hooks then evs @ [RLCompletion success (rl_quality success its duration) its duration] else evs)"

section \<open>Lemmas\<close>

lemma str_items_strs: "str_items (VList (map VStr xs)) = Some xs"
  by (induction xs) (auto simp: str_items_def as_str_def)

lemma routing_roundtrip: "routing_of (routing_value r) = Inr (Some r)"
  by (simp add: routing_of_def routing_value_def str_items_strs dict_get_or_def)

lemma should_continue_ic:
  "ic_max_iterations (snd (should_continue n ic)) = ic_max_iterations ic"
  "ic_recursion_limit (snd (should_continue n ic)) = ic_recursion_limit ic"
  "iterations (snd (should_continue n ic)) = iterations ic + 1"
  by (simp_all add: should_continue_def Let_def)

lemma should_continue_True:
  assumes "should_continue n ic = ((True, err), ic')"
  shows "iterations ic' \<le> ic_max_iterations ic" and "err = None"
    and "visited_count ic' = dict_set n (dict_get_or (visited_count ic) n 0 + 1) (visited_count ic)"
    and "dict_get_or (visited_count ic) n 0 + 1 \<le> ic_recursion_limit ic"
  using assms by (auto simp: should_continue_def Let_def split: if_splits)

lemma checkpoint_metadata_get: "k \<noteq> ''plan_execution_state'' \<Longrightarrow> dict_get (checkpoint_metadata state) k = None"
  by (auto simp: checkpoint_metadata_def split: option.split pyval.split list.split)

lemma new_checkpoint_metadata:
  "dict_get (metadata (new_checkpoint cid tid node state now nxt completed paused routing)) ''next_node'' =
     map_option VStr nxt"
  "dict_get (metadata (new_checkpoint cid tid node state now nxt completed paused routing)) ''checkpoint_boundary'' =
     (if completed then Some (VStr ''after'') else if paused then Some (VStr ''before'') else None)"
  "dict_get (metadata (new_checkpoint cid tid node state now nxt completed paused routing)) ''sequential_frontier'' =
     map_option routing_value routing"
  by (simp_all add: new_checkpoint_def Let_def checkpoint_metadata_get dict_simps split: option.split)

lemma new_checkpoint_fields:
  "checkpoint_id (new_checkpoint cid tid node state now nxt completed paused routing) = cid"
  "thread_id (new_checkpoint cid tid node state now nxt completed paused routing) = tid"
  "node_id (new_checkpoint cid tid node state now nxt completed paused routing) = node"
  "cp_state (new_checkpoint cid tid node state now nxt completed paused routing) = state"
  "next_node (new_checkpoint cid tid node state now nxt completed paused routing) = nxt"
  by (simp_all add: next_node_def new_checkpoint_metadata, simp_all add: new_checkpoint_def Let_def split: option.splits)

lemmas checkpoint_fields = new_checkpoint_metadata new_checkpoint_fields

lemma memory_save_load:
  assumes "save_checkpoint st P (Some memory_ops) gm tid node now nxt completed paused state store = (Inr (), state', store')"
  shows "mc_load store' tid = Some (new_checkpoint (tid @ ''_'' @ node @ ''_'' @ st now) tid node state' now nxt
      completed paused (gm_routing_state gm))"
  using assms
  by (auto simp: save_checkpoint_def memory_ops_def Let_def mc.load_save checkpoint_fields split: sum.splits)

section \<open>Results\<close>

text \<open>A checkpoint saved when a run pauses before a node, or after it with a resolved
  successor, resumes exactly there: loading the thread again gives the saved state and that
  node; it bypasses the interrupt only in the first case, and a pending sequential frontier
  comes back with it and then decides the node.\<close>

theorem pause_resume_point:
  assumes "save_checkpoint st P (Some memory_ops) gm tid node now (Some n) completed (\<not> completed) state store
      = (Inr (), state', store')"
  shows "load_initial_state (Some memory_ops) store' tid input entry resolve gm_init =
    Inr (state',
         (case gm_routing_state gm of
            None \<Rightarrow> n | Some r \<Rightarrow> (case pending_nodes r of [] \<Rightarrow> END | p # _ \<Rightarrow> p)),
         \<lparr>gm_routing_state = gm_routing_state gm,
          gm_resume_past_interrupt = (if completed then None else Some n)\<rparr>)"
  using memory_save_load [OF assms]
  by (auto simp: load_initial_state_def memory_ops_def checkpoint_fields dict_get_or_def gm_init_def
      resume_node_def routing_roundtrip routing_of_def [of VNone] END_def Let_def
      split: option.splits list.splits)

theorem pause_resume_point_witness:
  "load_initial_state (Some memory_ops)
     (snd (snd (save_checkpoint (\<lambda>_. ''0'') sample_objects (Some memory_ops) gm_init ''t'' ''a'' 0 (Some ''b'') True False
        [(''x'', VInt 1)] mc_init))) ''t'' [] ''a'' None gm_init
     = Inr ([(''x'', VInt 1)], ''b'', \<lparr>gm_routing_state = None, gm_resume_past_interrupt = None\<rparr>)"
proof -
  have s: "save_checkpoint (\<lambda>_. ''0'') sample_objects (Some memory_ops) gm_init ''t'' ''a'' 0 (Some ''b'') True False
        [(''x'', VInt 1)] mc_init = (Inr (), [(''x'', VInt 1)],
      mc_save (new_checkpoint ''t_a_0'' ''t'' ''a'' [(''x'', VInt 1)] 0 (Some ''b'') True False None) mc_init)"
    by (simp add: save_checkpoint_def memory_ops_def bind_graph_checkpoint_id_def gm_init_def)
  with pause_resume_point [of "\<lambda>_. ''0''" sample_objects gm_init "''t''" "''a''" 0 "''b''" True "[(''x'', VInt 1)]" mc_init]
  show ?thesis by (simp add: gm_init_def)
qed

text \<open>A checkpoint taken after a node completed and without a recorded successor resumes at
  the successor the graph resolves from the saved state, so the node does not run twice; where
  resolving fails with an ordinary exception or gives a fan-out, the node runs again.\<close>

theorem resume_after_completed:
  assumes "save_checkpoint st P (Some memory_ops) gm tid node now None True False state store
      = (Inr (), state', store')" and "gm_routing_state gm = None"
  shows "load_initial_state (Some memory_ops) store' tid input entry (Some resolve) gm_init =
    (case resolve node state' of
       Inl e \<Rightarrow> if exc_type e = ''ProviderPolicyError'' then Inl e else Inr (state', node, gm_init)
     | Inr (To n) \<Rightarrow> Inr (state', n, gm_init)
     | Inr _ \<Rightarrow> Inr (state', node, gm_init))"
  using memory_save_load [OF assms(1)] assms(2)
  by (auto simp: load_initial_state_def memory_ops_def checkpoint_fields dict_get_or_def gm_init_def
      resume_node_def routing_of_def Let_def split: sum.splits next_target.splits)

theorem resume_after_completed_witness:
  "load_initial_state (Some memory_ops)
     (snd (snd (save_checkpoint (\<lambda>_. ''0'') sample_objects (Some memory_ops) gm_init ''t'' ''a'' 0 None True False
        [(''x'', VInt 1)] mc_init))) ''t'' [] ''a'' (Some (\<lambda>_ _. Inr (To ''c''))) gm_init
     = Inr ([(''x'', VInt 1)], ''c'', gm_init)"
proof -
  have s: "save_checkpoint (\<lambda>_. ''0'') sample_objects (Some memory_ops) gm_init ''t'' ''a'' 0 None True False
        [(''x'', VInt 1)] mc_init = (Inr (), [(''x'', VInt 1)],
      mc_save (new_checkpoint ''t_a_0'' ''t'' ''a'' [(''x'', VInt 1)] 0 None True False None) mc_init)"
    by (simp add: save_checkpoint_def memory_ops_def bind_graph_checkpoint_id_def gm_init_def)
  with resume_after_completed [of "\<lambda>_. ''0''" sample_objects gm_init "''t''" "''a''" 0 "[(''x'', VInt 1)]" mc_init]
  show ?thesis by (simp add: gm_init_def)
qed

end
