(* ===== verification/Graph_Runtime.thy ===== *)
theory Graph_Runtime
  imports Graph_Execution
begin

text \<open>
  The execution loop of a compiled graph (\<^verbatim>\<open>victor/framework/graph_runtime.py\<close>) and the entry
  points \<^verbatim>\<open>invoke\<close>, \<^verbatim>\<open>stream\<close> and \<^verbatim>\<open>replay_from\<close> of \<^verbatim>\<open>victor/framework/graph.py\<close>. The variables of
  the loop are a record, a statement is a function on it that may raise, and one pass of the
  \<^verbatim>\<open>while\<close> loop is \<open>loop_body\<close>, which ends with the outcome to return or with none to go on.
  Hooks and observers are arguments that may raise and do not change the state.
\<close>

section \<open>The environment and the variables of a run\<close>

record hook =
  before_node :: "string \<Rightarrow> state \<Rightarrow> unit result"
  after_node :: "string \<Rightarrow> state \<Rightarrow> string option \<Rightarrow> unit result"

type_synonym node_observer = "string \<Rightarrow> string \<Rightarrow> state \<Rightarrow> string option \<Rightarrow> time \<Rightarrow> unit result"

record 'c run_env =
  re_graph :: "'c checkpoint_ops CompiledGraph"
  re_config :: "'c checkpoint_ops GraphConfig"
  re_thread :: string
  re_use_cow :: bool
  re_hook :: "hook option"
  re_observer :: "node_observer option"
  re_caller :: caller
  re_objects :: py_objects
  re_show_time :: "time \<Rightarrow> string"
  re_error_text :: "string \<Rightarrow> string"
  re_show_error :: "validation_error \<Rightarrow> string"
  re_rl_hooks :: bool

record GraphRuntimeOutcome =
  o_state :: state
  o_success :: bool
  o_error :: "string option"
  o_iterations :: int
  o_duration :: time
  o_node_history :: "string list"
  o_state_history :: "(string \<times> state) list"
  o_interrupted :: bool
  o_next_node :: "string option"

record 'c run =
  r_state :: state
  r_current :: string
  r_ic :: IterationController
  r_tm :: TimeoutManager
  r_now :: time
  r_store :: 'c
  r_gm :: GraphCheckpointManager
  r_pending :: "string list"
  r_visited :: "string list"
  r_resume_past :: "string option"
  r_node_history :: "string list"
  r_state_history :: "(string \<times> state) list"
  r_active :: "string option"
  r_node_start :: time
  r_events :: "graph_event list"
  r_streamed :: "(string \<times> state) list"

type_synonym ('c, 'a) rt = "'c run \<Rightarrow> 'a result \<times> 'c run"

definition rt_return :: "'a \<Rightarrow> ('c, 'a) rt" where
  "rt_return x r = (Inr x, r)"

definition rt_lift :: "'a result \<Rightarrow> ('c, 'a) rt" where
  "rt_lift x r = (x, r)"

definition rt_modify :: "('c run \<Rightarrow> 'c run) \<Rightarrow> ('c, unit) rt" where
  "rt_modify f r = (Inr (), f r)"

definition rt_bind :: "('c, 'a) rt \<Rightarrow> ('a \<Rightarrow> ('c, 'b) rt) \<Rightarrow> ('c, 'b) rt" where
  "rt_bind m k r = (case m r of (Inl e, r') \<Rightarrow> (Inl e, r') | (Inr x, r') \<Rightarrow> k x r')"

text \<open>The statement after a statement without a result, and reading the variables.\<close>

definition rt_seq :: "('c, 'a) rt \<Rightarrow> ('c, 'b) rt \<Rightarrow> ('c, 'b) rt" where
  "rt_seq m k = rt_bind m (\<lambda>_. k)"

definition rt_with :: "('c run \<Rightarrow> ('c, 'a) rt) \<Rightarrow> ('c, 'a) rt" where
  "rt_with f r = f r r"

definition rt_outcome ::
  "bool \<Rightarrow> string option \<Rightarrow> bool \<Rightarrow> string option \<Rightarrow> ('c, GraphRuntimeOutcome option) rt" where
  "rt_outcome success error interrupted nxt r =
     (Inr (Some
       \<lparr>o_state = r_state r, o_success = success, o_error = error, o_iterations = iterations (r_ic r),
        o_duration = get_elapsed (r_now r) (r_tm r), o_node_history = r_node_history r,
        o_state_history = r_state_history r, o_interrupted = interrupted, o_next_node = nxt\<rparr>), r)"

section \<open>The statements of the loop\<close>

definition rt_emit :: "'c run_env \<Rightarrow> graph_event \<Rightarrow> ('c, unit) rt" where
  "rt_emit env e = rt_modify (\<lambda>r. r\<lparr>r_events := emit (emit_events (observability (re_config env))) e (r_events r)\<rparr>)"

definition observe ::
  "'c run_env \<Rightarrow> string \<Rightarrow> string \<Rightarrow> string option \<Rightarrow> time \<Rightarrow> ('c, unit) rt" where
  "observe env phase node error duration =
     (case re_observer env of
        None \<Rightarrow> rt_return ()
      | Some obs \<Rightarrow> rt_with (\<lambda>r. rt_lift (obs phase node (r_state r) error duration)))"

definition report_node_error :: "'c run_env \<Rightarrow> string \<Rightarrow> ('c, unit) rt" where
  "report_node_error env message =
     rt_with (\<lambda>r. let failed_node = r_active r in
       rt_seq (rt_modify (\<lambda>r. r\<lparr>r_active := None\<rparr>))
         (case failed_node of
            None \<Rightarrow> rt_return ()
          | Some n \<Rightarrow> observe env ''error'' n (Some message) (r_now r - r_node_start r)))"

definition save_frontier :: "string list \<Rightarrow> ('c, unit) rt" where
  "save_frontier next_nodes =
     rt_modify (\<lambda>r. r\<lparr>r_gm := (r_gm r)\<lparr>gm_routing_state :=
       Some \<lparr>pending_nodes = next_nodes, visited_nodes = sort (r_visited r)\<rparr>\<rparr>\<rparr>)"

definition rt_save ::
  "'c run_env \<Rightarrow> string \<Rightarrow> string option \<Rightarrow> bool \<Rightarrow> bool \<Rightarrow> ('c, unit) rt" where
  "rt_save env node nxt completed paused_before r =
     (case save_checkpoint (re_show_time env) (re_objects env) (cfg_checkpointer (checkpoint (re_config env)))
             (r_gm r) (re_thread env) node (r_now r) nxt completed paused_before (r_state r) (r_store r) of
        (res, state', store') \<Rightarrow> (res, r\<lparr>r_state := state', r_store := store'\<rparr>))"

definition rt_next_node :: "'c run_env \<Rightarrow> string \<Rightarrow> ('c, next_target) rt" where
  "rt_next_node env node r = (get_next_node (re_error_text env) (re_graph env) node (r_state r), r)"

text \<open>\<^verbatim>\<open>node_executor.execute\<close>: success and error; the state and the clock are variables.\<close>

definition rt_execute :: "'c run_env \<Rightarrow> string \<Rightarrow> ('c, bool \<times> string option) rt" where
  "rt_execute env node r =
     (case execute_node (re_caller env) (cg_nodes (re_graph env)) (re_use_cow env) node (r_state r) (r_tm r) (r_now r) of
        (Inl e, now') \<Rightarrow> (Inl e, r\<lparr>r_now := now'\<rparr>)
      | (Inr (success, error, state'), now') \<Rightarrow>
          (Inr (success, error), r\<lparr>r_state := state', r_now := now'\<rparr>))"

definition validate_state_after_node :: "'c run_env \<Rightarrow> string \<Rightarrow> state \<Rightarrow> string option" where
  "validate_state_after_node env node state =
     (let v = validation (re_config env); sch = cg_schema (re_graph env)
      in if \<not> validation_enabled v \<or> (case sch of NoSchema \<Rightarrow> True | _ \<Rightarrow> False) then None
         else let errors = validate_state sch state
              in if errors = [] then None
                 else if validation_strict v
                 then Some (''State validation failed after node '' @ quoted node @ '': '' @
                            repr_strs (map (re_show_error env) errors))
                 else None)"

text \<open>\<^verbatim>\<open>_resolve_resume_target\<close>: the single successor, if there is one.\<close>

definition resolve_resume_target :: "'c run_env \<Rightarrow> string \<Rightarrow> ('c, string option) rt" where
  "resolve_resume_target env node r =
     (case rt_next_node env node r of
        (Inl e, r') \<Rightarrow> if exc_type e = ''ProviderPolicyError'' then (Inl e, r') else (Inr None, r')
      | (Inr (To n), r') \<Rightarrow> (Inr (Some n), r')
      | (Inr _, r') \<Rightarrow> (Inr None, r'))"

subsection \<open>Parallel branches\<close>

text \<open>
  The branches run concurrently from the same moment on private copies of their states, and the
  run goes on when the last one is done. An exception of a branch is raised when it happens.
\<close>

definition run_branch :: "'c run_env \<Rightarrow> 'c run \<Rightarrow> Send \<Rightarrow> (bool \<times> string option \<times> state) result \<times> time" where
  "run_branch env r send =
     execute_node (re_caller env) (cg_nodes (re_graph env)) (re_use_cow env) (send_node send) (send_state send)
       (r_tm r) (r_now r)"

fun first_raised :: "('a result \<times> time) list \<Rightarrow> (py_exc \<times> time) option" where
  "first_raised [] = None"
| "first_raised ((Inr _, t) # rs) = first_raised rs"
| "first_raised ((Inl e, t) # rs) =
     (case first_raised rs of Some (e', t') \<Rightarrow> if t' < t then Some (e', t') else Some (e, t)
      | None \<Rightarrow> Some (e, t))"

definition execute_parallel :: "'c run_env \<Rightarrow> Send list \<Rightarrow> ('c, unit) rt" where
  "execute_parallel env sends r =
     (let results = map (run_branch env r) sends
      in case first_raised results of
           Some (e, t) \<Rightarrow> (Inl e, r\<lparr>r_now := t\<rparr>)
         | None \<Rightarrow>
             (let r = r\<lparr>r_now := fold max (map snd results) (r_now r)\<rparr>;
                  branches = map (\<lambda>(send, res). (send_node send, projr (fst res))) (zip sends results);
                  failures = map (\<lambda>(node, _, error, _).
                      node @ '': '' @ (case error of Some e \<Rightarrow> if e = [] then ''unknown error'' else e | None \<Rightarrow> ''unknown error''))
                    (filter (\<lambda>(node, success, _, _). \<not> success) branches)
              in if failures \<noteq> []
                 then (Inl (PyExc ''ParallelBranchExecutionError''
                        (''Parallel branch failure(s): '' @ py_join ''; '' failures)), r)
                 else case cg_merger (re_graph env) (r_state r) (map (\<lambda>(_, _, _, st). st) branches) of
                        Inl e \<Rightarrow> (Inl e, r)
                      | Inr merged \<Rightarrow> (Inr (), r\<lparr>r_state := merged\<rparr>)))"

section \<open>One pass of the loop\<close>

abbreviation sequential :: "'c run_env \<Rightarrow> bool" where
  "sequential env \<equiv> cg_sequential_fanout (re_graph env)"

definition handler :: "'c run_env \<Rightarrow> InterruptHandler" where
  "handler env = \<lparr>ih_before = interrupt_before (interrupt (re_config env)),
     ih_after = interrupt_after (interrupt (re_config env))\<rparr>"

definition pause_before :: "'c run_env \<Rightarrow> string \<Rightarrow> ('c, GraphRuntimeOutcome option) rt" where
  "pause_before env node =
     rt_seq (if sequential env then rt_with (\<lambda>r. save_frontier (node # r_pending r)) else rt_return ())
    (rt_seq (rt_save env node (Some node) False True)
    (rt_outcome True None True (Some node)))"

text \<open>The targets a completed node adds to the queue of a sequential fan-out.\<close>

definition enqueue_target :: "string \<Rightarrow> 'c run \<Rightarrow> 'c run" where
  "enqueue_target target r =
     (if target \<noteq> END \<and> target \<notin> set (r_visited r) \<and> target \<notin> set (r_pending r)
      then r\<lparr>r_pending := r_pending r @ [target]\<rparr> else r)"

definition enqueue_targets :: "string list \<Rightarrow> 'c run \<Rightarrow> 'c run" where
  "enqueue_targets targets = fold enqueue_target targets"

definition advance_frontier :: "'c run_env \<Rightarrow> string \<Rightarrow> ('c, unit) rt" where
  "advance_frontier env node =
     rt_seq (rt_modify (\<lambda>r. r\<lparr>r_visited := List.insert node (r_visited r)\<rparr>))
    (rt_bind (rt_next_node env node) (\<lambda>next_target.
       case next_target of
         Sends _ \<Rightarrow> rt_lift (Inl (PyExc ''ValueError''
           (''Dynamic Send cannot be combined with sequential fan-out; '' @
            ''pending Send directives require separate checkpoint semantics'')))
       | Fan targets \<Rightarrow> rt_seq (rt_modify (enqueue_targets targets)) (rt_with (\<lambda>r. save_frontier (r_pending r)))
       | To target \<Rightarrow> rt_seq (rt_modify (enqueue_targets [target])) (rt_with (\<lambda>r. save_frontier (r_pending r)))))"

text \<open>
  The end of a pass: where the loop goes next. The last case cannot occur: only a graph with
  an ordinary fan-out answers with a tuple, and then it is sequential (\<open>no_stray_fan\<close>).
\<close>

definition join_node :: "Send list \<Rightarrow> string" where
  "join_node sends =
     (case find (\<lambda>s. join_at s \<noteq> None \<and> join_at s \<noteq> Some []) sends of
        Some s \<Rightarrow> the (join_at s) | None \<Rightarrow> END)"

definition move_on :: "'c run_env \<Rightarrow> string \<Rightarrow> ('c, GraphRuntimeOutcome option) rt" where
  "move_on env node =
     (if sequential env
      then rt_seq (rt_modify (\<lambda>r. case r_pending r of
               [] \<Rightarrow> r\<lparr>r_current := END\<rparr> | n # ns \<Rightarrow> r\<lparr>r_current := n, r_pending := ns\<rparr>))
             (rt_return None)
      else rt_bind (rt_next_node env node) (\<lambda>next_target.
        case next_target of
          Sends sends \<Rightarrow>
            rt_seq (execute_parallel env sends)
           (rt_seq (rt_modify (\<lambda>r. r\<lparr>r_node_history := r_node_history r @ map (\<lambda>s. ''send:'' @ send_node s) sends\<rparr>))
           (rt_seq (rt_modify (\<lambda>r. r\<lparr>r_current := join_node sends\<rparr>)) (rt_return None)))
        | To n \<Rightarrow> rt_seq (rt_modify (\<lambda>r. r\<lparr>r_current := n\<rparr>)) (rt_return None)
        | Fan ns \<Rightarrow> rt_lift (Inl (PyExc ''AssertionError'' ''successor tuple without sequential fan-out''))))"

definition end_of_pass :: "'c run_env \<Rightarrow> string \<Rightarrow> string option \<Rightarrow> ('c, GraphRuntimeOutcome option) rt" where
  "end_of_pass env node resume_target =
     rt_seq (rt_with (\<lambda>r. rt_emit env (NodeEnd node (iterations (r_ic r)) (r_now r - r_node_start r))))
    (if should_interrupt_after (handler env) node then rt_outcome True None True resume_target
     else move_on env node)"

definition after_success :: "'c run_env \<Rightarrow> string \<Rightarrow> ('c, GraphRuntimeOutcome option) rt" where
  "after_success env node =
     rt_seq (rt_modify (\<lambda>r. r\<lparr>r_node_history := r_node_history r @ [node]\<rparr>))
    (rt_seq (if sequential env then advance_frontier env node else rt_return ())
    (rt_bind (if \<not> should_interrupt_after (handler env) node then rt_return None
              else if sequential env
              then rt_with (\<lambda>r. rt_return (Some (case r_pending r of [] \<Rightarrow> END | n # _ \<Rightarrow> n)))
              else resolve_resume_target env node) (\<lambda>resume_target.
     rt_seq (rt_save env node resume_target True False)
    (rt_seq (rt_with (\<lambda>r. observe env ''complete'' node None (r_now r - r_node_start r)))
    (rt_seq (rt_modify (\<lambda>r. r\<lparr>r_active := None,
        r_state_history := (if record_state_history (checkpoint (re_config env))
          then r_state_history r @ [(node, r_state r)] else r_state_history r),
        r_streamed := r_streamed r @ [(node, r_state r)]\<rparr>))
    (end_of_pass env node resume_target))))))"

definition run_node :: "'c run_env \<Rightarrow> string \<Rightarrow> ('c, GraphRuntimeOutcome option) rt" where
  "run_node env node =
     rt_seq (rt_modify (\<lambda>r. r\<lparr>r_active := Some node\<rparr>))
    (rt_seq (observe env ''start'' node None 0)
    (rt_seq (case re_hook env of None \<Rightarrow> rt_return ()
             | Some h \<Rightarrow> rt_with (\<lambda>r. rt_lift (before_node h node (r_state r))))
    (rt_seq (rt_modify (\<lambda>r. r\<lparr>r_node_start := r_now r\<rparr>))
    (rt_seq (rt_with (\<lambda>r. rt_emit env (NodeStart node (iterations (r_ic r)))))
    (rt_bind (rt_execute env node) (\<lambda>(success, error).
     rt_seq (case re_hook env of None \<Rightarrow> rt_return ()
             | Some h \<Rightarrow> rt_with (\<lambda>r. rt_lift (after_node h node (r_state r) (if \<not> success then error else None))))
    (if \<not> success
     then rt_seq (report_node_error env (case error of Some e \<Rightarrow> e | None \<Rightarrow> ''Node execution failed''))
            (rt_outcome False error False None)
     else rt_with (\<lambda>r. case validate_state_after_node env node (r_state r) of
            Some err \<Rightarrow> rt_seq (report_node_error env err) (rt_outcome False (Some err) False None)
          | None \<Rightarrow> after_success env node))))))))"

definition loop_body :: "'c run_env \<Rightarrow> ('c, GraphRuntimeOutcome option) rt" where
  "loop_body env r =
     (let node = r_current r
      in case should_continue node (r_ic r) of
           ((go, error), ic) \<Rightarrow>
             (let r = r\<lparr>r_ic := ic\<rparr>
              in if \<not> go then rt_outcome False error False None r
                 else let bypass = (Some node = r_resume_past r); r = r\<lparr>r_resume_past := None\<rparr>
                      in if should_interrupt_before (handler env) node \<and> \<not> bypass
                         then pause_before env node r
                         else run_node env node r))"

section \<open>Reasoning about statements\<close>

text \<open>
  A triple says what holds after a statement that ends normally (with its result) and after
  one that raises; \<open>rt_inv\<close> is the special case of an invariant.
\<close>

definition triple ::
  "('c run \<Rightarrow> bool) \<Rightarrow> ('c, 'a) rt \<Rightarrow> ('a \<Rightarrow> 'c run \<Rightarrow> bool) \<Rightarrow> ('c run \<Rightarrow> bool) \<Rightarrow> bool" where
  "triple P m Q E \<longleftrightarrow> (\<forall>r. P r \<longrightarrow> (case m r of (Inl e, r') \<Rightarrow> E r' | (Inr x, r') \<Rightarrow> Q x r'))"

abbreviation rt_inv :: "('c run \<Rightarrow> bool) \<Rightarrow> ('c, 'a) rt \<Rightarrow> bool" where
  "rt_inv I m \<equiv> triple I m (\<lambda>_. I) I"

named_theorems rt_rules \<open>rules of the triples for the statements\<close>

lemma triple_return [rt_rules]: "(\<And>r. P r \<Longrightarrow> Q x r) \<Longrightarrow> triple P (rt_return x) Q E"
  by (simp add: triple_def rt_return_def)

lemma triple_lift [rt_rules]:
  "(\<And>r x. P r \<Longrightarrow> v = Inr x \<Longrightarrow> Q x r) \<Longrightarrow> (\<And>r e. P r \<Longrightarrow> v = Inl e \<Longrightarrow> E r) \<Longrightarrow> triple P (rt_lift v) Q E"
  by (auto simp: triple_def rt_lift_def split: sum.splits)

lemma triple_modify [rt_rules]: "(\<And>r. P r \<Longrightarrow> Q () (f r)) \<Longrightarrow> triple P (rt_modify f) Q E"
  by (simp add: triple_def rt_modify_def)

lemma tripleD:
  "triple P m Q E \<Longrightarrow> P r \<Longrightarrow> (\<And>e r'. m r = (Inl e, r') \<Longrightarrow> E r' \<Longrightarrow> thesis) \<Longrightarrow>
     (\<And>x r'. m r = (Inr x, r') \<Longrightarrow> Q x r' \<Longrightarrow> thesis) \<Longrightarrow> thesis"
  by (cases "m r"; cases "fst (m r)") (auto simp: triple_def)

lemma tripleI:
  "(\<And>r e r'. P r \<Longrightarrow> m r = (Inl e, r') \<Longrightarrow> E r') \<Longrightarrow> (\<And>r x r'. P r \<Longrightarrow> m r = (Inr x, r') \<Longrightarrow> Q x r') \<Longrightarrow>
     triple P m Q E"
  by (simp add: triple_def split: prod.split sum.split)

lemma triple_bind:
  assumes m: "triple P m R E" and k: "\<And>x. triple (R x) (k x) Q E"
  shows "triple P (rt_bind m k) Q E"
  unfolding triple_def
proof (intro allI impI)
  fix r assume "P r"
  with m show "case rt_bind m k r of (Inl e, r') \<Rightarrow> E r' | (Inr x, r') \<Rightarrow> Q x r'"
  proof (rule tripleD)
    fix x r' assume mr: "m r = (Inr x, r')" and "R x r'"
    from k this(2) show ?thesis by (rule tripleD) (simp_all add: rt_bind_def mr)
  qed (simp add: rt_bind_def)
qed

lemma triple_seq:
  "triple P m (\<lambda>_. R) E \<Longrightarrow> triple R k Q E \<Longrightarrow> triple P (rt_seq m k) Q E"
  unfolding rt_seq_def by (rule triple_bind)

lemma triple_with [rt_rules]: "(\<And>s. P s \<Longrightarrow> triple (\<lambda>r. r = s \<and> P r) (f s) Q E) \<Longrightarrow> triple P (rt_with f) Q E"
  by (auto simp: triple_def rt_with_def)

lemma triple_with_any: "(\<And>s. triple P (f s) Q E) \<Longrightarrow> triple P (rt_with f) Q E"
  by (simp add: triple_def rt_with_def)

lemma triple_outcome [rt_rules]: "(\<And>r x. P r \<Longrightarrow> Q (Some x) r) \<Longrightarrow> triple P (rt_outcome a b c d) Q E"
  by (simp add: triple_def rt_outcome_def)

lemma triple_weaken:
  "triple P m Q E \<Longrightarrow> (\<And>r. P' r \<Longrightarrow> P r) \<Longrightarrow> (\<And>x r. Q x r \<Longrightarrow> Q' x r) \<Longrightarrow> (\<And>r. E r \<Longrightarrow> E' r) \<Longrightarrow>
   triple P' m Q' E'"
  by (rule tripleI) (force elim: tripleD)+

lemma rt_inv_seq: "rt_inv I m \<Longrightarrow> rt_inv I k \<Longrightarrow> rt_inv I (rt_seq m k)"
  by (rule triple_seq)

lemma rt_inv_bind: "rt_inv I m \<Longrightarrow> (\<And>x. rt_inv I (k x)) \<Longrightarrow> rt_inv I (rt_bind m k)"
  by (rule triple_bind)

lemma rt_inv_with: "(\<And>s. rt_inv I (f s)) \<Longrightarrow> rt_inv I (rt_with f)"
  by (auto simp: triple_def rt_with_def)

lemmas rt_inv_rules = rt_inv_seq rt_inv_bind rt_inv_with triple_return triple_lift triple_modify triple_outcome

lemma rt_invD: "rt_inv I m \<Longrightarrow> I r \<Longrightarrow> I (snd (m r))"
  by (erule (1) tripleD) simp_all

text \<open>
  A projection of the variables that the statements between two routing decisions leave alone,
  and the statements that do.
\<close>

definition stable :: "('c run \<Rightarrow> 'x) \<Rightarrow> bool" where
  "stable f \<longleftrightarrow>
     (\<forall>r v. f (r\<lparr>r_state := v\<rparr>) = f r) \<and> (\<forall>r v. f (r\<lparr>r_now := v\<rparr>) = f r) \<and>
     (\<forall>r v. f (r\<lparr>r_store := v\<rparr>) = f r) \<and> (\<forall>r v. f (r\<lparr>r_gm := v\<rparr>) = f r) \<and>
     (\<forall>r v. f (r\<lparr>r_active := v\<rparr>) = f r) \<and> (\<forall>r v. f (r\<lparr>r_node_start := v\<rparr>) = f r) \<and>
     (\<forall>r v. f (r\<lparr>r_events := v\<rparr>) = f r)"

lemma stable_prims:
  assumes "stable f"
  shows "rt_inv (\<lambda>r. f r = c) (rt_emit env e)"
    and "rt_inv (\<lambda>r. f r = c) (observe env ph n er d)"
    and "rt_inv (\<lambda>r. f r = c) (report_node_error env msg)"
    and "rt_inv (\<lambda>r. f r = c) (save_frontier ns)"
    and "rt_inv (\<lambda>r. f r = c) (rt_next_node env n)"
    and "rt_inv (\<lambda>r. f r = c) (resolve_resume_target env n)"
  using assms
  by (auto simp: rt_emit_def observe_def report_node_error_def save_frontier_def rt_next_node_def Let_def
      resolve_resume_target_def stable_def triple_def rt_modify_def rt_return_def rt_with_def rt_lift_def
      rt_seq_def rt_bind_def split: option.splits sum.splits next_target.splits)

lemma stable_rt_save: "stable f \<Longrightarrow> rt_inv (\<lambda>r. f r = c) (rt_save env n nx a b)"
  by (rule tripleI) (auto simp: rt_save_def stable_def split: prod.splits)

lemma stable_rt_execute: "stable f \<Longrightarrow> rt_inv (\<lambda>r. f r = c) (rt_execute env n)"
  by (auto simp: rt_execute_def stable_def triple_def split: prod.splits sum.splits)

lemma stable_execute_parallel: "stable f \<Longrightarrow> rt_inv (\<lambda>r. f r = c) (execute_parallel env ss)"
  by (auto simp: execute_parallel_def stable_def triple_def Let_def split: prod.splits sum.splits option.splits)

lemmas stable_rules = stable_prims stable_rt_save stable_rt_execute stable_execute_parallel

text \<open>The iteration controller, the time budget and the resume marker.\<close>

definition control :: "'c run \<Rightarrow> IterationController \<times> TimeoutManager \<times> string option" where
  "control r = (r_ic r, r_tm r, r_resume_past r)"

lemma stable_control: "stable control"
  by (simp add: stable_def control_def)

lemma stable_streamed: "stable r_streamed"
  by (simp add: stable_def)

lemma enqueue_targets_form: "\<exists>ps. enqueue_targets ts r = r\<lparr>r_pending := ps\<rparr>"
proof (induction ts arbitrary: r)
  case Nil
  show ?case by (rule exI [of _ "r_pending r"]) (simp add: enqueue_targets_def)
next
  case (Cons t ts)
  obtain ps where "enqueue_target t r = r\<lparr>r_pending := ps\<rparr>"
    by (cases "t \<noteq> END \<and> t \<notin> set (r_visited r) \<and> t \<notin> set (r_pending r)")
      (auto simp: enqueue_target_def intro: that [of "r_pending r"])
  with Cons [of "enqueue_target t r"] show ?case by (auto simp: enqueue_targets_def)
qed

text \<open>A projection that the routing statements leave alone too.\<close>

definition steady :: "('c run \<Rightarrow> 'x) \<Rightarrow> bool" where
  "steady f \<longleftrightarrow> stable f \<and>
     (\<forall>r v. f (r\<lparr>r_pending := v\<rparr>) = f r) \<and> (\<forall>r v. f (r\<lparr>r_visited := v\<rparr>) = f r) \<and>
     (\<forall>r v. f (r\<lparr>r_current := v\<rparr>) = f r) \<and> (\<forall>r v. f (r\<lparr>r_node_history := v\<rparr>) = f r) \<and>
     (\<forall>r v. f (r\<lparr>r_state_history := v\<rparr>) = f r)"

lemma steady_stable: "steady f \<Longrightarrow> stable f"
  by (simp add: steady_def)

lemma steady_control: "steady control"
  by (simp add: steady_def stable_def control_def)

lemma steady_streamed: "steady r_streamed"
  by (simp add: steady_def stable_def)

lemma steady_enqueue: "steady f \<Longrightarrow> f (enqueue_targets ts r) = f r"
  using enqueue_targets_form [of ts r] by (auto simp: steady_def)

lemma steady_frontier:
  assumes "steady f"
  shows "rt_inv (\<lambda>r. f r = c) (advance_frontier env n)"
proof -
  note st = stable_rules [OF steady_stable [OF assms]]
  have upd: "f (r\<lparr>r_visited := v\<rparr>) = f r" for r v using assms by (simp add: steady_def)
  show ?thesis unfolding advance_frontier_def
    by (intro rt_inv_rules st)
      (auto simp: upd steady_enqueue [OF assms] intro!: rt_inv_rules st split: next_target.splits)
qed

lemma steady_move_on:
  assumes "steady f"
  shows "rt_inv (\<lambda>r. f r = c) (move_on env n)"
proof -
  note st = stable_rules [OF steady_stable [OF assms]]
  have upd: "f (r\<lparr>r_current := v\<rparr>) = f r" "f (r\<lparr>r_pending := w\<rparr>) = f r" "f (r\<lparr>r_node_history := x\<rparr>) = f r"
    "f (r\<lparr>r_current := v, r_pending := w\<rparr>) = f r" for r v w x
    using assms by (simp_all add: steady_def)
  show ?thesis unfolding move_on_def
    by (auto simp: upd intro!: rt_inv_rules st split: next_target.splits list.splits)
qed

lemma steady_pause_before:
  assumes "steady f"
  shows "rt_inv (\<lambda>r. f r = c) (pause_before env n)"
  unfolding pause_before_def
  by (auto intro!: rt_inv_rules stable_rules [OF steady_stable [OF assms]])

lemma steady_end_of_pass:
  assumes "steady f"
  shows "rt_inv (\<lambda>r. f r = c) (end_of_pass env n t)"
  unfolding end_of_pass_def
  by (auto intro!: rt_inv_rules stable_rules [OF steady_stable [OF assms]] steady_move_on [OF assms])

lemmas steady_rules = steady_frontier steady_move_on steady_pause_before steady_end_of_pass

lemma inv_of_eq:
  assumes "\<And>c. rt_inv (\<lambda>r. f r = c) m"
  shows "rt_inv (\<lambda>r. \<Phi> (f r)) m"
proof -
  have "f (snd (m r)) = f r" for r by (rule rt_invD [OF assms refl])
  then show ?thesis by (intro tripleI) (metis snd_conv)+
qed

lemma triple_disj_post: "triple P m (\<lambda>_. Q) Q \<Longrightarrow> (\<And>r. Q r \<Longrightarrow> Q' r) \<Longrightarrow> triple P m (\<lambda>_. Q') Q'"
  by (erule triple_weaken)

text \<open>A completed pass adds at most the pair of its node and the state it left.\<close>

definition adds_pair :: "(string \<times> state) list \<Rightarrow> string \<Rightarrow> 'c run \<Rightarrow> bool" where
  "adds_pair S n r \<longleftrightarrow> r_streamed r = S \<or> (\<exists>st. r_streamed r = S @ [(n, st)])"

lemma control_after_success: "rt_inv (\<lambda>r. control r = c) (after_success env n)"
proof -
  note st = stable_rules [OF steady_stable [OF steady_control]] steady_rules [OF steady_control]
  have upd: "control (r\<lparr>r_node_history := v\<rparr>) = control r"
    "control (r\<lparr>r_active := x, r_state_history := y, r_streamed := z\<rparr>) = control r" for r v x y z
    by (simp_all add: control_def)
  show ?thesis unfolding after_success_def
    by (auto simp: upd intro!: rt_inv_rules st)
qed

lemma control_run_node: "rt_inv (\<lambda>r. control r = c) (run_node env n)"
proof -
  note st = stable_rules [OF steady_stable [OF steady_control]] control_after_success
  have upd: "control (r\<lparr>r_active := v\<rparr>) = control r" "control (r\<lparr>r_node_start := x\<rparr>) = control r" for r v x
    by (simp_all add: control_def)
  show ?thesis unfolding run_node_def
    by (auto simp: upd intro!: rt_inv_rules st split: option.splits)
qed

lemma streamed_after_success:
  "triple (\<lambda>r. r_streamed r = S) (after_success env n) (\<lambda>_. adds_pair S n) (adds_pair S n)"
proof -
  note st = stable_rules [OF steady_stable [OF steady_streamed]] steady_rules [OF steady_streamed]
  have keep: "rt_inv (\<lambda>r. r_streamed r = S) m \<Longrightarrow>
      triple (\<lambda>r. r_streamed r = S) m (\<lambda>_ r. r_streamed r = S) (adds_pair S n)" for m :: "('a, 'x) rt"
    by (erule triple_weaken) (auto simp: adds_pair_def)
  have last: "rt_inv (\<lambda>r. \<exists>st. r_streamed r = S @ [(n, st)]) m" if "\<And>c. rt_inv (\<lambda>r. r_streamed r = c) m"
    for m :: "('a, 'x) rt"
    using inv_of_eq [of r_streamed m "\<lambda>l. \<exists>st. l = S @ [(n, st)]"] that by simp
  have fin: "triple (\<lambda>r. \<exists>st. r_streamed r = S @ [(n, st)]) (end_of_pass env n t)
      (\<lambda>_. adds_pair S n) (adds_pair S n)" for t
    by (rule triple_disj_post, rule last, rule st) (simp add: adds_pair_def)
  show ?thesis
    unfolding after_success_def
    by (intro triple_seq [where R = "\<lambda>r. r_streamed r = S"] triple_bind [where R = "\<lambda>_ r. r_streamed r = S"]
        triple_seq [where R = "\<lambda>r. \<exists>st. r_streamed r = S @ [(n, st)]"] keep)
      (auto intro!: rt_inv_rules st fin)
qed

lemma streamed_run_node:
  "triple (\<lambda>r. r_streamed r = S) (run_node env n) (\<lambda>_. adds_pair S n) (adds_pair S n)"
proof -
  note st = stable_rules [OF steady_stable [OF steady_streamed]]
  have keep: "rt_inv (\<lambda>r. r_streamed r = S) m \<Longrightarrow>
      triple (\<lambda>r. r_streamed r = S) m (\<lambda>_ r. r_streamed r = S) (adds_pair S n)" for m :: "('a, 'x) rt"
    by (erule triple_weaken) (auto simp: adds_pair_def)
  have over: "rt_inv (\<lambda>r. r_streamed r = S) m \<Longrightarrow>
      triple (\<lambda>r. r_streamed r = S) m (\<lambda>_. adds_pair S n) (adds_pair S n)" for m :: "('a, 'x) rt"
    by (erule triple_weaken) (auto simp: adds_pair_def)
  have tail: "triple (\<lambda>r. r_streamed r = S)
     (if \<not> ok
      then rt_seq (report_node_error env msg) (rt_outcome False er False None)
      else rt_with (\<lambda>r. case validate_state_after_node env n (r_state r) of
             Some err \<Rightarrow> rt_seq (report_node_error env err) (rt_outcome False (Some err) False None)
           | None \<Rightarrow> after_success env n)) (\<lambda>_. adds_pair S n) (adds_pair S n)" for ok msg er
  proof (cases ok)
    case True
    have "triple (\<lambda>r. r_streamed r = S)
       (case v of Some err \<Rightarrow> rt_seq (report_node_error env err) (rt_outcome False (Some err) False None)
        | None \<Rightarrow> after_success env n) (\<lambda>_. adds_pair S n) (adds_pair S n)" for v
      by (cases v) (auto intro!: over rt_inv_rules st streamed_after_success)
    with True show ?thesis by (simp add: triple_with_any)
  next
    case False
    then show ?thesis by (auto intro!: over rt_inv_rules st)
  qed
  show ?thesis unfolding run_node_def
    by (intro triple_seq [where R = "\<lambda>r. r_streamed r = S"] triple_bind [where R = "\<lambda>_ r. r_streamed r = S"] keep)
      (auto intro!: rt_inv_rules st tail triple_seq [where R = "\<lambda>r. r_streamed r = S"] keep split: option.splits)
qed

section \<open>The loop\<close>

text \<open>The variables when the body of a pass starts.\<close>

abbreviation begin_pass :: "IterationController \<Rightarrow> 'c run \<Rightarrow> 'c run" where
  "begin_pass ic r \<equiv> r\<lparr>r_ic := ic, r_resume_past := None\<rparr>"

lemma loop_body_cases:
  assumes "loop_body env r = (res, r')"
  obtains (stop) err ic out where "should_continue (r_current r) (r_ic r) = ((False, err), ic)"
      "res = Inr (Some out)" "o_success out = False" "o_error out = err" "r' = r\<lparr>r_ic := ic\<rparr>"
      "o_iterations out = iterations ic" "o_interrupted out = False"
      "rt_outcome False err False None (r\<lparr>r_ic := ic\<rparr>) = (res, r')"
  | (pause) ic where "should_continue (r_current r) (r_ic r) = ((True, None), ic)"
      "should_interrupt_before (handler env) (r_current r)" "Some (r_current r) \<noteq> r_resume_past r"
      "pause_before env (r_current r) (begin_pass ic r) = (res, r')"
  | (go) ic where "should_continue (r_current r) (r_ic r) = ((True, None), ic)"
      "should_interrupt_before (handler env) (r_current r) \<longrightarrow> Some (r_current r) = r_resume_past r"
      "run_node env (r_current r) (begin_pass ic r) = (res, r')"
proof -
  obtain go err ic where sc: "should_continue (r_current r) (r_ic r) = ((go, err), ic)"
    by (metis surj_pair)
  show thesis
  proof (cases go)
    case False
    with assms sc show thesis by (intro stop [of err ic]) (auto simp: loop_body_def Let_def rt_outcome_def)
  next
    case True
    with sc should_continue_True(2) [of "r_current r" "r_ic r" err ic]
    have sc': "should_continue (r_current r) (r_ic r) = ((True, None), ic)" by simp
    show thesis
    proof (cases "should_interrupt_before (handler env) (r_current r) \<and> Some (r_current r) \<noteq> r_resume_past r")
      case True
      with assms sc' show thesis by (intro pause [of ic]) (auto simp: loop_body_def Let_def)
    next
      case False
      with assms sc' show thesis by (intro go [of ic]) (auto simp: loop_body_def Let_def split: if_splits)
    qed
  qed
qed

lemma loop_body_control:
  assumes "loop_body env r = (res, r')"
  shows "r_ic r' = snd (should_continue (r_current r) (r_ic r)) \<and> r_tm r' = r_tm r"
  using assms
proof (cases rule: loop_body_cases)
  case (pause ic)
  then show ?thesis
    using rt_invD [OF steady_pause_before [OF steady_control] refl, of env "r_current r" "begin_pass ic r"]
    by (simp add: control_def)
next
  case (go ic)
  then show ?thesis
    using rt_invD [OF control_run_node refl, of env "r_current r" "begin_pass ic r"]
    by (simp add: control_def)
qed simp

lemma loop_body_go:
  "loop_body env r = (Inr None, r') \<Longrightarrow> \<exists>ic. should_continue (r_current r) (r_ic r) = ((True, None), ic)"
  by (erule loop_body_cases) auto

function run_loop :: "'c run_env \<Rightarrow> 'c run \<Rightarrow> GraphRuntimeOutcome result \<times> 'c run" where
  "run_loop env r =
     (if r_current r = END
      then (let r = r\<lparr>r_events := emit_graph_completed (re_rl_hooks env)
                       (emit_events (observability (re_config env))) True (iterations (r_ic r))
                       (get_elapsed (r_now r) (r_tm r)) (length (r_node_history r)) (r_events r)\<rparr>
            in case rt_outcome True None False None r of
                 (Inr (Some out), r) \<Rightarrow> (Inr out, r)
               | (_, r) \<Rightarrow> (Inl (PyExc ''AssertionError'' []), r))
      else (case loop_body env r of
              (Inl e, r') \<Rightarrow> (Inl e, r')
            | (Inr (Some out), r') \<Rightarrow> (Inr out, r')
            | (Inr None, r') \<Rightarrow> run_loop env r'))"
  by pat_completeness auto

termination run_loop
proof (relation "measure (\<lambda>(env, r). nat (ic_max_iterations (r_ic r) - iterations (r_ic r)))")
  fix env :: "'c run_env" and r r' :: "'c run" and res x2
  assume "(res, r') = loop_body env r" "res = Inr x2" "x2 = None"
  then have body: "loop_body env r = (Inr None, r')" by simp
  obtain ic where sc: "should_continue (r_current r) (r_ic r) = ((True, None), ic)"
    using loop_body_go [OF body] by blast
  have "iterations (r_ic r) + 1 \<le> ic_max_iterations (r_ic r)"
    using should_continue_True(1) [OF sc] should_continue_ic(3) [of "r_current r" "r_ic r"] sc by simp
  then show "((env, r'), env, r) \<in> measure (\<lambda>(env, r). nat (ic_max_iterations (r_ic r) - iterations (r_ic r)))"
    using loop_body_control [OF body] should_continue_ic [of "r_current r" "r_ic r"] by simp
qed simp

declare run_loop.simps [simp del]

text \<open>The handlers around the loop, and the loop with its prologue.\<close>

definition fail_run :: "'c run_env \<Rightarrow> string \<Rightarrow> ('c, GraphRuntimeOutcome option) rt" where
  "fail_run env message =
     rt_seq (report_node_error env message)
    (rt_seq (rt_with (\<lambda>r. rt_emit env (GraphError message (iterations (r_ic r)) (get_elapsed (r_now r) (r_tm r)))))
    (rt_outcome False (Some message) False None))"

definition start_run :: "'c run_env \<Rightarrow> 'c run \<Rightarrow> 'c run" where
  "start_run env r =
     (let routing = (if sequential env then gm_routing_state (r_gm r) else None)
      in r\<lparr>r_tm := tm_start (r_now r) (r_tm r),
           r_events := emit (emit_events (observability (re_config env)))
             (GraphStarted (cg_entry (re_graph env)) (length (cg_nodes (re_graph env))) (re_thread env)) (r_events r),
           r_node_history := [], r_state_history := [],
           r_pending := (case routing of Some q \<Rightarrow> tl (pending_nodes q) | None \<Rightarrow> []),
           r_visited := (case routing of Some q \<Rightarrow> remdups (visited_nodes q) | None \<Rightarrow> []),
           r_active := None, r_node_start := r_now r,
           r_resume_past := gm_resume_past_interrupt (r_gm r),
           r_gm := (r_gm r)\<lparr>gm_resume_past_interrupt := None\<rparr>\<rparr>)"

definition run_graph_execution :: "'c run_env \<Rightarrow> 'c run \<Rightarrow> GraphRuntimeOutcome result \<times> 'c run" where
  "run_graph_execution env r =
     (case run_loop env (start_run env r) of
        (Inr out, r') \<Rightarrow> (Inr out, r')
      | (Inl e, r') \<Rightarrow>
          (if exc_type e = ''ProviderPolicyError'' then (Inl e, r')
           else case fail_run env (if exc_type e = ''TimeoutError'' then ''Execution timeout'' else exc_msg e) r' of
                  (Inr (Some out), r'') \<Rightarrow> (Inr out, r'')
                | (Inr None, r'') \<Rightarrow> (Inl (PyExc ''AssertionError'' []), r'')
                | (Inl e', r'') \<Rightarrow> (Inl e', r'')))"

section \<open>Entry points\<close>

definition should_use_cow :: "bool result \<Rightarrow> 'c GraphConfig \<Rightarrow> bool" where
  "should_use_cow settings config =
     (case use_copy_on_write (performance config) of
        Some b \<Rightarrow> b | None \<Rightarrow> (case settings of Inr b \<Rightarrow> b | Inl _ \<Rightarrow> True))"

definition validate_input_state :: "'c run_env \<Rightarrow> state \<Rightarrow> unit result" where
  "validate_input_state env input =
     (let v = validation (re_config env); sch = cg_schema (re_graph env)
      in if \<not> validation_enabled v \<or> (case sch of NoSchema \<Rightarrow> True | _ \<Rightarrow> False) then Inr ()
         else let errors = validate_state sch input
              in if errors = [] then Inr ()
                 else if validation_strict v then Inl (StateValidationError (map (re_show_error env) errors))
                 else Inr ())"

text \<open>The collaborators of a new run at a time, before the initial state is loaded.\<close>

definition new_run :: "'c run_env \<Rightarrow> time \<Rightarrow> 'c \<Rightarrow> state \<Rightarrow> string \<Rightarrow> GraphCheckpointManager \<Rightarrow> 'c run" where
  "new_run env now store state current gm =
     \<lparr>r_state = state, r_current = current,
      r_ic = ic_init (max_iterations (execution (re_config env))) (recursion_limit (execution (re_config env))),
      r_tm = tm_init (exec_timeout (execution (re_config env))), r_now = now, r_store = store, r_gm = gm,
      r_pending = [], r_visited = [], r_resume_past = None, r_node_history = [], r_state_history = [],
      r_active = None, r_node_start = now, r_events = [], r_streamed = []\<rparr>"

definition load_run ::
  "'c run_env \<Rightarrow> time \<Rightarrow> 'c \<Rightarrow> state \<Rightarrow> (string \<Rightarrow> state \<Rightarrow> next_target result) option \<Rightarrow> 'c run result" where
  "load_run env now store input resolve =
     bind_result (load_initial_state (cfg_checkpointer (checkpoint (re_config env))) store (re_thread env) input
                    (cg_entry (re_graph env)) resolve gm_init) (\<lambda>(state, current, gm).
       Inr (new_run env now store state current gm))"

text \<open>An explicit start node replaces the loaded one, unless a sequential frontier was loaded.\<close>

definition override_start :: "string option \<Rightarrow> 'c run \<Rightarrow> 'c run result" where
  "override_start start_node r =
     (case start_node of
        None \<Rightarrow> Inr r
      | Some n \<Rightarrow>
          (if gm_routing_state (r_gm r) \<noteq> None
           then Inl (PyExc ''ValueError''
             (''Cannot override start_node for a sequential fan-out checkpoint; '' @
              ''resume without start_node to retain pending branches''))
           else Inr (r\<lparr>r_current := n\<rparr>)))"

definition run_to_result :: "'c run_env \<Rightarrow> 'c run \<Rightarrow> (GraphRuntimeOutcome \<times> 'c run) result" where
  "run_to_result env r =
     (case run_graph_execution env r of (Inl e, r') \<Rightarrow> Inl e | (Inr out, r') \<Rightarrow> Inr (out, r'))"

text \<open>\<^verbatim>\<open>invoke\<close>: the outcome, or the exception it raises, and the variables of the run for what it leaves
  behind (store, clock, events).\<close>

definition invoke ::
  "'c run_env \<Rightarrow> time \<Rightarrow> 'c \<Rightarrow> state \<Rightarrow> string option \<Rightarrow> (GraphRuntimeOutcome \<times> 'c run) result" where
  "invoke env now store input start_node =
     bind_result (validate_input_state env input) (\<lambda>_.
     bind_result (load_run env now store input
        (if start_node = None then Some (get_next_node (re_error_text env) (re_graph env)) else None)) (\<lambda>r.
     bind_result (override_start start_node r) (run_to_result env)))"

text \<open>\<^verbatim>\<open>stream\<close>: the pairs it yields, and whether it ends normally. The runner puts a pair into the
  queue for every completed node before it goes on.\<close>

definition stream_run :: "'c run_env \<Rightarrow> 'c run \<Rightarrow> (string \<times> state) list \<times> unit result" where
  "stream_run env r =
     (case run_graph_execution env r of
        (Inl e, r') \<Rightarrow> (r_streamed r', Inl e)
      | (Inr out, r') \<Rightarrow>
          (r_streamed r',
           if o_success out then Inr ()
           else Inl (PyExc ''RuntimeError''
             (case o_error out of Some e \<Rightarrow> if e = [] then ''Graph execution failed'' else e
              | None \<Rightarrow> ''Graph execution failed''))))"

definition stream :: "'c run_env \<Rightarrow> time \<Rightarrow> 'c \<Rightarrow> state \<Rightarrow> (string \<times> state) list \<times> unit result" where
  "stream env now store input =
     (case validate_input_state env input of
        Inl e \<Rightarrow> ([], Inl e)
      | Inr _ \<Rightarrow>
          (case load_run env now store input (Some (get_next_node (re_error_text env) (re_graph env))) of
             Inl e \<Rightarrow> ([], Inl e)
           | Inr r \<Rightarrow> stream_run (env\<lparr>re_observer := None\<rparr>) r))"

definition get_state_history :: "'c run_env \<Rightarrow> 'c \<Rightarrow> string \<Rightarrow> WorkflowCheckpoint list result" where
  "get_state_history env store tid =
     (case cfg_checkpointer (checkpoint (cg_config (re_graph env))) of
        None \<Rightarrow> Inr [] | Some ops \<Rightarrow> op_list ops store tid)"

text \<open>\<^verbatim>\<open>replay_from\<close>; the environment's thread is the fresh replay thread.\<close>

definition replay_from ::
  "'c run_env \<Rightarrow> time \<Rightarrow> 'c \<Rightarrow> string \<Rightarrow> string \<Rightarrow> (GraphRuntimeOutcome \<times> 'c run) result" where
  "replay_from env now store tid cid =
     (case cfg_checkpointer (checkpoint (cg_config (re_graph env))) of
        None \<Rightarrow> Inl (PyExc ''ValueError'' ''Cannot replay without a checkpointer configured on the graph.'')
      | Some ops \<Rightarrow>
          bind_result (op_list ops store tid) (\<lambda>cps.
            case find (\<lambda>cp. checkpoint_id cp = cid) cps of
              None \<Rightarrow> Inl (PyExc ''ValueError''
                (''Checkpoint '' @ quoted cid @ '' not found for thread '' @ quoted tid @ ''.''))
            | Some target \<Rightarrow>
                (if dict_has (metadata target) ''sequential_frontier''
                 then Inl (PyExc ''ValueError''
                   (''Cannot replay a sequential fan-out checkpoint by node; '' @
                    ''resume its thread with invoke() to retain pending branches''))
                 else invoke env now store (cp_state target) (Some (node_id target)))))"

section \<open>Invariants of the loop\<close>

lemma run_loop_rule:
  assumes "I r"
    and "\<And>r r'. I r \<Longrightarrow> r_current r \<noteq> END \<Longrightarrow> loop_body env r = (Inr None, r') \<Longrightarrow> I r'"
    and "\<And>r res r'. I r \<Longrightarrow> r_current r \<noteq> END \<Longrightarrow> loop_body env r = (res, r') \<Longrightarrow> res \<noteq> Inr None \<Longrightarrow> Q r'"
    and "\<And>r evs. I r \<Longrightarrow> r_current r = END \<Longrightarrow> Q (r\<lparr>r_events := evs\<rparr>)"
  shows "Q (snd (run_loop env r))"
  using assms
proof (induction env r rule: run_loop.induct)
  case (1 env r)
  show ?case
  proof (cases "r_current r = END")
    case True
    with "1.prems"(4) [OF "1.prems"(1)] show ?thesis
      by (simp add: run_loop.simps [of env r] rt_outcome_def Let_def)
  next
    case False
    obtain res r' where body: "loop_body env r = (res, r')" by (metis surj_pair)
    show ?thesis
    proof (cases "res = Inr None")
      case True
      with body have nx: "loop_body env r = (Inr None, r')" by simp
      have "Q (snd (run_loop env r'))"
        by (rule "1.IH" [OF False nx [symmetric] refl refl "1.prems"(2) [OF "1.prems"(1) False nx]])
          (fact "1.prems"(2), fact "1.prems"(3), fact "1.prems"(4))
      with False nx show ?thesis by (simp add: run_loop.simps [of env r])
    next
      case neq: False
      with "1.prems"(3) [OF "1.prems"(1) False body] False body show ?thesis
        by (auto simp: run_loop.simps [of env r] split: sum.splits option.splits)
    qed
  qed
qed

text \<open>How often nodes completed, against the counters of the iteration controller.\<close>

abbreviation completions :: "'c run \<Rightarrow> string \<Rightarrow> int" where
  "completions r n \<equiv> int (count_list (map fst (r_streamed r)) n)"

abbreviation visits :: "IterationController \<Rightarrow> string \<Rightarrow> int" where
  "visits ic n \<equiv> dict_get_or (visited_count ic) n 0"

definition bounded :: "int \<Rightarrow> int \<Rightarrow> 'c run \<Rightarrow> bool" where
  "bounded max_it limit r \<longleftrightarrow>
     ic_max_iterations (r_ic r) = max_it \<and> ic_recursion_limit (r_ic r) = limit \<and>
     int (length (r_streamed r)) \<le> iterations (r_ic r) \<and> iterations (r_ic r) \<le> max_it \<and>
     (\<forall>n. completions r n \<le> visits (r_ic r) n \<and> visits (r_ic r) n \<le> limit)"

definition in_bounds :: "int \<Rightarrow> int \<Rightarrow> 'c run \<Rightarrow> bool" where
  "in_bounds max_it limit r \<longleftrightarrow>
     iterations (r_ic r) \<le> max_it + 1 \<and> int (length (r_streamed r)) \<le> max_it \<and>
     (\<forall>n. completions r n \<le> limit)"

lemma bounded_in_bounds: "bounded m l r \<Longrightarrow> in_bounds m l r"
  unfolding bounded_def in_bounds_def by (meson order_trans zle_add1_eq_le less_imp_le)

lemma loop_body_streamed:
  assumes "loop_body env r = (res, r')"
  shows "adds_pair (r_streamed r) (r_current r) r'"
  using assms
proof (cases rule: loop_body_cases)
  case (pause ic)
  then show ?thesis
    using rt_invD [OF steady_pause_before [OF steady_streamed] refl, of env "r_current r" "begin_pass ic r"]
    by (simp add: adds_pair_def)
next
  case (go ic)
  from streamed_run_node [of "r_streamed r" env "r_current r"] show ?thesis
    by (rule tripleD [where r = "begin_pass ic r"]) (use go in simp_all)
qed (simp add: adds_pair_def)

lemma bounded_pass:
  assumes "bounded m l r" and body: "loop_body env r = (res, r')"
    and sc: "should_continue (r_current r) (r_ic r) = ((True, None), ic)"
  shows "bounded m l r'"
proof -
  have ic: "r_ic r' = ic" using loop_body_control [OF body] sc by simp
  have v: "visits ic n = (if n = r_current r then visits (r_ic r) n + 1 else visits (r_ic r) n)" for n
    using should_continue_True(3) [OF sc] by (simp add: dict_get_or_def dict_simps)
  note sc' = should_continue_ic [of "r_current r" "r_ic r", unfolded sc snd_conv]
  have len: "int (length (r_streamed r')) \<le> int (length (r_streamed r)) + 1"
    and cnt: "completions r' n \<le> (if n = r_current r then completions r n + 1 else completions r n)" for n
    using loop_body_streamed [OF body] by (auto simp: adds_pair_def)
  have "completions r' n \<le> visits ic n" for n
  proof -
    have "completions r n \<le> visits (r_ic r) n" using assms(1) by (simp add: bounded_def)
    with cnt [of n] v [of n] show ?thesis by (simp split: if_splits)
  qed
  moreover have "visits ic n \<le> l" for n
    using v [of n] assms(1) should_continue_True(4) [OF sc] by (auto simp: bounded_def)
  ultimately show ?thesis
    using len sc' ic assms(1) should_continue_True(1) [OF sc] by (auto simp: bounded_def)
qed

lemma bounded_loop:
  assumes "bounded m l r"
  shows "in_bounds m l (snd (run_loop env r))"
proof (rule run_loop_rule [where I = "bounded m l"])
  fix r r' :: "'a run" assume "bounded m l r" "loop_body env r = (Inr None, r')"
  then show "bounded m l r'" using bounded_pass loop_body_go by blast
next
  fix r r' :: "'a run" and res assume b: "bounded m l r" and body: "loop_body env r = (res, r')"
  show "in_bounds m l r'"
  proof (cases "fst (fst (should_continue (r_current r) (r_ic r)))")
    case True
    with should_continue_True(2) [of "r_current r" "r_ic r"]
    obtain ic where "should_continue (r_current r) (r_ic r) = ((True, None), ic)"
      by (metis (full_types) surjective_pairing)
    with bounded_pass [OF b body] show ?thesis by (simp add: bounded_in_bounds)
  next
    case False
    from body show ?thesis
    proof (cases rule: loop_body_cases)
      case (stop err ic out)
      then show ?thesis
        using b should_continue_ic(3) [of "r_current r" "r_ic r"]
        by (auto simp: bounded_def in_bounds_def intro: order_trans)
    qed (use False in auto)
  qed
qed (use assms bounded_in_bounds in \<open>auto simp: in_bounds_def bounded_def intro: order_trans\<close>)

subsection \<open>The outcome mirrors the variables\<close>

definition mirrors :: "GraphRuntimeOutcome \<Rightarrow> 'c run \<Rightarrow> bool" where
  "mirrors out r \<longleftrightarrow> o_state out = r_state r \<and> o_iterations out = iterations (r_ic r) \<and>
     o_node_history out = r_node_history r \<and> o_state_history out = r_state_history r \<and>
     o_duration out = get_elapsed (r_now r) (r_tm r)"

text \<open>Every outcome a statement returns satisfies a condition.\<close>

abbreviation returns :: "(GraphRuntimeOutcome \<Rightarrow> 'c run \<Rightarrow> bool) \<Rightarrow> ('c, GraphRuntimeOutcome option) rt \<Rightarrow> bool" where
  "returns \<Phi> m \<equiv> triple (\<lambda>_. True) m (\<lambda>x r. \<forall>out. x = Some out \<longrightarrow> \<Phi> out r) (\<lambda>_. True)"

abbreviation unfinished :: "GraphRuntimeOutcome \<Rightarrow> 'c run \<Rightarrow> bool" where
  "unfinished out r \<equiv> o_success out \<longrightarrow> o_interrupted out"

lemma mirror_outcome: "returns mirrors (rt_outcome a b c d)"
  by (simp add: triple_def rt_outcome_def mirrors_def)

lemma unfinished_outcome: "(a \<longrightarrow> c) \<Longrightarrow> returns unfinished (rt_outcome a b c d)"
  by (simp add: triple_def rt_outcome_def)

lemma returns_seq: "returns \<Phi> k \<Longrightarrow> returns \<Phi> (rt_seq m k)"
  by (rule triple_seq [where R = "\<lambda>_. True"]) (auto intro: tripleI)

lemma returns_bind: "(\<And>x. returns \<Phi> (k x)) \<Longrightarrow> returns \<Phi> (rt_bind m k)"
  by (rule triple_bind [where R = "\<lambda>_ _. True"]) (auto intro: tripleI)

lemma returns_None: "returns \<Phi> (rt_return None)" "returns \<Phi> (rt_lift (Inl e))"
  by (simp_all add: triple_def rt_return_def rt_lift_def)

lemmas returns_rules = returns_seq returns_bind returns_None triple_with_any

lemmas phase_defs = pause_before_def run_node_def after_success_def end_of_pass_def move_on_def

lemma mirror_phases:
  "returns mirrors (pause_before env n)" "returns mirrors (run_node env n)" "returns mirrors (fail_run env msg)"
  unfolding phase_defs fail_run_def
  by (auto intro!: returns_rules mirror_outcome split: option.split next_target.split)

lemma unfinished_phases: "returns unfinished (pause_before env n)" "returns unfinished (run_node env n)"
  unfolding phase_defs
  by (auto intro!: returns_rules unfinished_outcome split: option.split next_target.split)

lemma loop_body_unfinished:
  assumes "loop_body env r = (Inr (Some out), r')" and "o_success out"
  shows "o_interrupted out"
  using assms(1)
proof (cases rule: loop_body_cases)
  case (pause ic)
  from unfinished_phases(1) [of env "r_current r"] show ?thesis
    by (rule tripleD [where r = "begin_pass ic r"]) (use pause assms in auto)
next
  case (go ic)
  from unfinished_phases(2) [of env "r_current r"] show ?thesis
    by (rule tripleD [where r = "begin_pass ic r"]) (use go assms in auto)
qed (use assms in auto)

lemma run_loop_mirrors: "run_loop env r = (Inr out, r') \<Longrightarrow> mirrors out r'"
proof (induction env r rule: run_loop.induct)
  case (1 env r)
  show ?case
  proof (cases "r_current r = END")
    case True
    with "1.prems" show ?thesis
      by (auto simp: run_loop.simps [of env r] rt_outcome_def mirrors_def Let_def)
  next
    case False
    obtain res r1 where body: "loop_body env r = (res, r1)" by (metis surj_pair)
    show ?thesis
    proof (cases "res = Inr None")
      case True
      with body have nx: "loop_body env r = (Inr None, r1)" by simp
      with "1.prems" False "1.IH" [OF False nx [symmetric] refl refl] show ?thesis
        by (simp add: run_loop.simps [of env r])
    next
      case neq: False
      with "1.prems" False body have res: "res = Inr (Some out)" "r1 = r'"
        by (auto simp: run_loop.simps [of env r] split: sum.splits option.splits)
      from body show ?thesis
      proof (cases rule: loop_body_cases)
        case (stop err ic out')
        from mirror_outcome [of False err False None] show ?thesis
          by (rule tripleD [where r = "r\<lparr>r_ic := ic\<rparr>"]) (use stop res in auto)
      next
        case (pause ic)
        from mirror_phases(1) [of env "r_current r"] show ?thesis
          by (rule tripleD [where r = "begin_pass ic r"]) (use pause res in auto)
      next
        case (go ic)
        from mirror_phases(2) [of env "r_current r"] show ?thesis
          by (rule tripleD [where r = "begin_pass ic r"]) (use go res in auto)
      qed
    qed
  qed
qed

lemma run_graph_mirrors:
  assumes "run_graph_execution env r = (Inr out, r')"
  shows "mirrors out r'"
proof (cases "run_loop env (start_run env r)")
  case (Pair res r1)
  show ?thesis
  proof (cases res)
    case (Inr o1)
    with Pair assms run_loop_mirrors [of env "start_run env r" o1 r1] show ?thesis
      by (auto simp: run_graph_execution_def)
  next
    case (Inl e)
    let ?m = "fail_run env (if exc_type e = ''TimeoutError'' then ''Execution timeout'' else exc_msg e)"
    have "triple (\<lambda>_. True) ?m (\<lambda>x r. \<forall>out. x = Some out \<longrightarrow> mirrors out r) (\<lambda>_. True)"
      by (rule mirror_phases(3))
    then show ?thesis
      by (rule tripleD [where r = r1])
        (use Pair Inl assms in \<open>auto simp: run_graph_execution_def split: if_splits option.splits\<close>)
  qed
qed

lemma fail_run_stable: "stable f \<Longrightarrow> rt_inv (\<lambda>r. f r = c) (fail_run env msg)"
  unfolding fail_run_def by (auto intro!: rt_inv_rules stable_rules)

lemma run_graph_stable:
  assumes "stable f"
  shows "f (snd (run_graph_execution env r)) = f (snd (run_loop env (start_run env r)))"
  using rt_invD [OF fail_run_stable [OF assms] refl]
  by (auto simp: run_graph_execution_def split: sum.splits prod.splits option.splits) (metis snd_conv)+

lemma stable_ic: "stable r_ic"
  by (simp add: stable_def)

lemma bounded_start:
  "0 \<le> max_iterations (execution (re_config env)) \<Longrightarrow> 0 \<le> recursion_limit (execution (re_config env)) \<Longrightarrow>
   bounded (max_iterations (execution (re_config env))) (recursion_limit (execution (re_config env)))
     (start_run env (new_run env now store st cur gm))"
  by (simp add: bounded_def start_run_def new_run_def ic_init_def dict_get_or_def Let_def)

lemma run_graph_in_bounds:
  assumes "0 \<le> max_iterations (execution (re_config env))" "0 \<le> recursion_limit (execution (re_config env))"
  shows "in_bounds (max_iterations (execution (re_config env))) (recursion_limit (execution (re_config env)))
    (snd (run_graph_execution env (new_run env now store st cur gm)))"
  using bounded_loop [OF bounded_start [OF assms], of env now store st cur gm]
  by (simp add: in_bounds_def run_graph_stable [OF stable_ic] run_graph_stable [OF stable_streamed])

subsection \<open>The nodes of a run form a routed path\<close>

definition routed :: "'c run_env \<Rightarrow> string \<Rightarrow> state \<Rightarrow> string \<Rightarrow> bool" where
  "routed env n st m \<longleftrightarrow>
     (case get_next_node (re_error_text env) (re_graph env) n st of
        Inr (To k) \<Rightarrow> m = k | Inr (Sends ss) \<Rightarrow> m = join_node ss | _ \<Rightarrow> False)"

definition path :: "'c run_env \<Rightarrow> (string \<times> state) list \<Rightarrow> bool" where
  "path env ps \<longleftrightarrow> successively (\<lambda>(n, st) (m, _). routed env n st m) ps"

definition at_head :: "'c run_env \<Rightarrow> string \<Rightarrow> 'c run \<Rightarrow> bool" where
  "at_head env start r \<longleftrightarrow> path env (r_streamed r) \<and>
     (if r_streamed r = [] then r_current r = start
      else fst (hd (r_streamed r)) = start \<and>
           routed env (fst (last (r_streamed r))) (snd (last (r_streamed r))) (r_current r))"

definition on_path :: "'c run_env \<Rightarrow> string \<Rightarrow> 'c run \<Rightarrow> bool" where
  "on_path env start r \<longleftrightarrow> path env (r_streamed r) \<and> (r_streamed r \<noteq> [] \<longrightarrow> fst (hd (r_streamed r)) = start)"

lemma at_head_on_path: "at_head env start r \<Longrightarrow> on_path env start r"
  by (simp add: at_head_def on_path_def)

lemma path_snoc:
  "path env (ps @ [(n, st)]) \<longleftrightarrow>
     path env ps \<and> (ps = [] \<or> routed env (fst (last ps)) (snd (last ps)) n)"
  by (auto simp: path_def successively_append_iff split_beta)

lemma path_single [simp]: "path env [p]"
  by (simp add: path_def)

text \<open>The link that the end of a pass makes.\<close>

definition linked :: "'c run_env \<Rightarrow> (string \<times> state) list \<Rightarrow> string \<Rightarrow> 'c run \<Rightarrow> bool" where
  "linked env S n r \<longleftrightarrow> (\<exists>st. r_streamed r = S @ [(n, st)] \<and> routed env n st (r_current r))"

lemma move_on_links:
  assumes "\<not> sequential env" and "r_streamed r = S @ [(n, r_state r)]" and "move_on env n r = (Inr x, r')"
  shows "linked env S n r'"
proof (cases "get_next_node (re_error_text env) (re_graph env) n (r_state r)")
  case (Inl e)
  with assms show ?thesis by (simp add: move_on_def rt_bind_def rt_next_node_def)
next
  case (Inr t)
  show ?thesis
  proof (cases t)
    case (To k)
    with Inr assms show ?thesis
      by (auto simp: move_on_def rt_bind_def rt_seq_def rt_next_node_def rt_modify_def rt_return_def linked_def routed_def)
  next
    case (Fan ks)
    with Inr assms show ?thesis by (simp add: move_on_def rt_bind_def rt_next_node_def rt_lift_def)
  next
    case (Sends ss)
    obtain res r1 where par: "execute_parallel env ss r = (res, r1)" by (metis surj_pair)
    have "r_streamed r1 = r_streamed r"
      using rt_invD [OF stable_execute_parallel [OF stable_streamed] refl, of env ss r] par by simp
    with Inr Sends assms par show ?thesis
      by (cases res) (auto simp: move_on_def rt_bind_def rt_seq_def rt_next_node_def rt_modify_def rt_return_def
          linked_def routed_def)
  qed
qed

lemma end_of_pass_links:
  assumes "\<not> sequential env"
  shows "triple (\<lambda>r. r_streamed r = S @ [(n, r_state r)]) (end_of_pass env n t)
    (\<lambda>x r. x = None \<longrightarrow> linked env S n r) (\<lambda>_. True)"
proof (rule tripleI)
  fix r x r' assume st: "r_streamed r = S @ [(n, r_state r)]" and e: "end_of_pass env n t r = (Inr x, r')"
  let ?r = "r\<lparr>r_events := emit (emit_events (observability (re_config env)))
       (NodeEnd n (iterations (r_ic r)) (r_now r - r_node_start r)) (r_events r)\<rparr>"
  show "x = None \<longrightarrow> linked env S n r'"
    using move_on_links [OF assms, of ?r S n x r'] st e
    by (auto simp: end_of_pass_def rt_seq_def rt_bind_def rt_with_def rt_emit_def rt_modify_def rt_outcome_def
        split: if_splits)
qed simp

lemma after_success_links:
  assumes "\<not> sequential env"
  shows "triple (\<lambda>r. r_streamed r = S) (after_success env n) (\<lambda>x r. x = None \<longrightarrow> linked env S n r) (\<lambda>_. True)"
proof -
  note st = stable_rules [OF stable_streamed]
  have keep: "rt_inv (\<lambda>r. r_streamed r = S) m \<Longrightarrow>
      triple (\<lambda>r. r_streamed r = S) m (\<lambda>_ r. r_streamed r = S) (\<lambda>_. True)" for m :: "('a, 'x) rt"
    by (erule triple_weaken) auto
  show ?thesis
    unfolding after_success_def
    by (intro triple_seq [where R = "\<lambda>r. r_streamed r = S"] triple_bind [where R = "\<lambda>_ r. r_streamed r = S"]
        triple_seq [where R = "\<lambda>r. r_streamed r = S @ [(n, r_state r)]"] keep)
      (use assms in \<open>auto intro!: rt_inv_rules st end_of_pass_links\<close>)
qed

lemma run_node_links:
  assumes "\<not> sequential env"
  shows "triple (\<lambda>r. r_streamed r = S) (run_node env n) (\<lambda>x r. x = None \<longrightarrow> linked env S n r) (\<lambda>_. True)"
proof -
  note st = stable_rules [OF stable_streamed]
  have keep: "rt_inv (\<lambda>r. r_streamed r = S) m \<Longrightarrow>
      triple (\<lambda>r. r_streamed r = S) m (\<lambda>_ r. r_streamed r = S) (\<lambda>_. True)" for m :: "('a, 'x) rt"
    by (erule triple_weaken) auto
  have out: "triple (\<lambda>r. r_streamed r = S) (rt_seq m (rt_outcome a b c d)) (\<lambda>x r. x = None \<longrightarrow> linked env S n r) (\<lambda>_. True)"
    for m :: "('a, unit) rt" and a b c d
    by (rule triple_seq [where R = "\<lambda>_. True"]) (auto intro: tripleI triple_outcome)
  have val: "triple (\<lambda>r. r_streamed r = S)
       (case v of Some err \<Rightarrow> rt_seq (report_node_error env err) (rt_outcome False (Some err) False None)
        | None \<Rightarrow> after_success env n) (\<lambda>x r. x = None \<longrightarrow> linked env S n r) (\<lambda>_. True)" for v
    by (cases v) (simp_all add: out after_success_links [OF assms])
  show ?thesis unfolding run_node_def
    by (intro triple_seq [where R = "\<lambda>r. r_streamed r = S"] triple_bind [where R = "\<lambda>_ r. r_streamed r = S"] keep)
      (auto intro!: rt_inv_rules st triple_seq [where R = "\<lambda>r. r_streamed r = S"] keep out triple_with_any val
        split: option.splits)
qed

lemma at_head_pass:
  assumes seq: "\<not> sequential env" and head: "at_head env start r" and body: "loop_body env r = (res, r')"
  shows "on_path env start r'" and "res = Inr None \<Longrightarrow> at_head env start r'"
proof -
  have "adds_pair (r_streamed r) (r_current r) r'" by (rule loop_body_streamed [OF body])
  with head show on: "on_path env start r'"
    by (auto simp: adds_pair_def at_head_def on_path_def path_snoc split: if_splits)
  assume none: "res = Inr None"
  from body show "at_head env start r'"
  proof (cases rule: loop_body_cases)
    case (pause ic)
    then show ?thesis using none
      by (auto simp: pause_before_def rt_seq_def rt_bind_def rt_outcome_def split: prod.splits sum.splits)
  next
    case (go ic)
    from run_node_links [OF seq, of "r_streamed r" "r_current r"] have "linked env (r_streamed r) (r_current r) r'"
      by (rule tripleD [where r = "begin_pass ic r"]) (use go none in auto)
    then show ?thesis using on by (auto simp: linked_def at_head_def on_path_def)
  qed (use none in simp)
qed

lemma run_loop_path:
  assumes "\<not> sequential env" and "at_head env start r"
  shows "on_path env start (snd (run_loop env r))"
proof (rule run_loop_rule [where I = "at_head env start", OF assms(2)])
  fix r :: "'a run" and evs assume "at_head env start r"
  then show "on_path env start (r\<lparr>r_events := evs\<rparr>)" by (simp add: at_head_def on_path_def)
qed (use at_head_pass [OF assms(1)] in blast)+

subsection \<open>What is recorded is what is streamed\<close>

definition recorded :: "'c run_env \<Rightarrow> 'c run \<Rightarrow> bool" where
  "recorded env r \<longleftrightarrow>
     r_state_history r = (if record_state_history (checkpoint (re_config env)) then r_streamed r else [])"

lemma recorded_stable: "stable (\<lambda>r. (r_state_history r, r_streamed r))"
  by (simp add: stable_def)

lemma recorded_prims:
  assumes "\<And>c. rt_inv (\<lambda>r. (r_state_history r, r_streamed r) = c) m"
  shows "rt_inv (recorded env) m"
  using inv_of_eq [OF assms, of "\<lambda>(h, s). h = (if record_state_history (checkpoint (re_config env)) then s else [])"]
  by (simp add: recorded_def [abs_def])

lemmas recorded_rules = recorded_prims [OF stable_rules(1) [OF recorded_stable]]
  recorded_prims [OF stable_rules(2) [OF recorded_stable]] recorded_prims [OF stable_rules(3) [OF recorded_stable]]
  recorded_prims [OF stable_rules(4) [OF recorded_stable]] recorded_prims [OF stable_rules(5) [OF recorded_stable]]
  recorded_prims [OF stable_rules(6) [OF recorded_stable]] recorded_prims [OF stable_rules(7) [OF recorded_stable]]
  recorded_prims [OF stable_rules(8) [OF recorded_stable]] recorded_prims [OF stable_rules(9) [OF recorded_stable]]

lemma recorded_phases: "rt_inv (recorded env) (run_node env n)" "rt_inv (recorded env) (pause_before env n)"
proof -
  have enq: "recorded env (enqueue_targets ts r) = recorded env r" for ts r
    using enqueue_targets_form [of ts r] by (auto simp: recorded_def)
  have upd: "recorded env (r\<lparr>r_pending := a\<rparr>) = recorded env r" "recorded env (r\<lparr>r_current := b\<rparr>) = recorded env r"
    "recorded env (r\<lparr>r_current := b, r_pending := a\<rparr>) = recorded env r"
    "recorded env (r\<lparr>r_visited := a\<rparr>) = recorded env r" "recorded env (r\<lparr>r_node_history := a\<rparr>) = recorded env r"
    "recorded env (r\<lparr>r_active := c\<rparr>) = recorded env r" "recorded env (r\<lparr>r_node_start := d\<rparr>) = recorded env r"
    for r a b c d
    by (simp_all add: recorded_def)
  have rec: "recorded env (r\<lparr>r_active := None,
        r_state_history := (if record_state_history (checkpoint (re_config env))
          then r_state_history r @ [(n, r_state r)] else r_state_history r),
        r_streamed := r_streamed r @ [(n, r_state r)]\<rparr>)" if "recorded env r" for r :: "'a run"
    using that by (auto simp: recorded_def)
  show "rt_inv (recorded env) (pause_before env n)" unfolding pause_before_def
    by (auto intro!: rt_inv_rules recorded_rules)
  have front: "rt_inv (recorded env) (advance_frontier env n)"
    unfolding advance_frontier_def
    by (auto simp: upd enq intro!: rt_inv_rules recorded_rules split: next_target.splits)
  have move: "rt_inv (recorded env) (move_on env n)"
    unfolding move_on_def
    by (auto simp: upd intro!: rt_inv_rules recorded_rules split: next_target.splits list.splits)
  have succ: "rt_inv (recorded env) (after_success env n)"
    unfolding after_success_def end_of_pass_def
    by (auto simp: upd intro!: rt_inv_rules recorded_rules front move rec)
  show "rt_inv (recorded env) (run_node env n)" unfolding run_node_def
    by (auto simp: upd intro!: rt_inv_rules recorded_rules succ split: option.splits)
qed

lemma recorded_pass:
  assumes "recorded env r" and "loop_body env r = (res, r')"
  shows "recorded env r'"
  using assms(2)
proof (cases rule: loop_body_cases)
  case (pause ic)
  then show ?thesis using rt_invD [OF recorded_phases(2), of env "begin_pass ic r" "r_current r"] assms(1)
    by (simp add: recorded_def)
next
  case (go ic)
  then show ?thesis using rt_invD [OF recorded_phases(1), of env "begin_pass ic r" "r_current r"] assms(1)
    by (simp add: recorded_def)
qed (use assms in \<open>simp add: recorded_def\<close>)

lemma run_loop_recorded: "recorded env r \<Longrightarrow> recorded env (snd (run_loop env r))"
proof (rule run_loop_rule [where I = "recorded env"], assumption)
  fix r :: "'a run" and evs assume "recorded env r"
  then show "recorded env (r\<lparr>r_events := evs\<rparr>)" by (simp add: recorded_def)
qed (use recorded_pass in blast)+

subsection \<open>Sequential fan-out visits every node once\<close>

text \<open>
  The nodes known as visited are those the run started with and those it completed; the queue
  holds no node twice, none that was visited, and not the end token.
\<close>

definition ids :: "(string \<times> state) list \<Rightarrow> string set" where
  "ids ps = set (map fst ps)"

definition once :: "string set \<Rightarrow> (string \<times> state) list \<Rightarrow> bool" where
  "once V0 ps \<longleftrightarrow> distinct (map fst ps) \<and> V0 \<inter> ids ps = {}"

lemma ids_snoc [simp]: "ids (ps @ [(n, st)]) = insert n (ids ps)"
  by (simp add: ids_def)

lemma once_snoc: "once V0 (ps @ [(n, st)]) \<longleftrightarrow> once V0 ps \<and> n \<notin> V0 \<union> ids ps"
  by (auto simp: once_def ids_def)

definition queue_ok :: "'c run \<Rightarrow> bool" where
  "queue_ok r \<longleftrightarrow> distinct (r_pending r) \<and> END \<notin> set (r_pending r) \<and> set (r_pending r) \<inter> set (r_visited r) = {}"

definition seq_head :: "string set \<Rightarrow> 'c run \<Rightarrow> bool" where
  "seq_head V0 r \<longleftrightarrow> queue_ok r \<and> once V0 (r_streamed r) \<and>
     set (r_visited r) = V0 \<union> ids (r_streamed r) \<and>
     (r_current r \<noteq> END \<longrightarrow> r_current r \<notin> set (r_pending r) \<union> set (r_visited r))"

definition seq_mid :: "string set \<Rightarrow> string \<Rightarrow> 'c run \<Rightarrow> bool" where
  "seq_mid V0 n r \<longleftrightarrow> queue_ok r \<and> once V0 (r_streamed r) \<and>
     set (r_visited r) = insert n (V0 \<union> ids (r_streamed r)) \<and> n \<notin> V0 \<union> ids (r_streamed r)"

definition seq_end :: "string set \<Rightarrow> 'c run \<Rightarrow> bool" where
  "seq_end V0 r \<longleftrightarrow> queue_ok r \<and> once V0 (r_streamed r) \<and> set (r_visited r) = V0 \<union> ids (r_streamed r)"

lemma enqueue_queue_ok: "queue_ok r \<Longrightarrow> queue_ok (enqueue_targets ts r)"
proof (induction ts arbitrary: r)
  case (Cons t ts)
  have "queue_ok (enqueue_target t r)"
    using Cons.prems by (auto simp: enqueue_target_def queue_ok_def)
  from Cons.IH [OF this] show ?case by (simp add: enqueue_targets_def)
qed (simp add: enqueue_targets_def)

lemma enqueue_mid: "seq_mid V0 n r \<Longrightarrow> seq_mid V0 n (enqueue_targets ts r)"
  using enqueue_queue_ok [of r ts] enqueue_targets_form [of ts r] by (auto simp: seq_mid_def)

text \<open>The part of the variables these conditions speak of.\<close>

definition seq_view :: "'c run \<Rightarrow> string list \<times> string list \<times> (string \<times> state) list \<times> string" where
  "seq_view r = (r_pending r, r_visited r, r_streamed r, r_current r)"

lemma stable_seq_view: "stable seq_view"
  by (simp add: stable_def seq_view_def)

lemma seq_inv:
  assumes "\<And>c. rt_inv (\<lambda>r. seq_view r = c) m" and "\<And>r r'. seq_view r = seq_view r' \<Longrightarrow> P r = P r'"
    and "\<And>r. P r \<Longrightarrow> once V0 (r_streamed r)"
  shows "triple P m (\<lambda>_. P) (\<lambda>r. once V0 (r_streamed r))"
proof -
  have view: "seq_view (snd (m r)) = seq_view r" for r by (rule rt_invD [OF assms(1) refl])
  show ?thesis
  proof (rule tripleI)
    fix r e r' assume "P r" "m r = (Inl e, r')"
    then show "once V0 (r_streamed r')" using view [of r] assms(2,3) [of r'] assms(2) [of r r'] by simp
  next
    fix r x r' assume "P r" "m r = (Inr x, r')"
    then show "P r'" using view [of r] assms(2) [of r r'] by simp
  qed
qed

lemma seq_views:
  "seq_view r = seq_view r' \<Longrightarrow> (r_current r = n \<and> n \<noteq> END \<and> seq_head V0 r) = (r_current r' = n \<and> n \<noteq> END \<and> seq_head V0 r')"
  "seq_view r = seq_view r' \<Longrightarrow> seq_mid V0 n r = seq_mid V0 n r'"
  "seq_view r = seq_view r' \<Longrightarrow> seq_end V0 r = seq_end V0 r'"
  by (simp_all add: seq_view_def seq_head_def seq_mid_def seq_end_def queue_ok_def)

lemma seq_once:
  "r_current r = n \<and> n \<noteq> END \<and> seq_head V0 r \<Longrightarrow> once V0 (r_streamed r)"
  "seq_mid V0 n r \<Longrightarrow> once V0 (r_streamed r)" "seq_end V0 r \<Longrightarrow> once V0 (r_streamed r)"
  by (simp_all add: seq_head_def seq_mid_def seq_end_def)

lemmas seq_head_inv = seq_inv [OF _ seq_views(1) seq_once(1)]
lemmas seq_mid_inv = seq_inv [OF _ seq_views(2) seq_once(2)]
lemmas seq_end_inv = seq_inv [OF _ seq_views(3) seq_once(3)]
lemmas seq_view_rules = stable_rules [OF stable_seq_view]

lemma seq_frontier:
  "triple (\<lambda>r. r_current r = n \<and> n \<noteq> END \<and> seq_head V0 r) (advance_frontier env n)
     (\<lambda>_. seq_mid V0 n) (\<lambda>r. once V0 (r_streamed r))"
proof -
  have tail: "triple (seq_mid V0 n)
      (rt_seq (rt_modify (enqueue_targets ts)) (rt_with (\<lambda>r. save_frontier (r_pending r))))
      (\<lambda>_. seq_mid V0 n) (\<lambda>r. once V0 (r_streamed r))" for ts
    by (intro triple_seq [where R = "seq_mid V0 n"] triple_modify enqueue_mid seq_mid_inv)
      (auto intro!: rt_inv_rules seq_view_rules)
  have route: "triple (seq_mid V0 n)
      (case t of
         Sends _ \<Rightarrow> rt_lift (Inl (PyExc ''ValueError''
           (''Dynamic Send cannot be combined with sequential fan-out; '' @
            ''pending Send directives require separate checkpoint semantics'')))
       | Fan targets \<Rightarrow> rt_seq (rt_modify (enqueue_targets targets)) (rt_with (\<lambda>r. save_frontier (r_pending r)))
       | To target \<Rightarrow> rt_seq (rt_modify (enqueue_targets [target])) (rt_with (\<lambda>r. save_frontier (r_pending r))))
      (\<lambda>_. seq_mid V0 n) (\<lambda>r. once V0 (r_streamed r))" for t
    by (cases t) (simp_all add: tail, rule triple_lift, auto dest: seq_once(2))
  show ?thesis unfolding advance_frontier_def
  proof (intro triple_seq [where R = "seq_mid V0 n"] triple_bind [where R = "\<lambda>_. seq_mid V0 n"] route)
    show "triple (\<lambda>r. r_current r = n \<and> n \<noteq> END \<and> seq_head V0 r)
        (rt_modify (\<lambda>r. r\<lparr>r_visited := List.insert n (r_visited r)\<rparr>)) (\<lambda>_. seq_mid V0 n)
        (\<lambda>r. once V0 (r_streamed r))"
      by (rule triple_modify) (auto simp: seq_head_def seq_mid_def queue_ok_def)
    show "triple (seq_mid V0 n) (rt_next_node env n) (\<lambda>_. seq_mid V0 n) (\<lambda>r. once V0 (r_streamed r))"
      by (rule seq_mid_inv, rule seq_view_rules)
  qed
qed

lemma seq_move_on:
  assumes "sequential env"
  shows "triple (seq_end V0) (move_on env n) (\<lambda>x. seq_head V0) (\<lambda>r. once V0 (r_streamed r))"
  using assms
  by (auto simp: move_on_def triple_def rt_seq_def rt_bind_def rt_modify_def rt_return_def seq_end_def seq_head_def
      queue_ok_def split: list.splits)

lemma seq_head_once: "seq_head V0 r \<Longrightarrow> once V0 (r_streamed r)"
  by (simp add: seq_head_def)

lemma seq_end_of_pass:
  assumes "sequential env"
  shows "triple (seq_end V0) (end_of_pass env n t) (\<lambda>x r. once V0 (r_streamed r) \<and> (x = None \<longrightarrow> seq_head V0 r))
    (\<lambda>r. once V0 (r_streamed r))"
proof -
  have "triple (seq_end V0) (move_on env n) (\<lambda>x r. once V0 (r_streamed r) \<and> (x = None \<longrightarrow> seq_head V0 r))
    (\<lambda>r. once V0 (r_streamed r))"
    by (rule triple_weaken [OF seq_move_on [OF assms]]) (simp_all add: seq_head_once)
  moreover have "triple (seq_end V0) (rt_outcome a b c d)
      (\<lambda>x r. once V0 (r_streamed r) \<and> (x = None \<longrightarrow> seq_head V0 r)) (\<lambda>r. once V0 (r_streamed r))" for a b c d
    by (rule triple_outcome) (simp add: seq_end_def)
  ultimately show ?thesis unfolding end_of_pass_def
    by (intro triple_seq [where R = "seq_end V0"] seq_end_inv)
      (auto intro!: rt_inv_rules seq_view_rules simp: seq_once(3))
qed

lemma seq_complete:
  "seq_mid V0 n r \<Longrightarrow> seq_end V0 (r\<lparr>r_active := a, r_state_history := b, r_streamed := r_streamed r @ [(n, st)]\<rparr>)"
  by (auto simp: seq_mid_def seq_end_def queue_ok_def once_snoc)

lemma seq_after_success:
  assumes "sequential env"
  shows "triple (\<lambda>r. r_current r = n \<and> n \<noteq> END \<and> seq_head V0 r) (after_success env n)
    (\<lambda>x r. once V0 (r_streamed r) \<and> (x = None \<longrightarrow> seq_head V0 r)) (\<lambda>r. once V0 (r_streamed r))"
proof -
  let ?P = "\<lambda>r. r_current r = n \<and> n \<noteq> END \<and> seq_head V0 r"
  let ?M = "seq_mid V0 n" and ?E = "\<lambda>r. once V0 (r_streamed r)"
  have hist: "triple ?P (rt_modify (\<lambda>r. r\<lparr>r_node_history := r_node_history r @ [n]\<rparr>)) (\<lambda>_. ?P) ?E"
    by (rule seq_head_inv) (auto simp: seq_view_def intro: triple_modify)
  have front: "triple ?P (if sequential env then advance_frontier env n else rt_return ()) (\<lambda>_. ?M) ?E"
    using assms by (simp add: seq_frontier)
  have mid: "(\<And>c. rt_inv (\<lambda>r. seq_view r = c) m) \<Longrightarrow> triple ?M m (\<lambda>_. ?M) ?E" for m :: "('a, 'x) rt"
    by (rule seq_mid_inv)
  have complete: "triple ?M (rt_modify (\<lambda>r. r\<lparr>r_active := None,
        r_state_history := (if record_state_history (checkpoint (re_config env))
          then r_state_history r @ [(n, r_state r)] else r_state_history r),
        r_streamed := r_streamed r @ [(n, r_state r)]\<rparr>)) (\<lambda>_. seq_end V0) ?E"
    by (rule triple_modify) (rule seq_complete)
  show ?thesis unfolding after_success_def
    by (rule triple_seq [OF hist], rule triple_seq [OF front], rule triple_bind [OF mid],
        (auto intro!: rt_inv_rules seq_view_rules)[1], rule triple_seq [OF mid], rule seq_view_rules,
        rule triple_seq [OF mid], (intro rt_inv_rules seq_view_rules)[1],
        rule triple_seq [OF complete], rule seq_end_of_pass [OF assms])
qed

lemma seq_run_node:
  assumes "sequential env"
  shows "triple (\<lambda>r. r_current r = n \<and> n \<noteq> END \<and> seq_head V0 r) (run_node env n)
    (\<lambda>x r. once V0 (r_streamed r) \<and> (x = None \<longrightarrow> seq_head V0 r)) (\<lambda>r. once V0 (r_streamed r))"
proof -
  let ?P = "\<lambda>r. r_current r = n \<and> n \<noteq> END \<and> seq_head V0 r"
  let ?Q = "\<lambda>x r. once V0 (r_streamed r) \<and> (x = None \<longrightarrow> seq_head V0 r)"
  have out: "triple ?P (rt_seq (report_node_error env msg) (rt_outcome a b c d)) ?Q (\<lambda>r. once V0 (r_streamed r))"
    for msg a b c d
    by (intro triple_seq [where R = ?P] seq_head_inv seq_view_rules triple_outcome) (auto simp: seq_head_def)
  have val: "triple ?P (case v of Some err \<Rightarrow> rt_seq (report_node_error env err) (rt_outcome False (Some err) False None)
        | None \<Rightarrow> after_success env n) ?Q (\<lambda>r. once V0 (r_streamed r))" for v
    by (cases v) (simp_all add: out seq_after_success [OF assms])
  have upd: "seq_view (r\<lparr>r_active := a\<rparr>) = seq_view r" "seq_view (r\<lparr>r_node_start := b\<rparr>) = seq_view r" for r a b
    by (simp_all add: seq_view_def)
  have tail: "triple ?P (rt_seq (case re_hook env of None \<Rightarrow> rt_return ()
             | Some h \<Rightarrow> rt_with (\<lambda>r. rt_lift (after_node h n (r_state r) (if \<not> ok then er else None))))
    (if \<not> ok
     then rt_seq (report_node_error env (case er of Some e \<Rightarrow> e | None \<Rightarrow> ''Node execution failed''))
            (rt_outcome False er False None)
     else rt_with (\<lambda>r. case validate_state_after_node env n (r_state r) of
            Some err \<Rightarrow> rt_seq (report_node_error env err) (rt_outcome False (Some err) False None)
          | None \<Rightarrow> after_success env n))) ?Q (\<lambda>r. once V0 (r_streamed r))" for ok er
  proof (rule triple_seq [where R = ?P])
    show "triple ?P (case re_hook env of None \<Rightarrow> rt_return ()
             | Some h \<Rightarrow> rt_with (\<lambda>r. rt_lift (after_node h n (r_state r) (if \<not> ok then er else None))))
        (\<lambda>_. ?P) (\<lambda>r. once V0 (r_streamed r))"
      by (rule seq_head_inv) (auto intro!: rt_inv_rules split: option.splits)
  qed (cases ok; simp add: out val triple_with_any)
  show ?thesis unfolding run_node_def
    by (intro triple_seq [where R = ?P] triple_bind [where R = "\<lambda>_. ?P"] seq_head_inv)
      (auto simp: upd intro!: rt_inv_rules seq_view_rules tail split: option.splits)
qed

lemma seq_pass:
  assumes seq: "sequential env" and head: "seq_head V0 r" and "r_current r \<noteq> END"
    and body: "loop_body env r = (res, r')"
  shows "once V0 (r_streamed r') \<and> (res = Inr None \<longrightarrow> seq_head V0 r')"
  using body
proof (cases rule: loop_body_cases)
  case (pause ic)
  have "res \<noteq> Inr None" using pause
    by (auto simp: pause_before_def rt_seq_def rt_bind_def rt_outcome_def split: prod.splits sum.splits)
  moreover have "r_streamed r' = r_streamed r"
    using rt_invD [OF steady_pause_before [OF steady_streamed] refl, of env "r_current r" "begin_pass ic r"] pause by simp
  ultimately show ?thesis using seq_head_once [OF head] by simp
next
  case (go ic)
  have "r_current (begin_pass ic r) = r_current r \<and> r_current r \<noteq> END \<and> seq_head V0 (begin_pass ic r)"
    using assms seq_views(1) [of "begin_pass ic r" r "r_current r" V0] by (simp add: seq_view_def)
  from seq_run_node [OF seq] this show ?thesis
    by (rule tripleD) (use go in auto)
qed (use seq_head_once [OF head] in simp)

lemma run_loop_once:
  assumes "sequential env" and "seq_head V0 r"
  shows "once V0 (r_streamed (snd (run_loop env r)))"
proof (rule run_loop_rule [where I = "seq_head V0" and Q = "\<lambda>r. once V0 (r_streamed r)", OF assms(2)])
qed (use seq_pass [OF assms(1)] seq_head_once in \<open>auto\<close>)

subsection \<open>Where an outcome comes from\<close>

lemma run_loop_last:
  assumes "I r" and "\<And>r r'. I r \<Longrightarrow> r_current r \<noteq> END \<Longrightarrow> loop_body env r = (Inr None, r') \<Longrightarrow> I r'"
    and "run_loop env r = (Inr out, r')"
  shows "(\<exists>r0. I r0 \<and> r_current r0 \<noteq> END \<and> loop_body env r0 = (Inr (Some out), r')) \<or>
    (\<exists>r0. I r0 \<and> r_current r0 = END \<and> r_streamed r' = r_streamed r0 \<and> o_success out \<and> \<not> o_interrupted out)"
  using assms
proof (induction env r rule: run_loop.induct)
  case (1 env r)
  show ?case
  proof (cases "r_current r = END")
    case True
    with "1.prems" show ?thesis
      by (intro disjI2 exI [of _ r]) (auto simp: run_loop.simps [of env r] rt_outcome_def Let_def)
  next
    case False
    obtain res r1 where body: "loop_body env r = (res, r1)" by (metis surj_pair)
    show ?thesis
    proof (cases "res = Inr None")
      case True
      with body have nx: "loop_body env r = (Inr None, r1)" by simp
      show ?thesis
        by (rule "1.IH" [OF False nx [symmetric] refl refl "1.prems"(2) [OF "1.prems"(1) False nx]])
          (fact "1.prems"(2), use "1.prems"(3) False nx in \<open>simp add: run_loop.simps [of env r]\<close>)
    next
      case neq: False
      with "1.prems"(3) False body have "loop_body env r = (Inr (Some out), r')"
        by (auto simp: run_loop.simps [of env r] split: sum.splits option.splits)
      with "1.prems"(1) False show ?thesis by blast
    qed
  qed
qed

lemma fail_run_outcome: "fail_run env msg r = (Inr (Some out), r') \<Longrightarrow> \<not> o_success out \<and> \<not> o_interrupted out"
  by (auto simp: fail_run_def rt_seq_def rt_bind_def rt_outcome_def split: prod.splits sum.splits)

lemma run_graph_last:
  assumes "run_graph_execution env r = (Inr out, r')" and "o_success out"
  shows "run_loop env (start_run env r) = (Inr out, r')"
  using assms
  by (auto simp: run_graph_execution_def dest: fail_run_outcome split: prod.splits sum.splits if_splits option.splits)

subsection \<open>Pausing leaves a checkpoint to resume from\<close>

definition first_pending :: "routing_state \<Rightarrow> string" where
  "first_pending q = (case pending_nodes q of [] \<Rightarrow> END | n # _ \<Rightarrow> n)"

definition front_ok :: "string option \<Rightarrow> 'c run \<Rightarrow> bool" where
  "front_ok nxt r \<longleftrightarrow>
     (case (nxt, gm_routing_state (r_gm r)) of (Some n, Some q) \<Rightarrow> first_pending q = n | _ \<Rightarrow> True)"

definition saved :: "MemoryCheckpointer run_env \<Rightarrow> string option \<Rightarrow> MemoryCheckpointer run \<Rightarrow> bool" where
  "saved env nxt r \<longleftrightarrow> front_ok nxt r \<and>
     (\<exists>cp. mc_load (r_store r) (re_thread env) = Some cp \<and> next_node cp = nxt \<and> cp_state cp = r_state r \<and>
        dict_get (metadata cp) ''sequential_frontier'' = map_option routing_value (gm_routing_state (r_gm r)))"

abbreviation resumable :: "MemoryCheckpointer run_env \<Rightarrow> GraphRuntimeOutcome option \<Rightarrow> MemoryCheckpointer run \<Rightarrow> bool" where
  "resumable env x r \<equiv> (\<forall>out. x = Some out \<longrightarrow> o_interrupted out \<longrightarrow> saved env (o_next_node out) r)"

lemma rt_save_saved:
  assumes "cfg_checkpointer (checkpoint (re_config env)) = Some memory_ops"
  shows "triple (front_ok nxt) (rt_save env node nxt a b) (\<lambda>_. saved env nxt) (\<lambda>_. True)"
proof (rule tripleI)
  fix r x r' assume f: "front_ok nxt r" and "rt_save env node nxt a b r = (Inr x, r')"
  then obtain st' store' where s: "save_checkpoint (re_show_time env) (re_objects env) (Some memory_ops)
        (r_gm r) (re_thread env) node (r_now r) nxt a b (r_state r) (r_store r) = (Inr (), st', store')"
    and r': "r' = r\<lparr>r_state := st', r_store := store'\<rparr>"
    by (auto simp: rt_save_def assms split: prod.splits)
  show "saved env nxt r'"
    using memory_save_load [OF s] f by (simp add: r' saved_def front_ok_def checkpoint_fields)
qed simp

lemma saved_keep:
  assumes "\<And>r. r_store (f r) = r_store r" "\<And>r. r_state (f r) = r_state r" "\<And>r. r_gm (f r) = r_gm r"
  shows "triple (saved env nxt) (rt_modify f) (\<lambda>_. saved env nxt) (\<lambda>_. True)"
  by (rule triple_modify) (simp add: saved_def front_ok_def assms)

lemma saved_observe: "triple (saved env nxt) (rt_with (\<lambda>r. observe env ph n er (d r))) (\<lambda>_. saved env nxt) (\<lambda>_. True)"
  by (auto simp: observe_def triple_def rt_with_def rt_return_def rt_lift_def split: option.splits sum.splits)

lemma pause_before_resumable:
  assumes mem: "cfg_checkpointer (checkpoint (re_config env)) = Some memory_ops"
  shows "triple (\<lambda>r. sequential env \<or> gm_routing_state (r_gm r) = None) (pause_before env n) (resumable env) (\<lambda>_. True)"
proof -
  have "triple (\<lambda>r. sequential env \<or> gm_routing_state (r_gm r) = None)
      (if sequential env then rt_with (\<lambda>r. save_frontier (n # r_pending r)) else rt_return ())
      (\<lambda>_. front_ok (Some n)) (\<lambda>_. True)"
    by (auto simp: triple_def save_frontier_def rt_with_def rt_modify_def rt_return_def front_ok_def first_pending_def)
  moreover have "triple (saved env (Some n)) (rt_outcome True None True (Some n)) (resumable env) (\<lambda>_. True)"
    by (simp add: triple_def rt_outcome_def)
  ultimately show ?thesis unfolding pause_before_def
    by (rule triple_seq [OF _ triple_seq [OF rt_save_saved [OF mem]]])
qed

definition front_saved :: "'c run_env \<Rightarrow> 'c run \<Rightarrow> bool" where
  "front_saved env r \<longleftrightarrow>
     (if sequential env then \<exists>vs. gm_routing_state (r_gm r) = Some \<lparr>pending_nodes = r_pending r, visited_nodes = vs\<rparr>
      else gm_routing_state (r_gm r) = None)"

abbreviation routing_ok :: "'c run_env \<Rightarrow> 'c run \<Rightarrow> bool" where
  "routing_ok env r \<equiv> sequential env \<or> gm_routing_state (r_gm r) = None"

lemma advance_frontier_saved:
  "sequential env \<Longrightarrow> triple (\<lambda>_. True) (advance_frontier env n) (\<lambda>_. front_saved env) (\<lambda>_. True)"
proof -
  assume seq: "sequential env"
  have "triple (\<lambda>_. True) (rt_seq (rt_modify (enqueue_targets ts)) (rt_with (\<lambda>r. save_frontier (r_pending r))))
      (\<lambda>_. front_saved env) (\<lambda>_. True)" for ts
    using seq by (simp add: triple_def rt_seq_def rt_bind_def rt_modify_def rt_with_def save_frontier_def front_saved_def)
  then show ?thesis unfolding advance_frontier_def
    by (intro triple_seq [where R = "\<lambda>_. True"] triple_bind [where R = "\<lambda>_ _. True"])
      (auto intro: tripleI triple_lift split: next_target.splits)
qed

lemma resume_target_front:
  "triple (front_saved env)
     (if \<not> should_interrupt_after (handler env) n then rt_return None
      else if sequential env then rt_with (\<lambda>r. rt_return (Some (case r_pending r of [] \<Rightarrow> END | m # _ \<Rightarrow> m)))
      else resolve_resume_target env n) front_ok (\<lambda>_. True)"
  by (auto simp: triple_def rt_return_def rt_with_def front_saved_def front_ok_def first_pending_def
      resolve_resume_target_def rt_next_node_def split: sum.splits next_target.splits)

lemma end_of_pass_resumable: "triple (saved env t) (end_of_pass env n t) (resumable env) (\<lambda>_. True)"
proof -
  have move: "triple (saved env t) (move_on env n) (resumable env) (\<lambda>_. True)"
  proof -
    have "triple (\<lambda>_. True) (move_on env n) (\<lambda>x _. x = None) (\<lambda>_. True)"
      unfolding move_on_def
      by (auto intro!: triple_seq [where R = "\<lambda>_. True"] triple_bind [where R = "\<lambda>_ _. True"]
          intro: tripleI triple_return triple_lift split: next_target.splits)
    then show ?thesis by (rule triple_weaken) auto
  qed
  have out: "triple (saved env t) (rt_outcome True None True t) (resumable env) (\<lambda>_. True)"
    by (simp add: triple_def rt_outcome_def)
  have emits: "triple (saved env t) (rt_with (\<lambda>r. rt_emit env (ev r))) (\<lambda>_. saved env t) (\<lambda>_. True)" for ev
    unfolding rt_emit_def by (rule triple_with_any, rule saved_keep) simp_all
  show ?thesis unfolding end_of_pass_def
    by (rule triple_seq [OF emits]) (simp add: move out)
qed

lemma after_success_resumable:
  assumes mem: "cfg_checkpointer (checkpoint (re_config env)) = Some memory_ops"
  shows "triple (routing_ok env) (after_success env n) (resumable env) (\<lambda>_. True)"
proof -
  have front: "triple (routing_ok env) (if sequential env then advance_frontier env n else rt_return ())
      (\<lambda>_. front_saved env) (\<lambda>_. True)"
    using advance_frontier_saved [of env n]
    by (cases "sequential env") (auto elim!: triple_weaken intro!: triple_return simp: front_saved_def)
  have complete: "triple (saved env t) (rt_modify (\<lambda>r. r\<lparr>r_active := None,
        r_state_history := (if record_state_history (checkpoint (re_config env))
          then r_state_history r @ [(n, r_state r)] else r_state_history r),
        r_streamed := r_streamed r @ [(n, r_state r)]\<rparr>)) (\<lambda>_. saved env t) (\<lambda>_. True)" for t
    by (rule saved_keep) simp_all
  have hist: "triple (routing_ok env) (rt_modify (\<lambda>r. r\<lparr>r_node_history := r_node_history r @ [n]\<rparr>))
      (\<lambda>_. routing_ok env) (\<lambda>_. True)"
    by (rule triple_modify) simp
  show ?thesis unfolding after_success_def
    by (rule triple_seq [OF hist], rule triple_seq [OF front], rule triple_bind [OF resume_target_front],
        rule triple_seq [OF rt_save_saved [OF mem]], rule triple_seq [OF saved_observe],
        rule triple_seq [OF complete], rule end_of_pass_resumable)
qed

lemma gm_prims:
  "rt_inv (\<lambda>r. r_gm r = c) (rt_emit env e)" "rt_inv (\<lambda>r. r_gm r = c) (observe env ph n er d)"
  "rt_inv (\<lambda>r. r_gm r = c) (rt_execute env n)" "rt_inv (\<lambda>r. r_gm r = c) (report_node_error env msg)"
  by (auto simp: rt_emit_def observe_def rt_execute_def report_node_error_def triple_def rt_modify_def rt_return_def
      rt_with_def rt_lift_def rt_seq_def rt_bind_def Let_def split: option.splits sum.splits prod.splits)

lemma routing_ok_inv:
  assumes "\<And>c. rt_inv (\<lambda>r. r_gm r = c) m"
  shows "triple (routing_ok env) m (\<lambda>_. routing_ok env) (\<lambda>_. True)"
  by (rule triple_weaken [OF inv_of_eq [OF assms, of "\<lambda>g. sequential env \<or> gm_routing_state g = None"]]) auto

lemma run_node_resumable:
  assumes mem: "cfg_checkpointer (checkpoint (re_config env)) = Some memory_ops"
  shows "triple (routing_ok env) (run_node env n) (resumable env) (\<lambda>_. True)"
proof -
  have out: "triple (routing_ok env) (rt_seq m (rt_outcome a b False d)) (resumable env) (\<lambda>_. True)"
    for m :: "(MemoryCheckpointer, unit) rt" and a b d
    by (rule triple_seq [where R = "\<lambda>_. True"]) (auto simp: triple_def rt_outcome_def split: prod.splits sum.splits)
  have val: "triple (routing_ok env) (case v of Some err \<Rightarrow> rt_seq (report_node_error env err) (rt_outcome False (Some err) False None)
        | None \<Rightarrow> after_success env n) (resumable env) (\<lambda>_. True)" for v
    by (cases v) (simp_all add: out after_success_resumable [OF mem])
  have tail: "triple (routing_ok env) (rt_seq (case re_hook env of None \<Rightarrow> rt_return ()
             | Some h \<Rightarrow> rt_with (\<lambda>r. rt_lift (after_node h n (r_state r) (if \<not> ok then er else None))))
    (if \<not> ok
     then rt_seq (report_node_error env (case er of Some e \<Rightarrow> e | None \<Rightarrow> ''Node execution failed''))
            (rt_outcome False er False None)
     else rt_with (\<lambda>r. case validate_state_after_node env n (r_state r) of
            Some err \<Rightarrow> rt_seq (report_node_error env err) (rt_outcome False (Some err) False None)
          | None \<Rightarrow> after_success env n))) (resumable env) (\<lambda>_. True)" for ok er
  proof (rule triple_seq [OF routing_ok_inv])
    show "rt_inv (\<lambda>r. r_gm r = c) (case re_hook env of None \<Rightarrow> rt_return ()
             | Some h \<Rightarrow> rt_with (\<lambda>r. rt_lift (after_node h n (r_state r) (if \<not> ok then er else None))))" for c
      by (auto intro!: rt_inv_rules split: option.splits)
  qed (cases ok; simp add: out val triple_with_any)
  show ?thesis unfolding run_node_def
    by (intro triple_seq [where R = "routing_ok env"] triple_bind [where R = "\<lambda>_. routing_ok env"] routing_ok_inv)
      (auto intro!: rt_inv_rules gm_prims tail split: option.splits)
qed

lemma gm_more_prims:
  "rt_inv (\<lambda>r. r_gm r = c) (rt_save env n nx a b)" "rt_inv (\<lambda>r. r_gm r = c) (rt_next_node env n)"
  "rt_inv (\<lambda>r. r_gm r = c) (execute_parallel env ss)" "rt_inv (\<lambda>r. r_gm r = c) (resolve_resume_target env n)"
  by (auto simp: rt_save_def rt_next_node_def execute_parallel_def resolve_resume_target_def triple_def Let_def
      split: option.splits sum.splits prod.splits next_target.splits)

lemma gm_run_node: "\<not> sequential env \<Longrightarrow> rt_inv (\<lambda>r. r_gm r = c) (run_node env n)"
  unfolding run_node_def after_success_def end_of_pass_def move_on_def
  by (auto intro!: rt_inv_rules gm_prims gm_more_prims split: option.splits next_target.splits)

lemma routing_ok_pass:
  assumes "routing_ok env r" and "loop_body env r = (Inr None, r')"
  shows "routing_ok env r'"
  using assms(2)
proof (cases rule: loop_body_cases)
  case (pause ic)
  then show ?thesis
    by (auto simp: pause_before_def rt_seq_def rt_bind_def rt_outcome_def split: prod.splits sum.splits)
next
  case (go ic)
  show ?thesis
  proof (cases "sequential env")
    case False
    then show ?thesis
      using rt_invD [OF gm_run_node [OF False] refl, of "r_current r" "begin_pass ic r"] go assms(1) by simp
  qed simp
qed simp

lemma run_loop_saved:
  assumes mem: "cfg_checkpointer (checkpoint (re_config env)) = Some memory_ops"
    and ok: "routing_ok env r" and run: "run_loop env r = (Inr out, r')" and int: "o_interrupted out"
  shows "saved env (o_next_node out) r'"
proof -
  have step: "routing_ok env r'" if "routing_ok env r" "r_current r \<noteq> END" "loop_body env r = (Inr None, r')" for r r'
    by (rule routing_ok_pass [OF that(1,3)])
  have "\<exists>r0. routing_ok env r0 \<and> r_current r0 \<noteq> END \<and> loop_body env r0 = (Inr (Some out), r')"
    using run_loop_last [where I = "routing_ok env", OF ok step run] int by simp
  then obtain r0 where r0: "routing_ok env r0" "loop_body env r0 = (Inr (Some out), r')" by (elim exE conjE)
  from r0(2) show ?thesis
  proof (cases rule: loop_body_cases)
    case (stop err ic out')
    with int show ?thesis by simp
  next
    case (pause ic)
    from pause_before_resumable [OF mem, of "r_current r0"] show ?thesis
      by (rule tripleD [where r = "begin_pass ic r0"]) (use pause r0(1) int in auto)
  next
    case (go ic)
    from run_node_resumable [OF mem, of "r_current r0"] show ?thesis
      by (rule tripleD [where r = "begin_pass ic r0"]) (use go r0(1) int in auto)
  qed
qed

lemma interrupted_success: "run_graph_execution env r = (Inr out, r') \<Longrightarrow> o_interrupted out \<Longrightarrow>
    run_loop env (start_run env r) = (Inr out, r')"
  by (auto simp: run_graph_execution_def dest: fail_run_outcome split: prod.splits sum.splits if_splits option.splits)

lemma saved_load_run:
  assumes mem: "cfg_checkpointer (checkpoint (re_config env)) = Some memory_ops"
    and s: "saved env (Some n) r"
  shows "\<exists>gm. load_run env now (r_store r) input resolve = Inr (new_run env now (r_store r) (r_state r) n gm) \<and>
    gm_routing_state gm = gm_routing_state (r_gm r)"
proof -
  obtain cp where cp: "mc_load (r_store r) (re_thread env) = Some cp" "next_node cp = Some n" "cp_state cp = r_state r"
    "dict_get (metadata cp) ''sequential_frontier'' = map_option routing_value (gm_routing_state (r_gm r))"
    and f: "front_ok (Some n) r"
    using s by (auto simp: saved_def)
  let ?gm = "\<lparr>gm_routing_state = gm_routing_state (r_gm r),
    gm_resume_past_interrupt =
      (if dict_get (metadata cp) ''checkpoint_boundary'' = Some (VStr ''before'') then Some n else None)\<rparr>"
  have "load_run env now (r_store r) input resolve = Inr (new_run env now (r_store r) (r_state r) n ?gm)"
    using cp f
    by (cases "gm_routing_state (r_gm r)")
      (auto simp: load_run_def mem load_initial_state_def memory_ops_def dict_get_or_def routing_of_def [of VNone]
        resume_node_def routing_roundtrip front_ok_def first_pending_def END_def gm_init_def split: list.splits)
  moreover have "gm_routing_state ?gm = gm_routing_state (r_gm r)" by simp
  ultimately show ?thesis by blast
qed

end
