(* ===== verification/Graph_Properties.thy ===== *)
theory Graph_Properties
  imports Graph_Runtime
begin

text \<open>
  What the execution of a compiled graph guarantees, for every graph, configuration, node
  behaviour, hook and observer, with sample graphs on which each guarantee is applied.
\<close>

section \<open>Sample environments\<close>

definition sample_config :: "string list \<Rightarrow> string list \<Rightarrow> 'c checkpoint_ops option \<Rightarrow> 'c checkpoint_ops GraphConfig" where
  "sample_config before after ops =
     \<lparr>execution = \<lparr>max_iterations = 5, exec_timeout = None, recursion_limit = 3\<rparr>,
      checkpoint = \<lparr>cfg_checkpointer = ops, checkpoint_at_start = False, checkpoint_at_end = True,
        record_state_history = True\<rparr>,
      interrupt = \<lparr>interrupt_before = before, interrupt_after = after\<rparr>,
      performance = \<lparr>use_copy_on_write = Some True, enable_state_caching = True,
        parallel_state_merge_strategy = ''strict'', custom_state_merger = None\<rparr>,
      observability = \<lparr>emit_events = True, log_node_execution = False, cfg_graph_id = None\<rparr>,
      validation = default_validation\<rparr>"

definition sample_env ::
  "StateGraph \<Rightarrow> bool \<Rightarrow> string list \<Rightarrow> string list \<Rightarrow> MemoryCheckpointer run_env" where
  "sample_env g seq before after =
     \<lparr>re_graph = \<lparr>cg_nodes = sg_nodes g, cg_edges = sg_edges g, cg_entry = ''a'', cg_schema = NoSchema,
        cg_config = sample_config before after (Some memory_ops), cg_strict_edges = False,
        cg_sequential_fanout = seq, cg_merger = default_state_merger (\<lambda>x y. Some False)\<rparr>,
      re_config = sample_config before after (Some memory_ops), re_thread = ''t'', re_use_cow = True,
      re_hook = None, re_observer = None,
      re_caller = \<lparr>thread_ident = 1, current_task = None, debug_mode = True\<rparr>,
      re_objects = sample_objects, re_show_time = (\<lambda>_. ''0''), re_error_text = (\<lambda>m. m),
      re_show_error = (\<lambda>_. ''error''), re_rl_hooks = False\<rparr>"

definition cyclic_graph :: StateGraph where
  "cyclic_graph = fold builder_step
     [AddNode (sample_node ''a''), AddEdge ''a'' ''a'', SetEntryPoint ''a''] (sg_init NoSchema None)"

section \<open>Runs behind the entry points\<close>

lemma load_run_new:
  "load_run env now store input resolve = Inr r \<Longrightarrow>
     \<exists>st cur gm. r = new_run env now store st cur gm \<and>
       load_initial_state (cfg_checkpointer (checkpoint (re_config env))) store (re_thread env) input
         (cg_entry (re_graph env)) resolve gm_init = Inr (st, cur, gm)"
  by (auto simp: load_run_def bind_result_eq_Inr)

lemma run_to_result_Inr: "run_to_result env r = Inr (out, r') \<longleftrightarrow> run_graph_execution env r = (Inr out, r')"
  by (auto simp: run_to_result_def split: prod.splits sum.splits)

lemma override_start_new:
  "override_start start (new_run env now store st cur gm) = Inr r \<Longrightarrow>
     r = new_run env now store st (case start of None \<Rightarrow> cur | Some n \<Rightarrow> n) gm"
  by (auto simp: override_start_def new_run_def split: option.splits if_splits)

lemma invoke_run:
  assumes "invoke env now store input start = Inr (out, r')"
  shows "\<exists>st cur gm. run_graph_execution env (new_run env now store st cur gm) = (Inr out, r')"
proof -
  obtain r r1 where l: "load_run env now store input
      (if start = None then Some (get_next_node (re_error_text env) (re_graph env)) else None) = Inr r"
    and o: "override_start start r = Inr r1" and g: "run_graph_execution env r1 = (Inr out, r')"
    using assms by (auto simp: invoke_def bind_result_eq_Inr run_to_result_Inr)
  from load_run_new [OF l] obtain st cur gm where r: "r = new_run env now store st cur gm" by blast
  show ?thesis using g override_start_new [OF o [unfolded r]] by blast
qed

lemma load_routing:
  assumes "load_initial_state (Some memory_ops) store tid input entry resolve gm_init = Inr (st, cur, gm)"
    and "\<And>cp. mc_load store tid = Some cp \<Longrightarrow> \<not> dict_has (metadata cp) ''sequential_frontier''"
  shows "gm_routing_state gm = None"
  using assms
  by (cases "mc_load store tid")
    (auto simp: load_initial_state_def memory_ops_def gm_init_def bind_result_eq_Inr dict_has_def dict_get_or_def
      routing_of_def Let_def)

section \<open>Results\<close>

text \<open>C1. Every run ends, whether it returns or raises and whatever the nodes, conditions, hooks and
  cycles of the graph: its loop makes at most one pass more than the configured maximum of
  iterations, completes at most that many nodes, none of them more often than the recursion
  limit, and an outcome reports the passes made. The limits are on the loop: a node
  that runs as a branch of a fan-out directive belongs to the pass of the node that sent it and is
  counted by neither limit.\<close>

theorem run_bounded:
  assumes "1 \<le> max_iterations (execution (re_config env))" "1 \<le> recursion_limit (execution (re_config env))"
    and "run_graph_execution env (new_run env now store st start gm) = (res, r)"
  shows "iterations (r_ic r) \<le> max_iterations (execution (re_config env)) + 1 \<and>
    int (length (r_streamed r)) \<le> max_iterations (execution (re_config env)) \<and>
    (\<forall>n. int (count_list (map fst (r_streamed r)) n) \<le> recursion_limit (execution (re_config env))) \<and>
    (\<forall>out. res = Inr out \<longrightarrow> o_iterations out = iterations (r_ic r))"
proof -
  have "in_bounds (max_iterations (execution (re_config env))) (recursion_limit (execution (re_config env))) r"
    using run_graph_in_bounds [of env now store st start gm] assms by simp
  moreover have "o_iterations out = iterations (r_ic r)" if "res = Inr out" for out
    using run_graph_mirrors assms(3) that by (auto simp: mirrors_def)
  ultimately show ?thesis by (simp add: in_bounds_def)
qed

theorem run_bounded_witness:
  "\<exists>res r. run_graph_execution (sample_env cyclic_graph False [] [])
       (new_run (sample_env cyclic_graph False [] []) 0 mc_init [(''x'', VInt 0)] ''a'' gm_init) = (res, r) \<and>
     int (count_list (map fst (r_streamed r)) ''a'') \<le> 3"
proof -
  let ?env = "sample_env cyclic_graph False [] []"
  obtain res r where run: "run_graph_execution ?env (new_run ?env 0 mc_init [(''x'', VInt 0)] ''a'' gm_init) = (res, r)"
    by (cases "run_graph_execution ?env (new_run ?env 0 mc_init [(''x'', VInt 0)] ''a'' gm_init)")
  have "int (count_list (map fst (r_streamed r)) ''a'') \<le> recursion_limit (execution (re_config ?env))"
    using run_bounded [OF _ _ run] by (simp add: sample_env_def sample_config_def)
  with run show ?thesis by (auto simp: sample_env_def sample_config_def)
qed

text \<open>C3. In a graph without ordinary fan-out the completed nodes form a routed path: each one is
  the successor that routing chose on the state its predecessor left (or the join node of the
  directives it returned), the first is where the run started, and a run that completes ends
  after a node whose successor is the end token.\<close>

theorem run_follows_routing:
  assumes "\<not> cg_sequential_fanout (re_graph env)"
    and "run_graph_execution env (new_run env now store st start gm) = (Inr out, r)"
  shows "path env (r_streamed r) \<and> (r_streamed r \<noteq> [] \<longrightarrow> fst (hd (r_streamed r)) = start) \<and>
    (o_success out \<and> \<not> o_interrupted out \<longrightarrow>
       (if r_streamed r = [] then start = END
        else routed env (fst (last (r_streamed r))) (snd (last (r_streamed r))) END))"
proof -
  let ?r = "start_run env (new_run env now store st start gm)"
  have head: "at_head env start ?r" by (simp add: at_head_def start_run_def new_run_def path_def Let_def)
  have "on_path env start (snd (run_loop env ?r))" by (rule run_loop_path [OF assms(1) head])
  then have "on_path env start r"
    using run_graph_stable [OF stable_streamed, of env "new_run env now store st start gm"] assms(2)
    by (simp add: on_path_def)
  moreover have "if r_streamed r = [] then start = END
        else routed env (fst (last (r_streamed r))) (snd (last (r_streamed r))) END"
    if done': "o_success out" "\<not> o_interrupted out"
  proof -
    have loop: "run_loop env ?r = (Inr out, r)" by (rule run_graph_last [OF assms(2) done'(1)])
    have "\<not> (\<exists>r0. loop_body env r0 = (Inr (Some out), r))"
      using done' loop_body_unfinished by blast
    then obtain r0 where "at_head env start r0" "r_current r0 = END" "r_streamed r = r_streamed r0"
      using run_loop_last [where I = "at_head env start", OF head _ loop] at_head_pass(2) [OF assms(1)] by blast
    then show ?thesis by (auto simp: at_head_def)
  qed
  ultimately show ?thesis by (auto simp: on_path_def)
qed

theorem run_follows_routing_witness:
  "\<exists>out r. run_graph_execution (sample_env sample_graph False [] [])
       (new_run (sample_env sample_graph False [] []) 0 mc_init [] ''a'' gm_init) = (Inr out, r) \<and>
     path (sample_env sample_graph False [] []) (r_streamed r) \<and> fst (hd (r_streamed r)) = ''a''"
proof -
  let ?env = "sample_env sample_graph False [] []"
  let ?run = "run_graph_execution ?env (new_run ?env 0 mc_init [] ''a'' gm_init)"
  have "case ?run of (Inr out, r) \<Rightarrow> r_streamed r \<noteq> [] | _ \<Rightarrow> False" by code_simp
  then obtain out r where run: "?run = (Inr out, r)" and ne: "r_streamed r \<noteq> []"
    by (cases ?run; cases "fst ?run") auto
  have "\<not> cg_sequential_fanout (re_graph ?env)" by (simp add: sample_env_def)
  from run_follows_routing [OF this run] run ne show ?thesis by blast
qed

text \<open>C4. With ordinary fan-out (sequential traversal) no node completes twice in a run: the
  completed nodes are distinct, and a resumed run completes none of the nodes that its
  checkpoint lists as visited.\<close>

theorem sequential_visits_once:
  assumes seq: "cg_sequential_fanout (re_graph env)"
    and wf: "case gm_routing_state gm of
        None \<Rightarrow> True
      | Some q \<Rightarrow> distinct (pending_nodes q) \<and> END \<notin> set (pending_nodes q) \<and>
          set (pending_nodes q) \<inter> set (visited_nodes q) = {} \<and> start = first_pending q"
  shows "distinct (map fst (r_streamed (snd (run_graph_execution env (new_run env now store st start gm))))) \<and>
    (\<forall>q. gm_routing_state gm = Some q \<longrightarrow> set (visited_nodes q) \<inter>
       fst ` set (r_streamed (snd (run_graph_execution env (new_run env now store st start gm)))) = {})"
proof -
  let ?r = "start_run env (new_run env now store st start gm)"
  let ?V = "case gm_routing_state gm of None \<Rightarrow> {} | Some q \<Rightarrow> set (visited_nodes q)"
  have "seq_head ?V ?r"
  proof (cases "gm_routing_state gm")
    case None
    then show ?thesis
      by (simp add: seq_head_def queue_ok_def start_run_def new_run_def once_def ids_def Let_def)
  next
    case (Some q)
    then show ?thesis using wf seq
      by (cases "pending_nodes q")
        (auto simp: seq_head_def queue_ok_def start_run_def new_run_def once_def ids_def first_pending_def Let_def)
  qed
  from run_loop_once [OF seq this] have
    "once ?V (r_streamed (snd (run_graph_execution env (new_run env now store st start gm))))"
    by (simp add: run_graph_stable [OF stable_streamed])
  then show ?thesis by (simp add: once_def ids_def split: option.splits)
qed

theorem sequential_visits_once_witness:
  "distinct (map fst (r_streamed (snd (run_graph_execution (sample_env fanout_graph True [] [])
     (new_run (sample_env fanout_graph True [] []) 0 mc_init [] ''a'' gm_init)))))"
  using sequential_visits_once [where env = "sample_env fanout_graph True [] []" and gm = gm_init]
  by (simp add: sample_env_def gm_init_def)

text \<open>C5. Streaming runs the same execution as invoking: without an observer, \<^verbatim>\<open>stream\<close> yields
  exactly the node and state pairs that \<^verbatim>\<open>invoke\<close> completes (and records as its state history
  when that is on), and it raises \<^verbatim>\<open>RuntimeError\<close> exactly when the outcome is a failure.\<close>

theorem stream_matches_invoke:
  assumes obs: "re_observer env = None" and inv: "invoke env now store input None = Inr (out, r)"
  shows "stream env now store input =
      (r_streamed r,
       if o_success out then Inr ()
       else Inl (PyExc ''RuntimeError'' (case o_error out of
              Some e \<Rightarrow> if e = [] then ''Graph execution failed'' else e
            | None \<Rightarrow> ''Graph execution failed''))) \<and>
    (record_state_history (checkpoint (re_config env)) \<longrightarrow> o_state_history out = r_streamed r)"
proof -
  have env: "env\<lparr>re_observer := None\<rparr> = env" using obs by simp
  obtain r0 where l: "load_run env now store input (Some (get_next_node (re_error_text env) (re_graph env))) = Inr r0"
    and v: "validate_input_state env input = Inr ()"
    and g: "run_graph_execution env r0 = (Inr out, r)"
    using inv by (auto simp: invoke_def bind_result_eq_Inr run_to_result_Inr override_start_def)
  from load_run_new [OF l] obtain st cur gm where r0: "r0 = new_run env now store st cur gm" by blast
  have "recorded env (start_run env r0)" by (simp add: recorded_def r0 start_run_def new_run_def Let_def)
  from run_loop_recorded [OF this] have "recorded env (snd (run_graph_execution env r0))"
    using run_graph_stable [OF recorded_stable, of env r0] by (simp add: recorded_def)
  then have "record_state_history (checkpoint (re_config env)) \<longrightarrow> o_state_history out = r_streamed r"
    using g run_graph_mirrors [OF g] by (simp add: recorded_def mirrors_def)
  moreover have "stream env now store input = stream_run env r0"
    by (simp add: stream_def v l env)
  ultimately show ?thesis by (simp add: stream_run_def g)
qed

theorem stream_matches_invoke_witness:
  "\<exists>out r. invoke (sample_env sample_graph False [] []) 0 mc_init [] None = Inr (out, r) \<and>
     fst (stream (sample_env sample_graph False [] []) 0 mc_init []) = o_state_history out"
proof -
  let ?env = "sample_env sample_graph False [] []"
  have "case invoke ?env 0 mc_init [] None of Inr _ \<Rightarrow> True | Inl _ \<Rightarrow> False" by code_simp
  then obtain out r where inv: "invoke ?env 0 mc_init [] None = Inr (out, r)" by (auto split: sum.splits)
  moreover have "re_observer ?env = None" "record_state_history (checkpoint (re_config ?env))"
    by (simp_all add: sample_env_def sample_config_def)
  ultimately show ?thesis using stream_matches_invoke [of ?env 0 mc_init "[]" out r] by auto
qed

text \<open>C2. A paused run resumes where it paused. When an invocation with the in-memory checkpointer
  is interrupted before or after a node and reports a next node, loading the same thread again
  gives a run that starts at that node with exactly the state the paused run returned, and with
  the pending branches of a sequential fan-out; it does not depend on the new input.\<close>

theorem pause_resume_exact:
  assumes mem: "cfg_checkpointer (checkpoint (re_config env)) = Some memory_ops"
    and fresh: "cg_sequential_fanout (re_graph env) \<or>
      (\<forall>cp. mc_load store (re_thread env) = Some cp \<longrightarrow> \<not> dict_has (metadata cp) ''sequential_frontier'')"
    and inv: "invoke env now store input None = Inr (out, r)"
    and "o_interrupted out" "o_next_node out = Some n"
  shows "\<exists>gm. load_run env now' (r_store r) input' resolve = Inr (new_run env now' (r_store r) (o_state out) n gm) \<and>
    gm_routing_state gm = gm_routing_state (r_gm r)"
proof -
  obtain r0 where l: "load_run env now store input (Some (get_next_node (re_error_text env) (re_graph env))) = Inr r0"
    and g: "run_graph_execution env r0 = (Inr out, r)"
    using inv by (auto simp: invoke_def bind_result_eq_Inr run_to_result_Inr override_start_def)
  from load_run_new [OF l] obtain st cur gm where r0: "r0 = new_run env now store st cur gm"
    and load: "load_initial_state (Some memory_ops) store (re_thread env) input (cg_entry (re_graph env))
      (Some (get_next_node (re_error_text env) (re_graph env))) gm_init = Inr (st, cur, gm)" using mem by auto
  have "routing_ok env (start_run env r0)"
    using fresh load_routing [OF load] by (auto simp: r0 start_run_def new_run_def Let_def)
  from run_loop_saved [OF mem this interrupted_success [OF g] assms(4)] assms(4,5)
  have "saved env (Some n) r" by simp
  moreover have "o_state out = r_state r" using run_graph_mirrors [OF g] by (simp add: mirrors_def)
  ultimately show ?thesis using saved_load_run [OF mem] by simp
qed

theorem pause_resume_exact_witness:
  "\<exists>out r gm. invoke (sample_env sample_graph False [''b''] []) 0 mc_init [] None = Inr (out, r) \<and>
     load_run (sample_env sample_graph False [''b''] []) 9 (r_store r) [(''other'', VNone)] None
       = Inr (new_run (sample_env sample_graph False [''b''] []) 9 (r_store r) (o_state out) ''b'' gm)"
proof -
  let ?env = "sample_env sample_graph False [''b''] []"
  have "case invoke ?env 0 mc_init [] None of Inr (out, r) \<Rightarrow> o_interrupted out \<and> o_next_node out = Some ''b'' | Inl _ \<Rightarrow> False"
    by code_simp
  then obtain out r where inv: "invoke ?env 0 mc_init [] None = Inr (out, r)"
    and o: "o_interrupted out" "o_next_node out = Some ''b''" by (auto split: sum.splits)
  have mem: "cfg_checkpointer (checkpoint (re_config ?env)) = Some memory_ops"
    by (simp add: sample_env_def sample_config_def)
  have "mc_load mc_init (re_thread ?env) = None" by (simp add: mc_load_def mc_init_def dict_get_or_def)
  with pause_resume_exact [OF mem _ inv o, of 9 "[(''other'', VNone)]" None] inv show ?thesis by auto
qed

text \<open>When a parallel fan-out succeeds, every branch succeeded on the state it was sent, and the
  new state is what the merger makes of the old state and the branch states in the order of the
  directives; when it raises, the run goes on with the state it had. That branches cannot reach
  each other's states or the run's is shown over shared objects.\<close>

theorem parallel_all_or_nothing:
  "case execute_parallel env sends r of
     (Inl e, r') \<Rightarrow> r_state r' = r_state r
   | (Inr _, r') \<Rightarrow>
       (\<forall>s \<in> set sends. \<exists>er st t. run_branch env r s = (Inr (True, er, st), t)) \<and>
       cg_merger (re_graph env) (r_state r) (map (\<lambda>s. snd (snd (projr (fst (run_branch env r s))))) sends)
         = Inr (r_state r')"
proof (cases "first_raised (map (run_branch env r) sends)")
  case (Some et)
  then show ?thesis by (cases et) (simp add: execute_parallel_def)
next
  case None
  have raised: "first_raised rs = None \<Longrightarrow> x \<in> set rs \<Longrightarrow> \<exists>y t. x = (Inr y, t)"
    for rs :: "((bool \<times> string option \<times> state) result \<times> time) list" and x
    by (induction rs rule: first_raised.induct) (auto split: option.splits if_splits)
  have ok: "\<exists>b er st t. run_branch env r s = (Inr (b, er, st), t)" if "s \<in> set sends" for s
    using raised [OF None, of "run_branch env r s"] that by (auto simp: prod_cases3)
  let ?bs = "map (\<lambda>(send, res). (send_node send, projr (fst res))) (zip sends (map (run_branch env r) sends))"
  have bs: "?bs = map (\<lambda>s. (send_node s, projr (fst (run_branch env r s)))) sends"
    by (simp add: zip_map2 zip_same_conv_map)
  have fl: "filter (\<lambda>(node, success, _, _). \<not> success) ?bs = [] \<longleftrightarrow>
      (\<forall>s \<in> set sends. fst (projr (fst (run_branch env r s))))"
    unfolding bs by (simp add: filter_empty_conv split_beta)
  have sts: "map (\<lambda>(_, _, _, st). st) ?bs = map (\<lambda>s. snd (snd (projr (fst (run_branch env r s))))) sends"
    unfolding bs by (simp add: split_beta)
  show ?thesis
  proof (cases "\<forall>s \<in> set sends. fst (projr (fst (run_branch env r s)))")
    case False
    with fl None show ?thesis by (simp add: execute_parallel_def Let_def)
  next
    case True
    have "\<exists>er st t. run_branch env r s = (Inr (True, er, st), t)" if "s \<in> set sends" for s
      using ok [OF that] True that by fastforce
    with True fl sts None show ?thesis by (simp add: execute_parallel_def Let_def split: sum.split)
  qed
qed

theorem parallel_all_or_nothing_witness:
  "\<exists>r'. execute_parallel (sample_env sample_graph False [] [])
       [\<lparr>send_node = ''b'', send_state = [], join_at = None\<rparr>]
       (new_run (sample_env sample_graph False [] []) 0 mc_init [(''x'', VInt 1)] ''a'' gm_init) = (Inr (), r') \<and>
     r_state r' = [(''x'', VInt 1), (''b'', VNone)]"
proof -
  let ?env = "sample_env sample_graph False [] []"
  let ?sends = "[\<lparr>send_node = ''b'', send_state = [], join_at = None\<rparr>]"
  let ?r = "new_run ?env 0 mc_init [(''x'', VInt 1)] ''a'' gm_init"
  have "case execute_parallel ?env ?sends ?r of (Inr _, r') \<Rightarrow> True | _ \<Rightarrow> False" by code_simp
  then obtain r' where r': "execute_parallel ?env ?sends ?r = (Inr (), r')"
    by (cases "execute_parallel ?env ?sends ?r"; cases "fst (execute_parallel ?env ?sends ?r)") auto
  have "cg_merger (re_graph ?env) (r_state ?r) (map (\<lambda>s. snd (snd (projr (fst (run_branch ?env ?r s))))) ?sends)
      = Inr [(''x'', VInt 1), (''b'', VNone)]" by code_simp
  with r' parallel_all_or_nothing [where env = ?env and sends = ?sends and r = ?r] show ?thesis by auto
qed

end
