(* ===== verification/Graph_Subgraph.thy ===== *)
theory Graph_Subgraph
  imports Graph_Properties
begin

text \<open>
  Subgraph nodes (\<^verbatim>\<open>SubgraphNode\<close> of \<^verbatim>\<open>victor/framework/graph_primitives.py\<close>): a node that invokes a
  compiled graph, with the nesting depth carried in the state. The invocation is an argument,
  as are the mappers; \<open>invoke\<close> of the runtime gives one.
\<close>

definition SUBGRAPH_DEPTH_KEY :: string where
  "SUBGRAPH_DEPTH_KEY = ''__subgraph_depth__''"

definition MAX_SUBGRAPH_DEPTH :: int where
  "MAX_SUBGRAPH_DEPTH = 10"

text \<open>The depth counter as Python reads it: an integer or a boolean; the comparison raises for
  anything that is not a number. A float is not produced by the engine and is refused here too.\<close>

definition depth_of :: "state \<Rightarrow> int result" where
  "depth_of s =
     (case dict_get_or s SUBGRAPH_DEPTH_KEY (VInt 0) of
        VInt i \<Rightarrow> Inr i
      | VBool b \<Rightarrow> Inr (of_bool b)
      | _ \<Rightarrow> Inl (PyExc ''TypeError'' ''unsupported depth''))"

record SubgraphNode =
  sub_id :: string
  sub_invoke :: "state \<Rightarrow> GraphRuntimeOutcome result"
  sub_input_mapper :: "(state \<Rightarrow> state result) option"
  sub_output_mapper :: "(state \<Rightarrow> state result) option"

text \<open>The input for the inner graph: the state with the depth raised, through the input mapper.\<close>

definition sub_input :: "SubgraphNode \<Rightarrow> int \<Rightarrow> state \<Rightarrow> state result" where
  "sub_input sn depth s =
     (let s' = dict_set SUBGRAPH_DEPTH_KEY (VInt (depth + 1)) s
      in case sub_input_mapper sn of None \<Rightarrow> Inr s' | Some f \<Rightarrow> f s')"

text \<open>The state handed back: the depth as the outer graph had it, through the output mapper.\<close>

definition sub_output :: "SubgraphNode \<Rightarrow> int \<Rightarrow> state \<Rightarrow> state result" where
  "sub_output sn depth s =
     (let s' = dict_pop SUBGRAPH_DEPTH_KEY s;
          s'' = (if depth > 0 then dict_set SUBGRAPH_DEPTH_KEY (VInt depth) s' else s')
      in case sub_output_mapper sn of None \<Rightarrow> Inr s'' | Some f \<Rightarrow> f s'')"

definition subgraph_execute :: "SubgraphNode \<Rightarrow> state \<Rightarrow> state result" where
  "subgraph_execute sn s =
     bind_result (depth_of s) (\<lambda>depth.
       if depth \<ge> MAX_SUBGRAPH_DEPTH
       then Inl (PyExc ''RecursionError''
         (''Subgraph nesting depth '' @ show_int depth @ '' exceeds maximum ('' @ show_int MAX_SUBGRAPH_DEPTH @
          ''). Check for self-referencing subgraphs.''))
       else bind_result (sub_input sn depth s) (\<lambda>input.
            bind_result (sub_invoke sn input) (\<lambda>out.
              if \<not> o_success out
              then Inl (PyExc ''RuntimeError''
                (''Subgraph '' @ quoted (sub_id sn) @ '' failed: '' @
                 (case o_error out of Some e \<Rightarrow> e | None \<Rightarrow> ''None'')))
              else sub_output sn depth (o_state out))))"

text \<open>\<^verbatim>\<open>to_dict\<close> of a wrapper, or a copy of the dictionary, is what the node starts from.\<close>

definition subgraph_node :: "(time \<Rightarrow> state \<Rightarrow> time) \<Rightarrow> SubgraphNode \<Rightarrow> state \<Rightarrow> Node" where
  "subgraph_node elapsed sn meta =
     \<lparr>n_id = sub_id sn,
      func_cow = (\<lambda>now rem w. \<lparr>cr_elapsed = elapsed now (cow_to_dict w), cr_wrapper = w,
         cr_outcome = (case subgraph_execute sn (cow_to_dict w) of
            Inl e \<Rightarrow> Inl (NodeExc e None) | Inr s \<Rightarrow> Inr (RetDict s))\<rparr>),
      func_plain = (\<lambda>now rem s. \<lparr>pr_elapsed = elapsed now s, pr_argument = s,
         pr_outcome = (case subgraph_execute sn s of Inl e \<Rightarrow> Inl (NodeExc e None) | Inr s' \<Rightarrow> Inr s')\<rparr>),
      n_metadata = meta\<rparr>"

text \<open>The invocation that a compiled graph gives to a subgraph node, at a time and with a store.\<close>

definition invoke_of :: "'c run_env \<Rightarrow> time \<Rightarrow> 'c \<Rightarrow> state \<Rightarrow> GraphRuntimeOutcome result" where
  "invoke_of env now store input = map_sum id fst (invoke env now store input None)"

section \<open>Results\<close>

text \<open>The depth guard: at the maximal depth a subgraph node raises \<^verbatim>\<open>RecursionError\<close> without
  invoking anything. Below it, without mappers, the inner graph gets the state with the depth
  one higher, and on success the outer graph gets the inner state back with its own depth
  counter restored: absent at the top level, unchanged below.\<close>

theorem subgraph_depth:
  assumes "depth_of s = Inr depth"
  shows "(depth \<ge> MAX_SUBGRAPH_DEPTH \<longrightarrow>
       (\<exists>m. \<forall>inner. subgraph_execute (sn\<lparr>sub_invoke := inner\<rparr>) s = Inl (PyExc ''RecursionError'' m))) \<and>
    (depth < MAX_SUBGRAPH_DEPTH \<and> sub_input_mapper sn = None \<and> sub_output_mapper sn = None \<longrightarrow>
       (\<forall>out. sub_invoke sn (dict_set SUBGRAPH_DEPTH_KEY (VInt (depth + 1)) s) = Inr out \<and> o_success out \<longrightarrow>
          (\<exists>s'. subgraph_execute sn s = Inr s' \<and>
             (\<forall>k. dict_get s' k =
                (if k = SUBGRAPH_DEPTH_KEY then (if depth > 0 then Some (VInt depth) else None)
                 else dict_get (o_state out) k)))))"
  using assms
  by (auto simp: subgraph_execute_def sub_input_def sub_output_def Let_def dict_simps)

theorem subgraph_depth_witness:
  "\<exists>m. \<forall>inner. subgraph_execute \<lparr>sub_id = ''s'', sub_invoke = inner, sub_input_mapper = None, sub_output_mapper = None\<rparr>
     [(SUBGRAPH_DEPTH_KEY, VInt 10)] = Inl (PyExc ''RecursionError'' m)"
  using subgraph_depth [of "[(SUBGRAPH_DEPTH_KEY, VInt 10)]" 10
      "\<lparr>sub_id = ''s'', sub_invoke = (\<lambda>_. Inl (PyExc [] [])), sub_input_mapper = None, sub_output_mapper = None\<rparr>"]
  by (simp add: depth_of_def dict_get_or_def MAX_SUBGRAPH_DEPTH_def)

text \<open>An input mapper that builds a new state without the depth entry defeats the guard: the
  inner graph then always starts at depth zero, whatever the depth outside.\<close>

theorem mapper_defeats_guard:
  assumes "sub_input_mapper sn = Some f" and "\<And>s'. \<exists>t. f s' = Inr t \<and> \<not> dict_has t SUBGRAPH_DEPTH_KEY"
    and "depth_of s = Inr depth" "depth < MAX_SUBGRAPH_DEPTH"
  shows "\<exists>t. sub_input sn depth s = Inr t \<and> depth_of t = Inr 0"
proof -
  obtain t where "f (dict_set SUBGRAPH_DEPTH_KEY (VInt (depth + 1)) s) = Inr t" "\<not> dict_has t SUBGRAPH_DEPTH_KEY"
    using assms(2) by blast
  then show ?thesis using assms(1) by (simp add: sub_input_def Let_def depth_of_def dict_get_or_def dict_has_def)
qed

theorem mapper_defeats_guard_witness:
  "\<exists>t. sub_input \<lparr>sub_id = ''s'', sub_invoke = (\<lambda>_. Inl (PyExc [] [])),
       sub_input_mapper = Some (\<lambda>_. Inr [(''q'', VNone)]), sub_output_mapper = None\<rparr> 9 [(SUBGRAPH_DEPTH_KEY, VInt 9)]
     = Inr t \<and> depth_of t = Inr 0"
  by (rule mapper_defeats_guard)
    (auto simp: depth_of_def dict_get_or_def dict_has_def MAX_SUBGRAPH_DEPTH_def SUBGRAPH_DEPTH_KEY_def)

end
