(* ===== verification/Graph_Schema.thy ===== *)
theory Graph_Schema
  imports Graph_Builder
begin

text \<open>
  Graphs from serialized schemas (\<^verbatim>\<open>StateGraph.from_schema\<close> in \<^verbatim>\<open>victor/framework/graph.py\<close>). The
  YAML parser is a parameter, and so are \<^verbatim>\<open>str()\<close> and \<^verbatim>\<open>type()\<close> of a value in an error message.
  What the registries hold is opaque: an entry says how it behaves when it is called as a node
  function and when it is run as a subgraph. A schema with a value of the wrong type at a place
  where the code does not test for it (a node identifier that is not a string, branches that are
  not strings) is outside the model, which is the value \<open>None\<close>.
\<close>

section \<open>Checked computations\<close>

type_synonym 'a checked = "'a result option"

definition ck_bind :: "'a checked \<Rightarrow> ('a \<Rightarrow> 'b checked) \<Rightarrow> 'b checked" where
  "ck_bind x f = (case x of None \<Rightarrow> None | Some r \<Rightarrow> (case r of Inl e \<Rightarrow> Some (Inl e) | Inr a \<Rightarrow> f a))"

primrec ck_fold :: "('x \<Rightarrow> 's \<Rightarrow> 's checked) \<Rightarrow> 'x list \<Rightarrow> 's \<Rightarrow> 's checked" where
  "ck_fold f [] s = Some (Inr s)"
| "ck_fold f (x # xs) s = ck_bind (f x s) (ck_fold f xs)"

abbreviation ck_raise :: "string \<Rightarrow> string \<Rightarrow> 'a checked" where
  "ck_raise cls msg \<equiv> Some (Inl (PyExc cls msg))"

lemma ck_bind_simps [simp]:
  "ck_bind None f = None" "ck_bind (Some (Inl e)) f = Some (Inl e)" "ck_bind (Some (Inr a)) f = f a"
  by (simp_all add: ck_bind_def)

lemma ck_bind_eq_ok: "ck_bind x f = Some (Inr b) \<longleftrightarrow> (\<exists>a. x = Some (Inr a) \<and> f a = Some (Inr b))"
  by (auto simp: ck_bind_def split: option.splits sum.splits)

section \<open>Registries and placeholders\<close>

record node_callable =
  nc_cow :: "time \<Rightarrow> time option \<Rightarrow> CopyOnWriteState \<Rightarrow> cow_return"
  nc_plain :: "time \<Rightarrow> time option \<Rightarrow> state \<Rightarrow> plain_return"

record registered =
  as_function :: node_callable
  as_subgraph :: "string \<Rightarrow> node_callable"

record schema_env =
  str_of :: "pyval \<Rightarrow> string"
  type_of :: "pyval \<Rightarrow> string"
  safe_load :: "string \<Rightarrow> string + pyval"
  call_time :: time

text \<open>The function of a \<^verbatim>\<open>passthrough\<close> node, and that of an \<^verbatim>\<open>agent\<close> or \<^verbatim>\<open>compute\<close> node, which
  leaves its definition in the state for the executor.\<close>

definition passthrough_func :: "time \<Rightarrow> node_callable" where
  "passthrough_func dt =
     \<lparr>nc_cow = (\<lambda>now rem w. \<lparr>cr_elapsed = dt, cr_wrapper = w, cr_outcome = Inr (RetCow w)\<rparr>),
      nc_plain = (\<lambda>now rem s. \<lparr>pr_elapsed = dt, pr_argument = s, pr_outcome = Inr s\<rparr>)\<rparr>"

definition placeholder_func :: "time \<Rightarrow> string \<Rightarrow> state \<Rightarrow> node_callable" where
  "placeholder_func dt key node_config =
     \<lparr>nc_cow = (\<lambda>now rem w. \<lparr>cr_elapsed = dt, cr_wrapper = w,
         cr_outcome = Inr (RetDict (dict_set key (VDict node_config) (dict_update [] (cow_items w))))\<rparr>),
      nc_plain = (\<lambda>now rem s. \<lparr>pr_elapsed = dt, pr_argument = s,
         pr_outcome = Inr (dict_set key (VDict node_config) (dict_update [] s))\<rparr>)\<rparr>"

section \<open>Nodes and edges of a schema\<close>

text \<open>\<^verbatim>\<open>{k: v for k, v in node_def.items() if k not in keys}\<close>.\<close>

definition without_keys :: "string list \<Rightarrow> state \<Rightarrow> state" where
  "without_keys ks d = filter (\<lambda>(k, v). k \<notin> set ks) d"

text \<open>
  \<^verbatim>\<open>graph.add_node(node_id, func, **metadata)\<close>: a metadata key with the name of a positional
  parameter makes the call itself fail.
\<close>

definition add_node_kwargs :: "string \<Rightarrow> node_callable \<Rightarrow> state \<Rightarrow> StateGraph \<Rightarrow> StateGraph result" where
  "add_node_kwargs i f meta g =
     (case find (\<lambda>k. k \<in> {''self'', ''node_id'', ''func''}) (dict_keys meta) of
        Some k \<Rightarrow> Inl (PyExc ''TypeError'' (''StateGraph.add_node() got multiple values for argument '' @ quoted k))
      | None \<Rightarrow> add_node \<lparr>n_id = i, func_cow = nc_cow f, func_plain = nc_plain f, n_metadata = meta\<rparr> g)"

definition schema_function ::
  "(string, registered) dict \<Rightarrow> string \<Rightarrow> state \<Rightarrow> StateGraph \<Rightarrow> StateGraph checked" where
  "schema_function reg i d g =
     (let f = dict_get_or d ''func'' VNone
      in if \<not> py_truthy f
         then ck_raise ''ValueError'' (''Function node '' @ quoted i @ '' must specify '' @ quoted ''func'')
         else case f of
             VStr name \<Rightarrow>
               (case dict_get reg name of
                  None \<Rightarrow> ck_raise ''ValueError'' (''Node function '' @ quoted name @
                    '' not found in node_registry. Available: '' @ repr_strs (dict_keys reg))
                | Some r \<Rightarrow> Some (add_node_kwargs i (as_function r) (without_keys [''id'', ''type'', ''func''] d) g))
           | _ \<Rightarrow> None)"

definition schema_subgraph ::
  "(string, registered) dict \<Rightarrow> string \<Rightarrow> state \<Rightarrow> StateGraph \<Rightarrow> StateGraph checked" where
  "schema_subgraph reg i d g =
     (let f = dict_get_or d ''graph'' VNone
      in if \<not> py_truthy f
         then ck_raise ''ValueError'' (''Subgraph node '' @ quoted i @ '' must specify '' @ quoted ''graph'' @ '' key'')
         else case f of
             VStr name \<Rightarrow>
               (case dict_get reg name of
                  None \<Rightarrow> ck_raise ''ValueError'' (''Subgraph '' @ quoted name @
                    '' not found in node_registry. Available: '' @ repr_strs (dict_keys reg))
                | Some r \<Rightarrow> Some (add_node \<lparr>n_id = i, func_cow = nc_cow (as_subgraph r i),
                                            func_plain = nc_plain (as_subgraph r i), n_metadata = []\<rparr> g))
           | _ \<Rightarrow> None)"

definition schema_node ::
  "schema_env \<Rightarrow> (string, registered) dict \<Rightarrow> pyval \<Rightarrow> StateGraph \<Rightarrow> StateGraph checked" where
  "schema_node env reg node_def g =
     (case node_def of
        VDict d \<Rightarrow>
          (let i = dict_get_or d ''id'' VNone; t = dict_get_or d ''type'' (VStr ''function'')
           in if \<not> py_truthy i
              then ck_raise ''ValueError'' (''Node definition must have '' @ quoted ''id'' @ '' field'')
              else case i of
                  VStr i \<Rightarrow>
                    (if t = VStr ''function'' then schema_function reg i d g
                     else if t = VStr ''passthrough''
                     then Some (add_node_kwargs i (passthrough_func (call_time env)) (without_keys [''id'', ''type''] d) g)
                     else if t = VStr ''agent''
                     then Some (add_node_kwargs i (placeholder_func (call_time env) ''_pending_agent'' d)
                            (without_keys [''id'', ''type''] d) g)
                     else if t = VStr ''compute''
                     then Some (add_node_kwargs i (placeholder_func (call_time env) ''_pending_compute'' d)
                            (without_keys [''id'', ''type''] d) g)
                     else if t = VStr ''subgraph'' then schema_subgraph reg i d g
                     else ck_raise ''TypeError'' (''Unsupported node type: '' @ str_of env t))
                | _ \<Rightarrow> None)
      | v \<Rightarrow> ck_raise ''ValueError'' (''Invalid node definition: '' @ str_of env v))"

text \<open>The branches of a target dictionary, all of them strings.\<close>

fun string_entries :: "state \<Rightarrow> (string, string) dict option" where
  "string_entries [] = Some []"
| "string_entries ((k, VStr s) # d) = map_option (\<lambda>bs. (k, s) # bs) (string_entries d)"
| "string_entries _ = None"

fun target_value :: "pyval \<Rightarrow> edge_target option" where
  "target_value (VStr t) = Some (ToNode t)"
| "target_value (VDict d) = map_option Branches (string_entries d)"
| "target_value _ = None"

text \<open>A normal edge takes the target as it is, also when it is a dictionary.\<close>

definition normal_edge :: "string \<Rightarrow> pyval \<Rightarrow> StateGraph \<Rightarrow> StateGraph checked" where
  "normal_edge src target g =
     (case target_value target of
        None \<Rightarrow> None
      | Some t \<Rightarrow> Some (Inr (append_edge
          \<lparr>edge_source = src, edge_target = t, edge_type = NORMAL, edge_condition = None\<rparr> g)))"

definition conditional_edge ::
  "schema_env \<Rightarrow> (string, state \<Rightarrow> cond_value result) dict \<Rightarrow> string \<Rightarrow> pyval \<Rightarrow> state \<Rightarrow> StateGraph \<Rightarrow> StateGraph checked" where
  "conditional_edge env conds src target d g =
     (let c = dict_get_or d ''condition'' VNone
      in if \<not> py_truthy c
         then ck_raise ''ValueError'' (''Conditional edge from '' @ quoted src @ '' must specify '' @ quoted ''condition'')
         else case c of
             VStr name \<Rightarrow>
               (case dict_get conds name of
                  None \<Rightarrow> ck_raise ''ValueError'' (''Condition function '' @ quoted name @
                    '' not found in condition_registry. Available: '' @ repr_strs (dict_keys conds))
                | Some f \<Rightarrow>
                    (case target of
                       VDict bs \<Rightarrow>
                         (case string_entries bs of
                            None \<Rightarrow> None
                          | Some branches \<Rightarrow> Some (Inr (add_conditional_edge src f branches g)))
                     | v \<Rightarrow> ck_raise ''ValueError''
                         (''Conditional edge target must be dict mapping branches to nodes, got: '' @ type_of env v)))
           | _ \<Rightarrow> None)"

definition schema_edge ::
  "schema_env \<Rightarrow> (string, state \<Rightarrow> cond_value result) dict \<Rightarrow> pyval \<Rightarrow> StateGraph \<Rightarrow> StateGraph checked" where
  "schema_edge env conds edge_def g =
     (case edge_def of
        VDict d \<Rightarrow>
          (let src = dict_get_or d ''source'' VNone; target = dict_get_or d ''target'' VNone;
               t = dict_get_or d ''type'' (VStr ''normal'')
           in if \<not> py_truthy src
              then ck_raise ''ValueError'' (''Edge definition must have '' @ quoted ''source'' @ '' field'')
              else if target = VNone
              then ck_raise ''ValueError'' (''Edge definition must have '' @ quoted ''target'' @ '' field'')
              else case src of
                  VStr src \<Rightarrow>
                    (if t = VStr ''normal'' then normal_edge src target g
                     else if t = VStr ''conditional'' then conditional_edge env conds src target d g
                     else ck_raise ''TypeError'' (''Unsupported edge type: '' @ str_of env t))
                | _ \<Rightarrow> None)
      | v \<Rightarrow> ck_raise ''ValueError'' (''Invalid edge definition: '' @ str_of env v))"

section \<open>The whole schema\<close>

text \<open>\<^verbatim>\<open>dict(metadata or {})\<close> for the metadata of the schema.\<close>

definition schema_metadata :: "state \<Rightarrow> state option" where
  "schema_metadata d =
     (case dict_get_or d ''metadata'' VNone of
        VDict m \<Rightarrow> Some m
      | v \<Rightarrow> if py_truthy v then None else Some [])"

definition schema_entry :: "schema_env \<Rightarrow> pyval \<Rightarrow> StateGraph \<Rightarrow> StateGraph checked" where
  "schema_entry env v g =
     (let missing = ck_raise ''ValueError'' (''Entry point '' @ quoted (str_of env v) @
            '' not found in nodes. Available nodes: '' @ repr_strs (dict_keys (sg_nodes g)))
      in case v of
          VStr entry \<Rightarrow>
            if \<not> dict_has (sg_nodes g) entry
            then ck_raise ''ValueError'' (''Entry point '' @ quoted entry @
              '' not found in nodes. Available nodes: '' @ repr_strs (dict_keys (sg_nodes g)))
            else Some (set_entry_point entry g)
        | VNone \<Rightarrow> missing
        | VBool _ \<Rightarrow> missing
        | VInt _ \<Rightarrow> missing
        | VFloat _ \<Rightarrow> missing
        | _ \<Rightarrow> None)"

definition missing_fields :: "state \<Rightarrow> string list" where
  "missing_fields d = filter (\<lambda>f. \<not> dict_has d f) [''nodes'', ''edges'', ''entry_point'']"

datatype schema_input = SchemaText string | SchemaDict state

definition from_dict_schema ::
  "schema_env \<Rightarrow> schema \<Rightarrow> (string, registered) dict \<Rightarrow> (string, state \<Rightarrow> cond_value result) dict \<Rightarrow> state \<Rightarrow>
   StateGraph checked" where
  "from_dict_schema env sch reg conds d =
     (if missing_fields d \<noteq> []
      then ck_raise ''ValueError'' (''Schema missing required fields: '' @ repr_strs (missing_fields d))
      else case (schema_metadata d, dict_get d ''nodes'', dict_get d ''edges'', dict_get d ''entry_point'') of
          (Some meta, Some (VList nodes), Some (VList edges), Some entry) \<Rightarrow>
            ck_bind (ck_fold (schema_node env reg) nodes (sg_init sch (Some meta))) (\<lambda>g.
            ck_bind (ck_fold (schema_edge env conds) edges g) (\<lambda>g.
            schema_entry env entry g))
        | _ \<Rightarrow> None)"

definition from_schema ::
  "schema_env \<Rightarrow> schema \<Rightarrow> (string, registered) dict \<Rightarrow> (string, state \<Rightarrow> cond_value result) dict \<Rightarrow> schema_input \<Rightarrow>
   StateGraph checked" where
  "from_schema env sch reg conds input =
     (case input of
        SchemaDict d \<Rightarrow> from_dict_schema env sch reg conds d
      | SchemaText s \<Rightarrow>
          (case safe_load env s of
             Inl text \<Rightarrow> ck_raise ''ValueError'' (''Invalid YAML schema: '' @ text)
           | Inr (VDict d) \<Rightarrow> from_dict_schema env sch reg conds d
           | Inr _ \<Rightarrow> None))"

section \<open>What a schema says\<close>

text \<open>The identifier of a node definition, and source, target and kind of an edge definition.\<close>

definition def_id :: "pyval \<Rightarrow> string" where
  "def_id v = (case v of VDict d \<Rightarrow> (case dict_get d ''id'' of Some (VStr i) \<Rightarrow> i | _ \<Rightarrow> []) | _ \<Rightarrow> [])"

definition edge_shape :: "Edge \<Rightarrow> edge_target \<times> EdgeType" where
  "edge_shape e = (edge_target e, edge_type e)"

definition def_source :: "pyval \<Rightarrow> string" where
  "def_source v = (case v of VDict d \<Rightarrow> (case dict_get d ''source'' of Some (VStr x) \<Rightarrow> x | _ \<Rightarrow> []) | _ \<Rightarrow> [])"

definition def_shape :: "pyval \<Rightarrow> edge_target \<times> EdgeType" where
  "def_shape v = (case v of
     VDict d \<Rightarrow> (the (target_value (dict_get_or d ''target'' VNone)),
       if dict_get_or d ''type'' (VStr ''normal'') = VStr ''normal'' then NORMAL else CONDITIONAL)
   | _ \<Rightarrow> (ToNode [], NORMAL))"

lemma add_node_kwargs_ok:
  "add_node_kwargs i f meta g = Inr g' \<Longrightarrow> \<exists>n. n_id n = i \<and> add_node n g = Inr g'"
  by (auto simp: add_node_kwargs_def split: option.splits intro: exI [of _ "\<lparr>n_id = i, func_cow = _, func_plain = _, n_metadata = _\<rparr>"])

lemma schema_function_ok:
  "schema_function reg i d g = Some (Inr g') \<Longrightarrow> \<exists>n. n_id n = i \<and> add_node n g = Inr g'"
  by (auto simp: schema_function_def Let_def split: if_splits pyval.splits option.splits dest: add_node_kwargs_ok)

lemma schema_subgraph_ok:
  "schema_subgraph reg i d g = Some (Inr g') \<Longrightarrow> \<exists>n. n_id n = i \<and> add_node n g = Inr g'"
  by (force simp: schema_subgraph_def Let_def split: if_splits pyval.splits option.splits)

lemma schema_node_ok:
  assumes "schema_node env reg v g = Some (Inr g')"
  shows "\<exists>n. n_id n = def_id v \<and> add_node n g = Inr g'"
proof -
  obtain d where v: "v = VDict d" using assms by (cases v) (auto simp: schema_node_def)
  let ?i = "dict_get_or d ''id'' VNone"
  obtain i where i: "?i = VStr i"
    using assms v by (cases ?i) (auto simp: schema_node_def Let_def split: if_splits)
  then have "def_id v = i" using v by (auto simp: def_id_def dict_get_or_def split: option.splits)
  with assms i v show ?thesis
    by (auto simp: schema_node_def Let_def split: if_splits
        dest: add_node_kwargs_ok schema_function_ok schema_subgraph_ok)
qed

lemma schema_node_step:
  assumes "schema_node env reg v g = Some (Inr g')" "sg_ok g"
  shows "sg_ok g' \<and> node_ids g' = node_ids g @ [def_id v] \<and> sg_edges g' = sg_edges g"
proof -
  obtain n where n: "n_id n = def_id v" "add_node n g = Inr g'" using schema_node_ok [OF assms(1)] by blast
  then have "node_ids g' = node_ids g @ [def_id v] \<and> sg_edges g' = sg_edges g"
    by (auto simp: add_node_def node_ids_def dict_simps split: if_splits)
  with add_node_ok [OF assms(2) n(2)] show ?thesis by simp
qed

lemma schema_nodes:
  assumes "ck_fold (schema_node env reg) nodes g = Some (Inr g')" "sg_ok g"
  shows "sg_ok g' \<and> node_ids g' = node_ids g @ map def_id nodes \<and> sg_edges g' = sg_edges g"
  using assms
proof (induction nodes arbitrary: g)
  case (Cons v nodes)
  then obtain g1 where "schema_node env reg v g = Some (Inr g1)" "ck_fold (schema_node env reg) nodes g1 = Some (Inr g')"
    by (auto simp: ck_bind_eq_ok)
  with Cons schema_node_step show ?case by fastforce
qed simp

lemma schema_edge_ok:
  assumes "schema_edge env conds v g = Some (Inr g')"
  shows "\<exists>e. g' = append_edge e g \<and> edge_source e = def_source v \<and> edge_shape e = def_shape v"
proof -
  obtain d where v: "v = VDict d" using assms by (cases v) (auto simp: schema_edge_def)
  let ?s = "dict_get_or d ''source'' VNone" and ?t = "dict_get_or d ''target'' VNone"
  obtain src where src: "?s = VStr src"
    using assms v by (cases ?s) (auto simp: schema_edge_def Let_def split: if_splits)
  then have "def_source v = src" using v by (auto simp: def_source_def dict_get_or_def split: option.splits)
  moreover consider "dict_get_or d ''type'' (VStr ''normal'') = VStr ''normal''" "normal_edge src ?t g = Some (Inr g')"
    | "dict_get_or d ''type'' (VStr ''normal'') = VStr ''conditional''" "conditional_edge env conds src ?t d g = Some (Inr g')"
    using assms v src by (auto simp: schema_edge_def Let_def split: if_splits)
  then have "\<exists>e. g' = append_edge e g \<and> edge_source e = src \<and> edge_shape e = def_shape v"
  proof cases
    case 1
    with v show ?thesis
      by (auto simp: normal_edge_def edge_shape_def def_shape_def split: option.splits
          intro!: exI [of _ "\<lparr>edge_source = src, edge_target = _, edge_type = NORMAL, edge_condition = None\<rparr>"])
  next
    case 2
    then obtain f bs branches where "?t = VDict bs" "string_entries bs = Some branches"
      "g' = add_conditional_edge src f branches g"
      by (auto simp: conditional_edge_def Let_def split: if_splits pyval.splits option.splits)
    with v 2 show ?thesis
      by (auto simp: add_conditional_edge_def edge_shape_def def_shape_def
          intro!: exI [of _ "\<lparr>edge_source = src, edge_target = Branches branches, edge_type = CONDITIONAL, edge_condition = Some f\<rparr>"])
  qed
  ultimately show ?thesis by simp
qed

lemma schema_edges:
  assumes "ck_fold (schema_edge env conds) edges g = Some (Inr g')" "sg_ok g"
  shows "sg_ok g' \<and> sg_nodes g' = sg_nodes g \<and>
    (\<forall>src. map edge_shape (dict_get_or (sg_edges g') src []) =
       map edge_shape (dict_get_or (sg_edges g) src []) @ map def_shape (filter (\<lambda>v. def_source v = src) edges))"
  using assms
proof (induction edges arbitrary: g)
  case (Cons v edges)
  then obtain g1 where g1: "schema_edge env conds v g = Some (Inr g1)" "ck_fold (schema_edge env conds) edges g1 = Some (Inr g')"
    by (auto simp: ck_bind_eq_ok)
  then obtain e where e: "g1 = append_edge e g" "edge_source e = def_source v" "edge_shape e = def_shape v"
    using schema_edge_ok by blast
  have "sg_ok g1" using e(1) Cons.prems(2) by (simp add: append_edge_ok)
  moreover have "dict_get_or (sg_edges g1) src [] =
      dict_get_or (sg_edges g) src [] @ (if src = def_source v then [e] else [])" for src
    using e by (auto simp: append_edge_get dict_get_or_def split: option.splits)
  ultimately show ?case using Cons.IH [OF g1(2)] e by (auto simp: append_edge_frame)
qed simp

section \<open>What loading a schema promises\<close>

text \<open>C33. A schema that loads is the graph it describes: its nodes are those of the node
  definitions in their order, all different; from every source lead the edges of the edge
  definitions with that source, in their order, with their targets and kinds; the entry point is
  the one named and it is a node. The builder's invariant holds, so the results on validation and
  routing of compiled graphs apply to it.\<close>

theorem schema_builds_graph:
  assumes "from_schema env sch reg conds (SchemaDict d) = Some (Inr g)"
  shows "\<exists>nodes edges entry.
    dict_get d ''nodes'' = Some (VList nodes) \<and> dict_get d ''edges'' = Some (VList edges) \<and>
    dict_get d ''entry_point'' = Some (VStr entry) \<and>
    node_ids g = map def_id nodes \<and> distinct (map def_id nodes) \<and>
    (\<forall>src. map edge_shape (dict_get_or (sg_edges g) src []) =
       map def_shape (filter (\<lambda>v. def_source v = src) edges)) \<and>
    sg_entry g = Some entry \<and> entry \<in> set (node_ids g) \<and> sg_ok g"
proof -
  obtain meta nodes edges entry g1 g2 where parts: "dict_get d ''nodes'' = Some (VList nodes)"
    "dict_get d ''edges'' = Some (VList edges)" "dict_get d ''entry_point'' = Some entry"
    and folds: "ck_fold (schema_node env reg) nodes (sg_init sch (Some meta)) = Some (Inr g1)"
      "ck_fold (schema_edge env conds) edges g1 = Some (Inr g2)" "schema_entry env entry g2 = Some (Inr g)"
    using assms by (auto simp: from_schema_def from_dict_schema_def ck_bind_eq_ok
        split: if_splits option.splits pyval.splits)
  have "sg_ok (sg_init sch (Some meta))" by (simp add: sg_ok_def sg_init_def)
  then have n: "sg_ok g1" "node_ids g1 = map def_id nodes" "sg_edges g1 = []"
    using schema_nodes [OF folds(1)] by (auto simp: node_ids_def sg_init_def dict_keys_def)
  then have e: "sg_ok g2" "sg_nodes g2 = sg_nodes g1"
    "\<forall>src. map edge_shape (dict_get_or (sg_edges g2) src []) = map def_shape (filter (\<lambda>v. def_source v = src) edges)"
    using schema_edges [OF folds(2) n(1)] by (auto simp: dict_get_or_def)
  obtain x where x: "entry = VStr x" "dict_has (sg_nodes g2) x" "set_entry_point x g2 = Inr g"
    using folds(3) by (auto simp: schema_entry_def Let_def split: pyval.splits if_splits)
  then have g: "g = g2\<lparr>sg_entry := Some x\<rparr>" by (simp add: set_entry_point_def)
  have "distinct (map def_id nodes)" using n by (simp add: sg_ok_def dict_ok_def node_ids_def dict_keys_def)
  then show ?thesis
    using parts n(2) e x g set_entry_ok [OF e(1) x(3)]
    by (simp add: node_ids_def dict_has_keys)
qed

definition plain_schema_env :: schema_env where
  "plain_schema_env = \<lparr>str_of = (\<lambda>_. ''?''), type_of = (\<lambda>_. ''?''), safe_load = (\<lambda>_. Inl ''no parser''), call_time = 0\<rparr>"

definition sample_schema :: state where
  "sample_schema =
     [(''nodes'', VList [VDict [(''id'', VStr ''a''), (''type'', VStr ''passthrough'')],
                        VDict [(''id'', VStr ''b''), (''type'', VStr ''agent''), (''role'', VStr ''writer'')]]),
      (''edges'', VList [VDict [(''source'', VStr ''a''), (''target'', VStr ''b'')],
                        VDict [(''source'', VStr ''b''), (''target'', VStr END)]]),
      (''entry_point'', VStr ''a'')]"

lemma sample_schema_loads:
  "\<exists>g. from_schema plain_schema_env NoSchema [] [] (SchemaDict sample_schema) = Some (Inr g)"
  by (simp add: from_schema_def from_dict_schema_def sample_schema_def missing_fields_def schema_metadata_def dict_has_def
      dict_get_or_def schema_node_def schema_edge_def schema_entry_def normal_edge_def add_node_kwargs_def add_node_def
      append_edge_def set_entry_point_def without_keys_def dict_keys_def sg_init_def Let_def)

theorem schema_builds_graph_witness:
  "\<exists>g. from_schema plain_schema_env NoSchema [] [] (SchemaDict sample_schema) = Some (Inr g) \<and>
     node_ids g = [''a'', ''b''] \<and> sg_entry g = Some ''a'' \<and>
     map edge_shape (dict_get_or (sg_edges g) ''b'' []) = [(ToNode END, NORMAL)]"
proof -
  obtain g where g: "from_schema plain_schema_env NoSchema [] [] (SchemaDict sample_schema) = Some (Inr g)"
    using sample_schema_loads by blast
  then show ?thesis
    using schema_builds_graph [OF g]
    by (auto simp: sample_schema_def def_id_def def_source_def def_shape_def dict_get_or_def)
qed

text \<open>An edge with branches and a condition, but without a kind, becomes a normal edge: the
  condition is dropped, and a compiled graph without strict edges ends at such a node.\<close>

theorem untyped_branches_end:
  assumes "schema_edge env conds (VDict d) g = Some (Inr g')"
    and "dict_get d ''type'' = None" "dict_get d ''target'' = Some (VDict bs)"
    and "dict_get_or (sg_edges g) src [] = []" "dict_get d ''source'' = Some (VStr src)"
    and "dict_get (cg_edges cg) src = dict_get (sg_edges g') src" "\<not> cg_strict_edges cg"
  shows "get_next_node et cg src st = Inr (To END)"
proof -
  obtain branches where "g' = append_edge \<lparr>edge_source = src, edge_target = Branches branches,
      edge_type = NORMAL, edge_condition = None\<rparr> g"
    using assms(1,2,3,5)
    by (auto simp: schema_edge_def Let_def dict_get_or_def normal_edge_def split: if_splits option.splits)
  then have "dict_get_or (cg_edges cg) src [] = [\<lparr>edge_source = src, edge_target = Branches branches,
      edge_type = NORMAL, edge_condition = None\<rparr>]"
    using assms(4,6) by (simp add: dict_get_or_def append_edge_get)
  then show ?thesis
    using assms(7) by (simp add: get_next_node_def ordinary_fanout_def get_target_def)
qed

text \<open>The definition of a passthrough, agent or compute node cannot have a \<^verbatim>\<open>func\<close> entry: it is
  passed on as metadata and collides with the parameter of that name.\<close>

theorem func_metadata_collides:
  "schema_node env reg (VDict [(''id'', VStr ''n''), (''type'', VStr ''agent''), (''func'', v)]) g =
   ck_raise ''TypeError'' (''StateGraph.add_node() got multiple values for argument '' @ quoted ''func'')"
  by (simp add: schema_node_def Let_def dict_get_or_def add_node_kwargs_def without_keys_def dict_keys_def)

end
