(* ===== verification/Checkpoint_Store.thy ===== *)
theory Checkpoint_Store
  imports Graph_Checkpoint "HOL-Library.List_Lexorder" "HOL-Library.Char_ord"
begin

text \<open>
  The checkpoint store of \<^verbatim>\<open>victor/framework/rl/checkpoint_store.py\<close> and the adapter that makes a
  graph checkpointer of it (\<^verbatim>\<open>RLCheckpointerAdapter\<close> in \<^verbatim>\<open>victor/framework/graph_checkpoint.py\<close>).
  A store keeps a cache of checkpoints per learner and writes each of them to files or to a table.
  Parameters are the clock, which gives the ISO text of the time for each reading, the digest of
  a state, and what writing a checkpoint raises, if anything. Time stamps are strings, compared
  as strings. The cache holds the objects it was given; that they are not changed afterwards is
  assumed by the model. The lists of a difference are made from sets in an order the language
  does not fix, they are sets here.
\<close>

section \<open>Checkpoints\<close>

record PolicyCheckpoint =
  pc_checkpoint_id :: string
  pc_learner_name :: string
  pc_version :: string
  pc_state :: state
  pc_metadata :: state
  pc_timestamp :: string
  pc_parent_id :: "string option"
  pc_tags :: "string list"

definition pc_to_dict :: "(state \<Rightarrow> string) \<Rightarrow> PolicyCheckpoint \<Rightarrow> state" where
  "pc_to_dict state_hash c =
     [(''checkpoint_id'', VStr (pc_checkpoint_id c)), (''learner_name'', VStr (pc_learner_name c)),
      (''version'', VStr (pc_version c)), (''state'', VDict (pc_state c)), (''metadata'', VDict (pc_metadata c)),
      (''timestamp'', VStr (pc_timestamp c)),
      (''parent_id'', case pc_parent_id c of None \<Rightarrow> VNone | Some p \<Rightarrow> VStr p),
      (''tags'', VList (map VStr (pc_tags c))), (''state_hash'', VStr (state_hash (pc_state c)))]"

definition as_opt_str :: "pyval \<Rightarrow> string option option" where
  "as_opt_str v = (case v of VNone \<Rightarrow> Some None | VStr s \<Rightarrow> Some (Some s) | _ \<Rightarrow> None)"

fun as_strs :: "pyval \<Rightarrow> string list option" where
  "as_strs (VList []) = Some []"
| "as_strs (VList (VStr s # vs)) = map_option (\<lambda>ss. s # ss) (as_strs (VList vs))"
| "as_strs _ = None"

text \<open>\<^verbatim>\<open>data.get(key, default)\<close> with a value of the declared type.\<close>

definition typed_or :: "(pyval \<Rightarrow> 'a option) \<Rightarrow> state \<Rightarrow> string \<Rightarrow> 'a \<Rightarrow> 'a result option" where
  "typed_or f data key x = (case dict_get data key of None \<Rightarrow> Some (Inr x) | Some v \<Rightarrow> map_option Inr (f v))"

definition pc_from_dict :: "string \<Rightarrow> state \<Rightarrow> PolicyCheckpoint result option" where
  "pc_from_dict now data =
     bind_typed (typed_item as_str data ''checkpoint_id'') (\<lambda>i.
     bind_typed (typed_item as_str data ''learner_name'') (\<lambda>l.
     bind_typed (typed_item as_str data ''version'') (\<lambda>v.
     bind_typed (typed_item as_dict data ''state'') (\<lambda>s.
     bind_typed (typed_or as_dict data ''metadata'' []) (\<lambda>m.
     bind_typed (typed_or as_str data ''timestamp'' now) (\<lambda>ts.
     bind_typed (typed_or as_opt_str data ''parent_id'' None) (\<lambda>p.
     bind_typed (typed_or as_strs data ''tags'' []) (\<lambda>tags.
     Some (Inr \<lparr>pc_checkpoint_id = i, pc_learner_name = l, pc_version = v, pc_state = s, pc_metadata = m,
                pc_timestamp = ts, pc_parent_id = p, pc_tags = tags\<rparr>)))))))))"

section \<open>The store\<close>

record CheckpointStore =
  cs_db :: bool
  cs_cache :: "(string, (string, PolicyCheckpoint) dict) dict"
  cs_next_id :: int
  cs_rows :: "PolicyCheckpoint list"
  cs_files :: "(string \<times> string, PolicyCheckpoint) dict"
  cs_reads :: nat

definition MAX_CHECKPOINTS_PER_LEARNER :: nat where
  "MAX_CHECKPOINTS_PER_LEARNER = 50"

definition cached :: "CheckpointStore \<Rightarrow> string \<Rightarrow> (string, PolicyCheckpoint) dict" where
  "cached s learner = dict_get_or (cs_cache s) learner []"

text \<open>\<^verbatim>\<open>if learner_name not in cache: cache[learner_name] = {}\<close>, then the entry of a version.\<close>

definition put_cache :: "PolicyCheckpoint \<Rightarrow> CheckpointStore \<Rightarrow> CheckpointStore" where
  "put_cache c s = s\<lparr>cs_cache := dict_set (pc_learner_name c)
     (dict_set (pc_version c) c (cached s (pc_learner_name c))) (cs_cache s)\<rparr>"

definition safe_version :: "string \<Rightarrow> string" where
  "safe_version v = map (\<lambda>ch. if ch = CHR ''/'' \<or> ch = char_of (92::nat) then CHR ''_'' else ch) v"

definition file_key :: "PolicyCheckpoint \<Rightarrow> string \<times> string" where
  "file_key c = (pc_learner_name c, safe_version (pc_version c))"

definition save_to_db :: "PolicyCheckpoint \<Rightarrow> CheckpointStore \<Rightarrow> CheckpointStore" where
  "save_to_db c s = s\<lparr>cs_rows := filter (\<lambda>r. pc_checkpoint_id r \<noteq> pc_checkpoint_id c \<and>
     \<not> (pc_learner_name r = pc_learner_name c \<and> pc_version r = pc_version c)) (cs_rows s) @ [c]\<rparr>"

definition save_to_file :: "PolicyCheckpoint \<Rightarrow> CheckpointStore \<Rightarrow> CheckpointStore" where
  "save_to_file c s = s\<lparr>cs_files := dict_set (file_key c) c (cs_files s)\<rparr>"

definition save_policy_checkpoint :: "(PolicyCheckpoint \<Rightarrow> py_exc option) \<Rightarrow> PolicyCheckpoint \<Rightarrow> CheckpointStore \<Rightarrow> unit result \<times> CheckpointStore" where
  "save_policy_checkpoint fails c s =
     (case fails c of
        Some e \<Rightarrow> (Inl e, s)
      | None \<Rightarrow> (Inr (), if cs_db s then save_to_db c s else save_to_file c s))"

definition delete_checkpoint :: "PolicyCheckpoint \<Rightarrow> CheckpointStore \<Rightarrow> CheckpointStore" where
  "delete_checkpoint c s =
     (let s = (case dict_get (cs_cache s) (pc_learner_name c) of
                 None \<Rightarrow> s
               | Some vs \<Rightarrow> s\<lparr>cs_cache := dict_set (pc_learner_name c) (dict_pop (pc_version c) vs) (cs_cache s)\<rparr>)
      in if cs_db s then s\<lparr>cs_rows := filter (\<lambda>r. pc_checkpoint_id r \<noteq> pc_checkpoint_id c) (cs_rows s)\<rparr>
         else s\<lparr>cs_files := dict_pop (file_key c) (cs_files s)\<rparr>)"

definition cleanup_old_checkpoints :: "string \<Rightarrow> CheckpointStore \<Rightarrow> CheckpointStore" where
  "cleanup_old_checkpoints learner s =
     (let cps = dict_values (cached s learner)
      in if length cps \<le> MAX_CHECKPOINTS_PER_LEARNER then s
         else fold delete_checkpoint
           (take (length cps - MAX_CHECKPOINTS_PER_LEARNER) (sort_key pc_timestamp cps)) s)"

definition create_checkpoint ::
  "(nat \<Rightarrow> string) \<Rightarrow> (PolicyCheckpoint \<Rightarrow> py_exc option) \<Rightarrow> string \<Rightarrow> string \<Rightarrow> state \<Rightarrow> state option \<Rightarrow> string option \<Rightarrow>
   string list option \<Rightarrow> CheckpointStore \<Rightarrow> PolicyCheckpoint result \<times> CheckpointStore" where
  "create_checkpoint clk fails learner ver st meta parent tags s =
     (let c = \<lparr>pc_checkpoint_id = ''ckpt_'' @ learner @ ''_'' @ show_int (cs_next_id s), pc_learner_name = learner,
               pc_version = ver, pc_state = st, pc_metadata = (case meta of None \<Rightarrow> [] | Some m \<Rightarrow> m),
               pc_timestamp = clk (cs_reads s), pc_parent_id = parent, pc_tags = (case tags of None \<Rightarrow> [] | Some ts \<Rightarrow> ts)\<rparr>;
          s = put_cache c (s\<lparr>cs_next_id := cs_next_id s + 1, cs_reads := Suc (cs_reads s)\<rparr>)
      in case save_policy_checkpoint fails c s of
          (Inl e, s) \<Rightarrow> (Inl e, s)
        | (Inr _, s) \<Rightarrow> (Inr c, cleanup_old_checkpoints learner s))"

definition get_checkpoint :: "CheckpointStore \<Rightarrow> string \<Rightarrow> string \<Rightarrow> PolicyCheckpoint option" where
  "get_checkpoint s learner ver = dict_get (cached s learner) ver"

text \<open>\<^verbatim>\<open>max(xs, key=...)\<close>: the first of the greatest.\<close>

definition max_by :: "('a \<Rightarrow> 'k::linorder) \<Rightarrow> 'a \<Rightarrow> 'a list \<Rightarrow> 'a" where
  "max_by f x xs = fold (\<lambda>y b. if f b < f y then y else b) xs x"

definition get_latest_checkpoint :: "CheckpointStore \<Rightarrow> string \<Rightarrow> PolicyCheckpoint option" where
  "get_latest_checkpoint s learner =
     (case dict_values (cached s learner) of [] \<Rightarrow> None | c # cs \<Rightarrow> Some (max_by pc_timestamp c cs))"

definition list_checkpoints :: "string option \<Rightarrow> string option \<Rightarrow> CheckpointStore \<Rightarrow> PolicyCheckpoint list" where
  "list_checkpoints learner tag s =
     (let cps = (case learner of
                   Some l \<Rightarrow> if l \<noteq> [] then dict_values (cached s l)
                             else concat (map dict_values (dict_values (cs_cache s)))
                 | None \<Rightarrow> concat (map dict_values (dict_values (cs_cache s))));
          kept = filter (\<lambda>c. \<not> (case tag of Some t \<Rightarrow> t \<noteq> [] \<and> t \<notin> set (pc_tags c) | None \<Rightarrow> False)) cps
      in sorted_desc pc_timestamp kept)"

definition tag_checkpoint ::
  "(PolicyCheckpoint \<Rightarrow> py_exc option) \<Rightarrow> string \<Rightarrow> string \<Rightarrow> string \<Rightarrow> CheckpointStore \<Rightarrow> bool result \<times> CheckpointStore" where
  "tag_checkpoint fails learner ver tag s =
     (case get_checkpoint s learner ver of
        None \<Rightarrow> (Inr False, s)
      | Some c \<Rightarrow>
          (if tag \<in> set (pc_tags c) then (Inr True, s)
           else let c = c\<lparr>pc_tags := pc_tags c @ [tag]\<rparr>;
                    s = s\<lparr>cs_cache := dict_set learner (dict_set ver c (cached s learner)) (cs_cache s)\<rparr>
                in case save_policy_checkpoint fails c s of (Inl e, s) \<Rightarrow> (Inl e, s) | (Inr _, s) \<Rightarrow> (Inr True, s)))"

section \<open>Loading\<close>

text \<open>The number at the end of an identifier, \<^verbatim>\<open>int(s.split("_")[-1])\<close>.\<close>

definition read_int :: "string \<Rightarrow> int option" where
  "read_int s =
     (let s = py_strip s;
          (neg, ds) = (case s of c # r \<Rightarrow> if c = CHR ''-'' then (True, r) else if c = CHR ''+'' then (False, r) else (False, s)
                     | [] \<Rightarrow> (False, []))
      in if ds = [] \<or> \<not> list_all is_digit ds then None
         else Some (if neg then - int (read_nat ds) else int (read_nat ds)))"

definition id_number :: "string \<Rightarrow> int option" where
  "id_number i = read_int (rev (takeWhile (\<lambda>c. c \<noteq> CHR ''_'') (rev i)))"

definition update_next_id :: "PolicyCheckpoint \<Rightarrow> CheckpointStore \<Rightarrow> CheckpointStore" where
  "update_next_id c s =
     (case id_number (pc_checkpoint_id c) of
        None \<Rightarrow> s
      | Some n \<Rightarrow> s\<lparr>cs_next_id := max (cs_next_id s) (n + 1)\<rparr>)"

text \<open>A file of a learner's directory: what was read from it, nothing when reading raised.\<close>

definition load_file :: "(nat \<Rightarrow> string) \<Rightarrow> string \<Rightarrow> state option \<Rightarrow> CheckpointStore \<Rightarrow> CheckpointStore option" where
  "load_file clk learner content s =
     (case content of
        None \<Rightarrow> Some s
      | Some data \<Rightarrow>
          (let now = clk (cs_reads s); s = s\<lparr>cs_reads := Suc (cs_reads s)\<rparr>
           in case pc_from_dict now data of
               None \<Rightarrow> None
             | Some (Inl _) \<Rightarrow> Some s
             | Some (Inr c) \<Rightarrow> Some (update_next_id c
                 (s\<lparr>cs_cache := dict_set learner (dict_set (pc_version c) c (cached s learner)) (cs_cache s)\<rparr>))))"

primrec load_dir :: "(nat \<Rightarrow> string) \<Rightarrow> string \<Rightarrow> state option list \<Rightarrow> CheckpointStore \<Rightarrow> CheckpointStore option" where
  "load_dir clk learner [] s = Some s"
| "load_dir clk learner (f # fs) s = Option.bind (load_file clk learner f s) (load_dir clk learner fs)"

fun load_from_files :: "(nat \<Rightarrow> string) \<Rightarrow> (string \<times> state option list) list \<Rightarrow> CheckpointStore \<Rightarrow> CheckpointStore option" where
  "load_from_files clk [] s = Some s"
| "load_from_files clk ((learner, files) # dirs) s =
     Option.bind (load_dir clk learner files (s\<lparr>cs_cache := dict_set learner [] (cs_cache s)\<rparr>)) (load_from_files clk dirs)"

text \<open>The rows come newest first, from a connection whose rows are read by column name.\<close>

definition load_from_db :: "CheckpointStore \<Rightarrow> CheckpointStore" where
  "load_from_db s = fold (\<lambda>c s. update_next_id c (put_cache c s)) (sorted_desc pc_timestamp (cs_rows s)) s"

definition empty_store :: "bool \<Rightarrow> PolicyCheckpoint list \<Rightarrow> CheckpointStore" where
  "empty_store db rows = \<lparr>cs_db = db, cs_cache = [], cs_next_id = 1, cs_rows = rows, cs_files = [], cs_reads = 0\<rparr>"

section \<open>Differences\<close>

record CheckpointDiff =
  diff_from_version :: string
  diff_to_version :: string
  added_keys :: "string set"
  removed_keys :: "string set"
  changed_keys :: "string set"
  unchanged_keys :: "string set"

definition has_changes :: "CheckpointDiff \<Rightarrow> bool" where
  "has_changes d \<longleftrightarrow> added_keys d \<noteq> {} \<or> removed_keys d \<noteq> {} \<or> changed_keys d \<noteq> {}"

definition change_ratio :: "CheckpointDiff \<Rightarrow> real" where
  "change_ratio d =
     (let total = card (added_keys d) + card (removed_keys d) + card (changed_keys d) + card (unchanged_keys d)
      in if total = 0 then 0
         else of_nat (card (added_keys d) + card (removed_keys d) + card (changed_keys d)) / of_nat total)"

definition dotted :: "string \<Rightarrow> string \<Rightarrow> string" where
  "dotted prefix k = (if prefix \<noteq> [] then prefix @ ''.'' @ k else k)"

fun flatten_keys :: "string \<Rightarrow> state \<Rightarrow> string list" where
  "flatten_keys prefix [] = []"
| "flatten_keys prefix ((k, VDict e) # d) = flatten_keys (dotted prefix k) e @ flatten_keys prefix d"
| "flatten_keys prefix ((k, v) # d) = dotted prefix k # flatten_keys prefix d"

fun split_dots :: "string \<Rightarrow> string list" where
  "split_dots [] = [[]]"
| "split_dots (c # s) =
     (if c = CHR ''.'' then [] # split_dots s
      else case split_dots s of [] \<Rightarrow> [[c]] | p # ps \<Rightarrow> (c # p) # ps)"

fun walk_parts :: "pyval \<Rightarrow> string list \<Rightarrow> pyval" where
  "walk_parts v [] = v"
| "walk_parts v (p # ps) =
     (case v of VDict d \<Rightarrow> (case dict_get d p of Some w \<Rightarrow> walk_parts w ps | None \<Rightarrow> VNone) | _ \<Rightarrow> VNone)"

definition get_nested_value :: "state \<Rightarrow> string \<Rightarrow> pyval" where
  "get_nested_value d key = walk_parts (VDict d) (split_dots key)"

definition diff_states :: "string \<Rightarrow> string \<Rightarrow> state \<Rightarrow> state \<Rightarrow> CheckpointDiff" where
  "diff_states from_version to_version from to =
     (let from_keys = set (flatten_keys [] from); to_keys = set (flatten_keys [] to);
          same = (\<lambda>key. pyval_eq (get_nested_value from key) (get_nested_value to key))
      in \<lparr>diff_from_version = from_version, diff_to_version = to_version,
          added_keys = to_keys - from_keys, removed_keys = from_keys - to_keys,
          changed_keys = Set.filter (\<lambda>key. \<not> same key) (from_keys \<inter> to_keys),
          unchanged_keys = Set.filter same (from_keys \<inter> to_keys)\<rparr>)"

definition diff_checkpoints :: "string \<Rightarrow> string \<Rightarrow> string \<Rightarrow> CheckpointStore \<Rightarrow> CheckpointDiff option" where
  "diff_checkpoints learner from_version to_version s =
     (case (get_checkpoint s learner from_version, get_checkpoint s learner to_version) of
        (Some a, Some b) \<Rightarrow> Some (diff_states from_version to_version (pc_state a) (pc_state b))
      | _ \<Rightarrow> None)"

definition export_metrics :: "string \<Rightarrow> CheckpointStore \<Rightarrow> state" where
  "export_metrics path s =
     [(''total_checkpoints'', VInt (int (sum_list (map length (dict_values (cs_cache s)))))),
      (''learners'', VInt (int (length (cs_cache s)))),
      (''checkpoints_per_learner'', VDict (map (\<lambda>(name, cps). (name, VInt (int (length cps)))) (cs_cache s))),
      (''storage_path'', VStr path)]"

section \<open>The adapter\<close>

definition rl_name :: "string \<Rightarrow> string \<Rightarrow> string" where
  "rl_name learner thread = learner @ ''_'' @ thread"

definition adapter_save ::
  "(nat \<Rightarrow> string) \<Rightarrow> (PolicyCheckpoint \<Rightarrow> py_exc option) \<Rightarrow> string \<Rightarrow> WorkflowCheckpoint \<Rightarrow> CheckpointStore \<Rightarrow>
   unit result \<times> CheckpointStore" where
  "adapter_save clk fails learner cp s =
     (case create_checkpoint clk fails (rl_name learner (thread_id cp)) (checkpoint_id cp)
             [(''node_id'', VStr (node_id cp)), (''state'', VDict (cp_state cp)), (''timestamp'', VFloat (timestamp cp))]
             (Some (metadata cp)) None None s of
        (Inl e, s) \<Rightarrow> (Inl e, s)
      | (Inr _, s) \<Rightarrow> (Inr (), s))"

definition to_workflow :: "string \<Rightarrow> PolicyCheckpoint \<Rightarrow> WorkflowCheckpoint option" where
  "to_workflow thread c =
     (case (typed_or as_str (pc_state c) ''node_id'' [], typed_or as_dict (pc_state c) ''state'' [],
            typed_or as_float (pc_state c) ''timestamp'' 0) of
        (Some (Inr n), Some (Inr st), Some (Inr ts)) \<Rightarrow>
          Some \<lparr>checkpoint_id = pc_version c, thread_id = thread, node_id = n, cp_state = st, timestamp = ts,
                metadata = pc_metadata c\<rparr>
      | _ \<Rightarrow> None)"

definition adapter_load :: "string \<Rightarrow> CheckpointStore \<Rightarrow> string \<Rightarrow> WorkflowCheckpoint option option" where
  "adapter_load learner s thread =
     (case get_latest_checkpoint s (rl_name learner thread) of
        None \<Rightarrow> Some None
      | Some c \<Rightarrow> map_option Some (to_workflow thread c))"

definition adapter_list :: "string \<Rightarrow> CheckpointStore \<Rightarrow> string \<Rightarrow> WorkflowCheckpoint option list" where
  "adapter_list learner s thread =
     map (to_workflow thread) (list_checkpoints (Some (rl_name learner thread)) None s)"

section \<open>The cache under the operations\<close>

lemma cached_put:
  "cached (put_cache c s) l =
     (if l = pc_learner_name c then dict_set (pc_version c) c (cached s l) else cached s l)"
  by (simp add: cached_def put_cache_def dict_get_or_def dict_simps)

lemma cached_delete:
  "cached (delete_checkpoint c s) l =
     (if l = pc_learner_name c then dict_pop (pc_version c) (cached s l) else cached s l)"
  by (auto simp: cached_def delete_checkpoint_def dict_get_or_def dict_simps Let_def split: option.splits)

lemma cached_save: "cached (snd (save_policy_checkpoint fails c s)) l = cached s l"
  by (simp add: save_policy_checkpoint_def save_to_db_def save_to_file_def cached_def split: option.splits)

lemma reads_save: "cs_reads (snd (save_policy_checkpoint fails c s)) = cs_reads s"
  by (simp add: save_policy_checkpoint_def save_to_db_def save_to_file_def split: option.splits)

lemma reads_put [simp]: "cs_reads (put_cache c s) = cs_reads s"
  by (simp add: put_cache_def)

lemma reads_delete [simp]: "cs_reads (delete_checkpoint c s) = cs_reads s"
  by (simp add: delete_checkpoint_def Let_def split: option.splits)

lemma cached_delete_all:
  "list_all (\<lambda>c. pc_learner_name c = l') cs \<Longrightarrow> cached (fold delete_checkpoint cs s) l =
     (if l = l' then filter (\<lambda>(v, c). v \<notin> pc_version ` set cs) (cached s l) else cached s l)"
  by (induction cs arbitrary: s) (auto simp: cached_delete AList.delete_eq intro!: filter_cong)

lemma reads_delete_all [simp]: "cs_reads (fold delete_checkpoint cs s) = cs_reads s"
  by (induction cs arbitrary: s) auto

text \<open>What the cache of a learner looks like: versions as keys, and time stamps that were read.\<close>

definition learner_ok :: "(nat \<Rightarrow> string) \<Rightarrow> nat \<Rightarrow> string \<Rightarrow> (string, PolicyCheckpoint) dict \<Rightarrow> bool" where
  "learner_ok clk n l d \<longleftrightarrow> dict_ok d \<and>
     (\<forall>(v, c) \<in> set d. pc_version c = v \<and> pc_learner_name c = l \<and> (\<exists>i < n. pc_timestamp c = clk i))"

definition store_ok :: "(nat \<Rightarrow> string) \<Rightarrow> CheckpointStore \<Rightarrow> bool" where
  "store_ok clk s \<longleftrightarrow> strict_mono clk \<and> (\<forall>l. learner_ok clk (cs_reads s) l (cached s l))"

lemma learner_ok_mono: "learner_ok clk n l d \<Longrightarrow> n \<le> n' \<Longrightarrow> learner_ok clk n' l d"
  unfolding learner_ok_def by (fastforce intro: less_le_trans)

lemma dict_set_member: "p \<in> set (dict_set k v d) \<Longrightarrow> p = (k, v) \<or> p \<in> set d"
  by (induction d) (auto split: if_splits)

lemma learner_ok_set:
  "learner_ok clk n l d \<Longrightarrow> pc_version c = v \<Longrightarrow> pc_learner_name c = l \<Longrightarrow> pc_timestamp c = clk i \<Longrightarrow> i < n \<Longrightarrow>
   learner_ok clk n l (dict_set v c d)"
  using dict_set_member [of _ v c d] by (fastforce simp: learner_ok_def)

lemma learner_ok_filter: "learner_ok clk n l d \<Longrightarrow> learner_ok clk n l (filter P d)"
  by (auto simp: learner_ok_def dict_ok_def distinct_map_filter)

lemma learner_ok_values:
  assumes "learner_ok clk n l d"
  shows "map pc_version (dict_values d) = dict_keys d" "distinct (map pc_version (dict_values d))"
    "list_all (\<lambda>c. pc_learner_name c = l) (dict_values d)"
proof -
  have "map (pc_version \<circ> snd) d = map fst d" using assms by (auto simp: learner_ok_def)
  then show "map pc_version (dict_values d) = dict_keys d" by (simp add: dict_values_def dict_keys_def)
  then show "distinct (map pc_version (dict_values d))" using assms by (simp add: learner_ok_def dict_ok_def dict_keys_def)
  show "list_all (\<lambda>c. pc_learner_name c = l) (dict_values d)"
    using assms by (auto simp: learner_ok_def dict_values_def list_all_iff)
qed

section \<open>The newest checkpoint\<close>

lemma max_by_greatest: "max_by f x xs \<in> set (x # xs) \<and> (\<forall>y \<in> set (x # xs). f y \<le> f (max_by f x xs))"
proof (induction xs arbitrary: x)
  case (Cons z xs)
  have step: "max_by f x (z # xs) = max_by f (if f x < f z then z else x) xs" by (simp add: max_by_def)
  show ?case using Cons [of "if f x < f z then z else x"] unfolding step by (auto split: if_splits intro: order_trans)
qed (simp add: max_by_def)

text \<open>The strictly newest element is the greatest, and dropping elements that sort first keeps it.\<close>

definition newest :: "PolicyCheckpoint \<Rightarrow> PolicyCheckpoint list \<Rightarrow> bool" where
  "newest c cs \<longleftrightarrow> c \<in> set cs \<and> (\<forall>x \<in> set cs. x \<noteq> c \<longrightarrow> pc_timestamp x < pc_timestamp c)"

lemma newest_latest:
  assumes "newest c (dict_values (cached s l))"
  shows "get_latest_checkpoint s l = Some c"
proof (cases "dict_values (cached s l)")
  case Nil
  with assms show ?thesis by (simp add: newest_def)
next
  case (Cons x xs)
  then have "max_by pc_timestamp x xs = c"
    using assms max_by_greatest [of pc_timestamp x xs] by (fastforce simp: newest_def)
  with Cons show ?thesis by (simp add: get_latest_checkpoint_def)
qed

lemma newest_not_dropped:
  assumes "newest c cs" "distinct cs" "k < length cs"
  shows "c \<notin> set (take k (sort_key pc_timestamp cs))"
proof
  let ?ys = "sort_key pc_timestamp cs"
  assume "c \<in> set (take k ?ys)"
  then obtain i where i: "i < k" "?ys ! i = c"
    by (metis in_set_conv_nth length_take min_less_iff_conj nth_take)
  let ?d = "?ys ! (length cs - 1)"
  have "distinct ?ys" "length ?ys = length cs" using assms(2) by simp_all
  then have "?d \<noteq> ?ys ! i" using i(1) assms(3) by (simp add: nth_eq_iff_index_eq)
  then have "?d \<noteq> c" using i(2) by metis
  moreover have "?d \<in> set cs" using assms(3) nth_mem [of "length cs - 1" ?ys] by simp
  ultimately have "pc_timestamp ?d < pc_timestamp c" using assms(1) by (simp add: newest_def)
  moreover have "pc_timestamp c \<le> pc_timestamp ?d"
    using i assms(3) sorted_nth_mono [OF sorted_sort_key [of pc_timestamp cs], of i "length cs - 1"] by simp
  ultimately show False by simp
qed

section \<open>Creating a checkpoint\<close>

definition dropped :: "PolicyCheckpoint list \<Rightarrow> PolicyCheckpoint list" where
  "dropped cs = take (length cs - MAX_CHECKPOINTS_PER_LEARNER) (sort_key pc_timestamp cs)"

lemma set_dropped: "set (dropped cs) \<subseteq> set cs"
  by (auto simp: dropped_def dest: in_set_takeD)

lemma cached_cleanup:
  assumes "learner_ok clk n l (cached s l)"
  shows "cached (cleanup_old_checkpoints l s) l' =
    (if l' = l then filter (\<lambda>(v, c). c \<notin> set (dropped (dict_values (cached s l)))) (cached s l) else cached s l')"
proof -
  let ?cs = "dict_values (cached s l)"
  have names: "list_all (\<lambda>c. pc_learner_name c = l) (dropped ?cs)"
    using learner_ok_values(3) [OF assms] set_dropped [of ?cs] by (auto simp: list_all_iff)
  have inj: "inj_on pc_version (set ?cs)" using learner_ok_values(2) [OF assms] by (simp add: distinct_map)
  have "v \<in> pc_version ` set (dropped ?cs) \<longleftrightarrow> c \<in> set (dropped ?cs)" if "(v, c) \<in> set (cached s l)" for v c
  proof -
    have "pc_version c = v" "c \<in> set ?cs"
      using that assms by (auto simp: learner_ok_def dict_values_def intro: rev_image_eqI)
    then show ?thesis using inj_on_image_mem_iff [OF inj _ set_dropped] by blast
  qed
  then have eq: "filter (\<lambda>(v, c). v \<notin> pc_version ` set (dropped ?cs)) (cached s l) =
      filter (\<lambda>(v, c). c \<notin> set (dropped ?cs)) (cached s l)"
    by (intro filter_cong) auto
  have "cleanup_old_checkpoints l s = fold delete_checkpoint (dropped ?cs) s"
    by (simp add: cleanup_old_checkpoints_def dropped_def Let_def)
  then show ?thesis using cached_delete_all [OF names] eq by auto
qed

lemma reads_cleanup [simp]: "cs_reads (cleanup_old_checkpoints l s) = cs_reads s"
  by (simp add: cleanup_old_checkpoints_def Let_def)

text \<open>The cache of the learner after a checkpoint \<open>c\<close> came in: all of it, or the newest ones.\<close>

definition trimmed_cache :: "(string, PolicyCheckpoint) dict \<Rightarrow> (string, PolicyCheckpoint) dict" where
  "trimmed_cache d = filter (\<lambda>(v, c). c \<notin> set (dropped (dict_values d))) d"

lemma create_checkpoint_cache:
  assumes ok: "store_ok clk s"
    and run: "create_checkpoint clk fails l ver st meta parent tags s = (r, s')"
  obtains c d where "pc_version c = ver" "pc_learner_name c = l" "pc_state c = st"
    "pc_metadata c = (case meta of None \<Rightarrow> [] | Some m \<Rightarrow> m)" "pc_timestamp c = clk (cs_reads s)"
    "d = dict_set ver c (cached s l)" "learner_ok clk (Suc (cs_reads s)) l d"
    "cached s' l = (case r of Inl _ \<Rightarrow> d | Inr _ \<Rightarrow> trimmed_cache d)"
    "\<forall>l'. l' \<noteq> l \<longrightarrow> cached s' l' = cached s l'" "cs_reads s' = Suc (cs_reads s)" "\<forall>x. r = Inr x \<longrightarrow> x = c"
proof -
  define c where "c = \<lparr>pc_checkpoint_id = ''ckpt_'' @ l @ ''_'' @ show_int (cs_next_id s), pc_learner_name = l,
               pc_version = ver, pc_state = st, pc_metadata = (case meta of None \<Rightarrow> [] | Some m \<Rightarrow> m),
               pc_timestamp = clk (cs_reads s), pc_parent_id = parent, pc_tags = (case tags of None \<Rightarrow> [] | Some ts \<Rightarrow> ts)\<rparr>"
  define s1 where "s1 = put_cache c (s\<lparr>cs_next_id := cs_next_id s + 1, cs_reads := Suc (cs_reads s)\<rparr>)"
  define d where "d = dict_set ver c (cached s l)"
  obtain q s2 where s2: "save_policy_checkpoint fails c s1 = (q, s2)" by (cases "save_policy_checkpoint fails c s1")
  have same: "cached (s\<lparr>cs_next_id := a, cs_reads := b\<rparr>) l' = cached s l'" for l' a b by (simp add: cached_def)
  have c2: "cached s2 l' = (if l' = l then d else cached s l')" for l'
    using cached_save [of fails c s1 l'] s2 by (simp add: s1_def cached_put same c_def d_def)
  have "learner_ok clk (cs_reads s) l (cached s l)" using ok by (simp add: store_ok_def)
  then have "learner_ok clk (Suc (cs_reads s)) l (cached s l)" by (rule learner_ok_mono) simp
  then have lok: "learner_ok clk (Suc (cs_reads s)) l d"
    unfolding d_def by (rule learner_ok_set [where i = "cs_reads s"]) (simp_all add: c_def)
  have reads: "cs_reads s2 = Suc (cs_reads s)" using reads_save [of fails c s1] s2 by (simp add: s1_def)
  have out: "create_checkpoint clk fails l ver st meta parent tags s =
      (case q of Inl e \<Rightarrow> (Inl e, s2) | Inr _ \<Rightarrow> (Inr c, cleanup_old_checkpoints l s2))"
    unfolding create_checkpoint_def Let_def c_def [symmetric] s1_def [symmetric] s2 by (simp split: sum.splits)
  have "learner_ok clk (Suc (cs_reads s)) l (cached s2 l)" using lok c2 by simp
  note clean = cached_cleanup [OF this]
  have cs': "cached s' l' = (if l' = l then case r of Inl _ \<Rightarrow> d | Inr _ \<Rightarrow> trimmed_cache d else cached s l')" for l'
    using run out c2 clean [of l'] by (cases q) (auto simp: trimmed_cache_def)
  have "cs_reads s' = Suc (cs_reads s)" "\<forall>x. r = Inr x \<longrightarrow> x = c" using run out reads by (cases q; auto)+
  moreover have "pc_version c = ver" "pc_learner_name c = l" "pc_state c = st"
    "pc_metadata c = (case meta of None \<Rightarrow> [] | Some m \<Rightarrow> m)" "pc_timestamp c = clk (cs_reads s)"
    by (simp_all add: c_def)
  ultimately show ?thesis using cs' by (intro that [OF _ _ _ _ _ d_def lok]) simp_all
qed

text \<open>The new checkpoint is the newest one of its learner, before and after the trimming.\<close>

lemma newest_set:
  assumes "strict_mono clk" "learner_ok clk n l d" "pc_timestamp c = clk n"
  shows "newest c (dict_values (dict_set v c d))"
proof -
  have "c \<in> set (dict_values (dict_set v c d))"
    using dict_get_set [of v c d v] by (force simp: dict_values_def dest!: map_of_SomeD)
  moreover have "pc_timestamp x < pc_timestamp c" if x: "x \<in> set (dict_values (dict_set v c d))" "x \<noteq> c" for x
  proof -
    obtain w where "(w, x) \<in> set d" using x dict_set_member [of _ v c d] by (fastforce simp: dict_values_def)
    then obtain i where "i < n" "pc_timestamp x = clk i" using assms(2) by (auto simp: learner_ok_def)
    then show ?thesis using assms(1,3) by (simp add: strict_mono_less)
  qed
  ultimately show ?thesis by (simp add: newest_def)
qed

lemma newest_trimmed:
  assumes "newest c (dict_values d)" "learner_ok clk n l d"
  shows "newest c (dict_values (trimmed_cache d))"
proof -
  let ?cs = "dict_values d"
  have "distinct ?cs" using learner_ok_values(2) [OF assms(2)] by (simp add: distinct_map)
  moreover have "?cs \<noteq> []" using assms(1) by (auto simp: newest_def)
  ultimately have "c \<notin> set (dropped ?cs)"
    unfolding dropped_def by (intro newest_not_dropped [OF assms(1)]) (auto simp: MAX_CHECKPOINTS_PER_LEARNER_def)
  moreover have "set (dict_values (trimmed_cache d)) \<subseteq> set ?cs" by (auto simp: trimmed_cache_def dict_values_def)
  ultimately show ?thesis using assms(1) by (fastforce simp: newest_def trimmed_cache_def dict_values_def)
qed

lemma create_checkpoint_latest:
  assumes ok: "store_ok clk s"
    and run: "create_checkpoint clk fails l ver st meta parent tags s = (r, s')"
  shows "store_ok clk s' \<and> (\<forall>l'. l' \<noteq> l \<longrightarrow> cached s' l' = cached s l') \<and>
    (\<exists>c. get_latest_checkpoint s' l = Some c \<and> pc_version c = ver \<and> pc_state c = st \<and>
       pc_metadata c = (case meta of None \<Rightarrow> [] | Some m \<Rightarrow> m))"
proof -
  obtain c d where c: "pc_version c = ver" "pc_learner_name c = l" "pc_state c = st"
    "pc_metadata c = (case meta of None \<Rightarrow> [] | Some m \<Rightarrow> m)" "pc_timestamp c = clk (cs_reads s)"
    and d: "d = dict_set ver c (cached s l)" "learner_ok clk (Suc (cs_reads s)) l d"
    and s': "cached s' l = (case r of Inl _ \<Rightarrow> d | Inr _ \<Rightarrow> trimmed_cache d)"
      "\<forall>l'. l' \<noteq> l \<longrightarrow> cached s' l' = cached s l'" "cs_reads s' = Suc (cs_reads s)"
    by (rule create_checkpoint_cache [OF ok run]) blast
  have mono: "strict_mono clk" and lok: "\<And>l. learner_ok clk (cs_reads s) l (cached s l)"
    using ok by (simp_all add: store_ok_def)
  have new: "newest c (dict_values d)" unfolding d(1) by (rule newest_set [OF mono lok c(5)])
  then have "newest c (dict_values (cached s' l))"
    using newest_trimmed [OF new d(2)] s'(1) by (cases r) simp_all
  then have "get_latest_checkpoint s' l = Some c" by (rule newest_latest)
  moreover have "learner_ok clk (Suc (cs_reads s)) l (cached s' l)"
    using d(2) s'(1) learner_ok_filter [OF d(2)] by (cases r) (simp_all add: trimmed_cache_def)
  then have "learner_ok clk (cs_reads s') l' (cached s' l')" for l'
    using s'(2,3) learner_ok_mono [OF lok, of "Suc (cs_reads s)" l'] by (cases "l' = l") simp_all
  then have "store_ok clk s'" using mono by (simp add: store_ok_def)
  ultimately show ?thesis using s'(2) c by blast
qed

text \<open>Trimming keeps the newest ones, as many as the limit allows.\<close>

lemma set_drop: "distinct xs \<Longrightarrow> set (drop k xs) = set xs - set (take k xs)"
  by (metis Diff_cancel Diff_disjoint Int_commute Un_Diff Un_Diff_Int append_take_drop_id distinct_append
      set_append sup_bot.left_neutral Diff_triv)

lemma trimmed_cache_keeps:
  assumes "learner_ok clk n l d"
  shows "length (trimmed_cache d) = min (length d) MAX_CHECKPOINTS_PER_LEARNER"
    "set (dict_values (trimmed_cache d)) =
       set (drop (length d - MAX_CHECKPOINTS_PER_LEARNER) (sort_key pc_timestamp (dict_values d)))"
proof -
  let ?vs = "dict_values d"
  let ?ys = "sort_key pc_timestamp ?vs"
  have dist: "distinct ?vs" using learner_ok_values(2) [OF assms] by (simp add: distinct_map)
  have len: "length ?vs = length d" by (simp add: dict_values_def)
  have vals: "dict_values (trimmed_cache d) = filter (\<lambda>c. c \<notin> set (dropped ?vs)) ?vs"
    by (simp add: dict_values_def trimmed_cache_def filter_map comp_def case_prod_unfold)
  show s: "set (dict_values (trimmed_cache d)) = set (drop (length d - MAX_CHECKPOINTS_PER_LEARNER) ?ys)"
    using dist len set_drop [of ?ys] by (auto simp: vals dropped_def)
  have "length (trimmed_cache d) = length (dict_values (trimmed_cache d))" by (simp add: dict_values_def)
  also have "\<dots> = card (set (dict_values (trimmed_cache d)))" unfolding vals using dist by (metis distinct_card distinct_filter)
  also have "\<dots> = length (drop (length d - MAX_CHECKPOINTS_PER_LEARNER) ?ys)"
    unfolding s using dist by (intro distinct_card) simp
  finally show "length (trimmed_cache d) = min (length d) MAX_CHECKPOINTS_PER_LEARNER" using len by simp
qed

section \<open>The adapter as a checkpointer\<close>

lemma adapter_step:
  assumes "store_ok clk s"
  shows "store_ok clk (snd (adapter_save clk fails learner cp s)) \<and>
    adapter_load learner (snd (adapter_save clk fails learner cp s)) t =
      (if t = thread_id cp then Some (Some cp) else adapter_load learner s t)"
proof -
  let ?l = "rl_name learner (thread_id cp)"
  let ?st = "[(''node_id'', VStr (node_id cp)), (''state'', VDict (cp_state cp)), (''timestamp'', VFloat (timestamp cp))]"
  obtain r s' where run: "create_checkpoint clk fails ?l (checkpoint_id cp) ?st (Some (metadata cp)) None None s = (r, s')"
    by (cases "create_checkpoint clk fails ?l (checkpoint_id cp) ?st (Some (metadata cp)) None None s")
  have s': "snd (adapter_save clk fails learner cp s) = s'" using run by (simp add: adapter_save_def split: sum.splits)
  obtain c where c: "store_ok clk s'" "\<forall>l'. l' \<noteq> ?l \<longrightarrow> cached s' l' = cached s l'"
    "get_latest_checkpoint s' ?l = Some c" "pc_version c = checkpoint_id cp" "pc_state c = ?st" "pc_metadata c = metadata cp"
    using create_checkpoint_latest [OF assms run] by auto
  have "to_workflow (thread_id cp) c = Some cp"
    using c by (simp add: to_workflow_def typed_or_def as_str_def as_dict_def as_float_def)
  moreover have "get_latest_checkpoint s' (rl_name learner t) = get_latest_checkpoint s (rl_name learner t)"
    if "t \<noteq> thread_id cp"
    using c(2) that by (simp add: get_latest_checkpoint_def rl_name_def)
  ultimately show ?thesis using c(1,3) s' by (simp add: adapter_load_def)
qed

interpretation rl: latest_checkpoint "\<lambda>cp s. snd (adapter_save clk fails learner cp s)" "adapter_load learner"
    "\<lambda>cp. Some (Some cp)" "store_ok clk" for clk fails learner
  by unfold_locales (use adapter_step in blast)+

section \<open>Differences by paths\<close>

text \<open>The values of a nested state with the paths that lead to them, and the states whose keys are
  not empty, have no dot and occur once at their level.\<close>

fun leaves :: "state \<Rightarrow> (string list \<times> pyval) list" where
  "leaves [] = []"
| "leaves ((k, VDict e) # d) = map (\<lambda>(p, v). (k # p, v)) (leaves e) @ leaves d"
| "leaves ((k, v) # d) = ([k], v) # leaves d"

fun plain_state :: "state \<Rightarrow> bool" where
  "plain_state [] = True"
| "plain_state ((k, VDict e) # d) =
     (k \<noteq> [] \<and> CHR ''.'' \<notin> set k \<and> \<not> dict_has d k \<and> plain_state e \<and> plain_state d)"
| "plain_state ((k, v) # d) = (k \<noteq> [] \<and> CHR ''.'' \<notin> set k \<and> \<not> dict_has d k \<and> plain_state d)"

abbreviation path_key :: "string list \<Rightarrow> string" where
  "path_key p \<equiv> py_join ''.'' p"

definition plain_path :: "string list \<Rightarrow> bool" where
  "plain_path p \<longleftrightarrow> p \<noteq> [] \<and> list_all (\<lambda>k. k \<noteq> [] \<and> CHR ''.'' \<notin> set k) p"

lemma leaves_plain: "plain_state d \<Longrightarrow> (p, v) \<in> set (leaves d) \<Longrightarrow> plain_path p"
  by (induction d arbitrary: p rule: leaves.induct) (auto simp: plain_path_def)

lemma leaves_nonempty: "(p, v) \<in> set (leaves d) \<Longrightarrow> p \<noteq> []"
  by (induction d arbitrary: p rule: leaves.induct) auto

lemma path_key_Cons: "p \<noteq> [] \<Longrightarrow> path_key (k # p) = k @ ''.'' @ path_key p"
  by (cases p) auto

lemma split_plain: "CHR ''.'' \<notin> set k \<Longrightarrow> split_dots k = [k]"
  by (induction k) auto

lemma split_dots_append: "CHR ''.'' \<notin> set k \<Longrightarrow> split_dots (k @ CHR ''.'' # s) = k # split_dots s"
  by (induction k) auto

lemma split_path_key: "plain_path p \<Longrightarrow> split_dots (path_key p) = p"
proof (induction p)
  case (Cons k p)
  then show ?case by (cases p) (auto simp: plain_path_def split_plain split_dots_append)
qed (simp add: plain_path_def)

lemma flatten_prefix:
  "prefix \<noteq> [] \<Longrightarrow> flatten_keys prefix d = map (\<lambda>(p, v). prefix @ ''.'' @ path_key p) (leaves d)"
proof (induction prefix d rule: flatten_keys.induct)
  case (2 prefix k e d)
  have "map (\<lambda>(p, v). dotted prefix k @ ''.'' @ path_key p) (leaves e) =
      map (\<lambda>(p, v). prefix @ ''.'' @ path_key (k # p)) (leaves e)"
    using 2(3) by (intro map_cong) (auto simp: dotted_def path_key_Cons dest: leaves_nonempty)
  with 2 show ?case by (simp add: dotted_def case_prod_unfold comp_def)
qed (simp_all add: dotted_def)

lemma flatten_plain: "plain_state d \<Longrightarrow> flatten_keys [] d = map (\<lambda>(p, v). path_key p) (leaves d)"
proof (induction d rule: plain_state.induct)
  case (2 k e d)
  have "map (\<lambda>(p, v). k @ ''.'' @ path_key p) (leaves e) = map (\<lambda>(p, v). path_key (k # p)) (leaves e)"
    by (intro map_cong) (auto simp: path_key_Cons dest: leaves_nonempty)
  with 2 show ?case by (simp add: dotted_def flatten_prefix case_prod_unfold comp_def)
qed (simp_all add: dotted_def)

lemma leaf_head: "(p, v) \<in> set (leaves d) \<Longrightarrow> dict_has d (hd p)"
  by (induction d arbitrary: p rule: leaves.induct) (force simp: dict_has_def)+

lemma walk_skip:
  assumes "\<not> dict_has d k" "(p, v) \<in> set (leaves d)"
  shows "walk_parts (VDict ((k, x) # d)) p = walk_parts (VDict d) p"
proof -
  obtain k' q where p: "p = k' # q" using leaves_nonempty [OF assms(2)] by (cases p) auto
  then have "k' \<noteq> k" using leaf_head [OF assms(2)] assms(1) by auto
  with p show ?thesis by simp
qed

lemma walk_leaf: "plain_state d \<Longrightarrow> (p, v) \<in> set (leaves d) \<Longrightarrow> walk_parts (VDict d) p = v"
proof (induction d arbitrary: p rule: plain_state.induct)
  case (2 k e d)
  from 2(4) consider q where "p = k # q" "(q, v) \<in> set (leaves e)" | "(p, v) \<in> set (leaves d)" by auto
  then show ?case
  proof cases
    case 1
    with 2 show ?thesis by simp
  qed (use 2 walk_skip in auto)
qed (auto simp: walk_skip)

lemma nested_leaf: "plain_state d \<Longrightarrow> (p, v) \<in> set (leaves d) \<Longrightarrow> get_nested_value d (path_key p) = v"
  by (simp add: get_nested_value_def split_path_key leaves_plain walk_leaf)

definition leaf_paths :: "state \<Rightarrow> string list set" where
  "leaf_paths d = fst ` set (leaves d)"

lemma leaf_keys: "plain_state d \<Longrightarrow> set (flatten_keys [] d) = path_key ` leaf_paths d"
  by (simp add: flatten_plain leaf_paths_def image_image case_prod_unfold)

lemma leaf_path_plain: "plain_state d \<Longrightarrow> p \<in> leaf_paths d \<Longrightarrow> plain_path p"
  by (auto simp: leaf_paths_def leaves_plain)

lemma path_key_inj: "inj_on path_key {p. plain_path p}"
  by (rule inj_on_inverseI [of _ split_dots]) (simp add: split_path_key)

section \<open>Operations in sequence\<close>

datatype store_call =
    Create string string state "state option" "string option" "string list option"
  | Tag string string string

fun store_step :: "(nat \<Rightarrow> string) \<Rightarrow> (PolicyCheckpoint \<Rightarrow> py_exc option) \<Rightarrow> store_call \<Rightarrow> CheckpointStore \<Rightarrow> CheckpointStore" where
  "store_step clk fails (Create l v st meta parent tags) s = snd (create_checkpoint clk fails l v st meta parent tags s)"
| "store_step clk fails (Tag l v tag) s = snd (tag_checkpoint fails l v tag s)"

lemma tag_checkpoint_ok:
  assumes "store_ok clk s"
  shows "store_ok clk (snd (tag_checkpoint fails l v tag s))"
proof (cases "get_checkpoint s l v")
  case None
  with assms show ?thesis by (simp add: tag_checkpoint_def)
next
  case (Some c)
  let ?c = "c\<lparr>pc_tags := pc_tags c @ [tag]\<rparr>"
  let ?s = "s\<lparr>cs_cache := dict_set l (dict_set v ?c (cached s l)) (cs_cache s)\<rparr>"
  have lok: "learner_ok clk (cs_reads s) l' (cached s l')" for l' using assms by (simp add: store_ok_def)
  have mem: "(v, c) \<in> set (cached s l)" using Some by (auto simp: get_checkpoint_def dest: map_of_SomeD)
  then obtain i where c: "pc_version c = v" "pc_learner_name c = l" "i < cs_reads s" "pc_timestamp c = clk i"
    using lok [of l] by (auto simp: learner_ok_def)
  have "learner_ok clk (cs_reads s) l (dict_set v ?c (cached s l))" 
    by (rule learner_ok_set [OF lok, where i = i]) (simp_all add: c)
  then have "store_ok clk ?s"
    using assms lok by (auto simp: store_ok_def cached_def dict_get_or_def dict_simps)
  moreover have "store_ok clk (snd (save_policy_checkpoint fails ?c ?s))"
    using calculation cached_save [of fails ?c ?s] reads_save [of fails ?c ?s] by (simp add: store_ok_def)
  ultimately show ?thesis
    using Some assms by (auto simp: tag_checkpoint_def Let_def split: prod.splits sum.splits)
qed

lemma store_step_ok: "store_ok clk s \<Longrightarrow> store_ok clk (store_step clk fails call s)"
  using create_checkpoint_latest tag_checkpoint_ok by (cases call) (auto simp: prod_eq_iff)

interpretation store_run: invariant_machine "store_step clk fails" "store_ok clk" for clk fails
  by unfold_locales (rule store_step_ok)

lemma empty_store_ok: "strict_mono clk \<Longrightarrow> store_ok clk (empty_store db rows)"
  by (simp add: store_ok_def empty_store_def cached_def dict_get_or_def learner_ok_def)

section \<open>What the store promises\<close>

text \<open>Through the adapter a resume finds the right checkpoint, as long as nobody changes the states and
  metadata after they are saved: the adapter keeps references to them. With a clock that moves on between
  readings, after any saves on a new store, of any threads, with repeated identifiers, with
  checkpoints dropped at the limit and with writes that fail, loading a thread returns the
  checkpoint saved last for it, and nothing for a thread without one.\<close>

theorem adapter_loads_latest:
  assumes "strict_mono clk"
  shows "adapter_load learner
      (fold (\<lambda>cp s. snd (adapter_save clk fails learner cp s)) cps (empty_store db rows)) t =
    Some (find (\<lambda>cp. thread_id cp = t) (rev cps))"
proof -
  have "adapter_load learner (empty_store db rows) t = Some None"
    by (simp add: adapter_load_def get_latest_checkpoint_def empty_store_def cached_def dict_get_or_def dict_values_def)
  moreover have "find (\<lambda>cp. thread_id cp = t) (rev cps) =
      (case rev (filter (\<lambda>cp. thread_id cp = t) cps) of [] \<Rightarrow> None | cp # _ \<Rightarrow> Some cp)"
    by (induction cps rule: rev_induct) auto
  ultimately show ?thesis
    using rl.load_saved_all [OF empty_store_ok [OF assms], of learner fails cps db rows t]
    by (simp split: list.splits)
qed

definition tick :: "nat \<Rightarrow> string" where
  "tick n = replicate n (CHR ''t'')"

lemma tick_mono: "strict_mono tick"
proof -
  have "replicate n c < replicate (Suc n) c" for n and c :: char by (induction n) simp_all
  then show ?thesis by (simp add: strict_mono_Suc_iff tick_def)
qed

definition sample_checkpoint :: "string \<Rightarrow> WorkflowCheckpoint" where
  "sample_checkpoint i = \<lparr>checkpoint_id = i, thread_id = ''t1'', node_id = ''a'', cp_state = [(''x'', VInt 1)],
     timestamp = 0, metadata = []\<rparr>"

theorem adapter_loads_latest_witness:
  "adapter_load ''graph'' (fold (\<lambda>cp s. snd (adapter_save tick (\<lambda>_. None) ''graph'' cp s))
     [sample_checkpoint ''c1'', sample_checkpoint ''c2''] (empty_store False [])) ''t1'' = Some (Some (sample_checkpoint ''c2''))"
  using adapter_loads_latest [OF tick_mono, of "''graph''" "\<lambda>_. None" "[sample_checkpoint ''c1'', sample_checkpoint ''c2'']" False "[]" "''t1''"]
  by (simp add: sample_checkpoint_def)

text \<open>The store keeps the newest checkpoints. Whatever checkpoints were created and tagged
  before, a checkpoint created without an error leaves its learner with at most the limit, and
  exactly with those of the cache and the new one that come last in the order of time; the
  caches of other learners are as they were.\<close>

theorem store_retention:
  assumes "strict_mono clk" "s = fold (store_step clk fails) calls (empty_store db rows)"
    and "create_checkpoint clk fails l ver st meta parent tags s = (Inr c, s')"
    and "d = dict_set ver c (cached s l)"
  shows "length (cached s' l) = min (length d) MAX_CHECKPOINTS_PER_LEARNER \<and>
    set (dict_values (cached s' l)) =
      set (drop (length d - MAX_CHECKPOINTS_PER_LEARNER) (sort_key pc_timestamp (dict_values d))) \<and>
    get_latest_checkpoint s' l = Some c \<and> (\<forall>l'. l' \<noteq> l \<longrightarrow> cached s' l' = cached s l')"
proof -
  have ok: "store_ok clk s" unfolding assms(2) by (rule store_run.run_inv [OF empty_store_ok [OF assms(1)]])
  obtain d' where d': "d' = dict_set ver c (cached s l)" "learner_ok clk (Suc (cs_reads s)) l d'"
    "cached s' l = trimmed_cache d'" "pc_timestamp c = clk (cs_reads s)" "\<forall>l'. l' \<noteq> l \<longrightarrow> cached s' l' = cached s l'"
    using create_checkpoint_cache [OF ok assms(3)] by (metis sum.simps(6))
  have lok: "learner_ok clk (cs_reads s) l (cached s l)" using ok by (simp add: store_ok_def)
  have "newest c (dict_values (cached s' l))"
    unfolding d'(3) by (rule newest_trimmed [OF _ d'(2)]) (simp add: d'(1) newest_set [OF assms(1) lok d'(4)])
  then have "get_latest_checkpoint s' l = Some c" by (rule newest_latest)
  then show ?thesis using trimmed_cache_keeps [OF d'(2)] d' assms(4) by simp
qed

theorem store_retention_witness:
  "\<exists>c s'. create_checkpoint tick (\<lambda>_. None) ''l'' ''v1'' [] None None None (empty_store False []) = (Inr c, s') \<and>
     length (cached s' ''l'') = 1 \<and> get_latest_checkpoint s' ''l'' = Some c"
proof -
  obtain c s' where run: "create_checkpoint tick (\<lambda>_. None) ''l'' ''v1'' [] None None None (empty_store False []) = (Inr c, s')"
    by (simp add: create_checkpoint_def save_policy_checkpoint_def Let_def)
  have "length (dict_set ''v1'' c (cached (empty_store False []) ''l'')) = 1"
    by (simp add: cached_def empty_store_def dict_get_or_def)
  then show ?thesis
    using run store_retention [OF tick_mono, of "empty_store False []" "\<lambda>_. None" "[]" False "[]", OF _ run refl]
    by (simp add: MAX_CHECKPOINTS_PER_LEARNER_def)
qed

text \<open>Differences are exact. For two states whose keys are not empty and have no dot, the reported
  keys are the dotted paths of the values: added and removed are the paths that only one of
  the states has, changed are those of both whose values are not equal.\<close>

theorem diff_exact:
  assumes "plain_state a" "plain_state b"
  shows "let d = diff_states from_version to_version a b in
    added_keys d = path_key ` (leaf_paths b - leaf_paths a) \<and>
    removed_keys d = path_key ` (leaf_paths a - leaf_paths b) \<and>
    changed_keys d = path_key ` {p. \<exists>v w. (p, v) \<in> set (leaves a) \<and> (p, w) \<in> set (leaves b) \<and> \<not> pyval_eq v w} \<and>
    unchanged_keys d = path_key ` {p. \<exists>v w. (p, v) \<in> set (leaves a) \<and> (p, w) \<in> set (leaves b) \<and> pyval_eq v w}"
proof -
  have sub: "leaf_paths a \<subseteq> {p. plain_path p}" "leaf_paths b \<subseteq> {p. plain_path p}"
    using leaf_path_plain assms by blast+
  note inj = inj_on_subset [OF path_key_inj]
  have diff: "path_key ` X - path_key ` Y = path_key ` (X - Y)" "path_key ` X \<inter> path_key ` Y = path_key ` (X \<inter> Y)"
    if "X \<subseteq> {p. plain_path p}" "Y \<subseteq> {p. plain_path p}" for X Y
    using inj_on_image_set_diff [OF path_key_inj, of X Y] inj_on_image_Int [OF path_key_inj, of X Y] that by auto
  have both: "Set.filter (\<lambda>key. Q (get_nested_value a key) (get_nested_value b key)) (path_key ` (leaf_paths a \<inter> leaf_paths b)) =
      path_key ` {p. \<exists>v w. (p, v) \<in> set (leaves a) \<and> (p, w) \<in> set (leaves b) \<and> Q v w}" for Q
    using nested_leaf [OF assms(1)] nested_leaf [OF assms(2)]
    by (auto simp: leaf_paths_def image_iff) (metis, force)
  show ?thesis
    unfolding diff_states_def Let_def leaf_keys [OF assms(1)] leaf_keys [OF assms(2)]
    using diff [OF sub] diff [OF sub(2,1)] both [of pyval_eq] both [of "\<lambda>v w. \<not> pyval_eq v w"] by simp
qed

theorem diff_exact_witness:
  "changed_keys (diff_states ''v1'' ''v2'' [(''a'', VInt 1), (''b'', VDict [(''c'', VInt 2)])]
     [(''a'', VInt 1), (''b'', VDict [(''c'', VInt 3)])]) = {''b.c''}"
proof -
  let ?a = "[(''a'', VInt 1), (''b'', VDict [(''c'', VInt 2)])]" and ?b = "[(''a'', VInt 1), (''b'', VDict [(''c'', VInt 3)])]"
  have "plain_state ?a" "plain_state ?b" by (simp_all add: dict_has_def)
  moreover have "{p. \<exists>v w. (p, v) \<in> set (leaves ?a) \<and> (p, w) \<in> set (leaves ?b) \<and> \<not> pyval_eq v w} = {[''b'', ''c'']}" by auto
  ultimately show ?thesis using diff_exact [of ?a ?b "''v1''" "''v2''"] by (simp add: Let_def)
qed

text \<open>A key with a dot is looked up as a path, so a change of its value is not seen.\<close>

theorem dotted_key_change_missed:
  "\<not> has_changes (diff_states v w [(''a.b'', VInt 1)] [(''a.b'', VInt 2)])"
  by (simp add: has_changes_def diff_states_def Let_def dotted_def get_nested_value_def)

text \<open>With two saves of a thread at the same time stamp, a load returns the older one.\<close>

theorem equal_time_loads_older:
  "adapter_load ''graph'' (fold (\<lambda>cp s. snd (adapter_save (\<lambda>_. ''now'') (\<lambda>_. None) ''graph'' cp s))
     [sample_checkpoint ''c1'', sample_checkpoint ''c2''] (empty_store False [])) ''t1'' = Some (Some (sample_checkpoint ''c1''))"
  by (simp add: adapter_load_def adapter_save_def create_checkpoint_def save_policy_checkpoint_def save_to_file_def
      put_cache_def cached_def cleanup_old_checkpoints_def MAX_CHECKPOINTS_PER_LEARNER_def empty_store_def
      get_latest_checkpoint_def max_by_def to_workflow_def typed_or_def as_str_def as_dict_def as_float_def
      dict_get_or_def dict_values_def rl_name_def sample_checkpoint_def Let_def)

text \<open>Versions that differ only in their slashes share a file, so dropping one deletes the other's.\<close>

theorem shared_file_deleted:
  assumes "\<not> cs_db s" "pc_learner_name c = pc_learner_name c'" "safe_version (pc_version c) = safe_version (pc_version c')"
  shows "dict_get (cs_files (delete_checkpoint c s)) (file_key c') = None"
  using assms by (simp add: delete_checkpoint_def file_key_def Let_def dict_simps split: option.splits)

end
