(* ===== verification/Circuit_Breaker.thy ===== *)
theory Circuit_Breaker
  imports Prelude
begin

text \<open>
  The circuit breaker of \<^verbatim>\<open>victor/providers/circuit_breaker.py\<close> with the shared types of
  \<^verbatim>\<open>victor/core/circuit_breaker.py\<close>, and its registry. A breaker is a record of its
  settings, its counters and its history. The clock is a function from the number of readings
  so far to the time read: a method that calls \<^verbatim>\<open>time.time()\<close> twice may see two times, and
  nothing is assumed of the clock unless a lemma says so. Observability callbacks are recorded
  as notifications; their exceptions are swallowed by the code. Floats are reals.

  A call through the breaker suspends while the protected function runs, and other tasks use
  the same breaker meanwhile. The function is therefore a parameter that takes the breaker and
  gives it back as it is when the call ends. The lock of \<^verbatim>\<open>_check_state\<close> is held over no
  suspension, so the check is one step.
\<close>

section \<open>Shared types\<close>

datatype CircuitState = CLOSED | OPEN | HALF_OPEN

primrec circuit_value :: "CircuitState \<Rightarrow> string" where
  "circuit_value CLOSED = ''closed''"
| "circuit_value OPEN = ''open''"
| "circuit_value HALF_OPEN = ''half_open''"

primrec circuit_name :: "CircuitState \<Rightarrow> string" where
  "circuit_name CLOSED = ''CLOSED''"
| "circuit_name OPEN = ''OPEN''"
| "circuit_name HALF_OPEN = ''HALF_OPEN''"

definition circuit_states :: "CircuitState list" where
  "circuit_states = [CLOSED, OPEN, HALF_OPEN]"

record CircuitBreakerConfig =
  cc_failure_threshold :: int
  cc_success_threshold :: int
  cc_timeout_seconds :: real
  cc_half_open_max_calls :: int

definition recovery_timeout :: "CircuitBreakerConfig \<Rightarrow> real" where
  "recovery_timeout c = cc_timeout_seconds c"

record CircuitBreakerError =
  cbe_message :: string
  cbe_state :: CircuitState
  cbe_retry_after :: real
  cbe_last_error :: "raised option"

section \<open>The breaker\<close>

text \<open>
  The state attribute is an enumeration member, or the string that an older caller assigned.
\<close>

datatype state_value = Member CircuitState | Text string

datatype callback = User_callback nat | Bus_callback

datatype notification =
    StateChange callback CircuitState CircuitState string
  | CallRejected callback string real

record breaker =
  cb_failure_threshold :: int
  cb_recovery_timeout :: real
  cb_half_open_max_calls :: int
  cb_success_threshold :: int
  cb_excluded :: "string list"
  cb_name :: string
  cb_on_state_change :: "callback option"
  cb_on_call_rejected :: "callback option"
  cb_state :: state_value
  cb_failure_count :: int
  cb_success_count :: int
  cb_last_failure_time :: "real option"
  cb_last_exception :: "raised option"
  cb_half_open_calls :: int
  cb_total_calls :: int
  cb_total_failures :: int
  cb_total_rejected :: int
  cb_state_changes :: "(real \<times> CircuitState \<times> CircuitState) list"
  cb_reads :: nat
  cb_notified :: "notification list"

text \<open>The arguments of the constructor, with a configuration that overrides four of them.\<close>

record breaker_args =
  ba_failure_threshold :: int
  ba_recovery_timeout :: real
  ba_half_open_max_calls :: int
  ba_success_threshold :: int
  ba_excluded :: "string list option"
  ba_config :: "CircuitBreakerConfig option"
  ba_on_state_change :: "callback option"
  ba_on_call_rejected :: "callback option"

definition default_args :: breaker_args where
  "default_args =
     \<lparr>ba_failure_threshold = 5, ba_recovery_timeout = 30, ba_half_open_max_calls = 3,
      ba_success_threshold = 2, ba_excluded = None, ba_config = None,
      ba_on_state_change = None, ba_on_call_rejected = None\<rparr>"

definition cb_init :: "string \<Rightarrow> breaker_args \<Rightarrow> breaker" where
  "cb_init name a =
     (let (ft, rt, hm, st) =
        (case ba_config a of
           Some c \<Rightarrow> (cc_failure_threshold c, recovery_timeout c, cc_half_open_max_calls c,
                       cc_success_threshold c)
         | None \<Rightarrow> (ba_failure_threshold a, ba_recovery_timeout a, ba_half_open_max_calls a,
                    ba_success_threshold a))
      in \<lparr>cb_failure_threshold = ft, cb_recovery_timeout = rt, cb_half_open_max_calls = hm,
          cb_success_threshold = st,
          cb_excluded = (case ba_excluded a of None \<Rightarrow> [] | Some cs \<Rightarrow> cs), cb_name = name,
          cb_on_state_change = ba_on_state_change a, cb_on_call_rejected = ba_on_call_rejected a,
          cb_state = Member CLOSED, cb_failure_count = 0, cb_success_count = 0,
          cb_last_failure_time = None, cb_last_exception = None, cb_half_open_calls = 0,
          cb_total_calls = 0, cb_total_failures = 0, cb_total_rejected = 0,
          cb_state_changes = [], cb_reads = 0, cb_notified = []\<rparr>)"

definition from_config :: "string \<Rightarrow> CircuitBreakerConfig \<Rightarrow> string list option \<Rightarrow> breaker" where
  "from_config name config excluded =
     cb_init name (default_args\<lparr>ba_config := Some config, ba_excluded := excluded\<rparr>)"

text \<open>\<^verbatim>\<open>_coerce_state\<close>: a string that names a state, up to case and surrounding blanks.\<close>

definition coerce_state :: "state_value \<Rightarrow> state_value" where
  "coerce_state v =
     (case v of
        Text s \<Rightarrow>
          (let normalized = py_lower (py_strip s)
           in case find (\<lambda>c. normalized = circuit_value c \<or> normalized = py_lower (circuit_name c)) circuit_states of
                Some c \<Rightarrow> Member c | None \<Rightarrow> v)
      | Member _ \<Rightarrow> v)"

text \<open>\<^verbatim>\<open>time.time()\<close>.\<close>

definition read_clock :: "(nat \<Rightarrow> real) \<Rightarrow> breaker \<Rightarrow> real \<times> breaker" where
  "read_clock clk b = (clk (cb_reads b), b\<lparr>cb_reads := Suc (cb_reads b)\<rparr>)"

definition should_attempt_recovery :: "(nat \<Rightarrow> real) \<Rightarrow> breaker \<Rightarrow> bool \<times> breaker" where
  "should_attempt_recovery clk b =
     (case cb_last_failure_time b of
        None \<Rightarrow> (True, b)
      | Some t \<Rightarrow>
          (let (now, b) = read_clock clk b
           in (now - t \<ge> cb_recovery_timeout b, b)))"

text \<open>A bounded deque drops its oldest entries.\<close>

definition deque_append :: "nat \<Rightarrow> 'a \<Rightarrow> 'a list \<Rightarrow> 'a list" where
  "deque_append maxlen x xs = drop (Suc (length xs) - maxlen) (xs @ [x])"

definition notify_state_change :: "CircuitState \<Rightarrow> CircuitState \<Rightarrow> breaker \<Rightarrow> breaker" where
  "notify_state_change old new b =
     (case cb_on_state_change b of
        None \<Rightarrow> b
      | Some cb \<Rightarrow> b\<lparr>cb_notified := cb_notified b @ [StateChange cb old new (cb_name b)]\<rparr>)"

definition reset_counters :: "CircuitState \<Rightarrow> breaker \<Rightarrow> breaker" where
  "reset_counters new b =
     (case new of
        CLOSED \<Rightarrow> b\<lparr>cb_failure_count := 0, cb_success_count := 0\<rparr>
      | HALF_OPEN \<Rightarrow> b\<lparr>cb_half_open_calls := 0, cb_success_count := 0\<rparr>
      | OPEN \<Rightarrow> b)"

definition transition_to :: "(nat \<Rightarrow> real) \<Rightarrow> CircuitState \<Rightarrow> breaker \<Rightarrow> breaker" where
  "transition_to clk new b =
     (case coerce_state (cb_state b) of
        Text _ \<Rightarrow> b
      | Member old \<Rightarrow>
          (let b = b\<lparr>cb_state := Member old\<rparr>
           in if old = new then b
              else let (now, b) = read_clock clk (b\<lparr>cb_state := Member new\<rparr>);
                       b = b\<lparr>cb_state_changes := deque_append 100 (now, old, new) (cb_state_changes b)\<rparr>
                   in reset_counters new (notify_state_change old new b)))"

text \<open>The property \<^verbatim>\<open>state\<close>, which moves an open breaker to half-open when its time is up.\<close>

definition cb_current :: "(nat \<Rightarrow> real) \<Rightarrow> breaker \<Rightarrow> state_value \<times> breaker" where
  "cb_current clk b =
     (let b = (case coerce_state (cb_state b) of Member c \<Rightarrow> b\<lparr>cb_state := Member c\<rparr> | Text _ \<Rightarrow> b);
          b = (if cb_state b = Member OPEN
               then let (recover, b) = should_attempt_recovery clk b
                    in if recover then transition_to clk HALF_OPEN b else b
               else b)
      in (cb_state b, b))"

definition is_closed :: "(nat \<Rightarrow> real) \<Rightarrow> breaker \<Rightarrow> bool \<times> breaker" where
  "is_closed clk b = (let (s, b) = cb_current clk b in (s = Member CLOSED, b))"

definition is_open :: "(nat \<Rightarrow> real) \<Rightarrow> breaker \<Rightarrow> bool \<times> breaker" where
  "is_open clk b = (let (s, b) = cb_current clk b in (s = Member OPEN, b))"

definition can_execute :: "(nat \<Rightarrow> real) \<Rightarrow> breaker \<Rightarrow> bool \<times> breaker" where
  "can_execute clk b =
     (let (s, b) = cb_current clk b
      in (if s = Member CLOSED then True
          else if s = Member OPEN then False
          else if s = Member HALF_OPEN then cb_half_open_calls b < cb_half_open_max_calls b
          else False, b))"

definition record_success :: "(nat \<Rightarrow> real) \<Rightarrow> breaker \<Rightarrow> breaker" where
  "record_success clk b =
     (let (s, b) = cb_current clk b
      in if s = Member HALF_OPEN
         then let b = b\<lparr>cb_success_count := cb_success_count b + 1\<rparr>
              in if cb_success_count b \<ge> cb_success_threshold b then transition_to clk CLOSED b else b
         else if s = Member CLOSED then b\<lparr>cb_failure_count := 0\<rparr>
         else b)"

definition record_failure :: "(nat \<Rightarrow> real) \<Rightarrow> raised option \<Rightarrow> breaker \<Rightarrow> breaker" where
  "record_failure clk exc b =
     (let (now, b) = read_clock clk (b\<lparr>cb_total_failures := cb_total_failures b + 1\<rparr>);
          b = b\<lparr>cb_last_failure_time := Some now, cb_last_exception := exc\<rparr>;
          (s, b) = cb_current clk b
      in if s = Member HALF_OPEN then transition_to clk OPEN b
         else if s = Member CLOSED
         then let b = b\<lparr>cb_failure_count := cb_failure_count b + 1\<rparr>
              in if cb_failure_count b \<ge> cb_failure_threshold b then transition_to clk OPEN b else b
         else b)"

text \<open>\<^verbatim>\<open>f"{x:.1f}"\<close>: one decimal, ties to even.\<close>

definition tenths :: "real \<Rightarrow> int" where
  "tenths x =
     (let n = \<lfloor>10 * x\<rfloor>; r = 10 * x - of_int n
      in if r < 1 / 2 \<or> r = 1 / 2 \<and> even n then n else n + 1)"

definition fixed1 :: "real \<Rightarrow> string" where
  "fixed1 x =
     (let n = nat (tenths \<bar>x\<bar>)
      in (if x < 0 then ''-'' else []) @ show_nat (n div 10) @ ''.'' @ show_nat (n mod 10))"

definition retry_delay :: "(nat \<Rightarrow> real) \<Rightarrow> breaker \<Rightarrow> real \<times> breaker" where
  "retry_delay clk b =
     (case cb_last_failure_time b of
        Some t \<Rightarrow>
          (if t = 0 then (cb_recovery_timeout b, b)
           else let (now, b) = read_clock clk b
                in (max 0 (cb_recovery_timeout b - (now - t)), b))
      | None \<Rightarrow> (cb_recovery_timeout b, b))"

definition check_state :: "(nat \<Rightarrow> real) \<Rightarrow> breaker \<Rightarrow> (CircuitBreakerError + unit) \<times> breaker" where
  "check_state clk b =
     (let (s, b) = cb_current clk b
      in if s = Member OPEN
         then let (retry_after, b) = retry_delay clk b;
                  b = b\<lparr>cb_total_rejected := cb_total_rejected b + 1\<rparr>;
                  b = (case cb_on_call_rejected b of
                         None \<Rightarrow> b
                       | Some cb \<Rightarrow>
                           b\<lparr>cb_notified := cb_notified b @ [CallRejected cb (cb_name b) retry_after]\<rparr>)
              in (Inl \<lparr>cbe_message = ''Circuit breaker '' @ quoted (cb_name b) @ '' is OPEN. '' @
                         ''Retry after '' @ fixed1 retry_after @ ''s'',
                       cbe_state = OPEN, cbe_retry_after = retry_after,
                       cbe_last_error = cb_last_exception b\<rparr>, b)
         else if s = Member HALF_OPEN
         then if cb_half_open_calls b \<ge> cb_half_open_max_calls b
              then (Inl \<lparr>cbe_message = ''Circuit breaker '' @ quoted (cb_name b) @
                           '' is HALF_OPEN with max calls reached'',
                         cbe_state = HALF_OPEN, cbe_retry_after = 1,
                         cbe_last_error = cb_last_exception b\<rparr>, b)
              else (Inr (), b\<lparr>cb_half_open_calls := cb_half_open_calls b + 1\<rparr>)
         else (Inr (), b))"

text \<open>What the caller sees: the result, the breaker's rejection, or the exception of the function.\<close>

datatype 'v reply = Value 'v | Rejected CircuitBreakerError | Failed raised

definition after_call :: "(nat \<Rightarrow> real) \<Rightarrow> 'v outcome \<Rightarrow> breaker \<Rightarrow> 'v reply \<times> breaker" where
  "after_call clk out b =
     (case out of
        Returned v \<Rightarrow> (Value v, record_success clk b)
      | Raised e \<Rightarrow>
          (if instance_of e (cb_excluded b) then (Failed e, b)
           else if instance_of e [''Exception''] then (Failed e, record_failure clk (Some e) b)
           else (Failed e, b)))"

definition execute ::
  "(nat \<Rightarrow> real) \<Rightarrow> (breaker \<Rightarrow> 'v outcome \<times> breaker) \<Rightarrow> breaker \<Rightarrow> 'v reply \<times> breaker" where
  "execute clk func b =
     (case check_state clk (b\<lparr>cb_total_calls := cb_total_calls b + 1\<rparr>) of
        (Inl e, b) \<Rightarrow> (Rejected e, b)
      | (Inr _, b) \<Rightarrow> (let (out, b) = func b in after_call clk out b))"

text \<open>The decorator.\<close>

definition cb_wrap ::
  "(nat \<Rightarrow> real) \<Rightarrow> ('a \<Rightarrow> breaker \<Rightarrow> 'v outcome \<times> breaker) \<Rightarrow> 'a \<Rightarrow> breaker \<Rightarrow> 'v reply \<times> breaker" where
  "cb_wrap clk func args = execute clk (func args)"

text \<open>The context manager: entering checks, leaving records.\<close>

definition cb_enter :: "(nat \<Rightarrow> real) \<Rightarrow> breaker \<Rightarrow> (CircuitBreakerError + unit) \<times> breaker" where
  "cb_enter clk b = check_state clk b"

definition cb_exit :: "(nat \<Rightarrow> real) \<Rightarrow> raised option \<Rightarrow> breaker \<Rightarrow> breaker" where
  "cb_exit clk exc b =
     (case exc of
        None \<Rightarrow> record_success clk b
      | Some e \<Rightarrow> if instance_of e (cb_excluded b) then b else record_failure clk (Some e) b)"

definition cb_reset :: "(nat \<Rightarrow> real) \<Rightarrow> breaker \<Rightarrow> breaker" where
  "cb_reset clk b =
     (transition_to clk CLOSED b)\<lparr>cb_failure_count := 0, cb_success_count := 0,
        cb_last_failure_time := None, cb_last_exception := None, cb_half_open_calls := 0\<rparr>"

record breaker_stats =
  bs_name :: string
  bs_state :: string
  bs_total_calls :: int
  bs_total_failures :: int
  bs_total_rejected :: int
  bs_failure_count :: int
  bs_success_count :: int
  bs_last_failure_time :: "real option"
  bs_state_changes :: nat

definition get_stats :: "(nat \<Rightarrow> real) \<Rightarrow> breaker \<Rightarrow> breaker_stats result \<times> breaker" where
  "get_stats clk b =
     (let (s, b) = cb_current clk b
      in (case s of
            Member c \<Rightarrow> Inr
              \<lparr>bs_name = cb_name b, bs_state = circuit_value c, bs_total_calls = cb_total_calls b,
               bs_total_failures = cb_total_failures b, bs_total_rejected = cb_total_rejected b,
               bs_failure_count = cb_failure_count b, bs_success_count = cb_success_count b,
               bs_last_failure_time = cb_last_failure_time b,
               bs_state_changes = length (cb_state_changes b)\<rparr>
          | Text _ \<Rightarrow> Inl (PyExc ''AttributeError''
              (quoted ''str'' @ '' object has no attribute '' @ quoted ''value'')), b))"

section \<open>The registry\<close>

record breaker_registry =
  reg_breakers :: "(string, breaker) dict"
  reg_bus :: "nat option"

text \<open>
  The wired callbacks report to the bus of the registry; what one sends is its metric name
  and its tags.
\<close>

definition wire_breaker :: "breaker_registry \<Rightarrow> breaker \<Rightarrow> breaker" where
  "wire_breaker reg b =
     (case reg_bus reg of
        None \<Rightarrow> b
      | Some bus \<Rightarrow> b\<lparr>cb_on_state_change := Some Bus_callback, cb_on_call_rejected := Some Bus_callback\<rparr>)"

fun metric_of :: "notification \<Rightarrow> string \<times> state" where
  "metric_of (StateChange cb old new name) =
     (''circuit_breaker.state_change'',
      [(''breaker'', VStr name), (''from'', VStr (circuit_value old)), (''to'', VStr (circuit_value new))])"
| "metric_of (CallRejected cb name retry_after) =
     (''circuit_breaker.rejected'', [(''breaker'', VStr name), (''retry_after'', VFloat retry_after)])"

definition get_or_create :: "string \<Rightarrow> breaker_args \<Rightarrow> breaker_registry \<Rightarrow> breaker \<times> breaker_registry" where
  "get_or_create name args reg =
     (case dict_get (reg_breakers reg) name of
        Some b \<Rightarrow> (b, reg)
      | None \<Rightarrow>
          (let b = wire_breaker reg (cb_init name args)
           in (b, reg\<lparr>reg_breakers := dict_set name b (reg_breakers reg)\<rparr>)))"

definition reg_get :: "breaker_registry \<Rightarrow> string \<Rightarrow> breaker option" where
  "reg_get reg name = dict_get (reg_breakers reg) name"

text \<open>Every breaker reads the clock on its own, so the clock depends on its name.\<close>

definition on_breakers :: "(string \<Rightarrow> breaker \<Rightarrow> breaker) \<Rightarrow> breaker_registry \<Rightarrow> breaker_registry" where
  "on_breakers f reg = reg\<lparr>reg_breakers := map (\<lambda>(name, b). (name, f name b)) (reg_breakers reg)\<rparr>"

definition reset_all :: "(string \<Rightarrow> nat \<Rightarrow> real) \<Rightarrow> breaker_registry \<Rightarrow> breaker_registry" where
  "reset_all clk reg = on_breakers (\<lambda>name. cb_reset (clk name)) reg"

definition wire_observability :: "nat \<Rightarrow> breaker_registry \<Rightarrow> breaker_registry" where
  "wire_observability bus reg =
     (let reg = reg\<lparr>reg_bus := Some bus\<rparr> in on_breakers (\<lambda>name. wire_breaker reg) reg)"

text \<open>A comprehension over the breakers: it stops at the first one whose state has no value.\<close>

fun all_stats ::
  "(string \<Rightarrow> nat \<Rightarrow> real) \<Rightarrow> (string, breaker) dict \<Rightarrow>
   (string, breaker_stats) dict result \<times> (string, breaker) dict" where
  "all_stats clk [] = (Inr [], [])"
| "all_stats clk ((name, b) # bs) =
     (case get_stats (clk name) b of
        (Inl e, b') \<Rightarrow> (Inl e, (name, b') # bs)
      | (Inr s, b') \<Rightarrow>
          (let (r, bs') = all_stats clk bs
           in (bind_result r (\<lambda>ss. Inr ((name, s) # ss)), (name, b') # bs')))"

definition get_all_stats ::
  "(string \<Rightarrow> nat \<Rightarrow> real) \<Rightarrow> breaker_registry \<Rightarrow>
   (string, breaker_stats) dict result \<times> breaker_registry" where
  "get_all_stats clk reg =
     (let (r, bs) = all_stats clk (reg_breakers reg) in (r, reg\<lparr>reg_breakers := bs\<rparr>))"

section \<open>Calls and the invariant\<close>

text \<open>
  The calls a task makes on a breaker. A protected call is two of them, so that a list of
  calls is an interleaving of the calls of concurrent tasks.
\<close>

datatype breaker_call =
    Get_state
  | Can_execute
  | Begin_execute
  | End_execute "unit outcome"
  | Enter
  | Exit "raised option"
  | Record_success
  | Record_failure "raised option"
  | Reset

fun breaker_step :: "(nat \<Rightarrow> real) \<Rightarrow> breaker_call \<Rightarrow> breaker \<Rightarrow> breaker" where
  "breaker_step clk Get_state b = snd (cb_current clk b)"
| "breaker_step clk Can_execute b = snd (can_execute clk b)"
| "breaker_step clk Begin_execute b = snd (check_state clk (b\<lparr>cb_total_calls := cb_total_calls b + 1\<rparr>))"
| "breaker_step clk (End_execute out) b = snd (after_call clk out b)"
| "breaker_step clk Enter b = snd (cb_enter clk b)"
| "breaker_step clk (Exit exc) b = cb_exit clk exc b"
| "breaker_step clk Record_success b = record_success clk b"
| "breaker_step clk (Record_failure exc) b = record_failure clk exc b"
| "breaker_step clk Reset b = cb_reset clk b"

text \<open>The settings under which the counters make sense.\<close>

definition cb_settings_ok :: "breaker \<Rightarrow> bool" where
  "cb_settings_ok b \<longleftrightarrow> 1 \<le> cb_failure_threshold b \<and> 1 \<le> cb_success_threshold b \<and>
     0 \<le> cb_half_open_max_calls b"

text \<open>The recorded transitions: legal ones, each starting where the previous one ended.\<close>

definition legal :: "CircuitState \<Rightarrow> CircuitState \<Rightarrow> bool" where
  "legal old new \<longleftrightarrow> (old, new) \<in> set [(CLOSED, OPEN), (OPEN, HALF_OPEN), (HALF_OPEN, CLOSED),
     (HALF_OPEN, OPEN), (OPEN, CLOSED)]"

definition history_ok :: "(real \<times> CircuitState \<times> CircuitState) list \<Rightarrow> CircuitState \<Rightarrow> bool" where
  "history_ok h c \<longleftrightarrow> length h \<le> 100 \<and> list_all (\<lambda>(t, old, new). legal old new) h \<and>
     successively (\<lambda>x y. snd (snd x) = fst (snd y)) h \<and> (h \<noteq> [] \<longrightarrow> snd (snd (last h)) = c)"

definition counts_ok :: "breaker \<Rightarrow> CircuitState \<Rightarrow> bool" where
  "counts_ok b c \<longleftrightarrow> 0 \<le> cb_failure_count b \<and> 0 \<le> cb_success_count b \<and> 0 \<le> cb_half_open_calls b \<and>
     (c = CLOSED \<longrightarrow> cb_failure_count b < cb_failure_threshold b) \<and>
     (c = HALF_OPEN \<longrightarrow> cb_half_open_calls b \<le> cb_half_open_max_calls b \<and>
        cb_success_count b < cb_success_threshold b)"

definition cb_ok :: "breaker \<Rightarrow> bool" where
  "cb_ok b \<longleftrightarrow> cb_settings_ok b \<and>
     (case cb_state b of
        Member c \<Rightarrow> counts_ok b c \<and> history_ok (cb_state_changes b) c
      | Text _ \<Rightarrow> False)"

lemmas cb_ok_defs = cb_ok_def cb_settings_ok_def counts_ok_def

lemma coerce_Member [simp]: "coerce_state (Member c) = Member c"
  by (simp add: coerce_state_def)

lemma history_ok_append:
  assumes "history_ok h old" and "legal old new"
  shows "history_ok (deque_append 100 (t, old, new) h) new"
proof -
  let ?h = "h @ [(t, old, new)]" and ?d = "Suc (length h) - 100"
  have "list_all (\<lambda>(t, old, new). legal old new) ?h \<and> successively (\<lambda>x y. snd (snd x) = fst (snd y)) ?h"
    using assms by (auto simp: history_ok_def successively_append_iff)
  then have "list_all (\<lambda>(t, old, new). legal old new) (take ?d ?h @ drop ?d ?h) \<and>
      successively (\<lambda>x y. snd (snd x) = fst (snd y)) (take ?d ?h @ drop ?d ?h)"
    by (simp only: append_take_drop_id)
  then have "list_all (\<lambda>(t, old, new). legal old new) (drop ?d ?h)"
    "successively (\<lambda>x y. snd (snd x) = fst (snd y)) (drop ?d ?h)"
    unfolding list_all_append successively_append_iff by blast+
  moreover have "?d < length ?h" by simp
  ultimately show ?thesis by (simp add: history_ok_def deque_append_def del: drop_append)
qed

lemma legal_simps [simp]:
  "legal CLOSED OPEN" "legal OPEN HALF_OPEN" "legal HALF_OPEN CLOSED" "legal HALF_OPEN OPEN" "legal OPEN CLOSED"
  "\<not> legal CLOSED HALF_OPEN" "\<not> legal c c"
  by (cases c, simp_all add: legal_def)

lemma transition_to_Member:
  assumes "cb_state b = Member old"
  shows "transition_to clk new b =
    (if old = new then b
     else reset_counters new (notify_state_change old new
       (b\<lparr>cb_state := Member new, cb_reads := Suc (cb_reads b),
          cb_state_changes := deque_append 100 (clk (cb_reads b), old, new) (cb_state_changes b)\<rparr>)))"
  using assms by (simp add: transition_to_def read_clock_def Let_def)

lemma cb_ok_iff:
  "cb_ok b \<longleftrightarrow> (\<exists>c. cb_settings_ok b \<and> cb_state b = Member c \<and> counts_ok b c \<and> history_ok (cb_state_changes b) c)"
  by (auto simp: cb_ok_def split: state_value.splits)

lemma cb_ok_transition:
  assumes "cb_settings_ok b" "cb_state b = Member old" "history_ok (cb_state_changes b) old" "legal old new"
    and "counts_ok (reset_counters new b) new"
  shows "cb_ok (transition_to clk new b)"
proof -
  have "old \<noteq> new" using assms(4) by auto
  then show ?thesis
    using assms by (cases new)
      (auto simp: transition_to_Member cb_ok_defs reset_counters_def notify_state_change_def history_ok_append
        split: option.splits)
qed

text \<open>What reading the state does to a breaker whose state is a member.\<close>

definition due :: "(nat \<Rightarrow> real) \<Rightarrow> breaker \<Rightarrow> bool" where
  "due clk b \<longleftrightarrow> (case cb_last_failure_time b of
     None \<Rightarrow> True | Some t \<Rightarrow> clk (cb_reads b) - t \<ge> cb_recovery_timeout b)"

definition looked :: "breaker \<Rightarrow> breaker" where
  "looked b = b\<lparr>cb_reads := cb_reads b + (if cb_last_failure_time b = None then 0 else 1)\<rparr>"

lemma cb_state_same [simp]: "cb_state b = s \<Longrightarrow> b\<lparr>cb_state := s\<rparr> = b"
  by (cases b) simp

lemma cb_current_Member:
  assumes "cb_state b = Member c"
  shows "cb_current clk b =
    (if c \<noteq> OPEN then (Member c, b)
     else if due clk b then (Member HALF_OPEN, transition_to clk HALF_OPEN (looked b))
     else (Member OPEN, looked b))"
proof -
  have "cb_state (transition_to clk HALF_OPEN (looked b)) = Member HALF_OPEN" if "c = OPEN"
    using that assms
    by (simp add: transition_to_Member [of _ OPEN] looked_def reset_counters_def notify_state_change_def split: option.splits)
  moreover have "should_attempt_recovery clk b = (due clk b, looked b)"
    by (simp add: should_attempt_recovery_def due_def looked_def read_clock_def split: option.splits)
  ultimately show ?thesis using assms
    by (auto simp: cb_current_def Let_def looked_def)
qed

lemma cb_current_ok: 
  assumes "cb_ok b"
  obtains c where "fst (cb_current clk b) = Member c" "cb_state (snd (cb_current clk b)) = Member c"
    "cb_ok (snd (cb_current clk b))" "cb_settings_ok (snd (cb_current clk b))"
    "counts_ok (snd (cb_current clk b)) c" "history_ok (cb_state_changes (snd (cb_current clk b))) c"
proof -
  obtain c where c: "cb_settings_ok b" "cb_state b = Member c" "counts_ok b c" "history_ok (cb_state_changes b) c"
    using assms by (auto simp: cb_ok_iff)
  have "cb_ok (transition_to clk HALF_OPEN (looked b))" if "c = OPEN"
    using c that by (intro cb_ok_transition [of _ OPEN])
      (auto simp: looked_def reset_counters_def cb_settings_ok_def counts_ok_def)
  moreover have "cb_ok (looked b)" using c by (auto simp: cb_ok_iff looked_def cb_settings_ok_def counts_ok_def)
  ultimately have "cb_ok (snd (cb_current clk b))"
    using assms by (simp add: cb_current_Member [OF c(2)])
  moreover have "fst (cb_current clk b) = cb_state (snd (cb_current clk b))"
    by (simp add: cb_current_def Let_def)
  ultimately show ?thesis using that by (auto simp: cb_ok_iff)
qed

lemmas cb_counts = cb_settings_ok_def counts_ok_def reset_counters_def

lemma cb_okI:
  "cb_settings_ok b \<Longrightarrow> cb_state b = Member c \<Longrightarrow> counts_ok b c \<Longrightarrow> history_ok (cb_state_changes b) c \<Longrightarrow> cb_ok b"
  by (auto simp: cb_ok_iff)

lemma record_success_ok:
  assumes "cb_ok b" shows "cb_ok (record_success clk b)"
proof -
  obtain s b' where b': "cb_current clk b = (s, b')" by (cases "cb_current clk b")
  with cb_current_ok [OF assms, of clk] obtain c where c: "s = Member c" "cb_state b' = Member c" "cb_ok b'"
    "cb_settings_ok b'" "counts_ok b' c" "history_ok (cb_state_changes b') c" by auto
  let ?b = "b'\<lparr>cb_success_count := cb_success_count b' + 1\<rparr>"
  show ?thesis
  proof (cases c)
    case CLOSED
    have "cb_ok (b'\<lparr>cb_failure_count := 0\<rparr>)"
      using c CLOSED by (intro cb_okI [of _ CLOSED]) (auto simp: cb_counts)
    with b' c CLOSED show ?thesis by (simp add: record_success_def)
  next
    case OPEN
    with b' c show ?thesis by (simp add: record_success_def)
  next
    case HALF_OPEN
    have "cb_ok (transition_to clk CLOSED ?b)"
      using c HALF_OPEN by (intro cb_ok_transition [of _ HALF_OPEN]) (auto simp: cb_counts)
    moreover have "cb_ok ?b" if "cb_success_count b' + 1 < cb_success_threshold b'"
      using c HALF_OPEN that by (intro cb_okI [of _ HALF_OPEN]) (auto simp: cb_counts)
    ultimately show ?thesis using b' c HALF_OPEN by (simp add: record_success_def Let_def)
  qed
qed

lemma record_failure_ok:
  assumes "cb_ok b" shows "cb_ok (record_failure clk exc b)"
proof -
  let ?b0 = "b\<lparr>cb_total_failures := cb_total_failures b + 1, cb_reads := Suc (cb_reads b),
      cb_last_failure_time := Some (clk (cb_reads b)), cb_last_exception := exc\<rparr>"
  have "cb_ok ?b0" using assms by (auto simp: cb_ok_iff cb_counts)
  moreover obtain s b' where b': "cb_current clk ?b0 = (s, b')" by (cases "cb_current clk ?b0")
  ultimately obtain c where c: "s = Member c" "cb_state b' = Member c" "cb_ok b'"
    "cb_settings_ok b'" "counts_ok b' c" "history_ok (cb_state_changes b') c"
    using cb_current_ok [of ?b0 clk] by auto
  let ?b = "b'\<lparr>cb_failure_count := cb_failure_count b' + 1\<rparr>"
  show ?thesis
  proof (cases c)
    case CLOSED
    have "cb_ok (transition_to clk OPEN ?b)"
      using c CLOSED by (intro cb_ok_transition [of _ CLOSED]) (auto simp: cb_counts)
    moreover have "cb_ok ?b" if "cb_failure_count b' + 1 < cb_failure_threshold b'"
      using c CLOSED that by (intro cb_okI [of _ CLOSED]) (auto simp: cb_counts)
    ultimately show ?thesis using b' c CLOSED by (simp add: record_failure_def read_clock_def Let_def)
  next
    case OPEN
    with b' c show ?thesis by (simp add: record_failure_def read_clock_def)
  next
    case HALF_OPEN
    have "cb_ok (transition_to clk OPEN b')"
      using c HALF_OPEN by (intro cb_ok_transition [of _ HALF_OPEN]) (auto simp: cb_counts)
    then show ?thesis using b' c HALF_OPEN by (simp add: record_failure_def read_clock_def)
  qed
qed

lemma check_state_ok:
  assumes "cb_ok b" shows "cb_ok (snd (check_state clk b))"
proof -
  obtain s b' where b': "cb_current clk b = (s, b')" by (cases "cb_current clk b")
  with cb_current_ok [OF assms, of clk] obtain c where c: "s = Member c" "cb_state b' = Member c" "cb_ok b'"
    "cb_settings_ok b'" "counts_ok b' c" "history_ok (cb_state_changes b') c" by auto
  show ?thesis
  proof (cases c)
    case OPEN
    with b' c show ?thesis
      by (intro cb_okI [of _ OPEN])
        (auto simp: check_state_def retry_delay_def read_clock_def Let_def cb_counts split: option.splits)
  next
    case HALF_OPEN
    with b' c show ?thesis
      by (intro cb_okI [of _ HALF_OPEN]) (auto simp: check_state_def cb_counts)
  qed (use b' c in \<open>simp add: check_state_def\<close>)
qed

lemma cb_reset_ok:
  assumes "cb_ok b" shows "cb_ok (cb_reset clk b)"
proof -
  obtain c where c: "cb_settings_ok b" "cb_state b = Member c" "counts_ok b c" "history_ok (cb_state_changes b) c"
    using assms by (auto simp: cb_ok_iff)
  have "cb_ok (transition_to clk CLOSED b) \<and> cb_state (transition_to clk CLOSED b) = Member CLOSED"
  proof (cases "c = CLOSED")
    case True
    with c assms show ?thesis by (simp add: transition_to_Member)
  next
    case False
    then have "legal c CLOSED" by (cases c) auto
    with c have "cb_ok (transition_to clk CLOSED b)"
      by (intro cb_ok_transition [of _ c]) (auto simp: cb_counts)
    with c False show ?thesis
      by (simp add: transition_to_Member reset_counters_def notify_state_change_def split: option.splits)
  qed
  then show ?thesis by (auto simp: cb_reset_def cb_ok_iff cb_counts)
qed

lemma breaker_step_ok: "cb_ok b \<Longrightarrow> cb_ok (breaker_step clk call b)"
proof (cases call)
  case Begin_execute
  assume "cb_ok b"
  then have "cb_ok (b\<lparr>cb_total_calls := cb_total_calls b + 1\<rparr>)" by (auto simp: cb_ok_iff cb_counts)
  with Begin_execute show ?thesis by (simp add: check_state_ok)
qed (auto simp: can_execute_def after_call_def cb_enter_def cb_exit_def split_beta check_state_ok cb_reset_ok
    record_success_ok record_failure_ok elim: cb_current_ok split: outcome.splits option.splits)

interpretation breaker_run: invariant_machine "breaker_step clk" cb_ok for clk
  by unfold_locales (rule breaker_step_ok)

lemma cb_init_ok:
  "cb_settings_ok (cb_init name a) \<Longrightarrow> cb_ok (cb_init name a)"
  by (auto simp: cb_ok_iff cb_counts history_ok_def cb_init_def split_beta)

section \<open>What the breaker promises\<close>

text \<open>Calls whose function leaves the breaker alone, repeated one after the other.\<close>

primrec calls :: "(nat \<Rightarrow> real) \<Rightarrow> unit outcome \<Rightarrow> nat \<Rightarrow> breaker \<Rightarrow> breaker" where
  "calls clk out 0 b = b"
| "calls clk out (Suc n) b = calls clk out n (snd (execute clk (\<lambda>b. (out, b)) b))"

lemma fail_closed:
  fixes clk :: "nat \<Rightarrow> real" and e :: raised
  assumes "cb_state b = Member CLOSED" "\<not> instance_of e (cb_excluded b)" "instance_of e [''Exception'']"
  shows "let b' = snd (execute clk (\<lambda>b. (Raised e :: unit outcome, b)) b) in
    cb_state b' = Member (if cb_failure_count b + 1 < cb_failure_threshold b then CLOSED else OPEN) \<and>
    cb_failure_count b' = cb_failure_count b + 1 \<and> cb_failure_threshold b' = cb_failure_threshold b \<and>
    cb_excluded b' = cb_excluded b"
  using assms
  by (simp add: execute_def check_state_def cb_current_Member [of _ CLOSED] after_call_def record_failure_def
      read_clock_def Let_def transition_to_Member [of _ CLOSED] reset_counters_def notify_state_change_def
      split: option.splits)

lemma succeed_half_open:
  assumes "cb_state b = Member HALF_OPEN" "cb_half_open_calls b < cb_half_open_max_calls b"
  shows "let b' = snd (execute clk (\<lambda>b. (Returned v, b)) b) in
    cb_state b' = Member (if cb_success_count b + 1 < cb_success_threshold b then HALF_OPEN else CLOSED) \<and>
    (cb_success_count b + 1 < cb_success_threshold b \<longrightarrow> cb_success_count b' = cb_success_count b + 1) \<and>
    (cb_success_count b + 1 \<ge> cb_success_threshold b \<longrightarrow> cb_failure_count b' = 0) \<and>
    cb_half_open_calls b' = cb_half_open_calls b + 1 \<and>
    cb_success_threshold b' = cb_success_threshold b \<and> cb_half_open_max_calls b' = cb_half_open_max_calls b"
  using assms
  by (simp add: execute_def check_state_def cb_current_Member [of _ HALF_OPEN] after_call_def record_success_def
      read_clock_def Let_def transition_to_Member [of _ HALF_OPEN] reset_counters_def notify_state_change_def
      split: option.splits)

lemma calls_half_open:
  assumes "cb_state b = Member HALF_OPEN" "cb_success_count b + int n \<le> cb_success_threshold b" "0 < n"
    "cb_half_open_calls b + int n \<le> cb_half_open_max_calls b"
  shows "cb_state (calls clk (Returned v) n b) =
      Member (if cb_success_count b + int n < cb_success_threshold b then HALF_OPEN else CLOSED) \<and>
    (cb_success_count b + int n = cb_success_threshold b \<longrightarrow> cb_failure_count (calls clk (Returned v) n b) = 0)"
  using assms
proof (induction n arbitrary: b)
  case (Suc n)
  let ?b = "snd (execute clk (\<lambda>b. (Returned v, b)) b)"
  note s = succeed_half_open [OF Suc.prems(1), of clk v, unfolded Let_def]
  show ?case
  proof (cases "n = 0")
    case True
    with s Suc.prems show ?thesis by auto
  next
    case False
    with s Suc.prems have "cb_state ?b = Member HALF_OPEN" "cb_success_count ?b = cb_success_count b + 1" by auto
    with Suc.IH [of ?b] s Suc.prems False show ?thesis by (simp add: add.assoc)
  qed
qed simp

text \<open>A call on an open breaker whose time is up is a call on the half-open breaker.\<close>

lemma execute_due:
  assumes "cb_state b = Member OPEN" "due clk b"
  shows "execute clk func b = execute clk func (transition_to clk HALF_OPEN (looked b))"
proof -
  let ?up = "\<lambda>b. b\<lparr>cb_total_calls := cb_total_calls b + 1\<rparr>" and ?h = "transition_to clk HALF_OPEN (looked b)"
  have h: "?h = transition_to clk HALF_OPEN (looked b)" "cb_state (?up ?h) = Member HALF_OPEN"
    "transition_to clk HALF_OPEN (looked (?up b)) = ?up ?h"
    using assms(1) by (simp_all add: transition_to_Member [of _ OPEN] looked_def reset_counters_def
        notify_state_change_def split: option.splits)
  have "due clk (?up b)" using assms(2) by (simp add: due_def split: option.splits)
  then have "cb_current clk (?up b) = cb_current clk (?up ?h)"
    using assms(1) h by (simp add: cb_current_Member [of _ OPEN] cb_current_Member [of _ HALF_OPEN])
  then show ?thesis by (simp add: execute_def check_state_def)
qed

text \<open>C30. Every reachable breaker is in order, whatever tasks interleave their calls and whatever
  the clock does: its state is a member, a closed one has fewer failures than the threshold, a
  half-open one has let through at most the allowed calls and lacks successes, and its history
  (of at most 100 entries) chains legal transitions up to the current state: never from
  closed to half-open.\<close>

theorem breaker_invariant:
  assumes "cb_settings_ok (cb_init name a)"
  shows "cb_ok (fold (breaker_step clk) cs (cb_init name a))"
  by (rule breaker_run.run_inv, rule cb_init_ok, rule assms)

definition slow_clock :: "nat \<Rightarrow> real" where
  "slow_clock n = 20 * of_nat n"

definition provider_error :: raised where
  "provider_error = \<lparr>classes = [''ProviderError'', ''Exception'', ''BaseException''], raised_text = ''down''\<rparr>"

theorem breaker_invariant_witness:
  "cb_settings_ok (cb_init ''llm'' default_args) \<and>
   cb_ok (fold (breaker_step slow_clock)
     [Begin_execute, Record_failure None, Enter, End_execute (Returned ()), Exit None, Reset]
     (cb_init ''llm'' default_args))"
  by (intro conjI breaker_invariant; simp add: cb_settings_ok_def cb_init_def default_args_def)

text \<open>A closed breaker opens with exactly the failure that reaches the threshold: after any
  smaller number of failing calls in a row it is still closed.\<close>

theorem trips_at_threshold:
  assumes "cb_state b = Member CLOSED" "\<not> instance_of e (cb_excluded b)" "instance_of e [''Exception'']"
    and "cb_failure_count b < cb_failure_threshold b" "cb_failure_count b + int n \<le> cb_failure_threshold b"
  shows "cb_state (calls clk (Raised e) n b) =
    Member (if cb_failure_count b + int n < cb_failure_threshold b then CLOSED else OPEN)"
  using assms
proof (induction n arbitrary: b)
  case (Suc n)
  let ?b = "snd (execute clk (\<lambda>b. (Raised e :: unit outcome, b)) b)"
  note f = fail_closed [OF Suc.prems(1-3), of clk, unfolded Let_def]
  show ?case
  proof (cases "cb_failure_count b + 1 < cb_failure_threshold b")
    case True
    with Suc.IH [of ?b] f Suc.prems show ?thesis by (simp add: add.assoc)
  next
    case False
    with Suc.prems have "n = 0" by linarith
    with f False show ?thesis by simp
  qed
qed simp

theorem trips_at_threshold_witness:
  "cb_state (calls slow_clock (Raised provider_error) 4 (cb_init ''llm'' default_args)) = Member CLOSED \<and>
   cb_state (calls slow_clock (Raised provider_error) 5 (cb_init ''llm'' default_args)) = Member OPEN"
  using trips_at_threshold [of "cb_init ''llm'' default_args" provider_error 4 slow_clock]
    trips_at_threshold [of "cb_init ''llm'' default_args" provider_error 5 slow_clock]
  by (simp add: cb_init_def default_args_def instance_of_def provider_error_def)

text \<open>An open breaker fails fast: before the recovery timeout has passed since the last
  failure no call reaches its function, whatever the function is; the caller gets the
  remaining time, the rejection is counted, and the breaker stays open.\<close>

theorem open_fails_fast:
  assumes "cb_state b = Member OPEN" "cb_last_failure_time b = Some t" "t \<noteq> 0"
    and "clk (cb_reads b) - t < cb_recovery_timeout b"
  shows "\<exists>err b'. (\<forall>func. execute clk func b = (Rejected err, b')) \<and>
    cbe_state err = OPEN \<and> cbe_last_error err = cb_last_exception b \<and>
    cbe_retry_after err = max 0 (cb_recovery_timeout b - (clk (Suc (cb_reads b)) - t)) \<and>
    cb_state b' = Member OPEN \<and> cb_total_rejected b' = cb_total_rejected b + 1 \<and>
    cb_failure_count b' = cb_failure_count b"
proof -
  let ?b = "b\<lparr>cb_total_calls := cb_total_calls b + 1\<rparr>"
  have "\<not> due clk ?b" using assms by (simp add: due_def)
  then show ?thesis using assms
    by (auto simp: execute_def check_state_def cb_current_Member [of _ OPEN] looked_def retry_delay_def
        read_clock_def Let_def split: option.splits)
qed

theorem open_fails_fast_witness:
  "let b = calls (\<lambda>n. 10 + of_nat n) (Raised provider_error) 5 (cb_init ''llm'' default_args) in
   cb_state b = Member OPEN \<and> (\<exists>err b'. (\<forall>func. execute (\<lambda>n. 10 + of_nat n) func b = (Rejected err, b')) \<and>
     cbe_state err = OPEN \<and> cb_total_rejected b' = 1)"
proof -
  let ?clk = "\<lambda>n. 10 + real n"
  let ?b = "calls ?clk (Raised provider_error) 5 (cb_init ''llm'' default_args)"
  have "cb_state ?b = Member OPEN \<and> cb_last_failure_time ?b = Some 14 \<and> cb_reads ?b = 6 \<and>
      cb_recovery_timeout ?b = 30 \<and> cb_total_rejected ?b = 0"
    by (simp add: numeral_eq_Suc execute_def check_state_def cb_current_def after_call_def record_failure_def
        transition_to_def read_clock_def should_attempt_recovery_def notify_state_change_def reset_counters_def
        Let_def cb_init_def default_args_def instance_of_def provider_error_def)
  then show ?thesis using open_fails_fast [of ?b 14 ?clk] unfolding Let_def by fastforce
qed

text \<open>C36. Recovery: once the timeout has passed, an open breaker lets calls through again, and
  as many successful ones as the success threshold close it with a clean failure count, when
  that many are allowed while half-open; until then it is half-open.\<close>

theorem recovers_after_timeout:
  assumes "cb_state b = Member OPEN" "due clk b" "0 < n" "int n \<le> cb_success_threshold b"
    "int n \<le> cb_half_open_max_calls b"
  shows "cb_state (calls clk (Returned v) n b) =
      Member (if int n < cb_success_threshold b then HALF_OPEN else CLOSED) \<and>
    (int n = cb_success_threshold b \<longrightarrow> cb_failure_count (calls clk (Returned v) n b) = 0)"
proof -
  let ?h = "transition_to clk HALF_OPEN (looked b)"
  obtain m where m: "n = Suc m" using assms(3) by (cases n) auto
  have "calls clk (Returned v) n b = calls clk (Returned v) n ?h"
    by (simp add: m execute_due [OF assms(1,2)])
  moreover have "cb_state ?h = Member HALF_OPEN" "cb_success_count ?h = 0" "cb_half_open_calls ?h = 0"
    "cb_success_threshold ?h = cb_success_threshold b" "cb_half_open_max_calls ?h = cb_half_open_max_calls b"
    using assms(1) by (simp_all add: transition_to_Member [of _ OPEN] looked_def reset_counters_def
        notify_state_change_def split: option.splits)
  ultimately show ?thesis using calls_half_open [of ?h n clk v] assms by simp
qed

theorem recovers_after_timeout_witness:
  "let b = (cb_init ''llm'' default_args)\<lparr>cb_state := Member OPEN, cb_last_failure_time := Some 1, cb_reads := 2\<rparr> in
   cb_state (calls slow_clock (Returned ()) 1 b) = Member HALF_OPEN \<and>
   cb_state (calls slow_clock (Returned ()) 2 b) = Member CLOSED"
proof -
  let ?b = "(cb_init ''llm'' default_args)\<lparr>cb_state := Member OPEN, cb_last_failure_time := Some 1, cb_reads := 2\<rparr>"
  have "due slow_clock ?b" by (simp add: due_def slow_clock_def cb_init_def default_args_def)
  then show ?thesis
    using recovers_after_timeout [of ?b slow_clock 1 "()"] recovers_after_timeout [of ?b slow_clock 2 "()"]
    by (simp add: cb_init_def default_args_def)
qed

text \<open>The number of calls a half-open breaker lets through is never given back: once it is
  used up (by calls that ended in excluded exceptions, or because the success threshold is
  larger), every later call is rejected, at any time, the breaker stays half-open, and these
  rejections are not counted.\<close>

theorem half_open_stuck:
  fixes funcs :: "(breaker \<Rightarrow> 'v outcome \<times> breaker) list"
  assumes "cb_state b = Member HALF_OPEN" "cb_half_open_calls b \<ge> cb_half_open_max_calls b"
  shows "let b' = fold (\<lambda>func b. snd (execute clk func b)) funcs b in
    cb_state b' = Member HALF_OPEN \<and> cb_total_rejected b' = cb_total_rejected b \<and>
    (\<forall>func :: breaker \<Rightarrow> 'v outcome \<times> breaker.
       \<exists>err. fst (execute clk func b') = Rejected err \<and> cbe_state err = HALF_OPEN)"
proof -
  have step: "\<exists>err. execute clk func b = (Rejected err, b\<lparr>cb_total_calls := cb_total_calls b + 1\<rparr>) \<and>
      cbe_state err = HALF_OPEN"
    if "cb_state b = Member HALF_OPEN" "cb_half_open_calls b \<ge> cb_half_open_max_calls b" for func :: "breaker \<Rightarrow> 'v outcome \<times> breaker" and b
    using that by (simp add: execute_def check_state_def cb_current_Member [of _ HALF_OPEN])
  let ?P = "\<lambda>b'. cb_state b' = Member HALF_OPEN \<and> cb_half_open_calls b' \<ge> cb_half_open_max_calls b' \<and>
    cb_total_rejected b' = cb_total_rejected b"
  have "?P (fold (\<lambda>func b. snd (execute clk func b)) funcs b0)" if "?P b0" for b0
    using that
  proof (induction funcs arbitrary: b0)
    case (Cons f fs)
    obtain err where "execute clk f b0 = (Rejected err, b0\<lparr>cb_total_calls := cb_total_calls b0 + 1\<rparr>)"
      using step [of b0 f] Cons.prems by auto
    with Cons show ?case by simp
  qed simp
  with assms have p: "?P (fold (\<lambda>func b. snd (execute clk func b)) funcs b)" by blast
  moreover have "\<exists>err. fst (execute clk func b') = Rejected err \<and> cbe_state err = HALF_OPEN"
    if "?P b'" for func :: "breaker \<Rightarrow> 'v outcome \<times> breaker" and b'
    using step [of b' func] that by auto
  ultimately show ?thesis unfolding Let_def by blast
qed

definition quota_error :: raised where
  "quota_error = \<lparr>classes = [''QuotaError'', ''Exception'', ''BaseException''], raised_text = ''quota''\<rparr>"

theorem half_open_stuck_witness:
  "let b = calls slow_clock (Raised quota_error) 3
       ((cb_init ''llm'' (default_args\<lparr>ba_excluded := Some [''QuotaError'']\<rparr>))
          \<lparr>cb_state := Member OPEN, cb_last_failure_time := Some 1, cb_reads := 2\<rparr>) in
   cb_state b = Member HALF_OPEN \<and>
   (\<exists>err. fst (execute slow_clock (\<lambda>b. (Returned (), b)) b) = Rejected err \<and> cbe_state err = HALF_OPEN)"
proof -
  let ?b = "calls slow_clock (Raised quota_error) 3
       ((cb_init ''llm'' (default_args\<lparr>ba_excluded := Some [''QuotaError'']\<rparr>))
          \<lparr>cb_state := Member OPEN, cb_last_failure_time := Some 1, cb_reads := 2\<rparr>)"
  have "cb_state ?b = Member HALF_OPEN \<and> cb_half_open_calls ?b = 3 \<and> cb_half_open_max_calls ?b = 3"
    by (simp add: numeral_eq_Suc execute_def check_state_def cb_current_def after_call_def slow_clock_def
        transition_to_def read_clock_def should_attempt_recovery_def notify_state_change_def reset_counters_def
        Let_def cb_init_def default_args_def instance_of_def quota_error_def)
  then show ?thesis using half_open_stuck [of ?b slow_clock "[] :: (breaker \<Rightarrow> unit outcome \<times> breaker) list"] unfolding Let_def by simp
qed

end
