(* ===== verification/Retry.thy ===== *)
theory Retry
  imports Prelude
begin

text \<open>
  The retry strategies and the retry executor of \<^verbatim>\<open>victor/core/retry.py\<close>. A strategy is what
  the executor uses of it: an optional attribute \<^verbatim>\<open>max_attempts\<close>, \<^verbatim>\<open>should_retry\<close> and
  \<^verbatim>\<open>get_delay\<close> (the hooks of the four strategies only log). The executor's loop is a partial
  function, for a strategy of a caller may retry for ever; the interface \<open>retry_policy\<close>
  is what makes it end, and the strategies of the module are instances of it. The retried
  function takes and gives back a state of its own; the random number of a jitter is drawn
  from a function of the attempt.

  Floats are reals without rounding. What overflow does to them is kept: a float power beyond
  the largest double raises \<^verbatim>\<open>OverflowError\<close>, before any cap is applied, and leaves the executor;
  a product that overflows is an infinity in the code, which a cap cuts like the real number.
  Parameters are finite, and the sleeps themselves succeed.
\<close>

section \<open>Contexts and strategies\<close>

datatype RetryOutcome = RETRY | ABORT | SUCCESS

record RetryContext =
  rc_attempt :: int
  rc_max_attempts :: int
  rc_start_time :: time
  rc_last_exception :: "raised option"
  rc_exceptions :: "raised list"
  rc_total_delay :: real
  rc_slept :: "real list"

definition rc_init :: "int \<Rightarrow> time \<Rightarrow> RetryContext" where
  "rc_init max_attempts now =
     \<lparr>rc_attempt = 0, rc_max_attempts = max_attempts, rc_start_time = now, rc_last_exception = None,
      rc_exceptions = [], rc_total_delay = 0, rc_slept = []\<rparr>"

definition rc_elapsed :: "time \<Rightarrow> RetryContext \<Rightarrow> time" where
  "rc_elapsed now c = now - rc_start_time c"

definition attempts_remaining :: "RetryContext \<Rightarrow> int" where
  "attempts_remaining c = max 0 (rc_max_attempts c - rc_attempt c)"

definition record_exception :: "raised \<Rightarrow> RetryContext \<Rightarrow> RetryContext" where
  "record_exception e c = c\<lparr>rc_last_exception := Some e, rc_exceptions := rc_exceptions c @ [e]\<rparr>"

definition record_delay :: "real \<Rightarrow> RetryContext \<Rightarrow> RetryContext" where
  "record_delay d c = c\<lparr>rc_total_delay := rc_total_delay c + d\<rparr>"

record strategy =
  rs_max_attempts :: "int option"
  rs_should_retry :: "RetryContext \<Rightarrow> bool"
  rs_get_delay :: "real \<Rightarrow> RetryContext \<Rightarrow> raised + real"

text \<open>\<^verbatim>\<open>random.uniform(a, b)\<close>, from a number drawn between 0 and 1.\<close>

definition uniform :: "real \<Rightarrow> real \<Rightarrow> real \<Rightarrow> real" where
  "uniform a b u = a + (b - a) * u"

text \<open>
  \<^verbatim>\<open>x ** n\<close> of a float and an int: zero has no negative power, and a result that would not round
  to a double raises. The largest double is \<open>2 ^ 1024 - 2 ^ 971\<close>; from half a unit above it on
  the result rounds to an infinity.
\<close>

definition arithmetic_error :: "string \<Rightarrow> string \<Rightarrow> raised" where
  "arithmetic_error name msg =
     \<lparr>classes = [name, ''ArithmeticError'', ''Exception'', ''BaseException''], raised_text = msg\<rparr>"

definition overflow_error :: raised where
  "overflow_error = arithmetic_error ''OverflowError'' ''(34, 'Numerical result out of range')''"

definition float_overflow :: "real \<Rightarrow> bool" where
  "float_overflow x \<longleftrightarrow> 2 ^ 1024 - 2 ^ 970 \<le> \<bar>x\<bar>"

definition float_pow :: "real \<Rightarrow> int \<Rightarrow> raised + real" where
  "float_pow x n =
     (if x = 0 \<and> n < 0
      then Inl (arithmetic_error ''ZeroDivisionError'' ''0.0 cannot be raised to a negative power'')
      else if float_overflow (power_int x n) then Inl overflow_error
      else Inr (power_int x n))"

text \<open>The helper for a single delay.\<close>

definition compute_backoff_delay ::
  "int \<Rightarrow> real \<Rightarrow> real \<Rightarrow> real option \<Rightarrow> real \<Rightarrow> real \<Rightarrow> raised + real" where
  "compute_backoff_delay n base_delay multiplier max_delay jitter u =
     (case float_pow multiplier n of
        Inl e \<Rightarrow> Inl e
      | Inr factor \<Rightarrow>
          let delay = base_delay * factor;
              delay = (case max_delay of None \<Rightarrow> delay | Some m \<Rightarrow> min delay m);
              delay = (if jitter > 0 then delay + uniform (- (delay * jitter)) (delay * jitter) u else delay)
          in Inr (max 0 delay))"

record ExponentialBackoffStrategy =
  eb_max_attempts :: int
  eb_base_delay :: real
  eb_max_delay :: real
  eb_multiplier :: real
  eb_jitter :: real
  eb_retryable :: "string list option"
  eb_non_retryable :: "string list"

text \<open>The exception's own class, not its base classes, decides.\<close>

definition exc_class :: "raised \<Rightarrow> string" where
  "exc_class e = (case classes e of [] \<Rightarrow> [] | c # _ \<Rightarrow> c)"

definition eb_should_retry :: "ExponentialBackoffStrategy \<Rightarrow> RetryContext \<Rightarrow> bool" where
  "eb_should_retry p c =
     (if rc_attempt c \<ge> eb_max_attempts p then False
      else case rc_last_exception c of
          None \<Rightarrow> True
        | Some e \<Rightarrow>
            if exc_class e \<in> set (eb_non_retryable p) then False
            else case eb_retryable p of None \<Rightarrow> True | Some cs \<Rightarrow> exc_class e \<in> set cs)"

definition eb_get_delay :: "ExponentialBackoffStrategy \<Rightarrow> real \<Rightarrow> RetryContext \<Rightarrow> raised + real" where
  "eb_get_delay p u c =
     (case float_pow (eb_multiplier p) (rc_attempt c) of
        Inl e \<Rightarrow> Inl e
      | Inr factor \<Rightarrow>
          let delay = eb_base_delay p * factor;
              delay = min delay (eb_max_delay p);
              delay = (if eb_jitter p > 0
                       then delay + uniform (- (delay * eb_jitter p)) (delay * eb_jitter p) u else delay)
          in Inr (max 0 delay))"

definition exponential :: "ExponentialBackoffStrategy \<Rightarrow> strategy" where
  "exponential p = \<lparr>rs_max_attempts = Some (eb_max_attempts p), rs_should_retry = eb_should_retry p,
     rs_get_delay = eb_get_delay p\<rparr>"

definition eb_default :: ExponentialBackoffStrategy where
  "eb_default = \<lparr>eb_max_attempts = 3, eb_base_delay = 1, eb_max_delay = 60, eb_multiplier = 2,
     eb_jitter = 1 / 10, eb_retryable = None, eb_non_retryable = []\<rparr>"

record LinearBackoffStrategy =
  lb_max_attempts :: int
  lb_base_delay :: real
  lb_increment :: real
  lb_max_delay :: real

definition lb_get_delay :: "LinearBackoffStrategy \<Rightarrow> real \<Rightarrow> RetryContext \<Rightarrow> real" where
  "lb_get_delay p u c = min (lb_base_delay p + lb_increment p * of_int (rc_attempt c)) (lb_max_delay p)"

definition linear :: "LinearBackoffStrategy \<Rightarrow> strategy" where
  "linear p = \<lparr>rs_max_attempts = Some (lb_max_attempts p),
     rs_should_retry = (\<lambda>c. rc_attempt c < lb_max_attempts p), rs_get_delay = (\<lambda>u c. Inr (lb_get_delay p u c))\<rparr>"

record FixedDelayStrategy =
  fd_max_attempts :: int
  fd_delay :: real

definition fixed_delay :: "FixedDelayStrategy \<Rightarrow> strategy" where
  "fixed_delay p = \<lparr>rs_max_attempts = Some (fd_max_attempts p),
     rs_should_retry = (\<lambda>c. rc_attempt c < fd_max_attempts p), rs_get_delay = (\<lambda>u c. Inr (fd_delay p))\<rparr>"

definition no_retry :: strategy where
  "no_retry = \<lparr>rs_max_attempts = None, rs_should_retry = (\<lambda>c. False), rs_get_delay = (\<lambda>u c. Inr 0)\<rparr>"

text \<open>The configured strategies of the module.\<close>

definition tool_retry_strategy :: "int \<Rightarrow> real \<Rightarrow> ExponentialBackoffStrategy" where
  "tool_retry_strategy max_retries base_delay =
     eb_default\<lparr>eb_max_attempts := max_retries, eb_base_delay := base_delay, eb_max_delay := 30,
       eb_multiplier := 2, eb_jitter := 1 / 10\<rparr>"

definition provider_retry_strategy :: "int \<Rightarrow> ExponentialBackoffStrategy" where
  "provider_retry_strategy max_retries =
     eb_default\<lparr>eb_max_attempts := max_retries, eb_base_delay := 2, eb_max_delay := 60,
       eb_multiplier := 2, eb_jitter := 1 / 4\<rparr>"

definition connection_retry_strategy :: "int \<Rightarrow> ExponentialBackoffStrategy" where
  "connection_retry_strategy max_attempts =
     eb_default\<lparr>eb_max_attempts := max_attempts, eb_base_delay := 1 / 2, eb_max_delay := 30,
       eb_multiplier := 2, eb_jitter := 15 / 100\<rparr>"

section \<open>The executor\<close>

record 'v RetryResult =
  rr_success :: bool
  rr_result :: "'v option"
  rr_exception :: "raised option"
  rr_context :: RetryContext

definition rr_attempts :: "'v RetryResult \<Rightarrow> int" where
  "rr_attempts r = rc_attempt (rr_context r)"

definition rr_total_time :: "time \<Rightarrow> 'v RetryResult \<Rightarrow> time" where
  "rr_total_time now r = rc_elapsed now (rr_context r)"

definition sleep_for :: "real \<Rightarrow> RetryContext \<Rightarrow> RetryContext" where
  "sleep_for d c = (if d > 0 then c\<lparr>rc_slept := rc_slept c @ [d]\<rparr> else c)"

text \<open>
  One loop for both executors, which differ in the call and the sleep being awaited. An
  exception that is not an \<^verbatim>\<open>Exception\<close> (a cancellation, an exit) leaves the loop, and so does
  one that the strategy raises, for it is raised in the handler.
\<close>

partial_function (option) retry_loop ::
  "strategy \<Rightarrow> (int \<Rightarrow> real) \<Rightarrow> ('w \<Rightarrow> 'v outcome \<times> 'w) \<Rightarrow> RetryContext \<Rightarrow> 'w \<Rightarrow>
   ((raised + 'v RetryResult) \<times> 'w) option" where
  "retry_loop s draw func c w =
     (let c = c\<lparr>rc_attempt := rc_attempt c + 1\<rparr>
      in case func w of
          (Returned v, w) \<Rightarrow>
            Some (Inr \<lparr>rr_success = True, rr_result = Some v, rr_exception = None, rr_context = c\<rparr>, w)
        | (Raised e, w) \<Rightarrow>
            (if \<not> instance_of e [''Exception''] then Some (Inl e, w)
             else let c = record_exception e c
                  in if rs_should_retry s c
                     then case rs_get_delay s (draw (rc_attempt c)) c of
                            Inl e \<Rightarrow> Some (Inl e, w)
                          | Inr d \<Rightarrow> retry_loop s draw func (sleep_for d (record_delay d c)) w
                     else Some (Inr \<lparr>rr_success = False, rr_result = None, rr_exception = Some e,
                                     rr_context = c\<rparr>, w)))"

definition execute_sync ::
  "strategy \<Rightarrow> (int \<Rightarrow> real) \<Rightarrow> time \<Rightarrow> ('w \<Rightarrow> 'v outcome \<times> 'w) \<Rightarrow> 'w \<Rightarrow>
   ((raised + 'v RetryResult) \<times> 'w) option" where
  "execute_sync s draw now func w =
     retry_loop s draw func (rc_init (case rs_max_attempts s of Some n \<Rightarrow> n | None \<Rightarrow> 3) now) w"

definition execute_async ::
  "strategy \<Rightarrow> (int \<Rightarrow> real) \<Rightarrow> time \<Rightarrow> ('w \<Rightarrow> 'v outcome \<times> 'w) \<Rightarrow> 'w \<Rightarrow>
   ((raised + 'v RetryResult) \<times> 'w) option" where
  "execute_async s draw now func w =
     retry_loop s draw func (rc_init (case rs_max_attempts s of Some n \<Rightarrow> n | None \<Rightarrow> 3) now) w"

definition handle_retry_result :: "'v RetryResult \<Rightarrow> bool \<Rightarrow> raised + 'v option" where
  "handle_retry_result r raise_on_failure =
     (if rr_success r then Inr (rr_result r)
      else if raise_on_failure \<and> rr_exception r \<noteq> None then Inl (the (rr_exception r))
      else Inr None)"

text \<open>The decorators; without a strategy they use the default exponential one.\<close>

definition executor_strategy :: "strategy option \<Rightarrow> strategy" where
  "executor_strategy s = (case s of Some s \<Rightarrow> s | None \<Rightarrow> exponential eb_default)"

definition with_retry ::
  "strategy option \<Rightarrow> bool \<Rightarrow> (int \<Rightarrow> real) \<Rightarrow> time \<Rightarrow> ('w \<Rightarrow> 'v outcome \<times> 'w) \<Rightarrow> 'w \<Rightarrow>
   ((raised + 'v option) \<times> 'w) option" where
  "with_retry s raise_on_failure draw now func w =
     map_option (map_prod (\<lambda>r. case r of Inl e \<Rightarrow> Inl e | Inr res \<Rightarrow> handle_retry_result res raise_on_failure) id)
       (execute_async (executor_strategy s) draw now func w)"

definition with_retry_sync ::
  "strategy option \<Rightarrow> bool \<Rightarrow> (int \<Rightarrow> real) \<Rightarrow> time \<Rightarrow> ('w \<Rightarrow> 'v outcome \<times> 'w) \<Rightarrow> 'w \<Rightarrow>
   ((raised + 'v option) \<times> 'w) option" where
  "with_retry_sync s raise_on_failure draw now func w =
     map_option (map_prod (\<lambda>r. case r of Inl e \<Rightarrow> Inl e | Inr res \<Rightarrow> handle_retry_result res raise_on_failure) id)
       (execute_sync (executor_strategy s) draw now func w)"

section \<open>Policies\<close>

text \<open>The context after another failed attempt, and after the pause before the next one.\<close>

definition failed_ctx :: "raised \<Rightarrow> RetryContext \<Rightarrow> RetryContext" where
  "failed_ctx e c = record_exception e (c\<lparr>rc_attempt := rc_attempt c + 1\<rparr>)"

definition paused_ctx :: "real \<Rightarrow> raised \<Rightarrow> RetryContext \<Rightarrow> RetryContext" where
  "paused_ctx d e c = sleep_for d (record_delay d (failed_ctx e c))"

lemma ctx_simps [simp]:
  "rc_attempt (failed_ctx e c) = rc_attempt c + 1"
  "rc_exceptions (failed_ctx e c) = rc_exceptions c @ [e]"
  "rc_last_exception (failed_ctx e c) = Some e"
  "rc_slept (failed_ctx e c) = rc_slept c"
  "rc_attempt (paused_ctx d e c) = rc_attempt c + 1"
  "rc_exceptions (paused_ctx d e c) = rc_exceptions c @ [e]"
  by (simp_all add: failed_ctx_def paused_ctx_def record_exception_def record_delay_def sleep_for_def Let_def)

lemma retry_loop_Returned:
  "func w = (Returned v, w') \<Longrightarrow> retry_loop s draw func c w =
     Some (Inr \<lparr>rr_success = True, rr_result = Some v, rr_exception = None,
                rr_context = c\<lparr>rc_attempt := rc_attempt c + 1\<rparr>\<rparr>, w')"
  by (simp add: retry_loop.simps [of s draw func c])

lemma retry_loop_Raised:
  assumes "func w = (Raised e, w')"
  shows "retry_loop s draw func c w =
    (if \<not> instance_of e [''Exception''] then Some (Inl e, w')
     else if rs_should_retry s (failed_ctx e c)
     then (case rs_get_delay s (draw (rc_attempt c + 1)) (failed_ctx e c) of
             Inl e \<Rightarrow> Some (Inl e, w') | Inr d \<Rightarrow> retry_loop s draw func (paused_ctx d e c) w')
     else Some (Inr \<lparr>rr_success = False, rr_result = None, rr_exception = Some e, rr_context = failed_ctx e c\<rparr>, w'))"
proof -
  have "rc_attempt (record_exception e c') = rc_attempt c'" for c' by (simp add: record_exception_def)
  with assms show ?thesis
    by (simp add: retry_loop.simps [of s draw func c w] failed_ctx_def paused_ctx_def Let_def split: sum.split)
qed

text \<open>What a finished run says of the calls it made.\<close>

definition accounted :: "RetryContext \<Rightarrow> int \<Rightarrow> 'v RetryResult \<Rightarrow> bool" where
  "accounted c limit r \<longleftrightarrow>
     rc_attempt c < rr_attempts r \<and> rr_attempts r \<le> max (rc_attempt c + 1) limit \<and>
     int (length (rc_exceptions (rr_context r))) - int (length (rc_exceptions c)) =
       rr_attempts r - rc_attempt c - (if rr_success r then 1 else 0) \<and>
     (rr_success r \<longleftrightarrow> rr_result r \<noteq> None) \<and> (rr_success r \<longleftrightarrow> rr_exception r = None)"

lemma accounted_step:
  assumes "accounted c' limit r" "rc_attempt c' = rc_attempt c + 1"
    "length (rc_exceptions c') = Suc (length (rc_exceptions c))" "rc_attempt c + 1 < limit"
  shows "accounted c limit r"
  using assms unfolding accounted_def by (cases "rr_success r") simp_all

text \<open>
  Of a script of outcomes from index \<open>i\<close> on, after \<open>a\<close> attempts, a run ends with the
  one at \<open>k\<close>: the first success, the first exception whose delay cannot be computed, or
  the last exception that the limit allows.
\<close>

definition ends_at ::
  "(nat \<Rightarrow> 'v outcome) \<Rightarrow> (int \<Rightarrow> raised option) \<Rightarrow> int \<Rightarrow> int \<Rightarrow> nat \<Rightarrow> nat \<Rightarrow> raised + 'v RetryResult \<Rightarrow> bool" where
  "ends_at outs fails a limit i k r \<longleftrightarrow> i \<le> k \<and> a + int (k - i) < max (a + 1) limit \<and>
     (\<forall>j \<in> {i..<k}. (\<exists>e. outs j = Raised e) \<and> fails (a + int (j - i) + 1) = None) \<and>
     (case outs k of
        Returned v \<Rightarrow> (\<exists>res. r = Inr res \<and> rr_attempts res = a + int (k - i) + 1 \<and> rr_success res \<and> rr_result res = Some v)
      | Raised e \<Rightarrow>
          if a + int (k - i) + 1 < limit then \<exists>e'. fails (a + int (k - i) + 1) = Some e' \<and> r = Inl e'
          else \<exists>res. r = Inr res \<and> rr_attempts res = a + int (k - i) + 1 \<and> \<not> rr_success res \<and> rr_exception res = Some e)"

lemma ends_at_step:
  assumes "ends_at outs fails (a + 1) limit (Suc i) k r" "outs i = Raised e" "a + 1 < limit" "fails (a + 1) = None"
  shows "ends_at outs fails a limit i k r"
proof -
  have ik: "Suc i \<le> k" using assms(1) by (simp add: ends_at_def)
  then have shift: "a + 1 + int (k - Suc i) = a + int (k - i)" by simp
  have "(\<exists>e. outs j = Raised e) \<and> fails (a + int (j - i) + 1) = None" if j: "j \<in> {i..<k}" for j
  proof (cases "j = i")
    case False
    with j have "j \<in> {Suc i..<k}" "a + 1 + int (j - Suc i) + 1 = a + int (j - i) + 1" by auto
    with assms(1) show ?thesis unfolding ends_at_def by metis
  qed (simp add: assms)
  with assms(1,3) ik show ?thesis unfolding ends_at_def shift by auto
qed

text \<open>
  The interface of a strategy that ends: it does not retry once a limit is reached. A
  counting one retries whenever the limit is not reached, and whether its delay can be
  computed depends on the number of the attempt only.
\<close>

locale retry_policy =
  fixes s :: strategy and limit :: int
  assumes stops: "rs_should_retry s c \<Longrightarrow> rc_attempt c < limit"
begin

lemma loop_returns:
  "\<exists>r w'. retry_loop s draw func c w = Some (r, w') \<and>
     (case r of
        Inl e \<Rightarrow> \<not> instance_of e [''Exception''] \<or> (\<exists>u c. rs_get_delay s u c = Inl e)
      | Inr res \<Rightarrow> accounted c limit res)"
proof (induction "nat (limit - rc_attempt c)" arbitrary: c w rule: less_induct)
  case less
  obtain out w1 where f: "func w = (out, w1)" by (cases "func w")
  show ?case
  proof (cases out)
    case (Returned v)
    with f show ?thesis by (simp add: retry_loop_Returned accounted_def rr_attempts_def)
  next
    case (Raised e)
    let ?d = "rs_get_delay s (draw (rc_attempt c + 1)) (failed_ctx e c)"
    show ?thesis
    proof (cases "instance_of e [''Exception''] \<and> rs_should_retry s (failed_ctx e c)")
      case True
      then have lt: "rc_attempt c + 1 < limit" using stops by fastforce
      show ?thesis
      proof (cases ?d)
        case (Inl e')
        with f Raised True show ?thesis by (auto simp: retry_loop_Raised)
      next
        case (Inr d)
        let ?c = "paused_ctx d e c"
        have "nat (limit - rc_attempt ?c) < nat (limit - rc_attempt c)" using lt by simp
        then obtain r w' where r: "retry_loop s draw func ?c w1 = Some (r, w')"
          "case r of Inl e \<Rightarrow> \<not> instance_of e [''Exception''] \<or> (\<exists>u c. rs_get_delay s u c = Inl e)
           | Inr res \<Rightarrow> accounted ?c limit res"
          using less by blast
        with f Raised True Inr lt show ?thesis
          by (cases r) (auto simp: retry_loop_Raised intro: accounted_step [of ?c])
      qed
    next
      case False
      with f Raised show ?thesis
        by (auto simp: retry_loop_Raised accounted_def rr_attempts_def)
    qed
  qed
qed

end

locale counting_policy = retry_policy +
  fixes fails :: "int \<Rightarrow> raised option"
  assumes goes_on: "1 \<le> rc_attempt c \<Longrightarrow> rc_attempt c < limit \<Longrightarrow> rs_should_retry s c"
    and delay_fails: "1 \<le> rc_attempt c \<Longrightarrow> rs_get_delay s u c = Inl e \<longleftrightarrow> fails (rc_attempt c) = Some e"
begin

text \<open>
  A function that reads its outcomes from a script: the run ends with the first success among
  the attempts the limit allows, with the first delay that cannot be computed, or with the
  last of their exceptions.
\<close>

lemma loop_script:
  assumes ex: "\<And>i e. outs i = Raised e \<Longrightarrow> instance_of e [''Exception'']" and "0 \<le> rc_attempt c"
  shows "\<exists>k r. retry_loop s draw (\<lambda>i. (outs i, Suc i)) c i = Some (r, Suc k) \<and>
    ends_at outs fails (rc_attempt c) limit i k r"
  using assms(2)
proof (induction "nat (limit - rc_attempt c)" arbitrary: c i rule: less_induct)
  case less
  show ?case
  proof (cases "outs i")
    case (Returned v)
    then show ?thesis by (intro exI [of _ i]) (simp add: retry_loop_Returned rr_attempts_def ends_at_def)
  next
    case (Raised e)
    let ?n = "rc_attempt c + 1"
    let ?d = "rs_get_delay s (draw ?n) (failed_ctx e c)"
    show ?thesis
    proof (cases "?n < limit")
      case True
      have go: "rs_should_retry s (failed_ctx e c)" using goes_on True less.prems by simp
      have fails: "?d = Inl e' \<longleftrightarrow> fails ?n = Some e'" for e'
        using delay_fails [of "failed_ctx e c" "draw ?n" e'] less.prems by simp
      show ?thesis
      proof (cases ?d)
        case (Inl e')
        then have "fails ?n = Some e'" using fails by simp
        with Raised ex go True Inl show ?thesis
          by (intro exI [of _ i]) (simp add: retry_loop_Raised ends_at_def)
      next
        case (Inr d)
        let ?c = "paused_ctx d e c"
        have ok: "fails ?n = None" using Inr fails by (cases "fails ?n") auto
        have "nat (limit - rc_attempt ?c) < nat (limit - rc_attempt c)" "0 \<le> rc_attempt ?c"
          using True less.prems by auto
        from less.hyps [OF this, of "Suc i"] obtain k r where
          k: "retry_loop s draw (\<lambda>i. (outs i, Suc i)) ?c (Suc i) = Some (r, Suc k)"
            "ends_at outs fails ?n limit (Suc i) k r" by auto
        have "retry_loop s draw (\<lambda>i. (outs i, Suc i)) c i = Some (r, Suc k)"
          using k(1) Raised ex go Inr by (simp add: retry_loop_Raised)
        then show ?thesis using ends_at_step [OF k(2) Raised True ok] by blast
      qed
    next
      case False
      then have "\<not> rs_should_retry s (failed_ctx e c)" using stops by fastforce
      with Raised ex False show ?thesis
        by (intro exI [of _ i]) (simp add: retry_loop_Raised rr_attempts_def ends_at_def)
    qed
  qed
qed

end

text \<open>The strategies of the module, with the limit of each.\<close>

datatype builtin =
    Exponential ExponentialBackoffStrategy
  | Linear LinearBackoffStrategy
  | Fixed FixedDelayStrategy
  | No_retry

fun strategy_of :: "builtin \<Rightarrow> strategy" where
  "strategy_of (Exponential p) = exponential p"
| "strategy_of (Linear p) = linear p"
| "strategy_of (Fixed p) = fixed_delay p"
| "strategy_of No_retry = no_retry"

fun limit_of :: "builtin \<Rightarrow> int" where
  "limit_of (Exponential p) = eb_max_attempts p"
| "limit_of (Linear p) = lb_max_attempts p"
| "limit_of (Fixed p) = fd_max_attempts p"
| "limit_of No_retry = 1"

lemmas strategy_defs = exponential_def linear_def fixed_delay_def no_retry_def

interpretation builtin_policy: retry_policy "strategy_of b" "limit_of b" for b
  by unfold_locales (cases b, auto simp: strategy_defs eb_should_retry_def split: if_splits)

text \<open>All but an exponential strategy with a filter on exceptions count.\<close>

definition unfiltered :: "builtin \<Rightarrow> builtin" where
  "unfiltered b = (case b of Exponential p \<Rightarrow> Exponential (p\<lparr>eb_retryable := None, eb_non_retryable := []\<rparr>) | _ \<Rightarrow> b)"

lemma limit_unfiltered [simp]: "limit_of (unfiltered b) = limit_of b"
  by (cases b) (simp_all add: unfiltered_def)

text \<open>The attempts after which the power in the delay overflows; only an exponential strategy has them.\<close>

definition delay_overflows :: "builtin \<Rightarrow> nat \<Rightarrow> bool" where
  "delay_overflows b n = (case b of Exponential p \<Rightarrow> float_overflow (eb_multiplier p ^ n) | _ \<Rightarrow> False)"

definition delay_failure :: "builtin \<Rightarrow> int \<Rightarrow> raised option" where
  "delay_failure b n = (if delay_overflows b (nat n) then Some overflow_error else None)"

lemma float_pow_nonneg:
  "0 \<le> n \<Longrightarrow> float_pow x n = (if float_overflow (x ^ nat n) then Inl overflow_error else Inr (x ^ nat n))"
  by (simp add: float_pow_def power_int_def)

lemma eb_get_delay_Inl:
  "0 \<le> rc_attempt c \<Longrightarrow>
     eb_get_delay p u c = Inl e \<longleftrightarrow> float_overflow (eb_multiplier p ^ nat (rc_attempt c)) \<and> e = overflow_error"
  by (auto simp: eb_get_delay_def float_pow_nonneg Let_def)

interpretation unfiltered_policy: counting_policy "strategy_of (unfiltered b)" "limit_of b" "delay_failure b" for b
proof unfold_locales
  fix c u e
  show "rs_should_retry (strategy_of (unfiltered b)) c \<Longrightarrow> rc_attempt c < limit_of b"
    using builtin_policy.stops [of "unfiltered b" c] by simp
  show "1 \<le> rc_attempt c \<Longrightarrow> rc_attempt c < limit_of b \<Longrightarrow> rs_should_retry (strategy_of (unfiltered b)) c"
    by (cases b) (auto simp: unfiltered_def strategy_defs eb_should_retry_def split: option.splits)
  show "rs_get_delay (strategy_of (unfiltered b)) u c = Inl e \<longleftrightarrow> delay_failure b (rc_attempt c) = Some e"
    if "1 \<le> rc_attempt c"
    using that by (cases b) (auto simp: unfiltered_def strategy_defs delay_failure_def delay_overflows_def eb_get_delay_Inl)
qed

section \<open>What retrying promises\<close>

lemma delay_raises_arithmetic:
  "rs_get_delay (strategy_of b) u c = Inl e \<Longrightarrow> instance_of e [''ArithmeticError'']"
  by (cases b) (auto simp: strategy_defs eb_get_delay_def float_pow_def overflow_error_def arithmetic_error_def
    instance_of_def Let_def split: if_splits)

text \<open>With every strategy of the module a retried call ends, whatever the function does: it is
  tried at least once and at most as often as the strategy's limit says (once when the limit
  is smaller), the context holds one exception per failed attempt, and the result carries a
  value or an exception; only an exception that is not an ordinary one, or the arithmetic
  error of a delay, leaves the loop.\<close>

theorem retry_bounded:
  "\<exists>r w'. execute_sync (strategy_of b) draw now func w = Some (r, w') \<and>
     execute_async (strategy_of b) draw now func w = Some (r, w') \<and>
     (case r of
        Inl e \<Rightarrow> \<not> instance_of e [''Exception''] \<or> instance_of e [''ArithmeticError'']
      | Inr res \<Rightarrow> 1 \<le> rr_attempts res \<and> rr_attempts res \<le> max 1 (limit_of b) \<and>
          int (length (rc_exceptions (rr_context res))) = rr_attempts res - (if rr_success res then 1 else 0) \<and>
          (rr_success res \<longleftrightarrow> rr_result res \<noteq> None) \<and> (rr_success res \<longleftrightarrow> rr_exception res = None))"
proof -
  let ?c = "rc_init (case rs_max_attempts (strategy_of b) of Some n \<Rightarrow> n | None \<Rightarrow> 3) now"
  obtain r w' where r: "retry_loop (strategy_of b) draw func ?c w = Some (r, w')"
    "case r of
       Inl e \<Rightarrow> \<not> instance_of e [''Exception''] \<or> (\<exists>u c. rs_get_delay (strategy_of b) u c = Inl e)
     | Inr res \<Rightarrow> accounted ?c (limit_of b) res"
    using builtin_policy.loop_returns [of b draw func ?c w] by blast
  then show ?thesis
    by (cases r) (auto simp: execute_sync_def execute_async_def accounted_def rc_init_def dest: delay_raises_arithmetic)
qed

text \<open>C38. Without a filter on exceptions, a call whose outcomes are a script of results and ordinary
  exceptions ends with the first result, if it comes within the limit, and otherwise with the
  exception of the last allowed attempt; the function is called once per attempt and not
  after its first result. The one other end is an exponential strategy whose power for the
  attempt just failed is beyond the doubles: then the call raises \<^verbatim>\<open>OverflowError\<close>.\<close>

theorem retry_exact:
  assumes "\<forall>i e. outs i = Raised e \<longrightarrow> instance_of e [''Exception'']"
  shows "\<exists>k r. execute_sync (strategy_of (unfiltered b)) draw now (\<lambda>i. (outs i, Suc i)) 0 = Some (r, Suc k) \<and>
    int k + 1 \<le> max 1 (limit_of b) \<and>
    (\<forall>j < k. (\<exists>e. outs j = Raised e) \<and> \<not> delay_overflows b (Suc j)) \<and>
    (case outs k of
       Returned v \<Rightarrow> (\<exists>res. r = Inr res \<and> rr_attempts res = int k + 1 \<and> rr_success res \<and> rr_result res = Some v)
     | Raised e \<Rightarrow>
         if int k + 1 < limit_of b then delay_overflows b (Suc k) \<and> r = Inl overflow_error
         else \<exists>res. r = Inr res \<and> rr_attempts res = int k + 1 \<and> \<not> rr_success res \<and> rr_exception res = Some e)"
proof -
  let ?c = "rc_init (case rs_max_attempts (strategy_of (unfiltered b)) of Some n \<Rightarrow> n | None \<Rightarrow> 3) now"
  have a: "rc_attempt ?c = 0" by (simp add: rc_init_def)
  have fails: "delay_failure b (int n + 1) = (if delay_overflows b (Suc n) then Some overflow_error else None)" for n
    by (simp add: delay_failure_def nat_add_distrib)
  obtain k r where k: "retry_loop (strategy_of (unfiltered b)) draw (\<lambda>i. (outs i, Suc i)) ?c 0 = Some (r, Suc k)"
    "ends_at outs (delay_failure b) 0 (limit_of b) 0 k r"
    using unfiltered_policy.loop_script [of outs ?c b draw 0] assms a by auto
  show ?thesis
    using k by (intro exI [of _ k] exI [of _ r])
      (auto simp: execute_sync_def ends_at_def fails split: outcome.splits if_splits)
qed

definition timeout_error :: raised where
  "timeout_error = \<lparr>classes = [''TimeoutError'', ''OSError'', ''Exception'', ''BaseException''], raised_text = []\<rparr>"

theorem retry_exact_witness:
  "\<exists>res. execute_sync (strategy_of (unfiltered (Fixed \<lparr>fd_max_attempts = 3, fd_delay = 1\<rparr>))) (\<lambda>_. 0) 0
       (\<lambda>i. (if i = 0 then Raised timeout_error else Returned i, Suc i)) 0 = Some (Inr res, 2) \<and>
     rr_result res = Some 1"
proof -
  let ?outs = "\<lambda>i. if i = 0 then Raised timeout_error else Returned i"
  let ?b = "Fixed \<lparr>fd_max_attempts = 3, fd_delay = 1\<rparr>"
  have "\<forall>i e. ?outs i = Raised e \<longrightarrow> instance_of e [''Exception'']"
    by (auto simp: timeout_error_def instance_of_def split: if_splits)
  from retry_exact [of ?outs ?b "\<lambda>_. 0" 0, OF this] obtain k r where
    k: "execute_sync (strategy_of (unfiltered ?b)) (\<lambda>_. 0) 0 (\<lambda>i. (?outs i, Suc i)) 0 = Some (r, Suc k)"
      "\<forall>j < k. (\<exists>e. ?outs j = Raised e) \<and> \<not> delay_overflows ?b (Suc j)"
      "case ?outs k of
         Returned v \<Rightarrow> (\<exists>res. r = Inr res \<and> rr_attempts res = int k + 1 \<and> rr_success res \<and> rr_result res = Some v)
       | Raised e \<Rightarrow>
           if int k + 1 < limit_of ?b then delay_overflows ?b (Suc k) \<and> r = Inl overflow_error
           else \<exists>res. r = Inr res \<and> rr_attempts res = int k + 1 \<and> \<not> rr_success res \<and> rr_exception res = Some e" by blast
  have "k \<le> 1" using k(2) [rule_format, of 1] by (cases "k \<le> 1") auto
  moreover have "k \<noteq> 0" using k(3) by (cases "k = 0") (auto simp: delay_overflows_def)
  ultimately have "k = 1" by simp
  with k show ?thesis by (auto simp: numeral_2_eq_2)
qed

lemma jitter_deviation:
  assumes "0 \<le> d" "0 \<le> j" "j \<le> 1" "0 \<le> u" "u \<le> 1"
  shows "0 \<le> d + uniform (- (d * j)) (d * j) u \<and> \<bar>d + uniform (- (d * j)) (d * j) u - d\<bar> \<le> j * d"
proof -
  have x: "uniform (- (d * j)) (d * j) u = d * j * (2 * u - 1)" by (simp add: uniform_def algebra_simps)
  have "\<bar>2 * u - 1\<bar> \<le> 1" using assms by (simp add: abs_le_iff)
  then have dev: "\<bar>d * j * (2 * u - 1)\<bar> \<le> d * j"
    using assms mult_left_mono [of "\<bar>2 * u - 1\<bar>" 1 "d * j"] by (simp add: abs_mult)
  have "d * j \<le> d" using assms by (simp add: mult_left_le)
  with dev show ?thesis unfolding x by (simp add: mult.commute)
qed

text \<open>C39. With parameters that are not negative and a jitter fraction of at most one, the
  exponential strategy waits what the shared helper computes with the same parameters: the
  capped exponential delay changed by at most the jitter fraction, so at most
  the cap increased by it. The power is computed before the cap: when it is beyond the doubles
  there is no delay and both raise \<^verbatim>\<open>OverflowError\<close>. Rounding aside.\<close>

theorem backoff_bounds:
  assumes "0 \<le> eb_base_delay p" "0 \<le> eb_multiplier p" "0 \<le> eb_max_delay p" "0 \<le> eb_jitter p" "eb_jitter p \<le> 1"
    and "0 \<le> u" "u \<le> 1" "0 \<le> rc_attempt c"
  defines "f \<equiv> eb_multiplier p ^ nat (rc_attempt c)"
  defines "d \<equiv> min (eb_base_delay p * f) (eb_max_delay p)"
  shows "compute_backoff_delay (rc_attempt c) (eb_base_delay p) (eb_multiplier p) (Some (eb_max_delay p)) (eb_jitter p) u =
      eb_get_delay p u c \<and>
    (if float_overflow f then eb_get_delay p u c = Inl overflow_error
     else \<exists>x. eb_get_delay p u c = Inr x \<and> \<bar>x - d\<bar> \<le> eb_jitter p * d \<and> x \<le> (1 + eb_jitter p) * eb_max_delay p)"
proof -
  have pow: "float_pow (eb_multiplier p) (rc_attempt c) = (if float_overflow f then Inl overflow_error else Inr f)"
    using assms(8) by (simp add: float_pow_nonneg f_def)
  have same: "compute_backoff_delay (rc_attempt c) (eb_base_delay p) (eb_multiplier p) (Some (eb_max_delay p)) (eb_jitter p) u
      = eb_get_delay p u c"
    by (simp add: compute_backoff_delay_def eb_get_delay_def split: sum.split)
  show ?thesis
  proof (cases "float_overflow f")
    case True
    with same pow show ?thesis by (simp add: eb_get_delay_def)
  next
    case False
    have d: "0 \<le> d" "d \<le> eb_max_delay p" using assms(1-3) by (simp_all add: d_def f_def)
    let ?x = "d + uniform (- (d * eb_jitter p)) (d * eb_jitter p) u"
    have "eb_get_delay p u c = Inr (max 0 (if eb_jitter p > 0 then ?x else d))"
      unfolding eb_get_delay_def pow d_def using False by (simp add: Let_def)
    moreover have "0 \<le> ?x \<and> \<bar>?x - d\<bar> \<le> eb_jitter p * d" by (rule jitter_deviation) (use d assms in auto)
    moreover have "?x = d" if "eb_jitter p = 0" using that by (simp add: uniform_def)
    ultimately have delay: "eb_get_delay p u c = Inr ?x" "\<bar>?x - d\<bar> \<le> eb_jitter p * d"
      using d assms(4) by (cases "eb_jitter p = 0", simp_all)+
    moreover have "eb_jitter p * d \<le> eb_jitter p * eb_max_delay p" using d assms(4) by (simp add: mult_left_mono)
    ultimately have "?x \<le> (1 + eb_jitter p) * eb_max_delay p"
      using d by (simp add: algebra_simps abs_le_iff)
    with same delay False show ?thesis by simp
  qed
qed

theorem backoff_bounds_witness:
  "\<exists>x. eb_get_delay (tool_retry_strategy 9 1) 1 ((rc_init 9 0)\<lparr>rc_attempt := 8\<rparr>) = Inr x \<and> x \<le> 33"
  using backoff_bounds [of "tool_retry_strategy 9 1" 1 "(rc_init 9 0)\<lparr>rc_attempt := 8\<rparr>"]
  by (auto simp: tool_retry_strategy_def eb_default_def float_overflow_def)

text \<open>The default strategy with enough attempts: the pause after the 1024th raises, cap or no cap.\<close>

lemma doubling_overflows:
  "eb_get_delay (eb_default\<lparr>eb_max_attempts := 2000\<rparr>) u ((rc_init 2000 0)\<lparr>rc_attempt := 1024\<rparr>) = Inl overflow_error"
  by (simp add: eb_get_delay_Inl eb_default_def float_overflow_def)

text \<open>The pauses of a run in which every attempt fails.\<close>

lemma backoff_pauses:
  assumes "eb_jitter p = 0" "0 < eb_base_delay p" "0 < eb_multiplier p" "0 < eb_max_delay p"
    and "eb_retryable p = None" "eb_non_retryable p = []" "instance_of e [''Exception'']"
    and "\<forall>n < nat (eb_max_attempts p). \<not> float_overflow (eb_multiplier p ^ n)" "0 \<le> rc_attempt c"
  shows "\<exists>res. retry_loop (exponential p) draw (\<lambda>w. (Raised e :: 'v outcome, w)) c w = Some (Inr res, w) \<and>
    rc_slept (rr_context res) = rc_slept c @
      map (\<lambda>k. min (eb_base_delay p * eb_multiplier p ^ k) (eb_max_delay p))
        [Suc (nat (rc_attempt c))..<nat (max (rc_attempt c + 1) (eb_max_attempts p))]"
  using assms(9)
proof (induction "nat (eb_max_attempts p - rc_attempt c)" arbitrary: c rule: less_induct)
  case less
  have retry: "rs_should_retry (exponential p) (failed_ctx e c) \<longleftrightarrow> rc_attempt c + 1 < eb_max_attempts p"
    using assms by (simp add: exponential_def eb_should_retry_def)
  show ?case
  proof (cases "rc_attempt c + 1 < eb_max_attempts p")
    case True
    let ?d = "min (eb_base_delay p * eb_multiplier p ^ nat (rc_attempt c + 1)) (eb_max_delay p)"
    let ?c = "paused_ctx ?d e c"
    have d: "0 < ?d" using assms(2-4) by simp
    have "\<not> float_overflow (eb_multiplier p ^ nat (rc_attempt c + 1))" using assms(8) True less.prems by simp
    then have delay: "rs_get_delay (exponential p) u (failed_ctx e c) = Inr ?d" for u
      using d assms(1) less.prems by (simp add: exponential_def eb_get_delay_def float_pow_nonneg Let_def)
    have slept: "rc_slept ?c = rc_slept c @ [?d]" using d by (simp add: paused_ctx_def sleep_for_def record_delay_def)
    have "nat (eb_max_attempts p - rc_attempt ?c) < nat (eb_max_attempts p - rc_attempt c)" "0 \<le> rc_attempt ?c"
      using True less.prems by auto
    from less.hyps [OF this] obtain res where
      res: "retry_loop (exponential p) draw (\<lambda>w. (Raised e :: 'v outcome, w)) ?c w = Some (Inr res, w)"
        "rc_slept (rr_context res) = rc_slept ?c @
          map (\<lambda>k. min (eb_base_delay p * eb_multiplier p ^ k) (eb_max_delay p))
            [Suc (nat (rc_attempt ?c))..<nat (max (rc_attempt ?c + 1) (eb_max_attempts p))]" by blast
    have "[Suc (nat (rc_attempt c))..<nat (eb_max_attempts p)] =
        nat (rc_attempt c + 1) # [Suc (nat (rc_attempt c + 1))..<nat (eb_max_attempts p)]"
      using True less.prems by (simp add: upt_conv_Cons nat_add_distrib)
    with res slept retry delay True assms(7) show ?thesis by (simp add: retry_loop_Raised)
  next
    case False
    with retry assms(7) less.prems show ?thesis by (simp add: retry_loop_Raised nat_add_distrib)
  qed
qed

text \<open>The schedule without jitter: a call that fails every time pauses before attempt
  \<open>k + 1\<close> for the base delay times the multiplier to the power \<open>k\<close>, capped, as long as
  the powers are doubles. The first pause is thus the base delay times the multiplier, not the base delay itself.\<close>

theorem backoff_schedule:
  assumes "eb_jitter p = 0" "0 < eb_base_delay p" "0 < eb_multiplier p" "0 < eb_max_delay p"
    and "eb_retryable p = None" "eb_non_retryable p = []" "instance_of e [''Exception'']"
    and "\<forall>n < nat (eb_max_attempts p). \<not> float_overflow (eb_multiplier p ^ n)"
  shows "\<exists>res. execute_sync (exponential p) draw now (\<lambda>w. (Raised e :: 'v outcome, w)) w = Some (Inr res, w) \<and>
    rc_slept (rr_context res) =
      map (\<lambda>k. min (eb_base_delay p * eb_multiplier p ^ k) (eb_max_delay p)) [1..<nat (max 1 (eb_max_attempts p))]"
  using backoff_pauses [OF assms, of "rc_init (eb_max_attempts p) now" draw w, where 'v = 'v]
  by (simp add: execute_sync_def exponential_def rc_init_def)

theorem backoff_schedule_witness:
  "\<exists>res. execute_sync (exponential (eb_default\<lparr>eb_jitter := 0\<rparr>)) (\<lambda>_. 0) 0 (\<lambda>w. (Raised timeout_error :: unit outcome, w)) ()
     = Some (Inr res, ()) \<and> rc_slept (rr_context res) = [2, 4]"
proof -
  have "\<not> float_overflow (2 ^ n)" if "n < 3" for n :: nat
    using power_increasing [of n 3 "2 :: real"] that by (simp add: float_overflow_def)
  with backoff_schedule [of "eb_default\<lparr>eb_jitter := 0\<rparr>" timeout_error "\<lambda>_. 0" 0 "()", where 'v = unit]
  show ?thesis by (simp add: eb_default_def timeout_error_def instance_of_def upt_rec)
qed

end
