(* ===== verification/Rbac.thy ===== *)
theory Rbac
  imports Prelude
begin

text \<open>
  Role-based access control of \<^verbatim>\<open>victor/security/auth/rbac.py\<close>, with the access modes of
  \<^verbatim>\<open>victor/tools/enums.py\<close>. Roles, users and their sets are values; the manager is a record,
  its public methods are functions on it (each runs under the manager's lock, so calls are
  atomic). A configuration is the parsed document as it comes, with values of any type, and
  loading it may raise on the way. Characters are those of Latin-1.
\<close>

section \<open>Permissions, roles and users\<close>

datatype AccessMode = READONLY | WRITE_MODE | EXECUTE_MODE | NETWORK_MODE | MIXED

definition requires_approval :: "AccessMode \<Rightarrow> bool" where
  "requires_approval a \<longleftrightarrow> a \<in> set [WRITE_MODE, EXECUTE_MODE, MIXED]"

definition is_safe :: "AccessMode \<Rightarrow> bool" where
  "is_safe a \<longleftrightarrow> a = READONLY"

primrec approval_level :: "AccessMode \<Rightarrow> int" where
  "approval_level READONLY = 0"
| "approval_level NETWORK_MODE = 1"
| "approval_level WRITE_MODE = 2"
| "approval_level EXECUTE_MODE = 3"
| "approval_level MIXED = 3"

datatype Permission = READ | WRITE | EXECUTE | NETWORK | ADMIN | TOOL_MANAGE | USER_MANAGE

definition permissions_all :: "Permission list" where
  "permissions_all = [READ, WRITE, EXECUTE, NETWORK, ADMIN, TOOL_MANAGE, USER_MANAGE]"

primrec perm_name :: "Permission \<Rightarrow> string" where
  "perm_name READ = ''READ''"
| "perm_name WRITE = ''WRITE''"
| "perm_name EXECUTE = ''EXECUTE''"
| "perm_name NETWORK = ''NETWORK''"
| "perm_name ADMIN = ''ADMIN''"
| "perm_name TOOL_MANAGE = ''TOOL_MANAGE''"
| "perm_name USER_MANAGE = ''USER_MANAGE''"

primrec perm_value :: "Permission \<Rightarrow> string" where
  "perm_value READ = ''read''"
| "perm_value WRITE = ''write''"
| "perm_value EXECUTE = ''execute''"
| "perm_value NETWORK = ''network''"
| "perm_value ADMIN = ''admin''"
| "perm_value TOOL_MANAGE = ''tool_manage''"
| "perm_value USER_MANAGE = ''user_manage''"

primrec from_access_mode :: "AccessMode \<Rightarrow> Permission" where
  "from_access_mode READONLY = READ"
| "from_access_mode WRITE_MODE = WRITE"
| "from_access_mode EXECUTE_MODE = EXECUTE"
| "from_access_mode NETWORK_MODE = NETWORK"
| "from_access_mode MIXED = ADMIN"

record Role =
  r_name :: string
  r_permissions :: "Permission set"
  r_allowed_categories :: "pyval set"
  r_denied_tools :: "pyval set"

definition role_has_permission :: "Role \<Rightarrow> Permission \<Rightarrow> bool" where
  "role_has_permission r p = (if ADMIN \<in> r_permissions r then True else p \<in> r_permissions r)"

definition can_access_category :: "Role \<Rightarrow> string \<Rightarrow> bool" where
  "can_access_category r category =
     (if r_allowed_categories r = {} then True else VStr category \<in> r_allowed_categories r)"

definition role_can_use_tool :: "Role \<Rightarrow> string \<Rightarrow> string \<Rightarrow> bool" where
  "role_can_use_tool r tool category =
     (if VStr tool \<in> r_denied_tools r then False else can_access_category r category)"

record User =
  u_name :: string
  u_roles :: "Role set"
  u_metadata :: pyval

definition get_effective_permissions :: "User \<Rightarrow> Permission set" where
  "get_effective_permissions u = (\<Union>r \<in> u_roles u. r_permissions r)"

definition user_has_permission :: "User \<Rightarrow> Permission \<Rightarrow> bool" where
  "user_has_permission u p \<longleftrightarrow> (\<exists>r \<in> u_roles u. role_has_permission r p)"

definition user_can_use_tool :: "User \<Rightarrow> string \<Rightarrow> string \<Rightarrow> Permission \<Rightarrow> bool" where
  "user_can_use_tool u tool category p \<longleftrightarrow>
     (\<exists>r \<in> u_roles u. role_has_permission r p \<and> role_can_use_tool r tool category)"

section \<open>The manager\<close>

record RBACManager =
  rb_enabled :: bool
  rb_default_role :: pyval
  rb_allow_unknown :: bool
  rb_fail_open :: bool
  rb_roles :: "(string, Role) dict"
  rb_users :: "(string, User) dict"
  rb_current_user :: "string option"

definition plain_role :: "string \<Rightarrow> Permission set \<Rightarrow> Role" where
  "plain_role name ps = \<lparr>r_name = name, r_permissions = ps, r_allowed_categories = {}, r_denied_tools = {}\<rparr>"

definition PREDEFINED_ROLES :: "(string, Role) dict" where
  "PREDEFINED_ROLES =
     [(''admin'', plain_role ''admin'' {ADMIN}),
      (''developer'', plain_role ''developer'' {READ, WRITE, EXECUTE}),
      (''operator'', plain_role ''operator'' {READ, EXECUTE, NETWORK}),
      (''viewer'', plain_role ''viewer'' {READ})]"

definition rbac_init :: "bool \<Rightarrow> string \<Rightarrow> bool \<Rightarrow> bool \<Rightarrow> RBACManager" where
  "rbac_init enabled default_role allow_unknown fail_open =
     \<lparr>rb_enabled = enabled, rb_default_role = VStr default_role, rb_allow_unknown = allow_unknown,
      rb_fail_open = fail_open, rb_roles = PREDEFINED_ROLES, rb_users = [], rb_current_user = None\<rparr>"

definition enable :: "RBACManager \<Rightarrow> RBACManager" where
  "enable m = m\<lparr>rb_enabled := True\<rparr>"

definition disable :: "RBACManager \<Rightarrow> RBACManager" where
  "disable m = m\<lparr>rb_enabled := False\<rparr>"

definition set_current_user :: "string option \<Rightarrow> RBACManager \<Rightarrow> RBACManager" where
  "set_current_user u m = m\<lparr>rb_current_user := u\<rparr>"

definition add_role :: "Role \<Rightarrow> RBACManager \<Rightarrow> RBACManager" where
  "add_role r m = m\<lparr>rb_roles := dict_set (r_name r) r (rb_roles m)\<rparr>"

definition get_role :: "RBACManager \<Rightarrow> string \<Rightarrow> Role option" where
  "get_role m name = dict_get (rb_roles m) name"

definition add_user :: "User \<Rightarrow> RBACManager \<Rightarrow> RBACManager" where
  "add_user u m = m\<lparr>rb_users := dict_set (u_name u) u (rb_users m)\<rparr>"

text \<open>
  The default role as a configuration gives it; a value that is not a string names no role (a list or
  a mapping would raise at the lookup, which is left out).
\<close>

definition default_role :: "RBACManager \<Rightarrow> Role option" where
  "default_role m = (case rb_default_role m of VStr n \<Rightarrow> get_role m n | _ \<Rightarrow> None)"

definition get_user :: "RBACManager \<Rightarrow> string \<Rightarrow> User option" where
  "get_user m name =
     (case dict_get (rb_users m) name of
        Some u \<Rightarrow> Some u
      | None \<Rightarrow>
          (if rb_allow_unknown m
           then map_option (\<lambda>r. \<lparr>u_name = name, u_roles = {r}, u_metadata = VDict []\<rparr>) (default_role m)
           else None))"

definition check_permission :: "RBACManager \<Rightarrow> string \<Rightarrow> Permission \<Rightarrow> bool" where
  "check_permission m username p =
     (if \<not> rb_enabled m then rb_fail_open m
      else case get_user m username of None \<Rightarrow> False | Some u \<Rightarrow> user_has_permission u p)"

definition check_tool_access :: "RBACManager \<Rightarrow> string \<Rightarrow> string \<Rightarrow> string \<Rightarrow> AccessMode \<Rightarrow> bool" where
  "check_tool_access m username tool category a =
     (if \<not> rb_enabled m then rb_fail_open m
      else case get_user m username of
          None \<Rightarrow> False
        | Some u \<Rightarrow> user_can_use_tool u tool category (from_access_mode a))"

definition check_current_user_tool_access :: "RBACManager \<Rightarrow> string \<Rightarrow> string \<Rightarrow> AccessMode \<Rightarrow> bool" where
  "check_current_user_tool_access m tool category a =
     (if \<not> rb_enabled m then rb_fail_open m
      else case rb_current_user m of
          None \<Rightarrow> rb_allow_unknown m
        | Some u \<Rightarrow> check_tool_access m u tool category a)"

record rbac_stats =
  st_enabled :: bool
  st_roles_count :: nat
  st_users_count :: nat
  st_default_role :: pyval
  st_allow_unknown_users :: bool
  st_current_user :: "string option"

definition rbac_get_stats :: "RBACManager \<Rightarrow> rbac_stats" where
  "rbac_get_stats m =
     \<lparr>st_enabled = rb_enabled m, st_roles_count = length (rb_roles m), st_users_count = length (rb_users m),
      st_default_role = rb_default_role m, st_allow_unknown_users = rb_allow_unknown m,
      st_current_user = rb_current_user m\<rparr>"

section \<open>Configurations\<close>

text \<open>\<^verbatim>\<open>Permission(value)\<close>.\<close>

definition permission_of :: "string \<Rightarrow> Permission result" where
  "permission_of v =
     (case find (\<lambda>p. perm_value p = v) permissions_all of
        Some p \<Rightarrow> Inr p
      | None \<Rightarrow> Inl (PyExc ''ValueError'' (repr_str v @ '' is not a valid Permission'')))"

definition add_permission :: "pyval \<Rightarrow> Permission set \<Rightarrow> Permission set result" where
  "add_permission v ps =
     (case v of
        VStr s \<Rightarrow>
          (if py_upper s \<in> perm_name ` set permissions_all
           then bind_result (permission_of (py_lower s)) (\<lambda>p. Inr (insert p ps)) else Inr ps)
      | _ \<Rightarrow> Inl (no_attribute v ''upper''))"

definition parse_permissions :: "pyval \<Rightarrow> Permission set result" where
  "parse_permissions v = bind_result (iterate v) (\<lambda>xs. fold_result add_permission xs {})"

text \<open>\<^verbatim>\<open>frozenset(v)\<close>.\<close>

definition frozenset_of :: "pyval \<Rightarrow> pyval set result" where
  "frozenset_of v = bind_result (iterate v) (\<lambda>xs.
     fold_result (\<lambda>x S. bind_result (dict_key x) (\<lambda>k. Inr (insert k S))) xs {})"

definition mapping_of :: "string \<Rightarrow> pyval \<Rightarrow> state result" where
  "mapping_of attr v = (case v of VDict d \<Rightarrow> Inr d | _ \<Rightarrow> Inl (no_attribute v attr))"

definition read_role :: "string \<Rightarrow> pyval \<Rightarrow> Role result" where
  "read_role name v =
     bind_result (mapping_of ''get'' v) (\<lambda>d.
     bind_result (parse_permissions (dict_get_or d ''permissions'' (VList []))) (\<lambda>ps.
     bind_result (frozenset_of (dict_get_or d ''tool_categories'' (VList []))) (\<lambda>cs.
     bind_result (frozenset_of (dict_get_or d ''denied_tools'' (VList []))) (\<lambda>ts.
       Inr \<lparr>r_name = name, r_permissions = ps, r_allowed_categories = cs, r_denied_tools = ts\<rparr>))))"

definition read_user :: "(string, Role) dict \<Rightarrow> string \<Rightarrow> pyval \<Rightarrow> User result" where
  "read_user roles name v =
     bind_result (mapping_of ''get'' v) (\<lambda>d.
     bind_result (iterate (dict_get_or d ''roles'' (VList []))) (\<lambda>rns.
     bind_result (fold_result (\<lambda>rn rs. bind_result (dict_key rn) (\<lambda>k.
         Inr (case k of VStr n \<Rightarrow> (case dict_get roles n of Some r \<Rightarrow> insert r rs | None \<Rightarrow> rs) | _ \<Rightarrow> rs))) rns {}) (\<lambda>rs.
       Inr \<lparr>u_name = name, u_roles = rs, u_metadata = dict_get_or d ''metadata'' (VDict [])\<rparr>)))"

text \<open>The loops over the two sections. What was loaded before an exception stays.\<close>

fun load_roles :: "(string \<times> pyval) list \<Rightarrow> RBACManager \<Rightarrow> unit result \<times> RBACManager" where
  "load_roles [] m = (Inr (), m)"
| "load_roles ((n, v) # xs) m =
     (case read_role n v of
        Inl e \<Rightarrow> (Inl e, m)
      | Inr r \<Rightarrow> load_roles xs (m\<lparr>rb_roles := dict_set n r (rb_roles m)\<rparr>))"

fun load_users :: "(string \<times> pyval) list \<Rightarrow> RBACManager \<Rightarrow> unit result \<times> RBACManager" where
  "load_users [] m = (Inr (), m)"
| "load_users ((n, v) # xs) m =
     (case read_user (rb_roles m) n v of
        Inl e \<Rightarrow> (Inl e, m)
      | Inr u \<Rightarrow> load_users xs (m\<lparr>rb_users := dict_set n u (rb_users m)\<rparr>))"

definition load_settings :: "state \<Rightarrow> RBACManager \<Rightarrow> RBACManager" where
  "load_settings config m =
     m\<lparr>rb_enabled := py_truthy (dict_get_or config ''enabled'' (VBool True)),
       rb_default_role := dict_get_or config ''default_role'' (VStr ''viewer''),
       rb_allow_unknown := py_truthy (dict_get_or config ''allow_unknown_users'' (VBool True))\<rparr>"

definition load_from_dict :: "state \<Rightarrow> RBACManager \<Rightarrow> unit result \<times> RBACManager" where
  "load_from_dict config m =
     (let m = load_settings config m
      in case mapping_of ''items'' (dict_get_or config ''roles'' (VDict [])) of
          Inl e \<Rightarrow> (Inl e, m)
        | Inr rs \<Rightarrow>
            (case load_roles rs m of
               (Inl e, m) \<Rightarrow> (Inl e, m)
             | (Inr _, m) \<Rightarrow>
                 (case mapping_of ''items'' (dict_get_or config ''users'' (VDict [])) of
                    Inl e \<Rightarrow> (Inl e, m)
                  | Inr us \<Rightarrow> load_users us m)))"

text \<open>
  Reading the file and parsing it (the parameter) may raise; the document may hold the
  configuration under \<^verbatim>\<open>rbac\<close> or be the configuration.
\<close>

definition load_from_yaml :: "(string \<Rightarrow> pyval result) \<Rightarrow> string \<Rightarrow> RBACManager \<Rightarrow> unit result \<times> RBACManager" where
  "load_from_yaml read_yaml path m =
     (case bind_result (read_yaml path) (\<lambda>doc.
             bind_result (mapping_of ''get'' doc) (\<lambda>d. mapping_of ''get'' (dict_get_or d ''rbac'' doc))) of
        Inl e \<Rightarrow> (Inl e, m)
      | Inr config \<Rightarrow> load_from_dict config m)"

text \<open>
  The decorator: the manager and the user come as keyword arguments, which the function does
  not see.
\<close>

definition require_permission ::
  "Permission \<Rightarrow> string \<Rightarrow> ('a \<Rightarrow> 'v result) \<Rightarrow> RBACManager option \<Rightarrow> string option \<Rightarrow> 'a \<Rightarrow> 'v result" where
  "require_permission p func_name func manager username args =
     (case (manager, username) of
        (Some m, Some u) \<Rightarrow>
          (if rb_enabled m \<and> u \<noteq> [] \<and> \<not> check_permission m u p
           then Inl (PyExc ''PermissionError'' (''User '' @ quoted u @ '' lacks permission '' @
                  quoted (perm_value p) @ '' for '' @ func_name))
           else func args)
      | _ \<Rightarrow> func args)"

text \<open>The global instance.\<close>

definition get_rbac_manager :: "RBACManager option \<Rightarrow> RBACManager \<times> RBACManager option" where
  "get_rbac_manager global =
     (let m = (case global of Some m \<Rightarrow> m | None \<Rightarrow> rbac_init True ''viewer'' True False) in (m, Some m))"

definition set_rbac_manager :: "RBACManager \<Rightarrow> RBACManager option \<Rightarrow> RBACManager option" where
  "set_rbac_manager m global = Some m"

section \<open>Registries and invariant\<close>

interpretation role_registry: registry add_role get_role r_name
  by unfold_locales (simp add: add_role_def get_role_def dict_get_set)

interpretation user_registry: registry add_user "\<lambda>m. dict_get (rb_users m)" u_name
  by unfold_locales (simp add: add_user_def dict_get_set)

text \<open>Every name of Latin-1 characters that survives the filter has a value.\<close>

lemma permissions_all [simp]: "p \<in> set permissions_all"
  by (cases p) (simp_all add: permissions_all_def)

lemma lower_perm_name: "py_lower (perm_name p) = perm_value p"
proof -
  have "list_all (\<lambda>p. py_lower (perm_name p) = perm_value p) permissions_all" by code_simp
  then show ?thesis by (simp add: list_all_iff)
qed

lemma perm_value_inject [simp]: "perm_value p = perm_value q \<longleftrightarrow> p = q"
  by (cases p; cases q) simp_all

lemma permission_of_value: "permission_of (perm_value p) = Inr p"
  by (cases p) (simp_all add: permission_of_def permissions_all_def)

lemma perm_name_letters: "\<not> py_contains ''SS'' (perm_name p)"
proof -
  have "list_all (\<lambda>p. \<not> py_contains ''SS'' (perm_name p)) permissions_all" by code_simp
  then show ?thesis by (simp add: list_all_iff)
qed

lemma upper_perm_name: "py_upper s = perm_name p \<Longrightarrow> py_lower s = perm_value p"
  by (metis lower_perm_name lower_upper perm_name_letters upper_sharp_s)

lemma perm_name_inject [simp]: "perm_name p = perm_name q \<longleftrightarrow> p = q"
  by (metis lower_perm_name perm_value_inject)

section \<open>Well-formed configurations\<close>

text \<open>
  The shape that is documented: mappings for the sections and their entries, lists of strings in
  them. \<open>config_of\<close> reads such a document and gives \<open>None\<close> for any other.
\<close>

record role_data =
  rd_permissions :: "string list"
  rd_tool_categories :: "string list"
  rd_denied_tools :: "string list"

definition strings_of :: "pyval \<Rightarrow> string list option" where
  "strings_of v = (case v of VList xs \<Rightarrow> those (map (\<lambda>x. case x of VStr s \<Rightarrow> Some s | _ \<Rightarrow> None) xs) | _ \<Rightarrow> None)"

definition role_data_of :: "pyval \<Rightarrow> role_data option" where
  "role_data_of v =
     (case v of
        VDict d \<Rightarrow>
          (case (strings_of (dict_get_or d ''permissions'' (VList [])), strings_of (dict_get_or d ''tool_categories'' (VList [])),
                 strings_of (dict_get_or d ''denied_tools'' (VList []))) of
             (Some ps, Some cs, Some ts) \<Rightarrow> Some \<lparr>rd_permissions = ps, rd_tool_categories = cs, rd_denied_tools = ts\<rparr>
           | _ \<Rightarrow> None)
      | _ \<Rightarrow> None)"

definition user_roles_of :: "pyval \<Rightarrow> string list option" where
  "user_roles_of v = (case v of VDict d \<Rightarrow> strings_of (dict_get_or d ''roles'' (VList [])) | _ \<Rightarrow> None)"

definition section_of :: "(pyval \<Rightarrow> 'a option) \<Rightarrow> pyval \<Rightarrow> (string, 'a) dict option" where
  "section_of f v = (case v of VDict d \<Rightarrow> those (map (\<lambda>p. map_option (Pair (fst p)) (f (snd p))) d) | _ \<Rightarrow> None)"

lemma strings_of_list: "strings_of v = Some ss \<longleftrightarrow> v = VList (map VStr ss)"
proof -
  have "those (map (\<lambda>x. case x of VStr s \<Rightarrow> Some s | _ \<Rightarrow> None) xs) = Some ss \<longleftrightarrow> xs = map VStr ss" for xs
    by (induction xs arbitrary: ss) (auto split: pyval.splits simp: Cons_eq_map_conv)
  then show ?thesis by (auto simp: strings_of_def split: pyval.splits)
qed

lemma parse_strings: "parse_permissions (VList (map VStr ss)) = Inr {p. \<exists>s \<in> set ss. py_upper s = perm_name p}"
proof -
  have "fold_result add_permission (map VStr ss) ps = Inr (ps \<union> {p. \<exists>s \<in> set ss. py_upper s = perm_name p})" for ps
  proof (induction ss arbitrary: ps)
    case (Cons s ss)
    show ?case
    proof (cases "py_upper s \<in> range perm_name")
      case True
      then obtain p where p: "py_upper s = perm_name p" by blast
      then have "permission_of (py_lower s) = Inr p" by (simp add: upper_perm_name permission_of_value)
      moreover have "insert p ps \<union> {p. \<exists>s \<in> set ss. py_upper s = perm_name p} =
          ps \<union> {q. \<exists>t \<in> set (s # ss). py_upper t = perm_name q}" using p by auto
      ultimately show ?thesis using Cons p by (simp add: add_permission_def)
    next
      case False
      then have "{p. \<exists>t \<in> set (s # ss). py_upper t = perm_name p} = {p. \<exists>t \<in> set ss. py_upper t = perm_name p}" by auto
      moreover have "py_upper s \<notin> perm_name ` set permissions_all" using False by blast
      ultimately show ?thesis using Cons by (simp add: add_permission_def)
    qed
  qed simp
  then show ?thesis by (simp add: parse_permissions_def iterate_def)
qed

lemma frozenset_strings: "frozenset_of (VList (map VStr ss)) = Inr (VStr ` set ss)"
proof -
  have "fold_result (\<lambda>x S. bind_result (dict_key x) (\<lambda>k. Inr (insert k S))) (map VStr ss) S = Inr (S \<union> VStr ` set ss)" for S
    by (induction ss arbitrary: S) auto
  then show ?thesis by (simp add: frozenset_of_def iterate_def)
qed

text \<open>The role and the user that entries of this shape describe.\<close>

definition role_of :: "string \<Rightarrow> role_data \<Rightarrow> Role" where
  "role_of name rd =
     \<lparr>r_name = name, r_permissions = {p. \<exists>s \<in> set (rd_permissions rd). py_upper s = perm_name p},
      r_allowed_categories = VStr ` set (rd_tool_categories rd), r_denied_tools = VStr ` set (rd_denied_tools rd)\<rparr>"

lemma read_role_eq: "role_data_of v = Some rd \<Longrightarrow> read_role name v = Inr (role_of name rd)"
  by (auto simp: role_data_of_def read_role_def mapping_of_def strings_of_list parse_strings frozenset_strings role_of_def
      split: pyval.splits option.splits)

lemma read_user_eq:
  assumes "user_roles_of v = Some rns"
  shows "\<exists>u. read_user roles name v = Inr u \<and> u_name u = name \<and> u_roles u = {r. \<exists>rn \<in> set rns. dict_get roles rn = Some r}"
proof -
  have "fold_result (\<lambda>rn rs. bind_result (dict_key rn) (\<lambda>k.
         Inr (case k of VStr n \<Rightarrow> (case dict_get roles n of Some r \<Rightarrow> insert r rs | None \<Rightarrow> rs) | _ \<Rightarrow> rs))) (map VStr rns) rs
      = Inr (rs \<union> {r. \<exists>rn \<in> set rns. dict_get roles rn = Some r})" for rs
    by (induction rns arbitrary: rs) (auto split: option.splits)
  then show ?thesis using assms
    by (auto simp: user_roles_of_def read_user_def mapping_of_def strings_of_list iterate_def split: pyval.splits)
qed

lemma section_of_get:
  assumes "section_of f v = Some e"
  obtains d where "v = VDict d" "map fst d = map fst e" "\<forall>k. map_option f (dict_get d k) = map_option Some (dict_get e k)"
    "\<forall>p \<in> set d. f (snd p) \<noteq> None"
proof -
  obtain d where d: "v = VDict d" "those (map (\<lambda>p. map_option (Pair (fst p)) (f (snd p))) d) = Some e"
    using assms by (auto simp: section_of_def split: pyval.splits)
  have "map fst d = map fst e \<and> (\<forall>k. map_option f (dict_get d k) = map_option Some (dict_get e k)) \<and>
      (\<forall>p \<in> set d. f (snd p) \<noteq> None)"
    using d(2) by (induction d arbitrary: e) (auto split: option.splits)
  with d(1) that show thesis by blast
qed

lemma load_roles_get:
  assumes "\<forall>p \<in> set d. role_data_of (snd p) \<noteq> None" "dict_ok d"
  shows "\<exists>m'. load_roles d m = (Inr (), m') \<and> rb_enabled m' = rb_enabled m \<and> rb_users m' = rb_users m \<and>
    (\<forall>n. dict_get (rb_roles m') n =
       (case dict_get d n of Some x \<Rightarrow> Some (role_of n (the (role_data_of x))) | None \<Rightarrow> dict_get (rb_roles m) n))"
  using assms
proof (induction d arbitrary: m)
  case (Cons p d)
  obtain k x where p: "p = (k, x)" by (cases p)
  obtain rd where rd: "role_data_of x = Some rd" using Cons.prems(1) p by auto
  let ?m = "m\<lparr>rb_roles := dict_set k (role_of k rd) (rb_roles m)\<rparr>"
  have "dict_get d k = None" using Cons.prems(2) p by (auto simp: dict_ok_def map_of_eq_None_iff)
  moreover obtain m' where "load_roles d ?m = (Inr (), m')" "rb_enabled m' = rb_enabled ?m" "rb_users m' = rb_users ?m"
    "\<forall>n. dict_get (rb_roles m') n =
       (case dict_get d n of Some x \<Rightarrow> Some (role_of n (the (role_data_of x))) | None \<Rightarrow> dict_get (rb_roles ?m) n)"
    using Cons.IH [of ?m] Cons.prems p unfolding dict_ok_def by auto
  ultimately show ?case using p rd by (auto simp: read_role_eq dict_get_set split: option.splits)
qed simp

lemma load_users_get:
  assumes "\<forall>p \<in> set d. user_roles_of (snd p) \<noteq> None" "dict_ok d"
  shows "\<exists>m'. load_users d m = (Inr (), m') \<and> rb_enabled m' = rb_enabled m \<and> rb_roles m' = rb_roles m \<and>
    (\<forall>n x. dict_get d n = Some x \<longrightarrow> (\<exists>u. dict_get (rb_users m') n = Some u \<and>
       u_roles u = {r. \<exists>rn \<in> set (the (user_roles_of x)). dict_get (rb_roles m) rn = Some r})) \<and>
    (\<forall>n. dict_get d n = None \<longrightarrow> dict_get (rb_users m') n = dict_get (rb_users m) n)"
  using assms
proof (induction d arbitrary: m)
  case (Cons p d)
  obtain k x where p: "p = (k, x)" by (cases p)
  obtain rns where rns: "user_roles_of x = Some rns" using Cons.prems(1) p by auto
  obtain u where u: "read_user (rb_roles m) k x = Inr u"
    "u_roles u = {r. \<exists>rn \<in> set rns. dict_get (rb_roles m) rn = Some r}"
    using read_user_eq [OF rns] by blast
  let ?m = "m\<lparr>rb_users := dict_set k u (rb_users m)\<rparr>"
  have k: "dict_get d k = None" using Cons.prems(2) p by (auto simp: dict_ok_def map_of_eq_None_iff)
  obtain m' where m': "load_users d ?m = (Inr (), m')" "rb_enabled m' = rb_enabled ?m" "rb_roles m' = rb_roles ?m"
    "\<forall>n x. dict_get d n = Some x \<longrightarrow> (\<exists>u. dict_get (rb_users m') n = Some u \<and>
       u_roles u = {r. \<exists>rn \<in> set (the (user_roles_of x)). dict_get (rb_roles ?m) rn = Some r})"
    "\<forall>n. dict_get d n = None \<longrightarrow> dict_get (rb_users m') n = dict_get (rb_users ?m) n"
  proof -
    have "\<forall>p \<in> set d. user_roles_of (snd p) \<noteq> None" "dict_ok d" using Cons.prems by (auto simp: dict_ok_def)
    from Cons.IH [OF this, of ?m] that show thesis by blast
  qed
  have "dict_get (rb_users m') k = Some u" using m'(5) k by (simp add: dict_get_set)
  with m' p u rns k show ?case by (auto simp: dict_get_set)
qed simp

text \<open>The role behind a name after loading: the one the configuration describes, or one known before.\<close>

definition known_role :: "(string, role_data) dict \<Rightarrow> RBACManager \<Rightarrow> string \<Rightarrow> Role option" where
  "known_role roles m n = (case dict_get roles n of Some rd \<Rightarrow> Some (role_of n rd) | None \<Rightarrow> dict_get (rb_roles m) n)"

lemma load_well_formed:
  assumes "section_of role_data_of (dict_get_or config ''roles'' (VDict [])) = Some roles"
    and "section_of user_roles_of (dict_get_or config ''users'' (VDict [])) = Some users"
    and "dict_ok roles" "dict_ok users" "py_truthy (dict_get_or config ''enabled'' (VBool True))"
    and "dict_get users user = Some rns"
  shows "\<exists>m' u. load_from_dict config m = (Inr (), m') \<and> rb_enabled m' \<and> dict_get (rb_users m') user = Some u \<and>
    u_roles u = {r. \<exists>rn \<in> set rns. known_role roles m rn = Some r}"
proof -
  let ?m = "load_settings config m"
  obtain d where d: "dict_get_or config ''roles'' (VDict []) = VDict d" "map fst d = map fst roles"
    "\<forall>k. map_option role_data_of (dict_get d k) = map_option Some (dict_get roles k)" "\<forall>p \<in> set d. role_data_of (snd p) \<noteq> None"
    using section_of_get [OF assms(1)] by blast
  obtain e where e: "dict_get_or config ''users'' (VDict []) = VDict e" "map fst e = map fst users"
    "\<forall>k. map_option user_roles_of (dict_get e k) = map_option Some (dict_get users k)" "\<forall>p \<in> set e. user_roles_of (snd p) \<noteq> None"
    using section_of_get [OF assms(2)] by blast
  have ok: "dict_ok d" "dict_ok e" using d(2) e(2) assms(3,4) by (simp_all add: dict_ok_def)
  obtain m1 where m1: "load_roles d ?m = (Inr (), m1)" "rb_enabled m1 = rb_enabled ?m"
    "\<forall>n. dict_get (rb_roles m1) n = (case dict_get d n of Some x \<Rightarrow> Some (role_of n (the (role_data_of x))) | None \<Rightarrow> dict_get (rb_roles ?m) n)"
    using load_roles_get [OF d(4) ok(1), of ?m] by blast
  have roles: "dict_get (rb_roles m1) n = known_role roles m n" for n
    using m1(3) d(3) [rule_format, of n] by (auto simp: known_role_def load_settings_def split: option.splits)
  obtain x where x: "dict_get e user = Some x" "user_roles_of x = Some rns"
    using e(3) [rule_format, of user] assms(6) by (cases "dict_get e user") auto
  obtain m2 u where m2: "load_users e m1 = (Inr (), m2)" "rb_enabled m2 = rb_enabled m1" "dict_get (rb_users m2) user = Some u"
    "u_roles u = {r. \<exists>rn \<in> set rns. dict_get (rb_roles m1) rn = Some r}"
    using load_users_get [OF e(4) ok(2), of m1] x by fastforce
  have "load_from_dict config m = (Inr (), m2)" using d(1) e(1) m1(1) m2(1) by (simp add: load_from_dict_def mapping_of_def)
  moreover have "rb_enabled m2" using m1(2) m2(2) assms(5) by (simp add: load_settings_def)
  ultimately show ?thesis using m2(3,4) roles by auto
qed

text \<open>The manager stays in order: roles and users are stored under their own names.\<close>

definition rbac_ok :: "RBACManager \<Rightarrow> bool" where
  "rbac_ok m \<longleftrightarrow> dict_ok (rb_roles m) \<and> dict_ok (rb_users m) \<and>
     (\<forall>n r. dict_get (rb_roles m) n = Some r \<longrightarrow> r_name r = n) \<and>
     (\<forall>n u. dict_get (rb_users m) n = Some u \<longrightarrow> u_name u = n)"

datatype rbac_call =
    Enable
  | Disable
  | Set_current_user "string option"
  | Add_role Role
  | Add_user User
  | Load state

fun rbac_step :: "rbac_call \<Rightarrow> RBACManager \<Rightarrow> RBACManager" where
  "rbac_step Enable m = enable m"
| "rbac_step Disable m = disable m"
| "rbac_step (Set_current_user u) m = set_current_user u m"
| "rbac_step (Add_role r) m = add_role r m"
| "rbac_step (Add_user u) m = add_user u m"
| "rbac_step (Load config) m = snd (load_from_dict config m)"

lemma rbac_ok_put_role: "rbac_ok m \<Longrightarrow> rbac_ok (m\<lparr>rb_roles := dict_set (r_name r) r (rb_roles m)\<rparr>)"
  by (auto simp: rbac_ok_def dict_get_set split: if_splits)

lemma rbac_ok_put_user: "rbac_ok m \<Longrightarrow> rbac_ok (m\<lparr>rb_users := dict_set (u_name u) u (rb_users m)\<rparr>)"
  by (auto simp: rbac_ok_def dict_get_set split: if_splits)

lemma read_names: "read_role n v = Inr r \<Longrightarrow> r_name r = n" "read_user roles n v = Inr u \<Longrightarrow> u_name u = n"
  by (auto simp: read_role_def read_user_def bind_result_eq_Inr)

lemma load_roles_ok: "rbac_ok m \<Longrightarrow> rbac_ok (snd (load_roles xs m))"
proof (induction xs m rule: load_roles.induct)
  case (2 n v xs m)
  then show ?case using rbac_ok_put_role [of m] read_names(1) [of n v] by (auto split: sum.splits)
qed simp

lemma load_users_ok: "rbac_ok m \<Longrightarrow> rbac_ok (snd (load_users xs m))"
proof (induction xs m rule: load_users.induct)
  case (2 n v xs m)
  then show ?case using rbac_ok_put_user [of m] read_names(2) [of "rb_roles m" n v] by (auto split: sum.splits)
qed simp

lemma load_from_dict_ok: "rbac_ok m \<Longrightarrow> rbac_ok (snd (load_from_dict config m))"
proof -
  assume "rbac_ok m"
  then have ok: "rbac_ok (load_settings config m)" by (simp add: rbac_ok_def load_settings_def)
  show ?thesis using ok load_roles_ok load_users_ok
    by (auto simp: load_from_dict_def Let_def split: sum.splits prod.splits) (metis snd_conv)+
qed

interpretation rbac_run: invariant_machine rbac_step rbac_ok
proof
  fix m e assume m: "rbac_ok m"
  show "rbac_ok (rbac_step e m)"
  proof (cases e)
    case (Load cfg)
    with m show ?thesis by (simp add: load_from_dict_ok)
  qed (use m in \<open>auto simp: enable_def disable_def set_current_user_def add_role_def add_user_def
      rbac_ok_put_role rbac_ok_put_user, auto simp: rbac_ok_def\<close>)
qed

section \<open>What access control promises\<close>

text \<open>C32. The meaning of a configuration. For a configuration that does not disable access control, whose sections \<^verbatim>\<open>roles\<close> and \<^verbatim>\<open>users\<close>
  and their entries are mappings (or absent, not null) and give permissions, categories, denied tools and role names as lists of
  strings of Latin-1 characters, loading succeeds, and then a listed user has a permission exactly when one of the
  user's roles names it or \<^verbatim>\<open>admin\<close> in its list (in any case of letters), or is a role known before that has it; and may use a tool
  exactly when such a role does not deny the tool and is open to its category.\<close>

theorem config_semantics:
  assumes "section_of role_data_of (dict_get_or config ''roles'' (VDict [])) = Some roles"
    and "section_of user_roles_of (dict_get_or config ''users'' (VDict [])) = Some users"
    and "dict_ok roles" "dict_ok users" "py_truthy (dict_get_or config ''enabled'' (VBool True))"
    and "dict_get users user = Some rns"
  shows "\<exists>m'. load_from_dict config m = (Inr (), m') \<and>
    (\<forall>p. check_permission m' user p \<longleftrightarrow> (\<exists>rn \<in> set rns.
       case dict_get roles rn of
         Some rd \<Rightarrow> \<exists>s \<in> set (rd_permissions rd). py_upper s \<in> {perm_name p, ''ADMIN''}
       | None \<Rightarrow> \<exists>r. get_role m rn = Some r \<and> role_has_permission r p)) \<and>
    (\<forall>tool category a. check_tool_access m' user tool category a \<longleftrightarrow> (\<exists>rn \<in> set rns.
       case dict_get roles rn of
         Some rd \<Rightarrow> (\<exists>s \<in> set (rd_permissions rd). py_upper s \<in> {perm_name (from_access_mode a), ''ADMIN''}) \<and>
           tool \<notin> set (rd_denied_tools rd) \<and> (rd_tool_categories rd = [] \<or> category \<in> set (rd_tool_categories rd))
       | None \<Rightarrow> \<exists>r. get_role m rn = Some r \<and> role_has_permission r (from_access_mode a) \<and>
           role_can_use_tool r tool category))"
proof -
  obtain m' u where m': "load_from_dict config m = (Inr (), m')" "rb_enabled m'" "dict_get (rb_users m') user = Some u"
    "u_roles u = {r. \<exists>rn \<in> set rns. known_role roles m rn = Some r}"
    using load_well_formed [OF assms] by blast
  have u: "get_user m' user = Some u" using m'(3) by (simp add: get_user_def)
  have has: "role_has_permission (role_of n rd) p \<longleftrightarrow>
      (\<exists>s \<in> set (rd_permissions rd). py_upper s \<in> {perm_name p, ''ADMIN''})" for n rd p
    using perm_name.simps(5) by (auto simp: role_has_permission_def role_of_def)
  have tool: "role_can_use_tool (role_of n rd) tool category \<longleftrightarrow> tool \<notin> set (rd_denied_tools rd) \<and>
      (rd_tool_categories rd = [] \<or> category \<in> set (rd_tool_categories rd))" for n rd tool category
    by (auto simp: role_can_use_tool_def can_access_category_def role_of_def)
  have ex: "(\<exists>r \<in> u_roles u. P r) \<longleftrightarrow> (\<exists>rn \<in> set rns.
      case dict_get roles rn of Some rd \<Rightarrow> P (role_of rn rd) | None \<Rightarrow> \<exists>r. get_role m rn = Some r \<and> P r)" for P
  proof -
    have "(\<exists>r \<in> u_roles u. P r) \<longleftrightarrow> (\<exists>rn \<in> set rns. \<exists>r. known_role roles m rn = Some r \<and> P r)" unfolding m'(4) by blast
    moreover have "(\<exists>r. known_role roles m rn = Some r \<and> P r) \<longleftrightarrow>
        (case dict_get roles rn of Some rd \<Rightarrow> P (role_of rn rd) | None \<Rightarrow> \<exists>r. get_role m rn = Some r \<and> P r)" for rn
      by (simp add: known_role_def get_role_def split: option.split)
    ultimately show ?thesis by simp
  qed
  show ?thesis
    using m'(1,2) u by (simp add: check_permission_def check_tool_access_def user_has_permission_def
        user_can_use_tool_def ex has tool cong: option.case_cong)
qed

definition sample_rbac_config :: state where
  "sample_rbac_config =
     [(''enabled'', VBool True),
      (''roles'', VDict [(''dev'', VDict [(''permissions'', VList [VStr ''Read'', VStr ''WRITE'', VStr ''fly'']),
         (''tool_categories'', VList [VStr ''git'']), (''denied_tools'', VList [VStr ''push''])])]),
      (''users'', VDict [(''bob'', VDict [(''roles'', VList [VStr ''dev'', VStr ''ghost''])])])]"

theorem config_semantics_witness:
  "\<exists>m'. load_from_dict sample_rbac_config (rbac_init True ''viewer'' True False) = (Inr (), m') \<and>
     check_permission m' ''bob'' WRITE \<and> \<not> check_permission m' ''bob'' NETWORK \<and>
     check_tool_access m' ''bob'' ''commit'' ''git'' WRITE_MODE \<and>
     \<not> check_tool_access m' ''bob'' ''push'' ''git'' WRITE_MODE"
proof -
  let ?rd = "\<lparr>rd_permissions = [''Read'', ''WRITE'', ''fly''], rd_tool_categories = [''git''], rd_denied_tools = [''push'']\<rparr>"
  have up: "py_upper ''Read'' = ''READ''" "py_upper ''WRITE'' = ''WRITE''" "py_upper ''fly'' = ''FLY''"
    by code_simp+
  have shape: "section_of role_data_of (dict_get_or sample_rbac_config ''roles'' (VDict [])) = Some [(''dev'', ?rd)]"
    "section_of user_roles_of (dict_get_or sample_rbac_config ''users'' (VDict [])) = Some [(''bob'', [''dev'', ''ghost''])]"
    by (simp_all add: sample_rbac_config_def section_of_def role_data_of_def user_roles_of_def strings_of_def dict_get_or_def)
  have "get_role (rbac_init True ''viewer'' True False) ''ghost'' = None"
    by (simp add: get_role_def rbac_init_def PREDEFINED_ROLES_def)
  then show ?thesis
    using config_semantics [OF shape, where user = "''bob''" and rns = "[''dev'', ''ghost'']" and m = "rbac_init True ''viewer'' True False"] up
    by (auto simp: sample_rbac_config_def dict_ok_def dict_get_or_def)
qed

text \<open>A section that is there but empty in the file is null, and raises when the settings are already changed; roles before
  a broken entry stay.\<close>

lemma null_section_raises:
  "dict_get config ''roles'' = Some VNone \<Longrightarrow> \<exists>e. load_from_dict config m = (Inl e, load_settings config m) \<and> exc_type e = ''AttributeError''"
  by (simp add: load_from_dict_def mapping_of_def dict_get_or_def no_attribute_def Let_def)

text \<open>Deny lists are per role: giving a user more roles never takes a tool or a permission away,
  so a tool denied by one role stays usable through another one.\<close>

theorem roles_monotone:
  assumes "u_roles u \<subseteq> u_roles v"
  shows "(user_can_use_tool u tool category p \<longrightarrow> user_can_use_tool v tool category p) \<and>
    (user_has_permission u p \<longrightarrow> user_has_permission v p) \<and>
    get_effective_permissions u \<subseteq> get_effective_permissions v"
  using assms by (auto simp: user_can_use_tool_def user_has_permission_def get_effective_permissions_def)

theorem roles_monotone_witness:
  "let deny = (plain_role ''safe'' {WRITE})\<lparr>r_denied_tools := {VStr ''rm''}\<rparr>; dev = plain_role ''dev'' {WRITE} in
   \<not> user_can_use_tool \<lparr>u_name = ''bob'', u_roles = {deny}, u_metadata = VDict []\<rparr> ''rm'' ''shell'' WRITE \<and>
   user_can_use_tool \<lparr>u_name = ''bob'', u_roles = {deny, dev}, u_metadata = VDict []\<rparr> ''rm'' ''shell'' WRITE"
proof -
  let ?deny = "(plain_role ''safe'' {WRITE})\<lparr>r_denied_tools := {VStr ''rm''}\<rparr>" and ?dev = "plain_role ''dev'' {WRITE}"
  let ?u = "\<lambda>rs. \<lparr>u_name = ''bob'', u_roles = rs, u_metadata = VDict []\<rparr>"
  have "user_can_use_tool (?u {?dev}) ''rm'' ''shell'' WRITE"
    "\<not> user_can_use_tool (?u {?deny}) ''rm'' ''shell'' WRITE"
    by (simp_all add: user_can_use_tool_def role_has_permission_def role_can_use_tool_def
        can_access_category_def plain_role_def)
  then show ?thesis
    using roles_monotone [of "?u {?dev}" "?u {?deny, ?dev}" "''rm''" "''shell''" WRITE] by (simp add: Let_def)
qed

text \<open>Users keep the roles they were given: changing a role afterwards changes nothing for a
  registered user, neither tools nor permissions; only unknown users see the new role when it is the
  default one.\<close>

theorem role_update_not_retroactive:
  assumes "dict_get (rb_users m) user = Some u"
  shows "check_tool_access (add_role r m) user tool category a = check_tool_access m user tool category a \<and>
    check_permission (add_role r m) user p = check_permission m user p"
  using assms by (simp add: check_tool_access_def check_permission_def get_user_def add_role_def)

theorem role_update_not_retroactive_witness:
  "let m = add_user \<lparr>u_name = ''bob'', u_roles = {plain_role ''developer'' {WRITE}}, u_metadata = VDict []\<rparr>
             (rbac_init True ''viewer'' True False) in
   check_permission (add_role (plain_role ''developer'' {}) m) ''bob'' WRITE"
proof -
  let ?u = "\<lparr>u_name = ''bob'', u_roles = {plain_role ''developer'' {WRITE}}, u_metadata = VDict []\<rparr>"
  let ?m = "add_user ?u (rbac_init True ''viewer'' True False)"
  have u: "dict_get (rb_users ?m) ''bob'' = Some ?u" by (simp add: add_user_def rbac_init_def)
  moreover have "check_permission ?m ''bob'' WRITE"
    using u by (simp add: check_permission_def get_user_def user_has_permission_def role_has_permission_def
        plain_role_def, simp add: add_user_def rbac_init_def)
  ultimately show ?thesis
    using role_update_not_retroactive [of ?m "''bob''" ?u "plain_role ''developer'' {}" "[]" "[]" MIXED WRITE]
    by (simp add: Let_def)
qed

text \<open>In a fresh manager an unknown user may use the read-only tools and nothing else, but
  without a current user every tool is allowed, mixed ones included.\<close>

theorem no_user_bypass:
  "let m = rbac_init True ''viewer'' True False in
   (check_tool_access m user tool category a \<longleftrightarrow> a = READONLY) \<and>
   (check_current_user_tool_access (set_current_user (Some user) m) tool category a \<longleftrightarrow> a = READONLY) \<and>
   check_current_user_tool_access m tool category a"
  by (cases a) (simp_all add: Let_def rbac_init_def check_tool_access_def get_user_def get_role_def
      PREDEFINED_ROLES_def plain_role_def user_can_use_tool_def role_has_permission_def role_can_use_tool_def default_role_def
      can_access_category_def check_current_user_tool_access_def set_current_user_def)

text \<open>Disabling a manager that does not fail open denies everything to everyone, while a
  function guarded by the decorator runs for everyone.\<close>

theorem disabled_denies:
  assumes "\<not> rb_fail_open m"
  shows "\<not> check_permission (disable m) user p \<and> \<not> check_tool_access (disable m) user tool category a \<and>
    \<not> check_current_user_tool_access (disable m) tool category a \<and>
    require_permission p f_name func (Some (disable m)) (Some user) args = func args"
  using assms by (simp add: disable_def check_permission_def check_tool_access_def
      check_current_user_tool_access_def require_permission_def)

theorem disabled_denies_witness:
  "\<not> check_permission (disable (rbac_init True ''viewer'' True False)) ''alice'' READ"
  by (rule disabled_denies [THEN conjunct1]) (simp add: rbac_init_def)

end
