(* ===== verification/Versioning.thy ===== *)
theory Versioning
  imports Prelude "HOL-Library.Product_Lexorder" "HOL-Library.Multiset"
begin

text \<open>
  Workflow versions, migrations and their registry, \<^verbatim>\<open>victor/workflows/versioning.py\<close>. The
  regular expressions of the version parser are scanners; since no character class of them
  contains the separator that follows it, the greedy scan is the only match. States and YAML
  data are dictionaries of dynamically typed values. The digest of a definition, the printed
  form of floats and containers, and the clock are parameters. The registry's methods run
  under its lock; the migration search is a breadth-first search with early return.
\<close>

section \<open>Versions\<close>

datatype VersionCompareResult = LESS_THAN | EQUAL | GREATER_THAN

record WorkflowVersion =
  major :: int
  minor :: int
  patch :: int
  prerelease :: "string option"
  build :: "string option"

abbreviation version :: "int \<Rightarrow> int \<Rightarrow> int \<Rightarrow> WorkflowVersion" where
  "version a b c \<equiv> \<lparr>major = a, minor = b, patch = c, prerelease = None, build = None\<rparr>"

text \<open>The comparison and equality of versions: prerelease and build do not take part.\<close>

definition ver_key :: "WorkflowVersion \<Rightarrow> int \<times> int \<times> int" where
  "ver_key v = (major v, minor v, patch v)"

definition ver_ge :: "WorkflowVersion \<Rightarrow> WorkflowVersion \<Rightarrow> bool" where
  "ver_ge v w \<longleftrightarrow> ver_key w \<le> ver_key v"

text \<open>\<^verbatim>\<open>__str__\<close>; an empty tag is left out.\<close>

definition tag :: "char \<Rightarrow> string option \<Rightarrow> string" where
  "tag c t = (case t of None \<Rightarrow> [] | Some s \<Rightarrow> if s = [] then [] else c # s)"

definition ver_str :: "WorkflowVersion \<Rightarrow> string" where
  "ver_str v = show_int (major v) @ ''.'' @ show_int (minor v) @ ''.'' @ show_int (patch v) @
     tag (CHR ''-'') (prerelease v) @ tag (CHR ''+'') (build v)"

text \<open>Scanners: a run of at least one character of a class, and one given character.\<close>

definition tag_char :: "char \<Rightarrow> bool" where
  "tag_char c =
     (let n = (of_char c :: nat)
      in 48 \<le> n \<and> n \<le> 57 \<or> 65 \<le> n \<and> n \<le> 90 \<or> 97 \<le> n \<and> n \<le> 122 \<or> n = 46)"

definition scan :: "(char \<Rightarrow> bool) \<Rightarrow> string \<Rightarrow> (string \<times> string) option" where
  "scan P s = (if takeWhile P s = [] then None else Some (takeWhile P s, dropWhile P s))"

definition scan_char :: "char \<Rightarrow> string \<Rightarrow> string option" where
  "scan_char c s = (case s of [] \<Rightarrow> None | d # ds \<Rightarrow> if d = c then Some ds else None)"

text \<open>An optional group \<^verbatim>\<open>(?:-([a-zA-Z0-9.]+))?\<close>.\<close>

definition scan_tag :: "char \<Rightarrow> string \<Rightarrow> string option \<times> string" where
  "scan_tag c s =
     (case scan_char c s of
        None \<Rightarrow> (None, s)
      | Some s' \<Rightarrow> (case scan tag_char s' of None \<Rightarrow> (None, s) | Some (t, s'') \<Rightarrow> (Some t, s'')))"

definition match_full :: "string \<Rightarrow> WorkflowVersion option" where
  "match_full s =
     Option.bind (scan is_digit s) (\<lambda>(a, s).
     Option.bind (scan_char (CHR ''.'') s) (\<lambda>s.
     Option.bind (scan is_digit s) (\<lambda>(b, s).
     Option.bind (scan_char (CHR ''.'') s) (\<lambda>s.
     Option.bind (scan is_digit s) (\<lambda>(c, s).
       let (pre, s) = scan_tag (CHR ''-'') s;
           (bld, s) = scan_tag (CHR ''+'') s
       in if s = [] then Some \<lparr>major = int (read_nat a), minor = int (read_nat b), patch = int (read_nat c),
                               prerelease = pre, build = bld\<rparr>
          else None)))))"

definition match_simple :: "string \<Rightarrow> WorkflowVersion option" where
  "match_simple s =
     Option.bind (scan is_digit s) (\<lambda>(a, s).
     Option.bind (scan_char (CHR ''.'') s) (\<lambda>s.
     Option.bind (scan is_digit s) (\<lambda>(b, s).
       if s = [] then Some (version (int (read_nat a)) (int (read_nat b)) 0) else None)))"

definition ver_parse :: "string \<Rightarrow> WorkflowVersion result" where
  "ver_parse s =
     (case match_full (py_strip s) of
        Some v \<Rightarrow> Inr v
      | None \<Rightarrow>
          (case match_simple (py_strip s) of
             Some v \<Rightarrow> Inr v
           | None \<Rightarrow> Inl (PyExc ''ValueError'' (''Invalid version string: '' @ quoted s))))"

definition is_compatible_with :: "WorkflowVersion \<Rightarrow> WorkflowVersion \<Rightarrow> bool" where
  "is_compatible_with v w \<longleftrightarrow> major v = major w \<and>
     (minor v > minor w \<or> minor v = minor w \<and> patch v \<ge> patch w)"

definition bump_major :: "WorkflowVersion \<Rightarrow> WorkflowVersion" where
  "bump_major v = version (major v + 1) 0 0"

definition bump_minor :: "WorkflowVersion \<Rightarrow> WorkflowVersion" where
  "bump_minor v = version (major v) (minor v + 1) 0"

definition bump_patch :: "WorkflowVersion \<Rightarrow> WorkflowVersion" where
  "bump_patch v = version (major v) (minor v) (patch v + 1)"

section \<open>Migrations\<close>

datatype MigrationType =
  ADD_NODE | REMOVE_NODE | RENAME_NODE | MODIFY_NODE | ADD_EDGE | REMOVE_EDGE | CHANGE_START_NODE
| ADD_FIELD | REMOVE_FIELD | RENAME_FIELD | CUSTOM

definition migration_types :: "(string \<times> MigrationType) list" where
  "migration_types =
     [(''add_node'', ADD_NODE), (''remove_node'', REMOVE_NODE), (''rename_node'', RENAME_NODE),
      (''modify_node'', MODIFY_NODE), (''add_edge'', ADD_EDGE), (''remove_edge'', REMOVE_EDGE),
      (''change_start_node'', CHANGE_START_NODE), (''add_field'', ADD_FIELD),
      (''remove_field'', REMOVE_FIELD), (''rename_field'', RENAME_FIELD), (''custom'', CUSTOM)]"

text \<open>
  A workflow state whose keys come from migration steps: strings, or \<^verbatim>\<open>None\<close> for a step
  without a node. A list or a dictionary is no key.
\<close>

type_synonym wf_state = "(pyval, pyval) dict"

record MigrationStep =
  ms_type :: MigrationType
  ms_node_id :: pyval
  ms_old_value :: pyval
  ms_new_value :: pyval
  ms_description :: pyval
  ms_custom_handler :: "(wf_state \<Rightarrow> wf_state result) option"

definition step_apply :: "MigrationStep \<Rightarrow> wf_state \<Rightarrow> wf_state result" where
  "step_apply st s =
     (case ms_type st of
        RENAME_FIELD \<Rightarrow>
          bind_result (dict_key (ms_old_value st)) (\<lambda>old.
            case dict_get s old of
              None \<Rightarrow> Inr s
            | Some v \<Rightarrow> bind_result (dict_key (ms_new_value st)) (\<lambda>new. Inr (dict_set new v (dict_pop old s))))
      | ADD_FIELD \<Rightarrow>
          bind_result (dict_key (ms_node_id st)) (\<lambda>k.
            Inr (if dict_has s k then s else dict_set k (ms_new_value st) s))
      | REMOVE_FIELD \<Rightarrow> bind_result (dict_key (ms_node_id st)) (\<lambda>k. Inr (dict_pop k s))
      | CUSTOM \<Rightarrow> (case ms_custom_handler st of None \<Rightarrow> Inr s | Some h \<Rightarrow> h s)
      | _ \<Rightarrow> Inr s)"

record WorkflowMigration =
  from_version :: WorkflowVersion
  to_version :: WorkflowVersion
  wm_steps :: "MigrationStep list"
  wm_description :: pyval
  wm_breaking :: pyval
  wm_created_at :: time

definition migration_key :: "WorkflowVersion \<Rightarrow> WorkflowVersion \<Rightarrow> string" where
  "migration_key v w = ver_str v @ ''->'' @ ver_str w"

definition migration_id :: "WorkflowMigration \<Rightarrow> string" where
  "migration_id m = migration_key (from_version m) (to_version m)"

definition migration_apply :: "WorkflowMigration \<Rightarrow> wf_state \<Rightarrow> wf_state result" where
  "migration_apply m s = fold_result step_apply (wm_steps m) s"

definition migration_validate :: "WorkflowMigration \<Rightarrow> string list" where
  "migration_validate m =
     (if ver_ge (from_version m) (to_version m)
      then [''from_version ('' @ ver_str (from_version m) @ '') must be less than '' @
            ''to_version ('' @ ver_str (to_version m) @ '')''] else []) @
     (if py_truthy (wm_breaking m) \<and> major (from_version m) = major (to_version m)
      then [''Breaking changes should bump major version''] else [])"

section \<open>Versioned workflows and the registry\<close>

record 'd VersionedWorkflow =
  vw_name :: string
  vw_version :: WorkflowVersion
  vw_definition :: 'd
  vw_deprecated :: bool
  vw_deprecation_message :: string
  vw_min_compatible :: "WorkflowVersion option"
  vw_created_at :: time
  vw_checksum :: string

text \<open>\<^verbatim>\<open>__post_init__\<close>: a definition that is true gets a checksum when none was given.\<close>

definition vw_post_init :: "('d \<Rightarrow> bool) \<Rightarrow> ('d \<Rightarrow> string) \<Rightarrow> 'd VersionedWorkflow \<Rightarrow> 'd VersionedWorkflow" where
  "vw_post_init truthy digest w =
     (if vw_checksum w = [] \<and> truthy (vw_definition w)
      then w\<lparr>vw_checksum := take 16 (digest (vw_definition w))\<rparr> else w)"

definition version_id :: "'d VersionedWorkflow \<Rightarrow> string" where
  "version_id w = vw_name w @ ''@'' @ ver_str (vw_version w)"

record 'd version_registry =
  vr_versions :: "(string, (string, 'd VersionedWorkflow) dict) dict"
  vr_migrations :: "(string, (string, WorkflowMigration) dict) dict"

definition vr_init :: "'d version_registry" where
  "vr_init = \<lparr>vr_versions = [], vr_migrations = []\<rparr>"

definition vr_register :: "'d VersionedWorkflow \<Rightarrow> 'd version_registry \<Rightarrow> 'd version_registry" where
  "vr_register w g =
     g\<lparr>vr_versions := dict_set (vw_name w)
         (dict_set (ver_str (vw_version w)) w (dict_get_or (vr_versions g) (vw_name w) [])) (vr_versions g)\<rparr>"

definition vr_unregister :: "string \<Rightarrow> string \<Rightarrow> 'd version_registry \<Rightarrow> bool \<times> 'd version_registry" where
  "vr_unregister name ver g =
     (case dict_get (vr_versions g) name of
        None \<Rightarrow> (False, g)
      | Some vs \<Rightarrow>
          (if dict_has vs ver then (True, g\<lparr>vr_versions := dict_set name (dict_pop ver vs) (vr_versions g)\<rparr>)
           else (False, g)))"

definition get_all_versions :: "'d version_registry \<Rightarrow> string \<Rightarrow> 'd VersionedWorkflow list" where
  "get_all_versions g name =
     (case dict_get (vr_versions g) name of
        None \<Rightarrow> []
      | Some vs \<Rightarrow> sorted_desc (\<lambda>w. ver_key (vw_version w)) (dict_values vs))"

definition get_latest :: "'d version_registry \<Rightarrow> string \<Rightarrow> 'd VersionedWorkflow option" where
  "get_latest g name =
     (case dict_get (vr_versions g) name of
        None \<Rightarrow> None
      | Some vs \<Rightarrow>
          (if vs = [] then None
           else Some (hd (sorted_desc (\<lambda>w. ver_key (vw_version w)) (dict_values vs)))))"

definition vr_get :: "'d version_registry \<Rightarrow> string \<Rightarrow> string option \<Rightarrow> 'd VersionedWorkflow option" where
  "vr_get g name ver =
     (case dict_get (vr_versions g) name of
        None \<Rightarrow> None
      | Some vs \<Rightarrow> (case ver of None \<Rightarrow> get_latest g name | Some v \<Rightarrow> dict_get vs v))"

definition list_workflows :: "'d version_registry \<Rightarrow> string list" where
  "list_workflows g = dict_keys (vr_versions g)"

definition vr_deprecate ::
  "string \<Rightarrow> string \<Rightarrow> string \<Rightarrow> 'd version_registry \<Rightarrow> bool \<times> 'd version_registry" where
  "vr_deprecate name ver message g =
     (case vr_get g name (Some ver) of
        None \<Rightarrow> (False, g)
      | Some w \<Rightarrow>
          (True, g\<lparr>vr_versions := dict_set name
             (dict_set ver (w\<lparr>vw_deprecated := True, vw_deprecation_message := message\<rparr>)
                (dict_get_or (vr_versions g) name [])) (vr_versions g)\<rparr>))"

definition add_migration :: "string \<Rightarrow> WorkflowMigration \<Rightarrow> 'd version_registry \<Rightarrow> 'd version_registry" where
  "add_migration name m g =
     g\<lparr>vr_migrations := dict_set name
         (dict_set (migration_id m) m (dict_get_or (vr_migrations g) name [])) (vr_migrations g)\<rparr>"

section \<open>The migration search\<close>

text \<open>
  The inner loop over all migrations from the current version: it either finds the target
  (\<open>Inl\<close>, the early return) or appends the versions not seen before to the queue.
\<close>

type_synonym search_queue = "(WorkflowVersion \<times> WorkflowMigration list) list"

fun expand ::
  "string \<Rightarrow> WorkflowVersion \<Rightarrow> WorkflowMigration list \<Rightarrow> WorkflowMigration list \<Rightarrow> search_queue \<Rightarrow> string list \<Rightarrow>
   WorkflowMigration list + search_queue \<times> string list" where
  "expand target current path [] queue visited = Inr (queue, visited)"
| "expand target current path (m # ms) queue visited =
     (if ver_str (from_version m) = ver_str current
      then if ver_str (to_version m) = target then Inl (path @ [m])
           else if ver_str (to_version m) \<notin> set visited
           then expand target current path ms (queue @ [(to_version m, path @ [m])])
                  (ver_str (to_version m) # visited)
           else expand target current path ms queue visited
      else expand target current path ms queue visited)"

definition unseen :: "WorkflowMigration list \<Rightarrow> string list \<Rightarrow> nat" where
  "unseen ms visited = card ((\<lambda>m. ver_str (to_version m)) ` set ms - set visited)"

lemma expand_size:
  assumes "expand target current path ns queue visited = Inr (queue', visited')" "set ns \<subseteq> set ms"
  shows "2 * unseen ms visited' + length queue' \<le> 2 * unseen ms visited + length queue"
  using assms
proof (induction target current path ns queue visited rule: expand.induct)
  case (2 target current path m ns queue visited)
  have "unseen ms (ver_str (to_version m) # visited) < unseen ms visited"
    if "ver_str (to_version m) \<notin> set visited"
    using that 2(5) unfolding unseen_def by (intro psubset_card_mono) auto
  then have "2 * unseen ms (ver_str (to_version m) # visited) + Suc (length queue) \<le> 2 * unseen ms visited + length queue"
    if "ver_str (to_version m) \<notin> set visited" using that by fastforce
  with 2 show ?case by (fastforce split: if_splits)
qed simp

function search ::
  "WorkflowMigration list \<Rightarrow> string \<Rightarrow> search_queue \<Rightarrow> string list \<Rightarrow> WorkflowMigration list" where
  "search ms target [] visited = []"
| "search ms target ((current, path) # queue) visited =
     (case expand target current path ms queue visited of
        Inl p \<Rightarrow> p
      | Inr (queue', visited') \<Rightarrow> search ms target queue' visited')"
  by pat_completeness auto
termination
proof (relation "measure (\<lambda>(ms, target, queue, visited). 2 * unseen ms visited + length queue)")
  fix ms target current path queue visited qv queue' visited'
  assume "expand target current path ms queue visited = Inr qv" "(queue', visited') = qv"
  then have "2 * unseen ms visited' + length queue' \<le> 2 * unseen ms visited + length queue"
    using expand_size [of target current path ms queue visited queue' visited' ms] by auto
  then show "((ms, target, queue', visited'), (ms, target, (current, path) # queue, visited))
      \<in> measure (\<lambda>(ms, target, queue, visited). 2 * unseen ms visited + length queue)" by simp
qed simp

definition get_migration_path ::
  "'d version_registry \<Rightarrow> string \<Rightarrow> WorkflowVersion \<Rightarrow> WorkflowVersion \<Rightarrow> WorkflowMigration list" where
  "get_migration_path g name v w =
     (case dict_get (vr_migrations g) name of
        None \<Rightarrow> []
      | Some ms \<Rightarrow>
          (case dict_get ms (migration_key v w) of
             Some m \<Rightarrow> [m]
           | None \<Rightarrow> search (dict_values ms) (ver_str w) [(v, [])] [ver_str v]))"

definition migrate_state ::
  "'d version_registry \<Rightarrow> string \<Rightarrow> wf_state \<Rightarrow> string \<Rightarrow> string \<Rightarrow> (wf_state \<times> string list) result" where
  "migrate_state g name s from_str to_str =
     bind_result (ver_parse from_str) (\<lambda>v.
     bind_result (ver_parse to_str) (\<lambda>w.
       let path = get_migration_path g name v w
       in if path = [] then Inr (s, [])
          else bind_result (fold_result migration_apply path s) (\<lambda>s'. Inr (s', map migration_id path))))"

section \<open>Versions and migrations in YAML data\<close>

text \<open>\<^verbatim>\<open>str(v)\<close>; how floats, containers and objects print is a parameter.\<close>

definition py_str :: "(pyval \<Rightarrow> string) \<Rightarrow> pyval \<Rightarrow> string" where
  "py_str show_other v =
     (case v of
        VStr s \<Rightarrow> s
      | VInt i \<Rightarrow> show_int i
      | VBool b \<Rightarrow> if b then ''True'' else ''False''
      | VNone \<Rightarrow> ''None''
      | _ \<Rightarrow> show_other v)"

definition parse_version_from_yaml :: "(pyval \<Rightarrow> string) \<Rightarrow> state \<Rightarrow> WorkflowVersion option" where
  "parse_version_from_yaml show_other data =
     (let v = dict_get_or data ''version'' VNone
      in if \<not> py_truthy v then None
         else case ver_parse (py_str show_other v) of
             Inr w \<Rightarrow> Some w
           | Inl e \<Rightarrow> None)"

definition as_dict :: "pyval \<Rightarrow> state result" where
  "as_dict v = (case v of VDict d \<Rightarrow> Inr d | _ \<Rightarrow> Inl (no_attribute v ''get''))"

definition py_or :: "pyval \<Rightarrow> pyval \<Rightarrow> pyval" where
  "py_or v w = (if py_truthy v then v else w)"

text \<open>\<^verbatim>\<open>WorkflowVersion.parse\<close> applied to a value: only a string has \<^verbatim>\<open>strip\<close>.\<close>

definition parse_value :: "pyval \<Rightarrow> WorkflowVersion result" where
  "parse_value v = (case v of VStr s \<Rightarrow> ver_parse s | _ \<Rightarrow> Inl (no_attribute v ''strip''))"

definition migration_type_of :: "(pyval \<Rightarrow> string) \<Rightarrow> pyval \<Rightarrow> MigrationType result" where
  "migration_type_of show_repr v =
     (case v of
        VStr s \<Rightarrow>
          (case dict_get migration_types s of
             Some t \<Rightarrow> Inr t
           | None \<Rightarrow> Inl (PyExc ''ValueError'' (repr_str s @ '' is not a valid MigrationType'')))
      | _ \<Rightarrow> Inl (PyExc ''ValueError'' (show_repr v @ '' is not a valid MigrationType'')))"

definition parse_change :: "(pyval \<Rightarrow> string) \<Rightarrow> pyval \<Rightarrow> MigrationStep result" where
  "parse_change show_repr change =
     bind_result (as_dict change) (\<lambda>d.
     bind_result (migration_type_of show_repr (dict_get_or d ''type'' (VStr ''custom''))) (\<lambda>t.
       let get = (\<lambda>k. dict_get_or d k VNone)
       in Inr \<lparr>ms_type = t, ms_node_id = py_or (get ''node_id'') (get ''old_id''),
               ms_old_value = py_or (get ''old_value'') (get ''old_id''),
               ms_new_value = py_or (get ''new_value'') (get ''new_id''),
               ms_description = dict_get_or d ''description'' (VStr []), ms_custom_handler = None\<rparr>))"

definition map_result :: "('a \<Rightarrow> 'b result) \<Rightarrow> 'a list \<Rightarrow> 'b list result" where
  "map_result f xs = fold_result (\<lambda>x ys. bind_result (f x) (\<lambda>y. Inr (ys @ [y]))) xs []"

definition parse_migration ::
  "(pyval \<Rightarrow> string) \<Rightarrow> time \<Rightarrow> pyval \<Rightarrow> pyval \<Rightarrow> WorkflowMigration list result" where
  "parse_migration show_repr now to_str mig =
     bind_result (as_dict mig) (\<lambda>d.
       let from_str = dict_get_or d ''from_version'' VNone
       in if \<not> py_truthy from_str \<or> \<not> py_truthy to_str then Inr []
          else bind_result (iterate (dict_get_or d ''changes'' (VList []))) (\<lambda>changes.
               bind_result (map_result (parse_change show_repr) changes) (\<lambda>steps.
               bind_result (parse_value from_str) (\<lambda>v.
               bind_result (parse_value to_str) (\<lambda>w.
                 Inr [\<lparr>from_version = v, to_version = w, wm_steps = steps,
                       wm_description = dict_get_or d ''description'' (VStr []),
                       wm_breaking = dict_get_or d ''breaking'' (VBool False), wm_created_at = now\<rparr>])))))"

definition parse_migrations_from_yaml ::
  "(pyval \<Rightarrow> string) \<Rightarrow> time \<Rightarrow> state \<Rightarrow> WorkflowMigration list result" where
  "parse_migrations_from_yaml show_repr now data =
     (let ms = dict_get_or data ''migrations'' VNone
      in if \<not> py_truthy ms then Inr []
         else bind_result (case ms of VDict d \<Rightarrow> Inr [ms] | _ \<Rightarrow> iterate ms) (\<lambda>migs.
              bind_result (map_result (parse_migration show_repr now (dict_get_or data ''version'' VNone)) migs)
                (\<lambda>mss. Inr (concat mss))))"

section \<open>Versions: printing, parsing, order\<close>

text \<open>The versions that a version string can denote.\<close>

definition tag_ok :: "string option \<Rightarrow> bool" where
  "tag_ok t = (case t of None \<Rightarrow> True | Some s \<Rightarrow> s \<noteq> [] \<and> list_all tag_char s)"

definition ver_ok :: "WorkflowVersion \<Rightarrow> bool" where
  "ver_ok v \<longleftrightarrow> 0 \<le> major v \<and> 0 \<le> minor v \<and> 0 \<le> patch v \<and> tag_ok (prerelease v) \<and> tag_ok (build v)"

lemma scan_append:
  assumes "s \<noteq> []" "list_all P s" "t = [] \<or> \<not> P (hd t)"
  shows "scan P (s @ t) = Some (s, t)"
proof -
  have "takeWhile P (s @ t) = s @ takeWhile P t" "dropWhile P (s @ t) = dropWhile P t"
    using assms(2) by (auto simp: list_all_iff)
  moreover have "takeWhile P t = []" "dropWhile P t = t" using assms(3) by (cases t; auto)+
  ultimately show ?thesis using assms(1) by (simp add: scan_def)
qed

lemma scan_number:
  "t = [] \<or> \<not> is_digit (hd t) \<Longrightarrow> scan is_digit (show_nat n @ t) = Some (show_nat n, t)"
  by (rule scan_append) simp_all

lemma scan_tag_tag:
  assumes "tag_ok p" "t = [] \<or> \<not> tag_char (hd t) \<and> hd t \<noteq> c"
  shows "scan_tag c (tag c p @ t) = (p, t)"
proof (cases p)
  case None
  with assms show ?thesis by (cases t) (auto simp: scan_tag_def scan_char_def tag_def)
next
  case (Some s)
  with assms have "scan tag_char (s @ t) = Some (s, t)" by (intro scan_append) (auto simp: tag_ok_def)
  with Some assms show ?thesis by (simp add: scan_tag_def scan_char_def tag_def tag_ok_def)
qed

lemma separators [simp]:
  "\<not> is_digit (CHR ''.'')" "\<not> is_digit (CHR ''-'')" "\<not> is_digit (CHR ''+'')"
  "\<not> tag_char (CHR ''-'')" "\<not> tag_char (CHR ''+'')"
  by (simp_all add: is_digit_def tag_char_def)

lemma hd_tag: "tag c p = [] \<or> hd (tag c p) = c"
  by (auto simp: tag_def split: option.splits)

lemma match_full_str:
  assumes "ver_ok v"
  shows "match_full (ver_str v) = Some v"
proof -
  let ?pre = "tag (CHR ''-'') (prerelease v)" and ?bld = "tag (CHR ''+'') (build v)"
  have str: "ver_str v = show_nat (nat (major v)) @ ''.'' @ show_nat (nat (minor v)) @ ''.'' @
      show_nat (nat (patch v)) @ ?pre @ ?bld"
    using assms by (simp add: ver_str_def ver_ok_def show_int_def)
  have bld: "?bld = [] \<or> \<not> tag_char (hd ?bld) \<and> hd ?bld \<noteq> CHR ''-''"
    using hd_tag [of "CHR ''+''" "build v"] by auto
  have "scan_tag (CHR ''-'') (?pre @ ?bld) = (prerelease v, ?bld)"
    using assms bld by (intro scan_tag_tag) (auto simp: ver_ok_def)
  moreover have "scan_tag (CHR ''+'') ?bld = (build v, [])"
    using scan_tag_tag [of "build v" "[]" "CHR ''+''"] assms by (simp add: ver_ok_def)
  moreover have "?pre @ ?bld = [] \<or> \<not> is_digit (hd (?pre @ ?bld))"
    using hd_tag [of "CHR ''-''" "prerelease v"] hd_tag [of "CHR ''+''" "build v"]
    by (cases "?pre = []") auto
  ultimately show ?thesis
    unfolding str using assms by (simp add: match_full_def scan_number scan_char_def ver_ok_def)
qed

text \<open>A printed version has no blanks around it.\<close>

lemma not_space: "is_digit c \<Longrightarrow> \<not> py_space c" "tag_char c \<Longrightarrow> \<not> py_space c"
  by (auto simp: is_digit_def tag_char_def py_space_def Let_def)

lemma tag_last: "tag_ok p \<Longrightarrow> tag c p \<noteq> [] \<Longrightarrow> tag_char (last (tag c p))"
  by (auto simp: tag_def tag_ok_def list_all_iff split: option.splits if_splits)

lemma strip_str:
  assumes "ver_ok v"
  shows "py_strip (ver_str v) = ver_str v"
proof (rule strip_plain)
  let ?pre = "tag (CHR ''-'') (prerelease v)" and ?bld = "tag (CHR ''+'') (build v)"
  have str: "ver_str v = show_nat (nat (major v)) @ ''.'' @ show_nat (nat (minor v)) @ ''.'' @
      show_nat (nat (patch v)) @ ?pre @ ?bld"
    using assms by (simp add: ver_str_def ver_ok_def show_int_def)
  show "ver_str v \<noteq> []" unfolding str by simp
  show "\<not> py_space (hd (ver_str v))" unfolding str by (simp add: digits_ends not_space)
  have tags: "tag_ok (prerelease v)" "tag_ok (build v)" using assms by (simp_all add: ver_ok_def)
  then show "\<not> py_space (last (ver_str v))"
    unfolding str using tag_last [OF tags(1), of "CHR ''-''"] tag_last [OF tags(2), of "CHR ''+''"]
    by (cases "?bld = []"; cases "?pre = []") (auto simp: digits_ends not_space)
qed

lemma ver_parse_str: "ver_ok v \<Longrightarrow> ver_parse (ver_str v) = Inr v"
  by (simp add: ver_parse_def strip_str match_full_str)

lemma scan_ok: "scan P s = Some (t, u) \<Longrightarrow> t \<noteq> [] \<and> list_all P t"
  by (auto simp: scan_def list_all_iff dest: set_takeWhileD split: if_splits)

lemma scan_tag_ok: "fst (scan_tag c s) = p \<Longrightarrow> tag_ok p"
  by (auto simp: scan_tag_def tag_ok_def dest: scan_ok split: option.splits prod.splits)

lemma match_full_ok: "match_full s = Some v \<Longrightarrow> ver_ok v"
  by (auto simp: match_full_def ver_ok_def Let_def bind_eq_Some_conv split_beta split: if_splits
      intro: scan_tag_ok)

lemma match_simple_ok: "match_simple s = Some v \<Longrightarrow> ver_ok v"
  by (auto simp: match_simple_def ver_ok_def tag_ok_def bind_eq_Some_conv split: if_splits)

lemma ver_parse_ok: "ver_parse s = Inr v \<Longrightarrow> ver_ok v"
  by (auto simp: ver_parse_def intro: match_full_ok match_simple_ok split: option.splits)

section \<open>The latest version\<close>

lemma mset_sorted_desc [simp]: "mset (sorted_desc f xs) = mset xs"
  by (simp add: sorted_desc_def)

section \<open>The migration search finds shortest paths\<close>

abbreviation src_of :: "WorkflowMigration \<Rightarrow> string" where
  "src_of m \<equiv> ver_str (from_version m)"

abbreviation dst_of :: "WorkflowMigration \<Rightarrow> string" where
  "dst_of m \<equiv> ver_str (to_version m)"

text \<open>A list of migrations that lead from one version (by its string) to another.\<close>

fun chain :: "string \<Rightarrow> WorkflowMigration list \<Rightarrow> string \<Rightarrow> bool" where
  "chain s [] t = (s = t)"
| "chain s (m # p) t = (src_of m = s \<and> chain (dst_of m) p t)"

lemma chain_snoc: "chain s (p @ [m]) t \<longleftrightarrow> chain s p (src_of m) \<and> dst_of m = t"
  by (induction p arbitrary: s) auto

lemma expand_found:
  "expand target current path ms queue visited = Inl p \<Longrightarrow>
     \<exists>m \<in> set ms. src_of m = ver_str current \<and> dst_of m = target \<and> p = path @ [m]"
  by (induction target current path ms queue visited rule: expand.induct) (auto split: if_splits)

lemma expand_queue:
  "expand target current path ms queue visited = Inr (queue', visited') \<Longrightarrow>
     \<exists>new. queue' = queue @ map (\<lambda>m. (to_version m, path @ [m])) new \<and> set new \<subseteq> set ms \<and>
       (\<forall>m \<in> set new. src_of m = ver_str current \<and> dst_of m \<notin> set visited) \<and> distinct (map dst_of new) \<and>
       set visited' = set visited \<union> dst_of ` set new \<and>
       (\<forall>m \<in> set ms. src_of m = ver_str current \<longrightarrow> dst_of m \<noteq> target \<and> dst_of m \<in> set visited')"
proof (induction target current path ms queue visited rule: expand.induct)
  case (2 target current path m ms queue visited)
  show ?case
  proof (cases "src_of m = ver_str current \<and> dst_of m \<notin> set visited")
    case True
    with 2 have "dst_of m \<noteq> target" by (auto split: if_splits)
    with 2 True obtain new where
      "queue' = (queue @ [(to_version m, path @ [m])]) @ map (\<lambda>m. (to_version m, path @ [m])) new" "set new \<subseteq> set ms"
      "\<forall>n \<in> set new. src_of n = ver_str current \<and> dst_of n \<notin> set (dst_of m # visited)" "distinct (map dst_of new)"
      "set visited' = set (dst_of m # visited) \<union> dst_of ` set new"
      "\<forall>m \<in> set ms. src_of m = ver_str current \<longrightarrow> dst_of m \<noteq> target \<and> dst_of m \<in> set visited'" by auto
    with True \<open>dst_of m \<noteq> target\<close> show ?thesis by (intro exI [of _ "m # new"]) auto
  next
    case False
    with 2(4) have "dst_of m \<noteq> target \<or> src_of m \<noteq> ver_str current"
      and e: "expand target current path ms queue visited = Inr (queue', visited')" by (auto split: if_splits)
    moreover obtain new where
      "queue' = queue @ map (\<lambda>m. (to_version m, path @ [m])) new" "set new \<subseteq> set ms"
      "\<forall>m \<in> set new. src_of m = ver_str current \<and> dst_of m \<notin> set visited" "distinct (map dst_of new)"
      "set visited' = set visited \<union> dst_of ` set new"
      "\<forall>m \<in> set ms. src_of m = ver_str current \<longrightarrow> dst_of m \<noteq> target \<and> dst_of m \<in> set visited'"
      using 2 False by (cases "src_of m = ver_str current") (auto split: if_splits)
    ultimately show ?thesis using False by (intro exI [of _ new]) auto
  qed
qed auto

text \<open>
  The invariant of the search, with a distance for every visited version: what waits in the
  queue was reached by a path of its distance, in order of distance and at most one apart;
  what was taken from the queue is not farther than that, leads to visited versions at most
  one farther, and not to the target.
\<close>

definition depth_of_head :: "search_queue \<Rightarrow> nat" where
  "depth_of_head queue = length (snd (hd queue))"

definition waiting :: "search_queue \<Rightarrow> string set" where
  "waiting queue = (\<lambda>e. ver_str (fst e)) ` set queue"

definition search_inv ::
  "WorkflowMigration list \<Rightarrow> string \<Rightarrow> string \<Rightarrow> search_queue \<Rightarrow> string list \<Rightarrow> (string \<Rightarrow> nat) \<Rightarrow> bool" where
  "search_inv ms s t queue visited d \<longleftrightarrow>
     s \<in> set visited \<and> d s = 0 \<and> waiting queue \<subseteq> set visited \<and> distinct (map (\<lambda>e. ver_str (fst e)) queue) \<and>
     (\<forall>e \<in> set queue. chain s (snd e) (ver_str (fst e)) \<and> set (snd e) \<subseteq> set ms \<and>
        length (snd e) = d (ver_str (fst e)) \<and> length (snd e) \<le> Suc (depth_of_head queue)) \<and>
     sorted (map (length \<circ> snd) queue) \<and>
     (\<forall>u \<in> set visited - waiting queue. (queue \<noteq> [] \<longrightarrow> d u \<le> depth_of_head queue) \<and>
        (\<forall>m \<in> set ms. src_of m = u \<longrightarrow> dst_of m \<noteq> t \<and> dst_of m \<in> set visited \<and> d (dst_of m) \<le> Suc (d u)))"

lemma search_inv_waiting:
  "search_inv ms s t queue visited d \<Longrightarrow> e \<in> set queue \<Longrightarrow>
     chain s (snd e) (ver_str (fst e)) \<and> set (snd e) \<subseteq> set ms \<and>
     length (snd e) = d (ver_str (fst e)) \<and> length (snd e) \<le> Suc (depth_of_head queue) \<and> ver_str (fst e) \<in> set visited"
  by (auto simp: search_inv_def waiting_def)

lemma search_inv_taken:
  "search_inv ms s t queue visited d \<Longrightarrow> u \<in> set visited \<Longrightarrow> u \<notin> waiting queue \<Longrightarrow>
     (queue \<noteq> [] \<longrightarrow> d u \<le> depth_of_head queue) \<and>
     (\<forall>m \<in> set ms. src_of m = u \<longrightarrow> dst_of m \<noteq> t \<and> dst_of m \<in> set visited \<and> d (dst_of m) \<le> Suc (d u))"
  by (simp add: search_inv_def)

lemma search_inv_step:
  assumes inv: "search_inv ms s t ((current, path) # queue) visited d"
    and ex: "expand t current path ms queue visited = Inr (queue', visited')"
  shows "\<exists>d'. search_inv ms s t queue' visited' d'"
proof -
  obtain new where new: "queue' = queue @ map (\<lambda>m. (to_version m, path @ [m])) new" "set new \<subseteq> set ms"
    "\<forall>m \<in> set new. src_of m = ver_str current \<and> dst_of m \<notin> set visited" "distinct (map dst_of new)"
    "set visited' = set visited \<union> dst_of ` set new"
    "\<forall>m \<in> set ms. src_of m = ver_str current \<longrightarrow> dst_of m \<noteq> t \<and> dst_of m \<in> set visited'"
    using expand_queue [OF ex] by blast
  define d' where "d' n = (if n \<in> dst_of ` set new then Suc (length path) else d n)" for n
  have old: "d' n = d n" if "n \<in> set visited" for n using that new(3) by (auto simp: d'_def)
  have fresh: "d' (dst_of m) = Suc (length path)" if "m \<in> set new" for m using that by (auto simp: d'_def)
  have wait: "waiting queue' = waiting queue \<union> dst_of ` set new" by (auto simp: new(1) waiting_def image_Un image_image)
  have hd: "length path \<le> depth_of_head queue' \<and> depth_of_head queue' \<le> Suc (length path)" if "queue' \<noteq> []"
  proof (cases queue)
    case Nil
    with that new(1) show ?thesis by (cases new) (auto simp: depth_of_head_def)
  next
    case (Cons e q)
    with inv new(1) show ?thesis by (auto simp: depth_of_head_def search_inv_def)
  qed
  have cur: "ver_str current \<in> set visited" "d (ver_str current) = length path" "ver_str current \<notin> waiting queue"
    "chain s path (ver_str current)" "set path \<subseteq> set ms"
    using inv by (auto simp: search_inv_def waiting_def)
  have near: "d n \<le> Suc (length path)" if "n \<in> set visited" for n
  proof (cases "n \<in> waiting ((current, path) # queue)")
    case True
    then obtain e where "e \<in> set ((current, path) # queue)" "n = ver_str (fst e)" unfolding waiting_def by blast
    with search_inv_waiting [OF inv, of e] show ?thesis by (simp add: depth_of_head_def)
  next
    case False
    with search_inv_taken [OF inv that] show ?thesis by (simp add: depth_of_head_def)
  qed
  have "search_inv ms s t queue' visited' d'"
    unfolding search_inv_def
  proof (intro conjI ballI)
    show "s \<in> set visited'" "d' s = 0" using inv old new(5) by (auto simp: search_inv_def)
    show "waiting queue' \<subseteq> set visited'"
      using inv wait new(5) by (auto simp: search_inv_def waiting_def)
    have "distinct (map (\<lambda>e. ver_str (fst e)) queue)" "waiting queue \<subseteq> set visited"
      using inv by (auto simp: search_inv_def waiting_def)
    then show "distinct (map (\<lambda>e. ver_str (fst e)) queue')"
      using new(3,4) by (auto simp: new(1) waiting_def comp_def)
    show "sorted (map (length \<circ> snd) queue')"
      using inv by (auto simp: new(1) search_inv_def sorted_append depth_of_head_def sorted_replicate comp_def
          map_replicate_const)
  next
    fix e assume "e \<in> set queue'"
    then consider "e \<in> set queue" | m where "m \<in> set new" "e = (to_version m, path @ [m])" by (auto simp: new(1))
    then have *: "chain s (snd e) (ver_str (fst e)) \<and> set (snd e) \<subseteq> set ms \<and> length (snd e) = d' (ver_str (fst e)) \<and>
        length (snd e) \<le> Suc (length path)"
    proof cases
      case 1
      with inv have "ver_str (fst e) \<in> set visited" by (auto simp: search_inv_def waiting_def)
      with 1 inv old show ?thesis by (auto simp: search_inv_def depth_of_head_def)
    next
      case 2
      with cur new(2,3) fresh show ?thesis by (auto simp: chain_snoc)
    qed
    then show "chain s (snd e) (ver_str (fst e))" "set (snd e) \<subseteq> set ms" "length (snd e) = d' (ver_str (fst e))" by auto
    show "length (snd e) \<le> Suc (depth_of_head queue')" using * hd \<open>e \<in> set queue'\<close> by (cases queue') auto
  next
    fix u assume u: "u \<in> set visited' - waiting queue'"
    then have v: "u \<in> set visited" "u \<notin> waiting queue" "u \<notin> dst_of ` set new" using new(5) wait by auto
    have settled: "d u \<le> length path \<and> (\<forall>m \<in> set ms. src_of m = u \<longrightarrow> dst_of m \<noteq> t \<and> dst_of m \<in> set visited' \<and>
        d' (dst_of m) \<le> Suc (d u))"
    proof (cases "u = ver_str current")
      case True
      have "d' (dst_of m) \<le> Suc (length path)" if "m \<in> set ms" "src_of m = u" for m
      proof (cases "m \<in> set new \<or> dst_of m \<in> dst_of ` set new")
        case False
        with new(5,6) that True have "dst_of m \<in> set visited" by blast
        then have "d (dst_of m) \<le> Suc (length path)" using near by blast
        then show ?thesis using old \<open>dst_of m \<in> set visited\<close> by simp
      qed (auto simp: d'_def)
      with True cur new(6) show ?thesis by auto
    next
      case False
      with v inv have "u \<in> set visited - waiting ((current, path) # queue)" by (auto simp: waiting_def)
      with inv have "d u \<le> length path" "\<forall>m \<in> set ms. src_of m = u \<longrightarrow> dst_of m \<noteq> t \<and> dst_of m \<in> set visited \<and> d (dst_of m) \<le> Suc (d u)"
        by (auto simp: search_inv_def depth_of_head_def)
      with old new(5) show ?thesis by auto
    qed
    show "queue' \<noteq> [] \<longrightarrow> d' u \<le> depth_of_head queue'" using settled hd old v by auto
    fix m assume "m \<in> set ms" 
    then show "src_of m = u \<longrightarrow> dst_of m \<noteq> t \<and> dst_of m \<in> set visited' \<and> d' (dst_of m) \<le> Suc (d' u)"
      using settled old v by auto
  qed
  then show ?thesis by blast
qed

text \<open>Short chains end in visited versions, and not in the target.\<close>

lemma search_inv_layer:
  assumes inv: "search_inv ms s t queue visited d"
    and "chain s p x" "set p \<subseteq> set ms" "queue = [] \<or> length p \<le> depth_of_head queue"
  shows "x \<in> set visited \<and> d x \<le> length p \<and> (p \<noteq> [] \<longrightarrow> x \<noteq> t)"
  using assms(2-)
proof (induction p arbitrary: x rule: rev_induct)
  case Nil
  with inv show ?case by (auto simp: search_inv_def)
next
  case (snoc m p)
  then have u: "src_of m \<in> set visited" "d (src_of m) \<le> length p" "dst_of m = x" "m \<in> set ms"
    by (auto simp: chain_snoc)
  have "src_of m \<notin> waiting queue"
  proof
    assume "src_of m \<in> waiting queue"
    then obtain e where e: "e \<in> set queue" "src_of m = ver_str (fst e)" by (auto simp: waiting_def)
    then have "depth_of_head queue \<le> length (snd e)"
      using inv by (cases queue) (auto simp: search_inv_def depth_of_head_def)
    with search_inv_waiting [OF inv e(1)] e snoc.prems(3) u(2) show False by auto
  qed
  with search_inv_taken [OF inv u(1)] u show ?case by fastforce
qed

lemma search_inv_found:
  assumes "search_inv ms s t ((current, path) # queue) visited d"
    and "chain s q t" "set q \<subseteq> set ms" "q \<noteq> []"
  shows "length path < length q"
  using search_inv_layer [OF assms(1), of q t] assms(2-) by (force simp: depth_of_head_def)

definition shortest :: "WorkflowMigration list \<Rightarrow> string \<Rightarrow> string \<Rightarrow> WorkflowMigration list \<Rightarrow> bool" where
  "shortest ms s t p \<longleftrightarrow>
     (if p = [] then \<nexists>q. q \<noteq> [] \<and> chain s q t \<and> set q \<subseteq> set ms
      else chain s p t \<and> set p \<subseteq> set ms \<and>
        (\<forall>q. q \<noteq> [] \<and> chain s q t \<and> set q \<subseteq> set ms \<longrightarrow> length p \<le> length q))"

lemma search_shortest:
  "search_inv ms s t queue visited d \<Longrightarrow> shortest ms s t (search ms t queue visited)"
proof (induction ms t queue visited arbitrary: d rule: search.induct)
  case (1 ms t visited)
  have "x \<noteq> t" if "q \<noteq> []" "chain s q x" "set q \<subseteq> set ms" for q x
    using search_inv_layer [OF 1 that(2,3)] that(1) by simp
  then show ?case by (auto simp: shortest_def)
next
  case (2 ms t current path queue visited)
  show ?case
  proof (cases "expand t current path ms queue visited")
    case (Inl p)
    from expand_found [OF Inl] obtain m where
      m: "m \<in> set ms" "src_of m = ver_str current" "dst_of m = t" "p = path @ [m]" by blast
    have "chain s path (ver_str current)" "set path \<subseteq> set ms"
      using search_inv_waiting [OF "2.prems", of "(current, path)"] by simp_all
    moreover have "length p \<le> length q" if "q \<noteq> []" "chain s q t" "set q \<subseteq> set ms" for q
      using search_inv_found [OF "2.prems" that(2,3,1)] m(4) by simp
    ultimately show ?thesis using m Inl by (auto simp: shortest_def chain_snoc)
  next
    case (Inr qv)
    obtain queue' visited' where qv: "qv = (queue', visited')" by (cases qv)
    with search_inv_step [OF "2.prems"] Inr obtain d' where "search_inv ms s t queue' visited' d'" by blast
    with "2.IH" [OF Inr qv [symmetric]] Inr qv show ?thesis by simp
  qed
qed

lemma search_start: "search_inv ms (ver_str v) t [(v, [])] [ver_str v] (\<lambda>_. 0)"
  by (simp add: search_inv_def waiting_def depth_of_head_def)

text \<open>
  The registry's invariant: workflows and migrations are stored under their own identifiers,
  and the versions of migrations are ones that a version string denotes.
\<close>

definition migration_ok :: "WorkflowMigration \<Rightarrow> bool" where
  "migration_ok m \<longleftrightarrow> ver_ok (from_version m) \<and> ver_ok (to_version m)"

definition migrations_ok :: "'d version_registry \<Rightarrow> bool" where
  "migrations_ok g \<longleftrightarrow> (\<forall>name ms k m. dict_get (vr_migrations g) name = Some ms \<longrightarrow> dict_get ms k = Some m \<longrightarrow>
     migration_id m = k \<and> migration_ok m)"

text \<open>No printed version holds the arrow of a migration key, so the key determines both versions.\<close>

lemma no_arrow:
  assumes "ver_ok v"
  shows "CHR ''>'' \<notin> set (ver_str v)"
proof -
  have "CHR ''>'' \<notin> set (show_nat n)" for n
    using show_nat_digits [of n] by (auto simp: list_all_iff is_digit_def)
  moreover have "CHR ''>'' \<notin> set (tag c p)" if "tag_ok p" "c \<noteq> CHR ''>''" for c p
    using that by (auto simp: tag_def tag_ok_def list_all_iff tag_char_def split: option.splits)
  ultimately show ?thesis using assms by (simp add: ver_str_def ver_ok_def show_int_def)
qed

lemma migration_key_inject:
  assumes "migration_key v w = migration_key v' w'" "ver_ok v" "ver_ok v'"
  shows "ver_str v = ver_str v' \<and> ver_str w = ver_str w'"
proof -
  have key: "takeWhile (\<lambda>c. c \<noteq> CHR ''>'') (migration_key a b) = ver_str a @ ''-'' \<and>
      dropWhile (\<lambda>c. c \<noteq> CHR ''>'') (migration_key a b) = CHR ''>'' # ver_str b" if "ver_ok a" for a b
  proof -
    have "\<forall>c \<in> set (ver_str a @ ''-''). c \<noteq> CHR ''>''" using no_arrow [OF that] by auto
    then show ?thesis by (simp add: migration_key_def takeWhile_append dropWhile_append)
  qed
  from key [OF assms(2), of w] key [OF assms(3), of w'] assms(1) show ?thesis by simp
qed

text \<open>The registry as a keyed store, and what every call on it keeps.\<close>

interpretation version_store: registry vr_register "\<lambda>g (name, ver). vr_get g name (Some ver)"
  "\<lambda>w. (vw_name w, ver_str (vw_version w))"
  by unfold_locales (auto simp: vr_register_def vr_get_def dict_get_set dict_get_or_def split: option.splits if_splits)

datatype 'd vr_call =
    Register "'d VersionedWorkflow"
  | Unregister string string
  | Add_migration string WorkflowMigration
  | Deprecate string string string

fun vr_step :: "'d vr_call \<Rightarrow> 'd version_registry \<Rightarrow> 'd version_registry" where
  "vr_step (Register w) g = vr_register w g"
| "vr_step (Unregister name ver) g = snd (vr_unregister name ver g)"
| "vr_step (Add_migration name m) g = add_migration name m g"
| "vr_step (Deprecate name ver message) g = snd (vr_deprecate name ver message g)"

definition vr_ok :: "'d version_registry \<Rightarrow> bool" where
  "vr_ok g \<longleftrightarrow>
     (\<forall>name vs. dict_get (vr_versions g) name = Some vs \<longrightarrow> dict_ok vs \<and>
        (\<forall>k w. dict_get vs k = Some w \<longrightarrow> vw_name w = name \<and> ver_str (vw_version w) = k)) \<and>
     (\<forall>name ms k m. dict_get (vr_migrations g) name = Some ms \<longrightarrow> dict_get ms k = Some m \<longrightarrow> migration_id m = k)"

lemma vr_step_ok: "vr_ok g \<Longrightarrow> vr_ok (vr_step call g)"
proof (induction call g rule: vr_step.induct)
  case (4 name ver message g)
  then show ?case
    by (fastforce simp: vr_ok_def vr_deprecate_def vr_get_def dict_get_set dict_get_or_def
        split: option.splits if_splits)
qed (auto simp: vr_ok_def vr_register_def vr_unregister_def add_migration_def dict_get_set dict_get_pop
    dict_get_or_def split: option.splits if_splits)

interpretation registry_run: invariant_machine vr_step vr_ok
  by unfold_locales (rule vr_step_ok)

section \<open>What versioning promises\<close>

text \<open>Printing and parsing are inverse: a version with non-negative numbers and well-formed tags
  reads back from its printed form unchanged, tags included, and every string the parser
  accepts denotes such a version.\<close>

theorem version_roundtrip:
  assumes "ver_ok v"
  shows "ver_parse (ver_str v) = Inr v \<and> (\<forall>s w. ver_parse s = Inr w \<longrightarrow> ver_ok w \<and> ver_parse (ver_str w) = Inr w)"
  using assms ver_parse_str ver_parse_ok by blast

definition beta_version :: WorkflowVersion where
  "beta_version = \<lparr>major = 1, minor = 20, patch = 3, prerelease = Some ''beta.1'', build = Some ''7''\<rparr>"

theorem version_roundtrip_witness:
  "ver_str beta_version = ''1.20.3-beta.1+7'' \<and> ver_parse ''1.20.3-beta.1+7'' = Inr beta_version"
proof -
  have "ver_ok beta_version" by code_simp
  moreover have "ver_str beta_version = ''1.20.3-beta.1+7''" by code_simp
  ultimately show ?thesis using version_roundtrip [of beta_version] by simp
qed

text \<open>C31. The migration search is exact: with the migrations a workflow has, the path returned is a
  shortest sequence of registered migrations that leads from the one version to the other,
  each starting where the previous one ended, and it is empty only when there is none. The
  search ends on every set of migrations, cyclic ones included.\<close>

theorem shortest_migration_path:
  assumes "migrations_ok g" "dict_get (vr_migrations g) name = Some ms" "ver_ok v" "ver_ok w"
  shows "shortest (dict_values ms) (ver_str v) (ver_str w) (get_migration_path g name v w)"
proof (cases "dict_get ms (migration_key v w)")
  case None
  with assms(2) search_shortest [OF search_start] show ?thesis by (simp add: get_migration_path_def)
next
  case (Some m)
  then have m: "m \<in> set (dict_values ms)" by (force simp: dict_values_def dest: map_of_SomeD)
  have "migration_key (from_version m) (to_version m) = migration_key v w" "ver_ok (from_version m)"
    using assms(1,2) Some by (auto simp: migrations_ok_def migration_ok_def migration_id_def)
  with migration_key_inject assms(3) have "src_of m = ver_str v" "dst_of m = ver_str w" by blast+
  with m Some assms(2) show ?thesis by (auto simp: get_migration_path_def shortest_def Suc_le_eq)
qed

lemma add_migration_ok:
  "migrations_ok g \<Longrightarrow> migration_ok m \<Longrightarrow> migrations_ok (add_migration name m g)"
  by (auto simp: migrations_ok_def add_migration_def dict_get_set dict_get_or_def split: option.splits if_splits)

definition hop :: "WorkflowVersion \<Rightarrow> WorkflowVersion \<Rightarrow> WorkflowMigration" where
  "hop v w = \<lparr>from_version = v, to_version = w, wm_steps = [], wm_description = VNone, wm_breaking = VBool False,
     wm_created_at = 0\<rparr>"

definition hops :: "unit version_registry" where
  "hops = fold (add_migration ''etl'')
     [hop (version 1 0 0) (version 1 1 0), hop (version 1 1 0) (version 1 0 0), hop (version 1 1 0) (version 1 2 0),
      hop (version 1 0 0) (version 1 2 0), hop (version 1 2 0) (version 2 0 0)] vr_init"

theorem shortest_migration_path_witness:
  "\<exists>ms. dict_get (vr_migrations hops) ''etl'' = Some ms \<and> length ms = 5 \<and>
     shortest (dict_values ms) ''1.0.0'' ''2.0.0'' (get_migration_path hops ''etl'' (version 1 0 0) (version 2 0 0)) \<and>
     map migration_id (get_migration_path hops ''etl'' (version 1 0 0) (version 2 0 0)) = [''1.0.0->1.2.0'', ''1.2.0->2.0.0'']"
proof -
  have ok: "migration_ok (hop (version 1 0 0) (version 1 1 0))" "migration_ok (hop (version 1 1 0) (version 1 0 0))"
    "migration_ok (hop (version 1 1 0) (version 1 2 0))" "migration_ok (hop (version 1 0 0) (version 1 2 0))"
    "migration_ok (hop (version 1 2 0) (version 2 0 0))" by (simp_all add: migration_ok_def hop_def ver_ok_def tag_ok_def)
  have "migrations_ok (vr_init :: unit version_registry)" by (simp add: migrations_ok_def vr_init_def)
  then have "migrations_ok hops" using ok by (simp add: hops_def add_migration_ok)
  moreover have len: "map_option length (dict_get (vr_migrations hops) ''etl'') = Some 5" by code_simp
  then obtain ms where ms: "dict_get (vr_migrations hops) ''etl'' = Some ms" "length ms = 5" by auto
  moreover have "ver_str (version 1 0 0) = ''1.0.0''" "ver_str (version 2 0 0) = ''2.0.0''" by code_simp+
  moreover have "map migration_id (get_migration_path hops ''etl'' (version 1 0 0) (version 2 0 0)) =
      [''1.0.0->1.2.0'', ''1.2.0->2.0.0'']" by code_simp
  moreover have "ver_ok (version 1 0 0)" "ver_ok (version 2 0 0)" by (simp_all add: ver_ok_def tag_ok_def)
  ultimately show ?thesis using shortest_migration_path [of hops "''etl''" ms "version 1 0 0" "version 2 0 0"] by auto
qed

text \<open>The latest version is a registered one that no registered version exceeds. Prerelease tags do
  not take part: of versions that differ only there the one registered first is the latest.\<close>

theorem latest_is_max:
  assumes "dict_get (vr_versions g) name = Some vs" "vs \<noteq> []"
  shows "\<exists>w. get_latest g name = Some w \<and> w \<in> set (dict_values vs) \<and>
    (\<forall>x \<in> set (dict_values vs). ver_ge (vw_version w) (vw_version x)) \<and>
    find (\<lambda>x. ver_key (vw_version x) = ver_key (vw_version w)) (dict_values vs) = Some w \<and>
    mset (get_all_versions g name) = mset (dict_values vs) \<and> hd (get_all_versions g name) = w"
proof -
  have "dict_values vs \<noteq> []" using assms(2) by (simp add: dict_values_def)
  from hd_sorted_desc [OF this, of "\<lambda>w. ver_key (vw_version w)"] assms show ?thesis
    by (simp add: get_latest_def get_all_versions_def ver_ge_def)
qed

definition release :: "string option \<Rightarrow> unit VersionedWorkflow" where
  "release pre = \<lparr>vw_name = ''etl'', vw_version = (version 1 0 0)\<lparr>prerelease := pre\<rparr>, vw_definition = (),
     vw_deprecated = False, vw_deprecation_message = [], vw_min_compatible = None, vw_created_at = 0,
     vw_checksum = ''c''\<rparr>"

theorem latest_is_max_witness:
  "get_latest (vr_register (release None) (vr_register (release (Some ''alpha'')) vr_init)) ''etl''
     = Some (release (Some ''alpha''))"
proof -
  let ?g = "vr_register (release None) (vr_register (release (Some ''alpha'')) vr_init)"
  have vs: "dict_get (vr_versions ?g) ''etl'' = Some [(''1.0.0-alpha'', release (Some ''alpha'')), (''1.0.0'', release None)]"
    by code_simp
  have "ver_key (vw_version (release p)) = (1, 0, 0)" for p by (simp add: release_def ver_key_def)
  with latest_is_max [OF vs] show ?thesis by (auto simp: dict_values_def)
qed

text \<open>An unquoted version number in YAML data is a float: reading the version accepts it, reading the
  migrations of the same data raises \<^verbatim>\<open>AttributeError\<close>.\<close>

theorem unquoted_version_asymmetry:
  "let data = [(''version'', VFloat 2), (''migrations'', VDict [(''from_version'', VStr ''1.0'')])] in
   parse_version_from_yaml (\<lambda>_. ''2.0'') data = Some (version 2 0 0) \<and>
   (\<exists>m. parse_migrations_from_yaml (\<lambda>_. ''2.0'') now data = Inl (PyExc ''AttributeError'' m))"
proof -
  have "ver_parse ''2.0'' = Inr (version 2 0 0)" "ver_parse ''1.0'' = Inr (version 1 0 0)" by code_simp+
  then show ?thesis
    by (simp add: Let_def parse_version_from_yaml_def py_str_def dict_get_or_def parse_migrations_from_yaml_def
        map_result_def parse_migration_def as_dict_def iterate_def parse_value_def no_attribute_def)
qed

end
