(* ===== verification/State_Machine.thy ===== *)
theory State_Machine
  imports Prelude
begin

text \<open>
  The generic state machine of \<^verbatim>\<open>victor/storage/state/machine.py\<close>: a configuration of stages
  and allowed transitions, and a machine whose methods move between them. Validators and
  detectors are functions that may raise; observers are named by numbers, their calls are
  recorded and their exceptions swallowed by the code. The clock is a function of the number
  of readings, as for the circuit breaker. The machine is compared with a step relation on
  stage names, the paths of which are an inductive predicate.
\<close>

section \<open>Configuration\<close>

record StateConfig =
  sc_stages :: "string list"
  sc_initial :: string
  sc_transitions :: "(string, string list) dict"
  sc_stage_tools :: "(string, string set) dict"
  sc_cooldown :: real
  sc_backward :: real

text \<open>The checks of the constructor: the first failing one raises.\<close>

fun target_check :: "string list \<Rightarrow> string \<Rightarrow> string list \<Rightarrow> unit result" where
  "target_check stages stage [] = Inr ()"
| "target_check stages stage (t # ts) =
     (if t \<notin> set stages
      then Inl (PyExc ''ValueError'' (''Transition target '' @ quoted t @ '' (from '' @ stage @ '') not in stages''))
      else target_check stages stage ts)"

fun transitions_check :: "string list \<Rightarrow> (string, string list) dict \<Rightarrow> unit result" where
  "transitions_check stages [] = Inr ()"
| "transitions_check stages ((stage, ts) # d) =
     (if stage \<notin> set stages
      then Inl (PyExc ''ValueError'' (''Transition source '' @ quoted stage @ '' not in stages''))
      else bind_result (target_check stages stage ts) (\<lambda>_. transitions_check stages d))"

definition state_config :: "StateConfig \<Rightarrow> StateConfig result" where
  "state_config c =
     (if sc_initial c \<notin> set (sc_stages c)
      then Inl (PyExc ''ValueError'' (''Initial stage '' @ quoted (sc_initial c) @ '' not in stages: '' @
             repr_strs (sc_stages c)))
      else bind_result (transitions_check (sc_stages c) (sc_transitions c)) (\<lambda>_. Inr c))"

section \<open>The machine\<close>

record StateTransition =
  from_stage :: string
  to_stage :: string
  tr_timestamp :: real
  tr_confidence :: real
  tr_context :: state

type_synonym validator = "string \<Rightarrow> string \<Rightarrow> state \<Rightarrow> (bool \<times> string) result"

type_synonym detector = "state \<Rightarrow> (string \<times> real) option result"

record StateMachine =
  sm_config :: StateConfig
  sm_stage :: string
  sm_stage_index :: "(string, nat) dict"
  sm_validators :: "validator list"
  sm_detectors :: "detector list"
  sm_observers :: "nat list"
  sm_history :: "StateTransition list"
  sm_last_time :: real
  sm_count :: int
  sm_reads :: nat
  sm_notified :: "(nat \<times> string \<times> string \<times> state) list"

text \<open>\<^verbatim>\<open>{stage: i for i, stage in enumerate(stages)}\<close>.\<close>

definition index_stages :: "string list \<Rightarrow> (string, nat) dict" where
  "index_stages stages = dict_update [] (zip stages [0..<length stages])"

definition sm_init :: "StateConfig \<Rightarrow> validator list \<Rightarrow> detector list \<Rightarrow> StateMachine" where
  "sm_init c validators detectors =
     \<lparr>sm_config = c, sm_stage = sc_initial c, sm_stage_index = index_stages (sc_stages c),
      sm_validators = validators, sm_detectors = detectors, sm_observers = [], sm_history = [],
      sm_last_time = 0, sm_count = 0, sm_reads = 0, sm_notified = []\<rparr>"

definition get_stage_index :: "StateMachine \<Rightarrow> nat result" where
  "get_stage_index m =
     (case dict_get (sm_stage_index m) (sm_stage m) of Some i \<Rightarrow> Inr i | None \<Rightarrow> Inl (KeyError (sm_stage m)))"

definition get_stage_tools :: "StateMachine \<Rightarrow> string set" where
  "get_stage_tools m = dict_get_or (sc_stage_tools (sm_config m)) (sm_stage m) {}"

definition get_valid_transitions :: "StateMachine \<Rightarrow> string list" where
  "get_valid_transitions m = dict_get_or (sc_transitions (sm_config m)) (sm_stage m) []"

definition can_transition_to :: "StateMachine \<Rightarrow> string \<Rightarrow> bool" where
  "can_transition_to m stage =
     (if \<not> dict_has (sm_stage_index m) stage then False else stage \<in> set (get_valid_transitions m))"

definition sm_clock :: "(nat \<Rightarrow> real) \<Rightarrow> StateMachine \<Rightarrow> real \<times> StateMachine" where
  "sm_clock clk m = (clk (sm_reads m), m\<lparr>sm_reads := Suc (sm_reads m)\<rparr>)"

text \<open>The first validator that rejects or raises decides.\<close>

fun run_validators :: "validator list \<Rightarrow> string \<Rightarrow> string \<Rightarrow> state \<Rightarrow> bool result" where
  "run_validators [] old stage context = Inr True"
| "run_validators (v # vs) old stage context =
     bind_result (v old stage context) (\<lambda>(valid, error).
       if \<not> valid then Inr False else run_validators vs old stage context)"

definition cooling_down :: "(nat \<Rightarrow> real) \<Rightarrow> StateMachine \<Rightarrow> bool \<times> StateMachine" where
  "cooling_down clk m =
     (if sc_cooldown (sm_config m) > 0
      then let (now, m) = sm_clock clk m
           in (now - sm_last_time m < sc_cooldown (sm_config m), m)
      else (False, m))"

definition perform_transition :: "(nat \<Rightarrow> real) \<Rightarrow> string \<Rightarrow> real \<Rightarrow> state \<Rightarrow> StateMachine \<Rightarrow> StateMachine" where
  "perform_transition clk stage confidence context m =
     (let old = sm_stage m;
          (now, m) = sm_clock clk m;
          m = m\<lparr>sm_stage := stage, sm_last_time := now, sm_count := sm_count m + 1\<rparr>;
          (stamp, m) = sm_clock clk m
      in m\<lparr>sm_history := sm_history m @ [\<lparr>from_stage = old, to_stage = stage, tr_timestamp = stamp,
                                          tr_confidence = confidence, tr_context = context\<rparr>],
           sm_notified := sm_notified m @ map (\<lambda>ob. (ob, old, stage, context)) (sm_observers m)\<rparr>)"

definition sm_transition_to ::
  "(nat \<Rightarrow> real) \<Rightarrow> string \<Rightarrow> real \<Rightarrow> state \<Rightarrow> StateMachine \<Rightarrow> bool result \<times> StateMachine" where
  "sm_transition_to clk stage confidence context m =
     (let old = sm_stage m
      in if \<not> dict_has (sm_stage_index m) stage then (Inr False, m)
         else if stage = old then (Inr True, m)
         else if \<not> can_transition_to m stage then (Inr False, m)
         else let (cooling, m) = cooling_down clk m
              in if cooling then (Inr False, m)
                 else case dict_get (sm_stage_index m) old of
                     None \<Rightarrow> (Inl (KeyError old), m)
                   | Some old_index \<Rightarrow>
                       (if the (dict_get (sm_stage_index m) stage) < old_index \<and>
                           confidence < sc_backward (sm_config m)
                        then (Inr False, m)
                        else case run_validators (sm_validators m) old stage context of
                            Inl e \<Rightarrow> (Inl e, m)
                          | Inr False \<Rightarrow> (Inr False, m)
                          | Inr True \<Rightarrow> (Inr True, perform_transition clk stage confidence context m)))"

text \<open>The best detection so far: a stage that can be reached, with the highest confidence.\<close>

definition consider_detection ::
  "StateMachine \<Rightarrow> state \<Rightarrow> detector \<Rightarrow> string option \<times> real \<Rightarrow> (string option \<times> real) result" where
  "consider_detection m context det best =
     bind_result (det context) (\<lambda>r. Inr
       (case r of
          None \<Rightarrow> best
        | Some (stage, confidence) \<Rightarrow>
            if confidence > snd best \<and> can_transition_to m stage then (Some stage, confidence) else best))"

definition detect_and_transition ::
  "(nat \<Rightarrow> real) \<Rightarrow> state \<Rightarrow> StateMachine \<Rightarrow> bool result \<times> StateMachine" where
  "detect_and_transition clk context m =
     (case fold_result (consider_detection m context) (sm_detectors m) (None, 0) of
        Inl e \<Rightarrow> (Inl e, m)
      | Inr (best, confidence) \<Rightarrow>
          (case best of
             None \<Rightarrow> (Inr False, m)
           | Some stage \<Rightarrow>
               (if stage \<noteq> [] \<and> confidence > 1 / 2 then sm_transition_to clk stage confidence context m
                else (Inr False, m))))"

definition sm_reset :: "StateMachine \<Rightarrow> StateMachine" where
  "sm_reset m = m\<lparr>sm_stage := sc_initial (sm_config m), sm_last_time := 0, sm_count := 0, sm_history := []\<rparr>"

definition add_observer :: "nat \<Rightarrow> StateMachine \<Rightarrow> StateMachine" where
  "add_observer ob m = m\<lparr>sm_observers := sm_observers m @ [ob]\<rparr>"

definition remove_observer :: "nat \<Rightarrow> StateMachine \<Rightarrow> StateMachine" where
  "remove_observer ob m = m\<lparr>sm_observers := remove1 ob (sm_observers m)\<rparr>"

definition add_validator :: "validator \<Rightarrow> StateMachine \<Rightarrow> StateMachine" where
  "add_validator v m = m\<lparr>sm_validators := sm_validators m @ [v]\<rparr>"

definition add_detector :: "detector \<Rightarrow> StateMachine \<Rightarrow> StateMachine" where
  "add_detector d m = m\<lparr>sm_detectors := sm_detectors m @ [d]\<rparr>"

text \<open>The serialized form: the stage, the count and the last ten transitions.\<close>

definition transition_value :: "StateTransition \<Rightarrow> pyval" where
  "transition_value t =
     VDict [(''from'', VStr (from_stage t)), (''to'', VStr (to_stage t)),
            (''timestamp'', VFloat (tr_timestamp t)), (''confidence'', VFloat (tr_confidence t))]"

definition sm_to_dict :: "StateMachine \<Rightarrow> state" where
  "sm_to_dict m =
     [(''current_stage'', VStr (sm_stage m)), (''transition_count'', VInt (sm_count m)),
      (''history'', VList (map transition_value (drop (length (sm_history m) - 10) (sm_history m))))]"

text \<open>
  Restoring takes the stage and the count as they are. Data with other types at these keys
  is outside the model (\<open>None\<close>).
\<close>

definition sm_from_dict :: "state \<Rightarrow> StateConfig \<Rightarrow> StateMachine option" where
  "sm_from_dict data c =
     (case (dict_get data ''current_stage'', dict_get data ''transition_count'') of
        (Some (VStr s), Some (VInt n)) \<Rightarrow> Some ((sm_init c [] [])\<lparr>sm_stage := s, sm_count := n\<rparr>)
      | (Some (VStr s), None) \<Rightarrow> Some ((sm_init c [] [])\<lparr>sm_stage := s\<rparr>)
      | (None, Some (VInt n)) \<Rightarrow> Some ((sm_init c [] [])\<lparr>sm_count := n\<rparr>)
      | (None, None) \<Rightarrow> Some (sm_init c [] [])
      | _ \<Rightarrow> None)"

section \<open>Paths of stages\<close>

text \<open>The specification: one step along a configured transition, and the paths of such steps.\<close>

inductive stage_step :: "StateConfig \<Rightarrow> string \<Rightarrow> string \<Rightarrow> bool" for c where
  "t \<in> set (dict_get_or (sc_transitions c) s []) \<Longrightarrow> t \<in> set (sc_stages c) \<Longrightarrow> s \<noteq> t \<Longrightarrow> stage_step c s t"

inductive_simps stage_step_iff: "stage_step c s t"

inductive stage_path :: "StateConfig \<Rightarrow> string \<Rightarrow> StateTransition list \<Rightarrow> string \<Rightarrow> bool" for c where
  path_nil: "stage_path c s [] s"
| path_snoc: "stage_path c s h (from_stage t) \<Longrightarrow> stage_step c (from_stage t) (to_stage t) \<Longrightarrow>
    stage_path c s (h @ [t]) (to_stage t)"

inductive_cases stage_path_snocE: "stage_path c s (h @ [t]) u"

lemma stage_path_reaches: "stage_path c s h t \<Longrightarrow> (stage_step c)\<^sup>*\<^sup>* s t"
  by (induction rule: stage_path.induct) auto

lemma stage_path_stages: "stage_path c s h t \<Longrightarrow> s \<in> set (sc_stages c) \<Longrightarrow> t \<in> set (sc_stages c)"
  by (induction rule: stage_path.induct) (auto simp: stage_step_iff)

text \<open>Entries of the history that lead backwards had enough confidence.\<close>

definition backward_ok :: "StateMachine \<Rightarrow> bool" where
  "backward_ok m \<longleftrightarrow> (\<forall>t \<in> set (sm_history m). \<forall>i j.
     dict_get (sm_stage_index m) (from_stage t) = Some i \<longrightarrow> dict_get (sm_stage_index m) (to_stage t) = Some j \<longrightarrow>
     j < i \<longrightarrow> sc_backward (sm_config m) \<le> tr_confidence t)"

definition sm_ok :: "StateConfig \<Rightarrow> StateMachine \<Rightarrow> bool" where
  "sm_ok c m \<longleftrightarrow> sm_config m = c \<and> sm_stage_index m = index_stages (sc_stages c) \<and>
     stage_path c (sc_initial c) (sm_history m) (sm_stage m) \<and>
     sm_count m = int (length (sm_history m)) \<and> backward_ok m"

lemma dict_has_index [simp]: "dict_has (index_stages stages) s \<longleftrightarrow> s \<in> set stages"
proof -
  have "dict_get (rev (zip stages [0..<length stages])) s \<noteq> None \<longleftrightarrow> s \<in> set stages"
    by (simp add: map_of_eq_None_iff set_zip in_set_conv_nth flip: rev_map)
      (force simp: in_set_conv_nth image_iff)
  then show ?thesis
    by (cases "dict_get (rev (zip stages [0..<length stages])) s") (auto simp: index_stages_def dict_has_def dict_get_update)
qed

datatype sm_call =
    Transition_to string real state
  | Detect state
  | Reset_machine
  | Add_observer nat
  | Remove_observer nat
  | Add_validator validator
  | Add_detector detector

fun sm_step :: "(nat \<Rightarrow> real) \<Rightarrow> sm_call \<Rightarrow> StateMachine \<Rightarrow> StateMachine" where
  "sm_step clk (Transition_to stage confidence context) m = snd (sm_transition_to clk stage confidence context m)"
| "sm_step clk (Detect context) m = snd (detect_and_transition clk context m)"
| "sm_step clk Reset_machine m = sm_reset m"
| "sm_step clk (Add_observer ob) m = add_observer ob m"
| "sm_step clk (Remove_observer ob) m = remove_observer ob m"
| "sm_step clk (Add_validator v) m = add_validator v m"
| "sm_step clk (Add_detector d) m = add_detector d m"

lemma cooling_down_frame: "snd (cooling_down clk m) = m\<lparr>sm_reads := sm_reads (snd (cooling_down clk m))\<rparr>"
  by (simp add: cooling_down_def sm_clock_def Let_def)

text \<open>What a transition can do: nothing but reading the clock, or one performed step.\<close>

lemma transition_to_cases:
  assumes "sm_transition_to clk stage confidence context m = (r, m')"
  obtains (same) n where "m' = m\<lparr>sm_reads := n\<rparr>"
    | (moved) n i j where "r = Inr True" "m' = perform_transition clk stage confidence context (m\<lparr>sm_reads := n\<rparr>)"
      "stage \<noteq> sm_stage m" "can_transition_to m stage"
      "dict_get (sm_stage_index m) (sm_stage m) = Some i" "dict_get (sm_stage_index m) stage = Some j"
      "j < i \<longrightarrow> sc_backward (sm_config m) \<le> confidence"
proof -
  obtain cooling m1 where c: "cooling_down clk m = (cooling, m1)" by (cases "cooling_down clk m")
  then obtain n where m1: "m1 = m\<lparr>sm_reads := n\<rparr>" using cooling_down_frame [of clk m] by auto
  have self: "m = m\<lparr>sm_reads := sm_reads m\<rparr>" by simp
  show ?thesis
  proof (cases "m' = m\<lparr>sm_reads := n\<rparr> \<or> m' = m")
    case True
    then show ?thesis using same self by metis
  next
    case False
    then have "m' = perform_transition clk stage confidence context m1 \<and> r = Inr True \<and> stage \<noteq> sm_stage m \<and>
        can_transition_to m stage \<and> (\<exists>i. dict_get (sm_stage_index m) (sm_stage m) = Some i \<and>
          (the (dict_get (sm_stage_index m) stage) < i \<longrightarrow> sc_backward (sm_config m) \<le> confidence))"
      using assms c m1
      by (auto simp: sm_transition_to_def Let_def not_less split: if_splits option.splits sum.splits bool.splits)
    moreover from this obtain j where "dict_get (sm_stage_index m) stage = Some j"
      by (auto simp: can_transition_to_def dict_has_def split: if_splits)
    ultimately show ?thesis using moved m1 by auto
  qed
qed

lemma sm_ok_reads: "sm_ok c m \<Longrightarrow> sm_ok c (m\<lparr>sm_reads := n\<rparr>)"
  by (auto simp: sm_ok_def backward_ok_def)

lemma transition_to_ok: "sm_ok c m \<Longrightarrow> sm_ok c (snd (sm_transition_to clk stage confidence context m))"
proof -
  assume ok: "sm_ok c m"
  obtain r m' where t: "sm_transition_to clk stage confidence context m = (r, m')"
    by (cases "sm_transition_to clk stage confidence context m")
  from t show ?thesis
  proof (cases rule: transition_to_cases)
    case (same n)
    with ok t show ?thesis by (simp add: sm_ok_reads)
  next
    case (moved n i j)
    let ?t = "\<lparr>from_stage = sm_stage m, to_stage = stage, tr_timestamp = clk (Suc n), tr_confidence = confidence,
        tr_context = context\<rparr>"
    have step: "stage_step c (sm_stage m) stage"
      using ok moved by (auto simp: stage_step_iff can_transition_to_def get_valid_transitions_def sm_ok_def split: if_splits)
    have path: "stage_path c (sc_initial c) (sm_history m @ [?t]) stage"
      using ok step path_snoc [of c "sc_initial c" "sm_history m" ?t] by (simp add: sm_ok_def)
    show ?thesis using ok t moved path
      by (auto simp: sm_ok_def backward_ok_def perform_transition_def sm_clock_def Let_def)
  qed
qed

lemma sm_step_ok: "sm_ok c m \<Longrightarrow> sm_ok c (sm_step clk call m)"
proof (cases call)
  case (Detect ctx)
  assume "sm_ok c m"
  with Detect show ?thesis
    by (auto simp: detect_and_transition_def transition_to_ok split: sum.splits option.splits)
next
  case (Transition_to stage confidence ctx)
  assume "sm_ok c m"
  with Transition_to show ?thesis by (simp add: transition_to_ok)
qed (auto simp: sm_reset_def add_observer_def remove_observer_def add_validator_def
    add_detector_def sm_ok_def backward_ok_def path_nil)

interpretation machine_run: invariant_machine "sm_step clk" "sm_ok c" for clk c
  by unfold_locales (rule sm_step_ok)

section \<open>What the machine promises\<close>

text \<open>Whatever calls are made on a fresh machine of a valid configuration, and whatever the
  validators, detectors, observers and the clock do, its history is a path of configured
  transitions from the initial stage (since the last reset) to the current stage, its count is
  the length of the history, the current stage is a stage of the configuration, and every
  backward step had at least the required confidence.\<close>

theorem machine_follows_graph:
  assumes "state_config c = Inr c"
  shows "let m = fold (sm_step clk) calls (sm_init c validators detectors) in
    stage_path c (sc_initial c) (sm_history m) (sm_stage m) \<and> (stage_step c)\<^sup>*\<^sup>* (sc_initial c) (sm_stage m) \<and>
    sm_stage m \<in> set (sc_stages c) \<and> sm_count m = int (length (sm_history m)) \<and> backward_ok m"
proof -
  have "sm_ok c (sm_init c validators detectors)"
    by (simp add: sm_ok_def sm_init_def backward_ok_def path_nil)
  then have ok: "sm_ok c (fold (sm_step clk) calls (sm_init c validators detectors))" by (rule machine_run.run_inv)
  moreover have "sc_initial c \<in> set (sc_stages c)" using assms by (auto simp: state_config_def split: if_splits)
  ultimately show ?thesis
    using stage_path_reaches stage_path_stages unfolding sm_ok_def Let_def by blast
qed

definition review_config :: StateConfig where
  "review_config = \<lparr>sc_stages = [''DRAFT'', ''REVIEW'', ''APPROVED''], sc_initial = ''DRAFT'',
     sc_transitions = [(''DRAFT'', [''REVIEW'']), (''REVIEW'', [''APPROVED'', ''DRAFT''])], sc_stage_tools = [],
     sc_cooldown = 0, sc_backward = 4 / 5\<rparr>"

theorem machine_follows_graph_witness:
  "let m = fold (sm_step (\<lambda>n. of_nat n)) [Transition_to ''REVIEW'' 1 [], Transition_to ''DRAFT'' (1 / 2) []]
             (sm_init review_config [] []) in
   sm_stage m = ''REVIEW'' \<and> stage_path review_config ''DRAFT'' (sm_history m) ''REVIEW''"
proof -
  let ?m = "fold (sm_step (\<lambda>n. of_nat n)) [Transition_to ''REVIEW'' 1 [], Transition_to ''DRAFT'' (1 / 2) []]
             (sm_init review_config [] [])"
  have "state_config review_config = Inr review_config"
    by (simp add: state_config_def review_config_def)
  moreover have "sm_stage ?m = ''REVIEW''"
    by (simp add: sm_transition_to_def sm_init_def review_config_def index_stages_def dict_has_def
        can_transition_to_def get_valid_transitions_def dict_get_or_def cooling_down_def perform_transition_def
        sm_clock_def Let_def upt_rec)
  ultimately show ?thesis
    using machine_follows_graph [of review_config "\<lambda>n. of_nat n"
        "[Transition_to ''REVIEW'' 1 [], Transition_to ''DRAFT'' (1 / 2) []]" "[]" "[]"]
    by (simp add: Let_def review_config_def)
qed

text \<open>A transition to another stage happens exactly when it is configured, the cooldown since
  the last one has passed, it does not lead backwards with too little confidence, and every
  validator accepts it; otherwise the stage, the count and the history are as before.\<close>

theorem transition_exact:
  assumes "sm_ok c m" "sc_initial c \<in> set (sc_stages c)" "stage \<noteq> sm_stage m"
    and "run_validators (sm_validators m) (sm_stage m) stage ctx = Inr accepted"
  shows "\<exists>m'. sm_transition_to clk stage confidence ctx m = (Inr (
      stage_step c (sm_stage m) stage \<and> accepted \<and>
      (sc_cooldown c > 0 \<longrightarrow> sc_cooldown c \<le> clk (sm_reads m) - sm_last_time m) \<and>
      (the (dict_get (sm_stage_index m) stage) < the (dict_get (sm_stage_index m) (sm_stage m)) \<longrightarrow>
         sc_backward c \<le> confidence)), m') \<and>
    (if fst (sm_transition_to clk stage confidence ctx m) = Inr True
     then sm_stage m' = stage \<and> sm_count m' = sm_count m + 1 \<and> length (sm_history m') = Suc (length (sm_history m))
     else sm_stage m' = sm_stage m \<and> sm_count m' = sm_count m \<and> sm_history m' = sm_history m)"
proof -
  have cfg: "sm_config m = c" "sm_stage_index m = index_stages (sc_stages c)" using assms(1) by (simp_all add: sm_ok_def)
  have "sm_stage m \<in> set (sc_stages c)" using assms(1,2) stage_path_stages by (auto simp: sm_ok_def)
  then obtain i where i: "dict_get (sm_stage_index m) (sm_stage m) = Some i"
    using cfg(2) by (metis dict_has_def dict_has_index not_None_eq)
  have can: "dict_has (sm_stage_index m) stage \<and> can_transition_to m stage \<longleftrightarrow> stage_step c (sm_stage m) stage"
    using assms(3) cfg by (auto simp: stage_step_iff can_transition_to_def get_valid_transitions_def)
  obtain n where cool: "cooling_down clk m =
      (sc_cooldown c > 0 \<and> clk (sm_reads m) - sm_last_time m < sc_cooldown c, m\<lparr>sm_reads := n\<rparr>)"
  proof (cases "sc_cooldown c > 0")
    case True
    then show ?thesis using that cfg by (simp add: cooling_down_def sm_clock_def)
  next
    case False
    then show ?thesis using that [of "sm_reads m"] cfg by (simp add: cooling_down_def)
  qed
  show ?thesis
    using assms(3,4) i can cool cfg(1)
    by (cases accepted)
      (auto simp: sm_transition_to_def Let_def perform_transition_def sm_clock_def not_less stage_step_iff
        can_transition_to_def split: if_splits)
qed

theorem transition_exact_witness:
  "let m = sm_init review_config [] [] in
   fst (sm_transition_to (\<lambda>n. 0) ''REVIEW'' 1 [] m) = Inr True \<and>
   fst (sm_transition_to (\<lambda>n. 0) ''APPROVED'' 1 [] m) = Inr False"
proof -
  let ?m = "sm_init review_config [] []"
  have m: "sm_ok review_config ?m" "sc_initial review_config \<in> set (sc_stages review_config)" "sm_stage ?m = ''DRAFT''"
    "sm_validators ?m = []" "sc_cooldown review_config = 0"
    by (simp_all add: sm_ok_def sm_init_def backward_ok_def path_nil review_config_def)
  have st: "stage_step review_config ''DRAFT'' ''REVIEW''" "\<not> stage_step review_config ''DRAFT'' ''APPROVED''"
    by (simp_all add: stage_step_iff review_config_def dict_get_or_def)
  have idx: "the (dict_get (sm_stage_index ?m) ''REVIEW'') = 1" "the (dict_get (sm_stage_index ?m) ''DRAFT'') = 0"
    by (simp_all add: sm_init_def review_config_def index_stages_def upt_rec)
  show ?thesis
    using transition_exact [OF m(1,2), of "''REVIEW''" "[]" True "\<lambda>n. 0" 1]
      transition_exact [OF m(1,2), of "''APPROVED''" "[]" True "\<lambda>n. 0" 1] m st idx
    by (auto simp: Let_def)
qed

text \<open>Saving and restoring keeps the stage and the count and drops the history; a restored
  stage that the configuration does not know can never be left by a transition.\<close>

theorem restore_semantics:
  assumes "state_config c = Inr c"
  shows "\<exists>r. sm_from_dict (sm_to_dict m) c = Some r \<and> sm_stage r = sm_stage m \<and> sm_count r = sm_count m \<and>
    sm_history r = [] \<and>
    (sm_stage m \<notin> set (sc_stages c) \<longrightarrow> sm_transition_to clk stage confidence ctx r = (Inr False, r))"
proof -
  have known: "s \<in> set (sc_stages c)" if "dict_get (sc_transitions c) s = Some ts" for s ts
  proof -
    have "transitions_check stages d = Inr () \<Longrightarrow> (s, ts) \<in> set d \<Longrightarrow> s \<in> set stages" for stages d
      by (induction stages d rule: transitions_check.induct) (auto simp: bind_result_eq_Inr split: if_splits)
    then show ?thesis using assms that
      by (auto simp: state_config_def bind_result_eq_Inr split: if_splits dest!: map_of_SomeD)
  qed
  let ?r = "(sm_init c [] [])\<lparr>sm_stage := sm_stage m, sm_count := sm_count m\<rparr>"
  have "sm_transition_to clk stage confidence ctx ?r = (Inr False, ?r)" if "sm_stage m \<notin> set (sc_stages c)"
  proof -
    have "dict_get (sc_transitions c) (sm_stage m) = None" using that known by fastforce
    with that show ?thesis
      by (auto simp: sm_transition_to_def sm_init_def can_transition_to_def get_valid_transitions_def dict_get_or_def Let_def)
  qed
  then show ?thesis by (intro exI [of _ ?r]) (simp add: sm_from_dict_def sm_to_dict_def sm_init_def)
qed

theorem restore_semantics_witness:
  "\<exists>r. sm_from_dict (sm_to_dict ((sm_init review_config [] [])\<lparr>sm_stage := ''DELETED''\<rparr>)) review_config = Some r \<and>
     sm_transition_to (\<lambda>n. 0) ''REVIEW'' 1 [] r = (Inr False, r)"
proof -
  have "state_config review_config = Inr review_config" "''DELETED'' \<notin> set (sc_stages review_config)"
    by (simp_all add: state_config_def review_config_def)
  then show ?thesis
    using restore_semantics [of review_config "(sm_init review_config [] [])\<lparr>sm_stage := ''DELETED''\<rparr>" "\<lambda>n. 0" "''REVIEW''" 1 "[]"]
    by auto
qed

end
