(* ===== verification/Tool_Names.thy ===== *)
theory Tool_Names
  imports Prelude
begin

text \<open>
  Tool names as providers emit them and as the runtime knows them:
  \<^verbatim>\<open>victor/tools/core_tool_aliases.py\<close>, with the two helpers of
  \<^verbatim>\<open>victor/agent/action_authorizer.py\<close> that build on it. The regular expressions of the
  source are written out as recursions that carry the character before the current one, which
  is what a lookbehind sees. The alias table of the contracts package is the parameter
  \<open>canon\<close> of the functions that consult it.
\<close>

section \<open>Normalization\<close>

definition ascii_upper :: "char \<Rightarrow> bool" where
  "ascii_upper c = (let n = (of_char c :: nat) in 65 \<le> n \<and> n \<le> 90)"

definition ascii_lower :: "char \<Rightarrow> bool" where
  "ascii_lower c = (let n = (of_char c :: nat) in 97 \<le> n \<and> n \<le> 122)"

definition lower_or_digit :: "char \<Rightarrow> bool" where
  "lower_or_digit c \<longleftrightarrow> ascii_lower c \<or> is_digit c"

text \<open>\<^verbatim>\<open>.replace("-", "_").replace(".", "_")\<close>.\<close>

definition separators :: "string \<Rightarrow> string" where
  "separators s = map (\<lambda>c. if c = CHR ''-'' \<or> c = CHR ''.'' then CHR ''_'' else c) s"

text \<open>An underscore before a capital that follows a lower-case letter or a digit.\<close>

fun split_words :: "char option \<Rightarrow> string \<Rightarrow> string" where
  "split_words p [] = []"
| "split_words p (c # s) =
     (if ascii_upper c \<and> (case p of None \<Rightarrow> False | Some q \<Rightarrow> lower_or_digit q)
      then CHR ''_'' # c # split_words (Some c) s else c # split_words (Some c) s)"

text \<open>An underscore before the last capital of a run of capitals that goes on in lower case.\<close>

fun split_acronyms :: "char option \<Rightarrow> string \<Rightarrow> string" where
  "split_acronyms p (c # d # s) =
     (if ascii_upper c \<and> ascii_lower d \<and> (case p of None \<Rightarrow> False | Some q \<Rightarrow> ascii_upper q)
      then CHR ''_'' # c # d # split_acronyms (Some d) s else c # split_acronyms (Some c) (d # s))"
| "split_acronyms p s = s"

text \<open>\<^verbatim>\<open>re.sub(r"_+", "_", s)\<close>.\<close>

fun collapse :: "string \<Rightarrow> string" where
  "collapse (c # d # s) = (if c = CHR ''_'' \<and> d = CHR ''_'' then collapse (d # s) else c # collapse (d # s))"
| "collapse s = s"

definition normalize_model_tool_name :: "string \<Rightarrow> string" where
  "normalize_model_tool_name name =
     (let cleaned = py_strip name
      in if cleaned = [] then []
         else py_lower (collapse (split_acronyms None (split_words None (separators cleaned)))))"

definition CORE_TOOL_ALIASES :: "(string, string) dict" where
  "CORE_TOOL_ALIASES =
     [(''read_file'', ''read''), (''list_directory'', ''ls''), (''write_file'', ''write''), (''create_file'', ''write''),
      (''edit_files'', ''edit''), (''edit_file'', ''edit''), (''patch_file'', ''edit''),
      (''execute_bash'', ''shell''), (''bash'', ''shell'')]"

definition canonicalize_core_tool_name :: "string \<Rightarrow> string" where
  "canonicalize_core_tool_name name =
     (let normalized = normalize_model_tool_name name in dict_get_or CORE_TOOL_ALIASES normalized normalized)"

section \<open>Policy names\<close>

definition normalize_tool_name_for_policy :: "(string \<Rightarrow> string) \<Rightarrow> string \<Rightarrow> string" where
  "normalize_tool_name_for_policy canon tool_name = canon (canonicalize_core_tool_name tool_name)"

text \<open>The write tools: every name given, in the three spellings a lookup may use.\<close>

definition build_write_tool_set :: "(string \<Rightarrow> string) \<Rightarrow> string set \<Rightarrow> string set \<Rightarrow> string list \<Rightarrow> string set" where
  "build_write_tool_set canon registered write_tools extra =
     (let names = Set.filter (\<lambda>n. n \<noteq> []) (registered \<union> write_tools \<union> set extra)
      in normalize_tool_name_for_policy canon ` names \<union> names \<union> canonicalize_core_tool_name ` names)"

section \<open>Normal forms\<close>

text \<open>A normal form has no capitals, no separators, no doubled underscore and no outer space.\<close>

definition plain_char :: "char \<Rightarrow> bool" where
  "plain_char c \<longleftrightarrow> lower_char c = c \<and> c \<noteq> CHR ''-'' \<and> c \<noteq> CHR ''.''"

definition has_lower :: "char \<Rightarrow> bool" where
  "has_lower c = (let n = (of_char c :: nat) in 65 \<le> n \<and> n \<le> 90 \<or> 192 \<le> n \<and> n \<le> 222 \<and> n \<noteq> 215)"

lemma lower_char_cases:
  obtains (kept) "lower_char c = c" "\<not> ascii_upper c"
    | (lowered) "(of_char (lower_char c) :: nat) = of_char c + 32" "has_lower c"
proof (cases "has_lower c")
  case True
  then have "(of_char c :: nat) + 32 < 256" by (auto simp: has_lower_def Let_def)
  with True lowered show ?thesis by (simp add: lower_char_def has_lower_def Let_def)
next
  case False
  then show ?thesis by (intro kept) (auto simp: lower_char_def has_lower_def ascii_upper_def Let_def)
qed

lemma lower_char_idem [simp]: "lower_char (lower_char c) = lower_char c"
proof (cases c rule: lower_char_cases)
  case lowered
  then show ?thesis by (auto simp: lower_char_def [of "lower_char c"] has_lower_def Let_def)
qed simp

lemma lower_char_keeps:
  assumes "lower_char d = d" "(of_char d :: nat) < 97"
  shows "lower_char c = d \<longleftrightarrow> c = d"
proof (cases c rule: lower_char_cases)
  case lowered
  with assms show ?thesis by (auto simp: has_lower_def lower_char_def [of d] Let_def split: if_splits)
qed simp

lemma lower_char_marks [simp]:
  "lower_char c = CHR ''-'' \<longleftrightarrow> c = CHR ''-''" "lower_char c = CHR ''.'' \<longleftrightarrow> c = CHR ''.''"
  "lower_char c = CHR ''_'' \<longleftrightarrow> c = CHR ''_''"
  by (rule lower_char_keeps; simp add: lower_char_def Let_def)+

lemma lower_not_upper: "lower_char c = c \<Longrightarrow> \<not> ascii_upper c"
  by (cases c rule: lower_char_cases) simp_all

lemma space_lower [simp]: "py_space (lower_char c) = py_space c"
proof (cases c rule: lower_char_cases)
  case lowered
  then show ?thesis by (auto simp: py_space_def has_lower_def Let_def)
qed simp

text \<open>The passes of the normalization: what they keep, and that they do nothing on a normal form.\<close>

definition trimmed :: "string \<Rightarrow> bool" where
  "trimmed s \<longleftrightarrow> s \<noteq> [] \<and> \<not> py_space (hd s) \<and> \<not> py_space (last s)"

definition tool_normal :: "string \<Rightarrow> bool" where
  "tool_normal s \<longleftrightarrow> list_all plain_char s \<and> collapse s = s \<and> trimmed s"

lemma dropWhile_id: "s = [] \<or> \<not> P (hd s) \<Longrightarrow> dropWhile P s = s"
  by (cases s) auto

lemma strip_trimmed: "trimmed s \<Longrightarrow> py_strip s = s"
  by (simp add: py_strip_def trimmed_def dropWhile_id hd_rev)

lemma trimmed_strip: "py_strip s \<noteq> [] \<Longrightarrow> trimmed (py_strip s)"
proof -
  define u where "u = dropWhile py_space s"
  define w where "w = dropWhile py_space (rev u)"
  assume "py_strip s \<noteq> []"
  then have w: "w \<noteq> []" by (simp add: py_strip_def u_def w_def)
  then have u: "u \<noteq> []" by (auto simp: w_def)
  have "\<not> py_space (hd u)" using u by (simp add: u_def hd_dropWhile)
  moreover obtain v where "rev u = v @ w" by (metis takeWhile_dropWhile_id w_def)
  then have "hd u = last w" using w u by (metis hd_rev last_appendR rev_rev_ident)
  moreover have "\<not> py_space (hd w)" using w by (simp add: w_def hd_dropWhile)
  ultimately show "trimmed (py_strip s)"
    using w by (simp add: trimmed_def py_strip_def hd_rev last_rev flip: u_def w_def)
qed

lemma split_words_plain: "list_all plain_char s \<Longrightarrow> split_words p s = s"
  by (induction p s rule: split_words.induct) (auto simp: plain_char_def lower_not_upper)

lemma split_acronyms_plain: "list_all plain_char s \<Longrightarrow> split_acronyms p s = s"
  by (induction p s rule: split_acronyms.induct) (auto simp: plain_char_def lower_not_upper)

lemma separators_plain: "list_all plain_char s \<Longrightarrow> separators s = s"
  by (induction s) (auto simp: separators_def plain_char_def)

lemma lower_plain: "list_all plain_char s \<Longrightarrow> py_lower s = s"
  by (induction s) (auto simp: py_lower_def plain_char_def)

lemma normalize_normal: "tool_normal s \<Longrightarrow> normalize_model_tool_name s = s"
  by (simp add: tool_normal_def normalize_model_tool_name_def strip_trimmed Let_def separators_plain
      split_words_plain split_acronyms_plain lower_plain)

text \<open>The ends of a word survive every pass.\<close>

lemma separators_ends: "trimmed s \<Longrightarrow> trimmed (separators s)"
  by (auto simp: trimmed_def separators_def hd_map last_map py_space_def)

lemma split_words_nonempty [simp]: "split_words p s = [] \<longleftrightarrow> s = []"
  by (cases s) auto

lemma split_words_last: "s \<noteq> [] \<Longrightarrow> last (split_words p s) = last s"
  by (induction p s rule: split_words.induct) auto

lemma split_words_ends: "trimmed s \<Longrightarrow> trimmed (split_words None s)"
  by (cases s) (auto simp: trimmed_def split_words_last)

lemma split_acronyms_nonempty [simp]: "split_acronyms p s = [] \<longleftrightarrow> s = []"
  by (cases "(p, s)" rule: split_acronyms.cases) auto

lemma split_acronyms_last: "s \<noteq> [] \<Longrightarrow> last (split_acronyms p s) = last s"
  by (induction p s rule: split_acronyms.induct) auto

lemma split_acronyms_ends: "trimmed s \<Longrightarrow> trimmed (split_acronyms None s)"
  by (cases "(None :: char option, s)" rule: split_acronyms.cases) (auto simp: trimmed_def split_acronyms_last)

lemma collapse_nonempty [simp]: "collapse s = [] \<longleftrightarrow> s = []"
  by (induction s rule: collapse.induct) auto

lemma collapse_hd: "hd (collapse s) = hd s"
  by (induction s rule: collapse.induct) auto

lemma collapse_last: "last (collapse s) = last s"
  by (induction s rule: collapse.induct) auto

lemma collapse_ends: "trimmed s \<Longrightarrow> trimmed (collapse s)"
  by (simp add: trimmed_def collapse_hd collapse_last)

lemma lower_ends: "trimmed s \<Longrightarrow> trimmed (py_lower s)"
  by (simp add: trimmed_def py_lower_def hd_map last_map)

text \<open>No pass brings a separator back, and collapsing happens once.\<close>

lemma split_words_set: "set (split_words p s) \<subseteq> insert (CHR ''_'') (set s)"
  by (induction p s rule: split_words.induct) auto

lemma split_acronyms_set: "set (split_acronyms p s) \<subseteq> insert (CHR ''_'') (set s)"
  by (induction p s rule: split_acronyms.induct) auto

lemma collapse_set: "set (collapse s) \<subseteq> set s"
  by (induction s rule: collapse.induct) auto

lemma collapse_Cons: "collapse (c # s) = (if c = CHR ''_'' \<and> s \<noteq> [] \<and> hd s = CHR ''_'' then collapse s else c # collapse s)"
  by (cases s) auto

lemma collapse_idem: "collapse (collapse s) = collapse s"
  by (induction s rule: collapse.induct) (auto simp: collapse_Cons [of _ "collapse (_ # _)"] collapse_hd)

lemma collapse_lower: "collapse (py_lower s) = py_lower (collapse s)"
  by (induction s rule: collapse.induct) (auto simp: py_lower_def)

lemma plain_lower: "list_all plain_char (py_lower s) \<longleftrightarrow> CHR ''-'' \<notin> set s \<and> CHR ''.'' \<notin> set s"
  by (auto simp: py_lower_def list_all_iff plain_char_def)

lemma normalize_result: "normalize_model_tool_name s = [] \<or> tool_normal (normalize_model_tool_name s)"
proof (cases "py_strip s = []")
  case True
  then show ?thesis by (simp add: normalize_model_tool_name_def)
next
  case False
  let ?u = "split_acronyms None (split_words None (separators (py_strip s)))"
  have "set ?u \<subseteq> insert (CHR ''_'') (set (separators (py_strip s)))"
    using split_acronyms_set split_words_set by blast
  then have "CHR ''-'' \<notin> set ?u" "CHR ''.'' \<notin> set ?u" by (auto simp: separators_def)
  then have "list_all plain_char (py_lower (collapse ?u))"
    using collapse_set unfolding plain_lower by blast
  moreover have "trimmed (py_lower (collapse ?u))"
    using False by (intro lower_ends collapse_ends split_acronyms_ends split_words_ends separators_ends trimmed_strip)
  ultimately show ?thesis
    using False by (simp add: tool_normal_def normalize_model_tool_name_def Let_def collapse_lower collapse_idem)
qed

lemma normalize_idem [simp]: "normalize_model_tool_name (normalize_model_tool_name s) = normalize_model_tool_name s"
proof (cases "normalize_model_tool_name s = []")
  case True
  then show ?thesis by (simp only: True) (simp add: normalize_model_tool_name_def py_strip_def)
next
  case False
  then show ?thesis using normalize_result [of s] by (simp add: normalize_normal)
qed

lemma alias_targets:
  "list_all (\<lambda>v. normalize_model_tool_name v = v \<and> dict_get CORE_TOOL_ALIASES v = None) (dict_values CORE_TOOL_ALIASES)"
  by code_simp

lemma alias_target_fixed:
  "dict_get CORE_TOOL_ALIASES n = Some v \<Longrightarrow> normalize_model_tool_name v = v \<and> dict_get CORE_TOOL_ALIASES v = None"
  using alias_targets by (auto simp: list_all_iff dict_values_def dest!: map_of_SomeD)

section \<open>What canonical names promise\<close>

text \<open>A canonical name is canonical: resolving a tool name a second time changes nothing, so
  however often a name passes through the lookups it stays the same. A canonical name has no
  capital of the Latin alphabet, no hyphen or dot, and no two underscores in a row.\<close>

theorem canonicalize_idempotent:
  "canonicalize_core_tool_name (canonicalize_core_tool_name name) = canonicalize_core_tool_name name \<and>
   list_all (\<lambda>c. \<not> ascii_upper c \<and> c \<noteq> CHR ''-'' \<and> c \<noteq> CHR ''.'') (canonicalize_core_tool_name name) \<and>
   collapse (canonicalize_core_tool_name name) = canonicalize_core_tool_name name"
proof -
  let ?c = "canonicalize_core_tool_name name"
  have fixed: "normalize_model_tool_name ?c = ?c" "dict_get CORE_TOOL_ALIASES ?c = None"
  proof -
    let ?n = "normalize_model_tool_name name"
    have "normalize_model_tool_name ?c = ?c \<and> dict_get CORE_TOOL_ALIASES ?c = None"
    proof (cases "dict_get CORE_TOOL_ALIASES ?n")
      case None
      then show ?thesis by (simp add: canonicalize_core_tool_name_def dict_get_or_def)
    next
      case (Some v)
      then show ?thesis
        using alias_target_fixed by (simp add: canonicalize_core_tool_name_def dict_get_or_def)
    qed
    then show "normalize_model_tool_name ?c = ?c" "dict_get CORE_TOOL_ALIASES ?c = None" by simp_all
  qed
  then have "canonicalize_core_tool_name ?c = ?c"
    by (simp add: canonicalize_core_tool_name_def [of ?c] dict_get_or_def)
  moreover have "?c = [] \<or> tool_normal ?c" using normalize_result [of ?c] fixed by simp
  then have "list_all plain_char ?c \<and> collapse ?c = ?c" by (elim disjE) (simp_all only: tool_normal_def, simp)
  moreover have "list_all (\<lambda>c. \<not> ascii_upper c \<and> c \<noteq> CHR ''-'' \<and> c \<noteq> CHR ''.'') s" if "list_all plain_char s" for s
    using that by (auto simp: list_all_iff plain_char_def lower_not_upper)
  ultimately show ?thesis by blast
qed

end
