(* ===== verification/Budget.thy ===== *)
theory Budget
  imports Tool_Names
begin

text \<open>
  The budgets of a session: \<^verbatim>\<open>victor/agent/budget/\<close> (tracker, multiplier calculator, tool call
  classifier, mode completion checker), the budget manager that composes them
  (\<^verbatim>\<open>victor/agent/budget_manager.py\<close>) and their data (\<^verbatim>\<open>victor/agent/protocols/budget_protocols.py\<close>).
  Floats are reals and every product is rounded by the parameter \<open>rnd\<close>, so that the truncation
  to an integer acts on what the machine computed. The callback of an exhausted budget may
  raise; a callback that calls back into the tracker is outside the model. The manager and its
  tracker share one calculator object, which the model keeps in the tracker. The alias table of
  the contracts package and the default write tools are parameters.
\<close>

section \<open>Data\<close>

datatype BudgetType = TOOL_CALLS | ITERATIONS | EXPLORATION | ACTION

definition budget_types :: "BudgetType list" where
  "budget_types = [TOOL_CALLS, ITERATIONS, EXPLORATION, ACTION]"

fun budget_value :: "BudgetType \<Rightarrow> string" where
  "budget_value TOOL_CALLS = ''tool_calls''"
| "budget_value ITERATIONS = ''iterations''"
| "budget_value EXPLORATION = ''exploration''"
| "budget_value ACTION = ''action''"

record BudgetStatus =
  bs_type :: BudgetType
  bs_current :: int
  bs_base_maximum :: int
  bs_effective_maximum :: int
  bs_is_exhausted :: bool
  bs_model :: real
  bs_mode :: real
  bs_productivity :: real

definition remaining :: "BudgetStatus \<Rightarrow> int" where
  "remaining s = max 0 (bs_effective_maximum s - bs_current s)"

definition utilization :: "(real \<Rightarrow> real) \<Rightarrow> BudgetStatus \<Rightarrow> real" where
  "utilization rnd s =
     (if bs_effective_maximum s = 0 then 0
      else min 1 (rnd (of_int (bs_current s) / of_int (bs_effective_maximum s))))"

record BudgetConfig =
  base_tool_calls :: int
  base_iterations :: int
  base_exploration :: int
  base_action :: int

definition default_budget_config :: BudgetConfig where
  "default_budget_config = \<lparr>base_tool_calls = 30, base_iterations = 50, base_exploration = 8, base_action = 12\<rparr>"

section \<open>Multipliers\<close>

record MultiplierCalculator =
  model_multiplier :: real
  mode_multiplier :: real
  productivity_multiplier :: real

text \<open>\<^verbatim>\<open>int(x)\<close> of a float: towards zero.\<close>

definition py_int :: "real \<Rightarrow> int" where
  "py_int x = (if x < 0 then \<lceil>x\<rceil> else \<lfloor>x\<rfloor>)"

definition get_combined_multiplier :: "(real \<Rightarrow> real) \<Rightarrow> MultiplierCalculator \<Rightarrow> real" where
  "get_combined_multiplier rnd mc =
     rnd (rnd (model_multiplier mc * mode_multiplier mc) * productivity_multiplier mc)"

definition calculate_effective_max :: "(real \<Rightarrow> real) \<Rightarrow> MultiplierCalculator \<Rightarrow> BudgetType \<Rightarrow> int \<Rightarrow> int" where
  "calculate_effective_max rnd mc b base_max =
     max 1 (py_int (rnd (of_int base_max * get_combined_multiplier rnd mc)))"

definition calc_set_model :: "real \<Rightarrow> MultiplierCalculator \<Rightarrow> MultiplierCalculator" where
  "calc_set_model x mc = mc\<lparr>model_multiplier := max (1 / 2) (min 3 x)\<rparr>"

definition calc_set_mode :: "real \<Rightarrow> MultiplierCalculator \<Rightarrow> MultiplierCalculator" where
  "calc_set_mode x mc = mc\<lparr>mode_multiplier := max (1 / 2) (min 5 x)\<rparr>"

definition calc_set_productivity :: "real \<Rightarrow> MultiplierCalculator \<Rightarrow> MultiplierCalculator" where
  "calc_set_productivity x mc = mc\<lparr>productivity_multiplier := max (1 / 2) (min 3 x)\<rparr>"

section \<open>The tracker\<close>

record BudgetState =
  st_current :: int
  st_base_maximum :: int
  st_last_tool :: "string option"

type_synonym exhausted_callback = "BudgetType \<Rightarrow> unit result"

record BudgetTracker =
  bt_config :: BudgetConfig
  bt_calculator :: "MultiplierCalculator option"
  bt_on_exhausted :: "exhausted_callback option"
  bt_budgets :: "(BudgetType, BudgetState) dict"
  bt_notified :: "BudgetType list"

definition fresh_budget :: "int \<Rightarrow> BudgetState" where
  "fresh_budget base = \<lparr>st_current = 0, st_base_maximum = base, st_last_tool = None\<rparr>"

definition initialize_budgets :: "BudgetTracker \<Rightarrow> BudgetTracker" where
  "initialize_budgets t = t\<lparr>bt_budgets :=
     [(TOOL_CALLS, fresh_budget (base_tool_calls (bt_config t))),
      (ITERATIONS, fresh_budget (base_iterations (bt_config t))),
      (EXPLORATION, fresh_budget (base_exploration (bt_config t))),
      (ACTION, fresh_budget (base_action (bt_config t)))]\<rparr>"

definition tracker_init ::
  "BudgetConfig \<Rightarrow> MultiplierCalculator option \<Rightarrow> exhausted_callback option \<Rightarrow> BudgetTracker" where
  "tracker_init c mc cb =
     initialize_budgets \<lparr>bt_config = c, bt_calculator = mc, bt_on_exhausted = cb, bt_budgets = [], bt_notified = []\<rparr>"

definition effective_max :: "(real \<Rightarrow> real) \<Rightarrow> BudgetTracker \<Rightarrow> BudgetType \<Rightarrow> BudgetState \<Rightarrow> int" where
  "effective_max rnd t b st =
     (case bt_calculator t of
        Some mc \<Rightarrow> calculate_effective_max rnd mc b (st_base_maximum st)
      | None \<Rightarrow> st_base_maximum st)"

definition get_status :: "(real \<Rightarrow> real) \<Rightarrow> BudgetTracker \<Rightarrow> BudgetType \<Rightarrow> BudgetStatus" where
  "get_status rnd t b =
     (case dict_get (bt_budgets t) b of
        None \<Rightarrow> \<lparr>bs_type = b, bs_current = 0, bs_base_maximum = 0, bs_effective_maximum = 0, bs_is_exhausted = True,
                 bs_model = 1, bs_mode = 1, bs_productivity = 1\<rparr>
      | Some st \<Rightarrow>
          (let m = effective_max rnd t b st;
               (model, mode, productivity) =
                 (case bt_calculator t of
                    Some mc \<Rightarrow> (model_multiplier mc, mode_multiplier mc, productivity_multiplier mc)
                  | None \<Rightarrow> (1, 1, 1))
           in \<lparr>bs_type = b, bs_current = st_current st, bs_base_maximum = st_base_maximum st,
               bs_effective_maximum = m, bs_is_exhausted = (st_current st \<ge> m),
               bs_model = model, bs_mode = mode, bs_productivity = productivity\<rparr>))"

text \<open>
  Consuming counts the amount whether or not the budget was available, and calls the callback
  when this call exhausted the budget. An exception of the callback leaves the count in place.
\<close>

definition consume :: "(real \<Rightarrow> real) \<Rightarrow> BudgetType \<Rightarrow> int \<Rightarrow> BudgetTracker \<Rightarrow> bool result \<times> BudgetTracker" where
  "consume rnd b amount t =
     (case dict_get (bt_budgets t) b of
        None \<Rightarrow> (Inr False, t)
      | Some st \<Rightarrow>
          (let m = effective_max rnd t b st;
               was_available = st_current st < m;
               st = st\<lparr>st_current := st_current st + amount\<rparr>;
               t = t\<lparr>bt_budgets := dict_set b st (bt_budgets t)\<rparr>
           in if st_current st \<ge> m \<and> was_available
              then case bt_on_exhausted t of
                  None \<Rightarrow> (Inr was_available, t)
                | Some cb \<Rightarrow>
                    (let t = t\<lparr>bt_notified := bt_notified t @ [b]\<rparr>
                     in case cb b of Inl e \<Rightarrow> (Inl e, t) | Inr _ \<Rightarrow> (Inr was_available, t))
              else (Inr was_available, t)))"

definition is_exhausted :: "(real \<Rightarrow> real) \<Rightarrow> BudgetTracker \<Rightarrow> BudgetType \<Rightarrow> bool" where
  "is_exhausted rnd t b = bs_is_exhausted (get_status rnd t b)"

text \<open>A change of one budget's state, where the budget is known.\<close>

definition change_budget :: "BudgetType \<Rightarrow> (BudgetState \<Rightarrow> BudgetState) \<Rightarrow> BudgetTracker \<Rightarrow> BudgetTracker" where
  "change_budget b f t =
     (case dict_get (bt_budgets t) b of None \<Rightarrow> t | Some st \<Rightarrow> t\<lparr>bt_budgets := dict_set b (f st) (bt_budgets t)\<rparr>)"

definition tracker_reset :: "BudgetType option \<Rightarrow> BudgetTracker \<Rightarrow> BudgetTracker" where
  "tracker_reset b t =
     (case b of
        None \<Rightarrow> initialize_budgets t
      | Some b \<Rightarrow> change_budget b (\<lambda>st. st\<lparr>st_current := 0, st_last_tool := None\<rparr>) t)"

definition set_base_budget :: "BudgetType \<Rightarrow> int \<Rightarrow> BudgetTracker \<Rightarrow> BudgetTracker" where
  "set_base_budget b base t = change_budget b (\<lambda>st. st\<lparr>st_base_maximum := max 1 base\<rparr>) t"

definition set_on_exhausted :: "exhausted_callback option \<Rightarrow> BudgetTracker \<Rightarrow> BudgetTracker" where
  "set_on_exhausted cb t = t\<lparr>bt_on_exhausted := cb\<rparr>"

definition update_last_tool :: "BudgetType \<Rightarrow> string \<Rightarrow> BudgetTracker \<Rightarrow> BudgetTracker" where
  "update_last_tool b tool t = change_budget b (\<lambda>st. st\<lparr>st_last_tool := Some tool\<rparr>) t"

definition get_prompt_budget_info :: "(real \<Rightarrow> real) \<Rightarrow> BudgetTracker \<Rightarrow> state" where
  "get_prompt_budget_info rnd t =
     (let tool = get_status rnd t TOOL_CALLS;
          exploration = get_status rnd t EXPLORATION;
          action = get_status rnd t ACTION;
          (model, mode, productivity) =
            (case bt_calculator t of
               Some mc \<Rightarrow> (model_multiplier mc, mode_multiplier mc, productivity_multiplier mc)
             | None \<Rightarrow> (1, 1, 1))
      in [(''tool_budget'', VInt (bs_effective_maximum tool)), (''tool_calls_used'', VInt (bs_current tool)),
          (''tool_calls_remaining'', VInt (remaining tool)),
          (''exploration_budget'', VInt (bs_effective_maximum exploration)),
          (''exploration_used'', VInt (bs_current exploration)), (''exploration_remaining'', VInt (remaining exploration)),
          (''action_budget'', VInt (bs_effective_maximum action)), (''action_used'', VInt (bs_current action)),
          (''model_multiplier'', VFloat model), (''mode_multiplier'', VFloat mode),
          (''productivity_multiplier'', VFloat productivity)])"

text \<open>\<open>percent\<close> stands for the format \<^verbatim>\<open>:.1%\<close>.\<close>

definition get_diagnostics :: "(real \<Rightarrow> real) \<Rightarrow> (real \<Rightarrow> string) \<Rightarrow> BudgetTracker \<Rightarrow> state" where
  "get_diagnostics rnd percent t =
     (let (model, mode, productivity, combined) =
            (case bt_calculator t of
               Some mc \<Rightarrow> (model_multiplier mc, mode_multiplier mc, productivity_multiplier mc, get_combined_multiplier rnd mc)
             | None \<Rightarrow> (1, 1, 1, 1))
      in [(''budgets'', VDict (map (\<lambda>b.
             (let s = get_status rnd t b in
              (budget_value b, VDict
                [(''current'', VInt (bs_current s)), (''base_maximum'', VInt (bs_base_maximum s)),
                 (''effective_maximum'', VInt (bs_effective_maximum s)), (''remaining'', VInt (remaining s)),
                 (''utilization'', VStr (percent (utilization rnd s))), (''is_exhausted'', VBool (bs_is_exhausted s)),
                 (''last_tool'', case dict_get (bt_budgets t) b of
                     None \<Rightarrow> VNone
                   | Some st \<Rightarrow> (case st_last_tool st of None \<Rightarrow> VNone | Some x \<Rightarrow> VStr x))]))) budget_types)),
          (''multipliers'', VDict
             [(''model'', VFloat model), (''mode'', VFloat mode), (''productivity'', VFloat productivity),
              (''combined'', VFloat combined)])])"

section \<open>Classification of tool calls\<close>

datatype OperationType = WRITE_OP | READ_OP | UNKNOWN_OP

record ToolCallClassifier =
  write_tools :: "string set"

definition classifier_init :: "string set \<Rightarrow> string set option \<Rightarrow> ToolCallClassifier" where
  "classifier_init dflt tools =
     \<lparr>write_tools = (case tools of Some ts \<Rightarrow> if ts = {} then dflt else ts | None \<Rightarrow> dflt)\<rparr>"

definition is_write_operation :: "(string \<Rightarrow> string) \<Rightarrow> ToolCallClassifier \<Rightarrow> string \<Rightarrow> bool" where
  "is_write_operation canon tc tool \<longleftrightarrow> normalize_tool_name_for_policy canon (py_lower tool) \<in> write_tools tc"

definition classify_operation :: "(string \<Rightarrow> string) \<Rightarrow> ToolCallClassifier \<Rightarrow> string \<Rightarrow> OperationType" where
  "classify_operation canon tc tool =
     (let name = normalize_tool_name_for_policy canon (py_lower tool)
      in if name \<in> write_tools tc then WRITE_OP
         else if name \<in> {''read'', ''grep'', ''search''} then READ_OP
         else UNKNOWN_OP)"

definition add_write_tool :: "(string \<Rightarrow> string) \<Rightarrow> string \<Rightarrow> ToolCallClassifier \<Rightarrow> ToolCallClassifier" where
  "add_write_tool canon tool tc =
     tc\<lparr>write_tools := insert (normalize_tool_name_for_policy canon (py_lower tool)) (write_tools tc)\<rparr>"

definition remove_write_tool :: "(string \<Rightarrow> string) \<Rightarrow> string \<Rightarrow> ToolCallClassifier \<Rightarrow> ToolCallClassifier" where
  "remove_write_tool canon tool tc =
     (let name = normalize_tool_name_for_policy canon (py_lower tool)
      in if name \<in> write_tools tc then tc\<lparr>write_tools := write_tools tc - {name}\<rparr> else tc)"

section \<open>Mode completion\<close>

text \<open>
  \<^verbatim>\<open>re.search(rf"\b{word}\b", s)\<close> for a section name without special characters: an
  occurrence with a boundary between a word character and another one at both ends. The first
  argument is the character before the rest of the text.
\<close>

definition word_char :: "char option \<Rightarrow> bool" where
  "word_char c = (case c of
     None \<Rightarrow> False
   | Some c \<Rightarrow> (let n = (of_char c :: nat) in 48 \<le> n \<and> n \<le> 57 \<or> 65 \<le> n \<and> n \<le> 90 \<or> n = 95 \<or> 97 \<le> n \<and> n \<le> 122 \<or>
       n \<in> {170, 178, 179, 181, 185, 186, 188, 189, 190} \<or> 192 \<le> n \<and> n \<noteq> 215 \<and> n \<noteq> 247))"

definition hd_opt :: "'a list \<Rightarrow> 'a option" where
  "hd_opt xs = (case xs of [] \<Rightarrow> None | x # _ \<Rightarrow> Some x)"

definition last_or :: "'a option \<Rightarrow> 'a list \<Rightarrow> 'a option" where
  "last_or p xs = (if xs = [] then p else Some (last xs))"

definition word_here :: "string \<Rightarrow> char option \<Rightarrow> string \<Rightarrow> bool" where
  "word_here w p s \<longleftrightarrow> take (length w) s = w \<and> word_char p \<noteq> word_char (hd_opt s) \<and>
     word_char (last_or p w) \<noteq> word_char (hd_opt (drop (length w) s))"

fun word_search :: "string \<Rightarrow> char option \<Rightarrow> string \<Rightarrow> bool" where
  "word_search w p [] = word_here w p []"
| "word_search w p (c # s) = (word_here w p (c # s) \<or> word_search w (Some c) s)"

record ModeCompletionConfig =
  min_files_read :: int
  min_files_written :: int
  mc_max_iterations :: int
  completion_signals :: "string list"
  required_sections :: "string list"

definition default_criteria :: ModeCompletionConfig where
  "default_criteria = \<lparr>min_files_read = 1, min_files_written = 0, mc_max_iterations = 20,
     completion_signals = [], required_sections = []\<rparr>"

definition CRITERIA :: "(string, ModeCompletionConfig) dict" where
  "CRITERIA =
     [(''EXPLORE'', \<lparr>min_files_read = 1, min_files_written = 0, mc_max_iterations = 15,
        completion_signals = [''here'' @ [CHR 0x27] @ ''s what'', ''the file'', ''this is'',
          ''here'' @ [CHR 0x27] @ ''s an overview'', ''this module'', ''the codebase'', ''i found'', ''the structure''],
        required_sections = []\<rparr>),
      (''PLAN'', \<lparr>min_files_read = 1, min_files_written = 0, mc_max_iterations = 20,
        completion_signals = [''implementation plan'', ''steps to'', ''here'' @ [CHR 0x27] @ ''s how'',
          ''here'' @ [CHR 0x27] @ ''s the plan'', ''proposed approach'', ''implementation steps'', ''the plan''],
        required_sections = [''step'', ''file'']\<rparr>),
      (''BUILD'', \<lparr>min_files_read = 0, min_files_written = 1, mc_max_iterations = 30,
        completion_signals = [''created'', ''implemented'', ''written'', ''has been created'', ''successfully created'',
          ''file created'', ''implementation complete''],
        required_sections = []\<rparr>)]"

record ModeCompletionChecker =
  custom_criteria :: "(string, ModeCompletionConfig) dict"
  iteration_counts :: "(string, int) dict"

definition checker_init :: "(string, ModeCompletionConfig) dict \<Rightarrow> ModeCompletionChecker" where
  "checker_init custom = \<lparr>custom_criteria = custom, iteration_counts = []\<rparr>"

definition get_criteria :: "ModeCompletionChecker \<Rightarrow> string \<Rightarrow> ModeCompletionConfig" where
  "get_criteria k mode =
     (case dict_get (custom_criteria k) (py_upper mode) of
        Some c \<Rightarrow> c
      | None \<Rightarrow> dict_get_or CRITERIA (py_upper mode) default_criteria)"

definition missing_sections :: "ModeCompletionConfig \<Rightarrow> string \<Rightarrow> string list" where
  "missing_sections c response = filter (\<lambda>w. \<not> word_search w None response) (required_sections c)"

definition check_early_exit ::
  "string \<Rightarrow> int \<Rightarrow> int \<Rightarrow> int \<Rightarrow> string \<Rightarrow> ModeCompletionChecker \<Rightarrow> (bool \<times> string) \<times> ModeCompletionChecker" where
  "check_early_exit mode files_read files_written its response k =
     (let c = get_criteria k mode;
          k = k\<lparr>iteration_counts := dict_set mode its (iteration_counts k)\<rparr>;
          mode_upper = py_upper mode;
          low = py_lower response
      in if its \<ge> mc_max_iterations c
         then ((True, ''Maximum iterations ('' @ show_int (mc_max_iterations c) @ '') reached''), k)
         else if mode_upper = ''BUILD'' \<and> files_written < min_files_written c
         then ((False, ''Need '' @ show_int (min_files_written c - files_written) @ '' more file(s) written''), k)
         else if mode_upper \<noteq> ''BUILD'' \<and> files_read < min_files_read c
         then ((False, ''Need '' @ show_int (min_files_read c - files_read) @ '' more file(s) read''), k)
         else case find (\<lambda>sig. py_contains sig low) (completion_signals c) of
             None \<Rightarrow> ((False, ''No completion signal detected''), k)
           | Some sig \<Rightarrow>
               if sig = [] then ((False, ''No completion signal detected''), k)
               else if mode_upper = ''PLAN'' \<and> required_sections c \<noteq> [] \<and> missing_sections c low \<noteq> []
               then ((False, ''Missing required sections: '' @ repr_strs (missing_sections c low)), k)
               else ((True, ''Mode objectives complete: '' @ quoted sig @ '' signal detected''), k))"

definition checker_reset :: "string option \<Rightarrow> ModeCompletionChecker \<Rightarrow> ModeCompletionChecker" where
  "checker_reset mode k =
     (case mode of
        None \<Rightarrow> k\<lparr>iteration_counts := []\<rparr>
      | Some m \<Rightarrow> if dict_has (iteration_counts k) (py_upper m)
                  then k\<lparr>iteration_counts := dict_pop (py_upper m) (iteration_counts k)\<rparr> else k)"

definition get_progress :: "(real \<Rightarrow> real) \<Rightarrow> ModeCompletionChecker \<Rightarrow> string \<Rightarrow> state result" where
  "get_progress rnd k mode =
     (let c = get_criteria k mode;
          its = dict_get_or (iteration_counts k) (py_upper mode) 0
      in if mc_max_iterations c = 0 then Inl (PyExc ''ZeroDivisionError'' ''division by zero'')
         else let pct = rnd (rnd (of_int its / of_int (mc_max_iterations c)) * 100)
              in Inr [(''mode'', VStr mode), (''iterations'', VInt its), (''max_iterations'', VInt (mc_max_iterations c)),
                      (''progress_pct'', if pct < 100 then VFloat pct else VInt 100),
                      (''min_files_read'', VInt (min_files_read c)), (''min_files_written'', VInt (min_files_written c))])"

definition set_custom_criteria :: "string \<Rightarrow> ModeCompletionConfig \<Rightarrow> ModeCompletionChecker \<Rightarrow> ModeCompletionChecker" where
  "set_custom_criteria mode c k = k\<lparr>custom_criteria := dict_set (py_upper mode) c (custom_criteria k)\<rparr>"

section \<open>The manager\<close>

text \<open>
  The extended manager is the manager with a completion checker, file counters and a mode. The
  environment of both is the alias table of the contracts package and the rounding.
\<close>

record BudgetManager =
  bm_tracker :: BudgetTracker
  bm_classifier :: ToolCallClassifier

record ExtendedBudgetManager = BudgetManager +
  em_checker :: ModeCompletionChecker
  em_files_read :: int
  em_files_written :: int
  em_mode :: "string option"

record budget_env =
  env_rnd :: "real \<Rightarrow> real"
  env_canon :: "string \<Rightarrow> string"

definition manager_init :: "string set \<Rightarrow> BudgetConfig \<Rightarrow> BudgetManager" where
  "manager_init dflt c =
     \<lparr>bm_tracker = tracker_init c
        (Some \<lparr>model_multiplier = 1, mode_multiplier = 1, productivity_multiplier = 1\<rparr>) None,
      bm_classifier = classifier_init dflt None\<rparr>"

definition manager_consume :: "budget_env \<Rightarrow> BudgetType \<Rightarrow> int \<Rightarrow> 'm BudgetManager_scheme \<Rightarrow> bool result \<times> 'm BudgetManager_scheme" where
  "manager_consume env b amount m =
     (case consume (env_rnd env) b amount (bm_tracker m) of (r, t) \<Rightarrow> (r, m\<lparr>bm_tracker := t\<rparr>))"

text \<open>A setter of the shared calculator.\<close>

definition change_calculator ::
  "(MultiplierCalculator \<Rightarrow> MultiplierCalculator) \<Rightarrow> 'm BudgetManager_scheme \<Rightarrow> 'm BudgetManager_scheme" where
  "change_calculator f m = m\<lparr>bm_tracker := (bm_tracker m)\<lparr>bt_calculator := map_option f (bt_calculator (bm_tracker m))\<rparr>\<rparr>"

definition set_model_multiplier :: "real \<Rightarrow> 'm BudgetManager_scheme \<Rightarrow> 'm BudgetManager_scheme" where
  "set_model_multiplier x m = change_calculator (calc_set_model x) m"

definition set_mode_multiplier :: "real \<Rightarrow> 'm BudgetManager_scheme \<Rightarrow> 'm BudgetManager_scheme" where
  "set_mode_multiplier x m = change_calculator (calc_set_mode x) m"

definition set_productivity_multiplier :: "real \<Rightarrow> 'm BudgetManager_scheme \<Rightarrow> 'm BudgetManager_scheme" where
  "set_productivity_multiplier x m = change_calculator (calc_set_productivity x) m"

text \<open>The multiplier of the mode controller; without a controller it is 1.\<close>

definition exploration_multiplier :: "real option \<Rightarrow> real" where
  "exploration_multiplier controller = (case controller of None \<Rightarrow> 1 | Some x \<Rightarrow> x)"

definition update_from_mode :: "real option \<Rightarrow> 'm BudgetManager_scheme \<Rightarrow> 'm BudgetManager_scheme" where
  "update_from_mode controller m = set_mode_multiplier (exploration_multiplier controller) m"

definition manager_reset :: "BudgetType option \<Rightarrow> 'm BudgetManager_scheme \<Rightarrow> 'm BudgetManager_scheme" where
  "manager_reset b m = m\<lparr>bm_tracker := tracker_reset b (bm_tracker m)\<rparr>"

definition manager_set_base :: "BudgetType \<Rightarrow> int \<Rightarrow> 'm BudgetManager_scheme \<Rightarrow> 'm BudgetManager_scheme" where
  "manager_set_base b base m = m\<lparr>bm_tracker := set_base_budget b base (bm_tracker m)\<rparr>"

definition manager_set_on_exhausted :: "exhausted_callback option \<Rightarrow> 'm BudgetManager_scheme \<Rightarrow> 'm BudgetManager_scheme" where
  "manager_set_on_exhausted cb m = m\<lparr>bm_tracker := set_on_exhausted cb (bm_tracker m)\<rparr>"

definition record_tool_call ::
  "budget_env \<Rightarrow> string \<Rightarrow> bool \<Rightarrow> 'm BudgetManager_scheme \<Rightarrow> bool result \<times> 'm BudgetManager_scheme" where
  "record_tool_call env tool is_write m =
     (let is_write = (if \<not> is_write then is_write_operation (env_canon env) (bm_classifier m) tool else is_write);
          b = (if is_write then ACTION else EXPLORATION);
          (r, m) = manager_consume env TOOL_CALLS 1 m
      in case r of
          Inl e \<Rightarrow> (Inl e, m)
        | Inr tool_available \<Rightarrow>
            (let (r, m) = manager_consume env b 1 m
             in case r of
                 Inl e \<Rightarrow> (Inl e, m)
               | Inr category_available \<Rightarrow>
                   (Inr (tool_available \<and> category_available),
                    m\<lparr>bm_tracker := update_last_tool b tool (bm_tracker m)\<rparr>)))"

definition extended_init :: "string set \<Rightarrow> BudgetConfig \<Rightarrow> ModeCompletionChecker option \<Rightarrow> ExtendedBudgetManager" where
  "extended_init dflt c k =
     BudgetManager.extend (manager_init dflt c)
       (ExtendedBudgetManager.fields (case k of None \<Rightarrow> checker_init [] | Some k \<Rightarrow> k) 0 0 None)"

definition set_mode :: "string \<Rightarrow> ExtendedBudgetManager \<Rightarrow> ExtendedBudgetManager" where
  "set_mode mode m = m\<lparr>em_mode := Some (py_upper mode)\<rparr>"

definition record_file_read :: "ExtendedBudgetManager \<Rightarrow> ExtendedBudgetManager" where
  "record_file_read m = m\<lparr>em_files_read := em_files_read m + 1\<rparr>"

definition record_file_write :: "ExtendedBudgetManager \<Rightarrow> ExtendedBudgetManager" where
  "record_file_write m = m\<lparr>em_files_written := em_files_written m + 1\<rparr>"

definition ext_record_tool_call ::
  "budget_env \<Rightarrow> string \<Rightarrow> bool \<Rightarrow> ExtendedBudgetManager \<Rightarrow> bool result \<times> ExtendedBudgetManager" where
  "ext_record_tool_call env tool is_write m =
     (let m = (if env_canon env (py_lower tool) = ''read'' then record_file_read m
               else if is_write_operation (env_canon env) (bm_classifier m) tool then record_file_write m else m)
      in record_tool_call env tool is_write m)"

text \<open>\<^verbatim>\<open>mode or self._current_mode\<close>, and the test that it is not empty.\<close>

definition checked_mode :: "string option \<Rightarrow> ExtendedBudgetManager \<Rightarrow> string option" where
  "checked_mode mode m =
     (case mode of
        Some s \<Rightarrow> if s \<noteq> [] then Some s else (case em_mode m of Some s \<Rightarrow> if s = [] then None else Some s | None \<Rightarrow> None)
      | None \<Rightarrow> (case em_mode m of Some s \<Rightarrow> if s = [] then None else Some s | None \<Rightarrow> None))"

definition should_early_exit ::
  "budget_env \<Rightarrow> string \<Rightarrow> string option \<Rightarrow> ExtendedBudgetManager \<Rightarrow> (bool \<times> string) \<times> ExtendedBudgetManager" where
  "should_early_exit env response mode m =
     (case checked_mode mode m of
        None \<Rightarrow> ((False, ''No mode set''), m)
      | Some s \<Rightarrow>
          (let its = bs_current (get_status (env_rnd env) (bm_tracker m) EXPLORATION);
               (r, k) = check_early_exit s (em_files_read m) (em_files_written m) its response (em_checker m)
           in (r, m\<lparr>em_checker := k\<rparr>)))"

definition get_mode_progress :: "budget_env \<Rightarrow> string option \<Rightarrow> ExtendedBudgetManager \<Rightarrow> state result" where
  "get_mode_progress env mode m =
     (case checked_mode mode m of
        None \<Rightarrow> Inr []
      | Some s \<Rightarrow> bind_result (get_progress (env_rnd env) (em_checker m) s) (\<lambda>d.
          Inr (dict_set ''files_written'' (VInt (em_files_written m)) (dict_set ''files_read'' (VInt (em_files_read m)) d))))"

definition ext_reset :: "BudgetType option \<Rightarrow> ExtendedBudgetManager \<Rightarrow> ExtendedBudgetManager" where
  "ext_reset b m =
     (let m = manager_reset b m
      in if b = None
         then m\<lparr>em_files_read := 0, em_files_written := 0, em_checker := checker_reset None (em_checker m)\<rparr> else m)"

definition create_budget_manager :: "string set \<Rightarrow> BudgetConfig option \<Rightarrow> real \<Rightarrow> real \<Rightarrow> real \<Rightarrow> BudgetManager" where
  "create_budget_manager dflt c model mode productivity =
     set_productivity_multiplier productivity (set_mode_multiplier mode (set_model_multiplier model
       (manager_init dflt (case c of None \<Rightarrow> default_budget_config | Some c \<Rightarrow> c))))"

definition create_extended_budget_manager ::
  "string set \<Rightarrow> BudgetConfig option \<Rightarrow> string option \<Rightarrow> real \<Rightarrow> real \<Rightarrow> ExtendedBudgetManager" where
  "create_extended_budget_manager dflt c mode model mode_mult =
     (let m = set_mode_multiplier mode_mult (set_model_multiplier model
                (extended_init dflt (case c of None \<Rightarrow> default_budget_config | Some c \<Rightarrow> c) None))
      in case mode of None \<Rightarrow> m | Some s \<Rightarrow> if s = [] then m else set_mode s m)"

section \<open>Accounting\<close>

text \<open>
  The abstract view of a tracker: how much of every budget is used, against fixed maxima. The
  callback has been called once for each budget that is used up.
\<close>

definition accounts ::
  "(real \<Rightarrow> real) \<Rightarrow> exhausted_callback \<Rightarrow> (BudgetType \<Rightarrow> int) \<Rightarrow> (BudgetType \<Rightarrow> int) \<Rightarrow> BudgetTracker \<Rightarrow> bool" where
  "accounts rnd cb eff used t \<longleftrightarrow> bt_on_exhausted t = Some cb \<and>
     (\<forall>b. \<exists>st. dict_get (bt_budgets t) b = Some st \<and> st_current st = used b \<and> effective_max rnd t b st = eff b \<and>
        count_list (bt_notified t) b = (if eff b \<le> used b then 1 else 0))"

lemma accountsD:
  assumes "accounts rnd cb eff used t"
  obtains st where "dict_get (bt_budgets t) b = Some st" "st_current st = used b" "effective_max rnd t b st = eff b"
    "count_list (bt_notified t) b = (if eff b \<le> used b then 1 else 0)"
  using assms unfolding accounts_def by blast

lemma accounts_status:
  assumes "accounts rnd cb eff used t"
  shows "bs_current (get_status rnd t b) = used b" "bs_effective_maximum (get_status rnd t b) = eff b"
    "is_exhausted rnd t b \<longleftrightarrow> eff b \<le> used b"
proof -
  obtain st where "dict_get (bt_budgets t) b = Some st" "st_current st = used b" "effective_max rnd t b st = eff b"
    using accountsD [OF assms] by blast
  then show "bs_current (get_status rnd t b) = used b" "bs_effective_maximum (get_status rnd t b) = eff b"
    "is_exhausted rnd t b \<longleftrightarrow> eff b \<le> used b"
    by (simp_all add: get_status_def is_exhausted_def Let_def split: option.splits)
qed

lemma effective_max_cong:
  "bt_calculator t' = bt_calculator t \<Longrightarrow> st_base_maximum st' = st_base_maximum st \<Longrightarrow>
   effective_max rnd t' b st' = effective_max rnd t b st"
  by (simp add: effective_max_def split: option.splits)

lemma consume_accounts:
  assumes acc: "accounts rnd cb eff used t" and cb: "cb b = Inr ()" and pos: "0 \<le> n"
  obtains t' where "consume rnd b n t = (Inr (used b < eff b), t')"
    "accounts rnd cb eff (used(b := used b + n)) t'"
proof -
  obtain st where st: "dict_get (bt_budgets t) b = Some st" "st_current st = used b" "effective_max rnd t b st = eff b"
    "count_list (bt_notified t) b = (if eff b \<le> used b then 1 else 0)"
    using accountsD [OF acc] by blast
  let ?now = "eff b \<le> used b + n \<and> used b < eff b"
  let ?t = "t\<lparr>bt_budgets := dict_set b (st\<lparr>st_current := used b + n\<rparr>) (bt_budgets t),
              bt_notified := (if ?now then bt_notified t @ [b] else bt_notified t)\<rparr>"
  have "consume rnd b n t = (Inr (used b < eff b), ?t)"
    using st acc cb by (auto simp: consume_def accounts_def Let_def)
  moreover have "accounts rnd cb eff (used(b := used b + n)) ?t"
    unfolding accounts_def
  proof (intro conjI allI)
    fix c
    obtain sc where sc: "dict_get (bt_budgets t) c = Some sc" "st_current sc = used c" "effective_max rnd t c sc = eff c"
      "count_list (bt_notified t) c = (if eff c \<le> used c then 1 else 0)"
      using accountsD [OF acc] by blast
    show "\<exists>st. dict_get (bt_budgets ?t) c = Some st \<and> st_current st = (used(b := used b + n)) c \<and>
        effective_max rnd ?t c st = eff c \<and>
        count_list (bt_notified ?t) c = (if eff c \<le> (used(b := used b + n)) c then 1 else 0)"
      using sc st pos by (cases "c = b") (auto simp: dict_simps effective_max_def split: option.splits)
  qed (use acc in \<open>simp add: accounts_def\<close>)
  ultimately show ?thesis by (rule that)
qed

lemma last_tool_accounts:
  assumes acc: "accounts rnd cb eff used t"
  shows "accounts rnd cb eff used (update_last_tool b tool t)"
proof -
  obtain st where st: "dict_get (bt_budgets t) b = Some st" using accountsD [OF acc] by blast
  let ?t = "t\<lparr>bt_budgets := dict_set b (st\<lparr>st_last_tool := Some tool\<rparr>) (bt_budgets t)\<rparr>"
  have "accounts rnd cb eff used ?t" unfolding accounts_def
  proof (intro conjI allI)
    fix c
    obtain sc where sc: "dict_get (bt_budgets t) c = Some sc" "st_current sc = used c" "effective_max rnd t c sc = eff c"
      "count_list (bt_notified t) c = (if eff c \<le> used c then 1 else 0)"
      using accountsD [OF acc] by blast
    show "\<exists>st. dict_get (bt_budgets ?t) c = Some st \<and> st_current st = used c \<and> effective_max rnd ?t c st = eff c \<and>
        count_list (bt_notified ?t) c = (if eff c \<le> used c then 1 else 0)"
      using sc st by (cases "c = b") (auto simp: dict_simps effective_max_def split: option.splits)
  qed (use acc in \<open>simp add: accounts_def\<close>)
  with st show ?thesis by (simp add: update_last_tool_def change_budget_def)
qed

definition call_category :: "budget_env \<Rightarrow> ToolCallClassifier \<Rightarrow> string \<times> bool \<Rightarrow> BudgetType" where
  "call_category env tc c = (if snd c \<or> is_write_operation (env_canon env) tc (fst c) then ACTION else EXPLORATION)"

lemma record_accounts:
  assumes acc: "accounts (env_rnd env) cb eff used (bm_tracker m)" and cb: "\<And>b. cb b = Inr ()"
    and b: "b = call_category env (bm_classifier m) (tool, w)"
  obtains m' where "record_tool_call env tool w m = (Inr (used TOOL_CALLS < eff TOOL_CALLS \<and> used b < eff b), m')"
    "accounts (env_rnd env) cb eff (used(TOOL_CALLS := used TOOL_CALLS + 1, b := used b + 1)) (bm_tracker m')"
    "bm_classifier m' = bm_classifier m"
proof -
  have neq: "b \<noteq> TOOL_CALLS" using b by (simp add: call_category_def)
  obtain t1 where t1: "consume (env_rnd env) TOOL_CALLS 1 (bm_tracker m) = (Inr (used TOOL_CALLS < eff TOOL_CALLS), t1)"
    "accounts (env_rnd env) cb eff (used(TOOL_CALLS := used TOOL_CALLS + 1)) t1"
    using consume_accounts [OF acc cb] by (metis zero_le_one)
  obtain t2 where t2: "consume (env_rnd env) b 1 t1 = (Inr (used b < eff b), t2)"
    "accounts (env_rnd env) cb eff (used(TOOL_CALLS := used TOOL_CALLS + 1, b := used b + 1)) t2"
    using consume_accounts [OF t1(2) cb, where b = b and n = 1] neq by auto
  have "record_tool_call env tool w m = (Inr (used TOOL_CALLS < eff TOOL_CALLS \<and> used b < eff b),
      m\<lparr>bm_tracker := update_last_tool b tool t2\<rparr>)"
    using t1(1) t2(1) b by (auto simp: record_tool_call_def manager_consume_def call_category_def Let_def)
  then show ?thesis using that t2(2) by (simp add: last_tool_accounts)
qed

definition record_calls :: "budget_env \<Rightarrow> (string \<times> bool) list \<Rightarrow> 'm BudgetManager_scheme \<Rightarrow> 'm BudgetManager_scheme" where
  "record_calls env calls m = fold (\<lambda>(tool, w) m. snd (record_tool_call env tool w m)) calls m"

definition calls_used :: "budget_env \<Rightarrow> ToolCallClassifier \<Rightarrow> (string \<times> bool) list \<Rightarrow> BudgetType \<Rightarrow> int" where
  "calls_used env tc calls b =
     (if b = TOOL_CALLS then int (length calls) else int (length (filter (\<lambda>c. call_category env tc c = b) calls)))"

lemma category_not_total: "call_category env tc c \<noteq> TOOL_CALLS"
  by (simp add: call_category_def)

lemma record_calls_accounts:
  assumes "accounts (env_rnd env) cb eff (\<lambda>_. 0) (bm_tracker m)" "\<And>b. cb b = Inr ()"
  shows "accounts (env_rnd env) cb eff (calls_used env (bm_classifier m) calls) (bm_tracker (record_calls env calls m)) \<and>
    bm_classifier (record_calls env calls m) = bm_classifier m"
proof (induction calls rule: rev_induct)
  case Nil
  have "calls_used env (bm_classifier m) [] = (\<lambda>_. 0)" by (auto simp: calls_used_def)
  with assms(1) show ?case by (simp add: record_calls_def)
next
  case (snoc c calls)
  let ?m = "record_calls env calls m"
  let ?u = "calls_used env (bm_classifier m) calls"
  let ?b = "call_category env (bm_classifier m) c"
  obtain tool w where c: "c = (tool, w)" by (cases c)
  obtain m' where m': "record_tool_call env tool w ?m = (Inr (?u TOOL_CALLS < eff TOOL_CALLS \<and> ?u ?b < eff ?b), m')"
    "accounts (env_rnd env) cb eff (?u(TOOL_CALLS := ?u TOOL_CALLS + 1, ?b := ?u ?b + 1)) (bm_tracker m')"
    "bm_classifier m' = bm_classifier m"
    using record_accounts [OF conjunct1 [OF snoc] assms(2), of ?b tool w] snoc c by metis
  have "calls_used env (bm_classifier m) (calls @ [c]) = ?u(TOOL_CALLS := ?u TOOL_CALLS + 1, ?b := ?u ?b + 1)"
    using category_not_total [of env "bm_classifier m" c] by (auto simp: calls_used_def)
  moreover have "record_calls env (calls @ [c]) m = m'" using m'(1) c by (simp add: record_calls_def)
  ultimately show ?case using m'(2,3) by (simp only: simp_thms)
qed

section \<open>The invariant of the manager\<close>

definition calculator_ok :: "MultiplierCalculator \<Rightarrow> bool" where
  "calculator_ok mc \<longleftrightarrow> 1 / 2 \<le> model_multiplier mc \<and> model_multiplier mc \<le> 3 \<and>
     1 / 2 \<le> mode_multiplier mc \<and> mode_multiplier mc \<le> 5 \<and>
     1 / 2 \<le> productivity_multiplier mc \<and> productivity_multiplier mc \<le> 3"

definition manager_ok :: "BudgetConfig \<Rightarrow> 'm BudgetManager_scheme \<Rightarrow> bool" where
  "manager_ok c m \<longleftrightarrow> bt_config (bm_tracker m) = c \<and> dict_keys (bt_budgets (bm_tracker m)) = budget_types \<and>
     (\<exists>mc. bt_calculator (bm_tracker m) = Some mc \<and> calculator_ok mc)"

datatype manager_call =
    Consume BudgetType int
  | Record_tool_call string bool
  | Set_model_multiplier real
  | Set_mode_multiplier real
  | Set_productivity_multiplier real
  | Update_from_mode "real option"
  | Reset_budgets "BudgetType option"
  | Set_base_budget BudgetType int
  | Set_on_exhausted exhausted_callback

fun manager_step :: "budget_env \<Rightarrow> manager_call \<Rightarrow> 'm BudgetManager_scheme \<Rightarrow> 'm BudgetManager_scheme" where
  "manager_step env (Consume b n) m = snd (manager_consume env b n m)"
| "manager_step env (Record_tool_call tool w) m = snd (record_tool_call env tool w m)"
| "manager_step env (Set_model_multiplier x) m = set_model_multiplier x m"
| "manager_step env (Set_mode_multiplier x) m = set_mode_multiplier x m"
| "manager_step env (Set_productivity_multiplier x) m = set_productivity_multiplier x m"
| "manager_step env (Update_from_mode x) m = update_from_mode x m"
| "manager_step env (Reset_budgets b) m = manager_reset b m"
| "manager_step env (Set_base_budget b n) m = manager_set_base b n m"
| "manager_step env (Set_on_exhausted cb) m = manager_set_on_exhausted (Some cb) m"

definition tracker_frame :: "BudgetTracker \<Rightarrow> BudgetTracker \<Rightarrow> bool" where
  "tracker_frame t t' \<longleftrightarrow> bt_config t' = bt_config t \<and> bt_calculator t' = bt_calculator t \<and>
     dict_keys (bt_budgets t') = dict_keys (bt_budgets t)"

lemma consume_frame: "tracker_frame t (snd (consume rnd b n t))"
  by (auto simp: tracker_frame_def consume_def Let_def dict_simps dict_has_def split: option.splits sum.splits)

lemma change_budget_frame: "tracker_frame t (change_budget b f t)"
  by (auto simp: tracker_frame_def change_budget_def dict_simps dict_has_def split: option.splits)

lemma manager_ok_frame: "manager_ok c m \<Longrightarrow> tracker_frame (bm_tracker m) t \<Longrightarrow> manager_ok c (m\<lparr>bm_tracker := t\<rparr>)"
  by (simp add: manager_ok_def tracker_frame_def)

lemma manager_consume_ok: "manager_ok c m \<Longrightarrow> manager_consume env b n m = (r, m') \<Longrightarrow> manager_ok c m'"
  using manager_ok_frame [OF _ consume_frame, of c m "env_rnd env" b n]
  by (auto simp: manager_consume_def split: prod.splits)

lemma calculator_ok_setters [simp]:
  "calculator_ok mc \<Longrightarrow> calculator_ok (calc_set_model x mc)"
  "calculator_ok mc \<Longrightarrow> calculator_ok (calc_set_mode x mc)"
  "calculator_ok mc \<Longrightarrow> calculator_ok (calc_set_productivity x mc)"
  by (auto simp: calculator_ok_def calc_set_model_def calc_set_mode_def calc_set_productivity_def)

lemma change_calculator_ok:
  "manager_ok c m \<Longrightarrow> (\<And>mc. calculator_ok mc \<Longrightarrow> calculator_ok (f mc)) \<Longrightarrow> manager_ok c (change_calculator f m)"
  by (auto simp: manager_ok_def change_calculator_def)

lemma record_tool_call_ok: "manager_ok c m \<Longrightarrow> manager_ok c (snd (record_tool_call env tool w m))"
  unfolding record_tool_call_def Let_def
  by (auto split: prod.splits sum.splits simp: update_last_tool_def
      intro!: manager_ok_frame change_budget_frame dest: manager_consume_ok)

lemma manager_step_ok: "manager_ok c m \<Longrightarrow> manager_ok c (manager_step env call m)"
proof (cases call)
  case (Consume b n)
  assume "manager_ok c m"
  with Consume show ?thesis by (auto intro: manager_consume_ok prod.collapse [symmetric])
next
  case (Reset_budgets b)
  assume "manager_ok c m"
  with Reset_budgets show ?thesis
    by (cases b) (simp add: manager_reset_def tracker_reset_def initialize_budgets_def manager_ok_def dict_keys_def
        budget_types_def, simp add: manager_reset_def tracker_reset_def manager_ok_frame change_budget_frame)
qed (auto simp: record_tool_call_ok set_model_multiplier_def set_mode_multiplier_def set_productivity_multiplier_def
    update_from_mode_def manager_set_base_def set_base_budget_def manager_set_on_exhausted_def set_on_exhausted_def
    intro!: change_calculator_ok manager_ok_frame change_budget_frame, auto simp: manager_ok_def tracker_frame_def)

interpretation budget_run: invariant_machine "manager_step env" "manager_ok c" for env c
  by unfold_locales (rule manager_step_ok)

lemma manager_init_ok: "manager_ok c (manager_init dflt c)"
  by (simp add: manager_ok_def manager_init_def tracker_init_def initialize_budgets_def dict_keys_def budget_types_def
      calculator_ok_def)

lemma create_ok: "manager_ok (case c of None \<Rightarrow> default_budget_config | Some c \<Rightarrow> c) (create_budget_manager dflt c x y z)"
  unfolding create_budget_manager_def set_model_multiplier_def set_mode_multiplier_def set_productivity_multiplier_def
  by (intro change_calculator_ok manager_init_ok calculator_ok_setters)

section \<open>Searching the response\<close>

text \<open>An occurrence of \<open>w\<close> between word boundaries, in a text that follows the character \<open>p\<close>.\<close>

definition word_at :: "string \<Rightarrow> char option \<Rightarrow> string \<Rightarrow> string \<Rightarrow> bool" where
  "word_at w p u v \<longleftrightarrow> word_char (last_or p u) \<noteq> word_char (hd_opt (w @ v)) \<and>
     word_char (last_or p (u @ w)) \<noteq> word_char (hd_opt v)"

lemma word_here_iff: "word_here w p s \<longleftrightarrow> (\<exists>v. s = w @ v \<and> word_at w p [] v)"
  by (auto simp: word_here_def word_at_def take_eq_prefix last_or_def)

lemma word_at_Cons: "word_at w p (c # u) v \<longleftrightarrow> word_at w (Some c) u v"
  by (auto simp: word_at_def last_or_def)

lemma word_search_iff: "word_search w p s \<longleftrightarrow> (\<exists>u v. s = u @ w @ v \<and> word_at w p u v)"
proof (induction s arbitrary: p)
  case (Cons c s)
  have "(\<exists>u v. c # s = u @ w @ v \<and> word_at w p u v) \<longleftrightarrow>
      (\<exists>v. c # s = w @ v \<and> word_at w p [] v) \<or> (\<exists>u v. s = u @ w @ v \<and> word_at w (Some c) u v)" (is "?l \<longleftrightarrow> ?r")
  proof
    assume ?l
    then obtain u v where uv: "c # s = u @ w @ v" "word_at w p u v" by blast
    then show ?r by (cases u) (auto simp: word_at_Cons)
  next
    assume ?r
    then show ?l
    proof
      assume "\<exists>u v. s = u @ w @ v \<and> word_at w (Some c) u v"
      then obtain u v where "c # s = (c # u) @ w @ v" "word_at w p (c # u) v" by (auto simp: word_at_Cons)
      then show ?l by blast
    qed force
  qed
  with Cons show ?case by (simp add: word_here_iff)
qed (simp add: word_here_iff)

section \<open>What the budgets promise\<close>

text \<open>The accounting as the code has it: a call counts as a write if the flag says so or the tool is known to write.\<close>

lemma recorded_calls_counted:
  fixes calls :: "(string \<times> bool) list"
  assumes "\<And>b. cb b = Inr ()"
    and "m0 = manager_set_on_exhausted (Some cb) (create_budget_manager dflt c x y z)"
    and "m = record_calls env calls m0"
    and "eff = (\<lambda>b. bs_effective_maximum (get_status (env_rnd env) (bm_tracker m0) b))"
    and "used = (\<lambda>b. bs_current (get_status (env_rnd env) (bm_tracker m) b))"
    and "wr = (\<lambda>(tool, w). w \<or> is_write_operation (env_canon env) (bm_classifier m0) tool)"
  shows "used TOOL_CALLS = int (length calls) \<and> used ACTION = int (length (filter wr calls)) \<and>
    used EXPLORATION = int (length (filter (\<lambda>k. \<not> wr k) calls)) \<and> used ITERATIONS = 0 \<and>
    fst (record_tool_call env tool w m) =
      Inr (used TOOL_CALLS < eff TOOL_CALLS \<and>
           (if wr (tool, w) then used ACTION < eff ACTION else used EXPLORATION < eff EXPLORATION)) \<and>
    (\<forall>b. count_list (bt_notified (bm_tracker m)) b = (if eff b \<le> used b then 1 else 0))"
proof -
  let ?tc = "bm_classifier m0"
  have start: "accounts (env_rnd env) cb eff (\<lambda>_. 0) (bm_tracker m0)"
    unfolding accounts_def assms(2,4)
  proof (intro conjI allI)
    fix b
    let ?t = "bm_tracker (manager_set_on_exhausted (Some cb) (create_budget_manager dflt c x y z))"
    show "\<exists>st. dict_get (bt_budgets ?t) b = Some st \<and> st_current st = 0 \<and>
        effective_max (env_rnd env) ?t b st = bs_effective_maximum (get_status (env_rnd env) ?t b) \<and>
        count_list (bt_notified ?t) b = (if bs_effective_maximum (get_status (env_rnd env) ?t b) \<le> 0 then 1 else 0)"
      by (cases b) (simp_all add: manager_set_on_exhausted_def set_on_exhausted_def create_budget_manager_def
        set_model_multiplier_def set_mode_multiplier_def set_productivity_multiplier_def change_calculator_def
        manager_init_def tracker_init_def initialize_budgets_def get_status_def effective_max_def
        calculate_effective_max_def fresh_budget_def)
  qed (simp add: manager_set_on_exhausted_def set_on_exhausted_def)
  have run: "accounts (env_rnd env) cb eff (calls_used env ?tc calls) (bm_tracker m)" "bm_classifier m = ?tc"
    using record_calls_accounts [OF start assms(1), of calls] by (simp_all add: assms(3))
  have used: "used = calls_used env ?tc calls" using accounts_status(1) [OF run(1)] by (auto simp: assms(5))
  have wr: "call_category env ?tc k = (if wr k then ACTION else EXPLORATION)" for k
    by (cases k) (simp add: call_category_def assms(6))
  have next_call: "fst (record_tool_call env tool w m) =
      Inr (used TOOL_CALLS < eff TOOL_CALLS \<and>
           used (call_category env ?tc (tool, w)) < eff (call_category env ?tc (tool, w)))"
    using record_accounts [OF run(1) assms(1) refl, of tool w] run(2) used by (metis fst_conv)
  have counts: "\<forall>b. count_list (bt_notified (bm_tracker m)) b = (if eff b \<le> used b then 1 else 0)"
    using accountsD [OF run(1)] unfolding used by blast
  show ?thesis
  proof (intro conjI counts)
    show "fst (record_tool_call env tool w m) = Inr (used TOOL_CALLS < eff TOOL_CALLS \<and>
        (if wr (tool, w) then used ACTION < eff ACTION else used EXPLORATION < eff EXPLORATION))"
      using next_call by (simp add: wr)
  qed (simp_all add: used calls_used_def wr if_distrib [of "\<lambda>b. b = _"] cong: if_cong)
qed

text \<open>
  The flag of a call as the caller gives it: not at all, or a truth value; the parameter's default is
  \<^verbatim>\<open>False\<close>. The documentation lets a flag that is given decide, and detects writes by the tool
  otherwise.
\<close>

definition flag_value :: "bool option \<Rightarrow> bool" where
  "flag_value f = (case f of None \<Rightarrow> False | Some b \<Rightarrow> b)"

definition counts_as_write :: "budget_env \<Rightarrow> ToolCallClassifier \<Rightarrow> string \<times> bool option \<Rightarrow> bool" where
  "counts_as_write env tc call =
     (case call of (tool, None) \<Rightarrow> is_write_operation (env_canon env) tc tool | (tool, Some b) \<Rightarrow> b)"

text \<open>C37. Tool calls are accounted for as documented. A manager is created with any configuration and
  multipliers and given a callback that does not raise; then any tool calls are recorded, none of them with an
  explicit \<^verbatim>\<open>False\<close> for a tool that is known to write (the code counts such a call as a write). The
  tool-call budget has counted every call, the action and exploration budgets the write calls
  and the others, where the flag decides if it is given and the tool otherwise; the next call is answered with True
  exactly when both its budgets had something left; and for every budget the callback was called once when
  its maximum was reached, and never otherwise.\<close>

theorem tool_call_accounting:
  fixes calls :: "(string \<times> bool option) list"
  assumes "\<And>b. cb b = Inr ()"
    and "m0 = manager_set_on_exhausted (Some cb) (create_budget_manager dflt c x y z)"
    and "\<forall>k \<in> set (call # calls). snd k = Some False \<longrightarrow> \<not> is_write_operation (env_canon env) (bm_classifier m0) (fst k)"
    and "m = record_calls env (map (\<lambda>(tool, f). (tool, flag_value f)) calls) m0"
    and "eff = (\<lambda>b. bs_effective_maximum (get_status (env_rnd env) (bm_tracker m0) b))"
    and "used = (\<lambda>b. bs_current (get_status (env_rnd env) (bm_tracker m) b))"
    and "wr = counts_as_write env (bm_classifier m0)"
  shows "used TOOL_CALLS = int (length calls) \<and> used ACTION = int (length (filter wr calls)) \<and>
    used EXPLORATION = int (length (filter (\<lambda>k. \<not> wr k) calls)) \<and> used ITERATIONS = 0 \<and>
    fst (record_tool_call env (fst call) (flag_value (snd call)) m) =
      Inr (used TOOL_CALLS < eff TOOL_CALLS \<and>
           (if wr call then used ACTION < eff ACTION else used EXPLORATION < eff EXPLORATION)) \<and>
    (\<forall>b. count_list (bt_notified (bm_tracker m)) b = (if eff b \<le> used b then 1 else 0))"
proof -
  let ?pass = "\<lambda>(tool, f). (tool, flag_value f)"
  let ?wr = "\<lambda>(tool, w). w \<or> is_write_operation (env_canon env) (bm_classifier m0) tool"
  have same: "?wr (?pass k) = wr k" if "k \<in> set (call # calls)" for k
    using assms(3) that by (cases k; cases "snd k") (auto simp: assms(7) counts_as_write_def flag_value_def)
  have "length (filter ?wr (map ?pass calls)) = length (filter wr calls)"
    "length (filter (\<lambda>k. \<not> ?wr k) (map ?pass calls)) = length (filter (\<lambda>k. \<not> wr k) calls)"
    using same by (simp_all add: filter_map comp_def cong: filter_cong)
  with recorded_calls_counted [OF assms(1,2,4-6) refl, of "fst call" "flag_value (snd call)"] same [of call]
  show ?thesis by (simp add: split_beta)
qed

definition plain_env :: budget_env where
  "plain_env = \<lparr>env_rnd = (\<lambda>x. x), env_canon = (\<lambda>n. n)\<rparr>"

definition small_manager :: BudgetManager where
  "small_manager = manager_set_on_exhausted (Some (\<lambda>_. Inr ()))
     (create_budget_manager {''write''} (Some (default_budget_config\<lparr>base_tool_calls := 2\<rparr>)) 1 1 1)"

lemma policy_names:
  "normalize_tool_name_for_policy (\<lambda>n. n) (py_lower ''Write_File'') = ''write''"
  "normalize_tool_name_for_policy (\<lambda>n. n) (py_lower ''read'') = ''read''"
  by code_simp+

lemmas small_manager_simps = small_manager_def manager_set_on_exhausted_def set_on_exhausted_def create_budget_manager_def
  set_model_multiplier_def set_mode_multiplier_def set_productivity_multiplier_def change_calculator_def manager_init_def
  tracker_init_def initialize_budgets_def fresh_budget_def default_budget_config_def classifier_init_def
  calc_set_model_def calc_set_mode_def calc_set_productivity_def

theorem tool_call_accounting_witness:
  "let m = record_calls plain_env (map (\<lambda>(tool, f). (tool, flag_value f)) [(''Write_File'', None), (''read'', Some False)]) small_manager in
   bs_current (get_status (\<lambda>x. x) (bm_tracker m) TOOL_CALLS) = 2 \<and>
   bs_current (get_status (\<lambda>x. x) (bm_tracker m) ACTION) = 1 \<and>
   fst (record_tool_call plain_env ''read'' False m) = Inr False \<and>
   count_list (bt_notified (bm_tracker m)) TOOL_CALLS = 1 \<and> count_list (bt_notified (bm_tracker m)) ACTION = 0"
proof -
  let ?calls = "[(''Write_File'', None), (''read'', Some False)] :: (string \<times> bool option) list"
  have max: "bs_effective_maximum (get_status (\<lambda>x. x) (bm_tracker small_manager) TOOL_CALLS) = 2"
    "bs_effective_maximum (get_status (\<lambda>x. x) (bm_tracker small_manager) ACTION) = 12"
    by (simp_all add: small_manager_simps get_status_def effective_max_def calculate_effective_max_def
        get_combined_multiplier_def py_int_def)
  have wr: "is_write_operation (\<lambda>n. n) (bm_classifier small_manager) ''Write_File''"
    "\<not> is_write_operation (\<lambda>n. n) (bm_classifier small_manager) ''read''"
    by (simp_all add: is_write_operation_def policy_names) (simp_all add: small_manager_simps)
  have ok: "\<forall>k \<in> set ((''read'', Some False) # ?calls). snd k = Some False \<longrightarrow>
      \<not> is_write_operation (env_canon plain_env) (bm_classifier small_manager) (fst k)"
    using wr(2) by (simp add: plain_env_def)
  show ?thesis
    using tool_call_accounting [of "\<lambda>_. Inr ()" small_manager "{''write''}" "Some (default_budget_config\<lparr>base_tool_calls := 2\<rparr>)"
        1 1 1 "(''read'', Some False)" ?calls plain_env, OF refl small_manager_def ok refl refl refl refl] max wr
    by (simp add: Let_def plain_env_def flag_value_def counts_as_write_def)
qed

text \<open>An explicit \<^verbatim>\<open>False\<close> for a tool that is known to write is overridden.\<close>

lemma explicit_false_overridden:
  "is_write_operation (env_canon env) (bm_classifier m) tool \<Longrightarrow> record_tool_call env tool False m = record_tool_call env tool True m"
  by (simp add: record_tool_call_def)

text \<open>Whatever calls are made on a created manager, and with whatever values, the multipliers
  stay in their ranges, every budget has a maximum of at least one, a budget is exhausted exactly
  when nothing remains of it, and a reset leaves no budget exhausted.\<close>

theorem budget_bounds:
  "let m = fold (manager_step env) calls (create_budget_manager dflt c x y z); s = get_status (env_rnd env) (bm_tracker m) b in
   1 / 2 \<le> bs_model s \<and> bs_model s \<le> 3 \<and> 1 / 2 \<le> bs_mode s \<and> bs_mode s \<le> 5 \<and>
   1 / 2 \<le> bs_productivity s \<and> bs_productivity s \<le> 3 \<and> 1 \<le> bs_effective_maximum s \<and>
   (bs_is_exhausted s \<longleftrightarrow> remaining s = 0) \<and>
   \<not> is_exhausted (env_rnd env) (bm_tracker (manager_reset None m)) b \<and>
   \<not> is_exhausted (env_rnd env) (bm_tracker (manager_reset (Some b) m)) b"
proof -
  let ?m = "fold (manager_step env) calls (create_budget_manager dflt c x y z)"
  let ?t = "bm_tracker ?m"
  have "manager_ok (case c of None \<Rightarrow> default_budget_config | Some c \<Rightarrow> c) ?m"
    by (rule budget_run.run_inv, rule create_ok)
  then obtain mc where mc: "bt_calculator ?t = Some mc" "calculator_ok mc" and keys: "dict_keys (bt_budgets ?t) = budget_types"
    by (auto simp: manager_ok_def)
  have "dict_has (bt_budgets ?t) b" unfolding dict_has_keys keys by (cases b) (simp_all add: budget_types_def)
  then obtain st where st: "dict_get (bt_budgets ?t) b = Some st" by (auto simp: dict_has_def)
  have pos: "1 \<le> calculate_effective_max rnd mc b n" for rnd n by (simp add: calculate_effective_max_def)
  have full: "\<not> is_exhausted (env_rnd env) (bm_tracker (manager_reset None ?m)) b"
    using mc(1) pos by (cases b) (auto simp: manager_reset_def tracker_reset_def initialize_budgets_def is_exhausted_def
        get_status_def effective_max_def fresh_budget_def not_le Let_def intro: less_le_trans [OF zero_less_one])
  have one: "\<not> is_exhausted (env_rnd env) (bm_tracker (manager_reset (Some b) ?m)) b"
    using mc(1) st pos by (auto simp: manager_reset_def tracker_reset_def change_budget_def is_exhausted_def dict_simps
        get_status_def effective_max_def not_le Let_def intro: less_le_trans [OF zero_less_one])
  show ?thesis
    using mc st pos full one by (simp add: get_status_def effective_max_def calculator_ok_def remaining_def Let_def) linarith
qed

text \<open>Early exit, exactly. With criteria whose completion signals are not empty strings, the
  checker says that a mode may end when the iteration limit is reached, or when the files the
  mode asks for were written (BUILD) or read (the others), some completion signal occurs in the
  lower-cased response, and in PLAN mode every required section occurs in it as a word.\<close>

theorem early_exit_exact:
  assumes "[] \<notin> set (completion_signals (get_criteria k mode))"
    and "c = get_criteria k mode" and "low = py_lower response"
  shows "fst (fst (check_early_exit mode files_read files_written its response k)) \<longleftrightarrow>
    mc_max_iterations c \<le> its \<or>
    (if py_upper mode = ''BUILD'' then min_files_written c \<le> files_written else min_files_read c \<le> files_read) \<and>
    (\<exists>sig \<in> set (completion_signals c). \<exists>u v. low = u @ sig @ v) \<and>
    (py_upper mode = ''PLAN'' \<longrightarrow>
       (\<forall>w \<in> set (required_sections c). \<exists>u v. low = u @ w @ v \<and> word_at w None u v))"
proof (cases "find (\<lambda>sig. py_contains sig low) (completion_signals c)")
  case None
  then have "\<not> (\<exists>sig \<in> set (completion_signals c). \<exists>u v. low = u @ sig @ v)"
    by (auto simp: find_None_iff py_contains_iff)
  with None assms(2,3) show ?thesis by (auto simp: check_early_exit_def Let_def)
next
  case (Some sig)
  then have sig: "sig \<in> set (completion_signals c)" "\<exists>u v. low = u @ sig @ v"
    by (auto simp: find_Some_iff py_contains_iff)
  then have ne: "sig \<noteq> []" using assms(1,2) by auto
  have sections: "missing_sections c low = [] \<longleftrightarrow>
      (\<forall>w \<in> set (required_sections c). \<exists>u v. low = u @ w @ v \<and> word_at w None u v)"
    by (auto simp: missing_sections_def filter_empty_conv word_search_iff)
  have none: "required_sections c \<noteq> [] \<and> missing_sections c low \<noteq> [] \<longleftrightarrow> missing_sections c low \<noteq> []"
    by (auto simp: missing_sections_def)
  have "\<exists>sig \<in> set (completion_signals c). \<exists>u v. low = u @ sig @ v" using sig by blast
  then show ?thesis
    using Some ne assms(2,3) none unfolding sections [symmetric]
    by (auto simp: check_early_exit_def Let_def)
qed

theorem early_exit_exact_witness:
  "fst (fst (check_early_exit ''build'' 0 1 3 ''File created.'' (checker_init [])))"
proof -
  let ?c = "get_criteria (checker_init []) ''build''"
  have build: "py_upper ''build'' = ''BUILD''" by code_simp
  have c: "''created'' \<in> set (completion_signals ?c)" "[] \<notin> set (completion_signals ?c)" "min_files_written ?c = 1"
    by (simp_all add: get_criteria_def build checker_init_def dict_get_or_def CRITERIA_def)
  have "py_lower ''File created.'' = ''file '' @ ''created'' @ ''.''" by code_simp
  then have "\<exists>sig \<in> set (completion_signals ?c). \<exists>u v. py_lower ''File created.'' = u @ sig @ v" using c(1) by blast
  then show ?thesis
    using early_exit_exact [OF c(2) refl refl, of 0 1 3 "''File created.''"] c(3) build by simp
qed

lemma check_early_exit_state:
  "snd (check_early_exit mode r w its response k) = k\<lparr>iteration_counts := dict_set mode its (iteration_counts k)\<rparr>"
  by (simp add: check_early_exit_def Let_def split: option.splits)

text \<open>The counts are stored under the mode as given and read under its capitals, so the progress of
  a mode given in small letters never changes.\<close>

theorem lower_case_mode_untracked:
  assumes "py_upper mode \<noteq> mode"
  shows "get_progress rnd (snd (check_early_exit mode r w its response k)) mode = get_progress rnd k mode"
  using assms by (simp add: get_progress_def check_early_exit_state get_criteria_def dict_get_or_def dict_simps)

theorem lower_case_mode_untracked_witness:
  "get_progress (\<lambda>x. x) (snd (check_early_exit ''plan'' 1 0 7 ''text'' (checker_init []))) ''plan'' =
   get_progress (\<lambda>x. x) (checker_init []) ''plan''"
  by (rule lower_case_mode_untracked) code_simp

end
