(* ===== verification/Repository.thy ===== *)
theory Repository
  imports Prelude
begin

text \<open>
  Entities, specifications and the in-memory repository (\<^verbatim>\<open>victor/core/repository.py\<close>). Entities are
  shared objects: the caller, the repositories and the unit of work hold references to them, so the
  model has a heap from addresses to entities, and a repository stores addresses under identifiers. A
  date is an object known by its number; \<open>iso_text\<close> gives its ISO text and \<open>now\<close> the object that a reading
  of the clock creates. The program does not assign to the identifier of an entity, and changes an
  attribute by assigning to it. The methods run one after the other, as the locks make them.
\<close>

section \<open>Entities\<close>

record Entity =
  e_type :: string
  e_id :: string
  e_created_at :: pyval
  e_updated_at :: pyval
  e_version :: int
  e_attrs :: state

text \<open>A date is serialized to its ISO text, every other value is kept.\<close>

definition serialized :: "(nat \<Rightarrow> string option) \<Rightarrow> pyval \<Rightarrow> pyval" where
  "serialized iso_text v = (case v of VObj n \<Rightarrow> (case iso_text n of Some s \<Rightarrow> VStr s | None \<Rightarrow> v) | _ \<Rightarrow> v)"

definition entity_to_dict :: "(nat \<Rightarrow> string option) \<Rightarrow> Entity \<Rightarrow> state" where
  "entity_to_dict iso_text e =
     [(''id'', VStr (e_id e)), (''created_at'', serialized iso_text (e_created_at e)),
      (''updated_at'', serialized iso_text (e_updated_at e)), (''version'', VInt (e_version e))] @
     map (\<lambda>(k, v). (k, serialized iso_text v)) (e_attrs e)"

text \<open>\<^verbatim>\<open>setattr(entity, key, value)\<close>; a value of another type for the identifier or the version does
  not occur, since the values come from the dictionary form of the entity.\<close>

definition set_attr :: "string \<times> pyval \<Rightarrow> Entity \<Rightarrow> Entity" where
  "set_attr kv e =
     (case kv of (k, v) \<Rightarrow>
        if k = ''id'' then (case v of VStr s \<Rightarrow> e\<lparr>e_id := s\<rparr> | _ \<Rightarrow> e)
        else if k = ''created_at'' then e\<lparr>e_created_at := v\<rparr>
        else if k = ''updated_at'' then e\<lparr>e_updated_at := v\<rparr>
        else if k = ''version'' then (case v of VInt n \<Rightarrow> e\<lparr>e_version := n\<rparr> | _ \<Rightarrow> e)
        else e\<lparr>e_attrs := dict_set k v (e_attrs e)\<rparr>)"

record world =
  w_heap :: "nat \<Rightarrow> Entity"
  w_stores :: "nat \<Rightarrow> (string, nat) dict"
  w_reads :: nat

definition set_entity :: "nat \<Rightarrow> Entity \<Rightarrow> world \<Rightarrow> world" where
  "set_entity a e w = w\<lparr>w_heap := (w_heap w)(a := e)\<rparr>"

definition touch :: "(nat \<Rightarrow> nat) \<Rightarrow> nat \<Rightarrow> world \<Rightarrow> world" where
  "touch now a w = (set_entity a ((w_heap w a)\<lparr>e_updated_at := VObj (now (w_reads w))\<rparr>) w)\<lparr>w_reads := Suc (w_reads w)\<rparr>"

definition increment_version :: "nat \<Rightarrow> world \<Rightarrow> world" where
  "increment_version a w = set_entity a ((w_heap w a)\<lparr>e_version := e_version (w_heap w a) + 1\<rparr>) w"

text \<open>An entity has the four attributes of the base class once, and its own under other names.\<close>

definition base_attrs :: "string list" where
  "base_attrs = [''id'', ''created_at'', ''updated_at'', ''version'']"

definition entity_ok :: "Entity \<Rightarrow> bool" where
  "entity_ok e \<longleftrightarrow> dict_ok (e_attrs e) \<and> list_all (\<lambda>k. \<not> dict_has (e_attrs e) k) base_attrs"

section \<open>Specifications\<close>

type_synonym entity_spec = "Entity \<Rightarrow> bool result"

definition and_spec :: "entity_spec \<Rightarrow> entity_spec \<Rightarrow> entity_spec" where
  "and_spec l r e = bind_result (l e) (\<lambda>b. if b then r e else Inr False)"

definition or_spec :: "entity_spec \<Rightarrow> entity_spec \<Rightarrow> entity_spec" where
  "or_spec l r e = bind_result (l e) (\<lambda>b. if b then Inr True else r e)"

definition not_spec :: "entity_spec \<Rightarrow> entity_spec" where
  "not_spec s e = bind_result (s e) (\<lambda>b. Inr (\<not> b))"

text \<open>
  Comparing two values with \<^verbatim>\<open><\<close>, \<^verbatim>\<open>>\<close>, \<^verbatim>\<open><=\<close>, \<^verbatim>\<open>>=\<close>: numbers by size, texts by code points, lists at the first
  place where they differ; everything else raises, except dates, which the parameter \<open>dates\<close>
  compares. The answer is negative, zero or positive.
\<close>

fun number_of :: "pyval \<Rightarrow> real option" where
  "number_of (VBool b) = Some (of_bool b)"
| "number_of (VInt i) = Some (of_int i)"
| "number_of (VFloat r) = Some r"
| "number_of _ = None"

definition sign :: "bool \<Rightarrow> bool \<Rightarrow> int" where
  "sign lt eq = (if lt then -1 else if eq then 0 else 1)"

fun text_compare :: "string \<Rightarrow> string \<Rightarrow> int" where
  "text_compare [] t = sign (t \<noteq> []) True"
| "text_compare (c # s) [] = 1"
| "text_compare (c # s) (d # t) =
     (if c = d then text_compare s t else sign ((of_char c :: nat) < of_char d) False)"

fun py_compare :: "(nat \<Rightarrow> nat \<Rightarrow> int option) \<Rightarrow> pyval \<Rightarrow> pyval \<Rightarrow> int option"
  and py_compare_list :: "(nat \<Rightarrow> nat \<Rightarrow> int option) \<Rightarrow> pyval list \<Rightarrow> pyval list \<Rightarrow> int option" where
  "py_compare dates (VStr s) w = (case w of VStr t \<Rightarrow> Some (text_compare s t) | _ \<Rightarrow> None)"
| "py_compare dates (VObj m) w = (case w of VObj n \<Rightarrow> dates m n | _ \<Rightarrow> None)"
| "py_compare dates (VList xs) w = (case w of VList ys \<Rightarrow> py_compare_list dates xs ys | _ \<Rightarrow> None)"
| "py_compare dates v w =
     (case (number_of v, number_of w) of (Some x, Some y) \<Rightarrow> Some (sign (x < y) (x = y)) | _ \<Rightarrow> None)"
| "py_compare_list dates [] ys = Some (sign (ys \<noteq> []) True)"
| "py_compare_list dates (x # xs) ys =
     (case ys of [] \<Rightarrow> Some 1
      | y # ys \<Rightarrow> if pyval_eq x y then py_compare_list dates xs ys else py_compare dates x y)"

definition type_error :: py_exc where
  "type_error = PyExc ''TypeError'' ''unsupported operand''"

text \<open>\<^verbatim>\<open>v in w\<close>.\<close>

definition py_in :: "pyval \<Rightarrow> pyval \<Rightarrow> bool result" where
  "py_in v w =
     (case w of
        VList ys \<Rightarrow> Inr (list_ex (pyval_eq v) ys)
      | VStr t \<Rightarrow> (case v of VStr s \<Rightarrow> Inr (py_contains s t) | _ \<Rightarrow> Inl type_error)
      | VDict d \<Rightarrow> (case v of VList _ \<Rightarrow> Inl type_error | VDict _ \<Rightarrow> Inl type_error | VStr s \<Rightarrow> Inr (dict_has d s) | _ \<Rightarrow> Inr False)
      | _ \<Rightarrow> Inl type_error)"

text \<open>\<^verbatim>\<open>getattr(entity, attribute, None)\<close>, for the name of a data attribute.\<close>

definition entity_attr :: "string \<Rightarrow> Entity \<Rightarrow> pyval" where
  "entity_attr k e =
     (if k = ''id'' then VStr (e_id e) else if k = ''created_at'' then e_created_at e
      else if k = ''updated_at'' then e_updated_at e else if k = ''version'' then VInt (e_version e)
      else dict_get_or (e_attrs e) k VNone)"

record AttributeSpecification =
  as_attribute :: string
  as_value :: pyval
  as_operator :: string

definition attribute_spec :: "(nat \<Rightarrow> nat \<Rightarrow> int option) \<Rightarrow> AttributeSpecification \<Rightarrow> entity_spec" where
  "attribute_spec dates s e =
     (let actual = entity_attr (as_attribute s) e; value = as_value s; op = as_operator s;
          compare = (\<lambda>test. case py_compare dates actual value of None \<Rightarrow> Inl type_error | Some c \<Rightarrow> Inr (test c))
      in if op = ''eq'' then Inr (pyval_eq actual value)
         else if op = ''ne'' then Inr (\<not> pyval_eq actual value)
         else if op = ''gt'' then compare (\<lambda>c. c > 0)
         else if op = ''lt'' then compare (\<lambda>c. c < 0)
         else if op = ''gte'' then compare (\<lambda>c. c \<ge> 0)
         else if op = ''lte'' then compare (\<lambda>c. c \<le> 0)
         else if op = ''in'' then py_in actual value
         else if op = ''contains'' then (if py_truthy actual then py_in value actual else Inr False)
         else Inr False)"

text \<open>The query form for storage backends.\<close>

definition op_map :: "(string, string) dict" where
  "op_map = map (\<lambda>k. (k, CHR 0x24 # k)) [''eq'', ''ne'', ''gt'', ''lt'', ''gte'', ''lte'', ''in'', ''contains'']"

definition attribute_query :: "AttributeSpecification \<Rightarrow> pyval" where
  "attribute_query s = VDict [(as_attribute s, VDict [(dict_get_or op_map (as_operator s) (CHR 0x24 # ''eq''), as_value s)])]"

definition and_query :: "pyval \<Rightarrow> pyval \<Rightarrow> pyval" where
  "and_query l r = VDict [(CHR 0x24 # ''and'', VList [l, r])]"

definition or_query :: "pyval \<Rightarrow> pyval \<Rightarrow> pyval" where
  "or_query l r = VDict [(CHR 0x24 # ''or'', VList [l, r])]"

definition not_query :: "pyval \<Rightarrow> pyval" where
  "not_query q = VDict [(CHR 0x24 # ''not'', q)]"

fun filter_result :: "('a \<Rightarrow> bool result) \<Rightarrow> 'a list \<Rightarrow> 'a list result" where
  "filter_result f [] = Inr []"
| "filter_result f (x # xs) =
     bind_result (f x) (\<lambda>b. bind_result (filter_result f xs) (\<lambda>ys. Inr (if b then x # ys else ys)))"

section \<open>The abstract repository\<close>

definition not_found :: "string \<Rightarrow> py_exc" where
  "not_found i = PyExc ''EntityNotFoundError'' (''Entity not found: '' @ i)"

definition already_exists :: "string \<Rightarrow> py_exc" where
  "already_exists i = PyExc ''EntityExistsError'' (''Entity already exists: '' @ i)"

definition concurrency_error :: "string \<Rightarrow> int \<Rightarrow> int \<Rightarrow> py_exc" where
  "concurrency_error i expected actual = PyExc ''ConcurrencyError''
     (''Concurrency conflict for stream '' @ i @ '': expected '' @ show_int expected @ '', actual '' @ show_int actual)"

text \<open>The methods the abstract class defines on top of the ones a backend provides.\<close>

definition get_or_raise :: "(string \<Rightarrow> 's \<Rightarrow> 'e option \<times> 's) \<Rightarrow> string \<Rightarrow> 's \<Rightarrow> 'e result \<times> 's" where
  "get_or_raise get i s = (case get i s of (None, s) \<Rightarrow> (Inl (not_found i), s) | (Some e, s) \<Rightarrow> (Inr e, s))"

definition add_many :: "('e \<Rightarrow> 's \<Rightarrow> unit result \<times> 's) \<Rightarrow> 'e list \<Rightarrow> 's \<Rightarrow> unit result \<times> 's" where
  "add_many add es s = run_each add es s"

definition delete_many :: "(string \<Rightarrow> 's \<Rightarrow> unit result \<times> 's) \<Rightarrow> string list \<Rightarrow> 's \<Rightarrow> unit result \<times> 's" where
  "delete_many delete is s = run_each delete is s"

text \<open>
  The contract of a repository: it is a map from identifiers to entities, each under its own. Entities have
  their identifier in the state, since they may be objects there; \<open>valid\<close> is what a backend needs of its
  state, \<open>storable\<close> what it needs of an entity. An update returns the entity as it is stored.
\<close>

locale repository =
  fixes key :: "'s \<Rightarrow> 'e \<Rightarrow> string"
    and contents :: "'s \<Rightarrow> string \<Rightarrow> 'e option"
    and valid :: "'s \<Rightarrow> bool"
    and storable :: "'e \<Rightarrow> bool"
    and add :: "'e \<Rightarrow> 's \<Rightarrow> unit result \<times> 's"
    and get :: "string \<Rightarrow> 's \<Rightarrow> 'e option \<times> 's"
    and update :: "'e \<Rightarrow> 's \<Rightarrow> 'e result \<times> 's"
    and delete :: "string \<Rightarrow> 's \<Rightarrow> unit result \<times> 's"
    and exists :: "string \<Rightarrow> 's \<Rightarrow> bool \<times> 's"
  assumes filed: "valid s \<Longrightarrow> contents s i = Some e \<Longrightarrow> key s e = i"
    and add: "valid s \<Longrightarrow> storable e \<Longrightarrow> add e s = (q, s') \<Longrightarrow> valid s' \<and> key s' = key s \<and>
      (if contents s (key s e) = None then q = Inr () \<and> contents s' = (contents s)(key s e \<mapsto> e)
       else q = Inl (already_exists (key s e)) \<and> contents s' = contents s)"
    and get: "valid s \<Longrightarrow> get i s = (x, s') \<Longrightarrow> valid s' \<and> key s' = key s \<and> x = contents s i \<and> contents s' = contents s"
    and update: "valid s \<Longrightarrow> storable e \<Longrightarrow> update e s = (p, s') \<Longrightarrow> valid s' \<and> key s' = key s \<and>
      (case p of
         Inr e' \<Rightarrow> contents s (key s e) \<noteq> None \<and> key s e' = key s e \<and> contents s' = (contents s)(key s e \<mapsto> e')
       | Inl x \<Rightarrow> contents s' = contents s \<and> (contents s (key s e) = None \<longrightarrow> x = not_found (key s e)))"
    and delete: "valid s \<Longrightarrow> delete i s = (q, s') \<Longrightarrow> valid s' \<and> key s' = key s \<and>
      (if contents s i = None then q = Inl (not_found i) \<and> contents s' = contents s
       else q = Inr () \<and> contents s' = (contents s)(i := None))"
    and exists: "valid s \<Longrightarrow> exists i s = (b, s') \<Longrightarrow>
      valid s' \<and> key s' = key s \<and> b = (contents s i \<noteq> None) \<and> contents s' = contents s"
begin

lemma get_or_raise_spec:
  assumes "valid s" "get_or_raise get i s = (q, s')"
  shows "valid s' \<and> contents s' = contents s \<and> (case contents s i of None \<Rightarrow> q = Inl (not_found i) | Some e \<Rightarrow> q = Inr e)"
  using get [OF assms(1)] assms(2) by (auto simp: get_or_raise_def split: prod.splits option.splits)

text \<open>Several additions go through if the identifiers are free and different; the first one that is taken
  stops them, and what came before stays.\<close>

lemma add_many_spec:
  assumes "valid s" "\<forall>e \<in> set es. storable e" "distinct (map (key s) es)" "\<forall>e \<in> set es. contents s (key s e) = None"
  shows "\<exists>s'. add_many add es s = (Inr (), s') \<and> valid s' \<and> key s' = key s \<and>
    (\<forall>i. contents s' i = (case find (\<lambda>e. key s e = i) es of None \<Rightarrow> contents s i | Some e \<Rightarrow> Some e))"
  using assms
proof (induction es arbitrary: s)
  case (Cons e es)
  obtain q s1 where a: "add e s = (q, s1)" by (rule prod.exhaust)
  note A = add [OF Cons.prems(1) _ a]
  have s1: "valid s1" "key s1 = key s" "q = Inr ()" "contents s1 = (contents s)(key s e \<mapsto> e)" using A Cons.prems(2,4) by auto
  have free: "\<forall>d \<in> set es. contents s1 (key s d) = None" using Cons.prems(3,4) by (auto simp: s1(4) image_iff)
  obtain s' where s': "add_many add es s1 = (Inr (), s')" "valid s'" "key s' = key s1"
    "\<forall>i. contents s' i = (case find (\<lambda>e. key s1 e = i) es of None \<Rightarrow> contents s1 i | Some e \<Rightarrow> Some e)"
    using Cons.IH [OF s1(1)] Cons.prems(2-4) free by (auto simp: s1(2))
  have "find (\<lambda>e'. key s e' = key s e) es = None" using Cons.prems(3) by (auto simp: find_None_iff image_iff)
  then show ?case using s' a by (auto simp: add_many_def s1 split: option.splits)
qed (auto simp: add_many_def)

lemma add_many_stops:
  assumes "valid s" "\<forall>e \<in> set (es @ [d]). storable e" "distinct (map (key s) es)" "\<forall>e \<in> set es. contents s (key s e) = None"
    "contents s (key s d) \<noteq> None \<or> key s d \<in> key s ` set es"
  shows "\<exists>s'. add_many add (es @ d # ds) s = (Inl (already_exists (key s d)), s') \<and>
    (\<forall>i. contents s' i = (case find (\<lambda>e. key s e = i) es of None \<Rightarrow> contents s i | Some e \<Rightarrow> Some e))"
proof -
  obtain s1 where s1: "add_many add es s = (Inr (), s1)" "valid s1" "key s1 = key s"
    "\<forall>i. contents s1 i = (case find (\<lambda>e. key s e = i) es of None \<Rightarrow> contents s i | Some e \<Rightarrow> Some e)"
    using add_many_spec [OF assms(1) _ assms(3,4)] assms(2) by auto
  have "contents s1 (key s1 d) \<noteq> None"
    using assms(5) s1(3,4) by (force simp: find_None_iff split: option.splits)
  obtain q s2 where a: "add d s1 = (q, s2)" by (rule prod.exhaust)
  have "q = Inl (already_exists (key s d))" "contents s2 = contents s1"
    using add [OF s1(2) _ a] \<open>contents s1 (key s1 d) \<noteq> None\<close> assms(2) by (auto simp: s1(3))
  then show ?thesis using s1 a by (auto simp: add_many_def run_each_append)
qed

lemma add_get:
  assumes "valid s" "storable e" "add e s = (Inr (), s')"
  shows "fst (get (key s e) s') = Some e"
proof -
  have "valid s'" "contents s' (key s e) = Some e" using add [OF assms] by (auto split: if_splits)
  then show ?thesis using get [of s' "key s e"] by (metis prod.collapse)
qed

lemma add_delete:
  assumes "valid s" "storable e" "add e s = (Inr (), s1)" "delete (key s e) s1 = (q, s2)"
  shows "q = Inr () \<and> contents s2 = contents s"
proof -
  have "valid s1" "contents s1 = (contents s)(key s e \<mapsto> e)" "contents s (key s e) = None"
    using add [OF assms(1-3)] by (auto split: if_splits)
  then show ?thesis using delete [OF _ assms(4)] by (auto simp: fun_eq_iff split: if_splits)
qed

end

section \<open>The in-memory repository\<close>

definition set_store :: "nat \<Rightarrow> (string, nat) dict \<Rightarrow> world \<Rightarrow> world" where
  "set_store r d w = w\<lparr>w_stores := (w_stores w)(r := d)\<rparr>"

definition repo_add :: "nat \<Rightarrow> nat \<Rightarrow> world \<Rightarrow> unit result \<times> world" where
  "repo_add r a w =
     (let i = e_id (w_heap w a)
      in if dict_has (w_stores w r) i then (Inl (already_exists i), w)
         else (Inr (), set_store r (dict_set i a (w_stores w r)) w))"

definition repo_get :: "nat \<Rightarrow> string \<Rightarrow> world \<Rightarrow> nat option" where
  "repo_get r i w = dict_get (w_stores w r) i"

definition repo_update :: "(nat \<Rightarrow> nat) \<Rightarrow> nat \<Rightarrow> nat \<Rightarrow> world \<Rightarrow> unit result \<times> world" where
  "repo_update now r a w =
     (let e = w_heap w a
      in case dict_get (w_stores w r) (e_id e) of
          None \<Rightarrow> (Inl (not_found (e_id e)), w)
        | Some b \<Rightarrow>
            (if e_version (w_heap w b) \<noteq> e_version e
             then (Inl (concurrency_error (e_id e) (e_version e) (e_version (w_heap w b))), w)
             else let w = increment_version a (touch now a w)
                  in (Inr (), set_store r (dict_set (e_id e) a (w_stores w r)) w)))"

definition repo_delete :: "nat \<Rightarrow> string \<Rightarrow> world \<Rightarrow> unit result \<times> world" where
  "repo_delete r i w =
     (if \<not> dict_has (w_stores w r) i then (Inl (not_found i), w)
      else (Inr (), set_store r (dict_pop i (w_stores w r)) w))"

definition repo_list :: "nat \<Rightarrow> entity_spec option \<Rightarrow> nat \<Rightarrow> nat \<Rightarrow> world \<Rightarrow> nat list result" where
  "repo_list r spec limit offset w =
     bind_result (case spec of
         None \<Rightarrow> Inr (dict_values (w_stores w r))
       | Some s \<Rightarrow> filter_result (\<lambda>a. s (w_heap w a)) (dict_values (w_stores w r)))
       (\<lambda>es. Inr (take limit (drop offset es)))"

definition repo_count :: "nat \<Rightarrow> entity_spec option \<Rightarrow> world \<Rightarrow> nat result" where
  "repo_count r spec w =
     (case spec of
        None \<Rightarrow> Inr (length (w_stores w r))
      | Some s \<Rightarrow> bind_result (filter_result (\<lambda>a. s (w_heap w a)) (dict_values (w_stores w r))) (\<lambda>es. Inr (length es)))"

definition repo_exists :: "nat \<Rightarrow> string \<Rightarrow> world \<Rightarrow> bool" where
  "repo_exists r i w = dict_has (w_stores w r) i"

definition repo_clear :: "nat \<Rightarrow> world \<Rightarrow> world" where
  "repo_clear r w = set_store r [] w"

text \<open>The in-memory repository keeps the contract, and stores the object itself.\<close>

definition stores_ok :: "world \<Rightarrow> bool" where
  "stores_ok w \<longleftrightarrow> (\<forall>r. dict_ok (w_stores w r)) \<and> (\<forall>r i b. repo_get r i w = Some b \<longrightarrow> e_id (w_heap w b) = i)"

lemmas repo_ops = repo_add_def repo_update_def repo_delete_def repo_get_def set_store_def increment_version_def touch_def
  set_entity_def Let_def

interpretation memory: repository "\<lambda>w a. e_id (w_heap w a)" "\<lambda>w i. repo_get r i w" stores_ok "\<lambda>_. True" "repo_add r"
  "\<lambda>i w. (repo_get r i w, w)" "\<lambda>a w. map_prod (map_sum id (\<lambda>_. a)) id (repo_update now r a w)" "repo_delete r"
  "\<lambda>i w. (repo_exists r i w, w)" for now r
proof (unfold_locales, goal_cases)
  case (2 w a q w')
  then show ?case by (auto simp: repo_ops stores_ok_def dict_simps dict_has_def fun_eq_iff split: if_splits)
next
  case (4 w a q w')
  then show ?case
    by (auto simp: repo_ops stores_ok_def dict_simps fun_eq_iff not_found_def concurrency_error_def split: if_splits option.splits)
next
  case (5 w i q w')
  then show ?case by (auto simp: repo_ops stores_ok_def dict_simps dict_has_def fun_eq_iff split: if_splits)
qed (auto simp: stores_ok_def repo_exists_def repo_get_def dict_has_def)

text \<open>What a query returns is in the repository.\<close>

lemma filter_result_subset: "filter_result f xs = Inr ys \<Longrightarrow> set ys \<subseteq> set xs"
  by (induction xs arbitrary: ys) (auto simp: bind_result_eq_Inr split: if_splits)

lemma repo_list_filed:
  assumes "stores_ok w" "repo_list r spec limit offset w = Inr as" "a \<in> set as"
  shows "repo_get r (e_id (w_heap w a)) w = Some a"
proof -
  have "a \<in> set (dict_values (w_stores w r))"
    using assms(2,3) by (cases spec)
      (auto simp: repo_list_def bind_result_eq_Inr dest!: in_set_takeD in_set_dropD dest: filter_result_subset)
  then obtain i where i: "(i, a) \<in> set (w_stores w r)" by (auto simp: dict_values_def)
  then have "repo_get r i w = Some a" using assms(1) dict_get_items [of "w_stores w r" i a] by (simp add: stores_ok_def repo_get_def)
  moreover from this have "e_id (w_heap w a) = i" using assms(1) by (simp add: stores_ok_def)
  ultimately show ?thesis by simp
qed

end
