(* ===== verification/Cached_Repository.thy ===== *)
theory Cached_Repository
  imports Repository
begin

text \<open>
  The repository decorator with a cache (\<^verbatim>\<open>CachedRepository\<close> of \<^verbatim>\<open>victor/core/repository.py\<close>) and the read-only wrapper. The
  decorated repository is given by its operations, since the decorator takes any. Readings of
  the clock are numbered; \<open>clk\<close> says what each returns.
\<close>

section \<open>The cache\<close>

record 'e CachedRepository =
  cr_cache :: "(string, 'e \<times> time) dict"
  cr_cache_ttl :: real
  cr_max_cache_size :: nat
  cr_reads :: nat

definition cached_init :: "real \<Rightarrow> nat \<Rightarrow> 'e CachedRepository" where
  "cached_init cache_ttl max_cache_size =
     \<lparr>cr_cache = [], cr_cache_ttl = cache_ttl, cr_max_cache_size = max_cache_size, cr_reads = 0\<rparr>"

definition is_cached :: "(nat \<Rightarrow> time) \<Rightarrow> string \<Rightarrow> 'e CachedRepository \<Rightarrow> bool \<times> 'e CachedRepository" where
  "is_cached clk i c =
     (case dict_get (cr_cache c) i of
        None \<Rightarrow> (False, c)
      | Some (_, cached_at) \<Rightarrow>
          let now = clk (cr_reads c); c = c\<lparr>cr_reads := Suc (cr_reads c)\<rparr>
          in if now - cached_at > cr_cache_ttl c then (False, c\<lparr>cr_cache := dict_pop i (cr_cache c)\<rparr>) else (True, c))"

text \<open>The half of the entries that goes when the cache is full: the oldest.\<close>

definition oldest_half :: "(string, 'e \<times> time) dict \<Rightarrow> string list" where
  "oldest_half d = map fst (take (length d div 2) (sort_key (\<lambda>p. snd (snd p)) d))"

definition put_in_cache :: "(nat \<Rightarrow> time) \<Rightarrow> string \<Rightarrow> 'e \<Rightarrow> 'e CachedRepository \<Rightarrow> 'e CachedRepository" where
  "put_in_cache clk i e c =
     (let d = (if length (cr_cache c) \<ge> cr_max_cache_size c
               then fold dict_pop (oldest_half (cr_cache c)) (cr_cache c) else cr_cache c)
      in c\<lparr>cr_cache := dict_set i (e, clk (cr_reads c)) d, cr_reads := Suc (cr_reads c)\<rparr>)"

section \<open>The operations\<close>

text \<open>The state is the cache and the state of the decorated repository; \<open>key\<close> reads the identifier of an entity.\<close>

definition cached_add ::
  "(nat \<Rightarrow> time) \<Rightarrow> ('s \<Rightarrow> 'e \<Rightarrow> string) \<Rightarrow> ('e \<Rightarrow> 's \<Rightarrow> unit result \<times> 's) \<Rightarrow>
     'e \<Rightarrow> 'e CachedRepository \<times> 's \<Rightarrow> unit result \<times> 'e CachedRepository \<times> 's" where
  "cached_add clk key add e st =
     (case st of (c, s) \<Rightarrow>
        case add e s of
          (Inl x, s) \<Rightarrow> (Inl x, (c, s))
        | (Inr _, s) \<Rightarrow> (Inr (), (put_in_cache clk (key s e) e c, s)))"

definition cached_get ::
  "(nat \<Rightarrow> time) \<Rightarrow> ('s \<Rightarrow> 'e \<Rightarrow> string) \<Rightarrow> (string \<Rightarrow> 's \<Rightarrow> 'e option \<times> 's) \<Rightarrow>
     string \<Rightarrow> 'e CachedRepository \<times> 's \<Rightarrow> 'e option \<times> 'e CachedRepository \<times> 's" where
  "cached_get clk key get i st =
     (case st of (c, s) \<Rightarrow>
        case is_cached clk i c of
          (True, c) \<Rightarrow> (map_option fst (dict_get (cr_cache c) i), (c, s))
        | (False, c) \<Rightarrow>
            (case get i s of
               (None, s) \<Rightarrow> (None, (c, s))
             | (Some e, s) \<Rightarrow> (Some e, (put_in_cache clk (key s e) e c, s))))"

definition cached_update ::
  "(nat \<Rightarrow> time) \<Rightarrow> ('s \<Rightarrow> 'e \<Rightarrow> string) \<Rightarrow> ('e \<Rightarrow> 's \<Rightarrow> 'e result \<times> 's) \<Rightarrow>
     'e \<Rightarrow> 'e CachedRepository \<times> 's \<Rightarrow> 'e result \<times> 'e CachedRepository \<times> 's" where
  "cached_update clk key update e st =
     (case st of (c, s) \<Rightarrow>
        case update e s of
          (Inl x, s) \<Rightarrow> (Inl x, (c, s))
        | (Inr e, s) \<Rightarrow> (Inr e, (put_in_cache clk (key s e) e c, s)))"

definition cached_delete ::
  "(string \<Rightarrow> 's \<Rightarrow> unit result \<times> 's) \<Rightarrow>
     string \<Rightarrow> 'e CachedRepository \<times> 's \<Rightarrow> unit result \<times> 'e CachedRepository \<times> 's" where
  "cached_delete delete i st =
     (case st of (c, s) \<Rightarrow>
        case delete i s of
          (Inl x, s) \<Rightarrow> (Inl x, (c, s))
        | (Inr _, s) \<Rightarrow> (Inr (), (c\<lparr>cr_cache := dict_pop i (cr_cache c)\<rparr>, s)))"

definition cached_list ::
  "(nat \<Rightarrow> time) \<Rightarrow> ('s \<Rightarrow> 'e \<Rightarrow> string) \<Rightarrow> ('q \<Rightarrow> nat \<Rightarrow> nat \<Rightarrow> 's \<Rightarrow> 'e list result \<times> 's) \<Rightarrow>
     'q \<Rightarrow> nat \<Rightarrow> nat \<Rightarrow> 'e CachedRepository \<times> 's \<Rightarrow> 'e list result \<times> 'e CachedRepository \<times> 's" where
  "cached_list clk key list_of spec limit offset st =
     (case st of (c, s) \<Rightarrow>
        case list_of spec limit offset s of
          (Inl x, s) \<Rightarrow> (Inl x, (c, s))
        | (Inr es, s) \<Rightarrow> (Inr es, (fold (\<lambda>e. put_in_cache clk (key s e) e) es c, s)))"

definition cached_count :: "('q \<Rightarrow> 's \<Rightarrow> nat result) \<Rightarrow> 'q \<Rightarrow> 'e CachedRepository \<times> 's \<Rightarrow> nat result" where
  "cached_count count_of spec st = count_of spec (snd st)"

definition cached_exists ::
  "(nat \<Rightarrow> time) \<Rightarrow> (string \<Rightarrow> 's \<Rightarrow> bool \<times> 's) \<Rightarrow>
     string \<Rightarrow> 'e CachedRepository \<times> 's \<Rightarrow> bool \<times> 'e CachedRepository \<times> 's" where
  "cached_exists clk exists i st =
     (case st of (c, s) \<Rightarrow>
        case is_cached clk i c of
          (True, c) \<Rightarrow> (True, (c, s))
        | (False, c) \<Rightarrow> (case exists i s of (b, s) \<Rightarrow> (b, (c, s))))"

definition invalidate :: "string \<Rightarrow> 'e CachedRepository \<Rightarrow> 'e CachedRepository" where
  "invalidate i c = c\<lparr>cr_cache := dict_pop i (cr_cache c)\<rparr>"

definition clear_cache :: "'e CachedRepository \<Rightarrow> 'e CachedRepository" where
  "clear_cache c = c\<lparr>cr_cache := []\<rparr>"

section \<open>What the cache holds\<close>

text \<open>The cache is a part of what the repository has.\<close>

definition coherent :: "(string \<Rightarrow> 'e option) \<Rightarrow> 'e CachedRepository \<Rightarrow> bool" where
  "coherent m c \<longleftrightarrow> (\<forall>i e t. dict_get (cr_cache c) i = Some (e, t) \<longrightarrow> m i = Some e)"

lemma coherentD: "coherent m c \<Longrightarrow> dict_get (cr_cache c) i = Some (e, t) \<Longrightarrow> m i = Some e"
  by (simp add: coherent_def)

lemma get_pops: "dict_get (fold dict_pop ks d) k = (if k \<in> set ks then None else dict_get d k)"
  by (induction ks arbitrary: d) (auto simp: dict_simps)

lemma coherent_put: "coherent m c \<Longrightarrow> coherent (m(i \<mapsto> e)) (put_in_cache clk i e c)"
  by (auto simp: coherent_def put_in_cache_def Let_def dict_simps get_pops split: if_splits)

lemma coherent_is_cached:
  assumes "coherent m c" "is_cached clk i c = (b, c')"
  shows "coherent m c'" "b \<Longrightarrow> m i \<noteq> None \<and> map_option fst (dict_get (cr_cache c') i) = m i"
  using assms by (auto simp: is_cached_def coherent_def Let_def dict_simps split: option.splits if_splits prod.splits)

lemma coherent_pop: "coherent m c \<Longrightarrow> coherent (m(i := None)) (c\<lparr>cr_cache := dict_pop i (cr_cache c)\<rparr>)"
  by (simp add: coherent_def dict_simps)

lemma coherent_drop: "coherent m c \<Longrightarrow> coherent m (invalidate i c)" "coherent m (clear_cache c)"
  by (simp_all add: coherent_def invalidate_def clear_cache_def dict_simps)

text \<open>Putting back what is there changes nothing in what the cache should agree with.\<close>

lemma coherent_put_same: "coherent m c \<Longrightarrow> m i = Some e \<Longrightarrow> coherent m (put_in_cache clk i e c)"
  using coherent_put [of m c i e clk] by (simp add: fun_upd_idem)

section \<open>A cached repository is a repository\<close>

text \<open>
  Whatever keeps the contract of a repository still does behind the cache, for the same contents: no
  answer of the cache is ever out of date, whatever the clock says and whatever was evicted.
\<close>

locale cached_repository = repository +
  fixes clk :: "nat \<Rightarrow> time"

sublocale cached_repository \<subseteq> cached: repository "\<lambda>st. key (snd st)" "\<lambda>st. contents (snd st)"
  "\<lambda>st. valid (snd st) \<and> coherent (contents (snd st)) (fst st)" storable "cached_add clk key add" "cached_get clk key get"
  "cached_update clk key update" "cached_delete delete" "cached_exists clk exists"
proof (unfold_locales, goal_cases)
  case (1 st i e)
  then show ?case using filed by blast
next
  case (2 st e q st')
  obtain c s where st: "st = (c, s)" by (cases st)
  obtain p s1 where a: "add e s = (p, s1)" by (rule prod.exhaust)
  have A: "valid s1" "key s1 = key s" "if contents s (key s e) = None then p = Inr () \<and> contents s1 = (contents s)(key s e \<mapsto> e)
       else p = Inl (already_exists (key s e)) \<and> contents s1 = contents s"
    using add [OF _ _ a] 2(1,2) by (auto simp: st)
  show ?case using 2 A coherent_put [of "contents s" c "key s e" e clk]
    by (auto simp: st cached_add_def a split: if_splits)
next
  case (3 st i x st')
  obtain c s where st: "st = (c, s)" by (cases st)
  obtain b c1 where b: "is_cached clk i c = (b, c1)" by (rule prod.exhaust)
  obtain y s1 where g: "get i s = (y, s1)" by (rule prod.exhaust)
  note C = coherent_is_cached [OF _ b, of "contents s"]
  have G: "valid s1" "key s1 = key s" "y = contents s i" "contents s1 = contents s" using get [OF _ g] 3(1) by (auto simp: st)
  have "key s e = i" if "contents s i = Some e" for e using filed 3(1) that by (auto simp: st)
  then show ?case using 3 C G
    by (cases b) (auto simp: st cached_get_def b g split: option.splits intro!: coherent_put_same)
next
  case (4 st e p st')
  obtain c s where st: "st = (c, s)" by (cases st)
  obtain q s1 where u: "update e s = (q, s1)" by (rule prod.exhaust)
  show ?case using 4 update [OF _ _ u] coherent_put [of "contents s" c "key s e" _ clk]
    by (auto simp: st cached_update_def u split: sum.splits)
next
  case (5 st i q st')
  obtain c s where st: "st = (c, s)" by (cases st)
  obtain p s1 where d: "delete i s = (p, s1)" by (rule prod.exhaust)
  show ?case using 5 delete [OF _ d] coherent_pop [of "contents s" c i]
    by (auto simp: st cached_delete_def d split: if_splits)
next
  case (6 st i b st')
  obtain c s where st: "st = (c, s)" by (cases st)
  obtain x c1 where x: "is_cached clk i c = (x, c1)" by (rule prod.exhaust)
  obtain y s1 where y: "exists i s = (y, s1)" by (rule prod.exhaust)
  note C = coherent_is_cached [OF _ x, of "contents s"]
  show ?case using 6 C exists [OF _ y] by (cases x) (auto simp: st cached_exists_def x y)
qed

interpretation cached_memory: cached_repository "\<lambda>w a. e_id (w_heap w a)" "\<lambda>w i. repo_get r i w" stores_ok "\<lambda>_. True" "repo_add r"
  "\<lambda>i w. (repo_get r i w, w)" "\<lambda>a w. map_prod (map_sum id (\<lambda>_. a)) id (repo_update now r a w)" "repo_delete r"
  "\<lambda>i w. (repo_exists r i w, w)" clk for now r clk
  by unfold_locales

section \<open>The size of the cache\<close>

definition cache_bounded :: "'e CachedRepository \<Rightarrow> bool" where
  "cache_bounded c \<longleftrightarrow> dict_ok (cr_cache c) \<and> length (cr_cache c) \<le> max 2 (cr_max_cache_size c)"

lemma pops_filter: "fold dict_pop ks d = filter (\<lambda>p. fst p \<notin> set ks) d"
  by (induction ks arbitrary: d) (auto simp: AList.delete_eq intro: filter_cong)

lemma length_evicted:
  assumes "dict_ok d"
  shows "length (fold dict_pop (oldest_half d) d) = length d - length d div 2"
proof -
  let ?old = "take (length d div 2) (sort_key (\<lambda>p. snd (snd p)) d)"
  have d: "distinct d" using assms by (simp add: dict_ok_def distinct_map)
  have sub: "set ?old \<subseteq> set d" using set_take_subset [of _ "sort_key (\<lambda>p. snd (snd p)) d"] by simp
  have "fst p \<notin> set (oldest_half d) \<longleftrightarrow> p \<notin> set ?old" if "p \<in> set d" for p
    using assms sub that by (auto simp: oldest_half_def dict_ok_def distinct_map inj_on_def)
  then have "fold dict_pop (oldest_half d) d = filter (\<lambda>p. p \<notin> set ?old) d"
    unfolding pops_filter by (intro filter_cong) auto
  also have "length \<dots> = card (set d - set ?old)"
    using d by (simp add: set_diff_eq flip: distinct_card)
  also have "\<dots> = length d - length d div 2"
    using d sub by (simp add: card_Diff_subset distinct_card)
  finally show ?thesis .
qed

lemma dict_ok_pops: "dict_ok d \<Longrightarrow> dict_ok (fold dict_pop ks d)"
  by (induction ks arbitrary: d) simp_all

lemma length_set: "length (dict_set k v d) \<le> Suc (length d)"
  by (induction d) auto

lemma put_bounded:
  assumes "cache_bounded c"
  shows "cache_bounded (put_in_cache clk i e c)"
proof (cases "length (cr_cache c) \<ge> cr_max_cache_size c")
  case True
  let ?d = "fold dict_pop (oldest_half (cr_cache c)) (cr_cache c)"
  have ok: "dict_ok (cr_cache c)" "length (cr_cache c) \<le> max 2 (cr_max_cache_size c)" using assms by (simp_all add: cache_bounded_def)
  have "Suc (length ?d) \<le> max 2 (cr_max_cache_size c)" using length_evicted [OF ok(1)] ok(2) by simp
  then have "length (dict_set i (e, clk (cr_reads c)) ?d) \<le> max 2 (cr_max_cache_size c)"
    using length_set [of i "(e, clk (cr_reads c))" ?d] by simp
  then show ?thesis using True ok(1) by (simp add: cache_bounded_def put_in_cache_def Let_def dict_ok_pops)
next
  case False
  then have "length (dict_set i (e, clk (cr_reads c)) (cr_cache c)) \<le> max 2 (cr_max_cache_size c)"
    using length_set [of i "(e, clk (cr_reads c))" "cr_cache c"] by simp
  then show ?thesis using False assms by (simp add: cache_bounded_def put_in_cache_def Let_def)
qed

lemma pop_bounded: "cache_bounded c \<Longrightarrow> cache_bounded (c\<lparr>cr_cache := dict_pop i (cr_cache c)\<rparr>)"
  using length_delete_le [of i "cr_cache c"] by (simp add: cache_bounded_def)

lemma clear_bounded: "cache_bounded (clear_cache c)" "cr_max_cache_size (clear_cache c) = cr_max_cache_size c"
  by (simp_all add: cache_bounded_def clear_cache_def)

lemma put_max: "cr_max_cache_size (put_in_cache clk i e c) = cr_max_cache_size c"
  by (simp add: put_in_cache_def Let_def)

lemma is_cached_bounded:
  "cache_bounded c \<Longrightarrow> cache_bounded (snd (is_cached clk i c)) \<and> cr_max_cache_size (snd (is_cached clk i c)) = cr_max_cache_size c"
  using pop_bounded [of "c\<lparr>cr_reads := Suc (cr_reads c)\<rparr>" i]
  by (auto simp: is_cached_def Let_def cache_bounded_def split: option.splits)

section \<open>Sequences of calls\<close>

datatype repo_call =
    Call_add nat
  | Call_get string
  | Call_update nat
  | Call_delete string
  | Call_list "entity_spec option" nat nat
  | Call_count "entity_spec option"
  | Call_exists string
  | Call_invalidate string
  | Call_clear_cache

datatype answer =
    Done "unit result"
  | Found "nat option"
  | Updated "nat result"
  | Listed "nat list result"
  | Counted "nat result"
  | Exists bool

text \<open>The calls on the in-memory repository \<open>r\<close> itself; the two calls about the cache do nothing there.\<close>

primrec plain_step :: "(nat \<Rightarrow> nat) \<Rightarrow> nat \<Rightarrow> repo_call \<Rightarrow> world \<Rightarrow> answer \<times> world" where
  "plain_step now r (Call_add a) w = map_prod Done id (repo_add r a w)"
| "plain_step now r (Call_get i) w = (Found (repo_get r i w), w)"
| "plain_step now r (Call_update a) w = map_prod Updated id (map_prod (map_sum id (\<lambda>_. a)) id (repo_update now r a w))"
| "plain_step now r (Call_delete i) w = map_prod Done id (repo_delete r i w)"
| "plain_step now r (Call_list sp l n) w = (Listed (repo_list r sp l n w), w)"
| "plain_step now r (Call_count sp) w = (Counted (repo_count r sp w), w)"
| "plain_step now r (Call_exists i) w = (Exists (repo_exists r i w), w)"
| "plain_step now r (Call_invalidate i) w = (Done (Inr ()), w)"
| "plain_step now r Call_clear_cache w = (Done (Inr ()), w)"

text \<open>The same calls on a cache in front of it.\<close>

abbreviation entity_key :: "world \<Rightarrow> nat \<Rightarrow> string" where
  "entity_key w a \<equiv> e_id (w_heap w a)"

primrec cached_step ::
  "(nat \<Rightarrow> time) \<Rightarrow> (nat \<Rightarrow> nat) \<Rightarrow> nat \<Rightarrow> repo_call \<Rightarrow> nat CachedRepository \<times> world \<Rightarrow> answer \<times> nat CachedRepository \<times> world" where
  "cached_step clk now r (Call_add a) st = map_prod Done id (cached_add clk entity_key (repo_add r) a st)"
| "cached_step clk now r (Call_get i) st = map_prod Found id (cached_get clk entity_key (\<lambda>i w. (repo_get r i w, w)) i st)"
| "cached_step clk now r (Call_update a) st =
     map_prod Updated id (cached_update clk entity_key (\<lambda>a w. map_prod (map_sum id (\<lambda>_. a)) id (repo_update now r a w)) a st)"
| "cached_step clk now r (Call_delete i) st = map_prod Done id (cached_delete (repo_delete r) i st)"
| "cached_step clk now r (Call_list sp l n) st =
     map_prod Listed id (cached_list clk entity_key (\<lambda>sp l n w. (repo_list r sp l n w, w)) sp l n st)"
| "cached_step clk now r (Call_count sp) st = (Counted (cached_count (repo_count r) sp st), st)"
| "cached_step clk now r (Call_exists i) st = map_prod Exists id (cached_exists clk (\<lambda>i w. (repo_exists r i w, w)) i st)"
| "cached_step clk now r (Call_invalidate i) st = (Done (Inr ()), (invalidate i (fst st), snd st))"
| "cached_step clk now r Call_clear_cache st = (Done (Inr ()), (clear_cache (fst st), snd st))"

definition cache_ok :: "nat \<Rightarrow> nat CachedRepository \<times> world \<Rightarrow> bool" where
  "cache_ok r st \<longleftrightarrow> stores_ok (snd st) \<and> coherent (\<lambda>i. repo_get r i (snd st)) (fst st)"

lemma coherent_puts:
  "coherent m c \<Longrightarrow> \<forall>a \<in> set as. m (f a) = Some a \<Longrightarrow> coherent m (fold (\<lambda>a. put_in_cache clk (f a) a) as c)"
  by (induction as arbitrary: c) (auto intro: coherent_put_same)

lemma cached_get_world: "cached_get clk key (\<lambda>i w. (g i w, w)) i (c, w) = (x, (c', w')) \<Longrightarrow> w' = w"
  by (auto simp: cached_get_def split: prod.splits bool.splits option.splits)

lemma cached_exists_world: "cached_exists clk (\<lambda>i w. (g i w, w)) i (c, w) = (x, (c', w')) \<Longrightarrow> w' = w"
  by (auto simp: cached_exists_def split: prod.splits bool.splits)

lemma cached_pass:
  "cached_add clk key ad a (c, w) = (q, (c', w')) \<Longrightarrow> ad a w = (q, w')"
  "cached_update clk key up a (c, w) = (p, (c', w')) \<Longrightarrow> up a w = (p, w')"
  "cached_delete de i (c, w) = (q, (c', w')) \<Longrightarrow> de i w = (q, w')"
  by (auto simp: cached_add_def cached_update_def cached_delete_def split: prod.splits sum.splits)

text \<open>One call: the cache gives the answer of the repository and leaves it in the same state.\<close>

lemma cached_step_plain:
  assumes ok: "cache_ok r (c, w)" and run: "cached_step clk now r x (c, w) = (a, (c', w'))"
  shows "plain_step now r x w = (a, w') \<and> cache_ok r (c', w')"
proof (cases x)
  case (Call_get i)
  obtain y where y: "cached_get clk entity_key (\<lambda>i w. (repo_get r i w, w)) i (c, w) = (y, (c', w'))" "a = Found y"
    using run Call_get by (auto simp: map_prod_def split: prod.splits)
  show ?thesis
    using cached_memory.cached.get [OF _ y(1)] cached_get_world [OF y(1)] ok y(2) Call_get by (simp add: cache_ok_def)
next
  case (Call_exists i)
  obtain y where y: "cached_exists clk (\<lambda>i w. (repo_exists r i w, w)) i (c, w) = (y, (c', w'))" "a = Exists y"
    using run Call_exists by (auto simp: map_prod_def split: prod.splits)
  show ?thesis
    using cached_memory.cached.exists [OF _ y(1)] cached_exists_world [OF y(1)] ok y(2) Call_exists
    by (simp add: cache_ok_def repo_exists_def repo_get_def dict_has_def)
next
  case (Call_list sp l n)
  show ?thesis using ok run Call_list repo_list_filed [of w r sp l n]
    by (auto simp: cache_ok_def cached_list_def split: sum.splits intro!: coherent_puts)
next
  case (Call_add b)
  obtain y where y: "cached_add clk entity_key (repo_add r) b (c, w) = (y, (c', w'))" "a = Done y"
    using run Call_add by (auto simp: map_prod_def split: prod.splits)
  show ?thesis
    using cached_memory.cached.add [OF _ TrueI y(1)] cached_pass(1) [OF y(1)] ok y(2) Call_add by (simp add: cache_ok_def)
next
  case (Call_update b)
  obtain y where y: "cached_update clk entity_key (\<lambda>a w. map_prod (map_sum id (\<lambda>_. a)) id (repo_update now r a w)) b (c, w) = (y, (c', w'))"
    "a = Updated y" using run Call_update by (auto simp: map_prod_def split: prod.splits)
  show ?thesis
    using cached_memory.cached.update [OF _ TrueI y(1)] cached_pass(2) [OF y(1)] ok y(2) Call_update by (simp add: cache_ok_def)
next
  case (Call_delete i)
  obtain y where y: "cached_delete (repo_delete r) i (c, w) = (y, (c', w'))" "a = Done y"
    using run Call_delete by (auto simp: map_prod_def split: prod.splits)
  show ?thesis
    using cached_memory.cached.delete [OF _ y(1)] cached_pass(3) [OF y(1)] ok y(2) Call_delete by (simp add: cache_ok_def)
next
  case (Call_count sp)
  then show ?thesis using ok run by (auto simp: cached_count_def)
qed (use ok run in \<open>auto simp: cache_ok_def coherent_drop\<close>)

lemma puts_bounded:
  "cache_bounded c \<Longrightarrow> cache_bounded (fold (\<lambda>a. put_in_cache clk (f a) a) as c) \<and>
     cr_max_cache_size (fold (\<lambda>a. put_in_cache clk (f a) a) as c) = cr_max_cache_size c"
  by (induction as arbitrary: c) (simp_all add: put_bounded put_max)

lemma cached_step_bounded:
  assumes "cache_bounded c" "cached_step clk now r x (c, w) = (a, (c', w'))"
  shows "cache_bounded c' \<and> cr_max_cache_size c' = cr_max_cache_size c"
proof (cases x)
  case (Call_get i)
  then show ?thesis using assms is_cached_bounded [OF assms(1), of clk i]
    by (auto simp: cached_get_def put_max split: prod.splits bool.splits option.splits intro: put_bounded)
next
  case (Call_exists i)
  then show ?thesis using assms is_cached_bounded [OF assms(1), of clk i]
    by (auto simp: cached_exists_def split: prod.splits bool.splits)
qed (use assms in \<open>auto simp: cached_add_def cached_update_def cached_delete_def cached_list_def put_max put_bounded pop_bounded
    puts_bounded invalidate_def clear_bounded split: prod.splits sum.splits\<close>)

lemma cached_runs:
  assumes "cache_ok r (c, w)" "cache_bounded c" "answers (cached_step clk now r) xs (c, w) = (as, (c', w'))"
  shows "answers (plain_step now r) xs w = (as, w') \<and> cache_bounded c' \<and> cr_max_cache_size c' = cr_max_cache_size c"
  using assms
proof (induction xs arbitrary: c w as)
  case (Cons x xs)
  obtain a c1 w1 where s1: "cached_step clk now r x (c, w) = (a, (c1, w1))" by (metis prod.exhaust)
  obtain bs where s2: "answers (cached_step clk now r) xs (c1, w1) = (bs, (c', w'))" "as = a # bs"
    using Cons.prems(3) by (auto simp: s1 split: prod.splits)
  note P = cached_step_plain [OF Cons.prems(1) s1] and B = cached_step_bounded [OF Cons.prems(2) s1]
  show ?case using Cons.IH [of c1 w1 bs] P B s2 by simp
qed simp

text \<open>C12. A cached repository over the in-memory repository cannot be told from the repository it decorates:
  whatever the clock says, every sequence of calls on it alone has the answers, the same entity objects included, and leaves the
  repository in the state, that the same calls on the repository itself have. The cache never holds more than its maximal size, or two entries if the
  maximum is smaller. (Over the SQLite repository, which builds a new entity for every read, a hit differs: it
  returns the cached object, with changes its holder has not saved.)\<close>

theorem cached_refines:
  assumes "stores_ok w" "answers (cached_step clk now r) xs (cached_init ttl m, w) = (as, (c, w'))"
  shows "answers (plain_step now r) xs w = (as, w') \<and> length (cr_cache c) \<le> max 2 m"
proof -
  have "cache_ok r (cached_init ttl m, w)" "cache_bounded (cached_init ttl m :: nat CachedRepository)"
    using assms(1) by (simp_all add: cache_ok_def coherent_def cached_init_def cache_bounded_def)
  from cached_runs [OF this assms(2)] show ?thesis by (auto simp: cache_bounded_def cached_init_def)
qed

text \<open>The maximum is not kept when it is one: half of a single entry is none, and nothing is evicted.\<close>

lemma cache_exceeds_maximum:
  "length (cr_cache (put_in_cache clk ''b'' e (put_in_cache clk ''a'' d (cached_init ttl 1)))) = 2"
  by (simp add: put_in_cache_def cached_init_def oldest_half_def Let_def)

definition cached_world :: world where
  "cached_world = \<lparr>w_heap = (\<lambda>a. \<lparr>e_type = ''User'', e_id = show_nat a, e_created_at = VObj 0, e_updated_at = VObj 0,
     e_version = 1, e_attrs = []\<rparr>), w_stores = (\<lambda>_. []), w_reads = 0\<rparr>"

definition cached_calls :: "repo_call list" where
  "cached_calls = [Call_add 1, Call_get (show_nat 1), Call_delete (show_nat 1), Call_get (show_nat 1)]"

theorem cached_refines_witness:
  "stores_ok cached_world \<and>
   (\<exists>c w'. answers (cached_step (\<lambda>k. real k) Suc 0) cached_calls (cached_init 300 1000, cached_world) =
      ([Done (Inr ()), Found (Some 1), Done (Inr ()), Found None], (c, w')) \<and> length (cr_cache c) \<le> 1000)"
proof -
  have ok: "stores_ok cached_world" by (simp add: stores_ok_def cached_world_def repo_get_def)
  obtain as c w' where run: "answers (cached_step (\<lambda>k. real k) Suc 0) cached_calls (cached_init 300 1000, cached_world) = (as, (c, w'))"
    by (metis prod.exhaust)
  from cached_refines [OF ok run] have "answers (plain_step Suc 0) cached_calls cached_world = (as, w')" "length (cr_cache c) \<le> 1000"
    by simp_all
  moreover have "fst (answers (plain_step Suc 0) cached_calls cached_world) = [Done (Inr ()), Found (Some 1), Done (Inr ()), Found None]"
    by (simp add: cached_calls_def cached_world_def repo_ops dict_has_def)
  ultimately show ?thesis using ok run by auto
qed

end
