(* ===== verification/Json_Values.thy ===== *)
theory Json_Values
  imports Prelude "HOL-Library.Countable"
begin

text \<open>
  The values that \<^verbatim>\<open>json.dumps\<close> writes and \<^verbatim>\<open>json.loads\<close> gives back unchanged, which the stores of the development
  rely on. JSON itself is a parameter of the models that use it; that its contract can be met is shown here by an
  encoding of these values as texts.
\<close>

text \<open>The finite floating-point numbers.\<close>

definition double :: "real \<Rightarrow> bool" where
  "double r \<longleftrightarrow> (\<exists>m e :: int. r = of_int m * 2 powi e \<and> \<bar>m\<bar> < 2 ^ 53 \<and> - 1074 \<le> e \<and> e \<le> 971)"

text \<open>Objects have each key once.\<close>

fun json_value :: "pyval \<Rightarrow> bool" where
  "json_value (VObj n) = False"
| "json_value (VFloat r) = double r"
| "json_value (VList xs) = list_all json_value xs"
| "json_value (VDict d) = (dict_ok d \<and> list_all (\<lambda>p. json_value (snd p)) d)"
| "json_value _ = True"

section \<open>The contract of JSON can be met\<close>

datatype json_term =
    JNone
  | JBool bool
  | JInt int
  | JFloat int int
  | JStr string
  | JList "json_term list"
  | JDict "(string \<times> json_term) list"

instance json_term :: countable
  by countable_datatype

fun json_meaning :: "json_term \<Rightarrow> pyval" where
  "json_meaning JNone = VNone"
| "json_meaning (JBool b) = VBool b"
| "json_meaning (JInt n) = VInt n"
| "json_meaning (JFloat m e) = VFloat (of_int m * 2 powi e)"
| "json_meaning (JStr s) = VStr s"
| "json_meaning (JList xs) = VList (map json_meaning xs)"
| "json_meaning (JDict d) = VDict (map (\<lambda>p. (fst p, json_meaning (snd p))) d)"

lemma map_choice: "(\<And>x. x \<in> set xs \<Longrightarrow> \<exists>y. f y = x) \<Longrightarrow> \<exists>ys. map f ys = xs"
proof (induction xs)
  case (Cons x xs)
  obtain y where "f y = x" using Cons.prems [of x] by auto
  moreover obtain ys where "map f ys = xs" using Cons by auto
  ultimately show ?case by (metis list.simps(9))
qed simp

lemma json_value_meaning: "json_value v \<Longrightarrow> \<exists>j. json_meaning j = v"
proof (induction v)
  case (VList xs)
  then obtain js where "map json_meaning js = xs" using map_choice [of xs json_meaning] by (auto simp: list_all_iff)
  then show ?case by (intro exI [of _ "JList js"]) simp
next
  case (VDict d)
  have "\<exists>q. (\<lambda>p. (fst p, json_meaning (snd p))) q = p" if "p \<in> set d" for p
  proof -
    have "\<exists>j. json_meaning j = snd p" using VDict.IH [OF that, of "snd p"] VDict.prems that by (auto simp: list_all_iff snds.simps)
    then obtain j where "json_meaning j = snd p" by blast
    then have "(fst (fst p, j), json_meaning (snd (fst p, j))) = p" by simp
    then show ?thesis by blast
  qed
  then obtain js where "map (\<lambda>p. (fst p, json_meaning (snd p))) js = d"
    using map_choice [of d "\<lambda>p. (fst p, json_meaning (snd p))"] by blast
  then show ?case by (intro exI [of _ "JDict js"]) simp
next
  case (VFloat r)
  then show ?case by (auto simp: double_def intro: json_meaning.simps(4))
qed (auto intro: json_meaning.simps)

definition json_text :: "pyval \<Rightarrow> string" where
  "json_text v = replicate (LEAST n. json_meaning (from_nat n) = v) CHR ''x''"

definition json_back :: "string \<Rightarrow> pyval" where
  "json_back t = json_meaning (from_nat (length t))"

lemma json_text_back: "json_value v \<Longrightarrow> json_back (json_text v) = v"
  using json_value_meaning [of v] unfolding json_back_def json_text_def length_replicate
  by (metis (mono_tags, lifting) LeastI from_nat_to_nat)

end
