(* ===== verification/Sqlite_Repository.thy ===== *)
theory Sqlite_Repository
  imports Repository Json_Values
begin

text \<open>
  The repository in an SQLite table (\<^verbatim>\<open>SQLiteRepository\<close> of \<^verbatim>\<open>victor/core/repository.py\<close>). A table is the list of its rows; an
  exception leaves the connection block without a commit, so the table keeps its rows. An entity read from the table is a
  new object, so entities are values here, and an update returns the entity as it left it. The
  libraries it calls are in the record \<open>codec\<close>.
\<close>

record row =
  row_id :: string
  row_data :: string
  row_version :: int
  row_created_at :: string
  row_updated_at :: string

text \<open>\<^verbatim>\<open>json.dumps\<close> and \<^verbatim>\<open>json.loads\<close>, \<^verbatim>\<open>isoformat\<close> and \<^verbatim>\<open>fromisoformat\<close>, the constructor of the entity class with keyword arguments, and
  the order of \<^verbatim>\<open>ORDER BY updated_at DESC\<close>.\<close>

record codec =
  cd_dumps :: "state \<Rightarrow> string result"
  cd_loads :: "string \<Rightarrow> state result"
  cd_iso :: "nat \<Rightarrow> string option"
  cd_parse :: "string \<Rightarrow> nat result"
  cd_make :: "state \<Rightarrow> Entity result"
  cd_order :: "row list \<Rightarrow> row list"

section \<open>Entities as data\<close>

definition date_back :: "codec \<Rightarrow> string \<Rightarrow> state \<Rightarrow> state result" where
  "date_back cd k d =
     (case dict_get d k of
        Some (VStr s) \<Rightarrow> bind_result (cd_parse cd s) (\<lambda>n. Inr (dict_set k (VObj n) d))
      | _ \<Rightarrow> Inr d)"

definition from_dict :: "codec \<Rightarrow> state \<Rightarrow> Entity result" where
  "from_dict cd d =
     bind_result (date_back cd ''created_at'' d) (\<lambda>d. bind_result (date_back cd ''updated_at'' d) (cd_make cd))"

definition decode :: "codec \<Rightarrow> string \<Rightarrow> Entity result" where
  "decode cd s = bind_result (cd_loads cd s) (from_dict cd)"

text \<open>\<^verbatim>\<open>v.isoformat()\<close>; only dates have the method.\<close>

definition isoformat_of :: "codec \<Rightarrow> pyval \<Rightarrow> string result" where
  "isoformat_of cd v =
     (case v of
        VObj n \<Rightarrow> (case cd_iso cd n of Some s \<Rightarrow> Inr s | None \<Rightarrow> Inl (PyExc ''AttributeError'' ''isoformat''))
      | _ \<Rightarrow> Inl (PyExc ''AttributeError'' ''isoformat''))"

section \<open>The operations\<close>

definition sq_find :: "row list \<Rightarrow> string \<Rightarrow> row option" where
  "sq_find t i = find (\<lambda>r. row_id r = i) t"

definition sq_add :: "codec \<Rightarrow> Entity \<Rightarrow> row list \<Rightarrow> unit result \<times> row list" where
  "sq_add cd e t =
     (if sq_find t (e_id e) \<noteq> None then (Inl (already_exists (e_id e)), t)
      else case bind_result (cd_dumps cd (entity_to_dict (cd_iso cd) e)) (\<lambda>s.
             bind_result (isoformat_of cd (e_created_at e)) (\<lambda>c.
             bind_result (isoformat_of cd (e_updated_at e)) (\<lambda>u.
               Inr \<lparr>row_id = e_id e, row_data = s, row_version = e_version e, row_created_at = c, row_updated_at = u\<rparr>))) of
          Inl x \<Rightarrow> (Inl x, t)
        | Inr r \<Rightarrow> (Inr (), t @ [r]))"

definition sq_get :: "codec \<Rightarrow> string \<Rightarrow> row list \<Rightarrow> Entity option result" where
  "sq_get cd i t =
     (case sq_find t i of None \<Rightarrow> Inr None | Some r \<Rightarrow> bind_result (decode cd (row_data r)) (\<lambda>e. Inr (Some e)))"

text \<open>\<open>now\<close> is the date that \<^verbatim>\<open>touch\<close> creates.\<close>

definition touched :: "nat \<Rightarrow> Entity \<Rightarrow> Entity" where
  "touched now e = e\<lparr>e_updated_at := VObj now, e_version := e_version e + 1\<rparr>"

definition sq_update :: "codec \<Rightarrow> nat \<Rightarrow> Entity \<Rightarrow> row list \<Rightarrow> unit result \<times> Entity \<times> row list" where
  "sq_update cd now e t =
     (case sq_find t (e_id e) of
        None \<Rightarrow> (Inl (not_found (e_id e)), (e, t))
      | Some r \<Rightarrow>
          (if row_version r \<noteq> e_version e
           then (Inl (concurrency_error (e_id e) (e_version e) (row_version r)), (e, t))
           else let e = touched now e
                in case bind_result (cd_dumps cd (entity_to_dict (cd_iso cd) e)) (\<lambda>s.
                     bind_result (isoformat_of cd (e_updated_at e)) (\<lambda>u. Inr (s, u))) of
                    Inl x \<Rightarrow> (Inl x, (e, t))
                  | Inr (s, u) \<Rightarrow>
                      (Inr (), (e, map (\<lambda>r. if row_id r = e_id e
                         then r\<lparr>row_data := s, row_version := e_version e, row_updated_at := u\<rparr> else r) t))))"

definition sq_delete :: "string \<Rightarrow> row list \<Rightarrow> unit result \<times> row list" where
  "sq_delete i t =
     (if sq_find t i = None then (Inl (not_found i), t) else (Inr (), filter (\<lambda>r. row_id r \<noteq> i) t))"

text \<open>Every row is read and checked, in the order of the query, before the slice is taken.\<close>

fun read_rows :: "codec \<Rightarrow> entity_spec option \<Rightarrow> row list \<Rightarrow> Entity list result" where
  "read_rows cd spec [] = Inr []"
| "read_rows cd spec (r # rs) =
     bind_result (decode cd (row_data r)) (\<lambda>e.
     bind_result (case spec of None \<Rightarrow> Inr True | Some s \<Rightarrow> s e) (\<lambda>b.
     bind_result (read_rows cd spec rs) (\<lambda>es. Inr (if b then e # es else es))))"

definition sq_list :: "codec \<Rightarrow> entity_spec option \<Rightarrow> nat \<Rightarrow> nat \<Rightarrow> row list \<Rightarrow> Entity list result" where
  "sq_list cd spec limit offset t = bind_result (read_rows cd spec (cd_order cd t)) (\<lambda>es. Inr (take limit (drop offset es)))"

definition sq_count :: "codec \<Rightarrow> entity_spec option \<Rightarrow> row list \<Rightarrow> nat result" where
  "sq_count cd spec t =
     (case spec of None \<Rightarrow> Inr (length t) | Some _ \<Rightarrow> bind_result (sq_list cd spec 10000 0 t) (\<lambda>es. Inr (length es)))"

definition sq_exists :: "string \<Rightarrow> row list \<Rightarrow> bool" where
  "sq_exists i t \<longleftrightarrow> sq_find t i \<noteq> None"

section \<open>Storing an entity and reading it back\<close>

text \<open>What the libraries promise: JSON gives back what it was given, the text of a date is read as that date, and
  the entity class \<open>ty\<close> takes its attributes as keyword arguments.\<close>

definition codec_ok :: "codec \<Rightarrow> string \<Rightarrow> bool" where
  "codec_ok cd ty \<longleftrightarrow>
     (\<forall>d. json_value (VDict d) \<longrightarrow> (\<exists>s. cd_dumps cd d = Inr s \<and> cd_loads cd s = Inr d)) \<and>
     (\<forall>n s. cd_iso cd n = Some s \<longrightarrow> cd_parse cd s = Inr n) \<and>
     (\<forall>e. entity_ok e \<longrightarrow> e_type e = ty \<longrightarrow>
        cd_make cd ([(''id'', VStr (e_id e)), (''created_at'', e_created_at e), (''updated_at'', e_updated_at e),
          (''version'', VInt (e_version e))] @ e_attrs e) = Inr e)"

text \<open>The promise can be kept.\<close>

definition sample_codec :: "string \<Rightarrow> codec" where
  "sample_codec ty =
     \<lparr>cd_dumps = (\<lambda>d. Inr (json_text (VDict d))),
      cd_loads = (\<lambda>t. case json_back t of VDict d \<Rightarrow> Inr d | _ \<Rightarrow> Inl type_error),
      cd_iso = (\<lambda>n. Some (replicate n CHR ''d'')), cd_parse = (\<lambda>t. Inr (length t)),
      cd_make = (\<lambda>d. case d of
          (_, VStr i) # (_, c) # (_, u) # (_, VInt v) # attrs \<Rightarrow>
            Inr \<lparr>e_type = ty, e_id = i, e_created_at = c, e_updated_at = u, e_version = v, e_attrs = attrs\<rparr>
        | _ \<Rightarrow> Inl type_error),
      cd_order = (\<lambda>t. t)\<rparr>"

lemma codec_ok_sample: "codec_ok (sample_codec ty) ty"
  by (auto simp: codec_ok_def sample_codec_def json_text_back)

text \<open>An entity of the class with dates as dates, whose own attributes JSON has once dates are written as text.\<close>

definition writable :: "codec \<Rightarrow> string \<Rightarrow> Entity \<Rightarrow> bool" where
  "writable cd ty e \<longleftrightarrow> entity_ok e \<and> e_type e = ty \<and>
     (\<exists>n s. e_created_at e = VObj n \<and> cd_iso cd n = Some s) \<and> (\<exists>n s. e_updated_at e = VObj n \<and> cd_iso cd n = Some s) \<and>
     list_all (\<lambda>(k, v). json_value (serialized (cd_iso cd) v)) (e_attrs e)"

text \<open>What comes back: dates among the entity's own attributes are now texts.\<close>

definition as_read :: "codec \<Rightarrow> Entity \<Rightarrow> Entity" where
  "as_read cd e = e\<lparr>e_attrs := map (\<lambda>(k, v). (k, serialized (cd_iso cd) v)) (e_attrs e)\<rparr>"

lemma as_read_fields [simp]: "e_id (as_read cd e) = e_id e" "e_version (as_read cd e) = e_version e" "e_type (as_read cd e) = e_type e"
  "e_created_at (as_read cd e) = e_created_at e" "e_updated_at (as_read cd e) = e_updated_at e"
  by (simp_all add: as_read_def)

lemma keys_serialized: "map fst (map (\<lambda>(k, v). (k, serialized f v)) d) = map fst d"
  by (simp add: split_beta comp_def)

lemma entity_ok_as_read: "entity_ok e \<Longrightarrow> entity_ok (as_read cd e)"
  by (simp add: entity_ok_def as_read_def dict_ok_def dict_has_keys dict_keys_def keys_serialized split_beta comp_def)

lemma entity_dict_ok:
  assumes "writable cd ty e"
  shows "json_value (VDict (entity_to_dict (cd_iso cd) e))"
proof -
  have "dict_ok (entity_to_dict (cd_iso cd) e)"
    using assms by (auto simp: writable_def entity_ok_def base_attrs_def entity_to_dict_def dict_ok_def dict_has_keys dict_keys_def
        split_beta comp_def image_iff)
  moreover have "list_all (\<lambda>p. json_value (snd p)) (entity_to_dict (cd_iso cd) e)"
    using assms by (auto simp: writable_def entity_to_dict_def serialized_def list_all_iff)
  ultimately show ?thesis by simp
qed

lemma write_read:
  assumes "codec_ok cd ty" "writable cd ty e"
  shows "\<exists>s. cd_dumps cd (entity_to_dict (cd_iso cd) e) = Inr s \<and> decode cd s = Inr (as_read cd e)"
proof -
  obtain s where s: "cd_dumps cd (entity_to_dict (cd_iso cd) e) = Inr s" "cd_loads cd s = Inr (entity_to_dict (cd_iso cd) e)"
    using assms(1) entity_dict_ok [OF assms(2)] unfolding codec_ok_def by blast
  obtain m c n u where d: "e_created_at e = VObj m" "cd_iso cd m = Some c" "e_updated_at e = VObj n" "cd_iso cd n = Some u"
    using assms(2) by (auto simp: writable_def)
  have p: "cd_parse cd c = Inr m" "cd_parse cd u = Inr n" using assms(1) d by (auto simp: codec_ok_def)
  have "cd_make cd ([(''id'', VStr (e_id e)), (''created_at'', e_created_at e), (''updated_at'', e_updated_at e),
          (''version'', VInt (e_version e))] @ e_attrs (as_read cd e)) = Inr (as_read cd e)"
  proof -
    have ok: "entity_ok (as_read cd e)" "e_type (as_read cd e) = ty"
      using assms(2) entity_ok_as_read [of e cd] by (simp_all add: writable_def)
    from assms(1) have "\<forall>e. entity_ok e \<longrightarrow> e_type e = ty \<longrightarrow> cd_make cd ([(''id'', VStr (e_id e)), (''created_at'', e_created_at e),
        (''updated_at'', e_updated_at e), (''version'', VInt (e_version e))] @ e_attrs e) = Inr e"
      unfolding codec_ok_def by blast
    from this [rule_format, OF ok] show ?thesis by simp
  qed
  then have "from_dict cd (entity_to_dict (cd_iso cd) e) = Inr (as_read cd e)"
    by (simp add: from_dict_def date_back_def entity_to_dict_def d p serialized_def as_read_def)
  then show ?thesis using s by (simp add: decode_def)
qed

section \<open>The table is a repository\<close>

definition table_ok :: "codec \<Rightarrow> row list \<Rightarrow> bool" where
  "table_ok cd t \<longleftrightarrow> distinct (map row_id t) \<and>
     list_all (\<lambda>r. case decode cd (row_data r) of Inl _ \<Rightarrow> False | Inr e \<Rightarrow> e_id e = row_id r \<and> e_version e = row_version r) t"

definition sq_contents :: "codec \<Rightarrow> row list \<Rightarrow> string \<Rightarrow> Entity option" where
  "sq_contents cd t i = (case sq_get cd i t of Inr x \<Rightarrow> x | Inl _ \<Rightarrow> None)"

text \<open>An entity whose own attributes have no dates comes back as it was.\<close>

definition storable :: "codec \<Rightarrow> string \<Rightarrow> Entity \<Rightarrow> bool" where
  "storable cd ty e \<longleftrightarrow> writable cd ty e \<and> map (\<lambda>(k, v). (k, serialized (cd_iso cd) v)) (e_attrs e) = e_attrs e"

lemma storable_as_read: "storable cd ty e \<Longrightarrow> as_read cd e = e"
  by (simp add: storable_def as_read_def)

lemma sq_find_id: "sq_find t i = Some r \<Longrightarrow> row_id r = i \<and> r \<in> set t"
  by (auto simp: sq_find_def find_Some_iff)

lemma table_row:
  assumes "table_ok cd t" "sq_find t i = Some r"
  shows "\<exists>e. decode cd (row_data r) = Inr e \<and> e_id e = i \<and> e_version e = row_version r"
  using assms sq_find_id [OF assms(2)] by (cases "decode cd (row_data r)") (auto simp: table_ok_def list_all_iff)

lemma sq_contents_find:
  "table_ok cd t \<Longrightarrow> sq_contents cd t i = (case sq_find t i of None \<Rightarrow> None | Some r \<Rightarrow> Some (projr (decode cd (row_data r))))"
  using table_row [of cd t i] by (auto simp: sq_contents_def sq_get_def split: option.splits)

lemma sq_find_append: "sq_find (t @ u) i = (case sq_find t i of None \<Rightarrow> sq_find u i | Some r \<Rightarrow> Some r)"
  by (induction t) (auto simp: sq_find_def)

lemma sq_find_single: "sq_find [r] i = (if row_id r = i then Some r else None)"
  by (simp add: sq_find_def)

lemma sq_contents_None: "table_ok cd t \<Longrightarrow> sq_contents cd t i = None \<longleftrightarrow> sq_find t i = None"
  by (simp add: sq_contents_find split: option.splits)

lemma sq_find_filter: "sq_find (filter (\<lambda>r. row_id r \<noteq> j) t) i = (if i = j then None else sq_find t i)"
  by (induction t) (auto simp: sq_find_def)

lemma sq_find_map: "(\<And>r. row_id (f r) = row_id r) \<Longrightarrow> sq_find (map f t) i = map_option f (sq_find t i)"
  by (induction t) (auto simp: sq_find_def)

lemma sq_find_None: "sq_find t i = None \<longleftrightarrow> i \<notin> row_id ` set t"
  by (auto simp: sq_find_def find_None_iff)

lemma sq_add_ok:
  assumes "codec_ok cd ty" "table_ok cd t" "storable cd ty e" "sq_add cd e t = (q, t')"
  shows "table_ok cd t' \<and> (if sq_contents cd t (e_id e) = None then q = Inr () \<and> sq_contents cd t' = (sq_contents cd t)(e_id e \<mapsto> e)
    else q = Inl (already_exists (e_id e)) \<and> sq_contents cd t' = sq_contents cd t)"
proof (cases "sq_find t (e_id e)")
  case None
  have w: "writable cd ty e" "as_read cd e = e" using assms(3) storable_as_read by (auto simp: storable_def)
  obtain s where s: "cd_dumps cd (entity_to_dict (cd_iso cd) e) = Inr s" "decode cd s = Inr e"
    using write_read [OF assms(1) w(1)] w(2) by auto
  obtain c u where cu: "isoformat_of cd (e_created_at e) = Inr c" "isoformat_of cd (e_updated_at e) = Inr u"
    using w(1) by (auto simp: writable_def isoformat_of_def)
  let ?r = "\<lparr>row_id = e_id e, row_data = s, row_version = e_version e, row_created_at = c, row_updated_at = u\<rparr>"
  have run: "q = Inr ()" "t' = t @ [?r]" using assms(4) None by (simp_all add: sq_add_def s cu)
  have ok: "table_ok cd t'" using assms(2) None by (simp add: run table_ok_def s sq_find_None)
  have "sq_contents cd t' = (sq_contents cd t)(e_id e \<mapsto> e)"
  proof
    fix i
    show "sq_contents cd t' i = ((sq_contents cd t)(e_id e \<mapsto> e)) i"
      using None by (auto simp: sq_contents_find [OF ok] sq_contents_find [OF assms(2)])
        (auto simp: run sq_find_append s sq_find_single split: option.splits)
  qed
  then show ?thesis using run ok None by (simp add: sq_contents_find [OF assms(2)])
next
  case (Some r)
  then show ?thesis using assms(2,4) sq_contents_None [OF assms(2)] by (auto simp: sq_add_def)
qed

lemma sq_delete_ok:
  assumes "table_ok cd t" "sq_delete i t = (q, t')"
  shows "table_ok cd t' \<and> (if sq_contents cd t i = None then q = Inl (not_found i) \<and> sq_contents cd t' = sq_contents cd t
    else q = Inr () \<and> sq_contents cd t' = (sq_contents cd t)(i := None))"
proof (cases "sq_find t i")
  case None
  then show ?thesis using assms sq_contents_None [OF assms(1)] by (auto simp: sq_delete_def)
next
  case (Some r)
  have run: "q = Inr ()" "t' = filter (\<lambda>r. row_id r \<noteq> i) t" using assms(2) Some by (simp_all add: sq_delete_def)
  have ok: "table_ok cd t'" using assms(1) by (auto simp: run table_ok_def distinct_map_filter list_all_iff)
  have "sq_contents cd t' j = ((sq_contents cd t)(i := None)) j" for j
    unfolding fun_upd_apply sq_contents_find [OF ok] sq_contents_find [OF assms(1)] by (simp add: run sq_find_filter)
  then show ?thesis using run(1) ok Some sq_contents_None [OF assms(1)] by (auto simp: fun_eq_iff)
qed

lemma storable_touched: "storable cd ty e \<Longrightarrow> cd_iso cd now \<noteq> None \<Longrightarrow> storable cd ty (touched now e)"
  by (auto simp: storable_def writable_def touched_def entity_ok_def)

lemma sq_update_ok:
  assumes "codec_ok cd ty" "table_ok cd t" "storable cd ty e" "cd_iso cd now \<noteq> None" "sq_update cd now e t = (q, (e', t'))"
  shows "table_ok cd t' \<and> (case q of
      Inr _ \<Rightarrow> sq_contents cd t (e_id e) \<noteq> None \<and> e' = touched now e \<and> sq_contents cd t' = (sq_contents cd t)(e_id e \<mapsto> e')
    | Inl x \<Rightarrow> sq_contents cd t' = sq_contents cd t \<and> (sq_contents cd t (e_id e) = None \<longrightarrow> x = not_found (e_id e)))"
proof (cases "\<exists>r. sq_find t (e_id e) = Some r \<and> row_version r = e_version e")
  case False
  then show ?thesis using assms(2,5) sq_contents_None [OF assms(2)]
    by (auto simp: sq_update_def split: option.splits)
next
  case True
  then obtain r where r: "sq_find t (e_id e) = Some r" "row_version r = e_version e" by blast
  have st: "storable cd ty (touched now e)" by (rule storable_touched [OF assms(3,4)])
  then obtain s where s: "cd_dumps cd (entity_to_dict (cd_iso cd) (touched now e)) = Inr s" "decode cd s = Inr (touched now e)"
    using write_read [OF assms(1), of "touched now e"] storable_as_read [OF st] by (auto simp: storable_def)
  obtain u where u: "isoformat_of cd (e_updated_at (touched now e)) = Inr u"
    using assms(4) by (auto simp: touched_def isoformat_of_def)
  have id: "e_id (touched now e) = e_id e" "e_version (touched now e) = e_version e + 1" by (simp_all add: touched_def)
  let ?f = "\<lambda>r. if row_id r = e_id e then r\<lparr>row_data := s, row_version := e_version (touched now e), row_updated_at := u\<rparr> else r"
  have run: "q = Inr ()" "e' = touched now e" "t' = map ?f t"
    using assms(5) by (simp_all add: sq_update_def r s u Let_def id(1))
  have ids: "map row_id (map ?f t) = map row_id t" by (induction t) auto
  have ok: "table_ok cd t'" unfolding run table_ok_def ids using assms(2) by (auto simp: table_ok_def list_all_iff s id)
  have "sq_contents cd t' i = ((sq_contents cd t)(e_id e \<mapsto> touched now e)) i" for i
    using r sq_find_id [of t i] unfolding fun_upd_apply sq_contents_find [OF ok] sq_contents_find [OF assms(2)]
    by (auto simp: run sq_find_map s split: option.splits)
  then show ?thesis using run(1,2) ok r sq_contents_None [OF assms(2)] by (auto simp: fun_eq_iff)
qed

text \<open>For a class whose attributes JSON can write, the table keeps the contract of a repository.\<close>

interpretation sqlite: repository "\<lambda>_. e_id" "sq_contents cd" "\<lambda>t. codec_ok cd ty \<and> cd_iso cd now \<noteq> None \<and> table_ok cd t" "storable cd ty"
  "sq_add cd" "\<lambda>i t. (sq_contents cd t i, t)"
  "\<lambda>e t. case sq_update cd now e t of (q, (e', t')) \<Rightarrow> (map_sum id (\<lambda>_. e') q, t')" "sq_delete" "\<lambda>i t. (sq_exists i t, t)" for cd ty now
proof (unfold_locales, goal_cases)
  case (1 t i e)
  then show ?case using table_row [of cd t i] by (auto simp: sq_contents_find split: option.splits)
next
  case (2 t e q t')
  then show ?case using sq_add_ok [of cd ty t e q t'] by simp
next
  case (4 t e p t')
  obtain q e1 t1 where u: "sq_update cd now e t = (q, (e1, t1))" by (metis prod.exhaust)
  then show ?case using 4 sq_update_ok [of cd ty t e now q e1 t1] by (cases q) (auto simp: touched_def)
next
  case (5 t i q t')
  then show ?case using sq_delete_ok [of cd t i q t'] by simp
next
  case (6 t i b t')
  then show ?case by (auto simp: sq_exists_def sq_contents_find split: option.splits)
qed auto

section \<open>Concurrent updates\<close>

text \<open>Clients read an entity, change their copy and store it; \<open>(now, e)\<close> is the copy a client tries to store and the
  date of the attempt.\<close>

definition attempt :: "codec \<Rightarrow> nat \<times> Entity \<Rightarrow> row list \<Rightarrow> unit result \<times> row list" where
  "attempt cd x t = (case sq_update cd (fst x) (snd x) t of (q, (_, t)) \<Rightarrow> (q, t))"

lemma sq_find_update:
  "sq_find (map (\<lambda>r. if row_id r = j then r\<lparr>row_data := s, row_version := v, row_updated_at := u\<rparr> else r) t) i =
     map_option (\<lambda>r. if row_id r = j then r\<lparr>row_data := s, row_version := v, row_updated_at := u\<rparr> else r) (sq_find t i)"
  by (rule sq_find_map) simp

lemma attempt_cases:
  assumes "attempt cd (now, e) t = (q, t')" "sq_find t i = Some r"
  shows "\<exists>r'. sq_find t' i = Some r' \<and>
    (if e_id e = i \<and> q = Inr () then e_version e = row_version r \<and> row_version r' = row_version r + 1 else row_version r' = row_version r)"
  using assms sq_find_id [OF assms(2)]
  by (cases "e_id e = i")
    (auto simp: attempt_def sq_update_def touched_def Let_def sq_find_update split: prod.splits option.splits if_splits sum.splits)

text \<open>The copies that were stored, of the attempts for the entity \<open>i\<close>.\<close>

definition stored :: "string \<Rightarrow> (nat \<times> Entity) list \<Rightarrow> unit result list \<Rightarrow> Entity list" where
  "stored i xs qs = map (snd \<circ> fst) (filter (\<lambda>(x, q). e_id (snd x) = i \<and> q = Inr ()) (zip xs qs))"

lemma updates_versions:
  assumes "answers (attempt cd) xs t = (qs, t')" "sq_find t i = Some r"
  shows "map e_version (stored i xs qs) = map (\<lambda>k. row_version r + int k) [0..<length (stored i xs qs)] \<and>
    (\<exists>r'. sq_find t' i = Some r' \<and> row_version r' = row_version r + int (length (stored i xs qs)))"
  using assms
proof (induction xs arbitrary: t r qs)
  case (Cons x xs)
  obtain q t1 where a: "attempt cd x t = (q, t1)" by (rule prod.exhaust)
  obtain qs1 where b: "answers (attempt cd) xs t1 = (qs1, t')" "qs = q # qs1"
    using Cons.prems(1) by (auto simp: a split: prod.splits)
  obtain r1 where r1: "sq_find t1 i = Some r1" "if e_id (snd x) = i \<and> q = Inr ()
      then e_version (snd x) = row_version r \<and> row_version r1 = row_version r + 1 else row_version r1 = row_version r"
    using attempt_cases [of cd "fst x" "snd x" t q t1 i r] a Cons.prems(2) by auto
  note IH = Cons.IH [OF b(1) r1(1)]
  show ?case
  proof (cases "e_id (snd x) = i \<and> q = Inr ()")
    case True
    then have st: "stored i (x # xs) qs = snd x # stored i xs qs1" by (simp add: stored_def b(2))
    have "map (\<lambda>k. row_version r + int k) [0..<Suc n] = row_version r # map (\<lambda>k. row_version r + 1 + int k) [0..<n]" for n
      by (simp add: upt_conv_Cons map_Suc_upt [symmetric] del: upt_Suc)
    then show ?thesis using IH r1(2) True by (auto simp: st)
  next
    case False
    then have "stored i (x # xs) qs = stored i xs qs1" by (auto simp: stored_def b(2))
    then show ?thesis using IH r1(2) False by auto
  qed
qed (simp add: stored_def)

text \<open>No update of an entity in the table is lost: however the attempts of its users interleave, the copies that were stored
  were read at consecutive versions, each based on the one stored before, and the version in the table has
  counted them.\<close>

theorem updates_serialize:
  assumes "answers (attempt cd) xs t = (qs, t')" "sq_find t i = Some r"
  shows "map e_version (stored i xs qs) = map (\<lambda>k. row_version r + int k) [0..<length (stored i xs qs)] \<and>
    map_option row_version (sq_find t' i) = Some (row_version r + int (length (stored i xs qs)))"
  using updates_versions [OF assms] by auto

section \<open>Where the code falls short of its documentation\<close>

text \<open>A date among the own attributes of an entity comes back as text.\<close>

lemma own_dates_are_text:
  assumes "codec_ok cd ty" "writable cd ty e" "dict_get (e_attrs e) k = Some (VObj n)" "cd_iso cd n = Some d"
    "sq_add cd e t = (Inr (), t')"
  shows "\<exists>e'. sq_get cd (e_id e) t' = Inr (Some e') \<and> dict_get (e_attrs e') k = Some (VStr d)"
proof -
  obtain s where s: "cd_dumps cd (entity_to_dict (cd_iso cd) e) = Inr s" "decode cd s = Inr (as_read cd e)"
    using write_read [OF assms(1,2)] by blast
  have "sq_get cd (e_id e) t' = Inr (Some (as_read cd e))"
    using assms(5) by (auto simp: sq_add_def sq_get_def s bind_result_eq_Inr sq_find_append sq_find_single split: if_splits sum.splits)
  moreover have "dict_get (map (\<lambda>(k, v). (k, serialized (cd_iso cd) v)) (e_attrs e)) k = Some (VStr d)"
    using assms(3,4) by (induction "e_attrs e") (auto simp: map_of_map serialized_def)
  ultimately show ?thesis by (simp add: as_read_def)
qed

text \<open>A date that a rollback has replaced by its text cannot be stored in a table any more.\<close>

lemma text_date_not_stored:
  assumes "e_created_at e = VStr d" "sq_find t (e_id e) = None"
  shows "\<exists>x. sq_add cd e t = (Inl x, t)"
  using assms by (cases "cd_dumps cd (entity_to_dict (cd_iso cd) e)") (auto simp: sq_add_def isoformat_of_def)

text \<open>Counting with a specification goes through a list of at most ten thousand.\<close>

lemma count_capped: "sq_count cd (Some s) t = Inr n \<Longrightarrow> n \<le> 10000"
  by (auto simp: sq_count_def sq_list_def bind_result_eq_Inr)

text \<open>An update that cannot be written has already counted the version of the caller's copy up.\<close>

lemma failed_update_counts:
  assumes "sq_find t (e_id e) = Some r" "row_version r = e_version e"
    "cd_dumps cd (entity_to_dict (cd_iso cd) (touched now e)) = Inl x"
  shows "sq_update cd now e t = (Inl x, (touched now e, t)) \<and>
    fst (sq_update cd now' (touched now e) t) = Inl (concurrency_error (e_id e) (e_version e + 1) (e_version e))"
  using assms by (simp add: sq_update_def Let_def touched_def)

definition demo_codec :: codec where
  "demo_codec = \<lparr>cd_dumps = (\<lambda>_. Inr ''{}''), cd_loads = (\<lambda>_. Inr []), cd_iso = (\<lambda>_. Some ''2024''), cd_parse = (\<lambda>_. Inr 0),
     cd_make = (\<lambda>_. Inl (PyExc ''TypeError'' ''missing argument'')), cd_order = (\<lambda>t. t)\<rparr>"

definition copy_at :: "int \<Rightarrow> Entity" where
  "copy_at v = \<lparr>e_type = ''User'', e_id = ''u'', e_created_at = VObj 0, e_updated_at = VObj 0, e_version = v, e_attrs = []\<rparr>"

definition demo_table :: "row list" where
  "demo_table = [\<lparr>row_id = ''u'', row_data = ''{}'', row_version = 1, row_created_at = ''2024'', row_updated_at = ''2024''\<rparr>]"

text \<open>Two users read version one; the first stores, the second is refused, reads again and stores.\<close>

theorem updates_serialize_witness:
  "map e_version (stored ''u'' [(0, copy_at 1), (1, copy_at 1), (2, copy_at 2)]
      (fst (answers (attempt demo_codec) [(0, copy_at 1), (1, copy_at 1), (2, copy_at 2)] demo_table))) = [1, 2]"
proof -
  let ?xs = "[(0, copy_at 1), (1, copy_at 1), (2, copy_at 2)]"
  obtain qs t' where run: "answers (attempt demo_codec) ?xs demo_table = (qs, t')" by (rule prod.exhaust)
  have len: "length (stored ''u'' ?xs (fst (answers (attempt demo_codec) ?xs demo_table))) = 2"
    by (simp add: attempt_def sq_update_def sq_find_def demo_table_def copy_at_def demo_codec_def touched_def isoformat_of_def
        stored_def concurrency_error_def Let_def)
  have find: "sq_find demo_table ''u'' = Some (hd demo_table)" by (simp add: sq_find_def demo_table_def)
  have "length (stored ''u'' ?xs qs) = 2" using len by (simp only: run fst_conv)
  with updates_serialize [OF run find] show ?thesis
    unfolding run fst_conv by (simp only: \<open>length (stored ''u'' ?xs qs) = 2\<close>) (simp add: demo_table_def upt_conv_Cons)
qed

end
