(* ===== verification/Unit_Of_Work.thy ===== *)
theory Unit_Of_Work
  imports Repository
begin

text \<open>
  The unit of work and the composite of several (\<^verbatim>\<open>victor/core/unit_of_work.py\<close>): tracked entities, registration,
  commit and rollback, the \<^verbatim>\<open>transactional\<close> block. Iterating over a set goes through the parameter \<open>env_order\<close>, since
  the language leaves the order open. A composite coordinates different units.
\<close>

section \<open>The unit of work\<close>

datatype EntityState = CLEAN | NEW | MODIFIED | DELETED

record TrackedEntity =
  t_entity :: nat
  t_state :: EntityState
  t_original :: "state option"

record UnitOfWork =
  u_identity_map :: "(string, TrackedEntity) dict"
  u_repositories :: "(string, nat) dict"
  u_new :: "nat list"
  u_modified :: "string set"
  u_deleted :: "string set"
  u_committed :: bool

definition uow_init :: UnitOfWork where
  "uow_init = \<lparr>u_identity_map = [], u_repositories = [], u_new = [], u_modified = {}, u_deleted = {}, u_committed = False\<rparr>"

definition uow_error :: "string \<Rightarrow> py_exc" where
  "uow_error msg = PyExc ''UnitOfWorkError'' msg"

definition mark_clean :: "(nat \<Rightarrow> string option) \<Rightarrow> world \<Rightarrow> TrackedEntity \<Rightarrow> TrackedEntity" where
  "mark_clean iso_text w t = t\<lparr>t_state := CLEAN, t_original := Some (entity_to_dict iso_text (w_heap w (t_entity t)))\<rparr>"

definition mark_modified :: "TrackedEntity \<Rightarrow> TrackedEntity" where
  "mark_modified t = (if t_state t = CLEAN then t\<lparr>t_state := MODIFIED\<rparr> else t)"

definition mark_deleted :: "TrackedEntity \<Rightarrow> TrackedEntity" where
  "mark_deleted t = t\<lparr>t_state := DELETED\<rparr>"

definition is_dirty :: "(nat \<Rightarrow> string option) \<Rightarrow> world \<Rightarrow> TrackedEntity \<Rightarrow> bool" where
  "is_dirty iso_text w t =
     (if t_state t \<in> {NEW, DELETED} then True
      else if t_state t = MODIFIED
      then (case t_original t of
              None \<Rightarrow> True
            | Some d \<Rightarrow> \<not> pyval_eq (VDict (entity_to_dict iso_text (w_heap w (t_entity t)))) (VDict d))
      else False)"

definition set_tracked :: "string \<Rightarrow> TrackedEntity \<Rightarrow> UnitOfWork \<Rightarrow> UnitOfWork" where
  "set_tracked i t u = u\<lparr>u_identity_map := dict_set i t (u_identity_map u)\<rparr>"

definition register_repository :: "nat \<Rightarrow> string \<Rightarrow> UnitOfWork \<Rightarrow> UnitOfWork" where
  "register_repository r ty u = u\<lparr>u_repositories := dict_set ty r (u_repositories u)\<rparr>"

definition get_repository :: "UnitOfWork \<Rightarrow> Entity \<Rightarrow> nat result" where
  "get_repository u e =
     (case dict_get (u_repositories u) (e_type e) of
        None \<Rightarrow> Inl (uow_error (''No repository registered for '' @ e_type e))
      | Some r \<Rightarrow> Inr r)"

definition uow_get :: "UnitOfWork \<Rightarrow> string \<Rightarrow> nat option" where
  "uow_get u i =
     (case dict_get (u_identity_map u) i of
        None \<Rightarrow> None
      | Some t \<Rightarrow> if t_state t \<noteq> DELETED then Some (t_entity t) else None)"

definition attach :: "(nat \<Rightarrow> string option) \<Rightarrow> world \<Rightarrow> nat \<Rightarrow> UnitOfWork \<Rightarrow> UnitOfWork" where
  "attach iso_text w a u =
     (let i = e_id (w_heap w a)
      in if dict_has (u_identity_map u) i then u
         else set_tracked i \<lparr>t_entity = a, t_state = CLEAN, t_original = Some (entity_to_dict iso_text (w_heap w a))\<rparr> u)"

definition detach :: "world \<Rightarrow> nat \<Rightarrow> UnitOfWork \<Rightarrow> UnitOfWork" where
  "detach w a u =
     (let i = e_id (w_heap w a)
      in u\<lparr>u_identity_map := dict_pop i (u_identity_map u), u_new := filter (\<lambda>b. e_id (w_heap w b) \<noteq> i) (u_new u),
           u_modified := u_modified u - {i}, u_deleted := u_deleted u - {i}\<rparr>)"

definition register_new :: "world \<Rightarrow> nat \<Rightarrow> UnitOfWork \<Rightarrow> unit result \<times> UnitOfWork" where
  "register_new w a u =
     (let i = e_id (w_heap w a)
      in if dict_has (u_identity_map u) i then (Inl (uow_error (''Entity '' @ i @ '' already tracked'')), u)
         else (Inr (), (set_tracked i \<lparr>t_entity = a, t_state = NEW, t_original = None\<rparr> u)\<lparr>u_new := u_new u @ [a]\<rparr>))"

definition register_modified :: "(nat \<Rightarrow> string option) \<Rightarrow> world \<Rightarrow> nat \<Rightarrow> UnitOfWork \<Rightarrow> UnitOfWork" where
  "register_modified iso_text w a u =
     (let i = e_id (w_heap w a); u = attach iso_text w a u
      in case dict_get (u_identity_map u) i of
          None \<Rightarrow> u
        | Some t \<Rightarrow> (set_tracked i (mark_modified t) u)\<lparr>u_modified := insert i (u_modified u)\<rparr>)"

definition register_deleted :: "world \<Rightarrow> nat \<Rightarrow> UnitOfWork \<Rightarrow> UnitOfWork" where
  "register_deleted w a u =
     (let i = e_id (w_heap w a);
          t = (case dict_get (u_identity_map u) i of
                 Some t \<Rightarrow> mark_deleted t
               | None \<Rightarrow> \<lparr>t_entity = a, t_state = DELETED, t_original = None\<rparr>)
      in (set_tracked i t u)\<lparr>u_new := filter (\<lambda>b. e_id (w_heap w b) \<noteq> i) (u_new u),
           u_modified := u_modified u - {i}, u_deleted := insert i (u_deleted u)\<rparr>)"

section \<open>Commit and rollback\<close>

text \<open>What the methods need from outside.\<close>

record uow_env =
  env_iso :: "nat \<Rightarrow> string option"
  env_now :: "nat \<Rightarrow> nat"
  env_order :: "string set \<Rightarrow> string list"

type_synonym unit_state = "UnitOfWork \<times> world"

definition commit_new :: "uow_env \<Rightarrow> nat \<Rightarrow> unit_state \<Rightarrow> unit result \<times> unit_state" where
  "commit_new env a s =
     (case s of (u, w) \<Rightarrow>
        let e = w_heap w a
        in case get_repository u e of
            Inl x \<Rightarrow> (Inl x, (u, w))
          | Inr r \<Rightarrow>
              (case repo_add r a w of
                 (Inl x, w) \<Rightarrow> (Inl x, (u, w))
               | (Inr _, w) \<Rightarrow>
                   (case dict_get (u_identity_map u) (e_id e) of
                      None \<Rightarrow> (Inl (KeyError (e_id e)), (u, w))
                    | Some t \<Rightarrow> (Inr (), (set_tracked (e_id e) (mark_clean (env_iso env) w t) u, w)))))"

definition commit_modified :: "uow_env \<Rightarrow> string \<Rightarrow> unit_state \<Rightarrow> unit result \<times> unit_state" where
  "commit_modified env i s =
     (case s of (u, w) \<Rightarrow>
        case dict_get (u_identity_map u) i of
          None \<Rightarrow> (Inr (), (u, w))
        | Some t \<Rightarrow>
            (if \<not> is_dirty (env_iso env) w t then (Inr (), (u, w))
             else case get_repository u (w_heap w (t_entity t)) of
                 Inl x \<Rightarrow> (Inl x, (u, w))
               | Inr r \<Rightarrow>
                   (case repo_update (env_now env) r (t_entity t) w of
                      (Inl x, w) \<Rightarrow> (Inl x, (u, w))
                    | (Inr _, w) \<Rightarrow> (Inr (), (set_tracked i (mark_clean (env_iso env) w t) u, w)))))"

definition commit_deleted :: "string \<Rightarrow> unit_state \<Rightarrow> unit result \<times> unit_state" where
  "commit_deleted i s =
     (case s of (u, w) \<Rightarrow>
        case dict_get (u_identity_map u) i of
          None \<Rightarrow> (Inr (), (u, w))
        | Some t \<Rightarrow>
            (case get_repository u (w_heap w (t_entity t)) of
               Inl x \<Rightarrow> (Inl x, (u, w))
             | Inr r \<Rightarrow> (case repo_delete r i w of (q, w) \<Rightarrow> (q, (u, w)))))"

definition uow_clear :: "UnitOfWork \<Rightarrow> UnitOfWork" where
  "uow_clear u = u\<lparr>u_new := [], u_modified := {}, u_deleted := {}\<rparr>"

definition commit_all :: "uow_env \<Rightarrow> unit_state \<Rightarrow> unit result \<times> unit_state" where
  "commit_all env s =
     (case run_each (commit_new env) (u_new (fst s)) s of
        (Inl x, s) \<Rightarrow> (Inl x, s)
      | (Inr _, s) \<Rightarrow>
          (case run_each (commit_modified env) (env_order env (u_modified (fst s))) s of
             (Inl x, s) \<Rightarrow> (Inl x, s)
           | (Inr _, s) \<Rightarrow> run_each commit_deleted (env_order env (u_deleted (fst s))) s))"

definition uow_commit :: "uow_env \<Rightarrow> unit_state \<Rightarrow> unit result \<times> unit_state" where
  "uow_commit env s =
     (if u_committed (fst s) then (Inl (uow_error ''Unit of Work already committed''), s)
      else case commit_all env s of
          (Inl x, s) \<Rightarrow> (Inl (uow_error (''Commit failed: '' @ exc_msg x)), s)
        | (Inr _, (u, w)) \<Rightarrow> (Inr (), ((uow_clear u)\<lparr>u_committed := True\<rparr>, w)))"

text \<open>An empty dictionary of original data counts as none; the dictionary of an entity never is.\<close>

definition revert :: "string \<Rightarrow> unit_state \<Rightarrow> unit_state" where
  "revert i s =
     (case s of (u, w) \<Rightarrow>
        case dict_get (u_identity_map u) i of
          None \<Rightarrow> (u, w)
        | Some t \<Rightarrow>
            (case t_original t of
               None \<Rightarrow> (u, w)
             | Some d \<Rightarrow>
                 if d = [] then (u, w)
                 else (set_tracked i (t\<lparr>t_state := CLEAN\<rparr>) u,
                       set_entity (t_entity t) (fold set_attr d (w_heap w (t_entity t))) w)))"

definition uow_rollback :: "uow_env \<Rightarrow> unit_state \<Rightarrow> unit_state" where
  "uow_rollback env s =
     (case fold revert (env_order env (u_modified (fst s))) s of (u, w) \<Rightarrow> (uow_clear u, w))"

definition uow_has_changes :: "uow_env \<Rightarrow> unit_state \<Rightarrow> bool" where
  "uow_has_changes env s =
     (case s of (u, w) \<Rightarrow>
        if u_new u \<noteq> [] \<or> u_deleted u \<noteq> {} then True
        else list_ex (\<lambda>i. case dict_get (u_identity_map u) i of
               None \<Rightarrow> False | Some t \<Rightarrow> is_dirty (env_iso env) w t) (env_order env (u_modified u)))"

definition uow_pending_count :: "UnitOfWork \<Rightarrow> nat" where
  "uow_pending_count u = length (u_new u) + card (u_modified u) + card (u_deleted u)"

text \<open>Leaving the block of the unit, with or without an exception.\<close>

definition uow_exit :: "uow_env \<Rightarrow> bool \<Rightarrow> unit_state \<Rightarrow> unit_state" where
  "uow_exit env raised s =
     (if raised then uow_rollback env s
      else if \<not> u_committed (fst s) \<and> uow_has_changes env s then uow_rollback env s
      else s)"

text \<open>\<^verbatim>\<open>transactional\<close>: the block runs on a new unit with its repositories and commits at the end.\<close>

definition transactional ::
  "uow_env \<Rightarrow> (nat \<times> string) list \<Rightarrow> (unit_state \<Rightarrow> unit result \<times> unit_state) \<Rightarrow> world \<Rightarrow> unit result \<times> unit_state" where
  "transactional env repos body w =
     (let u = fold (\<lambda>(r, ty). register_repository r ty) repos uow_init
      in case body (u, w) of
          (Inl x, s) \<Rightarrow> (Inl x, uow_rollback env s)
        | (Inr _, s) \<Rightarrow>
            (if uow_has_changes env s \<and> \<not> u_committed (fst s)
             then (case uow_commit env s of (Inl x, s) \<Rightarrow> (Inl x, uow_rollback env s) | (Inr _, s) \<Rightarrow> (Inr (), s))
             else (Inr (), s)))"

section \<open>The unit with a connection\<close>

text \<open>The subclass that opens a connection of its own. What it does with the connection is a log; whether connecting
  and committing succeed is up to the database.\<close>

datatype conn_event = Conn_begin string | Conn_commit | Conn_rollback | Conn_close

record SQLiteUnitOfWork =
  su_unit :: UnitOfWork
  su_db_path :: string
  su_connection :: bool
  su_log :: "conn_event list"

definition sqlite_uow_init :: "string \<Rightarrow> SQLiteUnitOfWork" where
  "sqlite_uow_init db_path = \<lparr>su_unit = uow_init, su_db_path = db_path, su_connection = False, su_log = []\<rparr>"

definition begin_transaction :: "unit result \<Rightarrow> SQLiteUnitOfWork \<Rightarrow> unit result \<times> SQLiteUnitOfWork" where
  "begin_transaction connects su =
     (case connects of
        Inl x \<Rightarrow> (Inl x, su)
      | Inr _ \<Rightarrow> (Inr (), su\<lparr>su_connection := True, su_log := su_log su @ [Conn_begin (su_db_path su)]\<rparr>))"

definition sqlite_uow_commit ::
  "uow_env \<Rightarrow> unit result \<Rightarrow> SQLiteUnitOfWork \<times> world \<Rightarrow> unit result \<times> SQLiteUnitOfWork \<times> world" where
  "sqlite_uow_commit env commits s =
     (case s of (su, w) \<Rightarrow>
        case uow_commit env (su_unit su, w) of (q, (u, w)) \<Rightarrow>
          let su' = su\<lparr>su_unit := u\<rparr>
          in if \<not> su_connection su then (q, (su', w))
             else let closed = (\<lambda>es. su'\<lparr>su_connection := False, su_log := su_log su @ es @ [Conn_close]\<rparr>)
                  in case q of
                      Inl x \<Rightarrow> (Inl x, (closed [Conn_rollback], w))
                    | Inr _ \<Rightarrow>
                        (case commits of
                           Inl x \<Rightarrow> (Inl x, (closed [Conn_commit, Conn_rollback], w))
                         | Inr _ \<Rightarrow> (Inr (), (closed [Conn_commit], w))))"

definition sqlite_uow_rollback :: "uow_env \<Rightarrow> SQLiteUnitOfWork \<times> world \<Rightarrow> SQLiteUnitOfWork \<times> world" where
  "sqlite_uow_rollback env s =
     (case s of (su, w) \<Rightarrow>
        case uow_rollback env (su_unit su, w) of (u, w) \<Rightarrow>
          let su' = su\<lparr>su_unit := u\<rparr>
          in if su_connection su
             then (su'\<lparr>su_connection := False, su_log := su_log su @ [Conn_rollback, Conn_close]\<rparr>, w)
             else (su', w))"

section \<open>Several units\<close>

record CompositeUnitOfWork =
  c_units :: "UnitOfWork list"
  c_prepared :: "nat set"

definition prepare :: "uow_env \<Rightarrow> CompositeUnitOfWork \<Rightarrow> world \<Rightarrow> CompositeUnitOfWork" where
  "prepare env c w = c\<lparr>c_prepared := c_prepared c \<union>
     set (filter (\<lambda>i. uow_has_changes env (c_units c ! i, w)) [0..<length (c_units c)])\<rparr>"

definition commit_unit :: "uow_env \<Rightarrow> nat \<Rightarrow> UnitOfWork list \<times> world \<Rightarrow> unit result \<times> UnitOfWork list \<times> world" where
  "commit_unit env i s =
     (case s of (us, w) \<Rightarrow> case uow_commit env (us ! i, w) of (q, (u, w)) \<Rightarrow> (q, (us[i := u], w)))"

fun rollback_units :: "uow_env \<Rightarrow> UnitOfWork list \<Rightarrow> world \<Rightarrow> UnitOfWork list \<times> world" where
  "rollback_units env [] w = ([], w)"
| "rollback_units env (u # us) w =
     (case uow_rollback env (u, w) of (u, w) \<Rightarrow> case rollback_units env us w of (us, w) \<Rightarrow> (u # us, w))"

definition composite_rollback :: "uow_env \<Rightarrow> CompositeUnitOfWork \<Rightarrow> world \<Rightarrow> CompositeUnitOfWork \<times> world" where
  "composite_rollback env c w =
     (case rollback_units env (c_units c) w of (us, w) \<Rightarrow> (c\<lparr>c_units := us, c_prepared := {}\<rparr>, w))"

text \<open>The indices of the prepared units come in ascending order.\<close>

definition composite_commit ::
  "uow_env \<Rightarrow> CompositeUnitOfWork \<Rightarrow> world \<Rightarrow> unit result \<times> CompositeUnitOfWork \<times> world" where
  "composite_commit env c w =
     (let c = prepare env c w
      in case run_each (commit_unit env) (filter (\<lambda>i. i \<in> c_prepared c) [0..<length (c_units c)]) (c_units c, w) of
          (Inr _, (us, w)) \<Rightarrow> (Inr (), (c\<lparr>c_units := us\<rparr>, w))
        | (Inl x, (us, w)) \<Rightarrow>
            (case composite_rollback env (c\<lparr>c_units := us\<rparr>) w of (c, w) \<Rightarrow>
               (Inl (uow_error (''Composite commit failed: '' @ exc_msg x)), (c, w))))"

definition add_unit :: "UnitOfWork \<Rightarrow> CompositeUnitOfWork \<Rightarrow> CompositeUnitOfWork" where
  "add_unit u c = c\<lparr>c_units := c_units c @ [u]\<rparr>"

text \<open>The first unit that takes the entity.\<close>

fun units_register_new :: "world \<Rightarrow> nat \<Rightarrow> UnitOfWork list \<Rightarrow> UnitOfWork list option" where
  "units_register_new w a [] = None"
| "units_register_new w a (u # us) =
     (case register_new w a u of
        (Inr _, u') \<Rightarrow> Some (u' # us)
      | (Inl _, u') \<Rightarrow> map_option (\<lambda>us. u' # us) (units_register_new w a us))"

definition composite_register_new :: "world \<Rightarrow> nat \<Rightarrow> CompositeUnitOfWork \<Rightarrow> unit result \<times> CompositeUnitOfWork" where
  "composite_register_new w a c =
     (case units_register_new w a (c_units c) of
        Some us \<Rightarrow> (Inr (), c\<lparr>c_units := us\<rparr>)
      | None \<Rightarrow> (Inl (uow_error (''No unit accepts '' @ e_type (w_heap w a))), c))"

text \<open>The first unit that knows the entity.\<close>

fun first_tracking :: "string \<Rightarrow> (UnitOfWork \<Rightarrow> UnitOfWork) \<Rightarrow> UnitOfWork list \<Rightarrow> UnitOfWork list option" where
  "first_tracking i f [] = None"
| "first_tracking i f (u # us) =
     (if uow_get u i \<noteq> None then Some (f u # us) else map_option (\<lambda>us. u # us) (first_tracking i f us))"

definition composite_register_modified ::
  "uow_env \<Rightarrow> world \<Rightarrow> nat \<Rightarrow> CompositeUnitOfWork \<Rightarrow> unit result \<times> CompositeUnitOfWork" where
  "composite_register_modified env w a c =
     (let i = e_id (w_heap w a)
      in case first_tracking i (register_modified (env_iso env) w a) (c_units c) of
          Some us \<Rightarrow> (Inr (), c\<lparr>c_units := us\<rparr>)
        | None \<Rightarrow> (Inl (uow_error (''Entity '' @ i @ '' not found in any unit'')), c))"

definition composite_register_deleted :: "world \<Rightarrow> nat \<Rightarrow> CompositeUnitOfWork \<Rightarrow> CompositeUnitOfWork" where
  "composite_register_deleted w a c =
     (case first_tracking (e_id (w_heap w a)) (register_deleted w a) (c_units c) of
        Some us \<Rightarrow> c\<lparr>c_units := us\<rparr>
      | None \<Rightarrow>
          (case c_units c of [] \<Rightarrow> c | u # us \<Rightarrow> c\<lparr>c_units := register_deleted w a u # us\<rparr>))"

end
