(* ===== verification/Unit_Invariant.thy ===== *)
theory Unit_Invariant
  imports Unit_Of_Work
begin

text \<open>
  What the steps of a commit do to the repositories and what they leave alone, and the invariant of a unit of
  work: every operation of the unit, every assignment to an attribute and every direct use of a repository
  keeps it.
\<close>

section \<open>What the loops of a commit keep\<close>

definition tracked_addr :: "UnitOfWork \<Rightarrow> string \<Rightarrow> nat option" where
  "tracked_addr u i = map_option t_entity (dict_get (u_identity_map u) i)"

text \<open>The repository of a tracked entity.\<close>

definition home :: "unit_state \<Rightarrow> string \<Rightarrow> nat option" where
  "home s i = (case tracked_addr (fst s) i of
     None \<Rightarrow> None | Some a \<Rightarrow> dict_get (u_repositories (fst s)) (e_type (w_heap (snd s) a)))"

definition same_frame :: "unit_state \<Rightarrow> unit_state \<Rightarrow> bool" where
  "same_frame s s' \<longleftrightarrow> u_repositories (fst s') = u_repositories (fst s) \<and> u_new (fst s') = u_new (fst s) \<and>
     u_modified (fst s') = u_modified (fst s) \<and> u_deleted (fst s') = u_deleted (fst s) \<and>
     u_committed (fst s') = u_committed (fst s) \<and>
     (\<forall>i. tracked_addr (fst s') i = tracked_addr (fst s) i) \<and>
     (\<forall>a. e_id (w_heap (snd s') a) = e_id (w_heap (snd s) a) \<and> e_type (w_heap (snd s') a) = e_type (w_heap (snd s) a))"

lemma same_frame_refl [simp]: "same_frame s s"
  by (simp add: same_frame_def)

lemma same_frame_trans [trans]: "same_frame s s' \<Longrightarrow> same_frame s' s'' \<Longrightarrow> same_frame s s''"
  by (simp add: same_frame_def)

lemma same_frame_home: "same_frame s s' \<Longrightarrow> home s' i = home s i"
  by (simp add: same_frame_def home_def split: option.splits)

lemma run_each_frame:
  "(\<And>x s. same_frame s (snd (f x s))) \<Longrightarrow> same_frame s (snd (run_each f xs s))"
proof (induction xs arbitrary: s)
  case (Cons x xs)
  obtain q s1 where f: "f x s = (q, s1)" by (cases "f x s")
  then have "same_frame s s1" using Cons.prems [of s x] by simp
  moreover have "same_frame s1 (snd (run_each f xs s1))" by (rule Cons.IH) (rule Cons.prems)
  ultimately show ?case using f by (cases q) (simp_all add: same_frame_trans [of s s1])
qed simp

lemma tracked_set: "tracked_addr (set_tracked i t u) j = (if j = i then Some (t_entity t) else tracked_addr u j)"
  by (simp add: tracked_addr_def set_tracked_def dict_simps)

lemma repo_frame:
  "w_heap (snd (repo_add r a w)) = w_heap w" "w_heap (snd (repo_delete r i w)) = w_heap w"
  "e_id (w_heap (snd (repo_update now r a w)) b) = e_id (w_heap w b)"
  "e_type (w_heap (snd (repo_update now r a w)) b) = e_type (w_heap w b)"
  by (auto simp: repo_add_def repo_delete_def repo_update_def set_store_def increment_version_def touch_def set_entity_def
      Let_def split: option.splits)

lemma set_tracked_frame:
  "same_frame (u, w) (set_tracked i t u, w') \<longleftrightarrow>
     (\<forall>j. tracked_addr (set_tracked i t u) j = tracked_addr u j) \<and>
     (\<forall>a. e_id (w_heap w' a) = e_id (w_heap w a) \<and> e_type (w_heap w' a) = e_type (w_heap w a))"
  by (auto simp: same_frame_def set_tracked_def)

lemma world_frame:
  "same_frame (u, w) (u, w') \<longleftrightarrow>
     (\<forall>a. e_id (w_heap w' a) = e_id (w_heap w a) \<and> e_type (w_heap w' a) = e_type (w_heap w a))"
  by (simp add: same_frame_def)

lemma mark_clean_entity [simp]: "t_entity (mark_clean iso_text w t) = t_entity t"
  by (simp add: mark_clean_def)

lemma commit_new_frame: "same_frame s (snd (commit_new env a s))"
proof (cases s)
  case (Pair u w)
  have h: "w_heap w' = w_heap w" if "repo_add r a w = (q, w')" for r q w' using repo_frame(1) [of r a w] that by simp
  show ?thesis unfolding Pair commit_new_def
    by (auto simp: Let_def set_tracked_frame world_frame tracked_set h split: sum.splits prod.splits option.splits)
      (simp_all add: tracked_addr_def)
qed

lemma commit_modified_frame: "same_frame s (snd (commit_modified env i s))"
proof (cases s)
  case (Pair u w)
  have h: "e_id (w_heap w' b) = e_id (w_heap w b) \<and> e_type (w_heap w' b) = e_type (w_heap w b)"
    if "repo_update (env_now env) r a w = (q, w')" for r a q w' b
    using repo_frame(3,4) [of "env_now env" r a w b] that by simp
  show ?thesis unfolding Pair commit_modified_def
    by (auto simp: set_tracked_frame world_frame tracked_set h split: sum.splits prod.splits option.splits)
      (simp_all add: tracked_addr_def)
qed

lemma commit_deleted_frame: "same_frame s (snd (commit_deleted i s))"
proof (cases s)
  case (Pair u w)
  have h: "w_heap w' = w_heap w" if "repo_delete r i w = (q, w')" for r q w' using repo_frame(2) [of r i w] that by simp
  show ?thesis unfolding Pair commit_deleted_def
    by (auto simp: world_frame h split: sum.splits prod.splits option.splits)
qed

section \<open>What the loops of a commit do\<close>

definition dirty :: "uow_env \<Rightarrow> unit_state \<Rightarrow> string \<Rightarrow> bool" where
  "dirty env s i = (case dict_get (u_identity_map (fst s)) i of
     None \<Rightarrow> False | Some t \<Rightarrow> is_dirty (env_iso env) (snd s) t)"

definition consistent :: "unit_state \<Rightarrow> bool" where
  "consistent s \<longleftrightarrow> (\<forall>i a. tracked_addr (fst s) i = Some a \<longrightarrow> e_id (w_heap (snd s) a) = i)"

lemma consistent_id: "consistent (u, w) \<Longrightarrow> dict_get (u_identity_map u) i = Some t \<Longrightarrow> e_id (w_heap w (t_entity t)) = i"
  by (simp add: consistent_def tracked_addr_def)

lemma consistent_frame: "consistent s \<Longrightarrow> same_frame s s' \<Longrightarrow> consistent s'"
  by (simp add: consistent_def same_frame_def)

lemma run_each_Inr:
  "run_each f (x # xs) s = (Inr (), s'') \<longleftrightarrow> (\<exists>s'. f x s = (Inr (), s') \<and> run_each f xs s' = (Inr (), s''))"
  by (auto split: prod.splits sum.splits)

lemma home_repository: "tracked_addr u i = Some a \<Longrightarrow> get_repository u (w_heap w a) = Inr r \<Longrightarrow> home (u, w) i = Some r"
  by (simp add: home_def get_repository_def split: option.splits)

lemma commit_new_effect:
  assumes "commit_new env a s = (Inr (), s')" "tracked_addr (fst s) (e_id (w_heap (snd s) a)) = Some a"
  shows "w_heap (snd s') = w_heap (snd s) \<and>
    (\<forall>r i. repo_get r i (snd s') = (if i = e_id (w_heap (snd s) a) \<and> home s i = Some r then Some a else repo_get r i (snd s))) \<and>
    (\<forall>i. dirty env s' i = (i \<noteq> e_id (w_heap (snd s) a) \<and> dirty env s i))"
proof -
  obtain u w where s: "s = (u, w)" by (cases s)
  let ?i = "e_id (w_heap w a)"
  obtain r w1 t where r: "get_repository u (w_heap w a) = Inr r" "repo_add r a w = (Inr (), w1)"
    "dict_get (u_identity_map u) ?i = Some t" "s' = (set_tracked ?i (mark_clean (env_iso env) w1 t) u, w1)"
    using assms(1) by (auto simp: s commit_new_def Let_def split: sum.splits prod.splits option.splits)
  have w1: "w1 = set_store r (dict_set ?i a (w_stores w r)) w" using r(2) by (auto simp: repo_add_def Let_def split: if_splits)
  have "home (u, w) ?i = Some r" using assms(2) r(1) by (simp add: s home_repository)
  then show ?thesis
    using r(4) by (auto simp: s w1 repo_get_def set_store_def dict_simps dirty_def set_tracked_def is_dirty_def mark_clean_def
        split: option.splits)
qed

lemma commit_news:
  assumes "run_each (commit_new env) as s = (Inr (), s')" "distinct (map (\<lambda>a. e_id (w_heap (snd s) a)) as)"
    "\<forall>a \<in> set as. tracked_addr (fst s) (e_id (w_heap (snd s) a)) = Some a"
  shows "w_heap (snd s') = w_heap (snd s) \<and>
    (\<forall>r i. repo_get r i (snd s') = (if i \<in> (\<lambda>a. e_id (w_heap (snd s) a)) ` set as \<and> home s i = Some r
       then tracked_addr (fst s) i else repo_get r i (snd s))) \<and>
    (\<forall>i. dirty env s' i = (i \<notin> (\<lambda>a. e_id (w_heap (snd s) a)) ` set as \<and> dirty env s i))"
  using assms
proof (induction as arbitrary: s)
  case (Cons a as)
  obtain s1 where s1: "commit_new env a s = (Inr (), s1)" "run_each (commit_new env) as s1 = (Inr (), s')"
    using Cons.prems(1) unfolding run_each_Inr by blast
  have fr: "same_frame s s1" using commit_new_frame [of s env a] s1(1) by simp
  have tr: "tracked_addr (fst s1) i = tracked_addr (fst s) i" for i using fr by (simp add: same_frame_def)
  have a: "tracked_addr (fst s) (e_id (w_heap (snd s) a)) = Some a" using Cons.prems(3) by simp
  have ef: "w_heap (snd s1) = w_heap (snd s)"
    "\<And>r i. repo_get r i (snd s1) = (if i = e_id (w_heap (snd s) a) \<and> home s i = Some r then Some a else repo_get r i (snd s))"
    "\<And>i. dirty env s1 i = (i \<noteq> e_id (w_heap (snd s) a) \<and> dirty env s i)"
    using commit_new_effect [OF s1(1) a] by auto
  have "distinct (map (\<lambda>a. e_id (w_heap (snd s1) a)) as)"
    "\<forall>a \<in> set as. tracked_addr (fst s1) (e_id (w_heap (snd s1) a)) = Some a"
    using Cons.prems(2,3) by (simp_all add: ef(1) tr)
  note IH = Cons.IH [OF s1(2) this]
  then show ?case using a same_frame_home [OF fr] by (auto simp: ef tr)
qed simp

lemma commit_modified_effect:
  assumes "commit_modified env i s = (Inr (), s')" "consistent s"
  shows "(\<forall>r j. repo_get r j (snd s') =
      (if j = i \<and> dirty env s i \<and> home s i = Some r then tracked_addr (fst s) i else repo_get r j (snd s))) \<and>
    (\<forall>b. e_version (w_heap (snd s') b) = e_version (w_heap (snd s) b) +
      (if tracked_addr (fst s) i = Some b \<and> dirty env s i then 1 else 0)) \<and>
    (\<forall>j. j \<noteq> i \<longrightarrow> dirty env s' j = dirty env s j)"
proof (cases "dirty env s i")
  case False
  then have "s' = s" using assms(1)
    by (auto simp: commit_modified_def dirty_def split: prod.splits option.splits sum.splits if_splits)
  with False show ?thesis by simp
next
  case True
  obtain u w where s: "s = (u, w)" by (cases s)
  obtain t where t: "dict_get (u_identity_map u) i = Some t" "is_dirty (env_iso env) w t"
    using True by (auto simp: dirty_def s split: option.splits)
  let ?a = "t_entity t"
  obtain r w1 where r: "get_repository u (w_heap w ?a) = Inr r" "repo_update (env_now env) r ?a w = (Inr (), w1)"
    "s' = (set_tracked i (mark_clean (env_iso env) w1 t) u, w1)"
    using assms(1) t by (auto simp: s commit_modified_def split: sum.splits prod.splits)
  have tr: "tracked_addr u i = Some ?a" using t(1) by (simp add: tracked_addr_def)
  have i: "e_id (w_heap w ?a) = i" using assms(2) tr by (simp add: consistent_def s)
  have w1: "w1 = set_store r (dict_set i ?a (w_stores w r)) (increment_version ?a (touch (env_now env) ?a w))"
    using r(2) by (auto simp: repo_update_def Let_def i increment_version_def touch_def set_entity_def split: option.splits if_splits)
  have heap: "w_heap w1 b = (if b = ?a then (w_heap w ?a)\<lparr>e_updated_at := VObj (env_now env (w_reads w)),
      e_version := e_version (w_heap w ?a) + 1\<rparr> else w_heap w b)" for b
    by (simp add: w1 set_store_def increment_version_def touch_def set_entity_def)
  have stores: "repo_get r' j w1 = (if j = i \<and> r' = r then Some ?a else repo_get r' j w)" for r' j
    by (simp add: w1 repo_get_def set_store_def increment_version_def touch_def set_entity_def dict_simps)
  have others: "dirty env s' j = dirty env s j" if "j \<noteq> i" for j
  proof -
    have "w_heap w1 (t_entity t') = w_heap w (t_entity t')" if "dict_get (u_identity_map u) j = Some t'" for t'
      using assms(2) \<open>j \<noteq> i\<close> that i by (auto simp: heap consistent_def s tracked_addr_def)
    then show ?thesis using that
      by (auto simp: dirty_def r(3) s set_tracked_def dict_simps is_dirty_def split: option.splits)
  qed
  have "home s i = Some r" using tr r(1) by (simp add: s home_repository)
  then show ?thesis using True others tr by (auto simp: r(3) s stores heap)
qed

lemma commit_modifieds:
  assumes "run_each (commit_modified env) is s = (Inr (), s')" "distinct is" "consistent s"
  shows "(\<forall>r j. repo_get r j (snd s') =
      (if j \<in> set is \<and> dirty env s j \<and> home s j = Some r then tracked_addr (fst s) j else repo_get r j (snd s))) \<and>
    (\<forall>b. e_version (w_heap (snd s') b) = e_version (w_heap (snd s) b) +
      (if \<exists>i \<in> set is. tracked_addr (fst s) i = Some b \<and> dirty env s i then 1 else 0))"
  using assms
proof (induction "is" arbitrary: s)
  case (Cons i js)
  obtain s1 where s1: "commit_modified env i s = (Inr (), s1)" "run_each (commit_modified env) js s1 = (Inr (), s')"
    using Cons.prems(1) unfolding run_each_Inr by blast
  have fr: "same_frame s s1" using commit_modified_frame [of s env i] s1(1) by simp
  have tr: "tracked_addr (fst s1) j = tracked_addr (fst s) j" for j using fr by (simp add: same_frame_def)
  note ef = commit_modified_effect [OF s1(1) Cons.prems(3)]
  have dj: "dirty env s1 j = dirty env s j" if "j \<in> set js" for j using ef that Cons.prems(2) by auto
  have IH: "\<And>r j. repo_get r j (snd s') =
      (if j \<in> set js \<and> dirty env s j \<and> home s j = Some r then tracked_addr (fst s) j else repo_get r j (snd s1))"
    "\<And>b. e_version (w_heap (snd s') b) = e_version (w_heap (snd s1) b) +
      (if \<exists>i \<in> set js. tracked_addr (fst s) i = Some b \<and> dirty env s i then 1 else 0)"
    using Cons.IH [OF s1(2) _ consistent_frame [OF Cons.prems(3) fr]] Cons.prems(2) dj
    by (auto simp: tr same_frame_home [OF fr])
  have one: "\<not> (tracked_addr (fst s) i = Some b \<and> tracked_addr (fst s) j = Some b)" if "j \<in> set js" for j b
    using Cons.prems(2,3) that by (auto simp: consistent_def)
  show ?case
  proof (intro conjI allI)
    fix r j
    show "repo_get r j (snd s') = (if j \<in> set (i # js) \<and> dirty env s j \<and> home s j = Some r
        then tracked_addr (fst s) j else repo_get r j (snd s))"
      using IH(1) [of r j] ef by auto
  next
    fix b
    show "e_version (w_heap (snd s') b) = e_version (w_heap (snd s) b) +
        (if \<exists>k \<in> set (i # js). tracked_addr (fst s) k = Some b \<and> dirty env s k then 1 else 0)"
      using IH(2) [of b] ef one [of _ b] by auto
  qed
qed simp

lemma commit_deleted_effect:
  assumes "commit_deleted i s = (Inr (), s')"
  shows "w_heap (snd s') = w_heap (snd s) \<and>
    (\<forall>r j. repo_get r j (snd s') = (if j = i \<and> home s i = Some r then None else repo_get r j (snd s)))"
proof (cases "dict_get (u_identity_map (fst s)) i")
  case None
  then have "s' = s" "home s i = None" using assms by (auto simp: commit_deleted_def home_def tracked_addr_def split: prod.splits)
  then show ?thesis by simp
next
  case (Some t)
  obtain u w where s: "s = (u, w)" by (cases s)
  obtain r w1 where r: "get_repository u (w_heap w (t_entity t)) = Inr r" "repo_delete r i w = (Inr (), w1)" "s' = (u, w1)"
    using assms Some by (auto simp: s commit_deleted_def split: sum.splits prod.splits)
  have "home s i = Some r" using Some r(1) by (simp add: s home_repository tracked_addr_def)
  moreover have "w1 = set_store r (dict_pop i (w_stores w r)) w" using r(2) by (auto simp: repo_delete_def split: if_splits)
  ultimately show ?thesis using r(3) by (auto simp: s repo_get_def set_store_def dict_simps)
qed

lemma commit_deleteds:
  assumes "run_each commit_deleted is s = (Inr (), s')"
  shows "w_heap (snd s') = w_heap (snd s) \<and>
    (\<forall>r j. repo_get r j (snd s') = (if j \<in> set is \<and> home s j = Some r then None else repo_get r j (snd s)))"
  using assms
proof (induction "is" arbitrary: s)
  case (Cons i js)
  obtain s1 where s1: "commit_deleted i s = (Inr (), s1)" "run_each commit_deleted js s1 = (Inr (), s')"
    using Cons.prems unfolding run_each_Inr by blast
  have "same_frame s s1" using commit_deleted_frame [of s i] s1(1) by simp
  then show ?case using Cons.IH [OF s1(2)] commit_deleted_effect [OF s1(1)] by (auto simp: same_frame_home)
qed simp

section \<open>The invariant of a unit\<close>

text \<open>Original data is the dictionary form of an entity with that identifier.\<close>

definition original_ok :: "uow_env \<Rightarrow> string \<Rightarrow> state \<Rightarrow> bool" where
  "original_ok env i d \<longleftrightarrow> (\<exists>e. entity_ok e \<and> e_id e = i \<and> d = entity_to_dict (env_iso env) e)"

definition uow_ok :: "uow_env \<Rightarrow> unit_state \<Rightarrow> bool" where
  "uow_ok env s \<longleftrightarrow> (\<forall>a. entity_ok (w_heap (snd s) a)) \<and> consistent s \<and>
     (\<forall>i t d. dict_get (u_identity_map (fst s)) i = Some t \<longrightarrow> t_original t = Some d \<longrightarrow> original_ok env i d) \<and>
     (\<forall>a \<in> set (u_new (fst s)). tracked_addr (fst s) (e_id (w_heap (snd s) a)) = Some a \<and>
        e_id (w_heap (snd s) a) \<notin> u_deleted (fst s)) \<and>
     distinct (map (\<lambda>a. e_id (w_heap (snd s) a)) (u_new (fst s))) \<and>
     finite (u_modified (fst s)) \<and> finite (u_deleted (fst s)) \<and>
     (\<forall>i \<in> u_modified (fst s) \<union> u_deleted (fst s). tracked_addr (fst s) i \<noteq> None) \<and>
     (\<forall>r i b. repo_get r i (snd s) = Some b \<longrightarrow> e_id (w_heap (snd s) b) = i)"

lemma uow_okD:
  assumes "uow_ok env s"
  shows "\<And>a. entity_ok (w_heap (snd s) a)" "consistent s"
    "\<And>i t d. dict_get (u_identity_map (fst s)) i = Some t \<Longrightarrow> t_original t = Some d \<Longrightarrow> original_ok env i d"
    "\<And>a. a \<in> set (u_new (fst s)) \<Longrightarrow> tracked_addr (fst s) (e_id (w_heap (snd s) a)) = Some a"
    "\<And>a. a \<in> set (u_new (fst s)) \<Longrightarrow> e_id (w_heap (snd s) a) \<notin> u_deleted (fst s)"
    "distinct (map (\<lambda>a. e_id (w_heap (snd s) a)) (u_new (fst s)))" "finite (u_modified (fst s))" "finite (u_deleted (fst s))"
    "\<And>i. i \<in> u_modified (fst s) \<union> u_deleted (fst s) \<Longrightarrow> tracked_addr (fst s) i \<noteq> None"
    "\<And>r i b. repo_get r i (snd s) = Some b \<Longrightarrow> e_id (w_heap (snd s) b) = i"
  using assms unfolding uow_ok_def by blast+

text \<open>A step that keeps the frame keeps the invariant, if what it writes is in order.\<close>

lemma uow_ok_frame:
  assumes "uow_ok env s" "same_frame s s'" "\<And>a. entity_ok (w_heap (snd s') a)"
    "\<And>i t d. dict_get (u_identity_map (fst s')) i = Some t \<Longrightarrow> t_original t = Some d \<Longrightarrow> original_ok env i d"
    "\<And>r i b. repo_get r i (snd s') = Some b \<Longrightarrow> repo_get r i (snd s) = Some b \<or> e_id (w_heap (snd s) b) = i"
  shows "uow_ok env s'"
proof -
  note D = uow_okD [OF assms(1)]
  show ?thesis
    unfolding uow_ok_def using assms(2-) D(4-) consistent_frame [OF D(2) assms(2)] by (fastforce simp: same_frame_def)
qed

lemma original_ok_dict: "entity_ok e \<Longrightarrow> e_id e = i \<Longrightarrow> original_ok env i (entity_to_dict (env_iso env) e)"
  by (auto simp: original_ok_def)

lemma entity_ok_set_attr: "entity_ok e \<Longrightarrow> entity_ok (set_attr kv e)"
  by (auto simp: entity_ok_def base_attrs_def set_attr_def dict_simps split: prod.splits pyval.splits)

lemma entity_ok_set_attrs: "entity_ok e \<Longrightarrow> entity_ok (fold set_attr d e)"
  by (induction d arbitrary: e) (simp_all add: entity_ok_set_attr)

lemma set_own_attrs:
  "list_all (\<lambda>k. k \<notin> set (dict_keys d)) base_attrs \<Longrightarrow>
     fold set_attr d e = e\<lparr>e_attrs := dict_update (e_attrs e) d\<rparr>"
  by (induction d arbitrary: e) (auto simp: base_attrs_def dict_keys_def set_attr_def)

text \<open>Putting the dictionary form of \<open>e\<^sub>0\<close> back into \<open>e\<close>.\<close>

lemma revert_entity:
  assumes "entity_ok e\<^sub>0"
  shows "fold set_attr (entity_to_dict iso_text e\<^sub>0) e =
    \<lparr>e_type = e_type e, e_id = e_id e\<^sub>0, e_created_at = serialized iso_text (e_created_at e\<^sub>0),
     e_updated_at = serialized iso_text (e_updated_at e\<^sub>0), e_version = e_version e\<^sub>0,
     e_attrs = dict_update (e_attrs e) (map (\<lambda>(k, v). (k, serialized iso_text v)) (e_attrs e\<^sub>0))\<rparr>"
proof -
  have "dict_keys (map (\<lambda>(k, v). (k, serialized iso_text v)) (e_attrs e\<^sub>0)) = dict_keys (e_attrs e\<^sub>0)"
    by (simp add: dict_keys_def split_beta comp_def)
  then have "list_all (\<lambda>k. k \<notin> set (dict_keys (map (\<lambda>(k, v). (k, serialized iso_text v)) (e_attrs e\<^sub>0)))) base_attrs"
    using assms by (simp add: entity_ok_def dict_has_keys)
  note own = set_own_attrs [OF this]
  show ?thesis by (simp add: entity_to_dict_def own) (simp add: set_attr_def)
qed

lemma repo_attrs: "e_attrs (w_heap (snd (repo_update now r a w)) b) = e_attrs (w_heap w b)"
  by (auto simp: repo_update_def set_store_def increment_version_def touch_def set_entity_def Let_def split: option.splits)

lemma repo_stores:
  "repo_get r' i (snd (repo_add r a w)) = Some b \<Longrightarrow> repo_get r' i w = Some b \<or> e_id (w_heap w b) = i"
  "repo_get r' i (snd (repo_update now r a w)) = Some b \<Longrightarrow> repo_get r' i w = Some b \<or> e_id (w_heap w b) = i"
  "repo_get r' i (snd (repo_delete r j w)) = Some b \<Longrightarrow> repo_get r' i w = Some b"
  by (auto simp: repo_get_def repo_add_def repo_update_def repo_delete_def set_store_def increment_version_def touch_def
      set_entity_def Let_def dict_simps split: option.splits if_splits)

lemma mark_clean_ok:
  assumes "uow_ok env (u, w)" "dict_get (u_identity_map u) i = Some t" "entity_ok (w_heap w' (t_entity t))"
    "e_id (w_heap w' (t_entity t)) = e_id (w_heap w (t_entity t))"
    "dict_get (u_identity_map (set_tracked i (mark_clean (env_iso env) w' t) u)) j = Some t'" "t_original t' = Some d"
  shows "original_ok env j d"
proof (cases "j = i")
  case True
  have "e_id (w_heap w (t_entity t)) = i"
    using uow_okD(2) [OF assms(1)] assms(2) by (simp add: consistent_def tracked_addr_def)
  then show ?thesis using True assms(3-)
    by (auto simp: set_tracked_def dict_simps mark_clean_def intro: original_ok_dict)
next
  case False
  then show ?thesis using assms(5,6) uow_okD(3) [OF assms(1)] by (simp add: set_tracked_def dict_simps)
qed

text \<open>The outcomes of a step that is in order: nothing tracked changes, or one entity is marked clean.\<close>

lemma uow_ok_world:
  assumes "uow_ok env (u, w)" "same_frame (u, w) (u, w')" "\<And>a. e_attrs (w_heap w' a) = e_attrs (w_heap w a)"
    "\<And>r i b. repo_get r i w' = Some b \<Longrightarrow> repo_get r i w = Some b \<or> e_id (w_heap w b) = i"
  shows "uow_ok env (u, w')"
  using uow_okD(1,3) [OF assms(1)] assms(3,4) by (intro uow_ok_frame [OF assms(1,2)]) (auto simp: entity_ok_def)

lemma uow_ok_clean:
  assumes "uow_ok env (u, w)" "dict_get (u_identity_map u) i = Some t" "uow_ok env (u, w')"
  shows "uow_ok env (set_tracked i (mark_clean (env_iso env) w' t) u, w')"
proof (rule uow_ok_frame [OF assms(3)])
  show "same_frame (u, w') (set_tracked i (mark_clean (env_iso env) w' t) u, w')"
    using assms(2) by (auto simp: set_tracked_frame tracked_set) (simp add: tracked_addr_def)
next
  fix j t' d
  assume "dict_get (u_identity_map (fst (set_tracked i (mark_clean (env_iso env) w' t) u, w'))) j = Some t'" "t_original t' = Some d"
  then show "original_ok env j d"
    using mark_clean_ok [OF assms(3) assms(2) uow_okD(1) [OF assms(3), simplified]] by simp
qed (use uow_okD(1) [OF assms(3)] in simp_all)

lemma commit_new_ok: "uow_ok env s \<Longrightarrow> uow_ok env (snd (commit_new env a s))"
proof (cases s)
  case (Pair u w)
  assume ok: "uow_ok env s"
  have w: "uow_ok env (u, w')" if "repo_add r a w = (q, w')" for r q w'
    using repo_frame(1) [of r a w] repo_stores(1) [of _ _ r a w] that
    by (intro uow_ok_world [OF ok [unfolded Pair]]) (auto simp: world_frame)
  show ?thesis using ok uow_ok_clean [OF ok [unfolded Pair]] w unfolding Pair commit_new_def
    by (auto simp: Let_def split: sum.splits prod.splits option.splits)
qed

lemma commit_modified_ok: "uow_ok env s \<Longrightarrow> uow_ok env (snd (commit_modified env i s))"
proof (cases s)
  case (Pair u w)
  assume ok: "uow_ok env s"
  have w: "uow_ok env (u, w')" if "repo_update (env_now env) r a w = (q, w')" for r a q w'
    using repo_frame(3,4) [of "env_now env" r a w] repo_attrs [of "env_now env" r a w] repo_stores(2) [of _ _ "env_now env" r a w] that
    by (intro uow_ok_world [OF ok [unfolded Pair]]) (auto simp: world_frame)
  show ?thesis using ok uow_ok_clean [OF ok [unfolded Pair]] w unfolding Pair commit_modified_def
    by (auto split: sum.splits prod.splits option.splits)
qed

lemma commit_deleted_ok: "uow_ok env s \<Longrightarrow> uow_ok env (snd (commit_deleted i s))"
proof (cases s)
  case (Pair u w)
  assume ok: "uow_ok env s"
  have w: "uow_ok env (u, w')" if "repo_delete r i w = (q, w')" for r q w'
    using repo_frame(2) [of r i w] repo_stores(3) [of _ _ r i w] that
    by (intro uow_ok_world [OF ok [unfolded Pair]]) (auto simp: world_frame)
  show ?thesis using ok w unfolding Pair commit_deleted_def
    by (auto split: sum.splits prod.splits option.splits)
qed

lemma run_each_ok: "(\<And>x s. P s \<Longrightarrow> P (snd (f x s))) \<Longrightarrow> P s \<Longrightarrow> P (snd (run_each f xs s))"
proof (induction xs arbitrary: s)
  case (Cons x xs)
  obtain q s1 where f: "f x s = (q, s1)" by (cases "f x s")
  then have "P s1" using Cons.prems(1) [OF Cons.prems(2), of x] by simp
  with f show ?case using Cons.IH [OF Cons.prems(1)] by (cases q) simp_all
qed simp

lemma commit_all_ok: "uow_ok env s \<Longrightarrow> uow_ok env (snd (commit_all env s))"
proof -
  assume ok: "uow_ok env s"
  obtain q1 s1 where r1: "run_each (commit_new env) (u_new (fst s)) s = (q1, s1)" by (rule prod.exhaust)
  obtain q2 s2 where r2: "run_each (commit_modified env) (env_order env (u_modified (fst s1))) s1 = (q2, s2)" by (rule prod.exhaust)
  have ok1: "uow_ok env s1"
    using run_each_ok [of "uow_ok env" "commit_new env", OF commit_new_ok ok, of "u_new (fst s)"] by (simp add: r1)
  have ok2: "uow_ok env s2"
    using run_each_ok [of "uow_ok env" "commit_modified env", OF commit_modified_ok ok1, of "env_order env (u_modified (fst s1))"]
    by (simp add: r2)
  have "uow_ok env (snd (run_each commit_deleted (env_order env (u_deleted (fst s2))) s2))"
    by (rule run_each_ok [of "uow_ok env" commit_deleted, OF commit_deleted_ok ok2])
  with ok1 ok2 show ?thesis by (cases q1; cases q2) (simp_all add: commit_all_def r1 r2)
qed

lemma uow_clear_ok: "uow_ok env (u, w) \<Longrightarrow> uow_ok env (uow_clear u, w)"
  by (auto simp: uow_ok_def uow_clear_def consistent_def tracked_addr_def)

lemma uow_committed_ok: "uow_ok env (u\<lparr>u_committed := c\<rparr>, w) = uow_ok env (u, w)"
  by (simp add: uow_ok_def consistent_def tracked_addr_def)

lemma uow_commit_ok:
  assumes "uow_ok env s"
  shows "uow_ok env (snd (uow_commit env s))"
proof -
  obtain q u w where r: "commit_all env s = (q, (u, w))" by (metis prod.exhaust)
  then have "uow_ok env (u, w)" using commit_all_ok [OF assms] by simp
  then show ?thesis using assms
    by (cases q) (simp_all add: uow_commit_def r uow_committed_ok uow_clear_ok)
qed

lemma same_frame_set_entity:
  "same_frame (u, w) (u, set_entity a e w) \<longleftrightarrow> e_id e = e_id (w_heap w a) \<and> e_type e = e_type (w_heap w a)"
  by (auto simp: world_frame set_entity_def)

lemma set_entity_ok:
  assumes "uow_ok env (u, w)" "entity_ok e" "e_id e = e_id (w_heap w a)" "e_type e = e_type (w_heap w a)"
  shows "uow_ok env (u, set_entity a e w)"
  using assms(2-) uow_okD(1,3) [OF assms(1)]
  by (intro uow_ok_frame [OF assms(1)]) (auto simp: same_frame_set_entity, auto simp: set_entity_def repo_get_def)

lemma revert_ok:
  assumes "uow_ok env s"
  shows "uow_ok env (revert i s) \<and> same_frame s (revert i s)"
proof (cases s)
  case (Pair u w)
  note ok = assms [unfolded Pair]
  show ?thesis
  proof (cases "\<exists>t d. dict_get (u_identity_map u) i = Some t \<and> t_original t = Some d \<and> d \<noteq> []")
    case False
    then show ?thesis using ok by (auto simp: Pair revert_def split: option.splits)
  next
    case True
    then obtain t d where t: "dict_get (u_identity_map u) i = Some t" "t_original t = Some d" "d \<noteq> []" by blast
    let ?e = "fold set_attr d (w_heap w (t_entity t))"
    obtain e0 where e0: "entity_ok e0" "e_id e0 = i" "d = entity_to_dict (env_iso env) e0"
      using uow_okD(3) [OF ok, of i t d] t by (auto simp: original_ok_def)
    have "e_id (w_heap w (t_entity t)) = i"
      using uow_okD(2) [OF ok] t(1) by (simp add: consistent_def tracked_addr_def)
    then have id: "e_id ?e = e_id (w_heap w (t_entity t))" "e_type ?e = e_type (w_heap w (t_entity t))"
      by (simp_all add: e0 revert_entity)
    have ok': "uow_ok env (u, set_entity (t_entity t) ?e w)"
      by (rule set_entity_ok [OF ok entity_ok_set_attrs id]) (use uow_okD(1) [OF ok] in simp)
    have fr: "same_frame (u, set_entity (t_entity t) ?e w) (set_tracked i (t\<lparr>t_state := CLEAN\<rparr>) u, set_entity (t_entity t) ?e w)"
      using t(1) by (auto simp: set_tracked_frame tracked_set) (simp add: tracked_addr_def)
    have "uow_ok env (set_tracked i (t\<lparr>t_state := CLEAN\<rparr>) u, set_entity (t_entity t) ?e w)"
    proof (rule uow_ok_frame [OF ok' fr])
      fix j t' d'
      assume "dict_get (u_identity_map (fst (set_tracked i (t\<lparr>t_state := CLEAN\<rparr>) u, set_entity (t_entity t) ?e w))) j = Some t'"
        "t_original t' = Some d'"
      then show "original_ok env j d'"
        using t(1) uow_okD(3) [OF ok] by (auto simp: set_tracked_def dict_simps split: if_splits)
    qed (use uow_okD(1) [OF ok'] in simp_all)
    moreover have "same_frame (u, w) (u, set_entity (t_entity t) ?e w)" using id by (simp add: same_frame_set_entity)
    note same_frame_trans [OF this fr]
    ultimately show ?thesis by (simp add: Pair revert_def t)
  qed
qed

lemma reverts_ok: "uow_ok env s \<Longrightarrow> uow_ok env (fold revert is s) \<and> same_frame s (fold revert is s)"
proof (induction "is" arbitrary: s)
  case (Cons i js)
  then show ?case using revert_ok [of env s i] same_frame_trans [of s "revert i s"] by simp
qed simp

lemma uow_rollback_ok: "uow_ok env s \<Longrightarrow> uow_ok env (uow_rollback env s)"
  using reverts_ok [of env s "env_order env (u_modified (fst s))"]
  by (auto simp: uow_rollback_def uow_clear_ok split: prod.splits)

section \<open>Every operation keeps the invariant\<close>

text \<open>What happens to a unit in the course of a business transaction: the methods of the unit, the caller
  assigning an attribute of an entity, and the caller using a repository directly.\<close>

datatype uow_op =
    Register_repository nat string
  | Attach nat
  | Detach nat
  | Register_new nat
  | Register_modified nat
  | Register_deleted nat
  | Commit
  | Rollback
  | Exit bool
  | Assign nat string pyval
  | Add nat nat
  | Update nat nat
  | Delete nat string
  | Clear nat

primrec uow_step :: "uow_env \<Rightarrow> uow_op \<Rightarrow> unit_state \<Rightarrow> unit_state" where
  "uow_step env (Register_repository r ty) s = (register_repository r ty (fst s), snd s)"
| "uow_step env (Attach a) s = (attach (env_iso env) (snd s) a (fst s), snd s)"
| "uow_step env (Detach a) s = (detach (snd s) a (fst s), snd s)"
| "uow_step env (Register_new a) s = (snd (register_new (snd s) a (fst s)), snd s)"
| "uow_step env (Register_modified a) s = (register_modified (env_iso env) (snd s) a (fst s), snd s)"
| "uow_step env (Register_deleted a) s = (register_deleted (snd s) a (fst s), snd s)"
| "uow_step env Commit s = snd (uow_commit env s)"
| "uow_step env Rollback s = uow_rollback env s"
| "uow_step env (Exit b) s = uow_exit env b s"
| "uow_step env (Assign a k v) s =
     (fst s, set_entity a (set_attr (k, v) (w_heap (snd s) a)) (snd s))"
| "uow_step env (Add r a) s = (fst s, snd (repo_add r a (snd s)))"
| "uow_step env (Update r a) s = (fst s, snd (repo_update (env_now env) r a (snd s)))"
| "uow_step env (Delete r i) s = (fst s, snd (repo_delete r i (snd s)))"
| "uow_step env (Clear r) s = (fst s, repo_clear r (snd s))"

text \<open>
  Nothing protects the identifier of an entity, and the unit and the repositories file entities
  under it. The operations that keep it, and keep the version a number.
\<close>

definition keeps_id :: "uow_op \<Rightarrow> bool" where
  "keeps_id x = (case x of
     Assign a k v \<Rightarrow> k \<noteq> ''id'' \<and> (k = ''version'' \<longrightarrow> (case v of VInt _ \<Rightarrow> True | _ \<Rightarrow> False)) | _ \<Rightarrow> True)"

lemma uow_okI:
  assumes "\<And>a. entity_ok (w_heap w a)" "consistent (u, w)"
    "\<And>i t d. dict_get (u_identity_map u) i = Some t \<Longrightarrow> t_original t = Some d \<Longrightarrow> original_ok env i d"
    "\<And>a. a \<in> set (u_new u) \<Longrightarrow> tracked_addr u (e_id (w_heap w a)) = Some a"
    "\<And>a. a \<in> set (u_new u) \<Longrightarrow> e_id (w_heap w a) \<notin> u_deleted u"
    "distinct (map (\<lambda>a. e_id (w_heap w a)) (u_new u))" "finite (u_modified u)" "finite (u_deleted u)"
    "\<And>i. i \<in> u_modified u \<union> u_deleted u \<Longrightarrow> tracked_addr u i \<noteq> None"
    "\<And>r i b. repo_get r i w = Some b \<Longrightarrow> e_id (w_heap w b) = i"
  shows "uow_ok env (u, w)"
  using assms unfolding uow_ok_def fst_conv snd_conv by blast

text \<open>Tracking one more entity, whose identifier is its own.\<close>

lemma set_tracked_ok:
  assumes "uow_ok env (u, w)" "i = e_id (w_heap w (t_entity t))" "\<And>d. t_original t = Some d \<Longrightarrow> original_ok env i d"
    "tracked_addr u i = None \<or> tracked_addr u i = Some (t_entity t)"
  shows "uow_ok env (set_tracked i t u, w)"
proof -
  note D = uow_okD [OF assms(1), unfolded fst_conv snd_conv]
  have sets: "u_new (set_tracked i t u) = u_new u" "u_modified (set_tracked i t u) = u_modified u"
    "u_deleted (set_tracked i t u) = u_deleted u" by (simp_all add: set_tracked_def)
  show ?thesis
  proof (rule uow_okI, unfold sets)
    show "consistent (set_tracked i t u, w)" using D(2) assms(2) by (auto simp: consistent_def tracked_set)
  next
    fix j t' d
    assume "dict_get (u_identity_map (set_tracked i t u)) j = Some t'" "t_original t' = Some d"
    then show "original_ok env j d"
      using assms(3) D(3) [of j t' d] by (simp add: set_tracked_def dict_simps split: if_splits)
  next
    fix a
    assume "a \<in> set (u_new u)"
    from D(4) [OF this] show "tracked_addr (set_tracked i t u) (e_id (w_heap w a)) = Some a"
      using assms(4) by (auto simp: tracked_set)
  next
    fix j
    assume "j \<in> u_modified u \<union> u_deleted u"
    from D(9) [OF this] show "tracked_addr (set_tracked i t u) j \<noteq> None" by (simp add: tracked_set)
  qed (use D(1,5-8,10) in blast)+
qed

lemma attach_ok: "uow_ok env (u, w) \<Longrightarrow> uow_ok env (attach (env_iso env) w a u, w)"
  unfolding attach_def Let_def
  by (auto intro!: set_tracked_ok original_ok_dict uow_okD(1) [of env "(u, w)" a, simplified]
      simp: dict_has_def tracked_addr_def)

text \<open>Changing what is pending.\<close>

lemma pending_ok:
  assumes "uow_ok env (u, w)"
    "\<And>a. a \<in> set N \<Longrightarrow> tracked_addr u (e_id (w_heap w a)) = Some a" "\<And>a. a \<in> set N \<Longrightarrow> e_id (w_heap w a) \<notin> D"
    "distinct (map (\<lambda>a. e_id (w_heap w a)) N)" "finite M" "finite D" "\<And>i. i \<in> M \<union> D \<Longrightarrow> tracked_addr u i \<noteq> None"
  shows "uow_ok env (u\<lparr>u_new := N, u_modified := M, u_deleted := D\<rparr>, w)"
proof -
  note I = uow_okD [OF assms(1), unfolded fst_conv snd_conv]
  have tr: "tracked_addr (u\<lparr>u_new := N, u_modified := M, u_deleted := D\<rparr>) = tracked_addr u"
    by (simp add: fun_eq_iff tracked_addr_def)
  have "consistent (u\<lparr>u_new := N, u_modified := M, u_deleted := D\<rparr>, w)" using I(2) by (simp add: consistent_def tr)
  then show ?thesis using I(1,3,10) assms(2-) by (intro uow_okI) (auto simp: tr)
qed

lemma detach_ok:
  assumes "uow_ok env (u, w)"
  shows "uow_ok env (detach w a u, w)"
proof -
  let ?i = "e_id (w_heap w a)"
  note D = uow_okD [OF assms, unfolded fst_conv snd_conv]
  have tr: "tracked_addr (detach w a u) j = (if j = ?i then None else tracked_addr u j)" for j
    by (simp add: tracked_addr_def detach_def Let_def dict_simps)
  have fields: "u_new (detach w a u) = filter (\<lambda>b. e_id (w_heap w b) \<noteq> ?i) (u_new u)" "u_modified (detach w a u) = u_modified u - {?i}"
    "u_deleted (detach w a u) = u_deleted u - {?i}" by (simp_all add: detach_def Let_def)
  show ?thesis
  proof (rule uow_okI, unfold fields tr)
    show "consistent (detach w a u, w)" using D(2) by (simp add: consistent_def tr)
    show "distinct (map (\<lambda>a. e_id (w_heap w a)) (filter (\<lambda>b. e_id (w_heap w b) \<noteq> ?i) (u_new u)))"
      using D(6) by (rule distinct_map_filter)
  next
    fix j t d
    assume "dict_get (u_identity_map (detach w a u)) j = Some t" "t_original t = Some d"
    then show "original_ok env j d" using D(3) [of j t d] by (simp add: detach_def Let_def dict_simps split: if_splits)
  qed (use D(1,4,5,7-10) in auto)
qed

lemma register_new_ok:
  assumes "uow_ok env (u, w)"
  shows "uow_ok env (snd (register_new w a u), w)"
proof (cases "dict_has (u_identity_map u) (e_id (w_heap w a))")
  case False
  let ?i = "e_id (w_heap w a)" and ?t = "\<lparr>t_entity = a, t_state = NEW, t_original = None\<rparr>"
  note D = uow_okD [OF assms, unfolded fst_conv snd_conv]
  have none: "tracked_addr u ?i = None" using False by (simp add: tracked_addr_def dict_has_def)
  have ok: "uow_ok env (set_tracked ?i ?t u, w)" by (rule set_tracked_ok [OF assms]) (simp_all add: none)
  have fresh: "?i \<noteq> e_id (w_heap w b)" "?i \<notin> u_deleted u" if "b \<in> set (u_new u)" for b
    using none D(4) [OF that] D(9) [of ?i] by auto
  have fresh': "?i \<notin> u_deleted u" using none D(9) [of ?i] by auto
  have "uow_ok env ((set_tracked ?i ?t u)\<lparr>u_new := u_new u @ [a], u_modified := u_modified u, u_deleted := u_deleted u\<rparr>, w)"
  proof (rule pending_ok [OF ok])
    fix b
    assume "b \<in> set (u_new u @ [a])"
    then show "tracked_addr (set_tracked ?i ?t u) (e_id (w_heap w b)) = Some b" "e_id (w_heap w b) \<notin> u_deleted u"
      using fresh(1) [of b] fresh' D(4,5) [of b] by (auto simp: tracked_set)
  next
    show "distinct (map (\<lambda>a. e_id (w_heap w a)) (u_new u @ [a]))" using D(6) fresh(1) by auto
  next
    fix j
    assume "j \<in> u_modified u \<union> u_deleted u"
    from D(9) [OF this] show "tracked_addr (set_tracked ?i ?t u) j \<noteq> None" by (simp add: tracked_set)
  qed (use D(7,8) in auto)
  moreover have "snd (register_new w a u) =
      (set_tracked ?i ?t u)\<lparr>u_new := u_new u @ [a], u_modified := u_modified u, u_deleted := u_deleted u\<rparr>"
    using False by (simp add: register_new_def Let_def set_tracked_def)
  ultimately show ?thesis by simp
qed (use assms in \<open>simp add: register_new_def Let_def\<close>)

lemma register_modified_ok:
  assumes "uow_ok env (u, w)"
  shows "uow_ok env (register_modified (env_iso env) w a u, w)"
proof -
  let ?i = "e_id (w_heap w a)" and ?u = "attach (env_iso env) w a u"
  have ok: "uow_ok env (?u, w)" using assms by (rule attach_ok)
  note D = uow_okD [OF ok, unfolded fst_conv snd_conv]
  show ?thesis
  proof (cases "dict_get (u_identity_map ?u) ?i")
    case (Some t)
    have tr: "tracked_addr ?u ?i = Some (t_entity t)" using Some by (simp add: tracked_addr_def)
    let ?v = "set_tracked ?i (mark_modified t) ?u"
    have same: "t_entity (mark_modified t) = t_entity t" "t_original (mark_modified t) = t_original t"
      by (simp_all add: mark_modified_def)
    have ok': "uow_ok env (?v, w)"
      using consistent_id [OF D(2) Some] D(3) [OF Some] by (intro set_tracked_ok [OF ok]) (simp_all add: same tr)
    note D' = uow_okD [OF ok', unfolded fst_conv snd_conv]
    have tri: "tracked_addr ?v ?i \<noteq> None" by (simp add: tracked_set)
    have fields: "u_new ?v = u_new ?u" "u_modified ?v = u_modified ?u" "u_deleted ?v = u_deleted ?u"
      by (simp_all add: set_tracked_def)
    have "uow_ok env (?v\<lparr>u_new := u_new ?v, u_modified := insert ?i (u_modified ?v), u_deleted := u_deleted ?v\<rparr>, w)"
      using D'(4-9) tri by (intro pending_ok [OF ok']) auto
    moreover have "register_modified (env_iso env) w a u =
        ?v\<lparr>u_new := u_new ?v, u_modified := insert ?i (u_modified ?v), u_deleted := u_deleted ?v\<rparr>"
      by (simp add: register_modified_def Let_def Some fields)
    ultimately show ?thesis by simp
  qed (use ok in \<open>simp add: register_modified_def Let_def\<close>)
qed

lemma register_deleted_ok:
  assumes "uow_ok env (u, w)"
  shows "uow_ok env (register_deleted w a u, w)"
proof -
  let ?i = "e_id (w_heap w a)"
  let ?t = "case dict_get (u_identity_map u) ?i of
      Some t \<Rightarrow> mark_deleted t | None \<Rightarrow> \<lparr>t_entity = a, t_state = DELETED, t_original = None\<rparr>"
  let ?v = "set_tracked ?i ?t u" and ?N = "filter (\<lambda>b. e_id (w_heap w b) \<noteq> ?i) (u_new u)"
  note D = uow_okD [OF assms, unfolded fst_conv snd_conv]
  have ok: "uow_ok env (?v, w)"
    using consistent_id [OF D(2), of ?i] D(3) [of ?i] by (intro set_tracked_ok [OF assms])
      (auto simp: tracked_addr_def mark_deleted_def split: option.splits)
  note D' = uow_okD [OF ok, unfolded fst_conv snd_conv]
  have fields: "u_new ?v = u_new u" "u_modified ?v = u_modified u" "u_deleted ?v = u_deleted u"
    by (simp_all add: set_tracked_def)
  have "uow_ok env (?v\<lparr>u_new := ?N, u_modified := u_modified u - {?i}, u_deleted := insert ?i (u_deleted u)\<rparr>, w)"
  proof (rule pending_ok [OF ok])
    show "distinct (map (\<lambda>a. e_id (w_heap w a)) ?N)" using D(6) by (rule distinct_map_filter)
  next
    fix j
    assume "j \<in> u_modified u - {?i} \<union> insert ?i (u_deleted u)"
    then show "tracked_addr ?v j \<noteq> None" using D'(9) [of j] by (auto simp: fields tracked_set)
  next
    fix b
    assume "b \<in> set ?N"
    then show "tracked_addr ?v (e_id (w_heap w b)) = Some b" "e_id (w_heap w b) \<notin> insert ?i (u_deleted u)"
      using D'(4,5) [of b] by (auto simp: fields)
  qed (use D(7,8) in auto)
  then show ?thesis by (simp add: register_deleted_def Let_def)
qed

lemma uow_exit_ok: "uow_ok env s \<Longrightarrow> uow_ok env (uow_exit env b s)"
  by (simp add: uow_exit_def uow_rollback_ok)

lemma repo_ops_ok:
  assumes "uow_ok env (u, w)"
  shows "uow_ok env (u, snd (repo_add r a w))" "uow_ok env (u, snd (repo_update now r a w))"
    "uow_ok env (u, snd (repo_delete r i w))" "uow_ok env (u, repo_clear r w)"
proof -
  show "uow_ok env (u, snd (repo_add r a w))"
    by (rule uow_ok_world [OF assms]) (auto simp: world_frame repo_frame dest: repo_stores)
  show "uow_ok env (u, snd (repo_update now r a w))"
    by (rule uow_ok_world [OF assms]) (auto simp: world_frame repo_frame repo_attrs dest: repo_stores)
  show "uow_ok env (u, snd (repo_delete r i w))"
    by (rule uow_ok_world [OF assms]) (auto simp: world_frame repo_frame dest: repo_stores)
  show "uow_ok env (u, repo_clear r w)"
    by (rule uow_ok_world [OF assms]) (auto simp: world_frame repo_clear_def set_store_def repo_get_def split: if_splits)
qed

lemma assign_ok:
  assumes "uow_ok env (u, w)" "k \<noteq> ''id''"
  shows "uow_ok env (u, set_entity a (set_attr (k, v) (w_heap w a)) w)"
  using assms(2) uow_okD(1) [OF assms(1), of a]
  by (intro set_entity_ok [OF assms(1)] entity_ok_set_attr) (simp_all add: set_attr_def split: pyval.splits)

lemma register_repository_ok: "uow_ok env (u, w) \<Longrightarrow> uow_ok env (register_repository r ty u, w)"
  by (simp add: register_repository_def uow_ok_def consistent_def tracked_addr_def)

lemma uow_step_ok: "uow_ok env s \<Longrightarrow> keeps_id x \<Longrightarrow> uow_ok env (uow_step env x s)"
  by (cases s, cases x)
    (simp_all add: keeps_id_def register_repository_ok attach_ok detach_ok register_new_ok register_modified_ok register_deleted_ok uow_commit_ok
    uow_rollback_ok uow_exit_ok assign_ok repo_ops_ok)

interpretation uow_run: guarded_machine "uow_step env" "uow_ok env" keeps_id for env
  by unfold_locales (rule uow_step_ok)

end
