(* ===== verification/Unit_Properties.thy ===== *)
theory Unit_Properties
  imports Unit_Invariant
begin

text \<open>
  When a commit succeeds and what it has done then, what a rollback restores, and where the code falls short of its
  documentation.
\<close>

section \<open>When a commit succeeds\<close>

text \<open>A loop runs through if each of its steps can, and they do not get in each other's way.\<close>

lemma run_each_runs:
  assumes "\<And>x s. x \<in> A \<Longrightarrow> I s \<Longrightarrow> (\<exists>s'. f x s = (Inr (), s')) \<longleftrightarrow> can x s"
    and "\<And>x s s' y. x \<in> A \<Longrightarrow> I s \<Longrightarrow> f x s = (Inr (), s') \<Longrightarrow> I s' \<and> (y \<in> A \<longrightarrow> y \<noteq> x \<longrightarrow> can y s' = can y s)"
  shows "I s \<Longrightarrow> set xs \<subseteq> A \<Longrightarrow> distinct xs \<Longrightarrow> (\<exists>s'. run_each f xs s = (Inr (), s')) \<longleftrightarrow> (\<forall>x \<in> set xs. can x s)"
proof (induction xs arbitrary: s)
  case (Cons x xs)
  show ?case
  proof (cases "can x s")
    case True
    then obtain s1 where s1: "f x s = (Inr (), s1)" using Cons.prems assms(1) [of x s] by auto
    have "I s1" "\<forall>y \<in> set xs. can y s1 = can y s" using assms(2) [OF _ Cons.prems(1) s1] Cons.prems(2,3) by auto
    with Cons.IH [of s1] Cons.prems(2,3) True s1 show ?thesis by simp
  next
    case False
    then show ?thesis using Cons.prems(1,2) assms(1) [of x s] unfolding run_each_Inr by auto
  qed
qed simp

definition can_add :: "nat \<Rightarrow> unit_state \<Rightarrow> bool" where
  "can_add a s \<longleftrightarrow> (\<exists>r. home s (e_id (w_heap (snd s) a)) = Some r \<and> repo_get r (e_id (w_heap (snd s) a)) (snd s) = None)"

definition can_update :: "uow_env \<Rightarrow> string \<Rightarrow> unit_state \<Rightarrow> bool" where
  "can_update env i s \<longleftrightarrow> dirty env s i \<longrightarrow>
     (\<exists>r a b. tracked_addr (fst s) i = Some a \<and> home s i = Some r \<and> repo_get r i (snd s) = Some b \<and>
        e_version (w_heap (snd s) b) = e_version (w_heap (snd s) a))"

definition can_delete :: "string \<Rightarrow> unit_state \<Rightarrow> bool" where
  "can_delete i s \<longleftrightarrow> tracked_addr (fst s) i \<noteq> None \<longrightarrow> (\<exists>r. home s i = Some r \<and> repo_get r i (snd s) \<noteq> None)"

lemma repository_home: "tracked_addr u i = Some a \<Longrightarrow> home (u, w) i = Some r \<longleftrightarrow> get_repository u (w_heap w a) = Inr r"
  by (auto simp: home_def get_repository_def split: option.splits)

lemma commit_new_runs:
  assumes "tracked_addr (fst s) (e_id (w_heap (snd s) a)) = Some a"
  shows "(\<exists>s'. commit_new env a s = (Inr (), s')) \<longleftrightarrow> can_add a s"
proof (cases s)
  case (Pair u w)
  have tr: "tracked_addr u (e_id (w_heap w a)) = Some a" using assms by (simp add: Pair)
  then obtain t where "dict_get (u_identity_map u) (e_id (w_heap w a)) = Some t" by (auto simp: tracked_addr_def)
  then show ?thesis
    by (auto simp: Pair can_add_def repository_home [OF tr] commit_new_def Let_def repo_add_def repo_get_def dict_has_def
        split: sum.splits)
qed

lemma commit_modified_runs:
  assumes "consistent s"
  shows "(\<exists>s'. commit_modified env i s = (Inr (), s')) \<longleftrightarrow> can_update env i s"
proof (cases s)
  case (Pair u w)
  show ?thesis
  proof (cases "dict_get (u_identity_map u) i")
    case (Some t)
    have tr: "tracked_addr u i = Some (t_entity t)" using Some by (simp add: tracked_addr_def)
    have id: "e_id (w_heap w (t_entity t)) = i" using consistent_id assms Some by (simp add: Pair)
    show ?thesis
      by (auto simp: Pair can_update_def dirty_def Some tr repository_home [OF tr] commit_modified_def repo_update_def repo_get_def
          Let_def id split: sum.splits option.splits if_splits)
  qed (simp add: Pair can_update_def dirty_def commit_modified_def)
qed

lemma commit_deleted_runs: "(\<exists>s'. commit_deleted i s = (Inr (), s')) \<longleftrightarrow> can_delete i s"
proof (cases s)
  case (Pair u w)
  show ?thesis
  proof (cases "dict_get (u_identity_map u) i")
    case (Some t)
    have tr: "tracked_addr u i = Some (t_entity t)" using Some by (simp add: tracked_addr_def)
    show ?thesis
      by (auto simp: Pair can_delete_def Some tr repository_home [OF tr] commit_deleted_def repo_delete_def repo_get_def
          dict_has_def split: sum.splits if_splits)
  qed (simp add: Pair can_delete_def tracked_addr_def commit_deleted_def)
qed

lemma commit_news_run:
  assumes "uow_ok env s"
  shows "(\<exists>s'. run_each (commit_new env) (u_new (fst s)) s = (Inr (), s')) \<longleftrightarrow> (\<forall>a \<in> set (u_new (fst s)). can_add a s)"
proof (rule run_each_runs [where A = "set (u_new (fst s))" and
      I = "\<lambda>s'. \<forall>a \<in> set (u_new (fst s)). tracked_addr (fst s') (e_id (w_heap (snd s') a)) = Some a"])
  fix x s1 s2 y
  assume x: "x \<in> set (u_new (fst s))"
    and tr: "\<forall>a \<in> set (u_new (fst s)). tracked_addr (fst s1) (e_id (w_heap (snd s1) a)) = Some a"
    and run: "commit_new env x s1 = (Inr (), s2)"
  have fr: "same_frame s1 s2" using commit_new_frame [of s1 env x] run by simp
  have "can_add y s2 = can_add y s1" if "y \<in> set (u_new (fst s))" "y \<noteq> x"
  proof -
    have "e_id (w_heap (snd s1) y) \<noteq> e_id (w_heap (snd s1) x)" using tr x that by (metis option.inject)
    then show ?thesis
      using commit_new_effect [OF run] tr x by (simp add: can_add_def same_frame_home [OF fr])
  qed
  then show "(\<forall>a \<in> set (u_new (fst s)). tracked_addr (fst s2) (e_id (w_heap (snd s2) a)) = Some a) \<and>
      (y \<in> set (u_new (fst s)) \<longrightarrow> y \<noteq> x \<longrightarrow> can_add y s2 = can_add y s1)"
    using tr fr by (simp add: same_frame_def)
qed (use uow_okD(4,6) [OF assms] commit_new_runs in \<open>auto simp: distinct_map\<close>)

lemma commit_modifieds_run:
  assumes "uow_ok env s" "distinct is"
  shows "(\<exists>s'. run_each (commit_modified env) is s = (Inr (), s')) \<longleftrightarrow> (\<forall>i \<in> set is. can_update env i s)"
proof (rule run_each_runs [where A = UNIV and I = "uow_ok env"])
  fix x s1 s2 y
  assume ok: "uow_ok env s1" and run: "commit_modified env x s1 = (Inr (), s2)"
  note D = uow_okD [OF ok]
  have fr: "same_frame s1 s2" using commit_modified_frame [of s1 env x] run by simp
  note E = commit_modified_effect [OF run D(2)]
  have "can_update env y s2 = can_update env y s1" if "y \<noteq> x"
  proof -
    have version: "e_version (w_heap (snd s2) b) = e_version (w_heap (snd s1) b)" if "e_id (w_heap (snd s1) b) = y" for b
      using E that \<open>y \<noteq> x\<close> D(2) by (auto simp: consistent_def)
    have "e_id (w_heap (snd s1) b) = y" if "repo_get r y (snd s1) = Some b \<or> tracked_addr (fst s1) y = Some b" for r b
      using that D(2,10) by (auto simp: consistent_def)
    note va = version [OF this]
    have rg: "repo_get r y (snd s2) = repo_get r y (snd s1)" for r using E that by simp
    have d: "dirty env s2 y = dirty env s1 y" using E that by simp
    have tr: "tracked_addr (fst s2) y = tracked_addr (fst s1) y" using fr by (simp add: same_frame_def)
    show ?thesis by (simp add: can_update_def rg d tr same_frame_home [OF fr] cong: conj_cong) (metis va)
  qed
  then show "uow_ok env s2 \<and> (y \<in> UNIV \<longrightarrow> y \<noteq> x \<longrightarrow> can_update env y s2 = can_update env y s1)"
    using commit_modified_ok [OF ok, of x] run by simp
qed (use assms commit_modified_runs uow_okD(2) in auto)

lemma commit_deleteds_run:
  assumes "distinct is"
  shows "(\<exists>s'. run_each commit_deleted is s = (Inr (), s')) \<longleftrightarrow> (\<forall>i \<in> set is. can_delete i s)"
proof (rule run_each_runs [where A = UNIV and I = "\<lambda>_. True"])
  fix x y :: string and s1 s2
  assume run: "commit_deleted x s1 = (Inr (), s2)"
  have "same_frame s1 s2" using commit_deleted_frame [of s1 x] run by simp
  then show "True \<and> (y \<in> UNIV \<longrightarrow> y \<noteq> x \<longrightarrow> can_delete y s2 = can_delete y s1)"
    using commit_deleted_effect [OF run] by (simp add: can_delete_def same_frame_home) (simp add: same_frame_def)
qed (use assms commit_deleted_runs in auto)

section \<open>What a commit promises\<close>

definition iterates :: "uow_env \<Rightarrow> string set \<Rightarrow> bool" where
  "iterates env S \<longleftrightarrow> set (env_order env S) = S \<and> distinct (env_order env S)"

text \<open>The identifiers a commit inserts and the ones it updates: an entity registered as new and as
  modified is only inserted.\<close>

definition new_ids :: "unit_state \<Rightarrow> string set" where
  "new_ids s = (\<lambda>a. e_id (w_heap (snd s) a)) ` set (u_new (fst s))"

definition updated_ids :: "uow_env \<Rightarrow> unit_state \<Rightarrow> string set" where
  "updated_ids env s = {i \<in> u_modified (fst s). i \<notin> new_ids s \<and> dirty env s i}"

text \<open>Every pending change has a repository that can take it.\<close>

definition ready :: "uow_env \<Rightarrow> unit_state \<Rightarrow> bool" where
  "ready env s \<longleftrightarrow> \<not> u_committed (fst s) \<and>
     (\<forall>i \<in> new_ids s. \<exists>r. home s i = Some r \<and> repo_get r i (snd s) = None) \<and>
     (\<forall>i \<in> updated_ids env s. \<exists>r a b. tracked_addr (fst s) i = Some a \<and> home s i = Some r \<and>
        repo_get r i (snd s) = Some b \<and> e_version (w_heap (snd s) b) = e_version (w_heap (snd s) a)) \<and>
     (\<forall>i \<in> u_deleted (fst s). \<exists>r. home s i = Some r \<and> repo_get r i (snd s) \<noteq> None)"

text \<open>What the repositories have after a commit, and the versions.\<close>

definition committed :: "uow_env \<Rightarrow> unit_state \<Rightarrow> unit_state \<Rightarrow> bool" where
  "committed env s s' \<longleftrightarrow>
     (\<forall>r i. repo_get r i (snd s') =
        (if i \<in> u_deleted (fst s) \<and> home s i = Some r then None
         else if i \<in> new_ids s \<union> updated_ids env s \<and> home s i = Some r then tracked_addr (fst s) i
         else repo_get r i (snd s))) \<and>
     (\<forall>a. e_version (w_heap (snd s') a) = e_version (w_heap (snd s) a) +
        (if \<exists>i \<in> updated_ids env s. tracked_addr (fst s) i = Some a then 1 else 0)) \<and>
     u_committed (fst s') \<and> uow_pending_count (fst s') = 0"

text \<open>The first two loops of a commit, from a unit in order.\<close>

lemma commit_loops:
  assumes ok: "uow_ok env s" and order: "iterates env (u_modified (fst s))"
    and r1: "run_each (commit_new env) (u_new (fst s)) s = (Inr (), s1)"
    and r2: "run_each (commit_modified env) (env_order env (u_modified (fst s1))) s1 = (Inr (), s2)"
  shows "same_frame s s1" "same_frame s s2" "uow_ok env s1"
    "repo_get r i (snd s1) = (if i \<in> new_ids s \<and> home s i = Some r then tracked_addr (fst s) i else repo_get r i (snd s))"
    "repo_get r i (snd s2) = (if i \<in> new_ids s \<union> updated_ids env s \<and> home s i = Some r then tracked_addr (fst s) i
       else repo_get r i (snd s))"
    "e_version (w_heap (snd s2) a) = e_version (w_heap (snd s) a) +
       (if \<exists>i \<in> updated_ids env s. tracked_addr (fst s) i = Some a then 1 else 0)"
proof -
  note D = uow_okD [OF ok]
  show f1: "same_frame s s1" using run_each_frame [of "commit_new env", OF commit_new_frame, of s "u_new (fst s)"] r1 by simp
  have f2: "same_frame s1 s2"
    using run_each_frame [of "commit_modified env", OF commit_modified_frame, of s1 "env_order env (u_modified (fst s1))"] r2 by simp
  show "same_frame s s2" by (rule same_frame_trans [OF f1 f2])
  show "uow_ok env s1" using run_each_ok [of "uow_ok env" "commit_new env", OF commit_new_ok ok, of "u_new (fst s)"] r1 by simp
  have fields: "u_modified (fst s1) = u_modified (fst s)" "\<And>i. tracked_addr (fst s1) i = tracked_addr (fst s) i"
    using f1 by (simp_all add: same_frame_def)
  have h1: "home s1 j = home s j" for j by (rule same_frame_home [OF f1])
  note E1 = commit_news [OF r1 D(6), folded new_ids_def]
  show e1: "repo_get r i (snd s1) = (if i \<in> new_ids s \<and> home s i = Some r then tracked_addr (fst s) i else repo_get r i (snd s))"
    for r i using E1 D(4) by simp
  have heap1: "w_heap (snd s1) = w_heap (snd s)" using E1 D(4) by blast
  have upd: "j \<in> u_modified (fst s) \<and> dirty env s1 j \<longleftrightarrow> j \<in> updated_ids env s" for j
    using E1 D(4) by (auto simp: updated_ids_def)
  have upd_ex: "(\<exists>i \<in> u_modified (fst s). tracked_addr (fst s) i = Some b \<and> dirty env s1 i) \<longleftrightarrow>
      (\<exists>i \<in> updated_ids env s. tracked_addr (fst s) i = Some b)" for b using upd by blast
  have o2: "set (env_order env (u_modified (fst s))) = u_modified (fst s)" "distinct (env_order env (u_modified (fst s)))"
    using order by (simp_all add: iterates_def)
  note E2 = commit_modifieds [OF r2 [unfolded fields(1)] o2(2) consistent_frame [OF D(2) f1], unfolded o2 fields h1]
  have "repo_get r i (snd s2) = (if i \<in> updated_ids env s \<and> home s i = Some r then tracked_addr (fst s) i else repo_get r i (snd s1))"
    using E2 upd [of i] by (metis (no_types, lifting))
  then show "repo_get r i (snd s2) = (if i \<in> new_ids s \<union> updated_ids env s \<and> home s i = Some r then tracked_addr (fst s) i
       else repo_get r i (snd s))" using e1 by auto
  show "e_version (w_heap (snd s2) a) = e_version (w_heap (snd s) a) +
       (if \<exists>i \<in> updated_ids env s. tracked_addr (fst s) i = Some a then 1 else 0)"
    using E2 by (simp add: upd_ex heap1)
qed

lemma commit_all_Inr: "commit_all env s = (Inr (), s') \<longleftrightarrow>
    (\<exists>s1 s2. run_each (commit_new env) (u_new (fst s)) s = (Inr (), s1) \<and>
       run_each (commit_modified env) (env_order env (u_modified (fst s1))) s1 = (Inr (), s2) \<and>
       run_each commit_deleted (env_order env (u_deleted (fst s2))) s2 = (Inr (), s'))"
  by (auto simp: commit_all_def split: prod.splits sum.splits)

lemma three_runs:
  assumes "(\<exists>x. A x) = P" "\<And>x. A x \<Longrightarrow> (\<exists>y. B x y) = Q" "\<And>x y. A x \<Longrightarrow> B x y \<Longrightarrow> (\<exists>z. C y z) = R"
  shows "(\<exists>z x y. A x \<and> B x y \<and> C y z) \<longleftrightarrow> P \<and> Q \<and> R"
  using assms by metis

lemma commit_all_ready:
  assumes ok: "uow_ok env s" and order: "iterates env (u_modified (fst s))" "iterates env (u_deleted (fst s))"
    and "\<not> u_committed (fst s)"
  shows "(\<exists>s'. commit_all env s = (Inr (), s')) \<longleftrightarrow> ready env s"
proof -
  note D = uow_okD [OF ok]
  let ?r1 = "\<lambda>s1. run_each (commit_new env) (u_new (fst s)) s = (Inr (), s1)"
  let ?r2 = "\<lambda>s1 s2. run_each (commit_modified env) (env_order env (u_modified (fst s1))) s1 = (Inr (), s2)"
  let ?r3 = "\<lambda>s2 s3. run_each commit_deleted (env_order env (u_deleted (fst s2))) s2 = (Inr (), s3)"
  let ?c2 = "\<lambda>i. \<exists>r a b. tracked_addr (fst s) i = Some a \<and> home s i = Some r \<and> repo_get r i (snd s) = Some b \<and>
      e_version (w_heap (snd s) b) = e_version (w_heap (snd s) a)"
  have c1: "(\<exists>s1. ?r1 s1) \<longleftrightarrow> (\<forall>i \<in> new_ids s. \<exists>r. home s i = Some r \<and> repo_get r i (snd s) = None)"
    unfolding commit_news_run [OF ok] by (simp add: can_add_def new_ids_def)
  have c2: "(\<exists>s2. ?r2 s1 s2) \<longleftrightarrow> (\<forall>i \<in> updated_ids env s. ?c2 i)" if "?r1 s1" for s1
  proof -
    have fr: "same_frame s s1" using run_each_frame [of "commit_new env", OF commit_new_frame, of s "u_new (fst s)"] that by simp
    have ok1: "uow_ok env s1"
      using run_each_ok [of "uow_ok env" "commit_new env", OF commit_new_ok ok, of "u_new (fst s)"] that by simp
    have m: "u_modified (fst s1) = u_modified (fst s)" "\<And>i. tracked_addr (fst s1) i = tracked_addr (fst s) i"
      using fr by (simp_all add: same_frame_def)
    note E = commit_news [OF that D(6), folded new_ids_def]
    have "can_update env i s1 \<longleftrightarrow> (i \<in> updated_ids env s \<longrightarrow> ?c2 i)" if "i \<in> u_modified (fst s)" for i
      using E D(4) that by (simp add: can_update_def updated_ids_def m same_frame_home [OF fr] cong: conj_cong)
    then show ?thesis using commit_modifieds_run [OF ok1, of "env_order env (u_modified (fst s))"] order(1)
      unfolding m(1) iterates_def by (auto simp: updated_ids_def)
  qed
  have c3: "(\<exists>s3. ?r3 s2 s3) \<longleftrightarrow> (\<forall>i \<in> u_deleted (fst s). \<exists>r. home s i = Some r \<and> repo_get r i (snd s) \<noteq> None)"
    if "?r1 s1" "?r2 s1 s2" for s1 s2
  proof -
    note L = commit_loops [OF ok order(1) that]
    have d: "u_deleted (fst s2) = u_deleted (fst s)" "\<And>i. tracked_addr (fst s2) i = tracked_addr (fst s) i"
      using L(2) by (simp_all add: same_frame_def)
    have "can_delete i s2 \<longleftrightarrow> (\<exists>r. home s i = Some r \<and> repo_get r i (snd s) \<noteq> None)" if i: "i \<in> u_deleted (fst s)" for i
    proof -
      have "i \<notin> new_ids s" using D(5) i by (auto simp: new_ids_def)
      moreover have "?c2 i" if "i \<in> updated_ids env s" using that c2 [OF \<open>?r1 s1\<close>] \<open>?r2 s1 s2\<close> by blast
      moreover have "tracked_addr (fst s) i \<noteq> None" using D(9) i by blast
      ultimately show ?thesis by (auto simp: can_delete_def d L(5) same_frame_home [OF L(2)])
    qed
    then show ?thesis using commit_deleteds_run [of "env_order env (u_deleted (fst s))" s2] order(2)
      unfolding d(1) iterates_def by simp
  qed
  have "(\<exists>s3 s1 s2. ?r1 s1 \<and> ?r2 s1 s2 \<and> ?r3 s2 s3) \<longleftrightarrow>
      (\<forall>i \<in> new_ids s. \<exists>r. home s i = Some r \<and> repo_get r i (snd s) = None) \<and> (\<forall>i \<in> updated_ids env s. ?c2 i) \<and>
      (\<forall>i \<in> u_deleted (fst s). \<exists>r. home s i = Some r \<and> repo_get r i (snd s) \<noteq> None)"
    by (rule three_runs [where A = ?r1 and B = ?r2 and C = ?r3]) (fact c1, fact c2, fact c3)
  then show ?thesis using assms(4) unfolding commit_all_Inr ready_def by argo
qed

text \<open>C11. A commit does everything or says that it failed. Take a unit in order, with a set iteration that
  lists every element once. If every pending change has a repository that can take it - the
  identifier of a new entity is free, a modified entity is there with the version it was read
  with, a deleted one is there - the commit succeeds, and afterwards a repository has under an
  identifier nothing, if the entity was registered for deletion and is at home there; the tracked
  entity, if it was registered as new, or as modified and differs from what was read; and what it
  had before otherwise. The version of exactly the updated entities went up by one, and the unit is
  committed with nothing pending. In every other case the commit raises.\<close>

theorem commit_exact:
  assumes ok: "uow_ok env s" and order: "iterates env (u_modified (fst s))" "iterates env (u_deleted (fst s))"
  shows "if ready env s then \<exists>s'. uow_commit env s = (Inr (), s') \<and> committed env s s'
    else \<exists>x s'. uow_commit env s = (Inl (uow_error x), s')"
proof (cases "u_committed (fst s)")
  case True
  then show ?thesis by (simp add: ready_def uow_commit_def) blast
next
  case False
  note run = commit_all_ready [OF ok order False]
  show ?thesis
  proof (cases "ready env s")
    case True
    then obtain s' where s': "commit_all env s = (Inr (), s')" using run by blast
    then obtain s1 s2 where r: "run_each (commit_new env) (u_new (fst s)) s = (Inr (), s1)"
      "run_each (commit_modified env) (env_order env (u_modified (fst s1))) s1 = (Inr (), s2)"
      "run_each commit_deleted (env_order env (u_deleted (fst s2))) s2 = (Inr (), s')"
      unfolding commit_all_Inr by blast
    note L = commit_loops [OF ok order(1) r(1,2)]
    have d: "u_deleted (fst s2) = u_deleted (fst s)" using L(2) by (simp add: same_frame_def)
    note E = commit_deleteds [OF r(3), unfolded d same_frame_home [OF L(2)]]
    have "committed env s ((uow_clear (fst s'))\<lparr>u_committed := True\<rparr>, snd s')"
      unfolding committed_def using E L(5,6) order(2) by (simp add: iterates_def uow_clear_def uow_pending_count_def)
    then show ?thesis using True False by (cases s') (simp add: uow_commit_def s')
  next
    case nready: False
    then obtain x s' where "commit_all env s = (Inl x, s')" using run by (cases "commit_all env s"; cases "fst (commit_all env s)") auto
    then show ?thesis using nready False by (simp add: uow_commit_def) blast
  qed
qed

section \<open>What a rollback promises\<close>

lemma serialized_again [simp]: "serialized iso_text (serialized iso_text v) = serialized iso_text v"
  by (auto simp: serialized_def split: pyval.splits option.splits)

text \<open>An entity that got the dictionary form of \<open>e\<^sub>0\<close> back has every value of it in its own.\<close>

lemma reverted_dict:
  assumes "entity_ok e\<^sub>0" "(k, v) \<in> set (entity_to_dict iso_text e\<^sub>0)"
  shows "dict_get (entity_to_dict iso_text (fold set_attr (entity_to_dict iso_text e\<^sub>0) e)) k = Some v"
proof -
  let ?d = "map (\<lambda>(k, v). (k, serialized iso_text v)) (e_attrs e\<^sub>0)"
  have d: "dict_ok ?d" using assms(1) by (simp add: entity_ok_def dict_ok_def split_beta comp_def)
  have m: "dict_get (map (\<lambda>(k, v). (k, serialized iso_text v)) c) j = map_option (serialized iso_text) (dict_get c j)" for c j
    by (induction c) auto
  show ?thesis
  proof (cases "(k, v) \<in> set ?d")
    case True
    then have kv: "dict_get ?d k = Some v" using dict_get_items [OF d] by blast
    then obtain v0 where v0: "dict_get (e_attrs e\<^sub>0) k = Some v0" "v = serialized iso_text v0" by (auto simp: m)
    then have "k \<notin> set base_attrs" using assms(1) by (auto simp: entity_ok_def list_all_iff dict_has_def)
    then show ?thesis
      using kv v0 by (simp add: revert_entity [OF assms(1)]) (simp add: entity_to_dict_def base_attrs_def m dict_get_update_ok [OF d])
  next
    case False
    then show ?thesis using assms(2)
      by (simp add: revert_entity [OF assms(1)]) (auto simp: entity_to_dict_def)
  qed
qed

text \<open>The original data of a tracked entity.\<close>

definition original :: "UnitOfWork \<Rightarrow> string \<Rightarrow> state option" where
  "original u i = (case dict_get (u_identity_map u) i of None \<Rightarrow> None | Some t \<Rightarrow> t_original t)"

lemma revert_stores: "w_stores (snd (revert i s)) = w_stores (snd s)"
  by (auto simp: revert_def set_entity_def split: prod.splits option.splits)

lemma revert_effect:
  assumes "uow_ok env s"
  shows "w_heap (snd (revert i s)) a = (case original (fst s) i of
      Some d \<Rightarrow> if tracked_addr (fst s) i = Some a then fold set_attr d (w_heap (snd s) a) else w_heap (snd s) a
    | None \<Rightarrow> w_heap (snd s) a)"
    "original (fst (revert i s)) j = original (fst s) j"
  by (cases s; auto simp: revert_def original_def tracked_addr_def set_tracked_def set_entity_def dict_simps split: option.splits)+

lemma reverts_effect:
  assumes "uow_ok env s" "distinct is"
  shows "w_stores (snd (fold revert is s)) = w_stores (snd s) \<and>
    (\<forall>i \<in> set is. \<forall>a d. tracked_addr (fst s) i = Some a \<longrightarrow> original (fst s) i = Some d \<longrightarrow>
       w_heap (snd (fold revert is s)) a = fold set_attr d (w_heap (snd s) a)) \<and>
    (\<forall>a. (\<forall>i \<in> set is. tracked_addr (fst s) i = Some a \<longrightarrow> original (fst s) i = None) \<longrightarrow>
       w_heap (snd (fold revert is s)) a = w_heap (snd s) a)"
  using assms
proof (induction "is" arbitrary: s)
  case (Cons i js)
  let ?s = "revert i s"
  note R = revert_effect [OF Cons.prems(1)]
  have ok: "uow_ok env ?s" and fr: "same_frame s ?s" using revert_ok [OF Cons.prems(1), of i] by auto
  have tr: "tracked_addr (fst ?s) j = tracked_addr (fst s) j" for j using fr by (simp add: same_frame_def)
  have one: "k = j" if "tracked_addr (fst s) j = Some a" "tracked_addr (fst s) k = Some a" for j k a
    using uow_okD(2) [OF Cons.prems(1)] that by (auto simp: consistent_def)
  have IH: "w_stores (snd (fold revert js ?s)) = w_stores (snd ?s)"
    "\<And>j a d. j \<in> set js \<Longrightarrow> tracked_addr (fst s) j = Some a \<Longrightarrow> original (fst s) j = Some d \<Longrightarrow>
       w_heap (snd (fold revert js ?s)) a = fold set_attr d (w_heap (snd ?s) a)"
    "\<And>a. (\<And>j. j \<in> set js \<Longrightarrow> tracked_addr (fst s) j = Some a \<Longrightarrow> original (fst s) j = None) \<Longrightarrow>
       w_heap (snd (fold revert js ?s)) a = w_heap (snd ?s) a"
    using Cons.IH [OF ok] Cons.prems(2) by (simp_all add: tr R(2))
  show ?case
  proof (intro conjI ballI allI impI)
    show "w_stores (snd (fold revert (i # js) s)) = w_stores (snd s)" using IH(1) by (simp add: revert_stores)
  next
    fix j a d
    assume j: "j \<in> set (i # js)" "tracked_addr (fst s) j = Some a" "original (fst s) j = Some d"
    show "w_heap (snd (fold revert (i # js) s)) a = fold set_attr d (w_heap (snd s) a)"
    proof (cases "j = i")
      case True
      have "w_heap (snd (fold revert js ?s)) a = w_heap (snd ?s) a"
        by (rule IH(3)) (use one [OF j(2)] True Cons.prems(2) in auto)
      then show ?thesis using j True by (simp add: R(1))
    next
      case False
      have "w_heap (snd ?s) a = w_heap (snd s) a" using one [OF j(2), of i] False by (auto simp: R(1) split: option.splits)
      then show ?thesis using IH(2) [of j a d] j False by simp
    qed
  next
    fix a
    assume no: "\<forall>j \<in> set (i # js). tracked_addr (fst s) j = Some a \<longrightarrow> original (fst s) j = None"
    then have "w_heap (snd ?s) a = w_heap (snd s) a" by (auto simp: R(1) split: option.splits)
    then show "w_heap (snd (fold revert (i # js) s)) a = w_heap (snd s) a" using IH(3) [of a] no by simp
  qed
qed simp

text \<open>A rollback puts back what was read. Every modified entity whose original data the unit has shows each
  value of that data again in its dictionary form, no other entity changes, the repositories are not touched,
  and nothing is pending.\<close>

theorem rollback_restores:
  assumes "uow_ok env s" "iterates env (u_modified (fst s))" "uow_rollback env s = s'"
  shows "(\<forall>i \<in> u_modified (fst s). \<forall>a d k v. tracked_addr (fst s) i = Some a \<longrightarrow> original (fst s) i = Some d \<longrightarrow>
      (k, v) \<in> set d \<longrightarrow> dict_get (entity_to_dict (env_iso env) (w_heap (snd s') a)) k = Some v) \<and>
    (\<forall>a. (\<forall>i \<in> u_modified (fst s). tracked_addr (fst s) i = Some a \<longrightarrow> original (fst s) i = None) \<longrightarrow>
       w_heap (snd s') a = w_heap (snd s) a) \<and>
    w_stores (snd s') = w_stores (snd s) \<and> uow_pending_count (fst s') = 0"
proof -
  let ?r = "fold revert (env_order env (u_modified (fst s))) s"
  have s': "s' = (uow_clear (fst ?r), snd ?r)" using assms(3) by (auto simp: uow_rollback_def split: prod.splits)
  have order: "set (env_order env (u_modified (fst s))) = u_modified (fst s)" "distinct (env_order env (u_modified (fst s)))"
    using assms(2) by (simp_all add: iterates_def)
  note R = reverts_effect [OF assms(1) order(2), unfolded order(1)]
  have "dict_get (entity_to_dict (env_iso env) (w_heap (snd s') a)) k = Some v"
    if i: "i \<in> u_modified (fst s)" "tracked_addr (fst s) i = Some a" "original (fst s) i = Some d" and kv: "(k, v) \<in> set d" for i a d k v
  proof -
    obtain e0 where e0: "entity_ok e0" "d = entity_to_dict (env_iso env) e0"
      using uow_okD(3) [OF assms(1), of i _ d] i(3) by (auto simp: original_def original_ok_def split: option.splits)
    have "w_heap (snd s') a = fold set_attr d (w_heap (snd s) a)" using R i by (simp add: s')
    then show ?thesis using reverted_dict [OF e0(1)] kv by (simp add: e0(2))
  qed
  moreover have "w_heap (snd s') a = w_heap (snd s) a"
    if "\<forall>i \<in> u_modified (fst s). tracked_addr (fst s) i = Some a \<longrightarrow> original (fst s) i = None" for a
    using R that by (simp add: s')
  moreover have "w_stores (snd s') = w_stores (snd s)" "uow_pending_count (fst s') = 0"
    using R by (simp_all add: s' uow_pending_count_def uow_clear_def)
  ultimately show ?thesis by blast
qed

section \<open>A unit from its creation on\<close>

lemma uow_init_ok:
  assumes "\<forall>a. entity_ok (w_heap w a)" "w_stores w = (\<lambda>_. [])"
  shows "uow_ok env (uow_init, w)"
  using assms by (intro uow_okI) (simp_all add: uow_init_def consistent_def tracked_addr_def repo_get_def)

text \<open>C13. As long as nobody assigns to the identifier of an entity or makes its version anything but a
  number, whatever the caller does to a new unit over empty in-memory repositories and to its entities -
  registering, attaching, detaching, committing, rolling back, assigning other attributes, using
  repositories directly - every entity is tracked and filed under its own identifier, what is pending is
  tracked, nothing is pending for insertion twice or both for insertion and deletion, and the original
  data of a tracked entity is the dictionary form of an entity with its identifier.\<close>

theorem uow_invariant:
  assumes "\<forall>a. entity_ok (w_heap w a)" "w_stores w = (\<lambda>_. [])" "list_all keeps_id xs"
  shows "uow_ok env (fold (uow_step env) xs (uow_init, w))"
  by (rule uow_run.run_keeps [OF uow_init_ok [OF assms(1,2)] assms(3)])

text \<open>An assignment to the identifier of a tracked entity leaves it filed under the old one.\<close>

lemma assigned_id_breaks:
  assumes "uow_ok env (u, w)" "tracked_addr u i = Some a" "j \<noteq> i"
  shows "\<not> uow_ok env (uow_step env (Assign a ''id'' (VStr j)) (u, w))"
  using assms by (auto simp: uow_ok_def consistent_def set_entity_def set_attr_def)

section \<open>Where the code falls short of its documentation\<close>

lemma rollback_stores: "w_stores (snd (uow_rollback env s)) = w_stores (snd s)"
proof -
  have "w_stores (snd (fold revert is s)) = w_stores (snd s)" for "is"
    by (induction "is" arbitrary: s) (simp_all add: revert_stores)
  then show ?thesis by (simp add: uow_rollback_def split_beta)
qed

text \<open>An insertion that went through before a commit fails stays, also after the rollback that leaving the block does.\<close>

lemma commit_partial:
  assumes "uow_ok env s" "\<not> u_committed (fst s)" "u_new (fst s) = a # b # as" "can_add a s"
    "home s (e_id (w_heap (snd s) b)) = Some r'" "repo_get r' (e_id (w_heap (snd s) b)) (snd s) \<noteq> None"
  shows "(\<exists>x s'. uow_commit env s = (Inl x, s')) \<and>
    (\<exists>r. repo_get r (e_id (w_heap (snd s) a)) (snd s) = None \<and>
       repo_get r (e_id (w_heap (snd s) a)) (snd (uow_rollback env (snd (uow_commit env s)))) = Some a)"
proof -
  note D = uow_okD [OF assms(1)]
  have tr: "tracked_addr (fst s) (e_id (w_heap (snd s) a)) = Some a" "tracked_addr (fst s) (e_id (w_heap (snd s) b)) = Some b"
    using D(4) assms(3) by simp_all
  obtain s1 where s1: "commit_new env a s = (Inr (), s1)" using commit_new_runs [OF tr(1)] assms(4) by blast
  have fr: "same_frame s s1" using commit_new_frame [of s env a] s1 by simp
  note E = commit_new_effect [OF s1 tr(1)]
  have "e_id (w_heap (snd s) b) \<noteq> e_id (w_heap (snd s) a)" using D(6) assms(3) by auto
  then have "\<not> can_add b s1" using E assms(5,6) by (auto simp: can_add_def same_frame_home [OF fr])
  moreover have trb: "tracked_addr (fst s1) (e_id (w_heap (snd s1) b)) = Some b" using tr(2) fr by (simp add: same_frame_def)
  ultimately have nb: "\<nexists>s'. commit_new env b s1 = (Inr (), s')" using commit_new_runs by blast
  obtain q s2 where q: "commit_new env b s1 = (q, s2)" by (rule prod.exhaust)
  then obtain x where "q = Inl x" using nb by (cases q) auto
  with q have b: "commit_new env b s1 = (Inl x, s2)" by simp
  have s2: "snd s2 = snd s1"
    using b nb trb by (auto simp: commit_new_def Let_def repo_add_def tracked_addr_def split: prod.splits sum.splits option.splits if_splits)
  have run: "uow_commit env s = (Inl (uow_error (''Commit failed: '' @ exc_msg x)), s2)"
    using assms(2) by (simp add: uow_commit_def commit_all_def assms(3) s1 b)
  obtain r where r: "home s (e_id (w_heap (snd s) a)) = Some r" "repo_get r (e_id (w_heap (snd s) a)) (snd s) = None"
    using assms(4) by (auto simp: can_add_def)
  have "repo_get r (e_id (w_heap (snd s) a)) (snd (uow_rollback env s2)) = Some a"
    using E r(1) by (simp add: repo_get_def rollback_stores s2)
  with run r(2) show ?thesis by auto
qed

text \<open>An entity registered as new and then as deleted was never stored, and yet its deletion is pending: the commit
  looks for it in its repository and fails.\<close>

lemma new_then_deleted_fails:
  assumes "uow_ok env (u, w)" "\<not> u_committed u" "tracked_addr u (e_id (w_heap w a)) = None"
    "\<forall>r. repo_get r (e_id (w_heap w a)) w = None"
    "s = fold (uow_step env) [Register_new a, Register_deleted a] (u, w)"
    "iterates env (u_modified (fst s))" "iterates env (u_deleted (fst s))"
  shows "\<nexists>s'. uow_commit env s = (Inr (), s')"
proof -
  have ok: "uow_ok env s" using uow_run.run_keeps [OF assms(1), of "[Register_new a, Register_deleted a]"] assms(5) by (simp add: keeps_id_def)
  have i: "e_id (w_heap (snd s) a) \<in> u_deleted (fst s)" "snd s = w" and c: "\<not> u_committed (fst s)"
    using assms(2) by (simp_all add: assms(5) register_deleted_def register_new_def Let_def set_tracked_def)
  have "\<not> ready env s" using assms(4) i unfolding ready_def by auto
  then show ?thesis using commit_all_ready [OF ok assms(6,7) c]
    by (auto simp: uow_commit_def split: prod.splits sum.splits if_splits)
qed

text \<open>The dictionary form has the text of a date, and a rollback assigns it: the date is replaced by its text.\<close>

lemma rollback_dates:
  assumes "entity_ok e\<^sub>0" "e_created_at e\<^sub>0 = VObj n" "iso_text n = Some d"
  shows "e_created_at (fold set_attr (entity_to_dict iso_text e\<^sub>0) e) = VStr d"
  by (simp add: revert_entity [OF assms(1)] serialized_def assms(2,3))

text \<open>The repository keeps the object it was given: an update of that object compares its version with itself, and the
  check for concurrent changes never fires between two users of the repository.\<close>

lemma update_same_object:
  assumes "repo_get r (e_id (w_heap w a)) w = Some a"
  shows "fst (repo_update now r a w) = Inr ()"
  using assms by (simp add: repo_get_def repo_update_def Let_def)

text \<open>The connection of the subclass and the repositories do not know each other: the repositories end up as with
  a plain unit, whatever becomes of the transaction on the connection.\<close>

lemma connection_unrelated:
  assumes "sqlite_uow_commit env commits (su, w) = (q, (su', w'))"
  shows "snd (uow_commit env (su_unit su, w)) = (su_unit su', w')"
  using assms by (auto simp: sqlite_uow_commit_def Let_def split: prod.splits if_splits sum.splits)

text \<open>The set of prepared units is not emptied by a commit that succeeds, so the next one commits the same units
  again, and fails.\<close>

lemma commit_units_committed:
  assumes "run_each (commit_unit env) is (us, w) = (Inr (), (us', w'))" "\<forall>i \<in> set is. i < length us"
  shows "length us' = length us \<and> (\<forall>i. i < length us \<longrightarrow> i \<in> set is \<or> u_committed (us ! i) \<longrightarrow> u_committed (us' ! i))"
  using assms
proof (induction "is" arbitrary: us w)
  case (Cons i js)
  obtain u1 w1 where s1: "uow_commit env (us ! i, w) = (Inr (), (u1, w1))" "run_each (commit_unit env) js (us[i := u1], w1) = (Inr (), (us', w'))"
    using Cons.prems(1) unfolding run_each_Inr by (auto simp: commit_unit_def split: prod.splits)
  have "u_committed u1" using s1(1) by (auto simp: uow_commit_def uow_clear_def split: prod.splits sum.splits if_splits)
  then show ?case using Cons.IH [OF s1(2)] Cons.prems(2) by (auto simp: nth_list_update)
qed simp

lemma committed_unit_fails:
  "i \<in> set is \<Longrightarrow> u_committed (us ! i) \<Longrightarrow> run_each (commit_unit env) is (us, w) \<noteq> (Inr (), s)"
proof (induction "is" arbitrary: us w)
  case (Cons j js)
  show ?case
  proof (cases "j = i")
    case True
    then show ?thesis using Cons.prems(2) by (simp add: commit_unit_def uow_commit_def)
  next
    case False
    show ?thesis
    proof
      assume "run_each (commit_unit env) (j # js) (us, w) = (Inr (), s)"
      then obtain u1 w1 where "run_each (commit_unit env) js (us[j := u1], w1) = (Inr (), s)"
        unfolding run_each_Inr by (auto simp: commit_unit_def split: prod.splits)
      then show False using Cons.IH [of "us[j := u1]" w1] Cons.prems False by simp
    qed
  qed
qed simp

lemma composite_commits_once:
  assumes "composite_commit env c w = (Inr (), (c', w'))" "c_prepared c' \<inter> {..<length (c_units c)} \<noteq> {}"
  shows "\<exists>x c'' w''. composite_commit env c' w' = (Inl x, (c'', w''))"
proof -
  let ?is = "\<lambda>c. filter (\<lambda>i. i \<in> c_prepared c) [0..<length (c_units c)]"
  let ?p = "prepare env c w"
  obtain us where us: "run_each (commit_unit env) (?is ?p) (c_units ?p, w) = (Inr (), (us, w'))" "c' = ?p\<lparr>c_units := us\<rparr>"
    using assms(1) by (auto simp: composite_commit_def Let_def split: prod.splits sum.splits)
  have all: "length us = length (c_units c)" "\<And>i. i \<in> c_prepared ?p \<Longrightarrow> i < length (c_units c) \<Longrightarrow> u_committed (us ! i)"
    using commit_units_committed [OF us(1)] by (auto simp: prepare_def)
  obtain i where i: "i \<in> c_prepared ?p" "i < length us" using assms(2) us(2) all(1) by auto
  let ?q = "prepare env c' w'"
  have units: "c_units ?q = us" by (simp add: prepare_def us(2))
  have "i \<in> set (?is ?q)" using i by (auto simp: prepare_def us(2))
  then have no: "run_each (commit_unit env) (?is ?q) (us, w') \<noteq> (Inr (), y)" for y
    using i all by (intro committed_unit_fails) auto
  obtain q y where "run_each (commit_unit env) (?is ?q) (us, w') = (q, y)" by (rule prod.exhaust)
  with no obtain x where "run_each (commit_unit env) (?is ?q) (us, w') = (Inl x, y)" by (cases q; cases y) auto
  then show ?thesis by (simp add: composite_commit_def Let_def units split_beta)
qed

section \<open>Witnesses\<close>

text \<open>A unit with one entity to insert, one to update and one to delete.\<close>

definition demo_entity :: "string \<Rightarrow> string \<Rightarrow> Entity" where
  "demo_entity i name = \<lparr>e_type = ''User'', e_id = i, e_created_at = VObj 0, e_updated_at = VObj 0, e_version = 1,
     e_attrs = [(''name'', VStr name)]\<rparr>"

definition demo_env :: uow_env where
  "demo_env = \<lparr>env_iso = (\<lambda>n. Some ''2024''), env_now = (\<lambda>k. Suc k), env_order = (\<lambda>S. filter (\<lambda>i. i \<in> S) [''n'', ''m'', ''d''])\<rparr>"

definition demo_world :: world where
  "demo_world = \<lparr>w_heap = (\<lambda>a. if a = 0 then demo_entity ''n'' ''ann'' else if a = 1 then demo_entity ''m'' ''bob'' else demo_entity ''d'' ''eve''),
     w_stores = (\<lambda>r. if r = 0 then [(''m'', 1), (''d'', 2)] else []), w_reads = 0\<rparr>"

definition demo_unit :: UnitOfWork where
  "demo_unit = \<lparr>u_identity_map =
       [(''n'', \<lparr>t_entity = 0, t_state = NEW, t_original = None\<rparr>),
        (''m'', \<lparr>t_entity = 1, t_state = MODIFIED, t_original = Some (entity_to_dict (env_iso demo_env) (demo_entity ''m'' ''ann''))\<rparr>),
        (''d'', \<lparr>t_entity = 2, t_state = DELETED, t_original = None\<rparr>)],
     u_repositories = [(''User'', 0)], u_new = [0], u_modified = {''m''}, u_deleted = {''d''}, u_committed = False\<rparr>"

lemma demo_entity_ok: "entity_ok (demo_entity i name)"
  by (simp add: entity_ok_def base_attrs_def dict_has_def dict_ok_def demo_entity_def)

lemma demo_id: "e_id (demo_entity i name) = i" "e_type (demo_entity i name) = ''User''" "e_version (demo_entity i name) = 1"
  by (simp_all add: demo_entity_def)

lemma demo_tracked: "tracked_addr demo_unit i = (if i = ''n'' then Some 0 else if i = ''m'' then Some 1 else if i = ''d'' then Some 2 else None)"
  by (simp add: tracked_addr_def demo_unit_def)

lemma demo_ok: "uow_ok demo_env (demo_unit, demo_world)"
proof (rule uow_okI)
  show "consistent (demo_unit, demo_world)"
    by (auto simp: consistent_def demo_tracked demo_world_def demo_id split: if_splits)
  show "entity_ok (w_heap demo_world a)" for a by (simp add: demo_world_def demo_entity_ok)
next
  fix i t d
  assume "dict_get (u_identity_map demo_unit) i = Some t" "t_original t = Some d"
  then show "original_ok demo_env i d"
    by (auto simp: demo_unit_def intro!: original_ok_dict demo_entity_ok demo_id split: if_splits)
qed (auto simp: demo_tracked demo_world_def repo_get_def demo_id, auto simp: demo_unit_def demo_id demo_tracked split: if_splits)

lemma demo_iterates: "iterates demo_env (u_modified demo_unit)" "iterates demo_env (u_deleted demo_unit)"
  by (auto simp: iterates_def demo_env_def demo_unit_def)

lemma demo_ids: "new_ids (demo_unit, demo_world) = {''n''}" "updated_ids demo_env (demo_unit, demo_world) = {''m''}"
  by (auto simp: new_ids_def updated_ids_def dirty_def is_dirty_def demo_unit_def demo_world_def demo_id)
    (simp add: entity_to_dict_def demo_entity_def serialized_def demo_env_def)

lemma demo_home: "home (demo_unit, demo_world) i = (if tracked_addr demo_unit i = None then None else Some 0)"
  by (auto simp: home_def demo_tracked demo_world_def demo_id) (simp_all add: demo_unit_def)

lemma demo_ready: "ready demo_env (demo_unit, demo_world)"
  by (simp add: ready_def demo_ids demo_home demo_tracked) (simp add: demo_unit_def demo_world_def repo_get_def demo_id)

theorem commit_exact_witness:
  "uow_ok demo_env (demo_unit, demo_world) \<and> ready demo_env (demo_unit, demo_world) \<and>
   (\<exists>s'. uow_commit demo_env (demo_unit, demo_world) = (Inr (), s') \<and> repo_get 0 ''n'' (snd s') = Some 0 \<and>
      repo_get 0 ''d'' (snd s') = None \<and> e_version (w_heap (snd s') 1) = 2)"
proof -
  obtain s' where "uow_commit demo_env (demo_unit, demo_world) = (Inr (), s')" "committed demo_env (demo_unit, demo_world) s'"
    using commit_exact [OF demo_ok, unfolded fst_conv, OF demo_iterates] demo_ready by auto
  then show ?thesis using demo_ok demo_ready
    by (auto simp: committed_def demo_ids demo_home demo_tracked) (auto simp: demo_unit_def demo_world_def demo_id)
qed

theorem rollback_restores_witness:
  "dict_get (entity_to_dict (env_iso demo_env) (w_heap (snd (uow_rollback demo_env (demo_unit, demo_world))) 1)) ''name'' =
     Some (VStr ''ann'')"
  using rollback_restores [OF demo_ok, unfolded fst_conv, OF demo_iterates(1) refl]
  by (auto simp: demo_tracked original_def) (simp add: demo_unit_def entity_to_dict_def demo_entity_def serialized_def)

theorem uow_invariant_witness:
  "uow_ok demo_env (fold (uow_step demo_env) [Register_repository 0 ''User'', Register_new 1, Assign 1 ''name'' (VStr ''x''), Commit]
     (uow_init, demo_world\<lparr>w_stores := (\<lambda>_. [])\<rparr>))"
  by (rule uow_invariant) (simp_all add: demo_world_def demo_entity_ok keeps_id_def)

end
