(* ===== verification/Event_Sourcing.thy ===== *)
theory Event_Sourcing
  imports Repository
begin

text \<open>
  Domain events, aggregates that are rebuilt from them, the contract of an event store, the in-memory store and the
  dispatcher (\<^verbatim>\<open>victor/core/event_sourcing.py\<close>). Events are not changed after they are made, so they are values. The
  handlers of an aggregate class are a parameter: a function from the class name of an event to what the
  method \<^verbatim>\<open>apply_<EventType>\<close> does to the state of the aggregate, if it has one.
\<close>

section \<open>Events\<close>

record DomainEvent =
  ev_class :: string
  ev_event_id :: pyval
  ev_timestamp :: pyval
  ev_version :: pyval
  ev_correlation_id :: pyval
  ev_causation_id :: pyval
  ev_metadata :: pyval
  ev_data :: state

record EventEnvelope =
  en_stream_id :: string
  en_stream_version :: int
  en_event :: DomainEvent
  en_stored_at :: nat

section \<open>Aggregates\<close>

type_synonym 'st handlers = "string \<Rightarrow> (DomainEvent \<Rightarrow> 'st \<Rightarrow> unit result \<times> 'st) option"

record 'st Aggregate =
  ag_aggregate_id :: string
  ag_version :: int
  ag_uncommitted_events :: "DomainEvent list"
  ag_state :: 'st

definition aggregate_init :: "'st \<Rightarrow> string \<Rightarrow> 'st Aggregate" where
  "aggregate_init st i = \<lparr>ag_aggregate_id = i, ag_version = 0, ag_uncommitted_events = [], ag_state = st\<rparr>"

text \<open>An event without a handler is passed over.\<close>

definition apply_event :: "'st handlers \<Rightarrow> DomainEvent \<Rightarrow> 'st Aggregate \<Rightarrow> unit result \<times> 'st Aggregate" where
  "apply_event h e a =
     (case h (ev_class e) of
        None \<Rightarrow> (Inr (), a)
      | Some f \<Rightarrow> (case f e (ag_state a) of (q, st) \<Rightarrow> (q, a\<lparr>ag_state := st\<rparr>)))"

definition ag_apply :: "'st handlers \<Rightarrow> DomainEvent \<Rightarrow> 'st Aggregate \<Rightarrow> unit result \<times> 'st Aggregate" where
  "ag_apply h e a =
     (case apply_event h e a of
        (Inl x, a) \<Rightarrow> (Inl x, a)
      | (Inr _, a) \<Rightarrow> (Inr (), a\<lparr>ag_uncommitted_events := ag_uncommitted_events a @ [e], ag_version := ag_version a + 1\<rparr>))"

definition replay_event :: "'st handlers \<Rightarrow> DomainEvent \<Rightarrow> 'st Aggregate \<Rightarrow> unit result \<times> 'st Aggregate" where
  "replay_event h e a =
     (case apply_event h e a of
        (Inl x, a) \<Rightarrow> (Inl x, a)
      | (Inr _, a) \<Rightarrow> (Inr (), a\<lparr>ag_version := ag_version a + 1\<rparr>))"

definition load_from_history :: "'st handlers \<Rightarrow> DomainEvent list \<Rightarrow> 'st Aggregate \<Rightarrow> unit result \<times> 'st Aggregate" where
  "load_from_history h es a = run_each (replay_event h) es a"

definition clear_uncommitted_events :: "'st Aggregate \<Rightarrow> 'st Aggregate" where
  "clear_uncommitted_events a = a\<lparr>ag_uncommitted_events := []\<rparr>"

section \<open>Event stores\<close>

text \<open>\<^verbatim>\<open>save\<close> and \<^verbatim>\<open>load\<close> of the abstract store, on top of what a store provides.\<close>

definition store_save ::
  "(string \<Rightarrow> DomainEvent list \<Rightarrow> int option \<Rightarrow> 's \<Rightarrow> int result \<times> 's) \<Rightarrow> 'st Aggregate \<Rightarrow> 's \<Rightarrow> unit result \<times> 'st Aggregate \<times> 's" where
  "store_save append_to a s =
     (let events = ag_uncommitted_events a
      in if events = [] then (Inr (), (a, s))
         else let expected = ag_version a - int (length events)
              in case append_to (ag_aggregate_id a) events (if expected > 0 then Some expected else None) s of
                  (Inl x, s) \<Rightarrow> (Inl x, (a, s))
                | (Inr _, s) \<Rightarrow> (Inr (), (clear_uncommitted_events a, s)))"

definition store_load ::
  "(string \<Rightarrow> int \<Rightarrow> int option \<Rightarrow> 's \<Rightarrow> EventEnvelope list result) \<Rightarrow> 'st handlers \<Rightarrow> 'st \<Rightarrow> string \<Rightarrow> 's \<Rightarrow> 'st Aggregate option result" where
  "store_load read h st i s =
     bind_result (read i 0 None s) (\<lambda>es.
       if es = [] then Inr None
       else case load_from_history h (map en_event es) (aggregate_init st i) of
           (Inl x, _) \<Rightarrow> Inl x
         | (Inr _, a) \<Rightarrow> Inr (Some a))"

text \<open>The events of a stream whose version is in a range; the first one has version one.\<close>

definition in_range :: "int \<Rightarrow> int option \<Rightarrow> int \<Rightarrow> bool" where
  "in_range a b v \<longleftrightarrow> a \<le> v \<and> (case b of None \<Rightarrow> True | Some c \<Rightarrow> v \<le> c)"

definition numbered :: "'a list \<Rightarrow> (int \<times> 'a) list" where
  "numbered xs = zip (map int [1..<Suc (length xs)]) xs"

lemma snd_numbered: "map snd (numbered xs) = xs"
  by (simp add: numbered_def del: upt_Suc)

definition stale :: "int option \<Rightarrow> 'a list \<Rightarrow> bool" where
  "stale expected xs \<longleftrightarrow> (case expected of None \<Rightarrow> False | Some v \<Rightarrow> v \<noteq> int (length xs))"

text \<open>
  The contract of an event store: it keeps for each stream the list of its events, an append adds at the end or
  refuses if the expected version is not the current one, a read returns the events with
  their versions. \<open>accepts\<close> is what a store needs of the events to be able to write them.
\<close>

locale event_store =
  fixes history :: "'s \<Rightarrow> string \<Rightarrow> DomainEvent list"
    and valid :: "'s \<Rightarrow> bool"
    and accepts :: "'s \<Rightarrow> DomainEvent list \<Rightarrow> bool"
    and append_to :: "string \<Rightarrow> DomainEvent list \<Rightarrow> int option \<Rightarrow> 's \<Rightarrow> int result \<times> 's"
    and read :: "string \<Rightarrow> int \<Rightarrow> int option \<Rightarrow> 's \<Rightarrow> EventEnvelope list result"
    and stream_version :: "string \<Rightarrow> 's \<Rightarrow> int"
  assumes append_to: "valid s \<Longrightarrow> accepts s es \<Longrightarrow> append_to i es expected s = (q, s') \<Longrightarrow> valid s' \<and>
      (if stale expected (history s i)
       then q = Inl (concurrency_error i (the expected) (int (length (history s i)))) \<and> history s' = history s
       else q = Inr (int (length (history s i @ es))) \<and> history s' = (history s)(i := history s i @ es))"
    and read: "valid s \<Longrightarrow> \<exists>ens. read i a b s = Inr ens \<and>
      map (\<lambda>en. (en_stream_version en, en_event en)) ens = filter (\<lambda>p. in_range a b (fst p)) (numbered (history s i))"
    and stream_version: "valid s \<Longrightarrow> stream_version i s = int (length (history s i))"
begin

lemma read_all_events:
  assumes "valid s"
  shows "\<exists>ens. read i 0 None s = Inr ens \<and> map en_event ens = history s i"
proof -
  obtain ens where r: "read i 0 None s = Inr ens"
    and m: "map (\<lambda>en. (en_stream_version en, en_event en)) ens = filter (\<lambda>p. in_range 0 None (fst p)) (numbered (history s i))"
    using read [OF assms] by blast
  have "filter (\<lambda>p. in_range 0 None (fst p)) (numbered (history s i)) = numbered (history s i)"
    by (auto simp: filter_id_conv numbered_def in_range_def dest!: set_zip_leftD)
  with m have "map snd (map (\<lambda>en. (en_stream_version en, en_event en)) ens) = map snd (numbered (history s i))" by simp
  then show ?thesis using r by (simp add: snd_numbered comp_def)
qed

end

section \<open>The in-memory store\<close>

record InMemoryEventStore =
  ms_streams :: "(string, EventEnvelope list) dict"
  ms_all_events :: "EventEnvelope list"
  ms_reads :: nat

definition ms_init :: InMemoryEventStore where
  "ms_init = \<lparr>ms_streams = [], ms_all_events = [], ms_reads = 0\<rparr>"

definition ms_stream :: "InMemoryEventStore \<Rightarrow> string \<Rightarrow> EventEnvelope list" where
  "ms_stream s i = dict_get_or (ms_streams s) i []"

text \<open>One turn of the loop; the envelope takes the time.\<close>

definition ms_add :: "(nat \<Rightarrow> nat) \<Rightarrow> string \<Rightarrow> DomainEvent \<Rightarrow> int \<times> InMemoryEventStore \<Rightarrow> int \<times> InMemoryEventStore" where
  "ms_add now i e st =
     (case st of (v, s) \<Rightarrow>
        let en = \<lparr>en_stream_id = i, en_stream_version = v + 1, en_event = e, en_stored_at = now (ms_reads s)\<rparr>
        in (v + 1, s\<lparr>ms_streams := dict_set i (ms_stream s i @ [en]) (ms_streams s),
                     ms_all_events := ms_all_events s @ [en], ms_reads := Suc (ms_reads s)\<rparr>))"

definition ms_append ::
  "(nat \<Rightarrow> nat) \<Rightarrow> string \<Rightarrow> DomainEvent list \<Rightarrow> int option \<Rightarrow> InMemoryEventStore \<Rightarrow> int result \<times> InMemoryEventStore" where
  "ms_append now i es expected s =
     (let current = int (length (ms_stream s i))
      in case expected of
          Some v \<Rightarrow>
            if current \<noteq> v then (Inl (concurrency_error i v current), s)
            else case fold (ms_add now i) es (current, if dict_has (ms_streams s) i then s
                   else s\<lparr>ms_streams := dict_set i [] (ms_streams s)\<rparr>) of (v, s) \<Rightarrow> (Inr v, s)
        | None \<Rightarrow>
            (case fold (ms_add now i) es (current, if dict_has (ms_streams s) i then s
                   else s\<lparr>ms_streams := dict_set i [] (ms_streams s)\<rparr>) of (v, s) \<Rightarrow> (Inr v, s)))"

text \<open>The loop of a read: too early is passed over, too late ends it.\<close>

fun ms_select :: "int \<Rightarrow> int option \<Rightarrow> EventEnvelope list \<Rightarrow> EventEnvelope list" where
  "ms_select a b [] = []"
| "ms_select a b (en # ens) =
     (if en_stream_version en < a then ms_select a b ens
      else if (case b of None \<Rightarrow> False | Some c \<Rightarrow> en_stream_version en > c) then []
      else en # ms_select a b ens)"

definition ms_read :: "string \<Rightarrow> int \<Rightarrow> int option \<Rightarrow> InMemoryEventStore \<Rightarrow> EventEnvelope list" where
  "ms_read i a b s = (if \<not> dict_has (ms_streams s) i then [] else ms_select a b (ms_stream s i))"

definition ms_read_all :: "nat \<Rightarrow> nat \<Rightarrow> InMemoryEventStore \<Rightarrow> EventEnvelope list" where
  "ms_read_all from_position limit s = take limit (drop from_position (ms_all_events s))"

definition ms_get_stream_version :: "string \<Rightarrow> InMemoryEventStore \<Rightarrow> int" where
  "ms_get_stream_version i s = int (length (ms_stream s i))"

definition ms_clear :: "InMemoryEventStore \<Rightarrow> InMemoryEventStore" where
  "ms_clear s = s\<lparr>ms_streams := [], ms_all_events := []\<rparr>"

section \<open>The dispatcher\<close>

text \<open>A handler is a function that may raise and that changes the world; the handlers run in the order in which
  their tasks are created.\<close>

type_synonym 'w event_handler = "DomainEvent \<Rightarrow> 'w \<Rightarrow> unit result \<times> 'w"

record 'w EventDispatcher =
  di_handlers :: "(string, 'w event_handler list) dict"
  di_all_handlers :: "'w event_handler list"

definition subscribe :: "string \<Rightarrow> 'w event_handler \<Rightarrow> 'w EventDispatcher \<Rightarrow> 'w EventDispatcher" where
  "subscribe ty f d = d\<lparr>di_handlers := dict_set ty (dict_get_or (di_handlers d) ty [] @ [f]) (di_handlers d)\<rparr>"

definition subscribe_all :: "'w event_handler \<Rightarrow> 'w EventDispatcher \<Rightarrow> 'w EventDispatcher" where
  "subscribe_all f d = d\<lparr>di_all_handlers := di_all_handlers d @ [f]\<rparr>"

text \<open>An exception of a handler is logged and dropped.\<close>

definition safe_execute_handler :: "'w event_handler \<Rightarrow> DomainEvent \<Rightarrow> 'w \<Rightarrow> 'w" where
  "safe_execute_handler f e w = snd (f e w)"

definition dispatch :: "'w EventDispatcher \<Rightarrow> DomainEvent \<Rightarrow> 'w \<Rightarrow> 'w" where
  "dispatch d e w =
     fold (\<lambda>f. safe_execute_handler f e) (dict_get_or (di_handlers d) (ev_class e) [] @ di_all_handlers d) w"

section \<open>The in-memory store keeps the contract\<close>

text \<open>Each stream has the versions one, two and so on, and the list of all events has the events of each stream in their
  order.\<close>

definition ms_ok :: "InMemoryEventStore \<Rightarrow> bool" where
  "ms_ok s \<longleftrightarrow> (\<forall>i. map en_stream_version (ms_stream s i) = map int [1..<Suc (length (ms_stream s i))] \<and>
     filter (\<lambda>en. en_stream_id en = i) (ms_all_events s) = ms_stream s i)"

definition ms_history :: "InMemoryEventStore \<Rightarrow> string \<Rightarrow> DomainEvent list" where
  "ms_history s i = map en_event (ms_stream s i)"

lemma ms_add_ok:
  assumes "ms_ok s" "ms_add now i e (int (length (ms_stream s i)), s) = (v, s')"
  shows "ms_ok s' \<and> v = int (length (ms_stream s' i)) \<and> ms_history s' = (ms_history s)(i := ms_history s i @ [e])"
proof -
  let ?en = "\<lparr>en_stream_id = i, en_stream_version = int (length (ms_stream s i)) + 1, en_event = e, en_stored_at = now (ms_reads s)\<rparr>"
  have v: "v = int (length (ms_stream s i)) + 1" and all: "ms_all_events s' = ms_all_events s @ [?en]"
    using assms(2) by (auto simp: ms_add_def Let_def)
  have st: "ms_stream s' j = (if j = i then ms_stream s i @ [?en] else ms_stream s j)" for j
    using assms(2) by (auto simp: ms_add_def Let_def ms_stream_def dict_get_or_def dict_simps)
  have "map en_stream_version (ms_stream s j) = map int [1..<Suc (length (ms_stream s j))]"
    "filter (\<lambda>en. en_stream_id en = j) (ms_all_events s) = ms_stream s j" for j using assms(1) by (simp_all add: ms_ok_def)
  then show ?thesis using v all by (auto simp: ms_ok_def st ms_history_def fun_eq_iff)
qed

lemma ms_adds_ok:
  assumes "ms_ok s" "fold (ms_add now i) es (int (length (ms_stream s i)), s) = (v, s')"
  shows "ms_ok s' \<and> v = int (length (ms_stream s' i)) \<and> ms_history s' = (ms_history s)(i := ms_history s i @ es)"
  using assms
proof (induction es arbitrary: s)
  case (Cons e es)
  obtain v1 s1 where a: "ms_add now i e (int (length (ms_stream s i)), s) = (v1, s1)" by (rule prod.exhaust)
  note A = ms_add_ok [OF Cons.prems(1) a]
  show ?case using Cons.IH [of s1] Cons.prems(2) A by (auto simp: a fun_eq_iff)
qed simp

lemma ms_select_filter:
  "map en_stream_version ens = map int [k..<k + length ens] \<Longrightarrow>
     ms_select a b ens = filter (\<lambda>en. in_range a b (en_stream_version en)) ens"
proof (induction ens arbitrary: k)
  case (Cons en ens)
  have en: "en_stream_version en = int k" and rest: "map en_stream_version ens = map int [Suc k..<Suc k + length ens]"
    using Cons.prems by (simp_all add: upt_conv_Cons del: upt_Suc)
  have later: "int k < en_stream_version en'" if "en' \<in> set ens" for en'
  proof -
    have "en_stream_version en' \<in> set (map int [Suc k..<Suc k + length ens])" using that rest by (metis image_eqI set_map)
    then show ?thesis by auto
  qed
  have "filter (\<lambda>en. in_range a (Some c) (en_stream_version en)) ens = []" if "int k > c" for c
    using later that by (fastforce simp: filter_empty_conv in_range_def)
  then show ?case using Cons.IH [OF rest] by (cases b) (auto simp: en in_range_def)
qed simp

lemma zip_maps: "zip (map f xs) (map g xs) = map (\<lambda>x. (f x, g x)) xs"
  by (induction xs) auto

lemma numbered_stream:
  assumes "map en_stream_version ens = map int [1..<Suc (length ens)]"
  shows "map (\<lambda>en. (en_stream_version en, en_event en)) ens = numbered (map en_event ens)"
  by (simp only: numbered_def length_map assms [symmetric] zip_maps)

interpretation memory_events: event_store ms_history ms_ok "\<lambda>_ _. True" "ms_append now" "\<lambda>i a b s. Inr (ms_read i a b s)"
  ms_get_stream_version for now
proof (unfold_locales, goal_cases)
  case (1 s es i expected q s')
  let ?s = "if dict_has (ms_streams s) i then s else s\<lparr>ms_streams := dict_set i [] (ms_streams s)\<rparr>"
  have same: "ms_stream ?s j = ms_stream s j" for j
    by (auto simp: ms_stream_def dict_get_or_def dict_has_def dict_simps)
  have all: "ms_all_events ?s = ms_all_events s" by simp
  have ok: "ms_ok ?s" using 1(1) unfolding ms_ok_def same all .
  have "ms_history ?s j = ms_history s j" for j by (simp only: ms_history_def same)
  then have hist: "ms_history ?s = ms_history s" by blast
  obtain v s1 where f: "fold (ms_add now i) es (int (length (ms_stream ?s i)), ?s) = (v, s1)" by (rule prod.exhaust)
  note A = ms_adds_ok [OF ok f, unfolded hist]
  have len: "length (ms_history s1 i) = length (ms_stream s1 i)" by (simp add: ms_history_def)
  have run: "ms_append now i es expected s =
      (if stale expected (ms_history s i) then (Inl (concurrency_error i (the expected) (int (length (ms_history s i)))), s) else (Inr v, s1))"
    using f unfolding same by (auto simp: ms_append_def Let_def stale_def ms_history_def split: option.splits)
  show ?case using 1 A len by (auto simp: run split: if_splits)
next
  case (2 s i a b)
  have v: "map en_stream_version (ms_stream s i) = map int [1..<Suc (length (ms_stream s i))]" using 2 by (simp add: ms_ok_def)
  have "ms_read i a b s = ms_select a b (ms_stream s i)" by (simp add: ms_read_def ms_stream_def dict_get_or_def dict_has_def)
  also have "\<dots> = filter (\<lambda>en. in_range a b (en_stream_version en)) (ms_stream s i)"
    by (rule ms_select_filter [where k = 1]) (use v in simp)
  finally have "map (\<lambda>en. (en_stream_version en, en_event en)) (ms_read i a b s) =
      filter (\<lambda>p. in_range a b (fst p)) (map (\<lambda>en. (en_stream_version en, en_event en)) (ms_stream s i))"
    by (simp add: filter_map comp_def)
  then show ?case using numbered_stream [OF v] by (simp add: ms_history_def)
next
  case (3 s i)
  then show ?case by (simp add: ms_get_stream_version_def ms_history_def)
qed

section \<open>Saving and loading aggregates\<close>

text \<open>An aggregate that is up to date but for its own new events: it was rebuilt from the events of its
  stream, and then applied the others.\<close>

definition rebuilt :: "'st handlers \<Rightarrow> 'st \<Rightarrow> string \<Rightarrow> DomainEvent list \<Rightarrow> 'st Aggregate \<Rightarrow> bool" where
  "rebuilt h st i es a \<longleftrightarrow> load_from_history h es (aggregate_init st i) = (Inr (), a)"

definition based_on :: "'st handlers \<Rightarrow> 'st \<Rightarrow> DomainEvent list \<Rightarrow> 'st Aggregate \<Rightarrow> bool" where
  "based_on h st es a \<longleftrightarrow> rebuilt h st (ag_aggregate_id a) (es @ ag_uncommitted_events a) (clear_uncommitted_events a)"

lemma replay_version:
  "run_each (replay_event h) es a = (Inr (), a') \<Longrightarrow>
     ag_version a' = ag_version a + int (length es) \<and> ag_aggregate_id a' = ag_aggregate_id a \<and> ag_uncommitted_events a' = ag_uncommitted_events a"
proof (induction es arbitrary: a)
  case (Cons e es)
  obtain a1 where a1: "replay_event h e a = (Inr (), a1)" "run_each (replay_event h) es a1 = (Inr (), a')"
    using Cons.prems by (auto split: prod.splits sum.splits)
  have "ag_version a1 = ag_version a + 1 \<and> ag_aggregate_id a1 = ag_aggregate_id a \<and> ag_uncommitted_events a1 = ag_uncommitted_events a"
    using a1(1) by (auto simp: replay_event_def apply_event_def split: prod.splits sum.splits option.splits)
  then show ?case using Cons.IH [OF a1(2)] by auto
qed simp

lemma rebuilt_fields:
  "rebuilt h st i es a \<Longrightarrow> ag_version a = int (length es) \<and> ag_aggregate_id a = i \<and> ag_uncommitted_events a = []"
  using replay_version [of h es "aggregate_init st i" a] by (simp add: rebuilt_def load_from_history_def aggregate_init_def)

lemma based_on_version: "based_on h st es a \<Longrightarrow> ag_version a = int (length es + length (ag_uncommitted_events a))"
  using rebuilt_fields [of h st "ag_aggregate_id a" "es @ ag_uncommitted_events a" "clear_uncommitted_events a"]
  by (simp add: based_on_def clear_uncommitted_events_def)

text \<open>An aggregate that was just made or loaded is based on its stream, and applying an event that its handler takes keeps
  it so.\<close>

lemma based_on_init: "based_on h st [] (aggregate_init st i)"
  by (simp add: based_on_def rebuilt_def load_from_history_def aggregate_init_def clear_uncommitted_events_def)

lemma clear_same: "ag_uncommitted_events a = [] \<Longrightarrow> clear_uncommitted_events a = a"
  by (cases a) (simp add: clear_uncommitted_events_def)

lemma based_on_load: "rebuilt h st i es a \<Longrightarrow> based_on h st es a"
  using rebuilt_fields [of h st i es a] by (simp add: based_on_def clear_same)

lemma based_on_apply:
  assumes "based_on h st es a" "ag_apply h e a = (Inr (), a')"
  shows "based_on h st es a' \<and> ag_aggregate_id a' = ag_aggregate_id a \<and> ag_uncommitted_events a' = ag_uncommitted_events a @ [e]"
proof -
  obtain a1 where a1: "apply_event h e a = (Inr (), a1)"
    "a' = a1\<lparr>ag_uncommitted_events := ag_uncommitted_events a1 @ [e], ag_version := ag_version a1 + 1\<rparr>"
    using assms(2) by (auto simp: ag_apply_def split: prod.splits sum.splits)
  have same: "ag_uncommitted_events a1 = ag_uncommitted_events a" "ag_aggregate_id a1 = ag_aggregate_id a"
    using a1(1) by (auto simp: apply_event_def split: option.splits prod.splits)
  have "replay_event h e (clear_uncommitted_events a) = (Inr (), clear_uncommitted_events a')"
    using a1 by (auto simp: replay_event_def apply_event_def clear_uncommitted_events_def split: option.splits prod.splits)
  then have "run_each (replay_event h) ((es @ ag_uncommitted_events a) @ [e]) (aggregate_init st (ag_aggregate_id a)) =
      (Inr (), clear_uncommitted_events a')"
    using assms(1) unfolding run_each_append [of _ "es @ ag_uncommitted_events a"] by (simp add: based_on_def rebuilt_def load_from_history_def)
  then show ?thesis using same a1(2) by (simp add: based_on_def rebuilt_def load_from_history_def)
qed

context event_store
begin

text \<open>Saving an aggregate that is up to date appends its events, and loading it gives it back.\<close>

lemma save_load:
  assumes "valid s" "based_on h st (history s (ag_aggregate_id a)) a" "accepts s (ag_uncommitted_events a)"
    "store_save append_to a s = (q, (a', s'))"
  shows "q = Inr () \<and> valid s' \<and> a' = clear_uncommitted_events a \<and>
    history s' = (history s)(ag_aggregate_id a := history s (ag_aggregate_id a) @ ag_uncommitted_events a) \<and>
    store_load read h st (ag_aggregate_id a) s' = Inr (if ag_version a = 0 then None else Some a')"
proof -
  let ?i = "ag_aggregate_id a" and ?u = "ag_uncommitted_events a"
  have ver: "ag_version a = int (length (history s ?i) + length ?u)" by (rule based_on_version [OF assms(2)])
  define ex where "ex = (if ag_version a - int (length ?u) > 0 then Some (ag_version a - int (length ?u)) else None)"
  have fresh: "\<not> stale ex (history s ?i)" by (simp add: stale_def ver ex_def)
  have saved: "q = Inr () \<and> valid s' \<and> a' = clear_uncommitted_events a \<and> history s' = (history s)(?i := history s ?i @ ?u)"
  proof (cases "?u = []")
    case True
    then show ?thesis using assms(1,4) by (auto simp: store_save_def clear_same)
  next
    case False
    obtain p s1 where p: "append_to ?i ?u ex s = (p, s1)" by (rule prod.exhaust)
    have "(q, (a', s')) = (case p of Inl x \<Rightarrow> (Inl x, (a, s1)) | Inr _ \<Rightarrow> (Inr (), (clear_uncommitted_events a, s1)))"
      using assms(4) False unfolding store_save_def Let_def ex_def [symmetric] p by simp
    then show ?thesis using append_to [OF assms(1,3) p] fresh by auto
  qed
  obtain ens where ens: "read ?i 0 None s' = Inr ens" "map en_event ens = history s ?i @ ?u"
    using read_all_events [of s' ?i] saved by auto
  have "ens = [] \<longleftrightarrow> ag_version a = 0" using ens(2) ver by (metis add_is_0 append_is_Nil_conv length_0_conv list.map_disc_iff of_nat_eq_0_iff)
  then have "store_load read h st ?i s' = Inr (if ag_version a = 0 then None else Some a')"
    using assms(2) ens saved by (simp add: store_load_def based_on_def rebuilt_def)
  with saved show ?thesis by blast
qed

text \<open>Of two that were loaded from the same events, the one that comes second is refused and nothing is written.\<close>

lemma save_conflict:
  assumes "valid s" "based_on h st es a" "accepts s (ag_uncommitted_events a)" "es \<noteq> []" "ag_uncommitted_events a \<noteq> []"
    "length (history s (ag_aggregate_id a)) \<noteq> length es"
  shows "\<exists>s'. store_save append_to a s = (Inl (concurrency_error (ag_aggregate_id a) (int (length es))
      (int (length (history s (ag_aggregate_id a))))), (a, s')) \<and> history s' = history s \<and> valid s'"
proof -
  let ?i = "ag_aggregate_id a" and ?u = "ag_uncommitted_events a"
  have ver: "ag_version a - int (length ?u) = int (length es)" using based_on_version [OF assms(2)] by simp
  obtain p s1 where p: "append_to ?i ?u (Some (int (length es))) s = (p, s1)" by (rule prod.exhaust)
  show ?thesis using append_to [OF assms(1,3) p] assms(4-6) by (simp add: store_save_def Let_def ver p stale_def)
qed

end

end
