(* ===== verification/Sqlite_Events.thy ===== *)
theory Sqlite_Events
  imports Event_Sourcing Sqlite_Repository
begin

text \<open>
  Events as data, the event store in an SQLite database and the repository of event-sourced aggregates
  (\<^verbatim>\<open>victor/core/event_sourcing.py\<close>). The tables are lists of rows; an exception leaves the connection block without a
  commit. JSON, the text of dates and the clock are in the record \<open>event_codec\<close>. A registered event class is known by
  its fields, each with its default. Identifiers of events are texts, as the class declares them.
\<close>

section \<open>Events as data\<close>

record event_codec =
  ec_dumps :: "pyval \<Rightarrow> string result"
  ec_loads :: "string \<Rightarrow> pyval result"
  ec_iso :: "nat \<Rightarrow> string option"
  ec_parse :: "pyval \<Rightarrow> nat result"
  ec_uuid :: pyval
  ec_now :: "nat \<Rightarrow> nat"

type_synonym event_registry = "(string, state) dict"

definition register_event :: "string \<Rightarrow> state \<Rightarrow> event_registry \<Rightarrow> event_registry" where
  "register_event c flds reg = dict_set c flds reg"

text \<open>The classes of the module itself.\<close>

definition common_events :: event_registry where
  "common_events =
    [(''TaskStartedEvent'', [(''task_id'', VStr ''''), (''prompt'', VStr ''''), (''provider'', VStr ''''), (''model'', VStr '''')]),
     (''TaskCompletedEvent'', [(''task_id'', VStr ''''), (''result'', VStr ''''), (''duration_ms'', VFloat 0), (''tokens_used'', VInt 0)]),
     (''TaskFailedEvent'', [(''task_id'', VStr ''''), (''error'', VStr ''''), (''error_type'', VStr '''')]),
     (''ToolCalledEvent'', [(''task_id'', VStr ''''), (''tool_name'', VStr ''''), (''arguments'', VDict [])]),
     (''ToolResultEvent'', [(''task_id'', VStr ''''), (''tool_name'', VStr ''''), (''success'', VBool True), (''result'', VStr ''''),
        (''duration_ms'', VFloat 0)]),
     (''StateChangedEvent'', [(''task_id'', VStr ''''), (''from_state'', VStr ''''), (''to_state'', VStr ''''), (''reason'', VStr '''')]),
     (''ContextCompactedEvent'', [(''messages_removed'', VInt 0), (''chars_freed'', VInt 0), (''trigger'', VStr ''''), (''summary'', VStr '''')]),
     (''SessionResumedEvent'', [(''session_id'', VStr ''''), (''messages_restored'', VInt 0), (''ledger_entries_restored'', VInt 0)])]"

definition date_text :: "event_codec \<Rightarrow> pyval \<Rightarrow> string result" where
  "date_text ec v =
     (case v of
        VObj n \<Rightarrow> (case ec_iso ec n of Some s \<Rightarrow> Inr s | None \<Rightarrow> Inl (PyExc ''AttributeError'' ''isoformat''))
      | _ \<Rightarrow> Inl (PyExc ''AttributeError'' ''isoformat''))"

definition event_to_dict :: "event_codec \<Rightarrow> DomainEvent \<Rightarrow> state result" where
  "event_to_dict ec e =
     bind_result (date_text ec (ev_timestamp e)) (\<lambda>t. Inr
       [(''event_id'', ev_event_id e), (''event_type'', VStr (ev_class e)), (''timestamp'', VStr t), (''version'', ev_version e),
        (''correlation_id'', ev_correlation_id e), (''causation_id'', ev_causation_id e), (''metadata'', ev_metadata e),
        (''data'', VDict (ev_data e))])"

definition envelope_to_dict :: "event_codec \<Rightarrow> EventEnvelope \<Rightarrow> state result" where
  "envelope_to_dict ec en =
     bind_result (date_text ec (VObj (en_stored_at en))) (\<lambda>t. bind_result (event_to_dict ec (en_event en)) (\<lambda>d. Inr
       [(''stream_id'', VStr (en_stream_id en)), (''stream_version'', VInt (en_stream_version en)), (''stored_at'', VStr t), (''event'', VDict d)]))"

text \<open>The class that the registry has for the type of an event; an unknown type stands for the base class, which has no
  fields of its own.\<close>

definition event_class :: "event_registry \<Rightarrow> pyval \<Rightarrow> (string \<times> state) result" where
  "event_class reg ty =
     (case ty of
        VList _ \<Rightarrow> Inl type_error
      | VDict _ \<Rightarrow> Inl type_error
      | VStr c \<Rightarrow> (case dict_get reg c of Some flds \<Rightarrow> Inr (c, flds) | None \<Rightarrow> Inr (''DomainEvent'', []))
      | _ \<Rightarrow> Inr (''DomainEvent'', []))"

text \<open>\<^verbatim>\<open>event_cls(..., **event_data)\<close>: keyword arguments that the class does not have raise.\<close>

definition own_fields :: "state \<Rightarrow> pyval \<Rightarrow> state result" where
  "own_fields flds v =
     (case v of
        VDict d \<Rightarrow>
          (if list_all (\<lambda>k. dict_has flds k) (dict_keys d)
           then Inr (map (\<lambda>(k, x). (k, dict_get_or d k x)) flds) else Inl type_error)
      | _ \<Rightarrow> Inl type_error)"

definition event_from_dict :: "event_codec \<Rightarrow> event_registry \<Rightarrow> state \<Rightarrow> DomainEvent result" where
  "event_from_dict ec reg d =
     bind_result (event_class reg (dict_get_or d ''event_type'' (VStr ''DomainEvent''))) (\<lambda>(c, flds).
     bind_result (case dict_get d ''timestamp'' of None \<Rightarrow> Inl (KeyError ''timestamp'') | Some t \<Rightarrow> ec_parse ec t) (\<lambda>n.
     bind_result (own_fields flds (dict_get_or d ''data'' (VDict []))) (\<lambda>own. Inr
       \<lparr>ev_class = c, ev_event_id = dict_get_or d ''event_id'' (ec_uuid ec), ev_timestamp = VObj n,
        ev_version = dict_get_or d ''version'' (VInt 1), ev_correlation_id = dict_get_or d ''correlation_id'' VNone,
        ev_causation_id = dict_get_or d ''causation_id'' VNone, ev_metadata = dict_get_or d ''metadata'' (VDict []),
        ev_data = own\<rparr>)))"

definition decode_event :: "event_codec \<Rightarrow> event_registry \<Rightarrow> string \<Rightarrow> DomainEvent result" where
  "decode_event ec reg t =
     bind_result (ec_loads ec t) (\<lambda>v. case v of
       VDict d \<Rightarrow> event_from_dict ec reg d | _ \<Rightarrow> Inl (PyExc ''AttributeError'' ''get''))"

section \<open>The store\<close>

record event_row =
  er_global_position :: nat
  er_stream_id :: string
  er_stream_version :: int
  er_event_id :: pyval
  er_event_type :: string
  er_event_data :: string
  er_stored_at :: string

record SQLiteEventStore =
  se_events :: "event_row list"
  se_sequence :: nat
  se_snapshots :: "(string, int \<times> string \<times> string) dict"
  se_reads :: nat

definition se_init :: SQLiteEventStore where
  "se_init = \<lparr>se_events = [], se_sequence = 0, se_snapshots = [], se_reads = 0\<rparr>"

definition se_rows :: "SQLiteEventStore \<Rightarrow> string \<Rightarrow> event_row list" where
  "se_rows s i = filter (\<lambda>r. er_stream_id r = i) (se_events s)"

text \<open>\<^verbatim>\<open>COALESCE(MAX(stream_version), 0)\<close>.\<close>

definition se_get_stream_version :: "string \<Rightarrow> SQLiteEventStore \<Rightarrow> int" where
  "se_get_stream_version i s = (if se_rows s i = [] then 0 else Max (er_stream_version ` set (se_rows s i)))"

text \<open>One turn of the loop of an append: the text and the time are made, and the row is inserted if it violates no
  uniqueness.\<close>

definition se_insert :: "event_codec \<Rightarrow> string \<Rightarrow> DomainEvent \<Rightarrow> int \<times> SQLiteEventStore \<Rightarrow> unit result \<times> int \<times> SQLiteEventStore" where
  "se_insert ec i e st =
     (case st of (v, s) \<Rightarrow>
        case bind_result (event_to_dict ec e) (\<lambda>d. ec_dumps ec (VDict d)) of
          Inl x \<Rightarrow> (Inl x, (v + 1, s))
        | Inr t \<Rightarrow>
            (let s = s\<lparr>se_reads := Suc (se_reads s)\<rparr>
             in case date_text ec (VObj (ec_now ec (se_reads s - 1))) of
                 Inl x \<Rightarrow> (Inl x, (v + 1, s))
               | Inr tm \<Rightarrow>
                   (if list_ex (\<lambda>r. er_event_id r = ev_event_id e \<or> er_stream_id r = i \<and> er_stream_version r = v + 1) (se_events s)
                    then (Inl (PyExc ''IntegrityError'' ''UNIQUE constraint failed''), (v + 1, s))
                    else (Inr (), (v + 1, s\<lparr>se_sequence := Suc (se_sequence s), se_events := se_events s @
                      [\<lparr>er_global_position = Suc (se_sequence s), er_stream_id = i, er_stream_version = v + 1, er_event_id = ev_event_id e,
                        er_event_type = ev_class e, er_event_data = t, er_stored_at = tm\<rparr>]\<rparr>)))))"

text \<open>An exception takes all rows of the append back.\<close>

definition se_append ::
  "event_codec \<Rightarrow> string \<Rightarrow> DomainEvent list \<Rightarrow> int option \<Rightarrow> SQLiteEventStore \<Rightarrow> int result \<times> SQLiteEventStore" where
  "se_append ec i es expected s =
     (let current = se_get_stream_version i s
      in if (case expected of None \<Rightarrow> False | Some v \<Rightarrow> current \<noteq> v)
         then (Inl (concurrency_error i (the expected) current), s)
         else case run_each (se_insert ec i) es (current, s) of
             (Inl x, (v, s1)) \<Rightarrow> (Inl x, s\<lparr>se_reads := se_reads s1\<rparr>)
           | (Inr _, (v, s1)) \<Rightarrow> (Inr v, s1))"

text \<open>Rows whose data cannot be read are skipped.\<close>

fun rows_to_envelopes :: "event_codec \<Rightarrow> event_registry \<Rightarrow> event_row list \<Rightarrow> EventEnvelope list result" where
  "rows_to_envelopes ec reg [] = Inr []"
| "rows_to_envelopes ec reg (r # rs) =
     (case decode_event ec reg (er_event_data r) of
        Inl x \<Rightarrow> if exc_type x \<in> {''JSONDecodeError'', ''KeyError'', ''TypeError''} then rows_to_envelopes ec reg rs else Inl x
      | Inr e \<Rightarrow>
          bind_result (ec_parse ec (VStr (er_stored_at r))) (\<lambda>n.
          bind_result (rows_to_envelopes ec reg rs) (\<lambda>ens. Inr
            (\<lparr>en_stream_id = er_stream_id r, en_stream_version = er_stream_version r, en_event = e, en_stored_at = n\<rparr> # ens))))"

definition se_read :: "event_codec \<Rightarrow> event_registry \<Rightarrow> string \<Rightarrow> int \<Rightarrow> int option \<Rightarrow> SQLiteEventStore \<Rightarrow> EventEnvelope list result" where
  "se_read ec reg i a b s =
     rows_to_envelopes ec reg (sort_key er_stream_version (filter (\<lambda>r. in_range a b (er_stream_version r)) (se_rows s i)))"

definition se_read_all :: "event_codec \<Rightarrow> event_registry \<Rightarrow> nat \<Rightarrow> nat \<Rightarrow> SQLiteEventStore \<Rightarrow> EventEnvelope list result" where
  "se_read_all ec reg from_position limit s =
     rows_to_envelopes ec reg (take limit (sort_key er_global_position (filter (\<lambda>r. er_global_position r > from_position) (se_events s))))"

definition save_snapshot :: "event_codec \<Rightarrow> string \<Rightarrow> int \<Rightarrow> pyval \<Rightarrow> SQLiteEventStore \<Rightarrow> unit result \<times> SQLiteEventStore" where
  "save_snapshot ec i v snapshot s =
     (case ec_dumps ec snapshot of
        Inl x \<Rightarrow> (Inl x, s)
      | Inr t \<Rightarrow>
          (let s = s\<lparr>se_reads := Suc (se_reads s)\<rparr>
           in case date_text ec (VObj (ec_now ec (se_reads s - 1))) of
               Inl x \<Rightarrow> (Inl x, s)
             | Inr tm \<Rightarrow> (Inr (), s\<lparr>se_snapshots := dict_set i (v, t, tm) (se_snapshots s)\<rparr>)))"

definition load_snapshot :: "event_codec \<Rightarrow> string \<Rightarrow> SQLiteEventStore \<Rightarrow> (int \<times> pyval) option result" where
  "load_snapshot ec i s =
     (case dict_get (se_snapshots s) i of
        None \<Rightarrow> Inr None
      | Some (v, t, _) \<Rightarrow> bind_result (ec_loads ec t) (\<lambda>d. Inr (Some (v, d))))"

section \<open>Snapshots and the repository of aggregates\<close>

text \<open>\<open>public\<close> lists the attributes of an aggregate whose names do not start with an underscore, \<open>assign\<close> sets one.\<close>

definition get_snapshot :: "('st \<Rightarrow> state) \<Rightarrow> 'st Aggregate \<Rightarrow> pyval" where
  "get_snapshot public a =
     VDict [(''aggregate_id'', VStr (ag_aggregate_id a)), (''version'', VInt (ag_version a)), (''state'', VDict (public (ag_state a)))]"

text \<open>A snapshot with other types than \<open>get_snapshot\<close> writes is outside the model (\<open>None\<close>).\<close>

definition load_from_snapshot :: "(string \<times> pyval \<Rightarrow> 'st \<Rightarrow> 'st) \<Rightarrow> state \<Rightarrow> 'st Aggregate \<Rightarrow> 'st Aggregate result option" where
  "load_from_snapshot assign d a =
     (case dict_get d ''aggregate_id'' of
        None \<Rightarrow> Some (Inl (KeyError ''aggregate_id''))
      | Some i \<Rightarrow>
          (case dict_get d ''version'' of
             None \<Rightarrow> Some (Inl (KeyError ''version''))
           | Some v \<Rightarrow>
               (case (i, v, dict_get_or d ''state'' (VDict [])) of
                  (VStr i, VInt v, VDict st) \<Rightarrow>
                    Some (Inr (a\<lparr>ag_aggregate_id := i, ag_version := v, ag_state := fold assign st (ag_state a)\<rparr>))
                | _ \<Rightarrow> None)))"

definition es_get :: "event_codec \<Rightarrow> event_registry \<Rightarrow> 'st handlers \<Rightarrow> 'st \<Rightarrow> string \<Rightarrow> SQLiteEventStore \<Rightarrow> 'st Aggregate option result" where
  "es_get ec reg h st i s = store_load (se_read ec reg) h st i s"

definition es_save ::
  "event_codec \<Rightarrow> ('st \<Rightarrow> state) \<Rightarrow> int \<Rightarrow> 'st Aggregate \<Rightarrow> SQLiteEventStore \<Rightarrow> unit result \<times> 'st Aggregate \<times> SQLiteEventStore" where
  "es_save ec public snapshot_interval a s =
     (case store_save (se_append ec) a s of
        (Inl x, (a, s)) \<Rightarrow> (Inl x, (a, s))
      | (Inr _, (a, s)) \<Rightarrow>
          (if snapshot_interval = 0 then (Inl (PyExc ''ZeroDivisionError'' ''integer modulo by zero''), (a, s))
           else if ag_version a mod snapshot_interval = 0
           then (case save_snapshot ec (ag_aggregate_id a) (ag_version a) (get_snapshot public a) s of (q, s) \<Rightarrow> (q, (a, s)))
           else (Inr (), (a, s))))"

definition es_exists :: "string \<Rightarrow> SQLiteEventStore \<Rightarrow> bool" where
  "es_exists i s \<longleftrightarrow> se_get_stream_version i s > 0"

section \<open>Writing an event and reading it back\<close>

definition event_codec_ok :: "event_codec \<Rightarrow> bool" where
  "event_codec_ok ec \<longleftrightarrow>
     (\<forall>v. json_value v \<longrightarrow> (\<exists>t. ec_dumps ec v = Inr t \<and> ec_loads ec t = Inr v)) \<and>
     (\<forall>n t. ec_iso ec n = Some t \<longrightarrow> ec_parse ec (VStr t) = Inr n) \<and> (\<forall>k. ec_iso ec (ec_now ec k) \<noteq> None)"

text \<open>An event of a registered class with the fields of the class, all of which JSON has.\<close>

definition event_fits :: "event_codec \<Rightarrow> event_registry \<Rightarrow> DomainEvent \<Rightarrow> bool" where
  "event_fits ec reg e \<longleftrightarrow>
     (\<exists>flds. dict_get reg (ev_class e) = Some flds \<and> dict_keys flds = dict_keys (ev_data e)) \<and>
     (\<exists>n t. ev_timestamp e = VObj n \<and> ec_iso ec n = Some t) \<and> json_value (VDict (ev_data e)) \<and>
     list_all json_value [ev_event_id e, ev_version e, ev_correlation_id e, ev_causation_id e, ev_metadata e]"

lemma own_fields_id:
  assumes "dict_ok d" "dict_keys flds = dict_keys d"
  shows "own_fields flds (VDict d) = Inr d"
proof -
  have "map (\<lambda>(k, x). (k, dict_get_or d k x)) flds = d"
  proof (rule nth_equalityI)
    show len: "length (map (\<lambda>(k, x). (k, dict_get_or d k x)) flds) = length d"
      using arg_cong [OF assms(2), of length] by (simp add: dict_keys_def)
    fix j
    assume "j < length (map (\<lambda>(k, x). (k, dict_get_or d k x)) flds)"
    then have j: "j < length flds" "j < length d" using len by simp_all
    have "fst (flds ! j) = fst (d ! j)" using assms(2) j by (metis dict_keys_def nth_map)
    moreover have "dict_get d (fst (d ! j)) = Some (snd (d ! j))" using assms(1) j(2) by (simp add: dict_get_items)
    ultimately show "map (\<lambda>(k, x). (k, dict_get_or d k x)) flds ! j = d ! j"
      using j by (simp add: split_beta dict_get_or_def)
  qed
  then show ?thesis using assms(2) by (simp add: own_fields_def list_all_iff dict_has_keys)
qed

lemma event_write_read:
  assumes "event_codec_ok ec" "event_fits ec reg e"
  shows "\<exists>d t. event_to_dict ec e = Inr d \<and> ec_dumps ec (VDict d) = Inr t \<and> decode_event ec reg t = Inr e"
proof -
  obtain n tx where n: "ev_timestamp e = VObj n" "ec_iso ec n = Some tx" using assms(2) by (auto simp: event_fits_def)
  obtain flds where f: "dict_get reg (ev_class e) = Some flds" "dict_keys flds = dict_keys (ev_data e)"
    using assms(2) by (auto simp: event_fits_def)
  obtain d where d: "event_to_dict ec e = Inr d" by (simp add: event_to_dict_def date_text_def n)
  have dv: "d = [(''event_id'', ev_event_id e), (''event_type'', VStr (ev_class e)), (''timestamp'', VStr tx), (''version'', ev_version e),
        (''correlation_id'', ev_correlation_id e), (''causation_id'', ev_causation_id e), (''metadata'', ev_metadata e),
        (''data'', VDict (ev_data e))]" using d by (simp add: event_to_dict_def date_text_def n)
  have "json_value (VDict d)" using assms(2) by (simp add: dv event_fits_def dict_ok_def)
  then obtain t where t: "ec_dumps ec (VDict d) = Inr t" "ec_loads ec t = Inr (VDict d)"
    using assms(1) unfolding event_codec_ok_def by blast
  have "ec_parse ec (VStr tx) = Inr n" using assms(1) n by (simp add: event_codec_ok_def)
  moreover have "own_fields flds (VDict (ev_data e)) = Inr (ev_data e)"
    by (rule own_fields_id) (use assms(2) f in \<open>simp_all add: event_fits_def\<close>)
  ultimately have "event_from_dict ec reg d = Inr e"
    by (simp add: event_from_dict_def dv dict_get_or_def event_class_def f n(1))
  then show ?thesis using d t by (auto simp: decode_event_def)
qed

section \<open>The table keeps the contract of an event store\<close>

definition versions_ok :: "SQLiteEventStore \<Rightarrow> bool" where
  "versions_ok s \<longleftrightarrow> (\<forall>i. map er_stream_version (se_rows s i) = map int [1..<Suc (length (se_rows s i))])"

definition events_ok :: "event_codec \<Rightarrow> event_registry \<Rightarrow> SQLiteEventStore \<Rightarrow> bool" where
  "events_ok ec reg s \<longleftrightarrow> event_codec_ok ec \<and> versions_ok s \<and>
     (\<forall>r \<in> set (se_events s). (\<exists>e. decode_event ec reg (er_event_data r) = Inr e) \<and> (\<exists>n. ec_parse ec (VStr (er_stored_at r)) = Inr n)) \<and>
     map er_global_position (se_events s) = [1..<Suc (length (se_events s))] \<and> se_sequence s = length (se_events s)"

lemma events_okD:
  assumes "events_ok ec reg s"
  shows "event_codec_ok ec" "versions_ok s"
    "r \<in> set (se_events s) \<Longrightarrow> \<exists>e. decode_event ec reg (er_event_data r) = Inr e"
    "r \<in> set (se_events s) \<Longrightarrow> \<exists>n. ec_parse ec (VStr (er_stored_at r)) = Inr n"
    "map er_global_position (se_events s) = [1..<Suc (length (se_events s))]" "se_sequence s = length (se_events s)"
  using assms unfolding events_ok_def by blast+

definition row_event :: "event_codec \<Rightarrow> event_registry \<Rightarrow> event_row \<Rightarrow> DomainEvent" where
  "row_event ec reg r = projr (decode_event ec reg (er_event_data r))"

definition se_history :: "event_codec \<Rightarrow> event_registry \<Rightarrow> SQLiteEventStore \<Rightarrow> string \<Rightarrow> DomainEvent list" where
  "se_history ec reg s i = map (row_event ec reg) (se_rows s i)"

definition se_accepts :: "event_codec \<Rightarrow> event_registry \<Rightarrow> SQLiteEventStore \<Rightarrow> DomainEvent list \<Rightarrow> bool" where
  "se_accepts ec reg s es \<longleftrightarrow> list_all (event_fits ec reg) es \<and> distinct (map ev_event_id es) \<and>
     set (map ev_event_id es) \<inter> set (map er_event_id (se_events s)) = {}"

lemma se_rows_set: "set (se_rows s i) \<subseteq> set (se_events s)"
  by (auto simp: se_rows_def)

lemma Max_versions: "n > 0 \<Longrightarrow> Max (int ` {1..<Suc n}) = int n"
  by (intro Max_eqI) auto

lemma versions_okD: "versions_ok s \<Longrightarrow> map er_stream_version (se_rows s i) = map int [1..<Suc (length (se_rows s i))]"
  unfolding versions_ok_def by blast

lemma versions_ok_current:
  assumes "versions_ok s"
  shows "se_get_stream_version i s = int (length (se_rows s i))"
proof -
  have "er_stream_version ` set (se_rows s i) = int ` {1..<Suc (length (se_rows s i))}"
    using arg_cong [OF versions_okD [OF assms, of i], of set] by (simp del: upt_Suc)
  then show ?thesis using Max_versions [of "length (se_rows s i)"] by (simp add: se_get_stream_version_def)
qed

lemmas se_version = events_okD(2) [THEN versions_ok_current]

text \<open>A row that takes the next version of its stream keeps the numbering.\<close>

lemma se_rows_add: "se_events s' = se_events s @ [r] \<Longrightarrow> se_rows s' j = (if j = er_stream_id r then se_rows s j @ [r] else se_rows s j)"
  by (simp add: se_rows_def)

lemma versions_ok_add:
  assumes "versions_ok s" "se_events s' = se_events s @ [r]" "er_stream_version r = int (length (se_rows s (er_stream_id r))) + 1"
  shows "versions_ok s'"
proof -
  have "map er_stream_version (se_rows s j) = map int [1..<Suc (length (se_rows s j))]" for j by (rule versions_okD [OF assms(1)])
  then show ?thesis unfolding versions_ok_def se_rows_add [OF assms(2)] using assms(3) by (simp del: upt_Suc add: upt_Suc_append)
qed

lemma se_insert_ok:
  assumes "events_ok ec reg s" "event_fits ec reg e" "ev_event_id e \<notin> set (map er_event_id (se_events s))"
  shows "\<exists>r s'. se_insert ec i e (int (length (se_rows s i)), s) = (Inr (), (int (length (se_rows s' i)), s')) \<and> events_ok ec reg s' \<and>
    se_events s' = se_events s @ [r] \<and> er_stream_id r = i \<and> er_stream_version r = int (length (se_rows s i)) + 1 \<and>
    er_event_id r = ev_event_id e \<and> row_event ec reg r = e"
proof -
  have c: "event_codec_ok ec" using assms(1) by (simp add: events_ok_def)
  obtain d t where t: "event_to_dict ec e = Inr d" "ec_dumps ec (VDict d) = Inr t" "decode_event ec reg t = Inr e"
    using event_write_read [OF c assms(2)] by blast
  obtain tm where tm: "ec_iso ec (ec_now ec (se_reads s)) = Some tm" "ec_parse ec (VStr tm) = Inr (ec_now ec (se_reads s))"
    using c unfolding event_codec_ok_def by (meson not_None_eq)
  have vers: "map er_stream_version (se_rows s j) = map int [1..<Suc (length (se_rows s j))]" for j
    by (rule versions_okD [OF events_okD(2) [OF assms(1)]])
  have free: "\<not> (er_stream_id r = i \<and> er_stream_version r = int (length (se_rows s i)) + 1)" if "r \<in> set (se_events s)" for r
  proof
    assume r: "er_stream_id r = i \<and> er_stream_version r = int (length (se_rows s i)) + 1"
    then have "r \<in> set (se_rows s i)" using that by (simp add: se_rows_def)
    then have "er_stream_version r \<in> set (map er_stream_version (se_rows s i))" by simp
    then show False using r unfolding vers by auto
  qed
  let ?r = "\<lparr>er_global_position = Suc (se_sequence s), er_stream_id = i, er_stream_version = int (length (se_rows s i)) + 1,
      er_event_id = ev_event_id e, er_event_type = ev_class e, er_event_data = t, er_stored_at = tm\<rparr>"
  let ?s = "s\<lparr>se_reads := Suc (se_reads s), se_sequence := Suc (se_sequence s), se_events := se_events s @ [?r]\<rparr>"
  have rows: "se_rows ?s j = (if j = i then se_rows s i @ [?r] else se_rows s j)" for j by (simp add: se_rows_def)
  have "versions_ok ?s" by (rule versions_ok_add [OF events_okD(2) [OF assms(1)], where r = ?r]) simp_all
  then have ok: "events_ok ec reg ?s" using events_okD [OF assms(1)] t(3) tm(2) by (auto simp: events_ok_def)
  have "\<not> list_ex (\<lambda>r. er_event_id r = ev_event_id e \<or> er_stream_id r = i \<and> er_stream_version r = int (length (se_rows s i)) + 1) (se_events s)"
    using assms(3) free by (auto simp: list_ex_iff image_iff)
  then have "se_insert ec i e (int (length (se_rows s i)), s) = (Inr (), (int (length (se_rows ?s i)), ?s))"
    by (simp add: se_insert_def t date_text_def tm Let_def rows)
  then show ?thesis using ok by (intro exI [of _ ?r] exI [of _ ?s]) (simp add: row_event_def t(3))
qed

lemma se_inserts_ok:
  assumes "events_ok ec reg s" "se_accepts ec reg s es"
  shows "\<exists>s'. run_each (se_insert ec i) es (int (length (se_rows s i)), s) = (Inr (), (int (length (se_rows s' i)), s')) \<and>
    events_ok ec reg s' \<and> se_history ec reg s' = (se_history ec reg s)(i := se_history ec reg s i @ es)"
  using assms
proof (induction es arbitrary: s)
  case (Cons e es)
  obtain r s1 where s1: "se_insert ec i e (int (length (se_rows s i)), s) = (Inr (), (int (length (se_rows s1 i)), s1))" "events_ok ec reg s1"
    and r: "se_events s1 = se_events s @ [r]" "er_stream_id r = i" "er_event_id r = ev_event_id e" "row_event ec reg r = e"
    using se_insert_ok [OF Cons.prems(1), of e i] Cons.prems(2) by (auto simp: se_accepts_def)
  have hist: "se_history ec reg s1 = (se_history ec reg s)(i := se_history ec reg s i @ [e])"
    using r by (auto simp: se_history_def se_rows_add [OF r(1)])
  have "se_accepts ec reg s1 es" using Cons.prems(2) by (auto simp: se_accepts_def r)
  then obtain s' where "run_each (se_insert ec i) es (int (length (se_rows s1 i)), s1) = (Inr (), (int (length (se_rows s' i)), s'))"
    "events_ok ec reg s'" "se_history ec reg s' = (se_history ec reg s1)(i := se_history ec reg s1 i @ es)"
    using Cons.IH [OF s1(2)] by blast
  then show ?case using s1(1) hist by (auto simp: fun_eq_iff)
qed auto

lemma rows_to_envelopes_ok:
  "\<forall>r \<in> set rs. (\<exists>e. decode_event ec reg (er_event_data r) = Inr e) \<and> (\<exists>n. ec_parse ec (VStr (er_stored_at r)) = Inr n) \<Longrightarrow>
     \<exists>ens. rows_to_envelopes ec reg rs = Inr ens \<and>
       map (\<lambda>en. (en_stream_id en, en_stream_version en, en_event en)) ens = map (\<lambda>r. (er_stream_id r, er_stream_version r, row_event ec reg r)) rs"
  by (induction rs) (auto simp: row_event_def)

interpretation sqlite_events: event_store "se_history ec reg" "events_ok ec reg" "se_accepts ec reg" "se_append ec" "se_read ec reg"
  se_get_stream_version for ec reg
proof (unfold_locales, goal_cases)
  case (1 s es i expected q s')
  have len: "length (se_history ec reg s i) = length (se_rows s i)" by (simp add: se_history_def)
  obtain s1 where s1: "run_each (se_insert ec i) es (int (length (se_rows s i)), s) = (Inr (), (int (length (se_rows s1 i)), s1))"
    "events_ok ec reg s1" "se_history ec reg s1 = (se_history ec reg s)(i := se_history ec reg s i @ es)"
    using se_inserts_ok [OF 1(1,2)] by blast
  have len1: "length (se_rows s1 i) = length (se_history ec reg s i @ es)"
    using arg_cong [OF s1(3), of "\<lambda>f. length (f i)"] by (simp add: se_history_def)
  have "(case expected of None \<Rightarrow> False | Some v \<Rightarrow> int (length (se_rows s i)) \<noteq> v) \<longleftrightarrow> stale expected (se_history ec reg s i)"
    by (auto simp: stale_def len split: option.splits)
  then have "se_append ec i es expected s = (if stale expected (se_history ec reg s i)
      then (Inl (concurrency_error i (the expected) (int (length (se_history ec reg s i)))), s) else (Inr (int (length (se_rows s1 i))), s1))"
    by (simp add: se_append_def Let_def se_version [OF 1(1)] s1(1) len)
  then show ?case using 1 s1(2,3) len1 by (auto split: if_splits)
next
  case (2 s i a b)
  let ?rs = "filter (\<lambda>r. in_range a b (er_stream_version r)) (se_rows s i)"
  have vers: "map er_stream_version (se_rows s i) = map int [1..<Suc (length (se_rows s i))]" by (rule versions_okD [OF events_okD(2) [OF 2]])
  have "sorted (map er_stream_version (se_rows s i))" unfolding vers by (simp add: sorted_map sorted_wrt_upt del: upt_Suc)
  then have "sorted (map er_stream_version ?rs)" by (rule sorted_filter)
  then have sort: "sort_key er_stream_version ?rs = ?rs" by (rule sort_key_id_if_sorted)
  obtain ens where ens: "rows_to_envelopes ec reg ?rs = Inr ens"
    "map (\<lambda>en. (en_stream_id en, en_stream_version en, en_event en)) ens = map (\<lambda>r. (er_stream_id r, er_stream_version r, row_event ec reg r)) ?rs"
  proof -
    have "\<forall>r \<in> set ?rs. (\<exists>e. decode_event ec reg (er_event_data r) = Inr e) \<and> (\<exists>n. ec_parse ec (VStr (er_stored_at r)) = Inr n)"
      using events_okD(3,4) [OF 2] se_rows_set [of s i] by fastforce
    from rows_to_envelopes_ok [OF this] that show ?thesis by blast
  qed
  have "map (\<lambda>en. (en_stream_version en, en_event en)) ens = map (\<lambda>r. (er_stream_version r, row_event ec reg r)) ?rs"
    using arg_cong [OF ens(2), of "map snd"] by (simp add: comp_def)
  also have "\<dots> = filter (\<lambda>p. in_range a b (fst p)) (map (\<lambda>r. (er_stream_version r, row_event ec reg r)) (se_rows s i))"
    by (simp add: filter_map comp_def)
  also have "map (\<lambda>r. (er_stream_version r, row_event ec reg r)) (se_rows s i) = numbered (se_history ec reg s i)"
    by (simp only: numbered_def se_history_def length_map vers [symmetric] zip_maps)
  finally show ?case using ens(1) sort by (simp add: se_read_def)
next
  case (3 s i)
  then show ?case by (simp add: se_version se_history_def)
qed

end
