(* ===== verification/Event_Properties.thy ===== *)
theory Event_Properties
  imports Sqlite_Events
begin

text \<open>
  What the event stores promise to those who use them: aggregates come back from the store, the log of a stream is what
  was accepted, and the store in memory and the store in a database cannot be told apart.
\<close>

section \<open>Aggregates and streams\<close>

lemma se_init_ok: "event_codec_ok ec \<Longrightarrow> events_ok ec reg se_init"
  by (simp add: events_ok_def versions_ok_def se_init_def se_rows_def)

text \<open>C15. An aggregate survives its store. Take an aggregate that was rebuilt from the events of its stream and then applied
  events of its own, which the table can take: the save goes through, appends exactly these events to the stream and to no
  other, and loading the aggregate afterwards gives it back, with its state and its version.\<close>

theorem aggregate_roundtrip:
  assumes "events_ok ec reg s" "based_on h st (se_history ec reg s (ag_aggregate_id a)) a"
    "se_accepts ec reg s (ag_uncommitted_events a)" "ag_uncommitted_events a \<noteq> []"
  shows "\<exists>s'. store_save (se_append ec) a s = (Inr (), (clear_uncommitted_events a, s')) \<and>
    se_history ec reg s' = (se_history ec reg s)(ag_aggregate_id a := se_history ec reg s (ag_aggregate_id a) @ ag_uncommitted_events a) \<and>
    es_get ec reg h st (ag_aggregate_id a) s' = Inr (Some (clear_uncommitted_events a))"
proof -
  obtain q a' s' where run: "store_save (se_append ec) a s = (q, (a', s'))" by (metis prod.exhaust)
  have "ag_version a \<noteq> 0" using based_on_version [OF assms(2)] assms(4) by (simp flip: of_nat_add)
  then show ?thesis using sqlite_events.save_load [OF assms(1-3) run] run by (simp add: es_get_def)
qed

text \<open>A snapshot of an aggregate comes back as it was saved, and restores its state where \<open>assign\<close> sets what \<open>public\<close> lists.\<close>

lemma snapshot_roundtrip:
  assumes "event_codec_ok ec" "json_value (get_snapshot public a)"
  shows "\<exists>s'. save_snapshot ec i v (get_snapshot public a) s = (Inr (), s') \<and> load_snapshot ec i s' = Inr (Some (v, get_snapshot public a)) \<and>
    se_events s' = se_events s"
proof -
  obtain t where t: "ec_dumps ec (get_snapshot public a) = Inr t" "ec_loads ec t = Inr (get_snapshot public a)"
    using assms by (auto simp: event_codec_ok_def)
  obtain tm where "ec_iso ec (ec_now ec (se_reads s)) = Some tm" using assms(1) unfolding event_codec_ok_def by (meson not_None_eq)
  then show ?thesis by (simp add: save_snapshot_def load_snapshot_def date_text_def t dict_simps)
qed

lemma snapshot_restores:
  assumes "fold assign (public (ag_state a)) st = ag_state a"
  shows "\<exists>d. get_snapshot public a = VDict d \<and> load_from_snapshot assign d (aggregate_init st j) = Some (Inr (clear_uncommitted_events a))"
  using assms by (simp add: get_snapshot_def load_from_snapshot_def dict_get_or_def aggregate_init_def clear_uncommitted_events_def)

text \<open>A sequence of attempts to append: the stream, the events and the version that the writer believes to be current.\<close>

type_synonym append_attempt = "string \<times> DomainEvent list \<times> int option"

definition try_append :: "event_codec \<Rightarrow> append_attempt \<Rightarrow> SQLiteEventStore \<Rightarrow> int result \<times> SQLiteEventStore" where
  "try_append ec x s = (case x of (i, es, expected) \<Rightarrow> se_append ec i es expected s)"

lemma try_append_eq [simp]: "try_append ec (i, es, expected) s = se_append ec i es expected s"
  by (simp add: try_append_def)

text \<open>The attempts for a stream that went through.\<close>

definition accepted :: "string \<Rightarrow> append_attempt list \<Rightarrow> int result list \<Rightarrow> (DomainEvent list \<times> int option \<times> int) list" where
  "accepted i xs qs = concat (map (\<lambda>((j, es, expected), q). case q of Inl _ \<Rightarrow> [] | Inr v \<Rightarrow> if j = i then [(es, expected, v)] else []) (zip xs qs))"

text \<open>Each went through on top of the events that were there when it was tried, and of the expected version if it had one.\<close>

fun chained :: "int \<Rightarrow> (DomainEvent list \<times> int option \<times> int) list \<Rightarrow> bool" where
  "chained n [] = True"
| "chained n ((es, expected, v) # acc) = ((expected = None \<or> expected = Some n) \<and> v = n + int (length es) \<and> chained v acc)"

lemma se_insert_rows:
  assumes "versions_ok s" "se_insert ec i e (int (length (se_rows s i)), s) = (Inr (), (v', s'))"
  shows "versions_ok s' \<and> v' = int (length (se_rows s' i)) \<and> map er_event_id (se_rows s' i) = map er_event_id (se_rows s i) @ [ev_event_id e] \<and>
    (\<forall>j. j \<noteq> i \<longrightarrow> se_rows s' j = se_rows s j)"
proof -
  obtain r where r: "v' = int (length (se_rows s i)) + 1" "se_events s' = se_events s @ [r]" "er_stream_id r = i"
    "er_stream_version r = int (length (se_rows s i)) + 1" "er_event_id r = ev_event_id e"
    using assms(2) by (auto simp: se_insert_def Let_def split: sum.splits if_splits)
  then show ?thesis using versions_ok_add [OF assms(1) r(2)] by (simp add: se_rows_add [OF r(2)])
qed

lemma se_inserts_rows:
  assumes "versions_ok s" "run_each (se_insert ec i) es (int (length (se_rows s i)), s) = (Inr (), (v', s'))"
  shows "versions_ok s' \<and> v' = int (length (se_rows s' i)) \<and> map er_event_id (se_rows s' i) = map er_event_id (se_rows s i) @ map ev_event_id es \<and>
    (\<forall>j. j \<noteq> i \<longrightarrow> se_rows s' j = se_rows s j)"
  using assms
proof (induction es arbitrary: s)
  case (Cons e es)
  obtain v1 s1 where s1: "se_insert ec i e (int (length (se_rows s i)), s) = (Inr (), (v1, s1))" "run_each (se_insert ec i) es (v1, s1) = (Inr (), (v', s'))"
    using Cons.prems(2) by (auto split: prod.splits sum.splits)
  note R = se_insert_rows [OF Cons.prems(1) s1(1)]
  show ?case using Cons.IH [of s1] R s1(2) by simp
qed auto

lemma map_append_length: "map f xs = map g ys @ map k zs \<Longrightarrow> length xs = length ys + length zs"
  by (drule arg_cong [where f = length]) simp

text \<open>Whatever is tried, an append changes nothing or appends all its events.\<close>

lemma try_append_cases:
  assumes "versions_ok s" "try_append ec (i, es, expected) s = (q, s')"
  shows "versions_ok s' \<and> (case q of
      Inl _ \<Rightarrow> se_rows s' = se_rows s
    | Inr v \<Rightarrow> (expected = None \<or> expected = Some (int (length (se_rows s i)))) \<and> v = int (length (se_rows s i)) + int (length es) \<and>
        map er_event_id (se_rows s' i) = map er_event_id (se_rows s i) @ map ev_event_id es \<and> (\<forall>j. j \<noteq> i \<longrightarrow> se_rows s' j = se_rows s j))"
proof -
  have same: "se_rows (s\<lparr>se_reads := k\<rparr>) = se_rows s" for k by (simp add: se_rows_def fun_eq_iff)
  have vs: "versions_ok (s\<lparr>se_reads := k\<rparr>)" for k using assms(1) by (simp add: versions_ok_def same)
  note cur = versions_ok_current [OF assms(1), of i]
  obtain p v1 s1 where run: "run_each (se_insert ec i) es (int (length (se_rows s i)), s) = (p, (v1, s1))" by (metis prod.exhaust)
  show ?thesis
  proof (cases p)
    case (Inl x)
    then show ?thesis using assms vs run by (auto simp: se_append_def Let_def cur same split: if_splits option.splits)
  next
    case (Inr u)
    note R = se_inserts_rows [OF assms(1) run [unfolded Inr, simplified]]
    have len: "length (se_rows s1 i) = length (se_rows s i) + length es"
      by (rule map_append_length [of er_event_id _ er_event_id _ ev_event_id]) (use R in simp)
    show ?thesis
    proof (cases "expected = None \<or> expected = Some (int (length (se_rows s i)))")
      case True
      then have "(q, s') = (Inr v1, s1)" using assms(2) run Inr by (auto simp: se_append_def cur)
      then show ?thesis using R True len by simp
    next
      case False
      then have "\<exists>x. (q, s') = (Inl x, s)" using assms(2) by (auto simp: se_append_def cur)
      then show ?thesis using assms(1) by auto
    qed
  qed
qed

lemma appends_chained:
  assumes "versions_ok s" "answers (try_append ec) xs s = (qs, s')"
  shows "versions_ok s' \<and> chained (int (length (se_rows s i))) (accepted i xs qs) \<and>
    map er_event_id (se_rows s' i) = map er_event_id (se_rows s i) @ concat (map (map ev_event_id \<circ> fst) (accepted i xs qs))"
  using assms
proof (induction xs arbitrary: s qs)
  case (Cons x xs)
  obtain j es expected where x: "x = (j, es, expected)" by (rule prod_cases3)
  obtain q s1 where a: "try_append ec x s = (q, s1)" by (rule prod.exhaust)
  obtain qs1 where b: "answers (try_append ec) xs s1 = (qs1, s')" "qs = q # qs1"
    using Cons.prems(2) by (auto simp: a split: prod.splits)
  note T = try_append_cases [OF Cons.prems(1) a [unfolded x]]
  note IH = Cons.IH [of s1 qs1, OF _ b(1)]
  show ?case
  proof (cases "\<exists>v. q = Inr v \<and> j = i")
    case False
    then have "se_rows s1 i = se_rows s i" using T by (auto split: sum.splits)
    moreover have "accepted i (x # xs) qs = accepted i xs qs1" using False by (auto simp: accepted_def b(2) x split: sum.splits)
    ultimately show ?thesis using IH T by simp
  next
    case True
    then obtain v where v: "q = Inr v" "j = i" by blast
    have acc: "accepted i (x # xs) qs = (es, expected, v) # accepted i xs qs1" using v by (simp add: accepted_def b(2) x)
    have len: "int (length (se_rows s1 i)) = v" 
      using T v map_append_length [of er_event_id "se_rows s1 i" er_event_id "se_rows s i" ev_event_id es] by simp
    show ?thesis using IH T v len by (simp add: acc)
  qed
qed (simp add: accepted_def)

text \<open>The log of a stream is what was accepted, in order, and nothing else: however the attempts of many writers
  interleave, and whatever of them fails, an attempt that is accepted with an expected version was
  made when the stream had exactly that many events, its whole list of events follows there and its answer is the new version; the rows of the
  stream are numbered from one without gaps.\<close>

theorem appends_serialize:
  assumes "answers (try_append ec) xs se_init = (qs, s)"
  shows "chained 0 (accepted i xs qs) \<and>
    map er_event_id (se_rows s i) = concat (map (map ev_event_id \<circ> fst) (accepted i xs qs)) \<and>
    map er_stream_version (se_rows s i) = map int [1..<Suc (length (se_rows s i))]"
proof -
  have init: "versions_ok se_init" "se_rows se_init i = []" by (simp_all add: versions_ok_def se_rows_def se_init_def)
  have "versions_ok s \<and> chained 0 (accepted i xs qs) \<and>
      map er_event_id (se_rows s i) = concat (map (map ev_event_id \<circ> fst) (accepted i xs qs))"
    using appends_chained [OF init(1) assms, of i] by (simp add: init(2))
  then show ?thesis unfolding versions_ok_def by blast
qed

section \<open>The two stores agree\<close>

definition ms_log :: "InMemoryEventStore \<Rightarrow> (string \<times> int \<times> DomainEvent) list" where
  "ms_log m = map (\<lambda>en. (en_stream_id en, en_stream_version en, en_event en)) (ms_all_events m)"

definition se_log :: "event_codec \<Rightarrow> event_registry \<Rightarrow> SQLiteEventStore \<Rightarrow> (string \<times> int \<times> DomainEvent) list" where
  "se_log ec reg s = map (\<lambda>r. (er_stream_id r, er_stream_version r, row_event ec reg r)) (se_events s)"

definition log_ids :: "(string \<times> int \<times> DomainEvent) list \<Rightarrow> pyval list" where
  "log_ids l = map (\<lambda>x. ev_event_id (snd (snd x))) l"

text \<open>Events of a log that a table can hold.\<close>

definition log_fits :: "event_codec \<Rightarrow> event_registry \<Rightarrow> (string \<times> int \<times> DomainEvent) list \<Rightarrow> bool" where
  "log_fits ec reg l \<longleftrightarrow> list_all (\<lambda>x. event_fits ec reg (snd (snd x))) l \<and> distinct (log_ids l)"

lemma log_fits_append: "log_fits ec reg (l @ k) \<Longrightarrow> log_fits ec reg l"
  by (simp add: log_fits_def log_ids_def)

definition same_log :: "event_codec \<Rightarrow> event_registry \<Rightarrow> InMemoryEventStore \<Rightarrow> SQLiteEventStore \<Rightarrow> bool" where
  "same_log ec reg m s \<longleftrightarrow> ms_ok m \<and> events_ok ec reg s \<and> ms_log m = se_log ec reg s \<and> map er_event_id (se_events s) = log_ids (se_log ec reg s)"

lemma filter_log:
  "map snd (filter (\<lambda>x. fst x = i) (ms_log m)) = map (\<lambda>en. (en_stream_version en, en_event en)) (filter (\<lambda>en. en_stream_id en = i) (ms_all_events m))"
  "map snd (filter (\<lambda>x. fst x = i) (se_log ec reg s)) = map (\<lambda>r. (er_stream_version r, row_event ec reg r)) (se_rows s i)"
  by (simp_all add: ms_log_def se_log_def se_rows_def filter_map comp_def)

lemma same_log_stream:
  assumes "same_log ec reg m s"
  shows "map (\<lambda>en. (en_stream_version en, en_event en)) (ms_stream m i) = map (\<lambda>r. (er_stream_version r, row_event ec reg r)) (se_rows s i)"
proof -
  have "filter (\<lambda>en. en_stream_id en = i) (ms_all_events m) = ms_stream m i" using assms by (simp add: same_log_def ms_ok_def)
  moreover have "ms_log m = se_log ec reg s" using assms by (simp add: same_log_def)
  ultimately show ?thesis using filter_log(1) [of i m] filter_log(2) [of i ec reg s] by simp
qed

lemma same_log_history:
  assumes "same_log ec reg m s"
  shows "ms_history m = se_history ec reg s"
proof
  fix i
  show "ms_history m i = se_history ec reg s i"
    using arg_cong [OF same_log_stream [OF assms, of i], of "map snd"] by (simp add: ms_history_def se_history_def comp_def)
qed

lemma same_log_length: "same_log ec reg m s \<Longrightarrow> length (ms_stream m i) = length (se_rows s i)"
  using same_log_stream [of ec reg m s i] by (metis length_map)

lemma ms_add_log:
  "ms_add now i e (v, m) = (v', m') \<Longrightarrow> v' = v + 1 \<and> ms_log m' = ms_log m @ [(i, v + 1, e)]"
  by (auto simp: ms_add_def ms_log_def Let_def)

lemma ms_adds_log: "fold (ms_add now i) es (v, m) = (v', m') \<Longrightarrow> \<exists>k. ms_log m' = ms_log m @ k"
proof (induction es arbitrary: v m)
  case (Cons e es)
  obtain v1 m1 where a: "ms_add now i e (v, m) = (v1, m1)" by (rule prod.exhaust)
  then show ?case using Cons.IH [of v1 m1] Cons.prems ms_add_log [OF a] by auto
qed simp

lemma same_log_add:
  assumes "same_log ec reg m s" "ms_add now i e (int (length (ms_stream m i)), m) = (v, m')" "log_fits ec reg (ms_log m')"
  shows "\<exists>s'. se_insert ec i e (int (length (ms_stream m i)), s) = (Inr (), (v, s')) \<and> same_log ec reg m' s' \<and> v = int (length (ms_stream m' i))"
proof -
  note len = same_log_length [OF assms(1), of i]
  have ok: "ms_ok m" "events_ok ec reg s" and log: "ms_log m = se_log ec reg s" "map er_event_id (se_events s) = log_ids (se_log ec reg s)"
    using assms(1) by (simp_all add: same_log_def)
  note A = ms_add_ok [OF ok(1) assms(2)] and L = ms_add_log [OF assms(2)]
  have fits: "event_fits ec reg e" "ev_event_id e \<notin> set (map er_event_id (se_events s))"
    using assms(3) L log by (auto simp: log_fits_def log_ids_def)
  obtain r s' where s': "se_insert ec i e (int (length (se_rows s i)), s) = (Inr (), (int (length (se_rows s' i)), s'))" "events_ok ec reg s'"
    and r: "se_events s' = se_events s @ [r]" "er_stream_id r = i" "er_stream_version r = int (length (se_rows s i)) + 1"
      "er_event_id r = ev_event_id e" "row_event ec reg r = e"
    using se_insert_ok [OF ok(2) fits] by blast
  have "se_log ec reg s' = se_log ec reg s @ [(i, int (length (se_rows s i)) + 1, e)]" by (simp add: se_log_def r)
  then have "same_log ec reg m' s'" using A L log s'(2) r by (simp add: same_log_def len log_ids_def)
  moreover have "v = int (length (se_rows s' i))" using A same_log_length [OF \<open>same_log ec reg m' s'\<close>] by simp
  ultimately show ?thesis using s'(1) A len by simp
qed

lemma same_log_adds:
  assumes "same_log ec reg m s" "fold (ms_add now i) es (int (length (ms_stream m i)), m) = (v, m')" "log_fits ec reg (ms_log m')"
  shows "\<exists>s'. run_each (se_insert ec i) es (int (length (ms_stream m i)), s) = (Inr (), (v, s')) \<and> same_log ec reg m' s'"
  using assms
proof (induction es arbitrary: m s)
  case (Cons e es)
  obtain v1 m1 where a: "ms_add now i e (int (length (ms_stream m i)), m) = (v1, m1)" by (rule prod.exhaust)
  have rest: "fold (ms_add now i) es (v1, m1) = (v, m')" using Cons.prems(2) a by simp
  obtain k where "ms_log m' = ms_log m1 @ k" using ms_adds_log [OF rest] by blast
  then have "log_fits ec reg (ms_log m1)" using Cons.prems(3) log_fits_append by metis
  then obtain s1 where s1: "se_insert ec i e (int (length (ms_stream m i)), s) = (Inr (), (v1, s1))" "same_log ec reg m1 s1"
    "v1 = int (length (ms_stream m1 i))" using same_log_add [OF Cons.prems(1) a] by blast
  then show ?case using Cons.IH [OF s1(2)] rest Cons.prems(3) by auto
qed auto

definition ms_try_append :: "(nat \<Rightarrow> nat) \<Rightarrow> append_attempt \<Rightarrow> InMemoryEventStore \<Rightarrow> int result \<times> InMemoryEventStore" where
  "ms_try_append now x m = (case x of (i, es, expected) \<Rightarrow> ms_append now i es expected m)"

lemma ms_try_append_eq [simp]: "ms_try_append now (i, es, expected) m = ms_append now i es expected m"
  by (simp add: ms_try_append_def)

definition ms_open :: "string \<Rightarrow> InMemoryEventStore \<Rightarrow> InMemoryEventStore" where
  "ms_open i m = (if dict_has (ms_streams m) i then m else m\<lparr>ms_streams := dict_set i [] (ms_streams m)\<rparr>)"

lemma ms_open_same: "ms_stream (ms_open i m) = ms_stream m" "ms_log (ms_open i m) = ms_log m" "ms_ok (ms_open i m) = ms_ok m"
proof -
  have all: "ms_all_events (ms_open i m) = ms_all_events m" by (simp add: ms_open_def)
  show same: "ms_stream (ms_open i m) = ms_stream m"
    by (auto simp: ms_open_def ms_stream_def dict_get_or_def dict_has_def dict_simps fun_eq_iff)
  show "ms_log (ms_open i m) = ms_log m" "ms_ok (ms_open i m) = ms_ok m" by (simp_all add: ms_log_def ms_ok_def all same)
qed

lemma same_log_open: "same_log ec reg m s \<Longrightarrow> same_log ec reg (ms_open i m) s"
  by (simp add: same_log_def ms_open_same)

lemma ms_append_cases:
  "ms_append now i es expected m =
     (if stale expected (ms_stream m i) then (Inl (concurrency_error i (the expected) (int (length (ms_stream m i)))), m)
      else case fold (ms_add now i) es (int (length (ms_stream m i)), ms_open i m) of (v, m') \<Rightarrow> (Inr v, m'))"
  by (simp add: ms_append_def stale_def ms_open_def split: option.split)

lemma ms_append_log: "ms_append now i es expected m = (q, m') \<Longrightarrow> \<exists>k. ms_log m' = ms_log m @ k"
  using ms_adds_log [of now i es _ "ms_open i m"]
  by (auto simp: ms_append_cases ms_open_same split: if_splits prod.splits)

lemma same_log_append:
  assumes "same_log ec reg m s" "ms_append now i es expected m = (q, m')" "log_fits ec reg (ms_log m')"
  shows "\<exists>s'. se_append ec i es expected s = (q, s') \<and> same_log ec reg m' s'"
proof -
  note len = same_log_length [OF assms(1), of i]
  have cur: "se_get_stream_version i s = int (length (ms_stream m i))" using se_version [of ec reg s i] assms(1) by (simp add: same_log_def len)
  show ?thesis
  proof (cases "stale expected (ms_stream m i)")
    case True
    then have "se_append ec i es expected s = (q, s) \<and> m' = m"
      using assms(2) by (auto simp: ms_append_cases se_append_def cur stale_def split: option.splits)
    then show ?thesis using assms(1) by blast
  next
    case False
    obtain v where v: "fold (ms_add now i) es (int (length (ms_stream (ms_open i m) i)), ms_open i m) = (v, m')" "q = Inr v"
      using assms(2) False by (auto simp: ms_append_cases ms_open_same split: prod.splits)
    obtain s' where "run_each (se_insert ec i) es (int (length (ms_stream m i)), s) = (Inr (), (v, s'))" "same_log ec reg m' s'"
      using same_log_adds [OF same_log_open [OF assms(1)] v(1) assms(3)] by (auto simp: ms_open_same)
    then show ?thesis using False v(2) by (auto simp: se_append_def cur stale_def split: option.splits)
  qed
qed

lemma ms_run_log: "answers (ms_try_append now) xs m = (qs, m') \<Longrightarrow> \<exists>k. ms_log m' = ms_log m @ k"
proof (induction xs arbitrary: m qs)
  case (Cons x xs)
  obtain i es expected where x: "x = (i, es, expected)" by (rule prod_cases3)
  obtain q m1 where a: "ms_append now i es expected m = (q, m1)" by (rule prod.exhaust)
  obtain qs1 where b: "answers (ms_try_append now) xs m1 = (qs1, m')" using Cons.prems by (auto simp: x a split: prod.splits)
  show ?case using ms_append_log [OF a] Cons.IH [OF b] by auto
qed simp

lemma same_log_run:
  assumes "same_log ec reg m s" "answers (ms_try_append now) xs m = (qs, m')" "log_fits ec reg (ms_log m')"
  shows "\<exists>s'. answers (try_append ec) xs s = (qs, s') \<and> same_log ec reg m' s'"
  using assms
proof (induction xs arbitrary: m s qs)
  case (Cons x xs)
  obtain i es expected where x: "x = (i, es, expected)" by (rule prod_cases3)
  obtain q m1 where a: "ms_append now i es expected m = (q, m1)" by (rule prod.exhaust)
  obtain qs1 where b: "answers (ms_try_append now) xs m1 = (qs1, m')" "qs = q # qs1"
    using Cons.prems(2) by (auto simp: x a split: prod.splits)
  obtain k where "ms_log m' = ms_log m1 @ k" using ms_run_log [OF b(1)] by blast
  then have "log_fits ec reg (ms_log m1)" using Cons.prems(3) log_fits_append by metis
  then obtain s1 where s1: "se_append ec i es expected s = (q, s1)" "same_log ec reg m1 s1" using same_log_append [OF Cons.prems(1) a] by blast
  obtain s' where "answers (try_append ec) xs s1 = (qs1, s')" "same_log ec reg m' s'" using Cons.IH [OF s1(2) b(1) Cons.prems(3)] by blast
  then show ?case using s1(1) b(2) by (auto simp: x)
qed auto

text \<open>The position of a row is its place in the table.\<close>

lemma filter_positions: "map f xs = [k..<k + length xs] \<Longrightarrow> filter (\<lambda>x. f x > p) xs = drop (Suc p - k) xs"
proof (induction xs arbitrary: k)
  case (Cons x xs)
  have x: "f x = k" and rest: "map f xs = [Suc k..<Suc k + length xs]"
    using Cons.prems by (simp_all add: upt_conv_Cons del: upt_Suc)
  show ?case using Cons.IH [OF rest] by (cases "Suc p - k") (auto simp: x Suc_diff_le)
qed simp

lemma se_read_all_rows:
  assumes "events_ok ec reg s"
  shows "se_read_all ec reg p l s = rows_to_envelopes ec reg (take l (drop p (se_events s)))"
proof -
  note pos = events_okD(5) [OF assms]
  have f: "filter (\<lambda>r. er_global_position r > p) (se_events s) = drop p (se_events s)"
    using filter_positions [of er_global_position "se_events s" 1 p] pos by simp
  have "sorted (map er_global_position (se_events s))" unfolding pos by (simp del: upt_Suc)
  then have "sorted (map er_global_position (drop p (se_events s)))" by (simp add: drop_map [symmetric] sorted_wrt_drop)
  then show ?thesis unfolding se_read_all_def f by (simp add: sort_key_id_if_sorted)
qed

lemma same_log_read_all:
  assumes "same_log ec reg m s"
  shows "\<exists>ens. se_read_all ec reg p l s = Inr ens \<and>
    map (\<lambda>en. (en_stream_id en, en_stream_version en, en_event en)) ens =
    map (\<lambda>en. (en_stream_id en, en_stream_version en, en_event en)) (ms_read_all p l m)"
proof -
  have ok: "events_ok ec reg s" and log: "ms_log m = se_log ec reg s" using assms by (simp_all add: same_log_def)
  have "\<forall>r \<in> set (take l (drop p (se_events s))). (\<exists>e. decode_event ec reg (er_event_data r) = Inr e) \<and> (\<exists>n. ec_parse ec (VStr (er_stored_at r)) = Inr n)"
    using events_okD(3,4) [OF ok] by (meson in_set_dropD in_set_takeD)
  from rows_to_envelopes_ok [OF this] show ?thesis
    using log by (auto simp: se_read_all_rows [OF ok] ms_read_all_def ms_log_def se_log_def take_map [symmetric] drop_map [symmetric])
qed

lemma same_log_init: "event_codec_ok ec \<Longrightarrow> same_log ec reg ms_init se_init"
  using se_init_ok [of ec reg]
  by (simp add: same_log_def ms_ok_def ms_init_def ms_stream_def dict_get_or_def ms_log_def se_log_def log_ids_def se_init_def)

text \<open>C14. The store in memory and the store in a database cannot be told apart: whatever sequence of appends is tried on both, if the
  events that the store in memory took have their own identifiers and fit the registered classes, the
  store in the database gives the same answers, refusals with the same versions included, keeps the same events in each stream, and reading all events
  from a position gives the same ones in the same order.\<close>

theorem stores_agree:
  assumes "event_codec_ok ec" "answers (ms_try_append now) xs ms_init = (qs, m)" "log_fits ec reg (ms_log m)"
  shows "\<exists>s. answers (try_append ec) xs se_init = (qs, s) \<and> se_history ec reg s = ms_history m \<and>
    (\<exists>ens. se_read_all ec reg p l s = Inr ens \<and>
      map (\<lambda>en. (en_stream_id en, en_stream_version en, en_event en)) ens =
      map (\<lambda>en. (en_stream_id en, en_stream_version en, en_event en)) (ms_read_all p l m))"
proof -
  from same_log_run [OF same_log_init [OF assms(1)] assms(2,3)] obtain s where s: "answers (try_append ec) xs se_init = (qs, s)" "same_log ec reg m s" by blast
  show ?thesis
    by (intro exI [of _ s] conjI s(1) same_log_history [OF s(2), symmetric] same_log_read_all [OF s(2)])
qed

section \<open>Examples\<close>

definition sample_event_codec :: event_codec where
  "sample_event_codec =
     \<lparr>ec_dumps = (\<lambda>v. Inr (json_text v)), ec_loads = (\<lambda>t. Inr (json_back t)), ec_iso = (\<lambda>n. Some (replicate n CHR ''d'')),
      ec_parse = (\<lambda>v. case v of VStr t \<Rightarrow> Inr (length t) | _ \<Rightarrow> Inl type_error), ec_uuid = VStr ''new'', ec_now = (\<lambda>k. k)\<rparr>"

lemma event_codec_ok_sample: "event_codec_ok sample_event_codec"
  by (auto simp: event_codec_ok_def sample_event_codec_def json_text_back)

definition task_failed :: "string \<Rightarrow> string \<Rightarrow> DomainEvent" where
  "task_failed i err =
     \<lparr>ev_class = ''TaskFailedEvent'', ev_event_id = VStr i, ev_timestamp = VObj 3, ev_version = VInt 1, ev_correlation_id = VNone,
      ev_causation_id = VNone, ev_metadata = VDict [],
      ev_data = [(''task_id'', VStr ''t''), (''error'', VStr err), (''error_type'', VStr ''IOError'')]\<rparr>"

lemma task_failed_fits: "event_fits sample_event_codec common_events (task_failed i err)"
  by (simp add: event_fits_def task_failed_def common_events_def sample_event_codec_def dict_keys_def dict_ok_def)

text \<open>An aggregate that collects the errors of a task.\<close>

definition error_handlers :: "state list handlers" where
  "error_handlers c = (if c = ''TaskFailedEvent'' then Some (\<lambda>e st. (Inr (), st @ [ev_data e])) else None)"

definition failed_task :: "state list Aggregate" where
  "failed_task = snd (ag_apply error_handlers (task_failed ''e2'' ''disk'') (snd (ag_apply error_handlers (task_failed ''e1'' ''net'') (aggregate_init [] ''t''))))"

lemma failed_task_fields:
  "ag_aggregate_id failed_task = ''t''" "ag_uncommitted_events failed_task = [task_failed ''e1'' ''net'', task_failed ''e2'' ''disk'']"
  by (simp_all add: failed_task_def ag_apply_def apply_event_def error_handlers_def aggregate_init_def task_failed_def)

theorem aggregate_roundtrip_witness:
  "\<exists>s. store_save (se_append sample_event_codec) failed_task se_init = (Inr (), (clear_uncommitted_events failed_task, s)) \<and>
     es_get sample_event_codec common_events error_handlers [] ''t'' s = Inr (Some (clear_uncommitted_events failed_task))"
proof -
  have "based_on error_handlers [] [] failed_task"
    by (simp add: based_on_def rebuilt_def load_from_history_def failed_task_fields replay_event_def clear_uncommitted_events_def)
       (simp add: replay_event_def failed_task_def ag_apply_def apply_event_def error_handlers_def aggregate_init_def task_failed_def)
  then have b: "based_on error_handlers [] (se_history sample_event_codec common_events se_init (ag_aggregate_id failed_task)) failed_task"
    by (simp add: se_history_def se_rows_def se_init_def)
  have a: "se_accepts sample_event_codec common_events se_init (ag_uncommitted_events failed_task)"
    by (simp add: se_accepts_def failed_task_fields task_failed_fits) (simp add: task_failed_def se_init_def)
  show ?thesis
    using aggregate_roundtrip [OF se_init_ok [OF event_codec_ok_sample] b a] by (auto simp: failed_task_fields)
qed

text \<open>Two users have read one event; the one who comes second is refused, reads again and goes through.\<close>

definition two_writers :: "append_attempt list" where
  "two_writers = [(''t'', [task_failed ''e1'' ''net''], None), (''t'', [task_failed ''e2'' ''disk'', task_failed ''e3'' ''disk''], Some 1),
     (''t'', [task_failed ''e4'' ''net''], Some 1), (''u'', [task_failed ''e5'' ''net''], None), (''t'', [task_failed ''e4'' ''net''], Some 3)]"

lemma two_writers_run:
  "\<exists>m. answers (ms_try_append (\<lambda>k. k)) two_writers ms_init = ([Inr 1, Inr 3, Inl (concurrency_error ''t'' 1 3), Inr 1, Inr 4], m) \<and>
     ms_log m = [(''t'', 1, task_failed ''e1'' ''net''), (''t'', 2, task_failed ''e2'' ''disk''), (''t'', 3, task_failed ''e3'' ''disk''),
       (''u'', 1, task_failed ''e5'' ''net''), (''t'', 4, task_failed ''e4'' ''net'')]"
  by (simp add: two_writers_def ms_append_def ms_add_def ms_init_def ms_stream_def dict_get_or_def dict_has_def Let_def ms_log_def dict_simps)

lemma two_writers_fits:
  "log_fits sample_event_codec common_events [(''t'', 1, task_failed ''e1'' ''net''), (''t'', 2, task_failed ''e2'' ''disk''),
     (''t'', 3, task_failed ''e3'' ''disk''), (''u'', 1, task_failed ''e5'' ''net''), (''t'', 4, task_failed ''e4'' ''net'')]"
  by (simp add: log_fits_def log_ids_def task_failed_fits) (simp add: task_failed_def)

theorem stores_agree_witness:
  "\<exists>s. answers (try_append sample_event_codec) two_writers se_init = ([Inr 1, Inr 3, Inl (concurrency_error ''t'' 1 3), Inr 1, Inr 4], s) \<and>
     (\<exists>ens. se_read_all sample_event_codec common_events 2 2 s = Inr ens \<and> map en_event ens = [task_failed ''e3'' ''disk'', task_failed ''e5'' ''net''])"
proof -
  obtain m where m: "answers (ms_try_append (\<lambda>k. k)) two_writers ms_init = ([Inr 1, Inr 3, Inl (concurrency_error ''t'' 1 3), Inr 1, Inr 4], m)"
    "ms_log m = [(''t'', 1, task_failed ''e1'' ''net''), (''t'', 2, task_failed ''e2'' ''disk''), (''t'', 3, task_failed ''e3'' ''disk''),
       (''u'', 1, task_failed ''e5'' ''net''), (''t'', 4, task_failed ''e4'' ''net'')]" using two_writers_run by blast
  have f: "log_fits sample_event_codec common_events (ms_log m)" unfolding m(2) by (rule two_writers_fits)
  have "map en_event (ms_read_all 2 2 m) = map (snd \<circ> snd) (take 2 (drop 2 (ms_log m)))"
    by (simp add: ms_read_all_def ms_log_def take_map drop_map)
  then have r: "map en_event (ms_read_all 2 2 m) = [task_failed ''e3'' ''disk'', task_failed ''e5'' ''net'']" unfolding m(2) by simp
  obtain s ens where s: "answers (try_append sample_event_codec) two_writers se_init = ([Inr 1, Inr 3, Inl (concurrency_error ''t'' 1 3), Inr 1, Inr 4], s)"
    "se_read_all sample_event_codec common_events 2 2 s = Inr ens"
    "map (\<lambda>en. (en_stream_id en, en_stream_version en, en_event en)) ens =
       map (\<lambda>en. (en_stream_id en, en_stream_version en, en_event en)) (ms_read_all 2 2 m)"
    using stores_agree [OF event_codec_ok_sample m(1) f, of 2 2] by blast
  have "map en_event ens = map en_event (ms_read_all 2 2 m)" using arg_cong [OF s(3), of "map (snd \<circ> snd)"] by (simp add: comp_def)
  then show ?thesis using s(1,2) r by auto
qed

theorem appends_serialize_witness:
  "map er_event_id (se_rows (snd (answers (try_append sample_event_codec) two_writers se_init)) ''t'') =
     [VStr ''e1'', VStr ''e2'', VStr ''e3'', VStr ''e4'']"
proof -
  let ?qs = "[Inr 1, Inr 3, Inl (concurrency_error ''t'' 1 3), Inr 1, Inr 4] :: int result list"
  obtain m where m: "answers (ms_try_append (\<lambda>k. k)) two_writers ms_init = (?qs, m)" "log_fits sample_event_codec common_events (ms_log m)"
    using two_writers_run two_writers_fits by metis
  obtain s where s: "answers (try_append sample_event_codec) two_writers se_init = (?qs, s)"
    using same_log_run [OF same_log_init [OF event_codec_ok_sample] m] by blast
  have "map er_event_id (se_rows s ''t'') = concat (map (map ev_event_id \<circ> fst) (accepted ''t'' two_writers ?qs))"
    using appends_serialize [OF s, of "''t''"] by blast
  then show ?thesis by (simp add: s) (simp add: accepted_def two_writers_def task_failed_def)
qed

section \<open>Where the code differs from what it says\<close>

text \<open>The first save of an aggregate is not checked: if another one with the same id was saved in the meantime, the events are appended to
  its stream all the same, and the aggregate keeps a version that is not the version of the stream.\<close>

lemma first_save_unchecked:
  assumes "events_ok ec reg s" "ag_version a = int (length (ag_uncommitted_events a))" "ag_uncommitted_events a \<noteq> []"
    "se_accepts ec reg s (ag_uncommitted_events a)" "se_history ec reg s (ag_aggregate_id a) \<noteq> []"
  shows "\<exists>s'. store_save (se_append ec) a s = (Inr (), (clear_uncommitted_events a, s')) \<and>
    se_get_stream_version (ag_aggregate_id a) s' \<noteq> ag_version (clear_uncommitted_events a)"
proof -
  obtain q s' where r: "se_append ec (ag_aggregate_id a) (ag_uncommitted_events a) None s = (q, s')" by (rule prod.exhaust)
  note A = sqlite_events.append_to [OF assms(1,4) r]
  have "se_get_stream_version (ag_aggregate_id a) s' = int (length (se_history ec reg s (ag_aggregate_id a) @ ag_uncommitted_events a))"
    using A sqlite_events.stream_version [of ec reg s' "ag_aggregate_id a"] by (simp add: stale_def)
  then show ?thesis using A r assms(2,3,5) by (simp add: store_save_def stale_def clear_uncommitted_events_def)
qed

text \<open>An event of a class that is not registered, with fields of its own, is not read as a base event: its
  row is skipped.\<close>

lemma unregistered_skipped:
  assumes "ec_loads ec (er_event_data r) = Inr (VDict d)" "dict_get d ''event_type'' = Some (VStr c)" "dict_get reg c = None"
    "dict_get d ''timestamp'' = Some t" "ec_parse ec t = Inr n" "dict_get d ''data'' = Some (VDict own)" "own \<noteq> []"
  shows "rows_to_envelopes ec reg [r] = Inr []"
proof -
  have "\<not> list_all (dict_has []) (dict_keys own)" using assms(7) by (cases own) (auto simp: dict_keys_def dict_has_def)
  then have "decode_event ec reg (er_event_data r) = Inl type_error"
    using assms by (simp add: decode_event_def event_from_dict_def event_class_def dict_get_or_def own_fields_def)
  then show ?thesis by (simp add: type_error_def)
qed

text \<open>After a row that was skipped the aggregate is behind its stream, and each save of it is refused.\<close>

lemma skipped_row_blocks:
  assumes "rebuilt h st i es a" "es \<noteq> []" "int (length es) < se_get_stream_version i s" "ag_apply h e a = (Inr (), a')"
  shows "store_save (se_append ec) a' s = (Inl (concurrency_error i (int (length es)) (se_get_stream_version i s)), (a', s))"
proof -
  have a: "ag_uncommitted_events a' = [e]" "ag_aggregate_id a' = i" "based_on h st es a'"
    using based_on_apply [OF based_on_load [OF assms(1)] assms(4)] rebuilt_fields [OF assms(1)] by simp_all
  have "ag_version a' - 1 = int (length es)" using based_on_version [OF a(3)] by (simp add: a(1))
  then show ?thesis using assms(2,3) by (simp add: store_save_def a se_append_def)
qed

text \<open>With an interval of zero between snapshots a save raises after the events were written.\<close>

lemma zero_interval_raises:
  "store_save (se_append ec) a s = (Inr (), (a', s')) \<Longrightarrow>
     es_save ec public 0 a s = (Inl (PyExc ''ZeroDivisionError'' ''integer modulo by zero''), (a', s'))"
  by (simp add: es_save_def)

text \<open>Snapshots are written and never used to load an aggregate.\<close>

lemma snapshots_unused: "es_get ec reg h st i (s\<lparr>se_snapshots := x\<rparr>) = es_get ec reg h st i s"
  by (simp add: es_get_def store_load_def se_read_def se_rows_def)

end
