(* ===== verification/Calendar.thy ===== *)
theory Calendar
  imports Prelude
begin

text \<open>
  Dates and times of the standard library, as far as the scheduler uses them: a point in time counts the minutes
  since the first of January of year one, with the seconds and microseconds apart; the calendar
  is the Gregorian one, extended to all years. A time without an offset is naive.
\<close>

section \<open>Days and dates\<close>

definition is_leap :: "int \<Rightarrow> bool" where
  "is_leap y \<longleftrightarrow> y mod 4 = 0 \<and> (y mod 100 \<noteq> 0 \<or> y mod 400 = 0)"

definition year_length :: "int \<Rightarrow> int" where
  "year_length y = (if is_leap y then 366 else 365)"

definition month_lengths :: "int \<Rightarrow> int list" where
  "month_lengths y = [31, if is_leap y then 29 else 28, 31, 30, 31, 30, 31, 31, 30, 31, 30, 31]"

definition days_before_year :: "int \<Rightarrow> int" where
  "days_before_year y = (let p = y - 1 in p * 365 + p div 4 - p div 100 + p div 400)"

definition ymd2ord :: "int \<Rightarrow> int \<Rightarrow> int \<Rightarrow> int" where
  "ymd2ord y m d = days_before_year y + sum_list (take (nat (m - 1)) (month_lengths y)) + d"

definition valid_date :: "int \<Rightarrow> int \<Rightarrow> int \<Rightarrow> bool" where
  "valid_date y m d \<longleftrightarrow> 1 \<le> m \<and> m \<le> 12 \<and> 1 \<le> d \<and> d \<le> month_lengths y ! nat (m - 1)"

text \<open>The year of a day, and the day's place in it: cycles of 400, 100, 4 and 1 years; the last day of a leap year at the end of a
  cycle is apart.\<close>

definition year_day :: "int \<Rightarrow> int \<times> int" where
  "year_day n =
     (let n400 = n div 146097; r = n mod 146097; n100 = r div 36524; r = r mod 36524;
          n4 = r div 1461; r = r mod 1461; n1 = r div 365; r = r mod 365;
          year = 400 * n400 + 100 * n100 + 4 * n4 + n1 + 1
      in if n1 = 4 \<or> n100 = 4 then (year - 1, 365) else (year, r))"

fun find_month :: "int list \<Rightarrow> int \<Rightarrow> int \<Rightarrow> int \<times> int" where
  "find_month [] m k = (m, k + 1)"
| "find_month (x # xs) m k = (if k < x then (m, k + 1) else find_month xs (m + 1) (k - x))"

definition ord2ymd :: "int \<Rightarrow> int \<times> int \<times> int" where
  "ord2ymd n = (case year_day (n - 1) of (y, k) \<Rightarrow> (y, find_month (month_lengths y) 1 k))"

section \<open>Points in time\<close>

record datetime =
  dt_minutes :: int
  dt_micros :: int
  dt_offset :: "int option"

definition dt_ordinal :: "int \<Rightarrow> int" where
  "dt_ordinal t = t div 1440 + 1"

definition dt_hour :: "int \<Rightarrow> int" where
  "dt_hour t = t mod 1440 div 60"

definition dt_minute :: "int \<Rightarrow> int" where
  "dt_minute t = t mod 60"

definition dt_month :: "int \<Rightarrow> int" where
  "dt_month t = fst (snd (ord2ymd (dt_ordinal t)))"

definition dt_day :: "int \<Rightarrow> int" where
  "dt_day t = snd (snd (ord2ymd (dt_ordinal t)))"

text \<open>Monday is zero.\<close>

definition dt_weekday :: "int \<Rightarrow> int" where
  "dt_weekday t = (dt_ordinal t + 6) mod 7"

text \<open>The last minute of the year 9999; adding to it raises.\<close>

definition last_minute :: int where
  "last_minute = 3652059 * 1440 - 1"

definition out_of_range :: py_exc where
  "out_of_range = PyExc ''OverflowError'' ''date value out of range''"

definition plus_minute :: "int \<Rightarrow> int result" where
  "plus_minute t = (if t + 1 > last_minute then Inl out_of_range else Inr (t + 1))"

text \<open>Times are compared in universal time; a naive one cannot be compared with one that has an offset.\<close>

definition instant :: "datetime \<Rightarrow> int" where
  "instant d = (dt_minutes d - (case dt_offset d of None \<Rightarrow> 0 | Some z \<Rightarrow> z)) * 60000000 + dt_micros d"

definition naive :: "datetime \<Rightarrow> bool" where
  "naive d \<longleftrightarrow> dt_offset d = None"

definition mixed :: py_exc where
  "mixed = PyExc ''TypeError'' ''can't compare offset-naive and offset-aware datetimes''"

definition dt_less :: "datetime \<Rightarrow> datetime \<Rightarrow> bool result" where
  "dt_less a b = (if naive a = naive b then Inr (instant a < instant b) else Inl mixed)"

definition dt_ge :: "datetime \<Rightarrow> datetime \<Rightarrow> bool result" where
  "dt_ge a b = (if naive a = naive b then Inr (instant a \<ge> instant b) else Inl mixed)"

section \<open>The calendar is right\<close>

lemma cycle_div:
  fixes a b c d :: int
  assumes "0 \<le> b" "b \<le> 3" "0 \<le> c" "c \<le> 24" "0 \<le> d" "d \<le> 3" "p = 400 * a + 100 * b + 4 * c + d"
  shows "p div 4 = 100 * a + 25 * b + c" "p div 100 = 4 * a + b" "p div 400 = a"
  using assms by auto

lemma days_before_cycle:
  fixes a b c d :: int
  assumes "0 \<le> b" "b \<le> 3" "0 \<le> c" "c \<le> 24" "0 \<le> d" "d \<le> 3"
  shows "days_before_year (400 * a + 100 * b + 4 * c + d + 1) = 146097 * a + 36524 * b + 1461 * c + 365 * d"
  using cycle_div [OF assms refl, of a] by (simp add: days_before_year_def Let_def)

lemma div_pred:
  fixes y k :: int
  assumes "0 < k"
  shows "y div k = (y - 1) div k + (if y mod k = 0 then 1 else 0)"
proof (cases "y mod k = 0")
  case True
  then have "y - 1 = k * (y div k - 1) + (k - 1)" using mult_div_mod_eq [of k y] by (simp add: algebra_simps)
  then have "(y - 1) div k = y div k - 1" by (rule int_div_pos_eq) (use assms in auto)
  then show ?thesis using True by simp
next
  case False
  then have "y - 1 = k * (y div k) + (y mod k - 1)" using mult_div_mod_eq [of k y] by (simp add: algebra_simps)
  moreover have "0 \<le> y mod k - 1" using False pos_mod_sign [OF assms, of y] by linarith
  moreover have "y mod k - 1 < k" using pos_mod_bound [OF assms, of y] by linarith
  ultimately have "(y - 1) div k = y div k" by (rule int_div_pos_eq)
  then show ?thesis using False by simp
qed

lemma leap_count:
  fixes y q4 q100 q400 p4 p100 p400 :: int
  assumes "q4 = p4 + (if A then 1 else 0)" "q100 = p100 + (if B then 1 else 0)" "q400 = p400 + (if C then 1 else 0)" "C \<Longrightarrow> B" "B \<Longrightarrow> A"
  shows "y * 365 + q4 - q100 + q400 = (y - 1) * 365 + p4 - p100 + p400 + (if A \<and> (\<not> B \<or> C) then 366 else 365)"
  using assms by (cases A; cases B; cases C) simp_all

lemma days_before_Suc: "days_before_year (y + 1) = days_before_year y + year_length y"
proof -
  have "y mod 400 = 0 \<Longrightarrow> y mod 100 = 0" "y mod 100 = 0 \<Longrightarrow> y mod 4 = 0"
    unfolding mod_eq_0_iff_dvd by (erule dvd_trans [rotated], simp)+
  from leap_count [OF div_pred div_pred div_pred this] show ?thesis
    unfolding days_before_year_def Let_def year_length_def is_leap_def add_diff_cancel_right' by simp
qed

lemma year_length_pos: "365 \<le> year_length y" "year_length y \<le> 366"
  by (simp_all add: year_length_def)

lemma days_before_mono: "y \<le> z \<Longrightarrow> days_before_year y \<le> days_before_year z"
proof (induction z rule: int_ge_induct)
  case (step z)
  then show ?case using days_before_Suc [of z] year_length_pos(1) [of z] by simp
qed simp

lemma year_unique:
  assumes "days_before_year y \<le> n" "n < days_before_year (y + 1)" "days_before_year z \<le> n" "n < days_before_year (z + 1)"
  shows "y = z"
proof (rule ccontr)
  assume "y \<noteq> z"
  then have "y + 1 \<le> z \<or> z + 1 \<le> y" by linarith
  then show False using assms days_before_mono by fastforce
qed

lemma year_day_right:
  assumes "year_day n = (y, k)"
  shows "days_before_year y + k = n \<and> 0 \<le> k \<and> k < year_length y"
proof -
  define a where "a = n div 146097"
  define r where "r = n mod 146097"
  define b where "b = r div 36524"
  define r2 where "r2 = r mod 36524"
  define c where "c = r2 div 1461"
  define r3 where "r3 = r2 mod 1461"
  define d where "d = r3 div 365"
  define r4 where "r4 = r3 mod 365"
  have bounds: "0 \<le> r" "r < 146097" "0 \<le> r2" "r2 < 36524" "0 \<le> r3" "r3 < 1461" "0 \<le> r4" "r4 < 365"
    by (simp_all add: r_def r2_def r3_def r4_def)
  then have small: "0 \<le> b" "b \<le> 4" "0 \<le> c" "c \<le> 24" "0 \<le> d" "d \<le> 4" by (auto simp: b_def c_def d_def)
  have n: "n = 146097 * a + r" "r = 36524 * b + r2" "r2 = 1461 * c + r3" "r3 = 365 * d + r4"
    by (simp_all add: a_def r_def b_def r2_def c_def r3_def d_def r4_def)
  have yd: "(y, k) = (if d = 4 \<or> b = 4 then (400 * a + 100 * b + 4 * c + d, 365) else (400 * a + 100 * b + 4 * c + d + 1, r4))"
    using assms unfolding year_day_def Let_def a_def [symmetric] r_def [symmetric] b_def [symmetric] r2_def [symmetric]
      c_def [symmetric] r3_def [symmetric] d_def [symmetric] r4_def [symmetric] by (simp split: if_splits)
  show ?thesis
  proof (cases "d = 4 \<or> b = 4")
    case False
    then have "d \<le> 3" "b \<le> 3" using small by linarith+
    then have "days_before_year (400 * a + 100 * b + 4 * c + d + 1) = 146097 * a + 36524 * b + 1461 * c + 365 * d"
      using days_before_cycle small by blast
    then show ?thesis using False yd n bounds year_length_pos(1) [of y] by auto
  next
    case True
    show ?thesis
    proof (cases "b = 4")
      case b4: True
      then have "c = 0" "d = 0" "r4 = 0" using n bounds small by linarith+
      then have "y = 400 * a + 100 * 3 + 4 * 24 + 3 + 1" "k = 365" "n = 146097 * a + 146096" using yd b4 n by auto
      moreover have "days_before_year (400 * a + 100 * 3 + 4 * 24 + 3 + 1) = 146097 * a + 36524 * 3 + 1461 * 24 + 365 * 3"
        by (rule days_before_cycle) simp_all
      moreover have "is_leap (400 * a + 100 * 3 + 4 * 24 + 3 + 1)" by (simp add: is_leap_def)
      ultimately show ?thesis by (simp add: year_length_def)
    next
      case False
      then have d4: "d = 4" "r4 = 0" "b \<le> 3" using True n bounds small by linarith+
      have c23: "c \<le> 23" if "b < 4" using n bounds small d4 that by linarith
      have y: "y = 400 * a + 100 * b + 4 * c + 3 + 1" "k = 365" "n = 146097 * a + 36524 * b + 1461 * c + 1460" using yd d4 n by auto
      have "days_before_year (400 * a + 100 * b + 4 * c + 3 + 1) = 146097 * a + 36524 * b + 1461 * c + 365 * 3"
        by (rule days_before_cycle) (use small d4 in simp_all)
      moreover have "is_leap (400 * a + 100 * b + 4 * c + 3 + 1)"
      proof -
        have "(400 * a + 100 * b + 4 * c + 4) mod 4 = 0" by presburger
        moreover have "(400 * a + 100 * b + 4 * c + 4) mod 100 \<noteq> 0"
        proof -
          have "400 * a + 100 * b + 4 * c + 4 = (4 * c + 4) + 100 * (4 * a + b)" by simp
          then have "(400 * a + 100 * b + 4 * c + 4) mod 100 = (4 * c + 4) mod 100" by (simp only: mod_mult_self2)
          also have "\<dots> = 4 * c + 4" using c23 False small by auto
          finally show ?thesis using small by linarith
        qed
        ultimately show ?thesis by (simp add: is_leap_def add.assoc)
      qed
      ultimately show ?thesis using y by (simp add: year_length_def)
    qed
  qed
qed

lemma year_day_unique:
  assumes "days_before_year y + k = n" "0 \<le> k" "k < year_length y"
  shows "year_day n = (y, k)"
proof -
  obtain z l where z: "year_day n = (z, l)" by (rule prod.exhaust)
  note R = year_day_right [OF z]
  have "z = y" by (rule year_unique [of _ n]) (use R assms in \<open>simp_all add: days_before_Suc\<close>)
  then show ?thesis using R assms z by simp
qed

lemma find_month_right:
  assumes "0 \<le> k" "k < sum_list xs" "find_month xs m k = (m', d)"
  shows "m \<le> m' \<and> nat (m' - m) < length xs \<and> 1 \<le> d \<and> d \<le> xs ! nat (m' - m) \<and> sum_list (take (nat (m' - m)) xs) + d = k + 1"
  using assms
proof (induction xs arbitrary: m k)
  case (Cons x xs)
  show ?case
  proof (cases "k < x")
    case False
    have "nat (m' - m) = Suc (nat (m' - (m + 1)))" if "m + 1 \<le> m'" using that by linarith
    then show ?thesis using Cons.IH [of "k - x" "m + 1"] Cons.prems False by (simp split: if_splits)
  qed (use Cons.prems in auto)
qed simp

lemma find_month_unique:
  assumes "j < length xs" "1 \<le> d" "d \<le> xs ! j" "\<forall>x \<in> set xs. 0 \<le> x"
  shows "find_month xs m (sum_list (take j xs) + d - 1) = (m + int j, d)"
  using assms
proof (induction xs arbitrary: m j)
  case (Cons x xs)
  show ?case
  proof (cases j)
    case (Suc i)
    have "0 \<le> sum_list (take i xs)" using Cons.prems(4) by (auto intro!: sum_list_nonneg dest: in_set_takeD)
    then show ?thesis using Cons.IH [of i "m + 1"] Cons.prems Suc by (simp add: algebra_simps)
  qed (use Cons.prems in auto)
qed simp

lemma month_lengths_sum: "sum_list (month_lengths y) = year_length y" "length (month_lengths y) = 12" "\<forall>x \<in> set (month_lengths y). 28 \<le> x \<and> x \<le> 31"
  by (simp_all add: month_lengths_def year_length_def)

text \<open>Every day has one date, and every date one day.\<close>

lemma ord2ymd_right:
  assumes "ord2ymd n = (y, m, d)"
  shows "valid_date y m d \<and> ymd2ord y m d = n"
proof -
  obtain k where k: "year_day (n - 1) = (y, k)" "find_month (month_lengths y) 1 k = (m, d)"
    using assms by (auto simp: ord2ymd_def split: prod.splits)
  note R = year_day_right [OF k(1)]
  show ?thesis using find_month_right [OF _ _ k(2)] R by (auto simp: month_lengths_sum valid_date_def ymd2ord_def)
qed

lemma ymd2ord_unique:
  assumes "valid_date y m d"
  shows "ord2ymd (ymd2ord y m d) = (y, m, d)"
proof -
  let ?k = "sum_list (take (nat (m - 1)) (month_lengths y)) + d - 1"
  have j: "nat (m - 1) < length (month_lengths y)" "1 \<le> d" "d \<le> month_lengths y ! nat (m - 1)" "\<forall>x \<in> set (month_lengths y). 0 \<le> x"
    using assms month_lengths_sum(3) [of y] by (auto simp: valid_date_def month_lengths_sum(2))
  have f: "find_month (month_lengths y) 1 ?k = (m, d)" using find_month_unique [OF j, of 1] assms by (simp add: valid_date_def)
  have "0 \<le> sum_list (take (nat (m - 1)) (month_lengths y))" using j(4) by (auto intro!: sum_list_nonneg dest!: in_set_takeD)
  then have "0 \<le> ?k" using j(2) by linarith
  moreover have "?k < year_length y"
  proof -
    have "sum_list (take (Suc (nat (m - 1))) (month_lengths y)) \<le> sum_list (month_lengths y)"
      using sum_list_nonneg [of "drop (Suc (nat (m - 1))) (month_lengths y)"] j(4) sum_list_append [of "take (Suc (nat (m - 1))) (month_lengths y)" "drop (Suc (nat (m - 1))) (month_lengths y)"]
      by (auto dest!: in_set_dropD)
    then show ?thesis using j by (simp add: take_Suc_conv_app_nth month_lengths_sum)
  qed
  ultimately have "year_day (ymd2ord y m d - 1) = (y, ?k)" by (intro year_day_unique) (simp_all add: ymd2ord_def)
  then show ?thesis using f by (simp add: ord2ymd_def)
qed

text \<open>The parts of a point in time that is given by its date, hour and minute.\<close>

definition minutes_of :: "int \<Rightarrow> int \<Rightarrow> int \<Rightarrow> int \<Rightarrow> int \<Rightarrow> int" where
  "minutes_of y m d h mi = (ymd2ord y m d - 1) * 1440 + h * 60 + mi"

lemma dt_parts:
  assumes "0 \<le> h" "h < 24" "0 \<le> mi" "mi < 60" "valid_date y m d"
  shows "dt_minute (minutes_of y m d h mi) = mi" "dt_hour (minutes_of y m d h mi) = h" "dt_ordinal (minutes_of y m d h mi) = ymd2ord y m d"
    "dt_month (minutes_of y m d h mi) = m" "dt_day (minutes_of y m d h mi) = d"
proof -
  let ?o = "ymd2ord y m d - 1"
  have day: "minutes_of y m d h mi = 1440 * ?o + (h * 60 + mi)" by (simp add: minutes_of_def)
  have d1: "minutes_of y m d h mi div 1440 = ?o" unfolding day by (rule int_div_pos_eq [OF refl]) (use assms in auto)
  have d2: "minutes_of y m d h mi mod 1440 = h * 60 + mi" unfolding day by (rule int_mod_pos_eq [OF refl]) (use assms in auto)
  show o: "dt_ordinal (minutes_of y m d h mi) = ymd2ord y m d" by (simp add: dt_ordinal_def d1)
  show "dt_hour (minutes_of y m d h mi) = h" unfolding dt_hour_def d2 by (rule int_div_pos_eq [of _ 60 h mi]) (use assms in auto)
  show "dt_minute (minutes_of y m d h mi) = mi"
    unfolding dt_minute_def minutes_of_def by (rule int_mod_pos_eq [of _ 60 "?o * 24 + h" mi]) (use assms in auto)
  show "dt_month (minutes_of y m d h mi) = m" "dt_day (minutes_of y m d h mi) = d"
    using ymd2ord_unique [OF assms(5)] by (simp_all add: dt_month_def dt_day_def o)
qed

lemma minutes_of_parts:
  obtains y where "valid_date y (dt_month t) (dt_day t)" "t = minutes_of y (dt_month t) (dt_day t) (dt_hour t) (dt_minute t)"
    "0 \<le> dt_hour t" "dt_hour t < 24" "0 \<le> dt_minute t" "dt_minute t < 60"
proof -
  obtain y m d where o: "ord2ymd (dt_ordinal t) = (y, m, d)" by (rule prod_cases3)
  note R = ord2ymd_right [OF o]
  have md: "dt_month t = m" "dt_day t = d" by (simp_all add: dt_month_def dt_day_def o)
  have "t mod 1440 mod 60 = t mod 60" by (rule mod_mod_cancel) simp
  then have "t mod 1440 = dt_hour t * 60 + dt_minute t"
    using div_mult_mod_eq [of "t mod 1440" 60] by (simp add: dt_hour_def dt_minute_def)
  then have "t = minutes_of y m d (dt_hour t) (dt_minute t)"
    using R div_mult_mod_eq [of t 1440] by (simp add: minutes_of_def dt_ordinal_def)
  moreover have "0 \<le> dt_hour t" "dt_hour t < 24" "0 \<le> dt_minute t" "dt_minute t < 60"
    using pos_mod_bound [of 1440 t] by (auto simp: dt_hour_def dt_minute_def)
  ultimately show thesis using that [of y] R by (simp add: md)
qed

end
