(* ===== verification/Cron.thy ===== *)
theory Cron
  imports Calendar
begin

text \<open>
  Cron schedules (\<^verbatim>\<open>CronSchedule\<close> of \<^verbatim>\<open>victor/workflows/scheduler.py\<close>): the parser of expressions, the test whether a time
  matches, and the search for the next run. The field of an expression is a set of numbers.
\<close>

section \<open>Strings and ranges of the language\<close>

text \<open>\<^verbatim>\<open>s.split(c)\<close> and \<^verbatim>\<open>s.split()\<close>.\<close>

fun split_on :: "char \<Rightarrow> string \<Rightarrow> string list" where
  "split_on c [] = [[]]"
| "split_on c (x # s) =
     (if x = c then [] # split_on c s
      else case split_on c s of [] \<Rightarrow> [[x]] | w # ws \<Rightarrow> (x # w) # ws)"

fun word_scan :: "string \<Rightarrow> string \<Rightarrow> string list" where
  "word_scan w [] = (if w = [] then [] else [rev w])"
| "word_scan w (x # s) =
     (if py_space x then (if w = [] then word_scan [] s else rev w # word_scan [] s) else word_scan (x # w) s)"

definition py_words :: "string \<Rightarrow> string list" where
  "py_words s = word_scan [] s"

text \<open>\<^verbatim>\<open>int(s)\<close>: white space around it, a sign, digits with single underscores between them.\<close>

fun digits_ok :: "string \<Rightarrow> bool" where
  "digits_ok [] = False"
| "digits_ok [c] = is_digit c"
| "digits_ok (c # d # s) = (is_digit c \<and> (if d = CHR ''_'' then digits_ok s else digits_ok (d # s)))"

definition value_error :: "string \<Rightarrow> py_exc" where
  "value_error m = PyExc ''ValueError'' m"

definition read_unsigned :: "string \<Rightarrow> int option" where
  "read_unsigned s = (if digits_ok s then Some (int (read_nat (filter (\<lambda>c. c \<noteq> CHR ''_'') s))) else None)"

definition cron_int :: "string \<Rightarrow> int result" where
  "cron_int s =
     (case (case py_strip s of
              c # s' \<Rightarrow>
                if c = CHR ''-'' then map_option uminus (read_unsigned s')
                else if c = CHR ''+'' then read_unsigned s' else read_unsigned (c # s')
            | [] \<Rightarrow> None) of
        Some n \<Rightarrow> Inr n
      | None \<Rightarrow> Inl (value_error (''invalid literal for int() with base 10: '' @ s)))"

text \<open>\<^verbatim>\<open>a, b = xs\<close>, and the same for \<^verbatim>\<open>map(int, xs)\<close>, which is evaluated until it is too long.\<close>

definition too_few :: py_exc where
  "too_few = value_error ''not enough values to unpack''"

definition too_many :: py_exc where
  "too_many = value_error ''too many values to unpack''"

definition unpack_pair :: "string list \<Rightarrow> (string \<times> string) result" where
  "unpack_pair xs = (case xs of [a, b] \<Rightarrow> Inr (a, b) | [] \<Rightarrow> Inl too_few | [a] \<Rightarrow> Inl too_few | _ \<Rightarrow> Inl too_many)"

definition unpack_ints :: "string list \<Rightarrow> (int \<times> int) result" where
  "unpack_ints xs =
     (case xs of
        [] \<Rightarrow> Inl too_few
      | [a] \<Rightarrow> bind_result (cron_int a) (\<lambda>_. Inl too_few)
      | [a, b] \<Rightarrow> bind_result (cron_int a) (\<lambda>m. bind_result (cron_int b) (\<lambda>n. Inr (m, n)))
      | a # b # c # _ \<Rightarrow> bind_result (cron_int a) (\<lambda>m. bind_result (cron_int b) (\<lambda>n. bind_result (cron_int c) (\<lambda>_. Inl too_many))))"

text \<open>\<^verbatim>\<open>range(a, b, step)\<close>.\<close>

definition py_range :: "int \<Rightarrow> int \<Rightarrow> int \<Rightarrow> int list result" where
  "py_range a b step =
     (if step = 0 then Inl (value_error ''range() arg 3 must not be zero'')
      else Inr (map (\<lambda>i. a + int i * step)
        [0..<nat (if step > 0 then (b - a + step - 1) div step else (a - b - step - 1) div (- step))]))"

section \<open>Schedules\<close>

record CronSchedule =
  cs_expression :: string
  cs_timezone :: string
  cs_minute :: "int set"
  cs_hour :: "int set"
  cs_day_of_month :: "int set"
  cs_month :: "int set"
  cs_day_of_week :: "int set"

definition cron_aliases :: "(string, string) dict" where
  "cron_aliases =
    [(''@hourly'', ''0 * * * *''), (''@daily'', ''0 0 * * *''), (''@midnight'', ''0 0 * * *''), (''@weekly'', ''0 0 * * 0''),
     (''@monthly'', ''0 0 1 * *''), (''@yearly'', ''0 0 1 1 *''), (''@annually'', ''0 0 1 1 *'')]"

text \<open>One part of a field; the parts are separated by commas.\<close>

definition parse_part :: "int \<Rightarrow> int \<Rightarrow> string \<Rightarrow> int list result" where
  "parse_part min_val max_val part =
     (if part = ''*'' then py_range min_val (max_val + 1) 1
      else if CHR ''/'' \<in> set part then
        bind_result (unpack_pair (split_on CHR ''/'' part)) (\<lambda>(range_part, step).
        bind_result (cron_int step) (\<lambda>step_val.
          if range_part = ''*'' then py_range min_val (max_val + 1) step_val
          else if CHR ''-'' \<in> set range_part then
            bind_result (unpack_ints (split_on CHR ''-'' range_part)) (\<lambda>(start, stop). py_range start (stop + 1) step_val)
          else bind_result (cron_int range_part) (\<lambda>start. py_range start (max_val + 1) step_val)))
      else if CHR ''-'' \<in> set part then
        bind_result (unpack_ints (split_on CHR ''-'' part)) (\<lambda>(start, stop). py_range start (stop + 1) 1)
      else bind_result (cron_int part) (\<lambda>n. Inr [n]))"

fun parse_parts :: "int \<Rightarrow> int \<Rightarrow> string list \<Rightarrow> int set \<Rightarrow> int set result" where
  "parse_parts lo hi [] acc = Inr acc"
| "parse_parts lo hi (p # ps) acc = bind_result (parse_part lo hi p) (\<lambda>xs. parse_parts lo hi ps (acc \<union> set xs))"

definition parse_field :: "string \<Rightarrow> int \<Rightarrow> int \<Rightarrow> int set result" where
  "parse_field f lo hi = parse_parts lo hi (split_on CHR '','' f) {}"

definition parse_expression :: "string \<Rightarrow> CronSchedule \<Rightarrow> CronSchedule result" where
  "parse_expression e s =
     (case py_words (py_strip e) of
        [p0, p1, p2, p3, p4] \<Rightarrow>
          bind_result (parse_field p0 0 59) (\<lambda>mi.
          bind_result (parse_field p1 0 23) (\<lambda>h.
          bind_result (parse_field p2 1 31) (\<lambda>d.
          bind_result (parse_field p3 1 12) (\<lambda>mo.
          bind_result (parse_field p4 0 6) (\<lambda>w.
            Inr (s\<lparr>cs_minute := mi, cs_hour := h, cs_day_of_month := d, cs_month := mo, cs_day_of_week := w\<rparr>))))))
      | _ \<Rightarrow> Inl (value_error (''Invalid cron expression: '' @ e)))"

text \<open>The constructor: the aliases are looked up and the expression is parsed.\<close>

definition from_cron :: "string \<Rightarrow> string \<Rightarrow> CronSchedule result" where
  "from_cron e tz =
     parse_expression (dict_get_or cron_aliases e e)
       \<lparr>cs_expression = e, cs_timezone = tz, cs_minute = {}, cs_hour = {}, cs_day_of_month = {}, cs_month = {}, cs_day_of_week = {}\<rparr>"

definition from_interval :: "int \<Rightarrow> int \<Rightarrow> string \<Rightarrow> CronSchedule result" where
  "from_interval minutes hours tz =
     (if hours > 0 then
        bind_result (py_range 0 24 hours) (\<lambda>xs. from_cron (''0 '' @ py_join '','' (map show_int xs) @ '' * * *'') tz)
      else if minutes > 0 then
        bind_result (py_range 0 60 minutes) (\<lambda>xs. from_cron (py_join '','' (map show_int xs) @ '' * * * *'') tz)
      else Inl (value_error ''Either minutes or hours must be > 0''))"

definition convert_weekday :: "int set \<Rightarrow> int set" where
  "convert_weekday days = (\<lambda>d. if d = 0 then 6 else d - 1) ` days"

definition matches :: "CronSchedule \<Rightarrow> int \<Rightarrow> bool" where
  "matches s t \<longleftrightarrow> dt_minute t \<in> cs_minute s \<and> dt_hour t \<in> cs_hour s \<and> dt_day t \<in> cs_day_of_month s \<and>
     dt_month t \<in> cs_month s \<and> dt_weekday t \<in> convert_weekday (cs_day_of_week s)"

definition no_next_run :: py_exc where
  "no_next_run = value_error ''Could not find next run time within 1 year''"

fun search_run :: "CronSchedule \<Rightarrow> nat \<Rightarrow> int \<Rightarrow> int result" where
  "search_run s n t =
     (if n = 0 then Inl no_next_run
      else if matches s t then Inr t
      else bind_result (plus_minute t) (search_run s (n - 1)))"

declare search_run.simps [simp del]

definition max_iterations :: nat where
  "max_iterations = 525600"

definition next_run :: "CronSchedule \<Rightarrow> datetime \<Rightarrow> datetime result" where
  "next_run s after =
     bind_result (plus_minute (dt_minutes after)) (\<lambda>t.
     bind_result (search_run s max_iterations t) (\<lambda>u. Inr \<lparr>dt_minutes = u, dt_micros = 0, dt_offset = dt_offset after\<rparr>))"

section \<open>The next run is the first one\<close>

lemma search_run_first:
  "case search_run s n t of
     Inr u \<Rightarrow> matches s u \<and> t \<le> u \<and> u < t + int n \<and> (\<forall>v. t \<le> v \<longrightarrow> v < u \<longrightarrow> \<not> matches s v)
   | Inl _ \<Rightarrow> \<forall>v. t \<le> v \<longrightarrow> v < t + int n \<longrightarrow> v \<le> max t last_minute \<longrightarrow> \<not> matches s v"
proof (induction n arbitrary: t)
  case 0
  then show ?case by (simp add: search_run.simps)
next
  case (Suc n)
  show ?case
  proof (cases "matches s t")
    case True
    then show ?thesis by (simp add: search_run.simps [of s "Suc n"])
  next
    case no: False
    have split: "t \<le> v \<longleftrightarrow> v = t \<or> t + 1 \<le> v" for v by linarith
    show ?thesis
    proof (cases "t + 1 > last_minute")
      case True
      then show ?thesis using no by (auto simp: search_run.simps [of s "Suc n"] plus_minute_def split)
    next
      case False
      then show ?thesis using Suc.IH [of "t + 1"] no
        by (auto simp: search_run.simps [of s "Suc n"] plus_minute_def split split: sum.splits)
    qed
  qed
qed

section \<open>What an expression means\<close>

text \<open>The forms that a part of a field can have, how they are written and which numbers they stand for.\<close>

datatype cron_part =
    Every
  | Every_Step nat
  | Single nat
  | Range nat nat
  | Range_Step nat nat nat
  | From_Step nat nat

fun show_part :: "cron_part \<Rightarrow> string" where
  "show_part Every = ''*''"
| "show_part (Every_Step k) = ''*/'' @ show_nat k"
| "show_part (Single n) = show_nat n"
| "show_part (Range a b) = show_nat a @ ''-'' @ show_nat b"
| "show_part (Range_Step a b k) = show_nat a @ ''-'' @ show_nat b @ ''/'' @ show_nat k"
| "show_part (From_Step a k) = show_nat a @ ''/'' @ show_nat k"

fun part_ok :: "cron_part \<Rightarrow> bool" where
  "part_ok (Every_Step k) = (k > 0)"
| "part_ok (Range_Step a b k) = (k > 0)"
| "part_ok (From_Step a k) = (k > 0)"
| "part_ok _ = True"

definition stepped :: "int \<Rightarrow> int \<Rightarrow> int \<Rightarrow> int set" where
  "stepped a b k = {v. a \<le> v \<and> v \<le> b \<and> k dvd v - a}"

fun part_set :: "int \<Rightarrow> int \<Rightarrow> cron_part \<Rightarrow> int set" where
  "part_set lo hi Every = {lo..hi}"
| "part_set lo hi (Every_Step k) = stepped lo hi (int k)"
| "part_set lo hi (Single n) = {int n}"
| "part_set lo hi (Range a b) = {int a..int b}"
| "part_set lo hi (Range_Step a b k) = stepped (int a) (int b) (int k)"
| "part_set lo hi (From_Step a k) = stepped (int a) hi (int k)"

definition show_field :: "cron_part list \<Rightarrow> string" where
  "show_field ps = py_join '','' (map show_part ps)"

definition field_set :: "int \<Rightarrow> int \<Rightarrow> cron_part list \<Rightarrow> int set" where
  "field_set lo hi ps = (\<Union>p \<in> set ps. part_set lo hi p)"

definition field_ok :: "cron_part list \<Rightarrow> bool" where
  "field_ok ps \<longleftrightarrow> ps \<noteq> [] \<and> list_all part_ok ps"

lemma le_div_iff:
  fixes j k x :: int
  assumes "0 < k"
  shows "j \<le> x div k \<longleftrightarrow> j * k \<le> x"
proof
  assume "j \<le> x div k"
  then have "j * k \<le> x div k * k" using assms by (simp add: mult_right_mono)
  also have "\<dots> \<le> x" using div_mult_mod_eq [of x k] pos_mod_sign [OF assms, of x] by linarith
  finally show "j * k \<le> x" .
next
  assume "j * k \<le> x"
  then show "j \<le> x div k" using zdiv_mono1 [OF _ assms, of "j * k" x] assms by simp
qed

lemma range_step_set:
  assumes "0 < k"
  shows "\<exists>xs. py_range a (b + 1) k = Inr xs \<and> set xs = stepped a b k"
proof -
  have "i < nat ((b + 1 - a + k - 1) div k) \<longleftrightarrow> a + int i * k \<le> b" for i
  proof -
    have "i < nat ((b + 1 - a + k - 1) div k) \<longleftrightarrow> int i + 1 \<le> (b - a + k) div k" by (auto simp: algebra_simps)
    also have "\<dots> \<longleftrightarrow> (int i + 1) * k \<le> b - a + k" by (rule le_div_iff [OF assms])
    finally show ?thesis by (simp add: algebra_simps)
  qed
  then have "set (map (\<lambda>i. a + int i * k) [0..<nat ((b + 1 - a + k - 1) div k)]) = {a + int i * k |i. a + int i * k \<le> b}"
    by (auto simp: image_iff)
  also have "\<dots> = stepped a b k"
  proof (auto simp: stepped_def assms less_imp_le)
    fix v assume "a \<le> v" "v \<le> b" "k dvd v - a"
    then obtain j where j: "v - a = k * j" by blast
    then have "0 \<le> j" using \<open>a \<le> v\<close> assms by (metis diff_ge_0_iff_ge zero_le_mult_iff not_le)
    then show "\<exists>i. v = a + int i * k \<and> a + int i * k \<le> b" using j \<open>v \<le> b\<close> by (intro exI [of _ "nat j"]) (simp add: algebra_simps)
  qed
  finally show ?thesis using assms by (simp add: py_range_def)
qed

lemma stepped_one: "stepped a b 1 = {a..b}"
  by (auto simp: stepped_def)

lemma split_on_none: "c \<notin> set s \<Longrightarrow> split_on c s = [s]"
  by (induction s) auto

lemma split_on_append: "c \<notin> set s \<Longrightarrow> split_on c (s @ c # t) = s # split_on c t"
  by (induction s) auto

lemma split_on_join: "xs \<noteq> [] \<Longrightarrow> \<forall>x \<in> set xs. c \<notin> set x \<Longrightarrow> split_on c (py_join [c] xs) = xs"
  by (induction "[c]" xs rule: py_join.induct) (auto simp: split_on_none split_on_append)

lemma digits_ok_digits: "s \<noteq> [] \<Longrightarrow> list_all is_digit s \<Longrightarrow> digits_ok s"
  by (induction s rule: digits_ok.induct) (auto simp: is_digit_def)

lemma no_underscore: "list_all is_digit s \<Longrightarrow> filter (\<lambda>c. c \<noteq> CHR ''_'') s = s"
  by (auto simp: filter_id_conv list_all_iff is_digit_def)

lemma cron_int_show [simp]: "cron_int (show_nat n) = Inr (int n)"
proof -
  have s: "py_strip (show_nat n) = show_nat n" by (rule strip_plain) (simp_all add: digits_ends digit_not_space)
  obtain c w where cw: "show_nat n = c # w" by (cases "show_nat n") auto
  have "is_digit c" using digits_ends(1) [of n] by (simp add: cw)
  then have "c \<noteq> CHR ''-''" "c \<noteq> CHR ''+''" by (auto simp: is_digit_def)
  moreover have "read_unsigned (c # w) = Some (int n)"
    using show_nat_digits [of n] digits_ok_digits [of "show_nat n"] no_underscore [of "show_nat n"] by (simp add: read_unsigned_def flip: cw)
  ultimately show ?thesis by (simp add: cron_int_def s [unfolded cw] cw)
qed

lemma show_nat_chars: "c \<in> set (show_nat n) \<Longrightarrow> is_digit c"
  using show_nat_digits [of n] by (simp add: list_all_iff)

lemma show_nat_plain [simp]: "CHR ''/'' \<notin> set (show_nat n)" "CHR ''-'' \<notin> set (show_nat n)" "CHR '','' \<notin> set (show_nat n)" "CHR ''*'' \<notin> set (show_nat n)"
  using show_nat_chars [of "CHR ''/''" n] show_nat_chars [of "CHR ''-''" n] show_nat_chars [of "CHR '',''" n] show_nat_chars [of "CHR ''*''" n]
  by (simp_all add: is_digit_def) blast+

lemma show_nat_not_star [simp]: "show_nat n \<noteq> ''*''" "show_nat n @ CHR ''-'' # s \<noteq> ''*''" "show_nat n @ CHR ''/'' # s \<noteq> ''*''"
  using show_nat_plain(4) [of n] list.set_intros(1) [of "CHR ''*''" "[]"] by (fastforce simp: append_eq_Cons_conv)+

lemma parse_part_right:
  assumes "part_ok p"
  shows "\<exists>xs. parse_part lo hi (show_part p) = Inr xs \<and> set xs = part_set lo hi p"
proof (cases p)
  case Every
  then show ?thesis using range_step_set [of 1 lo hi] by (simp add: parse_part_def stepped_one)
next
  case (Every_Step k)
  then show ?thesis using assms range_step_set [of "int k" lo hi] split_on_append [of "CHR ''/''" "''*''" "show_nat k"]
    by (simp add: parse_part_def split_on_none unpack_pair_def)
next
  case (Single n)
  then show ?thesis by (simp add: parse_part_def)
next
  case (Range a b)
  then show ?thesis using range_step_set [of 1 "int a" "int b"]
    by (simp add: parse_part_def split_on_append split_on_none unpack_ints_def stepped_one)
next
  case (Range_Step a b k)
  have "split_on CHR ''/'' (show_nat a @ CHR ''-'' # show_nat b @ CHR ''/'' # show_nat k) = [show_nat a @ CHR ''-'' # show_nat b, show_nat k]"
    using split_on_append [of "CHR ''/''" "show_nat a @ CHR ''-'' # show_nat b" "show_nat k"] by (simp add: split_on_none)
  then show ?thesis using Range_Step assms range_step_set [of "int k" "int a" "int b"]
    by (simp add: parse_part_def split_on_append split_on_none unpack_ints_def unpack_pair_def)
next
  case (From_Step a k)
  then show ?thesis using assms range_step_set [of "int k" "int a" hi]
    by (simp add: parse_part_def split_on_append split_on_none unpack_pair_def)
qed

lemma parse_parts_right: "list_all part_ok ps \<Longrightarrow> parse_parts lo hi (map show_part ps) acc = Inr (acc \<union> field_set lo hi ps)"
proof (induction ps arbitrary: acc)
  case (Cons p ps)
  obtain xs where "parse_part lo hi (show_part p) = Inr xs" "set xs = part_set lo hi p" using parse_part_right [of p lo hi] Cons.prems by auto
  then show ?case using Cons by (simp add: field_set_def Un_assoc)
qed (simp add: field_set_def)

lemma part_no_comma: "CHR '','' \<notin> set (show_part p)"
  by (cases p) auto

lemma parse_field_right: "field_ok ps \<Longrightarrow> parse_field (show_field ps) lo hi = Inr (field_set lo hi ps)"
  using parse_parts_right [of ps lo hi "{}"] split_on_join [of "map show_part ps" "CHR '',''"]
  by (simp add: field_ok_def parse_field_def show_field_def part_no_comma)

text \<open>Words without blanks, one blank between them.\<close>

lemma word_scan_word: "\<forall>c \<in> set w. \<not> py_space c \<Longrightarrow> word_scan u (w @ s) = word_scan (rev w @ u) s"
  by (induction w arbitrary: u) auto

lemma space_space: "py_space CHR '' ''"
  by (simp add: py_space_def)

lemma words_join: "\<forall>w \<in> set ws. w \<noteq> [] \<and> (\<forall>c \<in> set w. \<not> py_space c) \<Longrightarrow> py_words (py_join '' '' ws) = ws"
proof (induction "'' ''" ws rule: py_join.induct)
  case 1
  then show ?case by (simp add: py_words_def)
next
  case (2 w)
  then show ?case using word_scan_word [of w "[]" "[]"] by (simp add: py_words_def)
next
  case (3 w v ws)
  then show ?case using word_scan_word [of w "[]" "'' '' @ py_join '' '' (v # ws)"] by (simp add: py_words_def space_space)
qed

lemma part_no_space: "c \<in> set (show_part p) \<Longrightarrow> \<not> py_space c"
  using show_nat_chars [of c] digit_not_space [of c] by (cases p) (auto simp: py_space_def)

lemma join_chars: "c \<in> set (py_join sep xs) \<Longrightarrow> c \<in> set sep \<or> (\<exists>x \<in> set xs. c \<in> set x)"
  by (induction sep xs rule: py_join.induct) auto

lemma field_no_space: "c \<in> set (show_field ps) \<Longrightarrow> \<not> py_space c"
  using join_chars [of c "'',''" "map show_part ps"] part_no_space [of c] by (auto simp: show_field_def py_space_def)

lemma show_part_nonempty: "show_part p \<noteq> []"
  by (cases p) auto

lemma field_nonempty: "field_ok ps \<Longrightarrow> show_field ps \<noteq> []"
  by (cases ps rule: remdups_adj.cases) (auto simp: field_ok_def show_field_def show_part_nonempty)

lemma parse_expression_right:
  assumes "field_ok mi" "field_ok h" "field_ok d" "field_ok mo" "field_ok w"
  shows "parse_expression (py_join '' '' [show_field mi, show_field h, show_field d, show_field mo, show_field w]) s =
    Inr (s\<lparr>cs_minute := field_set 0 59 mi, cs_hour := field_set 0 23 h, cs_day_of_month := field_set 1 31 d, cs_month := field_set 1 12 mo,
      cs_day_of_week := field_set 0 6 w\<rparr>)"
proof -
  let ?ws = "[show_field mi, show_field h, show_field d, show_field mo, show_field w]"
  have ne: "show_field mi \<noteq> []" "show_field w \<noteq> []" using assms field_nonempty by blast+
  have words: "py_words (py_join '' '' ?ws) = ?ws" by (rule words_join) (use assms field_nonempty field_no_space in auto)
  have strip: "py_strip (py_join '' '' ?ws) = py_join '' '' ?ws"
    by (rule strip_plain) (use ne field_no_space [of "hd (show_field mi)" mi] field_no_space [of "last (show_field w)" w] in simp_all)
  show ?thesis unfolding parse_expression_def strip words using assms by (simp add: parse_field_right)
qed

text \<open>An expression that is written out is not one of the aliases.\<close>

lemma field_first: "field_ok ps \<Longrightarrow> \<exists>c s. show_field ps = c # s \<and> c \<noteq> CHR ''@''"
proof -
  assume ok: "field_ok ps"
  obtain c s where cs: "show_field ps = c # s" using field_nonempty [OF ok] by (cases "show_field ps") auto
  have "c \<in> set (show_field ps)" by (simp add: cs)
  then have "c = CHR '','' \<or> (\<exists>p. c \<in> set (show_part p))" using join_chars [of c "'',''" "map show_part ps"] by (auto simp: show_field_def)
  moreover have "CHR ''@'' \<notin> set (show_part p)" for p
    using show_nat_chars [of "CHR ''@''"] by (cases p) (auto simp: is_digit_def)
  ultimately show ?thesis using cs by auto
qed

lemma not_alias: "c \<noteq> CHR ''@'' \<Longrightarrow> dict_get_or cron_aliases (c # s) (c # s) = c # s"
  by (simp add: cron_aliases_def dict_get_or_def)

lemma from_cron_right:
  assumes "field_ok mi" "field_ok h" "field_ok d" "field_ok mo" "field_ok w"
    "e = py_join '' '' [show_field mi, show_field h, show_field d, show_field mo, show_field w]"
  shows "from_cron e tz = Inr \<lparr>cs_expression = e, cs_timezone = tz, cs_minute = field_set 0 59 mi, cs_hour = field_set 0 23 h,
    cs_day_of_month = field_set 1 31 d, cs_month = field_set 1 12 mo, cs_day_of_week = field_set 0 6 w\<rparr>"
proof -
  obtain c s where "e = c # s" "c \<noteq> CHR ''@''" using field_first [OF assms(1)] by (auto simp: assms(6))
  then have "dict_get_or cron_aliases e e = e" using not_alias by blast
  then show ?thesis unfolding from_cron_def assms(6) using parse_expression_right [OF assms(1-5)] by simp
qed

lemma convert_weekday_iff: "0 \<le> p \<Longrightarrow> p \<in> convert_weekday days \<longleftrightarrow> p + 1 \<in> days \<or> p = 6 \<and> 0 \<in> days"
  by (auto simp: convert_weekday_def image_iff intro: bexI [of _ "p + 1"])

lemma weekday_nonneg: "0 \<le> dt_weekday t"
  by (simp add: dt_weekday_def)

text \<open>
  Standard cron: minute, hour and month must match, and a day matches if it matches both day fields
  where one of them is a star, and either of them where both are restricted. Weekdays are numbered
  from Sunday, which is zero and also seven.
\<close>

definition cron_weekday :: "int \<Rightarrow> int" where
  "cron_weekday t = (dt_weekday t + 1) mod 7"

definition standard_cron :: "cron_part list \<Rightarrow> cron_part list \<Rightarrow> cron_part list \<Rightarrow> cron_part list \<Rightarrow> cron_part list \<Rightarrow> int \<Rightarrow> bool" where
  "standard_cron mi h d mo w t \<longleftrightarrow>
     dt_minute t \<in> field_set 0 59 mi \<and> dt_hour t \<in> field_set 0 23 h \<and> dt_month t \<in> field_set 1 12 mo \<and>
     (let day = dt_day t \<in> field_set 1 31 d;
          weekday = cron_weekday t \<in> field_set 0 6 w \<or> cron_weekday t = 0 \<and> 7 \<in> field_set 0 6 w
      in if d = [Every] \<or> w = [Every] then day \<and> weekday else day \<or> weekday)"

lemma cron_weekday_iff:
  "dt_weekday t + 1 \<in> S \<or> dt_weekday t = 6 \<and> 0 \<in> S \<longleftrightarrow> cron_weekday t \<in> S \<or> cron_weekday t = 0 \<and> 7 \<in> S"
proof -
  have "dt_weekday t < 7" using weekday_nonneg [of t] by (simp add: dt_weekday_def)
  then consider "dt_weekday t = 6" | "cron_weekday t = dt_weekday t + 1" "0 < cron_weekday t" "dt_weekday t \<noteq> 6"
    using weekday_nonneg [of t] by (fastforce simp: cron_weekday_def)
  then show ?thesis by cases (auto simp: cron_weekday_def)
qed

lemma cron_matches:
  assumes "field_ok mi" "field_ok h" "field_ok d" "field_ok mo" "field_ok w"
  shows "\<exists>s. from_cron (py_join '' '' [show_field mi, show_field h, show_field d, show_field mo, show_field w]) tz = Inr s \<and>
    (\<forall>t. matches s t \<longleftrightarrow> dt_minute t \<in> field_set 0 59 mi \<and> dt_hour t \<in> field_set 0 23 h \<and> dt_day t \<in> field_set 1 31 d \<and>
      dt_month t \<in> field_set 1 12 mo \<and> (cron_weekday t \<in> field_set 0 6 w \<or> cron_weekday t = 0 \<and> 7 \<in> field_set 0 6 w))"
  unfolding cron_weekday_iff [symmetric]
  using from_cron_right [OF assms refl, of tz] convert_weekday_iff [OF weekday_nonneg] by (auto simp: matches_def)

text \<open>C28. A cron expression whose day of the month or day of the week is a star means what standard cron says: five fields of comma-separated parts, each part a star, a number, a
  range, or one of these with a step, are parsed to a schedule that a time matches exactly if standard cron matches it, with weekdays counted from Sunday as zero or seven.
  (Where both day fields are restricted, standard cron takes either and this code both.)\<close>

theorem cron_parse_exact:
  assumes "field_ok mi" "field_ok h" "field_ok d" "field_ok mo" "field_ok w" "d = [Every] \<or> w = [Every]"
  shows "\<exists>s. from_cron (py_join '' '' [show_field mi, show_field h, show_field d, show_field mo, show_field w]) tz = Inr s \<and>
    (\<forall>t. matches s t \<longleftrightarrow> standard_cron mi h d mo w t)"
  using cron_matches [OF assms(1-5), of tz] assms(6) by (auto simp: standard_cron_def Let_def)

text \<open>With both day fields restricted the schedule misses times of standard cron, and matches no others.\<close>

lemma restricted_days_narrow:
  assumes "field_ok mi" "field_ok h" "field_ok d" "field_ok mo" "field_ok w"
  shows "\<exists>s. from_cron (py_join '' '' [show_field mi, show_field h, show_field d, show_field mo, show_field w]) tz = Inr s \<and>
    (\<forall>t. matches s t \<longrightarrow> standard_cron mi h d mo w t) \<and>
    (\<forall>t. d \<noteq> [Every] \<and> w \<noteq> [Every] \<and> standard_cron mi h d mo w t \<and> dt_day t \<notin> field_set 1 31 d \<longrightarrow> \<not> matches s t)"
  using cron_matches [OF assms, of tz] by (auto simp: standard_cron_def Let_def)

lemma show_singles: "\<forall>x \<in> set xs. 0 \<le> x \<Longrightarrow> py_join '','' (map show_int xs) = show_field (map (\<lambda>x. Single (nat x)) xs)"
proof -
  assume "\<forall>x \<in> set xs. 0 \<le> x"
  then have "map show_int xs = map show_part (map (\<lambda>x. Single (nat x)) xs)" by (auto simp: show_int_def)
  then show ?thesis unfolding show_field_def by (rule arg_cong)
qed

lemma field_set_singles: "\<forall>x \<in> set xs. 0 \<le> x \<Longrightarrow> field_set lo hi (map (\<lambda>x. Single (nat x)) xs) = set xs"
  by (auto simp: field_set_def)

lemma field_ok_singles: "field_ok (map (\<lambda>x. Single (nat x)) xs) \<longleftrightarrow> xs \<noteq> []"
  by (auto simp: field_ok_def list_all_iff)

lemma field_simple: "field_ok [Every]" "field_set lo hi [Every] = {lo..hi}" "show_field [Every] = ''*''" "field_ok [Single n]" "field_set lo hi [Single n] = {int n}"
  "show_field [Single n] = show_nat n"
  by (simp_all add: field_ok_def field_set_def show_field_def)

lemma from_interval_hours:
  assumes "0 < hours"
  shows "\<exists>e. from_interval minutes hours tz = Inr \<lparr>cs_expression = e, cs_timezone = tz, cs_minute = {0}, cs_hour = stepped 0 23 hours,
    cs_day_of_month = {1..31}, cs_month = {1..12}, cs_day_of_week = {0..6}\<rparr>"
proof -
  obtain xs where xs: "py_range 0 24 hours = Inr xs" "set xs = stepped 0 23 hours" using range_step_set [OF assms, of 0 23] by auto
  have pos: "\<forall>x \<in> set xs. 0 \<le> x" "xs \<noteq> []" using xs(2) by (auto simp: stepped_def)
  let ?h = "map (\<lambda>x. Single (nat x)) xs"
  let ?e = "py_join '' '' [show_field [Single 0], show_field ?h, show_field [Every], show_field [Every], show_field [Every]]"
  have zero: "show_nat 0 = ''0''" by code_simp
  have i: "from_interval minutes hours tz = from_cron (''0 '' @ py_join '','' (map show_int xs) @ '' * * *'') tz"
    using assms xs(1) by (simp add: from_interval_def)
  have e: "''0 '' @ py_join '','' (map show_int xs) @ '' * * *'' = ?e" by (simp add: show_singles [OF pos(1)] field_simple zero)
  have "field_ok ?h" "field_set 0 23 ?h = stepped 0 23 hours" using pos xs(2) by (simp_all add: field_ok_singles field_set_singles)
  then have "from_cron ?e tz = Inr \<lparr>cs_expression = ?e, cs_timezone = tz, cs_minute = {0}, cs_hour = stepped 0 23 hours,
      cs_day_of_month = {1..31}, cs_month = {1..12}, cs_day_of_week = {0..6}\<rparr>"
    using from_cron_right [OF _ _ _ _ _ refl, of "[Single 0]" ?h "[Every]" "[Every]" "[Every]" tz] by (simp add: field_simple)
  then show ?thesis unfolding i e by simp
qed

lemma from_interval_minutes:
  assumes "0 < minutes" "hours \<le> 0"
  shows "\<exists>e. from_interval minutes hours tz = Inr \<lparr>cs_expression = e, cs_timezone = tz, cs_minute = stepped 0 59 minutes, cs_hour = {0..23},
    cs_day_of_month = {1..31}, cs_month = {1..12}, cs_day_of_week = {0..6}\<rparr>"
proof -
  obtain xs where xs: "py_range 0 60 minutes = Inr xs" "set xs = stepped 0 59 minutes" using range_step_set [OF assms(1), of 0 59] by auto
  have pos: "\<forall>x \<in> set xs. 0 \<le> x" "xs \<noteq> []" using xs(2) by (auto simp: stepped_def)
  let ?m = "map (\<lambda>x. Single (nat x)) xs"
  let ?e = "py_join '' '' [show_field ?m, show_field [Every], show_field [Every], show_field [Every], show_field [Every]]"
  have i: "from_interval minutes hours tz = from_cron (py_join '','' (map show_int xs) @ '' * * * *'') tz"
    using assms xs(1) by (simp add: from_interval_def)
  have e: "py_join '','' (map show_int xs) @ '' * * * *'' = ?e" by (simp add: show_singles [OF pos(1)] field_simple)
  have "field_ok ?m" "field_set 0 59 ?m = stepped 0 59 minutes" using pos xs(2) by (simp_all add: field_ok_singles field_set_singles)
  then have "from_cron ?e tz = Inr \<lparr>cs_expression = ?e, cs_timezone = tz, cs_minute = stepped 0 59 minutes, cs_hour = {0..23},
      cs_day_of_month = {1..31}, cs_month = {1..12}, cs_day_of_week = {0..6}\<rparr>"
    using from_cron_right [OF _ _ _ _ _ refl, of ?m "[Every]" "[Every]" "[Every]" "[Every]" tz] by (simp add: field_simple)
  then show ?thesis unfolding i e by simp
qed

theorem cron_parse_exact_witness:
  "\<exists>s. from_cron (py_join '' '' [show_field [Every_Step 15], show_field [Range 9 17], show_field [Every], show_field [Every], show_field [Range 1 5]]) ''UTC'' = Inr s \<and>
     \<not> matches s (minutes_of 2025 1 4 9 15)"
proof -
  have v: "valid_date 2025 1 4" by (simp add: valid_date_def month_lengths_def)
  have "dt_weekday (minutes_of 2025 1 4 9 15) = 5"
    by (simp add: dt_weekday_def dt_parts(3) [OF _ _ _ _ v] ymd2ord_def days_before_year_def month_lengths_def)
  then have "\<not> standard_cron [Every_Step 15] [Range 9 17] [Every] [Every] [Range 1 5] (minutes_of 2025 1 4 9 15)"
    by (simp add: standard_cron_def cron_weekday_def field_set_def)
  then show ?thesis
    using cron_parse_exact [of "[Every_Step 15]" "[Range 9 17]" "[Every]" "[Every]" "[Range 1 5]" "''UTC''"] by (auto simp: field_ok_def)
qed

end
