(* ===== verification/Cron_Runs.thy ===== *)
theory Cron_Runs
  imports Cron
begin

text \<open>
  What the search for the next run of a cron schedule finds: the first matching minute, which schedules always have one, and where the
  search of one year is too short.
\<close>

section \<open>The first matching minute\<close>

text \<open>C27. The next run is the first matching minute after the given time: if the search returns a time, it is a later minute that matches, within a
  year of 365 days, no minute in between matches, and it has the offset of the given time and no seconds; if it raises, no minute of
  that year that the calendar has matches.\<close>

theorem next_run_exact:
  "case next_run s after of
     Inr d \<Rightarrow> matches s (dt_minutes d) \<and> dt_minutes after < dt_minutes d \<and> dt_minutes d \<le> dt_minutes after + 525600 \<and>
       (\<forall>t. dt_minutes after < t \<longrightarrow> t < dt_minutes d \<longrightarrow> \<not> matches s t) \<and> dt_micros d = 0 \<and> dt_offset d = dt_offset after
   | Inl _ \<Rightarrow> \<forall>t. dt_minutes after < t \<longrightarrow> t \<le> dt_minutes after + 525600 \<longrightarrow> t \<le> last_minute \<longrightarrow> \<not> matches s t"
proof (cases "dt_minutes after + 1 > last_minute")
  case True
  then show ?thesis by (auto simp: next_run_def plus_minute_def)
next
  case False
  show ?thesis using search_run_first [where s = s and n = max_iterations and t = "dt_minutes after + 1"] False
    by (auto simp: next_run_def plus_minute_def max_iterations_def split: sum.splits)
qed

section \<open>A next run exists\<close>

lemma next_run_finds:
  assumes "matches s u" "dt_minutes after < u" "u \<le> dt_minutes after + 525600" "u \<le> last_minute"
  shows "\<exists>d. next_run s after = Inr d \<and> dt_minutes d \<le> u"
proof (cases "search_run s max_iterations (dt_minutes after + 1)")
  case (Inl e)
  then show ?thesis using search_run_first [where s = s and n = max_iterations and t = "dt_minutes after + 1"] assms
    by (auto simp: max_iterations_def)
next
  case (Inr v)
  then have "\<forall>w. dt_minutes after + 1 \<le> w \<longrightarrow> w < v \<longrightarrow> \<not> matches s w"
    using search_run_first [where s = s and n = max_iterations and t = "dt_minutes after + 1"] by simp
  then have "v \<le> u" using assms(1,2) by (meson add1_zle_eq not_le)
  then show ?thesis using Inr assms(2,4) by (simp add: next_run_def plus_minute_def)
qed

text \<open>The same day of the following month.\<close>

lemma next_month:
  assumes "1 \<le> m" "m \<le> 12" "1 \<le> d" "d \<le> 28"
  obtains y' m' where "1 \<le> m'" "m' \<le> 12" "ymd2ord y' m' d = ymd2ord y m d + month_lengths y ! nat (m - 1)"
proof (cases "m = 12")
  case True
  have "sum_list (take 11 (month_lengths y)) = year_length y - 31" by (simp add: month_lengths_def year_length_def)
  then have "ymd2ord (y + 1) 1 d = ymd2ord y m d + month_lengths y ! nat (m - 1)"
    using True by (simp add: ymd2ord_def days_before_Suc) (simp add: month_lengths_def)
  then show thesis by (intro that [of 1]) auto
next
  case False
  have "nat (m + 1 - 1) = Suc (nat (m - 1))" "nat (m - 1) < length (month_lengths y)" using assms False by (auto simp: month_lengths_sum)
  then have "ymd2ord y (m + 1) d = ymd2ord y m d + month_lengths y ! nat (m - 1)" by (simp add: ymd2ord_def take_Suc_conv_app_nth)
  then show thesis using assms False by (intro that [of "m + 1"]) auto
qed

lemma short_date: "1 \<le> m \<Longrightarrow> m \<le> 12 \<Longrightarrow> 1 \<le> d \<Longrightarrow> d \<le> 28 \<Longrightarrow> valid_date y m d"
  using month_lengths_sum(3) [of y] nth_mem [of "nat (m - 1)" "month_lengths y"] by (fastforce simp: valid_date_def month_lengths_sum(2))

lemma month_length_bounds: "1 \<le> m \<Longrightarrow> m \<le> 12 \<Longrightarrow> 28 \<le> month_lengths y ! nat (m - 1) \<and> month_lengths y ! nat (m - 1) \<le> 31"
  using month_lengths_sum(3) [of y] nth_mem [of "nat (m - 1)" "month_lengths y"] by (simp add: month_lengths_sum(2))

lemma monthly_time:
  assumes "1 \<le> d" "d \<le> 28" "0 \<le> h" "h < 24" "0 \<le> mi" "mi < 60"
  shows "\<exists>u. t < u \<and> u \<le> t + 31 * 1440 \<and> dt_day u = d \<and> dt_hour u = h \<and> dt_minute u = mi"
proof -
  obtain y where y: "valid_date y (dt_month t) (dt_day t)" "t = minutes_of y (dt_month t) (dt_day t) (dt_hour t) (dt_minute t)"
    and tm: "0 \<le> dt_hour t" "dt_hour t < 24" "0 \<le> dt_minute t" "dt_minute t < 60" by (rule minutes_of_parts)
  let ?m = "dt_month t"
  have m: "1 \<le> ?m" "?m \<le> 12" "1 \<le> dt_day t" "dt_day t \<le> month_lengths y ! nat (?m - 1)" using y(1) by (auto simp: valid_date_def)
  note len = month_length_bounds [OF m(1,2), of y]
  have diff: "ymd2ord y ?m d = ymd2ord y ?m (dt_day t) + d - dt_day t" by (simp add: ymd2ord_def)
  show ?thesis
  proof (cases "t < minutes_of y ?m d h mi")
    case True
    have "minutes_of y ?m d h mi \<le> t + 31 * 1440"
      using arg_cong [OF y(2), of "\<lambda>x. x"] diff m(3) assms tm by (simp add: minutes_of_def)
    then show ?thesis using True dt_parts [OF assms(3-6) short_date [OF m(1,2) assms(1,2)], of y] by blast
  next
    case False
    obtain y' m' where n: "1 \<le> m'" "m' \<le> 12" "ymd2ord y' m' d = ymd2ord y ?m d + month_lengths y ! nat (?m - 1)"
      using next_month [OF m(1,2) assms(1,2)] by blast
    have "t < minutes_of y' m' d h mi \<and> minutes_of y' m' d h mi \<le> t + 31 * 1440"
      using y(2) diff n(3) len m(4) assms tm False by (simp add: minutes_of_def)
    then show ?thesis using dt_parts [OF assms(3-6) short_date [OF n(1,2) assms(1,2)], of y'] by blast
  qed
qed

lemma date_bounds: "1 \<le> dt_month t" "dt_month t \<le> 12" "1 \<le> dt_day t" "dt_day t \<le> 31" "0 \<le> dt_weekday t" "dt_weekday t \<le> 6"
proof -
  obtain y where "valid_date y (dt_month t) (dt_day t)" by (rule minutes_of_parts)
  then show "1 \<le> dt_month t" "dt_month t \<le> 12" "1 \<le> dt_day t" "dt_day t \<le> 31"
    using month_length_bounds [of "dt_month t" y] by (auto simp: valid_date_def)
  show "0 \<le> dt_weekday t" "dt_weekday t \<le> 6" using pos_mod_bound [of 7 "dt_ordinal t + 6"] by (simp_all add: dt_weekday_def)
qed

lemma every_weekday: "{0..6} \<subseteq> days \<Longrightarrow> dt_weekday t \<in> convert_weekday days"
proof -
  assume d: "{0..6} \<subseteq> days"
  let ?d = "if dt_weekday t = 6 then 0 else dt_weekday t + 1"
  have "?d \<in> days" using d date_bounds(5,6) [of t] by auto
  moreover have "dt_weekday t = (if ?d = 0 then 6 else ?d - 1)" using date_bounds(5) [of t] by auto
  ultimately show ?thesis unfolding convert_weekday_def by blast
qed

lemma weekly_time:
  assumes "0 \<le> w" "w \<le> 6" "0 \<le> h" "h < 24" "0 \<le> mi" "mi < 60"
  shows "\<exists>u. t < u \<and> u \<le> t + 7 * 1440 \<and> dt_weekday u = w \<and> dt_hour u = h \<and> dt_minute u = mi"
proof -
  define k where "k = (w - (dt_ordinal t + 6)) mod 7"
  have k: "0 \<le> k" "k < 7" by (simp_all add: k_def)
  have "(dt_ordinal t + 6 + k) mod 7 = w mod 7" unfolding k_def by (simp add: mod_add_right_eq)
  then have w: "(dt_ordinal t + 6 + k) mod 7 = w" using assms(1,2) by simp
  have parts: "dt_ordinal (1440 * (n - 1) + (h * 60 + mi)) = n" "dt_hour (1440 * (n - 1) + (h * 60 + mi)) = h"
    "dt_minute (1440 * (n - 1) + (h * 60 + mi)) = mi" for n
  proof -
    have a: "(1440 * (n - 1) + (h * 60 + mi)) div 1440 = n - 1" by (rule int_div_pos_eq [OF refl]) (use assms in auto)
    have b: "(1440 * (n - 1) + (h * 60 + mi)) mod 1440 = h * 60 + mi" by (rule int_mod_pos_eq [OF refl]) (use assms in auto)
    show "dt_ordinal (1440 * (n - 1) + (h * 60 + mi)) = n" by (simp only: dt_ordinal_def a diff_add_cancel)
    show "dt_hour (1440 * (n - 1) + (h * 60 + mi)) = h" unfolding dt_hour_def b by (rule int_div_pos_eq [of _ 60 h mi]) (use assms in auto)
    show "dt_minute (1440 * (n - 1) + (h * 60 + mi)) = mi"
      unfolding dt_minute_def by (rule int_mod_pos_eq [of _ 60 "(n - 1) * 24 + h" mi]) (use assms in auto)
  qed
  obtain r where t: "t = 1440 * (dt_ordinal t - 1) + r" and r: "0 \<le> r" "r < 1440"
    by (rule that [of "t mod 1440"]) (simp_all add: dt_ordinal_def)
  define u where "u = 1440 * (dt_ordinal t + k - 1) + (h * 60 + mi)"
  have ueq: "u = 1440 * (dt_ordinal t - 1) + 1440 * k + (h * 60 + mi)" by (simp add: u_def algebra_simps)
  show ?thesis
  proof (cases "t < u")
    case True
    have "dt_weekday u = w" using w parts(1) [of "dt_ordinal t + k"] by (simp add: dt_weekday_def u_def add_ac)
    moreover have "u \<le> t + 7 * 1440"
    proof -
      have "1440 * k \<le> 1440 * 6" "h * 60 \<le> 23 * 60" "mi \<le> 59" using k assms by auto
      then show ?thesis using t r ueq by linarith
    qed
    ultimately show ?thesis using True parts(2,3) [of "dt_ordinal t + k"] unfolding u_def by blast
  next
    case False
    have u: "u + 7 * 1440 = 1440 * (dt_ordinal t + (k + 7) - 1) + (h * 60 + mi)" by (simp add: u_def)
    have "dt_ordinal t + (k + 7) + 6 = dt_ordinal t + 6 + k + 7" by simp
    then have "dt_weekday (u + 7 * 1440) = w"
      using w unfolding dt_weekday_def u parts(1) by (simp only: mod_add_self2)
    moreover note u
    moreover have "t < u + 7 * 1440"
    proof -
      have "0 \<le> 1440 * k" "0 \<le> h * 60" using k assms by auto
      then show ?thesis using t r ueq assms(5) by linarith
    qed
    moreover have "dt_hour (u + 7 * 1440) = h" "dt_minute (u + 7 * 1440) = mi" unfolding u by (rule parts)+
    ultimately show ?thesis using False by (intro exI [of _ "u + 7 * 1440"]) auto
  qed
qed


text \<open>Schedules that have a run in each month, or in each week.\<close>

definition clock_ok :: "CronSchedule \<Rightarrow> bool" where
  "clock_ok s \<longleftrightarrow> (\<exists>h \<in> cs_hour s. 0 \<le> h \<and> h < 24) \<and> (\<exists>mi \<in> cs_minute s. 0 \<le> mi \<and> mi < 60) \<and> {1..12} \<subseteq> cs_month s"

definition monthly :: "CronSchedule \<Rightarrow> bool" where
  "monthly s \<longleftrightarrow> (\<exists>d \<in> cs_day_of_month s. 1 \<le> d \<and> d \<le> 28) \<and> {0..6} \<subseteq> cs_day_of_week s"

definition weekly :: "CronSchedule \<Rightarrow> bool" where
  "weekly s \<longleftrightarrow> {1..31} \<subseteq> cs_day_of_month s \<and> (\<exists>w \<in> cs_day_of_week s. 0 \<le> w \<and> w \<le> 6)"

lemma regular_match:
  assumes "clock_ok s" "monthly s \<or> weekly s"
  shows "\<exists>u. t < u \<and> u \<le> t + 31 * 1440 \<and> matches s u"
proof -
  obtain h mi where hm: "h \<in> cs_hour s" "0 \<le> h" "h < 24" "mi \<in> cs_minute s" "0 \<le> mi" "mi < 60" and months: "{1..12} \<subseteq> cs_month s"
    using assms(1) by (auto simp: clock_ok_def)
  have month: "dt_month u \<in> cs_month s" for u using months date_bounds(1,2) [of u] by auto
  show ?thesis
  proof (cases "monthly s")
    case True
    then obtain d where d: "d \<in> cs_day_of_month s" "1 \<le> d" "d \<le> 28" "{0..6} \<subseteq> cs_day_of_week s" by (auto simp: monthly_def)
    obtain u where "t < u" "u \<le> t + 31 * 1440" "dt_day u = d" "dt_hour u = h" "dt_minute u = mi"
      using monthly_time [OF d(2,3) hm(2,3,5,6)] by blast
    then show ?thesis using d(1) hm(1,4) month every_weekday [OF d(4)] by (auto simp: matches_def)
  next
    case False
    then obtain w where w: "w \<in> cs_day_of_week s" "0 \<le> w" "w \<le> 6" "{1..31} \<subseteq> cs_day_of_month s" using assms(2) by (auto simp: weekly_def)
    define p where "p = (if w = 0 then 6 else w - 1)"
    have p: "0 \<le> p" "p \<le> 6" using w(2,3) by (auto simp: p_def)
    obtain u where u: "t < u" "u \<le> t + 7 * 1440" "dt_weekday u = p" "dt_hour u = h" "dt_minute u = mi"
      using weekly_time [of p h mi t] w(2,3) hm(2,3,5,6) p by blast
    have "dt_day u \<in> cs_day_of_month s" using w(4) date_bounds(3,4) [of u] by auto
    moreover have "dt_weekday u \<in> convert_weekday (cs_day_of_week s)" using w(1) u(3) by (auto simp: convert_weekday_def p_def)
    ultimately show ?thesis using u hm(1,4) month by (intro exI [of _ u]) (auto simp: matches_def)
  qed
qed

text \<open>A schedule for all months with an hour and a minute, and with a day up to the 28th for all weekdays or a weekday for all days, has a next run after
  any time, and finds it within 31 days; only at the end of the calendar there is none.\<close>

theorem regular_schedule_runs:
  assumes "clock_ok s" "monthly s \<or> weekly s" "dt_minutes after + 31 * 1440 \<le> last_minute"
  shows "\<exists>d. next_run s after = Inr d \<and> dt_minutes after < dt_minutes d \<and> dt_minutes d \<le> dt_minutes after + 31 * 1440"
proof -
  obtain u where u: "dt_minutes after < u" "u \<le> dt_minutes after + 31 * 1440" "matches s u" using regular_match [OF assms(1,2)] by blast
  then obtain d where d: "next_run s after = Inr d" "dt_minutes d \<le> u" using next_run_finds [of s u after] assms(3) by auto
  then have "dt_minutes after < dt_minutes d"
    using search_run_first [where s = s and n = max_iterations and t = "dt_minutes after + 1"]
    by (auto simp: next_run_def bind_result_eq_Inr plus_minute_def split: if_splits)
  then show ?thesis using u d by auto
qed

section \<open>Where a year is not enough\<close>

lemma search_run_error: "search_run s n t = Inl e \<Longrightarrow> t + int n \<le> last_minute \<Longrightarrow> e = no_next_run"
proof (induction n arbitrary: t)
  case (Suc n)
  then show ?case using Suc.IH [of "t + 1"]
    by (auto simp: search_run.simps [of s "Suc n"] plus_minute_def split: if_splits)
qed (simp add: search_run.simps)

text \<open>A yearly schedule in the first minute of a leap year: the next one is 366 days away, and the search gives up after 365.\<close>

lemma yearly_fails_in_leap_year:
  assumes "cs_minute s = {0}" "cs_hour s = {0}" "cs_day_of_month s = {1}" "cs_month s = {1}" "is_leap y"
    "dt_minutes after = minutes_of y 1 1 0 0" "dt_minutes after + 525601 \<le> last_minute"
  shows "next_run s after = Inl no_next_run"
proof -
  have start: "minutes_of z 1 1 0 0 = days_before_year z * 1440" for z by (simp add: minutes_of_def ymd2ord_def)
  have no: "\<not> matches s u" if "dt_minutes after < u" "u \<le> dt_minutes after + 525600" for u
  proof
    assume m: "matches s u"
    obtain z where "u = minutes_of z (dt_month u) (dt_day u) (dt_hour u) (dt_minute u)" by (rule minutes_of_parts)
    then have z: "u = days_before_year z * 1440" using m assms(1-4) by (simp add: matches_def start)
    then have "days_before_year y < days_before_year z" using that(1) assms(6) by (simp add: start)
    then have "y + 1 \<le> z" using days_before_mono [of z y] by (cases "z \<le> y") auto
    then have "days_before_year y + 366 \<le> days_before_year z"
      using days_before_mono [of "y + 1" z] assms(5) by (simp add: days_before_Suc year_length_def)
    then show False using that(2) assms(6) by (simp add: z start)
  qed
  obtain e where e: "search_run s max_iterations (dt_minutes after + 1) = Inl e"
  proof (cases "search_run s max_iterations (dt_minutes after + 1)")
    case (Inr u)
    then show ?thesis using search_run_first [where s = s and n = max_iterations and t = "dt_minutes after + 1"] no [of u] by (simp add: max_iterations_def)
  qed (use that in blast)
  moreover have "e = no_next_run" using search_run_error [OF e] assms(7) by (simp add: max_iterations_def)
  ultimately show ?thesis using assms(7) by (simp add: next_run_def plus_minute_def)
qed

text \<open>The fields are not checked: a minute of 99 is accepted, and then never found.\<close>

lemma out_of_range_accepted:
  assumes "field_ok h" "field_ok d" "field_ok mo" "field_ok w"
  shows "\<exists>s. from_cron (py_join '' '' [show_field [Single 99], show_field h, show_field d, show_field mo, show_field w]) tz = Inr s \<and> (\<forall>t. \<not> matches s t)"
proof -
  have "dt_minute t \<noteq> 99" for t
  proof -
    have "dt_minute t < 60" by (simp add: dt_minute_def)
    then show ?thesis by linarith
  qed
  then show ?thesis using from_cron_right [OF field_simple(4) assms refl, of 99 tz] by (auto simp: matches_def field_simple)
qed

text \<open>The name of the timezone has no influence.\<close>

lemma timezone_ignored: "next_run (s\<lparr>cs_timezone := z\<rparr>) after = next_run s after"
proof -
  have m: "matches (s\<lparr>cs_timezone := z\<rparr>) = matches s" by (simp add: matches_def fun_eq_iff)
  have "search_run (s\<lparr>cs_timezone := z\<rparr>) n t = search_run s n t" for n t
  proof (induction n arbitrary: t)
    case (Suc n)
    have "search_run (s\<lparr>cs_timezone := z\<rparr>) n = search_run s n" using Suc by blast
    then show ?case by (simp add: search_run.simps [of _ "Suc n"] m)
  qed (simp add: search_run.simps [of _ 0])
  then have "search_run (s\<lparr>cs_timezone := z\<rparr>) max_iterations = search_run s max_iterations" by blast
  then show ?thesis by (simp add: next_run_def)
qed

section \<open>Examples\<close>

definition nine_o_clock :: CronSchedule where
  "nine_o_clock = \<lparr>cs_expression = ''0 9 * * *'', cs_timezone = ''UTC'', cs_minute = {0}, cs_hour = {9}, cs_day_of_month = {1..31}, cs_month = {1..12},
     cs_day_of_week = {0..6}\<rparr>"

definition new_year :: datetime where
  "new_year = \<lparr>dt_minutes = minutes_of 2025 1 1 8 58, dt_micros = 30000000, dt_offset = Some 0\<rparr>"

theorem regular_schedule_runs_witness:
  "\<exists>d. next_run nine_o_clock new_year = Inr d \<and> dt_minutes new_year < dt_minutes d \<and> dt_minutes d \<le> dt_minutes new_year + 31 * 1440"
  by (rule regular_schedule_runs) (auto simp: clock_ok_def monthly_def nine_o_clock_def new_year_def minutes_of_def ymd2ord_def days_before_year_def
      month_lengths_def last_minute_def)

lemma january_first: "valid_date 2025 1 1"
  by (simp add: valid_date_def month_lengths_def)

theorem next_run_exact_witness:
  "\<exists>d. next_run nine_o_clock new_year = Inr d \<and> dt_minutes d = minutes_of 2025 1 1 9 0 \<and> dt_micros d = 0 \<and> dt_offset d = Some 0"
proof -
  let ?u = "minutes_of 2025 1 1 9 0"
  have yes: "matches nine_o_clock ?u"
    using dt_parts [OF _ _ _ _ january_first, of 9 0] every_weekday [of "{0..6}" ?u] by (simp add: matches_def nine_o_clock_def)
  have "minutes_of 2025 1 1 8 58 + 1 = minutes_of 2025 1 1 8 59" by (simp add: minutes_of_def)
  then have no: "\<not> matches nine_o_clock (minutes_of 2025 1 1 8 58 + 1)"
    using dt_parts [OF _ _ _ _ january_first, of 8 59] by (simp add: matches_def nine_o_clock_def)
  have near: "?u = dt_minutes new_year + 2" "dt_minutes new_year = minutes_of 2025 1 1 8 58" "?u \<le> last_minute" "dt_offset new_year = Some 0"
    by (simp_all add: new_year_def minutes_of_def ymd2ord_def days_before_year_def month_lengths_def last_minute_def)
  note N = next_run_exact [where s = nine_o_clock and after = new_year]
  obtain d where d: "next_run nine_o_clock new_year = Inr d" using N yes near(1,3) by (cases "next_run nine_o_clock new_year") auto
  have "dt_minutes d \<le> ?u"
  proof (rule ccontr)
    assume "\<not> dt_minutes d \<le> ?u"
    then show False using N yes near(1) unfolding d by auto
  qed
  moreover have "dt_minutes d \<noteq> dt_minutes new_year + 1" using N no near(2) unfolding d by force
  ultimately show ?thesis using N near(1,4) unfolding d by auto
qed

end
