(* ===== verification/Scheduler.thy ===== *)
theory Scheduler
  imports Cron_Runs
begin

text \<open>
  Scheduled workflows and the scheduler (\<^verbatim>\<open>ScheduledWorkflow\<close> and \<^verbatim>\<open>WorkflowScheduler\<close> of \<^verbatim>\<open>victor/workflows/scheduler.py\<close>).
  Scheduled workflows are objects that the scheduler, its tasks and the caller share, so they are in a heap. The tasks of the event loop are part of the
  state: those that were created and have not begun, those that wait for their workflow, and those that ended with an exception
  before they got there. The loop runs tasks in the order in which they were created, so a new check finds no task that has not begun.
  The digest, the text of a date and the execution of a workflow are parameters.
\<close>

section \<open>Scheduled workflows\<close>

record ScheduledWorkflow =
  sw_workflow_name :: string
  sw_schedule :: CronSchedule
  sw_workflow_path :: "string option"
  sw_initial_state :: state
  sw_enabled :: bool
  sw_catchup :: bool
  sw_start_date :: "datetime option"
  sw_end_date :: "datetime option"
  sw_max_active_runs :: int
  sw_tags :: "string list"
  sw_last_run :: "datetime option"
  sw_next_run :: "datetime option"
  sw_active_runs :: int
  sw_run_count :: int

definition post_init :: "datetime \<Rightarrow> ScheduledWorkflow \<Rightarrow> ScheduledWorkflow result" where
  "post_init now w =
     (if sw_next_run w = None \<and> sw_enabled w
      then bind_result (next_run (sw_schedule w) (case sw_start_date w of None \<Rightarrow> now | Some d \<Rightarrow> d)) (\<lambda>d. Inr (w\<lparr>sw_next_run := Some d\<rparr>))
      else Inr w)"

definition schedule_id :: "(string \<Rightarrow> string) \<Rightarrow> ScheduledWorkflow \<Rightarrow> string" where
  "schedule_id digest w = take 12 (digest (sw_workflow_name w @ '':'' @ cs_expression (sw_schedule w)))"

definition should_run :: "datetime \<Rightarrow> ScheduledWorkflow \<Rightarrow> bool result" where
  "should_run now w =
     (if \<not> sw_enabled w then Inr False
      else bind_result (case sw_end_date w of None \<Rightarrow> Inr False | Some e \<Rightarrow> dt_less e now) (\<lambda>past.
        if past then Inr False
        else if sw_active_runs w \<ge> sw_max_active_runs w then Inr False
        else case sw_next_run w of None \<Rightarrow> Inr False | Some d \<Rightarrow> dt_ge now d))"

definition mark_started :: "datetime \<Rightarrow> ScheduledWorkflow \<Rightarrow> unit result \<times> ScheduledWorkflow" where
  "mark_started now w =
     (let w = w\<lparr>sw_active_runs := sw_active_runs w + 1, sw_last_run := Some now\<rparr>
      in case next_run (sw_schedule w) now of
          Inl x \<Rightarrow> (Inl x, w)
        | Inr d \<Rightarrow> (Inr (), w\<lparr>sw_next_run := Some d\<rparr>))"

definition mark_completed :: "ScheduledWorkflow \<Rightarrow> ScheduledWorkflow" where
  "mark_completed w = w\<lparr>sw_active_runs := max 0 (sw_active_runs w - 1), sw_run_count := sw_run_count w + 1\<rparr>"

section \<open>The scheduler\<close>

record execution =
  ex_execution_id :: string
  ex_workflow_name :: string
  ex_schedule_id :: string
  ex_start_time :: datetime
  ex_end_time :: datetime
  ex_success :: bool
  ex_error :: "string option"

record run_task =
  rt_schedule :: nat
  rt_execution_id :: string
  rt_start_time :: datetime

record WorkflowScheduler =
  ws_heap :: "nat \<Rightarrow> ScheduledWorkflow"
  ws_schedules :: "(string, nat) dict"
  ws_running :: bool
  ws_history :: "execution list"
  ws_created :: "nat list"
  ws_waiting :: "run_task list"
  ws_failed :: "nat list"

definition set_workflow :: "nat \<Rightarrow> (ScheduledWorkflow \<Rightarrow> ScheduledWorkflow) \<Rightarrow> WorkflowScheduler \<Rightarrow> WorkflowScheduler" where
  "set_workflow a f s = s\<lparr>ws_heap := (ws_heap s)(a := f (ws_heap s a))\<rparr>"

definition ws_init :: "(nat \<Rightarrow> ScheduledWorkflow) \<Rightarrow> WorkflowScheduler" where
  "ws_init heap = \<lparr>ws_heap = heap, ws_schedules = [], ws_running = False, ws_history = [], ws_created = [], ws_waiting = [], ws_failed = []\<rparr>"

definition ws_register :: "(string \<Rightarrow> string) \<Rightarrow> nat \<Rightarrow> WorkflowScheduler \<Rightarrow> string \<times> WorkflowScheduler" where
  "ws_register digest a s =
     (let i = schedule_id digest (ws_heap s a) in (i, s\<lparr>ws_schedules := dict_set i a (ws_schedules s)\<rparr>))"

definition ws_unregister :: "string \<Rightarrow> WorkflowScheduler \<Rightarrow> bool \<times> WorkflowScheduler" where
  "ws_unregister i s =
     (if dict_has (ws_schedules s) i then (True, s\<lparr>ws_schedules := dict_pop i (ws_schedules s)\<rparr>) else (False, s))"

definition get_schedule :: "string \<Rightarrow> WorkflowScheduler \<Rightarrow> nat option" where
  "get_schedule i s = dict_get (ws_schedules s) i"

definition list_schedules :: "WorkflowScheduler \<Rightarrow> nat list" where
  "list_schedules s = map snd (ws_schedules s)"

definition ws_enable :: "string \<Rightarrow> WorkflowScheduler \<Rightarrow> bool \<times> WorkflowScheduler" where
  "ws_enable i s =
     (case dict_get (ws_schedules s) i of
        Some a \<Rightarrow> (True, set_workflow a (\<lambda>w. w\<lparr>sw_enabled := True\<rparr>) s)
      | None \<Rightarrow> (False, s))"

definition ws_disable :: "string \<Rightarrow> WorkflowScheduler \<Rightarrow> bool \<times> WorkflowScheduler" where
  "ws_disable i s =
     (case dict_get (ws_schedules s) i of
        Some a \<Rightarrow> (True, set_workflow a (\<lambda>w. w\<lparr>sw_enabled := False\<rparr>) s)
      | None \<Rightarrow> (False, s))"

definition ws_start :: "WorkflowScheduler \<Rightarrow> WorkflowScheduler" where
  "ws_start s = (if ws_running s then s else s\<lparr>ws_running := True\<rparr>)"

definition ws_stop :: "WorkflowScheduler \<Rightarrow> WorkflowScheduler" where
  "ws_stop s = s\<lparr>ws_running := False\<rparr>"

text \<open>The workflows that are due; the first comparison that raises ends the check.\<close>

fun due_of :: "datetime \<Rightarrow> (nat \<Rightarrow> ScheduledWorkflow) \<Rightarrow> nat list \<Rightarrow> nat list result" where
  "due_of now heap [] = Inr []"
| "due_of now heap (a # as) =
     bind_result (should_run now (heap a)) (\<lambda>b. bind_result (due_of now heap as) (\<lambda>ds. Inr (if b then a # ds else ds)))"

definition check_and_execute :: "datetime \<Rightarrow> WorkflowScheduler \<Rightarrow> unit result \<times> WorkflowScheduler" where
  "check_and_execute now s =
     (case due_of now (ws_heap s) (map snd (ws_schedules s)) of
        Inl x \<Rightarrow> (Inl x, s)
      | Inr ds \<Rightarrow> (Inr (), s\<lparr>ws_created := ws_created s @ ds\<rparr>))"

text \<open>One turn of the loop; whatever the check raises is logged.\<close>

definition run_loop_turn :: "datetime \<Rightarrow> WorkflowScheduler \<Rightarrow> WorkflowScheduler" where
  "run_loop_turn now s = (if ws_running s then snd (check_and_execute now s) else s)"

text \<open>\<^verbatim>\<open>_execute_workflow\<close> up to the execution: the task of \<open>a\<close> begins. An exception of \<^verbatim>\<open>mark_started\<close> ends the task.\<close>

definition begin_execution ::
  "(string \<Rightarrow> string) \<Rightarrow> (datetime \<Rightarrow> string) \<Rightarrow> datetime \<Rightarrow> datetime \<Rightarrow> nat \<Rightarrow> WorkflowScheduler \<Rightarrow> WorkflowScheduler" where
  "begin_execution digest stamp now start a s =
     (case mark_started now (ws_heap s a) of
        (Inl x, w) \<Rightarrow> s\<lparr>ws_heap := (ws_heap s)(a := w), ws_failed := a # ws_failed s\<rparr>
      | (Inr _, w) \<Rightarrow>
          s\<lparr>ws_heap := (ws_heap s)(a := w),
            ws_waiting := ws_waiting s @ [\<lparr>rt_schedule = a, rt_execution_id = schedule_id digest w @ ''_'' @ stamp now, rt_start_time = start\<rparr>]\<rparr>)"

datatype run_end = Succeeded | Raised string | Cancelled

definition keep_last :: "nat \<Rightarrow> 'a list \<Rightarrow> 'a list" where
  "keep_last n xs = drop (length xs - n) xs"

text \<open>The rest of it: the workflow ended, or the task was cancelled.\<close>

definition end_execution :: "(string \<Rightarrow> string) \<Rightarrow> datetime \<Rightarrow> run_end \<Rightarrow> run_task \<Rightarrow> WorkflowScheduler \<Rightarrow> WorkflowScheduler" where
  "end_execution digest now out t s =
     (let a = rt_schedule t; s = set_workflow a mark_completed s; w = ws_heap s a;
          entry = \<lparr>ex_execution_id = rt_execution_id t, ex_workflow_name = sw_workflow_name w, ex_schedule_id = schedule_id digest w,
            ex_start_time = rt_start_time t, ex_end_time = now, ex_success = (out = Succeeded),
            ex_error = (case out of Raised m \<Rightarrow> Some m | _ \<Rightarrow> None)\<rparr>;
          history = ws_history s @ [entry]
      in s\<lparr>ws_history := (if length history > 1000 then keep_last 1000 history else history)\<rparr>)"

text \<open>The execution itself when no executor is given: \<open>run_yaml\<close> compiles and runs the file.\<close>

definition default_execute ::
  "(string \<Rightarrow> string \<Rightarrow> state \<Rightarrow> unit result) \<Rightarrow> string \<Rightarrow> string \<Rightarrow> ScheduledWorkflow \<Rightarrow> unit result" where
  "default_execute run_yaml now_text execution_id w =
     (case sw_workflow_path w of
        Some (c # p) \<Rightarrow>
          run_yaml (c # p) (sw_workflow_name w)
            (dict_set ''_scheduled_at'' (VStr now_text) (dict_set ''_scheduled_execution_id'' (VStr execution_id) (sw_initial_state w)))
      | _ \<Rightarrow> Inl (value_error (''No workflow_path specified for scheduled workflow: '' @ sw_workflow_name w)))"

text \<open>\<^verbatim>\<open>history[-limit:]\<close>.\<close>

definition last_slice :: "int \<Rightarrow> 'a list \<Rightarrow> 'a list" where
  "last_slice limit xs = (if limit > 0 then keep_last (nat limit) xs else drop (nat (- limit)) xs)"

definition get_execution_history :: "string option \<Rightarrow> int \<Rightarrow> WorkflowScheduler \<Rightarrow> execution list" where
  "get_execution_history i limit s =
     (let history = ws_history s
      in last_slice limit (case i of Some (c # cs) \<Rightarrow> filter (\<lambda>h. ex_schedule_id h = c # cs) history | _ \<Rightarrow> history))"

text \<open>The global scheduler, and the convenience function on it; \<open>options\<close> sets what the keyword arguments give, \<open>a\<close> is the new object.\<close>

definition get_scheduler :: "(nat \<Rightarrow> ScheduledWorkflow) \<Rightarrow> WorkflowScheduler option \<Rightarrow> WorkflowScheduler" where
  "get_scheduler heap g = (case g of None \<Rightarrow> ws_init heap | Some s \<Rightarrow> s)"

definition default_workflow :: "string \<Rightarrow> CronSchedule \<Rightarrow> string option \<Rightarrow> state \<Rightarrow> ScheduledWorkflow" where
  "default_workflow name sched path initial =
     \<lparr>sw_workflow_name = name, sw_schedule = sched, sw_workflow_path = path, sw_initial_state = initial, sw_enabled = True, sw_catchup = False,
      sw_start_date = None, sw_end_date = None, sw_max_active_runs = 1, sw_tags = [], sw_last_run = None, sw_next_run = None,
      sw_active_runs = 0, sw_run_count = 0\<rparr>"

definition schedule_workflow ::
  "(string \<Rightarrow> string) \<Rightarrow> datetime \<Rightarrow> (ScheduledWorkflow \<Rightarrow> ScheduledWorkflow) \<Rightarrow> string \<Rightarrow> string \<Rightarrow> string option \<Rightarrow> state option \<Rightarrow> nat \<Rightarrow>
     WorkflowScheduler \<Rightarrow> string result \<times> WorkflowScheduler" where
  "schedule_workflow digest now options name cron path initial a s =
     (case bind_result (from_cron cron ''UTC'') (\<lambda>c. post_init now (options (default_workflow name c path (case initial of None \<Rightarrow> [] | Some st \<Rightarrow> st)))) of
        Inl x \<Rightarrow> (Inl x, s)
      | Inr w \<Rightarrow> (case ws_register digest a (set_workflow a (\<lambda>_. w) s) of (i, s) \<Rightarrow> (Inr i, s)))"

section \<open>The steps of the system\<close>

text \<open>
  What can happen: the caller makes a new workflow, registers, unregisters, enables or disables one, starts or stops the scheduler; the loop makes a turn
  when no created task is left; the first created task begins; a waiting task ends.
\<close>

definition unused :: "nat \<Rightarrow> WorkflowScheduler \<Rightarrow> bool" where
  "unused a s \<longleftrightarrow> a \<notin> snd ` set (ws_schedules s) \<and> a \<notin> set (ws_created s) \<and> a \<notin> rt_schedule ` set (ws_waiting s) \<and> a \<notin> set (ws_failed s)"

inductive sched_step :: "(string \<Rightarrow> string) \<Rightarrow> (datetime \<Rightarrow> string) \<Rightarrow> WorkflowScheduler \<Rightarrow> WorkflowScheduler \<Rightarrow> bool" for digest stamp where
  new: "unused a s \<Longrightarrow> post_init now w = Inr w' \<Longrightarrow> sw_active_runs w = 0 \<Longrightarrow> sched_step digest stamp s (set_workflow a (\<lambda>_. w') s)"
| register: "sched_step digest stamp s (snd (ws_register digest a s))"
| unregister: "sched_step digest stamp s (snd (ws_unregister i s))"
| enable: "sched_step digest stamp s (snd (ws_enable i s))"
| disable: "sched_step digest stamp s (snd (ws_disable i s))"
| start: "sched_step digest stamp s (ws_start s)"
| stop: "sched_step digest stamp s (ws_stop s)"
| turn: "ws_created s = [] \<Longrightarrow> sched_step digest stamp s (run_loop_turn now s)"
| begin_task: "ws_created s = a # as \<Longrightarrow> sched_step digest stamp s (begin_execution digest stamp now start a (s\<lparr>ws_created := as\<rparr>))"
| end_task: "ws_waiting s = ts @ t # us \<Longrightarrow> sched_step digest stamp s (end_execution digest now out t (s\<lparr>ws_waiting := ts @ us\<rparr>))"

inductive reachable :: "(string \<Rightarrow> string) \<Rightarrow> (datetime \<Rightarrow> string) \<Rightarrow> WorkflowScheduler \<Rightarrow> bool" for digest stamp where
  initial: "\<forall>a. sw_active_runs (heap a) = 0 \<Longrightarrow> reachable digest stamp (ws_init heap)"
| later: "reachable digest stamp s \<Longrightarrow> sched_step digest stamp s s' \<Longrightarrow> reachable digest stamp s'"

inductive_cases sched_stepE: "sched_step digest stamp s s'"

section \<open>What holds in every reachable state\<close>

definition tasks_of :: "nat \<Rightarrow> WorkflowScheduler \<Rightarrow> nat" where
  "tasks_of a s = count_list (map rt_schedule (ws_waiting s)) a + count_list (ws_failed s) a"

definition sched_ok :: "(string \<Rightarrow> string) \<Rightarrow> WorkflowScheduler \<Rightarrow> bool" where
  "sched_ok digest s \<longleftrightarrow> dict_ok (ws_schedules s) \<and> (\<forall>p \<in> set (ws_schedules s). fst p = schedule_id digest (ws_heap s (snd p))) \<and>
     (\<forall>a. sw_active_runs (ws_heap s a) = int (tasks_of a s) \<and>
       int (tasks_of a s + count_list (ws_created s) a) \<le> max 0 (sw_max_active_runs (ws_heap s a))) \<and>
     length (ws_history s) \<le> 1000"

lemma sched_okI:
  assumes "dict_ok (ws_schedules s)" "\<And>k a. (k, a) \<in> set (ws_schedules s) \<Longrightarrow> k = schedule_id digest (ws_heap s a)"
    "\<And>a. sw_active_runs (ws_heap s a) = int (tasks_of a s)"
    "\<And>a. int (tasks_of a s + count_list (ws_created s) a) \<le> max 0 (sw_max_active_runs (ws_heap s a))" "length (ws_history s) \<le> 1000"
  shows "sched_ok digest s"
  using assms unfolding sched_ok_def by (metis prod.collapse)

lemma sched_okD:
  assumes "sched_ok digest s"
  shows "dict_ok (ws_schedules s)" "(k, a) \<in> set (ws_schedules s) \<Longrightarrow> k = schedule_id digest (ws_heap s a)"
    "sw_active_runs (ws_heap s a) = int (tasks_of a s)"
    "int (tasks_of a s + count_list (ws_created s) a) \<le> max 0 (sw_max_active_runs (ws_heap s a))" "length (ws_history s) \<le> 1000"
  using assms unfolding sched_ok_def by (metis fst_conv snd_conv)+

text \<open>No workflow is scheduled under two ids.\<close>

lemma distinct_schedules:
  assumes "sched_ok digest s"
  shows "distinct (map snd (ws_schedules s))"
proof -
  have "map fst (ws_schedules s) = map (\<lambda>a. schedule_id digest (ws_heap s a)) (map snd (ws_schedules s))"
    using sched_okD(2) [OF assms] by (auto simp: comp_def)
  then have "distinct (map (\<lambda>a. schedule_id digest (ws_heap s a)) (map snd (ws_schedules s)))"
    using sched_okD(1) [OF assms] unfolding dict_ok_def by metis
  then show ?thesis using distinct_map [of "\<lambda>a. schedule_id digest (ws_heap s a)" "map snd (ws_schedules s)"] by blast
qed

text \<open>A change of the object that keeps what the invariant talks about.\<close>

definition same_counts :: "ScheduledWorkflow \<Rightarrow> ScheduledWorkflow \<Rightarrow> bool" where
  "same_counts w w' \<longleftrightarrow> sw_workflow_name w' = sw_workflow_name w \<and> sw_schedule w' = sw_schedule w \<and> sw_active_runs w' = sw_active_runs w \<and>
     sw_max_active_runs w' = sw_max_active_runs w"

lemma set_workflow_ok:
  assumes "sched_ok digest s" "same_counts (ws_heap s a) (f (ws_heap s a))"
  shows "sched_ok digest (set_workflow a f s)"
proof -
  have t: "tasks_of b (set_workflow a f s) = tasks_of b s" for b by (simp add: tasks_of_def set_workflow_def)
  have h: "ws_heap (set_workflow a f s) b = (if b = a then f (ws_heap s a) else ws_heap s b)" for b by (simp add: set_workflow_def)
  have r: "ws_schedules (set_workflow a f s) = ws_schedules s" "ws_created (set_workflow a f s) = ws_created s"
    "ws_history (set_workflow a f s) = ws_history s" by (simp_all add: set_workflow_def)
  show ?thesis
    by (rule sched_okI) (use sched_okD [OF assms(1)] assms(2) in \<open>auto simp: t h r same_counts_def schedule_id_def\<close>)
qed

lemma enable_ok: "sched_ok digest s \<Longrightarrow> sched_ok digest (snd (ws_enable i s)) \<and> sched_ok digest (snd (ws_disable i s))"
  by (auto simp: ws_enable_def ws_disable_def same_counts_def intro!: set_workflow_ok split: option.splits)

lemma register_ok:
  assumes "sched_ok digest s"
  shows "sched_ok digest (snd (ws_register digest a s))"
proof -
  let ?s = "snd (ws_register digest a s)"
  have t: "tasks_of b ?s = tasks_of b s" for b by (simp add: tasks_of_def ws_register_def Let_def)
  have r: "ws_heap ?s = ws_heap s" "ws_created ?s = ws_created s" "ws_history ?s = ws_history s"
    "ws_schedules ?s = dict_set (schedule_id digest (ws_heap s a)) a (ws_schedules s)" by (simp_all add: ws_register_def Let_def)
  have ok: "dict_ok (dict_set (schedule_id digest (ws_heap s a)) a (ws_schedules s))" using sched_okD(1) [OF assms] by (simp add: dict_simps)
  have ids: "k = schedule_id digest (ws_heap s b)" if "(k, b) \<in> set (dict_set (schedule_id digest (ws_heap s a)) a (ws_schedules s))" for k b
  proof -
    have "dict_get (dict_set (schedule_id digest (ws_heap s a)) a (ws_schedules s)) k = Some b" using that ok by (simp add: dict_get_items)
    then have "k = schedule_id digest (ws_heap s a) \<and> b = a \<or> dict_get (ws_schedules s) k = Some b" by (auto simp: dict_simps split: if_splits)
    then show ?thesis using sched_okD(1,2) [OF assms] by (auto simp: dict_get_items)
  qed
  show ?thesis by (rule sched_okI) (use sched_okD(3-5) [OF assms] ids ok in \<open>auto simp: t r\<close>)
qed

lemma unregister_ok:
  assumes "sched_ok digest s"
  shows "sched_ok digest (snd (ws_unregister i s))"
proof -
  let ?s = "snd (ws_unregister i s)"
  have t: "tasks_of b ?s = tasks_of b s" for b by (simp add: tasks_of_def ws_unregister_def)
  have r: "ws_heap ?s = ws_heap s" "ws_created ?s = ws_created s" "ws_history ?s = ws_history s"
    "ws_schedules ?s = (if dict_has (ws_schedules s) i then dict_pop i (ws_schedules s) else ws_schedules s)" by (simp_all add: ws_unregister_def)
  have sub: "set (dict_pop i (ws_schedules s)) \<subseteq> set (ws_schedules s)" by (auto simp: AList.delete_eq)
  have ok: "dict_ok (ws_schedules ?s)" using sched_okD(1) [OF assms] by (simp add: r dict_simps)
  show ?thesis by (rule sched_okI) (use sched_okD [OF assms] ok sub in \<open>auto simp: t r split: if_splits\<close>)
qed

lemma distinct_count: "distinct xs \<Longrightarrow> count_list xs a = (if a \<in> set xs then 1 else 0)"
  by (induction xs) auto

lemma due_of_filter: "due_of now heap as = Inr ds \<Longrightarrow> ds = filter (\<lambda>a. should_run now (heap a) = Inr True) as"
  by (induction as arbitrary: ds) (auto simp: bind_result_eq_Inr)

lemma should_run_free: "should_run now w = Inr True \<Longrightarrow> sw_active_runs w < sw_max_active_runs w"
  by (auto simp: should_run_def bind_result_eq_Inr split: if_splits option.splits)

lemma turn_ok:
  assumes "sched_ok digest s" "ws_created s = []"
  shows "sched_ok digest (run_loop_turn now s)"
proof (cases "ws_running s \<and> (\<exists>ds. due_of now (ws_heap s) (map snd (ws_schedules s)) = Inr ds)")
  case False
  then have "run_loop_turn now s = s" by (auto simp: run_loop_turn_def check_and_execute_def split: sum.splits)
  then show ?thesis using assms(1) by simp
next
  case True
  then obtain ds where ds: "due_of now (ws_heap s) (map snd (ws_schedules s)) = Inr ds" by blast
  let ?s = "s\<lparr>ws_created := ds\<rparr>"
  have s: "run_loop_turn now s = ?s" using True ds assms(2) by (simp add: run_loop_turn_def check_and_execute_def)
  have "distinct ds" using due_of_filter [OF ds] distinct_schedules [OF assms(1)] by simp
  then have cnt: "count_list ds a = (if a \<in> set ds then 1 else 0)" for a by (rule distinct_count)
  have free: "sw_active_runs (ws_heap s a) < sw_max_active_runs (ws_heap s a)" if "a \<in> set ds" for a
    using that due_of_filter [OF ds] should_run_free by auto
  have t: "tasks_of a ?s = tasks_of a s" for a by (simp add: tasks_of_def)
  have "int (tasks_of a ?s + count_list ds a) \<le> max 0 (sw_max_active_runs (ws_heap s a))" for a
    using cnt [of a] free [of a] sched_okD(3,4) [OF assms(1), of a] unfolding t by (cases "a \<in> set ds") auto
  then show ?thesis unfolding s by (intro sched_okI) (use sched_okD [OF assms(1)] in \<open>auto simp: t\<close>)
qed

lemma mark_started_fields:
  "mark_started now w = (q, w') \<Longrightarrow> sw_active_runs w' = sw_active_runs w + 1 \<and> sw_workflow_name w' = sw_workflow_name w \<and>
     sw_schedule w' = sw_schedule w \<and> sw_max_active_runs w' = sw_max_active_runs w"
  by (auto simp: mark_started_def Let_def split: sum.splits)

lemma begin_ok:
  assumes "sched_ok digest s" "ws_created s = a # as"
  shows "sched_ok digest (begin_execution digest stamp now start a (s\<lparr>ws_created := as\<rparr>))"
proof -
  obtain q w where m: "mark_started now (ws_heap s a) = (q, w)" by (rule prod.exhaust)
  note M = mark_started_fields [OF m]
  let ?s = "begin_execution digest stamp now start a (s\<lparr>ws_created := as\<rparr>)"
  have r: "ws_heap ?s b = (if b = a then w else ws_heap s b)" "ws_created ?s = as" "ws_history ?s = ws_history s" "ws_schedules ?s = ws_schedules s" for b
    using m by (auto simp: begin_execution_def split: sum.splits)
  have t: "tasks_of b ?s = tasks_of b s + (if b = a then 1 else 0)" for b
    using m by (auto simp: begin_execution_def tasks_of_def split: sum.splits)
  have c: "count_list (ws_created s) b = count_list as b + (if b = a then 1 else 0)" for b by (simp add: assms(2))
  have active: "sw_active_runs (ws_heap ?s b) = int (tasks_of b ?s)" for b using sched_okD(3) [OF assms(1), of b] M by (auto simp: r t)
  have bound: "int (tasks_of b ?s + count_list (ws_created ?s) b) \<le> max 0 (sw_max_active_runs (ws_heap ?s b))" for b
    using sched_okD(4) [OF assms(1), of b] M c [of b] by (cases "b = a") (simp_all add: r t)
  have ids: "k = schedule_id digest (ws_heap ?s b)" if "(k, b) \<in> set (ws_schedules ?s)" for k b
    using sched_okD(2) [OF assms(1)] that M by (auto simp: r schedule_id_def)
  show ?thesis by (rule sched_okI [OF _ ids active bound]) (use sched_okD(1,5) [OF assms(1)] in \<open>simp_all add: r\<close>)
qed

lemma keep_last_length: "length (keep_last n xs) \<le> n"
  by (simp add: keep_last_def)

lemma end_ok:
  assumes "sched_ok digest s" "ws_waiting s = ts @ t # us"
  shows "sched_ok digest (end_execution digest now out t (s\<lparr>ws_waiting := ts @ us\<rparr>))"
proof -
  let ?s = "end_execution digest now out t (s\<lparr>ws_waiting := ts @ us\<rparr>)" and ?a = "rt_schedule t"
  have r: "ws_heap ?s b = (if b = ?a then mark_completed (ws_heap s ?a) else ws_heap s b)" "ws_created ?s = ws_created s" "ws_schedules ?s = ws_schedules s"
    "ws_waiting ?s = ts @ us" "ws_failed ?s = ws_failed s" "length (ws_history ?s) \<le> 1000" for b
    using keep_last_length by (auto simp: end_execution_def set_workflow_def Let_def)
  have k: "tasks_of b s = tasks_of b ?s + (if b = ?a then 1 else 0)" for b by (simp add: tasks_of_def r assms(2))
  have active: "sw_active_runs (ws_heap ?s b) = int (tasks_of b ?s)" for b
    using sched_okD(3) [OF assms(1), of b] k [of b] by (auto simp: r mark_completed_def split: if_splits)
  have bound: "int (tasks_of b ?s + count_list (ws_created ?s) b) \<le> max 0 (sw_max_active_runs (ws_heap ?s b))" for b
    using sched_okD(4) [OF assms(1), of b] k [of b] by (auto simp: r mark_completed_def split: if_splits)
  have ids: "k = schedule_id digest (ws_heap ?s b)" if "(k, b) \<in> set (ws_schedules ?s)" for k b
    using sched_okD(2) [OF assms(1)] that by (auto simp: r schedule_id_def mark_completed_def)
  show ?thesis by (rule sched_okI [OF _ ids active bound]) (use sched_okD(1) [OF assms(1)] r(6) in \<open>simp_all add: r(3)\<close>)
qed

lemma new_ok:
  assumes "sched_ok digest s" "unused a s" "post_init now w = Inr w'" "sw_active_runs w = 0"
  shows "sched_ok digest (set_workflow a (\<lambda>_. w') s)"
proof -
  let ?s = "set_workflow a (\<lambda>_. w') s"
  have r: "ws_heap ?s b = (if b = a then w' else ws_heap s b)" "ws_created ?s = ws_created s" "ws_schedules ?s = ws_schedules s"
    "ws_history ?s = ws_history s" "tasks_of b ?s = tasks_of b s" for b by (simp_all add: set_workflow_def tasks_of_def)
  have w: "sw_active_runs w' = 0" using assms(3,4) by (auto simp: post_init_def bind_result_eq_Inr split: if_splits)
  have unreg: "(k, a) \<notin> set (ws_schedules s)" for k using assms(2) by (force simp: unused_def)
  have none: "tasks_of a s = 0" "count_list (ws_created s) a = 0"
    using assms(2) by (auto simp: unused_def tasks_of_def count_list_0_iff image_iff)
  show ?thesis
    by (rule sched_okI) (use sched_okD [OF assms(1)] unreg w none in \<open>auto simp: r split: if_splits\<close>)
qed

lemma step_ok: "sched_step digest stamp s s' \<Longrightarrow> sched_ok digest s \<Longrightarrow> sched_ok digest s'"
proof (induction rule: sched_step.induct)
  case (start s)
  then show ?case by (auto simp: sched_ok_def tasks_of_def ws_start_def)
next
  case (stop s)
  then show ?case by (auto simp: sched_ok_def tasks_of_def ws_stop_def)
qed (auto intro: new_ok register_ok unregister_ok turn_ok begin_ok end_ok dest: enable_ok)

lemma reachable_ok: "reachable digest stamp s \<Longrightarrow> sched_ok digest s"
proof (induction rule: reachable.induct)
  case (initial heap)
  then show ?case by (simp add: sched_ok_def ws_init_def tasks_of_def dict_ok_def)
qed (rule step_ok)

text \<open>C29. However registrations, checks of the clock, beginnings and ends of executions interleave, the counter of a workflow is the number of its executions
  that wait for their end or failed to begin, and together with those that are about to begin it never exceeds the
  permitted number; no workflow is scheduled twice, and the history keeps at most a thousand entries.\<close>

theorem scheduler_invariant:
  assumes "reachable digest stamp s"
  shows "sw_active_runs (ws_heap s a) = int (count_list (map rt_schedule (ws_waiting s)) a + count_list (ws_failed s) a) \<and>
    sw_active_runs (ws_heap s a) + int (count_list (ws_created s) a) \<le> max 0 (sw_max_active_runs (ws_heap s a)) \<and>
    distinct (list_schedules s) \<and> length (ws_history s) \<le> 1000"
  using sched_okD(3,4) [OF reachable_ok [OF assms], of a] sched_okD(5) [OF reachable_ok [OF assms]] distinct_schedules [OF reachable_ok [OF assms]]
  by (simp add: tasks_of_def list_schedules_def)

text \<open>Scheduling a new workflow is making it and registering it.\<close>

lemma schedule_workflow_steps:
  assumes "unused a s" "\<And>w. sw_active_runs (options w) = sw_active_runs w" "schedule_workflow digest now options name cron path initial a s = (Inr i, s')"
  shows "\<exists>s1. sched_step digest stamp s s1 \<and> sched_step digest stamp s1 s'"
proof -
  obtain c w where w: "post_init now (options (default_workflow name c path (case initial of None \<Rightarrow> [] | Some st \<Rightarrow> st))) = Inr w"
    "s' = snd (ws_register digest a (set_workflow a (\<lambda>_. w) s))"
    using assms(3) by (auto simp: schedule_workflow_def bind_result_eq_Inr split: sum.splits prod.splits)
  have "sched_step digest stamp s (set_workflow a (\<lambda>_. w) s)"
    by (rule sched_step.new [OF assms(1) w(1)]) (simp add: assms(2) default_workflow_def)
  then show ?thesis using sched_step.register [of digest stamp _ a] w(2) by blast
qed

section \<open>Workflows that never run again\<close>

text \<open>An execution that failed to begin is counted for ever.\<close>

lemma failed_kept:
  assumes "sched_step digest stamp s s'"
  shows "count_list (ws_failed s) a \<le> count_list (ws_failed s') a \<and>
    (a \<in> set (ws_failed s) \<longrightarrow> sw_max_active_runs (ws_heap s' a) = sw_max_active_runs (ws_heap s a))"
  using assms
proof (induction rule: sched_step.induct)
  case (begin_task s b as now start)
  obtain q w where m: "mark_started now (ws_heap s b) = (q, w)" by (rule prod.exhaust)
  then show ?case using mark_started_fields [OF m] by (cases q) (auto simp: begin_execution_def)
next
  case (turn s now)
  then show ?case by (auto simp: run_loop_turn_def check_and_execute_def split: sum.splits)
next
  case (end_task s ts t us now out)
  then show ?case by (simp add: end_execution_def set_workflow_def mark_completed_def Let_def)
qed (auto simp: set_workflow_def unused_def ws_register_def ws_unregister_def ws_enable_def ws_disable_def ws_start_def ws_stop_def Let_def
    split: option.splits)

definition blocked :: "nat \<Rightarrow> WorkflowScheduler \<Rightarrow> bool" where
  "blocked a s \<longleftrightarrow> a \<in> set (ws_failed s) \<and> sw_max_active_runs (ws_heap s a) \<le> int (count_list (ws_failed s) a)"

lemma blocked_step: "sched_step digest stamp s s' \<Longrightarrow> blocked a s \<Longrightarrow> blocked a s'"
  using failed_kept [of digest stamp s s' a] unfolding blocked_def
  by (metis count_list_0_iff le_zero_eq of_nat_mono order_trans)

lemma blocked_not_due: "reachable digest stamp s \<Longrightarrow> blocked a s \<Longrightarrow> should_run now (ws_heap s a) \<noteq> Inr True"
  using should_run_free [of now "ws_heap s a"] sched_okD(3) [OF reachable_ok, of digest stamp s a] by (auto simp: blocked_def tasks_of_def)

text \<open>A workflow whose executions failed to begin as often as it may run at a time is never due again, whatever happens afterwards:
  the counter goes up before the next run is computed, and nothing takes it down when that raises.\<close>

lemma blocked_forever:
  assumes "reachable digest stamp s" "blocked a s" "(sched_step digest stamp)\<^sup>*\<^sup>* s s'"
  shows "should_run now (ws_heap s' a) \<noteq> Inr True"
proof -
  have "reachable digest stamp s' \<and> blocked a s'"
    using assms(3,1,2) by (induction rule: rtranclp_induct) (auto intro: reachable.later blocked_step)
  then show ?thesis using blocked_not_due by blast
qed

text \<open>So a yearly workflow that begins in the first minute of a leap year has run for the last time, without running at all.\<close>

lemma yearly_workflow_stops:
  assumes "cs_minute c = {0}" "cs_hour c = {0}" "cs_day_of_month c = {1}" "cs_month c = {1}" "is_leap y" "dt_minutes now = minutes_of y 1 1 0 0"
    "dt_minutes now + 525601 \<le> last_minute" "sw_schedule (ws_heap s a) = c" "sw_max_active_runs (ws_heap s a) = 1"
  shows "blocked a (begin_execution digest stamp now start a s) \<and> ws_waiting (begin_execution digest stamp now start a s) = ws_waiting s"
proof -
  have n: "next_run c now = Inl no_next_run" by (rule yearly_fails_in_leap_year [OF assms(1-7)])
  show ?thesis by (simp add: blocked_def begin_execution_def mark_started_def assms(8,9) n)
qed

text \<open>A workflow that is made disabled has no next run; enabling it does not give it one.\<close>

lemma enabled_too_late:
  assumes "sw_enabled w = False" "sw_next_run w = None" "post_init now w = Inr w'" "ws_heap s a = w'"
  shows "should_run t (ws_heap (snd (ws_enable i s)) a) \<noteq> Inr True"
  using assms by (auto simp: post_init_def ws_enable_def set_workflow_def should_run_def bind_result_eq_Inr split: option.splits if_splits)

text \<open>One workflow whose next run is a naive time keeps all the others from running.\<close>

lemma due_of_raises: "a \<in> set as \<Longrightarrow> should_run now (heap a) = Inl x \<Longrightarrow> \<exists>y. due_of now heap as = Inl y"
proof (induction as)
  case (Cons b as)
  then show ?case by (cases "should_run now (heap b)") auto
qed simp

lemma naive_date_stops_all:
  assumes "a \<in> set (list_schedules s)" "sw_enabled (ws_heap s a)" "sw_end_date (ws_heap s a) = None"
    "sw_active_runs (ws_heap s a) < sw_max_active_runs (ws_heap s a)" "sw_next_run (ws_heap s a) = Some d" "naive d" "\<not> naive now"
  shows "run_loop_turn now s = s"
proof -
  have "should_run now (ws_heap s a) = Inl mixed" using assms(2-7) by (simp add: should_run_def dt_ge_def)
  then obtain y where "due_of now (ws_heap s) (map snd (ws_schedules s)) = Inl y"
    using due_of_raises assms(1) unfolding list_schedules_def by blast
  then show ?thesis by (simp add: run_loop_turn_def check_and_execute_def)
qed

text \<open>The date of a first run is taken from the start date, so a naive start date gives such a time.\<close>

lemma naive_start: "sw_start_date w = Some d \<Longrightarrow> naive d \<Longrightarrow> sw_next_run w = None \<Longrightarrow> sw_enabled w \<Longrightarrow> post_init now w = Inr w' \<Longrightarrow>
    \<exists>n. sw_next_run w' = Some n \<and> naive n"
  by (auto simp: post_init_def naive_def next_run_def bind_result_eq_Inr)

text \<open>Catching up has no influence, and the last zero entries of the history are all of them.\<close>

lemma catchup_ignored: "should_run now (w\<lparr>sw_catchup := b\<rparr>) = should_run now w"
  by (simp add: should_run_def cong: if_cong option.case_cong)

lemma history_limit_zero: "get_execution_history None 0 s = ws_history s"
  by (simp add: get_execution_history_def last_slice_def)

section \<open>Examples\<close>

definition morning :: "int \<Rightarrow> datetime" where
  "morning m = \<lparr>dt_minutes = minutes_of 2025 1 1 9 m, dt_micros = 0, dt_offset = Some 0\<rparr>"

definition demo_workflow :: ScheduledWorkflow where
  "demo_workflow = (default_workflow ''report'' nine_o_clock None [])\<lparr>sw_next_run := Some (morning 0)\<rparr>"

definition demo_state :: WorkflowScheduler where
  "demo_state = run_loop_turn (morning 1) (ws_start (snd (ws_register (\<lambda>x. x) 0 (ws_init (\<lambda>_. demo_workflow)))))"

lemma demo_created: "ws_created demo_state = [0]"
  by (simp add: demo_state_def run_loop_turn_def ws_start_def ws_register_def ws_init_def check_and_execute_def should_run_def demo_workflow_def default_workflow_def
      dt_ge_def naive_def instant_def morning_def minutes_of_def Let_def)

lemma demo_reachable: "reachable (\<lambda>x. x) (\<lambda>_. ''now'') demo_state"
proof -
  have "reachable (\<lambda>x. x) (\<lambda>_. ''now'') (ws_init (\<lambda>_. demo_workflow))"
    by (rule reachable.initial) (simp add: demo_workflow_def default_workflow_def)
  then have "reachable (\<lambda>x. x) (\<lambda>_. ''now'') (ws_start (snd (ws_register (\<lambda>x. x) 0 (ws_init (\<lambda>_. demo_workflow)))))"
    by (intro reachable.later [OF reachable.later, OF _ sched_step.register sched_step.start])
  then show ?thesis unfolding demo_state_def
    by (rule reachable.later) (rule sched_step.turn, simp add: ws_start_def ws_register_def ws_init_def Let_def)
qed

theorem scheduler_invariant_witness:
  "sw_active_runs (ws_heap demo_state 0) = 0 \<and> sw_active_runs (ws_heap demo_state 0) + 1 \<le> max 0 (sw_max_active_runs (ws_heap demo_state 0))"
  using scheduler_invariant [OF demo_reachable, of 0]
  by (simp add: demo_created)
     (simp add: demo_state_def run_loop_turn_def ws_start_def ws_register_def ws_init_def check_and_execute_def demo_workflow_def default_workflow_def Let_def
       split: sum.splits)


definition new_years_eve :: datetime where
  "new_years_eve = \<lparr>dt_minutes = minutes_of 2024 1 1 0 0, dt_micros = 0, dt_offset = Some 0\<rparr>"

definition yearly_workflow :: ScheduledWorkflow where
  "yearly_workflow = (default_workflow ''review'' \<lparr>cs_expression = ''@yearly'', cs_timezone = ''UTC'', cs_minute = {0}, cs_hour = {0},
     cs_day_of_month = {1}, cs_month = {1}, cs_day_of_week = {0..6}\<rparr> None [])\<lparr>sw_next_run := Some new_years_eve\<rparr>"

definition due_state :: WorkflowScheduler where
  "due_state = run_loop_turn new_years_eve (ws_start (snd (ws_register (\<lambda>x. x) 0 (ws_init (\<lambda>_. yearly_workflow)))))"

lemma due_state_eq: "due_state = (ws_init (\<lambda>_. yearly_workflow))\<lparr>ws_schedules := [(''review:@year'', 0)], ws_running := True, ws_created := [0]\<rparr>"
  by (simp add: due_state_def run_loop_turn_def ws_start_def ws_register_def ws_init_def check_and_execute_def should_run_def schedule_id_def
      yearly_workflow_def default_workflow_def dt_ge_def naive_def Let_def)

definition stuck_state :: WorkflowScheduler where
  "stuck_state = begin_execution (\<lambda>x. x) (\<lambda>_. ''now'') new_years_eve new_years_eve 0 (due_state\<lparr>ws_created := []\<rparr>)"

lemma stuck_reachable: "reachable (\<lambda>x. x) (\<lambda>_. ''now'') stuck_state"
proof -
  have "reachable (\<lambda>x. x) (\<lambda>_. ''now'') (ws_init (\<lambda>_. yearly_workflow))"
    by (rule reachable.initial) (simp add: yearly_workflow_def default_workflow_def)
  then have "reachable (\<lambda>x. x) (\<lambda>_. ''now'') (ws_start (snd (ws_register (\<lambda>x. x) 0 (ws_init (\<lambda>_. yearly_workflow)))))"
    by (intro reachable.later [OF reachable.later, OF _ sched_step.register sched_step.start])
  then have "reachable (\<lambda>x. x) (\<lambda>_. ''now'') due_state" unfolding due_state_def
    by (rule reachable.later) (rule sched_step.turn, simp add: ws_start_def ws_register_def ws_init_def Let_def)
  then show ?thesis unfolding stuck_state_def by (rule reachable.later) (rule sched_step.begin_task, simp add: due_state_eq)
qed

lemma stuck_blocked: "blocked 0 stuck_state"
proof -
  have "is_leap 2024" "minutes_of 2024 1 1 0 0 + 525601 \<le> last_minute"
    by (simp_all add: is_leap_def minutes_of_def ymd2ord_def days_before_year_def month_lengths_def last_minute_def)
  then show ?thesis
    unfolding stuck_state_def
    by (intro yearly_workflow_stops [where c = "sw_schedule yearly_workflow" and y = 2024, THEN conjunct1])
      (simp_all add: due_state_eq ws_init_def yearly_workflow_def default_workflow_def new_years_eve_def)
qed

lemma blocked_forever_example:
  "should_run (morning 0) (ws_heap (ws_stop stuck_state) 0) \<noteq> Inr True"
  by (rule blocked_forever [OF stuck_reachable stuck_blocked]) (rule r_into_rtranclp, rule sched_step.stop)

end
