(* ===== verification/Change_Replay.thy ===== *)
theory Change_Replay
  imports Prelude
begin

text \<open>
  Replaying recorded changes of files (\<^verbatim>\<open>_replay_group\<close> and what it calls in \<^verbatim>\<open>victor/core/change_tracker.py\<close>). A disk maps paths to what
  is there: a text, a file that is not text, or a directory, whose files are not followed. Different paths are different files. A system
  call that changes the disk may fail: \<open>fails\<close> tells which, by their number. Reading a text translates its line ends. The checksum is
  a parameter.
\<close>

section \<open>The disk\<close>

datatype node = Text string | Binary nat | Directory

record disk =
  dk_files :: "string \<Rightarrow> node option"
  dk_calls :: nat

type_synonym failures = "nat \<Rightarrow> bool"

definition os_error :: "string \<Rightarrow> py_exc" where
  "os_error p = PyExc ''OSError'' p"

text \<open>Universal newlines, as \<^verbatim>\<open>read_text\<close> has them.\<close>

fun newlines :: "string \<Rightarrow> string" where
  "newlines [] = []"
| "newlines [c] = (if c = CHR 0x0D then [CHR 0x0A] else [c])"
| "newlines (c # d # s) =
     (if c = CHR 0x0D then CHR 0x0A # (if d = CHR 0x0A then newlines s else newlines (d # s)) else c # newlines (d # s))"

text \<open>One system call that changes the disk, if it does not fail.\<close>

definition sys_call :: "failures \<Rightarrow> string \<Rightarrow> bool \<Rightarrow> ((string \<Rightarrow> node option) \<Rightarrow> string \<Rightarrow> node option) \<Rightarrow> disk \<Rightarrow> unit result \<times> disk" where
  "sys_call fails p possible f d =
     (let n = dk_calls d; d = d\<lparr>dk_calls := Suc n\<rparr>
      in if fails n \<or> \<not> possible then (Inl (os_error p), d) else (Inr (), d\<lparr>dk_files := f (dk_files d)\<rparr>))"

text \<open>\<^verbatim>\<open>_atomic_write\<close>: the text is written to a temporary file that replaces the target; a failure removes the temporary file.\<close>

definition atomic_write :: "failures \<Rightarrow> string \<Rightarrow> string \<Rightarrow> disk \<Rightarrow> unit result \<times> disk" where
  "atomic_write fails p s d = sys_call fails p (dk_files d p \<noteq> Some Directory) (\<lambda>fs. fs(p \<mapsto> Text s)) d"

definition unlink :: "failures \<Rightarrow> string \<Rightarrow> disk \<Rightarrow> unit result \<times> disk" where
  "unlink fails p d = sys_call fails p (dk_files d p \<notin> {None, Some Directory}) (\<lambda>fs. fs(p := None)) d"

definition base_name :: "string \<Rightarrow> string" where
  "base_name p = rev (takeWhile (\<lambda>c. c \<noteq> CHR ''/'') (rev p))"

text \<open>\<^verbatim>\<open>shutil.move\<close>: into a directory if the target is one, otherwise over what is there.\<close>

definition move :: "failures \<Rightarrow> string \<Rightarrow> string \<Rightarrow> disk \<Rightarrow> unit result \<times> disk" where
  "move fails src dst d =
     (if src = dst then sys_call fails src (dk_files d src \<noteq> None) (\<lambda>fs. fs) d
      else if dk_files d dst = Some Directory
      then (let real = dst @ ''/'' @ base_name src
            in sys_call fails src (dk_files d real = None) (\<lambda>fs. fs(src := None, real := fs src)) d)
      else sys_call fails src (dk_files d src \<noteq> None) (\<lambda>fs. fs(src := None, dst := fs src)) d)"

section \<open>Changes\<close>

datatype ChangeType = CREATE | MODIFY | DELETE | RENAME

record FileChange =
  fc_id :: string
  fc_change_type :: ChangeType
  fc_file_path :: string
  fc_timestamp :: real
  fc_tool_name :: string
  fc_tool_args :: state
  fc_original_content :: "string option"
  fc_new_content :: "string option"
  fc_original_path :: "string option"
  fc_checksum_before :: "string option"
  fc_checksum_after :: "string option"
  fc_session_id :: "string option"
  fc_message_id :: "string option"

datatype phase = Undo | Redo

text \<open>\<^verbatim>\<open>if change.original_path\<close>.\<close>

definition rename_source :: "FileChange \<Rightarrow> string option" where
  "rename_source c = (case fc_original_path c of Some (x # p) \<Rightarrow> Some (x # p) | _ \<Rightarrow> None)"

definition paths_touched :: "FileChange \<Rightarrow> string list" where
  "paths_touched c = fc_file_path c # (case rename_source c of None \<Rightarrow> [] | Some p \<Rightarrow> [p])"

type_synonym snapshot = "(string, bool \<times> string option) dict"

definition snapshot_of :: "disk \<Rightarrow> string \<Rightarrow> bool \<times> string option" where
  "snapshot_of d p =
     (case dk_files d p of
        Some (Text s) \<Rightarrow> (True, Some (newlines s))
      | Some (Binary _) \<Rightarrow> (True, None)
      | _ \<Rightarrow> (False, None))"

definition snapshot_paths :: "string list \<Rightarrow> disk \<Rightarrow> snapshot" where
  "snapshot_paths ps d = fold (\<lambda>p snap. dict_set p (snapshot_of d p) snap) ps []"

text \<open>A file that cannot be removed is logged; a write that fails raises.\<close>

definition restore_path :: "failures \<Rightarrow> string \<times> bool \<times> string option \<Rightarrow> disk \<Rightarrow> unit result \<times> disk" where
  "restore_path fails x d =
     (case x of (p, existed, content) \<Rightarrow>
        if existed then (case content of Some s \<Rightarrow> atomic_write fails p s d | None \<Rightarrow> (Inr (), d))
        else if dk_files d p \<noteq> None then (Inr (), snd (unlink fails p d))
        else (Inr (), d))"

definition restore_snapshot :: "failures \<Rightarrow> snapshot \<Rightarrow> disk \<Rightarrow> unit result \<times> disk" where
  "restore_snapshot fails snap d = run_each (restore_path fails) snap d"

section \<open>The conflict guard\<close>

definition current_checksum :: "(string \<Rightarrow> string) \<Rightarrow> string \<Rightarrow> disk \<Rightarrow> string option" where
  "current_checksum digest p d = (case dk_files d p of Some (Text s) \<Rightarrow> Some (digest (newlines s)) | _ \<Rightarrow> None)"

definition matches_recorded :: "(string \<Rightarrow> string) \<Rightarrow> string option \<Rightarrow> string option \<Rightarrow> string option \<Rightarrow> bool" where
  "matches_recorded digest cur content checksum \<longleftrightarrow>
     (let expected = (case content of Some s \<Rightarrow> Some (digest s) | None \<Rightarrow> checksum)
      in cur \<noteq> None \<and> expected \<noteq> None \<and> length (the expected) = 64 \<and> cur = expected)"

definition has_conflict :: "(string \<Rightarrow> string) \<Rightarrow> phase \<Rightarrow> FileChange \<Rightarrow> disk \<Rightarrow> bool" where
  "has_conflict digest ph c d =
     (let cur = current_checksum digest (fc_file_path c) d
      in case ph of
          Undo \<Rightarrow>
            (case fc_change_type c of
               CREATE \<Rightarrow> \<not> matches_recorded digest cur (fc_new_content c) (fc_checksum_after c)
             | MODIFY \<Rightarrow> \<not> matches_recorded digest cur (fc_new_content c) (fc_checksum_after c)
             | DELETE \<Rightarrow> cur \<noteq> None
             | RENAME \<Rightarrow> dk_files d (fc_file_path c) = None)
        | Redo \<Rightarrow>
            (case fc_change_type c of
               CREATE \<Rightarrow> cur \<noteq> None
             | MODIFY \<Rightarrow> \<not> matches_recorded digest cur (fc_original_content c) (fc_checksum_before c)
             | DELETE \<Rightarrow> \<not> matches_recorded digest cur (fc_original_content c) (fc_checksum_before c)
             | RENAME \<Rightarrow> (case rename_source c of Some p \<Rightarrow> dk_files d p = None | None \<Rightarrow> False)))"

section \<open>Replay\<close>

definition write_if :: "failures \<Rightarrow> string \<Rightarrow> string option \<Rightarrow> disk \<Rightarrow> unit result \<times> disk" where
  "write_if fails p content d = (case content of Some s \<Rightarrow> atomic_write fails p s d | None \<Rightarrow> (Inr (), d))"

definition unlink_if :: "failures \<Rightarrow> string \<Rightarrow> disk \<Rightarrow> unit result \<times> disk" where
  "unlink_if fails p d = (if dk_files d p \<noteq> None then unlink fails p d else (Inr (), d))"

definition reverse_change :: "failures \<Rightarrow> FileChange \<Rightarrow> disk \<Rightarrow> unit result \<times> disk" where
  "reverse_change fails c d =
     (case fc_change_type c of
        CREATE \<Rightarrow> unlink_if fails (fc_file_path c) d
      | DELETE \<Rightarrow> write_if fails (fc_file_path c) (fc_original_content c) d
      | MODIFY \<Rightarrow> write_if fails (fc_file_path c) (fc_original_content c) d
      | RENAME \<Rightarrow>
          (case rename_source c of
             Some p \<Rightarrow> if dk_files d (fc_file_path c) \<noteq> None then move fails (fc_file_path c) p d else (Inr (), d)
           | None \<Rightarrow> (Inr (), d)))"

definition apply_change :: "failures \<Rightarrow> FileChange \<Rightarrow> disk \<Rightarrow> unit result \<times> disk" where
  "apply_change fails c d =
     (case fc_change_type c of
        CREATE \<Rightarrow> write_if fails (fc_file_path c) (fc_new_content c) d
      | DELETE \<Rightarrow> unlink_if fails (fc_file_path c) d
      | MODIFY \<Rightarrow> write_if fails (fc_file_path c) (fc_new_content c) d
      | RENAME \<Rightarrow>
          (case rename_source c of
             Some p \<Rightarrow> if dk_files d p \<noteq> None then move fails p (fc_file_path c) d else (Inr (), d)
           | None \<Rightarrow> (Inr (), d)))"

definition replay_change :: "failures \<Rightarrow> phase \<Rightarrow> FileChange \<Rightarrow> disk \<Rightarrow> unit result \<times> disk" where
  "replay_change fails ph c d = (case ph of Undo \<Rightarrow> reverse_change fails c d | Redo \<Rightarrow> apply_change fails c d)"

type_synonym replay_result = "string list \<times> string list \<times> string option"

text \<open>The loop: a conflict is skipped; an exception restores what was changed, the latest change first. The restoring may raise itself.\<close>

fun replay_loop ::
  "(string \<Rightarrow> string) \<Rightarrow> failures \<Rightarrow> phase \<Rightarrow> bool \<Rightarrow> FileChange list \<Rightarrow> string list \<Rightarrow> string list \<Rightarrow> snapshot list \<Rightarrow> disk \<Rightarrow> replay_result result \<times> disk" where
  "replay_loop digest fails ph force [] applied skipped journal d = (Inr (applied, skipped, None), d)"
| "replay_loop digest fails ph force (c # cs) applied skipped journal d =
     (if \<not> force \<and> has_conflict digest ph c d
      then replay_loop digest fails ph force cs applied (skipped @ [fc_file_path c]) journal d
      else let snap = snapshot_paths (paths_touched c) d
           in case replay_change fails ph c d of
               (Inl e, d) \<Rightarrow>
                 (case run_each (restore_snapshot fails) (snap # rev journal) d of
                    (Inl x, d) \<Rightarrow> (Inl x, d)
                  | (Inr _, d) \<Rightarrow> (Inr ([], skipped, Some (fc_file_path c @ '': '' @ exc_msg e)), d))
             | (Inr _, d) \<Rightarrow> replay_loop digest fails ph force cs (applied @ [fc_file_path c]) skipped (journal @ [snap]) d)"

definition replay_group ::
  "(string \<Rightarrow> string) \<Rightarrow> failures \<Rightarrow> phase \<Rightarrow> bool \<Rightarrow> FileChange list \<Rightarrow> disk \<Rightarrow> replay_result result \<times> disk" where
  "replay_group digest fails ph force cs d =
     replay_loop digest fails ph force (case ph of Undo \<Rightarrow> rev cs | Redo \<Rightarrow> cs) [] [] [] d"

end
