(* ===== verification/Change_Undo.thy ===== *)
theory Change_Undo
  imports Change_Replay
begin

text \<open>
  What replaying a group of changes does to the disk: a failure leaves it as it was, an undo takes a group back and a redo brings it again,
  and the guard leaves alone what somebody else has written.
\<close>

section \<open>Which files a change can touch\<close>

definition quiet :: "failures \<Rightarrow> nat \<Rightarrow> bool" where
  "quiet fails k \<longleftrightarrow> (\<forall>n \<ge> k. \<not> fails n)"

lemma quietD: "quiet fails k \<Longrightarrow> k \<le> n \<Longrightarrow> \<not> fails n"
  by (simp add: quiet_def)

lemma quiet_mono: "quiet fails k \<Longrightarrow> k \<le> n \<Longrightarrow> quiet fails n"
  by (auto simp: quiet_def)

text \<open>Not a directory; a text with line feeds only, or nothing.\<close>

definition no_dir :: "(string \<Rightarrow> node option) \<Rightarrow> string \<Rightarrow> bool" where
  "no_dir fs p \<longleftrightarrow> fs p \<noteq> Some Directory"

definition plain_text :: "string \<Rightarrow> bool" where
  "plain_text s \<longleftrightarrow> newlines s = s"

definition plain :: "(string \<Rightarrow> node option) \<Rightarrow> string \<Rightarrow> bool" where
  "plain fs p \<longleftrightarrow> (case fs p of None \<Rightarrow> True | Some (Text s) \<Rightarrow> plain_text s | _ \<Rightarrow> False)"

lemma plain_no_dir: "plain fs p \<Longrightarrow> no_dir fs p"
  by (auto simp: plain_def no_dir_def)

definition contents_plain :: "FileChange \<Rightarrow> bool" where
  "contents_plain c \<longleftrightarrow> pred_option plain_text (fc_original_content c) \<and> pred_option plain_text (fc_new_content c)"

lemma sys_call_cases:
  "sys_call fails p ok f d = (q, d') \<Longrightarrow> dk_calls d' = Suc (dk_calls d) \<and>
     (case q of Inl e \<Rightarrow> (fails (dk_calls d) \<or> \<not> ok) \<and> dk_files d' = dk_files d
      | Inr _ \<Rightarrow> ok \<and> \<not> fails (dk_calls d) \<and> dk_files d' = f (dk_files d))"
  by (auto simp: sys_call_def Let_def split: if_splits)

text \<open>A change of a path, of a write or of a removal; of two paths, for a move.\<close>

definition effect :: "phase \<Rightarrow> FileChange \<Rightarrow> (string \<Rightarrow> node option) \<Rightarrow> string \<Rightarrow> node option" where
  "effect ph c fs =
     (let p = fc_file_path c;
          write = (\<lambda>content. case content of Some s \<Rightarrow> fs(p \<mapsto> Text s) | None \<Rightarrow> fs);
          mv = (\<lambda>src dst. if fs src = None \<or> src = dst then fs else fs(src := None, dst := fs src))
      in case (fc_change_type c, ph) of
          (CREATE, Undo) \<Rightarrow> fs(p := None)
        | (CREATE, Redo) \<Rightarrow> write (fc_new_content c)
        | (DELETE, Undo) \<Rightarrow> write (fc_original_content c)
        | (DELETE, Redo) \<Rightarrow> fs(p := None)
        | (MODIFY, Undo) \<Rightarrow> write (fc_original_content c)
        | (MODIFY, Redo) \<Rightarrow> write (fc_new_content c)
        | (RENAME, Undo) \<Rightarrow> (case rename_source c of Some q \<Rightarrow> mv p q | None \<Rightarrow> fs)
        | (RENAME, Redo) \<Rightarrow> (case rename_source c of Some q \<Rightarrow> mv q p | None \<Rightarrow> fs))"

lemma touched_iff: "p \<in> set (paths_touched c) \<longleftrightarrow> p = fc_file_path c \<or> rename_source c = Some p"
  by (auto simp: paths_touched_def split: option.splits)

text \<open>What a call or a sequence of calls comes to: the disk has the files \<open>fs\<close>, or a call failed and nothing was changed.\<close>

definition settles :: "failures \<Rightarrow> disk \<Rightarrow> unit result \<times> disk \<Rightarrow> (string \<Rightarrow> node option) \<Rightarrow> bool" where
  "settles fails d r fs \<longleftrightarrow> dk_calls d \<le> dk_calls (snd r) \<and>
     (case fst r of
        Inl e \<Rightarrow> fails (dk_calls d) \<and> dk_calls (snd r) = Suc (dk_calls d) \<and> dk_files (snd r) = dk_files d
      | Inr _ \<Rightarrow> dk_files (snd r) = fs)"

lemma settles_call: "ok \<Longrightarrow> f (dk_files d) = fs \<Longrightarrow> settles fails d (sys_call fails p ok f d) fs"
  using sys_call_cases [of fails p ok f d] by (cases "sys_call fails p ok f d") (auto simp: settles_def split: sum.splits)

lemma settles_none: "dk_files d = fs \<Longrightarrow> settles fails d (Inr (), d) fs"
  by (simp add: settles_def)

lemma write_if_effect:
  "no_dir (dk_files d) p \<Longrightarrow> settles fails d (write_if fails p s d) (case s of Some t \<Rightarrow> (dk_files d)(p \<mapsto> Text t) | None \<Rightarrow> dk_files d)"
  by (auto simp: write_if_def atomic_write_def no_dir_def intro: settles_call settles_none split: option.split)

lemma unlink_if_effect: "no_dir (dk_files d) p \<Longrightarrow> settles fails d (unlink_if fails p d) ((dk_files d)(p := None))"
  by (auto simp: unlink_if_def unlink_def no_dir_def fun_eq_iff intro!: settles_call settles_none)

lemma move_effect:
  "no_dir (dk_files d) dst \<Longrightarrow> settles fails d (if dk_files d src \<noteq> None then move fails src dst d else (Inr (), d))
     (if dk_files d src = None \<or> src = dst then dk_files d else (dk_files d)(src := None, dst := dk_files d src))"
  by (auto simp: move_def no_dir_def intro!: settles_call settles_none)

definition no_dir_targets :: "FileChange \<Rightarrow> (string \<Rightarrow> node option) \<Rightarrow> bool" where
  "no_dir_targets c fs \<longleftrightarrow> no_dir fs (fc_file_path c) \<and> (fc_change_type c = RENAME \<longrightarrow> pred_option (no_dir fs) (rename_source c))"

lemma touched_targets: "\<forall>p \<in> set (paths_touched c). no_dir fs p \<Longrightarrow> no_dir_targets c fs"
  by (cases "rename_source c") (auto simp: touched_iff no_dir_targets_def)

lemma replay_change_effect:
  assumes "no_dir_targets c (dk_files d)"
  shows "settles fails d (replay_change fails ph c d) (effect ph c (dk_files d))"
proof -
  have p: "no_dir (dk_files d) (fc_file_path c)" using assms by (simp add: no_dir_targets_def)
  show ?thesis
  proof (cases "fc_change_type c")
    case RENAME
    show ?thesis
    proof (cases "rename_source c")
      case None
      then show ?thesis using RENAME
        by (cases ph) (simp_all add: replay_change_def reverse_change_def apply_change_def effect_def Let_def settles_none)
    next
      case (Some r)
      then have "no_dir (dk_files d) r" using assms RENAME by (simp add: no_dir_targets_def)
      then show ?thesis using RENAME Some p
        by (cases ph) (simp_all only: replay_change_def reverse_change_def apply_change_def effect_def Let_def move_effect phase.case ChangeType.case prod.case option.case)
    qed
  qed (cases ph; simp add: replay_change_def reverse_change_def apply_change_def effect_def Let_def write_if_effect [OF p] unlink_if_effect [OF p])+
qed

lemma effect_frame: "p \<notin> set (paths_touched c) \<Longrightarrow> effect ph c fs p = fs p"
  by (cases ph; cases "fc_change_type c") (auto simp: touched_iff effect_def Let_def split: option.splits)

lemma effect_no_dir: "\<forall>p. no_dir fs p \<or> p \<notin> A \<Longrightarrow> set (paths_touched c) \<subseteq> A \<Longrightarrow> \<forall>p \<in> A. no_dir (effect ph c fs) p"
  by (cases ph; cases "fc_change_type c") (auto simp: touched_iff effect_def Let_def no_dir_def subset_iff split: option.splits)

lemma effect_plain: "\<forall>p \<in> A. plain fs p \<Longrightarrow> set (paths_touched c) \<subseteq> A \<Longrightarrow> contents_plain c \<Longrightarrow> \<forall>p \<in> A. plain (effect ph c fs) p"
  by (cases ph; cases "fc_change_type c")
     (auto simp: touched_iff effect_def Let_def plain_def contents_plain_def subset_iff split: option.splits)

section \<open>A replay that fails changes nothing\<close>

lemma snapshot_paths_items:
  "dict_ok (snapshot_paths ps d) \<and> set (dict_keys (snapshot_paths ps d)) = set ps \<and> (\<forall>x \<in> set (snapshot_paths ps d). snd x = snapshot_of d (fst x))"
proof -
  have "dict_ok snap \<Longrightarrow> (\<forall>x \<in> set snap. snd x = snapshot_of d (fst x)) \<Longrightarrow>
      dict_ok (fold (\<lambda>p. dict_set p (snapshot_of d p)) ps snap) \<and>
      set (dict_keys (fold (\<lambda>p. dict_set p (snapshot_of d p)) ps snap)) = set (dict_keys snap) \<union> set ps \<and>
      (\<forall>x \<in> set (fold (\<lambda>p. dict_set p (snapshot_of d p)) ps snap). snd x = snapshot_of d (fst x))" for snap
  proof (induction ps arbitrary: snap)
    case (Cons p ps)
    have "snd x = snapshot_of d (fst x)" if "x \<in> set (dict_set p (snapshot_of d p) snap)" for x
    proof -
      have "dict_ok (dict_set p (snapshot_of d p) snap)" using Cons.prems(1) by (simp add: dict_simps)
      then have "dict_get (dict_set p (snapshot_of d p) snap) (fst x) = Some (snd x)" using that by (metis dict_get_items prod.collapse)
      then show ?thesis using Cons.prems by (auto simp: dict_simps dict_get_items split: if_splits)
    qed
    then show ?case using Cons.IH [of "dict_set p (snapshot_of d p) snap"] Cons.prems by (auto simp: dict_simps dict_has_keys)
  qed simp
  from this [of "[]"] show ?thesis by (simp add: snapshot_paths_def dict_ok_def dict_keys_def)
qed

lemma restore_path_right:
  assumes "plain (dk_files d) p" "no_dir (dk_files d') p" "quiet fails (dk_calls d')"
  shows "\<exists>d''. restore_path fails (p, snapshot_of d p) d' = (Inr (), d'') \<and> dk_files d'' = (dk_files d')(p := dk_files d p) \<and> dk_calls d' \<le> dk_calls d''"
  using assms quietD [OF assms(3) order_refl]
  by (auto simp: restore_path_def snapshot_of_def plain_def plain_text_def no_dir_def atomic_write_def unlink_def sys_call_def Let_def fun_eq_iff
      split: option.splits node.splits)

lemma restore_items_right:
  assumes "\<forall>x \<in> set snap. snd x = snapshot_of d (fst x) \<and> plain (dk_files d) (fst x) \<and> no_dir (dk_files d') (fst x)" "dict_ok snap"
    "quiet fails (dk_calls d')"
  shows "\<exists>d''. run_each (restore_path fails) snap d' = (Inr (), d'') \<and> dk_calls d' \<le> dk_calls d'' \<and>
    dk_files d'' = (\<lambda>p. if p \<in> set (dict_keys snap) then dk_files d p else dk_files d' p)"
  using assms
proof (induction snap arbitrary: d')
  case (Cons x snap)
  obtain p where x: "x = (p, snapshot_of d p)" using Cons.prems(1) by (cases x) auto
  obtain d1 where d1: "restore_path fails x d' = (Inr (), d1)" "dk_files d1 = (dk_files d')(p := dk_files d p)" "dk_calls d' \<le> dk_calls d1"
    using restore_path_right [of d p d' fails] Cons.prems(1,3) by (auto simp: x)
  have "\<exists>d''. run_each (restore_path fails) snap d1 = (Inr (), d'') \<and> dk_calls d1 \<le> dk_calls d'' \<and>
      dk_files d'' = (\<lambda>p. if p \<in> set (dict_keys snap) then dk_files d p else dk_files d1 p)"
  proof (rule Cons.IH)
    show "\<forall>x \<in> set snap. snd x = snapshot_of d (fst x) \<and> plain (dk_files d) (fst x) \<and> no_dir (dk_files d1) (fst x)"
      using Cons.prems(1) by (auto simp: d1(2) no_dir_def x dest: plain_no_dir)
  qed (use Cons.prems quiet_mono [OF _ d1(3)] in \<open>auto simp: dict_ok_def\<close>)
  then show ?case using d1 by (auto simp: x dict_keys_def fun_eq_iff)
qed (auto simp: dict_keys_def)

lemma restore_snapshot_right:
  assumes "\<forall>p \<in> set ps. plain (dk_files d) p \<and> no_dir (dk_files d') p" "\<forall>p. p \<notin> set ps \<longrightarrow> dk_files d' p = dk_files d p" "quiet fails (dk_calls d')"
  shows "\<exists>d''. restore_snapshot fails (snapshot_paths ps d) d' = (Inr (), d'') \<and> dk_files d'' = dk_files d \<and> dk_calls d' \<le> dk_calls d''"
proof -
  note S = snapshot_paths_items [of ps d]
  have k: "fst x \<in> set ps" if "x \<in> set (snapshot_paths ps d)" for x using S that by (auto simp: dict_keys_def)
  have "\<forall>x \<in> set (snapshot_paths ps d). snd x = snapshot_of d (fst x) \<and> plain (dk_files d) (fst x) \<and> no_dir (dk_files d') (fst x)"
    using S k assms(1) by blast
  from restore_items_right [OF this _ assms(3)] S show ?thesis
    using assms(2) by (auto simp: restore_snapshot_def fun_eq_iff)
qed

text \<open>The journal leads back to the files of the beginning.\<close>

definition leads_back :: "failures \<Rightarrow> snapshot list \<Rightarrow> (string \<Rightarrow> node option) \<Rightarrow> disk \<Rightarrow> bool" where
  "leads_back fails journal fs d \<longleftrightarrow> (\<forall>d'. dk_files d' = dk_files d \<longrightarrow> quiet fails (dk_calls d') \<longrightarrow>
     (\<exists>d''. run_each (restore_snapshot fails) (rev journal) d' = (Inr (), d'') \<and> dk_files d'' = fs))"

lemma leads_back_step:
  assumes "leads_back fails journal fs d" "\<forall>p \<in> set ps. plain (dk_files d) p \<and> no_dir (dk_files d1) p" "\<forall>p. p \<notin> set ps \<longrightarrow> dk_files d1 p = dk_files d p"
  shows "leads_back fails (journal @ [snapshot_paths ps d]) fs d1"
  unfolding leads_back_def
proof (intro allI impI)
  fix d' :: disk
  assume d': "dk_files d' = dk_files d1" "quiet fails (dk_calls d')"
  obtain d2 where d2: "restore_snapshot fails (snapshot_paths ps d) d' = (Inr (), d2)" "dk_files d2 = dk_files d" "dk_calls d' \<le> dk_calls d2"
    using restore_snapshot_right [of ps d d' fails] assms(2,3) d' by auto
  have "quiet fails (dk_calls d2)" using d'(2) d2(3) by (rule quiet_mono)
  then show "\<exists>d''. run_each (restore_snapshot fails) (rev (journal @ [snapshot_paths ps d])) d' = (Inr (), d'') \<and> dk_files d'' = fs"
    using assms(1) d2(1,2) by (auto simp: leads_back_def)
qed

definition one_failure :: "failures \<Rightarrow> bool" where
  "one_failure fails \<longleftrightarrow> (\<forall>m n. fails m \<longrightarrow> fails n \<longrightarrow> m = n)"

lemma quiet_after: "one_failure fails \<Longrightarrow> fails n \<Longrightarrow> quiet fails (Suc n)"
  by (force simp: one_failure_def quiet_def)

text \<open>The loop returns; if it reports an error, the files are those of the beginning.\<close>

lemma replay_loop_atomic:
  assumes "one_failure fails" "leads_back fails journal fs d" "\<forall>c \<in> set cs. contents_plain c"
    "A = (\<Union>c \<in> set cs. set (paths_touched c))" "\<forall>p \<in> A. plain (dk_files d) p"
  shows "\<exists>ap sk err d'. replay_loop digest fails ph force cs applied skipped journal d = (Inr (ap, sk, err), d') \<and>
    (err \<noteq> None \<longrightarrow> ap = [] \<and> dk_files d' = fs)"
  using assms(2-5)
proof (induction cs arbitrary: applied skipped journal d A)
  case (Cons c cs)
  let ?B = "\<Union>c \<in> set cs. set (paths_touched c)"
  have sub: "set (paths_touched c) \<subseteq> A" "?B \<subseteq> A" using Cons.prems(3) by auto
  show ?case
  proof (cases "\<not> force \<and> has_conflict digest ph c d")
    case True
    have "\<forall>p \<in> ?B. plain (dk_files d) p" using Cons.prems(4) sub(2) by blast
    then show ?thesis using Cons.IH [of journal d ?B applied "skipped @ [fc_file_path c]"] Cons.prems(1,2) True by auto
  next
    case False
    have plain: "\<forall>p \<in> set (paths_touched c). plain (dk_files d) p" using Cons.prems(4) sub by blast
    obtain q d1 where r: "replay_change fails ph c d = (q, d1)" by (rule prod.exhaust)
    have S: "settles fails d (q, d1) (effect ph c (dk_files d))"
      using replay_change_effect [OF touched_targets, of c d fails ph] plain plain_no_dir unfolding r by blast
    show ?thesis
    proof (cases q)
      case (Inl e)
      have q1: "quiet fails (dk_calls d1)" "dk_files d1 = dk_files d" using S quiet_after [OF assms(1)] by (auto simp: settles_def Inl)
      have "\<forall>p \<in> set (paths_touched c). plain (dk_files d) p \<and> no_dir (dk_files d1) p" using plain q1(2) plain_no_dir by auto
      then have "leads_back fails (journal @ [snapshot_paths (paths_touched c) d]) fs d1" using Cons.prems(1) q1(2) by (intro leads_back_step) auto
      then obtain d2 where "run_each (restore_snapshot fails) (snapshot_paths (paths_touched c) d # rev journal) d1 = (Inr (), d2)" "dk_files d2 = fs"
        using q1(1) by (auto simp: leads_back_def)
      then show ?thesis using False r Inl by (auto simp: Let_def)
    next
      case (Inr u)
      have f1: "dk_files d1 = effect ph c (dk_files d)" using S by (simp add: settles_def Inr)
      have plain1: "\<forall>p \<in> A. plain (dk_files d1) p" unfolding f1 using effect_plain Cons.prems(2,4) sub(1) by (metis list.set_intros(1))
      have "leads_back fails (journal @ [snapshot_paths (paths_touched c) d]) fs d1"
        by (rule leads_back_step [OF Cons.prems(1)]) (use plain plain1 sub(1) plain_no_dir effect_frame [of _ c ph "dk_files d"] in \<open>auto simp: f1\<close>)
      moreover have "\<forall>p \<in> ?B. plain (dk_files d1) p" using plain1 sub(2) by blast
      ultimately show ?thesis using Cons.IH [of "journal @ [snapshot_paths (paths_touched c) d]" d1 ?B "applied @ [fc_file_path c]" skipped] Cons.prems(2) False r Inr
        by (auto simp: Let_def)
    qed
  qed
qed simp

text \<open>C18. A replay of a group is all or nothing: whichever system call fails, if only one does and the files that the group touches are texts with line feeds or
  are not there, the replay returns, and if it reports an error then no file was applied and every file of the disk is what it was before.\<close>

theorem replay_atomic:
  assumes "one_failure fails" "\<forall>c \<in> set cs. contents_plain c \<and> (\<forall>p \<in> set (paths_touched c). plain (dk_files d) p)"
  shows "\<exists>applied skipped err d'. replay_group digest fails ph force cs d = (Inr (applied, skipped, err), d') \<and>
    (err \<noteq> None \<longrightarrow> applied = [] \<and> dk_files d' = dk_files d)"
proof -
  let ?cs = "case ph of Undo \<Rightarrow> rev cs | Redo \<Rightarrow> cs"
  have set: "set ?cs = set cs" by (simp split: phase.split)
  have "leads_back fails [] (dk_files d) d" by (simp add: leads_back_def)
  then show ?thesis unfolding replay_group_def
    by (rule replay_loop_atomic [OF assms(1) _ _ refl]) (use assms(2) set in auto)
qed

section \<open>Undo takes a group back\<close>

text \<open>What recording promises: carrying a change out on the files, if they are in the state that the change expects.\<close>

definition perform :: "FileChange \<Rightarrow> (string \<Rightarrow> node option) \<Rightarrow> (string \<Rightarrow> node option) option" where
  "perform c fs =
     (let p = fc_file_path c
      in case (fc_change_type c, fc_original_content c, fc_new_content c) of
          (CREATE, _, Some s) \<Rightarrow> if fs p = None then Some (fs(p \<mapsto> Text s)) else None
        | (MODIFY, Some t, Some s) \<Rightarrow> if fs p = Some (Text t) then Some (fs(p \<mapsto> Text s)) else None
        | (DELETE, Some t, _) \<Rightarrow> if fs p = Some (Text t) then Some (fs(p := None)) else None
        | (RENAME, _, _) \<Rightarrow>
            (case rename_source c of
               Some q \<Rightarrow> if q \<noteq> p \<and> fs q \<notin> {None, Some Directory} \<and> fs p = None then Some (fs(q := None, p := fs q)) else None
             | None \<Rightarrow> None)
        | _ \<Rightarrow> None)"

primrec perform_all :: "FileChange list \<Rightarrow> (string \<Rightarrow> node option) \<Rightarrow> (string \<Rightarrow> node option) option" where
  "perform_all [] fs = Some fs"
| "perform_all (c # cs) fs = Option.bind (perform c fs) (perform_all cs)"

lemma perform_all_append: "perform_all (cs @ ds) fs = Option.bind (perform_all cs fs) (perform_all ds)"
  by (induction cs arbitrary: fs) (auto split: bind_splits)

lemma perform_cases:
  assumes "perform c fs = Some fs'"
  obtains (create) s where "fc_change_type c = CREATE" "fc_new_content c = Some s" "fs (fc_file_path c) = None" "fs' = fs(fc_file_path c \<mapsto> Text s)"
  | (modify) t s where "fc_change_type c = MODIFY" "fc_original_content c = Some t" "fc_new_content c = Some s" "fs (fc_file_path c) = Some (Text t)"
      "fs' = fs(fc_file_path c \<mapsto> Text s)"
  | (delete) t where "fc_change_type c = DELETE" "fc_original_content c = Some t" "fs (fc_file_path c) = Some (Text t)" "fs' = fs(fc_file_path c := None)"
  | (rename) q x where "fc_change_type c = RENAME" "rename_source c = Some q" "q \<noteq> fc_file_path c" "fs q = Some x" "x \<noteq> Directory"
      "fs (fc_file_path c) = None" "fs' = fs(q := None, fc_file_path c \<mapsto> x)"
  using assms by (cases "fc_change_type c") (auto simp: perform_def Let_def split: option.splits if_splits)

lemma perform_effect:
  assumes "perform c fs = Some fs'"
  shows "effect Redo c fs = fs'" "effect Undo c fs' = fs" "no_dir_targets c fs" "no_dir_targets c fs'"
  using assms by (cases rule: perform_cases; auto simp: effect_def no_dir_targets_def no_dir_def Let_def fun_eq_iff)+

text \<open>A change in the state in which it was left, and one in the state in which it was found, is no conflict.\<close>

lemma perform_no_conflict:
  assumes "perform c fs = Some fs'" "contents_plain c" "\<forall>s. length (digest s) = 64"
  shows "dk_files d = fs' \<Longrightarrow> \<not> has_conflict digest Undo c d" "dk_files d = fs \<Longrightarrow> \<not> has_conflict digest Redo c d"
  using assms
  by (cases rule: perform_cases; simp add: has_conflict_def current_checksum_def matches_recorded_def contents_plain_def plain_text_def Let_def)+

definition before_of :: "phase \<Rightarrow> FileChange \<Rightarrow> (string \<Rightarrow> node option) \<Rightarrow> (string \<Rightarrow> node option) \<Rightarrow> bool" where
  "before_of ph c fs fs' \<longleftrightarrow> (case ph of Undo \<Rightarrow> perform c fs' = Some fs | Redo \<Rightarrow> perform c fs = Some fs')"

lemma replay_one:
  assumes "before_of ph c (dk_files d) fs'" "contents_plain c" "\<forall>s. length (digest s) = 64" "quiet fails (dk_calls d)"
  shows "\<exists>d'. replay_change fails ph c d = (Inr (), d') \<and> dk_files d' = fs' \<and> quiet fails (dk_calls d') \<and> \<not> has_conflict digest ph c d"
proof -
  have e: "effect ph c (dk_files d) = fs'" "no_dir_targets c (dk_files d)" "\<not> has_conflict digest ph c d"
    using assms(1) perform_effect [of c] perform_no_conflict [of c _ _ digest d] assms(2,3) by (cases ph; auto simp: before_of_def)+
  obtain q d' where r: "replay_change fails ph c d = (q, d')" by (rule prod.exhaust)
  have S: "settles fails d (q, d') fs'" using replay_change_effect [OF e(2), of fails ph] by (simp add: r e(1))
  then have "q = Inr ()" using quietD [OF assms(4) order_refl] by (cases q) (auto simp: settles_def)
  then show ?thesis using S r e(3) quiet_mono [OF assms(4), of "dk_calls d'"] by (simp add: settles_def)
qed

fun replayed :: "phase \<Rightarrow> FileChange list \<Rightarrow> (string \<Rightarrow> node option) \<Rightarrow> (string \<Rightarrow> node option) \<Rightarrow> bool" where
  "replayed ph [] fs fs' = (fs' = fs)"
| "replayed ph (c # cs) fs fs' = (\<exists>fs1. before_of ph c fs fs1 \<and> replayed ph cs fs1 fs')"

lemma replayed_append: "replayed ph (cs @ ds) fs fs' \<longleftrightarrow> (\<exists>g. replayed ph cs fs g \<and> replayed ph ds g fs')"
  by (induction cs arbitrary: fs) auto

lemma perform_replayed: "perform_all cs fs = Some fs' \<Longrightarrow> replayed Redo cs fs fs' \<and> replayed Undo (rev cs) fs' fs"
  by (induction cs arbitrary: fs) (auto simp: replayed_append before_of_def Option.bind_eq_Some_conv)

lemma replay_loop_right:
  assumes "replayed ph cs (dk_files d) fs'" "\<forall>c \<in> set cs. contents_plain c" "\<forall>s. length (digest s) = 64" "quiet fails (dk_calls d)"
  shows "\<exists>d'. replay_loop digest fails ph force cs applied skipped journal d = (Inr (applied @ map fc_file_path cs, skipped, None), d') \<and>
    dk_files d' = fs' \<and> quiet fails (dk_calls d')"
  using assms
proof (induction cs arbitrary: applied journal d)
  case (Cons c cs)
  obtain g where g: "before_of ph c (dk_files d) g" "replayed ph cs g fs'" using Cons.prems(1) by auto
  obtain d1 where d1: "replay_change fails ph c d = (Inr (), d1)" "dk_files d1 = g" "quiet fails (dk_calls d1)" "\<not> has_conflict digest ph c d"
    using replay_one [OF g(1) _ assms(3) Cons.prems(4)] Cons.prems(2) by auto
  then show ?case using Cons.IH [of d1 "applied @ [fc_file_path c]" "journal @ [snapshot_paths (paths_touched c) d]"] g(2) Cons.prems(2,3) by (simp add: Let_def)
qed simp

text \<open>An undo takes a group of changes back and a redo brings it again: if the changes of a group lead from the files \<open>fs\<close> to the files of the
  disk, its undo skips nothing, reverts every file in reverse order and leaves exactly \<open>fs\<close>; a redo from there leaves exactly the files of before.\<close>

theorem undo_redo_exact:
  assumes "perform_all cs fs = Some (dk_files d)" "\<forall>c \<in> set cs. contents_plain c" "\<forall>s. length (digest s) = 64" "quiet fails (dk_calls d)"
  shows "\<exists>d1 d2. replay_group digest fails Undo force cs d = (Inr (rev (map fc_file_path cs), [], None), d1) \<and> dk_files d1 = fs \<and>
    replay_group digest fails Redo force cs d1 = (Inr (map fc_file_path cs, [], None), d2) \<and> dk_files d2 = dk_files d"
proof -
  have U: "replayed Undo (rev cs) (dk_files d) fs" and R: "replayed Redo cs fs (dk_files d)" using perform_replayed [OF assms(1)] by auto
  obtain d1 where d1: "replay_loop digest fails Undo force (rev cs) [] [] [] d = (Inr (map fc_file_path (rev cs), [], None), d1)" "dk_files d1 = fs"
    "quiet fails (dk_calls d1)"
    using replay_loop_right [OF U _ assms(3,4), of force "[]" "[]" "[]"] assms(2) by auto
  obtain d2 where "replay_loop digest fails Redo force cs [] [] [] d1 = (Inr (map fc_file_path cs, [], None), d2)" "dk_files d2 = dk_files d"
    using replay_loop_right [OF R [folded d1(2)] assms(2,3) d1(3), of force "[]" "[]" "[]"] by auto
  then show ?thesis using d1(1,2) by (simp add: replay_group_def rev_map)
qed

section \<open>What somebody else has written is left alone\<close>

definition expected_state :: "phase \<Rightarrow> FileChange \<Rightarrow> string option \<times> string option" where
  "expected_state ph c = (case ph of Undo \<Rightarrow> (fc_new_content c, fc_checksum_after c) | Redo \<Rightarrow> (fc_original_content c, fc_checksum_before c))"

text \<open>A text whose checksum is not the one that the change expects.\<close>

definition foreign :: "(string \<Rightarrow> string) \<Rightarrow> phase \<Rightarrow> FileChange \<Rightarrow> string \<Rightarrow> bool" where
  "foreign digest ph c t \<longleftrightarrow>
     (case expected_state ph c of (Some s, _) \<Rightarrow> digest s \<noteq> digest (newlines t) | (None, recorded) \<Rightarrow> recorded \<noteq> Some (digest (newlines t)))"

lemma foreign_conflict:
  assumes "foreign digest ph c t" "dk_files d (fc_file_path c) = Some (Text t)" "fc_change_type c \<noteq> RENAME"
  shows "has_conflict digest ph c d"
  using assms by (cases ph; cases "fc_change_type c")
    (auto simp: has_conflict_def current_checksum_def matches_recorded_def foreign_def expected_state_def split: option.splits)

definition spares :: "string \<Rightarrow> (disk \<Rightarrow> 'r \<times> disk) \<Rightarrow> bool" where
  "spares p f \<longleftrightarrow> (\<forall>d. dk_files (snd (f d)) p = dk_files d p)"

lemma restore_path_spares: "fst x \<noteq> p \<Longrightarrow> spares p (restore_path fails x)"
  by (cases x) (auto simp: spares_def restore_path_def atomic_write_def unlink_def sys_call_def Let_def split: option.splits)

lemma run_each_spares: "\<forall>x \<in> set xs. spares p (f x) \<Longrightarrow> spares p (run_each f xs)"
  unfolding spares_def
proof (induction xs)
  case (Cons x xs)
  show ?case
  proof
    fix d
    obtain q d1 where r: "f x d = (q, d1)" by (rule prod.exhaust)
    have "dk_files d1 p = dk_files d p" using Cons.prems r by (metis list.set_intros(1) snd_conv)
    then show "dk_files (snd (run_each f (x # xs) d)) p = dk_files d p" using Cons r by (cases q) auto
  qed
qed simp

lemma restore_snapshot_spares: "p \<notin> set (dict_keys snap) \<Longrightarrow> spares p (restore_snapshot fails snap)"
  unfolding restore_snapshot_def by (rule run_each_spares) (auto simp: dict_keys_def intro!: restore_path_spares)

lemma replay_loop_spares:
  assumes "dk_files d p = Some (Text t)" "\<forall>c \<in> set cs. fc_file_path c = p \<longrightarrow> fc_change_type c \<noteq> RENAME \<and> foreign digest ph c t"
    "\<forall>c \<in> set cs. rename_source c \<noteq> Some p" "\<forall>c \<in> set cs. set (paths_touched c) \<subseteq> A" "\<forall>q \<in> A. no_dir (dk_files d) q"
    "\<forall>snap \<in> set journal. p \<notin> set (dict_keys snap)"
  shows "dk_files (snd (replay_loop digest fails ph False cs applied skipped journal d)) p = Some (Text t)"
  using assms
proof (induction cs arbitrary: applied skipped journal d)
  case (Cons c cs)
  show ?case
  proof (cases "has_conflict digest ph c d")
    case True
    then show ?thesis using Cons by simp
  next
    case False
    have np: "fc_file_path c \<noteq> p" using False foreign_conflict Cons.prems(1,2) by (metis list.set_intros(1))
    then have nt: "p \<notin> set (paths_touched c)" using Cons.prems(3) by (simp add: touched_iff)
    let ?snap = "snapshot_paths (paths_touched c) d"
    have snap: "p \<notin> set (dict_keys ?snap)" using snapshot_paths_items [of "paths_touched c" d] nt by simp
    obtain q d1 where r: "replay_change fails ph c d = (q, d1)" by (rule prod.exhaust)
    have nd: "\<forall>q \<in> set (paths_touched c). no_dir (dk_files d) q" using Cons.prems(4,5) by auto
    have S: "settles fails d (q, d1) (effect ph c (dk_files d))" using replay_change_effect [OF touched_targets [OF nd], of fails ph] by (simp add: r)
    show ?thesis
    proof (cases q)
      case (Inl e)
      have "spares p (run_each (restore_snapshot fails) (?snap # rev journal))"
        by (rule run_each_spares) (use snap Cons.prems(6) in \<open>auto intro!: restore_snapshot_spares\<close>)
      then have "dk_files (snd (run_each (restore_snapshot fails) (?snap # rev journal) d1)) p = Some (Text t)"
        using S Cons.prems(1) by (simp add: spares_def settles_def Inl del: run_each.simps)
      then show ?thesis using False r Inl by (auto simp: Let_def split: prod.splits sum.splits simp del: run_each.simps)
    next
      case (Inr u)
      have f1: "dk_files d1 = effect ph c (dk_files d)" using S by (simp add: settles_def Inr)
      have "dk_files d1 p = Some (Text t)" using effect_frame [OF nt] Cons.prems(1) by (simp add: f1)
      moreover have "\<forall>q \<in> A. no_dir (dk_files d1) q" unfolding f1 using effect_no_dir [of "dk_files d" A c ph] Cons.prems(4,5) by auto
      ultimately show ?thesis using Cons.IH [of d1 "journal @ [?snap]"] Cons.prems snap False r Inr by (simp add: Let_def)
    qed
  qed
qed simp

text \<open>C20. Without force, an undo or redo leaves a text alone that somebody else has written at a path that the group creates, modifies or deletes: if the path is neither
  source nor target of a rename in the group, no path the group touches is a directory, and the checksum of the text is not the one that any change of the
  group expects of it, the text is on the disk afterwards, whatever else the replay does, whichever system calls fail and whether or not it is rolled back.\<close>

theorem foreign_text_kept:
  assumes "dk_files d p = Some (Text t)" "\<forall>c \<in> set cs. fc_file_path c = p \<longrightarrow> fc_change_type c \<noteq> RENAME \<and> foreign digest ph c t"
    "\<forall>c \<in> set cs. rename_source c \<noteq> Some p" "\<forall>c \<in> set cs. \<forall>q \<in> set (paths_touched c). no_dir (dk_files d) q"
  shows "dk_files (snd (replay_group digest fails ph False cs d)) p = Some (Text t)"
proof -
  have set: "set (case ph of Undo \<Rightarrow> rev cs | Redo \<Rightarrow> cs) = set cs" by (simp split: phase.split)
  show ?thesis unfolding replay_group_def
    by (rule replay_loop_spares [where A = "\<Union>c \<in> set cs. set (paths_touched c)"]) (use assms set in auto)
qed

section \<open>Where it does not hold\<close>

definition change :: "ChangeType \<Rightarrow> string \<Rightarrow> string option \<Rightarrow> string option \<Rightarrow> string option \<Rightarrow> FileChange" where
  "change ct p orig new src =
     \<lparr>fc_id = ''chg'', fc_change_type = ct, fc_file_path = p, fc_timestamp = 0, fc_tool_name = ''edit'', fc_tool_args = [], fc_original_content = orig,
      fc_new_content = new, fc_original_path = src, fc_checksum_before = None, fc_checksum_after = None, fc_session_id = None, fc_message_id = None\<rparr>"

text \<open>A checksum for examples: the text, cut and filled to 64 characters.\<close>

definition pad64 :: "string \<Rightarrow> string" where
  "pad64 s = take 64 (s @ replicate 64 CHR ''0'')"

lemma length_pad64: "length (pad64 s) = 64"
  by (simp add: pad64_def)

lemmas replay_simps = replay_group_def Let_def has_conflict_def current_checksum_def matches_recorded_def replay_change_def reverse_change_def apply_change_def
  write_if_def unlink_if_def atomic_write_def unlink_def move_def sys_call_def rename_source_def paths_touched_def snapshot_paths_def snapshot_of_def
  restore_snapshot_def restore_path_def change_def

text \<open>The undo of a group that renamed a file which is not text, and whose other change cannot be reverted: the rollback removes the file.\<close>

lemma rollback_loses_file:
  defines "cs \<equiv> [change MODIFY ''a'' (Some ''x'') (Some ''y'') None, change RENAME ''new'' None None (Some ''old'')]"
    and "d \<equiv> \<lparr>dk_files = [''a'' \<mapsto> Text ''y'', ''new'' \<mapsto> Binary 7], dk_calls = 0\<rparr>"
  shows "\<exists>d'. replay_group pad64 (\<lambda>n. n = 1) Undo False cs d = (Inr ([], [], Some ''a: a''), d') \<and> dk_files d' ''new'' = None \<and> dk_files d' ''old'' = None"
  by (simp add: cs_def d_def replay_simps pad64_def os_error_def)

text \<open>A rollback writes line feeds where there were carriage returns.\<close>

lemma rollback_changes_lines:
  defines "cs \<equiv> [change MODIFY ''a'' (Some ''x'') (Some ''y'') None, change DELETE ''b'' (Some ''z'') None None, change MODIFY ''c'' (Some ''w'') (Some [CHR 0x0A]) None]"
    and "d \<equiv> \<lparr>dk_files = [''a'' \<mapsto> Text ''y'', ''c'' \<mapsto> Text [CHR 0x0D, CHR 0x0A]], dk_calls = 0\<rparr>"
  shows "\<exists>d'. replay_group pad64 (\<lambda>n. n = 1) Undo False cs d = (Inr ([], [], Some ''b: b''), d') \<and> dk_files d' ''c'' = Some (Text [CHR 0x0A])"
  by (simp add: cs_def d_def replay_simps pad64_def os_error_def)

text \<open>The guard does not look at the source of a rename: a text that somebody wrote there since is overwritten by the undo.\<close>

lemma rename_overwrites_foreign:
  defines "cs \<equiv> [change RENAME ''new'' None None (Some ''old'')]"
    and "d \<equiv> \<lparr>dk_files = [''old'' \<mapsto> Text ''theirs'', ''new'' \<mapsto> Text ''ours''], dk_calls = 0\<rparr>"
  shows "\<exists>d'. replay_group pad64 (\<lambda>_. False) Undo False cs d = (Inr ([''new''], [], None), d') \<and> dk_files d' ''old'' = Some (Text ''ours'') \<and> dk_files d' ''new'' = None"
  by (simp add: cs_def d_def replay_simps)

text \<open>A file that is not text does not count as being there.\<close>

lemma binary_overwritten:
  assumes "dk_files d (fc_file_path c) = Some (Binary n)" "fc_change_type c = DELETE" "fc_original_content c = Some s" "quiet fails (dk_calls d)"
  shows "\<exists>d'. replay_group digest fails Undo False [c] d = (Inr ([fc_file_path c], [], None), d') \<and> dk_files d' (fc_file_path c) = Some (Text s)"
  using assms quietD [OF assms(4) order_refl] by (simp add: replay_simps)

text \<open>A text with carriage returns is in conflict with its own record.\<close>

lemma carriage_return_conflict:
  assumes "dk_files d (fc_file_path c) = Some (Text s)" "fc_new_content c = Some s" "fc_change_type c \<in> {CREATE, MODIFY}" "digest (newlines s) \<noteq> digest s"
  shows "has_conflict digest Undo c d"
  using assms by (auto simp: has_conflict_def current_checksum_def matches_recorded_def)

section \<open>Examples\<close>

definition demo_group :: "FileChange list" where
  "demo_group = [change CREATE ''b'' None (Some ''new'') None, change MODIFY ''a'' (Some ''one'') (Some ''two'') None, change RENAME ''d'' None None (Some ''c'')]"

definition demo_files :: "string \<Rightarrow> node option" where
  "demo_files = [''a'' \<mapsto> Text ''one'', ''c'' \<mapsto> Text ''text'']"

definition demo_disk :: disk where
  "demo_disk = \<lparr>dk_files = [''a'' \<mapsto> Text ''two'', ''b'' \<mapsto> Text ''new'', ''d'' \<mapsto> Text ''text''], dk_calls = 0\<rparr>"

lemma demo_plain: "\<forall>c \<in> set demo_group. contents_plain c" "\<forall>c \<in> set demo_group. \<forall>p \<in> set (paths_touched c). plain (dk_files demo_disk) p"
  by (simp_all add: demo_group_def demo_disk_def contents_plain_def plain_text_def plain_def paths_touched_def rename_source_def change_def)

theorem replay_atomic_witness:
  "\<exists>applied skipped d. replay_group pad64 (\<lambda>n. n = 2) Undo False demo_group demo_disk = (Inr (applied, skipped, Some ''b: b''), d) \<and>
     dk_files d = dk_files demo_disk"
proof -
  obtain ap sk err d where r: "replay_group pad64 (\<lambda>n. n = 2) Undo False demo_group demo_disk = (Inr (ap, sk, err), d)"
    "err \<noteq> None \<longrightarrow> ap = [] \<and> dk_files d = dk_files demo_disk"
    using replay_atomic [of "\<lambda>n. n = 2" demo_group demo_disk pad64 Undo False] demo_plain by (auto simp: one_failure_def)
  have "fst (replay_group pad64 (\<lambda>n. n = 2) Undo False demo_group demo_disk) = Inr ([], [], Some ''b: b'')"
    by (simp add: demo_group_def demo_disk_def replay_simps pad64_def os_error_def)
  then show ?thesis using r by auto
qed

theorem foreign_text_kept_witness:
  "dk_files (snd (replay_group pad64 (\<lambda>n. n = 1) Undo False demo_group (demo_disk\<lparr>dk_files := (dk_files demo_disk)(''a'' \<mapsto> Text ''theirs'')\<rparr>))) ''a'' = Some (Text ''theirs'')"
  by (rule foreign_text_kept)
     (auto simp: demo_group_def demo_disk_def change_def foreign_def expected_state_def pad64_def rename_source_def paths_touched_def no_dir_def)

end
