(* ===== verification/Change_History.thy ===== *)
theory Change_History
  imports Change_Undo Json_Values
begin

text \<open>
  The undo and redo stacks of a session and their database (\<^verbatim>\<open>FileChangeHistory\<close> in \<^verbatim>\<open>victor/core/change_tracker.py\<close>, tables of
  \<^verbatim>\<open>victor/core/undo_database.py\<close>). The rows of a table are in the order of their row numbers. A write to the database is one transaction
  and may raise: \<open>fault\<close> tells what the transaction of a number raises. The clock, the random identifiers and the current correlation id
  are arguments; the JSON library and the local formats of a time are a parameter.
\<close>

section \<open>Groups of changes\<close>

record ChangeGroup =
  cg_id :: string
  cg_changes :: "FileChange list"
  cg_timestamp :: time
  cg_description :: string
  cg_tool_name :: string
  cg_undone :: bool
  cg_session_id :: "string option"
  cg_message_id :: "string option"

record undo_codec =
  uc_dumps :: "pyval \<Rightarrow> string result"
  uc_loads :: "string \<Rightarrow> pyval result"
  uc_hms :: "time \<Rightarrow> string"
  uc_iso :: "time \<Rightarrow> string"

fun change_value :: "ChangeType \<Rightarrow> string" where
  "change_value CREATE = ''create''"
| "change_value MODIFY = ''modify''"
| "change_value DELETE = ''delete''"
| "change_value RENAME = ''rename''"

definition enum_error :: "string \<Rightarrow> py_exc" where
  "enum_error m = PyExc ''ValueError'' m"

definition change_type_of :: "string \<Rightarrow> ChangeType result" where
  "change_type_of s =
     (if s = ''create'' then Inr CREATE else if s = ''modify'' then Inr MODIFY
      else if s = ''delete'' then Inr DELETE else if s = ''rename'' then Inr RENAME
      else Inl (enum_error (repr_str s @ '' is not a valid ChangeType'')))"

definition opt_value :: "string option \<Rightarrow> pyval" where
  "opt_value x = (case x of None \<Rightarrow> VNone | Some s \<Rightarrow> VStr s)"

definition change_to_dict :: "FileChange \<Rightarrow> state" where
  "change_to_dict c =
     [(''id'', VStr (fc_id c)), (''change_type'', VStr (change_value (fc_change_type c))), (''file_path'', VStr (fc_file_path c)),
      (''timestamp'', VFloat (fc_timestamp c)), (''tool_name'', VStr (fc_tool_name c)), (''tool_args'', VDict (fc_tool_args c)),
      (''original_content'', opt_value (fc_original_content c)), (''new_content'', opt_value (fc_new_content c)),
      (''original_path'', opt_value (fc_original_path c)), (''checksum_before'', opt_value (fc_checksum_before c)),
      (''checksum_after'', opt_value (fc_checksum_after c)), (''session_id'', opt_value (fc_session_id c)),
      (''message_id'', opt_value (fc_message_id c))]"

definition group_to_dict :: "ChangeGroup \<Rightarrow> state" where
  "group_to_dict g =
     [(''id'', VStr (cg_id g)), (''changes'', VList (map (\<lambda>c. VDict (change_to_dict c)) (cg_changes g))), (''timestamp'', VFloat (cg_timestamp g)),
      (''description'', VStr (cg_description g)), (''tool_name'', VStr (cg_tool_name g)), (''undone'', VBool (cg_undone g)),
      (''session_id'', opt_value (cg_session_id g)), (''message_id'', opt_value (cg_message_id g))]"

text \<open>Reading a field: \<open>data[key]\<close> and \<open>data.get(key, default)\<close>. A value of a type that the field is not declared with has no place in the
  record and counts as one that cannot be read.\<close>

definition wrong_type :: "string \<Rightarrow> py_exc" where
  "wrong_type k = PyExc ''TypeError'' k"

definition as_text :: "string \<Rightarrow> pyval \<Rightarrow> string result" where
  "as_text k v = (case v of VStr s \<Rightarrow> Inr s | _ \<Rightarrow> Inl (wrong_type k))"

definition as_number :: "string \<Rightarrow> pyval \<Rightarrow> real result" where
  "as_number k v = (case v of VFloat r \<Rightarrow> Inr r | VInt n \<Rightarrow> Inr (of_int n) | _ \<Rightarrow> Inl (wrong_type k))"

definition as_opt :: "string \<Rightarrow> pyval \<Rightarrow> string option result" where
  "as_opt k v = (case v of VNone \<Rightarrow> Inr None | VStr s \<Rightarrow> Inr (Some s) | _ \<Rightarrow> Inl (wrong_type k))"

definition as_object :: "string \<Rightarrow> pyval \<Rightarrow> state result" where
  "as_object k v = (case v of VDict d \<Rightarrow> Inr d | _ \<Rightarrow> Inl (wrong_type k))"

definition as_flag :: "string \<Rightarrow> pyval \<Rightarrow> bool result" where
  "as_flag k v = (case v of VBool b \<Rightarrow> Inr b | _ \<Rightarrow> Inl (wrong_type k))"

definition as_array :: "string \<Rightarrow> pyval \<Rightarrow> pyval list result" where
  "as_array k v = (case v of VList xs \<Rightarrow> Inr xs | _ \<Rightarrow> Inl (wrong_type k))"

definition need :: "(string \<Rightarrow> pyval \<Rightarrow> 'a result) \<Rightarrow> state \<Rightarrow> string \<Rightarrow> 'a result" where
  "need conv d k = (case dict_get d k of None \<Rightarrow> Inl (KeyError k) | Some v \<Rightarrow> conv k v)"

definition may :: "(string \<Rightarrow> pyval \<Rightarrow> 'a result) \<Rightarrow> 'a \<Rightarrow> state \<Rightarrow> string \<Rightarrow> 'a result" where
  "may conv dflt d k = (case dict_get d k of None \<Rightarrow> Inr dflt | Some v \<Rightarrow> conv k v)"

definition change_from_dict :: "state \<Rightarrow> FileChange result" where
  "change_from_dict d =
     bind_result (need as_text d ''id'') (\<lambda>i.
     bind_result (bind_result (need as_text d ''change_type'') change_type_of) (\<lambda>ct.
     bind_result (need as_text d ''file_path'') (\<lambda>p.
     bind_result (need as_number d ''timestamp'') (\<lambda>t.
     bind_result (need as_text d ''tool_name'') (\<lambda>tool.
     bind_result (may as_object [] d ''tool_args'') (\<lambda>args.
     bind_result (may as_opt None d ''original_content'') (\<lambda>orig.
     bind_result (may as_opt None d ''new_content'') (\<lambda>new.
     bind_result (may as_opt None d ''original_path'') (\<lambda>src.
     bind_result (may as_opt None d ''checksum_before'') (\<lambda>before.
     bind_result (may as_opt None d ''checksum_after'') (\<lambda>after.
     bind_result (may as_opt None d ''session_id'') (\<lambda>session.
     bind_result (may as_opt None d ''message_id'') (\<lambda>message.
       Inr \<lparr>fc_id = i, fc_change_type = ct, fc_file_path = p, fc_timestamp = t, fc_tool_name = tool, fc_tool_args = args,
         fc_original_content = orig, fc_new_content = new, fc_original_path = src, fc_checksum_before = before, fc_checksum_after = after,
         fc_session_id = session, fc_message_id = message\<rparr>)))))))))))))"

primrec changes_from_list :: "pyval list \<Rightarrow> FileChange list result" where
  "changes_from_list [] = Inr []"
| "changes_from_list (v # vs) =
     bind_result (bind_result (as_object ''changes'' v) change_from_dict) (\<lambda>c. bind_result (changes_from_list vs) (\<lambda>cs. Inr (c # cs)))"

definition group_from_dict :: "time \<Rightarrow> state \<Rightarrow> ChangeGroup result" where
  "group_from_dict now d =
     bind_result (need as_text d ''id'') (\<lambda>i.
     bind_result (bind_result (may as_array [] d ''changes'') changes_from_list) (\<lambda>cs.
     bind_result (may as_number now d ''timestamp'') (\<lambda>t.
     bind_result (may as_text [] d ''description'') (\<lambda>descr.
     bind_result (may as_text [] d ''tool_name'') (\<lambda>tool.
     bind_result (may as_flag False d ''undone'') (\<lambda>undone.
     bind_result (may as_opt None d ''session_id'') (\<lambda>session.
     bind_result (may as_opt None d ''message_id'') (\<lambda>message.
       Inr \<lparr>cg_id = i, cg_changes = cs, cg_timestamp = t, cg_description = descr, cg_tool_name = tool, cg_undone = undone,
         cg_session_id = session, cg_message_id = message\<rparr>))))))))"

lemma change_dict_roundtrip: "change_from_dict (change_to_dict c) = Inr c"
  by (cases "fc_change_type c") (simp_all add: change_from_dict_def change_to_dict_def need_def may_def as_text_def as_number_def as_object_def as_opt_def
      opt_value_def change_type_of_def bind_result_def split: option.split)

lemma changes_list_roundtrip: "changes_from_list (map (\<lambda>c. VDict (change_to_dict c)) cs) = Inr cs"
  by (induction cs) (simp_all add: as_object_def change_dict_roundtrip bind_result_def)

lemma group_dict_roundtrip: "group_from_dict now (group_to_dict g) = Inr g"
  by (simp add: group_from_dict_def group_to_dict_def need_def may_def as_text_def as_number_def as_array_def as_opt_def as_flag_def
      opt_value_def changes_list_roundtrip bind_result_def split: option.split)

section \<open>The database\<close>

record group_row =
  gr_id :: string
  gr_session_id :: string
  gr_message_id :: "string option"
  gr_timestamp :: time
  gr_description :: string
  gr_tool_name :: string
  gr_undone :: int
  gr_data :: string

record change_row =
  cr_id :: string
  cr_group_id :: string
  cr_seq :: nat
  cr_change_type :: string
  cr_file_path :: string
  cr_timestamp :: time
  cr_tool_name :: string
  cr_original_content :: "string option"
  cr_new_content :: "string option"
  cr_original_path :: "string option"
  cr_checksum_before :: "string option"
  cr_checksum_after :: "string option"
  cr_session_id :: "string option"
  cr_message_id :: "string option"

record undo_db =
  ud_groups :: "group_row list"
  ud_changes :: "change_row list"
  ud_writes :: nat

type_synonym faults = "nat \<Rightarrow> py_exc option"

text \<open>One transaction: it is rolled back if anything in it raises.\<close>

definition transaction :: "faults \<Rightarrow> (undo_db \<Rightarrow> undo_db result) \<Rightarrow> undo_db \<Rightarrow> unit result \<times> undo_db" where
  "transaction fault f db =
     (let n = ud_writes db; db = db\<lparr>ud_writes := Suc n\<rparr>
      in case fault n of
          Some e \<Rightarrow> (Inl e, db)
        | None \<Rightarrow> (case f db of Inl e \<Rightarrow> (Inl e, db) | Inr db' \<Rightarrow> (Inr (), db')))"

definition upsert_group :: "group_row \<Rightarrow> group_row list \<Rightarrow> group_row list" where
  "upsert_group row rows =
     (if gr_id row \<in> gr_id ` set rows then map (\<lambda>r. if gr_id r = gr_id row then row else r) rows else rows @ [row])"

definition change_row_of :: "string \<Rightarrow> nat \<times> FileChange \<Rightarrow> change_row" where
  "change_row_of gid x =
     (case x of (seq, c) \<Rightarrow>
        \<lparr>cr_id = fc_id c, cr_group_id = gid, cr_seq = seq, cr_change_type = change_value (fc_change_type c), cr_file_path = fc_file_path c,
         cr_timestamp = fc_timestamp c, cr_tool_name = fc_tool_name c, cr_original_content = fc_original_content c, cr_new_content = fc_new_content c,
         cr_original_path = fc_original_path c, cr_checksum_before = fc_checksum_before c, cr_checksum_after = fc_checksum_after c,
         cr_session_id = fc_session_id c, cr_message_id = fc_message_id c\<rparr>)"

definition insert_change :: "change_row \<Rightarrow> change_row list \<Rightarrow> change_row list result" where
  "insert_change row rows =
     (if cr_id row \<in> cr_id ` set rows then Inl (PyExc ''IntegrityError'' ''UNIQUE constraint failed: file_changes.id'') else Inr (rows @ [row]))"

definition group_row_of :: "string \<Rightarrow> string \<Rightarrow> ChangeGroup \<Rightarrow> group_row" where
  "group_row_of session text g =
     \<lparr>gr_id = cg_id g, gr_session_id = session, gr_message_id = cg_message_id g, gr_timestamp = cg_timestamp g, gr_description = cg_description g,
      gr_tool_name = cg_tool_name g, gr_undone = (if cg_undone g then 1 else 0), gr_data = text\<rparr>"

definition write_group :: "string \<Rightarrow> string \<Rightarrow> ChangeGroup \<Rightarrow> undo_db \<Rightarrow> undo_db result" where
  "write_group session text g db =
     (let groups = upsert_group (group_row_of session text g) (ud_groups db);
          others = filter (\<lambda>r. cr_group_id r \<noteq> cg_id g) (ud_changes db)
      in bind_result (fold_result insert_change (map (change_row_of (cg_id g)) (List.enumerate 0 (cg_changes g))) others) (\<lambda>changes.
           Inr (db\<lparr>ud_groups := groups, ud_changes := changes\<rparr>)))"

definition save_group_once :: "undo_codec \<Rightarrow> faults \<Rightarrow> string \<Rightarrow> ChangeGroup \<Rightarrow> undo_db \<Rightarrow> unit result \<times> undo_db" where
  "save_group_once codec fault session g db =
     (case uc_dumps codec (VDict (group_to_dict g)) of
        Inl e \<Rightarrow> (Inl e, db)
      | Inr text \<Rightarrow> transaction fault (write_group session text g) db)"

definition locked_error :: "py_exc \<Rightarrow> bool" where
  "locked_error e \<longleftrightarrow> exc_type e = ''OperationalError'' \<and> py_contains ''locked'' (py_lower (exc_msg e))"

text \<open>\<^verbatim>\<open>_SAVE_LOCK_RETRIES\<close>; the number counts the retries that are left.\<close>

definition SAVE_LOCK_RETRIES :: nat where
  "SAVE_LOCK_RETRIES = 2"

fun save_loop :: "undo_codec \<Rightarrow> faults \<Rightarrow> string \<Rightarrow> ChangeGroup \<Rightarrow> nat \<Rightarrow> undo_db \<Rightarrow> unit result \<times> undo_db" where
  "save_loop codec fault session g left db =
     (case save_group_once codec fault session g db of
        (Inr _, db) \<Rightarrow> (Inr (), db)
      | (Inl e, db) \<Rightarrow> if \<not> locked_error e \<or> left = 0 then (Inl e, db) else save_loop codec fault session g (left - 1) db)"

declare save_loop.simps [simp del]

definition save_group :: "undo_codec \<Rightarrow> faults \<Rightarrow> string \<Rightarrow> ChangeGroup \<Rightarrow> undo_db \<Rightarrow> unit result \<times> undo_db" where
  "save_group codec fault session g db = save_loop codec fault session g SAVE_LOCK_RETRIES db"

definition delete_group :: "faults \<Rightarrow> string \<Rightarrow> undo_db \<Rightarrow> unit result \<times> undo_db" where
  "delete_group fault i db =
     transaction fault (\<lambda>db. Inr (db\<lparr>ud_changes := filter (\<lambda>r. cr_group_id r \<noteq> i) (ud_changes db),
       ud_groups := filter (\<lambda>r. gr_id r \<noteq> i) (ud_groups db)\<rparr>)) db"

text \<open>\<^verbatim>\<open>_trim_history\<close>; the oldest group leaves the stack once its rows are deleted.\<close>

fun trim_history :: "faults \<Rightarrow> int \<Rightarrow> ChangeGroup list \<Rightarrow> undo_db \<Rightarrow> unit result \<times> ChangeGroup list \<times> undo_db" where
  "trim_history fault max_history [] db =
     (if 0 > max_history then (Inl (PyExc ''IndexError'' ''list index out of range''), [], db) else (Inr (), [], db))"
| "trim_history fault max_history (g # gs) db =
     (if int (length (g # gs)) > max_history
      then (case delete_group fault (cg_id g) db of
              (Inl e, db) \<Rightarrow> (Inl e, g # gs, db)
            | (Inr _, db) \<Rightarrow> trim_history fault max_history gs db)
      else (Inr (), g # gs, db))"

section \<open>The tracker\<close>

record FileChangeHistory =
  fh_max_history :: int
  fh_session_id :: string
  fh_undo_stack :: "ChangeGroup list"
  fh_redo_stack :: "ChangeGroup list"
  fh_current_group :: "ChangeGroup option"

text \<open>\<^verbatim>\<open>LIMIT\<close>: a negative number is none.\<close>

definition sql_limit :: "int \<Rightarrow> 'a list \<Rightarrow> 'a list" where
  "sql_limit n xs = (if n < 0 then xs else take (nat n) xs)"

definition decode_group :: "undo_codec \<Rightarrow> time \<Rightarrow> group_row \<Rightarrow> ChangeGroup result" where
  "decode_group codec now r = bind_result (bind_result (uc_loads codec (gr_data r)) (as_object ''data'')) (group_from_dict now)"

text \<open>Newest first, then turned round; a row that cannot be read is left out.\<close>

definition load_recent_history :: "undo_codec \<Rightarrow> time \<Rightarrow> string \<Rightarrow> int \<Rightarrow> undo_db \<Rightarrow> ChangeGroup list" where
  "load_recent_history codec now session max_history db =
     (let rows = filter (\<lambda>r. gr_session_id r = session \<and> gr_undone r = 0) (ud_groups db);
          recent = sql_limit max_history (sorted_desc gr_timestamp (rev rows))
      in List.map_filter (\<lambda>r. case decode_group codec now r of Inr g \<Rightarrow> Some g | Inl _ \<Rightarrow> None) (rev recent))"

definition fh_init :: "undo_codec \<Rightarrow> time \<Rightarrow> string \<Rightarrow> int \<Rightarrow> string option \<Rightarrow> undo_db \<Rightarrow> FileChangeHistory" where
  "fh_init codec now uuid max_history session db =
     (let s = (case session of Some (c # cs) \<Rightarrow> c # cs | _ \<Rightarrow> ''session_'' @ uuid)
      in \<lparr>fh_max_history = max_history, fh_session_id = s, fh_undo_stack = load_recent_history codec now s max_history db,
          fh_redo_stack = [], fh_current_group = None\<rparr>)"

text \<open>The identifiers and times that a call draws, and the correlation id of the turn.\<close>

record call_env =
  ce_group_uuid :: string
  ce_group_time :: time
  ce_change_uuid :: string
  ce_change_time :: time
  ce_correlation :: "string option"

definition begin_change_group :: "call_env \<Rightarrow> string \<Rightarrow> string \<Rightarrow> string option \<Rightarrow> FileChangeHistory \<Rightarrow> string \<times> FileChangeHistory" where
  "begin_change_group env tool descr message h =
     (let i = ''grp_'' @ ce_group_uuid env @ ''_'' @ tool
      in (i, h\<lparr>fh_current_group := Some
           \<lparr>cg_id = i, cg_changes = [], cg_timestamp = ce_group_time env, cg_description = descr, cg_tool_name = tool, cg_undone = False,
            cg_session_id = Some (fh_session_id h), cg_message_id = (case message of None \<Rightarrow> ce_correlation env | Some m \<Rightarrow> Some m)\<rparr>\<rparr>))"

definition sqlite_error :: "py_exc \<Rightarrow> bool" where
  "sqlite_error e \<longleftrightarrow> exc_type e \<in> {''Error'', ''DatabaseError'', ''OperationalError'', ''IntegrityError'', ''InternalError'',
     ''ProgrammingError'', ''NotSupportedError'', ''DataError'', ''InterfaceError''}"

definition commit_change_group ::
  "undo_codec \<Rightarrow> faults \<Rightarrow> FileChangeHistory \<Rightarrow> undo_db \<Rightarrow> ChangeGroup option result \<times> FileChangeHistory \<times> undo_db" where
  "commit_change_group codec fault h db =
     (case fh_current_group h of
        None \<Rightarrow> (Inr None, h, db)
      | Some g \<Rightarrow>
          if cg_changes g = [] then (Inr None, h\<lparr>fh_current_group := None\<rparr>, db)
          else case save_group codec fault (fh_session_id h) g db of
              (Inl e, db) \<Rightarrow> (Inl e, h, db)
            | (Inr _, db) \<Rightarrow>
                (case trim_history fault (fh_max_history h) (fh_undo_stack h @ [g]) db of
                   (q, stack, db) \<Rightarrow>
                     let h = h\<lparr>fh_current_group := None, fh_undo_stack := stack, fh_redo_stack := []\<rparr>
                     in case q of
                         Inr _ \<Rightarrow> (Inr (Some g), h, db)
                       | Inl e \<Rightarrow> if sqlite_error e then (Inr (Some g), h, db) else (Inl e, h, db)))"

text \<open>The arguments of \<^verbatim>\<open>record_change\<close>.\<close>

record change_args =
  ca_file_path :: string
  ca_change_type :: ChangeType
  ca_original_content :: "string option"
  ca_new_content :: "string option"
  ca_tool_name :: string
  ca_tool_args :: "state option"
  ca_original_path :: "string option"
  ca_message_id :: "string option"

definition new_change :: "(string \<Rightarrow> string) \<Rightarrow> call_env \<Rightarrow> change_args \<Rightarrow> FileChangeHistory \<Rightarrow> FileChange" where
  "new_change digest env a h =
     \<lparr>fc_id = ''chg_'' @ ce_change_uuid env @ ''_'' @ base_name (ca_file_path a), fc_change_type = ca_change_type a, fc_file_path = ca_file_path a,
      fc_timestamp = ce_change_time env,
      fc_tool_name = (if ca_tool_name a \<noteq> [] then ca_tool_name a else case fh_current_group h of Some g \<Rightarrow> cg_tool_name g | None \<Rightarrow> []),
      fc_tool_args = (case ca_tool_args a of Some args \<Rightarrow> args | None \<Rightarrow> []),
      fc_original_content = ca_original_content a, fc_new_content = ca_new_content a, fc_original_path = ca_original_path a,
      fc_checksum_before = map_option digest (ca_original_content a), fc_checksum_after = map_option digest (ca_new_content a),
      fc_session_id = Some (fh_session_id h),
      fc_message_id = (case ca_message_id a of Some m \<Rightarrow> Some m | None \<Rightarrow> Option.bind (fh_current_group h) cg_message_id)\<rparr>"

definition add_change :: "FileChange \<Rightarrow> FileChangeHistory \<Rightarrow> FileChangeHistory" where
  "add_change c h = h\<lparr>fh_current_group := map_option (\<lambda>g. g\<lparr>cg_changes := cg_changes g @ [c]\<rparr>) (fh_current_group h)\<rparr>"

definition record_change ::
  "(string \<Rightarrow> string) \<Rightarrow> undo_codec \<Rightarrow> faults \<Rightarrow> call_env \<Rightarrow> change_args \<Rightarrow> FileChangeHistory \<Rightarrow> undo_db \<Rightarrow>
     FileChange result \<times> FileChangeHistory \<times> undo_db" where
  "record_change digest codec fault env a h db =
     (let c = new_change digest env a h
      in case fh_current_group h of
          Some _ \<Rightarrow> (Inr c, add_change c h, db)
        | None \<Rightarrow>
            (let tool = (if ca_tool_name a \<noteq> [] then ca_tool_name a else ''unknown'');
                 h = snd (begin_change_group env tool (''Changed '' @ ca_file_path a) None h)
             in case commit_change_group codec fault (add_change c h) db of
                 (Inl e, h, db) \<Rightarrow> (Inl e, h, db)
               | (Inr _, h, db) \<Rightarrow> (Inr c, h, db)))"

section \<open>Undo and redo\<close>

definition can_undo :: "FileChangeHistory \<Rightarrow> bool" where
  "can_undo h \<longleftrightarrow> length (fh_undo_stack h) > 0"

definition can_redo :: "FileChangeHistory \<Rightarrow> bool" where
  "can_redo h \<longleftrightarrow> length (fh_redo_stack h) > 0"

definition plural :: "string list \<Rightarrow> string" where
  "plural xs = (if length xs \<noteq> 1 then ''s'' else [])"

definition skipped_note :: "string list \<Rightarrow> string" where
  "skipped_note skipped = (if skipped \<noteq> [] then ''; skipped '' @ show_nat (length skipped) @ '' changed externally'' else [])"

definition skip_message :: "string \<Rightarrow> string list \<Rightarrow> string" where
  "skip_message done skipped =
     ''Skipped '' @ show_nat (length skipped) @ '' file(s) changed by another session since; nothing '' @ done @ ''. Re-run with force to override.''"

type_synonym replay_answer = "(bool \<times> string \<times> string list) result"

text \<open>The group moves to the other stack before it is saved; an exception of the saving is raised after the move.\<close>

definition undo ::
  "(string \<Rightarrow> string) \<Rightarrow> undo_codec \<Rightarrow> failures \<Rightarrow> faults \<Rightarrow> bool \<Rightarrow> FileChangeHistory \<Rightarrow> undo_db \<Rightarrow> disk \<Rightarrow>
     replay_answer \<times> FileChangeHistory \<times> undo_db \<times> disk" where
  "undo digest codec fails fault force h db d =
     (if fh_undo_stack h = [] then (Inr (False, ''Nothing to undo'', []), h, db, d)
      else let g = last (fh_undo_stack h)
           in case replay_group digest fails Undo force (cg_changes g) d of
               (Inl e, d) \<Rightarrow> (Inl e, h, db, d)
             | (Inr (applied, skipped, error), d) \<Rightarrow>
                 (case error of
                    Some m \<Rightarrow> (Inr (False, ''Undo failed: '' @ m @ '' (changes rolled back)'', []), h, db, d)
                  | None \<Rightarrow>
                      if applied = [] \<and> skipped \<noteq> [] then (Inr (False, skip_message ''undone'' skipped, []), h, db, d)
                      else let g = g\<lparr>cg_undone := True\<rparr>;
                               h = h\<lparr>fh_undo_stack := butlast (fh_undo_stack h), fh_redo_stack := fh_redo_stack h @ [g]\<rparr>
                           in case save_group codec fault (fh_session_id h) g db of
                               (Inl e, db) \<Rightarrow> (Inl e, h, db, d)
                             | (Inr _, db) \<Rightarrow>
                                 (Inr (True, ''Undid '' @ quoted (cg_tool_name g) @ '' ('' @ show_nat (length applied) @ '' file'' @ plural applied @ '') from ''
                                    @ uc_hms codec (cg_timestamp g) @ skipped_note skipped, applied), h, db, d)))"

definition redo ::
  "(string \<Rightarrow> string) \<Rightarrow> undo_codec \<Rightarrow> failures \<Rightarrow> faults \<Rightarrow> bool \<Rightarrow> FileChangeHistory \<Rightarrow> undo_db \<Rightarrow> disk \<Rightarrow>
     replay_answer \<times> FileChangeHistory \<times> undo_db \<times> disk" where
  "redo digest codec fails fault force h db d =
     (if fh_redo_stack h = [] then (Inr (False, ''Nothing to redo'', []), h, db, d)
      else let g = last (fh_redo_stack h)
           in case replay_group digest fails Redo force (cg_changes g) d of
               (Inl e, d) \<Rightarrow> (Inl e, h, db, d)
             | (Inr (applied, skipped, error), d) \<Rightarrow>
                 (case error of
                    Some m \<Rightarrow> (Inr (False, ''Redo failed: '' @ m @ '' (changes rolled back)'', []), h, db, d)
                  | None \<Rightarrow>
                      if applied = [] \<and> skipped \<noteq> [] then (Inr (False, skip_message ''redone'' skipped, []), h, db, d)
                      else let g = g\<lparr>cg_undone := False\<rparr>;
                               h = h\<lparr>fh_redo_stack := butlast (fh_redo_stack h), fh_undo_stack := fh_undo_stack h @ [g]\<rparr>
                           in case save_group codec fault (fh_session_id h) g db of
                               (Inl e, db) \<Rightarrow> (Inl e, h, db, d)
                             | (Inr _, db) \<Rightarrow>
                                 (Inr (True, ''Redid '' @ quoted (cg_tool_name g) @ '' ('' @ show_nat (length applied) @ '' file'' @ plural applied @ '')''
                                    @ skipped_note skipped, applied), h, db, d)))"

section \<open>Reading and clearing the history\<close>

record history_entry =
  he_id :: string
  he_timestamp :: string
  he_tool_name :: string
  he_description :: string
  he_file_count :: nat
  he_files :: "string list"
  he_undone :: bool

text \<open>\<open>xs[-limit:]\<close>.\<close>

definition slice_back :: "int \<Rightarrow> 'a list \<Rightarrow> 'a list" where
  "slice_back limit xs = drop (nat (if limit > 0 then int (length xs) - limit else - limit)) xs"

definition get_history :: "undo_codec \<Rightarrow> int \<Rightarrow> FileChangeHistory \<Rightarrow> history_entry list" where
  "get_history codec limit h =
     map (\<lambda>g. \<lparr>he_id = cg_id g, he_timestamp = uc_iso codec (cg_timestamp g), he_tool_name = cg_tool_name g, he_description = cg_description g,
         he_file_count = length (cg_changes g), he_files = map fc_file_path (take 5 (cg_changes g)), he_undone = cg_undone g\<rparr>)
       (rev (slice_back limit (fh_undo_stack h)))"

definition change_of_row :: "change_row \<Rightarrow> FileChange result" where
  "change_of_row r =
     bind_result (change_type_of (cr_change_type r)) (\<lambda>ct.
       Inr \<lparr>fc_id = cr_id r, fc_change_type = ct, fc_file_path = cr_file_path r, fc_timestamp = cr_timestamp r, fc_tool_name = cr_tool_name r,
         fc_tool_args = [], fc_original_content = cr_original_content r, fc_new_content = cr_new_content r, fc_original_path = cr_original_path r,
         fc_checksum_before = cr_checksum_before r, fc_checksum_after = cr_checksum_after r, fc_session_id = None, fc_message_id = None\<rparr>)"

definition get_file_history :: "string \<Rightarrow> int \<Rightarrow> undo_db \<Rightarrow> FileChange list result" where
  "get_file_history p limit db =
     fold_result (\<lambda>r cs. bind_result (change_of_row r) (\<lambda>c. Inr (cs @ [c])))
       (sql_limit limit (sorted_desc cr_timestamp (filter (\<lambda>r. cr_file_path r = p) (ud_changes db)))) []"

text \<open>
  The stacks are emptied whether or not the database can be written. Either statement and the
  commit may raise, and nothing rolls back then: the transaction stays open on the connection. The
  results are the tables as the database has them and as the connection sees them.
\<close>

definition clear_history ::
  "faults \<Rightarrow> FileChangeHistory \<Rightarrow> undo_db \<Rightarrow> nat result \<times> FileChangeHistory \<times> undo_db \<times> undo_db" where
  "clear_history fault h db =
     (let count = length (fh_undo_stack h) + length (fh_redo_stack h);
          h = h\<lparr>fh_undo_stack := [], fh_redo_stack := []\<rparr>;
          n = ud_writes db; db = db\<lparr>ud_writes := n + 3\<rparr>;
          no_changes = db\<lparr>ud_changes := []\<rparr>; cleared = no_changes\<lparr>ud_groups := []\<rparr>
      in case fault n of
          Some e \<Rightarrow> (Inl e, h, db, db)
        | None \<Rightarrow> (case fault (n + 1) of
            Some e \<Rightarrow> (Inl e, h, db, no_changes)
          | None \<Rightarrow> (case fault (n + 2) of
              Some e \<Rightarrow> (Inl e, h, db, cleared)
            | None \<Rightarrow> (Inr count, h, cleared, cleared))))"

end
