(* ===== verification/Change_Properties.thy ===== *)
theory Change_Properties
  imports Change_History
begin

text \<open>
  What the tracker of file changes promises over time: its database holds the undo stack of the session at every moment, a group is saved as a
  whole or not at all, and an undo followed by a redo is the identity on the tracker and on the disk.
\<close>

section \<open>What JSON gives back\<close>

text \<open>The values that the JSON library gives back unchanged: its integers have 64 bits.\<close>

fun orjson_value :: "pyval \<Rightarrow> bool" where
  "orjson_value (VObj n) = False"
| "orjson_value (VFloat r) = double r"
| "orjson_value (VInt n) = (- (2 ^ 63) \<le> n \<and> n < 2 ^ 64)"
| "orjson_value (VList xs) = list_all orjson_value xs"
| "orjson_value (VDict d) = (dict_ok d \<and> list_all (\<lambda>p. orjson_value (snd p)) d)"
| "orjson_value _ = True"

lemma orjson_json: "orjson_value v \<Longrightarrow> json_value v"
  by (induction v) (auto simp: list_all_iff snds.simps)

definition undo_codec_ok :: "undo_codec \<Rightarrow> bool" where
  "undo_codec_ok codec \<longleftrightarrow> (\<forall>v. orjson_value v \<longrightarrow> (\<exists>t. uc_dumps codec v = Inr t \<and> uc_loads codec t = Inr v))"

definition change_fits :: "FileChange \<Rightarrow> bool" where
  "change_fits c \<longleftrightarrow> double (fc_timestamp c) \<and> orjson_value (VDict (fc_tool_args c))"

definition group_fits :: "ChangeGroup \<Rightarrow> bool" where
  "group_fits g \<longleftrightarrow> double (cg_timestamp g) \<and> (\<forall>c \<in> set (cg_changes g). change_fits c)"

lemma orjson_opt: "orjson_value (opt_value x)"
  by (simp add: opt_value_def split: option.split)

lemma change_fits_orjson: "change_fits c \<Longrightarrow> orjson_value (VDict (change_to_dict c))"
  by (simp add: change_fits_def change_to_dict_def dict_ok_def orjson_opt)

lemma group_fits_orjson:
  assumes "group_fits g"
  shows "orjson_value (VDict (group_to_dict g))"
proof -
  have "\<forall>c \<in> set (cg_changes g). orjson_value (VDict (change_to_dict c))" using assms change_fits_orjson by (auto simp only: group_fits_def)
  then show ?thesis using assms by (simp add: group_fits_def group_to_dict_def dict_ok_def orjson_opt list_all_iff)
qed

definition group_text :: "undo_codec \<Rightarrow> ChangeGroup \<Rightarrow> string" where
  "group_text codec g = (case uc_dumps codec (VDict (group_to_dict g)) of Inr t \<Rightarrow> t | Inl _ \<Rightarrow> [])"

lemma group_text_ok:
  assumes "undo_codec_ok codec" "group_fits g"
  shows "uc_dumps codec (VDict (group_to_dict g)) = Inr (group_text codec g)" "uc_loads codec (group_text codec g) = Inr (VDict (group_to_dict g))"
proof -
  obtain t where "uc_dumps codec (VDict (group_to_dict g)) = Inr t" "uc_loads codec t = Inr (VDict (group_to_dict g))"
    using assms(1) group_fits_orjson [OF assms(2)] unfolding undo_codec_ok_def by blast
  then show "uc_dumps codec (VDict (group_to_dict g)) = Inr (group_text codec g)" "uc_loads codec (group_text codec g) = Inr (VDict (group_to_dict g))"
    by (simp_all add: group_text_def)
qed

abbreviation group_stored :: "undo_codec \<Rightarrow> string \<Rightarrow> ChangeGroup \<Rightarrow> group_row" where
  "group_stored codec s g \<equiv> group_row_of s (group_text codec g) g"

lemma decode_stored: "undo_codec_ok codec \<Longrightarrow> group_fits g \<Longrightarrow> decode_group codec now (group_stored codec s g) = Inr g"
  by (simp add: decode_group_def group_row_of_def group_text_ok as_object_def group_dict_roundtrip)

lemma stored_simps [simp]:
  "gr_id (group_row_of s t g) = cg_id g" "gr_session_id (group_row_of s t g) = s" "gr_timestamp (group_row_of s t g) = cg_timestamp g"
  "gr_undone (group_row_of s t g) = 0 \<longleftrightarrow> \<not> cg_undone g"
  by (simp_all add: group_row_of_def)

section \<open>Saving\<close>

definition same_tables :: "undo_db \<Rightarrow> undo_db \<Rightarrow> bool" where
  "same_tables db db' \<longleftrightarrow> ud_groups db' = ud_groups db \<and> ud_changes db' = ud_changes db"

lemma transaction_effect:
  "transaction fault f db = (q, db') \<Longrightarrow>
     (case q of Inl e \<Rightarrow> same_tables db db'
      | Inr _ \<Rightarrow> f (db\<lparr>ud_writes := Suc (ud_writes db)\<rparr>) = Inr db' \<and> fault (ud_writes db) = None)"
  by (auto simp: transaction_def same_tables_def Let_def split: option.splits sum.splits)

lemma write_group_groups: "write_group s t g db = Inr db' \<Longrightarrow> ud_groups db' = upsert_group (group_row_of s t g) (ud_groups db)"
  by (auto simp: write_group_def Let_def bind_result_eq_Inr)

text \<open>A save that raises changes neither table; one that returns has written the group.\<close>

definition saves :: "undo_codec \<Rightarrow> string \<Rightarrow> ChangeGroup \<Rightarrow> undo_db \<Rightarrow> unit result \<times> undo_db \<Rightarrow> bool" where
  "saves codec s g db r \<longleftrightarrow>
     (case fst r of
        Inl e \<Rightarrow> same_tables db (snd r)
      | Inr _ \<Rightarrow> \<exists>n. write_group s (group_text codec g) g (db\<lparr>ud_writes := n\<rparr>) = Inr (snd r))"

lemma save_once_effect:
  assumes "undo_codec_ok codec" "group_fits g"
  shows "saves codec s g db (save_group_once codec fault s g db)"
  using group_text_ok(1) [OF assms] transaction_effect [of fault "write_group s (group_text codec g) g" db]
  by (cases "save_group_once codec fault s g db") (auto simp: saves_def save_group_once_def split: sum.splits)

lemma same_tables_trans: "same_tables a b \<Longrightarrow> same_tables b c \<Longrightarrow> same_tables a c"
  by (simp add: same_tables_def)

lemma same_tables_writes: "same_tables db db1 \<Longrightarrow> db1\<lparr>ud_writes := n\<rparr> = db\<lparr>ud_writes := n\<rparr>"
  by (cases db; cases db1) (simp add: same_tables_def)

lemma saves_same: "same_tables db db1 \<Longrightarrow> saves codec s g db1 r \<Longrightarrow> saves codec s g db r"
  using same_tables_trans [of db db1 "snd r"] by (auto simp: saves_def same_tables_writes split: sum.splits)

lemma save_loop_effect:
  assumes "undo_codec_ok codec" "group_fits g"
  shows "saves codec s g db (save_loop codec fault s g left db)"
proof (induction left arbitrary: db)
  case 0
  show ?case using save_once_effect [OF assms, of s db fault] by (subst save_loop.simps) (auto simp: saves_def split: prod.splits sum.splits)
next
  case (Suc left)
  obtain q db1 where r: "save_group_once codec fault s g db = (q, db1)" by (rule prod.exhaust)
  have S: "saves codec s g db (q, db1)" using save_once_effect [OF assms, of s db fault] by (simp add: r)
  show ?case
  proof (cases q)
    case (Inl e)
    then have "same_tables db db1" using S by (simp add: saves_def)
    then show ?thesis using S Inl saves_same [OF _ Suc.IH] by (subst save_loop.simps) (simp add: r)
  next
    case (Inr u)
    then show ?thesis using S by (subst save_loop.simps) (simp add: r)
  qed
qed

lemmas save_effect = save_loop_effect [where left = SAVE_LOCK_RETRIES, folded save_group_def]

lemma saves_groups:
  assumes "saves codec s g db (Inr u, db')"
  shows "ud_groups db' = upsert_group (group_stored codec s g) (ud_groups db)"
  using assms write_group_groups by (fastforce simp: saves_def)

section \<open>The database holds the undo stack\<close>

text \<open>The rows of the session that are not undone, or that can be redone.\<close>

definition live_rows :: "string \<Rightarrow> ChangeGroup list \<Rightarrow> group_row list \<Rightarrow> group_row list" where
  "live_rows s gs rows = filter (\<lambda>r. gr_session_id r = s \<and> (gr_undone r = 0 \<or> gr_id r \<in> cg_id ` set gs)) rows"

abbreviation live :: "FileChangeHistory \<Rightarrow> ChangeGroup list" where
  "live h \<equiv> fh_undo_stack h @ rev (fh_redo_stack h)"

definition stacks_stored :: "undo_codec \<Rightarrow> FileChangeHistory \<Rightarrow> undo_db \<Rightarrow> bool" where
  "stacks_stored codec h db \<longleftrightarrow>
     distinct (map gr_id (ud_groups db)) \<and>
     live_rows (fh_session_id h) (fh_redo_stack h) (ud_groups db) = map (group_stored codec (fh_session_id h)) (live h) \<and>
     (\<forall>g \<in> set (fh_undo_stack h). \<not> cg_undone g) \<and> (\<forall>g \<in> set (fh_redo_stack h). cg_undone g) \<and>
     sorted (map cg_timestamp (live h)) \<and> (\<forall>g \<in> set (live h). group_fits g)"

text \<open>A group that may come next: it is new, and no older than the others.\<close>

definition may_follow :: "ChangeGroup \<Rightarrow> FileChangeHistory \<Rightarrow> undo_db \<Rightarrow> bool" where
  "may_follow g h db \<longleftrightarrow> cg_id g \<notin> gr_id ` set (ud_groups db) \<and> (\<forall>x \<in> set (live h). cg_timestamp x \<le> cg_timestamp g) \<and> group_fits g \<and> \<not> cg_undone g"

definition tracker_ok :: "undo_codec \<Rightarrow> FileChangeHistory \<Rightarrow> undo_db \<Rightarrow> bool" where
  "tracker_ok codec h db \<longleftrightarrow> stacks_stored codec h db \<and> (\<forall>g. fh_current_group h = Some g \<longrightarrow> may_follow g h db)"

lemma undo_rows:
  assumes "stacks_stored codec h db"
  shows "filter (\<lambda>r. gr_session_id r = fh_session_id h \<and> gr_undone r = 0) (ud_groups db) = map (group_stored codec (fh_session_id h)) (fh_undo_stack h)"
proof -
  let ?s = "fh_session_id h"
  have "filter (\<lambda>r. gr_session_id r = ?s \<and> gr_undone r = 0) (ud_groups db) =
      filter (\<lambda>r. gr_undone r = 0) (live_rows ?s (fh_redo_stack h) (ud_groups db))"
    unfolding live_rows_def filter_filter by (rule filter_cong) auto
  also have "\<dots> = map (group_stored codec ?s) (filter (\<lambda>g. \<not> cg_undone g) (live h))"
    using assms by (simp add: stacks_stored_def filter_map comp_def)
  also have "filter (\<lambda>g. \<not> cg_undone g) (live h) = fh_undo_stack h"
    using assms by (auto simp: stacks_stored_def filter_id_conv filter_empty_conv)
  finally show ?thesis .
qed

lemma sort_key_sorted: "sorted (map f xs) \<Longrightarrow> sort_key f xs = xs"
  by (induction xs) (auto simp: insort_is_Cons)

text \<open>What is loaded: the latest groups of the undo stack, as many as are kept.\<close>

lemma load_stored:
  assumes "undo_codec_ok codec" "stacks_stored codec h db"
  shows "load_recent_history codec now (fh_session_id h) m db = rev (sql_limit m (rev (fh_undo_stack h)))"
proof -
  let ?st = "group_stored codec (fh_session_id h)" and ?u = "fh_undo_stack h"
  have "sorted (map gr_timestamp (map ?st ?u))" using assms(2) by (simp add: stacks_stored_def sorted_append comp_def)
  then have rows: "sorted_desc gr_timestamp (rev (filter (\<lambda>r. gr_session_id r = fh_session_id h \<and> gr_undone r = 0) (ud_groups db))) = map ?st (rev ?u)"
    unfolding undo_rows [OF assms(2)] sorted_desc_def rev_rev_ident by (simp only: sort_key_sorted rev_map)
  have dec: "List.map_filter (\<lambda>r. case decode_group codec now r of Inr g \<Rightarrow> Some g | Inl _ \<Rightarrow> None) (map ?st gs) = gs" if "set gs \<subseteq> set ?u" for gs
    using that assms(2) decode_stored [OF assms(1)] by (induction gs) (auto simp: stacks_stored_def List.map_filter_def)
  have lim: "sql_limit m (map ?st (rev ?u)) = map ?st (sql_limit m (rev ?u))" by (simp add: sql_limit_def take_map)
  have "set (rev (sql_limit m (rev ?u))) \<subseteq> set ?u" by (auto simp: sql_limit_def dest: in_set_takeD)
  then show ?thesis unfolding load_recent_history_def Let_def rows lim rev_map by (rule dec)
qed

section \<open>Every operation keeps it so\<close>

lemma upsert_new: "gr_id row \<notin> gr_id ` set rows \<Longrightarrow> upsert_group row rows = rows @ [row]"
  by (simp add: upsert_group_def)

lemma stored_distinct:
  assumes "stacks_stored codec h db"
  shows "distinct (map cg_id (live h))"
proof -
  have rows: "live_rows (fh_session_id h) (fh_redo_stack h) (ud_groups db) = map (group_stored codec (fh_session_id h)) (live h)"
    and "distinct (map gr_id (ud_groups db))"
    using assms by (simp_all add: stacks_stored_def)
  then have "distinct (map gr_id (live_rows (fh_session_id h) (fh_redo_stack h) (ud_groups db)))"
    unfolding live_rows_def by (intro distinct_map_filter)
  then show ?thesis unfolding rows by (simp add: comp_def)
qed

lemma commit_stored:
  assumes "stacks_stored codec h db" "may_follow g h db" "ud_groups db' = upsert_group (group_stored codec (fh_session_id h) g) (ud_groups db)"
  shows "stacks_stored codec (h\<lparr>fh_current_group := None, fh_redo_stack := [], fh_undo_stack := fh_undo_stack h @ [g]\<rparr>) db'"
proof -
  have rows: "ud_groups db' = ud_groups db @ [group_stored codec (fh_session_id h) g]" using assms(2,3) by (simp add: may_follow_def upsert_new)
  have "live_rows (fh_session_id h) [] (ud_groups db') = map (group_stored codec (fh_session_id h)) (fh_undo_stack h @ [g])"
    using undo_rows [OF assms(1)] assms(2) by (simp add: live_rows_def rows may_follow_def)
  then show ?thesis using assms(1,2) by (auto simp: stacks_stored_def rows may_follow_def sorted_append)
qed

lemma delete_stored:
  assumes "stacks_stored codec h db" "fh_undo_stack h = g # gs" "fh_redo_stack h = []" "ud_groups db' = filter (\<lambda>r. gr_id r \<noteq> cg_id g) (ud_groups db)"
  shows "stacks_stored codec (h\<lparr>fh_undo_stack := gs\<rparr>) db'"
proof -
  have n: "\<forall>x \<in> set gs. cg_id x \<noteq> cg_id g" using stored_distinct [OF assms(1)] unfolding assms(2,3) by (auto simp: image_iff)
  have "live_rows (fh_session_id h) [] (ud_groups db') = filter (\<lambda>r. gr_id r \<noteq> cg_id g) (live_rows (fh_session_id h) [] (ud_groups db))"
    by (simp add: live_rows_def assms(4) conj_commute)
  also have "\<dots> = map (group_stored codec (fh_session_id h)) (filter (\<lambda>x. cg_id x \<noteq> cg_id g) (g # gs))"
    using assms(1) by (simp add: stacks_stored_def assms(2,3) filter_map comp_def)
  also have "filter (\<lambda>x. cg_id x \<noteq> cg_id g) (g # gs) = gs" using n by simp
  finally show ?thesis using assms by (auto simp: stacks_stored_def distinct_map_filter)
qed

lemma trim_stored:
  "stacks_stored codec (h\<lparr>fh_undo_stack := gs\<rparr>) db \<Longrightarrow> fh_redo_stack h = [] \<Longrightarrow> trim_history fault m gs db = (q, gs', db') \<Longrightarrow>
     stacks_stored codec (h\<lparr>fh_undo_stack := gs'\<rparr>) db' \<and> set gs' \<subseteq> set gs"
proof (induction gs arbitrary: db)
  case (Cons g gs)
  show ?case
  proof (cases "int (length (g # gs)) > m")
    case True
    obtain p db1 where r: "delete_group fault (cg_id g) db = (p, db1)" by (rule prod.exhaust)
    show ?thesis
    proof (cases p)
      case (Inl e)
      then have "same_tables db db1" using r by (auto simp: delete_group_def dest: transaction_effect)
      then show ?thesis using Cons.prems True r Inl by (auto simp: same_tables_def stacks_stored_def)
    next
      case (Inr u)
      then have "ud_groups db1 = filter (\<lambda>r. gr_id r \<noteq> cg_id g) (ud_groups db)" using r by (auto simp: delete_group_def dest!: transaction_effect)
      then have "stacks_stored codec (h\<lparr>fh_undo_stack := gs\<rparr>) db1" using delete_stored [OF Cons.prems(1), of g gs db1] Cons.prems(2) by simp
      then show ?thesis using Cons.IH [of db1] Cons.prems True r Inr by auto
    qed
  next
    case False
    then show ?thesis using Cons.prems by auto
  qed
qed (auto split: if_splits)

text \<open>A group that is saved again, from the other stack.\<close>

definition swap_group :: "ChangeGroup \<Rightarrow> ChangeGroup \<Rightarrow> ChangeGroup" where
  "swap_group g' x = (if cg_id x = cg_id g' then g' else x)"

lemma resave_rows:
  assumes "stacks_stored codec h db" "g \<in> set (live h)" "cg_id g' = cg_id g"
    "\<forall>i. i \<noteq> cg_id g \<longrightarrow> (i \<in> cg_id ` set gs \<longleftrightarrow> i \<in> cg_id ` set (fh_redo_stack h))" "\<not> cg_undone g' \<or> cg_id g \<in> cg_id ` set gs"
    "rows = upsert_group (group_stored codec (fh_session_id h) g') (ud_groups db)"
  shows "map gr_id rows = map gr_id (ud_groups db)"
    "live_rows (fh_session_id h) gs rows = map (group_stored codec (fh_session_id h)) (map (swap_group g') (live h))"
proof -
  let ?s = "fh_session_id h" and ?rows = "ud_groups db"
  let ?u = "\<lambda>r. if gr_id r = cg_id g then group_stored codec ?s g' else r"
  have old: "live_rows ?s (fh_redo_stack h) ?rows = map (group_stored codec ?s) (live h)" and dist: "distinct (map gr_id ?rows)"
    using assms(1) by (simp_all add: stacks_stored_def)
  have mem: "group_stored codec ?s g \<in> set (live_rows ?s (fh_redo_stack h) ?rows)" unfolding old using assms(2) by auto
  then have mem': "group_stored codec ?s g \<in> set ?rows" by (simp add: live_rows_def)
  then have rows: "rows = map ?u ?rows" using image_eqI [of "cg_id g" gr_id, OF _ mem'] assms(3,6) by (simp add: upsert_group_def)
  then show "map gr_id rows = map gr_id ?rows" using assms(3) by simp
  have "live_rows ?s gs rows = map ?u (live_rows ?s (fh_redo_stack h) ?rows)"
    unfolding live_rows_def rows filter_map
  proof (rule arg_cong [where f = "map ?u"], rule filter_cong)
    fix r assume r: "r \<in> set ?rows"
    show "((\<lambda>r. gr_session_id r = ?s \<and> (gr_undone r = 0 \<or> gr_id r \<in> cg_id ` set gs)) \<circ> ?u) r \<longleftrightarrow>
        gr_session_id r = ?s \<and> (gr_undone r = 0 \<or> gr_id r \<in> cg_id ` set (fh_redo_stack h))"
    proof (cases "gr_id r = cg_id g")
      case True
      then have "r = group_stored codec ?s g" using dist r mem' by (auto simp: distinct_map inj_on_def)
      then show ?thesis using mem assms(3,5) by (auto simp: live_rows_def)
    next
      case False
      then show ?thesis using assms(4) by simp
    qed
  qed simp
  also have "\<dots> = map (group_stored codec ?s) (map (swap_group g') (live h))" unfolding old using assms(3) by (simp add: swap_group_def)
  finally show "live_rows ?s gs rows = map (group_stored codec ?s) (map (swap_group g') (live h))" .
qed

lemma swap_others: "cg_id g \<notin> cg_id ` set gs \<Longrightarrow> cg_id g' = cg_id g \<Longrightarrow> map (swap_group g') gs = gs"
  by (induction gs) (auto simp: swap_group_def)

lemma resave_stored:
  assumes "stacks_stored codec h db" "live h = us @ g # rs" "g' = g\<lparr>cg_undone := b\<rparr>" "fh_session_id h' = fh_session_id h"
    "live h' = us @ g' # rs" "if b then fh_undo_stack h' = us \<and> fh_undo_stack h = us @ [g] else fh_redo_stack h' = rev rs \<and> fh_undo_stack h = us"
    "ud_groups db' = upsert_group (group_stored codec (fh_session_id h) g') (ud_groups db)"
  shows "stacks_stored codec h' db'" "gr_id ` set (ud_groups db') = gr_id ` set (ud_groups db)" "cg_timestamp ` set (live h') = cg_timestamp ` set (live h)"
proof -
  have d: "distinct (map cg_id (us @ g # rs))" using stored_distinct [OF assms(1)] unfolding assms(2) .
  have i: "cg_id g' = cg_id g" "cg_timestamp g' = cg_timestamp g" "group_fits g' = group_fits g" by (simp_all add: assms(3) group_fits_def)
  have "map (swap_group g') us = us" "map (swap_group g') rs = rs" using d i by (auto intro: swap_others [of g])
  then have sw: "map (swap_group g') (live h) = live h'" unfolding assms(2,5) by (simp add: swap_group_def i)
  have stacks: "fh_undo_stack h' = (if b then us else us @ [g'])" "fh_redo_stack h' = (if b then rev rs @ [g'] else rev rs)"
    "fh_undo_stack h = (if b then us @ [g] else us)" "fh_redo_stack h = (if b then rev rs else rev rs @ [g])"
    using assms(2,5,6) rev_swap [of "fh_redo_stack h"] rev_swap [of "fh_redo_stack h'"] by (cases b; simp)+
  have R: "map gr_id (ud_groups db') = map gr_id (ud_groups db)"
      "live_rows (fh_session_id h) (fh_redo_stack h') (ud_groups db') = map (group_stored codec (fh_session_id h)) (live h')"
    using resave_rows [OF assms(1) _ i(1) _ _ assms(7), of "fh_redo_stack h'"]
    unfolding sw by (auto simp: assms(2,3) stacks)
  have "sorted (map cg_timestamp (live h'))" "\<forall>x \<in> set (live h'). group_fits x"
    using assms(1) unfolding stacks_stored_def assms(2,5) by (auto simp: i)
  moreover have "\<forall>x \<in> set (fh_undo_stack h'). \<not> cg_undone x" "\<forall>x \<in> set (fh_redo_stack h'). cg_undone x"
    using assms(1,3) unfolding stacks_stored_def stacks by (auto split: if_splits)
  ultimately show "stacks_stored codec h' db'" using R assms(1,4) by (simp add: stacks_stored_def)
  show "gr_id ` set (ud_groups db') = gr_id ` set (ud_groups db)" using R(1) by (metis set_map)
  show "cg_timestamp ` set (live h') = cg_timestamp ` set (live h)" unfolding assms(2,5) by (simp add: i)
qed

lemma resave_ok:
  assumes "undo_codec_ok codec" "tracker_ok codec h db" "live h = us @ g # rs" "g' = g\<lparr>cg_undone := b\<rparr>" "fh_session_id h' = fh_session_id h"
    "live h' = us @ g' # rs" "if b then fh_undo_stack h' = us \<and> fh_undo_stack h = us @ [g] else fh_redo_stack h' = rev rs \<and> fh_undo_stack h = us"
    "fh_current_group h' = fh_current_group h" "save_group codec fault (fh_session_id h) g' db = (Inr u, db')"
  shows "tracker_ok codec h' db'"
proof -
  have "group_fits g'" using assms(2) unfolding tracker_ok_def stacks_stored_def assms(3,4) by (auto simp: group_fits_def)
  then have "ud_groups db' = upsert_group (group_stored codec (fh_session_id h) g') (ud_groups db)"
    using save_effect [OF assms(1), of g' "fh_session_id h" db fault] assms(9) by (auto intro: saves_groups)
  note R = resave_stored [OF _ assms(3-7) this]
  have "may_follow x h' db'" if "may_follow x h db" for x
    using that R(2,3) assms(2) by (auto simp: may_follow_def tracker_ok_def) (metis (no_types, lifting) UnI1 UnI2 image_iff)+
  then show ?thesis using R(1) assms(2,8) by (simp add: tracker_ok_def)
qed

text \<open>What undo and redo do to the stacks, if they return.\<close>

lemma undo_moves:
  assumes "undo digest codec fails fault force h db d = (Inr a, h', db', d')"
  shows "(h' = h \<and> db' = db) \<or>
    (\<exists>us g. fh_undo_stack h = us @ [g] \<and> h' = h\<lparr>fh_undo_stack := us, fh_redo_stack := fh_redo_stack h @ [g\<lparr>cg_undone := True\<rparr>]\<rparr> \<and>
       save_group codec fault (fh_session_id h) (g\<lparr>cg_undone := True\<rparr>) db = (Inr (), db'))"
proof (cases "fh_undo_stack h" rule: rev_cases)
  case (snoc us g)
  then show ?thesis using assms by (auto simp: undo_def Let_def split: prod.splits sum.splits option.splits if_splits)
qed (use assms in \<open>simp add: undo_def\<close>)

lemma redo_moves:
  assumes "redo digest codec fails fault force h db d = (Inr a, h', db', d')"
  shows "(h' = h \<and> db' = db) \<or>
    (\<exists>rs g. fh_redo_stack h = rs @ [g] \<and> h' = h\<lparr>fh_redo_stack := rs, fh_undo_stack := fh_undo_stack h @ [g\<lparr>cg_undone := False\<rparr>]\<rparr> \<and>
       save_group codec fault (fh_session_id h) (g\<lparr>cg_undone := False\<rparr>) db = (Inr (), db'))"
proof (cases "fh_redo_stack h" rule: rev_cases)
  case (snoc rs g)
  then show ?thesis using assms by (auto simp: redo_def Let_def split: prod.splits sum.splits option.splits if_splits)
qed (use assms in \<open>simp add: redo_def\<close>)

lemma undo_ok:
  assumes "undo_codec_ok codec" "tracker_ok codec h db" "undo digest codec fails fault force h db d = (Inr a, h', db', d')"
  shows "tracker_ok codec h' db'"
  using undo_moves [OF assms(3)]
proof (elim disjE exE conjE)
  fix us g
  assume a: "fh_undo_stack h = us @ [g]" "h' = h\<lparr>fh_undo_stack := us, fh_redo_stack := fh_redo_stack h @ [g\<lparr>cg_undone := True\<rparr>]\<rparr>"
    "save_group codec fault (fh_session_id h) (g\<lparr>cg_undone := True\<rparr>) db = (Inr (), db')"
  show ?thesis by (rule resave_ok [OF assms(1,2), where us = us and rs = "rev (fh_redo_stack h)" and b = True, OF _ refl _ _ _ _ a(3)]) (simp_all add: a(1,2))
qed (use assms(2) in simp)

lemma redo_ok:
  assumes "undo_codec_ok codec" "tracker_ok codec h db" "redo digest codec fails fault force h db d = (Inr a, h', db', d')"
  shows "tracker_ok codec h' db'"
  using redo_moves [OF assms(3)]
proof (elim disjE exE conjE)
  fix rs g
  assume a: "fh_redo_stack h = rs @ [g]" "h' = h\<lparr>fh_redo_stack := rs, fh_undo_stack := fh_undo_stack h @ [g\<lparr>cg_undone := False\<rparr>]\<rparr>"
    "save_group codec fault (fh_session_id h) (g\<lparr>cg_undone := False\<rparr>) db = (Inr (), db')"
  show ?thesis by (rule resave_ok [OF assms(1,2), where us = "fh_undo_stack h" and rs = "rev rs" and b = False, OF _ refl _ _ _ _ a(3)]) (simp_all add: a(1,2))
qed (use assms(2) in simp)

lemma commit_ok:
  assumes "undo_codec_ok codec" "tracker_ok codec h db" "commit_change_group codec fault h db = (q, h', db')"
  shows "tracker_ok codec h' db'"
proof (cases "\<exists>g. fh_current_group h = Some g \<and> cg_changes g \<noteq> []")
  case True
  then obtain g where g: "fh_current_group h = Some g" "cg_changes g \<noteq> []" by auto
  have follow: "may_follow g h db" and S: "stacks_stored codec h db" using assms(2) g by (simp_all add: tracker_ok_def)
  obtain p db1 where r: "save_group codec fault (fh_session_id h) g db = (p, db1)" by (rule prod.exhaust)
  have sv: "saves codec (fh_session_id h) g db (p, db1)"
    using save_effect [OF assms(1), of g "fh_session_id h" db fault] follow by (simp add: r may_follow_def)
  show ?thesis
  proof (cases p)
    case (Inl e)
    then have "same_tables db db1" "h' = h" "db' = db1" using sv g r assms(3) by (auto simp: saves_def commit_change_group_def)
    then show ?thesis using assms(2) by (simp add: tracker_ok_def stacks_stored_def may_follow_def same_tables_def)
  next
    case (Inr u)
    let ?h = "h\<lparr>fh_current_group := None, fh_redo_stack := [], fh_undo_stack := fh_undo_stack h @ [g]\<rparr>"
    have st: "stacks_stored codec ?h db1" using commit_stored [OF S follow saves_groups [OF sv [unfolded Inr]]] .
    obtain q' gs db2 where t: "trim_history fault (fh_max_history h) (fh_undo_stack h @ [g]) db1 = (q', gs, db2)" by (metis prod_cases3)
    have h': "h' = h\<lparr>fh_current_group := None, fh_redo_stack := [], fh_undo_stack := gs\<rparr>" "db' = db2"
      using assms(3) g r t Inr by (auto simp: commit_change_group_def Let_def split: sum.splits if_splits)
    have "stacks_stored codec (?h\<lparr>fh_undo_stack := gs\<rparr>) db2"
      using trim_stored [where h = ?h, OF _ _ t] st by simp
    then show ?thesis by (simp add: tracker_ok_def h')
  qed
next
  case False
  then show ?thesis using assms(2,3) by (auto simp: commit_change_group_def tracker_ok_def stacks_stored_def split: option.splits)
qed

section \<open>Every history of a session\<close>

text \<open>New identifiers and a clock that does not go back, as far as a call needs them.\<close>

definition env_ok :: "call_env \<Rightarrow> FileChangeHistory \<Rightarrow> undo_db \<Rightarrow> bool" where
  "env_ok env h db \<longleftrightarrow> double (ce_group_time env) \<and> double (ce_change_time env) \<and> (\<forall>g \<in> set (live h). cg_timestamp g \<le> ce_group_time env) \<and>
     (\<forall>tool. ''grp_'' @ ce_group_uuid env @ ''_'' @ tool \<notin> gr_id ` set (ud_groups db))"

definition args_ok :: "change_args \<Rightarrow> bool" where
  "args_ok a \<longleftrightarrow> orjson_value (VDict (case ca_tool_args a of Some args \<Rightarrow> args | None \<Rightarrow> []))"

text \<open>The operations of a tracker, on any disk and with any failure of the database, and what other sessions may do to the database in between.
  Undo, redo and the clearing are left out where their write fails, and so is another session that clears the history, since that deletes the rows of all sessions.\<close>

inductive tracker_step :: "(string \<Rightarrow> string) \<Rightarrow> undo_codec \<Rightarrow> FileChangeHistory \<times> undo_db \<Rightarrow> FileChangeHistory \<times> undo_db \<Rightarrow> bool" for digest codec where
  step_begin: "env_ok env h db \<Longrightarrow> begin_change_group env tool descr message h = (i, h') \<Longrightarrow> tracker_step digest codec (h, db) (h', db)"
| step_record: "env_ok env h db \<Longrightarrow> args_ok a \<Longrightarrow> record_change digest codec fault env a h db = (q, h', db') \<Longrightarrow> tracker_step digest codec (h, db) (h', db')"
| step_commit: "commit_change_group codec fault h db = (p, h', db') \<Longrightarrow> tracker_step digest codec (h, db) (h', db')"
| step_undo: "undo digest codec fails fault force h db d = (Inr a, h', db', d') \<Longrightarrow> tracker_step digest codec (h, db) (h', db')"
| step_redo: "redo digest codec fails fault force h db d = (Inr a, h', db', d') \<Longrightarrow> tracker_step digest codec (h, db) (h', db')"
| step_clear: "clear_history fault h db = (Inr n, h', db', conn) \<Longrightarrow> tracker_step digest codec (h, db) (h', db')"
| step_others: "filter (\<lambda>r. gr_session_id r = fh_session_id h) (ud_groups db') = filter (\<lambda>r. gr_session_id r = fh_session_id h) (ud_groups db) \<Longrightarrow>
    distinct (map gr_id (ud_groups db')) \<Longrightarrow> (\<forall>g. fh_current_group h = Some g \<longrightarrow> cg_id g \<notin> gr_id ` set (ud_groups db')) \<Longrightarrow>
    tracker_step digest codec (h, db) (h, db')"

definition tracker_start :: "FileChangeHistory \<Rightarrow> undo_db \<Rightarrow> bool" where
  "tracker_start h db \<longleftrightarrow> fh_undo_stack h = [] \<and> fh_redo_stack h = [] \<and> fh_current_group h = None \<and> distinct (map gr_id (ud_groups db)) \<and>
     (\<forall>r \<in> set (ud_groups db). gr_session_id r \<noteq> fh_session_id h)"

inductive tracker_reach :: "(string \<Rightarrow> string) \<Rightarrow> undo_codec \<Rightarrow> FileChangeHistory \<times> undo_db \<Rightarrow> bool" for digest codec where
  reach_start: "tracker_start h db \<Longrightarrow> tracker_reach digest codec (h, db)"
| reach_step: "tracker_reach digest codec s \<Longrightarrow> tracker_step digest codec s s' \<Longrightarrow> tracker_reach digest codec s'"

lemma tracker_start_ok: "tracker_start h db \<Longrightarrow> tracker_ok codec h db"
  by (simp add: tracker_start_def tracker_ok_def stacks_stored_def live_rows_def filter_empty_conv)

lemma tracker_begin_ok:
  assumes "tracker_ok codec h db" "env_ok env h db"
  shows "tracker_ok codec (snd (begin_change_group env tool descr message h)) db"
  using assms by (auto simp: tracker_ok_def stacks_stored_def may_follow_def env_ok_def begin_change_group_def Let_def group_fits_def)

lemma add_change_ok: "tracker_ok codec h db \<Longrightarrow> change_fits c \<Longrightarrow> tracker_ok codec (add_change c h) db"
  by (auto simp: tracker_ok_def stacks_stored_def may_follow_def add_change_def group_fits_def)

lemma new_change_fits: "env_ok env h db \<Longrightarrow> args_ok a \<Longrightarrow> change_fits (new_change digest env a h)"
  by (simp add: change_fits_def new_change_def env_ok_def args_ok_def)

lemma record_ok:
  assumes "undo_codec_ok codec" "tracker_ok codec h db" "env_ok env h db" "args_ok a" "record_change digest codec fault env a h db = (q, h', db')"
  shows "tracker_ok codec h' db'"
proof (cases "fh_current_group h")
  case None
  let ?tool = "if ca_tool_name a \<noteq> [] then ca_tool_name a else ''unknown''"
  let ?h = "add_change (new_change digest env a h) (snd (begin_change_group env ?tool (''Changed '' @ ca_file_path a) None h))"
  have ok: "tracker_ok codec ?h db" using add_change_ok tracker_begin_ok assms(2,3) new_change_fits [OF assms(3,4)] by metis
  obtain p h1 db1 where r: "commit_change_group codec fault ?h db = (p, h1, db1)" by (metis prod_cases3)
  have "h' = h1 \<and> db' = db1" using assms(5) None r by (auto simp: record_change_def Let_def split: sum.splits)
  then show ?thesis using commit_ok [OF assms(1) ok r] by simp
next
  case (Some g)
  then show ?thesis using add_change_ok [OF assms(2) new_change_fits [OF assms(3,4)]] assms(5) by (auto simp: record_change_def Let_def)
qed

lemma clear_ok: "tracker_ok codec h db \<Longrightarrow> clear_history fault h db = (Inr n, h', db', conn) \<Longrightarrow> tracker_ok codec h' db'"
  by (auto simp: clear_history_def Let_def tracker_ok_def stacks_stored_def live_rows_def may_follow_def split: option.splits)

lemma others_ok:
  assumes "tracker_ok codec h db" "filter (\<lambda>r. gr_session_id r = fh_session_id h) (ud_groups db') = filter (\<lambda>r. gr_session_id r = fh_session_id h) (ud_groups db)"
    "distinct (map gr_id (ud_groups db'))" "\<forall>g. fh_current_group h = Some g \<longrightarrow> cg_id g \<notin> gr_id ` set (ud_groups db')"
  shows "tracker_ok codec h db'"
proof -
  have own: "live_rows s gs rows = filter (\<lambda>r. gr_undone r = 0 \<or> gr_id r \<in> cg_id ` set gs) (filter (\<lambda>r. gr_session_id r = s) rows)" for s gs rows
    by (simp add: live_rows_def)
  have "live_rows (fh_session_id h) (fh_redo_stack h) (ud_groups db') = live_rows (fh_session_id h) (fh_redo_stack h) (ud_groups db)"
    unfolding own assms(2) ..
  then show ?thesis using assms(1,3,4) by (simp add: tracker_ok_def stacks_stored_def may_follow_def)
qed

lemma tracker_step_ok:
  assumes "undo_codec_ok codec" "tracker_step digest codec s s'" "case s of (h, db) \<Rightarrow> tracker_ok codec h db"
  shows "case s' of (h, db) \<Rightarrow> tracker_ok codec h db"
  using assms(2,3)
proof cases
  case (step_begin env h db tool descr message i h')
  then show ?thesis using assms(3) tracker_begin_ok [of codec h db env tool descr message] by simp
next
  case (step_record env h db a fault q h' db')
  then show ?thesis using assms(3) record_ok [OF assms(1)] by simp
next
  case (step_commit fault h db p h' db')
  then show ?thesis using assms(3) commit_ok [OF assms(1)] by simp
next
  case (step_undo fails fault force h db d a h' db' d')
  then show ?thesis using assms(3) undo_ok [OF assms(1)] by simp
next
  case (step_redo fails fault force h db d a h' db' d')
  then show ?thesis using assms(3) redo_ok [OF assms(1)] by simp
next
  case (step_clear fault h db n h' db' conn)
  then show ?thesis using assms(3) clear_ok by simp
next
  case (step_others h db' db)
  then show ?thesis using assms(3) others_ok [of codec h db db'] by simp
qed

lemma reach_ok: "tracker_reach digest codec s \<Longrightarrow> undo_codec_ok codec \<Longrightarrow> case s of (h, db) \<Rightarrow> tracker_ok codec h db"
  by (induction rule: tracker_reach.induct) (use tracker_start_ok tracker_step_ok in \<open>auto simp only: prod.case\<close>)

text \<open>C16. The database holds the undo stack of a session, under these conditions: the session starts without rows of its own; its clock does not go back and its random
  identifiers are new; tool arguments can be written as JSON; other sessions write between its operations, but only rows of their own, and do not clear the history;
  and an undo, a redo or a clearing of its own whose write to the database fails does not occur. After any sequence of operations, with any failures
  of the database that beginning, recording and committing a group meet, loading the history of the session gives the groups of the undo stack, oldest first, as far as the limit
  allows; and all of them if there are no more than the limit.\<close>

theorem reload_recent:
  assumes "tracker_reach digest codec (h, db)" "undo_codec_ok codec"
  shows "load_recent_history codec now (fh_session_id h) (fh_max_history h) db = rev (sql_limit (fh_max_history h) (rev (fh_undo_stack h))) \<and>
    (int (length (fh_undo_stack h)) \<le> fh_max_history h \<longrightarrow> load_recent_history codec now (fh_session_id h) (fh_max_history h) db = fh_undo_stack h)"
proof -
  have "stacks_stored codec h db" using reach_ok [OF assms] by (simp add: tracker_ok_def)
  note load_stored [OF assms(2) this, of now "fh_max_history h"]
  then show ?thesis by (simp add: sql_limit_def)
qed

section \<open>A group is saved as a whole or not at all\<close>

definition ids_free :: "ChangeGroup \<Rightarrow> undo_db \<Rightarrow> bool" where
  "ids_free g db \<longleftrightarrow> distinct (map fc_id (cg_changes g)) \<and>
     (\<forall>r \<in> set (ud_changes db). cr_group_id r \<noteq> cg_id g \<longrightarrow> cr_id r \<notin> fc_id ` set (cg_changes g))"

abbreviation child_rows :: "ChangeGroup \<Rightarrow> change_row list" where
  "child_rows g \<equiv> map (change_row_of (cg_id g)) (List.enumerate 0 (cg_changes g))"

lemma cr_id_child: "cr_id (change_row_of i x) = fc_id (snd x)" "cr_group_id (change_row_of i x) = i"
  by (simp_all add: change_row_of_def split: prod.split)

lemma child_ids: "map cr_id (child_rows g) = map fc_id (cg_changes g)"
proof -
  have "map cr_id (child_rows g) = map fc_id (map snd (List.enumerate 0 (cg_changes g)))" unfolding map_map by (rule map_cong) (simp_all add: cr_id_child)
  then show ?thesis by simp
qed

lemma insert_changes:
  "distinct (map cr_id rows) \<Longrightarrow> cr_id ` set rows \<inter> cr_id ` set others = {} \<Longrightarrow> fold_result insert_change rows others = Inr (others @ rows)"
proof (induction rows arbitrary: others)
  case (Cons r rows)
  have "cr_id r \<notin> cr_id ` set others" using Cons.prems(2) by auto
  moreover have "fold_result insert_change rows (others @ [r]) = Inr ((others @ [r]) @ rows)" by (rule Cons.IH) (use Cons.prems in auto)
  moreover have "insert_change r others = Inr (others @ [r])" using calculation(1) by (simp only: insert_change_def if_False)
  ultimately show ?case by simp
qed simp

lemma write_group_free:
  assumes "ids_free g db"
  shows "write_group s t g db = Inr (db\<lparr>ud_groups := upsert_group (group_row_of s t g) (ud_groups db),
    ud_changes := filter (\<lambda>r. cr_group_id r \<noteq> cg_id g) (ud_changes db) @ child_rows g\<rparr>)"
proof -
  have "cr_id ` set (child_rows g) = fc_id ` set (cg_changes g)" using child_ids [of g] by (metis set_map)
  then have "fold_result insert_change (child_rows g) (filter (\<lambda>r. cr_group_id r \<noteq> cg_id g) (ud_changes db)) =
      Inr (filter (\<lambda>r. cr_group_id r \<noteq> cg_id g) (ud_changes db) @ child_rows g)"
    using assms unfolding ids_free_def by (intro insert_changes) (simp_all only: child_ids, force)
  then show ?thesis by (simp add: write_group_def Let_def)
qed

lemma save_once_free:
  assumes "undo_codec_ok codec" "group_fits g" "fault (ud_writes db) = None" "ids_free g db"
  shows "save_group_once codec fault s g db = (Inr (), db\<lparr>ud_writes := Suc (ud_writes db), ud_groups := upsert_group (group_stored codec s g) (ud_groups db),
    ud_changes := filter (\<lambda>r. cr_group_id r \<noteq> cg_id g) (ud_changes db) @ child_rows g\<rparr>)"
proof -
  have "ids_free g (db\<lparr>ud_writes := Suc (ud_writes db)\<rparr>)" using assms(4) by (simp add: ids_free_def)
  then show ?thesis using assms(3) by (simp add: save_group_once_def group_text_ok(1) [OF assms(1,2)] transaction_def write_group_free Let_def)
qed

lemma save_loop_locked:
  assumes "undo_codec_ok codec" "group_fits g" "k \<le> left" "\<forall>i < k. \<exists>e. fault (ud_writes db + i) = Some e \<and> locked_error e" "fault (ud_writes db + k) = None" "ids_free g db"
  shows "save_loop codec fault s g left db = (Inr (), db\<lparr>ud_writes := Suc (ud_writes db + k), ud_groups := upsert_group (group_stored codec s g) (ud_groups db),
    ud_changes := filter (\<lambda>r. cr_group_id r \<noteq> cg_id g) (ud_changes db) @ child_rows g\<rparr>)"
  using assms(3-6)
proof (induction k arbitrary: left db)
  case 0
  then show ?case using save_once_free [OF assms(1,2), of fault db s] by (subst save_loop.simps) simp
next
  case (Suc k)
  obtain e where e: "fault (ud_writes db) = Some e" "locked_error e" using Suc.prems(2) by (metis add.right_neutral zero_less_Suc)
  let ?db = "db\<lparr>ud_writes := Suc (ud_writes db)\<rparr>"
  have once: "save_group_once codec fault s g db = (Inl e, ?db)"
    using e(1) by (simp add: save_group_once_def group_text_ok(1) [OF assms(1,2)] transaction_def Let_def)
  have "\<forall>i < k. \<exists>e. fault (ud_writes ?db + i) = Some e \<and> locked_error e" using Suc.prems(2) by auto
  then have "save_loop codec fault s g (left - 1) ?db = (Inr (), ?db\<lparr>ud_writes := Suc (ud_writes ?db + k), ud_groups := upsert_group (group_stored codec s g) (ud_groups ?db),
      ud_changes := filter (\<lambda>r. cr_group_id r \<noteq> cg_id g) (ud_changes ?db) @ child_rows g\<rparr>)"
    using Suc.prems by (intro Suc.IH) (auto simp: ids_free_def)
  then show ?case using Suc.prems(1) e(2) by (subst save_loop.simps) (simp add: once)
qed

lemma stored_upsert: "row \<in> set (upsert_group row rows)"
  by (auto simp: upsert_group_def)

lemma own_children: "filter (\<lambda>r. cr_group_id r = cg_id g) (filter (\<lambda>r. cr_group_id r \<noteq> cg_id g) rows @ child_rows g) = child_rows g"
  by (simp add: filter_empty_conv) (simp add: filter_map comp_def cr_id_child)

text \<open>The group is in both tables.\<close>

definition persisted :: "undo_codec \<Rightarrow> string \<Rightarrow> ChangeGroup \<Rightarrow> undo_db \<Rightarrow> bool" where
  "persisted codec s g db \<longleftrightarrow> group_stored codec s g \<in> set (ud_groups db) \<and> filter (\<lambda>r. cr_group_id r = cg_id g) (ud_changes db) = child_rows g"

text \<open>A locked database is waited for: if it is locked at the first one or two attempts and not at the next, the group is saved, with a row for each change in order, after as
  many attempts as that takes.\<close>

theorem save_outlasts_locks:
  assumes "undo_codec_ok codec" "group_fits g" "ids_free g db" "k \<le> 2"
    "\<forall>i < k. \<exists>e. fault (ud_writes db + i) = Some e \<and> locked_error e" "fault (ud_writes db + k) = None"
  shows "\<exists>db'. save_group codec fault s g db = (Inr (), db') \<and> persisted codec s g db' \<and> ud_writes db' = Suc (ud_writes db + k)"
  using save_loop_locked [OF assms(1,2) _ assms(5,6,3), of SAVE_LOCK_RETRIES s] assms(4)
  by (auto simp: save_group_def SAVE_LOCK_RETRIES_def persisted_def stored_upsert own_children simp del: filter_append)

lemma fold_insert_changes: "fold_result insert_change rows others = Inr cs \<Longrightarrow> cs = others @ rows"
  by (induction rows arbitrary: others) (fastforce simp: insert_change_def bind_result_eq_Inr split: if_splits)+

lemma saves_persisted: "saves codec s g db (Inr u, db') \<Longrightarrow> persisted codec s g db'"
  by (auto simp: saves_def write_group_def Let_def bind_result_eq_Inr persisted_def stored_upsert own_children simp del: filter_append dest!: fold_insert_changes)

lemma delete_persisted:
  assumes "persisted codec s g db" "i \<noteq> cg_id g" "delete_group fault i db = (q, db')"
  shows "persisted codec s g db'"
proof (cases q)
  case (Inl e)
  then show ?thesis using assms by (auto simp: delete_group_def persisted_def same_tables_def dest!: transaction_effect)
next
  case (Inr u)
  have "filter (\<lambda>r. cr_group_id r = cg_id g) (filter (\<lambda>r. cr_group_id r \<noteq> i) rows) = filter (\<lambda>r. cr_group_id r = cg_id g) rows" for rows
    unfolding filter_filter by (rule filter_cong) (use assms(2) in auto)
  note keep = this [of "ud_changes db"]
  have "ud_changes db' = filter (\<lambda>r. cr_group_id r \<noteq> i) (ud_changes db)" "ud_groups db' = filter (\<lambda>r. gr_id r \<noteq> i) (ud_groups db)"
    using assms(3) Inr by (auto simp: delete_group_def dest!: transaction_effect)
  then show ?thesis using assms(1,2) keep unfolding persisted_def by simp
qed

lemma trim_persisted:
  assumes "trim_history fault m (gs @ [g]) db = (q, gs', db')" "persisted codec s g db" "cg_id g \<notin> cg_id ` set gs" "m \<ge> 1" "\<forall>n e. fault n = Some e \<longrightarrow> sqlite_error e"
  shows "persisted codec s g db' \<and> (\<exists>us. gs' = us @ [g]) \<and> (\<forall>e. q = Inl e \<longrightarrow> sqlite_error e)"
  using assms(1-3)
proof (induction gs arbitrary: db)
  case Nil
  then show ?case using assms(4) by (auto simp del: One_nat_def)
next
  case (Cons x gs)
  show ?case
  proof (cases "int (length (x # gs @ [g])) > m")
    case True
    obtain p db1 where r: "delete_group fault (cg_id x) db = (p, db1)" by (rule prod.exhaust)
    have per: "persisted codec s g db1" using delete_persisted [OF Cons.prems(2) _ r] Cons.prems(3) by auto
    have err: "sqlite_error e" if "p = Inl e" for e
      using r that assms(5) by (auto simp: delete_group_def transaction_def Let_def split: option.splits)
    show ?thesis
    proof (cases p)
      case (Inl e)
      then show ?thesis using Cons.prems True r per err by (auto intro: exI [of _ "x # gs"])
    next
      case (Inr u)
      then show ?thesis using Cons.IH [of db1] Cons.prems True r per by auto
    qed
  next
    case False
    then show ?thesis using Cons.prems by auto
  qed
qed

text \<open>C19. A commit is all or nothing: whatever the database does, either it raises and the tracker and both tables are as they were, the group still open; or it returns the group, which is then
  the top of the undo stack and in both tables with all its changes, nothing is left to redo and no group is open.\<close>

theorem commit_all_or_nothing:
  assumes "undo_codec_ok codec" "fh_current_group h = Some g" "cg_changes g \<noteq> []" "group_fits g" "cg_id g \<notin> cg_id ` set (fh_undo_stack h)" "fh_max_history h \<ge> 1"
    "\<forall>n e. fault n = Some e \<longrightarrow> sqlite_error e"
  shows "(\<exists>e db'. commit_change_group codec fault h db = (Inl e, h, db') \<and> same_tables db db') \<or>
    (\<exists>h' db' us. commit_change_group codec fault h db = (Inr (Some g), h', db') \<and> fh_undo_stack h' = us @ [g] \<and> fh_redo_stack h' = [] \<and>
       fh_current_group h' = None \<and> persisted codec (fh_session_id h) g db')"
proof -
  obtain p db1 where r: "save_group codec fault (fh_session_id h) g db = (p, db1)" by (rule prod.exhaust)
  have sv: "saves codec (fh_session_id h) g db (p, db1)" using save_effect [OF assms(1,4), of "fh_session_id h" db fault] by (simp add: r)
  show ?thesis
  proof (cases p)
    case (Inl e)
    then show ?thesis using sv assms(2,3) r by (auto simp: commit_change_group_def saves_def)
  next
    case (Inr u)
    obtain q gs db2 where t: "trim_history fault (fh_max_history h) (fh_undo_stack h @ [g]) db1 = (q, gs, db2)" by (metis prod_cases3)
    have T: "persisted codec (fh_session_id h) g db2" "\<exists>us. gs = us @ [g]" "\<forall>e. q = Inl e \<longrightarrow> sqlite_error e"
      using trim_persisted [OF t saves_persisted [OF sv [unfolded Inr]] assms(5-7)] by auto
    then have "commit_change_group codec fault h db = (Inr (Some g), h\<lparr>fh_current_group := None, fh_undo_stack := gs, fh_redo_stack := []\<rparr>, db2)"
      using assms(2,3) r t Inr by (auto simp: commit_change_group_def Let_def split: sum.splits)
    then show ?thesis using T by auto
  qed
qed

section \<open>An undo and its redo\<close>

lemma ids_free_saved: "ids_free g (db\<lparr>ud_writes := n, ud_groups := rows, ud_changes := filter (\<lambda>r. cr_group_id r \<noteq> cg_id g) (ud_changes db) @ child_rows g\<rparr>) \<longleftrightarrow> ids_free g db"
  by (auto simp: ids_free_def cr_id_child)

lemma save_free:
  assumes "undo_codec_ok codec" "group_fits g" "\<forall>n. fault n = None" "ids_free g db"
  shows "\<exists>db'. save_group codec fault s g db = (Inr (), db') \<and> ids_free g db'"
  using save_loop_locked [OF assms(1,2), of 0 SAVE_LOCK_RETRIES fault db s] assms(3,4) ids_free_saved [of g db] by (simp add: save_group_def)

text \<open>C17. An undo and its redo are the identity, for a group that is not marked as undone, whose contents are text with line feeds only, which can be written as JSON and whose change identifiers are free in the
  database, when no write to the database and no system call fails and checksums have 64 characters: if the changes of the last group lead from the
  files \<open>fs\<close> to those on the disk, undoing succeeds, names the files of the group in reverse order and leaves exactly \<open>fs\<close>; a redo then succeeds,
  and the tracker and all files are what they were before.\<close>

theorem undo_redo_identity:
  assumes "undo_codec_ok codec" "fh_undo_stack h = us @ [g]" "\<not> cg_undone g" "group_fits g" "ids_free g db" "\<forall>n. fault n = None"
    "perform_all (cg_changes g) fs = Some (dk_files d)" "\<forall>c \<in> set (cg_changes g). contents_plain c" "\<forall>s. length (digest s) = 64" "quiet fails (dk_calls d)"
  shows "\<exists>m1 h1 db1 d1 m2 db2 d2.
    undo digest codec fails fault force h db d = (Inr (True, m1, rev (map fc_file_path (cg_changes g))), h1, db1, d1) \<and> dk_files d1 = fs \<and>
    redo digest codec fails fault force h1 db1 d1 = (Inr (True, m2, map fc_file_path (cg_changes g)), h, db2, d2) \<and> dk_files d2 = dk_files d"
proof -
  obtain d1 d2 where r: "replay_group digest fails Undo force (cg_changes g) d = (Inr (rev (map fc_file_path (cg_changes g)), [], None), d1)" "dk_files d1 = fs"
    "replay_group digest fails Redo force (cg_changes g) d1 = (Inr (map fc_file_path (cg_changes g), [], None), d2)" "dk_files d2 = dk_files d"
    using undo_redo_exact [OF assms(7-10)] by blast
  let ?g = "g\<lparr>cg_undone := True\<rparr>"
  have fits: "group_fits ?g" "ids_free ?g db" using assms(4,5) by (simp_all add: group_fits_def ids_free_def)
  obtain db1 where s1: "save_group codec fault (fh_session_id h) ?g db = (Inr (), db1)" "ids_free ?g db1" using save_free [OF assms(1) fits(1) assms(6) fits(2)] by blast
  have "ids_free g db1" using s1(2) by (simp add: ids_free_def)
  then obtain db2 where s2: "save_group codec fault (fh_session_id h) g db1 = (Inr (), db2)" using save_free [OF assms(1,4,6)] by blast
  have g: "?g\<lparr>cg_undone := False\<rparr> = g" using assms(3) by (cases g) simp
  let ?h = "h\<lparr>fh_undo_stack := us, fh_redo_stack := fh_redo_stack h @ [?g]\<rparr>"
  have h: "?h\<lparr>fh_redo_stack := fh_redo_stack h, fh_undo_stack := us @ [g]\<rparr> = h" using assms(2) by (cases h) simp
  obtain m1 where u: "undo digest codec fails fault force h db d = (Inr (True, m1, rev (map fc_file_path (cg_changes g))), ?h, db1, d1)"
    using assms(2) r(1) s1(1) by (simp add: undo_def Let_def)
  obtain m2 where "redo digest codec fails fault force ?h db1 d1 = (Inr (True, m2, map fc_file_path (cg_changes g)), h, db2, d2)"
    using r(3) s2 g h by (simp add: redo_def Let_def)
  then show ?thesis using u r(2,4) by blast
qed

section \<open>Where the tracker loses the thread\<close>

text \<open>A group that is begun while another is open discards the changes of that one.\<close>

lemma begin_discards:
  "\<exists>g'. fh_current_group (snd (begin_change_group env tool descr message h)) = Some g' \<and> cg_changes g' = []"
  by (simp add: begin_change_group_def Let_def)

text \<open>A change on its own whose group cannot be saved leaves that group open; the next one is put into it, reported as recorded, and neither saved nor on the undo stack.\<close>

lemma failed_save_leaves_open:
  assumes "fh_current_group h = None" "\<And>s g db. \<exists>e. fst (save_group codec fault s g db) = Inl e"
  shows "\<exists>e h1 db1 h2. record_change digest codec fault env a h db = (Inl e, h1, db1) \<and>
    record_change digest codec no_fault env' a' h1 db1 = (Inr (new_change digest env' a' h1), h2, db1) \<and> fh_undo_stack h2 = fh_undo_stack h"
proof -
  let ?tool = "if ca_tool_name a \<noteq> [] then ca_tool_name a else ''unknown''"
  let ?h = "add_change (new_change digest env a h) (snd (begin_change_group env ?tool (''Changed '' @ ca_file_path a) None h))"
  obtain g where g: "fh_current_group ?h = Some g" "cg_changes g \<noteq> []" by (auto simp: add_change_def begin_change_group_def Let_def)
  obtain e db1 where s: "save_group codec fault (fh_session_id ?h) g db = (Inl e, db1)" using assms(2) by (metis prod.collapse)
  then have "record_change digest codec fault env a h db = (Inl e, ?h, db1)" using assms(1) g by (simp add: record_change_def commit_change_group_def Let_def)
  moreover have "record_change digest codec no_fault env' a' ?h db1 = (Inr (new_change digest env' a' ?h), add_change (new_change digest env' a' ?h) ?h, db1)"
    using g(1) by (simp add: record_change_def Let_def)
  moreover have "fh_undo_stack (add_change (new_change digest env' a' ?h) ?h) = fh_undo_stack h" by (simp add: add_change_def begin_change_group_def Let_def)
  ultimately show ?thesis by blast
qed

text \<open>An undo that cannot be saved: the files are taken back and the group is on the redo stack, while the database still has it to be undone.\<close>

lemma undo_unsaved:
  assumes "fh_undo_stack h = us @ [g]" "save_group codec fault (fh_session_id h) (g\<lparr>cg_undone := True\<rparr>) db = (Inl e, db')" "same_tables db db'"
    "replay_group digest fails Undo force (cg_changes g) d = (Inr (applied, skipped, None), d')" "applied \<noteq> []"
  shows "undo digest codec fails fault force h db d = (Inl e, h\<lparr>fh_undo_stack := us, fh_redo_stack := fh_redo_stack h @ [g\<lparr>cg_undone := True\<rparr>]\<rparr>, db', d') \<and>
    load_recent_history codec now s m db' = load_recent_history codec now s m db"
  using assms by (simp add: undo_def load_recent_history_def same_tables_def)

text \<open>Clearing empties the tables for every session and counts the groups of its own.\<close>

lemma clear_clears_all:
  "\<forall>n. fault n = None \<Longrightarrow> \<exists>h' db'. clear_history fault h db = (Inr (length (fh_undo_stack h) + length (fh_redo_stack h)), h', db', db') \<and>
     ud_groups db' = [] \<and> ud_changes db' = []"
  by (simp add: clear_history_def Let_def)

text \<open>A clearing whose commit fails empties the stacks, keeps every row in the database, and leaves the deletions pending on the connection: the
  next commit on it makes them permanent, a rollback takes them back.\<close>

lemma clear_commit_fails:
  assumes "fault (ud_writes db) = None" "fault (ud_writes db + 1) = None" "fault (ud_writes db + 2) = Some e" "clear_history fault h db = (r, h', db', conn)"
  shows "r = Inl e \<and> fh_undo_stack h' = [] \<and> ud_groups db' = ud_groups db \<and> ud_changes db' = ud_changes db \<and> ud_groups conn = [] \<and> ud_changes conn = []"
  using assms by (auto simp: clear_history_def Let_def)

text \<open>A limit of zero is no limit.\<close>

lemma no_limit: "map he_id (get_history codec 0 h) = rev (map cg_id (fh_undo_stack h))"
  by (simp add: get_history_def slice_back_def rev_map comp_def)

section \<open>Examples\<close>

definition demo_undo_codec :: undo_codec where
  "demo_undo_codec = \<lparr>uc_dumps = (\<lambda>v. Inr (json_text v)), uc_loads = (\<lambda>t. Inr (json_back t)), uc_hms = (\<lambda>_. ''10:00:00''), uc_iso = (\<lambda>_. ''2026-01-01T10:00:00'')\<rparr>"

lemma demo_undo_codec_ok: "undo_codec_ok demo_undo_codec"
  using json_text_back orjson_json by (auto simp: undo_codec_ok_def demo_undo_codec_def)

definition demo_changes :: "FileChange list" where
  "demo_changes = [hd demo_group\<lparr>fc_id := ''chg_1''\<rparr>, (demo_group ! 1)\<lparr>fc_id := ''chg_2''\<rparr>, (demo_group ! 2)\<lparr>fc_id := ''chg_3''\<rparr>]"

definition demo_change_group :: ChangeGroup where
  "demo_change_group = \<lparr>cg_id = ''grp_1_edit'', cg_changes = demo_changes, cg_timestamp = 1, cg_description = ''Edit'', cg_tool_name = ''edit'', cg_undone = False,
     cg_session_id = Some ''s'', cg_message_id = None\<rparr>"

definition demo_history :: "ChangeGroup list \<Rightarrow> ChangeGroup option \<Rightarrow> FileChangeHistory" where
  "demo_history gs cur = \<lparr>fh_max_history = 10, fh_session_id = ''s'', fh_undo_stack = gs, fh_redo_stack = [], fh_current_group = cur\<rparr>"

definition empty_db :: undo_db where
  "empty_db = \<lparr>ud_groups = [], ud_changes = [], ud_writes = 0\<rparr>"

lemma double_0: "double 0" and double_1: "double 1"
  unfolding double_def by (rule exI [of _ 0], rule exI [of _ 0], simp, rule exI [of _ 1], rule exI [of _ 0], simp)

lemma demo_group_ok: "group_fits demo_change_group" "ids_free demo_change_group empty_db"
  by (simp_all add: demo_change_group_def demo_changes_def demo_group_def change_def group_fits_def change_fits_def ids_free_def empty_db_def double_0 double_1 dict_ok_def)

definition locked :: py_exc where
  "locked = PyExc ''OperationalError'' ''database is locked''"

lemma locked_is_locked: "locked_error locked" "sqlite_error locked"
  by (simp_all add: locked_def locked_error_def sqlite_error_def) (code_simp)

theorem save_outlasts_locks_witness:
  "\<exists>db. save_group demo_undo_codec (\<lambda>n. if n < 2 then Some locked else None) ''s'' demo_change_group empty_db = (Inr (), db) \<and> ud_writes db = 3"
  using save_outlasts_locks [OF demo_undo_codec_ok demo_group_ok, of 2 "\<lambda>n. if n < 2 then Some locked else None" "''s''"] locked_is_locked(1)
  by (auto simp: empty_db_def)

theorem commit_all_or_nothing_witness:
  "\<exists>h db us. commit_change_group demo_undo_codec (\<lambda>_. None) (demo_history [] (Some demo_change_group)) empty_db = (Inr (Some demo_change_group), h, db) \<and>
     fh_undo_stack h = us @ [demo_change_group] \<and> persisted demo_undo_codec ''s'' demo_change_group db"
proof -
  let ?h = "demo_history [] (Some demo_change_group)"
  obtain db where s: "save_group demo_undo_codec (\<lambda>_. None) ''s'' demo_change_group empty_db = (Inr (), db)"
    using save_free [OF demo_undo_codec_ok demo_group_ok(1) _ demo_group_ok(2), of "\<lambda>_. None" "''s''"] by auto
  have "fst (commit_change_group demo_undo_codec (\<lambda>_. None) ?h empty_db) = Inr (Some demo_change_group)"
    using s by (simp add: commit_change_group_def demo_history_def) (simp add: demo_change_group_def demo_changes_def)
  then show ?thesis
    using commit_all_or_nothing [OF demo_undo_codec_ok _ _ demo_group_ok(1), of ?h "\<lambda>_. None" empty_db]
    by (auto simp: demo_history_def demo_change_group_def demo_changes_def)
qed

definition demo_call_env :: call_env where
  "demo_call_env = \<lparr>ce_group_uuid = ''1'', ce_group_time = 1, ce_change_uuid = ''2'', ce_change_time = 1, ce_correlation = None\<rparr>"

definition demo_args :: change_args where
  "demo_args = \<lparr>ca_file_path = ''a'', ca_change_type = CREATE, ca_original_content = None, ca_new_content = Some ''text'', ca_tool_name = ''write'', ca_tool_args = None,
     ca_original_path = None, ca_message_id = None\<rparr>"

definition recorded_group :: ChangeGroup where
  "recorded_group = \<lparr>cg_id = ''grp_1_write'', cg_changes = [new_change pad64 demo_call_env demo_args (demo_history [] None)], cg_timestamp = 1, cg_description = ''Changed a'',
     cg_tool_name = ''write'', cg_undone = False, cg_session_id = Some ''s'', cg_message_id = None\<rparr>"

lemma demo_recorded: "\<exists>q db. record_change pad64 demo_undo_codec (\<lambda>_. None) demo_call_env demo_args (demo_history [] None) empty_db = (q, demo_history [recorded_group] None, db)"
proof -
  have "change_fits (new_change pad64 demo_call_env demo_args (demo_history [] None))"
    by (simp add: change_fits_def new_change_def demo_call_env_def demo_args_def double_1 dict_ok_def)
  then have "group_fits recorded_group" "ids_free recorded_group empty_db" by (simp_all add: recorded_group_def group_fits_def ids_free_def empty_db_def double_1)
  then obtain db where "save_group demo_undo_codec (\<lambda>_. None) ''s'' recorded_group empty_db = (Inr (), db)"
    using save_free [OF demo_undo_codec_ok, of recorded_group "\<lambda>_. None"] by auto
  then show ?thesis
    by (simp add: record_change_def begin_change_group_def add_change_def commit_change_group_def demo_history_def recorded_group_def demo_call_env_def demo_args_def Let_def)
qed

theorem reload_recent_witness:
  "\<exists>db. tracker_reach pad64 demo_undo_codec (demo_history [recorded_group] None, db) \<and>
     load_recent_history demo_undo_codec 2 ''s'' 10 db = [recorded_group]"
proof -
  obtain q db where r: "record_change pad64 demo_undo_codec (\<lambda>_. None) demo_call_env demo_args (demo_history [] None) empty_db = (q, demo_history [recorded_group] None, db)"
    using demo_recorded by blast
  have start: "tracker_reach pad64 demo_undo_codec (demo_history [] None, empty_db)"
    by (rule reach_start) (simp add: tracker_start_def demo_history_def empty_db_def)
  have "env_ok demo_call_env (demo_history [] None) empty_db" "args_ok demo_args"
    by (simp_all add: env_ok_def args_ok_def demo_call_env_def demo_args_def demo_history_def empty_db_def double_1 dict_ok_def)
  then have reach: "tracker_reach pad64 demo_undo_codec (demo_history [recorded_group] None, db)" using reach_step [OF start step_record [OF _ _ r]] by blast
  then show ?thesis using reload_recent [OF reach demo_undo_codec_ok, of 2] by (auto simp: demo_history_def)
qed

lemma demo_changes_performed: "perform_all demo_changes demo_files = Some (dk_files demo_disk)" "\<forall>c \<in> set demo_changes. contents_plain c"
  by (auto simp: demo_changes_def demo_group_def demo_files_def demo_disk_def perform_def change_def rename_source_def contents_plain_def plain_text_def fun_eq_iff)

theorem undo_redo_identity_witness:
  "\<exists>m h db d. undo pad64 demo_undo_codec (\<lambda>_. False) (\<lambda>_. None) False (demo_history [demo_change_group] None) empty_db demo_disk = (Inr (True, m, [''d'', ''a'', ''b'']), h, db, d) \<and>
     dk_files d = demo_files"
  using undo_redo_identity [OF demo_undo_codec_ok _ _ demo_group_ok, of "demo_history [demo_change_group] None" "[]" "\<lambda>_. None" demo_files demo_disk pad64 "\<lambda>_. False" False]
    demo_changes_performed
  by (auto simp: demo_history_def demo_change_group_def length_pad64 quiet_def) (simp add: demo_changes_def demo_group_def change_def)

end
