(* ===== verification/Cache.thy ===== *)
theory Cache
  imports Prelude
begin

text \<open>
  The generic caches (\<^verbatim>\<open>victor/core/cache.py\<close>). The base class is a record that the caches extend; its abstract methods are a record of
  functions, and \<open>cache_storage\<close> is the contract on which its methods rest. Readings of the clock are numbered; \<open>clk\<close> says what each returns.
\<close>

section \<open>Entries and statistics\<close>

record ('k, 'v) CacheEntry =
  en_key :: 'k
  en_value :: 'v
  en_created_at :: time
  en_last_accessed_at :: time
  en_access_count :: nat
  en_ttl :: "real option"
  en_size :: nat
  en_metadata :: state

type_synonym readings = "nat \<Rightarrow> time"

text \<open>\<^verbatim>\<open>current_time or time.time()\<close>.\<close>

definition time_or_now :: "readings \<Rightarrow> time option \<Rightarrow> nat \<Rightarrow> time \<times> nat" where
  "time_or_now clk current n = (case current of Some t \<Rightarrow> if t \<noteq> 0 then (t, n) else (clk n, Suc n) | None \<Rightarrow> (clk n, Suc n))"

definition entry_expired :: "readings \<Rightarrow> time option \<Rightarrow> ('k, 'v) CacheEntry \<Rightarrow> nat \<Rightarrow> bool \<times> nat" where
  "entry_expired clk current e n =
     (case en_ttl e of
        None \<Rightarrow> (False, n)
      | Some ttl \<Rightarrow> (case time_or_now clk current n of (t, n) \<Rightarrow> (t - en_created_at e > ttl, n)))"

definition touch_entry :: "readings \<Rightarrow> time option \<Rightarrow> ('k, 'v) CacheEntry \<Rightarrow> nat \<Rightarrow> ('k, 'v) CacheEntry \<times> nat" where
  "touch_entry clk current e n =
     (case time_or_now clk current n of (t, n) \<Rightarrow> (e\<lparr>en_last_accessed_at := t, en_access_count := en_access_count e + 1\<rparr>, n))"

definition new_entry :: "readings \<Rightarrow> 'k \<Rightarrow> 'v \<Rightarrow> real option \<Rightarrow> nat \<Rightarrow> ('k, 'v) CacheEntry \<times> nat" where
  "new_entry clk k v ttl n =
     (\<lparr>en_key = k, en_value = v, en_created_at = clk n, en_last_accessed_at = clk (Suc n), en_access_count = 0, en_ttl = ttl, en_size = 0,
       en_metadata = []\<rparr>, Suc (Suc n))"

record CacheStats =
  st_hits :: nat
  st_misses :: nat
  st_sets :: nat
  st_deletes :: nat
  st_evictions :: nat
  st_current_size :: nat
  st_max_size :: int

definition stats_init :: CacheStats where
  "stats_init = \<lparr>st_hits = 0, st_misses = 0, st_sets = 0, st_deletes = 0, st_evictions = 0, st_current_size = 0, st_max_size = 0\<rparr>"

definition total_requests :: "CacheStats \<Rightarrow> nat" where
  "total_requests s = st_hits s + st_misses s"

definition hit_rate :: "CacheStats \<Rightarrow> real" where
  "hit_rate s = (if total_requests s > 0 then real (st_hits s) / real (total_requests s) else 0)"

definition stats_add :: "CacheStats \<Rightarrow> CacheStats \<Rightarrow> CacheStats" where
  "stats_add a b =
     \<lparr>st_hits = st_hits a + st_hits b, st_misses = st_misses a + st_misses b, st_sets = st_sets a + st_sets b, st_deletes = st_deletes a + st_deletes b,
      st_evictions = st_evictions a + st_evictions b, st_current_size = st_current_size a, st_max_size = max (st_max_size a) (st_max_size b)\<rparr>"

section \<open>The base class\<close>

record BaseCache =
  bc_stats :: CacheStats
  bc_reads :: nat

text \<open>The abstract methods. An entry that a method returns is shared with the cache: \<open>co_put\<close> says what changing it does there.\<close>

record ('k, 'v, 's) cache_ops =
  co_get_entry :: "readings \<Rightarrow> 'k \<Rightarrow> 's \<Rightarrow> ('k, 'v) CacheEntry option \<times> 's"
  co_set_entry :: "'k \<Rightarrow> ('k, 'v) CacheEntry \<Rightarrow> 's \<Rightarrow> ('k, 'v) CacheEntry option result \<times> 's"
  co_delete_entry :: "'k \<Rightarrow> 's \<Rightarrow> bool \<times> 's"
  co_clear_entries :: "'s \<Rightarrow> 's"
  co_len :: "'s \<Rightarrow> nat"
  co_put :: "'k \<Rightarrow> ('k, 'v) CacheEntry \<Rightarrow> 's \<Rightarrow> 's"

definition count_stats :: "(CacheStats \<Rightarrow> CacheStats) \<Rightarrow> 'a BaseCache_scheme \<Rightarrow> 'a BaseCache_scheme" where
  "count_stats f s = s\<lparr>bc_stats := f (bc_stats s)\<rparr>"

definition cache_get :: "('k, 'v, 'a BaseCache_scheme) cache_ops \<Rightarrow> readings \<Rightarrow> 'k \<Rightarrow> 'v \<Rightarrow> 'a BaseCache_scheme \<Rightarrow> 'v \<times> 'a BaseCache_scheme" where
  "cache_get ops clk k dflt s =
     (case co_get_entry ops clk k s of
        (None, s) \<Rightarrow> (dflt, count_stats (\<lambda>t. t\<lparr>st_misses := st_misses t + 1\<rparr>) s)
      | (Some e, s) \<Rightarrow>
          (case entry_expired clk None e (bc_reads s) of (expired, n) \<Rightarrow>
             let s = s\<lparr>bc_reads := n\<rparr>
             in if expired then (dflt, count_stats (\<lambda>t. t\<lparr>st_misses := st_misses t + 1\<rparr>) (snd (co_delete_entry ops k s)))
                else case touch_entry clk None e (bc_reads s) of (e, n) \<Rightarrow>
                  (en_value e, count_stats (\<lambda>t. t\<lparr>st_hits := st_hits t + 1\<rparr>) (co_put ops k e (s\<lparr>bc_reads := n\<rparr>)))))"

definition cache_set ::
  "('k, 'v, 'a BaseCache_scheme) cache_ops \<Rightarrow> readings \<Rightarrow> 'k \<Rightarrow> 'v \<Rightarrow> real option \<Rightarrow> 'a BaseCache_scheme \<Rightarrow> unit result \<times> 'a BaseCache_scheme" where
  "cache_set ops clk k v ttl s =
     (case new_entry clk k v ttl (bc_reads s) of (e, n) \<Rightarrow>
        case co_set_entry ops k e (s\<lparr>bc_reads := n\<rparr>) of
          (Inl x, s) \<Rightarrow> (Inl x, s)
        | (Inr evicted, s) \<Rightarrow>
            (Inr (), count_stats (\<lambda>t. t\<lparr>st_sets := st_sets t + 1\<rparr>)
              (if evicted \<noteq> None then count_stats (\<lambda>t. t\<lparr>st_evictions := st_evictions t + 1\<rparr>) s else s)))"

definition cache_delete :: "('k, 'v, 'a BaseCache_scheme) cache_ops \<Rightarrow> 'k \<Rightarrow> 'a BaseCache_scheme \<Rightarrow> bool \<times> 'a BaseCache_scheme" where
  "cache_delete ops k s =
     (case co_delete_entry ops k s of (deleted, s) \<Rightarrow>
        (deleted, if deleted then count_stats (\<lambda>t. t\<lparr>st_deletes := st_deletes t + 1\<rparr>) s else s))"

definition cache_clear :: "('k, 'v, 'a BaseCache_scheme) cache_ops \<Rightarrow> 'a BaseCache_scheme \<Rightarrow> 'a BaseCache_scheme" where
  "cache_clear ops s = co_clear_entries ops s"

definition cache_contains :: "('k, 'v, 'a BaseCache_scheme) cache_ops \<Rightarrow> readings \<Rightarrow> 'k \<Rightarrow> 'a BaseCache_scheme \<Rightarrow> bool \<times> 'a BaseCache_scheme" where
  "cache_contains ops clk k s =
     (case co_get_entry ops clk k s of
        (None, s) \<Rightarrow> (False, s)
      | (Some e, s) \<Rightarrow> (case entry_expired clk None e (bc_reads s) of (expired, n) \<Rightarrow> (\<not> expired, s\<lparr>bc_reads := n\<rparr>)))"

definition cache_stats :: "('k, 'v, 'a BaseCache_scheme) cache_ops \<Rightarrow> 'a BaseCache_scheme \<Rightarrow> CacheStats" where
  "cache_stats ops s = (bc_stats s)\<lparr>st_current_size := co_len ops s\<rparr>"

definition reset_stats :: "'a BaseCache_scheme \<Rightarrow> 'a BaseCache_scheme" where
  "reset_stats s = s\<lparr>bc_stats := stats_init\<lparr>st_max_size := st_max_size (bc_stats s)\<rparr>\<rparr>"

section \<open>Least recently used\<close>

record ('k, 'v) LRUCache = BaseCache +
  lc_max_size :: int
  lc_cache :: "('k, ('k, 'v) CacheEntry) dict"

definition lru_init :: "int \<Rightarrow> ('k, 'v) LRUCache" where
  "lru_init n = \<lparr>bc_stats = stats_init\<lparr>st_max_size := n\<rparr>, bc_reads = 0, lc_max_size = n, lc_cache = []\<rparr>"

text \<open>\<^verbatim>\<open>OrderedDict.move_to_end\<close> of a key that is there.\<close>

definition move_to_end :: "'k \<Rightarrow> ('k, 'e) dict \<Rightarrow> ('k, 'e) dict" where
  "move_to_end k d = (case dict_get d k of None \<Rightarrow> d | Some e \<Rightarrow> dict_pop k d @ [(k, e)])"

definition lru_get_entry :: "readings \<Rightarrow> 'k \<Rightarrow> ('k, 'v) LRUCache \<Rightarrow> ('k, 'v) CacheEntry option \<times> ('k, 'v) LRUCache" where
  "lru_get_entry clk k s =
     (case dict_get (lc_cache s) k of
        None \<Rightarrow> (None, s)
      | Some e \<Rightarrow> (Some e, s\<lparr>lc_cache := move_to_end k (lc_cache s)\<rparr>))"

definition lru_set_entry :: "'k \<Rightarrow> ('k, 'v) CacheEntry \<Rightarrow> ('k, 'v) LRUCache \<Rightarrow> ('k, 'v) CacheEntry option result \<times> ('k, 'v) LRUCache" where
  "lru_set_entry k e s =
     (let s = s\<lparr>bc_stats := (bc_stats s)\<lparr>st_max_size := lc_max_size s\<rparr>\<rparr>;
          d = (if dict_has (lc_cache s) k then move_to_end k (lc_cache s) else lc_cache s)
      in if int (length d) \<ge> lc_max_size s \<and> \<not> dict_has d k
         then (case d of
                 [] \<Rightarrow> (Inl (KeyError ''dictionary is empty''), s)
               | lru # d \<Rightarrow> (Inr (Some (snd lru)), s\<lparr>lc_cache := move_to_end k (dict_set k e d)\<rparr>))
         else (Inr None, s\<lparr>lc_cache := move_to_end k (dict_set k e d)\<rparr>))"

definition lru_delete_entry :: "'k \<Rightarrow> ('k, 'v) LRUCache \<Rightarrow> bool \<times> ('k, 'v) LRUCache" where
  "lru_delete_entry k s = (if dict_has (lc_cache s) k then (True, s\<lparr>lc_cache := dict_pop k (lc_cache s)\<rparr>) else (False, s))"

definition lru_ops :: "('k, 'v, ('k, 'v) LRUCache) cache_ops" where
  "lru_ops = \<lparr>co_get_entry = lru_get_entry, co_set_entry = lru_set_entry, co_delete_entry = lru_delete_entry,
     co_clear_entries = (\<lambda>s. s\<lparr>lc_cache := []\<rparr>), co_len = (\<lambda>s. length (lc_cache s)), co_put = (\<lambda>k e s. s\<lparr>lc_cache := dict_set k e (lc_cache s)\<rparr>)\<rparr>"

definition lru_items :: "('k, 'v) LRUCache \<Rightarrow> ('k \<times> 'v) list" where
  "lru_items s = map (\<lambda>x. (fst x, en_value (snd x))) (lc_cache s)"

definition lru_keys :: "('k, 'v) LRUCache \<Rightarrow> 'k list" where
  "lru_keys s = dict_keys (lc_cache s)"

definition lru_values :: "('k, 'v) LRUCache \<Rightarrow> 'v list" where
  "lru_values s = map en_value (dict_values (lc_cache s))"

section \<open>Time to live\<close>

record ('k, 'v) TTLCache = BaseCache +
  tc_ttl_seconds :: real
  tc_max_size :: int
  tc_cache :: "('k, ('k, 'v) CacheEntry) dict"

definition ttl_init :: "real \<Rightarrow> int \<Rightarrow> ('k, 'v) TTLCache" where
  "ttl_init ttl n = \<lparr>bc_stats = stats_init\<lparr>st_max_size := n\<rparr>, bc_reads = 0, tc_ttl_seconds = ttl, tc_max_size = n, tc_cache = []\<rparr>"

definition ttl_get_entry :: "readings \<Rightarrow> 'k \<Rightarrow> ('k, 'v) TTLCache \<Rightarrow> ('k, 'v) CacheEntry option \<times> ('k, 'v) TTLCache" where
  "ttl_get_entry clk k s =
     (case dict_get (tc_cache s) k of
        None \<Rightarrow> (None, s)
      | Some e \<Rightarrow>
          (case entry_expired clk None e (bc_reads s) of (expired, n) \<Rightarrow>
             let s = s\<lparr>bc_reads := n\<rparr>
             in if expired then (None, s\<lparr>tc_cache := dict_pop k (tc_cache s)\<rparr>) else (Some e, s)))"

definition ttl_set_entry :: "'k \<Rightarrow> ('k, 'v) CacheEntry \<Rightarrow> ('k, 'v) TTLCache \<Rightarrow> ('k, 'v) CacheEntry option result \<times> ('k, 'v) TTLCache" where
  "ttl_set_entry k e s =
     (let e = (if en_ttl e = None then e\<lparr>en_ttl := Some (tc_ttl_seconds s)\<rparr> else e); d = tc_cache s
      in if tc_max_size s > 0 \<and> int (length d) \<ge> tc_max_size s \<and> \<not> dict_has d k
         then (Inr (Some (snd (hd d))), s\<lparr>tc_cache := dict_set k e (tl d)\<rparr>)
         else (Inr None, s\<lparr>tc_cache := dict_set k e d\<rparr>))"

definition ttl_delete_entry :: "'k \<Rightarrow> ('k, 'v) TTLCache \<Rightarrow> bool \<times> ('k, 'v) TTLCache" where
  "ttl_delete_entry k s = (if dict_has (tc_cache s) k then (True, s\<lparr>tc_cache := dict_pop k (tc_cache s)\<rparr>) else (False, s))"

definition ttl_ops :: "('k, 'v, ('k, 'v) TTLCache) cache_ops" where
  "ttl_ops = \<lparr>co_get_entry = ttl_get_entry, co_set_entry = ttl_set_entry, co_delete_entry = ttl_delete_entry,
     co_clear_entries = (\<lambda>s. s\<lparr>tc_cache := []\<rparr>), co_len = (\<lambda>s. length (tc_cache s)), co_put = (\<lambda>k e s. s\<lparr>tc_cache := dict_set k e (tc_cache s)\<rparr>)\<rparr>"

text \<open>The keys of the expired entries, each judged by a reading of its own.\<close>

fun expired_keys :: "readings \<Rightarrow> ('k, ('k, 'v) CacheEntry) dict \<Rightarrow> nat \<Rightarrow> 'k list \<times> nat" where
  "expired_keys clk [] n = ([], n)"
| "expired_keys clk ((k, e) # d) n =
     (case entry_expired clk None e n of (expired, n) \<Rightarrow>
        case expired_keys clk d n of (ks, n) \<Rightarrow> (if expired then k # ks else ks, n))"

definition cleanup_expired :: "readings \<Rightarrow> ('k, 'v) TTLCache \<Rightarrow> nat \<times> ('k, 'v) TTLCache" where
  "cleanup_expired clk s =
     (case expired_keys clk (tc_cache s) (bc_reads s) of (ks, n) \<Rightarrow>
        (length ks, s\<lparr>bc_reads := n, tc_cache := fold dict_pop ks (tc_cache s)\<rparr>))"

definition ttl_items :: "readings \<Rightarrow> ('k, 'v) TTLCache \<Rightarrow> ('k \<times> 'v) list \<times> ('k, 'v) TTLCache" where
  "ttl_items clk s = (case cleanup_expired clk s of (_, s) \<Rightarrow> (map (\<lambda>x. (fst x, en_value (snd x))) (tc_cache s), s))"

definition ttl_keys :: "readings \<Rightarrow> ('k, 'v) TTLCache \<Rightarrow> 'k list \<times> ('k, 'v) TTLCache" where
  "ttl_keys clk s = (case cleanup_expired clk s of (_, s) \<Rightarrow> (dict_keys (tc_cache s), s))"

definition ttl_values :: "readings \<Rightarrow> ('k, 'v) TTLCache \<Rightarrow> 'v list \<times> ('k, 'v) TTLCache" where
  "ttl_values clk s = (case cleanup_expired clk s of (_, s) \<Rightarrow> (map en_value (dict_values (tc_cache s)), s))"

section \<open>Namespaces\<close>

text \<open>Each namespace is a cache of its own, made by the factory when it is first used. All of them read one clock.\<close>

record 's NamespacedCache = BaseCache +
  nc_default_namespace :: string
  nc_namespaces :: "(string, 's) dict"

definition namespaced_init :: "string \<Rightarrow> 's NamespacedCache" where
  "namespaced_init ns = \<lparr>bc_stats = stats_init, bc_reads = 0, nc_default_namespace = ns, nc_namespaces = []\<rparr>"

definition namespace_or_default :: "string option \<Rightarrow> 's NamespacedCache \<Rightarrow> string" where
  "namespace_or_default ns s = (case ns of Some (c # cs) \<Rightarrow> c # cs | _ \<Rightarrow> nc_default_namespace s)"

definition get_namespace :: "'s \<Rightarrow> string \<Rightarrow> 's NamespacedCache \<Rightarrow> 's \<times> 's NamespacedCache" where
  "get_namespace fresh ns s =
     (case dict_get (nc_namespaces s) ns of
        Some c \<Rightarrow> (c, s)
      | None \<Rightarrow> (fresh, s\<lparr>nc_namespaces := dict_set ns fresh (nc_namespaces s)\<rparr>))"

definition in_namespace ::
  "'a BaseCache_scheme \<Rightarrow> string \<Rightarrow> ('a BaseCache_scheme \<Rightarrow> 'r \<times> 'a BaseCache_scheme) \<Rightarrow> 'a BaseCache_scheme NamespacedCache \<Rightarrow>
     'r \<times> 'a BaseCache_scheme NamespacedCache" where
  "in_namespace fresh ns f s =
     (case get_namespace fresh ns s of (c, s) \<Rightarrow>
        case f (c\<lparr>bc_reads := bc_reads s\<rparr>) of (r, c) \<Rightarrow> (r, s\<lparr>bc_reads := bc_reads c, nc_namespaces := dict_set ns c (nc_namespaces s)\<rparr>))"

definition ns_get ::
  "('k, 'v, 'a BaseCache_scheme) cache_ops \<Rightarrow> readings \<Rightarrow> 'a BaseCache_scheme \<Rightarrow> 'k \<Rightarrow> 'v \<Rightarrow> string option \<Rightarrow> 'a BaseCache_scheme NamespacedCache \<Rightarrow>
     'v \<times> 'a BaseCache_scheme NamespacedCache" where
  "ns_get ops clk fresh k dflt ns s = in_namespace fresh (namespace_or_default ns s) (cache_get ops clk k dflt) s"

definition ns_set ::
  "('k, 'v, 'a BaseCache_scheme) cache_ops \<Rightarrow> readings \<Rightarrow> 'a BaseCache_scheme \<Rightarrow> 'k \<Rightarrow> 'v \<Rightarrow> string option \<Rightarrow> real option \<Rightarrow>
     'a BaseCache_scheme NamespacedCache \<Rightarrow> unit result \<times> 'a BaseCache_scheme NamespacedCache" where
  "ns_set ops clk fresh k v ns ttl s = in_namespace fresh (namespace_or_default ns s) (cache_set ops clk k v ttl) s"

definition ns_delete ::
  "('k, 'v, 'a BaseCache_scheme) cache_ops \<Rightarrow> 'a BaseCache_scheme \<Rightarrow> 'k \<Rightarrow> string option \<Rightarrow> 'a BaseCache_scheme NamespacedCache \<Rightarrow>
     bool \<times> 'a BaseCache_scheme NamespacedCache" where
  "ns_delete ops fresh k ns s = in_namespace fresh (namespace_or_default ns s) (cache_delete ops k) s"

definition ns_clear :: "('k, 'v, 'a BaseCache_scheme) cache_ops \<Rightarrow> string option \<Rightarrow> 'a BaseCache_scheme NamespacedCache \<Rightarrow> 'a BaseCache_scheme NamespacedCache" where
  "ns_clear ops ns s =
     (case ns of
        Some n \<Rightarrow> (case dict_get (nc_namespaces s) n of
            Some c \<Rightarrow> s\<lparr>nc_namespaces := dict_set n (cache_clear ops c) (nc_namespaces s)\<rparr>
          | None \<Rightarrow> s)
      | None \<Rightarrow> s\<lparr>nc_namespaces := map (\<lambda>x. (fst x, cache_clear ops (snd x))) (nc_namespaces s)\<rparr>)"

definition clear_namespace ::
  "('k, 'v, 'a BaseCache_scheme) cache_ops \<Rightarrow> string \<Rightarrow> 'a BaseCache_scheme NamespacedCache \<Rightarrow> nat \<times> 'a BaseCache_scheme NamespacedCache" where
  "clear_namespace ops ns s =
     (case dict_get (nc_namespaces s) ns of
        None \<Rightarrow> (0, s)
      | Some c \<Rightarrow> (co_len ops c, s\<lparr>nc_namespaces := dict_set ns (cache_clear ops c) (nc_namespaces s)\<rparr>))"

definition ns_len :: "('k, 'v, 'a BaseCache_scheme) cache_ops \<Rightarrow> 'a BaseCache_scheme NamespacedCache \<Rightarrow> nat" where
  "ns_len ops s = sum_list (map (\<lambda>x. co_len ops (snd x)) (nc_namespaces s))"

text \<open>\<^verbatim>\<open>any\<close> stops at the first namespace that has the key.\<close>

fun any_contains ::
  "('k, 'v, 'a BaseCache_scheme) cache_ops \<Rightarrow> readings \<Rightarrow> 'k \<Rightarrow> (string, 'a BaseCache_scheme) dict \<Rightarrow> nat \<Rightarrow> bool \<times> (string, 'a BaseCache_scheme) dict \<times> nat" where
  "any_contains ops clk k [] n = (False, [], n)"
| "any_contains ops clk k ((ns, c) # d) n =
     (case cache_contains ops clk k (c\<lparr>bc_reads := n\<rparr>) of (found, c) \<Rightarrow>
        if found then (True, (ns, c) # d, bc_reads c)
        else case any_contains ops clk k d (bc_reads c) of (r, d, n) \<Rightarrow> (r, (ns, c) # d, n))"

definition ns_contains ::
  "('k, 'v, 'a BaseCache_scheme) cache_ops \<Rightarrow> readings \<Rightarrow> 'k \<Rightarrow> 'a BaseCache_scheme NamespacedCache \<Rightarrow> bool \<times> 'a BaseCache_scheme NamespacedCache" where
  "ns_contains ops clk k s =
     (case any_contains ops clk k (nc_namespaces s) (bc_reads s) of (r, d, n) \<Rightarrow> (r, s\<lparr>nc_namespaces := d, bc_reads := n\<rparr>))"

definition ns_cache_stats :: "('k, 'v, 'a BaseCache_scheme) cache_ops \<Rightarrow> 'a BaseCache_scheme NamespacedCache \<Rightarrow> CacheStats" where
  "ns_cache_stats ops s = (fold (\<lambda>x t. stats_add t (cache_stats ops (snd x))) (nc_namespaces s) stats_init)\<lparr>st_current_size := ns_len ops s\<rparr>"

text \<open>Its own abstract methods work on the default namespace.\<close>

definition ns_ops ::
  "('k, 'v, 'a BaseCache_scheme) cache_ops \<Rightarrow> 'a BaseCache_scheme \<Rightarrow> ('k, 'v, 'a BaseCache_scheme NamespacedCache) cache_ops" where
  "ns_ops ops fresh =
     \<lparr>co_get_entry = (\<lambda>clk k s. in_namespace fresh (nc_default_namespace s) (co_get_entry ops clk k) s),
      co_set_entry = (\<lambda>k e s. in_namespace fresh (nc_default_namespace s) (co_set_entry ops k e) s),
      co_delete_entry = (\<lambda>k s. in_namespace fresh (nc_default_namespace s) (co_delete_entry ops k) s),
      co_clear_entries = ns_clear ops None,
      co_len = ns_len ops,
      co_put = (\<lambda>k e s. snd (in_namespace fresh (nc_default_namespace s) (\<lambda>c. ((), co_put ops k e c)) s))\<rparr>"

section \<open>Memoised functions\<close>

text \<open>The wrapper of \<^verbatim>\<open>cached\<close>: \<open>None\<close> is the result \<^verbatim>\<open>None\<close>. The key of the arguments is a parameter.\<close>

definition memo_call ::
  "('k, 'r option, 'a BaseCache_scheme) cache_ops \<Rightarrow> readings \<Rightarrow> ('x \<Rightarrow> 'k) \<Rightarrow> real option \<Rightarrow> ('x \<Rightarrow> 'r option) \<Rightarrow> 'x \<Rightarrow> 'a BaseCache_scheme \<Rightarrow>
     'r option result \<times> 'a BaseCache_scheme" where
  "memo_call ops clk key_fn ttl func x s =
     (case cache_get ops clk (key_fn x) None s of
        (Some r, s) \<Rightarrow> (Inr (Some r), s)
      | (None, s) \<Rightarrow>
          (case cache_set ops clk (key_fn x) (func x) ttl s of
             (Inl e, s) \<Rightarrow> (Inl e, s)
           | (Inr _, s) \<Rightarrow> (Inr (func x), s)))"

end
