(* ===== verification/Cache_Properties.thy ===== *)
theory Cache_Properties
  imports Cache
begin

text \<open>
  What the caches promise: an answer is the value that was last stored or the default, whatever is evicted and expires; the least recently used cache
  keeps what was used recently; a memoised function gives the results of the function.
\<close>

section \<open>The contract of the abstract methods\<close>

locale cache_storage =
  fixes ops :: "('k, 'v, 'a BaseCache_scheme) cache_ops"
    and clk :: readings
    and entry_of :: "'a BaseCache_scheme \<Rightarrow> 'k \<Rightarrow> ('k, 'v) CacheEntry option"
    and ok :: "'a BaseCache_scheme \<Rightarrow> bool"
  assumes base_ok: "ok (s\<lparr>bc_reads := n\<rparr>) = ok s" "ok (s\<lparr>bc_stats := t\<rparr>) = ok s"
    and base_entry: "entry_of (s\<lparr>bc_reads := n\<rparr>) = entry_of s" "entry_of (s\<lparr>bc_stats := t\<rparr>) = entry_of s"
    and get_entry: "ok s \<Longrightarrow> co_get_entry ops clk k s = (r, s') \<Longrightarrow>
      ok s' \<and> (case r of None \<Rightarrow> entry_of s' \<subseteq>\<^sub>m entry_of s | Some e \<Rightarrow> entry_of s k = Some e \<and> entry_of s' = entry_of s)"
    and set_entry: "ok s \<Longrightarrow> \<exists>ev s' e'. co_set_entry ops k e s = (Inr ev, s') \<and> ok s' \<and> entry_of s' k = Some e' \<and> en_value e' = en_value e \<and>
      (\<forall>x. x \<noteq> k \<longrightarrow> entry_of s' x = None \<or> entry_of s' x = entry_of s x)"
    and delete_entry: "ok s \<Longrightarrow> co_delete_entry ops k s = (b, s') \<Longrightarrow> ok s' \<and> entry_of s' = (entry_of s)(k := None) \<and> (b \<longleftrightarrow> entry_of s k \<noteq> None)"
    and clear_entries: "ok s \<Longrightarrow> ok (co_clear_entries ops s) \<and> entry_of (co_clear_entries ops s) = Map.empty"
    and put_entry: "ok s \<Longrightarrow> entry_of s k \<noteq> None \<Longrightarrow> ok (co_put ops k e s) \<and> entry_of (co_put ops k e s) = (entry_of s)(k \<mapsto> e)"
begin

text \<open>The entries of a cache are among those of a dictionary that evicts nothing.\<close>

definition agrees :: "('k \<Rightarrow> 'v option) \<Rightarrow> 'a BaseCache_scheme \<Rightarrow> bool" where
  "agrees m s \<longleftrightarrow> ok s \<and> (\<forall>k e. entry_of s k = Some e \<longrightarrow> m k = Some (en_value e))"

lemma agrees_base: "agrees m (s\<lparr>bc_reads := n\<rparr>) = agrees m s" "agrees m (s\<lparr>bc_stats := t\<rparr>) = agrees m s" "agrees m (count_stats f s) = agrees m s"
  by (simp_all add: agrees_def base_ok base_entry count_stats_def)

lemma agrees_get:
  assumes "agrees m s" "cache_get ops clk k dflt s = (v, s')"
  shows "agrees m s' \<and> (v = dflt \<or> m k = Some v)"
proof -
  obtain r s1 where r: "co_get_entry ops clk k s = (r, s1)" by (rule prod.exhaust)
  have ok: "ok s" using assms(1) by (simp add: agrees_def)
  have a1: "agrees m s1" using get_entry [OF ok r] assms(1) by (cases r) (auto simp: agrees_def map_le_def dom_def)
  show ?thesis
  proof (cases r)
    case None
    then show ?thesis using a1 r assms(2) by (auto simp: cache_get_def agrees_base)
  next
    case (Some e)
    have e: "entry_of s1 k = Some e" using get_entry [OF ok r] by (auto simp: Some)
    obtain x n where x: "entry_expired clk None e (bc_reads s1) = (x, n)" by (rule prod.exhaust)
    let ?s = "s1\<lparr>bc_reads := n\<rparr>"
    have a2: "agrees m ?s" using a1 by (simp add: agrees_base)
    then have ok2: "ok ?s" by (simp add: agrees_def)
    show ?thesis
    proof (cases x)
      case True
      obtain b s2 where d: "co_delete_entry ops k ?s = (b, s2)" by (rule prod.exhaust)
      have "agrees m s2" using delete_entry [OF ok2 d] a2 by (auto simp: agrees_def)
      then show ?thesis using assms(2) r Some x True d by (auto simp: cache_get_def agrees_base)
    next
      case False
      obtain e' n' where t: "touch_entry clk None e n = (e', n')" by (rule prod.exhaust)
      have v: "en_value e' = en_value e" using t by (auto simp: touch_entry_def split: prod.splits)
      have "m k = Some (en_value e')" using a1 e v by (simp add: agrees_def)
      moreover have "agrees m (co_put ops k e' (s1\<lparr>bc_reads := n'\<rparr>))"
        using put_entry [of "s1\<lparr>bc_reads := n'\<rparr>" k e'] a1 e v by (auto simp: agrees_def base_ok base_entry)
      ultimately show ?thesis using assms(2) r Some x False t by (auto simp: cache_get_def agrees_base)
    qed
  qed
qed

lemma agrees_set:
  assumes "agrees m s"
  shows "\<exists>s'. cache_set ops clk k v ttl s = (Inr (), s') \<and> agrees (m(k \<mapsto> v)) s'"
proof -
  obtain e n where e: "new_entry clk k v ttl (bc_reads s) = (e, n)" by (rule prod.exhaust)
  have v: "en_value e = v" using e by (auto simp: new_entry_def)
  have "ok (s\<lparr>bc_reads := n\<rparr>)" using assms by (simp add: agrees_def base_ok)
  from set_entry [OF this, of k e] obtain ev s' e' where s': "co_set_entry ops k e (s\<lparr>bc_reads := n\<rparr>) = (Inr ev, s')" "ok s'" "entry_of s' k = Some e'"
    "en_value e' = v" "\<forall>x. x \<noteq> k \<longrightarrow> entry_of s' x = None \<or> entry_of s' x = entry_of s x"
    by (auto simp: base_entry v)
  have "(m(k \<mapsto> v)) x = Some (en_value y)" if "entry_of s' x = Some y" for x y using that s'(3-5) assms by (cases "x = k") (auto simp: agrees_def)
  then have "agrees (m(k \<mapsto> v)) s'" using s'(2) by (simp add: agrees_def)
  then show ?thesis using e s'(1) by (simp add: cache_set_def agrees_base)
qed

lemma agrees_delete:
  assumes "agrees m s" "cache_delete ops k s = (b, s')"
  shows "agrees (m(k := None)) s' \<and> (b \<longrightarrow> m k \<noteq> None)"
proof -
  obtain b' s1 where d: "co_delete_entry ops k s = (b', s1)" by (rule prod.exhaust)
  have "agrees (m(k := None)) s1 \<and> (b' \<longrightarrow> m k \<noteq> None)" using delete_entry [OF _ d] assms(1) by (auto simp: agrees_def)
  then show ?thesis using assms(2) d by (auto simp: cache_delete_def agrees_base split: if_splits)
qed

lemma agrees_clear: "agrees m s \<Longrightarrow> agrees Map.empty (cache_clear ops s)"
  using clear_entries [of s] by (simp add: agrees_def cache_clear_def)

lemma agrees_contains:
  assumes "agrees m s" "cache_contains ops clk k s = (b, s')"
  shows "agrees m s' \<and> (b \<longrightarrow> m k \<noteq> None)"
proof -
  obtain r s1 where r: "co_get_entry ops clk k s = (r, s1)" by (rule prod.exhaust)
  have ok: "ok s" using assms(1) by (simp add: agrees_def)
  have "agrees m s1" using get_entry [OF ok r] assms(1) by (cases r) (auto simp: agrees_def map_le_def dom_def)
  moreover have "r \<noteq> None \<longrightarrow> m k \<noteq> None" using get_entry [OF ok r] assms(1) by (auto simp: agrees_def)
  ultimately show ?thesis using assms(2) r by (cases r) (auto simp: cache_contains_def agrees_base split: prod.splits)
qed

end

section \<open>Calls of a cache\<close>

datatype ('k, 'v) cache_call = CGet 'k 'v | CSet 'k 'v "real option" | CDelete 'k | CClear | CContains 'k

datatype 'v cache_answer = Value 'v | Flag bool | Done "unit result"

fun call_cache :: "('k, 'v, 'a BaseCache_scheme) cache_ops \<Rightarrow> readings \<Rightarrow> ('k, 'v) cache_call \<Rightarrow> 'a BaseCache_scheme \<Rightarrow> 'v cache_answer \<times> 'a BaseCache_scheme" where
  "call_cache ops clk (CGet k dflt) s = apfst Value (cache_get ops clk k dflt s)"
| "call_cache ops clk (CSet k v ttl) s = apfst Done (cache_set ops clk k v ttl s)"
| "call_cache ops clk (CDelete k) s = apfst Flag (cache_delete ops k s)"
| "call_cache ops clk CClear s = (Done (Inr ()), cache_clear ops s)"
| "call_cache ops clk (CContains k) s = apfst Flag (cache_contains ops clk k s)"

text \<open>The same calls on a dictionary that evicts nothing.\<close>

fun map_call :: "('k, 'v) cache_call \<Rightarrow> ('k \<Rightarrow> 'v option) \<Rightarrow> 'k \<Rightarrow> 'v option" where
  "map_call (CSet k v ttl) m = m(k \<mapsto> v)"
| "map_call (CDelete k) m = m(k := None)"
| "map_call CClear m = Map.empty"
| "map_call _ m = m"

text \<open>An answer that this dictionary permits: its value or the default; yes only if it has the key; no exception.\<close>

fun permitted :: "('k, 'v) cache_call \<Rightarrow> ('k \<Rightarrow> 'v option) \<Rightarrow> 'v cache_answer \<Rightarrow> bool" where
  "permitted (CGet k dflt) m a = (a = Value dflt \<or> (\<exists>v. m k = Some v \<and> a = Value v))"
| "permitted (CSet k v ttl) m a = (a = Done (Inr ()))"
| "permitted (CDelete k) m a = (a = Flag False \<or> a = Flag True \<and> m k \<noteq> None)"
| "permitted CClear m a = (a = Done (Inr ()))"
| "permitted (CContains k) m a = (a = Flag False \<or> a = Flag True \<and> m k \<noteq> None)"

context cache_storage
begin

lemma call_agrees:
  assumes "agrees m s" "call_cache ops clk c s = (a, s')"
  shows "agrees (map_call c m) s' \<and> permitted c m a"
proof (cases c)
  case (CGet k d)
  then show ?thesis using agrees_get [OF assms(1), of k d] assms(2) by (cases "cache_get ops clk k d s") auto
next
  case (CSet k v ttl)
  then show ?thesis using agrees_set [OF assms(1), of k v ttl] assms(2) by auto
next
  case (CDelete k)
  then show ?thesis using agrees_delete [OF assms(1), of k] assms(2) by (cases "cache_delete ops k s") auto
next
  case CClear
  then show ?thesis using agrees_clear [OF assms(1)] assms(2) by auto
next
  case (CContains k)
  then show ?thesis using agrees_contains [OF assms(1), of k] assms(2) by (cases "cache_contains ops clk k s") auto
qed

lemma call_ok:
  assumes "ok s" "call_cache ops clk c s = (a, s')"
  shows "ok s'"
proof -
  have "agrees (\<lambda>k. map_option en_value (entry_of s k)) s" using assms(1) by (simp add: agrees_def)
  from call_agrees [OF this assms(2)] show ?thesis by (simp add: agrees_def)
qed

lemma calls_agree: "agrees m s \<Longrightarrow> i < length cs \<Longrightarrow> permitted (cs ! i) (fold map_call (take i cs) m) (fst (answers (call_cache ops clk) cs s) ! i)"
proof (induction cs arbitrary: m s i)
  case (Cons c cs)
  obtain a s1 where c: "call_cache ops clk c s = (a, s1)" by (rule prod.exhaust)
  note A = call_agrees [OF Cons.prems(1) c]
  show ?case
  proof (cases i)
    case 0
    then show ?thesis using A c by (auto split: prod.splits)
  next
    case (Suc j)
    then show ?thesis using Cons.IH [of "map_call c m" s1 j] A Cons.prems(2) c by (auto split: prod.splits)
  qed
qed simp

end

section \<open>Memoised functions\<close>

text \<open>A function whose results are those of \<open>f\<close> on the key: the cache holds values of \<open>f\<close>.\<close>

locale memo_storage = cache_storage ops clk entry_of ok
  for ops :: "('k, 'r option, 'a BaseCache_scheme) cache_ops" and clk entry_of ok
begin

lemma memo_step:
  assumes "agrees (\<lambda>k. Some (f k)) s" "\<forall>x. func x = f (key_fn x)"
  shows "\<exists>s'. memo_call ops clk key_fn ttl func x s = (Inr (func x), s') \<and> agrees (\<lambda>k. Some (f k)) s'"
proof -
  let ?m = "\<lambda>k. Some (f k)"
  obtain v s1 where g: "cache_get ops clk (key_fn x) None s = (v, s1)" by (rule prod.exhaust)
  have a: "agrees ?m s1" "v = None \<or> v = func x" using agrees_get [OF assms(1) g] assms(2) by auto
  show ?thesis
  proof (cases v)
    case None
    obtain s2 where "cache_set ops clk (key_fn x) (func x) ttl s1 = (Inr (), s2)" "agrees (?m(key_fn x \<mapsto> func x)) s2" using agrees_set [OF a(1)] by blast
    moreover have "?m(key_fn x \<mapsto> func x) = ?m" using assms(2) by auto
    ultimately show ?thesis using g None by (simp add: memo_call_def)
  next
    case (Some r)
    then have "func x = Some r" using a(2) by auto
    then show ?thesis using g a(1) Some by (simp add: memo_call_def)
  qed
qed

lemma memo_run:
  assumes "agrees (\<lambda>k. Some (f k)) s" "\<forall>x. func x = f (key_fn x)"
  shows "fst (answers (memo_call ops clk key_fn ttl func) xs s) = map (\<lambda>x. Inr (func x)) xs"
  using assms(1)
proof (induction xs arbitrary: s)
  case (Cons x xs)
  obtain s' where "memo_call ops clk key_fn ttl func x s = (Inr (func x), s')" "agrees (\<lambda>k. Some (f k)) s'" using memo_step [OF Cons.prems assms(2)] by blast
  then show ?case using Cons.IH [of s'] by (auto split: prod.splits)
qed simp

end

section \<open>Moving an entry to the end\<close>

lemma dict_pop_filter: "dict_pop k d = filter (\<lambda>x. fst x \<noteq> k) d"
  by (induction d) auto

lemma move_to_end_set: "dict_ok d \<Longrightarrow> move_to_end k (dict_set k e d) = dict_pop k d @ [(k, e)]"
  by (simp add: move_to_end_def dict_get_set delete_update_same)

lemma get_last: "dict_get (dict_pop k d @ [(k, e)]) x = (if x = k then Some e else dict_get d x)"
  by (auto simp: map_add_def dict_get_pop split: option.splits)

lemma ok_last: "dict_ok d \<Longrightarrow> dict_ok (dict_pop k d @ [(k, e)])"
  by (auto simp: dict_ok_def dict_pop_filter distinct_map_filter)

lemma length_pop: "dict_ok d \<Longrightarrow> length (dict_pop k d) = (if dict_has d k then length d - 1 else length d)"
proof -
  assume d: "dict_ok d"
  have "length (dict_pop k d) = card (fst ` set (dict_pop k d))" using distinct_card [of "map fst (dict_pop k d)"] dict_ok_pop [OF d, of k] by (simp add: dict_ok_def)
  also have "fst ` set (dict_pop k d) = fst ` set d - {k}" by (auto simp: dict_pop_filter)
  also have "card (fst ` set d - {k}) = (if dict_has d k then length d - 1 else length d)"
    using distinct_card [of "map fst d"] d by (auto simp: dict_ok_def dict_has_keys dict_keys_def card_Diff_singleton_if)
  finally show ?thesis .
qed

lemma move_to_end_facts:
  assumes "dict_ok d"
  shows "dict_ok (move_to_end k d)" "dict_get (move_to_end k d) = dict_get d" "length (move_to_end k d) = length d"
proof -
  have "dict_ok (move_to_end k d) \<and> dict_get (move_to_end k d) = dict_get d \<and> length (move_to_end k d) = length d"
  proof (cases "dict_get d k")
    case (Some e)
    have "d \<noteq> []" using Some by auto
    then show ?thesis using Some assms ok_last [OF assms, of k e] length_pop [OF assms, of k]
      by (auto simp: move_to_end_def get_last dict_has_def fun_eq_iff simp del: map_of_append)
  qed (simp add: move_to_end_def assms)
  then show "dict_ok (move_to_end k d)" "dict_get (move_to_end k d) = dict_get d" "length (move_to_end k d) = length d" by auto
qed

lemma dict_set_length: "length (dict_set k e d) = (if dict_has d k then length d else Suc (length d))"
proof -
  have "length (dict_set k e d) = length (dict_keys (dict_set k e d))" by (simp add: dict_keys_def)
  also have "\<dots> = (if dict_has d k then length d else Suc (length d))" unfolding dict_keys_set by (simp add: dict_keys_def)
  finally show ?thesis .
qed

section \<open>The caches keep the contract\<close>

definition lru_ok :: "('k, 'v) LRUCache \<Rightarrow> bool" where
  "lru_ok s \<longleftrightarrow> dict_ok (lc_cache s) \<and> lc_max_size s \<ge> 1 \<and> int (length (lc_cache s)) \<le> lc_max_size s"

definition ttl_ok :: "('k, 'v) TTLCache \<Rightarrow> bool" where
  "ttl_ok s \<longleftrightarrow> dict_ok (tc_cache s) \<and> (tc_max_size s > 0 \<longrightarrow> int (length (tc_cache s)) \<le> tc_max_size s)"

text \<open>What storing does to the dictionary of the least recently used cache.\<close>

lemma lru_set_cache:
  assumes "lru_ok s"
  shows "\<exists>ev d. lru_set_entry k e s = (Inr ev, s\<lparr>bc_stats := (bc_stats s)\<lparr>st_max_size := lc_max_size s\<rparr>, lc_cache := dict_pop k d @ [(k, e)]\<rparr>) \<and>
    (if dict_has (lc_cache s) k \<or> int (length (lc_cache s)) < lc_max_size s then dict_pop k d = dict_pop k (lc_cache s) \<and> ev = None
     else d = tl (lc_cache s) \<and> lc_cache s \<noteq> [] \<and> ev = Some (snd (hd (lc_cache s)))) \<and> dict_ok d"
proof -
  let ?d = "lc_cache s"
  have ok: "dict_ok ?d" "lc_max_size s \<ge> 1" using assms by (simp_all add: lru_ok_def)
  show ?thesis
  proof (cases "dict_has ?d k")
    case True
    obtain x where x: "dict_get ?d k = Some x" using True by (auto simp: dict_has_def)
    have "dict_pop k (move_to_end k ?d) = dict_pop k ?d" using x by (simp add: move_to_end_def dict_pop_filter)
    moreover have "dict_has (move_to_end k ?d) k" using True move_to_end_facts(2) [OF ok(1), of k] by (simp add: dict_has_def)
    ultimately show ?thesis using True move_to_end_facts(1) [OF ok(1), of k] move_to_end_set [of "move_to_end k ?d" k e]
      by (intro exI [of _ None] exI [of _ "move_to_end k ?d"]) (simp add: lru_set_entry_def Let_def)
  next
    case False
    show ?thesis
    proof (cases "int (length ?d) < lc_max_size s")
      case True
      then show ?thesis using False ok move_to_end_set [OF ok(1), of k e] by (intro exI [of _ None] exI [of _ ?d]) (simp add: lru_set_entry_def Let_def)
    next
      case full: False
      then obtain x d where d: "?d = x # d" using ok(2) by (cases ?d) auto
      then have "dict_ok d" using ok(1) by (simp add: dict_ok_def)
      then show ?thesis using False full d move_to_end_set [of d k e] by (intro exI [of _ "Some (snd x)"] exI [of _ d]) (simp add: lru_set_entry_def Let_def)
    qed
  qed
qed

lemma get_tl: "dict_ok d \<Longrightarrow> dict_get (tl d) x = None \<or> dict_get (tl d) x = dict_get d x"
  by (cases d) (auto simp: dict_ok_def map_of_eq_None_iff)

lemma lru_set_storage:
  assumes "lru_ok s"
  shows "\<exists>ev s'. lru_set_entry k e s = (Inr ev, s') \<and> lru_ok s' \<and> dict_get (lc_cache s') k = Some e \<and>
    (\<forall>x. x \<noteq> k \<longrightarrow> dict_get (lc_cache s') x = None \<or> dict_get (lc_cache s') x = dict_get (lc_cache s) x)"
proof -
  let ?d = "lc_cache s"
  have ok: "dict_ok ?d" "lc_max_size s \<ge> 1" "int (length ?d) \<le> lc_max_size s" using assms by (simp_all add: lru_ok_def)
  obtain ev d where S: "lru_set_entry k e s = (Inr ev, s\<lparr>bc_stats := (bc_stats s)\<lparr>st_max_size := lc_max_size s\<rparr>, lc_cache := dict_pop k d @ [(k, e)]\<rparr>)"
    "if dict_has ?d k \<or> int (length ?d) < lc_max_size s then dict_pop k d = dict_pop k ?d \<and> ev = None else d = tl ?d \<and> ?d \<noteq> [] \<and> ev = Some (snd (hd ?d))" "dict_ok d"
    using lru_set_cache [OF assms, of k e] by blast
  have len: "int (length (dict_pop k d @ [(k, e)])) \<le> lc_max_size s"
  proof (cases "dict_has ?d k \<or> int (length ?d) < lc_max_size s")
    case True
    moreover have "dict_has ?d k \<Longrightarrow> length ?d > 0" by (cases ?d) (auto simp: dict_has_def)
    ultimately show ?thesis using S(2) ok length_pop [OF ok(1), of k] by (auto split: if_splits)
  next
    case False
    then show ?thesis using S(2,3) ok length_pop [of d k] by (cases ?d) (auto split: if_splits)
  qed
  have "dict_get (dict_pop k d @ [(k, e)]) x = None \<or> dict_get (dict_pop k d @ [(k, e)]) x = dict_get ?d x" if "x \<noteq> k" for x
  proof -
    have x: "dict_get (dict_pop k d @ [(k, e)]) x = dict_get (dict_pop k d) x" using that by (simp add: get_last dict_get_pop del: map_of_append)
    have "dict_pop k d = dict_pop k ?d \<or> d = tl ?d" using S(2) by (auto split: if_splits)
    then show ?thesis unfolding x using that get_tl [OF ok(1), of x] by (elim disjE) (simp_all add: dict_get_pop)
  qed
  then show ?thesis using S(1) ok_last [OF S(3), of k e] len ok(2) by (auto simp: lru_ok_def get_last simp del: map_of_append)
qed

interpretation lru: cache_storage lru_ops clk "\<lambda>s. dict_get (lc_cache s)" lru_ok for clk
proof
  fix s s' :: "('k, 'v) LRUCache" and k r
  assume "lru_ok s" "co_get_entry lru_ops clk k s = (r, s')"
  then show "lru_ok s' \<and> (case r of None \<Rightarrow> dict_get (lc_cache s') \<subseteq>\<^sub>m dict_get (lc_cache s)
      | Some e \<Rightarrow> dict_get (lc_cache s) k = Some e \<and> dict_get (lc_cache s') = dict_get (lc_cache s))"
    using move_to_end_facts [of "lc_cache s" k] by (auto simp: lru_ops_def lru_get_entry_def lru_ok_def split: option.splits)
next
  fix s :: "('k, 'v) LRUCache" and k e
  assume "lru_ok s"
  from lru_set_storage [OF this, of k e]
  show "\<exists>ev s' e'. co_set_entry lru_ops k e s = (Inr ev, s') \<and> lru_ok s' \<and> dict_get (lc_cache s') k = Some e' \<and> en_value e' = en_value e \<and>
      (\<forall>x. x \<noteq> k \<longrightarrow> dict_get (lc_cache s') x = None \<or> dict_get (lc_cache s') x = dict_get (lc_cache s) x)"
    by (auto simp: lru_ops_def)
next
  fix s s' :: "('k, 'v) LRUCache" and k b
  assume "lru_ok s" "co_delete_entry lru_ops k s = (b, s')"
  then show "lru_ok s' \<and> dict_get (lc_cache s') = (dict_get (lc_cache s))(k := None) \<and> (b \<longleftrightarrow> dict_get (lc_cache s) k \<noteq> None)"
    using length_pop [of "lc_cache s" k] by (auto simp: lru_ops_def lru_delete_entry_def lru_ok_def dict_get_pop dict_has_def fun_eq_iff split: if_splits)
next
  fix s :: "('k, 'v) LRUCache" and k e
  assume s: "lru_ok s" "dict_get (lc_cache s) k \<noteq> None"
  then have "length (dict_set k e (lc_cache s)) = length (lc_cache s)"
    by (simp add: dict_set_length dict_has_def)
  then show "lru_ok (co_put lru_ops k e s) \<and> dict_get (lc_cache (co_put lru_ops k e s)) = (dict_get (lc_cache s))(k \<mapsto> e)"
    using s by (auto simp: lru_ops_def lru_ok_def dict_get_set fun_eq_iff)
qed (auto simp: lru_ok_def lru_ops_def)

lemma ttl_set_storage:
  assumes "ttl_ok s"
  shows "\<exists>ev s' e'. ttl_set_entry k e s = (Inr ev, s') \<and> ttl_ok s' \<and> dict_get (tc_cache s') k = Some e' \<and> en_value e' = en_value e \<and>
    (\<forall>x. x \<noteq> k \<longrightarrow> dict_get (tc_cache s') x = None \<or> dict_get (tc_cache s') x = dict_get (tc_cache s) x)"
proof -
  let ?e = "if en_ttl e = None then e\<lparr>en_ttl := Some (tc_ttl_seconds s)\<rparr> else e" and ?d = "tc_cache s"
  have ok: "dict_ok ?d" "tc_max_size s > 0 \<Longrightarrow> int (length ?d) \<le> tc_max_size s" using assms by (simp_all add: ttl_ok_def)
  show ?thesis
  proof (cases "tc_max_size s > 0 \<and> int (length ?d) \<ge> tc_max_size s \<and> \<not> dict_has ?d k")
    case True
    then obtain x d where d: "?d = x # d" by (cases ?d) auto
    then have "dict_ok d" using ok(1) by (simp add: dict_ok_def)
    then show ?thesis using True ok d get_tl [OF ok(1)] dict_set_length [of k ?e d]
      by (auto simp: ttl_set_entry_def Let_def ttl_ok_def dict_get_set)
  next
    case False
    then show ?thesis using ok dict_set_length [of k ?e ?d] by (auto simp: ttl_set_entry_def Let_def ttl_ok_def dict_get_set)
  qed
qed

interpretation ttl: cache_storage ttl_ops clk "\<lambda>s. dict_get (tc_cache s)" ttl_ok for clk
proof
  fix s s' :: "('k, 'v) TTLCache" and k r
  assume "ttl_ok s" "co_get_entry ttl_ops clk k s = (r, s')"
  then show "ttl_ok s' \<and> (case r of None \<Rightarrow> dict_get (tc_cache s') \<subseteq>\<^sub>m dict_get (tc_cache s)
      | Some e \<Rightarrow> dict_get (tc_cache s) k = Some e \<and> dict_get (tc_cache s') = dict_get (tc_cache s))"
    using length_pop [of "tc_cache s" k]
    by (auto simp: ttl_ops_def ttl_get_entry_def ttl_ok_def Let_def map_le_def dict_get_pop dict_has_def split: option.splits prod.splits if_splits)
next
  fix s :: "('k, 'v) TTLCache" and k e
  assume "ttl_ok s"
  from ttl_set_storage [OF this, of k e]
  show "\<exists>ev s' e'. co_set_entry ttl_ops k e s = (Inr ev, s') \<and> ttl_ok s' \<and> dict_get (tc_cache s') k = Some e' \<and> en_value e' = en_value e \<and>
      (\<forall>x. x \<noteq> k \<longrightarrow> dict_get (tc_cache s') x = None \<or> dict_get (tc_cache s') x = dict_get (tc_cache s) x)"
    by (auto simp: ttl_ops_def)
next
  fix s s' :: "('k, 'v) TTLCache" and k b
  assume "ttl_ok s" "co_delete_entry ttl_ops k s = (b, s')"
  then show "ttl_ok s' \<and> dict_get (tc_cache s') = (dict_get (tc_cache s))(k := None) \<and> (b \<longleftrightarrow> dict_get (tc_cache s) k \<noteq> None)"
    using length_pop [of "tc_cache s" k] by (auto simp: ttl_ops_def ttl_delete_entry_def ttl_ok_def dict_get_pop dict_has_def fun_eq_iff split: if_splits)
next
  fix s :: "('k, 'v) TTLCache" and k e
  assume s: "ttl_ok s" "dict_get (tc_cache s) k \<noteq> None"
  then have "length (dict_set k e (tc_cache s)) = length (tc_cache s)" by (simp add: dict_set_length dict_has_def)
  then show "ttl_ok (co_put ttl_ops k e s) \<and> dict_get (tc_cache (co_put ttl_ops k e s)) = (dict_get (tc_cache s))(k \<mapsto> e)"
    using s by (auto simp: ttl_ops_def ttl_ok_def dict_get_set fun_eq_iff)
qed (auto simp: ttl_ok_def ttl_ops_def)

interpretation lru_memo: memo_storage lru_ops clk "\<lambda>s. dict_get (lc_cache s)" lru_ok for clk ..

interpretation ttl_memo: memo_storage ttl_ops clk "\<lambda>s. dict_get (tc_cache s)" ttl_ok for clk ..

section \<open>What a cache answers\<close>

lemma init_ok: "n \<ge> 1 \<Longrightarrow> lru_ok (lru_init n)" "ttl_ok (ttl_init t n')"
  by (simp_all add: lru_ok_def lru_init_def ttl_ok_def ttl_init_def)

lemma init_agrees: "n \<ge> 1 \<Longrightarrow> lru.agrees m (lru_init n)" "ttl.agrees m (ttl_init t n')"
  using init_ok by (simp_all add: lru.agrees_def ttl.agrees_def) (simp_all add: lru_init_def ttl_init_def)

text \<open>A cache never gives a wrong answer: after any calls, each answer of a least recently used cache and of one with times to live is one that a dictionary permits which
  evicts nothing: a value is the one last stored for the key, or the default; a key is reported as present or deleted only if it was stored and not deleted since;
  storing never raises.\<close>

theorem cache_answers:
  assumes "n \<ge> 1" "i < length cs"
  shows "permitted (cs ! i) (fold map_call (take i cs) Map.empty) (fst (answers (call_cache lru_ops clk) cs (lru_init n)) ! i) \<and>
    permitted (cs ! i) (fold map_call (take i cs) Map.empty) (fst (answers (call_cache ttl_ops clk) cs (ttl_init ttl m)) ! i)"
  using lru.calls_agree [OF init_agrees(1) [OF assms(1)] assms(2)] ttl.calls_agree [OF init_agrees(2) assms(2)] by blast

text \<open>C23. A memoised function cannot be told from the function: if the key determines the result, any sequence of calls through a cache of either kind gives
  the results of the function, whatever expires or is evicted on the way.\<close>

theorem memo_transparent:
  assumes "\<forall>x y. key_fn x = key_fn y \<longrightarrow> func x = func y" "n \<ge> 1"
  shows "fst (answers (memo_call lru_ops clk key_fn ttl func) xs (lru_init n)) = map (\<lambda>x. Inr (func x)) xs \<and>
    fst (answers (memo_call ttl_ops clk key_fn ttl func) xs (ttl_init t m)) = map (\<lambda>x. Inr (func x)) xs"
proof -
  have f: "\<forall>x. func x = (\<lambda>k. func (inv key_fn k)) (key_fn x)"
  proof
    fix x
    have "key_fn (inv key_fn (key_fn x)) = key_fn x" by (simp add: f_inv_into_f)
    then show "func x = (\<lambda>k. func (inv key_fn k)) (key_fn x)" using assms(1) by metis
  qed
  let ?f = "\<lambda>k. func (inv key_fn k)"
  show ?thesis using lru_memo.memo_run [where f = ?f, OF init_agrees(1) [OF assms(2)] f] ttl_memo.memo_run [where f = ?f, OF init_agrees(2) f] by blast
qed

section \<open>What was used recently is kept\<close>

text \<open>The keys that a call may bring to the recent end.\<close>

fun touched_keys :: "('k, 'v) cache_call \<Rightarrow> 'k set" where
  "touched_keys (CGet k dflt) = {k}"
| "touched_keys (CSet k v ttl) = {k}"
| "touched_keys (CContains k) = {k}"
| "touched_keys _ = {}"

fun keeps_key :: "'k \<Rightarrow> ('k, 'v) cache_call \<Rightarrow> bool" where
  "keeps_key k (CSet x v ttl) = (x \<noteq> k)"
| "keeps_key k (CDelete x) = (x \<noteq> k)"
| "keeps_key k CClear = False"
| "keeps_key k _ = True"

text \<open>The key is there with its value for good, and only keys of \<open>used\<close> were used after it.\<close>

definition recent :: "'k \<Rightarrow> 'v \<Rightarrow> 'k set \<Rightarrow> ('k, ('k, 'v) CacheEntry) dict \<Rightarrow> bool" where
  "recent k v used d \<longleftrightarrow> (\<exists>pre e post. d = pre @ (k, e) # post \<and> en_value e = v \<and> en_ttl e = None \<and> fst ` set post \<subseteq> used)"

lemma recent_mono: "recent k v used d \<Longrightarrow> used \<subseteq> used' \<Longrightarrow> recent k v used' d"
  unfolding recent_def by blast

lemma recent_get: "dict_ok d \<Longrightarrow> recent k v used d \<Longrightarrow> \<exists>e. dict_get d k = Some e \<and> en_value e = v \<and> en_ttl e = None"
  by (auto simp: recent_def dict_ok_def)

lemma recent_pop: "recent k v used d \<Longrightarrow> x \<noteq> k \<Longrightarrow> recent k v used (dict_pop x d)"
  unfolding recent_def dict_pop_filter
proof (elim exE conjE)
  fix pre e post
  assume a: "x \<noteq> k" "d = pre @ (k, e) # post" "en_value e = v" "en_ttl e = None" "fst ` set post \<subseteq> used"
  show "\<exists>pre e post. filter (\<lambda>y. fst y \<noteq> x) d = pre @ (k, e) # post \<and> en_value e = v \<and> en_ttl e = None \<and> fst ` set post \<subseteq> used"
    by (rule exI [of _ "filter (\<lambda>y. fst y \<noteq> x) pre"], rule exI [of _ e], rule exI [of _ "filter (\<lambda>y. fst y \<noteq> x) post"]) (use a in auto)
qed

lemma recent_append: "recent k v used d \<Longrightarrow> recent k v (insert x used) (d @ [(x, e)])"
  unfolding recent_def
proof (elim exE conjE)
  fix pre y post
  assume a: "d = pre @ (k, y) # post" "en_value y = v" "en_ttl y = None" "fst ` set post \<subseteq> used"
  show "\<exists>pre y post. d @ [(x, e)] = pre @ (k, y) # post \<and> en_value y = v \<and> en_ttl y = None \<and> fst ` set post \<subseteq> insert x used"
    by (rule exI [of _ pre], rule exI [of _ y], rule exI [of _ "post @ [(x, e)]"]) (use a in auto)
qed

lemma recent_move:
  assumes "dict_ok d" "recent k v used d"
  shows "recent k v (insert x used) (move_to_end x d)"
proof (cases "x = k")
  case True
  obtain e where "dict_get d k = Some e" "en_value e = v" "en_ttl e = None" using recent_get [OF assms] by blast
  then show ?thesis unfolding True move_to_end_def recent_def by (intro exI [of _ "dict_pop k d"] exI [of _ e] exI [of _ "[]"]) simp
next
  case False
  then show ?thesis using assms(2) recent_append [OF recent_pop [OF assms(2) False]] recent_mono [OF assms(2) subset_insertI]
    by (auto simp: move_to_end_def split: option.split)
qed

lemma recent_put:
  assumes "recent k v used d" "dict_ok d" "x = k \<longrightarrow> en_value e = v \<and> en_ttl e = None"
  shows "recent k v used (dict_set x e d) \<or> \<not> dict_has d x"
proof (cases "dict_has d x")
  case True
  have keep: "dict_set x e d = map (\<lambda>y. if fst y = x then (x, e) else y) d" using assms(2) True
  proof (induction d)
    case (Cons y d)
    have "map (\<lambda>y. if fst y = x then (x, e) else y) d = d" if "x \<notin> fst ` set d" using that by (intro map_idI) force
    then show ?case using Cons by (cases y) (auto simp: dict_ok_def dict_has_keys dict_keys_def)
  qed (simp add: dict_has_def)
  obtain pre y post where d: "d = pre @ (k, y) # post" "en_value y = v" "en_ttl y = None" "fst ` set post \<subseteq> used" using assms(1) by (auto simp: recent_def)
  let ?f = "\<lambda>y. if fst y = x then (x, e) else y"
  have "dict_set x e d = map ?f pre @ (k, if k = x then e else y) # map ?f post" unfolding keep unfolding d(1) by simp
  moreover have "fst ` set (map ?f post) \<subseteq> used" using d(4) by (auto simp: image_iff)
  moreover have "en_value (if k = x then e else y) = v" "en_ttl (if k = x then e else y) = None" using d(2,3) assms(3) by auto
  ultimately show ?thesis unfolding recent_def by blast
qed simp

text \<open>The oldest entry is not the one of \<open>k\<close> as long as fewer keys were used after it than fit.\<close>

lemma recent_set:
  assumes "lru_ok s" "recent k v used (lc_cache s)" "x \<noteq> k" "finite used" "int (card (insert x used - {k})) < lc_max_size s"
    "lru_set_entry x e s = (q, s')"
  shows "recent k v (insert x used) (lc_cache s')"
proof -
  let ?d = "lc_cache s"
  have ok: "dict_ok ?d" "int (length ?d) \<le> lc_max_size s" using assms(1) by (simp_all add: lru_ok_def)
  obtain ev d where S: "lru_set_entry x e s = (Inr ev, s\<lparr>bc_stats := (bc_stats s)\<lparr>st_max_size := lc_max_size s\<rparr>, lc_cache := dict_pop x d @ [(x, e)]\<rparr>)"
    "if dict_has ?d x \<or> int (length ?d) < lc_max_size s then dict_pop x d = dict_pop x ?d \<and> ev = None else d = tl ?d \<and> ?d \<noteq> [] \<and> ev = Some (snd (hd ?d))" "dict_ok d"
    using lru_set_cache [OF assms(1), of x e] by blast
  have "recent k v used (dict_pop x d)"
  proof (cases "dict_has ?d x \<or> int (length ?d) < lc_max_size s")
    case True
    then show ?thesis using S(2) recent_pop [OF assms(2,3)] by simp
  next
    case False
    obtain pre y post where d: "?d = pre @ (k, y) # post" "en_value y = v" "en_ttl y = None" "fst ` set post \<subseteq> used" using assms(2) by (auto simp: recent_def)
    have "pre \<noteq> []"
    proof
      assume "pre = []"
      then have len: "int (length post) + 1 \<ge> lc_max_size s" "distinct (map fst post)" "k \<notin> fst ` set post" "x \<notin> fst ` set post"
        using False ok d(1) by (auto simp: dict_ok_def dict_has_keys dict_keys_def)
      have "insert x (fst ` set post) \<subseteq> insert x used - {k}" using d(4) len(3) assms(3) by auto
      then have "card (insert x (fst ` set post)) \<le> card (insert x used - {k})" using assms(4) by (intro card_mono) auto
      moreover have "card (insert x (fst ` set post)) = Suc (length post)" using len(2,4) distinct_card [of "map fst post"] by simp
      ultimately show False using len(1) assms(5) by linarith
    qed
    then obtain z pre' where "pre = z # pre'" by (cases pre) auto
    then have "d = pre' @ (k, y) # post" using S(2) False d(1) by simp
    then have "recent k v used d" using d(2-4) by (auto simp: recent_def)
    then show ?thesis by (rule recent_pop) (rule assms(3))
  qed
  note keep = recent_append [OF this, of x e]
  have "lc_cache s' = dict_pop x d @ [(x, e)]" using trans [OF assms(6) [symmetric] S(1)] by simp
  then show ?thesis using keep by simp
qed

lemma touch_same: "touch_entry clk t e n = (e', n') \<Longrightarrow> en_value e' = en_value e \<and> en_ttl e' = en_ttl e \<and> en_created_at e' = en_created_at e"
  by (auto simp: touch_entry_def split: prod.splits)

text \<open>What a read leaves of the dictionary.\<close>

lemma lru_get_cache:
  assumes "cache_get lru_ops clk x dflt s = (a, s')" "lru_ok s"
  shows "lc_max_size s' = lc_max_size s \<and>
    (case dict_get (lc_cache s) x of
       None \<Rightarrow> lc_cache s' = lc_cache s \<and> a = dflt
     | Some e \<Rightarrow>
         (en_ttl e \<noteq> None \<and> lc_cache s' = dict_pop x (move_to_end x (lc_cache s))) \<or>
         (\<exists>e'. en_value e' = en_value e \<and> en_ttl e' = en_ttl e \<and> lc_cache s' = dict_set x e' (move_to_end x (lc_cache s)) \<and> a = en_value e))"
proof (cases "dict_get (lc_cache s) x")
  case None
  then show ?thesis using assms(1) by (auto simp: cache_get_def lru_ops_def lru_get_entry_def count_stats_def)
next
  case (Some e)
  have "dict_has (move_to_end x (lc_cache s)) x" using move_to_end_facts(2) [of "lc_cache s" x] Some assms(2) by (simp add: dict_has_def lru_ok_def)
  obtain expired n where x: "entry_expired clk None e (bc_reads s) = (expired, n)" by (rule prod.exhaust)
  obtain e' n' where t: "touch_entry clk None e n = (e', n')" by (rule prod.exhaust)
  have "expired \<Longrightarrow> en_ttl e \<noteq> None" using x by (auto simp: entry_expired_def split: option.splits)
  then show ?thesis using assms(1) Some x t touch_same [OF t] \<open>dict_has (move_to_end x (lc_cache s)) x\<close>
    by (cases expired) (auto simp: cache_get_def lru_ops_def lru_get_entry_def lru_delete_entry_def count_stats_def Let_def)
qed

lemma recent_get_call:
  assumes "lru_ok s" "recent k v used (lc_cache s)" "cache_get lru_ops clk x dflt s = (a, s')"
  shows "recent k v (insert x used) (lc_cache s')" "x = k \<Longrightarrow> a = v"
proof -
  have ok: "dict_ok (lc_cache s)" using assms(1) by (simp add: lru_ok_def)
  note G = lru_get_cache [OF assms(3,1)]
  have mv: "recent k v (insert x used) (move_to_end x (lc_cache s))" using recent_move [OF ok assms(2)] .
  have kx: "dict_get (lc_cache s) x = Some e \<Longrightarrow> x = k \<Longrightarrow> en_value e = v \<and> en_ttl e = None" for e using recent_get [OF ok assms(2)] by auto
  have "recent k v (insert x used) (lc_cache s') \<and> (x = k \<longrightarrow> a = v)"
  proof (cases "dict_get (lc_cache s) x")
    case None
    then have "x \<noteq> k" using recent_get [OF ok assms(2)] by auto
    then show ?thesis using None G recent_mono [OF assms(2) subset_insertI] by simp
  next
    case (Some e)
    have has: "dict_has (move_to_end x (lc_cache s)) x" using move_to_end_facts(2) [OF ok, of x] Some by (simp add: dict_has_def)
    from G Some consider "en_ttl e \<noteq> None" "lc_cache s' = dict_pop x (move_to_end x (lc_cache s))"
      | e' where "en_value e' = en_value e" "en_ttl e' = en_ttl e" "lc_cache s' = dict_set x e' (move_to_end x (lc_cache s))" "a = en_value e" by auto
    then show ?thesis
    proof cases
      case 1
      then have "x \<noteq> k" using kx [OF Some] by auto
      then show ?thesis using 1(2) recent_pop [OF mv] by simp
    next
      case 2
      have "x = k \<longrightarrow> en_value e' = v \<and> en_ttl e' = None" using kx [OF Some] 2(1,2) by auto
      then show ?thesis using recent_put [OF mv move_to_end_facts(1) [OF ok]] has 2(3,4) kx [OF Some] by auto
    qed
  qed
  then show "recent k v (insert x used) (lc_cache s')" "x = k \<Longrightarrow> a = v" by auto
qed

lemma recent_call:
  assumes "lru_ok s" "recent k v used (lc_cache s)" "finite used" "keeps_key k c" "int (card (used \<union> touched_keys c - {k})) < lc_max_size s"
    "call_cache lru_ops clk c s = (a, s')"
  shows "recent k v (used \<union> touched_keys c) (lc_cache s') \<and> lc_max_size s' = lc_max_size s"
proof (cases c)
  case (CGet x d)
  then show ?thesis using assms(6) recent_get_call(1) [OF assms(1,2)] lru_get_cache [OF _ assms(1)] by (cases "cache_get lru_ops clk x d s") auto
next
  case (CSet x w ttl)
  obtain e n where e: "new_entry clk x w ttl (bc_reads s) = (e, n)" by (rule prod.exhaust)
  obtain q s1 where r: "lru_set_entry x e (s\<lparr>bc_reads := n\<rparr>) = (q, s1)" by (rule prod.exhaust)
  have ok: "lru_ok (s\<lparr>bc_reads := n\<rparr>)" using assms(1) by (simp add: lru_ok_def)
  have "recent k v (insert x used) (lc_cache s1)"
    by (rule recent_set [OF ok _ _ assms(3) _ r]) (use assms(2,4,5) CSet in auto)
  moreover have "lc_max_size s1 = lc_max_size s" using r lru_set_cache [OF ok, of x e] by auto
  moreover have "lc_cache s' = lc_cache s1 \<and> lc_max_size s' = lc_max_size s1"
    using assms(6) CSet e r by (cases q) (auto simp: cache_set_def lru_ops_def count_stats_def)
  ultimately show ?thesis using CSet by simp
next
  case (CDelete x)
  then show ?thesis using assms(2,4,6) recent_pop [OF assms(2), of x]
    by (cases "dict_has (lc_cache s) x") (auto simp: cache_delete_def lru_ops_def lru_delete_entry_def count_stats_def)
next
  case CClear
  then show ?thesis using assms(4) by simp
next
  case (CContains x)
  have "recent k v (insert x used) (move_to_end x (lc_cache s))" using recent_move [OF _ assms(2)] assms(1) by (simp add: lru_ok_def)
  then show ?thesis using CContains assms(6) recent_mono [OF assms(2) subset_insertI]
    by (auto simp: cache_contains_def lru_ops_def lru_get_entry_def split: option.splits prod.splits)
qed

lemma recent_calls:
  assumes "lru_ok s" "recent k v used (lc_cache s)" "finite used" "\<forall>c \<in> set cs. keeps_key k c"
    "int (card (used \<union> (\<Union>c \<in> set cs. touched_keys c) - {k})) < lc_max_size s"
  shows "\<exists>used'. lru_ok (snd (answers (call_cache lru_ops clk) cs s)) \<and> recent k v used' (lc_cache (snd (answers (call_cache lru_ops clk) cs s)))"
  using assms
proof (induction cs arbitrary: s used)
  case (Cons c cs)
  obtain a s1 where c: "call_cache lru_ops clk c s = (a, s1)" by (rule prod.exhaust)
  have fin: "finite (touched_keys x)" for x :: "('a, 'b) cache_call" by (cases x) auto
  have "card (used \<union> touched_keys c - {k}) \<le> card (used \<union> (\<Union>c \<in> set (c # cs). touched_keys c) - {k})"
    by (rule card_mono) (use Cons.prems(3) fin in auto)
  then have R: "recent k v (used \<union> touched_keys c) (lc_cache s1) \<and> lc_max_size s1 = lc_max_size s"
    using recent_call [OF Cons.prems(1-3) _ _ c] Cons.prems(4,5) by simp
  have "\<exists>used'. lru_ok (snd (answers (call_cache lru_ops clk) cs s1)) \<and> recent k v used' (lc_cache (snd (answers (call_cache lru_ops clk) cs s1)))"
    by (rule Cons.IH [of s1 "used \<union> touched_keys c"]) (use R lru.call_ok [OF Cons.prems(1) c] Cons.prems(3-5) fin in \<open>auto simp: Un_assoc\<close>)
  then show ?case using c by (auto split: prod.splits)
qed auto

lemma answers_append:
  "fst (answers step (xs @ ys) s) = fst (answers step xs s) @ fst (answers step ys (snd (answers step xs s)))"
  "snd (answers step (xs @ ys) s) = snd (answers step ys (snd (answers step xs s)))"
  by (induction xs arbitrary: s) (simp_all add: split_def)

lemma lru_calls_ok: "lru_ok s \<Longrightarrow> lru_ok (snd (answers (call_cache lru_ops clk) cs s)) \<and> lc_max_size (snd (answers (call_cache lru_ops clk) cs s)) = lc_max_size s"
proof (induction cs arbitrary: s)
  case (Cons c cs)
  obtain a s1 where c: "call_cache lru_ops clk c s = (a, s1)" by (rule prod.exhaust)
  have "lc_max_size s1 = lc_max_size s"
  proof (cases c)
    case (CGet x d)
    then show ?thesis using c lru_get_cache [OF _ Cons.prems] by (cases "cache_get lru_ops clk x d s") auto
  next
    case (CSet x v ttl)
    obtain e n where e: "new_entry clk x v ttl (bc_reads s) = (e, n)" by (rule prod.exhaust)
    have "lru_ok (s\<lparr>bc_reads := n\<rparr>)" using Cons.prems by (simp add: lru_ok_def)
    from lru_set_cache [OF this, of x e] show ?thesis using c CSet e by (auto simp: cache_set_def lru_ops_def count_stats_def)
  qed (use c in \<open>auto simp: cache_delete_def cache_clear_def cache_contains_def lru_ops_def lru_delete_entry_def lru_get_entry_def count_stats_def
      split: if_splits option.splits prod.splits\<close>)
  then show ?case using Cons.IH [of s1] lru.call_ok [OF Cons.prems c] c by (auto split: prod.splits)
qed simp

text \<open>A call that finds the key brings it to the recent end.\<close>

fun uses :: "'k \<Rightarrow> ('k, 'v) cache_call \<Rightarrow> bool" where
  "uses k (CGet x dflt) = (x = k)"
| "uses k (CContains x) = (x = k)"
| "uses k _ = False"

lemma recent_use:
  assumes "lru_ok s" "recent k v used (lc_cache s)" "uses k c" "call_cache lru_ops clk c s = (a, s')"
  shows "recent k v {} (lc_cache s')"
proof -
  have ok: "dict_ok (lc_cache s)" using assms(1) by (simp add: lru_ok_def)
  obtain e where e: "dict_get (lc_cache s) k = Some e" "en_value e = v" "en_ttl e = None" using recent_get [OF ok assms(2)] by blast
  have mv: "recent k v {} (move_to_end k (lc_cache s))"
    unfolding move_to_end_def recent_def using e by (intro exI [of _ "dict_pop k (lc_cache s)"] exI [of _ e] exI [of _ "[]"]) simp
  have has: "dict_has (move_to_end k (lc_cache s)) k" using move_to_end_facts(2) [OF ok, of k] e by (simp add: dict_has_def)
  show ?thesis
  proof (cases c)
    case (CGet x d)
    then obtain a1 where g: "cache_get lru_ops clk k d s = (a1, s')" using assms(3,4) by (cases "cache_get lru_ops clk k d s") auto
    obtain e' where "en_value e' = v" "en_ttl e' = None" "lc_cache s' = dict_set k e' (move_to_end k (lc_cache s))"
      using lru_get_cache [OF g assms(1)] e by auto
    with recent_put [OF mv move_to_end_facts(1) [OF ok], of k e'] has show ?thesis by simp
  next
    case (CContains x)
    with assms(3,4) e mv show ?thesis by (auto simp: cache_contains_def lru_ops_def lru_get_entry_def split: prod.splits)
  qed (use assms(3) in auto)
qed

text \<open>A stretch of calls that keeps a key and touches fewer other keys than there are places.\<close>

definition short_gap :: "int \<Rightarrow> 'k \<Rightarrow> ('k, 'v) cache_call list \<Rightarrow> bool" where
  "short_gap n k cs \<longleftrightarrow> (\<forall>c \<in> set cs. keeps_key k c) \<and> int (card ((\<Union>c \<in> set cs. touched_keys c) - {k})) < n"

lemma recent_rounds:
  assumes "lru_ok s" "recent k v {} (lc_cache s)" "\<forall>(gap, use) \<in> set rounds. short_gap (lc_max_size s) k gap \<and> uses k use"
  shows "recent k v {} (lc_cache (snd (answers (call_cache lru_ops clk) (concat (map (\<lambda>(gap, use). gap @ [use]) rounds)) s)))"
  using assms
proof (induction rounds arbitrary: s)
  case (Cons r rounds)
  let ?run = "\<lambda>cs s. snd (answers (call_cache lru_ops clk) cs s)"
  obtain gap use where r: "r = (gap, use)" "short_gap (lc_max_size s) k gap" "uses k use" using Cons.prems(3) by (cases r) auto
  obtain used where R: "lru_ok (?run gap s)" "recent k v used (lc_cache (?run gap s))"
    using recent_calls [OF Cons.prems(1,2), of gap clk] r(2) by (auto simp: short_gap_def)
  obtain a s1 where c: "call_cache lru_ops clk use (?run gap s) = (a, s1)" by (rule prod.exhaust)
  have s1: "?run (gap @ [use]) s = s1" by (simp add: answers_append c)
  then have "lru_ok s1" "lc_max_size s1 = lc_max_size s" using lru_calls_ok [OF Cons.prems(1), of clk "gap @ [use]"] by auto
  moreover have "recent k v {} (lc_cache s1)" by (rule recent_use [OF R r(3) c])
  ultimately have "recent k v {} (lc_cache (?run (concat (map (\<lambda>(gap, use). gap @ [use]) rounds)) s1))"
    using Cons.IH [of s1] Cons.prems(3) by simp
  moreover have "concat (map (\<lambda>(gap, use). gap @ [use]) (r # rounds)) = (gap @ [use]) @ concat (map (\<lambda>(gap, use). gap @ [use]) rounds)"
    using r(1) by simp
  ultimately show ?case by (metis answers_append(2) s1)
qed simp

text \<open>C21. The cache keeps what was used recently, and using is what counts, not storing: a value that is stored without a time to live is found, whatever happened before the
  store, as long as its key is not deleted, overwritten or cleared and in every stretch between two uses of it, however many there are, fewer other keys are used than the
  cache has places. A use is a read or a membership test of the key.\<close>

theorem lru_keeps_recent:
  fixes n :: int
  assumes "n \<ge> 1" "\<forall>(gap, use) \<in> set rounds. short_gap n k gap \<and> uses k use" "short_gap n k later"
  shows "last (fst (answers (call_cache lru_ops clk)
      (before @ CSet k v None # concat (map (\<lambda>(gap, use). gap @ [use]) rounds) @ later @ [CGet k dflt]) (lru_init n))) = Value v"
proof -
  let ?run = "\<lambda>cs s. snd (answers (call_cache lru_ops clk) cs s)"
  let ?rounds = "concat (map (\<lambda>(gap, use). gap @ [use]) rounds)"
  let ?s0 = "?run before (lru_init n)"
  have s0: "lru_ok ?s0" "lc_max_size ?s0 = n" using lru_calls_ok [OF init_ok(1) [OF assms(1)], of clk before] by (simp_all add: lru_init_def)
  obtain e r where e: "new_entry clk k v None (bc_reads ?s0) = (e, r)" by (rule prod.exhaust)
  have ok: "lru_ok (?s0\<lparr>bc_reads := r\<rparr>)" using s0(1) by (simp add: lru_ok_def)
  let ?s1 = "?run [CSet k v None] ?s0"
  have "\<exists>d. lc_cache ?s1 = d @ [(k, e)]" using lru_set_cache [OF ok, of k e] e by (auto simp: cache_set_def lru_ops_def count_stats_def)
  then have rec1: "recent k v {} (lc_cache ?s1)" using e unfolding recent_def by (auto simp: new_entry_def)
  have ok1: "lru_ok ?s1" "lc_max_size ?s1 = n" using lru_calls_ok [OF s0(1), of clk "[CSet k v None]"] s0(2) by simp_all
  let ?s2 = "?run ?rounds ?s1"
  have rec2: "recent k v {} (lc_cache ?s2)" by (rule recent_rounds [OF ok1(1) rec1]) (use assms(2) ok1(2) in simp)
  have ok2: "lru_ok ?s2" "lc_max_size ?s2 = n" using lru_calls_ok [OF ok1(1), of clk ?rounds] ok1(2) by simp_all
  obtain used where R: "lru_ok (?run later ?s2)" "recent k v used (lc_cache (?run later ?s2))"
    using recent_calls [OF ok2(1) rec2, of later clk] assms(3) ok2(2) by (auto simp: short_gap_def)
  obtain a s3 where g: "cache_get lru_ops clk k dflt (?run later ?s2) = (a, s3)" by (rule prod.exhaust)
  have "a = v" using recent_get_call(2) [OF R g] by simp
  moreover have "last (fst (answers (call_cache lru_ops clk) (before @ [CSet k v None] @ ?rounds @ later @ [CGet k dflt]) (lru_init n))) = Value a"
    unfolding answers_append by (simp add: g [simplified])
  ultimately show ?thesis by simp
qed

section \<open>Namespaces\<close>











section \<open>Where a cache is not what it says\<close>

text \<open>A least recently used cache without places cannot be written to.\<close>

lemma no_places_raises: "n \<le> 0 \<Longrightarrow> fst (cache_set lru_ops clk k v ttl (lru_init n)) = Inl (KeyError ''dictionary is empty'')"
  by (simp add: cache_set_def new_entry_def lru_ops_def lru_set_entry_def lru_init_def dict_has_def Let_def)

text \<open>Asking whether a key is there makes it recently used.\<close>

lemma contains_is_use:
  "dict_get (lc_cache s) k = Some e \<Longrightarrow> lc_cache (snd (cache_contains lru_ops clk k s)) = dict_pop k (lc_cache s) @ [(k, e)]"
  by (simp add: cache_contains_def lru_ops_def lru_get_entry_def move_to_end_def split: prod.split)

text \<open>A function whose result is \<^verbatim>\<open>None\<close> is called again each time.\<close>

lemma none_not_memoised:
  "func x = None \<Longrightarrow> st_sets (bc_stats (snd (answers (memo_call lru_ops clk key_fn None func) [x, x] (lru_init 1)))) = 2"
  by (simp add: memo_call_def cache_get_def cache_set_def new_entry_def lru_ops_def lru_get_entry_def lru_set_entry_def lru_init_def entry_expired_def touch_entry_def
      time_or_now_def move_to_end_def count_stats_def stats_init_def dict_has_def Let_def)

section \<open>Examples\<close>

definition demo_calls :: "(nat, string) cache_call list" where
  "demo_calls = [CSet 1 ''a'' None, CSet 2 ''b'' None, CGet 1 ''-'', CSet 3 ''c'' None, CGet 2 ''-'', CGet 1 ''-'']"

theorem cache_answers_witness:
  "fst (answers (call_cache lru_ops (\<lambda>_. 0)) demo_calls (lru_init 2)) ! 5 \<in> {Value ''-'', Value ''a''}"
  using cache_answers [of 2 5 demo_calls "\<lambda>_. 0"] by (auto simp: demo_calls_def simp del: answers.simps)

theorem memo_transparent_witness:
  "fst (answers (memo_call lru_ops (\<lambda>_. 0) id None (\<lambda>x :: nat. if x = 0 then None else Some (x + 1))) [1, 0, 1] (lru_init 1)) = [Inr (Some 2), Inr None, Inr (Some 2)]"
  using memo_transparent [of id "\<lambda>x :: nat. if x = 0 then None else Some (x + 1)" 1 "\<lambda>_. 0" None "[1, 0, 1]"] by (simp del: answers.simps)

theorem lru_keeps_recent_witness:
  "last (fst (answers (call_cache lru_ops (\<lambda>_. 0))
     ([] @ CSet (1 :: nat) ''a'' None # concat (map (\<lambda>(gap, use). gap @ [use]) [([CSet 2 ''b'' None], CContains 1)]) @ [CSet 3 ''c'' None] @ [CGet 1 ''-''])
     (lru_init 2))) = Value ''a''"
  by (rule lru_keeps_recent) (simp_all add: short_gap_def)


end
