(* ===== verification/Container.thy ===== *)
theory Container
  imports Prelude
begin

text \<open>
  The dependency injection container (\<^verbatim>\<open>victor/core/container.py\<close>). A factory is what it does with the container: it asks for services, one after the
  other, sees each answer, and ends with an object or an exception. Types of services are named by strings; objects are numbered as they are made. Which
  classes can be disposed of, and in which order a set is printed, are parameters.
\<close>

section \<open>Services\<close>

datatype obj = Obj (ob_id: nat) (ob_class: string)

datatype factory = Give string | Exist "obj option" | Fail py_exc | Ask string "obj option result \<Rightarrow> factory"

datatype ServiceLifetime = SINGLETON | SCOPED | TRANSIENT

record ServiceDescriptor =
  sd_factory :: factory
  sd_lifetime :: ServiceLifetime

text \<open>The instance of a descriptor is kept beside the descriptors; \<open>None\<close> is no instance. Objects that were disposed of are listed.\<close>

record ServiceContainer =
  sc_descriptors :: "(string, ServiceDescriptor) dict"
  sc_instances :: "(string, obj) dict"
  sc_disposed :: bool
  sc_frozen :: bool
  sc_created :: nat
  sc_released :: "obj list"

definition sc_init :: ServiceContainer where
  "sc_init = \<lparr>sc_descriptors = [], sc_instances = [], sc_disposed = False, sc_frozen = False, sc_created = 0, sc_released = []\<rparr>"

abbreviation service_not_found :: "string \<Rightarrow> py_exc" where
  "service_not_found t \<equiv> PyExc ''ServiceNotFoundError'' (''Service not registered: '' @ t)"

definition circular :: "(string list \<Rightarrow> string list) \<Rightarrow> string list \<Rightarrow> string \<Rightarrow> py_exc" where
  "circular order resolving t = PyExc ''ServiceResolutionError'' (''Circular dependency detected: '' @ py_join '' -> '' (order resolving) @ '' -> '' @ t)"

definition new_obj :: "string \<Rightarrow> ServiceContainer \<Rightarrow> obj option result \<times> ServiceContainer" where
  "new_obj cls c = (Inr (Some (Obj (sc_created c) cls)), c\<lparr>sc_created := Suc (sc_created c)\<rparr>)"

text \<open>\<^verbatim>\<open>if descriptor.instance is None: descriptor.instance = ...\<close>.\<close>

definition keep_instance :: "string \<Rightarrow> obj option result \<times> ServiceContainer \<Rightarrow> obj option result \<times> ServiceContainer" where
  "keep_instance t r =
     (case r of
        (Inr (Some x), c) \<Rightarrow> (Inr (Some x), c\<lparr>sc_instances := dict_set t x (sc_instances c)\<rparr>)
      | r \<Rightarrow> r)"

section \<open>Resolution\<close>

text \<open>What a factory becomes after an answer, and the order in which resolution goes on: into a service that is not being resolved, or to the rest of a factory.\<close>

inductive rest_of :: "factory \<Rightarrow> factory \<Rightarrow> bool" where
  "rest_of (k r) (Ask t k)"

definition open_types :: "(string, ServiceDescriptor) dict \<Rightarrow> string list \<Rightarrow> nat" where
  "open_types ds resolving = card (set (dict_keys ds) - set resolving)"

lemma open_types_less: "dict_get ds t = Some d \<Longrightarrow> t \<notin> set resolving \<Longrightarrow> open_types ds (t # resolving) < open_types ds resolving"
proof -
  assume a: "dict_get ds t = Some d" "t \<notin> set resolving"
  have "t \<in> set (dict_keys ds)" using a(1) by (metis dict_hasD dict_has_keys)
  then have "set (dict_keys ds) - set (t # resolving) \<subset> set (dict_keys ds) - set resolving" using a(2) by auto
  then show ?thesis unfolding open_types_def by (intro psubset_card_mono) auto
qed

definition resolve_order :: "(factory option \<times> factory option) set" where
  "resolve_order = {(a, b). (a = None \<and> b \<noteq> None) \<or> (\<exists>f g. a = Some f \<and> b = Some g \<and> rest_of f g)}"

lemma wf_resolve_order: "wf resolve_order"
proof (rule wfUNIVI)
  fix P and x :: "factory option"
  assume step: "\<forall>x. (\<forall>y. (y, x) \<in> resolve_order \<longrightarrow> P y) \<longrightarrow> P x"
  have none: "P None" by (rule step [rule_format]) (simp add: resolve_order_def)
  have "P (Some f)" for f
  proof (induction f)
    case (Ask t k)
    have k: "P (Some (k r))" for r by (rule Ask.IH) simp
    show ?case by (rule step [rule_format]) (use k none in \<open>auto simp: resolve_order_def elim!: rest_of.cases\<close>)
  qed (rule step [rule_format], use none in \<open>auto simp: resolve_order_def elim: rest_of.cases\<close>)+
  then show "P x" using none by (cases x) auto
qed

text \<open>\<^verbatim>\<open>get\<close> and the calls of the factories. \<open>resolving\<close> holds the types that are being resolved.\<close>

function resolve_type ::
    "(string list \<Rightarrow> string list) \<Rightarrow> (string, ServiceDescriptor) dict \<Rightarrow> string list \<Rightarrow> string \<Rightarrow> ServiceContainer \<Rightarrow> obj option result \<times> ServiceContainer"
  and run_factory ::
    "(string list \<Rightarrow> string list) \<Rightarrow> (string, ServiceDescriptor) dict \<Rightarrow> string list \<Rightarrow> factory \<Rightarrow> ServiceContainer \<Rightarrow> obj option result \<times> ServiceContainer" where
  "resolve_type order ds resolving t c =
     (case dict_get ds t of
        None \<Rightarrow> (Inl (service_not_found t), c)
      | Some d \<Rightarrow>
          if t \<in> set resolving then (Inl (circular order resolving t), c)
          else if sd_lifetime d = TRANSIENT then run_factory order ds (t # resolving) (sd_factory d) c
          else case dict_get (sc_instances c) t of
              Some x \<Rightarrow> (Inr (Some x), c)
            | None \<Rightarrow> keep_instance t (run_factory order ds (t # resolving) (sd_factory d) c))"
| "run_factory order ds resolving (Give cls) c = new_obj cls c"
| "run_factory order ds resolving (Exist x) c = (Inr x, c)"
| "run_factory order ds resolving (Fail e) c = (Inl e, c)"
| "run_factory order ds resolving (Ask t k) c =
     (case resolve_type order ds resolving t c of (r, c) \<Rightarrow> run_factory order ds resolving (k r) c)"
  by pat_completeness auto

termination
proof (relation "inv_image (less_than <*lex*> resolve_order)
    (\<lambda>x. case x of Inl (order, ds, res, t, c) \<Rightarrow> (open_types ds res, None) | Inr (order, ds, res, f, c) \<Rightarrow> (open_types ds res, Some f))")
  show "wf (inv_image (less_than <*lex*> resolve_order)
      (\<lambda>x. case x of Inl (order, ds, res, t, c) \<Rightarrow> (open_types ds res, None) | Inr (order, ds, res, f, c) \<Rightarrow> (open_types ds res, Some f)))"
    by (intro wf_inv_image wf_lex_prod wf_less_than wf_resolve_order)
qed (auto simp: open_types_less resolve_order_def intro: rest_of.intros)

declare resolve_type.simps [simp del]

text \<open>\<^verbatim>\<open>ServiceContainer.get\<close>, outside of any factory.\<close>

definition sc_get :: "(string list \<Rightarrow> string list) \<Rightarrow> string \<Rightarrow> ServiceContainer \<Rightarrow> obj option result \<times> ServiceContainer" where
  "sc_get order t c = resolve_type order (sc_descriptors c) [] t c"

definition get_optional :: "(string list \<Rightarrow> string list) \<Rightarrow> string \<Rightarrow> ServiceContainer \<Rightarrow> obj option result \<times> ServiceContainer" where
  "get_optional order t c =
     (case sc_get order t c of
        (Inl e, c) \<Rightarrow> (if exc_type e = ''ServiceNotFoundError'' then Inr None else Inl e, c)
      | r \<Rightarrow> r)"

definition is_registered :: "string \<Rightarrow> ServiceContainer \<Rightarrow> bool" where
  "is_registered t c = dict_has (sc_descriptors c) t"

definition get_registered_types :: "ServiceContainer \<Rightarrow> string list" where
  "get_registered_types c = dict_keys (sc_descriptors c)"

section \<open>Registration\<close>

abbreviation frozen_error :: py_exc where
  "frozen_error \<equiv> PyExc ''ContainerFrozenError'' ''Container is frozen; registrations are not allowed''"

definition already_registered :: "string \<Rightarrow> py_exc" where
  "already_registered t = PyExc ''ServiceAlreadyRegisteredError'' (''Service already registered: '' @ t)"

definition sc_freeze :: "ServiceContainer \<Rightarrow> ServiceContainer" where
  "sc_freeze c = c\<lparr>sc_frozen := True\<rparr>"

text \<open>A new descriptor, with or without an instance.\<close>

definition put_descriptor :: "string \<Rightarrow> factory \<Rightarrow> ServiceLifetime \<Rightarrow> obj option \<Rightarrow> ServiceContainer \<Rightarrow> ServiceContainer" where
  "put_descriptor t f l inst c =
     c\<lparr>sc_descriptors := dict_set t \<lparr>sd_factory = f, sd_lifetime = l\<rparr> (sc_descriptors c),
       sc_instances := (case inst of None \<Rightarrow> dict_pop t (sc_instances c) | Some x \<Rightarrow> dict_set t x (sc_instances c))\<rparr>"

definition sc_register :: "string \<Rightarrow> factory \<Rightarrow> ServiceLifetime \<Rightarrow> ServiceContainer \<Rightarrow> unit result \<times> ServiceContainer" where
  "sc_register t f l c =
     (if sc_frozen c then (Inl frozen_error, c)
      else if dict_has (sc_descriptors c) t then (Inl (already_registered t), c)
      else (Inr (), put_descriptor t f l None c))"

definition register_instance :: "string \<Rightarrow> obj option \<Rightarrow> ServiceContainer \<Rightarrow> unit result \<times> ServiceContainer" where
  "register_instance t inst c =
     (if sc_frozen c then (Inl frozen_error, c)
      else if dict_has (sc_descriptors c) t then (Inl (already_registered t), c)
      else (Inr (), put_descriptor t (Exist inst) SINGLETON inst c))"

text \<open>\<^verbatim>\<open>x.dispose()\<close> on what is disposable; an exception of it is logged.\<close>

definition release_obj :: "(string \<Rightarrow> bool) \<Rightarrow> obj \<Rightarrow> ServiceContainer \<Rightarrow> ServiceContainer" where
  "release_obj disposable x c = (if disposable (ob_class x) then c\<lparr>sc_released := sc_released c @ [x]\<rparr> else c)"

definition register_or_replace :: "(string \<Rightarrow> bool) \<Rightarrow> string \<Rightarrow> factory \<Rightarrow> ServiceLifetime \<Rightarrow> ServiceContainer \<Rightarrow> unit result \<times> ServiceContainer" where
  "register_or_replace disposable t f l c =
     (if sc_frozen c then (Inl frozen_error, c)
      else let c = (if dict_has (sc_descriptors c) t
                    then (case dict_get (sc_instances c) t of Some x \<Rightarrow> release_obj disposable x c | None \<Rightarrow> c) else c)
           in (Inr (), put_descriptor t f l None c))"

text \<open>\<^verbatim>\<open>_resolve_constructor\<close>: the parameters of the constructor, in order. A required parameter without annotation makes the call of the class fail.\<close>

record ctor_param =
  cp_name :: string
  cp_annotation :: "string option"
  cp_has_default :: bool
  cp_variadic :: bool

fun resolve_constructor :: "string \<Rightarrow> ctor_param list \<Rightarrow> bool \<Rightarrow> factory" where
  "resolve_constructor cls [] given = (if given then Give cls else Fail (PyExc ''TypeError'' cls))"
| "resolve_constructor cls (p # ps) given =
     (if cp_name p = ''self'' \<or> cp_variadic p then resolve_constructor cls ps given
      else case cp_annotation p of
          None \<Rightarrow> resolve_constructor cls ps (given \<and> cp_has_default p)
        | Some t \<Rightarrow>
            Ask t (\<lambda>r. case r of
                Inr _ \<Rightarrow> resolve_constructor cls ps given
              | Inl e \<Rightarrow> if exc_type e \<in> {''ServiceNotFoundError'', ''ServiceResolutionError''} \<and> cp_has_default p
                         then resolve_constructor cls ps given else Fail e))"

text \<open>The decorator \<^verbatim>\<open>service\<close>.\<close>

definition service :: "string \<Rightarrow> ServiceLifetime \<Rightarrow> string \<Rightarrow> ctor_param list \<Rightarrow> ServiceContainer \<Rightarrow> unit result \<times> ServiceContainer" where
  "service t l cls ps c = sc_register t (resolve_constructor cls ps True) l c"

section \<open>Health, validation and disposal\<close>

text \<open>\<open>healthy x\<close>: what the method \<^verbatim>\<open>is_healthy\<close> of an object answers, if it has one.\<close>

definition check_health :: "(string list \<Rightarrow> string list) \<Rightarrow> (obj \<Rightarrow> bool result option) \<Rightarrow> string \<Rightarrow> ServiceContainer \<Rightarrow> bool \<times> ServiceContainer" where
  "check_health order healthy t c =
     (case sc_get order t c of
        (Inl e, c) \<Rightarrow> (False, c)
      | (Inr None, c) \<Rightarrow> (True, c)
      | (Inr (Some x), c) \<Rightarrow> (case healthy x of None \<Rightarrow> True | Some (Inr b) \<Rightarrow> b | Some (Inl _) \<Rightarrow> False, c))"

definition check_all_health :: "(string list \<Rightarrow> string list) \<Rightarrow> (obj \<Rightarrow> bool result option) \<Rightarrow> ServiceContainer \<Rightarrow> (string, bool) dict \<times> ServiceContainer" where
  "check_all_health order healthy c =
     (case answers (check_health order healthy) (get_registered_types c) c of (bs, c') \<Rightarrow> (zip (get_registered_types c) bs, c'))"

definition try_resolve :: "(string list \<Rightarrow> string list) \<Rightarrow> string \<Rightarrow> ServiceContainer \<Rightarrow> obj option result \<times> ServiceContainer" where
  "try_resolve order t c =
     (case dict_get (sc_descriptors c) t of
        None \<Rightarrow> (Inl (service_not_found t), c)
      | Some d \<Rightarrow> run_factory order (sc_descriptors c) [t] (sd_factory d) c)"

definition sc_validate :: "(string list \<Rightarrow> string list) \<Rightarrow> ServiceContainer \<Rightarrow> py_exc list \<times> ServiceContainer" where
  "sc_validate order c =
     (case answers (try_resolve order) (dict_keys (sc_descriptors c)) c of (rs, c) \<Rightarrow> (List.map_filter (\<lambda>r. case r of Inl e \<Rightarrow> Some e | Inr _ \<Rightarrow> None) rs, c))"

text \<open>The instances in the order of their descriptors.\<close>

definition descriptor_instances :: "ServiceContainer \<Rightarrow> obj list" where
  "descriptor_instances c = List.map_filter (dict_get (sc_instances c)) (dict_keys (sc_descriptors c))"

definition sc_dispose :: "(string \<Rightarrow> bool) \<Rightarrow> ServiceContainer \<Rightarrow> ServiceContainer" where
  "sc_dispose disposable c =
     (if sc_disposed c then c
      else (fold (release_obj disposable) (descriptor_instances c) c)\<lparr>sc_disposed := True, sc_descriptors := [], sc_instances := []\<rparr>)"

text \<open>\<^verbatim>\<open>adispose\<close> awaits what can be disposed of asynchronously, and disposes of the rest as \<^verbatim>\<open>dispose\<close> does.\<close>

definition sc_adispose :: "(string \<Rightarrow> bool) \<Rightarrow> (string \<Rightarrow> bool) \<Rightarrow> ServiceContainer \<Rightarrow> ServiceContainer" where
  "sc_adispose disposable async_disposable c = sc_dispose (\<lambda>cls. async_disposable cls \<or> disposable cls) c"

section \<open>Scopes\<close>

record ServiceScope =
  ss_instances :: "(string, obj option) dict"
  ss_disposed :: bool

definition create_scope :: ServiceScope where
  "create_scope = \<lparr>ss_instances = [], ss_disposed = False\<rparr>"

definition scope_get ::
  "(string list \<Rightarrow> string list) \<Rightarrow> string \<Rightarrow> ServiceScope \<Rightarrow> ServiceContainer \<Rightarrow> obj option result \<times> ServiceScope \<times> ServiceContainer" where
  "scope_get order t s c =
     (if ss_disposed s then (Inl (PyExc ''ScopeDisposedError'' (''Scope has been disposed, cannot resolve '' @ t)), s, c)
      else case dict_get (sc_descriptors c) t of
          None \<Rightarrow> (Inl (service_not_found t), s, c)
        | Some d \<Rightarrow>
            (case sd_lifetime d of
               SINGLETON \<Rightarrow> (case sc_get order t c of (r, c) \<Rightarrow> (r, s, c))
             | SCOPED \<Rightarrow>
                 (case dict_get (ss_instances s) t of
                    Some x \<Rightarrow> (Inr x, s, c)
                  | None \<Rightarrow>
                      (case run_factory order (sc_descriptors c) [] (sd_factory d) c of
                         (Inl e, c) \<Rightarrow> (Inl e, s, c)
                       | (Inr x, c) \<Rightarrow> (Inr x, s\<lparr>ss_instances := dict_set t x (ss_instances s)\<rparr>, c)))
             | TRANSIENT \<Rightarrow> (case run_factory order (sc_descriptors c) [] (sd_factory d) c of (r, c) \<Rightarrow> (r, s, c))))"

definition scope_dispose :: "(string \<Rightarrow> bool) \<Rightarrow> ServiceScope \<Rightarrow> ServiceContainer \<Rightarrow> ServiceScope \<times> ServiceContainer" where
  "scope_dispose disposable s c =
     (if ss_disposed s then (s, c)
      else (s\<lparr>ss_disposed := True, ss_instances := []\<rparr>,
            fold (release_obj disposable) (List.map_filter (\<lambda>x. x) (dict_values (ss_instances s))) c))"

definition scope_adispose :: "(string \<Rightarrow> bool) \<Rightarrow> (string \<Rightarrow> bool) \<Rightarrow> ServiceScope \<Rightarrow> ServiceContainer \<Rightarrow> ServiceScope \<times> ServiceContainer" where
  "scope_adispose disposable async_disposable s c = scope_dispose (\<lambda>cls. async_disposable cls \<or> disposable cls) s c"

section \<open>The global container\<close>

definition get_container :: "ServiceContainer option \<Rightarrow> ServiceContainer \<times> ServiceContainer option" where
  "get_container g = (case g of None \<Rightarrow> (sc_init, Some sc_init) | Some c \<Rightarrow> (c, Some c))"

text \<open>The container that was there is disposed of, also if it is the one that is set (\<open>None\<close>). The second result is what became of it.\<close>

definition set_container :: "(string \<Rightarrow> bool) \<Rightarrow> ServiceContainer option \<Rightarrow> ServiceContainer option \<Rightarrow> ServiceContainer option \<times> ServiceContainer option" where
  "set_container disposable new g =
     (let old = map_option (sc_dispose disposable) g in (case new of Some c \<Rightarrow> Some c | None \<Rightarrow> old, old))"

definition reset_container :: "(string \<Rightarrow> bool) \<Rightarrow> ServiceContainer option \<Rightarrow> ServiceContainer option \<times> ServiceContainer option" where
  "reset_container disposable g = (None, map_option (sc_dispose disposable) g)"

end
