(* ===== verification/Container_Properties.thy ===== *)
theory Container_Properties
  imports Container
begin

text \<open>
  What the container promises: resolution ends, it succeeds if no service needs itself, a cycle is reported, and a service that is not transient has one instance.
\<close>

section \<open>What resolution leaves alone\<close>

text \<open>Only instances of types that are not being resolved are added, and none is replaced.\<close>

definition extends :: "string list \<Rightarrow> ServiceContainer \<Rightarrow> ServiceContainer \<Rightarrow> bool" where
  "extends resolving c c' \<longleftrightarrow> sc_descriptors c' = sc_descriptors c \<and> sc_frozen c' = sc_frozen c \<and> sc_disposed c' = sc_disposed c \<and>
     sc_released c' = sc_released c \<and> sc_created c \<le> sc_created c' \<and>
     (\<forall>t x. dict_get (sc_instances c) t = Some x \<longrightarrow> dict_get (sc_instances c') t = Some x) \<and>
     (\<forall>t \<in> set resolving. dict_get (sc_instances c') t = dict_get (sc_instances c) t)"

lemma extends_refl [simp]: "extends resolving c c"
  by (simp add: extends_def)

lemma extends_trans: "extends r c c1 \<Longrightarrow> extends r c1 c2 \<Longrightarrow> extends r c c2"
  by (auto simp: extends_def)

lemma extends_mono: "extends (t # r) c c' \<Longrightarrow> extends r c c'"
  by (auto simp: extends_def)

lemma keep_extends:
  assumes "extends (t # r) c c'" "t \<notin> set r" "dict_get (sc_instances c) t = None" "keep_instance t (q, c') = (q', c'')"
  shows "extends r c c''"
proof (cases "\<exists>x. q = Inr (Some x)")
  case True
  then obtain x where "c'' = c'\<lparr>sc_instances := dict_set t x (sc_instances c')\<rparr>" using assms(4) by (auto simp: keep_instance_def)
  then show ?thesis using assms(1-3) by (auto simp: extends_def dict_get_set)
next
  case False
  then have "c'' = c'" using assms(4) by (auto simp: keep_instance_def split: sum.splits option.splits)
  then show ?thesis using extends_mono [OF assms(1)] by simp
qed

lemma resolve_extends: "extends res c (snd (resolve_type order ds res t c))" "extends res c (snd (run_factory order ds res f c))"
proof (induction order ds res t c and order ds res f c rule: resolve_type_run_factory.induct)
  case (1 order ds res t c)
  show ?case
  proof (cases "dict_get ds t")
    case None
    then show ?thesis by (subst resolve_type.simps) simp
  next
    case (Some d)
    obtain q c1 where r: "run_factory order ds (t # res) (sd_factory d) c = (q, c1)" by (rule prod.exhaust)
    obtain q' c2 where k: "keep_instance t (q, c1) = (q', c2)" by (rule prod.exhaust)
    have "extends (t # res) c c1" if "t \<notin> set res" "sd_lifetime d = TRANSIENT \<or> dict_get (sc_instances c) t = None"
      using 1 Some that r by fastforce
    then show ?thesis using Some r k keep_extends [of t res c c1 q q' c2] extends_mono [of t res c c1] by (subst resolve_type.simps) (auto split: option.split)
  qed
next
  case (5 order ds res t k c)
  obtain r c1 where r: "resolve_type order ds res t c = (r, c1)" by (rule prod.exhaust)
  then show ?case using 5 extends_trans [of res c c1] by auto
qed (simp_all add: new_obj_def extends_def)

lemma resolve_instance:
  assumes "resolve_type order ds res t c = (Inr (Some x), c')" "dict_get ds t = Some d" "sd_lifetime d \<noteq> TRANSIENT"
  shows "dict_get (sc_instances c') t = Some x"
  using assms by (subst (asm) resolve_type.simps)
    (auto simp: keep_instance_def dict_get_set split: if_splits option.splits prod.splits sum.splits)

lemma resolve_known: "dict_get ds t = Some d \<Longrightarrow> sd_lifetime d \<noteq> TRANSIENT \<Longrightarrow> t \<notin> set res \<Longrightarrow> dict_get (sc_instances c) t = Some x \<Longrightarrow>
    resolve_type order ds res t c = (Inr (Some x), c)"
  by (subst resolve_type.simps) simp

section \<open>One instance\<close>

datatype container_call =
    KGet string | KOptional string | KRegister string factory ServiceLifetime | KInstance string "obj option" | KService string ServiceLifetime string "ctor_param list"
  | KReplace string factory ServiceLifetime | KFreeze | KHealth string | KValidate | KScope string ServiceScope

fun call_container ::
  "(string list \<Rightarrow> string list) \<Rightarrow> (string \<Rightarrow> bool) \<Rightarrow> (obj \<Rightarrow> bool result option) \<Rightarrow> container_call \<Rightarrow> ServiceContainer \<Rightarrow> ServiceContainer" where
  "call_container order disposable healthy (KGet t) c = snd (sc_get order t c)"
| "call_container order disposable healthy (KOptional t) c = snd (get_optional order t c)"
| "call_container order disposable healthy (KRegister t f l) c = snd (sc_register t f l c)"
| "call_container order disposable healthy (KInstance t x) c = snd (register_instance t x c)"
| "call_container order disposable healthy (KService t l cls ps) c = snd (service t l cls ps c)"
| "call_container order disposable healthy (KReplace t f l) c = snd (register_or_replace disposable t f l c)"
| "call_container order disposable healthy KFreeze c = sc_freeze c"
| "call_container order disposable healthy (KHealth t) c = snd (check_health order healthy t c)"
| "call_container order disposable healthy KValidate c = snd (sc_validate order c)"
| "call_container order disposable healthy (KScope t s) c = snd (snd (scope_get order t s c))"

text \<open>The service has this instance.\<close>

definition settled :: "string \<Rightarrow> obj \<Rightarrow> ServiceContainer \<Rightarrow> bool" where
  "settled t x c \<longleftrightarrow> dict_get (sc_instances c) t = Some x \<and> (\<exists>d. dict_get (sc_descriptors c) t = Some d \<and> sd_lifetime d \<noteq> TRANSIENT)"

lemma extends_settled: "extends r c c' \<Longrightarrow> settled t x c \<Longrightarrow> settled t x c'"
  by (auto simp: extends_def settled_def)

lemma try_resolve_extends: "extends [] c (snd (try_resolve order t c))"
proof (cases "dict_get (sc_descriptors c) t")
  case (Some d)
  have "extends [t] c (snd (run_factory order (sc_descriptors c) [t] (sd_factory d) c))" by (rule resolve_extends)
  then show ?thesis using Some extends_mono by (simp add: try_resolve_def)
qed (simp add: try_resolve_def)

lemma answers_extends: "(\<And>x c. extends [] c (snd (f x c))) \<Longrightarrow> extends [] c (snd (answers f xs c))"
proof (induction xs arbitrary: c)
  case (Cons x xs)
  then show ?case using extends_trans [of "[]" c "snd (f x c)"] by (simp add: split_def)
qed simp

lemma get_extends: "extends [] c (snd (sc_get order t c))"
  unfolding sc_get_def by (rule resolve_extends)

lemma scope_extends: "extends [] c (snd (snd (scope_get order t s c)))"
  using get_extends [of c order t] resolve_extends(2) [of "[]" c order "sc_descriptors c"]
  by (auto simp: scope_get_def split: option.splits ServiceLifetime.splits prod.splits sum.splits) (metis snd_conv)+

lemma put_settled: "settled t x c \<Longrightarrow> u \<noteq> t \<Longrightarrow> settled t x (put_descriptor u f l inst c)"
  by (auto simp: settled_def put_descriptor_def dict_get_set dict_get_pop split: option.split)

lemma call_settled:
  assumes "settled t x c" "\<forall>f l. k \<noteq> KReplace t f l"
  shows "settled t x (call_container order disposable healthy k c)"
proof -
  have other: "\<not> dict_has (sc_descriptors c) u \<Longrightarrow> u \<noteq> t" for u using assms(1) by (auto simp: settled_def dict_has_def)
  have get: "settled t x (snd (sc_get order u c))" for u using extends_settled [OF get_extends assms(1)] .
  show ?thesis
  proof (cases k)
    case (KOptional u)
    have "snd (get_optional order u c) = snd (sc_get order u c)" by (auto simp: get_optional_def split: prod.splits sum.splits)
    then show ?thesis using KOptional get by simp
  next
    case (KHealth u)
    have "snd (check_health order healthy u c) = snd (sc_get order u c)" by (auto simp: check_health_def split: prod.splits sum.splits option.splits)
    then show ?thesis using KHealth get by simp
  next
    case KValidate
    have "extends [] c (snd (sc_validate order c))" using answers_extends [of "try_resolve order" c, OF try_resolve_extends] by (simp add: sc_validate_def split_def)
    then show ?thesis using KValidate extends_settled assms by simp
  next
    case (KScope u s)
    then show ?thesis using extends_settled [OF scope_extends assms(1)] by simp
  next
    case (KReplace u f l)
    have "settled t x (release_obj disposable y c)" for y using assms(1) by (simp add: settled_def release_obj_def)
    then show ?thesis using KReplace assms put_settled by (auto simp: register_or_replace_def Let_def split: option.split)
  qed (use assms get put_settled other in \<open>auto simp: sc_register_def register_instance_def service_def sc_freeze_def settled_def\<close>)
qed

text \<open>C26. A container keeps one instance of a service that is not transient, until the service is replaced or the container disposed of: once it was resolved to an object from
  the container itself, it is resolved to that object from the container after any further resolutions, registrations, replacements of other services, validations, health
  checks, freezing and uses of scopes. (A scope makes its own instance of a scoped service.)\<close>

theorem one_instance:
  assumes "sc_get order t c = (Inr (Some x), c1)" "dict_get (sc_descriptors c) t = Some d" "sd_lifetime d \<noteq> TRANSIENT"
    "\<forall>k \<in> set ks. \<forall>f l. k \<noteq> KReplace t f l"
  shows "fst (sc_get order t (fold (call_container order disposable healthy) ks c1)) = Inr (Some x)"
proof -
  have "extends [] c c1" using get_extends [of c order t] assms(1) by simp
  then have "settled t x c1" using resolve_instance [OF assms(1) [unfolded sc_get_def] assms(2,3)] assms(2,3) by (auto simp: settled_def extends_def)
  then have "settled t x (fold (call_container order disposable healthy) ks c1)" using assms(4) by (induction ks arbitrary: c1) (simp_all add: call_settled)
  then show ?thesis by (auto simp: settled_def sc_get_def resolve_known)
qed

section \<open>Services that do not need themselves\<close>

text \<open>A factory that asks only for types of \<open>ts\<close> and ends with an object if it is given what it asks for.\<close>

primrec completes :: "string set \<Rightarrow> factory \<Rightarrow> bool" where
  "completes ts (Give cls) = True"
| "completes ts (Exist x) = True"
| "completes ts (Fail e) = False"
| "completes ts (Ask t k) = (t \<in> ts \<and> (\<forall>x. completes ts (k (Inr x))))"

lemma run_completes:
  assumes "completes ts f" "\<And>t c. t \<in> ts \<Longrightarrow> \<exists>x c'. resolve_type order ds res t c = (Inr x, c')"
  shows "\<exists>x c'. run_factory order ds res f c = (Inr x, c')"
  using assms(1)
proof (induction f arbitrary: c)
  case (Ask t k)
  obtain x c' where r: "resolve_type order ds res t c = (Inr x, c')" using assms(2) [of t c] Ask.prems by auto
  have "completes ts (k (Inr x))" using Ask.prems by simp
  then show ?case using Ask.IH [of "k (Inr x)" c'] r by simp
qed (auto simp: new_obj_def)

lemma resolve_completes:
  assumes "\<forall>t d. dict_get ds t = Some d \<longrightarrow> completes {u. dict_has ds u \<and> rank u < rank t} (sd_factory d)"
  shows "dict_has ds t \<Longrightarrow> \<forall>u \<in> set res. rank t < (rank u :: nat) \<Longrightarrow> \<exists>x c'. resolve_type order ds res t c = (Inr x, c')"
proof (induction "rank t" arbitrary: t res c rule: less_induct)
  case less
  obtain d where d: "dict_get ds t = Some d" using less.prems(1) by (auto simp: dict_has_def)
  have "\<exists>x c'. run_factory order ds (t # res) (sd_factory d) c = (Inr x, c')"
  proof (rule run_completes)
    show "completes {u. dict_has ds u \<and> rank u < rank t} (sd_factory d)" using assms d by blast
    fix u c
    assume "u \<in> {u. dict_has ds u \<and> rank u < rank t}"
    then show "\<exists>x c'. resolve_type order ds (t # res) u c = (Inr x, c')" using less.hyps [of u "t # res" c] less.prems(2) by fastforce
  qed
  then obtain x c' where r: "run_factory order ds (t # res) (sd_factory d) c = (Inr x, c')" by blast
  have "t \<notin> set res" using less.prems(2) by auto
  then show ?case using d r by (subst resolve_type.simps) (cases x; auto simp: keep_instance_def split: option.split)
qed

text \<open>C24. If no service needs itself, every service can be resolved: if the registered types can be ranked so that each factory asks only for registered types of lower rank
  and makes its object from what it is given, then every registered type is resolved, whatever was resolved before.\<close>

theorem acyclic_resolves:
  assumes "\<forall>t d. dict_get (sc_descriptors c) t = Some d \<longrightarrow> completes {u. is_registered u c \<and> (rank u :: nat) < rank t} (sd_factory d)" "is_registered t c"
  shows "\<exists>x c'. sc_get order t c = (Inr x, c') \<and> sc_descriptors c' = sc_descriptors c"
proof -
  have "\<exists>x c'. sc_get order t c = (Inr x, c')"
    unfolding sc_get_def by (rule resolve_completes [where rank = rank]) (use assms in \<open>simp_all add: is_registered_def\<close>)
  then show ?thesis using get_extends [of c order t] by (auto simp: extends_def)
qed

section \<open>Services that need themselves\<close>

text \<open>A factory that first asks for a service and passes on its exceptions.\<close>

definition needs :: "(string, ServiceDescriptor) dict \<Rightarrow> string \<Rightarrow> string \<Rightarrow> bool" where
  "needs ds t u \<longleftrightarrow> (\<exists>d k. dict_get ds t = Some d \<and> sd_factory d = Ask u k \<and> (\<forall>e. k (Inl e) = Fail e))"

fun needs_path :: "(string, ServiceDescriptor) dict \<Rightarrow> string list \<Rightarrow> string \<Rightarrow> bool" where
  "needs_path ds [] v = True"
| "needs_path ds [t] v = needs ds t v"
| "needs_path ds (t # u # ts) v = (needs ds t u \<and> needs_path ds (u # ts) v)"

definition circular_error :: "py_exc \<Rightarrow> bool" where
  "circular_error e \<longleftrightarrow> exc_type e = ''ServiceResolutionError''"

lemma resolve_needs:
  assumes "needs ds t u" "t \<notin> set res" "dict_get (sc_instances c) t = None" "resolve_type order ds (t # res) u c = (Inl e, c)"
  shows "resolve_type order ds res t c = (Inl e, c)"
  using assms by (subst resolve_type.simps) (auto simp: needs_def keep_instance_def)

lemma resolve_cycle:
  "needs_path ds ts v \<Longrightarrow> ts \<noteq> [] \<Longrightarrow> distinct ts \<Longrightarrow> set ts \<inter> set res = {} \<Longrightarrow> v \<in> set res \<union> set ts \<Longrightarrow> dict_has ds v \<Longrightarrow>
   \<forall>t \<in> set ts. dict_get (sc_instances c) t = None \<Longrightarrow> \<exists>e. resolve_type order ds res (hd ts) c = (Inl e, c) \<and> circular_error e"
proof (induction ds ts v arbitrary: res rule: needs_path.induct)
  case (2 ds t v)
  obtain d where d: "dict_get ds v = Some d" using 2 by (auto simp: dict_has_def)
  have "resolve_type order ds (t # res) v c = (Inl (circular order (t # res) v), c)" using 2 d by (subst resolve_type.simps) auto
  then have "resolve_type order ds res t c = (Inl (circular order (t # res) v), c)" using resolve_needs [of ds t v res c order] 2 by auto
  then show ?case by (simp add: circular_error_def circular_def)
next
  case (3 ds t u ts v)
  have "\<exists>e. resolve_type order ds (t # res) (hd (u # ts)) c = (Inl e, c) \<and> circular_error e" by (rule 3(1)) (use 3 in auto)
  then obtain e where "resolve_type order ds (t # res) u c = (Inl e, c)" "circular_error e" by auto
  then show ?case using resolve_needs [of ds t u res c order e] 3 by auto
qed simp

text \<open>C25. A cycle of services that pass exceptions on is reported: if the factory of each service on a path first asks for the next one, the last one for one on the path, each
  passes the exception of that request on, and none of them has an instance yet, then resolving the first raises \<^verbatim>\<open>ServiceResolutionError\<close> and leaves the container as it was.\<close>

theorem cycle_reported:
  assumes "needs_path (sc_descriptors c) (t # ts) v" "distinct (t # ts)" "v \<in> set (t # ts)" "\<forall>u \<in> set (t # ts). dict_get (sc_instances c) u = None"
  shows "\<exists>e. sc_get order t c = (Inl e, c) \<and> circular_error e"
proof -
  have "is_registered u c" if "needs_path (sc_descriptors c) us v" "u \<in> set us" for u us
    using that by (induction "sc_descriptors c" us v rule: needs_path.induct) (auto simp: needs_def is_registered_def dict_has_def)
  then show ?thesis using resolve_cycle [OF assms(1) _ assms(2), of "[]" c order] assms by (simp add: sc_get_def is_registered_def)
qed

section \<open>Where the container is not what it says\<close>

text \<open>A parameter with a default takes the exception for a missing service: a cycle through it is not reported.\<close>

lemma default_hides_cycle:
  defines "a \<equiv> \<lparr>cp_name = ''b'', cp_annotation = Some ''B'', cp_has_default = True, cp_variadic = False\<rparr>"
    and "b \<equiv> \<lparr>cp_name = ''a'', cp_annotation = Some ''A'', cp_has_default = False, cp_variadic = False\<rparr>"
  shows "\<exists>x c. sc_get order ''A'' (sc_init\<lparr>sc_descriptors :=
     [(''A'', \<lparr>sd_factory = resolve_constructor ''A'' [a] True, sd_lifetime = SINGLETON\<rparr>),
      (''B'', \<lparr>sd_factory = resolve_constructor ''B'' [b] True, sd_lifetime = SINGLETON\<rparr>)]\<rparr>) = (Inr x, c)"
  by (simp add: a_def b_def sc_get_def sc_init_def resolve_type.simps keep_instance_def new_obj_def circular_def)

definition given_or_fail :: "string \<Rightarrow> factory" where
  "given_or_fail t = Ask t (\<lambda>r. case r of Inr x \<Rightarrow> Exist x | Inl e \<Rightarrow> Fail e)"

definition demo_container :: "ServiceLifetime \<Rightarrow> ServiceContainer" where
  "demo_container l = sc_init\<lparr>sc_descriptors := [(''A'', \<lparr>sd_factory = Give ''A'', sd_lifetime = l\<rparr>), (''B'', \<lparr>sd_factory = given_or_fail ''A'', sd_lifetime = l\<rparr>)]\<rparr>"

lemmas container_simps = demo_container_def sc_init_def given_or_fail_def new_obj_def keep_instance_def resolve_type.simps sc_get_def

text \<open>A validation makes and keeps the instances that the services ask for.\<close>

lemma validation_keeps_instances: "sc_instances (snd (sc_validate order (demo_container SINGLETON))) = [(''A'', Obj 1 ''A'')]"
  by (simp add: sc_validate_def try_resolve_def container_simps dict_keys_def)

text \<open>What a scoped service asks for comes from the container: two scopes have different instances of \<open>A\<close>, and share the instance of \<open>A\<close> that their \<open>B\<close> was given.\<close>

lemma scopes_share_dependencies:
  defines "c \<equiv> demo_container SCOPED"
  shows "(case scope_get order ''A'' create_scope c of (r1, _, c1) \<Rightarrow> case scope_get order ''A'' create_scope c1 of (r2, _, c2) \<Rightarrow> r1 \<noteq> r2) \<and>
    (case scope_get order ''B'' create_scope c of (r1, _, c1) \<Rightarrow> case scope_get order ''B'' create_scope c1 of (r2, _, c2) \<Rightarrow> r1 = r2)"
  by (simp add: c_def scope_get_def create_scope_def container_simps)

text \<open>A container that is set while it is the global one is empty afterwards.\<close>

lemma set_again_empties: "\<not> sc_disposed c \<Longrightarrow> \<exists>c'. fst (set_container disposable None (Some c)) = Some c' \<and> sc_disposed c' \<and> sc_descriptors c' = []"
  by (simp add: set_container_def sc_dispose_def Let_def)

section \<open>Examples\<close>

theorem one_instance_witness:
  "fst (sc_get (\<lambda>ts. ts) ''B'' (fold (call_container (\<lambda>ts. ts) (\<lambda>_. False) (\<lambda>_. None)) [KGet ''A'', KReplace ''A'' (Give ''A'') SINGLETON, KValidate] (snd (sc_get (\<lambda>ts. ts) ''B'' (demo_container SINGLETON))))) = Inr (Some (Obj 0 ''A''))"
  by (rule one_instance [where c = "demo_container SINGLETON" and d = "\<lparr>sd_factory = given_or_fail ''A'', sd_lifetime = SINGLETON\<rparr>"]) (simp_all add: container_simps prod_eq_iff)

theorem acyclic_resolves_witness: "\<exists>x c'. sc_get (\<lambda>ts. ts) ''B'' (demo_container TRANSIENT) = (Inr x, c') \<and> sc_descriptors c' = sc_descriptors (demo_container TRANSIENT)"
  by (rule acyclic_resolves [where rank = "\<lambda>t. if t = ''B'' then 1 else 0"]) (auto simp: demo_container_def is_registered_def dict_has_def given_or_fail_def split: if_splits)

definition cyclic_container :: ServiceContainer where
  "cyclic_container = sc_init\<lparr>sc_descriptors := [(''A'', \<lparr>sd_factory = given_or_fail ''B'', sd_lifetime = SINGLETON\<rparr>), (''B'', \<lparr>sd_factory = given_or_fail ''A'', sd_lifetime = TRANSIENT\<rparr>)]\<rparr>"

theorem cycle_reported_witness: "\<exists>e. sc_get (\<lambda>ts. ts) ''A'' cyclic_container = (Inl e, cyclic_container) \<and> circular_error e"
  by (rule cycle_reported [where ts = "[''B'']" and v = "''A''"]) (simp_all add: cyclic_container_def sc_init_def needs_def given_or_fail_def)

end
