(* ===== verification/Spec2Isabelle.thy ===== *)
theory Spec2Isabelle
  imports Shared_State Graph_Subgraph Graph_Schema Checkpoint_Store Circuit_Breaker Retry Rbac Versioning State_Machine Budget
    Cached_Repository Sqlite_Repository Unit_Properties Event_Properties Scheduler Change_Properties Cache_Properties Container_Properties
begin

text \<open>
  \<^bold>\<open>Verification of the victor framework.\<close> Victor is a framework for coding assistants written in
  Python. Its own logic is a workflow engine (graphs of nodes over a shared state, with
  checkpoints, interrupts and parallel branches) and the services around it: resilience,
  access control, versions and schedules of workflows, generic state machines, the budgets of a session, and the
  persistence of entities, of units of work and of events, the undo history of the files that a session changes,
  caches and the container of its services.
  This development models these parts from the source and proves what they promise. Paths are
  relative to \<^verbatim>\<open>src/victor/\<close>.

  \<^bold>\<open>The engine.\<close> A graph is described by the builder or by a serialized schema, validated and
  compiled; a run starts from an input or a checkpoint, executes one node at a time (or the
  branches of a fan-out), asks the edges for the next node, and saves checkpoints on the way.

    \<^item> \<open>Graph_Algorithms\<close> (\<^verbatim>\<open>core/graph_algorithms.py\<close>): reachability, cycle detection and Kahn's
      topological sort, with termination by measures on unvisited nodes; compared with the
      reflexive transitive closure, acyclicity and topological orders.
    \<^item> \<open>Graph_State\<close> (\<^verbatim>\<open>framework/graph_state.py\<close>): the copy-on-write wrapper; every call refines
      the call on a plain dictionary, and the thread guard is exact.
    \<^item> \<open>Py_Heap\<close>, \<open>Shared_State\<close>: a heap of Python's lists and dictionaries with references, \<^verbatim>\<open>copy.deepcopy\<close> on it
      and code that changes whatever it can reach; over it the copy-on-write wrapper, the branches of a fan-out
      (\<^verbatim>\<open>framework/graph.py\<close>) and the checkpointers. The source of a wrapper, the branches of a fan-out and the
      checkpoints in memory are isolated from the code around them, because of the deep copies; lemmas show what is
      shared where there is no copy (a nested value read before the first write, the adapter on the policy store).
      The other theories treat states as values, which these results justify.
    \<^item> \<open>Graph_Merge\<close> (\<^verbatim>\<open>framework/graph_merge.py\<close>): default and strict merger of branch states.
    \<^item> \<open>Graph_Checkpoint\<close>, \<open>Checkpoint_Store\<close> (\<^verbatim>\<open>framework/graph_checkpoint.py\<close>,
      \<^verbatim>\<open>framework/rl/checkpoint_store.py\<close>): checkpoints, the checkpointer protocol as the locales
      \<open>checkpointer\<close> and \<open>latest_checkpoint\<close>, implemented by the in-memory checkpointer and by the
      adapter on the policy store with its retention, listing and differences. The adapter's load is exact as long as
      nobody changes a state after it was saved.
    \<^item> \<open>Execution_Checkpoint\<close> (\<^verbatim>\<open>agent/execution_checkpoint.py\<close>): the envelope of an agent's state.
    \<^item> \<open>Graph_Validation\<close> (\<^verbatim>\<open>framework/graph_validation.py\<close>): typed states; the structural check decides an
      inductive typing relation.
    \<^item> \<open>Graph_Builder\<close>, \<open>Graph_Schema\<close> (\<^verbatim>\<open>framework/graph.py\<close>, \<^verbatim>\<open>graph_primitives.py\<close>, \<^verbatim>\<open>config.py\<close>):
      configuration, edges and nodes, the builder, validation, compilation, routing; graphs from
      serialized schemas.
    \<^item> \<open>Graph_Execution\<close> (\<^verbatim>\<open>framework/graph_execution.py\<close>): iteration limit, timeout, interrupts, the
      node executor, the checkpoint manager and the event emitter.
    \<^item> \<open>Graph_Runtime\<close>, \<open>Graph_Properties\<close>, \<open>Graph_Subgraph\<close> (\<^verbatim>\<open>framework/graph_runtime.py\<close>, the run
      methods of \<^verbatim>\<open>graph.py\<close>): the loop of a run in a state monad with exceptions, \<^verbatim>\<open>invoke\<close>,
      \<^verbatim>\<open>stream\<close>, \<^verbatim>\<open>replay_from\<close>, parallel branches and subgraphs. A Hoare-style triple and its
      rules carry the proofs that the loop of every run is bounded (the branches of a fan-out are not counted by the
      code), follows the routing of its edges, visits
      a node of an acyclic fan-out once, can be resumed exactly where it paused, and streams what
      it would return.

  \<^bold>\<open>The services.\<close>

    \<^item> \<open>Circuit_Breaker\<close> (\<^verbatim>\<open>core/circuit_breaker.py\<close>, \<^verbatim>\<open>providers/circuit_breaker.py\<close>): the breaker, its
      registry and its legal histories; it trips at the threshold, fails fast while open, and
      recovers after the timeout.
    \<^item> \<open>Retry\<close> (\<^verbatim>\<open>core/retry.py\<close>): strategies as a locale of policies, the executor loop as a partial
      function that is proved to return, the exact number of attempts, the bounds of the delays. A power beyond the doubles raises
      before the cap is applied, and leaves the executor.
    \<^item> \<open>Rbac\<close> (\<^verbatim>\<open>security/auth/rbac.py\<close>): permissions, roles, users, the loader of configurations with
      its errors, and what the checks answer after a document of the documented shape.
    \<^item> \<open>Versioning\<close> (\<^verbatim>\<open>workflows/versioning.py\<close>): version strings with their parser, the registry, and
      the breadth-first search for a shortest chain of migrations.
    \<^item> \<open>State_Machine\<close> (\<^verbatim>\<open>storage/state/machine.py\<close>): stages and transitions, compared with paths of an
      inductive step relation.
    \<^item> \<open>Tool_Names\<close>, \<open>Budget\<close> (\<^verbatim>\<open>tools/core_tool_aliases.py\<close>, \<^verbatim>\<open>agent/budget/\<close>,
      \<^verbatim>\<open>agent/budget_manager.py\<close>): canonical tool names, and the accounting of tool calls against
      budgets with multipliers, callbacks and the criteria for an early end.
    \<^item> \<open>Repository\<close>, \<open>Cached_Repository\<close>, \<open>Sqlite_Repository\<close> (\<^verbatim>\<open>core/repository.py\<close>): entities, specifications,
      and the contract of a repository, kept by the one in memory, by a cache with expiry over any other and by the one in an SQLite
      table. A cache gives the answers that the repository in memory behind it would give, and no update of a table is lost.
    \<^item> \<open>Unit_Of_Work\<close>, \<open>Unit_Invariant\<close>, \<open>Unit_Properties\<close> (\<^verbatim>\<open>core/unit_of_work.py\<close>): tracked entities over a heap of
      shared objects, commit, rollback, the composite unit. A commit stores exactly what was registered, a rollback
      restores the attributes, and the bookkeeping of a unit stays consistent as long as no identifier is assigned.
    \<^item> \<open>Event_Sourcing\<close>, \<open>Sqlite_Events\<close>, \<open>Event_Properties\<close> (\<^verbatim>\<open>core/event_sourcing.py\<close>): events, aggregates rebuilt from them, the
      stores in memory and in SQLite, snapshots, the dispatcher. Aggregates come back from their store, the log of a stream is what was
      accepted in order, and the two stores cannot be told apart. \<open>Json_Values\<close> says which values JSON gives back.
    \<^item> \<open>Calendar\<close>, \<open>Cron\<close>, \<open>Cron_Runs\<close>, \<open>Scheduler\<close> (\<^verbatim>\<open>workflows/scheduler.py\<close>): the dates of the standard library, proved to be the Gregorian
      calendar; cron expressions, parsed to what standard cron makes of them unless both kinds of days are restricted; the search for the next run, which finds the first one within 365 days; the scheduler
      with its tasks as a step relation, whose reachable states never have more executions of a workflow than are permitted.
    \<^item> \<open>Change_Replay\<close>, \<open>Change_Undo\<close>, \<open>Change_History\<close>, \<open>Change_Properties\<close> (\<^verbatim>\<open>core/change_tracker.py\<close>, \<^verbatim>\<open>core/undo_database.py\<close>): groups of
      changes of files, replayed on a disk whose system calls may fail, behind a guard against the changes of others; the undo and redo stacks and
      their tables. A replay is all or nothing, an undo and its redo are the identity on plain texts, what others wrote at a path that is not renamed is left alone, a commit is
      all or nothing whatever the database does, and as long as the saves of undo and redo succeed the database holds the undo stack.
    \<^item> \<open>Cache\<close>, \<open>Cache_Properties\<close> (\<^verbatim>\<open>core/cache.py\<close>): the base class as an extensible record with its abstract methods as a record of functions, the least
      recently used cache, the cache with times to live, namespaces, memoised functions. A cache never gives a wrong answer, an entry stays as long as fewer other keys than fit are used between its uses,
      namespaces are isolated, and a memoised function cannot be told from the function.
    \<^item> \<open>Container\<close>, \<open>Container_Properties\<close> (\<^verbatim>\<open>core/container.py\<close>): services with their lifetimes, scopes, and resolution as a mutual recursion of types and
      factories. Resolution ends by a measure on the types not being resolved and the rest of a factory; it succeeds if no service needs itself, reports a cycle
      whose factories pass the error on, and the root container gives a service that is not transient one instance until it is replaced.

  \<^bold>\<open>How code becomes definitions.\<close> A class is a record of its attributes, a method a function from
  the state to its result and the new state, an enumeration a datatype. Dictionaries are
  association lists in insertion order (\<open>Prelude\<close>), since the code iterates over them. An
  exception is a value of \<open>py_exc\<close>, or of \<open>raised\<close> where its classes matter, and every branch that
  raises is in the model. Where a value of an unexpected type would be accepted by the language
  and not by the record, the model returns \<open>None\<close> (outside the model), or an error where the code
  leaves out what it cannot read (\<open>Change_History\<close>). Clocks are functions of the
  number of readings made so far; a component that reads the clock twice gets two values (except when a checkpoint is
  saved, whose identifier and time stamp are taken at one instant). The states of a run are dictionaries; the branches of the code
  for pydantic objects are not modelled. Floats are reals, and a power that would overflow raises (\<open>Retry\<close>); where a float is truncated (\<open>Budget\<close>) each operation is rounded by a parameter.
  Code outside the repository, and callbacks given by a user, are parameters: node functions,
  conditions, validators, detectors, the YAML parser, digests, printing of floats, JSON, the text of dates, the iteration order of
  sets, the handlers of an aggregate class; that their contracts can be met is shown by instances. Integers are
  unbounded, as in Python; strings are over characters up to 255, so that the case
  mappings outside Latin-1 are not seen.

  \<^bold>\<open>Bounds and termination.\<close> Every recursion of the model ends: searches by a measure on unvisited
  nodes, the run of a graph by the distance to the iteration limit (the loop stops at the limit, so no
  fuel is chosen), the migration search by versions not yet seen. The retry loop is a partial
  function into option and is proved to return for the strategies of the source. The search for the next run of a schedule makes the
  525600 steps that the code makes. The resolution of a service ends because a type that is being resolved is not entered again. Subgraphs nest
  by the depth of the call, which the code limits.

  \<^bold>\<open>Interfaces.\<close> \<open>registry\<close>, \<open>guarded_machine\<close> and \<open>invariant_machine\<close> (\<open>Prelude\<close>) state what a keyed store and a machine
  with an invariant, kept by all or by the admitted steps, promise; they are interpreted on the builder, the breaker, access control,
  versions, the state machine, the budgets, the checkpoint store and the units of work. \<open>checkpointer\<close> extends to a registry and to
  \<open>latest_checkpoint\<close> by sublocales. \<open>retry_policy\<close> and \<open>counting_policy\<close> (\<open>Retry\<close>) are interpreted
  on the strategies. \<open>repository\<close> is interpreted on the repositories in memory and in a table; \<open>cached_repository\<close> is a
  repository over any other by a sublocale. \<open>event_store\<close> is interpreted on both event stores. \<open>cache_storage\<close> states what the
  abstract methods of a cache promise and is interpreted on both caches, as are \<open>memo_storage\<close> and \<open>namespaced_storage\<close>, which extend it. The properties are stated outside the locales, over the definitions.

  \<^bold>\<open>Not modelled.\<close> Logging and metrics that no result depends on. The command line and terminal
  interface, the clients of language models, the tools, code indexing and the evaluation
  harness, which are input and output; the statistical learners; the orchestration of prompts.
  Threads are modelled where the code tests for them (the guard of the copy-on-write state);
  the locks of the other components are taken as given, their methods run one after the other.
  Different paths are different files (\<open>Change_Replay\<close>): links, permissions and the files of a directory are not followed.
  Callbacks that call back into the object that calls them are outside the model. Candidates for extension: the intent patterns of \<^verbatim>\<open>agent/action_authorizer.py\<close>, and the
  compiler from YAML workflows to graphs (\<^verbatim>\<open>workflows/graph_compiler.py\<close>).
\<close>

end
